(* ===== verification/Prelude.thy ===== *)
theory Prelude
  imports Main "HOL-Library.Word" "HOL-Library.List_Lexorder"
begin

text \<open>
  Shared vocabulary of the eB-Tree development.

  \<^item> Machine integers are words of the width the C++ code declares; a \<open>std::string\<close>
    and a \<open>std::vector<uint8_t>\<close> are lists of bytes. The comparison operators of
    \<open>std::string\<close> compare unsigned bytes lexicographically, which is the order that
    \<open>HOL-Library.List_Lexorder\<close> puts on \<open>byte list\<close>.
  \<^item> \<open>status\<close> is the class \<open>Status\<close> of \<^verbatim>\<open>cpp/include/ebtree/common/status.h\<close>; a call
    that can fail returns \<open>status + 'a\<close>, \<open>Inl\<close> carrying the non-ok status.
  \<^item> \<open>le_bytes\<close> and \<open>le_val\<close> are the little-endian byte image of an integer, which
    \<open>memcpy\<close> and \<open>ostream::write\<close> of an integer produce on the supported targets.
  \<^item> the locale \<open>record_codec\<close> is the contract of every append-only file of the
    program: records are self-delimiting, so a scan of the concatenated images gives
    the records back and a torn tail loses only the torn record.
\<close>

section \<open>Types\<close>

type_synonym u8 = "8 word"
type_synonym u16 = "16 word"
type_synonym u32 = "32 word"
type_synonym u64 = "64 word"
type_synonym byte = "8 word"
type_synonym bytes = "byte list"

named_theorems layout_simps \<open>lengths and offsets of byte images\<close>
named_theorems codec_simps \<open>decoding equations of byte images\<close>

section \<open>Status\<close>

datatype status_code =
    KOk | KInvalidArgument | KNotFound | KCorrupt | KStaleSummary | KCorruptPage
  | KIoError | KInternal | KConflict

record status =
  st_code :: status_code
  st_message :: string

definition Status_Ok :: status where
  "Status_Ok = \<lparr>st_code = KOk, st_message = []\<rparr>"

definition Status_InvalidArgument :: "string \<Rightarrow> status" where
  "Status_InvalidArgument m = \<lparr>st_code = KInvalidArgument, st_message = m\<rparr>"

definition Status_NotFound :: "string \<Rightarrow> status" where
  "Status_NotFound m = \<lparr>st_code = KNotFound, st_message = m\<rparr>"

definition Status_Corrupt :: "string \<Rightarrow> status" where
  "Status_Corrupt m = \<lparr>st_code = KCorrupt, st_message = m\<rparr>"

definition Status_StaleSummary :: "string \<Rightarrow> status" where
  "Status_StaleSummary m = \<lparr>st_code = KStaleSummary, st_message = m\<rparr>"

definition Status_CorruptPage :: "string \<Rightarrow> status" where
  "Status_CorruptPage m = \<lparr>st_code = KCorruptPage, st_message = m\<rparr>"

definition Status_IoError :: "string \<Rightarrow> status" where
  "Status_IoError m = \<lparr>st_code = KIoError, st_message = m\<rparr>"

definition Status_Internal :: "string \<Rightarrow> status" where
  "Status_Internal m = \<lparr>st_code = KInternal, st_message = m\<rparr>"

definition Status_Conflict :: "string \<Rightarrow> status" where
  "Status_Conflict m = \<lparr>st_code = KConflict, st_message = m\<rparr>"

definition status_ok :: "status \<Rightarrow> bool" where
  "status_ok s \<longleftrightarrow> st_code s = KOk"

lemmas status_defs =
  Status_Ok_def Status_InvalidArgument_def Status_NotFound_def Status_Corrupt_def
  Status_StaleSummary_def Status_CorruptPage_def Status_IoError_def Status_Internal_def
  Status_Conflict_def status_ok_def

type_synonym 'a res = "status + 'a"

section \<open>Little-endian images\<close>

fun le_bytes :: "nat \<Rightarrow> nat \<Rightarrow> bytes" where
  "le_bytes 0 n = []"
| "le_bytes (Suc k) n = word_of_nat n # le_bytes k (n div 256)"

fun le_val :: "bytes \<Rightarrow> nat" where
  "le_val [] = 0"
| "le_val (b # bs) = unat b + 256 * le_val bs"

lemma unat_bound: "unat (w :: 'a::len word) < 2 ^ LENGTH('a)"
  by (rule unsigned_less)

lemma unat_byte_bound [simp]: "unat (b :: byte) < 256"
  using unat_bound [of b] by simp

lemma length_le_bytes [simp, layout_simps]: "length (le_bytes k n) = k"
  by (induction k arbitrary: n) auto

lemma le_bytes_numeral: "le_bytes (numeral k) n = word_of_nat n # le_bytes (pred_numeral k) (n div 256)"
  by (simp only: numeral_eq_Suc [of k] le_bytes.simps)

lemma le_val_le_bytes: "le_val (le_bytes k n) = n mod 256 ^ k"
proof (induction k arbitrary: n)
  case (Suc k)
  have "unat (word_of_nat n :: byte) = n mod 256"
    by (simp add: unat_of_nat)
  then show ?case
    using Suc by (simp add: mod_mult2_eq)
qed simp

lemma le_val_bound: "le_val bs < 256 ^ length bs"
proof (induction bs)
  case (Cons b bs)
  have "Suc (le_val bs) \<le> 256 ^ length bs" using Cons by simp
  then have "256 * Suc (le_val bs) \<le> 256 * 256 ^ length bs" by (rule mult_le_mono2)
  moreover have "unat b < 256" by simp
  ultimately show ?case by (simp del: unat_byte_bound)
qed simp

lemma le_bytes_le_val: "length bs = k \<Longrightarrow> le_bytes k (le_val bs) = bs"
proof (induction bs arbitrary: k)
  case (Cons b bs)
  note b = unat_byte_bound [of b]
  then have "(unat b + 256 * le_val bs) div 256 = le_val bs" by simp
  moreover have "(word_of_nat (unat b + 256 * le_val bs) :: byte) = b"
    by (rule word_unat_eq_iff [THEN iffD2]) (simp add: unat_of_nat b del: of_nat_add of_nat_mult)
  ultimately show ?case
    using Cons by (cases k) (auto simp del: of_nat_add of_nat_mult)
qed simp

definition put_u16 :: "u16 \<Rightarrow> bytes" where "put_u16 w = le_bytes 2 (unat w)"
definition put_u32 :: "u32 \<Rightarrow> bytes" where "put_u32 w = le_bytes 4 (unat w)"
definition put_u64 :: "u64 \<Rightarrow> bytes" where "put_u64 w = le_bytes 8 (unat w)"

definition get_u16 :: "bytes \<Rightarrow> u16" where "get_u16 bs = word_of_nat (le_val (take 2 bs))"
definition get_u32 :: "bytes \<Rightarrow> u32" where "get_u32 bs = word_of_nat (le_val (take 4 bs))"
definition get_u64 :: "bytes \<Rightarrow> u64" where "get_u64 bs = word_of_nat (le_val (take 8 bs))"

lemma length_put [simp, layout_simps]:
  "length (put_u16 a) = 2" "length (put_u32 b) = 4" "length (put_u64 c) = 8"
  by (simp_all add: put_u16_def put_u32_def put_u64_def)

lemma take_append_exact: "length xs = n \<Longrightarrow> take n (xs @ ys) = xs"
  by simp

lemma get_put_u16 [simp, codec_simps]: "get_u16 (put_u16 w @ rest) = w"
proof -
  have "unat w < 2 ^ 16" using unat_bound [of w] by simp
  then show ?thesis
    by (simp add: get_u16_def put_u16_def take_append_exact le_val_le_bytes)
qed

lemma get_put_u32 [simp, codec_simps]: "get_u32 (put_u32 w @ rest) = w"
proof -
  have "unat w < 2 ^ 32" using unat_bound [of w] by simp
  then show ?thesis
    by (simp add: get_u32_def put_u32_def take_append_exact le_val_le_bytes)
qed

lemma get_put_u64 [simp, codec_simps]: "get_u64 (put_u64 w @ rest) = w"
proof -
  have "unat w < 2 ^ 64" using unat_bound [of w] by simp
  then show ?thesis
    by (simp add: get_u64_def put_u64_def take_append_exact le_val_le_bytes)
qed

lemmas get_put_whole [simp, codec_simps] =
  get_put_u16 [where rest = "[]", simplified]
  get_put_u32 [where rest = "[]", simplified]
  get_put_u64 [where rest = "[]", simplified]

lemma put_u16_inj: "put_u16 a = put_u16 b \<Longrightarrow> a = b"
  by (metis get_put_u16)

lemma put_u32_inj: "put_u32 a = put_u32 b \<Longrightarrow> a = b"
  by (metis get_put_u32)

lemma put_u64_inj: "put_u64 a = put_u64 b \<Longrightarrow> a = b"
  by (metis get_put_u64)

section \<open>Slices\<close>

text \<open>\<open>memcpy\<close> of \<open>n\<close> bytes from offset \<open>off\<close>, and of a block over offset \<open>off\<close>.\<close>

definition slice :: "nat \<Rightarrow> nat \<Rightarrow> 'a list \<Rightarrow> 'a list" where
  "slice off n xs = take n (drop off xs)"

definition overwrite :: "nat \<Rightarrow> 'a list \<Rightarrow> 'a list \<Rightarrow> 'a list" where
  "overwrite off blk xs = take off xs @ blk @ drop (off + length blk) xs"

lemma length_slice: "off + n \<le> length xs \<Longrightarrow> length (slice off n xs) = n"
  by (simp add: slice_def)

lemma length_overwrite: "off + length blk \<le> length xs \<Longrightarrow> length (overwrite off blk xs) = length xs"
  by (simp add: overwrite_def)

lemma slice_overwrite_same:
  "off \<le> length xs \<Longrightarrow> n = length blk \<Longrightarrow> slice off n (overwrite off blk xs) = blk"
  by (simp add: slice_def overwrite_def)

lemma slice_overwrite_before:
  "a + n \<le> off \<Longrightarrow> off \<le> length xs \<Longrightarrow> slice a n (overwrite off blk xs) = slice a n xs"
  by (simp add: slice_def overwrite_def min_def take_drop)

lemma slice_overwrite_after:
  assumes "off + length blk \<le> a" "off \<le> length xs"
  shows "slice a n (overwrite off blk xs) = slice a n xs"
  using assms by (simp add: slice_def overwrite_def)

text \<open>
  A random-access write through a \<open>std::fstream\<close> (\<open>seekp\<close>, \<open>write\<close>): a gap past the
  end of the file is filled with zero bytes. A \<open>fault\<close> says how a write ends: it
  completes, the file cannot be opened, or only the first \<open>n\<close> bytes of the block reach
  the file and the stream reports an error.
\<close>

datatype fault = NoFault | OpenFails | Torn nat

definition write_at :: "nat \<Rightarrow> bytes \<Rightarrow> bytes \<Rightarrow> bytes" where
  "write_at off blk xs = take off (xs @ replicate (off - length xs) 0) @ blk @ drop (off + length blk) xs"

lemma write_at_inside:
  "off \<le> length xs \<Longrightarrow> write_at off blk xs = overwrite off blk xs"
  by (simp add: write_at_def overwrite_def)

lemma length_write_at: "off + length blk \<le> length xs \<Longrightarrow> length (write_at off blk xs) = length xs"
  by (simp add: write_at_inside length_overwrite)

section \<open>Self-delimiting records\<close>

text \<open>
  \<open>scan_all\<close> is the loop of every file reader of the program: decode a record at the
  front, continue with the rest, stop at the first position that holds no whole record.
  \<open>None\<close> of the decoder is the \<open>break\<close> of the loop. The fuel is the number of bytes
  left, which is enough because a record takes at least one byte.
\<close>

fun scan_fuel :: "nat \<Rightarrow> (bytes \<Rightarrow> ('a \<times> bytes) option) \<Rightarrow> bytes \<Rightarrow> 'a list" where
  "scan_fuel 0 dec bs = []"
| "scan_fuel (Suc n) dec bs =
     (case dec bs of None \<Rightarrow> [] | Some (x, rest) \<Rightarrow> x # scan_fuel n dec rest)"

definition scan_all :: "(bytes \<Rightarrow> ('a \<times> bytes) option) \<Rightarrow> bytes \<Rightarrow> 'a list" where
  "scan_all dec bs = scan_fuel (length bs) dec bs"

text \<open>A decoder that always consumes input needs no more fuel than that.\<close>

lemma scan_fuel_enough:
  assumes shrink: "\<And>bs x rest. dec bs = Some (x, rest) \<Longrightarrow> length rest < length bs"
    and "length bs \<le> n" "length bs \<le> m" "dec [] = None"
  shows "scan_fuel n dec bs = scan_fuel m dec bs"
  using assms(2,3)
proof (induction n arbitrary: bs m)
  case 0
  then show ?case using assms(4) by (cases m) auto
next
  case (Suc n)
  show ?case
  proof (cases "dec bs")
    case None
    then show ?thesis by (cases m) auto
  next
    case (Some p)
    obtain x rest where p: "p = (x, rest)" by fastforce
    with Some shrink [of bs x rest] have "length rest < length bs" by simp
    then obtain k where k: "m = Suc k" "length rest \<le> n" "length rest \<le> k"
      using Suc.prems by (cases m) auto
    with Suc.IH [of rest k] Some p show ?thesis by simp
  qed
qed

lemma scan_all_unfold:
  assumes shrink: "\<And>bs x rest. dec bs = Some (x, rest) \<Longrightarrow> length rest < length bs" and "dec [] = None"
  shows "scan_all dec bs = (case dec bs of None \<Rightarrow> [] | Some (x, rest) \<Rightarrow> x # scan_all dec rest)"
proof (cases "length bs")
  case 0
  then show ?thesis using assms(2) by (simp add: scan_all_def)
next
  case (Suc n)
  have "scan_fuel n dec rest = scan_all dec rest" if "dec bs = Some (x, rest)" for x rest
    using shrink [OF that] Suc assms unfolding scan_all_def by (intro scan_fuel_enough) auto
  then show ?thesis by (simp add: scan_all_def Suc split: option.splits)
qed

locale record_codec =
  fixes enc :: "'a \<Rightarrow> bytes"
    and dec :: "bytes \<Rightarrow> ('a \<times> bytes) option"
    and valid :: "'a \<Rightarrow> bool"
  assumes dec_enc: "valid x \<Longrightarrow> dec (enc x @ rest) = Some (x, rest)"
    and enc_nonempty: "valid x \<Longrightarrow> enc x \<noteq> []"
    and dec_torn: "valid x \<Longrightarrow> n < length (enc x) \<Longrightarrow> dec (take n (enc x)) = None"
begin

definition log_image :: "'a list \<Rightarrow> bytes" where
  "log_image xs = concat (map enc xs)"

lemma image_simps [simp]:
  "log_image [] = []" "log_image (x # xs) = enc x @ log_image xs" "log_image (xs @ ys) = log_image xs @ log_image ys"
  by (simp_all add: log_image_def)

lemma enc_length_pos: "valid x \<Longrightarrow> 0 < length (enc x)"
  using enc_nonempty by simp

lemma length_image_ge: "(\<forall>x \<in> set xs. valid x) \<Longrightarrow> length xs \<le> length (log_image xs)"
proof (induction xs)
  case (Cons x xs)
  then have "Suc 0 \<le> length (enc x)" using enc_length_pos [of x] by (simp only: Suc_le_eq) simp
  with Cons have "Suc 0 + length xs \<le> length (enc x) + length (log_image xs)"
    by (intro add_mono) auto
  then show ?case by simp
qed simp

lemma scan_fuel_image_tail:
  assumes "\<forall>x \<in> set xs. valid x" and "dec tail = None" and "length xs \<le> n"
  shows "scan_fuel n dec (log_image xs @ tail) = xs"
  using assms
proof (induction xs arbitrary: n)
  case Nil
  then show ?case by (cases n) auto
next
  case (Cons x xs)
  then obtain m where "n = Suc m" by (cases n) auto
  with Cons show ?case by (simp add: dec_enc)
qed

lemma scan_image_tail:
  assumes "\<forall>x \<in> set xs. valid x" and "dec tail = None"
  shows "scan_all dec (log_image xs @ tail) = xs"
  using scan_fuel_image_tail [OF assms] length_image_ge [OF assms(1)]
  by (simp add: scan_all_def trans_le_add1)

lemma dec_Nil: "valid x \<Longrightarrow> dec [] = None"
  using dec_torn [of x 0] enc_length_pos by simp

lemma scan_image:
  assumes "\<forall>x \<in> set xs. valid x"
  shows "scan_all dec (log_image xs) = xs"
proof (cases xs)
  case Nil
  then show ?thesis by (simp add: scan_all_def)
next
  case (Cons x ys)
  then have "dec [] = None" using assms by (intro dec_Nil [of x]) simp
  from scan_image_tail [OF assms this] show ?thesis by simp
qed

lemma scan_torn:
  assumes "\<forall>x \<in> set xs. valid x" and "valid y" and "n < length (enc y)"
  shows "scan_all dec (log_image xs @ take n (enc y)) = xs"
  using assms by (intro scan_image_tail) (auto simp: dec_torn)

lemma image_inj:
  assumes "\<forall>x \<in> set xs. valid x" "\<forall>x \<in> set ys. valid x" "log_image xs = log_image ys"
  shows "xs = ys"
  by (metis assms scan_image)

end

end
