(* ===== verification/Crc32.thy ===== *)
theory Crc32
  imports Prelude
begin

unbundle bit_operations_syntax

text \<open>
  \<^verbatim>\<open>cpp/include/ebtree/common/crc32.h\<close>: the bitwise CRC-32 that guards every record
  header, page header and superblock of the store, and \<open>HexU64\<close>.

  The main facts: one bit step is linear and injective, so the register after a block of
  at most four bytes determines that block. A change confined to four consecutive bytes
  of a guarded header is therefore always detected.
\<close>

section \<open>The checksum\<close>

definition crc_poly :: u32 where "crc_poly = 0xEDB88320"

definition crc_bit :: "u32 \<Rightarrow> u32" where
  "crc_bit crc = (if crc AND 1 \<noteq> 0 then drop_bit 1 crc XOR crc_poly else drop_bit 1 crc)"

definition crc_byte :: "u32 \<Rightarrow> byte \<Rightarrow> u32" where
  "crc_byte crc p = (crc_bit ^^ 8) (crc XOR ucast p)"

definition Crc32 :: "bytes \<Rightarrow> u32" where
  "Crc32 data = NOT (foldl crc_byte 0xFFFFFFFF data)"

definition hex_digit :: "nat \<Rightarrow> char" where
  "hex_digit n = ''0123456789abcdef'' ! (n mod 16)"

fun hex_fixed :: "nat \<Rightarrow> nat \<Rightarrow> string" where
  "hex_fixed 0 n = []"
| "hex_fixed (Suc k) n = hex_fixed k (n div 16) @ [hex_digit (n mod 16)]"

definition HexU64 :: "u64 \<Rightarrow> string" where
  "HexU64 v = hex_fixed 16 (unat v)"

section \<open>The bit step is linear and injective\<close>

lemma and_one_iff_bit: "(x :: u32) AND 1 \<noteq> 0 \<longleftrightarrow> bit x 0"
  by (simp add: and_one_eq bit_0 odd_iff_mod_2_eq_one)

lemma bit_u32_high: "32 \<le> n \<Longrightarrow> \<not> bit (x :: u32) n"
  using bit_imp_le_length [of x n] by auto

lemma bit_byte_high: "8 \<le> n \<Longrightarrow> \<not> bit (x :: byte) n"
  using bit_imp_le_length [of x n] by auto

lemma xor_zero_iff: "(x :: u32) XOR y = 0 \<longleftrightarrow> x = y"
  by (metis xor.assoc xor.right_neutral xor_self_eq xor.left_neutral)

lemma xor_cancel: "(a :: u32) XOR b = a XOR c \<longleftrightarrow> b = c" "(b :: u32) XOR a = c XOR a \<longleftrightarrow> b = c"
  by (auto simp: bit_eq_iff bit_xor_iff)

lemma not_cancel: "NOT (a :: u32) = NOT b \<longleftrightarrow> a = b"
  by (metis bit.double_compl)

lemma crc_bit_alt: "crc_bit x = (if bit x 0 then drop_bit 1 x XOR crc_poly else drop_bit 1 x)"
  by (simp add: crc_bit_def and_one_iff_bit)

lemma crc_bit_linear: "crc_bit (x XOR y) = crc_bit x XOR crc_bit y"
proof (cases "bit x 0"; cases "bit y 0")
  assume "bit x 0" "bit y 0"
  then have "crc_bit x XOR crc_bit y = (drop_bit 1 x XOR drop_bit 1 y) XOR (crc_poly XOR crc_poly)"
    by (simp only: crc_bit_alt if_True ac_simps)
  with \<open>bit x 0\<close> \<open>bit y 0\<close> show ?thesis
    by (simp only: crc_bit_alt bit_xor_iff drop_bit_xor) simp
qed (simp_all only: crc_bit_alt bit_xor_iff drop_bit_xor if_True if_False simp_thms ac_simps)

lemma drop_bit_1_bit31: "\<not> bit (drop_bit 1 (x :: u32)) 31"
  by (simp add: bit_drop_bit_eq bit_u32_high)

lemma crc_bit_zero: "crc_bit x = 0 \<Longrightarrow> x = 0"
proof (cases "bit x 0")
  case True
  assume "crc_bit x = 0"
  with True have "drop_bit 1 x = crc_poly"
    by (simp add: crc_bit_alt xor_zero_iff)
  moreover have "bit crc_poly 31" by (simp add: crc_poly_def)
  ultimately show ?thesis using drop_bit_1_bit31 [of x] by simp
next
  case False
  assume "crc_bit x = 0"
  with False have d: "drop_bit 1 x = 0" by (simp add: crc_bit_alt)
  show "x = 0"
  proof (rule bit_word_eqI)
    fix n assume "n < LENGTH(32)"
    show "bit x n = bit 0 n"
    proof (cases n)
      case 0 with False show ?thesis by simp
    next
      case (Suc m)
      then have "bit x n = bit (drop_bit 1 x) m" by (simp add: bit_drop_bit_eq)
      with d show ?thesis by simp
    qed
  qed
qed

lemma crc_bit_inj: "crc_bit x = crc_bit y \<Longrightarrow> x = y"
  using crc_bit_zero [of "x XOR y"] by (simp add: crc_bit_linear xor_zero_iff)

lemma crc_bits_linear: "(crc_bit ^^ n) (x XOR y) = (crc_bit ^^ n) x XOR (crc_bit ^^ n) y"
  by (induction n) (simp_all add: crc_bit_linear)

lemma crc_bits_inj: "(crc_bit ^^ n) x = (crc_bit ^^ n) y \<Longrightarrow> x = y"
  by (induction n) (auto dest: crc_bit_inj)

section \<open>Blocks of bytes\<close>

fun le_word :: "bytes \<Rightarrow> u32" where
  "le_word [] = 0"
| "le_word (b # bs) = ucast b XOR push_bit 8 (le_word bs)"

lemma bit_le_word_Cons:
  "i < 32 \<Longrightarrow> bit (le_word (b # bs)) i = (if i < 8 then bit b i else bit (le_word bs) (i - 8))"
  by (auto simp: bit_xor_iff bit_push_bit_iff bit_ucast_iff bit_byte_high)

lemma le_word_high: "8 * length bs \<le> i \<Longrightarrow> \<not> bit (le_word bs) i"
proof (induction bs arbitrary: i)
  case (Cons b bs)
  show ?case
  proof (cases "i < 32")
    case True
    with Cons show ?thesis by (simp only: bit_le_word_Cons) simp
  qed (simp add: bit_u32_high)
qed simp

lemma le_word_inj:
  "length us = length vs \<Longrightarrow> length us \<le> 4 \<Longrightarrow> le_word us = le_word vs \<Longrightarrow> us = vs"
proof (induction us vs rule: list_induct2)
  case (Cons u us v vs)
  have eq: "bit (le_word (u # us)) i = bit (le_word (v # vs)) i" for i
    using Cons.prems by simp
  have "u = v"
  proof (rule bit_word_eqI)
    fix n assume "n < LENGTH(8)"
    then show "bit u n = bit v n"
      using eq [of n] bit_le_word_Cons [of n u us] bit_le_word_Cons [of n v vs] by simp
  qed
  moreover have "le_word us = le_word vs"
  proof (rule bit_word_eqI)
    fix n assume n: "n < LENGTH(32)"
    show "bit (le_word us) n = bit (le_word vs) n"
    proof (cases "n + 8 < 32")
      case True
      then show ?thesis
        using eq [of "n + 8"] bit_le_word_Cons [of "n + 8" u us] bit_le_word_Cons [of "n + 8" v vs]
        by simp
    next
      case False
      with Cons.prems Cons.hyps have "8 * length us \<le> n" "8 * length vs \<le> n" by auto
      then show ?thesis using le_word_high by blast
    qed
  qed
  ultimately show ?case using Cons by simp
qed simp

lemma crc_bit_push:
  assumes "\<not> bit y 31"
  shows "crc_bit (push_bit 1 y) = y"
proof -
  have "drop_bit 1 (push_bit 1 y) = y"
  proof (rule bit_word_eqI)
    fix n assume "n < LENGTH(32)"
    then have "n = 31 \<or> Suc n < 32" by auto
    with assms show "bit (drop_bit 1 (push_bit 1 y)) n = bit y n"
      by (auto simp only: bit_drop_bit_eq bit_push_bit_iff bit_u32_high o_apply plus_1_eq_Suc
          diff_Suc_1 simp_thms possible_bit_word) (simp_all)
  qed
  then show ?thesis by (simp only: crc_bit_alt bit_push_bit_iff) simp
qed

lemma crc_bits_push:
  assumes "\<And>i. 32 - k \<le> i \<Longrightarrow> \<not> bit y i" and "k \<le> 32"
  shows "(crc_bit ^^ k) (push_bit k y) = (y :: u32)"
  using assms
proof (induction k)
  case (Suc k)
  have "push_bit (Suc k) y = push_bit 1 (push_bit k y)" by (simp only: push_bit_push_bit plus_1_eq_Suc)
  moreover have "\<not> bit (push_bit k y) 31"
    using Suc.prems by (auto simp: bit_push_bit_iff)
  ultimately have "crc_bit (push_bit (Suc k) y) = push_bit k y"
    by (simp only: crc_bit_push not_False_eq_True)
  then have "(crc_bit ^^ Suc k) (push_bit (Suc k) y) = (crc_bit ^^ k) (push_bit k y)"
    by (simp only: funpow_Suc_right o_apply)
  also have "\<dots> = y" using Suc by simp
  finally show ?case .
qed simp

lemma foldl_crc_byte_block:
  "length bs \<le> 4 \<Longrightarrow> foldl crc_byte s bs = (crc_bit ^^ (8 * length bs)) (s XOR le_word bs)"
proof (induction bs arbitrary: s)
  case (Cons b bs)
  have high: "\<And>i. 32 - 8 \<le> i \<Longrightarrow> \<not> bit (le_word bs) i"
    using Cons.prems by (intro le_word_high) simp
  have "crc_byte s b XOR le_word bs
      = (crc_bit ^^ 8) (s XOR ucast b) XOR (crc_bit ^^ 8) (push_bit 8 (le_word bs))"
    using crc_bits_push [OF high] by (simp add: crc_byte_def)
  also have "\<dots> = (crc_bit ^^ 8) (s XOR le_word (b # bs))"
    by (simp only: crc_bits_linear [symmetric] le_word.simps xor.assoc)
  finally have step: "crc_byte s b XOR le_word bs = (crc_bit ^^ 8) (s XOR le_word (b # bs))" .
  have "foldl crc_byte s (b # bs) = (crc_bit ^^ (8 * length bs)) (crc_byte s b XOR le_word bs)"
    using Cons by simp
  also have "\<dots> = (crc_bit ^^ (8 * length (b # bs))) (s XOR le_word (b # bs))"
  proof -
    have "8 * length (b # bs) = 8 * length bs + 8" by simp
    then show ?thesis unfolding step by (simp only: funpow_add o_apply)
  qed
  finally show ?case .
qed simp

lemma crc_byte_inj: "crc_byte s b = crc_byte t b \<Longrightarrow> s = t"
  unfolding crc_byte_def by (drule crc_bits_inj) (simp only: xor_cancel)

lemma foldl_crc_byte_inj: "foldl crc_byte s bs = foldl crc_byte t bs \<Longrightarrow> s = t"
  by (induction bs arbitrary: s t) (auto dest: crc_byte_inj)

lemma Crc32_eq_iff: "Crc32 xs = Crc32 ys \<longleftrightarrow> foldl crc_byte 0xFFFFFFFF xs = foldl crc_byte 0xFFFFFFFF ys"
  by (simp only: Crc32_def not_cancel)

lemma Crc32_block_inj:
  assumes "length us = length vs" "length us \<le> 4"
    and "Crc32 (pre @ us @ suf) = Crc32 (pre @ vs @ suf)"
  shows "us = vs"
proof -
  let ?s = "foldl crc_byte 0xFFFFFFFF pre"
  from assms(3) have "foldl crc_byte (foldl crc_byte ?s us) suf = foldl crc_byte (foldl crc_byte ?s vs) suf"
    by (simp only: Crc32_eq_iff foldl_append)
  then have "foldl crc_byte ?s us = foldl crc_byte ?s vs"
    by (rule foldl_crc_byte_inj)
  with assms(1,2) have
    "(crc_bit ^^ (8 * length vs)) (?s XOR le_word us) = (crc_bit ^^ (8 * length vs)) (?s XOR le_word vs)"
    by (simp only: foldl_crc_byte_block)
  then have "?s XOR le_word us = ?s XOR le_word vs"
    by (rule crc_bits_inj)
  then have "le_word us = le_word vs"
    by (simp only: xor_cancel)
  with assms show ?thesis by (intro le_word_inj)
qed

lemma Crc32_empty [simp]: "Crc32 [] = 0"
  by (simp add: Crc32_def)

text \<open>
  The checksum of a guarded header detects every change that is confined to at most
  four consecutive bytes: two headers of the same length that agree before and after
  such a block have the same \<open>Crc32\<close> only if they are equal. In particular a damaged
  \<open>op\<close>, \<open>key_len\<close>, \<open>value_len\<close>, \<open>txn_id\<close> field or half of an LSN never
  passes the check.
\<close>

theorem crc32_detects_burst:
  assumes "length us = length vs" and "length us \<le> 4"
  shows "Crc32 (pre @ us @ suf) = Crc32 (pre @ vs @ suf) \<longleftrightarrow> us = vs"
  using Crc32_block_inj [OF assms] by blast

theorem crc32_detects_burst_witness:
  "Crc32 ([1, 2] @ [3, 4] @ [5]) \<noteq> Crc32 ([1, 2] @ [3, 5] @ [5])"
  using crc32_detects_burst [of "[3, 4]" "[3, 5]" "[1, 2]" "[5]"] by simp

text \<open>The standard check value of CRC-32, on the nine ASCII digits.\<close>

lemma crc_byte_unroll:
  "crc_byte crc p = crc_bit (crc_bit (crc_bit (crc_bit (crc_bit (crc_bit (crc_bit (crc_bit
     (crc XOR ucast p))))))))"
  by (simp add: crc_byte_def numeral_eq_Suc)

lemma Crc32_check_value:
  "Crc32 [0x31, 0x32, 0x33, 0x34, 0x35, 0x36, 0x37, 0x38, 0x39] = 0xCBF43926"
  by (simp add: Crc32_def crc_byte_unroll crc_bit_def crc_poly_def)

lemma length_hex_fixed [simp]: "length (hex_fixed k n) = k"
  by (induction k arbitrary: n) auto

lemma hex_digit_mem: "hex_digit n \<in> set ''0123456789abcdef''"
  unfolding hex_digit_def by (rule nth_mem) simp

lemma set_hex_fixed: "set (hex_fixed k n) \<subseteq> set ''0123456789abcdef''"
proof (induction k arbitrary: n)
  case (Suc k)
  show ?case
    using Suc [of "n div 16"] hex_digit_mem [of "n mod 16"] by (simp only: hex_fixed.simps) simp
qed simp

end
