(* ===== verification/Digest.thy ===== *)
theory Digest
  imports Prelude
begin

text \<open>
  \<^verbatim>\<open>cpp/src/common/digest.cc\<close>: SHA-256 as the engine computes it, byte by byte into a
  64-byte buffer. The context's arrays are lists of fixed length. The streaming context is shown to
  pad the message to whole blocks and fold the code's compression function; \<open>Sha256\<close> compares that function
  with the standard's.
\<close>

unbundle bit_operations_syntax

section \<open>The code\<close>

record sha_ctx =
  sha_state :: "u32 list"
  sha_bitlen :: u64
  sha_data :: bytes
  sha_datalen :: nat

definition kSha256K :: "u32 list" where
  "kSha256K = concat
  [[0x428a2f98, 0x71374491, 0xb5c0fbcf, 0xe9b5dba5, 0x3956c25b, 0x59f111f1],
   [0x923f82a4, 0xab1c5ed5, 0xd807aa98, 0x12835b01, 0x243185be, 0x550c7dc3],
   [0x72be5d74, 0x80deb1fe, 0x9bdc06a7, 0xc19bf174, 0xe49b69c1, 0xefbe4786],
   [0x0fc19dc6, 0x240ca1cc, 0x2de92c6f, 0x4a7484aa, 0x5cb0a9dc, 0x76f988da],
   [0x983e5152, 0xa831c66d, 0xb00327c8, 0xbf597fc7, 0xc6e00bf3, 0xd5a79147],
   [0x06ca6351, 0x14292967, 0x27b70a85, 0x2e1b2138, 0x4d2c6dfc, 0x53380d13],
   [0x650a7354, 0x766a0abb, 0x81c2c92e, 0x92722c85, 0xa2bfe8a1, 0xa81a664b],
   [0xc24b8b70, 0xc76c51a3, 0xd192e819, 0xd6990624, 0xf40e3585, 0x106aa070],
   [0x19a4c116, 0x1e376c08, 0x2748774c, 0x34b0bcb5, 0x391c0cb3, 0x4ed8aa4a],
   [0x5b9cca4f, 0x682e6ff3, 0x748f82ee, 0x78a5636f, 0x84c87814, 0x8cc70208],
   [0x90befffa, 0xa4506ceb, 0xbef9a3f7, 0xc67178f2]]"

definition RoR :: "u32 \<Rightarrow> nat \<Rightarrow> u32" where
  "RoR x n = drop_bit n x OR push_bit (32 - n) x"

definition Ch :: "u32 \<Rightarrow> u32 \<Rightarrow> u32 \<Rightarrow> u32" where
  "Ch x y z = (x AND y) XOR (NOT x AND z)"

definition Maj :: "u32 \<Rightarrow> u32 \<Rightarrow> u32 \<Rightarrow> u32" where
  "Maj x y z = (x AND y) XOR (x AND z) XOR (y AND z)"

definition Sig0 :: "u32 \<Rightarrow> u32" where "Sig0 x = RoR x 2 XOR RoR x 13 XOR RoR x 22"
definition Sig1 :: "u32 \<Rightarrow> u32" where "Sig1 x = RoR x 6 XOR RoR x 11 XOR RoR x 25"
definition sig0 :: "u32 \<Rightarrow> u32" where "sig0 x = RoR x 7 XOR RoR x 18 XOR drop_bit 3 x"
definition sig1 :: "u32 \<Rightarrow> u32" where "sig1 x = RoR x 17 XOR RoR x 19 XOR drop_bit 10 x"

definition be_word :: "bytes \<Rightarrow> nat \<Rightarrow> u32" where
  "be_word data i = push_bit 24 (ucast (data ! (i * 4))) OR push_bit 16 (ucast (data ! (i * 4 + 1)))
     OR push_bit 8 (ucast (data ! (i * 4 + 2))) OR ucast (data ! (i * 4 + 3))"

definition sha_schedule :: "bytes \<Rightarrow> u32 list" where
  "sha_schedule data = foldl (\<lambda>m i. m @ [sig1 (m ! (i - 2)) + m ! (i - 7) + sig0 (m ! (i - 15)) + m ! (i - 16)])
     (map (be_word data) [0..<16]) [16..<64]"

definition sha_round :: "u32 list \<Rightarrow> u32 list \<Rightarrow> nat \<Rightarrow> u32 list" where
  "sha_round m v i = (case v of
     [a, b, c, d, e, f, g, h] \<Rightarrow>
       (let t1 = h + Sig1 e + Ch e f g + kSha256K ! i + m ! i;
            t2 = Sig0 a + Maj a b c
        in [t1 + t2, a, b, c, d + t1, e, f, g])
   | _ \<Rightarrow> v)"

definition Sha256Compress :: "u32 list \<Rightarrow> bytes \<Rightarrow> u32 list" where
  "Sha256Compress st data = map2 (+) st (foldl (sha_round (sha_schedule data)) st [0..<64])"

definition Sha256Transform :: "sha_ctx \<Rightarrow> bytes \<Rightarrow> sha_ctx" where
  "Sha256Transform ctx data = ctx\<lparr>sha_state := Sha256Compress (sha_state ctx) data\<rparr>"

definition sha_h0 :: "u32 list" where
  "sha_h0 = [0x6a09e667, 0xbb67ae85, 0x3c6ef372, 0xa54ff53a, 0x510e527f, 0x9b05688c, 0x1f83d9ab, 0x5be0cd19]"

text \<open>\<open>garbage\<close> is what the uninitialised buffer holds.\<close>

definition Sha256Init :: "bytes \<Rightarrow> sha_ctx" where
  "Sha256Init garbage = \<lparr>sha_state = sha_h0, sha_bitlen = 0, sha_data = garbage, sha_datalen = 0\<rparr>"

definition sha_byte :: "sha_ctx \<Rightarrow> byte \<Rightarrow> sha_ctx" where
  "sha_byte ctx b =
    (let c1 = ctx\<lparr>sha_data := (sha_data ctx)[sha_datalen ctx := b], sha_datalen := sha_datalen ctx + 1\<rparr> in
     if sha_datalen c1 = 64
     then (Sha256Transform c1 (sha_data c1))\<lparr>sha_bitlen := sha_bitlen c1 + 512, sha_datalen := 0\<rparr>
     else c1)"

definition Sha256Update :: "sha_ctx \<Rightarrow> bytes \<Rightarrow> sha_ctx" where
  "Sha256Update ctx data = foldl sha_byte ctx data"

definition zero_range :: "nat \<Rightarrow> nat \<Rightarrow> bytes \<Rightarrow> bytes" where
  "zero_range a b data = foldl (\<lambda>d j. d[j := 0]) data [a..<b]"

definition sha_length_bytes :: "u64 \<Rightarrow> bytes \<Rightarrow> bytes" where
  "sha_length_bytes bitlen data = foldl (\<lambda>d k. d[63 - k := ucast (drop_bit (8 * k) bitlen)]) data [0..<8]"

definition Sha256Final :: "sha_ctx \<Rightarrow> bytes" where
  "Sha256Final ctx =
    (let i = sha_datalen ctx;
         d0 = (sha_data ctx)[i := 0x80];
         c1 = (if i < 56 then ctx\<lparr>sha_data := zero_range (i + 1) 56 d0\<rparr>
               else (let c = Sha256Transform ctx (zero_range (i + 1) 64 d0)
                     in c\<lparr>sha_data := zero_range 0 56 (zero_range (i + 1) 64 d0)\<rparr>));
         bitlen = sha_bitlen c1 + word_of_nat (sha_datalen c1 * 8);
         c2 = Sha256Transform c1 (sha_length_bytes bitlen (sha_data c1))
     in foldl (\<lambda>hash (j, k). hash[k * 4 + j := ucast (drop_bit (24 - j * 8) (sha_state c2 ! k))])
          (replicate 32 0) (List.product [0..<4] [0..<8]))"

definition kHex :: string where "kHex = ''0123456789abcdef''"

definition BytesToHex :: "bytes \<Rightarrow> string" where
  "BytesToHex data = concat (map (\<lambda>b. [kHex ! unat (drop_bit 4 b AND 0xF), kHex ! unat (b AND 0xF)]) data)"

definition Sha256Hex :: "bytes \<Rightarrow> bytes \<Rightarrow> string" where
  "Sha256Hex garbage data = BytesToHex (Sha256Final (Sha256Update (Sha256Init garbage) data))"

section \<open>Padding and blocks\<close>

fun blocks64 :: "bytes \<Rightarrow> bytes list" where
  "blocks64 xs = (if length xs < 64 then [] else take 64 xs # blocks64 (drop 64 xs))"

declare blocks64.simps [simp del]

definition be64 :: "u64 \<Rightarrow> bytes" where
  "be64 w = map (\<lambda>k. ucast (drop_bit (56 - 8 * k) w)) [0..<8]"

definition be32 :: "u32 \<Rightarrow> bytes" where
  "be32 w = map (\<lambda>k. ucast (drop_bit (24 - 8 * k) w)) [0..<4]"

definition sha_pad :: "bytes \<Rightarrow> bytes" where
  "sha_pad msg = msg @ [0x80] @ replicate ((119 - length msg mod 64) mod 64) 0 @ be64 (word_of_nat (8 * length msg))"

definition sha_blockwise :: "bytes \<Rightarrow> bytes" where
  "sha_blockwise msg = concat (map be32 (foldl Sha256Compress sha_h0 (blocks64 (sha_pad msg))))"

lemma blocks64_short: "length xs < 64 \<Longrightarrow> blocks64 xs = []"
  by (subst blocks64.simps) simp

lemma blocks64_one: "length xs = 64 \<Longrightarrow> blocks64 (xs @ ys) = xs # blocks64 ys"
  by (subst blocks64.simps) simp

lemma blocks64_append: "length xs = 64 * q \<Longrightarrow> blocks64 (xs @ ys) = blocks64 xs @ blocks64 ys"
proof (induction q arbitrary: xs)
  case 0
  then show ?case by (simp add: blocks64_short)
next
  case (Suc q)
  have "blocks64 (xs @ ys) = take 64 xs # blocks64 (drop 64 xs @ ys)"
    using Suc.prems by (subst blocks64.simps) simp
  moreover have "blocks64 xs = take 64 xs # blocks64 (drop 64 xs)"
    using Suc.prems by (subst blocks64.simps) simp
  ultimately show ?case using Suc.IH [of "drop 64 xs"] Suc.prems by simp
qed

lemma zero_range_eq: "a \<le> b \<Longrightarrow> b \<le> length d \<Longrightarrow> zero_range a b d = take a d @ replicate (b - a) 0 @ drop b d"
proof (induction b)
  case (Suc b)
  show ?case
  proof (cases "a = Suc b")
    case False
    then have "zero_range a (Suc b) d = (take a d @ replicate (b - a) 0 @ drop b d)[b := 0]"
      using Suc by (simp add: zero_range_def)
    also have "\<dots> = take a d @ replicate (Suc b - a) 0 @ drop (Suc b) d"
      using False Suc.prems
      by (simp add: list_update_append Suc_diff_le replicate_append_same [symmetric] Cons_nth_drop_Suc [symmetric])
    finally show ?thesis .
  qed (simp add: zero_range_def)
qed (simp add: zero_range_def)

lemma sha_length_bytes_eq:
  assumes "length d = 64"
  shows "sha_length_bytes w d = take 56 d @ be64 w"
proof -
  have u: "[0..<8] = [0, 1, 2, 3, 4, 5, 6, 7 :: nat]" by (simp add: upt_rec)
  show ?thesis
    using assms by (intro nth_equalityI) (auto simp: sha_length_bytes_def be64_def u nth_append nth_list_update nth_Cons')
qed

lemma sha_round_length: "length (sha_round m v i) = length v"
  by (auto simp: sha_round_def Let_def split: list.split)

lemma Sha256Compress_length: "length st = 8 \<Longrightarrow> length (Sha256Compress st data) = 8"
proof -
  assume "length st = 8"
  moreover have "length (foldl (sha_round m) v is) = length v" for m v "is"
    by (induction "is" arbitrary: v) (auto simp: sha_round_length)
  ultimately show ?thesis by (simp add: Sha256Compress_def)
qed

lemma hash_bytes:
  assumes "length st = 8"
  shows "foldl (\<lambda>hash (j, k). hash[k * 4 + j := ucast (drop_bit (24 - j * 8) (st ! k))]) (replicate 32 0)
      (List.product [0..<4] [0..<8]) = concat (map be32 st)"
proof -
  have u: "[0..<8] = [0, 1, 2, 3, 4, 5, 6, 7 :: nat]" "[0..<4] = [0, 1, 2, 3 :: nat]" by (simp_all add: upt_rec)
  obtain a b c d e f g h where "st = [a, b, c, d, e, f, g, h]"
    using assms by (auto simp: length_Suc_conv eval_nat_numeral)
  moreover have "(x # xs)[numeral k := v] = x # xs[pred_numeral k := v]" for x v :: byte and xs k
    by (simp add: numeral_eq_Suc)
  moreover have "replicate (numeral k) v = v # replicate (pred_numeral k) v" for v :: byte and k
    by (simp add: numeral_eq_Suc)
  ultimately show ?thesis by (simp add: u be32_def)
qed

section \<open>The streaming context\<close>

definition sha_abs :: "bytes \<Rightarrow> sha_ctx \<Rightarrow> bool" where
  "sha_abs msg ctx \<longleftrightarrow> length (sha_data ctx) = 64 \<and> sha_datalen ctx = length msg mod 64
     \<and> take (sha_datalen ctx) (sha_data ctx) = drop (64 * (length msg div 64)) msg
     \<and> sha_state ctx = foldl Sha256Compress sha_h0 (blocks64 msg)
     \<and> sha_bitlen ctx = word_of_nat (512 * (length msg div 64))"

lemma sha_abs_init: "length garbage = 64 \<Longrightarrow> sha_abs [] (Sha256Init garbage)"
  by (simp add: sha_abs_def Sha256Init_def blocks64_short)

lemma blocks64_split:
  "blocks64 (msg @ t) = blocks64 (take (64 * (length msg div 64)) msg)
     @ blocks64 (drop (64 * (length msg div 64)) msg @ t)"
proof -
  let ?q = "64 * (length msg div 64)"
  have m: "take ?q msg @ drop ?q msg @ t = msg @ t" by (metis append_assoc append_take_drop_id)
  have "blocks64 (take ?q msg @ drop ?q msg @ t) = blocks64 (take ?q msg) @ blocks64 (drop ?q msg @ t)"
    by (rule blocks64_append [where q = "length msg div 64"]) simp
  then show ?thesis by (simp only: m)
qed

lemma length_rest: "length (drop (64 * (length msg div 64)) msg) = length msg mod 64"
  by (simp add: minus_mult_div_eq_mod)

lemma blocks64_whole: "length msg mod 64 + length t < 64 \<Longrightarrow> blocks64 (msg @ t) = blocks64 msg"
  using blocks64_split [of msg t] blocks64_split [of msg "[]"] length_rest [of msg]
  by (simp add: blocks64_short)

lemma blocks64_last:
  assumes "length msg mod 64 + length t = 64"
  shows "blocks64 (msg @ t @ u) = blocks64 msg @ [drop (64 * (length msg div 64)) msg @ t] @ blocks64 u"
  using blocks64_split [of msg "t @ u"] blocks64_split [of msg "[]"] length_rest [of msg]
    blocks64_one [of "drop (64 * (length msg div 64)) msg @ t" u] assms
  by (simp add: blocks64_short)

lemma sha_abs_byte:
  assumes "sha_abs msg ctx"
  shows "sha_abs (msg @ [b]) (sha_byte ctx b)"
proof -
  let ?n = "length msg mod 64" and ?q = "64 * (length msg div 64)"
  let ?d = "(sha_data ctx)[?n := b]"
  have n: "?n < 64" by simp
  have a: "length (sha_data ctx) = 64" "sha_datalen ctx = ?n" "take ?n (sha_data ctx) = drop ?q msg"
    "sha_state ctx = foldl Sha256Compress sha_h0 (blocks64 msg)" "sha_bitlen ctx = word_of_nat (512 * (length msg div 64))"
    using assms by (auto simp: sha_abs_def)
  have t: "take (Suc ?n) ?d = drop ?q msg @ [b]"
    using n a(1,3) by (simp add: take_Suc_conv_app_nth)
  show ?thesis
  proof (cases "?n = 63")
    case True
    then have "Suc (length msg) mod 64 = 0" "Suc (length msg) div 64 = Suc (length msg div 64)"
      by (simp_all add: mod_Suc div_Suc)
    moreover have "blocks64 (msg @ [b]) = blocks64 msg @ [?d]"
      using blocks64_last [of msg "[b]" "[]"] t True a(1) by (simp add: blocks64_short)
    ultimately show ?thesis
      using a True by (simp add: sha_abs_def sha_byte_def Let_def Sha256Transform_def)
  next
    case False
    then have "Suc ?n < 64" using n by linarith
    then have "Suc (length msg) mod 64 = Suc ?n" "Suc (length msg) div 64 = length msg div 64"
      by (simp_all add: mod_Suc div_Suc)
    moreover have "drop ?q (msg @ [b]) = drop ?q msg @ [b]" by simp
    moreover have "blocks64 (msg @ [b]) = blocks64 msg"
      using \<open>Suc ?n < 64\<close> by (intro blocks64_whole) simp
    ultimately show ?thesis
      using a t \<open>Suc ?n < 64\<close> by (simp add: sha_abs_def sha_byte_def Let_def)
  qed
qed

lemma sha_abs_update: "sha_abs msg ctx \<Longrightarrow> sha_abs (msg @ data) (Sha256Update ctx data)"
proof (induction data arbitrary: msg ctx)
  case (Cons b data)
  from Cons.IH [OF sha_abs_byte [OF Cons.prems, of b]] show ?case by (simp add: Sha256Update_def)
qed (simp add: Sha256Update_def)

lemma pad_count:
  "r < 56 \<Longrightarrow> (119 - r) mod 64 = 55 - (r :: nat)"
  "56 \<le> r \<Longrightarrow> r < 64 \<Longrightarrow> (119 - r) mod 64 = (63 - r) + 56"
proof -
  assume "r < 56"
  then have "119 - r = (55 - r) + 64" "55 - r < 64" by linarith+
  then show "(119 - r) mod 64 = 55 - r" by (simp only: mod_add_self2 mod_less)
next
  assume "56 \<le> r" "r < 64"
  then have "119 - r = (63 - r) + 56" "119 - r < 64" by linarith+
  then show "(119 - r) mod 64 = (63 - r) + 56" by (simp only: mod_less)
qed

text \<open>Padding completes one block, or two when fewer than nine bytes are free.\<close>

lemma blocks64_pad:
  fixes msg :: bytes
  defines "rest \<equiv> drop (64 * (length msg div 64)) msg" and "len \<equiv> be64 (word_of_nat (8 * length msg))"
  shows "blocks64 (sha_pad msg) = blocks64 msg @
    (if length rest < 56 then [rest @ [0x80] @ replicate (55 - length rest) 0 @ len]
     else [rest @ [0x80] @ replicate (63 - length rest) 0, replicate 56 0 @ len])"
proof -
  have r: "length rest = length msg mod 64" "length msg mod 64 < 64" by (simp_all add: rest_def minus_mult_div_eq_mod)
  have len: "length len = 8" by (simp add: len_def be64_def)
  let ?z = "\<lambda>k. replicate k (0 :: byte)"
  show ?thesis
  proof (cases "length rest < 56")
    case True
    then have "(119 - length msg mod 64) mod 64 = 55 - length rest"
      unfolding r(1) by (rule pad_count)
    moreover have "blocks64 (msg @ ([0x80] @ ?z (55 - length rest) @ len) @ []) = blocks64 msg
        @ [rest @ [0x80] @ ?z (55 - length rest) @ len] @ blocks64 []"
    proof -
      have "length msg mod 64 + length ([0x80] @ ?z (55 - length rest) @ len) = 64" using True r len by simp
      then show ?thesis unfolding rest_def by (rule blocks64_last)
    qed
    ultimately show ?thesis using True by (simp add: sha_pad_def len_def blocks64_short)
  next
    case False
    then have "(119 - length msg mod 64) mod 64 = (63 - length rest) + 56"
      unfolding r(1) using r(2) by (intro pad_count) auto
    moreover have "blocks64 (msg @ ([0x80] @ ?z (63 - length rest)) @ (?z 56 @ len)) = blocks64 msg
        @ [rest @ [0x80] @ ?z (63 - length rest)] @ blocks64 (?z 56 @ len)"
    proof -
      have "length msg mod 64 + length ([0x80] @ ?z (63 - length rest)) = 64" using False r by simp
      then show ?thesis unfolding rest_def by (rule blocks64_last)
    qed
    moreover have "blocks64 (?z 56 @ len) = [?z 56 @ len]"
      using blocks64_one [of "?z 56 @ len" "[]"] len by (simp add: blocks64_short)
    ultimately show ?thesis using False by (simp add: sha_pad_def len_def replicate_add)
  qed
qed

lemma Sha256Compress_fold: "length st = 8 \<Longrightarrow> length (foldl Sha256Compress st bs) = 8"
  by (induction bs arbitrary: st) (auto simp: Sha256Compress_length)

lemma sha_bits: "512 * word_of_nat (n div 64) + word_of_nat (n mod 64) * 8 = (8 * word_of_nat n :: u64)"
proof -
  have "512 * (n div 64) + n mod 64 * 8 = 8 * n" using div_mult_mod_eq [of n 64] by linarith
  then have "(of_nat (512 * (n div 64) + n mod 64 * 8) :: u64) = of_nat (8 * n)" by simp
  then show ?thesis by (simp only: of_nat_add of_nat_mult of_nat_numeral)
qed

lemma Sha256Final_abs:
  assumes "sha_abs msg ctx"
  shows "Sha256Final ctx = sha_blockwise msg"
proof -
  let ?n = "length msg mod 64"
  let ?len = "be64 (word_of_nat (8 * length msg))" and ?z = "\<lambda>k. replicate k (0 :: byte)"
  define rest where "rest = drop (64 * (length msg div 64)) msg"
  have n: "?n < 64" "length rest = ?n" by (simp_all add: rest_def minus_mult_div_eq_mod)
  have a: "length (sha_data ctx) = 64" "sha_datalen ctx = ?n" "take ?n (sha_data ctx) = rest"
    "sha_state ctx = foldl Sha256Compress sha_h0 (blocks64 msg)" "sha_bitlen ctx = word_of_nat (512 * (length msg div 64))"
    using assms by (auto simp: sha_abs_def rest_def)
  let ?d0 = "(sha_data ctx)[?n := 0x80]"
  have t: "take (Suc ?n) ?d0 = rest @ [0x80]"
    using n a(1,3) by (simp add: take_Suc_conv_app_nth)
  have fin: "Sha256Final ctx = concat (map be32 (Sha256Compress st (take 56 d @ ?len)))"
    if "length d = 64" "length st = 8"
      "(if ?n < 56 then ctx\<lparr>sha_data := zero_range (?n + 1) 56 ?d0\<rparr>
        else (Sha256Transform ctx (zero_range (?n + 1) 64 ?d0))\<lparr>sha_data := zero_range 0 56 (zero_range (?n + 1) 64 ?d0)\<rparr>)
       = ctx\<lparr>sha_state := st, sha_data := d\<rparr>" for st d
    unfolding Sha256Final_def Let_def a(2) that(3)
    using that(1,2) by (simp add: Sha256Transform_def sha_length_bytes_eq hash_bytes Sha256Compress_length a sha_bits)
  have l8: "length (foldl Sha256Compress sha_h0 bs) = 8" for bs
    by (rule Sha256Compress_fold) (simp add: sha_h0_def)
  show ?thesis
  proof (cases "?n < 56")
    case True
    have "zero_range (?n + 1) 56 ?d0 = (rest @ [0x80] @ ?z (55 - ?n)) @ drop 56 ?d0"
      using zero_range_eq [of "Suc ?n" 56 ?d0] True a(1) t by simp
    then have "Sha256Final ctx = concat (map be32 (Sha256Compress (sha_state ctx)
        (take 56 ((rest @ [0x80] @ ?z (55 - ?n)) @ drop 56 ?d0) @ ?len)))"
      using True a n by (intro fin) (auto simp: l8)
    also have "take 56 ((rest @ [0x80] @ ?z (55 - ?n)) @ drop 56 ?d0) = rest @ [0x80] @ ?z (55 - ?n)"
      using True n by (intro take_append_exact) simp
    finally show ?thesis
      using True n(2) blocks64_pad [of msg] unfolding rest_def [symmetric] by (simp add: sha_blockwise_def a)
  next
    case False
    have z: "zero_range (?n + 1) 64 ?d0 = rest @ [0x80] @ ?z (63 - ?n)"
      using zero_range_eq [of "Suc ?n" 64 ?d0] n a(1) t by simp
    then have "zero_range 0 56 (zero_range (?n + 1) 64 ?d0) = ?z 56 @ drop 56 (rest @ [0x80] @ ?z (63 - ?n))"
      using zero_range_eq [of 0 56 "rest @ [0x80] @ ?z (63 - ?n)"] n by simp
    then have "Sha256Final ctx = concat (map be32 (Sha256Compress
        (Sha256Compress (sha_state ctx) (rest @ [0x80] @ ?z (63 - ?n)))
        (take 56 (?z 56 @ drop 56 (rest @ [0x80] @ ?z (63 - ?n))) @ ?len)))"
      using False a n z by (intro fin) (auto simp: l8 Sha256Transform_def Sha256Compress_length)
    then show ?thesis
      using False n(2) blocks64_pad [of msg] unfolding rest_def [symmetric] by (simp add: sha_blockwise_def a)
  qed
qed

lemma Sha256Hex_blockwise: "length garbage = 64 \<Longrightarrow> Sha256Hex garbage msg = BytesToHex (sha_blockwise msg)"
  using Sha256Final_abs [OF sha_abs_update [OF sha_abs_init, of garbage msg]] by (simp add: Sha256Hex_def)

end
