(* ===== verification/Sha256.thy ===== *)
theory Sha256
  imports Complex_Main Digest
begin

text \<open>
  SHA-256 as the standard defines it (FIPS 180-4), written without the definitions of \<open>Digest\<close>: the constants
  are fractional parts of roots of primes, the message schedule is a recursion, the rotations are those of the
  word library, and the working variables are a tuple. The digest of the code is this function.
\<close>

section \<open>The standard\<close>

text \<open>The sieve of Eratosthenes.\<close>

fun sieve :: "int list \<Rightarrow> int list" where
  "sieve [] = []"
| "sieve (p # ns) = p # sieve (filter (\<lambda>n. n mod p \<noteq> 0) ns)"

text \<open>The first 32 bits of the fractional part of a root.\<close>

definition frac_bits :: "nat \<Rightarrow> int \<Rightarrow> u32" where
  "frac_bits k p = word_of_int \<lfloor>2 ^ 32 * root k (real_of_int p)\<rfloor>"

definition fips_primes :: "int list" where
  "fips_primes = sieve [2..311]"

definition fips_K :: "nat \<Rightarrow> u32" where
  "fips_K t = frac_bits 3 (fips_primes ! t)"

type_synonym sha_vars = "u32 \<times> u32 \<times> u32 \<times> u32 \<times> u32 \<times> u32 \<times> u32 \<times> u32"

definition fips_H0 :: sha_vars where
  "fips_H0 = (frac_bits 2 2, frac_bits 2 3, frac_bits 2 5, frac_bits 2 7,
     frac_bits 2 11, frac_bits 2 13, frac_bits 2 17, frac_bits 2 19)"

definition fips_Ch :: "u32 \<Rightarrow> u32 \<Rightarrow> u32 \<Rightarrow> u32" where
  "fips_Ch x y z = (x AND y) OR (NOT x AND z)"

definition fips_Maj :: "u32 \<Rightarrow> u32 \<Rightarrow> u32 \<Rightarrow> u32" where
  "fips_Maj x y z = (x AND y) OR (x AND z) OR (y AND z)"

definition fips_Sigma0 :: "u32 \<Rightarrow> u32" where "fips_Sigma0 x = word_rotr 2 x XOR word_rotr 13 x XOR word_rotr 22 x"
definition fips_Sigma1 :: "u32 \<Rightarrow> u32" where "fips_Sigma1 x = word_rotr 6 x XOR word_rotr 11 x XOR word_rotr 25 x"
definition fips_sigma0 :: "u32 \<Rightarrow> u32" where "fips_sigma0 x = word_rotr 7 x XOR word_rotr 18 x XOR drop_bit 3 x"
definition fips_sigma1 :: "u32 \<Rightarrow> u32" where "fips_sigma1 x = word_rotr 17 x XOR word_rotr 19 x XOR drop_bit 10 x"

text \<open>The words of a block are its big-endian groups of four bytes.\<close>

fun fips_W :: "bytes \<Rightarrow> nat \<Rightarrow> u32" where
  "fips_W block t =
    (if t < 16 then word_of_nat (foldl (\<lambda>n b. 256 * n + unat b) 0 (take 4 (drop (4 * t) block)))
     else fips_sigma1 (fips_W block (t - 2)) + fips_W block (t - 7) + fips_sigma0 (fips_W block (t - 15)) + fips_W block (t - 16))"

declare fips_W.simps [simp del]

fun fips_round :: "u32 \<Rightarrow> sha_vars \<Rightarrow> sha_vars" where
  "fips_round w_k (a, b, c, d, e, f, g, h) =
    (let T1 = h + fips_Sigma1 e + fips_Ch e f g + w_k; T2 = fips_Sigma0 a + fips_Maj a b c
     in (T1 + T2, a, b, c, d + T1, e, f, g))"

fun fips_add :: "sha_vars \<Rightarrow> sha_vars \<Rightarrow> sha_vars" where
  "fips_add (a, b, c, d, e, f, g, h) (a', b', c', d', e', f', g', h') =
    (a + a', b + b', c + c', d + d', e + e', f + f', g + g', h + h')"

definition fips_block :: "sha_vars \<Rightarrow> bytes \<Rightarrow> sha_vars" where
  "fips_block H block = fips_add (fold (\<lambda>t. fips_round (fips_K t + fips_W block t)) [0..<64] H) H"

fun fips_words :: "sha_vars \<Rightarrow> u32 list" where
  "fips_words (a, b, c, d, e, f, g, h) = [a, b, c, d, e, f, g, h]"

text \<open>
  The padded message is a one bit, the least number of zero bits that leaves 64 bits free in the last block, and
  the length of the message in bits.
\<close>

definition big_endian :: "nat \<Rightarrow> 'a::len word \<Rightarrow> bytes" where
  "big_endian n w = map (\<lambda>k. word_of_nat (unat w div 256 ^ k)) (rev [0..<n])"

definition fips_zeros :: "nat \<Rightarrow> nat" where
  "fips_zeros l = (LEAST k. (l + 1 + k) mod 512 = 448)"

definition sha256 :: "bytes \<Rightarrow> bytes" where
  "sha256 msg = concat (map (big_endian 4) (fips_words (foldl fips_block fips_H0 (blocks64
     (msg @ [0x80] @ replicate (fips_zeros (8 * length msg) div 8) 0 @ big_endian 8 (word_of_nat (8 * length msg) :: u64))))))"

definition hex_digits :: "nat \<Rightarrow> string" where
  "hex_digits n = map (\<lambda>d. if d < 10 then char_of (48 + d) else char_of (87 + d)) [n div 16, n mod 16]"

section \<open>Constants\<close>

lemma frac_bits_eq:
  assumes "0 < k" "0 \<le> c" "c ^ k \<le> p * 2 ^ (32 * k)" "p * 2 ^ (32 * k) < (c + 1) ^ k"
  shows "frac_bits k p = word_of_int c"
proof -
  let ?n = "p * 2 ^ (32 * k)"
  have r: "2 ^ 32 * root k (real_of_int p) = root k (real_of_int ?n)"
    using assms(1) by (simp add: real_root_mult real_root_power_cancel power_mult)
  have "root k (real_of_int (c ^ k)) = real_of_int c" "root k (real_of_int ((c + 1) ^ k)) = real_of_int (c + 1)"
    using assms(1,2) by (simp_all only: of_int_power) (simp_all add: real_root_power_cancel)
  moreover have "root k (real_of_int (c ^ k)) \<le> root k (real_of_int ?n)"
    "root k (real_of_int ?n) < root k (real_of_int ((c + 1) ^ k))"
    using assms by (simp_all only: real_root_le_iff real_root_less_iff of_int_le_iff of_int_less_iff)
  ultimately have "real_of_int c \<le> root k (real_of_int ?n)" "root k (real_of_int ?n) < real_of_int (c + 1)"
    by (simp_all only:)
  then have "\<lfloor>2 ^ 32 * root k (real_of_int p)\<rfloor> = c"
    unfolding r by (intro floor_unique) auto
  then show ?thesis by (simp add: frac_bits_def)
qed

text \<open>The bits of the roots: each number is the root times \<open>2 ^ 32\<close>, rounded down.\<close>

lemma frac_bits_map:
  assumes "0 < k" "list_all2 (\<lambda>p c. 0 \<le> c \<and> c ^ k \<le> p * 2 ^ (32 * k) \<and> p * 2 ^ (32 * k) < (c + 1) ^ k) ps cs"
  shows "map (frac_bits k) ps = map word_of_int cs"
  using assms(2) by (induction rule: list_all2_induct) (auto intro: frac_bits_eq [OF assms(1)])

lemma rotr_RoR:
  assumes "0 < n" "n < 32"
  shows "word_rotr n x = RoR x n"
proof (rule bit_word_eqI)
  fix k assume "k < LENGTH(32)"
  then have k: "k < 32" by simp
  have r: "bit (RoR x n) k \<longleftrightarrow> bit x (n + k) \<or> 32 - n \<le> k \<and> bit x (k - (32 - n))"
    using k by (simp add: RoR_def bit_or_iff bit_drop_bit_eq bit_push_bit_iff)
  show "bit (word_rotr n x) k = bit (RoR x n) k"
  proof (cases "k + n < 32")
    case True
    then have "\<not> 32 - n \<le> k" by linarith
    then show ?thesis using k r True by (simp only: bit_word_rotr_iff) (simp add: add.commute)
  next
    case False
    then have "(k + n) mod 32 = k - (32 - n)" "\<not> bit x (n + k)"
      using k assms(2) bit_imp_le_length [of x "n + k"] by (auto simp: mod_if)
    moreover from False have "32 - n \<le> k" by linarith
    ultimately show ?thesis using k r by (simp only: bit_word_rotr_iff) simp
  qed
qed

lemma fips_logic:
  "fips_Ch = Ch" "fips_Maj = Maj" "fips_Sigma0 = Sig0" "fips_Sigma1 = Sig1" "fips_sigma0 = sig0" "fips_sigma1 = sig1"
  by (auto simp: fun_eq_iff rotr_RoR fips_Ch_def Ch_def fips_Maj_def Maj_def fips_Sigma0_def Sig0_def fips_Sigma1_def
      Sig1_def fips_sigma0_def sig0_def fips_sigma1_def sig1_def bit_eq_iff bit_simps)

lemma byte_bit: "bit b n \<Longrightarrow> n < 8" for b :: byte
  using bit_imp_le_length [of b n] by simp

lemma bytes_word: "word_of_nat (foldl (\<lambda>n b. 256 * n + unat b) 0 [a, b, c, d]) =
    push_bit 24 (ucast a) OR push_bit 16 (ucast b) OR push_bit 8 (ucast c) OR (ucast d :: u32)" for a b c d :: byte
proof -
  let ?a = "push_bit 24 (ucast a) :: u32" and ?b = "push_bit 16 (ucast b) :: u32" and ?c = "push_bit 8 (ucast c) :: u32"
  have "?c AND ucast d = 0" "?b AND (?c OR ucast d) = 0" "?a AND (?b OR ?c OR ucast d) = 0"
    by (auto intro!: bit_word_eqI simp: bit_and_iff bit_or_iff bit_push_bit_iff bit_unsigned_iff dest!: byte_bit)
  then have "?a OR (?b OR (?c OR ucast d)) = ?a + (?b + (?c + ucast d))"
    by (simp only: disjunctive_add_eq_or)
  also have "\<dots> = ucast a * 16777216 + (ucast b * 65536 + (ucast c * 256 + ucast d))"
    by (simp add: push_bit_eq_mult)
  finally show ?thesis by (simp add: algebra_simps)
qed

lemma fips_word:
  assumes "length block = 64" "t < 16"
  shows "word_of_nat (foldl (\<lambda>n b. 256 * n + unat b) 0 (take 4 (drop (4 * t) block))) = be_word block t"
proof -
  have "take 4 (drop (4 * t) block) = [block ! (4 * t), block ! (4 * t + 1), block ! (4 * t + 2), block ! (4 * t + 3)]"
    (is "_ = ?ws")
  proof (rule nth_equalityI)
    fix i assume "i < length (take 4 (drop (4 * t) block))"
    then have "i = 0 \<or> i = 1 \<or> i = 2 \<or> i = 3" by auto
    then show "take 4 (drop (4 * t) block) ! i = ?ws ! i" using assms by auto
  qed (use assms in simp)
  then show ?thesis by (simp only: bytes_word be_word_def) (simp only: mult.commute)
qed

lemma byte_of: "word_of_nat (unat w div 2 ^ k) = (ucast (drop_bit k w) :: byte)"
  by (metis of_nat_unat unat_drop_bit_eq drop_bit_eq_div)

lemma big_endian_eq: "big_endian n w = map (\<lambda>k. ucast (drop_bit (8 * k) w)) (rev [0..<n])"
proof -
  have "(256 :: nat) ^ k = 2 ^ (8 * k)" for k by (simp add: power_mult)
  then show ?thesis by (simp only: big_endian_def byte_of)
qed

lemma upt_4_8: "[0..<4] = [0, 1, 2, 3 :: nat]" "[0..<8] = [0, 1, 2, 3, 4, 5, 6, 7 :: nat]"
  by (simp_all add: upt_rec)

lemma big_endian_eqs: "big_endian 4 w = be32 w" "big_endian 8 v = be64 v"
  by (simp_all add: big_endian_eq be32_def be64_def upt_4_8)

lemma primes_311: "fips_primes = [2, 3, 5, 7, 11, 13, 17, 19, 23, 29, 31, 37, 41, 43, 47, 53, 59, 61, 67, 71, 73,
    79, 83, 89, 97, 101, 103, 107, 109, 113, 127, 131, 137, 139, 149, 151, 157, 163, 167, 173, 179, 181, 191, 193, 197,
    199, 211, 223, 227, 229, 233, 239, 241, 251, 257, 263, 269, 271, 277, 281, 283, 293, 307, 311]"
  by code_simp

lemma primes_length: "length fips_primes = 64"
  by (simp add: primes_311)

lemma sha_h0_fips: "map (frac_bits 2) [2, 3, 5, 7, 11, 13, 17, 19] = sha_h0"
proof -
  have "map (frac_bits 2) [2, 3, 5, 7, 11, 13, 17, 19] = map word_of_int [0x16a09e667, 0x1bb67ae85, 0x23c6ef372,
      0x2a54ff53a, 0x3510e527f, 0x39b05688c, 0x41f83d9ab, 0x45be0cd19]"
    by (rule frac_bits_map) simp_all
  then show ?thesis by (simp add: sha_h0_def)
qed

lemma kSha256K_fips: "map (frac_bits 3) fips_primes = kSha256K"
proof -
  have "map (frac_bits 3) fips_primes = map word_of_int [
    0x1428a2f98, 0x171374491, 0x1b5c0fbcf, 0x1e9b5dba5, 0x23956c25b, 0x259f111f1, 0x2923f82a4, 0x2ab1c5ed5,
    0x2d807aa98, 0x312835b01, 0x3243185be, 0x3550c7dc3, 0x372be5d74, 0x380deb1fe, 0x39bdc06a7, 0x3c19bf174,
    0x3e49b69c1, 0x3efbe4786, 0x40fc19dc6, 0x4240ca1cc, 0x42de92c6f, 0x44a7484aa, 0x45cb0a9dc, 0x476f988da,
    0x4983e5152, 0x4a831c66d, 0x4b00327c8, 0x4bf597fc7, 0x4c6e00bf3, 0x4d5a79147, 0x506ca6351, 0x514292967,
    0x527b70a85, 0x52e1b2138, 0x54d2c6dfc, 0x553380d13, 0x5650a7354, 0x5766a0abb, 0x581c2c92e, 0x592722c85,
    0x5a2bfe8a1, 0x5a81a664b, 0x5c24b8b70, 0x5c76c51a3, 0x5d192e819, 0x5d6990624, 0x5f40e3585, 0x6106aa070,
    0x619a4c116, 0x61e376c08, 0x62748774c, 0x634b0bcb5, 0x6391c0cb3, 0x64ed8aa4a, 0x65b9cca4f, 0x6682e6ff3,
    0x6748f82ee, 0x678a5636f, 0x684c87814, 0x68cc70208, 0x690befffa, 0x6a4506ceb, 0x6bef9a3f7, 0x6c67178f2]"
    unfolding primes_311 by (rule frac_bits_map) simp_all
  then show ?thesis by (simp add: kSha256K_def)
qed

section \<open>One block\<close>

lemma schedule_W: "length block = 64 \<Longrightarrow> sha_schedule block = map (fips_W block) [0..<64]"
proof -
  assume len: "length block = 64"
  let ?step = "\<lambda>m i. m @ [sig1 (m ! (i - 2)) + m ! (i - 7) + sig0 (m ! (i - 15)) + m ! (i - 16)]"
  have start: "map (be_word block) [0..<16] = map (fips_W block) [0..<16]"
    using len by (auto simp: fips_word fips_W.simps)
  have *: "foldl ?step (map (be_word block) [0..<16]) [16..<n] = map (fips_W block) [0..<n]" if "16 \<le> n" for n
    using that
  proof (induction n rule: dec_induct)
    case (step n)
    have "fips_W block n = fips_sigma1 (fips_W block (n - 2)) + fips_W block (n - 7) + fips_sigma0 (fips_W block (n - 15))
        + fips_W block (n - 16)"
      using step(1) by (subst fips_W.simps) simp
    then show ?case using step by (simp add: fips_logic)
  qed (simp add: start)
  show ?thesis unfolding sha_schedule_def by (rule *) simp
qed

lemma sha_round_fips: "i < length m \<Longrightarrow> sha_round m (fips_words v) i = fips_words (fips_round (kSha256K ! i + m ! i) v)"
  by (cases v rule: fips_words.cases) (simp add: sha_round_def fips_logic Let_def add.assoc)

lemma fips_words_add: "map2 (+) (fips_words v) (fips_words u) = fips_words (fips_add u v)"
  by (cases v rule: fips_words.cases; cases u rule: fips_words.cases) (simp add: add.commute)

lemma compress_fips:
  assumes "length block = 64"
  shows "Sha256Compress (fips_words v) block = fips_words (fips_block v block)"
proof -
  have K: "fips_K t = kSha256K ! t" if "t < 64" for t
    using that arg_cong [OF kSha256K_fips, of "\<lambda>ks. ks ! t"] primes_length by (simp add: fips_K_def)
  have "foldl (sha_round (sha_schedule block)) (fips_words v) is
      = fips_words (fold (\<lambda>t. fips_round (fips_K t + fips_W block t)) is v)" if "set is \<subseteq> {..<64}" for "is"
    using that
  proof (induction "is" arbitrary: v)
    case (Cons i js)
    then show ?case by (simp add: sha_round_fips schedule_W [OF assms] K)
  qed simp
  moreover have "set [0..<64] \<subseteq> {..<64 :: nat}" by (simp only: atLeastLessThan_upt [symmetric] atLeast0LessThan)
  ultimately have "foldl (sha_round (sha_schedule block)) (fips_words v) [0..<64]
      = fips_words (fold (\<lambda>t. fips_round (fips_K t + fips_W block t)) [0..<64] v)" by blast
  then show ?thesis
    by (simp only: Sha256Compress_def fips_block_def fips_words_add)
qed

section \<open>The padded message\<close>

lemma blocks64_length: "b \<in> set (blocks64 xs) \<Longrightarrow> length b = 64"
proof (induction xs rule: blocks64.induct)
  case (1 xs)
  show ?case
  proof (cases "length xs < 64")
    case True
    then show ?thesis using "1.prems" by (simp add: blocks64_short)
  next
    case False
    then have "blocks64 xs = take 64 xs # blocks64 (drop 64 xs)" by (subst blocks64.simps) simp
    then show ?thesis using "1.prems" "1.IH" [OF False] False by auto
  qed
qed

lemma fips_zeros_bytes: "fips_zeros (8 * n) div 8 = (119 - n mod 64) mod 64"
proof -
  define m where "m = (119 - n mod 64) mod 64"
  have m: "m < 64" by (simp add: m_def)
  obtain b where b: "n + 1 + m = 64 * b + 56"
  proof (cases "n mod 64 < 56")
    case True
    then have "m = 55 - n mod 64" unfolding m_def by (rule pad_count)
    then have "n + 1 + m = 64 * (n div 64) + 56" using True div_mult_mod_eq [of n 64] by linarith
    with that show ?thesis .
  next
    case False
    then have "m = (63 - n mod 64) + 56" unfolding m_def by (intro pad_count) auto
    moreover have "n mod 64 < 64" by simp
    ultimately have "n mod 64 + m = 119" by linarith
    moreover have "n + 1 + m = 64 * (q + 1) + 56" if "r + m = 119" "q * 64 + r = n" for q r
      using that by simp
    ultimately have "n + 1 + m = 64 * (n div 64 + 1) + 56" using div_mult_mod_eq [of n 64] by blast
    with that show ?thesis .
  qed
  have sum: "8 * n + 1 + (8 * m + 7) = 512 * b + 448" using b by linarith
  then have "(8 * n + 1 + (8 * m + 7)) mod 512 = 448" by (simp only: mod_mult_self3) simp
  moreover have "8 * m + 7 \<le> k" if "(8 * n + 1 + k) mod 512 = 448" for k
  proof -
    have "8 * n + 1 + k = 512 * ((8 * n + 1 + k) div 512) + 448"
      unfolding that [symmetric] by (rule mult_div_mod_eq [symmetric])
    then obtain c where c: "8 * n + 1 + k = 512 * c + 448" by blast
    show ?thesis
    proof (cases "b \<le> c")
      case False
      then have "c + 1 \<le> b" by simp
      then show ?thesis using c sum m by linarith
    qed (use c sum in linarith)
  qed
  ultimately have "fips_zeros (8 * n) = 8 * m + 7"
    unfolding fips_zeros_def by (rule Least_equality)
  then show ?thesis by (simp add: m_def)
qed

lemma sha_blockwise_fips: "sha_blockwise msg = sha256 msg"
proof -
  have pad: "sha_pad msg = msg @ [0x80] @ replicate (fips_zeros (8 * length msg) div 8) 0
      @ big_endian 8 (word_of_nat (8 * length msg) :: u64)"
    by (simp only: sha_pad_def fips_zeros_bytes big_endian_eqs)
  have "foldl Sha256Compress (fips_words v) bs = fips_words (foldl fips_block v bs)"
    if "\<And>b. b \<in> set bs \<Longrightarrow> length b = 64" for v bs
    using that by (induction bs arbitrary: v) (auto simp: compress_fips)
  moreover have "sha_h0 = fips_words fips_H0"
    by (simp add: fips_H0_def flip: sha_h0_fips)
  ultimately have "foldl Sha256Compress sha_h0 (blocks64 (sha_pad msg)) = fips_words (foldl fips_block fips_H0 (blocks64 (sha_pad msg)))"
    using blocks64_length by metis
  moreover have "be32 = big_endian 4" by (simp add: fun_eq_iff big_endian_eqs)
  ultimately show ?thesis unfolding sha_blockwise_def sha256_def pad by (simp only:)
qed

lemma BytesToHex_digits: "BytesToHex data = concat (map (\<lambda>b. hex_digits (unat b)) data)"
proof -
  have "[kHex ! unat (drop_bit 4 b AND 0xF), kHex ! unat (b AND 0xF)] = hex_digits (unat b)" for b :: byte
  proof -
    have nib: "x AND 0xF = take_bit 4 x" for x :: byte
      by (simp add: take_bit_eq_mask mask_eq_exp_minus_1)
    have "unat (drop_bit 4 b AND 0xF) = take_bit 4 (drop_bit 4 (unat b))"
      by (simp only: nib unsigned_take_bit_eq unat_drop_bit_eq)
    also have "\<dots> = unat b div 16"
      using unat_byte_bound [of b] by (simp add: take_bit_eq_mod drop_bit_eq_div del: unat_byte_bound)
    finally have "unat (drop_bit 4 b AND 0xF) = unat b div 16" .
    moreover have "unat (b AND 0xF) = unat b mod 16"
      by (simp only: nib unsigned_take_bit_eq) (simp add: take_bit_eq_mod)
    moreover have "kHex ! d = (if d < 10 then char_of (48 + d) else char_of (87 + d))" if "d < 16" for d
    proof -
      have "\<forall>d \<in> set [0..<16]. kHex ! d = (if d < 10 then char_of (48 + d) else char_of (87 + d))" by code_simp
      with that show ?thesis by simp
    qed
    moreover have "unat b div 16 < 16"
      using unat_byte_bound [of b] by (simp add: div_less_iff_less_mult del: unat_byte_bound)
    ultimately show ?thesis by (simp add: hex_digits_def)
  qed
  then show ?thesis by (simp add: BytesToHex_def)
qed

text \<open>
  C40. The byte-by-byte digest is SHA-256 as the standard defines it, for every message and whatever the
  uninitialised buffer holds: the streaming, the padding, the constants, the schedule and the rounds are those
  of the standard, and the result is printed in lower-case hexadecimal.
\<close>

theorem sha256_streaming:
  assumes "length garbage = 64"
  shows "Sha256Hex garbage msg = concat (map (\<lambda>b. hex_digits (unat b)) (sha256 msg))"
  using Sha256Hex_blockwise [OF assms, of msg] by (simp add: sha_blockwise_fips BytesToHex_digits)

theorem sha256_streaming_witness:
  "Sha256Hex (replicate 64 0xCD) [0x61, 0x62, 0x63] = concat (map (\<lambda>b. hex_digits (unat b)) (sha256 [0x61, 0x62, 0x63]))"
  by (rule sha256_streaming) simp

end
