(* ===== verification/DualSlot.thy ===== *)
theory DualSlot
  imports Prelude
begin

text \<open>
  The contract shared by \<open>SuperBlockStore\<close> and \<open>RegionManager\<close>: two slots that are
  written alternately, each holding a checked block with an epoch. A reader elects the
  valid block with the larger epoch, slot 0 on a tie. The writer puts the block of epoch
  \<open>e\<close> into slot \<open>e mod 2\<close>, so the slot of the block in force is never touched.

  The locale proves once what both stores rely on: a completed write is elected, the
  block that was in force stays readable in the other slot, and a write that leaves its
  slot unreadable changes nothing.
\<close>

definition other_slot :: "nat \<Rightarrow> nat" where
  "other_slot s = (if s = 0 then 1 else 0)"

locale dual_slot =
  fixes read_slot :: "'f \<Rightarrow> nat \<Rightarrow> 'b option"
    and write_slot :: "'f \<Rightarrow> nat \<Rightarrow> 'b \<Rightarrow> 'f"
    and epoch :: "'b \<Rightarrow> u64"
    and file_ok :: "'f \<Rightarrow> bool"
    and sealed :: "'b \<Rightarrow> bool"
  assumes read_same: "file_ok f \<Longrightarrow> sealed b \<Longrightarrow> s < 2 \<Longrightarrow> read_slot (write_slot f s b) s = Some b"
    and read_other: "file_ok f \<Longrightarrow> sealed b \<Longrightarrow> s < 2 \<Longrightarrow> s' < 2 \<Longrightarrow> s \<noteq> s' \<Longrightarrow>
        read_slot (write_slot f s b) s' = read_slot f s'"
    and write_ok: "file_ok f \<Longrightarrow> sealed b \<Longrightarrow> s < 2 \<Longrightarrow> file_ok (write_slot f s b)"
begin

definition elect :: "'f \<Rightarrow> 'b option" where
  "elect f = (case (read_slot f 0, read_slot f 1) of
      (None, None) \<Rightarrow> None
    | (Some a, None) \<Rightarrow> Some a
    | (None, Some b) \<Rightarrow> Some b
    | (Some a, Some b) \<Rightarrow> (if epoch b \<le> epoch a then Some a else Some b))"

definition cur_epoch :: "'f \<Rightarrow> u64" where
  "cur_epoch f = (case elect f of None \<Rightarrow> 0 | Some b \<Rightarrow> epoch b)"

definition parity :: "'f \<Rightarrow> bool" where
  "parity f \<longleftrightarrow> (\<forall>s < 2. \<forall>b. read_slot f s = Some b \<longrightarrow> unat (epoch b) mod 2 = s)"

definition slot_of :: "u64 \<Rightarrow> nat" where
  "slot_of e = unat e mod 2"

lemma slot_of_less [simp]: "slot_of e < 2"
  by (simp add: slot_of_def)

lemma less_2_cases: "s < 2 \<Longrightarrow> s = 0 \<or> s = (1 :: nat)"
  by auto

lemma parity_read: "parity f \<Longrightarrow> s < 2 \<Longrightarrow> read_slot f s = Some b \<Longrightarrow> slot_of (epoch b) = s"
  by (simp add: parity_def slot_of_def)

lemma other_simps [simp]: "other_slot s < 2" "s < 2 \<Longrightarrow> other_slot s \<noteq> s" "s < 2 \<Longrightarrow> s \<noteq> other_slot s"
  "s < 2 \<Longrightarrow> other_slot (other_slot s) = s"
  by (auto simp: other_slot_def)

lemma unat_Suc_epoch: "unat (e :: u64) + 1 < 2 ^ 64 \<Longrightarrow> unat (e + 1) = unat e + 1"
  by (simp add: unat_word_ariths)

lemma slot_of_Suc: "unat e + 1 < 2 ^ 64 \<Longrightarrow> slot_of (e + 1) = other_slot (slot_of e)"
  by (auto simp: slot_of_def other_slot_def unat_Suc_epoch mod_Suc)

lemma elected_slot:
  assumes "elect f = Some a"
  obtains s where "s < 2" "read_slot f s = Some a"
proof -
  have "read_slot f 0 = Some a \<or> read_slot f 1 = Some a"
    using assms by (auto simp: elect_def split: option.splits if_splits)
  then show ?thesis using that [of 0] that [of 1] by auto
qed

lemma elected_read:
  assumes "parity f" "elect f = Some a"
  shows "read_slot f (slot_of (epoch a)) = Some a"
  using elected_slot [OF assms(2)] parity_read [OF assms(1)] by metis

lemma elect_max: "s < 2 \<Longrightarrow> read_slot f s = Some b \<Longrightarrow> epoch b \<le> cur_epoch f"
  by (auto simp: elect_def cur_epoch_def split: option.splits if_splits dest!: less_2_cases)

lemma elect_None_read: "elect f = None \<Longrightarrow> s < 2 \<Longrightarrow> read_slot f s = None"
  by (auto simp: elect_def split: option.splits if_splits dest!: less_2_cases)

lemma elect_unique_max:
  assumes "s < 2" "read_slot f s = Some b"
    and "\<And>c. read_slot f (other_slot s) = Some c \<Longrightarrow> epoch c < epoch b"
  shows "elect f = Some b"
  using assms by (auto simp: elect_def other_slot_def not_le split: option.splits dest!: less_2_cases)

lemma elect_one_slot:
  assumes "s < 2" "read_slot f s = None"
  shows "elect f = read_slot f (other_slot s)"
  using assms by (auto simp: elect_def other_slot_def split: option.splits dest!: less_2_cases)

text \<open>A completed write is in force afterwards, and the scheme's invariant is kept.\<close>

lemma commit_elected:
  assumes "file_ok f" "sealed b" "cur_epoch f < epoch b"
  shows "elect (write_slot f (slot_of (epoch b)) b) = Some b"
proof (rule elect_unique_max)
  let ?s = "slot_of (epoch b)"
  show "?s < 2" by simp
  show "read_slot (write_slot f ?s b) ?s = Some b" using assms by (simp add: read_same)
  fix c assume "read_slot (write_slot f ?s b) (other_slot ?s) = Some c"
  then have "read_slot f (other_slot ?s) = Some c"
    using assms(1,2) by (simp add: read_other)
  then have "epoch c \<le> cur_epoch f" by (intro elect_max) auto
  with assms(3) show "epoch c < epoch b" by simp
qed

lemma commit_parity:
  assumes "file_ok f" "sealed b"
    and "\<And>c. read_slot f (other_slot (slot_of (epoch b))) = Some c \<Longrightarrow>
          slot_of (epoch c) = other_slot (slot_of (epoch b))"
  shows "parity (write_slot f (slot_of (epoch b)) b)"
proof -
  let ?s = "slot_of (epoch b)"
  have "slot_of (epoch c) = s"
    if s: "s < 2" and c: "read_slot (write_slot f ?s b) s = Some c" for s c
  proof (cases "s = ?s")
    case True
    with c assms show ?thesis by (simp add: read_same)
  next
    case False
    then have "s = other_slot ?s"
      using s slot_of_less [of "epoch b"] by (auto simp: other_slot_def simp del: slot_of_less)
    with c assms show ?thesis by (simp add: read_other)
  qed
  then show ?thesis by (simp add: parity_def slot_of_def)
qed

text \<open>
  A write of the next epoch that leaves its slot unreadable, and the other slot alone,
  leaves the block in force.
\<close>

lemma torn_keeps_elected:
  assumes "parity f" "elect f = Some a" "unat (epoch a) + 1 < 2 ^ 64"
    and "read_slot f' (slot_of (epoch a + 1)) = None"
    and "read_slot f' (other_slot (slot_of (epoch a + 1))) = read_slot f (other_slot (slot_of (epoch a + 1)))"
  shows "elect f' = Some a"
  using elect_one_slot [OF slot_of_less assms(4)] elected_read [OF assms(1,2)] assms(3,5)
  by (simp add: slot_of_Suc)

end

end
