(* ===== verification/Superblock.thy ===== *)
theory Superblock
  imports Crc32 DualSlot
begin

text \<open>
  \<^verbatim>\<open>cpp/include/ebtree/concept/superblock/superblock.h\<close> and
  \<^verbatim>\<open>cpp/src/concept/superblock/superblock.cc\<close>: the superblock file, two slots of 4096
  bytes. \<open>super_critical\<close> and \<open>super_block\<close> are the packed structs, \<open>enc_super\<close> their
  image. The file is \<open>None\<close> while it does not exist. Writes carry a \<open>fault\<close> of the
  environment, so that a failed or torn write is a branch of the model.

  Not modelled: \<open>create_directories\<close>, and the two test-only corruptors.
\<close>

section \<open>Layout\<close>

definition kSuperBlockMagic :: u64 where "kSuperBlockMagic = 0xEBE5BEEF"
definition kSuperBlockSize :: nat where "kSuperBlockSize = 4096"
definition kSuperBlockCriticalSize :: nat where "kSuperBlockCriticalSize = 512"

record super_critical =
  sc_magic :: u64
  sc_epoch :: u64
  sc_active_root :: u64
  sc_data_lsn :: u64
  sc_wal_lsn :: u64
  sc_crc32 :: u32
  sc_padding :: bytes

record super_block =
  sb_critical :: super_critical
  sb_tlog_tail :: u64
  sb_shard_id :: u32
  sb_format_version :: u32
  sb_reserved :: bytes
  sb_crc64 :: u64

definition SuperBlockCritical_init :: super_critical where
  "SuperBlockCritical_init = \<lparr>sc_magic = kSuperBlockMagic, sc_epoch = 0, sc_active_root = 0,
     sc_data_lsn = 0, sc_wal_lsn = 0, sc_crc32 = 0, sc_padding = replicate 468 0\<rparr>"

definition SuperBlock_init :: super_block where
  "SuperBlock_init = \<lparr>sb_critical = SuperBlockCritical_init, sb_tlog_tail = 0, sb_shard_id = 0,
     sb_format_version = 1, sb_reserved = replicate 3560 0, sb_crc64 = 0\<rparr>"

definition enc_critical :: "super_critical \<Rightarrow> bytes" where
  "enc_critical c = put_u64 (sc_magic c) @ put_u64 (sc_epoch c) @ put_u64 (sc_active_root c)
     @ put_u64 (sc_data_lsn c) @ put_u64 (sc_wal_lsn c) @ put_u32 (sc_crc32 c) @ sc_padding c"

definition dec_critical :: "bytes \<Rightarrow> super_critical" where
  "dec_critical bs = \<lparr>sc_magic = get_u64 bs, sc_epoch = get_u64 (drop 8 bs),
     sc_active_root = get_u64 (drop 16 bs), sc_data_lsn = get_u64 (drop 24 bs),
     sc_wal_lsn = get_u64 (drop 32 bs), sc_crc32 = get_u32 (drop 40 bs),
     sc_padding = slice 44 468 bs\<rparr>"

definition super_body :: "super_block \<Rightarrow> bytes" where
  "super_body b = enc_critical (sb_critical b) @ put_u64 (sb_tlog_tail b) @ put_u32 (sb_shard_id b)
     @ put_u32 (sb_format_version b) @ sb_reserved b"

definition enc_super :: "super_block \<Rightarrow> bytes" where
  "enc_super b = super_body b @ put_u64 (sb_crc64 b)"

definition dec_super :: "bytes \<Rightarrow> super_block" where
  "dec_super bs = \<lparr>sb_critical = dec_critical (take 512 bs), sb_tlog_tail = get_u64 (drop 512 bs),
     sb_shard_id = get_u32 (drop 520 bs), sb_format_version = get_u32 (drop 524 bs),
     sb_reserved = slice 528 3560 bs, sb_crc64 = get_u64 (drop 4088 bs)\<rparr>"

section \<open>Operations\<close>

definition ZeroPadding :: "super_block \<Rightarrow> super_block" where
  "ZeroPadding b = b\<lparr>sb_critical := (sb_critical b)\<lparr>sc_padding := replicate 468 0\<rparr>,
                     sb_reserved := replicate 3560 0\<rparr>"

definition ValidateCritical :: "super_critical \<Rightarrow> bool" where
  "ValidateCritical c \<longleftrightarrow>
     (if sc_magic c \<noteq> kSuperBlockMagic then False
      else Crc32 (enc_critical (c\<lparr>sc_crc32 := 0\<rparr>)) = sc_crc32 c)"

definition FinalizeCritical :: "super_block \<Rightarrow> super_block" where
  "FinalizeCritical block =
    (let b0 = ZeroPadding block;
         c0 = (sb_critical b0)\<lparr>sc_crc32 := 0\<rparr>;
         b1 = b0\<lparr>sb_critical := c0\<lparr>sc_crc32 := Crc32 (enc_critical c0)\<rparr>\<rparr>
     in b1\<lparr>sb_crc64 := ucast (Crc32 (super_body b1))\<rparr>)"

definition ReadSlot :: "bytes option \<Rightarrow> nat \<Rightarrow> super_block res" where
  "ReadSlot file slot =
    (case file of
      None \<Rightarrow> Inl (Status_IoError ''cannot open superblock'')
    | Some fb \<Rightarrow>
        (if length fb < slot * kSuperBlockSize + kSuperBlockSize
         then Inl (Status_IoError ''superblock read short'')
         else
          (let out = dec_super (slice (slot * kSuperBlockSize) kSuperBlockSize fb) in
           if (ucast (Crc32 (super_body out)) :: u64) \<noteq> sb_crc64 out
           then Inl (Status_Corrupt ''superblock crc64 mismatch'')
           else if \<not> ValidateCritical (sb_critical out)
           then Inl (Status_Corrupt ''superblock critical crc32 mismatch'')
           else Inr out)))"

text \<open>\<open>WriteSlot\<close> creates the file with two default blocks when it is missing.\<close>

definition slot_base :: "bytes option \<Rightarrow> bytes" where
  "slot_base file = (case file of
      None \<Rightarrow> enc_super SuperBlock_init @ enc_super SuperBlock_init
    | Some fb \<Rightarrow> fb)"

definition WriteSlot ::
  "fault \<Rightarrow> bytes option \<Rightarrow> nat \<Rightarrow> super_block \<Rightarrow> bytes option \<times> status" where
  "WriteSlot ft file slot block =
    (case ft of
      OpenFails \<Rightarrow> (file, Status_IoError ''cannot create superblock'')
    | Torn n \<Rightarrow> (Some (write_at (slot * kSuperBlockSize) (take n (enc_super block)) (slot_base file)),
                 Status_IoError ''superblock write failed'')
    | NoFault \<Rightarrow> (Some (write_at (slot * kSuperBlockSize) (enc_super block) (slot_base file)),
                  Status_Ok))"

definition Load :: "bytes option \<Rightarrow> super_block res" where
  "Load file =
    (case file of
      None \<Rightarrow> Inr SuperBlock_init
    | Some _ \<Rightarrow>
        (case (ReadSlot file 0, ReadSlot file 1) of
          (Inl sa, Inl sb) \<Rightarrow>
            (if st_code sa = KIoError then Inl sa else Inl (Status_Corrupt ''CorruptSuperBlock''))
        | (Inr a, Inl sb) \<Rightarrow> Inr a
        | (Inl sa, Inr b) \<Rightarrow> Inr b
        | (Inr a, Inr b) \<Rightarrow>
            (if sc_epoch (sb_critical b) \<le> sc_epoch (sb_critical a) then Inr a else Inr b)))"

text \<open>
  \<open>Commit\<close> ignores the status of its own \<open>Load\<close>: after a failed load \<open>current\<close> is the
  default block. The new epoch is computed in 64-bit arithmetic.
\<close>

definition Commit_current :: "bytes option \<Rightarrow> super_block" where
  "Commit_current file = (case Load file of Inl _ \<Rightarrow> SuperBlock_init | Inr b \<Rightarrow> b)"

definition Commit_next :: "bytes option \<Rightarrow> super_block \<Rightarrow> super_block" where
  "Commit_next file inp =
    (let current = Commit_current file;
         e = max (sc_epoch (sb_critical current)) (sc_epoch (sb_critical inp)) + 1
     in FinalizeCritical (inp\<lparr>sb_critical := (sb_critical inp)\<lparr>sc_epoch := e\<rparr>\<rparr>))"

definition Commit :: "fault \<Rightarrow> bytes option \<Rightarrow> super_block \<Rightarrow> bytes option \<times> status" where
  "Commit ft file inp =
    (let inactive = (if sc_epoch (sb_critical (Commit_current file)) mod 2 = 0 then 1 else 0)
     in WriteSlot ft file inactive (Commit_next file inp))"

section \<open>Layout lemmas\<close>

definition super_wf :: "super_block \<Rightarrow> bool" where
  "super_wf b \<longleftrightarrow> length (sc_padding (sb_critical b)) = 468 \<and> length (sb_reserved b) = 3560"

definition super_sealed :: "super_block \<Rightarrow> bool" where
  "super_sealed b \<longleftrightarrow> super_wf b \<and> ValidateCritical (sb_critical b)
     \<and> sb_crc64 b = ucast (Crc32 (super_body b))"

lemma length_enc_critical [layout_simps]:
  "length (enc_critical c) = 44 + length (sc_padding c)"
  by (simp add: enc_critical_def)

lemma length_enc_super [layout_simps]: "super_wf b \<Longrightarrow> length (enc_super b) = 4096"
  by (simp add: enc_super_def super_body_def super_wf_def length_enc_critical)

lemma dec_enc_critical:
  "length (sc_padding c) = 468 \<Longrightarrow> dec_critical (enc_critical c) = c"
  by (simp add: dec_critical_def enc_critical_def slice_def)

lemma dec_enc_super: "super_wf b \<Longrightarrow> dec_super (enc_super b) = b"
  by (simp add: dec_super_def enc_super_def super_body_def super_wf_def slice_def
      length_enc_critical dec_enc_critical)

lemma super_wf_init: "super_wf SuperBlock_init"
  by (simp add: super_wf_def SuperBlock_init_def SuperBlockCritical_init_def)

lemma FinalizeCritical_epoch [simp]:
  "sc_epoch (sb_critical (FinalizeCritical b)) = sc_epoch (sb_critical b)"
  by (simp add: FinalizeCritical_def ZeroPadding_def Let_def)

lemma FinalizeCritical_fields:
  "sc_data_lsn (sb_critical (FinalizeCritical b)) = sc_data_lsn (sb_critical b)"
  "sc_wal_lsn (sb_critical (FinalizeCritical b)) = sc_wal_lsn (sb_critical b)"
  "sc_active_root (sb_critical (FinalizeCritical b)) = sc_active_root (sb_critical b)"
  "sb_tlog_tail (FinalizeCritical b) = sb_tlog_tail b"
  by (simp_all add: FinalizeCritical_def ZeroPadding_def Let_def)

lemma FinalizeCritical_sealed:
  "sc_magic (sb_critical b) = kSuperBlockMagic \<Longrightarrow> super_sealed (FinalizeCritical b)"
  by (simp add: super_sealed_def super_wf_def FinalizeCritical_def ZeroPadding_def
      ValidateCritical_def super_body_def Let_def)

section \<open>The store is a two-slot store\<close>

definition sb_epoch :: "super_block \<Rightarrow> u64" where
  "sb_epoch b = sc_epoch (sb_critical b)"

definition super_read :: "bytes option \<Rightarrow> nat \<Rightarrow> super_block option" where
  "super_read file s = (case ReadSlot file s of Inl _ \<Rightarrow> None | Inr b \<Rightarrow> Some b)"

definition super_write :: "bytes option \<Rightarrow> nat \<Rightarrow> super_block \<Rightarrow> bytes option" where
  "super_write file s b = fst (WriteSlot NoFault file s b)"

definition super_file_ok :: "bytes option \<Rightarrow> bool" where
  "super_file_ok file \<longleftrightarrow> length (slot_base file) = 8192"

lemma super_file_ok_None [simp]: "super_file_ok None"
  by (simp add: super_file_ok_def slot_base_def length_enc_super super_wf_init)

lemma slot_base_Some [simp]: "slot_base (Some fb) = fb"
  by (simp add: slot_base_def)

lemma slice_write_at_same:
  "off + length blk \<le> length fb \<Longrightarrow> n = length blk \<Longrightarrow> slice off n (write_at off blk fb) = blk"
  by (simp add: write_at_inside slice_overwrite_same)

lemma slice_write_at_disjoint:
  "a + n \<le> off \<or> off + length blk \<le> a \<Longrightarrow> off + length blk \<le> length fb \<Longrightarrow>
   slice a n (write_at off blk fb) = slice a n fb"
  by (auto simp: write_at_inside slice_overwrite_before slice_overwrite_after)

text \<open>A write of at most one slot leaves the other slot's reading alone.\<close>

lemma ReadSlot_write_other:
  assumes "length fb = 8192" "s < 2" "s' < 2" "s \<noteq> s'" "length blk \<le> 4096"
  shows "ReadSlot (Some (write_at (s * kSuperBlockSize) blk fb)) s' = ReadSlot (Some fb) s'"
proof -
  let ?w = "write_at (s * kSuperBlockSize) blk fb"
  from assms have fit: "s * kSuperBlockSize + length blk \<le> length fb"
    by (auto simp: kSuperBlockSize_def)
  with assms have "slice (s' * kSuperBlockSize) kSuperBlockSize ?w = slice (s' * kSuperBlockSize) kSuperBlockSize fb"
    by (intro slice_write_at_disjoint) (auto simp: kSuperBlockSize_def)
  with fit show ?thesis by (simp add: ReadSlot_def length_write_at)
qed

lemma ReadSlot_write_same:
  assumes "length fb = 8192" "s < 2" "super_sealed b"
  shows "ReadSlot (Some (write_at (s * kSuperBlockSize) (enc_super b) fb)) s = Inr b"
proof -
  from assms have len: "length (enc_super b) = 4096"
    by (simp add: super_sealed_def length_enc_super)
  with assms have fit: "s * kSuperBlockSize + length (enc_super b) \<le> length fb"
    by (auto simp: kSuperBlockSize_def)
  then have sl: "slice (s * kSuperBlockSize) kSuperBlockSize
       (write_at (s * kSuperBlockSize) (enc_super b) fb) = enc_super b"
    using len by (simp add: slice_write_at_same kSuperBlockSize_def)
  have "dec_super (enc_super b) = b"
    using assms(3) by (simp add: super_sealed_def dec_enc_super)
  with sl fit len assms show ?thesis
    by (auto simp: ReadSlot_def length_write_at super_sealed_def kSuperBlockSize_def)
qed

lemma ReadSlot_base: "s < 2 \<Longrightarrow> super_read None s = None"
  by (simp add: super_read_def ReadSlot_def)

lemma super_wf_enc_length: "super_sealed b \<Longrightarrow> length (enc_super b) = 4096"
  by (simp add: super_sealed_def length_enc_super)

interpretation sbs: dual_slot
  "\<lambda>fb. super_read (Some fb)" "\<lambda>fb s b. write_at (s * kSuperBlockSize) (enc_super b) fb"
  sb_epoch "\<lambda>fb. length fb = 8192" super_sealed
proof unfold_locales
  fix f :: bytes and b s assume "length f = 8192" "super_sealed b" "s < (2 :: nat)"
  then show "super_read (Some (write_at (s * kSuperBlockSize) (enc_super b) f)) s = Some b"
    by (simp add: super_read_def ReadSlot_write_same)
  show "length (write_at (s * kSuperBlockSize) (enc_super b) f) = 8192"
    using \<open>length f = 8192\<close> \<open>super_sealed b\<close> \<open>s < 2\<close>
    by (subst length_write_at) (auto simp: kSuperBlockSize_def super_wf_enc_length)
next
  fix f :: bytes and b s s'
  assume "length f = 8192" "super_sealed b" "s < (2 :: nat)" "s' < (2 :: nat)" "s \<noteq> s'"
  then show "super_read (Some (write_at (s * kSuperBlockSize) (enc_super b) f)) s' = super_read (Some f) s'"
    by (simp add: super_read_def ReadSlot_write_other super_wf_enc_length)
qed

lemma Load_elect: "Load (Some fb) = Inr b \<longleftrightarrow> sbs.elect fb = Some b"
  by (auto simp: Load_def sbs.elect_def super_read_def sb_epoch_def split: sum.splits)

lemma Load_elect_None: "(\<exists>e. Load (Some fb) = Inl e) \<longleftrightarrow> sbs.elect fb = None"
proof (cases "sbs.elect fb")
  case None
  then have "\<And>b. Load (Some fb) \<noteq> Inr b" by (simp add: Load_elect)
  with None show ?thesis by (cases "Load (Some fb)") auto
next
  case (Some b)
  then have "Load (Some fb) = Inr b" by (simp add: Load_elect)
  with Some show ?thesis by simp
qed

lemma Commit_current_epoch: "sb_epoch (Commit_current (Some fb)) = sbs.cur_epoch fb"
proof (cases "Load (Some fb)")
  case (Inl e)
  then have "sbs.elect fb = None" using Load_elect_None by blast
  with Inl show ?thesis
    by (simp add: Commit_current_def sbs.cur_epoch_def sb_epoch_def SuperBlock_init_def
        SuperBlockCritical_init_def)
next
  case (Inr b)
  then have "sbs.elect fb = Some b" by (simp add: Load_elect)
  with Inr show ?thesis by (simp add: Commit_current_def sbs.cur_epoch_def)
qed

text \<open>The fresh file: reading a default block, should its checksum pass, gives epoch 0.\<close>

definition fresh_base :: bytes where
  "fresh_base = enc_super SuperBlock_init @ enc_super SuperBlock_init"

lemma length_fresh_base [simp]: "length fresh_base = 8192"
  by (simp add: fresh_base_def length_enc_super super_wf_init)

lemma fresh_read:
  assumes "s < 2" "super_read (Some fresh_base) s = Some b"
  shows "b = SuperBlock_init"
proof -
  have "slice (s * kSuperBlockSize) kSuperBlockSize fresh_base = enc_super SuperBlock_init"
    using assms(1) by (auto simp: slice_def fresh_base_def kSuperBlockSize_def length_enc_super
        super_wf_init less_2_cases_iff)
  with assms(2) show ?thesis
    by (simp add: super_read_def ReadSlot_def dec_enc_super super_wf_init Let_def split: if_splits)
qed

lemma sb_epoch_init [simp]: "sb_epoch SuperBlock_init = 0"
  by (simp add: sb_epoch_def SuperBlock_init_def SuperBlockCritical_init_def)

lemma fresh_cur_epoch: "sbs.cur_epoch fresh_base = 0"
proof (cases "sbs.elect fresh_base")
  case (Some a)
  then obtain s where "s < 2" "super_read (Some fresh_base) s = Some a"
    by (rule sbs.elected_slot)
  then have "a = SuperBlock_init" by (rule fresh_read)
  with Some show ?thesis by (simp add: sbs.cur_epoch_def)
qed (simp add: sbs.cur_epoch_def)

section \<open>Commit and Load\<close>

definition super_inv :: "bytes option \<Rightarrow> bool" where
  "super_inv file \<longleftrightarrow>
     (case file of None \<Rightarrow> True
      | Some fb \<Rightarrow> length fb = 8192 \<and> sbs.parity fb \<and> sbs.elect fb \<noteq> None)"

lemma super_inv_None [simp]: "super_inv None"
  by (simp add: super_inv_def)

lemma Commit_epoch:
  assumes "sb_epoch inp \<le> sb_epoch (Commit_current file)"
  shows "sb_epoch (Commit_next file inp) = sb_epoch (Commit_current file) + 1"
  using assms by (simp add: Commit_next_def sb_epoch_def Let_def max_def)

lemma Commit_sealed:
  "sc_magic (sb_critical inp) = kSuperBlockMagic \<Longrightarrow> super_sealed (Commit_next file inp)"
  by (simp add: Commit_next_def Let_def FinalizeCritical_sealed)

lemma inactive_slot:
  assumes "unat (e :: u64) + 1 < 2 ^ 64"
  shows "(if e mod 2 = 0 then 1 else 0) = sbs.slot_of (e + 1)"
proof -
  have "e mod 2 = 0 \<longleftrightarrow> unat e mod 2 = 0"
    by (simp add: unat_eq_zero [symmetric] unat_mod)
  then have "(if e mod 2 = 0 then 1 else 0) = other_slot (sbs.slot_of e)"
    by (simp only: sbs.slot_of_def other_slot_def)
  then show ?thesis
    by (simp only: sbs.slot_of_Suc [OF assms])
qed


text \<open>The block that \<open>Commit\<close> replaces, and the two slots seen from the file it starts from.\<close>

lemma Commit_current_base: "sb_epoch (Commit_current file) = sbs.cur_epoch (slot_base file)"
proof (cases "file")
  case None
  then show ?thesis
    using fresh_cur_epoch by (simp add: Commit_current_def Load_def slot_base_def fresh_base_def)
qed (simp add: Commit_current_epoch)

lemma slot_base_length: "super_inv file \<Longrightarrow> length (slot_base file) = 8192"
  by (cases "file") (use length_fresh_base in \<open>auto simp: super_inv_def slot_base_def fresh_base_def\<close>)

lemma slot_base_parity:
  assumes "super_inv file" "s < 2" "super_read (Some (slot_base file)) s = Some c"
    and "s = sbs.slot_of (sb_epoch (Commit_current file))"
  shows "sbs.slot_of (sb_epoch c) = s"
proof (cases "file")
  case None
  then have "c = SuperBlock_init"
    using assms(2,3) fresh_read [of s c] by (simp add: slot_base_def fresh_base_def)
  with None assms(4) show ?thesis by (simp add: Commit_current_def Load_def)
next
  case (Some fb)
  with assms(1) have "sbs.parity fb" by (simp add: super_inv_def)
  from sbs.parity_read [OF this assms(2)] assms(3) Some show ?thesis by simp
qed

lemma Commit_unfold:
  assumes "unat (sb_epoch (Commit_current file)) + 1 < 2 ^ 64"
    and "sb_epoch inp \<le> sb_epoch (Commit_current file)"
  shows "Commit ft file inp =
    WriteSlot ft file (sbs.slot_of (sb_epoch (Commit_next file inp))) (Commit_next file inp)"
  using inactive_slot [OF assms(1)] Commit_epoch [OF assms(2)]
  by (simp only: Commit_def Let_def sb_epoch_def)

lemma Commit_next_fields:
  "sc_active_root (sb_critical (Commit_next file inp)) = sc_active_root (sb_critical inp)"
  "sc_data_lsn (sb_critical (Commit_next file inp)) = sc_data_lsn (sb_critical inp)"
  "sc_wal_lsn (sb_critical (Commit_next file inp)) = sc_wal_lsn (sb_critical inp)"
  "sb_tlog_tail (Commit_next file inp) = sb_tlog_tail inp"
  by (simp_all add: Commit_next_def Let_def FinalizeCritical_fields)

lemma epoch_less_Suc: "unat (e :: u64) + 1 < 2 ^ 64 \<Longrightarrow> e < e + 1"
  by (metis less_add_one sbs.unat_Suc_epoch word_less_nat_alt)

lemma Commit_in_force:
  assumes inv: "super_inv file"
    and magic: "sc_magic (sb_critical inp) = kSuperBlockMagic"
    and le: "sb_epoch inp \<le> sb_epoch (Commit_current file)"
    and room: "unat (sb_epoch (Commit_current file)) + 1 < 2 ^ 64"
  shows "\<exists>file' next. Commit NoFault file inp = (file', Status_Ok)
    \<and> Load file' = Inr next \<and> super_inv file'
    \<and> sb_epoch next = sb_epoch (Commit_current file) + 1
    \<and> sc_active_root (sb_critical next) = sc_active_root (sb_critical inp)
    \<and> sc_data_lsn (sb_critical next) = sc_data_lsn (sb_critical inp)
    \<and> sc_wal_lsn (sb_critical next) = sc_wal_lsn (sb_critical inp)
    \<and> sb_tlog_tail next = sb_tlog_tail inp"
proof -
  let ?n = "Commit_next file inp" and ?base = "slot_base file"
  let ?s = "sbs.slot_of (sb_epoch ?n)"
  let ?f = "write_at (?s * kSuperBlockSize) (enc_super ?n) ?base"
  note sealed = Commit_sealed [OF magic, of "file"]
  note len = slot_base_length [OF inv]
  have ep: "sb_epoch ?n = sb_epoch (Commit_current file) + 1" by (rule Commit_epoch [OF le])
  then have "sbs.cur_epoch ?base < sb_epoch ?n"
    using epoch_less_Suc [OF room] by (simp add: Commit_current_base)
  from sbs.commit_elected [OF len sealed this] have el: "sbs.elect ?f = Some ?n" .
  have cur: "other_slot ?s = sbs.slot_of (sb_epoch (Commit_current file))"
    using sbs.slot_of_Suc [OF room] by (simp only: ep sbs.other_simps sbs.slot_of_less)
  have "sbs.slot_of (sb_epoch c) = other_slot ?s"
    if "super_read (Some ?base) (other_slot ?s) = Some c" for c
    using slot_base_parity [OF inv _ that cur] by simp
  then have par: "sbs.parity ?f" by (rule sbs.commit_parity [OF len sealed])
  have "Commit NoFault file inp = (Some ?f, Status_Ok)"
    by (simp add: Commit_unfold [OF room le] WriteSlot_def)
  moreover have "super_inv (Some ?f)"
    using sbs.write_ok [OF len sealed sbs.slot_of_less] el par by (simp add: super_inv_def)
  ultimately show ?thesis
    using ep el Load_elect Commit_next_fields by blast
qed

text \<open>
  A completed \<open>Commit\<close> on a store whose slots follow the epoch parity (a missing file
  included) succeeds; the next \<open>Load\<close> returns exactly the block committed, with the
  caller's root, LSNs and tail and with the next epoch, and the store keeps its invariant.
\<close>

theorem superblock_commit_load:
  assumes inv: "super_inv file"
    and magic: "sc_magic (sb_critical inp) = kSuperBlockMagic"
    and le: "sb_epoch inp \<le> sb_epoch (Commit_current file)"
    and room: "unat (sb_epoch (Commit_current file)) + 1 < 2 ^ 64"
  shows "\<exists>file' next. Commit NoFault file inp = (file', Status_Ok)
    \<and> Load file' = Inr next \<and> super_inv file'
    \<and> sb_epoch next = sb_epoch (Commit_current file) + 1
    \<and> sc_active_root (sb_critical next) = sc_active_root (sb_critical inp)
    \<and> sc_data_lsn (sb_critical next) = sc_data_lsn (sb_critical inp)
    \<and> sc_wal_lsn (sb_critical next) = sc_wal_lsn (sb_critical inp)
    \<and> sb_tlog_tail next = sb_tlog_tail inp"
  using assms by (rule Commit_in_force)

theorem superblock_commit_load_witness:
  "\<exists>file'. Commit NoFault None (SuperBlock_init\<lparr>sb_tlog_tail := 7\<rparr>) = (file', Status_Ok)
     \<and> (\<exists>next. Load file' = Inr next \<and> sb_epoch next = 1 \<and> sb_tlog_tail next = 7)"
  using superblock_commit_load [of None "SuperBlock_init\<lparr>sb_tlog_tail := 7\<rparr>"]
  by (auto simp: Commit_current_def Load_def sb_epoch_def SuperBlock_init_def
      SuperBlockCritical_init_def)

text \<open>
  C37. A torn \<open>Commit\<close> reports an error and never loses the block in force: it is still
  readable in its own slot, \<open>Load\<close> still succeeds with a block at least as new, and when
  the half-written slot fails a checksum \<open>Load\<close> returns exactly the block it returned
  before.
\<close>

theorem superblock_torn_commit:
  assumes inv: "super_inv (Some fb)" and cur: "Load (Some fb) = Inr a"
    and le: "sb_epoch inp \<le> sb_epoch a" and room: "unat (sb_epoch a) + 1 < 2 ^ 64"
    and magic: "sc_magic (sb_critical inp) = kSuperBlockMagic"
    and commit: "Commit (Torn n) (Some fb) inp = (file', st)"
  shows "\<not> status_ok st \<and> ReadSlot file' (unat (sb_epoch a) mod 2) = Inr a
    \<and> (\<exists>x. Load file' = Inr x \<and> sb_epoch a \<le> sb_epoch x)
    \<and> (\<forall>e. ReadSlot file' ((unat (sb_epoch a) + 1) mod 2) = Inl e \<longrightarrow> Load file' = Inr a)"
proof -
  let ?n = "Commit_next (Some fb) inp"
  let ?s = "sbs.slot_of (sb_epoch ?n)"
  let ?w = "write_at (?s * kSuperBlockSize) (take n (enc_super ?n)) fb"
  from inv have len: "length fb = 8192" and par: "sbs.parity fb" by (auto simp: super_inv_def)
  have el: "sbs.elect fb = Some a" using cur by (simp add: Load_elect)
  have cc: "Commit_current (Some fb) = a" using cur by (simp add: Commit_current_def)
  have ep: "sb_epoch ?n = sb_epoch a + 1" using Commit_epoch [of inp "Some fb"] le by (simp add: cc)
  have s: "?s = other_slot (sbs.slot_of (sb_epoch a))"
    unfolding ep by (rule sbs.slot_of_Suc [OF room])
  have s': "?s = (unat (sb_epoch a) + 1) mod 2"
    unfolding ep sbs.slot_of_def sbs.unat_Suc_epoch [OF room] ..
  have f': "file' = Some ?w" and st: "\<not> status_ok st"
    using commit Commit_unfold [of "Some fb" inp "Torn n"] room le
    by (auto simp: cc WriteSlot_def status_defs)
  have blk: "length (take n (enc_super ?n)) \<le> 4096"
    using super_wf_enc_length [OF Commit_sealed [OF magic]] by simp
  have keep: "ReadSlot file' (sbs.slot_of (sb_epoch a)) = ReadSlot (Some fb) (sbs.slot_of (sb_epoch a))"
    unfolding f' using len blk s by (intro ReadSlot_write_other) auto
  have old: "super_read (Some fb) (sbs.slot_of (sb_epoch a)) = Some a"
    by (rule sbs.elected_read [OF par el])
  then have now: "ReadSlot file' (sbs.slot_of (sb_epoch a)) = Inr a"
    by (auto simp: super_read_def keep split: sum.splits)
  then have nowr: "super_read (Some ?w) (sbs.slot_of (sb_epoch a)) = Some a"
    by (simp add: super_read_def f')
  have ge: "sb_epoch a \<le> sbs.cur_epoch ?w"
    by (rule sbs.elect_max [OF _ nowr]) simp
  have "sbs.elect ?w \<noteq> None" using sbs.elect_None_read [of ?w] nowr by force
  then obtain x where x: "sbs.elect ?w = Some x" by auto
  then have "Load file' = Inr x \<and> sb_epoch a \<le> sb_epoch x"
    using ge by (simp add: Load_elect f' sbs.cur_epoch_def)
  moreover have "Load file' = Inr a" if "ReadSlot file' ((unat (sb_epoch a) + 1) mod 2) = Inl e" for e
  proof -
    have "super_read (Some ?w) ?s = None" using that by (simp add: super_read_def f' s')
    from sbs.elect_one_slot [OF _ this] nowr s show ?thesis by (simp add: Load_elect f')
  qed
  ultimately show ?thesis using st now by (auto simp: sbs.slot_of_def)
qed

theorem superblock_torn_commit_witness:
  "\<exists>fb a file' st. Load (Some fb) = Inr a \<and> Commit (Torn 0) (Some fb) SuperBlock_init = (file', st)
     \<and> \<not> status_ok st \<and> ReadSlot file' 1 = Inr a"
proof -
  have init: "sc_magic (sb_critical SuperBlock_init) = kSuperBlockMagic" "Commit_current None = SuperBlock_init"
    by (simp_all add: Commit_current_def Load_def SuperBlock_init_def SuperBlockCritical_init_def)
  obtain file1 a where c: "Commit NoFault None SuperBlock_init = (file1, Status_Ok)"
    "Load file1 = Inr a" "super_inv file1" "sb_epoch a = 1"
    using Commit_in_force [OF super_inv_None init(1)] by (auto simp: init(2))
  obtain fb where fb: "file1 = Some fb" using c(2,4) by (cases file1) (auto simp: Load_def)
  obtain file' st where t: "Commit (Torn 0) (Some fb) SuperBlock_init = (file', st)" by fastforce
  show ?thesis
    using superblock_torn_commit [of fb a SuperBlock_init 0 file' st] c fb t init(1) by auto
qed

end
