(* ===== verification/Regions.thy ===== *)
theory Regions
  imports Crc32 DualSlot
begin

text \<open>
  \<^verbatim>\<open>cpp/include/ebtree/concept/gc/region_manager.h\<close> and
  \<^verbatim>\<open>cpp/src/concept/gc/region_manager.cc\<close>: which of the two data-file generations is
  active and which may be reclaimed, kept in memory and in a two-slot file of 4096-byte
  blocks. The record \<open>region_manager\<close> is the object together with the content of its
  file (\<open>None\<close> while it does not exist).
\<close>

section \<open>Layout\<close>

definition kGcMetaSize :: nat where "kGcMetaSize = 4096"
definition kGcMetaMagic :: u64 where "kGcMetaMagic = 0xEB710C"

record gc_critical =
  gc_magic :: u64
  gc_epoch :: u64
  gc_active :: u8
  gc_reserved :: bytes
  gc_crc32 :: u32

record gc_meta =
  gm_critical :: gc_critical
  gm_padding :: bytes

definition GcMeta_init :: gc_meta where
  "GcMeta_init = \<lparr>gm_critical = \<lparr>gc_magic = kGcMetaMagic, gc_epoch = 0, gc_active = 0,
     gc_reserved = replicate 7 0, gc_crc32 = 0\<rparr>, gm_padding = replicate 4068 0\<rparr>"

definition gc_body :: "gc_critical \<Rightarrow> bytes" where
  "gc_body c = put_u64 (gc_magic c) @ put_u64 (gc_epoch c) @ [gc_active c] @ gc_reserved c"

definition enc_gc :: "gc_meta \<Rightarrow> bytes" where
  "enc_gc m = gc_body (gm_critical m) @ put_u32 (gc_crc32 (gm_critical m)) @ gm_padding m"

definition dec_gc :: "bytes \<Rightarrow> gc_meta" where
  "dec_gc bs = \<lparr>gm_critical = \<lparr>gc_magic = get_u64 bs, gc_epoch = get_u64 (drop 8 bs),
     gc_active = bs ! 16, gc_reserved = slice 17 7 bs, gc_crc32 = get_u32 (drop 24 bs)\<rparr>,
     gm_padding = slice 28 4068 bs\<rparr>"

record region_manager =
  rm_file :: "bytes option"
  rm_active :: u8
  rm_reclaim :: u8
  rm_epoch :: u64

definition RegionManager_init :: "bytes option \<Rightarrow> region_manager" where
  "RegionManager_init f = \<lparr>rm_file = f, rm_active = 0, rm_reclaim = 0xFF, rm_epoch = 0\<rparr>"

section \<open>Operations\<close>

definition gc_ReadSlot :: "bytes option \<Rightarrow> nat \<Rightarrow> gc_meta res" where
  "gc_ReadSlot fo s =
    (case fo of
      None \<Rightarrow> Inl (Status_IoError ''gcmeta open failed'')
    | Some fb \<Rightarrow>
        (if length fb < s * kGcMetaSize + kGcMetaSize then Inl (Status_IoError ''gcmeta read failed'')
         else Inr (dec_gc (slice (s * kGcMetaSize) kGcMetaSize fb))))"

definition gc_FinalizeCritical :: "gc_meta \<Rightarrow> gc_meta" where
  "gc_FinalizeCritical m =
    (let c = (gm_critical m)\<lparr>gc_magic := kGcMetaMagic\<rparr>
     in m\<lparr>gm_critical := c\<lparr>gc_crc32 := Crc32 (gc_body c)\<rparr>\<rparr>)"

definition gc_ValidateCritical :: "gc_critical \<Rightarrow> bool" where
  "gc_ValidateCritical c \<longleftrightarrow>
     (if gc_magic c \<noteq> kGcMetaMagic then False else gc_crc32 c = Crc32 (gc_body c))"

text \<open>A missing file is created with \<open>slot + 1\<close> zeroed blocks before the write.\<close>

definition gc_base :: "bytes option \<Rightarrow> nat \<Rightarrow> bytes" where
  "gc_base fo s = (case fo of None \<Rightarrow> replicate ((s + 1) * kGcMetaSize) 0 | Some fb \<Rightarrow> fb)"

definition gc_WriteSlot ::
  "fault \<Rightarrow> bytes option \<Rightarrow> nat \<Rightarrow> gc_meta \<Rightarrow> bytes option \<times> status" where
  "gc_WriteSlot ft fo s block =
    (case ft of
      OpenFails \<Rightarrow> (fo, Status_IoError ''gcmeta write open failed'')
    | Torn n \<Rightarrow> (Some (write_at (s * kGcMetaSize) (take n (enc_gc block)) (gc_base fo s)),
                 Status_IoError ''gcmeta write failed'')
    | NoFault \<Rightarrow> (Some (write_at (s * kGcMetaSize) (enc_gc block) (gc_base fo s)), Status_Ok))"

definition gc_adopt :: "region_manager \<Rightarrow> gc_meta \<Rightarrow> region_manager" where
  "gc_adopt rm m = rm\<lparr>rm_active := gc_active (gm_critical m),
     rm_reclaim := gc_reserved (gm_critical m) ! 0, rm_epoch := gc_epoch (gm_critical m)\<rparr>"

definition gc_reset :: "region_manager \<Rightarrow> region_manager" where
  "gc_reset rm = rm\<lparr>rm_active := 0, rm_reclaim := 0xFF, rm_epoch := 0\<rparr>"

definition gc_valid_read :: "gc_meta res \<Rightarrow> gc_meta option" where
  "gc_valid_read r = (case r of Inl _ \<Rightarrow> None
     | Inr m \<Rightarrow> (if gc_ValidateCritical (gm_critical m) then Some m else None))"

definition gc_Load :: "region_manager \<Rightarrow> region_manager \<times> status" where
  "gc_Load rm =
    (let sa = gc_ReadSlot (rm_file rm) 0; sb = gc_ReadSlot (rm_file rm) 1 in
     case (sa, sb) of
       (Inl _, Inl _) \<Rightarrow> (gc_reset rm, Status_Ok)
     | _ \<Rightarrow>
        (case (gc_valid_read sa, gc_valid_read sb) of
          (Some a, Some b) \<Rightarrow>
            (if gc_epoch (gm_critical b) \<le> gc_epoch (gm_critical a)
             then (gc_adopt rm a, Status_Ok) else (gc_adopt rm b, Status_Ok))
        | (Some a, None) \<Rightarrow> (gc_adopt rm a, Status_Ok)
        | (None, Some b) \<Rightarrow> (gc_adopt rm b, Status_Ok)
        | (None, None) \<Rightarrow> (gc_reset rm, Status_Ok)))"

text \<open>The in-memory state moves before the block is written, and stays moved if that fails.\<close>

definition gc_block :: "region_manager \<Rightarrow> gc_meta" where
  "gc_block rm = gc_FinalizeCritical
     (GcMeta_init\<lparr>gm_critical := (gm_critical GcMeta_init)\<lparr>gc_active := rm_active rm,
        gc_reserved := rm_reclaim rm # replicate 6 0, gc_epoch := rm_epoch rm\<rparr>\<rparr>)"

definition swap_memory :: "region_manager \<Rightarrow> region_manager" where
  "swap_memory rm = rm\<lparr>rm_reclaim := rm_active rm, rm_active := 1 - rm_active rm,
     rm_epoch := rm_epoch rm + 1\<rparr>"

definition SwapRegions :: "fault \<Rightarrow> region_manager \<Rightarrow> region_manager \<times> status" where
  "SwapRegions ft rm =
    (let rm1 = swap_memory rm;
         (fo, st) = gc_WriteSlot ft (rm_file rm1) (unat (rm_epoch rm1 mod 2)) (gc_block rm1)
     in (rm1\<lparr>rm_file := fo\<rparr>, st))"

definition MaybeSwap :: "fault \<Rightarrow> region_manager \<Rightarrow> u64 \<Rightarrow> u64 \<Rightarrow> region_manager \<times> status" where
  "MaybeSwap ft rm datafile_bytes threshold_bytes =
    (if threshold_bytes = 0 \<or> datafile_bytes < threshold_bytes then (rm, Status_Ok)
     else SwapRegions ft rm)"

section \<open>The file is a two-slot store\<close>

definition gc_wf :: "gc_meta \<Rightarrow> bool" where
  "gc_wf m \<longleftrightarrow> length (gc_reserved (gm_critical m)) = 7 \<and> length (gm_padding m) = 4068"

definition gc_sealed :: "gc_meta \<Rightarrow> bool" where
  "gc_sealed m \<longleftrightarrow> gc_wf m \<and> gc_ValidateCritical (gm_critical m)"

definition gc_read :: "bytes \<Rightarrow> nat \<Rightarrow> gc_meta option" where
  "gc_read fb s = gc_valid_read (gc_ReadSlot (Some fb) s)"

definition gc_file_ok :: "bytes \<Rightarrow> bool" where
  "gc_file_ok fb \<longleftrightarrow> length fb = 4096 \<or> length fb = 8192"

lemma length_enc_gc [layout_simps]: "gc_wf m \<Longrightarrow> length (enc_gc m) = 4096"
  by (simp add: enc_gc_def gc_body_def gc_wf_def)

lemma dec_enc_gc: "gc_wf m \<Longrightarrow> dec_gc (enc_gc m) = m"
  by (simp add: dec_gc_def enc_gc_def gc_body_def gc_wf_def slice_def nth_append)

lemma gc_block_sealed: "gc_sealed (gc_block rm)"
  by (simp add: gc_sealed_def gc_wf_def gc_block_def gc_FinalizeCritical_def GcMeta_init_def
      gc_ValidateCritical_def gc_body_def Let_def)

lemma gc_block_fields [simp]:
  "gc_epoch (gm_critical (gc_block rm)) = rm_epoch rm"
  "gc_active (gm_critical (gc_block rm)) = rm_active rm"
  "gc_reserved (gm_critical (gc_block rm)) = rm_reclaim rm # replicate 6 0"
  by (simp_all add: gc_block_def gc_FinalizeCritical_def GcMeta_init_def Let_def)

lemma gc_slice_same:
  assumes "gc_file_ok fb" "s < 2" "gc_wf m"
  shows "slice (s * kGcMetaSize) kGcMetaSize (write_at (s * kGcMetaSize) (enc_gc m) fb) = enc_gc m"
    and "s * kGcMetaSize + kGcMetaSize \<le> length (write_at (s * kGcMetaSize) (enc_gc m) fb)"
proof -
  have le: "s * kGcMetaSize \<le> length fb"
    using assms(1,2) by (auto simp: gc_file_ok_def kGcMetaSize_def)
  note len = length_enc_gc [OF assms(3)]
  from le len show "slice (s * kGcMetaSize) kGcMetaSize (write_at (s * kGcMetaSize) (enc_gc m) fb) = enc_gc m"
    by (simp add: write_at_inside slice_overwrite_same kGcMetaSize_def)
  show "s * kGcMetaSize + kGcMetaSize \<le> length (write_at (s * kGcMetaSize) (enc_gc m) fb)"
    using le len by (simp add: write_at_inside overwrite_def kGcMetaSize_def)
qed

lemma gc_read_other_slot:
  assumes "gc_file_ok fb" "s < 2" "s' < 2" "s \<noteq> s'" "length blk \<le> 4096"
  shows "gc_ReadSlot (Some (write_at (s * kGcMetaSize) blk fb)) s' = gc_ReadSlot (Some fb) s'"
proof -
  have le: "s * kGcMetaSize \<le> length fb"
    using assms(1,2) by (auto simp: gc_file_ok_def kGcMetaSize_def)
  consider "s = 0" "s' = 1" | "s = 1" "s' = 0" using assms(2-4) by (auto simp: less_2_cases_iff)
  then show ?thesis
  proof cases
    case 1
    with le assms(1,5) show ?thesis
      by (auto simp: gc_ReadSlot_def write_at_inside kGcMetaSize_def slice_overwrite_after
          gc_file_ok_def length_overwrite)
  next
    case 2
    with le assms(1,5) show ?thesis
      by (auto simp: gc_ReadSlot_def write_at_inside kGcMetaSize_def slice_def
          gc_file_ok_def overwrite_def)
  qed
qed

lemma gc_write_ok:
  assumes "gc_file_ok fb" "gc_wf m" "s < 2"
  shows "gc_file_ok (write_at (s * kGcMetaSize) (enc_gc m) fb)"
  using assms by (auto simp: gc_file_ok_def write_at_def kGcMetaSize_def length_enc_gc less_2_cases_iff)

interpretation gcs: dual_slot gc_read "\<lambda>fb s m. write_at (s * kGcMetaSize) (enc_gc m) fb"
  "\<lambda>m. gc_epoch (gm_critical m)" gc_file_ok gc_sealed
proof unfold_locales
  fix f :: bytes and m s assume a: "gc_file_ok f" "gc_sealed m" "s < (2 :: nat)"
  then have w: "gc_wf m" "gc_ValidateCritical (gm_critical m)" by (auto simp: gc_sealed_def)
  from gc_slice_same [OF a(1,3) w(1)] w
  show "gc_read (write_at (s * kGcMetaSize) (enc_gc m) f) s = Some m"
    by (simp add: gc_read_def gc_ReadSlot_def dec_enc_gc gc_valid_read_def)
  show "gc_file_ok (write_at (s * kGcMetaSize) (enc_gc m) f)"
    using a w by (simp add: gc_write_ok)
next
  fix f :: bytes and m s s'
  assume "gc_file_ok f" "gc_sealed m" "s < (2 :: nat)" "s' < (2 :: nat)" "s \<noteq> s'"
  then show "gc_read (write_at (s * kGcMetaSize) (enc_gc m) f) s' = gc_read f s'"
    by (simp add: gc_read_def gc_read_other_slot gc_sealed_def length_enc_gc)
qed

lemma gc_Load_elect:
  "gc_Load rm = (case rm_file rm of None \<Rightarrow> gc_reset rm
     | Some fb \<Rightarrow> (case gcs.elect fb of None \<Rightarrow> gc_reset rm | Some m \<Rightarrow> gc_adopt rm m), Status_Ok)"
  by (cases "rm_file rm")
     (auto simp: gc_Load_def gcs.elect_def gc_read_def gc_valid_read_def gc_ReadSlot_def Let_def
       split: sum.splits option.splits)

section \<open>Swapping and reloading\<close>

definition gc_inv :: "region_manager \<Rightarrow> bool" where
  "gc_inv rm \<longleftrightarrow> gc_Load rm = (rm, Status_Ok) \<and> rm_active rm \<in> {0, 1}
     \<and> (case rm_file rm of None \<Rightarrow> True | Some fb \<Rightarrow> gc_file_ok fb \<and> gcs.parity fb)"

lemma gc_reset_id: "gc_reset rm = rm \<longleftrightarrow> rm_active rm = 0 \<and> rm_reclaim rm = 0xFF \<and> rm_epoch rm = 0"
  by (cases rm) (auto simp: gc_reset_def)

lemma gc_adopt_id: "gc_adopt rm m = rm \<longleftrightarrow> rm_active rm = gc_active (gm_critical m)
    \<and> rm_reclaim rm = gc_reserved (gm_critical m) ! 0 \<and> rm_epoch rm = gc_epoch (gm_critical m)"
  by (cases rm) (auto simp: gc_adopt_def)

lemma gc_inv_init: "gc_inv (RegionManager_init None)"
  by (simp add: gc_inv_def gc_Load_elect gc_reset_def RegionManager_init_def)

lemma gc_inv_epoch:
  assumes "gc_inv rm" "rm_file rm = Some fb"
  shows "gcs.cur_epoch fb = rm_epoch rm"
  using assms by (auto simp: gc_inv_def gc_Load_elect gcs.cur_epoch_def gc_reset_id gc_adopt_id
      split: option.splits)

lemma zero_slot_invalid: "gc_read (replicate 8192 0) s = None"
proof (cases "s * kGcMetaSize + kGcMetaSize \<le> 8192")
  case True
  then have "slice (s * kGcMetaSize) kGcMetaSize (replicate 8192 (0 :: byte)) = replicate 4096 0"
    by (simp add: slice_def kGcMetaSize_def drop_replicate min_def)
  moreover have "get_u64 (replicate 4096 0) = 0"
    by (simp add: get_u64_def numeral_eq_Suc)
  ultimately show ?thesis
    by (simp add: gc_read_def gc_ReadSlot_def gc_valid_read_def gc_ValidateCritical_def dec_gc_def
        kGcMetaMagic_def)
qed (simp add: gc_read_def gc_ReadSlot_def gc_valid_read_def)

text \<open>What the swap starts from: the file as the write finds it.\<close>

lemma gc_base_facts:
  assumes "gc_inv rm"
  shows "gc_file_ok (gc_base (rm_file rm) 1) \<and> gcs.parity (gc_base (rm_file rm) 1)
    \<and> gcs.cur_epoch (gc_base (rm_file rm) 1) = rm_epoch rm"
proof (cases "rm_file rm")
  case None
  then have "rm_epoch rm = 0"
    using assms by (auto simp: gc_inv_def gc_Load_elect gc_reset_id)
  with None show ?thesis
    by (simp add: gc_base_def kGcMetaSize_def gc_file_ok_def gcs.parity_def zero_slot_invalid
        gcs.cur_epoch_def gcs.elect_def)
next
  case (Some fb)
  with assms gc_inv_epoch [OF assms Some] show ?thesis by (simp add: gc_base_def gc_inv_def)
qed


lemma gc_base_slot: "rm_file rm \<noteq> None \<Longrightarrow> gc_base (rm_file rm) s = gc_base (rm_file rm) 1"
  by (cases "rm_file rm") (auto simp: gc_base_def)

lemma swap_slot: "unat (e mod 2 :: u64) = gcs.slot_of e"
  by (simp add: gcs.slot_of_def unat_mod)

lemma swap_base:
  assumes "gc_inv rm" "unat (rm_epoch rm) + 1 < 2 ^ 64"
  shows "gc_base (rm_file rm) (gcs.slot_of (rm_epoch rm + 1)) = gc_base (rm_file rm) 1"
proof (cases "rm_file rm")
  case None
  then have "rm_epoch rm = 0" using assms(1) by (auto simp: gc_inv_def gc_Load_elect gc_reset_id)
  then show ?thesis by (simp add: gcs.slot_of_def)
qed (simp add: gc_base_def)

lemma word_one_minus_bit: "a \<in> {0, 1 :: u8} \<Longrightarrow> 1 - a \<in> {0, 1} \<and> 1 - a \<noteq> a \<and> 1 - (1 - a) = a"
  by auto

text \<open>
  A completed swap of the garbage-collection regions makes the old active generation the
  reclaim generation and toggles the active one between 0 and 1; reloading the file gives
  exactly the state in memory, and the store keeps its invariant.
\<close>

theorem swap_regions_reload:
  assumes inv: "gc_inv rm" and room: "unat (rm_epoch rm) + 1 < 2 ^ 64"
  shows "\<exists>rm'. SwapRegions NoFault rm = (rm', Status_Ok)
    \<and> rm_reclaim rm' = rm_active rm \<and> rm_active rm' = 1 - rm_active rm
    \<and> rm_active rm' \<noteq> rm_reclaim rm' \<and> gc_Load rm' = (rm', Status_Ok) \<and> gc_inv rm'
    \<and> (\<forall>a r e. gc_Load (rm'\<lparr>rm_active := a, rm_reclaim := r, rm_epoch := e\<rparr>) = (rm', Status_Ok))"
proof -
  let ?m = "gc_block (swap_memory rm)" and ?base = "gc_base (rm_file rm) 1"
  let ?s = "gcs.slot_of (gc_epoch (gm_critical ?m))"
  let ?f = "write_at (?s * kGcMetaSize) (enc_gc ?m) ?base"
  let ?rm' = "(swap_memory rm)\<lparr>rm_file := Some ?f\<rparr>"
  have ep: "gc_epoch (gm_critical ?m) = rm_epoch rm + 1" by (simp add: swap_memory_def)
  have ok: "gc_file_ok ?base" "gcs.parity ?base" "gcs.cur_epoch ?base = rm_epoch rm"
    using gc_base_facts [OF inv] by auto
  have "rm_epoch rm < rm_epoch rm + 1"
    using room by (metis gcs.unat_Suc_epoch less_add_one word_less_nat_alt)
  then have el: "gcs.elect ?f = Some ?m"
    using ok by (intro gcs.commit_elected) (simp_all add: gc_block_sealed swap_memory_def)
  have par: "gcs.parity ?f"
    using ok gcs.parity_read [OF ok(2)] by (intro gcs.commit_parity) (auto simp: gc_block_sealed)
  have sw: "SwapRegions NoFault rm = (?rm', Status_Ok)"
    using swap_base [OF inv room] ep
    by (simp add: SwapRegions_def gc_WriteSlot_def swap_slot swap_memory_def Let_def)
  have load: "gc_Load ?rm' = (?rm', Status_Ok)"
    using el by (simp add: gc_Load_elect gc_adopt_id)
  have reload: "gc_Load (?rm'\<lparr>rm_active := a, rm_reclaim := r, rm_epoch := e\<rparr>) = (?rm', Status_Ok)" for a r e
    using load el by (simp add: gc_Load_elect gc_adopt_def)
  have bit: "rm_active rm \<in> {0, 1}" using inv by (simp add: gc_inv_def)
  have "gc_inv ?rm'"
    using word_one_minus_bit [OF bit] gcs.write_ok [OF ok(1) gc_block_sealed gcs.slot_of_less] par load
    by (simp add: gc_inv_def swap_memory_def)
  then show ?thesis
    using sw load reload word_one_minus_bit [OF bit] by (auto simp: swap_memory_def)
qed

theorem swap_regions_reload_witness:
  "\<exists>rm'. SwapRegions NoFault (RegionManager_init None) = (rm', Status_Ok)
    \<and> rm_reclaim rm' = 0 \<and> rm_active rm' = 1 \<and> gc_Load rm' = (rm', Status_Ok)"
  using swap_regions_reload [OF gc_inv_init] by (auto simp: RegionManager_init_def)


lemma torn_elect:
  assumes "gcs.parity fb" "unat (gcs.cur_epoch fb) + 1 < 2 ^ 64"
    and "gc_read f' (gcs.slot_of (gcs.cur_epoch fb + 1)) = None"
    and "gc_read f' (other_slot (gcs.slot_of (gcs.cur_epoch fb + 1)))
         = gc_read fb (other_slot (gcs.slot_of (gcs.cur_epoch fb + 1)))"
  shows "gcs.elect f' = gcs.elect fb"
proof (cases "gcs.elect fb")
  case None
  then have "gc_read f' (other_slot (gcs.slot_of (gcs.cur_epoch fb + 1))) = None"
    using assms(4) by (simp add: gcs.elect_None_read)
  then show ?thesis
    using gcs.elect_one_slot [OF gcs.slot_of_less assms(3)] None by simp
next
  case (Some a)
  with assms show ?thesis
    using gcs.torn_keeps_elected [OF assms(1) Some] by (simp add: gcs.cur_epoch_def)
qed

text \<open>
  A swap that fails, because the file cannot be opened or because the torn block does not
  validate, reports an error after the state in memory has already moved to the new
  generation; the file still holds the state from before, which the next load brings back.
\<close>

theorem swap_regions_failed:
  assumes inv: "gc_inv rm" and room: "unat (rm_epoch rm) + 1 < 2 ^ 64"
    and swap: "SwapRegions ft rm = (rm', st)"
    and fault: "ft = OpenFails \<or> (\<exists>n. ft = Torn n
      \<and> gc_valid_read (gc_ReadSlot (rm_file rm') ((unat (rm_epoch rm) + 1) mod 2)) = None)"
  shows "\<not> status_ok st \<and> rm_active rm' \<noteq> rm_active rm
    \<and> gc_Load rm' = (rm\<lparr>rm_file := rm_file rm'\<rparr>, Status_Ok)"
  using fault
proof (elim disjE exE conjE)
  have bit: "rm_active rm \<in> {0, 1}" using inv by (simp add: gc_inv_def)
  note neq = word_one_minus_bit [OF bit]
  have self: "gc_Load rm = (rm, Status_Ok)" using inv by (simp add: gc_inv_def)
  {
    assume "ft = OpenFails"
    then have "rm' = swap_memory rm" "\<not> status_ok st"
      using swap by (auto simp: SwapRegions_def gc_WriteSlot_def status_defs swap_memory_def)
    moreover have "gc_Load (swap_memory rm) = gc_Load rm"
      by (auto simp: gc_Load_elect swap_memory_def gc_reset_def gc_adopt_def split: option.splits)
    ultimately show ?thesis using neq self by (auto simp: swap_memory_def)
  next
    fix n
    assume ft: "ft = Torn n"
      and bad: "gc_valid_read (gc_ReadSlot (rm_file rm') ((unat (rm_epoch rm) + 1) mod 2)) = None"
    let ?base = "gc_base (rm_file rm) 1" and ?m = "gc_block (swap_memory rm)"
    let ?s = "gcs.slot_of (rm_epoch rm + 1)"
    let ?f = "write_at (?s * kGcMetaSize) (take n (enc_gc ?m)) ?base"
    have rm': "rm' = (swap_memory rm)\<lparr>rm_file := Some ?f\<rparr>" "\<not> status_ok st"
      using swap swap_base [OF inv room]
      by (auto simp: SwapRegions_def gc_WriteSlot_def ft status_defs swap_memory_def swap_slot Let_def)
    have s: "?s = (unat (rm_epoch rm) + 1) mod 2"
      unfolding gcs.slot_of_def gcs.unat_Suc_epoch [OF room] ..
    have base: "gc_file_ok ?base" "gcs.parity ?base" "gcs.cur_epoch ?base = rm_epoch rm"
      using gc_base_facts [OF inv] by auto
    have "length (take n (enc_gc ?m)) \<le> 4096"
      using length_enc_gc [of ?m] gc_block_sealed [of "swap_memory rm"] by (simp add: gc_sealed_def)
    then have other: "gc_read ?f (other_slot ?s) = gc_read ?base (other_slot ?s)"
      using base(1) by (simp add: gc_read_def gc_read_other_slot)
    have "gc_read ?f ?s = None" using bad rm' s by (simp add: gc_read_def)
    then have "gcs.elect ?f = gcs.elect ?base"
      using base other room by (intro torn_elect) simp_all
    moreover have "gcs.elect ?base = (case rm_file rm of None \<Rightarrow> None | Some fb \<Rightarrow> gcs.elect fb)"
      by (simp add: gc_base_def kGcMetaSize_def gcs.elect_def zero_slot_invalid split: option.splits)
    ultimately have "gc_Load rm' = ((fst (gc_Load rm))\<lparr>rm_file := Some ?f\<rparr>, Status_Ok)"
      by (auto simp: rm' gc_Load_elect gc_reset_def gc_adopt_def swap_memory_def split: option.splits)
    then show ?thesis using self rm' neq by (auto simp: swap_memory_def)
  }
qed

theorem swap_regions_failed_witness:
  "\<exists>rm' st. SwapRegions OpenFails (RegionManager_init None) = (rm', st) \<and> \<not> status_ok st
    \<and> rm_active rm' = 1 \<and> rm_active (fst (gc_Load rm')) = 0"
proof -
  obtain rm' st where s: "SwapRegions OpenFails (RegionManager_init None) = (rm', st)" by fastforce
  then have "rm_active rm' = 1"
    by (auto simp: SwapRegions_def gc_WriteSlot_def swap_memory_def RegionManager_init_def)
  then show ?thesis
    using swap_regions_failed [OF gc_inv_init _ s] s by (auto simp: RegionManager_init_def)
qed

end
