(* ===== verification/TLog.thy ===== *)
theory TLog
  imports Prelude
begin

text \<open>
  \<^verbatim>\<open>cpp/include/ebtree/concept/tlog/tlog.h\<close> and \<^verbatim>\<open>cpp/src/concept/tlog/tlog.cc\<close>: the time
  log, a file of 16-byte entries with a sidecar index of 32-byte entries. The record
  \<open>tlog_files\<close> holds the contents of both files (\<open>None\<close>: missing); the clock is a record
  of the module's three globals, the wall clock an argument.
\<close>

section \<open>Clock\<close>

record tlog_clock =
  ck_source :: "u32 option"
  ck_active :: bool
  ck_ts :: u32

definition NowSeconds :: "tlog_clock \<Rightarrow> u32 \<Rightarrow> u32" where
  "NowSeconds c wall =
    (if ck_active c then ck_ts c else case ck_source c of Some t \<Rightarrow> t | None \<Rightarrow> wall)"

definition BeginCheckpointTimestampScope :: "tlog_clock \<Rightarrow> u32 \<Rightarrow> tlog_clock" where
  "BeginCheckpointTimestampScope c wall =
     c\<lparr>ck_active := True, ck_ts := (case ck_source c of Some t \<Rightarrow> t | None \<Rightarrow> wall)\<rparr>"

definition EndCheckpointTimestampScope :: "tlog_clock \<Rightarrow> tlog_clock" where
  "EndCheckpointTimestampScope c = c\<lparr>ck_active := False\<rparr>"

section \<open>Entries\<close>

record tlog_entry =
  te_page_offset :: u64
  te_timestamp :: u32
  te_prev_offset :: u32

record tlog_index_entry =
  ti_data_lsn :: u64
  ti_wal_lsn :: u64
  ti_datafile_size :: u64
  ti_timestamp :: u32
  ti_file_offset :: u32

record tlog_snapshot =
  ts_data_lsn :: u64
  ts_datafile_size :: u64
  ts_wal_lsn :: u64
  ts_file_offset :: u64
  ts_timestamp :: u32

definition TLogSnapshot_init :: tlog_snapshot where
  "TLogSnapshot_init = \<lparr>ts_data_lsn = 0, ts_datafile_size = 0, ts_wal_lsn = 0,
     ts_file_offset = 0, ts_timestamp = 0\<rparr>"

definition enc_tlog :: "tlog_entry \<Rightarrow> bytes" where
  "enc_tlog e = put_u64 (te_page_offset e) @ put_u32 (te_timestamp e) @ put_u32 (te_prev_offset e)"

definition enc_tidx :: "tlog_index_entry \<Rightarrow> bytes" where
  "enc_tidx e = put_u64 (ti_data_lsn e) @ put_u64 (ti_wal_lsn e) @ put_u64 (ti_datafile_size e)
     @ put_u32 (ti_timestamp e) @ put_u32 (ti_file_offset e)"

definition read_tidx :: "bytes \<Rightarrow> tlog_index_entry" where
  "read_tidx bs = \<lparr>ti_data_lsn = get_u64 bs, ti_wal_lsn = get_u64 (drop 8 bs),
     ti_datafile_size = get_u64 (drop 16 bs), ti_timestamp = get_u32 (drop 24 bs),
     ti_file_offset = get_u32 (drop 28 bs)\<rparr>"

definition dec_tidx :: "bytes \<Rightarrow> (tlog_index_entry \<times> bytes) option" where
  "dec_tidx bs = (if length bs < 32 then None else Some (read_tidx bs, drop 32 bs))"

definition snapshot_of :: "tlog_index_entry \<Rightarrow> tlog_snapshot" where
  "snapshot_of e = \<lparr>ts_data_lsn = ti_data_lsn e, ts_datafile_size = ti_datafile_size e,
     ts_wal_lsn = ti_wal_lsn e, ts_file_offset = ucast (ti_file_offset e),
     ts_timestamp = ti_timestamp e\<rparr>"

section \<open>Operations\<close>

record tlog_files =
  tf_log :: "bytes option"
  tf_idx :: "bytes option"

definition file_bytes :: "bytes option \<Rightarrow> bytes" where
  "file_bytes fo = (case fo of None \<Rightarrow> [] | Some b \<Rightarrow> b)"

text \<open>A write to a stream opened with \<open>std::ios::app\<close>, and whether it succeeded.\<close>

definition append_to :: "fault \<Rightarrow> bytes option \<Rightarrow> bytes \<Rightarrow> bytes option \<times> fault" where
  "append_to ft fo bs = (case ft of
      NoFault \<Rightarrow> (Some (file_bytes fo @ bs), ft)
    | OpenFails \<Rightarrow> (fo, ft)
    | Torn n \<Rightarrow> (Some (file_bytes fo @ take n bs), ft))"

definition LatestSnapshot :: "tlog_files \<Rightarrow> tlog_snapshot \<times> status" where
  "LatestSnapshot tf = (case tf_idx tf of
      None \<Rightarrow> (TLogSnapshot_init, Status_Ok)
    | Some ib \<Rightarrow>
        (if length ib < 32 then (TLogSnapshot_init, Status_Ok)
         else (snapshot_of (read_tidx (drop (length ib - 32) ib)), Status_Ok)))"

definition AppendSnapshot ::
  "fault \<Rightarrow> fault \<Rightarrow> tlog_clock \<Rightarrow> u32 \<Rightarrow> tlog_files \<Rightarrow> u64 \<Rightarrow> u64 \<Rightarrow> u64
     \<Rightarrow> tlog_files \<times> u64 res" where
  "AppendSnapshot ft1 ft2 clk wall tf data_lsn datafile_size wal_lsn =
    (let prev = fst (LatestSnapshot tf);
         pos = word_of_nat (length (file_bytes (tf_log tf))) :: u32;
         ts = NowSeconds clk wall;
         entry = \<lparr>te_page_offset = datafile_size, te_timestamp = ts,
                  te_prev_offset = (if ts_file_offset prev > 0 then ucast (ts_file_offset prev) else 0)\<rparr>;
         (log', r1) = append_to ft1 (tf_log tf) (enc_tlog entry);
         tf1 = tf\<lparr>tf_log := log'\<rparr>
     in case r1 of
          OpenFails \<Rightarrow> (tf1, Inl (Status_IoError ''tlog open failed''))
        | Torn _ \<Rightarrow> (tf1, Inl (Status_IoError ''tlog append failed''))
        | NoFault \<Rightarrow>
           (let idx = \<lparr>ti_data_lsn = data_lsn, ti_wal_lsn = wal_lsn, ti_datafile_size = datafile_size,
                       ti_timestamp = ts, ti_file_offset = pos\<rparr>;
                (idx', r2) = append_to ft2 (tf_idx tf1) (enc_tidx idx);
                tf2 = tf1\<lparr>tf_idx := idx'\<rparr>
            in case r2 of
                 OpenFails \<Rightarrow> (tf2, Inl (Status_IoError ''tlogidx open failed''))
               | Torn _ \<Rightarrow> (tf2, Inl (Status_IoError ''tlogidx append failed''))
               | NoFault \<Rightarrow> (tf2, Inr (ucast pos))))"

definition ListSnapshots :: "tlog_files \<Rightarrow> tlog_snapshot list" where
  "ListSnapshots tf = (case tf_idx tf of None \<Rightarrow> []
     | Some ib \<Rightarrow> map snapshot_of (scan_all dec_tidx ib))"

definition best_step :: "u32 \<Rightarrow> tlog_snapshot option \<Rightarrow> tlog_snapshot \<Rightarrow> tlog_snapshot option" where
  "best_step timestamp_sec best snap =
    (if ts_timestamp snap \<le> timestamp_sec then
       (case best of None \<Rightarrow> Some snap
        | Some b \<Rightarrow> if ts_timestamp b \<le> ts_timestamp snap then Some snap else best)
     else best)"

definition FindSnapshotAt :: "tlog_files \<Rightarrow> u32 \<Rightarrow> tlog_snapshot res" where
  "FindSnapshotAt tf timestamp_sec =
    (let snaps = ListSnapshots tf in
     if snaps = [] then Inl (Status_NotFound ''no tlog snapshots'')
     else case foldl (best_step timestamp_sec) None snaps of
            None \<Rightarrow> Inl (Status_NotFound ''no snapshot at timestamp'')
          | Some b \<Rightarrow> Inr b)"

section \<open>The index file\<close>

lemma length_enc_tidx [simp, layout_simps]: "length (enc_tidx e) = 32"
  by (simp add: enc_tidx_def)

lemma read_enc_tidx [codec_simps]: "read_tidx (enc_tidx e @ rest) = e"
  by (simp add: read_tidx_def enc_tidx_def)

interpretation tix: record_codec enc_tidx dec_tidx "\<lambda>_. True"
  by unfold_locales (auto simp: dec_tidx_def read_enc_tidx length_greater_0_conv [symmetric]
      simp del: length_greater_0_conv)

definition tlog_index :: "tlog_files \<Rightarrow> tlog_index_entry list \<Rightarrow> bool" where
  "tlog_index tf es \<longleftrightarrow> file_bytes (tf_idx tf) = tix.log_image es"

lemma ListSnapshots_index:
  assumes "tlog_index tf es" shows "ListSnapshots tf = map snapshot_of es"
proof (cases "tf_idx tf")
  case None
  then have "length (tix.log_image es) = 0" using assms by (simp add: tlog_index_def file_bytes_def)
  then have "es = []" using tix.length_image_ge [of es] by simp
  with None show ?thesis by (simp add: ListSnapshots_def)
qed (use assms tix.scan_image in \<open>simp add: ListSnapshots_def tlog_index_def file_bytes_def\<close>)

lemma LatestSnapshot_index:
  assumes "tlog_index tf es"
  shows "fst (LatestSnapshot tf) = (if es = [] then TLogSnapshot_init else snapshot_of (last es))"
proof (cases es rule: rev_cases)
  case Nil
  then show ?thesis
    using assms by (auto simp: LatestSnapshot_def tlog_index_def file_bytes_def split: option.splits)
next
  case (snoc xs e)
  then have "file_bytes (tf_idx tf) = tix.log_image xs @ enc_tidx e"
    using assms by (simp add: tlog_index_def)
  with snoc read_enc_tidx [of e "[]"] show ?thesis
    by (cases "tf_idx tf") (auto simp: LatestSnapshot_def file_bytes_def
        dest: arg_cong [where f = length])
qed

text \<open>
  A completed \<open>AppendSnapshot\<close> adds one snapshot at the end of what \<open>ListSnapshots\<close>
  returns, with the caller's LSNs, the size and the clock's time; it is what
  \<open>LatestSnapshot\<close> returns next, and the offset reported is the old size of the log. A torn
  index append reports an error and leaves the list as it was.
\<close>

theorem append_snapshot_listed:
  assumes "tlog_index tf es"
  shows "\<exists>e. ti_data_lsn e = dl \<and> ti_wal_lsn e = wl \<and> ti_datafile_size e = sz
      \<and> ti_timestamp e = NowSeconds clk wall
      \<and> (\<exists>tf'. AppendSnapshot NoFault NoFault clk wall tf dl sz wl
             = (tf', Inr (ucast (word_of_nat (length (file_bytes (tf_log tf))) :: u32)))
           \<and> tlog_index tf' (es @ [e]) \<and> ListSnapshots tf' = ListSnapshots tf @ [snapshot_of e]
           \<and> LatestSnapshot tf' = (snapshot_of e, Status_Ok))
      \<and> (\<forall>n < 32. \<exists>tf' st. AppendSnapshot NoFault (Torn n) clk wall tf dl sz wl = (tf', Inl st)
           \<and> ListSnapshots tf' = ListSnapshots tf)"
proof -
  let ?pos = "word_of_nat (length (file_bytes (tf_log tf))) :: u32"
  let ?e = "\<lparr>ti_data_lsn = dl, ti_wal_lsn = wl, ti_datafile_size = sz,
     ti_timestamp = NowSeconds clk wall, ti_file_offset = ?pos\<rparr>"
  obtain tf' where ok: "AppendSnapshot NoFault NoFault clk wall tf dl sz wl = (tf', Inr (ucast ?pos))"
    and idx: "tlog_index tf' (es @ [?e])"
    using assms by (simp add: AppendSnapshot_def append_to_def tlog_index_def file_bytes_def Let_def)
  have list: "ListSnapshots tf' = ListSnapshots tf @ [snapshot_of ?e]"
    by (simp add: ListSnapshots_index [OF idx] ListSnapshots_index [OF assms])
  have latest: "LatestSnapshot tf' = (snapshot_of ?e, Status_Ok)"
    using LatestSnapshot_index [OF idx]
    by (auto simp: LatestSnapshot_def prod_eq_iff split: option.splits if_splits)
  have torn: "\<exists>tf' st. AppendSnapshot NoFault (Torn n) clk wall tf dl sz wl = (tf', Inl st)
      \<and> ListSnapshots tf' = ListSnapshots tf" if "n < 32" for n
    using assms that tix.scan_torn [where xs = es and y = ?e and n = n] ListSnapshots_index [OF assms]
    by (simp add: AppendSnapshot_def append_to_def tlog_index_def ListSnapshots_def Let_def
        file_bytes_def)
  from ok idx list latest torn show ?thesis by (intro exI [of _ ?e] conjI) auto
qed

theorem append_snapshot_listed_witness:
  "\<exists>e tf'. ti_data_lsn e = 5 \<and> ti_timestamp e = 77
     \<and> AppendSnapshot NoFault NoFault \<lparr>ck_source = None, ck_active = False, ck_ts = 0\<rparr> 77
         \<lparr>tf_log = None, tf_idx = None\<rparr> 5 100 9 = (tf', Inr 0)
     \<and> ListSnapshots tf' = [snapshot_of e]"
  using append_snapshot_listed [of "\<lparr>tf_log = None, tf_idx = None\<rparr>" "[]" 5 9 100
      "\<lparr>ck_source = None, ck_active = False, ck_ts = 0\<rparr>" 77]
  by (auto simp: tlog_index_def file_bytes_def NowSeconds_def ListSnapshots_def)


section \<open>Time travel\<close>

lemma best_fold_None:
  "foldl (best_step t) None xs = None \<longleftrightarrow> (\<forall>x \<in> set xs. t < ts_timestamp x)"
  by (induction xs rule: rev_induct) (auto simp: best_step_def not_le split: option.splits)

definition latest_at :: "u32 \<Rightarrow> tlog_snapshot list \<Rightarrow> tlog_snapshot \<Rightarrow> bool" where
  "latest_at t xs b \<longleftrightarrow> (\<exists>ys zs. xs = ys @ b # zs \<and> ts_timestamp b \<le> t
     \<and> (\<forall>y \<in> set ys. ts_timestamp y \<le> t \<longrightarrow> ts_timestamp y \<le> ts_timestamp b)
     \<and> (\<forall>z \<in> set zs. ts_timestamp z \<le> t \<longrightarrow> ts_timestamp z < ts_timestamp b))"

lemma latest_at_intro:
  "ts_timestamp b \<le> t \<Longrightarrow> (\<forall>y \<in> set ys. ts_timestamp y \<le> t \<longrightarrow> ts_timestamp y \<le> ts_timestamp b) \<Longrightarrow>
   (\<forall>z \<in> set zs. ts_timestamp z \<le> t \<longrightarrow> ts_timestamp z < ts_timestamp b) \<Longrightarrow> latest_at t (ys @ b # zs) b"
  by (auto simp: latest_at_def)

lemma best_fold_Some:
  "foldl (best_step t) None xs = Some b \<Longrightarrow> latest_at t xs b"
proof (induction xs arbitrary: b rule: rev_induct)
  case (snoc x xs)
  let ?best = "foldl (best_step t) None xs"
  have pick: "best_step t ?best x = Some b" using snoc.prems by simp
  consider (none) "?best = None" | (some) a where "?best = Some a" by (cases ?best) auto
  then show ?case
  proof cases
    case none
    from pick have "b = x" "ts_timestamp x \<le> t"
      unfolding none by (auto simp: best_step_def split: if_splits)
    with none latest_at_intro [of x t xs "[]"] show ?thesis
      by (auto simp: best_fold_None not_le [symmetric])
  next
    case some
    from snoc.IH [OF some] obtain ys zs where d: "xs = ys @ a # zs" "ts_timestamp a \<le> t"
      "\<forall>y \<in> set ys. ts_timestamp y \<le> t \<longrightarrow> ts_timestamp y \<le> ts_timestamp a"
      "\<forall>z \<in> set zs. ts_timestamp z \<le> t \<longrightarrow> ts_timestamp z < ts_timestamp a"
      by (auto simp: latest_at_def)
    show ?thesis
    proof (cases "ts_timestamp x \<le> t \<and> ts_timestamp a \<le> ts_timestamp x")
      case True
      then have "b = x" using pick unfolding some by (simp add: best_step_def)
      moreover have "latest_at t (xs @ x # []) x"
        using True d by (intro latest_at_intro) force+
      ultimately show ?thesis by simp
    next
      case False
      then have "b = a" using pick unfolding some by (auto simp: best_step_def split: if_splits)
      moreover have "latest_at t (ys @ a # (zs @ [x])) a"
        using False d by (intro latest_at_intro) (auto simp: not_le)
      ultimately show ?thesis using d(1) by simp
    qed
  qed
qed simp

text \<open>
  \<open>FindSnapshotAt\<close> returns the newest snapshot not after the given time, the last one
  written among equals, and reports \<open>NotFound\<close> exactly when every snapshot is later.
\<close>

theorem find_snapshot_at:
  "(case FindSnapshotAt tf t of
      Inr b \<Rightarrow> latest_at t (ListSnapshots tf) b
    | Inl st \<Rightarrow> st_code st = KNotFound \<and> (\<forall>x \<in> set (ListSnapshots tf). t < ts_timestamp x))"
  using best_fold_None [of t "ListSnapshots tf"] best_fold_Some [of t "ListSnapshots tf"]
  by (auto simp: FindSnapshotAt_def Let_def status_defs split: option.splits)

theorem find_snapshot_at_witness:
  "\<exists>st. FindSnapshotAt \<lparr>tf_log = None, tf_idx = None\<rparr> 3 = Inl st \<and> st_code st = KNotFound"
  using find_snapshot_at [of "\<lparr>tf_log = None, tf_idx = None\<rparr>" 3]
  by (auto simp: FindSnapshotAt_def ListSnapshots_def)

definition torn_then_append :: tlog_files where
  "torn_then_append =
    (let clk = \<lparr>ck_source = Some 50, ck_active = False, ck_ts = 0\<rparr>;
         tf1 = fst (AppendSnapshot NoFault (Torn 8) clk 0 \<lparr>tf_log = None, tf_idx = None\<rparr> 1 16 1)
     in fst (AppendSnapshot NoFault NoFault clk 0 tf1 2 32 2))"

text \<open>
  After a torn append, the next completed append succeeds but its index entry is written
  behind the torn bytes: the reader, which steps by whole entries from the front, returns a
  misaligned entry instead of the new snapshot.
\<close>

theorem torn_index_misaligns:
  "length (ListSnapshots torn_then_append) = 1
   \<and> map ts_data_lsn (ListSnapshots torn_then_append) = [1]
   \<and> map ts_wal_lsn (ListSnapshots torn_then_append) = [2]
   \<and> map ts_datafile_size (ListSnapshots torn_then_append) = [2]
   \<and> ts_data_lsn (fst (LatestSnapshot torn_then_append)) = 2"
  by code_simp

end
