(* ===== verification/Memtable.thy ===== *)
theory Memtable
  imports Prelude "HOL-Library.AList"
begin

text \<open>
  \<^verbatim>\<open>cpp/include/ebtree/concept/memtable/memtable.h\<close> and
  \<^verbatim>\<open>cpp/src/concept/memtable/memtable.cc\<close>: the in-memory table. The
  \<open>std::unordered_map\<close> is an association list with distinct keys, whose order stands for
  the iteration order that \<open>Snapshot\<close> exposes and that no theorem relies on. Each
  operation runs under the table's mutex, so it is one step.
\<close>

record mem_entry =
  me_value :: bytes
  me_lsn :: u64
  me_deleted :: bool
  me_txn_id :: u32
  me_durable :: bool

type_synonym memtable = "(bytes \<times> mem_entry) list"

definition mem_Put :: "bytes \<Rightarrow> bytes \<Rightarrow> u64 \<Rightarrow> u32 \<Rightarrow> bool \<Rightarrow> memtable \<Rightarrow> memtable" where
  "mem_Put key val lsn txn_id durable m =
     AList.update key \<lparr>me_value = val, me_lsn = lsn, me_deleted = False, me_txn_id = txn_id,
       me_durable = durable\<rparr> m"

definition mem_DeleteKey :: "bytes \<Rightarrow> u64 \<Rightarrow> u32 \<Rightarrow> bool \<Rightarrow> memtable \<Rightarrow> memtable" where
  "mem_DeleteKey key lsn txn_id durable m =
     AList.update key \<lparr>me_value = [], me_lsn = lsn, me_deleted = True, me_txn_id = txn_id,
       me_durable = durable\<rparr> m"

definition mem_Get :: "memtable \<Rightarrow> bytes \<Rightarrow> mem_entry option" where
  "mem_Get m key = map_of m key"

definition mem_Snapshot :: "memtable \<Rightarrow> (bytes \<times> mem_entry) list" where
  "mem_Snapshot m = m"

definition mem_Empty :: "memtable \<Rightarrow> bool" where
  "mem_Empty m \<longleftrightarrow> m = []"

definition mem_Clear :: "memtable \<Rightarrow> memtable" where
  "mem_Clear m = []"

definition mem_Swap :: "memtable \<Rightarrow> memtable \<Rightarrow> memtable \<times> memtable" where
  "mem_Swap m other = (other, m)"

definition mem_PromoteTxn :: "u32 \<Rightarrow> memtable \<Rightarrow> memtable" where
  "mem_PromoteTxn txn_id m =
    (if txn_id = 0 then m
     else map (\<lambda>(k, e). (k, if me_txn_id e = txn_id then e\<lparr>me_durable := True\<rparr> else e)) m)"

definition mem_ClearTxn :: "u32 \<Rightarrow> memtable \<Rightarrow> memtable" where
  "mem_ClearTxn txn_id m =
    (if txn_id = 0 then m else filter (\<lambda>(k, e). me_txn_id e \<noteq> txn_id) m)"

section \<open>The invariant and the abstract table\<close>

definition mem_inv :: "memtable \<Rightarrow> bool" where
  "mem_inv m \<longleftrightarrow> distinct (map fst m)"

lemma mem_inv_ops [intro]:
  "mem_inv []"
  "mem_inv m \<Longrightarrow> mem_inv (mem_Put k v l t d m)"
  "mem_inv m \<Longrightarrow> mem_inv (mem_DeleteKey k l t d m)"
  "mem_inv m \<Longrightarrow> mem_inv (mem_PromoteTxn t m)"
  "mem_inv m \<Longrightarrow> mem_inv (mem_ClearTxn t m)"
      apply (simp add: mem_inv_def)
     apply (simp add: mem_inv_def mem_Put_def distinct_update)
    apply (simp add: mem_inv_def mem_DeleteKey_def distinct_update)
   apply (simp add: mem_inv_def mem_PromoteTxn_def comp_def case_prod_beta)
  apply (simp add: mem_inv_def mem_ClearTxn_def distinct_map_filter)
  done

lemma map_of_Put: "map_of (mem_Put k v l t d m) = (map_of m)(k \<mapsto>
    \<lparr>me_value = v, me_lsn = l, me_deleted = False, me_txn_id = t, me_durable = d\<rparr>)"
  by (simp add: mem_Put_def update_conv')

lemma map_of_DeleteKey: "map_of (mem_DeleteKey k l t d m) = (map_of m)(k \<mapsto>
    \<lparr>me_value = [], me_lsn = l, me_deleted = True, me_txn_id = t, me_durable = d\<rparr>)"
  by (simp add: mem_DeleteKey_def update_conv')

lemma map_of_map_values: "map_of (map (\<lambda>(k, e). (k, f e)) m) k = map_option f (map_of m k)"
  by (induction m) auto

lemma map_of_PromoteTxn:
  "t \<noteq> 0 \<Longrightarrow> map_of (mem_PromoteTxn t m) k =
     map_option (\<lambda>e. if me_txn_id e = t then e\<lparr>me_durable := True\<rparr> else e) (map_of m k)"
  using map_of_map_values [of "\<lambda>e. if me_txn_id e = t then e\<lparr>me_durable := True\<rparr> else e" m k]
  by (simp add: mem_PromoteTxn_def)

lemma map_of_filter_values:
  "distinct (map fst m) \<Longrightarrow> map_of (filter (\<lambda>(k, e). P e) m) k =
     (case map_of m k of Some e \<Rightarrow> if P e then Some e else None | None \<Rightarrow> None)"
proof (induction m)
  case (Cons a m)
  have "fst a = k \<Longrightarrow> map_of m k = None"
    using Cons.prems by (auto simp: map_of_eq_None_iff)
  with Cons show ?case by (cases a) auto
qed simp

lemma map_of_ClearTxn:
  "mem_inv m \<Longrightarrow> t \<noteq> 0 \<Longrightarrow> map_of (mem_ClearTxn t m) k =
     (case map_of m k of Some e \<Rightarrow> if me_txn_id e \<noteq> t then Some e else None | None \<Rightarrow> None)"
  unfolding mem_ClearTxn_def mem_inv_def by (simp only: if_False map_of_filter_values)

lemmas mem_lookup = mem_Get_def map_of_Put map_of_DeleteKey map_of_PromoteTxn map_of_ClearTxn

text \<open>The steps of the table, and the tables they reach.\<close>

datatype mem_op =
    OpPut bytes bytes u64 u32 bool
  | OpDelete bytes u64 u32 bool
  | OpPromote u32
  | OpClearTxn u32
  | OpClear

fun mem_apply :: "memtable \<Rightarrow> mem_op \<Rightarrow> memtable" where
  "mem_apply m (OpPut k v l t d) = mem_Put k v l t d m"
| "mem_apply m (OpDelete k l t d) = mem_DeleteKey k l t d m"
| "mem_apply m (OpPromote t) = mem_PromoteTxn t m"
| "mem_apply m (OpClearTxn t) = mem_ClearTxn t m"
| "mem_apply m OpClear = mem_Clear m"

text \<open>The abstract table: a function from keys to entries.\<close>

fun abs_apply :: "(bytes \<Rightarrow> mem_entry option) \<Rightarrow> mem_op \<Rightarrow> bytes \<Rightarrow> mem_entry option" where
  "abs_apply f (OpPut k v l t d) x = (if x = k then Some \<lparr>me_value = v, me_lsn = l,
      me_deleted = False, me_txn_id = t, me_durable = d\<rparr> else f x)"
| "abs_apply f (OpDelete k l t d) x = (if x = k then Some \<lparr>me_value = [], me_lsn = l,
      me_deleted = True, me_txn_id = t, me_durable = d\<rparr> else f x)"
| "abs_apply f (OpPromote t) x = (case f x of None \<Rightarrow> None
      | Some e \<Rightarrow> Some (if t \<noteq> 0 \<and> me_txn_id e = t then e\<lparr>me_durable := True\<rparr> else e))"
| "abs_apply f (OpClearTxn t) x = (case f x of None \<Rightarrow> None
      | Some e \<Rightarrow> if t \<noteq> 0 \<and> me_txn_id e = t then None else Some e)"
| "abs_apply f OpClear x = None"

lemma mem_apply_abs: "mem_inv m \<Longrightarrow> mem_Get (mem_apply m oper) = abs_apply (mem_Get m) oper"
proof (rule ext)
  fix x
  assume "mem_inv m"
  then show "mem_Get (mem_apply m oper) x = abs_apply (mem_Get m) oper x"
  proof (cases oper)
    case (OpPromote t)
    then show ?thesis
      by (cases "t = 0") (auto simp: mem_lookup mem_PromoteTxn_def [of 0] split: option.splits)
  next
    case (OpClearTxn t)
    with \<open>mem_inv m\<close> show ?thesis
      by (cases "t = 0") (auto simp: mem_lookup mem_ClearTxn_def [of 0] split: option.splits)
  qed (auto simp: mem_lookup mem_Clear_def)
qed

lemma mem_inv_apply: "mem_inv m \<Longrightarrow> mem_inv (mem_apply m oper)"
  by (cases oper) (auto simp: mem_Clear_def)

text \<open>
  For every sequence of table operations from the empty table, the association list
  keeps its keys distinct and a lookup gives what the abstract function gives; \<open>Snapshot\<close>
  lists exactly the entries that lookups find, and \<open>Empty\<close> holds when no lookup finds any.
\<close>

theorem memtable_refines:
  "mem_inv (foldl mem_apply [] ops)
   \<and> mem_Get (foldl mem_apply [] ops) = foldl abs_apply (\<lambda>_. None) ops
   \<and> (\<forall>k e. (k, e) \<in> set (mem_Snapshot (foldl mem_apply [] ops))
        \<longleftrightarrow> foldl abs_apply (\<lambda>_. None) ops k = Some e)
   \<and> (mem_Empty (foldl mem_apply [] ops) \<longleftrightarrow> foldl abs_apply (\<lambda>_. None) ops = (\<lambda>_. None))"
proof -
  have "mem_inv (foldl mem_apply m ops) \<and>
        mem_Get (foldl mem_apply m ops) = foldl abs_apply (mem_Get m) ops" if "mem_inv m" for m
    using that by (induction ops arbitrary: m) (auto simp: mem_inv_apply mem_apply_abs)
  moreover have "mem_Get [] = (\<lambda>_. None)" by (simp add: mem_Get_def fun_eq_iff)
  ultimately have inv: "mem_inv (foldl mem_apply [] ops)"
    and abs: "mem_Get (foldl mem_apply [] ops) = foldl abs_apply (\<lambda>_. None) ops"
    using mem_inv_ops(1) by auto
  have "(k, e) \<in> set (mem_Snapshot (foldl mem_apply [] ops)) \<longleftrightarrow> foldl abs_apply (\<lambda>_. None) ops k = Some e"
    for k e using inv by (simp add: abs [symmetric] mem_Get_def mem_Snapshot_def mem_inv_def)
  moreover have "mem_Empty (foldl mem_apply [] ops) \<longleftrightarrow> foldl abs_apply (\<lambda>_. None) ops = (\<lambda>_. None)"
    by (simp add: abs [symmetric] mem_Get_def mem_Empty_def fun_eq_iff map_of_eq_None_iff neq_Nil_conv)
  ultimately show ?thesis using inv abs by blast
qed


text \<open>
  Aborting a transaction takes back its writes only where the key held nothing before:
  over a fresh key \<open>ClearTxn\<close> after \<open>Put\<close> gives the old table back, but where the write had
  replaced an entry of another transaction, durable or not, the key is left absent.
\<close>

theorem clear_txn_after_put:
  assumes "mem_inv m" "t \<noteq> 0" "\<forall>k' e. mem_Get m k' = Some e \<longrightarrow> me_txn_id e \<noteq> t"
  shows "mem_Get (mem_ClearTxn t (mem_Put k v l t d m)) = (mem_Get m)(k := None)"
proof (rule ext)
  fix x
  show "mem_Get (mem_ClearTxn t (mem_Put k v l t d m)) x = ((mem_Get m)(k := None)) x"
    using assms by (auto simp: mem_lookup mem_inv_ops split: option.splits)
qed

theorem clear_txn_after_put_witness:
  "mem_Get (mem_ClearTxn 7 (mem_Put [1] [9] 5 7 False (mem_Put [1] [8] 4 0 True []))) [1] = None
   \<and> mem_Get (mem_Put [1] [8] 4 0 True []) [1] \<noteq> None"
proof -
  have "mem_inv (mem_Put [1] [8] 4 0 True [])" by (intro mem_inv_ops)
  from clear_txn_after_put [OF this, of 7 "[1]" "[9]" 5 False] show ?thesis
    by (simp add: mem_Get_def map_of_Put)
qed

end
