(* ===== verification/VersionChains.thy ===== *)
theory VersionChains
  imports Prelude "HOL-Library.AList"
begin

text \<open>
  \<^verbatim>\<open>cpp/src/concept/vcs/version_chain_store.cc\<close> and \<^verbatim>\<open>cpp/src/concept/vcs/vcs_pager.cc\<close>:
  for every key the chain of its versions (LSN and predecessor), oldest first. At most
  eight nodes stay inline; older ones are spilled to the pager. The unordered maps are
  association lists with distinct keys.

  \<open>vp_pages\<close> is what \<open>ReadPageNodes\<close> returns for a page offset; it is only consulted for a
  key that has a head page and no nodes in memory. Writing the chain pages (the first half
  of \<open>SaveMeta\<close>) is not modelled.
\<close>

section \<open>State\<close>

record version_node =
  vn_lsn :: u64
  vn_prev :: u64

record overflow_meta =
  om_head_page :: u64
  om_tail_page :: u64
  om_node_count :: u32

record vcs_pager =
  vp_overflow :: "(bytes \<times> overflow_meta) list"
  vp_nodes :: "(bytes \<times> version_node list) list"
  vp_pages :: "u64 \<Rightarrow> version_node list res"

record vcs =
  vc_chains :: "(bytes \<times> version_node list) list"
  vc_pager :: "vcs_pager option"

definition kVcsInlineMax :: nat where "kVcsInlineMax = 8"

definition find_def :: "(bytes \<times> 'a list) list \<Rightarrow> bytes \<Rightarrow> 'a list" where
  "find_def m k = (case map_of m k of None \<Rightarrow> [] | Some xs \<Rightarrow> xs)"

section \<open>The pager\<close>

definition OverflowMeta_init :: overflow_meta where
  "OverflowMeta_init = \<lparr>om_head_page = 0, om_tail_page = 0, om_node_count = 0\<rparr>"

definition AppendOverflow :: "vcs_pager \<Rightarrow> bytes \<Rightarrow> version_node \<Rightarrow> vcs_pager \<times> status" where
  "AppendOverflow p key node =
    (if key = [] then (p, Status_InvalidArgument ''empty key'')
     else
      (let nodes = find_def (vp_nodes p) key;
           p0 = p\<lparr>vp_nodes := AList.update key nodes (vp_nodes p)\<rparr> in
       if nodes \<noteq> [] \<and> vn_lsn node \<le> vn_lsn (last nodes)
       then (p0, Status_InvalidArgument ''lsn must increase'')
       else
        (let nodes' = nodes @ [node];
             meta = (case map_of (vp_overflow p) key of None \<Rightarrow> OverflowMeta_init | Some m \<Rightarrow> m)
         in (p\<lparr>vp_nodes := AList.update key nodes' (vp_nodes p),
               vp_overflow := AList.update key
                 (meta\<lparr>om_node_count := word_of_nat (length nodes')\<rparr>) (vp_overflow p)\<rparr>,
             Status_Ok))))"

definition LoadOverflow :: "vcs_pager \<Rightarrow> bytes \<Rightarrow> version_node list res" where
  "LoadOverflow p key =
    (case map_of (vp_nodes p) key of
      Some nodes \<Rightarrow> Inr nodes
    | None \<Rightarrow>
       (case map_of (vp_overflow p) key of
          None \<Rightarrow> Inr []
        | Some m \<Rightarrow> if om_head_page m = 0 then Inr [] else vp_pages p (om_head_page m)))"

definition OverflowCount :: "vcs_pager \<Rightarrow> bytes \<Rightarrow> u32" where
  "OverflowCount p key =
    (case map_of (vp_nodes p) key of
      Some nodes \<Rightarrow> word_of_nat (length nodes)
    | None \<Rightarrow> (case map_of (vp_overflow p) key of None \<Rightarrow> 0 | Some m \<Rightarrow> om_node_count m))"

definition pager_Clear :: "vcs_pager \<Rightarrow> vcs_pager" where
  "pager_Clear p = p\<lparr>vp_overflow := [], vp_nodes := []\<rparr>"

section \<open>The store\<close>

fun spill :: "bytes \<Rightarrow> version_node list \<Rightarrow> vcs_pager \<Rightarrow> version_node list \<times> vcs_pager" where
  "spill key [] p = ([], p)"
| "spill key (n # ns) p =
    (if kVcsInlineMax < length (n # ns) then
       (let (p', st) = AppendOverflow p key n in
        if status_ok st then spill key ns p' else (ns, p'))
     else (n # ns, p))"

definition MaybeSpill :: "vcs \<Rightarrow> bytes \<Rightarrow> vcs" where
  "MaybeSpill s key =
    (case vc_pager s of
      None \<Rightarrow> s
    | Some p \<Rightarrow>
       (let (ns, p') = spill key (find_def (vc_chains s) key) p
        in s\<lparr>vc_chains := AList.update key ns (vc_chains s), vc_pager := Some p'\<rparr>))"

definition MergedChain :: "vcs \<Rightarrow> bytes \<Rightarrow> version_node list" where
  "MergedChain s key =
    (case vc_pager s of
      None \<Rightarrow> find_def (vc_chains s) key
    | Some p \<Rightarrow>
       (case LoadOverflow p key of
          Inl _ \<Rightarrow> []
        | Inr merged \<Rightarrow> merged @ find_def (vc_chains s) key))"

definition overflow_blocks :: "vcs \<Rightarrow> bytes \<Rightarrow> u64 \<Rightarrow> bool" where
  "overflow_blocks s key lsn \<longleftrightarrow>
    (case vc_pager s of
      None \<Rightarrow> False
    | Some p \<Rightarrow> OverflowCount p key > 0 \<and>
        (case LoadOverflow p key of
           Inl _ \<Rightarrow> False
         | Inr overflow \<Rightarrow> overflow \<noteq> [] \<and> lsn \<le> vn_lsn (last overflow)))"

definition vcs_Append :: "vcs \<Rightarrow> bytes \<Rightarrow> u64 \<Rightarrow> u64 \<Rightarrow> vcs \<times> status" where
  "vcs_Append s key lsn prev_lsn =
    (if key = [] then (s, Status_InvalidArgument ''empty key'')
     else if lsn = 0 then (s, Status_InvalidArgument ''lsn must be > 0'')
     else
      (let chain = find_def (vc_chains s) key;
           s0 = s\<lparr>vc_chains := AList.update key chain (vc_chains s)\<rparr> in
       if chain \<noteq> [] \<and> lsn \<le> vn_lsn (last chain)
       then (s0, Status_InvalidArgument ''lsn must increase'')
       else if overflow_blocks s key lsn
       then (s0, Status_InvalidArgument ''lsn must increase'')
       else (MaybeSpill (s\<lparr>vc_chains := AList.update key
               (chain @ [\<lparr>vn_lsn = lsn, vn_prev = prev_lsn\<rparr>]) (vc_chains s)\<rparr>) key,
             Status_Ok)))"

definition floor_step :: "u64 \<Rightarrow> u64 \<Rightarrow> version_node \<Rightarrow> u64" where
  "floor_step snapshot_lsn best node =
    (if vn_lsn node \<le> snapshot_lsn \<and> best \<le> vn_lsn node then vn_lsn node else best)"

definition vcs_Floor :: "vcs \<Rightarrow> bytes \<Rightarrow> u64 \<Rightarrow> u64" where
  "vcs_Floor s key snapshot_lsn =
    (let chain = MergedChain s key in
     if chain = [] then 0 else foldl (floor_step snapshot_lsn) 0 chain)"

definition vcs_Head :: "vcs \<Rightarrow> bytes \<Rightarrow> u64" where
  "vcs_Head s key =
    (let chain = find_def (vc_chains s) key in
     if chain \<noteq> [] then vn_lsn (last chain)
     else (case vc_pager s of
             None \<Rightarrow> 0
           | Some p \<Rightarrow> (case LoadOverflow p key of
                Inl _ \<Rightarrow> 0
              | Inr overflow \<Rightarrow> if overflow = [] then 0 else vn_lsn (last overflow))))"

definition ContainsLsn :: "vcs \<Rightarrow> bytes \<Rightarrow> u64 \<Rightarrow> bool" where
  "ContainsLsn s key lsn \<longleftrightarrow> (\<exists>node \<in> set (MergedChain s key). vn_lsn node = lsn)"

definition ReferencedLsnsAbove :: "vcs \<Rightarrow> u64 \<Rightarrow> u64 list" where
  "ReferencedLsnsAbove s min_lsn = remdups_adj (sort
     (concat (map (\<lambda>(k, _). map vn_lsn (filter (\<lambda>n. min_lsn < vn_lsn n) (MergedChain s k)))
        (vc_chains s))))"

definition InlineNodeCount :: "vcs \<Rightarrow> bytes \<Rightarrow> nat" where
  "InlineNodeCount s key = length (find_def (vc_chains s) key)"

definition OverflowNodeCount :: "vcs \<Rightarrow> bytes \<Rightarrow> u32" where
  "OverflowNodeCount s key = (case vc_pager s of None \<Rightarrow> 0 | Some p \<Rightarrow> OverflowCount p key)"

definition vcs_Clear :: "vcs \<Rightarrow> vcs" where
  "vcs_Clear s = s\<lparr>vc_chains := [], vc_pager := map_option pager_Clear (vc_pager s)\<rparr>"

text \<open>One chain of \<open>CompactBelow\<close>: what is kept, with the node the pin still sees.\<close>

definition compact_unsorted :: "u64 \<Rightarrow> version_node list \<Rightarrow> version_node list" where
  "compact_unsorted lsn chain =
    (let kept = filter (\<lambda>n. lsn \<le> vn_lsn n) chain;
         floor_at_pin = foldl (floor_step lsn) 0 chain;
         have_visible = (\<exists>n \<in> set kept. vn_lsn n \<le> lsn)
     in if 0 < floor_at_pin \<and> \<not> have_visible
        then kept @ (case find (\<lambda>n. vn_lsn n = floor_at_pin) chain of None \<Rightarrow> [] | Some n \<Rightarrow> [n])
        else kept)"

definition compact_kept :: "u64 \<Rightarrow> version_node list \<Rightarrow> version_node list" where
  "compact_kept lsn chain = sort_key vn_lsn (compact_unsorted lsn chain)"

fun append_all :: "vcs \<Rightarrow> bytes \<Rightarrow> version_node list \<Rightarrow> u64 \<Rightarrow> vcs" where
  "append_all s key [] prev = s"
| "append_all s key (n # ns) prev =
    (let (s', st) = vcs_Append s key (vn_lsn n) prev in
     if status_ok st then append_all s' key ns (vn_lsn n) else s')"

definition CompactBelow :: "vcs \<Rightarrow> u64 \<Rightarrow> vcs" where
  "CompactBelow s lsn =
    (if lsn = 0 then s
     else foldl (\<lambda>s' (k, chain). append_all s' k (compact_kept lsn chain) 0)
            (vcs_Clear s) (map (\<lambda>(k, _). (k, MergedChain s k)) (vc_chains s)))"

section \<open>The invariant and spilling\<close>

definition asc :: "version_node list \<Rightarrow> bool" where
  "asc ns \<longleftrightarrow> sorted_wrt (\<lambda>a b. vn_lsn a < vn_lsn b) ns \<and> (\<forall>n \<in> set ns. 0 < vn_lsn n)"

lemma asc_simps [simp]:
  "asc []"
  "asc (n # ns) \<longleftrightarrow> 0 < vn_lsn n \<and> (\<forall>m \<in> set ns. vn_lsn n < vn_lsn m) \<and> asc ns"
  by (auto simp: asc_def)

lemma asc_append:
  "asc (xs @ ys) \<longleftrightarrow> asc xs \<and> asc ys \<and> (\<forall>x \<in> set xs. \<forall>y \<in> set ys. vn_lsn x < vn_lsn y)"
  by (auto simp: asc_def sorted_wrt_append)

lemma asc_last: "asc ns \<Longrightarrow> n \<in> set ns \<Longrightarrow> vn_lsn n \<le> vn_lsn (last ns)"
  by (cases ns rule: rev_cases) (auto simp: asc_append order_less_imp_le)

lemma asc_snoc:
  "asc (ns @ [n]) \<longleftrightarrow> asc ns \<and> 0 < vn_lsn n \<and> (ns \<noteq> [] \<longrightarrow> vn_lsn (last ns) < vn_lsn n)"
  by (auto simp: asc_append dest: asc_last intro: le_less_trans)

lemma all_last: "(\<And>x. x \<in> set xs \<Longrightarrow> P x) \<Longrightarrow> xs = [] \<or> P (last xs)"
  using last_in_set by blast

lemma find_SomeD: "find P xs = Some x \<Longrightarrow> x \<in> set xs \<and> P x"
  by (induction xs) (auto split: if_splits)

lemma find_def_update [simp]:
  "find_def (AList.update k v m) k' = (if k' = k then v else find_def m k')"
  by (simp add: find_def_def update_conv')

definition pager_ok :: "vcs_pager \<Rightarrow> bool" where
  "pager_ok p \<longleftrightarrow> (\<forall>k. map_of (vp_nodes p) k = None \<longrightarrow>
     (case map_of (vp_overflow p) k of None \<Rightarrow> True | Some m \<Rightarrow> om_head_page m = 0))"

lemma LoadOverflow_ok: "pager_ok p \<Longrightarrow> LoadOverflow p k = Inr (find_def (vp_nodes p) k)"
  unfolding pager_ok_def LoadOverflow_def find_def_def
  by (drule spec [of _ k]) (auto split: option.splits)

lemma AppendOverflow_ok:
  assumes "pager_ok p" "key \<noteq> []" "asc (find_def (vp_nodes p) key @ [n])"
  obtains p' where "AppendOverflow p key n = (p', Status_Ok)" "pager_ok p'"
    "find_def (vp_nodes p') key = find_def (vp_nodes p) key @ [n]"
    "\<And>k. k \<noteq> key \<Longrightarrow> find_def (vp_nodes p') k = find_def (vp_nodes p) k"
proof -
  let ?nodes' = "find_def (vp_nodes p) key @ [n]"
  let ?meta = "case map_of (vp_overflow p) key of None \<Rightarrow> OverflowMeta_init | Some m \<Rightarrow> m"
  let ?p' = "p\<lparr>vp_nodes := AList.update key ?nodes' (vp_nodes p), vp_overflow := AList.update key
    (?meta\<lparr>om_node_count := word_of_nat (length ?nodes')\<rparr>) (vp_overflow p)\<rparr>"
  have "AppendOverflow p key n = (?p', Status_Ok)"
    using assms(2,3) by (auto simp: AppendOverflow_def asc_snoc Let_def)
  moreover have "pager_ok ?p'" using assms(1) by (auto simp: pager_ok_def update_conv')
  ultimately show ?thesis using that [of ?p'] by simp
qed

lemma spill_merge:
  assumes "pager_ok p" "key \<noteq> []" "asc (find_def (vp_nodes p) key @ ns)"
    and "spill key ns p = (ns', p')"
  shows "find_def (vp_nodes p') key @ ns' = find_def (vp_nodes p) key @ ns \<and> pager_ok p'
    \<and> ns' = drop (length ns - kVcsInlineMax) ns
    \<and> (\<forall>k. k \<noteq> key \<longrightarrow> find_def (vp_nodes p') k = find_def (vp_nodes p) k)"
  using assms
proof (induction ns arbitrary: p)
  case (Cons n ns)
  show ?case
  proof (cases "kVcsInlineMax < length (n # ns)")
    case False
    then show ?thesis using Cons.prems by auto
  next
    case True
    have "asc (find_def (vp_nodes p) key @ [n])"
      using Cons.prems(3) by (auto simp: asc_append)
    then obtain q where q: "AppendOverflow p key n = (q, Status_Ok)" "pager_ok q"
      "find_def (vp_nodes q) key = find_def (vp_nodes p) key @ [n]"
      "\<And>k. k \<noteq> key \<Longrightarrow> find_def (vp_nodes q) k = find_def (vp_nodes p) k"
      using AppendOverflow_ok [OF Cons.prems(1,2)] by metis
    have "spill key ns q = (ns', p')"
      using Cons.prems(4) True q(1) by (simp add: status_defs)
    from Cons.IH [OF q(2) Cons.prems(2) _ this] Cons.prems(3) q(3,4) True show ?thesis
      by (auto simp: Suc_diff_le)
  qed
qed simp

definition vcs_inv :: "vcs \<Rightarrow> bool" where
  "vcs_inv s \<longleftrightarrow> distinct (map fst (vc_chains s)) \<and> [] \<notin> fst ` set (vc_chains s)
     \<and> (\<forall>k. asc (MergedChain s k))
     \<and> (case vc_pager s of None \<Rightarrow> True
        | Some p \<Rightarrow> pager_ok p \<and> (\<forall>k. length (find_def (vc_chains s) k) \<le> kVcsInlineMax
            \<and> (find_def (vp_nodes p) k \<noteq> [] \<longrightarrow> length (find_def (vc_chains s) k) = kVcsInlineMax)))"

lemma vcs_inv_merged:
  "vcs_inv s \<Longrightarrow> vc_pager s = Some p \<Longrightarrow>
   MergedChain s k = find_def (vp_nodes p) k @ find_def (vc_chains s) k"
  by (simp add: vcs_inv_def MergedChain_def LoadOverflow_ok)

lemma vcs_inv_nil_key: "vcs_inv s \<Longrightarrow> find_def (vc_chains s) [] = []"
proof -
  assume "vcs_inv s"
  then have "map_of (vc_chains s) [] = None" by (simp add: vcs_inv_def map_of_eq_None_iff)
  then show ?thesis by (simp add: find_def_def)
qed

text \<open>The last version is always inline.\<close>

lemma merged_last:
  assumes "vcs_inv s"
  shows "find_def (vc_chains s) k = [] \<longleftrightarrow> MergedChain s k = []"
    and "MergedChain s k \<noteq> [] \<Longrightarrow> last (MergedChain s k) = last (find_def (vc_chains s) k)"
proof -
  show iff: "find_def (vc_chains s) k = [] \<longleftrightarrow> MergedChain s k = []"
  proof (cases "vc_pager s")
    case None
    then show ?thesis by (simp add: MergedChain_def)
  next
    case (Some p)
    with assms have "find_def (vp_nodes p) k \<noteq> [] \<Longrightarrow> length (find_def (vc_chains s) k) = kVcsInlineMax"
      by (simp add: vcs_inv_def)
    then show ?thesis
      using vcs_inv_merged [OF assms Some, of k]
      by (cases "find_def (vp_nodes p) k = []") (auto simp: kVcsInlineMax_def)
  qed
  assume "MergedChain s k \<noteq> []"
  with iff show "last (MergedChain s k) = last (find_def (vc_chains s) k)"
  proof (cases "vc_pager s")
    case None
    then show ?thesis by (simp add: MergedChain_def)
  next
    case (Some p)
    with iff \<open>MergedChain s k \<noteq> []\<close> show ?thesis
      using vcs_inv_merged [OF assms Some, of k] by simp
  qed
qed

lemma overflow_blocks_inv:
  assumes "vcs_inv s" "find_def (vc_chains s) k = []"
  shows "\<not> overflow_blocks s k lsn"
proof (cases "vc_pager s")
  case (Some p)
  have "MergedChain s k = []" using merged_last(1) [OF assms(1), of k] assms(2) by blast
  then have "find_def (vp_nodes p) k = []" unfolding vcs_inv_merged [OF assms(1) Some] by blast
  moreover have "pager_ok p" using assms Some by (simp add: vcs_inv_def)
  ultimately show ?thesis by (simp add: overflow_blocks_def Some LoadOverflow_ok)
qed (simp add: overflow_blocks_def)


section \<open>Append\<close>

lemma MaybeSpill_merge:
  assumes "distinct (map fst (vc_chains s))" "[] \<notin> fst ` set (vc_chains s)" "key \<noteq> []"
    and pager: "\<And>p. vc_pager s = Some p \<Longrightarrow> pager_ok p \<and>
       (\<forall>k. k \<noteq> key \<longrightarrow> length (find_def (vc_chains s) k) \<le> kVcsInlineMax
            \<and> (find_def (vp_nodes p) k \<noteq> [] \<longrightarrow> length (find_def (vc_chains s) k) = kVcsInlineMax))
       \<and> (find_def (vp_nodes p) key \<noteq> [] \<longrightarrow> kVcsInlineMax \<le> length (find_def (vc_chains s) key))"
    and asc: "\<And>k. asc (MergedChain s k)"
  shows "(\<forall>k. MergedChain (MaybeSpill s key) k = MergedChain s k) \<and> vcs_inv (MaybeSpill s key)"
proof (cases "vc_pager s")
  case None
  with assms show ?thesis by (simp add: MaybeSpill_def vcs_inv_def)
next
  case (Some p)
  note pg = pager [OF Some]
  have m: "MergedChain s k = find_def (vp_nodes p) k @ find_def (vc_chains s) k" for k
    using pg by (simp add: MergedChain_def Some LoadOverflow_ok)
  obtain ns p' where sp: "spill key (find_def (vc_chains s) key) p = (ns, p')" by fastforce
  let ?s' = "MaybeSpill s key"
  have s': "?s' = s\<lparr>vc_chains := AList.update key ns (vc_chains s), vc_pager := Some p'\<rparr>"
    by (simp add: MaybeSpill_def Some sp)
  have r: "find_def (vp_nodes p') key @ ns = find_def (vp_nodes p) key @ find_def (vc_chains s) key"
    "pager_ok p'" "ns = drop (length (find_def (vc_chains s) key) - kVcsInlineMax) (find_def (vc_chains s) key)"
    "\<And>k. k \<noteq> key \<Longrightarrow> find_def (vp_nodes p') k = find_def (vp_nodes p) k"
    using spill_merge [OF _ assms(3) _ sp] pg asc [of key] unfolding m by blast+
  have m': "MergedChain ?s' k = MergedChain s k" for k
  proof -
    have "MergedChain ?s' k = find_def (vp_nodes p') k @ (if k = key then ns else find_def (vc_chains s) k)"
      using r(2) by (simp add: s' MergedChain_def LoadOverflow_ok)
    with r(1,4) show ?thesis by (simp add: m)
  qed
  have len: "length ns \<le> kVcsInlineMax" "find_def (vp_nodes p') key \<noteq> [] \<Longrightarrow> length ns = kVcsInlineMax"
  proof -
    show "length ns \<le> kVcsInlineMax" by (simp add: r(3))
    show "length ns = kVcsInlineMax" if "find_def (vp_nodes p') key \<noteq> []"
    proof (cases "kVcsInlineMax \<le> length (find_def (vc_chains s) key)")
      case False
      with pg have "find_def (vp_nodes p) key = []" by linarith
      moreover have "ns = find_def (vc_chains s) key" using False by (simp add: r(3))
      ultimately show ?thesis using r(1) that by simp
    qed (simp add: r(3))
  qed
  have "vcs_inv ?s'"
    unfolding vcs_inv_def
  proof (intro conjI allI)
    show "distinct (map fst (vc_chains ?s'))" using assms(1) by (simp add: s' distinct_update)
    show "[] \<notin> fst ` set (vc_chains ?s')" using assms(2,3) by (simp add: s' dom_update)
    show "asc (MergedChain ?s' k)" for k using asc m' by simp
    show "case vc_pager ?s' of None \<Rightarrow> True | Some p \<Rightarrow> pager_ok p
      \<and> (\<forall>k. length (find_def (vc_chains ?s') k) \<le> kVcsInlineMax \<and>
          (find_def (vp_nodes p) k \<noteq> [] \<longrightarrow> length (find_def (vc_chains ?s') k) = kVcsInlineMax))"
      using r len pg by (simp add: s')
  qed
  with m' show ?thesis by blast
qed

lemma vcs_Append_ok:
  assumes inv: "vcs_inv s" and "key \<noteq> []" "0 < lsn"
    and fresh: "MergedChain s key = [] \<or> vn_lsn (last (MergedChain s key)) < lsn"
  shows "\<exists>s'. vcs_Append s key lsn prev = (s', Status_Ok) \<and> vcs_inv s'
    \<and> MergedChain s' key = MergedChain s key @ [\<lparr>vn_lsn = lsn, vn_prev = prev\<rparr>]
    \<and> (\<forall>k. k \<noteq> key \<longrightarrow> MergedChain s' k = MergedChain s k)"
proof -
  let ?chain = "find_def (vc_chains s) key" and ?n = "\<lparr>vn_lsn = lsn, vn_prev = prev\<rparr>"
  let ?s1 = "s\<lparr>vc_chains := AList.update key (?chain @ [?n]) (vc_chains s)\<rparr>"
  have below: "?chain = [] \<or> vn_lsn (last ?chain) < lsn"
    using merged_last [OF inv, of key] fresh by metis
  have "\<not> overflow_blocks s key lsn"
  proof (cases "vc_pager s")
    case (Some p)
    have "vn_lsn x < lsn" if "x \<in> set (find_def (vp_nodes p) key)" for x
    proof -
      have a: "asc (MergedChain s key)" using inv by (simp add: vcs_inv_def)
      have mem: "x \<in> set (MergedChain s key)"
        using that unfolding vcs_inv_merged [OF inv Some] by simp
      from mem have "MergedChain s key \<noteq> []" by auto
      with fresh asc_last [OF a mem] show ?thesis by auto
    qed
    moreover have "pager_ok p" using inv Some by (simp add: vcs_inv_def)
    ultimately show ?thesis using all_last [of "find_def (vp_nodes p) key" "\<lambda>x. vn_lsn x < lsn"]
      by (auto simp: overflow_blocks_def Some LoadOverflow_ok not_le)
  qed (simp add: overflow_blocks_def)
  with assms(2,3) below have app: "vcs_Append s key lsn prev = (MaybeSpill ?s1 key, Status_Ok)"
    by (auto simp: vcs_Append_def Let_def not_le [symmetric])
  have pager: "vc_pager ?s1 = vc_pager s" by simp
  have m1: "MergedChain ?s1 k = (if k = key then MergedChain s key @ [?n] else MergedChain s k)" for k
  proof (cases "vc_pager s")
    case (Some p)
    then have "pager_ok p" using inv by (simp add: vcs_inv_def)
    with Some show ?thesis by (simp add: MergedChain_def LoadOverflow_ok)
  qed (simp add: MergedChain_def)
  have "asc (MergedChain ?s1 k)" for k
    using inv fresh assms(3) by (auto simp: m1 asc_snoc vcs_inv_def)
  moreover have "\<And>p. vc_pager ?s1 = Some p \<Longrightarrow> pager_ok p \<and>
       (\<forall>k. k \<noteq> key \<longrightarrow> length (find_def (vc_chains ?s1) k) \<le> kVcsInlineMax
            \<and> (find_def (vp_nodes p) k \<noteq> [] \<longrightarrow> length (find_def (vc_chains ?s1) k) = kVcsInlineMax))
       \<and> (find_def (vp_nodes p) key \<noteq> [] \<longrightarrow> kVcsInlineMax \<le> length (find_def (vc_chains ?s1) key))"
    using inv by (auto simp: vcs_inv_def)
  moreover have "distinct (map fst (vc_chains ?s1))" "[] \<notin> fst ` set (vc_chains ?s1)"
    using inv assms(2) by (simp_all add: vcs_inv_def distinct_update dom_update)
  ultimately have "(\<forall>k. MergedChain (MaybeSpill ?s1 key) k = MergedChain ?s1 k) \<and> vcs_inv (MaybeSpill ?s1 key)"
    using assms(2) by (intro MaybeSpill_merge)
  then show ?thesis unfolding app by (simp add: m1)
qed


section \<open>Lookups\<close>

lemma Max_insert2: "finite S \<Longrightarrow> Max (insert b (insert x S)) = Max (insert (max b (x :: u64)) S)"
  by (cases "S = {}") (simp_all add: max.assoc)

lemma floor_fold:
  "foldl (floor_step snap) b ns = Max (insert b (vn_lsn ` {n \<in> set ns. vn_lsn n \<le> snap}))"
proof (induction ns arbitrary: b)
  case (Cons n ns)
  let ?S = "vn_lsn ` {n \<in> set ns. vn_lsn n \<le> snap}"
  have "Max (insert b (insert x ?S)) = Max (insert (max b x) ?S)" for x
    by (rule Max_insert2) simp
  moreover have "{m \<in> set (n # ns). vn_lsn m \<le> snap}
      = (if vn_lsn n \<le> snap then insert n {n \<in> set ns. vn_lsn n \<le> snap} else {n \<in> set ns. vn_lsn n \<le> snap})"
    by auto
  moreover have "floor_step snap b n = (if vn_lsn n \<le> snap then max b (vn_lsn n) else b)"
    by (simp add: floor_step_def max_def)
  ultimately show ?case using Cons by simp
qed simp

lemma vcs_Floor_Max:
  "vcs_Floor s key snap = Max (insert 0 (vn_lsn ` {n \<in> set (MergedChain s key). vn_lsn n \<le> snap}))"
  by (cases "MergedChain s key = []") (simp_all add: vcs_Floor_def floor_fold Let_def)

lemma Max_insert_0_eqI:
  assumes "finite S" "x = 0 \<or> x \<in> S" "\<And>y. y \<in> S \<Longrightarrow> y \<le> (x :: u64)"
  shows "Max (insert 0 S) = x"
  using assms by (intro Max_eqI) auto

lemma Floor_eqI:
  assumes "x = 0 \<or> (\<exists>n \<in> set (MergedChain s key). vn_lsn n = x \<and> x \<le> snap)"
    and "\<And>n. n \<in> set (MergedChain s key) \<Longrightarrow> vn_lsn n \<le> snap \<Longrightarrow> vn_lsn n \<le> x"
  shows "vcs_Floor s key snap = x"
  unfolding vcs_Floor_Max using assms by (intro Max_insert_0_eqI) auto

lemma Floor_cases:
  "vcs_Floor s key snap = 0 \<or> (\<exists>n \<in> set (MergedChain s key). vn_lsn n = vcs_Floor s key snap)"
  and Floor_le: "vcs_Floor s key snap \<le> snap"
  and Floor_ge: "n \<in> set (MergedChain s key) \<Longrightarrow> vn_lsn n \<le> snap \<Longrightarrow> vn_lsn n \<le> vcs_Floor s key snap"
proof -
  let ?S = "insert 0 (vn_lsn ` {n \<in> set (MergedChain s key). vn_lsn n \<le> snap})"
  have "vcs_Floor s key snap \<in> ?S" unfolding vcs_Floor_Max by (rule Max_in) auto
  then show "vcs_Floor s key snap = 0 \<or> (\<exists>n \<in> set (MergedChain s key). vn_lsn n = vcs_Floor s key snap)"
    and "vcs_Floor s key snap \<le> snap" by auto
  show "n \<in> set (MergedChain s key) \<Longrightarrow> vn_lsn n \<le> snap \<Longrightarrow> vn_lsn n \<le> vcs_Floor s key snap"
    unfolding vcs_Floor_Max by (intro Max_ge) auto
qed

lemma vcs_Head_merged:
  assumes "vcs_inv s"
  shows "vcs_Head s key = (if MergedChain s key = [] then 0 else vn_lsn (last (MergedChain s key)))"
proof (cases "MergedChain s key = []")
  case True
  then have nil: "find_def (vc_chains s) key = []" using merged_last(1) [OF assms] by blast
  with True have "\<And>p. vc_pager s = Some p \<Longrightarrow> LoadOverflow p key = Inr []"
    using vcs_inv_merged [OF assms, of _ key] assms by (auto simp: vcs_inv_def LoadOverflow_ok)
  with nil True show ?thesis by (auto simp: vcs_Head_def Let_def split: option.splits)
next
  case False
  then have "find_def (vc_chains s) key \<noteq> []" using merged_last(1) [OF assms] by blast
  with False show ?thesis
    using merged_last(2) [OF assms, of key] by (simp add: vcs_Head_def)
qed

text \<open>The head is the floor of the newest snapshot.\<close>

lemma vcs_Head_Floor: "vcs_inv s \<Longrightarrow> vcs_Head s key = vcs_Floor s key (- 1)"
proof (rule sym, rule Floor_eqI)
  assume inv: "vcs_inv s"
  show "vcs_Head s key = 0 \<or> (\<exists>n\<in>set (MergedChain s key). vn_lsn n = vcs_Head s key \<and> vcs_Head s key \<le> - 1)"
    using vcs_Head_merged [OF inv, of key] by auto
  fix n assume "n \<in> set (MergedChain s key)"
  then show "vn_lsn n \<le> vcs_Head s key"
    using vcs_Head_merged [OF inv, of key] asc_last [of "MergedChain s key" n] inv
    by (auto simp: vcs_inv_def)
qed

section \<open>Compaction\<close>

fun relink :: "u64 \<Rightarrow> version_node list \<Rightarrow> version_node list" where
  "relink prev [] = []"
| "relink prev (n # ns) = \<lparr>vn_lsn = vn_lsn n, vn_prev = prev\<rparr> # relink (vn_lsn n) ns"

lemma map_lsn_relink [simp]: "map vn_lsn (relink prev ns) = map vn_lsn ns"
  by (induction ns arbitrary: prev) auto

lemma append_all_ok:
  assumes "vcs_inv s" "key \<noteq> []" "asc (MergedChain s key @ ns)"
  shows "vcs_inv (append_all s key ns prev)
    \<and> MergedChain (append_all s key ns prev) key = MergedChain s key @ relink prev ns
    \<and> (\<forall>k. k \<noteq> key \<longrightarrow> MergedChain (append_all s key ns prev) k = MergedChain s k)"
  using assms
proof (induction ns arbitrary: s prev)
  case (Cons n ns)
  have "0 < vn_lsn n" "MergedChain s key = [] \<or> vn_lsn (last (MergedChain s key)) < vn_lsn n"
    using Cons.prems(3) all_last [of "MergedChain s key" "\<lambda>x. vn_lsn x < vn_lsn n"]
    by (auto simp: asc_append)
  from vcs_Append_ok [OF Cons.prems(1,2) this] obtain s' where
    s': "vcs_Append s key (vn_lsn n) prev = (s', Status_Ok)" "vcs_inv s'"
    "MergedChain s' key = MergedChain s key @ [\<lparr>vn_lsn = vn_lsn n, vn_prev = prev\<rparr>]"
    "\<forall>k. k \<noteq> key \<longrightarrow> MergedChain s' k = MergedChain s k" by blast
  have "asc (MergedChain s' key @ ns)" using Cons.prems(3) s'(3) by (simp add: asc_append)
  from Cons.IH [OF s'(2) Cons.prems(2) this, of "vn_lsn n"] s' show ?case
    by (simp add: status_defs)
qed simp

lemma asc_alt: "asc ns \<longleftrightarrow> sorted (map vn_lsn ns) \<and> distinct (map vn_lsn ns) \<and> (\<forall>n \<in> set ns. 0 < vn_lsn n)"
  using strict_sorted_iff [of "map vn_lsn ns"] by (auto simp: asc_def sorted_wrt_map)

lemma chain_floor_mem:
  assumes "0 < foldl (floor_step lsn) 0 chain"
  obtains n where "n \<in> set chain" "vn_lsn n = foldl (floor_step lsn) 0 chain" "vn_lsn n \<le> lsn"
proof -
  have "foldl (floor_step lsn) 0 chain \<in> insert 0 (vn_lsn ` {n \<in> set chain. vn_lsn n \<le> lsn})"
    unfolding floor_fold by (rule Max_in) auto
  with assms that show ?thesis by auto
qed

lemma compact_unsorted_cases:
  obtains (all) "compact_unsorted lsn chain = filter (\<lambda>n. lsn \<le> vn_lsn n) chain"
      "foldl (floor_step lsn) 0 chain = 0 \<or> (\<exists>n \<in> set chain. vn_lsn n = lsn)"
    | (pin) n where "compact_unsorted lsn chain = filter (\<lambda>n. lsn \<le> vn_lsn n) chain @ [n]"
      "n \<in> set chain" "vn_lsn n = foldl (floor_step lsn) 0 chain" "vn_lsn n < lsn"
proof -
  have vis: "(\<exists>n \<in> set (filter (\<lambda>n. lsn \<le> vn_lsn n) chain). vn_lsn n \<le> lsn)
      \<longleftrightarrow> (\<exists>n \<in> set chain. vn_lsn n = lsn)" by (auto intro: order_antisym)
  note unf = compact_unsorted_def Let_def vis
  show ?thesis
proof (cases "0 < foldl (floor_step lsn) 0 chain \<and> \<not> (\<exists>n \<in> set chain. vn_lsn n = lsn)")
  case True
  then obtain m where m: "m \<in> set chain" "vn_lsn m = foldl (floor_step lsn) 0 chain" "vn_lsn m \<le> lsn"
    using chain_floor_mem by blast
  then obtain n where n: "find (\<lambda>n. vn_lsn n = foldl (floor_step lsn) 0 chain) chain = Some n"
    by (cases "find (\<lambda>n. vn_lsn n = foldl (floor_step lsn) 0 chain) chain") (auto simp: find_None_iff)
  have "compact_unsorted lsn chain = filter (\<lambda>n. lsn \<le> vn_lsn n) chain @ [n]"
    using True n by (simp add: unf)
  moreover from find_SomeD [OF n] m True have "vn_lsn n < lsn" by (auto simp: order_less_le)
  ultimately show ?thesis using find_SomeD [OF n] pin by blast
next
  case False
  then have "compact_unsorted lsn chain = filter (\<lambda>n. lsn \<le> vn_lsn n) chain" by (simp only: unf if_False)
  with False show ?thesis using all by (auto simp: word_gt_0)
qed
qed

lemma compact_kept_set [simp]: "set (compact_kept lsn chain) = set (compact_unsorted lsn chain)"
  by (simp add: compact_kept_def)

lemma compact_kept_asc: "asc chain \<Longrightarrow> asc (compact_kept lsn chain)"
proof -
  assume a: "asc chain"
  have d: "distinct (map vn_lsn (filter (\<lambda>n. lsn \<le> vn_lsn n) chain))"
    using a by (simp add: asc_alt distinct_map_filter)
  have "distinct (map vn_lsn (compact_unsorted lsn chain)) \<and> set (compact_unsorted lsn chain) \<subseteq> set chain"
    by (rule compact_unsorted_cases [of lsn chain]) (use d in auto)
  then show ?thesis
    using a by (auto simp: asc_alt compact_kept_def distinct_map)
qed

lemma vcs_Clear_ok: "vcs_inv (vcs_Clear s)" "MergedChain (vcs_Clear s) k = []"
  by (auto simp: vcs_inv_def vcs_Clear_def MergedChain_def find_def_def LoadOverflow_def pager_ok_def
      pager_Clear_def kVcsInlineMax_def split: option.splits)

lemma compact_loop:
  assumes "vcs_inv s" "distinct (map fst ps)" "[] \<notin> fst ` set ps" "\<forall>(k, c) \<in> set ps. asc c \<and> MergedChain s k = []"
  shows "let r = foldl (\<lambda>s' (k, c). append_all s' k (compact_kept lsn c) 0) s ps in
     vcs_inv r \<and> (\<forall>k. MergedChain r k = (case map_of ps k of
        None \<Rightarrow> MergedChain s k | Some c \<Rightarrow> relink 0 (compact_kept lsn c)))"
  using assms
proof (induction ps arbitrary: s)
  case (Cons a ps)
  obtain k c where a: "a = (k, c)" by fastforce
  let ?s = "append_all s k (compact_kept lsn c) 0"
  have "asc (MergedChain s k @ compact_kept lsn c)"
    using Cons.prems(4) a by (simp add: compact_kept_asc)
  from append_all_ok [OF Cons.prems(1) _ this, of 0] have s: "vcs_inv ?s"
    "MergedChain ?s k = relink 0 (compact_kept lsn c)"
    "\<And>k'. k' \<noteq> k \<Longrightarrow> MergedChain ?s k' = MergedChain s k'"
    using Cons.prems(3,4) a by auto
  have "\<forall>(k', c) \<in> set ps. asc c \<and> MergedChain ?s k' = []"
    using Cons.prems(2,4) s(3) a by (fastforce simp: image_iff)
  with Cons.IH [OF s(1)] Cons.prems have ih: "let r = foldl (\<lambda>s' (k, c). append_all s' k (compact_kept lsn c) 0) ?s ps in
     vcs_inv r \<and> (\<forall>k. MergedChain r k = (case map_of ps k of
        None \<Rightarrow> MergedChain ?s k | Some c \<Rightarrow> relink 0 (compact_kept lsn c)))" by auto
  have "map_of ps k = None" using Cons.prems(2) a by (simp add: map_of_eq_None_iff)
  with ih s(2,3) show ?case by (auto simp: a Let_def split: option.splits)
qed simp

lemma map_of_key_image: "map_of (map (\<lambda>(k, _). (k, f k)) m) k = map_option (\<lambda>_. f k) (map_of m k)"
  by (induction m) auto

lemma CompactBelow_chain:
  assumes "vcs_inv s" "lsn \<noteq> 0"
  shows "vcs_inv (CompactBelow s lsn) \<and> (\<forall>k. MergedChain (CompactBelow s lsn) k
     = relink 0 (compact_kept lsn (MergedChain s k)))"
proof -
  let ?ps = "map (\<lambda>(k, _). (k, MergedChain s k)) (vc_chains s)"
  have fst: "map fst ?ps = map fst (vc_chains s)" by (auto simp: case_prod_beta)
  have "distinct (map fst ?ps)" "[] \<notin> set (map fst ?ps)"
    unfolding fst using assms(1) by (auto simp: vcs_inv_def)
  then have "distinct (map fst ?ps)" "[] \<notin> fst ` set ?ps" by (simp_all only: set_map not_False_eq_True)
  moreover have "\<forall>(k, c) \<in> set ?ps. asc c \<and> MergedChain (vcs_Clear s) k = []"
    using assms(1) by (auto simp: vcs_inv_def vcs_Clear_ok)
  ultimately have r: "vcs_inv (CompactBelow s lsn)"
    "\<And>k. MergedChain (CompactBelow s lsn) k = (case map_of ?ps k of
        None \<Rightarrow> [] | Some c \<Rightarrow> relink 0 (compact_kept lsn c))"
    using compact_loop [OF vcs_Clear_ok(1), of ?ps s lsn] assms(2)
    by (auto simp: CompactBelow_def vcs_Clear_ok Let_def cong: option.case_cong)
  have "map_of (vc_chains s) k = None \<Longrightarrow> MergedChain s k = []" for k
    using merged_last(1) [OF assms(1), of k] by (simp add: find_def_def)
  then show ?thesis
    using r by (auto simp: map_of_key_image compact_kept_def compact_unsorted_def split: option.splits)
qed


section \<open>What the store promises to snapshots\<close>

lemma vcs_Append_cases:
  assumes inv: "vcs_inv s" and app: "vcs_Append s key lsn prev = (s', st)"
  shows "vcs_inv s' \<and> (status_ok st \<longleftrightarrow> key \<noteq> [] \<and> vcs_Head s key < lsn)
    \<and> MergedChain s' = (if status_ok st
         then (MergedChain s)(key := MergedChain s key @ [\<lparr>vn_lsn = lsn, vn_prev = prev\<rparr>])
         else MergedChain s)"
proof (cases "key \<noteq> [] \<and> vcs_Head s key < lsn")
  case True
  then have "0 < lsn" using word_gt_0 by fastforce
  moreover have "MergedChain s key = [] \<or> vn_lsn (last (MergedChain s key)) < lsn"
    using True vcs_Head_merged [OF inv, of key] by (cases "MergedChain s key = []") simp_all
  ultimately show ?thesis
    using vcs_Append_ok [OF inv, of key lsn prev] True app by (auto simp: status_defs fun_eq_iff)
next
  case False
  let ?chain = "find_def (vc_chains s) key"
  let ?s0 = "s\<lparr>vc_chains := AList.update key ?chain (vc_chains s)\<rparr>"
  have m0: "MergedChain ?s0 = MergedChain s"
    by (auto simp: fun_eq_iff MergedChain_def split: option.splits sum.splits)
  have inv0: "key \<noteq> [] \<Longrightarrow> vcs_inv ?s0"
    using inv by (auto simp: vcs_inv_def m0 distinct_update dom_update split: option.splits)
  have "lsn = 0 \<or> key = [] \<or> (?chain \<noteq> [] \<and> lsn \<le> vn_lsn (last ?chain))"
    using False merged_last [OF inv, of key] vcs_Head_merged [OF inv, of key] word_gt_0 [of lsn]
    by (auto simp: not_less split: if_splits)
  then have "s' = s \<and> \<not> status_ok st \<or> s' = ?s0 \<and> key \<noteq> [] \<and> \<not> status_ok st"
    using app by (auto simp: vcs_Append_def Let_def status_defs split: if_splits)
  then show ?thesis using False inv inv0 m0 by auto
qed

lemma CompactBelow_floor:
  assumes inv: "vcs_inv s" and pin: "lsn \<le> snap"
  shows "vcs_Floor (CompactBelow s lsn) key snap = vcs_Floor s key snap"
proof (cases "lsn = 0")
  case False
  let ?c = "MergedChain s key" and ?f = "vcs_Floor s key snap"
  let ?d = "compact_kept lsn (MergedChain s key)"
  have lsns: "vn_lsn ` set (MergedChain (CompactBelow s lsn) key) = vn_lsn ` set ?d"
    using CompactBelow_chain [OF inv False] map_lsn_relink [of 0 ?d]
    by (metis list.set_map)
  have sub: "set ?d \<subseteq> set ?c"
    by (rule compact_unsorted_cases [of lsn ?c]) (auto simp: compact_kept_set)
  have pinf: "foldl (floor_step lsn) 0 ?c = vcs_Floor s key lsn"
    by (simp add: vcs_Floor_Max floor_fold)
  have keep: "?f = 0 \<or> ?f \<in> vn_lsn ` set ?d"
  proof (cases "lsn \<le> ?f \<or> ?f = 0")
    case True
    have "n \<in> set ?d" if "n \<in> set ?c" "lsn \<le> vn_lsn n" for n
      by (rule compact_unsorted_cases [of lsn ?c]) (use that in auto)
    with True Floor_cases [of s key snap] show ?thesis by (metis imageI)
  next
    case low: False
    then obtain m where m: "m \<in> set ?c" "vn_lsn m = ?f" using Floor_cases [of s key snap] by auto
    have eq: "vcs_Floor s key lsn = ?f"
    proof (rule Floor_eqI)
      show "?f = 0 \<or> (\<exists>n\<in>set ?c. vn_lsn n = ?f \<and> ?f \<le> lsn)" using m low by force
      show "vn_lsn n \<le> ?f" if "n \<in> set ?c" "vn_lsn n \<le> lsn" for n
        using that pin Floor_ge [of n s key snap] by simp
    qed
    have "\<not> (\<exists>n \<in> set ?c. vn_lsn n = lsn)"
      using low Floor_ge [of _ s key snap] pin by force
    moreover have "foldl (floor_step lsn) 0 ?c = ?f" using eq pinf by simp
    ultimately have "?f \<in> vn_lsn ` set ?d"
      by (cases rule: compact_unsorted_cases [of lsn ?c]) (use low in auto)
    then show ?thesis ..
  qed
  show ?thesis
  proof (rule Floor_eqI)
    show "?f = 0 \<or> (\<exists>n\<in>set (MergedChain (CompactBelow s lsn) key). vn_lsn n = ?f \<and> ?f \<le> snap)"
      using keep Floor_le [of s key snap] unfolding lsns [symmetric] by auto
    fix n assume "n \<in> set (MergedChain (CompactBelow s lsn) key)" "vn_lsn n \<le> snap"
    moreover from this(1) obtain m where "m \<in> set ?c" "vn_lsn m = vn_lsn n"
      using lsns sub by (metis (no_types, lifting) image_iff subsetD)
    ultimately show "vn_lsn n \<le> ?f" using Floor_ge [of m s key snap] by simp
  qed
qed (simp add: CompactBelow_def)

datatype vcs_op = VAppend bytes u64 u64 | VCompact u64

text \<open>An operation a reader at \<open>snap\<close> cannot notice: newer versions, and pins below it.\<close>

fun unseen_by :: "u64 \<Rightarrow> vcs_op \<Rightarrow> bool" where
  "unseen_by snap (VAppend k lsn prev) \<longleftrightarrow> snap < lsn"
| "unseen_by snap (VCompact pin) \<longleftrightarrow> pin \<le> snap"

locale version_index =
  fixes inv :: "'s \<Rightarrow> bool"
    and append :: "'s \<Rightarrow> bytes \<Rightarrow> u64 \<Rightarrow> u64 \<Rightarrow> 's \<times> status"
    and compact :: "'s \<Rightarrow> u64 \<Rightarrow> 's"
    and floor_of :: "'s \<Rightarrow> bytes \<Rightarrow> u64 \<Rightarrow> u64"
  assumes append_inv: "inv s \<Longrightarrow> inv (fst (append s k lsn prev))"
    and compact_inv: "inv s \<Longrightarrow> inv (compact s pin)"
    and append_newer: "inv s \<Longrightarrow> snap < lsn \<Longrightarrow> floor_of (fst (append s k lsn prev)) k' snap = floor_of s k' snap"
    and append_own: "inv s \<Longrightarrow> status_ok (snd (append s k lsn prev)) \<Longrightarrow> lsn \<le> snap \<Longrightarrow>
        floor_of (fst (append s k lsn prev)) k snap = lsn"
    and compact_floor: "inv s \<Longrightarrow> pin \<le> snap \<Longrightarrow> floor_of (compact s pin) k snap = floor_of s k snap"
begin

fun apply_op :: "'s \<Rightarrow> vcs_op \<Rightarrow> 's" where
  "apply_op s (VAppend k lsn prev) = fst (append s k lsn prev)"
| "apply_op s (VCompact pin) = compact s pin"

lemma run_inv: "inv s \<Longrightarrow> inv (foldl apply_op s ops)"
proof (induction ops arbitrary: s)
  case (Cons a ops)
  then show ?case by (cases a) (simp_all add: append_inv compact_inv)
qed simp

lemma snapshot_stable:
  "inv s \<Longrightarrow> (\<forall>x \<in> set ops. unseen_by snap x) \<Longrightarrow>
   floor_of (foldl apply_op s ops) k snap = floor_of s k snap"
proof (induction ops arbitrary: s)
  case (Cons a ops)
  then show ?case
    by (cases a) (simp_all add: append_inv compact_inv append_newer compact_floor)
qed simp

lemma committed_read:
  assumes "inv s" "status_ok (snd (append s k lsn prev))" "\<forall>x \<in> set ops. unseen_by lsn x"
  shows "floor_of (foldl apply_op (fst (append s k lsn prev)) ops) k lsn = lsn"
  using snapshot_stable [OF append_inv [OF assms(1)] assms(3)] append_own [OF assms(1,2)] by simp

end

interpretation vix: version_index vcs_inv vcs_Append CompactBelow vcs_Floor
proof unfold_locales
  fix s k k' lsn prev snap pin
  assume inv: "vcs_inv s"
  obtain s' st where app: "vcs_Append s k lsn prev = (s', st)" by fastforce
  note r = vcs_Append_cases [OF inv app]
  show "vcs_inv (fst (vcs_Append s k lsn prev))" using r app by simp
  show "vcs_inv (CompactBelow s pin)"
    using inv CompactBelow_chain [OF inv, of pin] by (cases "pin = 0") (auto simp: CompactBelow_def)
  show "vcs_Floor (fst (vcs_Append s k lsn prev)) k' snap = vcs_Floor s k' snap" if "snap < lsn"
  proof -
    have "{n \<in> set (MergedChain s' k'). vn_lsn n \<le> snap} = {n \<in> set (MergedChain s k'). vn_lsn n \<le> snap}"
      using r that by auto
    then show ?thesis by (simp add: app vcs_Floor_Max)
  qed
  show "vcs_Floor (fst (vcs_Append s k lsn prev)) k snap = lsn"
    if "status_ok (snd (vcs_Append s k lsn prev))" "lsn \<le> snap"
  proof -
    have "asc (MergedChain s k @ [\<lparr>vn_lsn = lsn, vn_prev = prev\<rparr>])"
      using r that app by (auto simp: vcs_inv_def fun_upd_def split: if_splits)
    then show ?thesis
      using r that app by (intro Floor_eqI) (auto simp: asc_append order_less_imp_le)
  qed
  show "vcs_Floor (CompactBelow s pin) k snap = vcs_Floor s k snap" if "pin \<le> snap"
    by (rule CompactBelow_floor [OF inv that])
qed


text \<open>
  C38. \<open>Append\<close> accepts a version exactly when the key is non-empty and the LSN is above the
  head of the chain; then the merged chain, spilled nodes included, grows by exactly that
  node, and otherwise no chain changes. Spilling to the pager is never visible, and the
  invariant (chains ascending, at most eight nodes inline, older ones in the pager) is kept.
\<close>

theorem vcs_append_refines:
  assumes "vcs_inv s" "vcs_Append s key lsn prev = (s', st)"
  shows "vcs_inv s' \<and> (status_ok st \<longleftrightarrow> key \<noteq> [] \<and> vcs_Head s key < lsn)
    \<and> MergedChain s' = (if status_ok st
         then (MergedChain s)(key := MergedChain s key @ [\<lparr>vn_lsn = lsn, vn_prev = prev\<rparr>])
         else MergedChain s)"
  using assms by (rule vcs_Append_cases)

definition empty_pager :: vcs_pager where
  "empty_pager = \<lparr>vp_overflow = [], vp_nodes = [], vp_pages = (\<lambda>_. Inl (Status_IoError ''no page''))\<rparr>"

definition empty_vcs :: vcs where
  "empty_vcs = \<lparr>vc_chains = [], vc_pager = Some empty_pager\<rparr>"

lemma empty_vcs_inv: "vcs_inv empty_vcs" "MergedChain empty_vcs k = []"
  by (simp_all add: empty_vcs_def empty_pager_def vcs_inv_def pager_ok_def MergedChain_def
      LoadOverflow_def find_def_def kVcsInlineMax_def)

definition sample_vcs :: vcs where
  "sample_vcs = fst (vcs_Append (fst (vcs_Append (fst (vcs_Append empty_vcs [1] 3 0)) [1] 5 3)) [1] 9 5)"

lemma sample_vcs_inv: "vcs_inv sample_vcs"
  unfolding sample_vcs_def by (intro vix.append_inv empty_vcs_inv)

lemma sample_vcs_chain: "map vn_lsn (MergedChain sample_vcs [1]) = [3, 5, 9]"
  by code_simp

theorem vcs_append_refines_witness:
  "\<exists>s' st. vcs_Append empty_vcs [1] 5 0 = (s', st) \<and> status_ok st
     \<and> MergedChain s' [1] = [\<lparr>vn_lsn = 5, vn_prev = 0\<rparr>]"
proof -
  obtain s' st where a: "vcs_Append empty_vcs [1] 5 0 = (s', st)" by fastforce
  from vcs_append_refines [OF empty_vcs_inv(1) a] vcs_Head_merged [OF empty_vcs_inv(1), of "[1]"] a
  show ?thesis by (auto simp: empty_vcs_inv(2))
qed

text \<open>
  \<open>Floor\<close> returns the newest LSN of the chain that is not above the snapshot, 0 when
  there is none, and \<open>Head\<close> the newest LSN of all.
\<close>

theorem vcs_floor_spec:
  assumes "vcs_inv s"
  shows "vcs_Floor s key snap
      = Max (insert 0 {l. ContainsLsn s key l \<and> l \<le> snap})
    \<and> vcs_Head s key = vcs_Floor s key (- 1)"
proof -
  have "vn_lsn ` {n \<in> set (MergedChain s key). vn_lsn n \<le> snap} = {l. ContainsLsn s key l \<and> l \<le> snap}"
    by (auto simp: ContainsLsn_def)
  then show ?thesis using vcs_Head_Floor [OF assms] by (simp add: vcs_Floor_Max)
qed

theorem vcs_floor_spec_witness:
  "vcs_Floor sample_vcs [1] 8 = Max (insert 0 {l. ContainsLsn sample_vcs [1] l \<and> l \<le> 8})
   \<and> vcs_Floor sample_vcs [1] 8 = 5"
proof
  show "vcs_Floor sample_vcs [1] 8 = Max (insert 0 {l. ContainsLsn sample_vcs [1] l \<and> l \<le> 8})"
    by (rule conjunct1 [OF vcs_floor_spec [OF sample_vcs_inv]])
  show "vcs_Floor sample_vcs [1] 8 = 5" by code_simp
qed

text \<open>
  Snapshot stability: however many versions above a snapshot are appended (to any key)
  and however often the chains are compacted below pins at or under it, the version a reader
  at the snapshot is given for a key does not change, and a version just accepted is the one
  its own LSN reads.
\<close>

theorem vcs_snapshot_stable:
  assumes "vcs_inv s" "\<forall>x \<in> set ops. unseen_by snap x"
  shows "vcs_inv (foldl vix.apply_op s ops)
    \<and> vcs_Floor (foldl vix.apply_op s ops) key snap = vcs_Floor s key snap
    \<and> (status_ok (snd (vcs_Append s key snap prev)) \<longrightarrow>
         vcs_Floor (foldl vix.apply_op (fst (vcs_Append s key snap prev)) ops) key snap = snap)"
  using vix.run_inv [OF assms(1)] vix.snapshot_stable [OF assms] vix.committed_read [OF assms(1) _ assms(2)]
  by blast

theorem vcs_snapshot_stable_witness:
  "vcs_Floor (foldl vix.apply_op sample_vcs [VAppend [1] 11 9, VCompact 4]) [1] 8 = 5"
proof -
  have "vcs_Floor sample_vcs [1] 8 = 5" by code_simp
  then show ?thesis
    using vcs_snapshot_stable [OF sample_vcs_inv, of "[VAppend [1] 11 9, VCompact 4]" 8 "[1]"] by simp
qed

text \<open>
  \<open>CompactBelow\<close> drops exactly the versions that no snapshot at or above the pin can
  read: it keeps every version from the pin on and, below it, only the one the pin itself
  reads; the head of every chain survives.
\<close>

theorem compact_below_keeps:
  assumes inv: "vcs_inv s" and pin: "pin \<noteq> 0"
  shows "vcs_inv (CompactBelow s pin)
    \<and> (ContainsLsn (CompactBelow s pin) key l \<longleftrightarrow>
         ContainsLsn s key l \<and> (pin \<le> l \<or> l = vcs_Floor s key pin))
    \<and> vcs_Head (CompactBelow s pin) key = vcs_Head s key"
proof -
  let ?c = "MergedChain s key" and ?d = "compact_kept pin (MergedChain s key)"
  note inv' = CompactBelow_chain [OF inv pin, THEN conjunct1]
  have lsns: "vn_lsn ` set (MergedChain (CompactBelow s pin) key) = vn_lsn ` set ?d"
    using CompactBelow_chain [OF inv pin] map_lsn_relink [of 0 ?d] by (metis list.set_map)
  have f: "foldl (floor_step pin) 0 ?c = vcs_Floor s key pin" by (simp add: vcs_Floor_Max floor_fold)
  have pos: "0 < vn_lsn n" if "n \<in> set ?c" for n using inv that by (auto simp: vcs_inv_def asc_def)
  have "l \<in> vn_lsn ` set ?d \<longleftrightarrow> l \<in> vn_lsn ` set ?c \<and> (pin \<le> l \<or> l = vcs_Floor s key pin)"
  proof (cases rule: compact_unsorted_cases [of pin ?c])
    case all
    have "pin \<le> vn_lsn n" if "n \<in> set ?c" "vn_lsn n = vcs_Floor s key pin" for n
      using all(2) unfolding f
    proof
      assume "\<exists>m \<in> set ?c. vn_lsn m = pin"
      then show ?thesis using Floor_ge [of _ s key pin] that by auto
    qed (use pos that in fastforce)
    with all(1) show ?thesis by auto
  next
    case (pin n)
    then show ?thesis using f imageI [OF pin(2), of vn_lsn] by auto
  qed
  then have "ContainsLsn (CompactBelow s pin) key l \<longleftrightarrow>
      ContainsLsn s key l \<and> (pin \<le> l \<or> l = vcs_Floor s key pin)"
    using lsns by (auto simp: ContainsLsn_def image_iff eq_commute)
  moreover have "vcs_Head (CompactBelow s pin) key = vcs_Head s key"
    using vcs_Head_Floor [OF inv] vcs_Head_Floor [OF inv'] CompactBelow_floor [OF inv, of pin "- 1" key]
    by simp
  ultimately show ?thesis using inv' by blast
qed

theorem compact_below_keeps_witness:
  "ContainsLsn (CompactBelow sample_vcs 6) [1] 5 \<and> \<not> ContainsLsn (CompactBelow sample_vcs 6) [1] 3"
proof -
  have "vcs_Floor sample_vcs [1] 6 = 5" "ContainsLsn sample_vcs [1] 5" by code_simp+
  then show ?thesis
    using compact_below_keeps [OF sample_vcs_inv, of 6 "[1]" 5] compact_below_keeps [OF sample_vcs_inv, of 6 "[1]" 3]
    by simp
qed

end
