(* ===== verification/Codecs.thy ===== *)
theory Codecs
  imports Prelude
begin

text \<open>
  \<^verbatim>\<open>cpp/src/concept/codec\<close>: the value codecs, a byte-run packer (\<open>lz4_fast_codec.cc\<close>), the
  LZMA wire format (\<open>lzma_codec.cc\<close>), the legacy run-length decoder (\<open>value_codec.cc\<close>) and
  the choice between them (\<open>codec_registry.cc\<close>).

  The vendored LZMA library is the argument \<open>lib\<close>; \<open>lzma_sound\<close> states what its header
  promises, that decoding a coded buffer with the returned properties gives the buffer back.
\<close>

section \<open>Types\<close>

datatype value_codec = KRaw | KLegacyRle | KLz4Fast | KLzma7z | KZstdFast

datatype compress_policy = KOff | KFastOnly | KBalanced | KDense | KAuto

datatype lzma_preset = KFastValue | KPageBlock

record value_codec_result =
  vr_codec :: value_codec
  vr_payload :: bytes
  vr_uncompressed_size :: u32

record packed =
  pk_compressed :: bool
  pk_payload :: bytes
  pk_uncompressed_size :: u32

record compress_stats =
  cs_raw_total :: u64
  cs_lz4_fast_total :: u64
  cs_lzma_total :: u64
  cs_zstd_fast_total :: u64
  cs_bytes_saved :: u64

text \<open>
  \<open>LzmaCompress\<close> gets level, dictionary size, the room in the destination and the input and
  returns the coded bytes and the five property bytes; \<open>LzmaUncompress\<close> gets the
  properties, the room and the source. \<open>None\<close> is a return code other than \<open>SZ_OK\<close>.
\<close>

record lzma_lib =
  LzmaCompress :: "nat \<Rightarrow> nat \<Rightarrow> nat \<Rightarrow> bytes \<Rightarrow> (bytes \<times> bytes) option"
  LzmaUncompress :: "bytes \<Rightarrow> nat \<Rightarrow> bytes \<Rightarrow> bytes option"

definition lzma_sound :: "lzma_lib \<Rightarrow> bool" where
  "lzma_sound lib \<longleftrightarrow> (\<forall>level dict room x c props. LzmaCompress lib level dict room x = Some (c, props)
     \<longrightarrow> length props = 5 \<and> LzmaUncompress lib props (length x) c = Some x)"

section \<open>The byte-run packer\<close>

definition kLz4FastMagic :: u8 where "kLz4FastMagic = 0xF4"

definition PackWire :: "u32 \<Rightarrow> bytes \<Rightarrow> bytes" where
  "PackWire usize body = put_u32 usize @ body"

text \<open>The scan for the longest run; an equal later run does not replace an earlier one.\<close>

function best_run :: "bytes \<Rightarrow> nat \<Rightarrow> nat \<Rightarrow> nat \<Rightarrow> nat \<times> nat" where
  "best_run [] i run start = (run, start)"
| "best_run (b # bs) i run start =
    (let r = Suc (length (takeWhile ((=) b) bs)) in
     best_run (dropWhile ((=) b) bs) (i + r) (if run < r then r else run) (if run < r then i else start))"
  by pat_completeness auto
termination
  by (relation "measure (\<lambda>(bs, _). length bs)") (auto simp: length_dropWhile_le less_Suc_eq_le)

definition Lz4FastCompress :: "bytes \<Rightarrow> packed" where
  "Lz4FastCompress inp =
    (let usize = word_of_nat (length inp) :: u32;
         raw = \<lparr>pk_compressed = False, pk_payload = inp, pk_uncompressed_size = usize\<rparr> in
     if length inp < 16 then raw
     else
      (let (run, start) = best_run inp 0 1 0 in
       if run < 16 then raw
       else
        (let body = [kLz4FastMagic, inp ! start] @ put_u32 (word_of_nat run);
             wire = PackWire usize body in
         if length inp \<le> length wire then raw
         else \<lparr>pk_compressed = True, pk_payload = wire, pk_uncompressed_size = usize\<rparr>)))"

definition Lz4FastDecompress :: "bytes \<Rightarrow> u32 \<Rightarrow> bytes res" where
  "Lz4FastDecompress payload uncompressed_size =
    (if length payload < 4 then Inl (Status_CorruptPage ''lz4fast trunc'')
     else
      (let usize = get_u32 payload; body = drop 4 payload in
       if usize \<noteq> uncompressed_size then Inl (Status_CorruptPage ''lz4fast size mismatch'')
       else if length body < 6 \<or> body ! 0 \<noteq> kLz4FastMagic
       then Inl (Status_CorruptPage ''lz4fast bad magic'')
       else
        (let fill = body ! 1; run_len = get_u32 (drop 2 body) in
         if run_len = 0 \<or> usize < run_len then Inl (Status_CorruptPage ''lz4fast bad run'')
         else Inr (replicate (unat usize) fill))))"

section \<open>The LZMA wire format\<close>

definition kLzmaPropsSize :: nat where "kLzmaPropsSize = 5"

definition GetPresetParams :: "lzma_preset \<Rightarrow> nat \<times> nat" where
  "GetPresetParams p = (case p of KPageBlock \<Rightarrow> (5, 2 ^ 20) | KFastValue \<Rightarrow> (1, 2 ^ 18))"

definition PackLzmaPayload :: "bytes \<Rightarrow> u32 \<Rightarrow> bytes \<Rightarrow> bytes" where
  "PackLzmaPayload compressed usize props = put_u32 usize @ props @ compressed"

definition LzmaCompressPreset :: "lzma_lib \<Rightarrow> lzma_preset \<Rightarrow> bytes \<Rightarrow> packed res" where
  "LzmaCompressPreset lib preset inp =
    (let usize = word_of_nat (length inp) :: u32;
         raw = \<lparr>pk_compressed = False, pk_payload = inp, pk_uncompressed_size = usize\<rparr> in
     if inp = [] then Inr raw
     else
      (let (level, dict) = GetPresetParams preset;
           room = length inp + length inp div 3 + 128 in
       case LzmaCompress lib level dict room inp of
         None \<Rightarrow> Inl (Status_Internal ''LzmaCompress failed'')
       | Some (compressed, props) \<Rightarrow>
          (let wire = PackLzmaPayload compressed usize props in
           if length inp \<le> length wire then Inr raw
           else Inr \<lparr>pk_compressed = True, pk_payload = wire, pk_uncompressed_size = usize\<rparr>)))"

definition LzmaDecompressPayload :: "lzma_lib \<Rightarrow> bytes \<Rightarrow> u32 \<Rightarrow> bytes res" where
  "LzmaDecompressPayload lib payload uncompressed_size =
    (if length payload < 4 + kLzmaPropsSize then Inl (Status_CorruptPage ''lzma payload trunc'')
     else if get_u32 payload \<noteq> uncompressed_size then Inl (Status_CorruptPage ''lzma size mismatch'')
     else
      (let props = slice 4 kLzmaPropsSize payload; src = drop (4 + kLzmaPropsSize) payload in
       case LzmaUncompress lib props (unat uncompressed_size) src of
         None \<Rightarrow> Inl (Status_CorruptPage ''lzma decompress failed'')
       | Some dest \<Rightarrow>
          (if length dest \<noteq> unat uncompressed_size
           then Inl (Status_CorruptPage ''lzma decompress failed'')
           else Inr dest)))"

section \<open>The registry\<close>

definition RecordCompressChoice :: "value_codec \<Rightarrow> nat \<Rightarrow> nat \<Rightarrow> compress_stats \<Rightarrow> compress_stats" where
  "RecordCompressChoice codec raw_len wire_len st =
    (let st1 = (case codec of
          KLz4Fast \<Rightarrow> st\<lparr>cs_lz4_fast_total := cs_lz4_fast_total st + 1\<rparr>
        | KLzma7z \<Rightarrow> st\<lparr>cs_lzma_total := cs_lzma_total st + 1\<rparr>
        | KZstdFast \<Rightarrow> st\<lparr>cs_zstd_fast_total := cs_zstd_fast_total st + 1\<rparr>
        | _ \<Rightarrow> st\<lparr>cs_raw_total := cs_raw_total st + 1\<rparr>)
     in if wire_len < raw_len
        then st1\<lparr>cs_bytes_saved := cs_bytes_saved st1 + word_of_nat (raw_len - wire_len)\<rparr> else st1)"

text \<open>\<open>TryLzmaFast\<close> leaves the default result, codec raw, when nothing was gained.\<close>

definition TryLzmaFast :: "lzma_lib \<Rightarrow> bytes \<Rightarrow> value_codec_result res" where
  "TryLzmaFast lib inp =
    (case LzmaCompressPreset lib KFastValue inp of
      Inl st \<Rightarrow> Inl st
    | Inr lz \<Rightarrow>
       (if \<not> pk_compressed lz then Inr \<lparr>vr_codec = KRaw, vr_payload = [], vr_uncompressed_size = 0\<rparr>
        else Inr \<lparr>vr_codec = KLzma7z, vr_payload = pk_payload lz,
                  vr_uncompressed_size = pk_uncompressed_size lz\<rparr>))"

definition chosen :: "bytes \<Rightarrow> value_codec_result \<Rightarrow> compress_stats \<Rightarrow> value_codec_result \<times> compress_stats" where
  "chosen inp r st = (r, RecordCompressChoice (vr_codec r) (length inp) (length (vr_payload r)) st)"

definition try_fast :: "bytes \<Rightarrow> compress_policy \<Rightarrow> value_codec_result option" where
  "try_fast inp policy =
    (if policy = KFastOnly \<or> policy = KBalanced \<or> policy = KAuto then
       (let fast = Lz4FastCompress inp in
        if pk_compressed fast \<and> length (pk_payload fast) < length inp
        then Some \<lparr>vr_codec = KLz4Fast, vr_payload = pk_payload fast,
                   vr_uncompressed_size = pk_uncompressed_size fast\<rparr>
        else None)
     else None)"

definition try_lzma :: "lzma_lib \<Rightarrow> bytes \<Rightarrow> compress_policy \<Rightarrow> value_codec_result option" where
  "try_lzma lib inp policy =
    (if policy = KBalanced \<or> policy = KDense \<or> policy = KAuto then
       (case TryLzmaFast lib inp of
          Inl _ \<Rightarrow> None
        | Inr lz \<Rightarrow>
           (if vr_codec lz = KLzma7z \<and> length (vr_payload lz) < length inp
            then Some (if policy = KBalanced then lz\<lparr>vr_codec := KZstdFast\<rparr> else lz)
            else None))
     else None)"

definition try_dense :: "lzma_lib \<Rightarrow> bytes \<Rightarrow> compress_policy \<Rightarrow> value_codec_result option" where
  "try_dense lib inp policy =
    (if policy = KDense then
       (case TryLzmaFast lib inp of
          Inl _ \<Rightarrow> None
        | Inr lz \<Rightarrow> (if vr_codec lz = KLzma7z then Some lz else None))
     else None)"

definition Registry_CompressValue ::
  "lzma_lib \<Rightarrow> bytes \<Rightarrow> compress_policy \<Rightarrow> bool \<Rightarrow> compress_stats \<Rightarrow> value_codec_result \<times> compress_stats" where
  "Registry_CompressValue lib inp policy enable st =
    (let raw = \<lparr>vr_codec = KRaw, vr_payload = inp, vr_uncompressed_size = word_of_nat (length inp)\<rparr> in
     if \<not> enable \<or> policy = KOff \<or> length inp < 64 then (raw, st)
     else case try_fast inp policy of
       Some r \<Rightarrow> chosen inp r st
     | None \<Rightarrow>
        (case try_lzma lib inp policy of
          Some r \<Rightarrow> chosen inp r st
        | None \<Rightarrow>
           (case try_dense lib inp policy of
             Some r \<Rightarrow> chosen inp r st
           | None \<Rightarrow> (raw, st))))"

definition Registry_DecompressValue :: "lzma_lib \<Rightarrow> value_codec \<Rightarrow> bytes \<Rightarrow> u32 \<Rightarrow> bytes res" where
  "Registry_DecompressValue lib codec payload uncompressed_size =
    (case codec of
      KRaw \<Rightarrow> Inr payload
    | KLz4Fast \<Rightarrow> Lz4FastDecompress payload uncompressed_size
    | KZstdFast \<Rightarrow> LzmaDecompressPayload lib payload uncompressed_size
    | KLzma7z \<Rightarrow> LzmaDecompressPayload lib payload uncompressed_size
    | KLegacyRle \<Rightarrow> Inl (Status_InvalidArgument ''legacy rle via registry''))"

section \<open>The legacy decoder\<close>

definition kEsc :: u8 where "kEsc = 0xFF"

text \<open>The loop of \<open>SimpleDecompress\<close>; \<open>acc\<close> is the output so far, one group per turn.\<close>

function rle_loop :: "bytes \<Rightarrow> nat \<Rightarrow> bytes \<Rightarrow> bytes res" where
  "rle_loop payload expected acc =
    (if payload = [] \<or> expected \<le> length acc then
       (if length acc \<noteq> expected then Inl (Status_CorruptPage ''value codec size mismatch'')
        else Inr acc)
     else if payload ! 0 \<noteq> kEsc then Inl (Status_CorruptPage ''value codec corrupt'')
     else if length payload < 2 then Inl (Status_CorruptPage ''value codec trunc'')
     else
      (let tag = unat (payload ! 1); rest = drop 2 payload in
       if 4 \<le> tag \<and> rest \<noteq> []
       then rle_loop (drop 1 rest) expected (acc @ replicate tag (rest ! 0))
       else if length rest < tag then Inl (Status_CorruptPage ''value codec literal trunc'')
       else rle_loop (drop tag rest) expected (acc @ take tag rest)))"
  by pat_completeness auto
termination
  by (relation "measure (\<lambda>(p, _). length p)") auto

definition SimpleDecompress :: "bytes \<Rightarrow> u32 \<Rightarrow> bytes res" where
  "SimpleDecompress payload expected = rle_loop payload (unat expected) []"

definition CompressValue ::
  "lzma_lib \<Rightarrow> bytes \<Rightarrow> bool \<Rightarrow> compress_stats \<Rightarrow> value_codec_result \<times> compress_stats" where
  "CompressValue lib inp enable st =
     Registry_CompressValue lib inp (if enable then KBalanced else KOff) enable st"

definition DecompressValue :: "lzma_lib \<Rightarrow> value_codec \<Rightarrow> bytes \<Rightarrow> u32 \<Rightarrow> bytes res" where
  "DecompressValue lib codec payload uncompressed_size =
    (if codec = KLegacyRle then SimpleDecompress payload uncompressed_size
     else Registry_DecompressValue lib codec payload uncompressed_size)"

declare rle_loop.simps [simp del]


section \<open>What the codecs give back\<close>

lemma run_split: "Suc (length (takeWhile P bs)) + length (dropWhile P bs) = Suc (length bs)"
  by (metis add_Suc length_append takeWhile_dropWhile_id)

lemma best_run_start:
  "start < n \<Longrightarrow> i + length bs \<le> n \<Longrightarrow> snd (best_run bs i run start) < n"
proof (induction bs i run start rule: best_run.induct)
  case (2 b bs i run start)
  show ?case using 2 run_split [of "(=) b" bs] by (auto simp: Let_def)
qed simp

lemma best_run_le:
  "run \<le> n \<Longrightarrow> length bs \<le> n \<Longrightarrow> fst (best_run bs i run start) \<le> n"
proof (induction bs i run start rule: best_run.induct)
  case (2 b bs i run start)
  show ?case using 2 run_split [of "(=) b" bs] by (auto simp: Let_def)
qed simp

lemma unat_word_of_nat_32: "n < 2 ^ 32 \<Longrightarrow> unat (word_of_nat n :: u32) = n"
  by (simp add: unat_of_nat)

text \<open>The packer keeps one byte and the length: unpacking gives a constant string.\<close>

lemma Lz4Fast_unpack:
  assumes "pk_compressed (Lz4FastCompress inp)" "length inp < 2 ^ 32"
  shows "\<exists>i < length inp. Lz4FastDecompress (pk_payload (Lz4FastCompress inp))
      (pk_uncompressed_size (Lz4FastCompress inp)) = Inr (replicate (length inp) (inp ! i))"
proof -
  obtain run start where br: "best_run inp 0 (Suc 0) 0 = (run, start)" by fastforce
  from assms have n: "16 \<le> length inp" "16 \<le> run"
    by (auto simp: Lz4FastCompress_def Let_def br split: if_splits)
  have st: "start < length inp" using best_run_start [of 0 "length inp" 0 inp 1] n br by fastforce
  have "run \<le> length inp" using best_run_le [of 1 "length inp" inp 0 0] n br by simp
  with n assms(2) have r: "(word_of_nat run :: u32) \<noteq> 0" "(word_of_nat run :: u32) \<le> word_of_nat (length inp)"
    by (auto simp: word_le_nat_alt unat_word_of_nat_32 unat_eq_zero [symmetric])
  have "pk_payload (Lz4FastCompress inp) = put_u32 (word_of_nat (length inp))
      @ kLz4FastMagic # inp ! start # put_u32 (word_of_nat run)"
    "pk_uncompressed_size (Lz4FastCompress inp) = word_of_nat (length inp)"
    using assms(1) by (auto simp: Lz4FastCompress_def Let_def br PackWire_def split: if_splits)
  then have "Lz4FastDecompress (pk_payload (Lz4FastCompress inp)) (pk_uncompressed_size (Lz4FastCompress inp))
      = Inr (replicate (length inp) (inp ! start))"
    using r assms(2) by (simp add: Lz4FastDecompress_def Let_def unat_word_of_nat_32 not_less)
  with st show ?thesis by blast
qed

lemma constant_iff: "i < length xs \<Longrightarrow> replicate (length xs) (xs ! i) = xs \<longleftrightarrow> (\<forall>x \<in> set xs. x = xs ! i)"
  by (metis in_set_replicate list_eq_iff_nth_eq nth_mem nth_replicate length_replicate)

lemma constant_any: "i < length xs \<Longrightarrow> (\<forall>x \<in> set xs. x = xs ! i) \<longleftrightarrow> (\<forall>x \<in> set xs. \<forall>y \<in> set xs. x = y)"
  by (metis nth_mem)

lemma Lzma_unpack:
  assumes "lzma_sound lib" "LzmaCompressPreset lib preset inp = Inr lz" "pk_compressed lz" "length inp < 2 ^ 32"
  shows "LzmaDecompressPayload lib (pk_payload lz) (pk_uncompressed_size lz) = Inr inp"
proof -
  obtain level dict where pp: "GetPresetParams preset = (level, dict)" by fastforce
  from assms(2,3) obtain c props where c: "LzmaCompress lib level dict (length inp + length inp div 3 + 128) inp = Some (c, props)"
    "lz = \<lparr>pk_compressed = True, pk_payload = PackLzmaPayload c (word_of_nat (length inp)) props,
           pk_uncompressed_size = word_of_nat (length inp)\<rparr>"
    by (auto simp: LzmaCompressPreset_def Let_def pp split: if_splits option.splits)
  with assms(1) have "length props = 5" "LzmaUncompress lib props (length inp) c = Some inp"
    by (auto simp: lzma_sound_def)
  then show ?thesis
    using assms(4) by (simp add: LzmaDecompressPayload_def PackLzmaPayload_def kLzmaPropsSize_def slice_def
        c(2) unat_word_of_nat_32)
qed

text \<open>The result of the registry by the codec it names.\<close>

definition unpacks_to :: "lzma_lib \<Rightarrow> value_codec_result \<Rightarrow> bytes \<Rightarrow> bool" where
  "unpacks_to lib r v \<longleftrightarrow> DecompressValue lib (vr_codec r) (vr_payload r) (vr_uncompressed_size r) = Inr v"

lemma try_fast_unpack:
  assumes "try_fast inp policy = Some r" "length inp < 2 ^ 32"
  shows "vr_codec r = KLz4Fast \<and> (\<exists>i < length inp. unpacks_to lib r (replicate (length inp) (inp ! i)))"
  using assms Lz4Fast_unpack [of inp]
  by (auto simp: try_fast_def unpacks_to_def DecompressValue_def Registry_DecompressValue_def Let_def
      split: if_splits)

lemma TryLzmaFast_unpack:
  assumes "lzma_sound lib" "TryLzmaFast lib inp = Inr r" "vr_codec r = KLzma7z" "length inp < 2 ^ 32"
  shows "LzmaDecompressPayload lib (vr_payload r) (vr_uncompressed_size r) = Inr inp"
  using assms Lzma_unpack [OF assms(1) _ _ assms(4)]
  by (auto simp: TryLzmaFast_def split: sum.splits if_splits)

lemma lzma_results:
  assumes "lzma_sound lib" "try_lzma lib inp policy = Some r \<or> try_dense lib inp policy = Some r"
    and "length inp < 2 ^ 32"
  shows "unpacks_to lib r inp \<and> vr_codec r \<noteq> KLz4Fast"
  using assms TryLzmaFast_unpack [OF assms(1) _ _ assms(3)]
  by (auto simp: try_lzma_def try_dense_def unpacks_to_def DecompressValue_def Registry_DecompressValue_def
      split: sum.splits if_splits)

lemma Registry_cases:
  assumes "lzma_sound lib" "length inp < 2 ^ 32" "Registry_CompressValue lib inp policy enable st = (r, st')"
  shows "vr_codec r \<noteq> KLz4Fast \<and> unpacks_to lib r inp
    \<or> vr_codec r = KLz4Fast \<and> policy \<noteq> KDense \<and> (\<exists>i < length inp. unpacks_to lib r (replicate (length inp) (inp ! i)))"
proof -
  have raw: "unpacks_to lib \<lparr>vr_codec = KRaw, vr_payload = inp, vr_uncompressed_size = word_of_nat (length inp)\<rparr> inp"
    by (simp add: unpacks_to_def DecompressValue_def Registry_DecompressValue_def)
  have "try_fast inp policy = Some r \<Longrightarrow> policy \<noteq> KDense" by (auto simp: try_fast_def)
  with assms(3) raw try_fast_unpack [OF _ assms(2), of policy r lib] lzma_results [OF assms(1) _ assms(2), of policy r]
  show ?thesis
    by (auto simp: Registry_CompressValue_def Let_def chosen_def split: if_splits option.splits)
qed

text \<open>
  What compression gives back. With a sound LZMA library, the dense policy (and raw
  storage) is lossless. When the byte-run packer is chosen the value comes back as a constant
  string, so it is recovered exactly when all its bytes are equal.
\<close>

theorem compress_value_recovers:
  assumes "lzma_sound lib" "length inp < 2 ^ 32" "Registry_CompressValue lib inp policy enable st = (r, st')"
  shows "(vr_codec r \<noteq> KLz4Fast \<longrightarrow> unpacks_to lib r inp) \<and> (policy = KDense \<longrightarrow> unpacks_to lib r inp)
    \<and> (vr_codec r = KLz4Fast \<longrightarrow>
        (unpacks_to lib r inp \<longleftrightarrow> (\<forall>x \<in> set inp. \<forall>y \<in> set inp. x = y)))"
  using Registry_cases [OF assms]
proof (elim disjE conjE exE)
  fix i assume i: "i < length inp" "vr_codec r = KLz4Fast" "policy \<noteq> KDense"
    "unpacks_to lib r (replicate (length inp) (inp ! i))"
  then have "unpacks_to lib r inp \<longleftrightarrow> replicate (length inp) (inp ! i) = inp"
    by (auto simp: unpacks_to_def)
  with i show ?thesis by (simp add: constant_iff constant_any)
qed simp

definition no_lzma :: lzma_lib where
  "no_lzma = \<lparr>LzmaCompress = (\<lambda>_ _ _ _. None), LzmaUncompress = (\<lambda>_ _ _. None)\<rparr>"

definition stats_zero :: compress_stats where
  "stats_zero = \<lparr>cs_raw_total = 0, cs_lz4_fast_total = 0, cs_lzma_total = 0, cs_zstd_fast_total = 0,
     cs_bytes_saved = 0\<rparr>"

definition lossy_input :: bytes where "lossy_input = replicate 60 0 @ [1, 2, 3, 4]"

text \<open>
  The default path of \<open>CompressValue\<close> (the balanced policy) is lossy: a 64-byte value
  that ends differently from its longest run is stored in ten bytes and read back as 64
  equal bytes, with status ok at both ends.
\<close>

theorem compress_value_loses_data:
  "(let (r, st) = CompressValue no_lzma lossy_input True stats_zero
    in vr_codec r = KLz4Fast \<and> length (vr_payload r) = 10
     \<and> DecompressValue no_lzma (vr_codec r) (vr_payload r) (vr_uncompressed_size r) = Inr (replicate 64 0))
   \<and> lossy_input \<noteq> replicate 64 0"
  by code_simp

theorem compress_value_recovers_witness:
  "\<not> unpacks_to no_lzma (fst (CompressValue no_lzma lossy_input True stats_zero)) lossy_input"
proof -
  obtain r st where r: "Registry_CompressValue no_lzma lossy_input KBalanced True stats_zero = (r, st)"
    by fastforce
  have "vr_codec (fst (Registry_CompressValue no_lzma lossy_input KBalanced True stats_zero)) = KLz4Fast"
    by code_simp
  moreover have "lzma_sound no_lzma" by (simp add: lzma_sound_def no_lzma_def)
  ultimately show ?thesis
    using compress_value_recovers [OF _ _ r] r by (simp add: CompressValue_def lossy_input_def)
qed


lemma rle_loop_length: "rle_loop payload expected acc = Inr v \<Longrightarrow> length v = expected"
proof (induction payload expected acc rule: rle_loop.induct)
  case (1 payload expected acc)
  note ih = 1
  show ?case
  proof (cases "payload = [] \<or> expected \<le> length acc")
    case True
    then show ?thesis using ih(3) by (subst (asm) rle_loop.simps) (auto split: if_splits)
  next
    case False
    with ih(3) have g: "payload ! 0 = kEsc" "\<not> length payload < 2"
      by (auto simp: rle_loop.simps [of payload] split: if_splits)
    show ?thesis
      using ih(3) ih(1,2) [OF False _ g(2) refl refl] False g
      by (auto simp: rle_loop.simps [of payload] Let_def split: if_splits)
  qed
qed

text \<open>
  Whatever bytes a decoder is given, if it succeeds the value has exactly the declared
  length; only raw storage ignores the declaration.
\<close>

theorem decompress_declared_size:
  assumes "DecompressValue lib codec payload n = Inr v" "codec \<noteq> KRaw"
  shows "length v = unat n"
  using assms
  by (cases codec)
     (auto simp: DecompressValue_def Registry_DecompressValue_def SimpleDecompress_def Lz4FastDecompress_def
       LzmaDecompressPayload_def Let_def dest: rle_loop_length split: if_splits option.splits)

theorem decompress_declared_size_witness:
  "DecompressValue no_lzma KLegacyRle [0xFF, 5, 9, 0xFF, 2, 7, 8] 7 = Inr [9, 9, 9, 9, 9, 7, 8]
   \<and> length [9, 9, 9, 9, 9, 7, 8 :: u8] = unat (7 :: u32)"
proof -
  have d: "DecompressValue no_lzma KLegacyRle [0xFF, 5, 9, 0xFF, 2, 7, 8] 7 = Inr [9, 9, 9, 9, 9, 7, 8]"
    by code_simp
  with decompress_declared_size [OF d] show ?thesis by simp
qed

end
