(* ===== verification/DataRecords.thy ===== *)
theory DataRecords
  imports Crc32 Codecs "HOL-Library.AList"
begin

text \<open>
  \<^verbatim>\<open>cpp/src/concept/datafile\<close>: the append-only data file of one shard, its LSN index and
  the readers. A record is a 20-byte header, the key and the stored value. The header's
  checksum covers the header only. File and view offsets are natural numbers.

  \<open>datafile\<close> is the object with the content of its file. The \<open>EngineStats\<close> counters, the
  stream handles and the memory-mapped variants of the readers are not modelled.
\<close>

section \<open>Headers\<close>

record data_header =
  dh_lsn :: u64
  dh_key_len :: u16
  dh_value_len :: u16
  dh_deleted :: u8
  dh_reserved0 :: u8
  dh_reserved1 :: u8
  dh_reserved2 :: u8
  dh_record_crc :: u32

definition kHeaderSize :: nat where "kHeaderSize = 20"

definition hdr_body :: "data_header \<Rightarrow> bytes" where
  "hdr_body h = put_u64 (dh_lsn h) @ put_u16 (dh_key_len h) @ put_u16 (dh_value_len h)
     @ [dh_deleted h, dh_reserved0 h, dh_reserved1 h, dh_reserved2 h]"

definition enc_hdr :: "data_header \<Rightarrow> bytes" where
  "enc_hdr h = hdr_body h @ put_u32 (dh_record_crc h)"

definition read_hdr :: "bytes \<Rightarrow> data_header" where
  "read_hdr bs = \<lparr>dh_lsn = get_u64 bs, dh_key_len = get_u16 (drop 8 bs), dh_value_len = get_u16 (drop 10 bs),
     dh_deleted = bs ! 12, dh_reserved0 = bs ! 13, dh_reserved1 = bs ! 14, dh_reserved2 = bs ! 15,
     dh_record_crc = get_u32 (drop 16 bs)\<rparr>"

definition hdr_crc_ok :: "data_header \<Rightarrow> bool" where
  "hdr_crc_ok h \<longleftrightarrow> dh_record_crc h = Crc32 (hdr_body h)"

definition RecordCodec :: "data_header \<Rightarrow> u8" where
  "RecordCodec h = (let wire = dh_reserved0 h in
     if wire \<le> 1 \<or> wire = 2 \<or> wire = 3 \<or> wire = 4 then wire else 0)"

definition RecordGeneration :: "data_header \<Rightarrow> u8" where
  "RecordGeneration h = (let codec = RecordCodec h in
     if (codec \<le> 1 \<or> codec = 2 \<or> codec = 3 \<or> codec = 4) \<and> (dh_reserved1 h \<noteq> 0 \<or> dh_reserved2 h \<noteq> 0)
     then dh_reserved1 h
     else if codec \<le> 1 then 0 else dh_reserved0 h)"

definition decode_fail :: status where
  "decode_fail = Status_CorruptPage ''datafile decompress failed''"

definition decode_with :: "lzma_lib \<Rightarrow> value_codec \<Rightarrow> bytes \<Rightarrow> bytes \<Rightarrow> bytes res" where
  "decode_with lib codec payload src =
    (if length payload < 4 then Inl decode_fail
     else case DecompressValue lib codec src (get_u32 payload) of Inl _ \<Rightarrow> Inl decode_fail | Inr v \<Rightarrow> Inr v)"

definition DecodeRecordValue :: "lzma_lib \<Rightarrow> data_header \<Rightarrow> bytes \<Rightarrow> bytes res" where
  "DecodeRecordValue lib h payload =
    (let wire = RecordCodec h in
     if payload \<noteq> [] \<and> wire = 1 then decode_with lib KLegacyRle payload (drop 4 payload)
     else if payload \<noteq> [] \<and> wire = 3 then decode_with lib KLzma7z payload payload
     else if payload \<noteq> [] \<and> (wire = 2 \<or> wire = 4)
     then decode_with lib (if wire = 2 then KLz4Fast else KZstdFast) payload payload
     else Inr payload)"

section \<open>The LSN index\<close>

type_synonym lsn_index = "(u64 \<times> nat) list"

definition kDidxMagic :: u64 where "kDidxMagic = 0xEB444958414445"

definition idx_Update :: "nat \<Rightarrow> u64 \<Rightarrow> lsn_index \<Rightarrow> lsn_index" where
  "idx_Update offset lsn ix = AList.update lsn offset ix"

definition idx_Lookup :: "lsn_index \<Rightarrow> u64 \<Rightarrow> nat option" where
  "idx_Lookup ix lsn = map_of ix lsn"

text \<open>
  The scan of \<open>BuildFromFile\<close>: the index is updated as soon as the header was read, whether
  or not the key and value that follow are complete; the loop then stops.
\<close>

fun build_loop :: "nat \<Rightarrow> bytes \<Rightarrow> nat \<Rightarrow> lsn_index \<Rightarrow> lsn_index" where
  "build_loop 0 bs offset ix = ix"
| "build_loop (Suc fuel) bs offset ix =
    (if length bs < kHeaderSize then ix
     else
      (let h = read_hdr bs;
           n = kHeaderSize + unat (dh_key_len h) + unat (dh_value_len h);
           ix' = idx_Update offset (dh_lsn h) ix
       in if length bs < n then ix' else build_loop fuel (drop n bs) (offset + n) ix'))"

definition BuildFromFile :: "bytes option \<Rightarrow> lsn_index" where
  "BuildFromFile fo = (case fo of None \<Rightarrow> [] | Some fb \<Rightarrow> build_loop (length fb) fb 0 [])"

definition enc_didx :: "lsn_index \<Rightarrow> bytes" where
  "enc_didx ix = put_u64 kDidxMagic @ put_u64 (word_of_nat (length ix))
     @ concat (map (\<lambda>(lsn, off). put_u64 lsn @ put_u64 (word_of_nat off)) ix)"

fun didx_entries :: "nat \<Rightarrow> bytes \<Rightarrow> lsn_index \<Rightarrow> lsn_index res" where
  "didx_entries 0 bs ix = Inr ix"
| "didx_entries (Suc n) bs ix =
    (if length bs < 16 then Inl (Status_CorruptPage ''truncated didx entry'')
     else didx_entries n (drop 16 bs) (idx_Update (unat (get_u64 (drop 8 bs))) (get_u64 bs) ix))"

definition didx_LoadFromFile :: "bytes option \<Rightarrow> lsn_index res" where
  "didx_LoadFromFile fo =
    (case fo of
      None \<Rightarrow> Inl (Status_NotFound ''didx missing'')
    | Some bs \<Rightarrow>
       (if length bs < 8 then Inl (Status_CorruptPage ''truncated didx'')
        else if get_u64 bs \<noteq> kDidxMagic then Inl (Status_CorruptPage ''bad didx magic'')
        else if length bs < 16 then Inl (Status_CorruptPage ''truncated didx header'')
        else didx_entries (unat (get_u64 (drop 8 bs))) (drop 16 bs) []))"

section \<open>The data file\<close>

record datafile =
  df_bytes :: "bytes option"
  df_compress :: bool
  df_policy :: compress_policy
  df_choices :: compress_stats
  df_index :: lsn_index

definition df_content :: "datafile \<Rightarrow> bytes" where
  "df_content df = (case df_bytes df of None \<Rightarrow> [] | Some b \<Rightarrow> b)"

definition df_FileSize :: "datafile \<Rightarrow> nat" where
  "df_FileSize df = length (df_content df)"

text \<open>The codec byte and stored value that \<open>Append\<close> chooses.\<close>

definition stored_form ::
  "lzma_lib \<Rightarrow> datafile \<Rightarrow> bytes \<Rightarrow> bool \<Rightarrow> u8 \<times> bytes \<times> compress_stats" where
  "stored_form lib df val deleted =
    (if \<not> deleted \<and> df_compress df \<and> val \<noteq> [] then
      (let (cr, st) = Registry_CompressValue lib val (df_policy df) (df_compress df) (df_choices df) in
       if vr_codec cr \<noteq> KRaw then
         ((case vr_codec cr of KLz4Fast \<Rightarrow> 2 | KLzma7z \<Rightarrow> 3 | KZstdFast \<Rightarrow> 4 | _ \<Rightarrow> 0), vr_payload cr, st)
       else (0, val, st))
     else (0, val, df_choices df))"

definition record_header :: "u64 \<Rightarrow> bytes \<Rightarrow> bytes \<Rightarrow> bool \<Rightarrow> u8 \<Rightarrow> u8 \<Rightarrow> data_header" where
  "record_header lsn key stored deleted codec generation =
    (let h = \<lparr>dh_lsn = lsn, dh_key_len = word_of_nat (length key), dh_value_len = word_of_nat (length stored),
       dh_deleted = (if deleted then 1 else 0), dh_reserved0 = codec, dh_reserved1 = generation,
       dh_reserved2 = 0, dh_record_crc = 0\<rparr>
     in h\<lparr>dh_record_crc := Crc32 (hdr_body h)\<rparr>)"

text \<open>
  \<open>Append\<close>, seen from the file: a write that is accepted is in it at once. The error state of the stream, which
  makes every append of the same process fail after a failed one, is not part of the model, so a model run that goes on
  after a failed append is one in which the data file was opened again.
\<close>

definition df_Append ::
  "fault \<Rightarrow> lzma_lib \<Rightarrow> datafile \<Rightarrow> u64 \<Rightarrow> bytes \<Rightarrow> bytes \<Rightarrow> bool \<Rightarrow> u8 \<Rightarrow> datafile \<times> status" where
  "df_Append ft lib df lsn key val deleted generation =
    (if ft = OpenFails then (df, Status_IoError ''datafile append open failed'')
     else
      (let offset = df_FileSize df;
           (codec, stored, st) = stored_form lib df val deleted;
           hdr = record_header lsn key stored deleted codec generation;
           rec = enc_hdr hdr @ key @ stored;
           df1 = df\<lparr>df_choices := st\<rparr>
       in case ft of
            Torn n \<Rightarrow> (df1\<lparr>df_bytes := Some (df_content df @ take n rec)\<rparr>,
                       Status_IoError ''datafile append write failed'')
          | _ \<Rightarrow> (df1\<lparr>df_bytes := Some (df_content df @ rec),
                      df_index := idx_Update offset lsn (df_index df)\<rparr>, Status_Ok)))"

record data_record =
  dr_key :: bytes
  dr_value :: bytes
  dr_lsn :: u64
  dr_deleted :: bool

definition reclaimed :: "data_header \<Rightarrow> u8 \<Rightarrow> bool" where
  "reclaimed h reclaim_generation \<longleftrightarrow> reclaim_generation \<noteq> 0xFF \<and> RecordGeneration h = reclaim_generation"

definition record_of :: "data_header \<Rightarrow> bytes \<Rightarrow> bytes \<Rightarrow> data_record" where
  "record_of h k v = \<lparr>dr_key = k, dr_value = v, dr_lsn = dh_lsn h, dr_deleted = (dh_deleted h \<noteq> 0)\<rparr>"

definition ParseRecordAt :: "lzma_lib \<Rightarrow> bytes \<Rightarrow> nat \<Rightarrow> u8 \<Rightarrow> data_record res" where
  "ParseRecordAt lib base offset reclaim_generation =
    (if length base < offset + kHeaderSize then Inl (Status_IoError ''datafile record out of view'')
     else
      (let h = read_hdr (drop offset base) in
       if \<not> hdr_crc_ok h then Inl (Status_CorruptPage ''datafile crc mismatch'')
       else if reclaimed h reclaim_generation then Inl (Status_NotFound ''reclaimed generation'')
       else
        (let kl = unat (dh_key_len h); vl = unat (dh_value_len h) in
         if length base < offset + (kHeaderSize + kl + vl) then Inl (Status_IoError ''datafile record truncated'')
         else
          (let k = slice (offset + kHeaderSize) kl base;
               payload = slice (offset + kHeaderSize + kl) vl base in
           case DecodeRecordValue lib h payload of
             Inl st \<Rightarrow> Inl st
           | Inr v \<Rightarrow> Inr (record_of h k v)))))"

text \<open>
  The stream reader. A string is allocated with zero bytes and filled as far as the file
  goes; \<open>read_padded\<close> is its content, short reads of key and value are not checked.
\<close>

definition read_padded :: "nat \<Rightarrow> bytes \<Rightarrow> bytes" where
  "read_padded n bs = take n bs @ replicate (n - length bs) 0"

definition ReadRecordAt :: "lzma_lib \<Rightarrow> datafile \<Rightarrow> nat \<Rightarrow> u8 \<Rightarrow> data_record res" where
  "ReadRecordAt lib df offset reclaim_generation =
    (case df_bytes df of
      None \<Rightarrow> Inl (Status_IoError ''datafile read open failed'')
    | Some fb \<Rightarrow>
       (if length fb < offset + kHeaderSize then Inl (Status_IoError ''datafile record read failed'')
        else
         (let h = read_hdr (drop offset fb) in
          if \<not> hdr_crc_ok h then Inl (Status_CorruptPage ''datafile crc mismatch'')
          else if reclaimed h reclaim_generation then Inl (Status_NotFound ''reclaimed generation'')
          else
           (let kl = unat (dh_key_len h); vl = unat (dh_value_len h);
                k = read_padded kl (drop (offset + kHeaderSize) fb);
                payload = read_padded vl (drop (offset + kHeaderSize + kl) fb) in
            case DecodeRecordValue lib h payload of
              Inl st \<Rightarrow> Inl st
            | Inr v \<Rightarrow> Inr (record_of h k v)))))"

text \<open>
  \<open>ReadHeaderAtLsn\<close> checksums the variable \<open>hdr\<close> itself, a pointer: \<open>sizeof(hdr)\<close> less four
  are the low four bytes of the address of the caller's header, here \<open>hdr_addr\<close>.
\<close>

definition ReadHeaderAtLsn :: "u64 \<Rightarrow> datafile \<Rightarrow> u64 \<Rightarrow> data_header res" where
  "ReadHeaderAtLsn hdr_addr df lsn =
    (case idx_Lookup (df_index df) lsn of
      None \<Rightarrow> Inl (Status_NotFound ''lsn not indexed'')
    | Some offset \<Rightarrow>
       (case df_bytes df of
          None \<Rightarrow> Inl (Status_IoError ''datafile read open failed'')
        | Some fb \<Rightarrow>
           (if length fb < offset + kHeaderSize then Inl (Status_IoError ''datafile header read failed'')
            else
             (let h = read_hdr (drop offset fb) in
              if dh_record_crc h \<noteq> Crc32 (take 4 (put_u64 hdr_addr))
              then Inl (Status_CorruptPage ''datafile crc mismatch'') else Inr h))))"

definition BuildLsnIndex :: "datafile \<Rightarrow> bytes option \<Rightarrow> datafile" where
  "BuildLsnIndex df sidecar =
    (case didx_LoadFromFile sidecar of
      Inr ix \<Rightarrow> (if 0 < length ix then df\<lparr>df_index := ix\<rparr> else df\<lparr>df_index := BuildFromFile (df_bytes df)\<rparr>)
    | Inl _ \<Rightarrow> df\<lparr>df_index := BuildFromFile (df_bytes df)\<rparr>)"

definition ReadByLsn :: "lzma_lib \<Rightarrow> datafile \<Rightarrow> u64 \<Rightarrow> u8 \<Rightarrow> bytes res" where
  "ReadByLsn lib df lsn reclaim_gen =
    (case idx_Lookup (df_index df) lsn of
      None \<Rightarrow> Inl (Status_NotFound ''lsn not in datafile index'')
    | Some offset \<Rightarrow>
       (case ReadRecordAt lib df offset reclaim_gen of
          Inl st \<Rightarrow> Inl st
        | Inr r \<Rightarrow> (if dr_deleted r then Inl (Status_NotFound ''deleted at lsn'') else Inr (dr_value r))))"


section \<open>Replaying the file into a map\<close>

type_synonym committed_map = "(bytes \<times> (bytes \<times> u64)) list"

record parse_state =
  ps_consumed :: nat
  ps_max :: u64
  ps_out :: "committed_map option"

definition GenerationVisible :: "u8 \<Rightarrow> u8 \<Rightarrow> bool" where
  "GenerationVisible record_gen reclaim_generation \<longleftrightarrow>
     \<not> (reclaim_generation \<noteq> 0xFF \<and> record_gen = reclaim_generation)"

text \<open>
  The loop of \<open>ParseRecordsIncremental\<close>; \<open>bs\<close> is the buffer from position \<open>pos\<close> on, and a
  missing output map is \<open>None\<close>. Every turn consumes a header, so the buffer shrinks.
\<close>

function parse_loop ::
  "lzma_lib \<Rightarrow> nat \<Rightarrow> u64 \<Rightarrow> nat \<Rightarrow> u8 \<Rightarrow> bool \<Rightarrow> bytes \<Rightarrow> nat \<Rightarrow> parse_state \<Rightarrow> parse_state \<times> status" where
  "parse_loop lib base_offset lsn_cap byte_cap reclaim_generation validate_crc bs pos ps =
    (if bs = [] then (ps, Status_Ok)
     else if 0 < byte_cap \<and> byte_cap \<le> base_offset + pos then (ps, Status_Ok)
     else if length bs < kHeaderSize then (ps, Status_Ok)
     else
      (let h = read_hdr bs; rest = drop kHeaderSize bs;
           kl = unat (dh_key_len h); vl = unat (dh_value_len h);
           next = pos + kHeaderSize + (kl + vl);
           continue_at = parse_loop lib base_offset lsn_cap byte_cap reclaim_generation validate_crc
                           (drop (kl + vl) rest) next in
       if 0 < byte_cap \<and> byte_cap < base_offset + pos + kHeaderSize
       then (ps, Status_CorruptPage ''datafile truncated mid-record'')
       else if validate_crc \<and> \<not> hdr_crc_ok h then
         (if length rest < kl + vl then (ps, Status_Ok) else continue_at (ps\<lparr>ps_consumed := next\<rparr>))
       else if length rest < kl + vl then (ps, Status_Ok)
       else if 0 < byte_cap \<and> byte_cap < base_offset + pos + kHeaderSize + (kl + vl)
       then (ps, Status_CorruptPage ''datafile truncated mid-payload'')
       else
        (let key = take kl rest; payload = take vl (drop kl rest) in
         if 0 < lsn_cap \<and> lsn_cap < dh_lsn h then continue_at (ps\<lparr>ps_consumed := next\<rparr>)
         else if \<not> GenerationVisible (RecordGeneration h) reclaim_generation
         then continue_at (ps\<lparr>ps_consumed := next\<rparr>)
         else
          (let ps1 = ps\<lparr>ps_max := max (ps_max ps) (dh_lsn h)\<rparr> in
           case ps_out ps of
             None \<Rightarrow> continue_at (ps1\<lparr>ps_consumed := next\<rparr>)
           | Some out \<Rightarrow>
              (case DecodeRecordValue lib h payload of
                 Inl st \<Rightarrow> (ps1, st)
               | Inr decoded \<Rightarrow>
                  continue_at (ps1\<lparr>ps_consumed := next,
                    ps_out := Some (if dh_deleted h \<noteq> 0 then AList.delete key out
                                    else AList.update key (decoded, dh_lsn h) out)\<rparr>))))))"
  by pat_completeness auto
termination
  by (relation "measure (\<lambda>(_, _, _, _, _, _, bs, _). length bs)") (auto simp: kHeaderSize_def)

declare parse_loop.simps [simp del]

text \<open>A failed parse leaves the caller's \<open>max_lsn\<close> alone.\<close>

definition ParseRecordsIncremental ::
  "lzma_lib \<Rightarrow> bytes \<Rightarrow> nat \<Rightarrow> u64 \<Rightarrow> nat \<Rightarrow> u8 \<Rightarrow> bool \<Rightarrow> u64 \<Rightarrow> committed_map option
     \<Rightarrow> parse_state \<times> status" where
  "ParseRecordsIncremental lib bs base_offset lsn_cap byte_cap reclaim_generation validate_crc max_lsn out =
    (let (ps, st) = parse_loop lib base_offset lsn_cap byte_cap reclaim_generation validate_crc bs 0
           \<lparr>ps_consumed = 0, ps_max = max_lsn, ps_out = out\<rparr>
     in if status_ok st then (ps, st) else (ps\<lparr>ps_max := max_lsn\<rparr>, st))"

definition LoadRecords ::
  "lzma_lib \<Rightarrow> bytes option \<Rightarrow> u64 \<Rightarrow> nat \<Rightarrow> u8 \<Rightarrow> bool \<Rightarrow> u64 \<Rightarrow> committed_map
     \<Rightarrow> (committed_map \<times> u64) \<times> status" where
  "LoadRecords lib fo lsn_cap byte_cap reclaim_generation validate_crc max_lsn out =
    (case fo of
      None \<Rightarrow> (([], 0), Status_Ok)
    | Some fb \<Rightarrow>
       (let (ps, st) = ParseRecordsIncremental lib fb 0 lsn_cap byte_cap reclaim_generation validate_crc
              max_lsn (Some out)
        in ((case ps_out ps of Some o' \<Rightarrow> o' | None \<Rightarrow> [], ps_max ps), st)))"

definition LoadAll :: "lzma_lib \<Rightarrow> datafile \<Rightarrow> u8 \<Rightarrow> (committed_map \<times> u64) \<times> status" where
  "LoadAll lib df reclaim_generation = LoadRecords lib (df_bytes df) 0 0 reclaim_generation True 0 []"

definition LoadUpToLsn :: "lzma_lib \<Rightarrow> datafile \<Rightarrow> u64 \<Rightarrow> u8 \<Rightarrow> (committed_map \<times> u64) \<times> status" where
  "LoadUpToLsn lib df max_lsn reclaim_generation =
     LoadRecords lib (df_bytes df) max_lsn 0 reclaim_generation True 0 []"

definition LoadUpToByteOffset :: "lzma_lib \<Rightarrow> datafile \<Rightarrow> nat \<Rightarrow> u8 \<Rightarrow> (committed_map \<times> u64) \<times> status" where
  "LoadUpToByteOffset lib df max_bytes reclaim_generation =
     LoadRecords lib (df_bytes df) 0 max_bytes reclaim_generation True 0 []"

section \<open>Records are self-delimiting\<close>

record raw_record =
  rr_hdr :: data_header
  rr_key :: bytes
  rr_payload :: bytes

definition enc_rec :: "raw_record \<Rightarrow> bytes" where
  "enc_rec r = enc_hdr (rr_hdr r) @ rr_key r @ rr_payload r"

definition rec_valid :: "raw_record \<Rightarrow> bool" where
  "rec_valid r \<longleftrightarrow> unat (dh_key_len (rr_hdr r)) = length (rr_key r)
     \<and> unat (dh_value_len (rr_hdr r)) = length (rr_payload r)"

definition dec_rec :: "bytes \<Rightarrow> (raw_record \<times> bytes) option" where
  "dec_rec bs =
    (if length bs < kHeaderSize then None
     else (let h = read_hdr bs; kl = unat (dh_key_len h); vl = unat (dh_value_len h);
               rest = drop kHeaderSize bs in
           if length rest < kl + vl then None
           else Some (\<lparr>rr_hdr = h, rr_key = take kl rest, rr_payload = take vl (drop kl rest)\<rparr>,
                      drop (kl + vl) rest)))"

lemma length_enc_hdr [simp, layout_simps]: "length (enc_hdr h) = 20"
  by (simp add: enc_hdr_def hdr_body_def)

lemma read_enc_hdr [codec_simps]: "read_hdr (enc_hdr h @ rest) = h"
  by (simp add: read_hdr_def enc_hdr_def hdr_body_def nth_append numeral_eq_Suc)

lemma read_hdr_prefix: "length bs = 20 \<Longrightarrow> read_hdr (bs @ rest) = read_hdr bs"
  by (simp add: read_hdr_def get_u64_def get_u32_def get_u16_def nth_append)

interpretation dlog: record_codec enc_rec dec_rec rec_valid
proof unfold_locales
  fix r rest n
  assume v: "rec_valid r"
  show "dec_rec (enc_rec r @ rest) = Some (r, rest)"
    using v by (simp add: dec_rec_def enc_rec_def read_enc_hdr kHeaderSize_def rec_valid_def)
  show "enc_rec r \<noteq> []"
    by (simp add: enc_rec_def length_greater_0_conv [symmetric] del: length_greater_0_conv)
  assume n: "n < length (enc_rec r)"
  show "dec_rec (take n (enc_rec r)) = None"
  proof (cases "n < 20")
    case False
    then have t: "take n (enc_rec r) = enc_hdr (rr_hdr r) @ take (n - 20) (rr_key r @ rr_payload r)"
      by (simp add: enc_rec_def)
    show ?thesis
      using v n False unfolding t
      by (auto simp: dec_rec_def read_enc_hdr kHeaderSize_def rec_valid_def enc_rec_def Let_def)
  qed (simp add: dec_rec_def kHeaderSize_def min_less_iff_disj)
qed


section \<open>Decode, then fold\<close>

fun replay ::
  "lzma_lib \<Rightarrow> u64 \<Rightarrow> u8 \<Rightarrow> bool \<Rightarrow> raw_record list \<Rightarrow> committed_map \<Rightarrow> u64 \<Rightarrow> (committed_map \<times> u64) \<times> status" where
  "replay lib lsn_cap rg validate [] m mx = ((m, mx), Status_Ok)"
| "replay lib lsn_cap rg validate (r # rs) m mx =
    (let h = rr_hdr r in
     if validate \<and> \<not> hdr_crc_ok h \<or> 0 < lsn_cap \<and> lsn_cap < dh_lsn h \<or> reclaimed h rg
     then replay lib lsn_cap rg validate rs m mx
     else case DecodeRecordValue lib h (rr_payload r) of
         Inl st \<Rightarrow> ((m, max mx (dh_lsn h)), st)
       | Inr v \<Rightarrow> replay lib lsn_cap rg validate rs
           (if dh_deleted h \<noteq> 0 then AList.delete (rr_key r) m
            else AList.update (rr_key r) (v, dh_lsn h) m) (max mx (dh_lsn h)))"

lemma dec_rec_shrinks: "dec_rec bs = Some (r, rest) \<Longrightarrow> length rest < length bs"
  by (auto simp: dec_rec_def kHeaderSize_def Let_def split: if_splits)

lemma scan_records:
  "scan_all dec_rec bs = (case dec_rec bs of None \<Rightarrow> [] | Some (r, rest) \<Rightarrow> r # scan_all dec_rec rest)"
  by (rule scan_all_unfold) (auto simp: dec_rec_shrinks dec_rec_def kHeaderSize_def)

lemma visible_reclaimed: "GenerationVisible (RecordGeneration h) rg \<longleftrightarrow> \<not> reclaimed h rg"
  by (auto simp: GenerationVisible_def reclaimed_def)

text \<open>How many bytes a record takes.\<close>

definition rec_size :: "raw_record \<Rightarrow> nat" where
  "rec_size r = kHeaderSize + unat (dh_key_len (rr_hdr r)) + unat (dh_value_len (rr_hdr r))"

lemma rec_size_bounds: "0 < rec_size r" "rec_size r \<le> 131090"
  using unat_bound [of "dh_key_len (rr_hdr r)"] unat_bound [of "dh_value_len (rr_hdr r)"]
  by (simp_all add: rec_size_def kHeaderSize_def)

lemma dec_rec_iff:
  "dec_rec bs = Some (r, rest) \<longleftrightarrow> rec_size r \<le> length bs \<and> rest = drop (rec_size r) bs
    \<and> r = \<lparr>rr_hdr = read_hdr bs, rr_key = take (unat (dh_key_len (read_hdr bs))) (drop kHeaderSize bs),
           rr_payload = take (unat (dh_value_len (read_hdr bs))) (drop (kHeaderSize + unat (dh_key_len (read_hdr bs))) bs)\<rparr>"
  by (auto simp: dec_rec_def rec_size_def Let_def add_ac)

definition skipped :: "u64 \<Rightarrow> u8 \<Rightarrow> bool \<Rightarrow> data_header \<Rightarrow> bool" where
  "skipped lsn_cap rg validate h \<longleftrightarrow> validate \<and> \<not> hdr_crc_ok h \<or> 0 < lsn_cap \<and> lsn_cap < dh_lsn h \<or> reclaimed h rg"

definition apply_record :: "raw_record \<Rightarrow> bytes \<Rightarrow> committed_map \<Rightarrow> committed_map" where
  "apply_record r v m = (if dh_deleted (rr_hdr r) \<noteq> 0 then AList.delete (rr_key r) m
     else AList.update (rr_key r) (v, dh_lsn (rr_hdr r)) m)"

text \<open>One turn of the loop over a complete record, and its end where none is left.\<close>

lemma parse_loop_step:
  assumes "dec_rec bs = Some (r, rest)" "ps_out ps = Some m"
  shows "parse_loop lib base lsn_cap 0 rg validate bs pos ps =
    (if skipped lsn_cap rg validate (rr_hdr r)
     then parse_loop lib base lsn_cap 0 rg validate rest (pos + rec_size r) (ps\<lparr>ps_consumed := pos + rec_size r\<rparr>)
     else case DecodeRecordValue lib (rr_hdr r) (rr_payload r) of
         Inl st \<Rightarrow> (ps\<lparr>ps_max := max (ps_max ps) (dh_lsn (rr_hdr r))\<rparr>, st)
       | Inr v \<Rightarrow> parse_loop lib base lsn_cap 0 rg validate rest (pos + rec_size r)
           (ps\<lparr>ps_max := max (ps_max ps) (dh_lsn (rr_hdr r)), ps_consumed := pos + rec_size r,
             ps_out := Some (apply_record r v m)\<rparr>))"
proof -
  let ?h = "read_hdr bs"
  have r: "rr_hdr r = ?h" "rr_key r = take (unat (dh_key_len ?h)) (drop kHeaderSize bs)"
    "rr_payload r = take (unat (dh_value_len ?h)) (drop (unat (dh_key_len ?h)) (drop kHeaderSize bs))"
    "rest = drop (unat (dh_key_len ?h) + unat (dh_value_len ?h)) (drop kHeaderSize bs)"
    "rec_size r \<le> length bs" "pos + rec_size r = pos + kHeaderSize + (unat (dh_key_len ?h) + unat (dh_value_len ?h))"
    using assms(1) by (auto simp: dec_rec_iff rec_size_def add_ac)
  have c: "\<not> length bs < kHeaderSize" "\<not> length (drop kHeaderSize bs) < unat (dh_key_len ?h) + unat (dh_value_len ?h)" "bs \<noteq> []"
    using r(1,5) by (auto simp: rec_size_def kHeaderSize_def)
  show ?thesis
    unfolding parse_loop.simps [of lib base lsn_cap 0 rg validate bs pos ps] Let_def
    by (simp only: c assms(2) visible_reclaimed r(1-4,6) skipped_def apply_record_def less_irrefl simp_thms if_False option.case)
      (simp split: sum.split)
qed

lemma parse_loop_end: "dec_rec bs = None \<Longrightarrow> parse_loop lib base lsn_cap 0 rg validate bs pos ps = (ps, Status_Ok)"
  by (auto simp: parse_loop.simps [of _ _ _ _ _ _ bs] dec_rec_def Let_def split: if_splits)

lemma replay_Cons:
  "replay lib lsn_cap rg validate (r # rs) m mx =
    (if skipped lsn_cap rg validate (rr_hdr r) then replay lib lsn_cap rg validate rs m mx
     else case DecodeRecordValue lib (rr_hdr r) (rr_payload r) of
         Inl st \<Rightarrow> ((m, max mx (dh_lsn (rr_hdr r))), st)
       | Inr v \<Rightarrow> replay lib lsn_cap rg validate rs (apply_record r v m) (max mx (dh_lsn (rr_hdr r))))"
  by (simp add: skipped_def apply_record_def Let_def split: sum.split)

lemma decode_error: "DecodeRecordValue lib h payload = Inl st \<Longrightarrow> \<not> status_ok st"
  by (auto simp: DecodeRecordValue_def decode_with_def decode_fail_def status_defs Let_def
      split: if_splits sum.splits)

text \<open>The loop replays the records it meets, and has consumed them when it succeeds.\<close>

lemma parse_loop_records:
  assumes "ps_out ps = Some m"
  shows "case parse_loop lib base lsn_cap 0 rg validate bs pos ps of (ps', st) \<Rightarrow>
    (\<exists>m'. ps_out ps' = Some m' \<and>
      ((m', ps_max ps'), st) = replay lib lsn_cap rg validate (scan_all dec_rec bs) m (ps_max ps))
    \<and> (status_ok st \<longrightarrow> ps_consumed ps' =
        (if scan_all dec_rec bs = [] then ps_consumed ps else pos + sum_list (map rec_size (scan_all dec_rec bs))))"
  using assms
proof (induction "length bs" arbitrary: bs pos ps m rule: less_induct)
  case less
  show ?case
  proof (cases "dec_rec bs")
    case None
    then show ?thesis using less.prems by (simp add: scan_records parse_loop_end)
  next
    case (Some p)
    obtain r rest where p: "p = (r, rest)" by fastforce
    note dec = Some [unfolded p] and IH = less.hyps [OF dec_rec_shrinks [OF Some [unfolded p]]]
    have scan: "scan_all dec_rec bs = r # scan_all dec_rec rest" by (subst scan_records) (simp add: dec)
    let ?next = "pos + rec_size r"
    show ?thesis
    proof (cases "skipped lsn_cap rg validate (rr_hdr r)")
      case True
      with IH [of "ps\<lparr>ps_consumed := ?next\<rparr>" m ?next] less.prems show ?thesis
        by (auto simp: parse_loop_step [OF dec less.prems] scan replay_Cons add.assoc simp del: replay.simps)
    next
      case False
      show ?thesis
      proof (cases "DecodeRecordValue lib (rr_hdr r) (rr_payload r)")
        case (Inr v)
        let ?ps = "ps\<lparr>ps_max := max (ps_max ps) (dh_lsn (rr_hdr r)), ps_consumed := ?next, ps_out := Some (apply_record r v m)\<rparr>"
        from IH [of ?ps "apply_record r v m" ?next] False Inr show ?thesis
          by (auto simp: parse_loop_step [OF dec less.prems] scan replay_Cons add.assoc simp del: replay.simps)
      next
        case (Inl st)
        have "\<not> status_ok st" using Inl decode_error by blast
        with Inl False less.prems show ?thesis
          by (simp add: parse_loop_step [OF dec less.prems] scan replay_Cons del: replay.simps)
      qed
    qed
  qed
qed

lemma parse_loop_replay:
  assumes "ps_out ps = Some m"
  shows "case parse_loop lib base lsn_cap 0 rg validate bs pos ps of (ps', st) \<Rightarrow>
    (\<exists>m'. ps_out ps' = Some m' \<and>
      ((m', ps_max ps'), st) = replay lib lsn_cap rg validate (scan_all dec_rec bs) m (ps_max ps))"
  using parse_loop_records [OF assms, where lib = lib and base = base and lsn_cap = lsn_cap and rg = rg and validate = validate and bs = bs and pos = pos]
  by (auto split: prod.splits)

lemma load_lemma:
  "LoadRecords lib (Some fb) lsn_cap 0 rg validate mx m =
    (let ((m', mx'), st) = replay lib lsn_cap rg validate (scan_all dec_rec fb) m mx
     in ((m', if status_ok st then mx' else mx), st))"
proof -
  let ?ps = "\<lparr>ps_consumed = 0, ps_max = mx, ps_out = Some m\<rparr>"
  obtain ps' st where pl: "parse_loop lib 0 lsn_cap 0 rg validate fb 0 ?ps = (ps', st)" by fastforce
  with parse_loop_replay [where ps = ?ps and m = m and lib = lib and base = 0 and lsn_cap = lsn_cap
      and rg = rg and validate = validate and bs = fb and pos = 0] obtain m' where
    m': "ps_out ps' = Some m'"
    "replay lib lsn_cap rg validate (scan_all dec_rec fb) m mx = ((m', ps_max ps'), st)" by auto
  show ?thesis by (simp add: LoadRecords_def ParseRecordsIncremental_def pl m' Let_def)
qed


text \<open>
  The hand-written loader is "decode the records, then fold them": without a byte cap,
  what \<open>LoadRecords\<close> returns (map, largest LSN, status) is the replay, in file order, of the
  records that scanning the file yields; records with a bad header checksum, above the LSN
  cap or of the reclaimed generation are skipped.
\<close>

theorem load_records_replays:
  "LoadRecords lib (Some fb) lsn_cap 0 rg validate mx m =
    (let ((m', mx'), st) = replay lib lsn_cap rg validate (scan_all dec_rec fb) m mx
     in ((m', if status_ok st then mx' else mx), st))"
  by (rule load_lemma)

section \<open>Appending and loading\<close>

text \<open>
  A write as the flusher issues it. \<open>small\<close> bounds key and value by what the 16-bit length
  fields of the header can hold.
\<close>

record df_write =
  dw_lsn :: u64
  dw_key :: bytes
  dw_value :: bytes
  dw_deleted :: bool
  dw_gen :: u8

definition small :: "df_write \<Rightarrow> bool" where
  "small w \<longleftrightarrow> length (dw_key w) < 65536 \<and> length (dw_value w) < 65536"

definition append_write :: "lzma_lib \<Rightarrow> datafile \<Rightarrow> df_write \<Rightarrow> datafile" where
  "append_write lib df w = fst (df_Append NoFault lib df (dw_lsn w) (dw_key w) (dw_value w) (dw_deleted w) (dw_gen w))"

definition raw_of :: "df_write \<Rightarrow> raw_record" where
  "raw_of w = \<lparr>rr_hdr = record_header (dw_lsn w) (dw_key w) (dw_value w) (dw_deleted w) 0 (dw_gen w),
     rr_key = dw_key w, rr_payload = dw_value w\<rparr>"

definition DataFile_init :: datafile where
  "DataFile_init = \<lparr>df_bytes = None, df_compress = False, df_policy = KOff, df_choices = stats_zero,
     df_index = []\<rparr>"

lemma unat_word_of_nat_16: "n < 65536 \<Longrightarrow> unat (word_of_nat n :: u16) = n"
  by (simp add: unat_of_nat)

lemma hdr_body_crc [simp]: "hdr_body (h\<lparr>dh_record_crc := c\<rparr>) = hdr_body h"
  by (simp add: hdr_body_def)

lemma record_header_simps [simp]:
  "dh_lsn (record_header lsn key stored deleted codec generation) = lsn"
  "dh_key_len (record_header lsn key stored deleted codec generation) = word_of_nat (length key)"
  "dh_value_len (record_header lsn key stored deleted codec generation) = word_of_nat (length stored)"
  "dh_deleted (record_header lsn key stored deleted codec generation) = (if deleted then 1 else 0)"
  "dh_reserved0 (record_header lsn key stored deleted codec generation) = codec"
  "dh_reserved1 (record_header lsn key stored deleted codec generation) = generation"
  "dh_reserved2 (record_header lsn key stored deleted codec generation) = 0"
  "hdr_crc_ok (record_header lsn key stored deleted codec generation)"
  by (simp_all add: record_header_def Let_def hdr_crc_ok_def hdr_body_def)

lemma raw_of_valid: "small w \<Longrightarrow> rec_valid (raw_of w)"
  by (simp add: small_def rec_valid_def raw_of_def unat_word_of_nat_16)

lemma append_write_raw:
  assumes "\<not> df_compress df"
  shows "df_content (append_write lib df w) = df_content df @ enc_rec (raw_of w)"
    and "\<not> df_compress (append_write lib df w)" and "df_bytes (append_write lib df w) \<noteq> None"
    and "df_index (append_write lib df w) = idx_Update (df_FileSize df) (dw_lsn w) (df_index df)"
  using assms by (simp_all add: append_write_def df_Append_def stored_form_def df_content_def enc_rec_def
      raw_of_def Let_def)

lemma append_writes_content:
  assumes "\<not> df_compress df"
  shows "df_content (foldl (append_write lib) df ws) = df_content df @ dlog.log_image (map raw_of ws)
    \<and> (ws \<noteq> [] \<longrightarrow> df_bytes (foldl (append_write lib) df ws) \<noteq> None)"
  using assms
proof (induction ws arbitrary: df)
  case (Cons w ws)
  then show ?case
    using append_write_raw [OF Cons.prems, of lib w] Cons.IH [of "append_write lib df w"]
    by (cases ws) auto
qed simp

lemma decode_raw: "dh_reserved0 h = 0 \<Longrightarrow> DecodeRecordValue lib h payload = Inr payload"
  by (simp add: DecodeRecordValue_def RecordCodec_def)

lemma generation_raw: "RecordGeneration (record_header lsn key stored deleted 0 g) = g"
  by (simp add: RecordGeneration_def RecordCodec_def)

text \<open>Which writes a load sees, and the map they leave.\<close>

definition seen_write :: "u64 \<Rightarrow> u8 \<Rightarrow> df_write \<Rightarrow> bool" where
  "seen_write lsn_cap rg w \<longleftrightarrow> (lsn_cap = 0 \<or> dw_lsn w \<le> lsn_cap) \<and> (rg = 0xFF \<or> dw_gen w \<noteq> rg)"

fun write_effect :: "(bytes \<Rightarrow> (bytes \<times> u64) option) \<Rightarrow> df_write \<Rightarrow> bytes \<Rightarrow> (bytes \<times> u64) option" where
  "write_effect f w = f(dw_key w := (if dw_deleted w then None else Some (dw_value w, dw_lsn w)))"

lemma replay_raw:
  assumes "replay lib lsn_cap rg v (map raw_of ws) m mx = ((m', mx'), st)"
  shows "map_of m' = foldl write_effect (map_of m) (filter (seen_write lsn_cap rg) ws)
    \<and> mx' = foldl max mx (map dw_lsn (filter (seen_write lsn_cap rg) ws)) \<and> st = Status_Ok"
  using assms
proof (induction ws arbitrary: m mx)
  case (Cons w ws)
  have skip: "0 < lsn_cap \<and> lsn_cap < dw_lsn w \<or> reclaimed (rr_hdr (raw_of w)) rg \<longleftrightarrow> \<not> seen_write lsn_cap rg w"
    by (auto simp: seen_write_def reclaimed_def raw_of_def generation_raw word_gt_0 not_le)
  show ?case
    using Cons.prems Cons.IH skip
    by (cases "seen_write lsn_cap rg w") (auto simp: Let_def decode_raw raw_of_def delete_conv' update_conv' split: if_splits)
qed simp

text \<open>
  C25. Loading recovers exactly what was appended: after any sequence of writes to a new file
  that does not compress, with keys and values below 64 KiB (\<open>small\<close>; longer ones are cut),
  followed by a torn write that never completed, \<open>LoadUpToLsn\<close> returns, for
  every key, the last write at or below the LSN cap (0: no cap) that is not of the reclaimed
  generation, with deletions applied, and the largest LSN among them.
\<close>

theorem load_recovers_writes:
  assumes "\<forall>w \<in> set ws. small w" "small torn" "n < length (enc_rec (raw_of torn))"
    and "df = fst (df_Append (Torn n) lib (foldl (append_write lib) DataFile_init ws)
           (dw_lsn torn) (dw_key torn) (dw_value torn) (dw_deleted torn) (dw_gen torn))"
  shows "\<exists>m mx. LoadUpToLsn lib df lsn_cap rg = ((m, mx), Status_Ok)
    \<and> map_of m = foldl write_effect (\<lambda>_. None) (filter (seen_write lsn_cap rg) ws)
    \<and> mx = foldl max 0 (map dw_lsn (filter (seen_write lsn_cap rg) ws))"
proof -
  let ?d = "foldl (append_write lib) DataFile_init ws"
  have init: "\<not> df_compress DataFile_init" "df_content DataFile_init = []"
    by (simp_all add: DataFile_init_def df_content_def)
  have comp: "\<not> df_compress (foldl (append_write lib) d ws)" if "\<not> df_compress d" for d
    using that by (induction ws arbitrary: d) (auto simp: append_write_raw)
  have "df_content ?d = dlog.log_image (map raw_of ws)"
    using append_writes_content [OF init(1), of lib ws] init(2) by simp
  then have fb: "df_bytes df = Some (dlog.log_image (map raw_of ws) @ take n (enc_rec (raw_of torn)))"
    using comp [OF init(1)]
    by (simp add: assms(4) df_Append_def stored_form_def enc_rec_def raw_of_def Let_def)
  have "scan_all dec_rec (dlog.log_image (map raw_of ws) @ take n (enc_rec (raw_of torn))) = map raw_of ws"
    using assms(1-3) by (intro dlog.scan_torn) (auto simp: raw_of_valid)
  moreover obtain m mx st where r: "replay lib lsn_cap rg True (map raw_of ws) [] 0 = ((m, mx), st)"
    by (cases "replay lib lsn_cap rg True (map raw_of ws) [] 0") auto
  moreover from replay_raw [OF r] have "map_of m = foldl write_effect (\<lambda>_. None) (filter (seen_write lsn_cap rg) ws)"
    "mx = foldl max 0 (map dw_lsn (filter (seen_write lsn_cap rg) ws))" "st = Status_Ok"
    by (simp_all add: map_of.simps(1) [abs_def] fun_eq_iff)
  ultimately show ?thesis
    unfolding LoadUpToLsn_def fb load_lemma by (simp add: status_defs)
qed


definition demo_writes :: "df_write list" where
  "demo_writes = [\<lparr>dw_lsn = 1, dw_key = [1], dw_value = [7], dw_deleted = False, dw_gen = 0\<rparr>,
     \<lparr>dw_lsn = 2, dw_key = [1], dw_value = [8], dw_deleted = False, dw_gen = 0\<rparr>]"

theorem load_recovers_writes_witness:
  "\<exists>m. LoadUpToLsn no_lzma (fst (df_Append (Torn 3) no_lzma (foldl (append_write no_lzma) DataFile_init demo_writes)
       3 [1] [9] False 0)) 0 0xFF = ((m, 2), Status_Ok) \<and> map_of m [1] = Some ([8], 2)"
  using load_recovers_writes [where ws = demo_writes and n = 3 and lib = no_lzma and lsn_cap = 0 and rg = "0xFF"
      and torn = "\<lparr>dw_lsn = 3, dw_key = [1], dw_value = [9], dw_deleted = False, dw_gen = 0\<rparr>", OF _ _ _ refl]
  by (auto simp: demo_writes_def small_def raw_of_def enc_rec_def seen_write_def)

section \<open>Reading by LSN\<close>

lemma read_padded_exact: "length v \<le> n \<Longrightarrow> read_padded n (v @ rest) = v @ read_padded (n - length v) rest"
  by (auto simp: read_padded_def)

lemma read_padded_whole [simp]: "read_padded (length v) (v @ rest) = v"
  by (simp add: read_padded_def)

lemma ReadRecordAt_raw:
  assumes "df_bytes df = Some (pre @ enc_rec (raw_of w) @ post)" "small w" "rg = 0xFF \<or> dw_gen w \<noteq> rg"
  shows "ReadRecordAt lib df (length pre) rg
    = Inr \<lparr>dr_key = dw_key w, dr_value = dw_value w, dr_lsn = dw_lsn w, dr_deleted = dw_deleted w\<rparr>"
  using assms(2,3)
  by (simp add: ReadRecordAt_def assms(1) enc_rec_def raw_of_def kHeaderSize_def read_enc_hdr Let_def
      reclaimed_def generation_raw decode_raw record_of_def small_def unat_word_of_nat_16)

lemma append_writes_index:
  assumes "\<not> df_compress df"
  shows "idx_Lookup (df_index (foldl (append_write lib) df ws)) l =
    (if l \<notin> dw_lsn ` set ws then idx_Lookup (df_index df) l
     else Some (df_FileSize df + length (dlog.log_image (map raw_of
       (rev (tl (dropWhile (\<lambda>w. dw_lsn w \<noteq> l) (rev ws))))))))"
  using assms
proof (induction ws rule: rev_induct)
  case (snoc w ws)
  have comp: "\<not> df_compress (foldl (append_write lib) df ws)"
    using snoc.prems by (induction ws arbitrary: df) (auto simp: append_write_raw)
  show ?case
    using snoc.IH [OF snoc.prems] append_write_raw [OF comp, of lib w]
      append_writes_content [OF snoc.prems, of lib ws]
    by (auto simp: idx_Lookup_def idx_Update_def update_conv' df_FileSize_def)
qed simp

lemma read_by_lsn_raw:
  assumes "ws = us @ w # vs" "dw_lsn w \<notin> dw_lsn ` set vs" "\<forall>x \<in> set ws. small x"
    and "rg = 0xFF \<or> dw_gen w \<noteq> rg"
  shows "ReadByLsn lib (foldl (append_write lib) DataFile_init ws) (dw_lsn w) rg
    = (if dw_deleted w then Inl (Status_NotFound ''deleted at lsn'') else Inr (dw_value w))"
proof -
  let ?d = "foldl (append_write lib) DataFile_init ws"
  have init: "\<not> df_compress DataFile_init" "df_FileSize DataFile_init = 0" "df_content DataFile_init = []"
    by (simp_all add: DataFile_init_def df_content_def df_FileSize_def)
  have "\<forall>x \<in> set (rev vs). dw_lsn x \<noteq> dw_lsn w" using assms(2) by (metis image_eqI set_rev)
  then have "dropWhile (\<lambda>x. dw_lsn x \<noteq> dw_lsn w) (rev ws) = w # rev us"
    by (simp add: assms(1) dropWhile_append3)
  then have ix: "idx_Lookup (df_index ?d) (dw_lsn w) = Some (length (dlog.log_image (map raw_of us)))"
    using append_writes_index [OF init(1), of lib ws "dw_lsn w"] init(2) assms(1) by simp
  have "df_bytes ?d \<noteq> None" "df_content ?d = dlog.log_image (map raw_of ws)"
    using append_writes_content [OF init(1), of lib ws] init(3) assms(1) by auto
  then have "df_bytes ?d = Some (dlog.log_image (map raw_of us) @ enc_rec (raw_of w) @ dlog.log_image (map raw_of vs))"
    using assms(1) by (auto simp: df_content_def)
  from ReadRecordAt_raw [OF this _ assms(4), of lib] assms(1,3) ix show ?thesis
    by (simp add: ReadByLsn_def)
qed

text \<open>
  Every record stays readable by its LSN: after any sequence of uncompressed writes to a
  new file, the index points each LSN at its last record, and reading there gives that
  write's value, or \<open>NotFound\<close> when it was a deletion.
\<close>

theorem read_by_lsn_recovers:
  assumes "ws = us @ w # vs" "dw_lsn w \<notin> dw_lsn ` set vs" "\<forall>x \<in> set ws. small x"
    and "rg = 0xFF \<or> dw_gen w \<noteq> rg"
  shows "ReadByLsn lib (foldl (append_write lib) DataFile_init ws) (dw_lsn w) rg
    = (if dw_deleted w then Inl (Status_NotFound ''deleted at lsn'') else Inr (dw_value w))"
  by (rule read_by_lsn_raw [OF assms])

theorem read_by_lsn_recovers_witness:
  "ReadByLsn no_lzma (foldl (append_write no_lzma) DataFile_init demo_writes) 1 0xFF = Inr [7]"
  using read_by_lsn_recovers [where ws = demo_writes and us = "[]" and w = "hd demo_writes"
      and vs = "tl demo_writes" and rg = "0xFF" and lib = no_lzma]
  by (simp add: demo_writes_def small_def)

lemma build_loop_tail:
  "length bs < kHeaderSize \<Longrightarrow> build_loop f bs off ix = ix"
  by (cases f) auto

lemma build_loop_image:
  assumes "\<forall>r \<in> set rs. rec_valid r" "length rs < f"
  shows "\<exists>ix'. build_loop f (dlog.log_image rs @ tail) off ix
    = build_loop (f - length rs) tail (off + length (dlog.log_image rs)) ix'"
  using assms
proof (induction rs arbitrary: f off ix)
  case (Cons r rs)
  then obtain g where g: "f = Suc g" by (cases f) auto
  have v: "unat (dh_key_len (rr_hdr r)) = length (rr_key r)" "unat (dh_value_len (rr_hdr r)) = length (rr_payload r)"
    using Cons.prems(1) by (auto simp: rec_valid_def)
  have "build_loop f (dlog.log_image (r # rs) @ tail) off ix
      = build_loop g (dlog.log_image rs @ tail) (off + length (enc_rec r)) (idx_Update off (dh_lsn (rr_hdr r)) ix)"
    by (simp add: g enc_rec_def kHeaderSize_def read_enc_hdr v Let_def add.assoc)
  with Cons.IH [of g "off + length (enc_rec r)" "idx_Update off (dh_lsn (rr_hdr r)) ix"] Cons.prems g
  show ?case by (simp add: add.assoc)
qed auto

text \<open>
  A torn last record is served as if it were whole. When a crash leaves a complete header
  and key but only part of the value, rebuilding the index still indexes the record, and
  reading its LSN succeeds: the missing bytes come back as zeros.
\<close>

theorem torn_record_read_as_zeros:
  assumes "\<forall>x \<in> set ws. small x" "small w" "\<not> dw_deleted w" "rg = 0xFF \<or> dw_gen w \<noteq> rg"
    and "n < length (dw_value w)"
    and "df_bytes df = Some (dlog.log_image (map raw_of ws) @ take (20 + length (dw_key w) + n) (enc_rec (raw_of w)))"
  shows "ReadByLsn lib (BuildLsnIndex df None) (dw_lsn w) rg
    = Inr (take n (dw_value w) @ replicate (length (dw_value w) - n) 0)"
proof -
  let ?img = "dlog.log_image (map raw_of ws)" and ?h = "rr_hdr (raw_of w)"
  let ?tail = "enc_hdr ?h @ dw_key w @ take n (dw_value w)"
  have cut: "take (20 + length (dw_key w) + n) (enc_rec (raw_of w)) = ?tail"
    by (simp add: enc_rec_def raw_of_def)
  have lens: "unat (dh_key_len ?h) = length (dw_key w)" "unat (dh_value_len ?h) = length (dw_value w)"
    using raw_of_valid [OF assms(2)] by (simp_all add: rec_valid_def raw_of_def)
  have h: "dh_lsn ?h = dw_lsn w" "hdr_crc_ok ?h" "dh_deleted ?h = 0" "dh_reserved0 ?h = 0"
    "\<not> reclaimed ?h rg"
    using assms(3,4) by (simp_all add: raw_of_def reclaimed_def generation_raw)
  have valid: "\<forall>r \<in> set (map raw_of ws). rec_valid r" using assms(1) by (auto simp: raw_of_valid)
  let ?f = "length (?img @ ?tail)"
  have "length ws < ?f" using dlog.length_image_ge [OF valid] by simp
  then obtain ix where ix: "build_loop ?f (?img @ ?tail) 0 [] = build_loop (?f - length ws) ?tail (length ?img) ix"
    using build_loop_image [OF valid, of ?f ?tail 0 "[]"] by auto
  obtain g where g: "?f - length ws = Suc g" using \<open>length ws < ?f\<close> by (metis Suc_diff_Suc)
  have "build_loop (Suc g) ?tail (length ?img) ix = idx_Update (length ?img) (dw_lsn w) ix"
    using assms(5) by (simp add: kHeaderSize_def read_enc_hdr lens h Let_def)
  then have look: "idx_Lookup (df_index (BuildLsnIndex df None)) (dw_lsn w) = Some (length ?img)"
    using ix g by (simp add: BuildLsnIndex_def didx_LoadFromFile_def BuildFromFile_def assms(6) cut
        idx_Lookup_def idx_Update_def update_conv')
  have "read_padded (length (dw_value w)) (take n (dw_value w))
      = take n (dw_value w) @ replicate (length (dw_value w) - n) 0"
    using assms(5) by (simp add: read_padded_def)
  then have "ReadRecordAt lib (BuildLsnIndex df None) (length ?img) rg
      = Inr (record_of ?h (dw_key w) (take n (dw_value w) @ replicate (length (dw_value w) - n) 0))"
    using h lens by (simp add: ReadRecordAt_def BuildLsnIndex_def didx_LoadFromFile_def assms(6) cut
        kHeaderSize_def read_enc_hdr Let_def decode_raw)
  with look show ?thesis by (simp add: ReadByLsn_def record_of_def h)
qed

definition torn_write :: df_write where
  "torn_write = \<lparr>dw_lsn = 5, dw_key = [1], dw_value = [7, 8, 9], dw_deleted = False, dw_gen = 0\<rparr>"

theorem torn_record_read_as_zeros_witness:
  "ReadByLsn no_lzma (BuildLsnIndex (DataFile_init\<lparr>df_bytes := Some (take 23 (enc_rec (raw_of torn_write)))\<rparr>) None)
     5 0xFF = Inr [7, 8, 0]"
proof -
  let ?df = "DataFile_init\<lparr>df_bytes := Some (take 23 (enc_rec (raw_of torn_write)))\<rparr>"
  have "df_bytes ?df = Some (dlog.log_image (map raw_of [])
      @ take (20 + length (dw_key torn_write) + 2) (enc_rec (raw_of torn_write)))"
    by (simp add: torn_write_def)
  from torn_record_read_as_zeros [OF _ _ _ _ _ this, of "0xFF" no_lzma] show ?thesis
    by (simp add: torn_write_def small_def)
qed

section \<open>Limits of the record format\<close>

text \<open>
  Values that do not fit the 16-bit length are cut silently: \<open>Append\<close> accepts a value of
  any size and reports success, but the record reads back with the value's first
  \<open>length mod 65536\<close> bytes only.
\<close>

theorem oversized_value_cut:
  assumes "\<not> df_compress df" "length key < 65536"
    and "df_Append NoFault lib df lsn key val False g = (df', st)"
  shows "status_ok st \<and> ReadByLsn lib df' lsn 0xFF = Inr (take (length val mod 65536) val)"
proof -
  let ?h = "record_header lsn key val False 0 g"
  have df': "df_bytes df' = Some (df_content df @ enc_hdr ?h @ key @ val)"
    "df_index df' = idx_Update (df_FileSize df) lsn (df_index df)" "status_ok st"
    using assms(1,3) by (auto simp: df_Append_def stored_form_def Let_def status_defs)
  have kl: "unat (word_of_nat (length key) :: u16) = length key" by (rule unat_word_of_nat_16 [OF assms(2)])
  have vl: "unat (word_of_nat (length val) :: u16) = length val mod 65536" by (simp add: unat_of_nat)
  have "read_padded (length val mod 65536) val = take (length val mod 65536) val"
    by (simp add: read_padded_def)
  then have "ReadRecordAt lib df' (df_FileSize df) 0xFF = Inr (record_of ?h key (take (length val mod 65536) val))"
    by (simp add: ReadRecordAt_def df'(1) df_FileSize_def kHeaderSize_def read_enc_hdr Let_def reclaimed_def
        decode_raw kl vl)
  with df' show ?thesis
    by (simp add: ReadByLsn_def idx_Lookup_def idx_Update_def update_conv' record_of_def)
qed

theorem oversized_value_cut_witness:
  "\<exists>df' st. df_Append NoFault no_lzma DataFile_init 1 [1] (replicate 65537 5) False 0 = (df', st)
     \<and> status_ok st \<and> ReadByLsn no_lzma df' 1 0xFF = Inr [5]"
proof -
  obtain df' st where a: "df_Append NoFault no_lzma DataFile_init 1 [1] (replicate 65537 5) False 0 = (df', st)"
    by fastforce
  have "take (length (replicate 65537 (5 :: byte)) mod 65536) (replicate 65537 5) = [5]"
    by (simp only: length_replicate take_replicate) simp
  with oversized_value_cut [OF _ _ a] a show ?thesis by (simp add: DataFile_init_def)
qed

text \<open>
  The generation that \<open>RecordGeneration\<close> reads back is the one \<open>Append\<close> was given unless
  that was 0 and the value was compressed: then it is the codec number, so a compressed
  record of generation 0 is never recognised as reclaimed when generation 0 is.
\<close>

theorem record_generation_read_back:
  "RecordGeneration (record_header lsn key stored deleted codec g)
     = (if g \<noteq> 0 then g else if codec \<in> {2, 3, 4} then codec else 0)
   \<and> (codec \<in> {2, 3, 4} \<longrightarrow> \<not> reclaimed (record_header lsn key stored deleted codec 0) 0)"
proof -
  have "codec \<le> 1 \<longleftrightarrow> codec = 0 \<or> codec = 1" by (auto simp: word_le_nat_alt le_Suc_eq unat_eq_zero) (metis unat_1 word_unat_eq_iff One_nat_def)
  then show ?thesis by (auto simp: RecordGeneration_def RecordCodec_def Let_def reclaimed_def)
qed

theorem record_generation_read_back_witness:
  "\<not> reclaimed (record_header 1 [7] [8] False 3 0) 0"
  using record_generation_read_back [of 1 "[7]" "[8]" False 3 0] by simp

text \<open>
  The checksum guards the header and nothing else: damage to at most four consecutive
  header bytes is rejected, while any change of key or value bytes of the same length is
  read back as data.
\<close>

theorem checksum_covers_header_only:
  assumes "hdr_crc_ok h" "unat (dh_key_len h) = length k" "unat (dh_value_len h) = length v" "dh_reserved0 h = 0"
  shows "ParseRecordAt lib (enc_hdr h @ k @ v) 0 0xFF = Inr (record_of h k v)
    \<and> (\<forall>k' v'. length k' = length k \<and> length v' = length v \<longrightarrow>
         ParseRecordAt lib (enc_hdr h @ k' @ v') 0 0xFF = Inr (record_of h k' v'))
    \<and> (\<forall>h' pre us vs suf. hdr_body h = pre @ us @ suf \<and> hdr_body h' = pre @ vs @ suf \<and> us \<noteq> vs
         \<and> length us = length vs \<and> length us \<le> 4 \<and> dh_record_crc h' = dh_record_crc h \<longrightarrow>
         ParseRecordAt lib (enc_hdr h' @ k @ v) 0 0xFF = Inl (Status_CorruptPage ''datafile crc mismatch''))"
proof -
  have ok: "ParseRecordAt lib (enc_hdr h @ k' @ v') 0 0xFF = Inr (record_of h k' v')"
    if "length k' = length k" "length v' = length v" for k' v'
    using assms that
    by (simp add: ParseRecordAt_def kHeaderSize_def read_enc_hdr Let_def reclaimed_def decode_raw slice_def)
  have bad: "ParseRecordAt lib (enc_hdr h' @ k @ v) 0 0xFF = Inl (Status_CorruptPage ''datafile crc mismatch'')"
    if "hdr_body h = pre @ us @ suf" "hdr_body h' = pre @ vs @ suf" "us \<noteq> vs" "length us = length vs"
      "length us \<le> 4" "dh_record_crc h' = dh_record_crc h" for h' pre us vs suf
  proof -
    have "\<not> hdr_crc_ok h'"
      using that assms(1) Crc32_block_inj [of us vs pre suf] by (auto simp: hdr_crc_ok_def)
    then show ?thesis by (simp add: ParseRecordAt_def kHeaderSize_def read_enc_hdr Let_def)
  qed
  from ok [of k v] ok bad show ?thesis by blast
qed

theorem checksum_covers_header_only_witness:
  "ParseRecordAt no_lzma (enc_hdr (record_header 5 [1] [2, 3] False 0 0) @ [1] @ [9, 9]) 0 0xFF
   = Inr (record_of (record_header 5 [1] [2, 3] False 0 0) [1] [9, 9])"
proof -
  have "ParseRecordAt no_lzma (enc_hdr (record_header 5 [1] [2, 3] False 0 0) @ k' @ v') 0 0xFF
      = Inr (record_of (record_header 5 [1] [2, 3] False 0 0) k' v')" if "length k' = 1" "length v' = 2" for k' v'
    using checksum_covers_header_only [of "record_header 5 [1] [2, 3] False 0 0" "[1]" "[2, 3]" no_lzma] that
    by simp
  from this [of "[1]" "[9, 9]"] show ?thesis by simp
qed

text \<open>
  \<open>ReadHeaderAtLsn\<close> checks the stored checksum against the address of the caller's header
  instead of the header: for a record that was just appended it succeeds for at most one
  value of the low 32 address bits.
\<close>

theorem read_header_depends_on_address:
  assumes "\<not> df_compress df" "df_Append NoFault lib df lsn key val deleted g = (df', st)"
    and "ReadHeaderAtLsn addr df' lsn = Inr h" "ReadHeaderAtLsn addr' df' lsn = Inr h'"
  shows "take 4 (put_u64 addr) = take 4 (put_u64 addr')"
proof -
  have "idx_Lookup (df_index df') lsn = Some (df_FileSize df)" "df_bytes df' \<noteq> None"
    using assms(1,2) by (auto simp: df_Append_def stored_form_def Let_def idx_Lookup_def idx_Update_def update_conv')
  with assms(3,4) have "Crc32 (take 4 (put_u64 addr)) = Crc32 (take 4 (put_u64 addr'))"
    by (auto simp: ReadHeaderAtLsn_def Let_def split: if_splits)
  then show ?thesis using Crc32_block_inj [of "take 4 (put_u64 addr)" "take 4 (put_u64 addr')" "[]" "[]"] by simp
qed


theorem read_header_depends_on_address_witness:
  "\<exists>df' st h. df_Append NoFault no_lzma DataFile_init 1 [1] [7] False 0 = (df', st)
     \<and> ReadHeaderAtLsn 0x7FFD41D7DC24 df' 1 = Inr h
     \<and> (\<forall>a h'. ReadHeaderAtLsn a df' 1 = Inr h' \<longrightarrow> take 4 (put_u64 a) = [0x24, 0xDC, 0xD7, 0x41])"
proof -
  obtain df' st where a: "df_Append NoFault no_lzma DataFile_init 1 [1] [7] False 0 = (df', st)" by fastforce
  let ?h = "record_header 1 [1] [7] False 0 0"
  have put: "take 4 (put_u64 0x7FFD41D7DC24) = [0x24, 0xDC, 0xD7, 0x41]"
    by (simp add: put_u64_def le_bytes_numeral)
  have "hdr_body ?h = [1, 0, 0, 0, 0, 0, 0, 0, 1, 0, 1, 0, 0, 0, 0, 0]"
    by (simp only: hdr_body_def record_header_simps) code_simp
  then have "dh_record_crc ?h = Crc32 [1, 0, 0, 0, 0, 0, 0, 0, 1, 0, 1, 0, 0, 0, 0, 0]"
    using record_header_simps(8) [of 1 "[1]" "[7]" False 0 0] by (simp add: hdr_crc_ok_def)
  also have "\<dots> = 0x452509FF" by (simp add: Crc32_def crc_byte_unroll crc_bit_def crc_poly_def)
  also have "\<dots> = Crc32 (take 4 (put_u64 0x7FFD41D7DC24))"
    unfolding put by (simp add: Crc32_def crc_byte_unroll crc_bit_def crc_poly_def)
  finally have crc: "dh_record_crc ?h = Crc32 (take 4 (put_u64 0x7FFD41D7DC24))" .
  have "df_bytes df' = Some (enc_hdr ?h @ [1] @ [7])" "idx_Lookup (df_index df') 1 = Some 0"
    using a by (auto simp: df_Append_def stored_form_def DataFile_init_def df_content_def df_FileSize_def
        Let_def idx_Lookup_def idx_Update_def)
  then have r: "ReadHeaderAtLsn 0x7FFD41D7DC24 df' 1 = Inr ?h"
    using crc by (simp add: ReadHeaderAtLsn_def kHeaderSize_def read_enc_hdr Let_def)
  have "\<not> df_compress DataFile_init" by (simp add: DataFile_init_def)
  from read_header_depends_on_address [OF this a _ r] a r put show ?thesis by metis
qed

end
