(* ===== verification/PageFile.thy ===== *)
theory PageFile
  imports Codecs
begin

text \<open>
  \<^verbatim>\<open>cpp/include/ebtree/concept/page/page_file.h\<close> and \<^verbatim>\<open>cpp/src/concept/page/page_file.cc\<close>: an
  append-only file of 4096-byte pages with an LRU cache. In the plain format a page is stored as
  it is; in the wrapped format it has a five-byte header and may be compressed.

  \<open>page_file\<close> is the object together with the content of its file (\<open>None\<close> when there is none).
  The read stream is opened once and kept; \<open>pf_read_failed\<close> is its fail bit, which nothing clears.
  The list \<open>pf_cache\<close> is \<open>cache_lru_\<close> with the cached pages, most recent first; the two hash maps
  hold the same offsets. Offsets are natural numbers, wrapped to 64 bits in the header. A \<open>Torn n\<close>
  fault lets \<open>n\<close> more bytes of one call reach the file. \<open>ReadPages\<close>, which reads runs of adjacent
  pages, is not modelled.
\<close>

section \<open>State\<close>

definition kPageSize :: nat where "kPageSize = 4096"
definition kPageFileHeaderSize :: nat where "kPageFileHeaderSize = 4096"
definition kPageFileMagic :: u64 where "kPageFileMagic = 0xEB50414745524C"
definition kStoredPageHeaderSize :: nat where "kStoredPageHeaderSize = 5"
definition kPageCodecRaw :: u8 where "kPageCodecRaw = 0"
definition kPageCodecLzma :: u8 where "kPageCodecLzma = 3"

lemmas page_sizes = kPageSize_def kPageFileHeaderSize_def kStoredPageHeaderSize_def

record page_file =
  pf_file :: "bytes option"
  pf_next :: nat
  pf_compress :: bool
  pf_wrapped :: bool
  pf_read_open :: bool
  pf_read_failed :: bool
  pf_read_opens :: nat
  pf_capacity :: nat
  pf_cache :: "(nat \<times> bytes) list"

definition SetCacheCapacity :: "nat \<Rightarrow> page_file \<Rightarrow> page_file" where
  "SetCacheCapacity pages st = st\<lparr>pf_capacity := pages\<rparr>"

definition SetCompressPages :: "bool \<Rightarrow> page_file \<Rightarrow> page_file" where
  "SetCompressPages enable st =
     (let st1 = st\<lparr>pf_compress := enable\<rparr> in if enable then st1\<lparr>pf_wrapped := True\<rparr> else st1)"

text \<open>\<open>PageFileHeader\<close> is 24 bytes long with its tail padding, taken to be zero.\<close>

definition page_file_header :: "nat \<Rightarrow> bool \<Rightarrow> bytes" where
  "page_file_header next_offset wrapped = put_u64 kPageFileMagic @ put_u64 (word_of_nat next_offset)
     @ put_u32 (if wrapped then 1 else 0) @ replicate 4 0"

definition pf_LoadHeader :: "page_file \<Rightarrow> page_file" where
  "pf_LoadHeader st =
    (case pf_file st of
      None \<Rightarrow> st\<lparr>pf_next := kPageFileHeaderSize\<rparr>
    | Some fb \<Rightarrow>
       if length fb < 24 \<or> get_u64 fb \<noteq> kPageFileMagic then st\<lparr>pf_next := kPageFileHeaderSize\<rparr>
       else st\<lparr>pf_next := unat (get_u64 (drop 8 fb)), pf_wrapped := odd (unat (get_u32 (drop 16 fb)))\<rparr>)"

definition PageFile_open :: "bytes option \<Rightarrow> page_file" where
  "PageFile_open fo = pf_LoadHeader \<lparr>pf_file = fo, pf_next = kPageFileHeaderSize, pf_compress = False,
     pf_wrapped = False, pf_read_open = False, pf_read_failed = False, pf_read_opens = 0,
     pf_capacity = 64, pf_cache = []\<rparr>"

section \<open>Appending\<close>

text \<open>A write of a block at \<open>pos\<close>: the file, whether it is complete, and what the fault still allows.\<close>

definition budget_write :: "fault \<Rightarrow> nat \<Rightarrow> bytes \<Rightarrow> bytes \<Rightarrow> bytes \<times> bool \<times> fault" where
  "budget_write ft pos blk fb =
    (case ft of
      NoFault \<Rightarrow> (write_at pos blk fb, True, NoFault)
    | OpenFails \<Rightarrow> (fb, False, OpenFails)
    | Torn n \<Rightarrow> if length blk \<le> n then (write_at pos blk fb, True, Torn (n - length blk))
                else (write_at pos (take n blk) fb, False, Torn 0))"

definition pf_SaveHeader :: "fault \<Rightarrow> page_file \<Rightarrow> page_file \<times> status" where
  "pf_SaveHeader ft st =
    (if ft = OpenFails then (st, Status_IoError ''pagefile create failed'')
     else
      (let fb = (case pf_file st of None \<Rightarrow> [] | Some fb \<Rightarrow> fb);
           (fb1, done, _) = budget_write ft 0 (page_file_header (pf_next st) (pf_wrapped st)) fb
       in (st\<lparr>pf_file := Some fb1\<rparr>,
           if done then Status_Ok else Status_IoError ''pagefile header write failed'')))"

text \<open>The bytes \<open>WriteStoredPage\<close> writes for a page.\<close>

definition stored_image :: "lzma_lib \<Rightarrow> bool \<Rightarrow> bool \<Rightarrow> bytes \<Rightarrow> bytes" where
  "stored_image lib wrapped compress data =
    (if \<not> wrapped then data
     else
      (let (payload, codec) =
         (if compress then
            (case LzmaCompressPreset lib KPageBlock data of
               Inr lz \<Rightarrow> if pk_compressed lz \<and> length (pk_payload lz) < length data
                          then (pk_payload lz, kPageCodecLzma) else (data, kPageCodecRaw)
             | Inl _ \<Rightarrow> (data, kPageCodecRaw))
          else (data, kPageCodecRaw))
       in put_u32 (word_of_nat (kStoredPageHeaderSize + length payload)) @ [codec] @ payload))"

definition WriteStoredPage ::
  "lzma_lib \<Rightarrow> fault \<Rightarrow> page_file \<Rightarrow> nat \<Rightarrow> bytes \<Rightarrow> bytes \<Rightarrow> bytes \<times> nat res \<times> fault" where
  "WriteStoredPage lib ft st pos data fb =
    (if length data \<noteq> kPageSize then (fb, Inl (Status_InvalidArgument ''bad page write''), ft)
     else
      (let img = stored_image lib (pf_wrapped st) (pf_compress st) data;
           (fb1, done, ft1) = budget_write ft pos img fb
       in (fb1, if done then Inr (length img)
                else Inl (Status_IoError (if pf_wrapped st then ''pagefile wrapped append failed''
                                          else ''pagefile append failed'')), ft1)))"

fun append_loop :: "lzma_lib \<Rightarrow> fault \<Rightarrow> page_file \<Rightarrow> bytes \<Rightarrow> bytes list \<Rightarrow> page_file \<times> bytes \<times> status \<times> fault" where
  "append_loop lib ft st fb [] = (st, fb, Status_Ok, ft)"
| "append_loop lib ft st fb (p # ps) =
    (case WriteStoredPage lib ft st (pf_next st) p fb of
       (fb1, Inl e, ft1) \<Rightarrow> (st, fb1, e, ft1)
     | (fb1, Inr written, ft1) \<Rightarrow> append_loop lib ft1 (st\<lparr>pf_next := pf_next st + written\<rparr>) fb1 ps)"

definition AppendPages :: "lzma_lib \<Rightarrow> fault \<Rightarrow> page_file \<Rightarrow> bytes list \<Rightarrow> page_file \<times> nat res" where
  "AppendPages lib ft st pages =
    (if pages = [] then (st, Inr 0)
     else
      (let st1 = (if pf_compress st then st\<lparr>pf_wrapped := True\<rparr> else st) in
       if ft = OpenFails then (st1, Inl (Status_IoError ''pagefile open failed''))
       else
        (let fb = (case pf_file st1 of
               None \<Rightarrow> page_file_header kPageFileHeaderSize False @ replicate (kPageFileHeaderSize - 24) 0
             | Some fb \<Rightarrow> fb);
             (st2, fb2, ws, ft2) = append_loop lib ft st1 fb pages;
             st3 = st2\<lparr>pf_file := Some fb2\<rparr> in
         if \<not> status_ok ws then (st3, Inl ws)
         else
          (let (st4, hs) = pf_SaveHeader ft2 st3 in
           if \<not> status_ok hs then (st4, Inl hs) else (st4, Inr (pf_next st))))))"

definition AppendPage :: "lzma_lib \<Rightarrow> fault \<Rightarrow> page_file \<Rightarrow> bytes \<Rightarrow> page_file \<times> nat res" where
  "AppendPage lib ft st data =
    (if length data \<noteq> kPageSize then (st, Inl (Status_InvalidArgument ''page must be 4096 bytes''))
     else AppendPages lib ft st [data])"

section \<open>Reading\<close>

definition EnsureReadFileOpen :: "page_file \<Rightarrow> page_file \<times> status" where
  "EnsureReadFileOpen st =
    (if pf_read_open st then (st, Status_Ok)
     else if pf_file st = None then (st, Status_IoError ''pagefile read open failed'')
     else (st\<lparr>pf_read_open := True, pf_read_failed := False, pf_read_opens := pf_read_opens st + 1\<rparr>, Status_Ok))"

text \<open>What a working stream gives at an offset, and whether a read runs into the end of the file.\<close>

definition decode_stored :: "lzma_lib \<Rightarrow> nat \<Rightarrow> u8 \<Rightarrow> bool \<Rightarrow> bytes \<Rightarrow> bytes res \<times> bool" where
  "decode_stored lib total_size codec short payload =
    (if total_size < kStoredPageHeaderSize then (Inl (Status_CorruptPage ''stored page size invalid''), False)
     else if short then (Inl (Status_IoError ''pagefile stored payload read failed''), True)
     else if codec = kPageCodecRaw then
       (if length payload \<noteq> kPageSize then (Inl (Status_CorruptPage ''raw page size mismatch''), False)
        else (Inr payload, False))
     else if codec = kPageCodecLzma then
       (if length payload < 4 then (Inl (Status_CorruptPage ''lzma page trunc''), False)
        else if unat (get_u32 payload) \<noteq> kPageSize
        then (Inl (Status_CorruptPage ''lzma page usize mismatch''), False)
        else (map_sum id (take kPageSize) (LzmaDecompressPayload lib payload (get_u32 payload)), False))
     else (Inl (Status_CorruptPage ''unknown page codec''), False))"

definition stored_page :: "lzma_lib \<Rightarrow> bool \<Rightarrow> bytes \<Rightarrow> nat \<Rightarrow> bytes res \<times> bool" where
  "stored_page lib wrapped fb offset =
    (if \<not> wrapped then
       (if length fb < offset + kPageSize then (Inl (Status_IoError ''pagefile read failed''), True)
        else (Inr (slice offset kPageSize fb), False))
     else if length fb < offset + kStoredPageHeaderSize
     then (Inl (Status_IoError ''pagefile stored header read failed''), True)
     else
      (let total_size = unat (get_u32 (drop offset fb)) in
       decode_stored lib total_size (fb ! (offset + 4)) (length fb < offset + total_size)
         (slice (offset + kStoredPageHeaderSize) (total_size - kStoredPageHeaderSize) fb)))"

definition ReadStoredPage :: "lzma_lib \<Rightarrow> page_file \<Rightarrow> nat \<Rightarrow> page_file \<times> bytes res" where
  "ReadStoredPage lib st offset =
    (let (st1, os) = EnsureReadFileOpen st in
     if \<not> status_ok os then (st1, Inl os)
     else if pf_read_failed st1 then
       (st1, Inl (Status_IoError (if pf_wrapped st then ''pagefile stored header read failed''
                                  else ''pagefile read failed'')))
     else
      (let (r, eof) = stored_page lib (pf_wrapped st1) (case pf_file st1 of None \<Rightarrow> [] | Some fb \<Rightarrow> fb) offset
       in (if eof then st1\<lparr>pf_read_failed := True\<rparr> else st1, r)))"

definition cache_insert :: "page_file \<Rightarrow> nat \<Rightarrow> bytes \<Rightarrow> page_file" where
  "cache_insert st offset page =
    (if pf_capacity st = 0 then st
     else
      (let c = (if pf_capacity st \<le> length (pf_cache st) then butlast (pf_cache st) else pf_cache st)
       in st\<lparr>pf_cache := (offset, page) # c\<rparr>))"

definition ReadPage :: "lzma_lib \<Rightarrow> page_file \<Rightarrow> nat \<Rightarrow> page_file \<times> bytes res" where
  "ReadPage lib st offset =
    (case (if 0 < pf_capacity st then map_of (pf_cache st) offset else None) of
       Some page \<Rightarrow>
         (st\<lparr>pf_cache := (offset, page) # filter (\<lambda>(o1, _). o1 \<noteq> offset) (pf_cache st)\<rparr>, Inr page)
     | None \<Rightarrow>
         (let (st1, r) = ReadStoredPage lib st offset in
          case r of Inl e \<Rightarrow> (st1, Inl e) | Inr page \<Rightarrow> (cache_insert st1 offset page, Inr page)))"

section \<open>A stored page reads back\<close>

lemma length_page_file_header [simp, layout_simps]: "length (page_file_header n w) = 24"
  by (simp add: page_file_header_def)

lemma compressed_payload:
  assumes "lzma_sound lib" "LzmaCompressPreset lib KPageBlock data = Inr lz" "pk_compressed lz" "length data = 4096"
  shows "get_u32 (pk_payload lz) = 4096 \<and> 4 \<le> length (pk_payload lz)
    \<and> LzmaDecompressPayload lib (pk_payload lz) 4096 = Inr data"
proof -
  have "get_u32 (pk_payload lz) = 4096 \<and> 4 \<le> length (pk_payload lz) \<and> pk_uncompressed_size lz = 4096"
    using assms(2-4) by (auto simp: LzmaCompressPreset_def Let_def PackLzmaPayload_def split: option.splits prod.splits if_splits)
  with Lzma_unpack [OF assms(1-3)] assms(4) show ?thesis by simp
qed

lemma stored_wrapped:
  assumes "length payload \<le> 4096"
  shows "stored_page lib True (pre @ (put_u32 (word_of_nat (5 + length payload)) @ [codec] @ payload) @ post) (length pre)
    = decode_stored lib (5 + length payload) codec False payload"
proof -
  have "unat (word_of_nat (5 + length payload) :: u32) = 5 + length payload"
    using assms by (simp add: unat_of_nat del: of_nat_add)
  then show ?thesis
    by (simp add: stored_page_def page_sizes Let_def nth_append slice_def del: of_nat_add)
qed

lemma stored_image_reads:
  assumes "w \<Longrightarrow> lzma_sound lib" "length data = kPageSize"
  shows "stored_page lib w (pre @ stored_image lib w c data @ post) (length pre) = (Inr data, False)"
proof (cases w)
  case False
  then show ?thesis using assms(2) by (simp add: stored_page_def stored_image_def slice_def)
next
  case True
  have raw: "stored_page lib True (pre @ (put_u32 (word_of_nat (5 + length data)) @ [kPageCodecRaw] @ data) @ post)
      (length pre) = (Inr data, False)"
    using stored_wrapped [of data lib pre kPageCodecRaw post] assms(2) by (simp add: decode_stored_def page_sizes)
  show ?thesis
  proof (cases "\<exists>lz. c \<and> LzmaCompressPreset lib KPageBlock data = Inr lz \<and> pk_compressed lz
      \<and> length (pk_payload lz) < length data")
    case True
    then obtain lz where lz: "c" "LzmaCompressPreset lib KPageBlock data = Inr lz" "pk_compressed lz"
      "length (pk_payload lz) < length data" by blast
    then show ?thesis
      using \<open>w\<close> compressed_payload [OF assms(1) [OF \<open>w\<close>] lz(2,3)] assms(2)
        stored_wrapped [of "pk_payload lz" lib pre kPageCodecLzma post]
      by (simp add: stored_image_def decode_stored_def page_sizes kPageCodecRaw_def kPageCodecLzma_def)
  next
    case False
    then have "stored_image lib True c data = put_u32 (word_of_nat (5 + length data)) @ [kPageCodecRaw] @ data"
      by (auto simp: stored_image_def page_sizes split: sum.split)
    with raw \<open>w\<close> show ?thesis by simp
  qed
qed

section \<open>The cache\<close>

abbreviation file_bytes :: "page_file \<Rightarrow> bytes" where
  "file_bytes st \<equiv> (case pf_file st of None \<Rightarrow> [] | Some fb \<Rightarrow> fb)"

definition page_view :: "lzma_lib \<Rightarrow> page_file \<Rightarrow> nat \<Rightarrow> bytes res" where
  "page_view lib st offset = fst (stored_page lib (pf_wrapped st) (file_bytes st) offset)"

definition cache_ok :: "lzma_lib \<Rightarrow> page_file \<Rightarrow> bool" where
  "cache_ok lib st \<longleftrightarrow> distinct (map fst (pf_cache st)) \<and> pf_file st \<noteq> None
     \<and> (\<forall>(offset, page) \<in> set (pf_cache st). page_view lib st offset = Inr page)"

lemma map_of_cache: "cache_ok lib st \<Longrightarrow> map_of (pf_cache st) offset = Some page \<Longrightarrow> page_view lib st offset = Inr page"
  by (auto simp: cache_ok_def dest!: map_of_SomeD)

lemma ReadStoredPage_frame:
  "pf_file (fst (ReadStoredPage lib st offset)) = pf_file st"
  "pf_wrapped (fst (ReadStoredPage lib st offset)) = pf_wrapped st"
  "pf_cache (fst (ReadStoredPage lib st offset)) = pf_cache st"
  "pf_next (fst (ReadStoredPage lib st offset)) = pf_next st"
  "pf_capacity (fst (ReadStoredPage lib st offset)) = pf_capacity st"
  by (auto simp: ReadStoredPage_def EnsureReadFileOpen_def Let_def status_defs split: prod.splits)

lemma ReadStoredPage_view:
  assumes "pf_file st \<noteq> None" "pf_read_open st \<longrightarrow> \<not> pf_read_failed st"
  shows "snd (ReadStoredPage lib st offset) = page_view lib st offset"
    and "pf_read_failed (fst (ReadStoredPage lib st offset)) = snd (stored_page lib (pf_wrapped st) (file_bytes st) offset)"
  using assms by (auto simp: ReadStoredPage_def EnsureReadFileOpen_def page_view_def Let_def status_defs split: prod.splits)

lemma cache_insert_ok:
  assumes "cache_ok lib st" "page_view lib st offset = Inr page" "map_of (pf_cache st) offset = None"
  shows "cache_ok lib (cache_insert st offset page)"
proof -
  let ?c = "if pf_capacity st \<le> length (pf_cache st) then butlast (pf_cache st) else pf_cache st"
  have sub: "set ?c \<subseteq> set (pf_cache st)" by (auto dest: in_set_butlastD)
  have "distinct (map fst ?c)" using assms(1) by (auto simp: cache_ok_def map_butlast distinct_butlast)
  moreover have "offset \<notin> set (map fst ?c)"
    using assms(3) sub by (auto simp: map_of_eq_None_iff)
  ultimately show ?thesis
    using assms(1,2) sub by (auto simp: cache_ok_def cache_insert_def page_view_def Let_def subset_iff)
qed

lemma cache_touch_ok:
  assumes "cache_ok lib st" "map_of (pf_cache st) offset = Some page"
  shows "cache_ok lib (st\<lparr>pf_cache := (offset, page) # filter (\<lambda>(o1, _). o1 \<noteq> offset) (pf_cache st)\<rparr>)"
  using assms map_of_cache [OF assms]
  by (auto simp: cache_ok_def page_view_def distinct_map_filter)

text \<open>
  The page cache is invisible: with a consistent cache and a working read stream, \<open>ReadPage\<close>
  returns what the file holds at the offset, leaves the file as it is, and keeps the cache
  consistent, so that every later read is again what the file holds.
\<close>

theorem page_cache_transparent:
  assumes "cache_ok lib st" "pf_read_open st \<longrightarrow> \<not> pf_read_failed st"
  shows "snd (ReadPage lib st offset) = page_view lib st offset
    \<and> cache_ok lib (fst (ReadPage lib st offset))
    \<and> page_view lib (fst (ReadPage lib st offset)) = page_view lib st
    \<and> pf_file (fst (ReadPage lib st offset)) = pf_file st
    \<and> (pf_read_failed (fst (ReadPage lib st offset)) \<longrightarrow> pf_read_failed st \<or> (\<exists>e. page_view lib st offset = Inl e))"
proof (cases "if 0 < pf_capacity st then map_of (pf_cache st) offset else None")
  case (Some page)
  then have m: "map_of (pf_cache st) offset = Some page" by (auto split: if_splits)
  show ?thesis
    using Some map_of_cache [OF assms(1) m] cache_touch_ok [OF assms(1) m]
    by (auto simp: ReadPage_def page_view_def)
next
  case None
  let ?s = "fst (ReadStoredPage lib st offset)"
  have some: "pf_file st \<noteq> None" using assms(1) by (simp add: cache_ok_def)
  note v = ReadStoredPage_view [OF some assms(2), of lib offset]
  note fr = ReadStoredPage_frame [of lib st offset]
  have view: "page_view lib ?s = page_view lib st" by (auto simp: page_view_def fr)
  have ok: "cache_ok lib ?s" using assms(1) by (auto simp: cache_ok_def fr view)
  have e: "snd (stored_page lib w fb o1) \<Longrightarrow> \<exists>e. fst (stored_page lib w fb o1) = Inl e" for w fb o1
    by (auto simp: stored_page_def decode_stored_def Let_def split: if_splits)
  show ?thesis
  proof (cases "page_view lib st offset")
    case (Inl err)
    then show ?thesis using None v view ok fr by (simp add: ReadPage_def case_prod_beta)
  next
    case (Inr page)
    have i: "pf_file (cache_insert s o1 p) = pf_file s" "pf_wrapped (cache_insert s o1 p) = pf_wrapped s"
      "pf_read_failed (cache_insert s o1 p) = pf_read_failed s" for s o1 p
      by (simp_all add: cache_insert_def Let_def)
    have "cache_ok lib (cache_insert ?s offset page)"
    proof (cases "pf_capacity st = 0")
      case True
      then show ?thesis using ok fr by (simp add: cache_insert_def)
    next
      case False
      then show ?thesis using None ok Inr view fr by (intro cache_insert_ok) auto
    qed
    moreover have "\<not> pf_read_failed ?s"
      using v(2) e [of "pf_wrapped st" "file_bytes st" offset] Inr by (auto simp: page_view_def)
    moreover have "page_view lib (cache_insert ?s offset page) = page_view lib st"
      by (rule ext) (simp add: page_view_def i fr)
    ultimately show ?thesis
      using None v Inr view fr by (simp add: ReadPage_def case_prod_beta i)
  qed
qed

definition two_pages :: page_file where
  "two_pages = \<lparr>pf_file = Some (replicate 8192 7), pf_next = 8192, pf_compress = False, pf_wrapped = False,
     pf_read_open = False, pf_read_failed = False, pf_read_opens = 0, pf_capacity = 64, pf_cache = []\<rparr>"

theorem page_cache_transparent_witness:
  "snd (ReadPage no_lzma (fst (ReadPage no_lzma two_pages 4096)) 4096) = Inr (replicate 4096 7)"
proof -
  let ?st = two_pages
  have f: "pf_file ?st = Some (replicate 8192 7)" "\<not> pf_wrapped ?st" "pf_cache ?st = []" "\<not> pf_read_open ?st"
    "\<not> pf_read_failed ?st"
    by (simp_all add: two_pages_def)
  have v: "page_view no_lzma ?st 4096 = Inr (replicate 4096 7)"
    by (simp add: page_view_def stored_page_def f page_sizes slice_def)
  have "cache_ok no_lzma ?st" by (simp add: cache_ok_def f)
  note r = page_cache_transparent [OF this, of 4096]
  then have "pf_read_open (fst (ReadPage no_lzma ?st 4096)) \<longrightarrow> \<not> pf_read_failed (fst (ReadPage no_lzma ?st 4096))"
    using f v by auto
  then show ?thesis
    using page_cache_transparent [of no_lzma "fst (ReadPage no_lzma ?st 4096)" 4096] r f v by simp
qed

section \<open>Appending and reading back\<close>

definition base_bytes :: "page_file \<Rightarrow> bytes" where
  "base_bytes st = (case pf_file st of
     None \<Rightarrow> page_file_header kPageFileHeaderSize False @ replicate (kPageFileHeaderSize - 24) 0
   | Some fb \<Rightarrow> fb)"

definition pf_ok :: "page_file \<Rightarrow> bool" where
  "pf_ok st \<longleftrightarrow> kPageFileHeaderSize \<le> pf_next st \<and> pf_next st \<le> length (base_bytes st)"

definition wrapped_after :: "page_file \<Rightarrow> bool" where
  "wrapped_after st \<longleftrightarrow> pf_wrapped st \<or> pf_compress st"

definition images :: "lzma_lib \<Rightarrow> page_file \<Rightarrow> bytes list \<Rightarrow> bytes list" where
  "images lib st ps = map (stored_image lib (wrapped_after st) (pf_compress st)) ps"

lemma append_loop_ok:
  assumes "\<forall>p \<in> set ps. length p = kPageSize" "pf_next st \<le> length fb"
  shows "append_loop lib NoFault st fb ps =
    (let blk = concat (map (stored_image lib (pf_wrapped st) (pf_compress st)) ps) in
     (st\<lparr>pf_next := pf_next st + length blk\<rparr>,
      take (pf_next st) fb @ blk @ drop (pf_next st + length blk) fb, Status_Ok, NoFault))"
  using assms
proof (induction ps arbitrary: st fb)
  case (Cons p ps)
  let ?img = "stored_image lib (pf_wrapped st) (pf_compress st) p"
  let ?st = "st\<lparr>pf_next := pf_next st + length ?img\<rparr>"
  have w: "WriteStoredPage lib NoFault st (pf_next st) p fb = (write_at (pf_next st) ?img fb, Inr (length ?img), NoFault)"
    using Cons.prems by (simp add: WriteStoredPage_def budget_write_def Let_def)
  have fb: "write_at (pf_next st) ?img fb = take (pf_next st) fb @ ?img @ drop (pf_next st + length ?img) fb"
    using Cons.prems(2) by (simp add: write_at_inside overwrite_def)
  then have "pf_next ?st \<le> length (write_at (pf_next st) ?img fb)" using Cons.prems(2) by simp
  from Cons.IH [OF _ this] Cons.prems show ?case
    by (simp add: w Let_def) (simp add: fb ac_simps)
qed (simp add: Let_def)

lemma AppendPages_ok:
  fixes lib :: lzma_lib and st :: page_file and ps :: "bytes list"
  assumes "pf_ok st" "ps \<noteq> []" "\<forall>p \<in> set ps. length p = kPageSize"
  defines "blk \<equiv> concat (images lib st ps)"
  shows "AppendPages lib NoFault st ps =
    (st\<lparr>pf_wrapped := wrapped_after st, pf_next := pf_next st + length blk,
       pf_file := Some (page_file_header (pf_next st + length blk) (wrapped_after st)
         @ drop 24 (take (pf_next st) (base_bytes st)) @ blk @ drop (pf_next st + length blk) (base_bytes st))\<rparr>,
     Inr (pf_next st))"
proof -
  let ?st1 = "if pf_compress st then st\<lparr>pf_wrapped := True\<rparr> else st"
  have st1: "pf_next ?st1 = pf_next st" "pf_file ?st1 = pf_file st" "pf_wrapped ?st1 = wrapped_after st"
    "pf_compress ?st1 = pf_compress st" "?st1 = st\<lparr>pf_wrapped := wrapped_after st\<rparr>"
    by (auto simp: wrapped_after_def)
  have next24: "24 \<le> pf_next st" using assms(1) by (simp add: pf_ok_def page_sizes)
  have loop: "append_loop lib NoFault ?st1 (base_bytes st) ps = (?st1\<lparr>pf_next := pf_next st + length blk\<rparr>,
      take (pf_next st) (base_bytes st) @ blk @ drop (pf_next st + length blk) (base_bytes st), Status_Ok, NoFault)"
    using append_loop_ok [of ps ?st1 "base_bytes st" lib] assms(1,3)
    by (simp only: st1 Let_def blk_def images_def) (simp add: pf_ok_def)
  have "write_at 0 (page_file_header n w) (take (pf_next st) (base_bytes st) @ r)
      = page_file_header n w @ drop 24 (take (pf_next st) (base_bytes st)) @ r" for n w r
    using next24 assms(1) by (simp add: write_at_def pf_ok_def)
  moreover have "AppendPages lib NoFault st ps =
    (case append_loop lib NoFault (st\<lparr>pf_wrapped := wrapped_after st\<rparr>) (base_bytes st) ps of
       (st2, fb2, ws, ft2) \<Rightarrow>
         if \<not> status_ok ws then (st2\<lparr>pf_file := Some fb2\<rparr>, Inl ws)
         else case pf_SaveHeader ft2 (st2\<lparr>pf_file := Some fb2\<rparr>) of
           (st4, hs) \<Rightarrow> if \<not> status_ok hs then (st4, Inl hs) else (st4, Inr (pf_next st)))"
    unfolding AppendPages_def st1(5) Let_def using assms(2) by (simp add: base_bytes_def)
  ultimately show ?thesis
    using loop unfolding st1(5) by (simp add: pf_SaveHeader_def budget_write_def status_ok_def Status_Ok_def)
qed

lemma stored_page_more:
  assumes "stored_page lib w fb offset = (Inr p, e)"
  shows "stored_page lib w (fb @ rest) offset = (Inr p, e)"
proof (cases w)
  case False
  then show ?thesis using assms by (auto simp: stored_page_def slice_def split: if_splits)
next
  case True
  let ?n = "unat (get_u32 (drop offset fb))"
  have l: "offset + 5 \<le> length fb" using assms True by (auto simp: stored_page_def page_sizes split: if_splits)
  then have d: "decode_stored lib ?n (fb ! (offset + 4)) (length fb < offset + ?n) (slice (offset + 5) (?n - 5) fb) = (Inr p, e)"
    using assms True by (simp add: stored_page_def page_sizes Let_def)
  then have n: "5 \<le> ?n" "offset + ?n \<le> length fb"
    by (auto simp: decode_stored_def page_sizes split: if_splits)
  have h: "get_u32 (drop offset (fb @ rest)) = get_u32 (drop offset fb)" "(fb @ rest) ! (offset + 4) = fb ! (offset + 4)"
    using l by (simp_all add: get_u32_def nth_append)
  have sl: "slice (offset + 5) (?n - 5) (fb @ rest) = slice (offset + 5) (?n - 5) fb"
    using n by (simp add: slice_def)
  have c: "(length (fb @ rest) < offset + ?n) = (length fb < offset + ?n)"
    "\<not> length (fb @ rest) < offset + 5" using n l by auto
  show ?thesis
    unfolding stored_page_def page_sizes Let_def h sl c(1) using True c(2) d by (simp only: simp_thms if_False)
qed

lemma stored_page_shift:
  assumes "length a = length b" "length a \<le> offset"
  shows "stored_page lib w (a @ fb) offset = stored_page lib w (b @ fb) offset"
proof -
  have "slice (offset + k) n (a @ fb) = slice (offset + k) n (b @ fb)"
    "drop (offset + k) (a @ fb) = drop (offset + k) (b @ fb)" "(a @ fb) ! (offset + k) = (b @ fb) ! (offset + k)" for k n
    using assms by (simp_all add: slice_def nth_append)
  from this [of 0] this [of 4] this [of kStoredPageHeaderSize] assms(1) show ?thesis
    by (simp add: stored_page_def)
qed


text \<open>What the file holds below the append position, read through the flags of an object.\<close>

definition committed_view :: "lzma_lib \<Rightarrow> page_file \<Rightarrow> nat \<Rightarrow> bytes res" where
  "committed_view lib st offset = fst (stored_page lib (pf_wrapped st) (take (pf_next st) (base_bytes st)) offset)"

definition page_address :: "lzma_lib \<Rightarrow> page_file \<Rightarrow> bytes list \<Rightarrow> nat \<Rightarrow> nat" where
  "page_address lib st ps i = pf_next st + length (concat (take i (images lib st ps)))"

lemma length_base_prefix: "pf_ok st \<Longrightarrow> length (take (pf_next st) (base_bytes st)) = pf_next st"
  by (simp add: pf_ok_def)

lemma pf_ok_24: "pf_ok st \<Longrightarrow> 24 \<le> pf_next st"
  by (simp add: pf_ok_def page_sizes)

lemma concat_split_at: "i < length xs \<Longrightarrow> concat xs = concat (take i xs) @ xs ! i @ concat (drop (Suc i) xs)"
  by (subst id_take_nth_drop [of i xs]) simp_all

lemma header_shift:
  assumes "pf_ok st" "kPageFileHeaderSize \<le> offset"
  shows "stored_page lib w (page_file_header n w1 @ drop 24 (take (pf_next st) (base_bytes st)) @ rest) offset
    = stored_page lib w (take (pf_next st) (base_bytes st) @ rest) offset"
proof -
  let ?t = "take (pf_next st) (base_bytes st)"
  have "24 \<le> length ?t" using length_base_prefix [OF assms(1)] pf_ok_24 [OF assms(1)] by simp
  then have "stored_page lib w (page_file_header n w1 @ (drop 24 ?t @ rest)) offset
      = stored_page lib w (take 24 ?t @ (drop 24 ?t @ rest)) offset"
    using assms(2) by (intro stored_page_shift) (auto simp: page_sizes)
  then show ?thesis by (simp only: append_assoc [symmetric] append_take_drop_id)
qed

lemma stored_image_at:
  assumes "w \<Longrightarrow> lzma_sound lib" "length p = kPageSize" "fb = pre @ stored_image lib w c p @ post" "length pre = a"
  shows "stored_page lib w fb a = (Inr p, False)"
  using stored_image_reads [OF assms(1,2), of w pre c post] assms(3,4) by simp

lemma appended_page:
  fixes i :: nat
  assumes "wrapped_after st \<Longrightarrow> lzma_sound lib" "pf_ok st" "\<forall>p \<in> set ps. length p = kPageSize" "i < length ps"
  shows "stored_page lib (wrapped_after st)
      (take (pf_next st) (base_bytes st) @ concat (images lib st ps) @ rest) (page_address lib st ps i) = (Inr (ps ! i), False)"
proof -
  let ?t = "take (pf_next st) (base_bytes st)" and ?imgs = "images lib st ps"
  have i: "i < length ?imgs" using assms(4) by (simp add: images_def)
  have img: "?imgs ! i = stored_image lib (wrapped_after st) (pf_compress st) (ps ! i)"
    using assms(4) by (simp add: images_def)
  have fb: "?t @ concat ?imgs @ rest = (?t @ concat (take i ?imgs)) @ stored_image lib (wrapped_after st) (pf_compress st) (ps ! i)
      @ (concat (drop (Suc i) ?imgs) @ rest)"
    by (subst concat_split_at [OF i]) (simp add: img)
  have a: "length (?t @ concat (take i ?imgs)) = page_address lib st ps i"
    using length_base_prefix [OF assms(2)] by (simp add: page_address_def)
  have "length (ps ! i) = kPageSize" using assms(3,4) by simp
  from stored_image_at [OF assms(1) this fb a] show ?thesis .
qed

lemma reopen_header:
  assumes "n < 2 ^ 64" "24 \<le> n"
  shows "pf_next (PageFile_open (Some (page_file_header n w @ rest))) = n
    \<and> pf_wrapped (PageFile_open (Some (page_file_header n w @ rest))) = w"
proof -
  let ?fb = "page_file_header n w @ rest"
  have "length ?fb = 24 + length rest" by simp
  moreover have "get_u64 ?fb = kPageFileMagic" by (simp add: page_file_header_def)
  moreover have "get_u64 (drop 8 ?fb) = word_of_nat n" by (simp add: page_file_header_def)
  moreover have "get_u32 (drop 16 ?fb) = (if w then 1 else 0)" by (simp add: page_file_header_def)
  moreover have "unat (word_of_nat n :: u64) = n" using assms(1) by (simp add: unat_of_nat)
  ultimately show ?thesis by (simp add: PageFile_open_def pf_LoadHeader_def)
qed

lemma appended_prefix:
  assumes "pf_ok st" "ps \<noteq> []" "\<forall>p \<in> set ps. length p = kPageSize"
    and "AppendPages lib NoFault st ps = (st', r)"
  shows "take (pf_next st') (base_bytes st') = page_file_header (pf_next st') (wrapped_after st)
      @ drop 24 (take (pf_next st) (base_bytes st)) @ concat (images lib st ps)"
    and "pf_ok st'" "pf_wrapped st' = wrapped_after st" "r = Inr (pf_next st)"
    and "pf_next st' = page_address lib st ps (length ps)"
    and "\<exists>rest. pf_file st' = Some (page_file_header (pf_next st') (wrapped_after st) @ rest)"
proof -
  let ?blk = "concat (images lib st ps)" and ?t = "take (pf_next st) (base_bytes st)"
  let ?n = "pf_next st + length ?blk"
  let ?h = "page_file_header ?n (wrapped_after st)"
  note a = AppendPages_ok [OF assms(1-3), of lib, unfolded assms(4)]
  have st': "pf_next st' = ?n" "pf_wrapped st' = wrapped_after st"
    "pf_file st' = Some (?h @ drop 24 ?t @ ?blk @ drop ?n (base_bytes st))"
    using a by simp_all
  have base: "base_bytes st' = (?h @ drop 24 ?t @ ?blk) @ drop ?n (base_bytes st)"
    by (simp add: base_bytes_def st')
  have lt: "length (?h @ drop 24 ?t @ ?blk) = ?n"
    using length_base_prefix [OF assms(1)] pf_ok_24 [OF assms(1)] by simp
  show "take (pf_next st') (base_bytes st')
      = page_file_header (pf_next st') (wrapped_after st) @ drop 24 ?t @ ?blk"
    unfolding base st'(1) by (rule take_append_exact [OF lt])
  show "pf_ok st'" using assms(1) lt by (simp add: pf_ok_def base st')
  show "pf_next st' = page_address lib st ps (length ps)" by (simp add: st' page_address_def images_def)
  show "pf_wrapped st' = wrapped_after st" "r = Inr (pf_next st)" using a st' by simp_all
  show "\<exists>rest. pf_file st' = Some (page_file_header (pf_next st') (wrapped_after st) @ rest)"
    using st' by simp
qed

lemma appended_view:
  assumes "pf_ok st" "ps \<noteq> []" "\<forall>p \<in> set ps. length p = kPageSize"
    and "AppendPages lib NoFault st ps = (st', r)" "kPageFileHeaderSize \<le> offset"
  shows "committed_view lib st' offset
    = fst (stored_page lib (wrapped_after st) (take (pf_next st) (base_bytes st) @ concat (images lib st ps)) offset)"
  unfolding committed_view_def appended_prefix(1) [OF assms(1-4)] appended_prefix(3) [OF assms(1-4)]
    header_shift [OF assms(1,5)] ..

text \<open>
  C31. An append that completes, to a page file of either format (with a compressor that decodes what it encodes
  where the format is the wrapped one), returns the old append position; each page of the call reads back
  at the position where its image starts, whatever the codec did; everything that was readable
  below the append position still reads the same, provided the format did not change; and opening
  the file again gives the new append position and format.
\<close>

theorem append_pages_read_back:
  assumes "wrapped_after st \<longrightarrow> lzma_sound lib" "pf_ok st" "ps \<noteq> []" "\<forall>p \<in> set ps. length p = kPageSize"
    and "AppendPages lib NoFault st ps = (st', r)"
  shows "r = Inr (pf_next st) \<and> pf_ok st' \<and> pf_next st' = page_address lib st ps (length ps)
    \<and> (\<forall>i < length ps. committed_view lib st' (page_address lib st ps i) = Inr (ps ! i))
    \<and> (\<forall>offset p. kPageFileHeaderSize \<le> offset \<and> wrapped_after st = pf_wrapped st
        \<and> committed_view lib st offset = Inr p \<longrightarrow> committed_view lib st' offset = Inr p)
    \<and> (pf_next st' < 2 ^ 64 \<longrightarrow> pf_next (PageFile_open (pf_file st')) = pf_next st'
        \<and> pf_wrapped (PageFile_open (pf_file st')) = pf_wrapped st')"
proof -
  let ?t = "take (pf_next st) (base_bytes st)"
  note a = appended_prefix [OF assms(2-5)] and view = appended_view [OF assms(2-5)]
  have ge: "kPageFileHeaderSize \<le> page_address lib st ps i" for i
    using assms(2) by (simp add: page_address_def pf_ok_def)
  have "committed_view lib st' (page_address lib st ps i) = Inr (ps ! i)" if "i < length ps" for i
    using appended_page [OF assms(1) [rule_format] assms(2,4) that, of "[]"] by (simp add: view [OF ge])
  moreover have "committed_view lib st' o1 = Inr p"
    if "kPageFileHeaderSize \<le> o1" "wrapped_after st = pf_wrapped st" "committed_view lib st o1 = Inr p" for o1 p
  proof -
    note v = that
    obtain e where "stored_page lib (pf_wrapped st) ?t o1 = (Inr p, e)"
      using v(3) by (cases "stored_page lib (pf_wrapped st) ?t o1") (auto simp: committed_view_def)
    from stored_page_more [OF this, of "concat (images lib st ps)"] v show ?thesis by (simp add: view)
  qed
  moreover have "24 \<le> pf_next st'" by (rule pf_ok_24 [OF a(2)])
  ultimately show ?thesis
    using a(2-6) reopen_header [of "pf_next st'" "wrapped_after st"] by auto
qed

theorem append_pages_read_back_witness:
  "committed_view no_lzma (fst (AppendPages no_lzma NoFault (PageFile_open None) [replicate 4096 7])) 4096
    = Inr (replicate 4096 7)"
proof -
  let ?st = "PageFile_open None"
  have st: "pf_next ?st = 4096" "\<not> wrapped_after ?st" "pf_compress ?st = False"
    by (simp_all add: PageFile_open_def pf_LoadHeader_def wrapped_after_def page_sizes)
  have "pf_file ?st = None" by (simp add: PageFile_open_def pf_LoadHeader_def)
  then have ok: "pf_ok ?st" by (simp add: pf_ok_def st base_bytes_def page_sizes)
  have sound: "lzma_sound no_lzma" by (simp add: lzma_sound_def no_lzma_def)
  have a: "page_address no_lzma ?st [replicate 4096 7] 0 = 4096"
    by (simp add: page_address_def st)
  have "\<forall>i < length [replicate 4096 (7::byte)].
      committed_view no_lzma (fst (AppendPages no_lzma NoFault ?st [replicate 4096 7]))
        (page_address no_lzma ?st [replicate 4096 7] i) = Inr ([replicate 4096 7] ! i)"
    using append_pages_read_back [OF _ ok, where ps = "[replicate 4096 7]" and lib = no_lzma]
    by (simp add: kPageSize_def prod_eq_iff sound)
  then show ?thesis using a by force
qed

lemma stored_zero_size:
  assumes "offset + 5 \<le> length fb" "get_u32 (drop offset fb) = 0"
  shows "stored_page lib True fb offset = (Inl (Status_CorruptPage ''stored page size invalid''), False)"
  using assms by (simp add: stored_page_def page_sizes decode_stored_def)

lemma no_lzma_raw: "\<exists>e. LzmaCompressPreset no_lzma k x = Inl e \<or>
    (\<exists>lz. LzmaCompressPreset no_lzma k x = Inr lz \<and> \<not> pk_compressed lz)"
  by (auto simp: LzmaCompressPreset_def no_lzma_def PackLzmaPayload_def Let_def split: option.splits prod.splits)

text \<open>
  Pages of the wrapped format are longer than a page, so the address of page \<open>i\<close> of a call is not
  \<open>first + i * kPageSize\<close>, which is how the B-tree computes it: after appending two pages whose
  first ends in five zero bytes, that address holds no page.
\<close>

theorem wrapped_addresses_shift:
  assumes "lzma_sound no_lzma" "pf_ok st" "pf_compress st" "length p = kPageSize" "length q = kPageSize"
    and "drop 4091 p = replicate 5 0"
  shows "committed_view no_lzma (fst (AppendPages no_lzma NoFault st [p, q])) (pf_next st + kPageSize)
    = Inl (Status_CorruptPage ''stored page size invalid'')"
proof -
  let ?t = "take (pf_next st) (base_bytes st)"
  let ?pages = "?t @ concat (images no_lzma st [p, q])"
  have w: "wrapped_after st" using assms(3) by (simp add: wrapped_after_def)
  have img: "stored_image no_lzma True True x = put_u32 (word_of_nat (5 + length x)) @ [kPageCodecRaw] @ x" for x
    using no_lzma_raw [of KPageBlock x] by (auto simp: stored_image_def page_sizes split: sum.splits)
  have blk: "concat (images no_lzma st [p, q])
      = put_u32 (word_of_nat (5 + length p)) @ [kPageCodecRaw] @ p @ stored_image no_lzma True True q"
    using assms(3) w by (simp add: images_def img del: of_nat_add)
  have len: "length ?pages = pf_next st + 8202"
    using length_base_prefix [OF assms(2)] assms(4,5) by (simp add: blk img page_sizes del: of_nat_add)
  have d: "drop (pf_next st + 4096) ?pages = replicate 5 0 @ stored_image no_lzma True True q"
    using length_base_prefix [OF assms(2)] assms(4,6) by (simp add: blk page_sizes del: of_nat_add)
  have z: "get_u32 (replicate 5 0 @ rest) = 0" for rest
    by (simp add: get_u32_def numeral_eq_Suc)
  have "stored_page no_lzma True ?pages (pf_next st + 4096)
      = (Inl (Status_CorruptPage ''stored page size invalid''), False)"
    by (rule stored_zero_size) (simp only: len, simp only: d z)
  then have "stored_page no_lzma True ?pages (pf_next st + kPageSize)
      = (Inl (Status_CorruptPage ''stored page size invalid''), False)"
    by (simp only: kPageSize_def)
  then show ?thesis
    using appended_view [OF assms(2) _ _ prod.collapse [symmetric], where ps = "[p, q]" and lib = no_lzma
      and offset = "pf_next st + kPageSize"] assms(2,4,5) w
    by (simp add: pf_ok_def)
qed

section \<open>The page store the B-tree builds on\<close>

text \<open>
  \<open>page_store\<close> is what the B-tree needs of a page file: pages of one call lie one page size apart
  from the old append position on, and what could be read stays readable. The plain format has
  these laws, the wrapped one does not.
\<close>

definition pages_at :: "(nat \<Rightarrow> bytes res) \<Rightarrow> nat \<Rightarrow> bytes list \<Rightarrow> bool" where
  "pages_at view base ps \<longleftrightarrow> (\<forall>i < length ps. view (base + i * kPageSize) = Inr (ps ! i))"

locale page_store =
  fixes append :: "'s \<Rightarrow> bytes list \<Rightarrow> 's"
    and next_at :: "'s \<Rightarrow> nat"
    and view :: "'s \<Rightarrow> nat \<Rightarrow> bytes res"
    and ok :: "'s \<Rightarrow> bool"
  assumes append_ok: "ok s \<Longrightarrow> ps \<noteq> [] \<Longrightarrow> \<forall>p \<in> set ps. length p = kPageSize \<Longrightarrow> ok (append s ps)"
    and next_append: "ok s \<Longrightarrow> ps \<noteq> [] \<Longrightarrow> \<forall>p \<in> set ps. length p = kPageSize
      \<Longrightarrow> next_at (append s ps) = next_at s + length ps * kPageSize"
    and view_new: "ok s \<Longrightarrow> ps \<noteq> [] \<Longrightarrow> \<forall>p \<in> set ps. length p = kPageSize
      \<Longrightarrow> pages_at (view (append s ps)) (next_at s) ps"
    and view_old: "ok s \<Longrightarrow> ps \<noteq> [] \<Longrightarrow> \<forall>p \<in> set ps. length p = kPageSize \<Longrightarrow> kPageFileHeaderSize \<le> offset
      \<Longrightarrow> view s offset = Inr page \<Longrightarrow> view (append s ps) offset = Inr page"
    and next_ge: "ok s \<Longrightarrow> kPageFileHeaderSize \<le> next_at s"
begin

lemma pages_at_append:
  assumes "ok s" "ps \<noteq> []" "\<forall>p \<in> set ps. length p = kPageSize" "kPageFileHeaderSize \<le> base" "pages_at (view s) base qs"
  shows "pages_at (view (append s ps)) base qs"
  using assms by (simp add: pages_at_def view_old)

lemma pages_at_fold:
  assumes "ok s" "\<forall>ps \<in> set pss. ps \<noteq> [] \<and> (\<forall>p \<in> set ps. length p = kPageSize)"
    and "kPageFileHeaderSize \<le> base" "pages_at (view s) base qs"
  shows "ok (foldl append s pss) \<and> pages_at (view (foldl append s pss)) base qs"
  using assms(1,2,4) by (induction pss arbitrary: s) (auto simp: append_ok assms(3) pages_at_append)

end

definition raw_ok :: "page_file \<Rightarrow> bool" where
  "raw_ok st \<longleftrightarrow> pf_ok st \<and> \<not> pf_wrapped st \<and> \<not> pf_compress st"

lemma raw_images: "raw_ok st \<Longrightarrow> images lib st ps = ps"
  by (auto simp: images_def raw_ok_def wrapped_after_def stored_image_def intro!: map_idI)

lemma length_concat_pages: "\<forall>p \<in> set ps. length p = kPageSize \<Longrightarrow> length (concat ps) = length ps * kPageSize"
  by (induction ps) auto

lemma raw_address:
  assumes "raw_ok st" "\<forall>p \<in> set ps. length p = kPageSize" "i \<le> length ps"
  shows "page_address lib st ps i = pf_next st + i * kPageSize"
proof -
  have "\<forall>p \<in> set (take i ps). length p = kPageSize" using assms(2) by (auto dest: in_set_takeD)
  from length_concat_pages [OF this] assms(1,3) show ?thesis
    by (simp add: page_address_def raw_images)
qed

lemma raw_append:
  assumes "raw_ok st" "ps \<noteq> []" "\<forall>p \<in> set ps. length p = kPageSize"
  shows "snd (AppendPages lib NoFault st ps) = Inr (pf_next st)"
    and "raw_ok (fst (AppendPages lib NoFault st ps))"
    and "pf_next (fst (AppendPages lib NoFault st ps)) = pf_next st + length ps * kPageSize"
    and "pages_at (committed_view lib (fst (AppendPages lib NoFault st ps))) (pf_next st) ps"
    and "kPageFileHeaderSize \<le> offset \<Longrightarrow> committed_view lib st offset = Inr page
      \<Longrightarrow> committed_view lib (fst (AppendPages lib NoFault st ps)) offset = Inr page"
proof -
  have ok: "pf_ok st" "\<not> wrapped_after st" using assms(1) by (auto simp: raw_ok_def wrapped_after_def)
  note pre = prod.collapse [of "AppendPages lib NoFault st ps", symmetric]
  have sound: "wrapped_after st \<longrightarrow> lzma_sound lib" using ok(2) by simp
  note a = appended_prefix [OF ok(1) assms(2,3) pre]
  show "snd (AppendPages lib NoFault st ps) = Inr (pf_next st)" by (rule a(4))
  have c: "pf_compress (fst (AppendPages lib NoFault st ps)) = pf_compress st"
    by (simp add: AppendPages_ok [OF ok(1) assms(2,3)])
  show "raw_ok (fst (AppendPages lib NoFault st ps))"
    using a(2,3) c ok(2) assms(1) by (simp add: raw_ok_def)
  show "pf_next (fst (AppendPages lib NoFault st ps)) = pf_next st + length ps * kPageSize"
    using a(5) raw_address [OF assms(1,3)] by simp
  note w = ok(2) [unfolded wrapped_after_def, simplified]
  have view: "committed_view lib (fst (AppendPages lib NoFault st ps)) o1
      = fst (stored_page lib False (take (pf_next st) (base_bytes st) @ concat ps) o1)" if "kPageFileHeaderSize \<le> o1" for o1
    using appended_view [OF ok(1) assms(2,3) pre that] ok(2) by (simp add: raw_images [OF assms(1)])
  show "pages_at (committed_view lib (fst (AppendPages lib NoFault st ps))) (pf_next st) ps"
    unfolding pages_at_def
  proof (intro allI impI)
    fix i assume i: "i < length ps"
    have "kPageFileHeaderSize \<le> pf_next st + i * kPageSize" using ok(1) by (simp add: pf_ok_def)
    from view [OF this] appended_page [OF _ ok(1) assms(3) i, of lib "[]"] ok(2)
      raw_address [OF assms(1,3), of i lib] i
    show "committed_view lib (fst (AppendPages lib NoFault st ps)) (pf_next st + i * kPageSize) = Inr (ps ! i)"
      by (simp add: raw_images [OF assms(1)])
  qed
  assume o: "kPageFileHeaderSize \<le> offset" and v: "committed_view lib st offset = Inr page"
  obtain e where "stored_page lib False (take (pf_next st) (base_bytes st)) offset = (Inr page, e)"
    using v w by (cases "stored_page lib False (take (pf_next st) (base_bytes st)) offset") (auto simp: committed_view_def)
  from stored_page_more [OF this, of "concat ps"] view [OF o]
  show "committed_view lib (fst (AppendPages lib NoFault st ps)) offset = Inr page" by simp
qed

interpretation raw_store: page_store "\<lambda>st ps. fst (AppendPages lib NoFault st ps)" pf_next "committed_view lib" raw_ok
  for lib :: lzma_lib
  by unfold_locales (auto simp: raw_append, simp add: raw_ok_def pf_ok_def)

lemma committed_page_view:
  assumes "pf_file st \<noteq> None" "committed_view lib st offset = Inr page"
  shows "page_view lib st offset = Inr page"
proof -
  obtain fb where fb: "pf_file st = Some fb" using assms(1) by auto
  obtain e where "stored_page lib (pf_wrapped st) (take (pf_next st) fb) offset = (Inr page, e)"
    using assms(2) fb by (cases "stored_page lib (pf_wrapped st) (take (pf_next st) fb) offset")
      (auto simp: committed_view_def base_bytes_def)
  from stored_page_more [OF this, of "drop (pf_next st) fb"] fb show ?thesis by (simp add: page_view_def)
qed

end
