(* ===== verification/PagedBTree.thy ===== *)
theory PagedBTree
  imports PageFile Crc32 "HOL-Library.Monad_Syntax"
begin

text \<open>
  \<^verbatim>\<open>cpp/include/ebtree/concept/btree/paged_btree.h\<close>, \<^verbatim>\<open>cpp/src/concept/btree/paged_btree.cc\<close> and
  \<^verbatim>\<open>page/page_format.h\<close>: the index from keys to LSNs. Recent changes are a map and a set of deleted
  keys in memory; the persisted tree is a chain of leaf pages below internal pages, written
  bottom-up and never changed.

  A \<open>std::map\<close> is its sorted list of entries. Page reads go through a function from offsets to page
  contents, which is \<open>page_view\<close> of the page file (the cache does not show, see
  \<open>page_cache_transparent\<close>). The walks follow offsets found in the pages, so they may not end on a
  damaged file, and \<open>PersistRootImpl\<close> may not end either: these are partial functions, \<open>None\<close>
  meaning that the call does not return.
\<close>

section \<open>Page headers\<close>

definition kLegacyMapRoot :: nat where "kLegacyMapRoot = 1"
definition kPageTypeInternal :: u8 where "kPageTypeInternal = 1"
definition kPageTypeLeaf :: u8 where "kPageTypeLeaf = 2"
definition kSummaryTypeMinMax :: u8 where "kSummaryTypeMinMax = 0"
definition kSummaryTypeTrie :: u8 where "kSummaryTypeTrie = 1"
definition kSummaryTypeHistogram :: u8 where "kSummaryTypeHistogram = 2"
definition kHistogramBinCount :: nat where "kHistogramBinCount = 8"
definition kPageSummaryKeyBytes :: nat where "kPageSummaryKeyBytes = 14"
definition kInternalMaxEntries :: nat where "kInternalMaxEntries = 96"
definition kTrieSummaryThreshold :: nat where "kTrieSummaryThreshold = 8"
definition kLeafPrefixFormat :: u8 where "kLeafPrefixFormat = 2"
definition kMinLeafPrefixLen :: nat where "kMinLeafPrefixLen = 4"
definition kPageHeader :: nat where "kPageHeader = 64"

lemmas page_types = kPageTypeInternal_def kPageTypeLeaf_def kSummaryTypeMinMax_def kSummaryTypeTrie_def
  kSummaryTypeHistogram_def kLeafPrefixFormat_def

record page_header =
  ph_type :: u8
  ph_key_count :: u16
  ph_summary_type :: u8
  ph_reserved :: u8
  ph_max_lsn :: u64
  ph_summary_lsn :: u64
  ph_min_key_len :: u16
  ph_max_key_len :: u16
  ph_min_key :: bytes
  ph_max_key :: bytes
  ph_next :: u32
  ph_crc :: u32
  ph_padding :: bytes

definition PageHeader_init :: page_header where
  "PageHeader_init = \<lparr>ph_type = 0, ph_key_count = 0, ph_summary_type = kSummaryTypeMinMax, ph_reserved = 0,
     ph_max_lsn = 0, ph_summary_lsn = 0, ph_min_key_len = 0, ph_max_key_len = 0,
     ph_min_key = replicate kPageSummaryKeyBytes 0, ph_max_key = replicate kPageSummaryKeyBytes 0,
     ph_next = 0, ph_crc = 0, ph_padding = replicate 3 0\<rparr>"

definition ph_body :: "page_header \<Rightarrow> bytes" where
  "ph_body h = [ph_type h] @ put_u16 (ph_key_count h) @ [ph_summary_type h] @ [ph_reserved h]
     @ put_u64 (ph_max_lsn h) @ put_u64 (ph_summary_lsn h) @ put_u16 (ph_min_key_len h) @ put_u16 (ph_max_key_len h)
     @ ph_min_key h @ ph_max_key h @ put_u32 (ph_next h)"

definition enc_ph :: "page_header \<Rightarrow> bytes" where
  "enc_ph h = ph_body h @ put_u32 (ph_crc h) @ ph_padding h"

definition read_ph :: "bytes \<Rightarrow> page_header" where
  "read_ph page = \<lparr>ph_type = page ! 0, ph_key_count = get_u16 (drop 1 page), ph_summary_type = page ! 3,
     ph_reserved = page ! 4, ph_max_lsn = get_u64 (drop 5 page), ph_summary_lsn = get_u64 (drop 13 page),
     ph_min_key_len = get_u16 (drop 21 page), ph_max_key_len = get_u16 (drop 23 page),
     ph_min_key = slice 25 kPageSummaryKeyBytes page, ph_max_key = slice 39 kPageSummaryKeyBytes page,
     ph_next = get_u32 (drop 53 page), ph_crc = get_u32 (drop 57 page), ph_padding = slice 61 3 page\<rparr>"

text \<open>\<open>memcpy\<close> of at most fourteen bytes into a cleared field.\<close>

definition key_field :: "bytes \<Rightarrow> bytes" where
  "key_field k = overwrite 0 (take kPageSummaryKeyBytes k) (replicate kPageSummaryKeyBytes 0)"

definition seal_header :: "page_header \<Rightarrow> page_header" where
  "seal_header h = h\<lparr>ph_crc := Crc32 (ph_body h)\<rparr>"

section \<open>State\<close>

type_synonym entries = "(bytes \<times> u64) list"

record btree_summary =
  bs_min_key :: bytes
  bs_max_key :: bytes
  bs_summary_lsn :: u64

record paged_btree =
  bt_index :: entries
  bt_deleted :: "bytes set"
  bt_summary :: btree_summary
  bt_loaded_header :: page_header
  bt_max_lsn :: u64
  bt_root :: nat
  bt_on_disk :: bool
  bt_histogram :: bool

definition BTreeSummary_init :: btree_summary where
  "BTreeSummary_init = \<lparr>bs_min_key = [], bs_max_key = [], bs_summary_lsn = 0\<rparr>"

definition PagedBTree_init :: paged_btree where
  "PagedBTree_init = \<lparr>bt_index = [], bt_deleted = {}, bt_summary = BTreeSummary_init,
     bt_loaded_header = PageHeader_init, bt_max_lsn = 0, bt_root = 0, bt_on_disk = False, bt_histogram = False\<rparr>"

fun omap_put :: "bytes \<Rightarrow> u64 \<Rightarrow> entries \<Rightarrow> entries" where
  "omap_put k v [] = [(k, v)]"
| "omap_put k v ((k1, v1) # m) =
    (if k < k1 then (k, v) # (k1, v1) # m else if k = k1 then (k, v) # m else (k1, v1) # omap_put k v m)"

definition omap_erase :: "bytes \<Rightarrow> entries \<Rightarrow> entries" where
  "omap_erase k m = filter (\<lambda>(k1, _). k1 \<noteq> k) m"

section \<open>Changes in memory\<close>

definition RebuildSummary :: "paged_btree \<Rightarrow> paged_btree" where
  "RebuildSummary bt =
    (if bt_index bt = [] then
       (if \<not> bt_on_disk bt then bt\<lparr>bt_summary := BTreeSummary_init\<lparr>bs_summary_lsn := bt_max_lsn bt\<rparr>\<rparr> else bt)
     else bt\<lparr>bt_summary := \<lparr>bs_min_key = fst (hd (bt_index bt)), bs_max_key = fst (last (bt_index bt)),
                            bs_summary_lsn = bt_max_lsn bt\<rparr>\<rparr>)"

definition widen_summary :: "bytes \<Rightarrow> btree_summary \<Rightarrow> btree_summary" where
  "widen_summary key s =
    (let s1 = (if bs_min_key s = [] \<or> key < bs_min_key s then s\<lparr>bs_min_key := key\<rparr> else s)
     in if bs_max_key s1 = [] \<or> bs_max_key s1 < key then s1\<lparr>bs_max_key := key\<rparr> else s1)"

definition UpdateSummaryOnPut :: "bytes \<Rightarrow> paged_btree \<Rightarrow> paged_btree" where
  "UpdateSummaryOnPut key bt =
    (let s = (if bt_index bt = [] \<and> bt_deleted bt = {} \<and> bt_on_disk bt then widen_summary key (bt_summary bt)
              else if length (bt_index bt) = 1 \<and> bt_deleted bt = {}
              then (bt_summary bt)\<lparr>bs_min_key := key, bs_max_key := key\<rparr>
              else widen_summary key (bt_summary bt))
     in bt\<lparr>bt_summary := s\<lparr>bs_summary_lsn := bt_max_lsn bt\<rparr>\<rparr>)"

definition UpdateSummaryOnDelete :: "bytes \<Rightarrow> paged_btree \<Rightarrow> paged_btree" where
  "UpdateSummaryOnDelete key bt =
    (let touch = bt\<lparr>bt_summary := (bt_summary bt)\<lparr>bs_summary_lsn := bt_max_lsn bt\<rparr>\<rparr> in
     if bt_index bt = [] \<and> bt_deleted bt = {} \<and> bt_on_disk bt then touch
     else if bt_index bt = [] \<and> bt_deleted bt = {}
     then bt\<lparr>bt_summary := BTreeSummary_init\<lparr>bs_summary_lsn := bt_max_lsn bt\<rparr>\<rparr>
     else if key \<noteq> bs_min_key (bt_summary bt) \<and> key \<noteq> bs_max_key (bt_summary bt) then touch
     else RebuildSummary bt)"

definition bt_Put :: "bytes \<Rightarrow> u64 \<Rightarrow> paged_btree \<Rightarrow> paged_btree" where
  "bt_Put key data_lsn bt = UpdateSummaryOnPut key
     (bt\<lparr>bt_deleted := bt_deleted bt - {key}, bt_index := omap_put key data_lsn (bt_index bt),
        bt_max_lsn := max (bt_max_lsn bt) data_lsn\<rparr>)"

definition bt_DeleteKey :: "bytes \<Rightarrow> u64 \<Rightarrow> paged_btree \<Rightarrow> paged_btree" where
  "bt_DeleteKey key data_lsn bt = UpdateSummaryOnDelete key
     (bt\<lparr>bt_index := omap_erase key (bt_index bt), bt_deleted := insert key (bt_deleted bt),
        bt_max_lsn := max (bt_max_lsn bt) data_lsn\<rparr>)"

definition LoadFromMap :: "entries \<Rightarrow> paged_btree \<Rightarrow> paged_btree" where
  "LoadFromMap source bt =
    (let bt1 = RebuildSummary (bt\<lparr>bt_index := source, bt_deleted := {},
           bt_max_lsn := foldl (\<lambda>m kv. max m (snd kv)) 0 source\<rparr>)
     in bt1\<lparr>bt_loaded_header := PageHeader_init, bt_on_disk := False\<rparr>)"

definition RebuildSummaryFromCommitted :: "entries \<Rightarrow> paged_btree \<Rightarrow> paged_btree" where
  "RebuildSummaryFromCommitted committed bt =
    (if committed = [] then bt
     else
      (let m = foldl (\<lambda>m kv. max m (snd kv)) (bt_max_lsn bt) committed
       in bt\<lparr>bt_max_lsn := m, bt_summary := \<lparr>bs_min_key = fst (hd committed), bs_max_key = fst (last committed),
            bs_summary_lsn = m\<rparr>\<rparr>))"

definition EnsureSummaryLsnAtLeast :: "u64 \<Rightarrow> paged_btree \<Rightarrow> paged_btree" where
  "EnsureSummaryLsnAtLeast lsn bt =
     bt\<lparr>bt_summary := (bt_summary bt)\<lparr>bs_summary_lsn := max (bs_summary_lsn (bt_summary bt)) lsn\<rparr>\<rparr>"

definition SummaryDrifted :: "paged_btree \<Rightarrow> bool" where
  "SummaryDrifted bt \<longleftrightarrow> 0 < bt_max_lsn bt \<and> bs_summary_lsn (bt_summary bt) < bt_max_lsn bt"

section \<open>Leaf pages\<close>

fun CommonPrefixLen :: "bytes \<Rightarrow> bytes \<Rightarrow> nat" where
  "CommonPrefixLen (a # as) (b # bs) = (if a = b then Suc (CommonPrefixLen as bs) else 0)"
| "CommonPrefixLen _ _ = 0"

definition ChunkCommonPrefixFromKeys :: "entries \<Rightarrow> nat" where
  "ChunkCommonPrefixFromKeys keys =
    (if length keys < 2 then 0
     else length (foldl (\<lambda>prefix (k, _). if prefix = [] then [] else take (CommonPrefixLen prefix k) prefix)
                    (fst (hd keys)) (tl keys)))"

fun leaf_chunk :: "nat \<Rightarrow> entries \<Rightarrow> entries" where
  "leaf_chunk used [] = []"
| "leaf_chunk used ((k, l) # es) =
    (if kPageSize < used + 2 + length k + 8 then [] else (k, l) # leaf_chunk (used + 2 + length k + 8) es)"

text \<open>The bytes written from \<open>pos\<close> on, and how many entries they hold.\<close>

fun put_entries :: "nat \<Rightarrow> nat \<Rightarrow> entries \<Rightarrow> bytes \<times> nat" where
  "put_entries pos plen [] = ([], 0)"
| "put_entries pos plen ((k, l) # es) =
    (let suffix = drop plen k in
     if kPageSize < pos + 2 + length suffix + 8 then ([], 0)
     else (let (b, n) = put_entries (pos + 2 + length suffix + 8) plen es
           in (put_u16 (word_of_nat (length suffix)) @ suffix @ put_u64 l @ b, Suc n)))"

definition leaf_header :: "paged_btree \<Rightarrow> entries \<Rightarrow> page_header" where
  "leaf_header bt source =
    (let h = PageHeader_init\<lparr>ph_type := kPageTypeLeaf,
           ph_summary_type := (if kTrieSummaryThreshold \<le> length source then kSummaryTypeTrie else kSummaryTypeMinMax),
           ph_max_lsn := bt_max_lsn bt, ph_summary_lsn := bs_summary_lsn (bt_summary bt)\<rparr>
     in if source = [] then h
        else h\<lparr>ph_min_key_len := word_of_nat (length (fst (hd source))),
               ph_max_key_len := word_of_nat (length (fst (last source))),
               ph_min_key := key_field (fst (hd source)), ph_max_key := key_field (fst (last source))\<rparr>)"

definition pad_page :: "bytes \<Rightarrow> bytes" where
  "pad_page b = b @ replicate (kPageSize - length b) 0"

definition SerializeLeafChunk :: "paged_btree \<Rightarrow> entries \<Rightarrow> entries \<Rightarrow> bytes \<times> bytes \<times> entries" where
  "SerializeLeafChunk bt source todo =
    (let chunk = leaf_chunk kPageHeader todo;
         prefix_len = ChunkCommonPrefixFromKeys chunk;
         use_prefix = (kMinLeafPrefixLen \<le> prefix_len \<and> 2 \<le> length chunk);
         prefix = (if use_prefix then take prefix_len (fst (hd todo)) else []);
         start = (if use_prefix then put_u16 (word_of_nat (length prefix)) @ prefix else []);
         (body, count) = put_entries (kPageHeader + length start) (length prefix) chunk;
         hdr = seal_header ((leaf_header bt source)\<lparr>
           ph_reserved := (if use_prefix then kLeafPrefixFormat else 0), ph_key_count := word_of_nat count\<rparr>)
     in (pad_page (enc_ph hdr @ start @ body), if count = 0 then [] else fst (hd chunk), drop count todo))"

record leaf_cursor =
  lc_hdr :: page_header
  lc_prefix :: bytes
  lc_pos :: nat
  lc_index :: nat
  lc_page :: bytes

definition InitLeafCursor :: "bytes \<Rightarrow> leaf_cursor option" where
  "InitLeafCursor page =
    (let hdr = read_ph page;
         cur = \<lparr>lc_hdr = hdr, lc_prefix = [], lc_pos = kPageHeader, lc_index = 0, lc_page = page\<rparr> in
     if ph_type hdr \<noteq> kPageTypeLeaf then None
     else if ph_reserved hdr = kLeafPrefixFormat then
       (if kPageSize < kPageHeader + 2 then None
        else
         (let prefix_len = unat (get_u16 (drop kPageHeader page)) in
          if kPageSize < kPageHeader + 2 + prefix_len then None
          else Some (cur\<lparr>lc_prefix := slice (kPageHeader + 2) prefix_len page, lc_pos := kPageHeader + 2 + prefix_len\<rparr>)))
     else Some cur)"

definition NextLeafEntry :: "leaf_cursor \<Rightarrow> ((bytes \<times> u64) \<times> leaf_cursor) option" where
  "NextLeafEntry cur =
    (if unat (ph_key_count (lc_hdr cur)) \<le> lc_index cur then None
     else if kPageSize < lc_pos cur + 2 then None
     else
      (let klen = unat (get_u16 (drop (lc_pos cur) (lc_page cur))); pos = lc_pos cur + 2 in
       if kPageSize < pos + klen + 8 then None
       else
        (let key = (if ph_reserved (lc_hdr cur) = kLeafPrefixFormat then lc_prefix cur @ slice pos klen (lc_page cur)
                    else slice pos klen (lc_page cur));
             lsn = get_u64 (drop (pos + klen) (lc_page cur))
         in Some ((key, lsn), cur\<lparr>lc_pos := pos + klen + 8, lc_index := Suc (lc_index cur)\<rparr>))))"

lemma NextLeafEntry_progress:
  "NextLeafEntry cur = Some (e, cur1) \<Longrightarrow> lc_hdr cur1 = lc_hdr cur \<and> lc_index cur1 = Suc (lc_index cur)
    \<and> lc_index cur < unat (ph_key_count (lc_hdr cur))"
  by (auto simp: NextLeafEntry_def Let_def split: if_splits)

text \<open>The entries the loop \<open>while (NextLeafEntry(&cur, ...))\<close> sees.\<close>

function leaf_entries :: "leaf_cursor \<Rightarrow> entries" where
  "leaf_entries cur = (case NextLeafEntry cur of None \<Rightarrow> [] | Some (e, cur1) \<Rightarrow> e # leaf_entries cur1)"
  by auto
termination
  by (relation "measure (\<lambda>cur. unat (ph_key_count (lc_hdr cur)) - lc_index cur)") (auto dest!: NextLeafEntry_progress)

declare leaf_entries.simps [simp del]

section \<open>Internal pages\<close>

definition HistogramBinForKey :: "bytes \<Rightarrow> nat" where
  "HistogramBinForKey key =
     unat (foldl (\<lambda>hash c. (hash XOR ucast c) * 16777619) (2166136261 :: u32) key mod word_of_nat kHistogramBinCount)"

definition BuildHistogramBins :: "entries \<Rightarrow> bytes" where
  "BuildHistogramBins source =
     foldl (\<lambda>bins (k, _). bins[HistogramBinForKey k := bins ! HistogramBinForKey k + 1]) (replicate kHistogramBinCount 0) source"

type_synonym children = "(bytes \<times> nat) list"

fun put_children :: "nat \<Rightarrow> children \<Rightarrow> bytes \<times> nat" where
  "put_children pos [] = ([], 0)"
| "put_children pos ((k, off) # cs) =
    (if kPageSize < pos + (4 + 2 + length k) then ([], 0)
     else (let (b, n) = put_children (pos + 4 + 2 + length k) cs
           in (put_u32 (word_of_nat off) @ put_u16 (word_of_nat (length k)) @ k @ b, Suc n)))"

definition internal_header :: "paged_btree \<Rightarrow> children \<Rightarrow> entries \<Rightarrow> page_header" where
  "internal_header bt cs source =
    (let big = kTrieSummaryThreshold \<le> length cs;
         hist = (bt_histogram bt \<and> big);
         h = PageHeader_init\<lparr>ph_type := kPageTypeInternal,
           ph_summary_type := (if hist then kSummaryTypeHistogram else if big then kSummaryTypeTrie else kSummaryTypeMinMax),
           ph_min_key_len := (if hist then word_of_nat kHistogramBinCount else 0),
           ph_max_lsn := bt_max_lsn bt, ph_summary_lsn := bs_summary_lsn (bt_summary bt)\<rparr> in
     if cs = [] then h
     else
      (let min_k = fst (hd cs); max_k = fst (last cs) in
       if \<not> hist then
         h\<lparr>ph_min_key_len := word_of_nat (length min_k), ph_max_key_len := word_of_nat (length max_k),
           ph_min_key := key_field min_k, ph_max_key := key_field max_k\<rparr>
       else
         (let res = min (length min_k) 6
          in h\<lparr>ph_reserved := word_of_nat res,
               ph_max_key_len := word_of_nat (min (length max_k) kPageSummaryKeyBytes),
               ph_min_key := overwrite 8 (take res min_k) (BuildHistogramBins source @ replicate 6 0),
               ph_max_key := key_field max_k\<rparr>)))"

definition SerializeInternalPage :: "paged_btree \<Rightarrow> children \<Rightarrow> entries \<Rightarrow> bytes" where
  "SerializeInternalPage bt cs source =
    (let (body, count) = put_children kPageHeader cs;
         hdr = seal_header ((internal_header bt cs source)\<lparr>ph_key_count := word_of_nat count\<rparr>)
     in pad_page (enc_ph hdr @ body))"

section \<open>Persisting\<close>

text \<open>Every call of \<open>AppendPages\<close> takes the next fault of a list, none when it is empty.\<close>

definition next_fault :: "fault list \<Rightarrow> fault \<times> fault list" where
  "next_fault fts = (case fts of [] \<Rightarrow> (NoFault, []) | f # fs \<Rightarrow> (f, fs))"

definition append_pages :: "lzma_lib \<Rightarrow> fault list \<Rightarrow> page_file \<Rightarrow> bytes list \<Rightarrow> page_file \<times> fault list \<times> nat res" where
  "append_pages lib fts pf ps =
    (let (f, fts1) = next_fault fts; (pf1, r) = AppendPages lib f pf ps in (pf1, fts1, r))"

text \<open>One internal page per group of \<open>kInternalMaxEntries\<close> children.\<close>

function build_level ::
  "lzma_lib \<Rightarrow> paged_btree \<Rightarrow> entries \<Rightarrow> fault list \<Rightarrow> page_file \<Rightarrow> children \<Rightarrow> page_file \<times> fault list \<times> children res" where
  "build_level lib bt source fts pf cs =
    (if cs = [] then (pf, fts, Inr [])
     else
      (let group = take kInternalMaxEntries cs in
       case append_pages lib fts pf [SerializeInternalPage bt group source] of
         (pf1, fts1, Inl e) \<Rightarrow> (pf1, fts1, Inl e)
       | (pf1, fts1, Inr off) \<Rightarrow>
          (case build_level lib bt source fts1 pf1 (drop kInternalMaxEntries cs) of
             (pf2, fts2, Inl e) \<Rightarrow> (pf2, fts2, Inl e)
           | (pf2, fts2, Inr level) \<Rightarrow> (pf2, fts2, Inr ((fst (hd group), off) # level)))))"
  by auto
termination
  by (relation "measure (\<lambda>(_, _, _, _, _, cs). length cs)") (auto simp: kInternalMaxEntries_def)

declare build_level.simps [simp del]

lemma build_level_length:
  "build_level lib bt source fts pf cs = (pf1, fts1, Inr level) \<Longrightarrow> length level = (length cs + 95) div 96"
proof (induction lib bt source fts pf cs arbitrary: pf1 fts1 level rule: build_level.induct)
  case (1 lib bt source fts pf cs)
  show ?case
  proof (cases "cs = []")
    case True
    then show ?thesis using "1.prems" by (simp add: build_level.simps [of _ _ _ _ _ "[]"])
  next
    case False
    obtain pf2 fts2 a where a: "append_pages lib fts pf [SerializeInternalPage bt (take kInternalMaxEntries cs) source] = (pf2, fts2, a)"
      by (metis prod_cases3)
    obtain off where off: "a = Inr off"
      using "1.prems" False a by (cases a) (auto simp: build_level.simps [of _ _ _ _ _ cs])
    obtain pf3 fts3 b where b: "build_level lib bt source fts2 pf2 (drop kInternalMaxEntries cs) = (pf3, fts3, b)"
      by (metis prod_cases3)
    obtain rest where rest: "b = Inr rest"
      using "1.prems" False a off b by (cases b) (auto simp: build_level.simps [of _ _ _ _ _ cs])
    have "length level = Suc (length rest)"
      using "1.prems" False a off b rest by (auto simp: build_level.simps [of _ _ _ _ _ cs])
    moreover have "length rest = (length (drop kInternalMaxEntries cs) + 95) div 96"
      using "1.IH" [OF False refl a [symmetric] refl off] a off b rest by simp
    ultimately show ?thesis
      using False by (cases "length cs \<le> 96") (auto simp: kInternalMaxEntries_def Suc_le_eq div_eq_dividend_iff
        le_div_geq)
  qed
qed

function BuildInternalRoot ::
  "lzma_lib \<Rightarrow> paged_btree \<Rightarrow> entries \<Rightarrow> fault list \<Rightarrow> page_file \<Rightarrow> children \<Rightarrow> page_file \<times> nat res" where
  "BuildInternalRoot lib bt source fts pf cs =
    (if length cs \<le> 1 then (pf, if cs = [] then Inl (Status_Internal ''no children'') else Inr (snd (hd cs)))
     else if length cs \<le> kInternalMaxEntries then
       (case append_pages lib fts pf [SerializeInternalPage bt cs source] of (pf1, _, r) \<Rightarrow> (pf1, r))
     else
       (case build_level lib bt source fts pf cs of
          (pf1, _, Inl e) \<Rightarrow> (pf1, Inl e)
        | (pf1, fts1, Inr level) \<Rightarrow> BuildInternalRoot lib bt source fts1 pf1 level))"
  by auto
termination
  by (relation "measure (\<lambda>(_, _, _, _, _, cs). length cs)")
    (auto simp: kInternalMaxEntries_def dest!: build_level_length [OF sym])

declare BuildInternalRoot.simps [simp del]

text \<open>The loop that cuts the map into leaf pages; it goes on as long as entries are left.\<close>

partial_function (option) leaf_pages :: "paged_btree \<Rightarrow> entries \<Rightarrow> entries \<Rightarrow> (bytes \<times> bytes) list option" where
  "leaf_pages bt source todo =
    (if todo = [] then Some []
     else
      (let (page, first_key, rest) = SerializeLeafChunk bt source todo
       in do { pages \<leftarrow> leaf_pages bt source rest; Some ((page, first_key) # pages) }))"

definition set_next :: "nat \<Rightarrow> bytes \<Rightarrow> bytes" where
  "set_next next_off page =
     enc_ph (seal_header ((read_ph page)\<lparr>ph_next := word_of_nat next_off\<rparr>)) @ drop kPageHeader page"

fun link_pages :: "nat \<Rightarrow> bytes list \<Rightarrow> bytes list" where
  "link_pages base [] = []"
| "link_pages base [p] = [p]"
| "link_pages base (p # q # ps) = set_next (base + kPageSize) p # link_pages (base + kPageSize) (q # ps)"

definition leaf_refs :: "nat \<Rightarrow> bytes list \<Rightarrow> children" where
  "leaf_refs base firsts = map (\<lambda>(i, k). (k, base + i * kPageSize)) (enumerate 0 firsts)"

definition PersistRootImpl ::
  "lzma_lib \<Rightarrow> fault list \<Rightarrow> page_file \<Rightarrow> paged_btree \<Rightarrow> entries \<Rightarrow> (page_file \<times> paged_btree \<times> nat res) option" where
  "PersistRootImpl lib fts pf bt source =
    (if source = [] then Some (pf, bt\<lparr>bt_root := kLegacyMapRoot\<rparr>, Inr kLegacyMapRoot)
     else do {
       pages \<leftarrow> leaf_pages bt source source;
       Some
        (case append_pages lib fts pf (link_pages (pf_next pf) (map fst pages)) of
           (pf1, _, Inl e) \<Rightarrow> (pf1, bt, Inl e)
         | (pf1, fts1, Inr first) \<Rightarrow>
            (case (if 1 < length pages then BuildInternalRoot lib bt source fts1 pf1 (leaf_refs first (map snd pages))
                   else (pf1, Inr first)) of
               (pf2, Inl e) \<Rightarrow> (pf2, bt, Inl e)
             | (pf2, Inr root) \<Rightarrow>
                (pf2, bt\<lparr>bt_root := root, bt_index := [], bt_deleted := {}, bt_on_disk := True\<rparr>, Inr root)))
     })"

definition PersistRoot where "PersistRoot lib fts pf bt = PersistRootImpl lib fts pf bt (bt_index bt)"

definition PersistRootFromMap where "PersistRootFromMap lib fts pf bt full_map = PersistRootImpl lib fts pf bt full_map"

section \<open>Lookup\<close>

definition HistogramStringBounds :: "page_header \<Rightarrow> bytes \<times> bytes" where
  "HistogramStringBounds hdr =
    (if ph_summary_type hdr \<noteq> kSummaryTypeHistogram then ([], [])
     else (take (min (unat (ph_reserved hdr)) 6) (drop 8 (ph_min_key hdr)),
           take (min (unat (ph_max_key_len hdr)) kPageSummaryKeyBytes) (ph_max_key hdr)))"

definition summary_bounds :: "page_header \<Rightarrow> bytes \<times> bytes" where
  "summary_bounds hdr =
    (if ph_summary_type hdr = kSummaryTypeHistogram then HistogramStringBounds hdr
     else (take (min (unat (ph_min_key_len hdr)) kPageSummaryKeyBytes) (ph_min_key hdr),
           take (min (unat (ph_max_key_len hdr)) kPageSummaryKeyBytes) (ph_max_key hdr)))"

definition PageSummaryCoversKey :: "page_header \<Rightarrow> bytes \<Rightarrow> bool" where
  "PageSummaryCoversKey hdr key \<longleftrightarrow>
     key = [] \<or> ph_type hdr = kPageTypeInternal
     \<or> (let (min_k, max_k) = summary_bounds hdr
        in \<not> (min_k \<noteq> [] \<and> key < min_k) \<and> \<not> (max_k \<noteq> [] \<and> max_k < key))"

definition ReadPageHeader :: "(nat \<Rightarrow> bytes res) \<Rightarrow> nat \<Rightarrow> page_header res" where
  "ReadPageHeader read offset =
    (case read offset of
       Inl e \<Rightarrow> Inl e
     | Inr page \<Rightarrow>
        (let hdr = read_ph page in
         if ph_crc hdr \<noteq> Crc32 (ph_body hdr) then Inl (Status_CorruptPage ''page crc mismatch'') else Inr hdr))"

partial_function (option) GetFromLeafChain :: "(nat \<Rightarrow> bytes res) \<Rightarrow> bytes \<Rightarrow> nat \<Rightarrow> u64 res option" where
  "GetFromLeafChain read key offset =
    (if offset < kPageFileHeaderSize then Some (Inl (Status_NotFound ''key not on disk''))
     else
      (case read offset of
         Inl e \<Rightarrow> Some (Inl e)
       | Inr page \<Rightarrow>
          (let hdr = read_ph page in
           if ph_type hdr \<noteq> kPageTypeLeaf then Some (Inl (Status_CorruptPage ''expected leaf''))
           else
            (case InitLeafCursor page of
               None \<Rightarrow> Some (Inl (Status_CorruptPage ''invalid leaf page''))
             | Some cur \<Rightarrow>
                (case map_of (leaf_entries cur) key of
                   Some lsn \<Rightarrow> Some (Inr lsn)
                 | None \<Rightarrow>
                    if ph_next hdr = 0 \<or> unat (ph_next hdr) < kPageFileHeaderSize
                    then Some (Inl (Status_NotFound ''key not on disk''))
                    else GetFromLeafChain read key (unat (ph_next hdr)))))))"

fun pick_child :: "bytes \<Rightarrow> bytes \<Rightarrow> nat \<Rightarrow> nat \<Rightarrow> nat \<Rightarrow> nat res" where
  "pick_child page key pos child_off 0 = Inr child_off"
| "pick_child page key pos child_off (Suc n) =
    (if kPageSize < pos + 4 + 2 then Inl (Status_CorruptPage ''truncated internal page'')
     else
      (let off = unat (get_u32 (drop pos page)); klen = unat (get_u16 (drop (pos + 4) page)) in
       if kPageSize < pos + 6 + klen then Inl (Status_CorruptPage ''truncated sep key'')
       else if off < kPageFileHeaderSize then pick_child page key (pos + 6 + klen) child_off n
       else if key < slice (pos + 6) klen page then Inr child_off
       else pick_child page key (pos + 6 + klen) off n))"

partial_function (option) GetFromDiskAt :: "(nat \<Rightarrow> bytes res) \<Rightarrow> bytes \<Rightarrow> nat \<Rightarrow> u64 res option" where
  "GetFromDiskAt read key offset =
    (case ReadPageHeader read offset of
       Inl e \<Rightarrow> Some (Inl e)
     | Inr hdr \<Rightarrow>
        if \<not> PageSummaryCoversKey hdr key then Some (Inl (Status_NotFound ''key pruned by summary''))
        else if ph_type hdr = kPageTypeLeaf then GetFromLeafChain read key offset
        else if ph_type hdr \<noteq> kPageTypeInternal then Some (Inl (Status_CorruptPage ''unknown page type''))
        else
         (case read offset of
            Inl e \<Rightarrow> Some (Inl e)
          | Inr page \<Rightarrow>
             (case pick_child page key kPageHeader 0 (unat (ph_key_count hdr)) of
                Inl e \<Rightarrow> Some (Inl e)
              | Inr child_off \<Rightarrow>
                 if child_off < kPageFileHeaderSize then Some (Inl (Status_NotFound ''no child for key''))
                 else GetFromDiskAt read key child_off)))"

definition bt_Get :: "(nat \<Rightarrow> bytes res) \<Rightarrow> paged_btree \<Rightarrow> bytes \<Rightarrow> u64 res option" where
  "bt_Get read bt key =
    (if key \<in> bt_deleted bt then Some (Inl (Status_NotFound ''key deleted in delta''))
     else
      (case map_of (bt_index bt) key of
         Some lsn \<Rightarrow> Some (Inr lsn)
       | None \<Rightarrow>
          if bt_on_disk bt \<and> kPageFileHeaderSize \<le> bt_root bt then GetFromDiskAt read key (bt_root bt)
          else Some (Inl (Status_NotFound ''key not in btree''))))"

definition LoadRoot :: "(nat \<Rightarrow> bytes res) \<Rightarrow> paged_btree \<Rightarrow> nat \<Rightarrow> paged_btree \<times> status" where
  "LoadRoot read bt root_offset =
    (if root_offset < kPageFileHeaderSize then (bt, Status_InvalidArgument ''invalid root offset'')
     else
      (let bt1 = bt\<lparr>bt_index := [], bt_deleted := {}\<rparr> in
       case ReadPageHeader read root_offset of
         Inl e \<Rightarrow> (bt1, e)
       | Inr hdr \<Rightarrow>
          (bt1\<lparr>bt_loaded_header := hdr,
             bt_summary := \<lparr>bs_min_key = fst (summary_bounds hdr), bs_max_key = snd (summary_bounds hdr),
               bs_summary_lsn = ph_summary_lsn hdr\<rparr>,
             bt_max_lsn := ph_max_lsn hdr, bt_root := root_offset, bt_on_disk := True\<rparr>, Status_Ok)))"

section \<open>Scans\<close>

datatype predicate_op = KEq | KRange

record typed_plan =
  tp_op :: predicate_op
  tp_key :: bytes
  tp_range_end :: bytes
  tp_snapshot_lsn :: u64

definition RangeOverlapsSummary :: "page_header \<Rightarrow> bytes \<Rightarrow> bytes \<Rightarrow> bool" where
  "RangeOverlapsSummary hdr range_start range_end \<longleftrightarrow>
     ph_type hdr = kPageTypeInternal
     \<or> (let (min_k, max_k) = summary_bounds hdr
        in \<not> (max_k \<noteq> [] \<and> max_k < range_start) \<and> \<not> (min_k \<noteq> [] \<and> range_end < min_k))"

definition plan_covers :: "typed_plan \<Rightarrow> page_header \<Rightarrow> bool" where
  "plan_covers plan hdr = (case tp_op plan of
     KEq \<Rightarrow> PageSummaryCoversKey hdr (tp_key plan)
   | KRange \<Rightarrow> RangeOverlapsSummary hdr (tp_key plan) (tp_range_end plan))"

definition plan_matches :: "typed_plan \<Rightarrow> bytes \<Rightarrow> bool" where
  "plan_matches plan key = (case tp_op plan of
     KEq \<Rightarrow> key = tp_key plan
   | KRange \<Rightarrow> tp_key plan \<le> key \<and> key \<le> tp_range_end plan)"

text \<open>Reading a list of pages; the pages come in the order of the list.\<close>

fun read_all :: "(nat \<Rightarrow> bytes res) \<Rightarrow> nat list \<Rightarrow> bytes list res" where
  "read_all read [] = Inr []"
| "read_all read (off # offs) =
    (case read off of
       Inl e \<Rightarrow> Inl e
     | Inr page \<Rightarrow> (case read_all read offs of Inl e \<Rightarrow> Inl e | Inr pages \<Rightarrow> Inr (page # pages)))"

partial_function (option) leaf_chain :: "(nat \<Rightarrow> bytes res) \<Rightarrow> nat list \<Rightarrow> nat \<Rightarrow> nat list option option" where
  "leaf_chain read chain cur =
    (if cur < kPageFileHeaderSize then Some (Some chain)
     else
      (case ReadPageHeader read cur of
         Inl _ \<Rightarrow> Some None
       | Inr hdr \<Rightarrow>
          if ph_type hdr \<noteq> kPageTypeLeaf then Some None
          else if ph_next hdr = 0 \<or> unat (ph_next hdr) < kPageFileHeaderSize then Some (Some (chain @ [cur]))
          else leaf_chain read (chain @ [cur]) (unat (ph_next hdr))))"

definition leaf_hits :: "typed_plan \<Rightarrow> bytes \<Rightarrow> entries" where
  "leaf_hits plan page =
    (case InitLeafCursor page of None \<Rightarrow> [] | Some cur \<Rightarrow> filter (\<lambda>e. plan_matches plan (fst e)) (leaf_entries cur))"

definition ScanLeafChain :: "(nat \<Rightarrow> bytes res) \<Rightarrow> typed_plan \<Rightarrow> nat \<Rightarrow> entries option" where
  "ScanLeafChain read plan offset =
    do { chain \<leftarrow> leaf_chain read [] offset;
         Some (case chain of
                 None \<Rightarrow> []
               | Some offs \<Rightarrow> (case read_all read offs of Inl _ \<Rightarrow> [] | Inr pages \<Rightarrow> concat (map (leaf_hits plan) pages))) }"

fun child_offsets :: "bytes \<Rightarrow> nat \<Rightarrow> nat \<Rightarrow> nat list res" where
  "child_offsets page pos 0 = Inr []"
| "child_offsets page pos (Suc n) =
    (if kPageSize < pos + 4 + 2 then Inl (Status_CorruptPage ''truncated internal page'')
     else
      (let off = unat (get_u32 (drop pos page)); klen = unat (get_u16 (drop (pos + 4) page)) in
       if kPageSize < pos + 6 + klen then Inl (Status_CorruptPage ''truncated sep key'')
       else
        (case child_offsets page (pos + 6 + klen) n of
           Inl e \<Rightarrow> Inl e
         | Inr offs \<Rightarrow> Inr (if off < kPageFileHeaderSize then offs else off # offs))))"

text \<open>The hits of the children one after the other, up to the first that fails.\<close>

fun scan_seq :: "(nat \<Rightarrow> entries res option) \<Rightarrow> nat list \<Rightarrow> entries res option" where
  "scan_seq f [] = Some (Inr [])"
| "scan_seq f (c # cs) =
    Option.bind (f c) (\<lambda>r. case r of
      Inl e \<Rightarrow> Some (Inl e)
    | Inr hits \<Rightarrow> Option.bind (scan_seq f cs) (\<lambda>r. Some (map_sum id ((@) hits) r)))"

lemma scan_seq_mono [partial_function_mono]:
  assumes "\<And>c. mono_option (\<lambda>f. B f c)"
  shows "mono_option (\<lambda>f. scan_seq (B f) cs)"
proof (induction cs)
  case Nil
  show ?case by (simp add: option.const_mono)
next
  case (Cons c cs)
  have "mono_option (\<lambda>f. case r of Inl e \<Rightarrow> Some (Inl e)
      | Inr hits \<Rightarrow> Option.bind (scan_seq (B f) cs) (\<lambda>r. Some (map_sum id ((@) hits) r)))" for r
    by (cases r) (auto intro!: bind_mono Cons option.const_mono)
  then show ?case using assms by (auto intro!: bind_mono)
qed

partial_function (option) ScanFromDiskAt :: "(nat \<Rightarrow> bytes res) \<Rightarrow> typed_plan \<Rightarrow> nat \<Rightarrow> entries res option" where
  "ScanFromDiskAt read plan offset =
    (case ReadPageHeader read offset of
       Inl e \<Rightarrow> Some (Inl e)
     | Inr hdr \<Rightarrow>
        if \<not> plan_covers plan hdr then Some (Inr [])
        else if ph_type hdr = kPageTypeLeaf then Option.bind (ScanLeafChain read plan offset) (\<lambda>hits. Some (Inr hits))
        else if ph_type hdr \<noteq> kPageTypeInternal then Some (Inl (Status_CorruptPage ''unknown page type''))
        else
         (case read offset of
            Inl e \<Rightarrow> Some (Inl e)
          | Inr page \<Rightarrow>
             (case child_offsets page kPageHeader (unat (ph_key_count hdr)) of
                Inl e \<Rightarrow> Some (Inl e)
              | Inr offs \<Rightarrow>
                 (case read_all read offs of
                    Inl e \<Rightarrow> Some (Inl e)
                  | Inr _ \<Rightarrow>
                     scan_seq (\<lambda>c. case ReadPageHeader read c of
                         Inl e \<Rightarrow> Some (Inl e)
                       | Inr child \<Rightarrow>
                          if \<not> plan_covers plan child then Some (Inr []) else ScanFromDiskAt read plan c) offs))))"

definition MergeDeltaIntoScan :: "paged_btree \<Rightarrow> entries \<Rightarrow> entries" where
  "MergeDeltaIntoScan bt out =
     filter (\<lambda>e. fst e \<notin> bt_deleted bt) (foldl (\<lambda>m (k, v). omap_put k v m) [] (out @ bt_index bt))"

definition bt_Scan :: "(nat \<Rightarrow> bytes res) \<Rightarrow> paged_btree \<Rightarrow> typed_plan \<Rightarrow> entries res option" where
  "bt_Scan read bt plan =
    (let s = bt_summary bt in
     if 0 < tp_snapshot_lsn plan \<and> bs_summary_lsn s < tp_snapshot_lsn plan
     then Some (Inl (Status_StaleSummary ''summary lsn behind snapshot''))
     else
      (case tp_op plan of
         KEq \<Rightarrow>
          if bs_min_key s \<noteq> [] \<and> tp_key plan < bs_min_key s then Some (Inr [])
          else if bs_max_key s \<noteq> [] \<and> bs_max_key s < tp_key plan then Some (Inr [])
          else Option.bind (bt_Get read bt (tp_key plan))
                 (\<lambda>r. Some (Inr (case r of Inl _ \<Rightarrow> [] | Inr lsn \<Rightarrow> [(tp_key plan, lsn)])))
       | KRange \<Rightarrow>
          if bs_max_key s \<noteq> [] \<and> bs_max_key s < tp_key plan then Some (Inr [])
          else if bs_min_key s \<noteq> [] \<and> tp_range_end plan < bs_min_key s then Some (Inr [])
          else if bt_on_disk bt \<and> kPageFileHeaderSize \<le> bt_root bt then
            Option.bind (ScanFromDiskAt read plan (bt_root bt))
              (\<lambda>r. Some (map_sum id
                 (\<lambda>hits. takeWhile (\<lambda>e. \<not> tp_range_end plan < fst e)
                    (dropWhile (\<lambda>e. fst e < tp_key plan) (MergeDeltaIntoScan bt hits))) r))
          else Some (Inr (filter (\<lambda>e. fst e \<notin> bt_deleted bt)
                 (takeWhile (\<lambda>e. fst e \<le> tp_range_end plan) (dropWhile (\<lambda>e. fst e < tp_key plan) (bt_index bt)))))))"

section \<open>The summary healer\<close>

text \<open>\<^verbatim>\<open>concept/btree/summary_healer.cc\<close>; the committed keys come sorted, as \<open>btree_map\<close> has them.\<close>

definition RebuildFromIndex :: "paged_btree \<Rightarrow> paged_btree" where
  "RebuildFromIndex bt = RebuildSummary bt"

definition RebuildFromCommitted :: "(bytes \<times> bytes \<times> u64) list \<Rightarrow> paged_btree \<Rightarrow> paged_btree" where
  "RebuildFromCommitted committed bt =
    (let btree_map = foldl (\<lambda>m (k, _, lsn). omap_put k lsn m) [] committed
     in if bt_on_disk bt then RebuildSummaryFromCommitted btree_map bt else LoadFromMap btree_map bt)"

end
