(* ===== verification/PagedBTreeLookup.thy ===== *)
theory PagedBTreeLookup
  imports PagedBTree "HOL-Library.Sublist"
begin

text \<open>
  What the persisted B-tree of \<open>PagedBTree\<close> answers: leaf pages read back, the leaf chain and the
  internal pages lead to the right leaf, and \<open>PersistRootImpl\<close> builds such a tree. A tree page is
  described by what a lookup started there returns (\<open>node_good\<close>), for every later state of the file;
  pages are only appended, so this is kept.
\<close>

section \<open>The header codec\<close>

definition ph_wf :: "page_header \<Rightarrow> bool" where
  "ph_wf h \<longleftrightarrow> length (ph_min_key h) = kPageSummaryKeyBytes \<and> length (ph_max_key h) = kPageSummaryKeyBytes
     \<and> length (ph_padding h) = 3"

lemma length_key_field [simp, layout_simps]: "length (key_field k) = kPageSummaryKeyBytes"
  by (simp add: key_field_def overwrite_def)

lemma length_enc_ph [layout_simps]: "ph_wf h \<Longrightarrow> length (enc_ph h) = kPageHeader"
  by (simp add: ph_wf_def enc_ph_def ph_body_def kPageSummaryKeyBytes_def kPageHeader_def)

lemma read_enc_ph [codec_simps]: "ph_wf h \<Longrightarrow> read_ph (enc_ph h @ rest) = h"
  by (rule page_header.equality)
    (simp_all add: ph_wf_def enc_ph_def ph_body_def read_ph_def kPageSummaryKeyBytes_def slice_def nth_append)

lemma ph_wf_init: "ph_wf PageHeader_init"
  by (simp add: ph_wf_def PageHeader_init_def)

lemma ph_wf_seal [simp]: "ph_wf (seal_header h) = ph_wf h"
  by (simp add: ph_wf_def seal_header_def)

lemma seal_header_simps [simp]:
  "ph_type (seal_header h) = ph_type h" "ph_key_count (seal_header h) = ph_key_count h"
  "ph_reserved (seal_header h) = ph_reserved h" "ph_next (seal_header h) = ph_next h"
  "ph_summary_type (seal_header h) = ph_summary_type h"
  "ph_min_key_len (seal_header h) = ph_min_key_len h" "ph_max_key_len (seal_header h) = ph_max_key_len h"
  "ph_min_key (seal_header h) = ph_min_key h" "ph_max_key (seal_header h) = ph_max_key h"
  by (simp_all add: seal_header_def)

lemma seal_header_checks: "ph_crc (seal_header h) = Crc32 (ph_body (seal_header h))"
  by (simp add: seal_header_def ph_body_def)

lemma leaf_header_wf: "ph_wf (leaf_header bt source)"
  by (simp add: ph_wf_def leaf_header_def PageHeader_init_def Let_def)

lemma internal_header_wf: "ph_wf (internal_header bt cs source)"
proof -
  have "length (foldl (\<lambda>bins (k, _). bins[HistogramBinForKey k := bins ! HistogramBinForKey k + 1]) b es) = length b"
    for b :: bytes and es :: entries
    by (induction es arbitrary: b) auto
  then have "length (BuildHistogramBins source) = kHistogramBinCount" by (simp add: BuildHistogramBins_def)
  then show ?thesis
    by (auto simp: ph_wf_def internal_header_def PageHeader_init_def Let_def overwrite_def kHistogramBinCount_def
      kPageSummaryKeyBytes_def)
qed

lemma key_field_prefix: "take (min (length k) kPageSummaryKeyBytes) (key_field k) = take kPageSummaryKeyBytes k"
  by (simp add: key_field_def overwrite_def min_def)

section \<open>Leaf pages read back\<close>

text \<open>Lengths the format can hold: one entry fits a page.\<close>

definition key_fits :: "bytes \<Rightarrow> bool" where
  "key_fits k \<longleftrightarrow> kPageHeader + 2 + length k + 8 \<le> kPageSize"

definition enc_entry :: "nat \<Rightarrow> bytes \<times> u64 \<Rightarrow> bytes" where
  "enc_entry plen e = put_u16 (word_of_nat (length (drop plen (fst e)))) @ drop plen (fst e) @ put_u64 (snd e)"

definition entries_size :: "nat \<Rightarrow> entries \<Rightarrow> nat" where
  "entries_size plen es = length (concat (map (enc_entry plen) es))"

lemma length_enc_entry [simp]: "length (enc_entry plen e) = 10 + (length (fst e) - plen)"
  by (simp add: enc_entry_def)

lemma entries_size_simps [simp]:
  "entries_size plen [] = 0" "entries_size plen (e # es) = 10 + (length (fst e) - plen) + entries_size plen es"
  by (simp_all add: entries_size_def)

lemma put_entries_all:
  "pos + entries_size plen es \<le> kPageSize \<Longrightarrow> put_entries pos plen es = (concat (map (enc_entry plen) es), length es)"
  by (induction pos plen es rule: put_entries.induct) (auto simp: Let_def enc_entry_def split: prod.splits)

lemma leaf_chunk_prefix: "\<exists>rest. es = leaf_chunk used es @ rest"
  by (induction used es rule: leaf_chunk.induct) auto

lemma leaf_chunk_fits: "used \<le> kPageSize \<Longrightarrow> used + entries_size 0 (leaf_chunk used es) \<le> kPageSize"
proof (induction used es rule: leaf_chunk.induct)
  case (2 used k l es)
  then show ?case by (cases "kPageSize < used + 2 + length k + 8") auto
qed simp

lemma leaf_chunk_nonempty: "es \<noteq> [] \<Longrightarrow> key_fits (fst (hd es)) \<Longrightarrow> leaf_chunk kPageHeader es \<noteq> []"
  by (cases es) (auto simp: key_fits_def)

lemma leaf_chunk_stuck: "es \<noteq> [] \<Longrightarrow> \<not> key_fits (fst (hd es)) \<Longrightarrow> leaf_chunk kPageHeader es = []"
  by (cases es) (auto simp: key_fits_def)

lemma take_CommonPrefixLen: "take (CommonPrefixLen a b) b = take (CommonPrefixLen a b) a"
  by (induction a b rule: CommonPrefixLen.induct) auto

lemma CommonPrefixLen_le: "CommonPrefixLen a b \<le> length a \<and> CommonPrefixLen a b \<le> length b"
  by (induction a b rule: CommonPrefixLen.induct) auto

definition narrow :: "bytes \<Rightarrow> bytes \<times> u64 \<Rightarrow> bytes" where
  "narrow p e = (if p = [] then [] else take (CommonPrefixLen p (fst e)) p)"

lemma narrow_prefix: "prefix (narrow p e) p" "prefix (narrow p e) (fst e)"
  using take_is_prefix [of "CommonPrefixLen p (fst e)" p] take_is_prefix [of "CommonPrefixLen p (fst e)" "fst e"]
  by (auto simp: narrow_def take_CommonPrefixLen)

lemma foldl_narrow: "prefix (foldl narrow p es) p \<and> (\<forall>e \<in> set es. prefix (foldl narrow p es) (fst e))"
proof (induction es arbitrary: p)
  case (Cons e es)
  have "prefix (foldl narrow p (e # es)) (narrow p e)" using Cons by simp
  then show ?case
    using Cons [of "narrow p e"] narrow_prefix [of p e] prefix_order.trans by auto
qed simp

lemma take_length_prefix: "prefix p x \<Longrightarrow> take (length p) x = p \<and> length p \<le> length x"
  by (auto simp: prefix_def)

lemma chunk_prefix:
  assumes "e \<in> set es"
  shows "take (ChunkCommonPrefixFromKeys es) (fst e) = take (ChunkCommonPrefixFromKeys es) (fst (hd es))
    \<and> ChunkCommonPrefixFromKeys es \<le> length (fst e)"
proof (cases "length es < 2")
  case True
  then show ?thesis by (simp add: ChunkCommonPrefixFromKeys_def)
next
  case False
  then obtain e0 es1 where es: "es = e0 # es1" by (cases es) auto
  have "(\<lambda>p (k, _). if p = [] then [] else take (CommonPrefixLen p k) p) = narrow"
    by (auto simp: narrow_def fun_eq_iff)
  then have len: "ChunkCommonPrefixFromKeys es = length (foldl narrow (fst e0) es1)"
    using False by (simp add: ChunkCommonPrefixFromKeys_def es)
  have "prefix (foldl narrow (fst e0) es1) (fst e)" "prefix (foldl narrow (fst e0) es1) (fst e0)"
    using foldl_narrow [of "fst e0" es1] assms es by auto
  then show ?thesis by (simp add: len [unfolded es] es take_length_prefix)
qed


lemma leaf_entries_walk:
  assumes "lc_page cur = pre @ concat (map (enc_entry (length p)) es) @ post" "lc_pos cur = length pre"
    and "length (lc_page cur) = kPageSize" "lc_index cur + length es = unat (ph_key_count (lc_hdr cur))"
    and "\<forall>e \<in> set es. take (length p) (fst e) = p" "lc_prefix cur = p"
    and "ph_reserved (lc_hdr cur) = kLeafPrefixFormat \<or> p = []"
  shows "leaf_entries cur = es"
  using assms
proof (induction es arbitrary: cur pre)
  case Nil
  then show ?case by (simp add: leaf_entries.simps [of cur] NextLeafEntry_def)
next
  case (Cons e es)
  let ?s = "drop (length p) (fst e)"
  let ?post = "concat (map (enc_entry (length p)) es) @ post"
  have page: "lc_page cur = pre @ put_u16 (word_of_nat (length ?s)) @ ?s @ put_u64 (snd e) @ ?post"
    using Cons.prems(1) by (simp add: enc_entry_def [of "length p" e])
  have size: "length pre + 10 + length ?s \<le> kPageSize"
    using Cons.prems(3) unfolding page by simp
  then have "length ?s < 65536" by (simp add: kPageSize_def)
  then have klen: "unat (get_u16 (drop (lc_pos cur) (lc_page cur))) = length ?s"
    by (simp add: page Cons.prems(2) unat_of_nat)
  have key: "lc_prefix cur @ ?s = fst e"
    using Cons.prems(5,6) by (metis append_take_drop_id list.set_intros(1))
  have sl: "slice (length pre + 2) (length ?s) (lc_page cur) = ?s"
    "get_u64 (drop (length pre + 2 + length ?s) (lc_page cur)) = snd e"
    unfolding page by (simp_all add: slice_def)
  let ?cur = "cur\<lparr>lc_pos := length pre + 2 + length ?s + 8, lc_index := Suc (lc_index cur)\<rparr>"
  have "(if ph_reserved (lc_hdr cur) = kLeafPrefixFormat then lc_prefix cur @ ?s else ?s) = fst e"
    using key Cons.prems(6,7) by auto
  then have next_entry: "NextLeafEntry cur = Some (e, ?cur)"
    using Cons.prems(2,4) size klen sl by (simp add: NextLeafEntry_def Let_def prod_eq_iff split: if_splits)
  have "leaf_entries ?cur = es"
    by (rule Cons.IH [of _ "pre @ enc_entry (length p) e"]) (use Cons.prems in auto)
  then show ?case by (simp add: leaf_entries.simps [of cur] next_entry)
qed

definition leaf_form :: "page_header \<Rightarrow> bytes \<Rightarrow> entries \<Rightarrow> bytes \<Rightarrow> bool" where
  "leaf_form h p chunk page \<longleftrightarrow>
     ph_wf h \<and> ph_type h = kPageTypeLeaf \<and> unat (ph_key_count h) = length chunk
     \<and> (\<forall>e \<in> set chunk. take (length p) (fst e) = p)
     \<and> (\<exists>start. (ph_reserved h = kLeafPrefixFormat \<and> start = put_u16 (word_of_nat (length p)) @ p
                \<or> ph_reserved h \<noteq> kLeafPrefixFormat \<and> p = [] \<and> start = [])
          \<and> kPageHeader + length start + entries_size (length p) chunk \<le> kPageSize
          \<and> page = pad_page (enc_ph h @ start @ concat (map (enc_entry (length p)) chunk)))"

lemma length_pad_page: "length b \<le> kPageSize \<Longrightarrow> length (pad_page b) = kPageSize"
  by (simp add: pad_page_def)

lemma leaf_form_page:
  assumes "leaf_form h p chunk page"
  shows "length page = kPageSize" "read_ph page = h"
  using assms by (auto simp: leaf_form_def pad_page_def length_enc_ph codec_simps entries_size_def)

lemma leaf_form_entries:
  assumes "leaf_form h p chunk page"
  shows "\<exists>cur. InitLeafCursor page = Some cur \<and> leaf_entries cur = chunk"
proof -
  obtain start where f: "ph_wf h" "ph_type h = kPageTypeLeaf" "unat (ph_key_count h) = length chunk"
    "\<forall>e \<in> set chunk. take (length p) (fst e) = p"
    "ph_reserved h = kLeafPrefixFormat \<and> start = put_u16 (word_of_nat (length p)) @ p
      \<or> ph_reserved h \<noteq> kLeafPrefixFormat \<and> p = [] \<and> start = []"
    "kPageHeader + length start + entries_size (length p) chunk \<le> kPageSize"
    "page = pad_page (enc_ph h @ start @ concat (map (enc_entry (length p)) chunk))"
    using assms unfolding leaf_form_def by blast
  let ?post = "replicate (kPageSize - length (enc_ph h @ start @ concat (map (enc_entry (length p)) chunk))) (0::byte)"
  have page: "page = (enc_ph h @ start) @ concat (map (enc_entry (length p)) chunk) @ ?post"
    by (simp add: f(7) pad_page_def)
  note len = leaf_form_page [OF assms]
  let ?cur = "\<lparr>lc_hdr = h, lc_prefix = p, lc_pos = kPageHeader + length start, lc_index = 0, lc_page = page\<rparr>"
  have "leaf_entries ?cur = chunk"
    by (rule leaf_entries_walk [of ?cur "enc_ph h @ start" p chunk ?post])
      (use f len page in \<open>auto simp: length_enc_ph\<close>)
  moreover have "InitLeafCursor page = Some ?cur"
  proof (cases "ph_reserved h = kLeafPrefixFormat")
    case True
    then have start: "start = put_u16 (word_of_nat (length p)) @ p" using f(5) by blast
    have "length p < 65536" "kPageHeader + 2 + length p \<le> kPageSize"
      using f(6) start by (simp_all add: kPageSize_def)
    then have "unat (word_of_nat (length p) :: u16) = length p" by (simp add: unat_of_nat)
    moreover have "drop kPageHeader page = start @ concat (map (enc_entry (length p)) chunk) @ ?post"
      by (subst page) (simp add: length_enc_ph [OF f(1)])
    moreover have "drop (kPageHeader + 2) page = drop 2 (drop kPageHeader page)"
      by (simp add: add.commute)
    ultimately have "slice (kPageHeader + 2) (length p) page = p" "get_u16 (drop kPageHeader page) = word_of_nat (length p)"
      unfolding slice_def by (simp_all only:) (simp_all add: start)
    with \<open>unat (word_of_nat (length p) :: u16) = length p\<close> show ?thesis
      using True f(2) len(2) \<open>kPageHeader + 2 + length p \<le> kPageSize\<close>
      by (simp add: InitLeafCursor_def Let_def start)
  next
    case False
    then show ?thesis using f(2,5) len by (simp add: InitLeafCursor_def Let_def)
  qed
  ultimately show ?thesis by blast
qed


lemma entries_size_narrow:
  "\<forall>e \<in> set es. plen \<le> length (fst e) \<Longrightarrow> entries_size plen es + length es * plen = entries_size 0 es"
  by (induction es) auto

lemma entries_size_ge: "10 * length es \<le> entries_size plen es"
  by (induction es) auto

lemma leaf_header_type [simp]: "ph_type (leaf_header bt source) = kPageTypeLeaf"
  by (simp add: leaf_header_def Let_def)

lemma SerializeLeafChunk_form:
  assumes "leaf_chunk kPageHeader todo \<noteq> []"
  shows "\<exists>p h page. SerializeLeafChunk bt source todo = (page, fst (hd todo), drop (length (leaf_chunk kPageHeader todo)) todo)
    \<and> leaf_form (seal_header h) p (leaf_chunk kPageHeader todo) page
    \<and> (\<exists>r c. h = (leaf_header bt source)\<lparr>ph_reserved := r, ph_key_count := c\<rparr>)"
proof -
  let ?c = "leaf_chunk kPageHeader todo" and ?n = "ChunkCommonPrefixFromKeys (leaf_chunk kPageHeader todo)"
  let ?use = "kMinLeafPrefixLen \<le> ?n \<and> 2 \<le> length ?c"
  define p where "p = (if ?use then take ?n (fst (hd todo)) else [])"
  define start where "start = (if ?use then put_u16 (word_of_nat (length p)) @ p else [])"
  define h where "h = (leaf_header bt source)\<lparr>ph_reserved := if ?use then kLeafPrefixFormat else 0,
    ph_key_count := word_of_nat (length ?c)\<rparr>"
  have hd: "fst (hd todo) = fst (hd ?c)"
    using assms leaf_chunk_prefix [of todo kPageHeader] by (metis hd_append2)
  have pre: "take ?n (fst e) = take ?n (fst (hd ?c)) \<and> ?n \<le> length (fst e)" if "e \<in> set ?c" for e
    by (rule chunk_prefix [OF that])
  have lp: "?use \<Longrightarrow> length p = ?n" using pre [of "hd ?c"] assms by (simp add: p_def hd)
  have fits: "kPageHeader + entries_size 0 ?c \<le> kPageSize"
    by (rule leaf_chunk_fits) (simp add: page_sizes kPageHeader_def)
  have size: "kPageHeader + length start + entries_size (length p) ?c \<le> kPageSize"
  proof (cases ?use)
    case True
    have "entries_size ?n ?c + length ?c * ?n = entries_size 0 ?c"
      by (rule entries_size_narrow) (use pre in auto)
    moreover have "2 * ?n \<le> length ?c * ?n" using True by (intro mult_le_mono1) auto
    moreover have "2 + ?n \<le> 2 * ?n" using True by (simp add: kMinLeafPrefixLen_def)
    ultimately have "2 + ?n + entries_size ?n ?c \<le> entries_size 0 ?c" by linarith
    then show ?thesis using fits True lp by (simp add: start_def)
  next
    case False
    then have "p = []" "start = []" unfolding p_def start_def by meson+
    then show ?thesis using fits by simp
  qed
  have put: "put_entries (kPageHeader + length start) (length p) ?c = (concat (map (enc_entry (length p)) ?c), length ?c)"
    by (rule put_entries_all [OF size])
  have "length ?c < 65536" using entries_size_ge [of ?c 0] fits by (simp add: kPageSize_def)
  then have count: "unat (ph_key_count h) = length ?c" by (simp add: h_def unat_of_nat)
  have ser: "SerializeLeafChunk bt source todo
      = (pad_page (enc_ph (seal_header h) @ start @ concat (map (enc_entry (length p)) ?c)), fst (hd todo), drop (length ?c) todo)"
    using put assms unfolding SerializeLeafChunk_def Let_def p_def [symmetric] start_def [symmetric]
    by (simp add: h_def hd)
  have "leaf_form (seal_header h) p ?c (pad_page (enc_ph (seal_header h) @ start @ concat (map (enc_entry (length p)) ?c)))"
    unfolding leaf_form_def
  proof (intro conjI exI [of _ start])
    show "ph_wf (seal_header h)" using leaf_header_wf [of bt source] by (simp only: ph_wf_seal) (simp add: h_def ph_wf_def)
    show "\<forall>e \<in> set ?c. take (length p) (fst e) = p"
      using pre lp hd unfolding p_def by (auto split: if_splits)
    show "ph_reserved (seal_header h) = kLeafPrefixFormat \<and> start = put_u16 (word_of_nat (length p)) @ p
        \<or> ph_reserved (seal_header h) \<noteq> kLeafPrefixFormat \<and> p = [] \<and> start = []"
      by (auto simp: h_def start_def p_def kLeafPrefixFormat_def)
  qed (simp_all add: count size, simp add: h_def)
  then show ?thesis using ser unfolding h_def by blast
qed


section \<open>The chain of leaf pages\<close>

text \<open>A leaf page with given entries, summary bounds and successor.\<close>

definition leaf_ok :: "bytes \<times> bytes \<Rightarrow> u32 \<Rightarrow> entries \<Rightarrow> bytes \<Rightarrow> bool" where
  "leaf_ok B nx chunk page \<longleftrightarrow> chunk \<noteq> [] \<and>
     (\<exists>h p. leaf_form (seal_header h) p chunk page \<and> summary_bounds h = B \<and> ph_next h = nx)"

lemma summary_bounds_cong [simp]:
  "summary_bounds (seal_header h) = summary_bounds h"
  "summary_bounds (h\<lparr>ph_next := nx\<rparr>) = summary_bounds h"
  "ph_reserved h = r \<or> ph_summary_type h \<noteq> kSummaryTypeHistogram \<Longrightarrow> summary_bounds (h\<lparr>ph_reserved := r, ph_key_count := c\<rparr>) = summary_bounds h"
  by (auto simp: summary_bounds_def HistogramStringBounds_def)

lemma key_fits_length: "key_fits k \<Longrightarrow> length k < 65536"
  by (simp add: key_fits_def page_sizes)

lemma leaf_header_bounds:
  assumes "source \<noteq> []" "\<forall>e \<in> set source. key_fits (fst e)"
  shows "summary_bounds (leaf_header bt source)
    = (take kPageSummaryKeyBytes (fst (hd source)), take kPageSummaryKeyBytes (fst (last source)))"
proof -
  have "length (fst (hd source)) < 65536" "length (fst (last source)) < 65536"
    using assms by (auto intro: key_fits_length)
  then show ?thesis
    using assms(1) by (simp add: summary_bounds_def leaf_header_def Let_def page_types key_field_prefix unat_of_nat)
qed

lemma leaf_pages_ok:
  assumes "\<forall>e \<in> set todo. key_fits (fst e)" "source \<noteq> []" "\<forall>e \<in> set source. key_fits (fst e)"
  shows "\<exists>pages chunks. leaf_pages bt source todo = Some pages \<and> concat chunks = todo
    \<and> list_all2 (\<lambda>(page, first) chunk. first = fst (hd chunk)
        \<and> leaf_ok (take kPageSummaryKeyBytes (fst (hd source)), take kPageSummaryKeyBytes (fst (last source))) 0 chunk page)
      pages chunks"
  using assms(1)
proof (induction "length todo" arbitrary: todo rule: less_induct)
  case less
  let ?B = "(take kPageSummaryKeyBytes (fst (hd source)), take kPageSummaryKeyBytes (fst (last source)))"
  show ?case
  proof (cases "todo = []")
    case True
    then show ?thesis by (auto simp: leaf_pages.simps intro!: exI [of _ "[]"])
  next
    case False
    let ?c = "leaf_chunk kPageHeader todo"
    have c: "?c \<noteq> []" using less.prems False by (intro leaf_chunk_nonempty) auto
    obtain p h page where f: "SerializeLeafChunk bt source todo = (page, fst (hd todo), drop (length ?c) todo)"
      "leaf_form (seal_header h) p ?c page" "\<exists>r c. h = (leaf_header bt source)\<lparr>ph_reserved := r, ph_key_count := c\<rparr>"
      using SerializeLeafChunk_form [OF c, of bt source] by blast
    obtain rest where rest: "todo = ?c @ rest" using leaf_chunk_prefix by blast
    then have drp: "drop (length ?c) todo = rest" by (metis append_eq_conv_conj)
    have len: "length rest < length todo" using rest c by (metis length_append length_greater_0_conv less_add_same_cancel2)
    have "set rest \<subseteq> set todo" using rest by (metis set_append sup_ge2)
    then obtain pages chunks where IH: "leaf_pages bt source rest = Some pages" "concat chunks = rest"
      "list_all2 (\<lambda>(page, first) chunk. first = fst (hd chunk) \<and> leaf_ok ?B 0 chunk page) pages chunks"
      using less.hyps [OF len] less.prems by blast
    have "ph_summary_type (leaf_header bt source) \<noteq> kSummaryTypeHistogram" "ph_next (leaf_header bt source) = 0"
      by (simp_all add: leaf_header_def Let_def page_types PageHeader_init_def)
    then have "leaf_ok ?B 0 ?c page"
      using f(2,3) c leaf_header_bounds [OF assms(2,3), of bt] unfolding leaf_ok_def by force
    moreover have "fst (hd todo) = fst (hd ?c)" using rest c by (metis hd_append2)
    moreover have "leaf_pages bt source todo = Some ((page, fst (hd todo)) # pages)"
      using False by (simp add: leaf_pages.simps [of bt source todo] f(1) drp IH(1))
    ultimately show ?thesis
      using IH(2,3) rest by (intro exI [of _ "(page, fst (hd todo)) # pages"] exI [of _ "?c # chunks"]) auto
  qed
qed

lemma leaf_ok_length: "leaf_ok B nx chunk page \<Longrightarrow> length page = kPageSize"
  by (auto simp: leaf_ok_def dest: leaf_form_page)

lemma set_next_ok:
  assumes "leaf_ok B nx chunk page"
  shows "leaf_ok B (word_of_nat off) chunk (set_next off page)"
proof -
  obtain h p where f: "leaf_form (seal_header h) p chunk page" "summary_bounds h = B"
    using assms by (auto simp: leaf_ok_def)
  let ?h = "h\<lparr>ph_next := word_of_nat off\<rparr>"
  have wf: "ph_wf h" using f(1) by (simp add: leaf_form_def)
  then have wf1: "ph_wf ?h" by (simp add: ph_wf_def)
  have "seal_header ((seal_header h)\<lparr>ph_next := word_of_nat off\<rparr>) = seal_header ?h"
    by (simp add: seal_header_def ph_body_def)
  then have s: "set_next off page = enc_ph (seal_header ?h) @ drop kPageHeader page"
    by (simp add: set_next_def leaf_form_page [OF f(1)])
  have "leaf_form (seal_header ?h) p chunk (set_next off page)"
  proof -
    from f(1) obtain start1 where o: "ph_type h = kPageTypeLeaf" "unat (ph_key_count h) = length chunk"
      "\<forall>e \<in> set chunk. take (length p) (fst e) = p"
      "ph_reserved h = kLeafPrefixFormat \<and> start1 = put_u16 (word_of_nat (length p)) @ p
        \<or> ph_reserved h \<noteq> kLeafPrefixFormat \<and> p = [] \<and> start1 = []"
      "kPageHeader + length start1 + entries_size (length p) chunk \<le> kPageSize"
      "page = pad_page (enc_ph (seal_header h) @ start1 @ concat (map (enc_entry (length p)) chunk))"
      unfolding leaf_form_def by auto
    have "set_next off page = pad_page (enc_ph (seal_header ?h) @ start1 @ concat (map (enc_entry (length p)) chunk))"
      unfolding s using wf wf1 by (simp add: o(6) pad_page_def length_enc_ph)
    then show ?thesis
      unfolding leaf_form_def using o wf1 by (intro conjI exI [of _ start1]) simp_all
  qed
  then show ?thesis using assms f(2) unfolding leaf_ok_def by (intro conjI exI [of _ ?h] exI [of _ p]) auto
qed

lemma link_pages_ok:
  assumes "list_all2 (leaf_ok B 0) chunks pages"
  shows "length (link_pages base pages) = length chunks
    \<and> (\<forall>i < length chunks. leaf_ok B (if Suc i < length chunks then word_of_nat (base + Suc i * kPageSize) else 0)
          (chunks ! i) (link_pages base pages ! i))"
  using assms
proof (induction base pages arbitrary: chunks rule: link_pages.induct)
  case (3 base p q ps)
  then obtain c cs where chunks: "chunks = c # cs" "leaf_ok B 0 c p" "list_all2 (leaf_ok B 0) cs (q # ps)"
    by (cases chunks) auto
  note IH = "3.IH" [OF chunks(3)]
  show ?case
  proof (intro conjI allI impI)
    show "length (link_pages base (p # q # ps)) = length chunks" using IH chunks by simp
    fix i assume i: "i < length chunks"
    have cs: "cs \<noteq> []" using chunks(3) by auto
    show "leaf_ok B (if Suc i < length chunks then word_of_nat (base + Suc i * kPageSize) else 0) (chunks ! i)
        (link_pages base (p # q # ps) ! i)"
    proof (cases i)
      case 0
      then show ?thesis using set_next_ok [OF chunks(2), of "base + kPageSize"] cs by (simp add: chunks(1))
    next
      case (Suc j)
      have "base + kPageSize + Suc j * kPageSize = base + Suc (Suc j) * kPageSize" by simp
      from conjunct2 [OF IH, rule_format, of j, unfolded this] Suc i show ?thesis
        by (simp add: chunks(1) del: mult_Suc of_nat_add of_nat_mult of_nat_Suc split: if_splits)
    qed
  qed
qed (auto simp: list_all2_Cons2)


text \<open>What a lookup through a tree answers: the order on keys is that of byte strings.\<close>

lemma take_le: "take n k \<le> (k :: bytes)"
  by (induction k arbitrary: n) (simp_all add: take_Cons split: nat.split)

definition answer :: "entries \<Rightarrow> bytes \<Rightarrow> u64 option" where
  "answer source key = (if take kPageSummaryKeyBytes (fst (last source)) < key then None else map_of source key)"

definition answers :: "u64 option \<Rightarrow> u64 res \<Rightarrow> bool" where
  "answers a r = (case a of Some lsn \<Rightarrow> r = Inr lsn | None \<Rightarrow> \<exists>m. r = Inl (Status_NotFound m))"

definition view_le :: "(nat \<Rightarrow> bytes res) \<Rightarrow> (nat \<Rightarrow> bytes res) \<Rightarrow> bool" where
  "view_le v w \<longleftrightarrow> (\<forall>offset \<ge> kPageFileHeaderSize. \<forall>p. v offset = Inr p \<longrightarrow> w offset = Inr p)"

lemma view_le_refl: "view_le v v"
  by (simp add: view_le_def)

lemma view_le_trans: "view_le u v \<Longrightarrow> view_le v w \<Longrightarrow> view_le u w"
  by (simp add: view_le_def)

definition node_good :: "entries \<Rightarrow> (nat \<Rightarrow> bytes res) \<Rightarrow> nat \<Rightarrow> bytes \<Rightarrow> bool" where
  "node_good source v offset first \<longleftrightarrow> (\<forall>w key. view_le v w \<longrightarrow>
     (\<exists>r. GetFromDiskAt w key offset = Some r \<and> answers (if key < first then None else answer source key) r))"

lemma node_good_mono: "node_good source v offset first \<Longrightarrow> view_le v w \<Longrightarrow> node_good source w offset first"
  unfolding node_good_def using view_le_trans by blast

definition leaves_at :: "(nat \<Rightarrow> bytes res) \<Rightarrow> bytes \<times> bytes \<Rightarrow> nat \<Rightarrow> entries list \<Rightarrow> bool" where
  "leaves_at v B base chunks \<longleftrightarrow> (\<forall>i < length chunks. \<exists>page. v (base + i * kPageSize) = Inr page
     \<and> leaf_ok B (if Suc i < length chunks then word_of_nat (base + Suc i * kPageSize) else 0) (chunks ! i) page)"

lemma leaves_at_mono: "leaves_at v B base chunks \<Longrightarrow> view_le v w \<Longrightarrow> kPageFileHeaderSize \<le> base \<Longrightarrow> leaves_at w B base chunks"
  unfolding leaves_at_def view_le_def by (meson trans_le_add1)

lemma next_leaf_offset:
  assumes "kPageFileHeaderSize \<le> base" "base + n * kPageSize \<le> 2 ^ 32" "Suc i < n"
  shows "unat (word_of_nat (base + Suc i * kPageSize) :: u32) = base + Suc i * kPageSize
    \<and> (word_of_nat (base + Suc i * kPageSize) :: u32) \<noteq> 0 \<and> kPageFileHeaderSize \<le> base + Suc i * kPageSize"
proof -
  have "Suc (Suc i) * kPageSize \<le> n * kPageSize" using assms(3) by (intro mult_le_mono1) simp
  then have "base + Suc i * kPageSize < 2 ^ 32" using assms(2) by (simp add: kPageSize_def)
  then have u: "unat (word_of_nat (base + Suc i * kPageSize) :: u32) = base + Suc i * kPageSize"
    by (simp add: unat_of_nat del: of_nat_add of_nat_mult of_nat_Suc mult_Suc)
  moreover have ge: "kPageFileHeaderSize \<le> base + Suc i * kPageSize" using assms(1) by simp
  ultimately show ?thesis by (metis unat_0 kPageFileHeaderSize_def not_numeral_le_zero)
qed

lemma leaf_chain_lookup:
  assumes "leaves_at v B base chunks" "kPageFileHeaderSize \<le> base" "base + length chunks * kPageSize \<le> 2 ^ 32" "i < length chunks"
  shows "GetFromLeafChain v key (base + i * kPageSize)
    = Some (case map_of (concat (drop i chunks)) key of Some lsn \<Rightarrow> Inr lsn | None \<Rightarrow> Inl (Status_NotFound ''key not on disk''))"
  using assms(4)
proof (induction "length chunks - i" arbitrary: i rule: less_induct)
  case less
  let ?nx = "if Suc i < length chunks then word_of_nat (base + Suc i * kPageSize) else 0 :: u32"
  obtain page where page: "v (base + i * kPageSize) = Inr page" "leaf_ok B ?nx (chunks ! i) page"
    using assms(1) less.prems unfolding leaves_at_def by blast
  obtain h p where f: "leaf_form (seal_header h) p (chunks ! i) page" "ph_next h = ?nx"
    using page(2) unfolding leaf_ok_def by blast
  obtain cur where cur: "InitLeafCursor page = Some cur" "leaf_entries cur = chunks ! i"
    using leaf_form_entries [OF f(1)] by blast
  have hdr: "read_ph page = seal_header h" "ph_type h = kPageTypeLeaf"
    using leaf_form_page(2) [OF f(1)] f(1) by (simp_all add: leaf_form_def)
  have d: "concat (drop i chunks) = chunks ! i @ concat (drop (Suc i) chunks)"
    using less.prems by (simp add: Cons_nth_drop_Suc [symmetric])
  note step = GetFromLeafChain.simps [of v key "base + i * kPageSize"]
  show ?case
  proof (cases "map_of (chunks ! i) key")
    case (Some lsn)
    then show ?thesis using assms(2) by (simp add: step page(1) hdr cur d map_add_def)
  next
    case None
    show ?thesis
    proof (cases "Suc i < length chunks")
      case True
      note nx = next_leaf_offset [OF assms(2,3) True]
      show ?thesis
        using None True assms(2) less.hyps [OF _ True] nx
        by (simp add: step page(1) hdr cur d map_add_def f(2) del: mult_Suc of_nat_add of_nat_mult of_nat_Suc)
    next
      case False
      then show ?thesis
        using None assms(2) f(2) by (simp add: step page(1) hdr cur d)
    qed
  qed
qed

lemma ReadPageHeader_sealed:
  "v offset = Inr page \<Longrightarrow> read_ph page = seal_header h \<Longrightarrow> ReadPageHeader v offset = Inr (seal_header h)"
  using seal_header_checks [of h] by (simp add: ReadPageHeader_def)

lemma sorted_hd_le:
  "sorted_wrt (<) (map fst es) \<Longrightarrow> e \<in> set es \<Longrightarrow> fst (hd es) \<le> (fst e :: bytes) \<and> fst e \<le> fst (last es)"
  by (induction es) (auto simp: less_imp_le)

lemma map_of_from_chunk:
  fixes chunks :: "entries list" and key :: bytes
  assumes "sorted_wrt (<) (map fst (concat chunks))" "i < length chunks" "chunks ! i \<noteq> []"
  shows "map_of (concat (drop i chunks)) key
    = (if key < fst (hd (chunks ! i)) then None else map_of (concat chunks) key)"
proof -
  let ?a = "concat (take i chunks)" and ?b = "concat (drop i chunks)"
  have "concat chunks = ?a @ ?b" by (metis append_take_drop_id concat_append)
  then have s: "sorted_wrt (<) (map fst ?b)" "\<forall>e \<in> set ?a. \<forall>e1 \<in> set ?b. fst e < fst e1"
    "map_of (concat chunks) key = (case map_of ?a key of Some l \<Rightarrow> Some l | None \<Rightarrow> map_of ?b key)"
    using assms(1) by (auto simp: sorted_wrt_append map_add_def split: option.splits)
  have b: "?b = chunks ! i @ concat (drop (Suc i) chunks)"
    using assms(2) by (simp add: Cons_nth_drop_Suc [symmetric])
  then have hd: "hd ?b = hd (chunks ! i)" "hd (chunks ! i) \<in> set ?b" using assms(3) by auto
  show ?thesis
  proof (cases "key < fst (hd (chunks ! i))")
    case True
    then have "key \<notin> fst ` set ?b" using sorted_hd_le [OF s(1)] hd(1) by (metis (no_types) imageE leD)
    then show ?thesis using True by (simp add: map_of_eq_None_iff)
  next
    case False
    then have "key \<notin> fst ` set ?a" using s(2) hd(2) by auto
    then have "map_of ?a key = None" by (simp only: map_of_eq_None_iff) simp
    then show ?thesis using False s(3) by simp
  qed
qed

lemma leaf_node_good:
  assumes "leaves_at v B base chunks" "kPageFileHeaderSize \<le> base" "base + length chunks * kPageSize \<le> 2 ^ 32" "i < length chunks"
    and "source = concat chunks" "sorted_wrt (<) (map fst source)"
    and "B = (take kPageSummaryKeyBytes (fst (hd source)), take kPageSummaryKeyBytes (fst (last source)))"
  shows "node_good source v (base + i * kPageSize) (fst (hd (chunks ! i)))"
  unfolding node_good_def
proof (intro allI impI)
  fix w key assume "view_le v w"
  then have at: "leaves_at w B base chunks" using assms(1,2) leaves_at_mono by blast
  then obtain nx page where page: "w (base + i * kPageSize) = Inr page" "leaf_ok B nx (chunks ! i) page"
    using assms(4) unfolding leaves_at_def by blast
  then obtain h p where f: "leaf_form (seal_header h) p (chunks ! i) page" "summary_bounds h = B" "chunks ! i \<noteq> []"
    unfolding leaf_ok_def by blast
  have hdr: "ReadPageHeader w (base + i * kPageSize) = Inr (seal_header h)" "ph_type h = kPageTypeLeaf"
    using ReadPageHeader_sealed [of w "base + i * kPageSize" page h] page(1) leaf_form_page(2) [OF f(1)] f(1) by (simp_all add: leaf_form_def)
  let ?min = "take kPageSummaryKeyBytes (fst (hd source))" and ?max = "take kPageSummaryKeyBytes (fst (last source))"
  let ?first = "fst (hd (chunks ! i))"
  have covers: "PageSummaryCoversKey (seal_header h) key
      \<longleftrightarrow> key = [] \<or> \<not> (?min \<noteq> [] \<and> key < ?min) \<and> \<not> (?max \<noteq> [] \<and> ?max < key)"
    using f(2) assms(7) hdr(2) by (simp add: PageSummaryCoversKey_def page_types)
  have no_key: "map_of source key = None" if "key < fst (hd source) \<or> fst (last source) < key"
    using sorted_hd_le [OF assms(6)] that by (force simp: map_of_eq_None_iff)
  show "\<exists>r. GetFromDiskAt w key (base + i * kPageSize) = Some r
      \<and> answers (if key < ?first then None else answer source key) r"
  proof (cases "PageSummaryCoversKey (seal_header h) key")
    case False
    then have "key < ?min \<or> ?max < key" using covers by auto
    then have "answer source key = None"
      using no_key less_le_trans [OF _ take_le [of kPageSummaryKeyBytes "fst (hd source)"]] by (auto simp: answer_def)
    then show ?thesis using False hdr by (simp add: GetFromDiskAt.simps [of w key] answers_def Status_NotFound_def)
  next
    case True
    then have "GetFromDiskAt w key (base + i * kPageSize) = GetFromLeafChain w key (base + i * kPageSize)"
      using hdr by (simp add: GetFromDiskAt.simps [of w key])
    also have "\<dots> = Some (case (if key < ?first then None else map_of source key) of
        Some lsn \<Rightarrow> Inr lsn | None \<Rightarrow> Inl (Status_NotFound ''key not on disk''))"
      using leaf_chain_lookup [OF at assms(2-4)] map_of_from_chunk [of chunks i key] assms(4-6) f(3) by simp
    finally have r: "GetFromDiskAt w key (base + i * kPageSize) = \<dots>" .
    have "answer source key = map_of source key"
    proof (cases "?max < key")
      case True
      then have "?max = []" using \<open>PageSummaryCoversKey (seal_header h) key\<close> covers by auto
      then have "fst (last source) = []" by (auto simp: kPageSummaryKeyBytes_def)
      then show ?thesis using True no_key by (simp add: answer_def)
    qed (simp add: answer_def)
    then show ?thesis using r by (auto simp: answers_def split: option.splits)
  qed
qed


section \<open>Internal pages\<close>

definition enc_child :: "bytes \<times> nat \<Rightarrow> bytes" where
  "enc_child c = put_u32 (word_of_nat (snd c)) @ put_u16 (word_of_nat (length (fst c))) @ fst c"

lemma put_children_shape:
  assumes "put_children pos cs = (b, n)" "pos \<le> kPageSize"
  shows "n \<le> length cs \<and> b = concat (map enc_child (take n cs)) \<and> pos + length b \<le> kPageSize \<and> 6 * n \<le> length b"
  using assms
proof (induction pos cs arbitrary: b n rule: put_children.induct)
  case (2 pos k off cs)
  show ?case
  proof (cases "kPageSize < pos + (4 + 2 + length k)")
    case True
    then show ?thesis using "2.prems" by auto
  next
    case False
    obtain b1 n1 where r: "put_children (pos + 4 + 2 + length k) cs = (b1, n1)" by fastforce
    then have e: "b = enc_child (k, off) @ b1" "n = Suc n1" using "2.prems" False by (auto simp: enc_child_def)
    have "pos + 4 + 2 + length k \<le> kPageSize" using False by simp
    from "2.IH" [OF False r this] show ?thesis by (auto simp: e enc_child_def [of "(k, off)"])
  qed
qed auto

fun pick :: "bytes \<Rightarrow> nat \<Rightarrow> children \<Rightarrow> nat" where
  "pick key c [] = c"
| "pick key c ((k, off) # cs) = (if key < k then c else pick key off cs)"

definition child_ok :: "bytes \<times> nat \<Rightarrow> bool" where
  "child_ok c \<longleftrightarrow> key_fits (fst c) \<and> kPageFileHeaderSize \<le> snd c \<and> snd c < 2 ^ 32"

lemma pick_child_walk:
  assumes "page = pre @ concat (map enc_child cs) @ post" "length page = kPageSize" "\<forall>c \<in> set cs. child_ok c"
  shows "pick_child page key (length pre) off (length cs) = Inr (pick key off cs)"
  using assms
proof (induction cs arbitrary: pre off)
  case (Cons c cs)
  obtain k o1 where c: "c = (k, o1)" by fastforce
  let ?post = "concat (map enc_child cs) @ post"
  have page: "page = pre @ put_u32 (word_of_nat o1) @ put_u16 (word_of_nat (length k)) @ k @ ?post"
    using Cons.prems(1) by (simp add: enc_child_def [of "(k, o1)"] c)
  have size: "length pre + 6 + length k \<le> kPageSize" using Cons.prems(2) unfolding page by simp
  have k: "length k < 65536" "kPageFileHeaderSize \<le> o1" "o1 < 2 ^ 32"
    using Cons.prems(3) key_fits_length by (auto simp: child_ok_def c)
  then have get: "unat (get_u32 (drop (length pre) page)) = o1" "unat (get_u16 (drop (length pre + 4) page)) = length k"
    "slice (length pre + 6) (length k) page = k"
    unfolding page by (simp_all add: unat_of_nat slice_def)
  have "pick_child page key (length (pre @ enc_child c)) o1 (length cs) = Inr (pick key o1 cs)"
    using Cons.IH [of "pre @ enc_child c" o1] Cons.prems by simp
  then have "pick_child page key (length pre + 6 + length k) o1 (length cs) = Inr (pick key o1 cs)"
    by (simp add: enc_child_def c ac_simps)
  then show ?case using get size k(2) by (simp add: c)
qed simp

lemma pick_spec:
  "sorted_wrt (<) (map fst cs) \<Longrightarrow> cs = [] \<and> pick key c cs = c \<or> cs \<noteq> [] \<and> key < fst (hd cs) \<and> pick key c cs = c
    \<or> (\<exists>x \<in> set cs. \<not> key < fst x \<and> pick key c cs = snd x)"
proof (induction cs arbitrary: c)
  case (Cons x cs)
  then show ?case by (cases x) (use Cons.IH [of "snd x"] Cons.prems in \<open>auto split: if_splits\<close>)
qed simp

lemma SerializeInternalPage_shape:
  assumes "cs \<noteq> []" "key_fits (fst (hd cs))"
  shows "\<exists>n h post. 0 < n \<and> n \<le> length cs \<and> length (SerializeInternalPage bt cs source) = kPageSize
    \<and> SerializeInternalPage bt cs source = enc_ph (seal_header h) @ concat (map enc_child (take n cs)) @ post
    \<and> ph_wf h \<and> ph_type h = kPageTypeInternal \<and> unat (ph_key_count h) = n"
proof -
  obtain b n where r: "put_children kPageHeader cs = (b, n)" by fastforce
  have sh: "n \<le> length cs" "b = concat (map enc_child (take n cs))" "kPageHeader + length b \<le> kPageSize" "6 * n \<le> length b"
    using put_children_shape [OF r] by (auto simp add: page_sizes kPageHeader_def)
  let ?h = "(internal_header bt cs source)\<lparr>ph_key_count := word_of_nat n\<rparr>"
  have wf: "ph_wf ?h" using internal_header_wf [of bt cs source] by (simp add: ph_wf_def)
  obtain k off cs1 where cs: "cs = (k, off) # cs1" using assms(1) by (metis list.exhaust prod.exhaust)
  have "0 < n"
    using r assms(2) by (auto simp: cs key_fits_def Let_def split: if_splits prod.splits)
  moreover have "n < 65536" using sh(3,4) by (simp add: page_sizes)
  then have "unat (ph_key_count ?h) = n" by (simp add: unat_of_nat)
  moreover have "ph_type ?h = kPageTypeInternal" by (simp add: internal_header_def Let_def)
  moreover have ser: "SerializeInternalPage bt cs source = pad_page (enc_ph (seal_header ?h) @ b)"
    by (simp add: SerializeInternalPage_def r)
  moreover have "length (pad_page (enc_ph (seal_header ?h) @ b)) = kPageSize"
    using sh(3) wf by (intro length_pad_page) (simp add: length_enc_ph)
  ultimately show ?thesis
    using sh(1,2) wf unfolding pad_page_def
    by (intro exI [of _ n] exI [of _ ?h] exI [of _ "replicate (kPageSize - length (enc_ph (seal_header ?h) @ b)) 0"]) simp
qed

lemma internal_node_good:
  assumes "cs \<noteq> []" "sorted_wrt (<) (map fst cs)" "\<forall>c \<in> set cs. child_ok c \<and> node_good source v (snd c) (fst c)"
    and "v offset = Inr (SerializeInternalPage bt cs source)" "kPageFileHeaderSize \<le> offset"
  shows "node_good source v offset (fst (hd cs))"
  unfolding node_good_def
proof (intro allI impI)
  fix w key assume le: "view_le v w"
  have fits: "key_fits (fst (hd cs))" using assms(1,3) by (simp add: child_ok_def)
  obtain n h post where p: "0 < n" "n \<le> length cs" "length (SerializeInternalPage bt cs source) = kPageSize"
    "SerializeInternalPage bt cs source = enc_ph (seal_header h) @ concat (map enc_child (take n cs)) @ post"
    "ph_wf h" "ph_type h = kPageTypeInternal" "unat (ph_key_count h) = n"
    using SerializeInternalPage_shape [OF assms(1) fits, of bt source] by blast
  let ?page = "SerializeInternalPage bt cs source" and ?cs = "take n cs"
  have at: "w offset = Inr ?page" using le assms(4,5) by (simp add: view_le_def)
  have rd: "read_ph ?page = seal_header h" using p(4,5) by (simp add: codec_simps)
  have len: "length (enc_ph (seal_header h)) = kPageHeader" using p(5) by (simp add: length_enc_ph)
  have "set ?cs \<subseteq> set cs" by (rule set_take_subset)
  then have good: "\<forall>c \<in> set ?cs. child_ok c \<and> node_good source w (snd c) (fst c)"
    using assms(3) node_good_mono [OF _ le] by blast
  then have "pick_child ?page key (length (enc_ph (seal_header h))) 0 (length ?cs) = Inr (pick key 0 ?cs)"
    by (intro pick_child_walk [OF p(4,3)]) blast
  then have pc: "pick_child ?page key kPageHeader 0 (unat (ph_key_count (seal_header h))) = Inr (pick key 0 ?cs)"
    using p(2,7) len by simp
  have step: "GetFromDiskAt w key offset = (if pick key 0 ?cs < kPageFileHeaderSize
      then Some (Inl (Status_NotFound ''no child for key'')) else GetFromDiskAt w key (pick key 0 ?cs))"
    using ReadPageHeader_sealed [of w offset ?page h, OF at rd] at p(6) pc
    by (simp add: GetFromDiskAt.simps [of w key offset] PageSummaryCoversKey_def page_types)
  have hd: "?cs \<noteq> []" "hd ?cs = hd cs" using p(1) assms(1) by (auto simp: hd_take)
  have "sorted_wrt (<) (map fst ?cs)" using assms(2) by (simp add: take_map [symmetric] sorted_wrt_take)
  from pick_spec [OF this, of key 0] hd
  consider (low) "key < fst (hd cs)" "pick key 0 ?cs = 0"
    | (child) x where "x \<in> set ?cs" "\<not> key < fst x" "pick key 0 ?cs = snd x" by auto
  then show "\<exists>r. GetFromDiskAt w key offset = Some r \<and> answers (if key < fst (hd cs) then None else answer source key) r"
  proof cases
    case low
    then show ?thesis by (auto simp add: step answers_def page_sizes)
  next
    case child
    have "node_good source w (snd x) (fst x)" using good child(1) by blast
    then have "\<exists>r. GetFromDiskAt w key (snd x) = Some r \<and> answers (if key < fst x then None else answer source key) r"
      using view_le_refl [of w] unfolding node_good_def by blast
    then obtain r where r: "GetFromDiskAt w key (snd x) = Some r" "answers (answer source key) r"
      using child(2) by auto
    have "fst (hd cs) \<le> fst x"
      using assms(1,2) child(1) \<open>set ?cs \<subseteq> set cs\<close> sorted_hd_le [of cs x] by blast
    then have "\<not> key < fst (hd cs)" using child(2) by auto
    moreover have "kPageFileHeaderSize \<le> snd x" using good child(1) by (auto simp: child_ok_def)
    ultimately show ?thesis using r child(3) by (simp add: step)
  qed
qed


section \<open>Persisting a map\<close>

text \<open>A plain page file that is on disk, its header as the last append left it.\<close>

definition disk_ok :: "page_file \<Rightarrow> bool" where
  "disk_ok pf \<longleftrightarrow> raw_ok pf \<and> (\<exists>rest. pf_file pf = Some (page_file_header (pf_next pf) False @ rest))"

lemma append_pages_raw:
  assumes "raw_ok pf" "ps \<noteq> []" "\<forall>p \<in> set ps. length p = kPageSize"
  shows "\<exists>pf1. append_pages lib [] pf ps = (pf1, [], Inr (pf_next pf)) \<and> disk_ok pf1
    \<and> pf_next pf1 = pf_next pf + length ps * kPageSize
    \<and> view_le (committed_view lib pf) (committed_view lib pf1)
    \<and> pages_at (committed_view lib pf1) (pf_next pf) ps"
proof -
  let ?a = "AppendPages lib NoFault pf ps"
  note r = raw_append [OF assms, where lib = lib]
  have ok: "pf_ok pf" using assms(1) by (simp add: raw_ok_def)
  have "\<exists>rest. pf_file (fst ?a) = Some (page_file_header (pf_next (fst ?a)) False @ rest)"
    using appended_prefix(6) [OF ok assms(2,3) prod.collapse [symmetric], of lib] assms(1)
    by (simp add: raw_ok_def wrapped_after_def)
  moreover have "append_pages lib [] pf ps = (fst ?a, [], snd ?a)"
    by (simp add: append_pages_def next_fault_def split: prod.splits)
  ultimately show ?thesis
    using r by (intro exI [of _ "fst ?a"]) (simp add: disk_ok_def view_le_def)
qed

lemma append_page_raw:
  assumes "raw_ok pf" "length p = kPageSize"
  shows "\<exists>pf1. append_pages lib [] pf [p] = (pf1, [], Inr (pf_next pf)) \<and> disk_ok pf1
    \<and> pf_next pf1 = pf_next pf + kPageSize
    \<and> view_le (committed_view lib pf) (committed_view lib pf1) \<and> committed_view lib pf1 (pf_next pf) = Inr p"
  using append_pages_raw [OF assms(1), of "[p]" lib] assms(2) by (auto simp: pages_at_def)

lemma next_ge: "raw_ok pf \<Longrightarrow> kPageFileHeaderSize \<le> pf_next pf"
  by (simp add: raw_ok_def pf_ok_def)

text \<open>
  \<open>tree_pages\<close> is what the construction of the tree needs to know of a property of tree pages to give
  it to the root: it holds of leaf pages, goes from children to their parent, and survives appends.
  It is used for lookups here and for scans in \<open>PagedBTreeScan\<close>.
\<close>

definition children_good :: "((nat \<Rightarrow> bytes res) \<Rightarrow> nat \<Rightarrow> bytes \<Rightarrow> bool) \<Rightarrow> (nat \<Rightarrow> bytes res) \<Rightarrow> children \<Rightarrow> bool" where
  "children_good G v cs \<longleftrightarrow> sorted_wrt (<) (map fst cs) \<and> (\<forall>c \<in> set cs. child_ok c \<and> G v (snd c) (fst c))"

lemma children_good_split:
  assumes "children_good G v cs"
  shows "children_good G v (take n cs)" "children_good G v (drop n cs)"
proof -
  have "sorted_wrt (<) (map fst (take n cs @ drop n cs))" using assms by (simp add: children_good_def)
  then show "children_good G v (take n cs)" "children_good G v (drop n cs)"
    using assms set_take_subset [of n cs] set_drop_subset [of n cs]
    by (auto simp only: children_good_def map_append sorted_wrt_append)
qed

lemma leaf_refs_nth:
  assumes "i < length firsts"
  shows "leaf_refs base firsts ! i = (firsts ! i, base + i * kPageSize)"
  using assms by (simp add: leaf_refs_def nth_enumerate_eq)

lemma length_leaf_refs [simp]: "length (leaf_refs base firsts) = length firsts"
  by (simp add: leaf_refs_def)

lemma map_fst_leaf_refs: "map fst (leaf_refs base firsts) = firsts"
  by (rule nth_equalityI) (simp_all add: leaf_refs_nth)

lemma sorted_firsts:
  fixes chunks :: "entries list"
  shows "sorted_wrt (<) (map fst (concat chunks)) \<Longrightarrow> \<forall>c \<in> set chunks. c \<noteq> [] \<Longrightarrow> sorted_wrt (<) (map (fst \<circ> hd) chunks)"
proof (induction chunks)
  case (Cons c cs)
  have "fst (hd c) < fst (hd d)" if "d \<in> set cs" for d
  proof -
    have "hd d \<in> set (concat cs)" using Cons.prems(2) that by (auto intro!: bexI [of _ d])
    moreover have "hd c \<in> set c" using Cons.prems(2) by simp
    ultimately show ?thesis using Cons.prems(1) by (auto simp: sorted_wrt_append)
  qed
  then show ?case using Cons by (simp add: sorted_wrt_append)
qed simp

lemma length_chunks: "\<forall>c \<in> set chunks. c \<noteq> [] \<Longrightarrow> length chunks \<le> length (concat chunks)"
proof (induction chunks)
  case (Cons c cs)
  then have "Suc 0 \<le> length c" by (simp add: Suc_le_eq)
  moreover have "length cs \<le> length (concat cs)" using Cons by simp
  ultimately show ?case by simp
qed simp

locale tree_pages =
  fixes good :: "entries \<Rightarrow> (nat \<Rightarrow> bytes res) \<Rightarrow> nat \<Rightarrow> bytes \<Rightarrow> bool"
  assumes good_mono: "good source v offset first \<Longrightarrow> view_le v w \<Longrightarrow> good source w offset first"
    and good_leaf: "leaves_at v B base chunks \<Longrightarrow> kPageFileHeaderSize \<le> base \<Longrightarrow> base + length chunks * kPageSize \<le> 2 ^ 32
      \<Longrightarrow> i < length chunks \<Longrightarrow> source = concat chunks \<Longrightarrow> sorted_wrt (<) (map fst source)
      \<Longrightarrow> B = (take kPageSummaryKeyBytes (fst (hd source)), take kPageSummaryKeyBytes (fst (last source)))
      \<Longrightarrow> good source v (base + i * kPageSize) (fst (hd (chunks ! i)))"
    and good_internal: "cs \<noteq> [] \<Longrightarrow> sorted_wrt (<) (map fst cs)
      \<Longrightarrow> \<forall>c \<in> set cs. child_ok c \<and> good source v (snd c) (fst c)
      \<Longrightarrow> v offset = Inr (SerializeInternalPage bt cs source) \<Longrightarrow> kPageFileHeaderSize \<le> offset
      \<Longrightarrow> good source v offset (fst (hd cs))"
begin

lemma children_good_mono: "children_good (good source) v cs \<Longrightarrow> view_le v w \<Longrightarrow> children_good (good source) w cs"
  unfolding children_good_def using good_mono by blast

lemma build_group:
  assumes "disk_ok pf" "children_good (good source) (committed_view lib pf) cs" "cs \<noteq> []" "pf_next pf + kPageSize \<le> 2 ^ 32"
  shows "\<exists>pf1. append_pages lib [] pf [SerializeInternalPage bt cs source] = (pf1, [], Inr (pf_next pf)) \<and> disk_ok pf1
    \<and> pf_next pf1 = pf_next pf + kPageSize \<and> view_le (committed_view lib pf) (committed_view lib pf1)
    \<and> child_ok (fst (hd cs), pf_next pf) \<and> good source (committed_view lib pf1) (pf_next pf) (fst (hd cs))"
proof -
  have fits: "key_fits (fst (hd cs))" using assms(2,3) by (simp add: children_good_def child_ok_def)
  have len: "length (SerializeInternalPage bt cs source) = kPageSize"
    using SerializeInternalPage_shape [OF assms(3) fits, of bt source] by blast
  have raw: "raw_ok pf" using assms(1) by (simp add: disk_ok_def)
  obtain pf1 where a: "append_pages lib [] pf [SerializeInternalPage bt cs source] = (pf1, [], Inr (pf_next pf))"
    "disk_ok pf1" "pf_next pf1 = pf_next pf + kPageSize" "view_le (committed_view lib pf) (committed_view lib pf1)"
    "committed_view lib pf1 (pf_next pf) = Inr (SerializeInternalPage bt cs source)"
    using append_page_raw [OF raw len, of lib] by blast
  have "good source (committed_view lib pf1) (pf_next pf) (fst (hd cs))"
    using children_good_mono [OF assms(2) a(4)] assms(3) a(5) next_ge [OF raw]
    by (intro good_internal) (auto simp: children_good_def)
  moreover have "child_ok (fst (hd cs), pf_next pf)"
    using fits next_ge [OF raw] assms(4) by (simp add: child_ok_def kPageSize_def)
  ultimately show ?thesis using a by blast
qed

lemma build_level_good:
  assumes "disk_ok pf" "children_good (good source) (committed_view lib pf) cs"
    and "pf_next pf + (length cs + 95) div 96 * kPageSize \<le> 2 ^ 32"
  shows "\<exists>pf1 level. build_level lib bt source [] pf cs = (pf1, [], Inr level) \<and> disk_ok pf1
    \<and> pf_next pf1 = pf_next pf + length level * kPageSize \<and> view_le (committed_view lib pf) (committed_view lib pf1)
    \<and> children_good (good source) (committed_view lib pf1) level \<and> set (map fst level) \<subseteq> set (map fst cs)
    \<and> (cs \<noteq> [] \<longrightarrow> level \<noteq> [] \<and> fst (hd level) = fst (hd cs))"
  using assms
proof (induction "length cs" arbitrary: pf cs rule: less_induct)
  case less
  note step = build_level.simps [of lib bt source "[]" pf cs]
  show ?case
  proof (cases "cs = []")
    case True
    then have "build_level lib bt source [] pf cs = (pf, [], Inr [])" unfolding step by simp
    then show ?thesis
      using less.prems True by (intro exI [of _ pf] exI [of _ "[]"]) (simp add: view_le_refl children_good_def)
  next
    case False
    let ?g = "take kInternalMaxEntries cs" and ?r = "drop kInternalMaxEntries cs"
    have g: "?g \<noteq> []" "hd ?g = hd cs" using False by (simp_all add: kInternalMaxEntries_def hd_take)
    have count: "(length cs + 95) div 96 = Suc ((length ?r + 95) div 96)"
      using False by (cases "length cs \<le> 96") (auto simp: kInternalMaxEntries_def Suc_le_eq div_eq_dividend_iff le_div_geq)
    have "pf_next pf + kPageSize \<le> 2 ^ 32" using less.prems(3) by (simp add: count)
    from build_group [OF less.prems(1) children_good_split(1) [OF less.prems(2)] g(1) this, of bt]
    obtain pf1 where a: "append_pages lib [] pf [SerializeInternalPage bt ?g source] = (pf1, [], Inr (pf_next pf))"
      "disk_ok pf1" "pf_next pf1 = pf_next pf + kPageSize" "view_le (committed_view lib pf) (committed_view lib pf1)"
      "child_ok (fst (hd cs), pf_next pf)" "good source (committed_view lib pf1) (pf_next pf) (fst (hd cs))"
      using g(2) by auto
    have "length ?r < length cs" using False by (simp add: kInternalMaxEntries_def)
    moreover have "children_good (good source) (committed_view lib pf1) ?r"
      by (rule children_good_mono [OF children_good_split(2) [OF less.prems(2)] a(4)])
    moreover have "pf_next pf1 + (length ?r + 95) div 96 * kPageSize \<le> 2 ^ 32" using less.prems(3) by (simp add: count a(3))
    ultimately obtain pf2 level where b: "build_level lib bt source [] pf1 ?r = (pf2, [], Inr level)" "disk_ok pf2"
      "pf_next pf2 = pf_next pf1 + length level * kPageSize" "view_le (committed_view lib pf1) (committed_view lib pf2)"
      "children_good (good source) (committed_view lib pf2) level" "set (map fst level) \<subseteq> set (map fst ?r)"
      using less.hyps [of ?r pf1] a(2) by blast
    let ?level = "(fst (hd cs), pf_next pf) # level"
    have "build_level lib bt source [] pf cs = (pf2, [], Inr ?level)"
      using False by (simp add: step a(1) b(1) g(2))
    moreover have "fst (hd cs) < k" if "k \<in> set (map fst level)" for k
    proof -
      have "k \<in> set (map fst ?r)" using b(6) that by blast
      moreover have "sorted_wrt (<) (map fst (?g @ ?r))" using less.prems(2) by (simp add: children_good_def)
      moreover have "fst (hd cs) \<in> set (map fst ?g)" using g by (metis hd_in_set imageI list.set_map)
      ultimately show ?thesis by (simp only: map_append sorted_wrt_append)
    qed
    then have "children_good (good source) (committed_view lib pf2) ?level"
      using a(5,6) b(4,5) good_mono by (auto simp: children_good_def)
    moreover have "set (map fst ?level) \<subseteq> set (map fst cs)"
      using b(6) set_drop_subset [of kInternalMaxEntries cs] False by (auto dest!: subsetD)
    moreover have "view_le (committed_view lib pf) (committed_view lib pf2)" by (rule view_le_trans [OF a(4) b(4)])
    ultimately show ?thesis
      using b(2,3) a(3) by (intro exI [of _ pf2] exI [of _ ?level]) simp
  qed
qed

lemma build_root_good:
  assumes "disk_ok pf" "children_good (good source) (committed_view lib pf) cs" "cs \<noteq> []"
    and "pf_next pf + (length cs - 1) * kPageSize \<le> 2 ^ 32"
  shows "\<exists>pf1 root. BuildInternalRoot lib bt source [] pf cs = (pf1, Inr root) \<and> disk_ok pf1
    \<and> pf_next pf1 \<le> pf_next pf + (length cs - 1) * kPageSize
    \<and> child_ok (fst (hd cs), root) \<and> good source (committed_view lib pf1) root (fst (hd cs))"
  using assms
proof (induction "length cs" arbitrary: pf cs rule: less_induct)
  case less
  note step = BuildInternalRoot.simps [of lib bt source "[]" pf cs]
  consider (one) "length cs = 1" | (page) "1 < length cs" "length cs \<le> 96" | (level) "96 < length cs"
    using less.prems(3) by (metis One_nat_def Suc_lessI length_greater_0_conv not_le)
  then show ?case
  proof cases
    case one
    obtain c where "cs = [c]" using one by (metis One_nat_def length_0_conv length_Suc_conv)
    moreover from this have "BuildInternalRoot lib bt source [] pf cs = (pf, Inr (snd c))" unfolding step by simp
    ultimately show ?thesis
      using less.prems by (intro exI [of _ pf] exI [of _ "snd c"]) (simp add: children_good_def)
  next
    case page
    then have n: "kPageSize \<le> (length cs - 1) * kPageSize" by (cases "length cs - 1") auto
    then have "pf_next pf + kPageSize \<le> 2 ^ 32" using less.prems(4) by linarith
    from build_group [OF less.prems(1-3) this, of bt] page n show ?thesis
      by (auto simp: step kInternalMaxEntries_def)
  next
    case level
    let ?n = "(length cs + 95) div 96"
    have n: "?n + (?n - 1) \<le> length cs - 1" "?n < length cs" using level by linarith+
    have "?n * kPageSize \<le> (length cs - 1) * kPageSize" using n(1) by (intro mult_le_mono1) simp
    then have "pf_next pf + ?n * kPageSize \<le> 2 ^ 32" using less.prems(4) by linarith
    from build_level_good [OF less.prems(1,2) this, of bt] less.prems(3)
    obtain pf1 lev where b: "build_level lib bt source [] pf cs = (pf1, [], Inr lev)" "disk_ok pf1"
      "pf_next pf1 = pf_next pf + length lev * kPageSize" "children_good (good source) (committed_view lib pf1) lev"
      "lev \<noteq> []" "fst (hd lev) = fst (hd cs)" by blast
    have len: "length lev = ?n" by (rule build_level_length [OF b(1)])
    have "(?n + (?n - 1)) * kPageSize \<le> (length cs - 1) * kPageSize" using n(1) by (rule mult_le_mono1)
    then have bound: "pf_next pf1 + (length lev - 1) * kPageSize \<le> pf_next pf + (length cs - 1) * kPageSize"
      using b(3) len by (simp add: add_mult_distrib)
    have "length lev < length cs" using len n(2) by simp
    from less.hyps [OF this b(2,4,5)] bound less.prems(4) b(6)
    obtain pf2 root where "BuildInternalRoot lib bt source [] pf1 lev = (pf2, Inr root)" "disk_ok pf2"
      "pf_next pf2 \<le> pf_next pf1 + (length lev - 1) * kPageSize"
      "child_ok (fst (hd cs), root)" "good source (committed_view lib pf2) root (fst (hd cs))"
      by fastforce
    then show ?thesis using level bound b(1) by (intro exI [of _ pf2] exI [of _ root]) (simp add: step kInternalMaxEntries_def)
  qed
qed


text \<open>All leaf pages of a map, written behind the append position, with their references.\<close>

lemma leaf_level_good:
  assumes "raw_ok pf" "source \<noteq> []" "sorted_wrt (<) (map fst source)" "\<forall>e \<in> set source. key_fits (fst e)"
    and "pf_next pf + length source * kPageSize \<le> 2 ^ 32"
  shows "\<exists>pages pf1. leaf_pages bt source source = Some pages \<and> pages \<noteq> [] \<and> length pages \<le> length source
    \<and> append_pages lib [] pf (link_pages (pf_next pf) (map fst pages)) = (pf1, [], Inr (pf_next pf)) \<and> disk_ok pf1
    \<and> pf_next pf1 = pf_next pf + length pages * kPageSize
    \<and> children_good (good source) (committed_view lib pf1) (leaf_refs (pf_next pf) (map snd pages))
    \<and> snd (hd pages) = fst (hd source)"
proof -
  let ?B = "(take kPageSummaryKeyBytes (fst (hd source)), take kPageSummaryKeyBytes (fst (last source)))"
  obtain pages chunks where p: "leaf_pages bt source source = Some pages" "concat chunks = source"
    "list_all2 (\<lambda>(page, first) chunk. first = fst (hd chunk) \<and> leaf_ok ?B 0 chunk page) pages chunks"
    using leaf_pages_ok [OF assms(4,2,4), of bt] by blast
  have nonempty: "\<forall>c \<in> set chunks. c \<noteq> []"
    using p(3) by (fastforce simp: list_all2_conv_all_nth in_set_conv_nth leaf_ok_def)
  have len: "length pages = length chunks" using p(3) by (rule list_all2_lengthD)
  have le: "length chunks \<le> length source" using length_chunks [OF nonempty] p(2) by simp
  have pages: "pages \<noteq> []" using len p(2) assms(2) by auto
  have la: "list_all2 (leaf_ok ?B 0) chunks (map fst pages)"
    using p(3) by (auto simp: list_all2_conv_all_nth split_beta)
  let ?link = "link_pages (pf_next pf) (map fst pages)"
  note link = link_pages_ok [OF la, of "pf_next pf"]
  then have "\<forall>q \<in> set ?link. length q = kPageSize" by (metis in_set_conv_nth leaf_ok_length)
  moreover have "?link \<noteq> []" using link pages len by (metis length_0_conv)
  ultimately obtain pf1 where a: "append_pages lib [] pf ?link = (pf1, [], Inr (pf_next pf))" "disk_ok pf1"
    "pf_next pf1 = pf_next pf + length ?link * kPageSize" "pages_at (committed_view lib pf1) (pf_next pf) ?link"
    using append_pages_raw [OF assms(1), of ?link lib] by blast
  have at: "leaves_at (committed_view lib pf1) ?B (pf_next pf) chunks"
    using a(4) link unfolding leaves_at_def pages_at_def by metis
  have "pf_next pf + length chunks * kPageSize \<le> pf_next pf + length source * kPageSize"
    using le by (intro add_left_mono mult_le_mono1)
  then have bound: "pf_next pf + length chunks * kPageSize \<le> 2 ^ 32" using assms(5) by linarith
  have snds: "map snd pages = map (fst \<circ> hd) chunks"
    using p(3) by (auto simp: list_all2_conv_all_nth split_beta intro!: nth_equalityI)
  have "child_ok c \<and> good source (committed_view lib pf1) (snd c) (fst c)"
    if c: "c \<in> set (leaf_refs (pf_next pf) (map snd pages))" for c
  proof -
    obtain i where i: "i < length chunks" "c = (fst (hd (chunks ! i)), pf_next pf + i * kPageSize)"
      using c len by (auto simp: in_set_conv_nth leaf_refs_nth snds)
    have "i * kPageSize + kPageSize \<le> length chunks * kPageSize"
      using i(1) by (metis Suc_leI add.commute mult_Suc mult_le_mono1)
    then have lt: "pf_next pf + i * kPageSize < 2 ^ 32" using bound by (simp add: kPageSize_def)
    have "hd (chunks ! i) \<in> set source" using i(1) nonempty p(2) by (force intro!: bexI [of _ "chunks ! i"])
    then have "child_ok c" using i lt next_ge [OF assms(1)] assms(4) by (simp add: child_ok_def)
    moreover have "good source (committed_view lib pf1) (pf_next pf + i * kPageSize) (fst (hd (chunks ! i)))"
      by (rule good_leaf [OF at next_ge [OF assms(1)] bound i(1) p(2) [symmetric] assms(3) refl])
    ultimately show ?thesis by (simp add: i)
  qed
  moreover have "sorted_wrt (<) (map fst (leaf_refs (pf_next pf) (map snd pages)))"
    using sorted_firsts [of chunks] assms(3) p(2) nonempty by (simp add: map_fst_leaf_refs snds)
  moreover have "snd (hd pages) = fst (hd source)"
    using pages len p(2) nonempty snds by (cases pages; cases chunks) auto
  ultimately show ?thesis
    using p(1) pages a(1-3) link len le by (intro exI [of _ pages] exI [of _ pf1]) (simp add: children_good_def)
qed

lemma persist_good:
  assumes "raw_ok pf" "source \<noteq> []" "sorted_wrt (<) (map fst source)" "\<forall>e \<in> set source. key_fits (fst e)"
    and "pf_next pf + 2 * length source * kPageSize \<le> 2 ^ 32"
  shows "\<exists>pf2 root. PersistRootImpl lib [] pf bt source
      = Some (pf2, bt\<lparr>bt_root := root, bt_index := [], bt_deleted := {}, bt_on_disk := True\<rparr>, Inr root)
    \<and> disk_ok pf2 \<and> child_ok (fst (hd source), root) \<and> good source (committed_view lib pf2) root (fst (hd source))"
proof -
  have "length source * kPageSize \<le> 2 * length source * kPageSize" by simp
  then have b: "pf_next pf + length source * kPageSize \<le> 2 ^ 32" using assms(5) by linarith
  obtain pages pf1 where l: "leaf_pages bt source source = Some pages" "pages \<noteq> []" "length pages \<le> length source"
    "append_pages lib [] pf (link_pages (pf_next pf) (map fst pages)) = (pf1, [], Inr (pf_next pf))" "disk_ok pf1"
    "pf_next pf1 = pf_next pf + length pages * kPageSize"
    "children_good (good source) (committed_view lib pf1) (leaf_refs (pf_next pf) (map snd pages))"
    "snd (hd pages) = fst (hd source)"
    using leaf_level_good [OF assms(1-4) b, of bt lib] by blast
  let ?refs = "leaf_refs (pf_next pf) (map snd pages)"
  have refs: "?refs \<noteq> []" using l(2) by (metis length_0_conv length_leaf_refs length_map)
  then have hd: "hd ?refs = (fst (hd source), pf_next pf)"
    using l(2,8) leaf_refs_nth [of 0 "map snd pages" "pf_next pf"] by (simp add: hd_conv_nth)
  have "(length pages + (length ?refs - 1)) * kPageSize \<le> 2 * length source * kPageSize"
    using l(3) by (intro mult_le_mono1) simp
  then have room: "pf_next pf1 + (length ?refs - 1) * kPageSize \<le> 2 ^ 32"
    using assms(5) l(6) by (simp add: add_mult_distrib)
  obtain pf2 root where r: "BuildInternalRoot lib bt source [] pf1 ?refs = (pf2, Inr root)" "disk_ok pf2"
    "child_ok (fst (hd source), root)" "good source (committed_view lib pf2) root (fst (hd source))"
    using build_root_good [OF l(5,7) refs room, of bt] hd by auto
  have "length pages = 1 \<Longrightarrow> pf2 = pf1 \<and> root = pf_next pf"
    using r(1) hd l(2) refs by (simp add: BuildInternalRoot.simps)
  then have br: "(if 1 < length pages then BuildInternalRoot lib bt source [] pf1 ?refs else (pf1, Inr (pf_next pf))) = (pf2, Inr root)"
    using r(1) l(2) by (cases "length pages") (auto simp: less_Suc_eq)
  let ?bt = "bt\<lparr>bt_root := root, bt_index := [], bt_deleted := {}, bt_on_disk := True\<rparr>"
  have p: "PersistRootImpl lib [] pf bt source = Some (pf2, ?bt, Inr root)"
    using assms(2) br by (simp add: PersistRootImpl_def l(1,4))
  with r show ?thesis by blast
qed

end

interpretation lookups: tree_pages node_good
  by unfold_locales (rule node_good_mono leaf_node_good internal_node_good; assumption)+

lemma committed_le_page_view: "disk_ok pf \<Longrightarrow> view_le (committed_view lib pf) (page_view lib pf)"
  using committed_page_view by (auto simp: view_le_def disk_ok_def)

text \<open>Opening the page file again shows the same pages.\<close>

lemma reopened_view:
  assumes "disk_ok pf"
  shows "page_view lib (SetCompressPages False (SetCacheCapacity n (PageFile_open (pf_file pf)))) = page_view lib pf"
proof -
  obtain rest where f: "pf_file pf = Some (page_file_header (pf_next pf) False @ rest)" "\<not> pf_wrapped pf"
    using assms by (auto simp: disk_ok_def raw_ok_def)
  let ?fb = "page_file_header (pf_next pf) False @ rest"
  have "get_u64 ?fb = kPageFileMagic" "get_u32 (drop 16 ?fb) = 0" by (simp_all add: page_file_header_def)
  then have "\<not> pf_wrapped (PageFile_open (Some ?fb))" "pf_file (PageFile_open (Some ?fb)) = Some ?fb"
    by (simp_all add: PageFile_open_def pf_LoadHeader_def)
  with f show ?thesis by (simp add: page_view_def SetCompressPages_def SetCacheCapacity_def fun_eq_iff)
qed

text \<open>
  C26. Persisting a map and looking up in it: on a page file of the plain format, for a map whose
  entries each fit a page and with room below the 32-bit limit of page offsets, \<open>PersistRootImpl\<close>
  returns, and afterwards \<open>Get\<close> returns for every key, and returns what the map holds, with one
  exception: keys above the first fourteen bytes of the largest key are reported missing.
\<close>

theorem get_after_persist:
  assumes "raw_ok pf" "source \<noteq> []" "sorted_wrt (<) (map fst source)" "\<forall>e \<in> set source. key_fits (fst e)"
    and "pf_next pf + 2 * length source * kPageSize \<le> 2 ^ 32"
  shows "\<exists>pf1 bt1 root. PersistRootImpl lib [] pf bt source = Some (pf1, bt1, Inr root)
    \<and> raw_ok pf1 \<and> bt_root bt1 = root
    \<and> (\<forall>key. \<exists>r. bt_Get (page_view lib pf1) bt1 key = Some r
        \<and> (case (if take kPageSummaryKeyBytes (fst (last source)) < key then None else map_of source key) of
             Some lsn \<Rightarrow> r = Inr lsn
           | None \<Rightarrow> \<exists>m. r = Inl (Status_NotFound m)))"
proof -
  obtain pf2 root where p: "PersistRootImpl lib [] pf bt source
      = Some (pf2, bt\<lparr>bt_root := root, bt_index := [], bt_deleted := {}, bt_on_disk := True\<rparr>, Inr root)"
    and r: "disk_ok pf2" "child_ok (fst (hd source), root)"
      "node_good source (committed_view lib pf2) root (fst (hd source))"
    using lookups.persist_good [OF assms, of lib bt] by blast
  let ?bt = "bt\<lparr>bt_root := root, bt_index := [], bt_deleted := {}, bt_on_disk := True\<rparr>"
  have "\<exists>r. bt_Get (page_view lib pf2) ?bt key = Some r \<and> answers (answer source key) r" for key
  proof -
    obtain a where a: "GetFromDiskAt (page_view lib pf2) key root = Some a"
      "answers (if key < fst (hd source) then None else answer source key) a"
      using r(3) committed_le_page_view [OF r(1)] unfolding node_good_def by blast
    have "answer source key = None" if "key < fst (hd source)"
      using sorted_hd_le [OF assms(3)] that by (force simp: answer_def map_of_eq_None_iff)
    then have "answers (answer source key) a" using a(2) by (auto split: if_splits)
    moreover have "bt_Get (page_view lib pf2) ?bt key = GetFromDiskAt (page_view lib pf2) key root"
      using r(2) by (simp add: bt_Get_def child_ok_def)
    ultimately show ?thesis using a(1) by auto
  qed
  then show ?thesis
    using p r(1) unfolding disk_ok_def answers_def answer_def
    by (intro exI [of _ pf2] exI [of _ ?bt] exI [of _ root]) simp
qed

lemma fresh_raw_ok: "raw_ok (PageFile_open None)"
  by (simp add: raw_ok_def pf_ok_def PageFile_open_def pf_LoadHeader_def base_bytes_def page_sizes)

lemma fresh_next: "pf_next (PageFile_open None) = 4096"
  by (simp add: PageFile_open_def pf_LoadHeader_def page_sizes)

theorem get_after_persist_witness:
  "\<exists>pf1 bt1 root r. PersistRootImpl no_lzma [] (PageFile_open None) PagedBTree_init
      [([1, 2, 3, 4, 5, 6, 7, 8, 9, 10, 11, 12, 13, 14, 15], 7)] = Some (pf1, bt1, Inr root)
    \<and> bt_Get (page_view no_lzma pf1) bt1 [1, 2, 3, 4, 5, 6, 7, 8, 9, 10, 11, 12, 13, 14, 15] = Some (Inl (Status_NotFound r))"
proof -
  let ?key = "[1, 2, 3, 4, 5, 6, 7, 8, 9, 10, 11, 12, 13, 14, 15] :: bytes"
  have "\<exists>pf1 bt1 root. PersistRootImpl no_lzma [] (PageFile_open None) PagedBTree_init [(?key, 7)] = Some (pf1, bt1, Inr root)
      \<and> raw_ok pf1 \<and> bt_root bt1 = root
      \<and> (\<forall>key. \<exists>r. bt_Get (page_view no_lzma pf1) bt1 key = Some r
        \<and> (case (if take kPageSummaryKeyBytes ?key < key then None else map_of [(?key, 7)] key) of
             Some lsn \<Rightarrow> r = Inr lsn | None \<Rightarrow> \<exists>m. r = Inl (Status_NotFound m)))"
    using get_after_persist [OF fresh_raw_ok, of "[(?key, 7)]" no_lzma PagedBTree_init]
    by (simp add: key_fits_def page_sizes kPageHeader_def fresh_next)
  then obtain pf1 bt1 root r where p: "PersistRootImpl no_lzma [] (PageFile_open None) PagedBTree_init [(?key, 7)] = Some (pf1, bt1, Inr root)"
    "bt_Get (page_view no_lzma pf1) bt1 ?key = Some r"
    "case (if take kPageSummaryKeyBytes ?key < ?key then None else map_of [(?key, 7)] ?key) of
       Some lsn \<Rightarrow> r = Inr lsn | None \<Rightarrow> \<exists>m. r = Inl (Status_NotFound m)" by blast
  have "take kPageSummaryKeyBytes ?key < ?key" by (simp add: kPageSummaryKeyBytes_def)
  then have "\<exists>m. r = Inl (Status_NotFound m)" using p(3) by simp
  then show ?thesis using p(1,2) by blast
qed

end
