(* ===== verification/PagedBTreeScan.thy ===== *)
theory PagedBTreeScan
  imports PagedBTreeLookup
begin

text \<open>
  The B-tree of \<open>PagedBTree\<close>: which maps can be persisted, the changes in memory, and range scans. What a
  scan from a tree page finds is \<open>scan_good\<close>, a second property of the kind \<open>tree_pages\<close>.
\<close>

section \<open>Which maps can be persisted\<close>

lemma leaf_chunk_fits_keys: "e \<in> set (leaf_chunk used es) \<Longrightarrow> kPageHeader \<le> used \<Longrightarrow> key_fits (fst e)"
  by (induction used es rule: leaf_chunk.induct) (auto simp: key_fits_def split: if_splits)

lemma SerializeLeafChunk_empty:
  assumes "leaf_chunk kPageHeader todo = []"
  shows "snd (snd (SerializeLeafChunk bt source todo)) = todo"
  by (simp add: SerializeLeafChunk_def assms ChunkCommonPrefixFromKeys_def Let_def)

lemma leaf_pages_returns_fits:
  assumes "leaf_pages bt source todo = Some pages"
  shows "\<forall>e \<in> set todo. key_fits (fst e)"
proof (rule leaf_pages.raw_induct [where P = "\<lambda>bt source todo pages. \<forall>e \<in> set todo. key_fits (fst e)", OF _ assms])
  fix f bt source todo pages
  assume IH: "\<And>bt source todo pages. f bt source todo = Some pages \<Longrightarrow> \<forall>e \<in> set todo. key_fits (fst e)"
    and r: "(if todo = [] then Some [] else let (page, first_key, rest) = SerializeLeafChunk bt source todo
       in f bt source rest \<bind> (\<lambda>pages. Some ((page, first_key) # pages))) = Some pages"
  show "\<forall>e \<in> set todo. key_fits (fst e)"
  proof (cases "todo = []")
    case False
    let ?c = "leaf_chunk kPageHeader todo"
    obtain page first rest where s: "SerializeLeafChunk bt source todo = (page, first, rest)" by (metis prod_cases3)
    then obtain ps where "f bt source rest = Some ps" using r False by (auto simp: bind_eq_Some_conv)
    then have rest: "\<forall>e \<in> set rest. key_fits (fst e)" by (rule IH)
    show ?thesis
    proof (cases "?c = []")
      case True
      then show ?thesis using SerializeLeafChunk_empty [OF True, of bt source] s rest by simp
    next
      case nonempty: False
      then have "rest = drop (length ?c) todo" using SerializeLeafChunk_form [of todo bt source] s by auto
      moreover obtain rest1 where "todo = ?c @ rest1" using leaf_chunk_prefix by blast
      ultimately have "set todo = set ?c \<union> set rest" by (metis append_eq_conv_conj set_append)
      then show ?thesis using rest leaf_chunk_fits_keys [of _ kPageHeader todo] by auto
    qed
  qed simp
qed

text \<open>
  C39. \<open>PersistRootImpl\<close> returns exactly when every key of the map leaves room for its entry in an
  empty page, that is, has at most 4022 bytes. With a longer key the loop over the map makes no
  progress and never ends.
\<close>

theorem persist_returns_iff:
  "(\<exists>r. PersistRootImpl lib fts pf bt source = Some r) \<longleftrightarrow> list_all (\<lambda>(key, lsn). length key \<le> 4022) source"
proof -
  have fits: "key_fits k \<longleftrightarrow> length k \<le> 4022" for k by (simp add: key_fits_def page_sizes kPageHeader_def)
  have "(\<exists>r. PersistRootImpl lib fts pf bt source = Some r) \<longleftrightarrow> source = [] \<or> leaf_pages bt source source \<noteq> None"
    by (cases "leaf_pages bt source source") (auto simp: PersistRootImpl_def simp del: split_paired_Ex)
  also have "\<dots> \<longleftrightarrow> (\<forall>e \<in> set source. key_fits (fst e))"
    using leaf_pages_ok [of source source bt] leaf_pages_returns_fits [of bt source source] by (cases "source = []") auto
  finally show ?thesis by (auto simp: fits list_all_iff)
qed

text \<open>The empty map is persisted as a root that cannot be loaded.\<close>

theorem persisted_empty_map_not_loadable:
  "PersistRootImpl lib fts pf bt [] = Some (pf, bt\<lparr>bt_root := kLegacyMapRoot\<rparr>, Inr kLegacyMapRoot)
    \<and> LoadRoot v bt1 kLegacyMapRoot = (bt1, Status_InvalidArgument ''invalid root offset'')"
  by (simp add: PersistRootImpl_def LoadRoot_def kLegacyMapRoot_def page_sizes)

section \<open>The delta\<close>

lemma map_of_omap_put: "map_of (omap_put k v m) = (map_of m)(k \<mapsto> v)"
  by (induction k v m rule: omap_put.induct) (auto simp: fun_eq_iff)

lemma map_of_omap_erase: "map_of (omap_erase k m) = (map_of m)(k := None)"
  by (induction m) (auto simp: omap_erase_def fun_eq_iff)

lemma bt_Put_simps [simp]:
  "bt_index (bt_Put k l bt) = omap_put k l (bt_index bt)" "bt_deleted (bt_Put k l bt) = bt_deleted bt - {k}"
  "bt_on_disk (bt_Put k l bt) = bt_on_disk bt" "bt_root (bt_Put k l bt) = bt_root bt"
  by (simp_all add: bt_Put_def UpdateSummaryOnPut_def Let_def)

lemma bt_DeleteKey_simps [simp]:
  "bt_index (bt_DeleteKey k l bt) = omap_erase k (bt_index bt)" "bt_deleted (bt_DeleteKey k l bt) = insert k (bt_deleted bt)"
  "bt_on_disk (bt_DeleteKey k l bt) = bt_on_disk bt" "bt_root (bt_DeleteKey k l bt) = bt_root bt"
  by (simp_all add: bt_DeleteKey_def UpdateSummaryOnDelete_def RebuildSummary_def Let_def)

definition bt_map :: "(nat \<Rightarrow> bytes res) \<Rightarrow> paged_btree \<Rightarrow> bytes \<Rightarrow> u64 option" where
  "bt_map read bt key = (case bt_Get read bt key of Some (Inr lsn) \<Rightarrow> Some lsn | _ \<Rightarrow> None)"

datatype bt_op = BtPut bytes u64 | BtDelete bytes u64

fun bt_step :: "bt_op \<Rightarrow> paged_btree \<Rightarrow> paged_btree" where
  "bt_step (BtPut k l) bt = bt_Put k l bt"
| "bt_step (BtDelete k l) bt = bt_DeleteKey k l bt"

fun map_step :: "bt_op \<Rightarrow> (bytes \<Rightarrow> u64 option) \<Rightarrow> bytes \<Rightarrow> u64 option" where
  "map_step (BtPut k l) m = m(k \<mapsto> l)"
| "map_step (BtDelete k l) m = m(k := None)"

lemma bt_step_map: "bt_map read (bt_step op bt) = map_step op (bt_map read bt)"
  by (cases op) (auto simp: bt_map_def bt_Get_def map_of_omap_put map_of_omap_erase fun_eq_iff cong: option.case_cong)

text \<open>
  For lookups, the changes in memory over a persisted tree implement a map: after any
  sequence of \<open>Put\<close> and \<open>DeleteKey\<close>, \<open>Get\<close> finds what the same sequence of updates leaves in the
  map that \<open>Get\<close> saw before.
\<close>

theorem btree_refines_map:
  "bt_map read (foldl (\<lambda>bt op. bt_step op bt) bt ops) = foldl (\<lambda>m op. map_step op m) (bt_map read bt) ops"
  by (induction ops arbitrary: bt) (simp_all add: bt_step_map)

section \<open>Scans\<close>

definition scan_eq :: "bytes \<Rightarrow> typed_plan" where
  "scan_eq key = \<lparr>tp_op = KEq, tp_key = key, tp_range_end = [], tp_snapshot_lsn = 0\<rparr>"

text \<open>
  The summary after the first change over a loaded tree covers only the changed key: the test
  that should widen the bounds looks at the map after the insertion, which is not empty any
  more. From then on a scan for a key above or below the changed one finds nothing, whatever
  \<open>Get\<close> finds.
\<close>

theorem first_put_hides_persisted:
  assumes "bt_index bt = []" "bt_deleted bt = {}" "bt_on_disk bt" "k \<noteq> []" "key \<noteq> k"
  shows "bt_Scan read (bt_Put k l bt) (scan_eq key) = Some (Inr [])
    \<and> bt_Get read (bt_Put k l bt) key = bt_Get read bt key"
proof -
  have s: "bs_min_key (bt_summary (bt_Put k l bt)) = k \<and> bs_max_key (bt_summary (bt_Put k l bt)) = k"
    using assms(1,2) by (simp add: bt_Put_def UpdateSummaryOnPut_def Let_def)
  have "key < k \<or> k < key" using assms(5) by auto
  then show ?thesis
    using s assms by (auto simp: bt_Scan_def scan_eq_def Let_def bt_Get_def)
qed

theorem first_put_hides_persisted_witness:
  "bt_Scan (\<lambda>_. Inr []) (bt_Put [5] 1 (PagedBTree_init\<lparr>bt_on_disk := True\<rparr>)) (scan_eq [6]) = Some (Inr [])"
  using first_put_hides_persisted [of "PagedBTree_init\<lparr>bt_on_disk := True\<rparr>" "[5]" "[6]"]
  by (simp add: PagedBTree_init_def)


definition range_plan :: "bytes \<Rightarrow> bytes \<Rightarrow> u64 \<Rightarrow> typed_plan" where
  "range_plan start stop snap = \<lparr>tp_op = KRange, tp_key = start, tp_range_end = stop, tp_snapshot_lsn = snap\<rparr>"

definition in_range :: "bytes \<Rightarrow> bytes \<Rightarrow> entries \<Rightarrow> entries" where
  "in_range start stop source = filter (\<lambda>e. start \<le> fst e \<and> fst e \<le> stop) source"

definition scan_good :: "entries \<Rightarrow> (nat \<Rightarrow> bytes res) \<Rightarrow> nat \<Rightarrow> bytes \<Rightarrow> bool" where
  "scan_good source v offset first \<longleftrightarrow> (\<forall>w. view_le v w \<longrightarrow>
     (\<exists>h. ReadPageHeader w offset = Inr h) \<and>
     (\<forall>start stop snap. start \<le> take kPageSummaryKeyBytes (fst (last source)) \<longrightarrow>
       (\<exists>hits. ScanFromDiskAt w (range_plan start stop snap) offset = Some (Inr hits)
          \<and> set hits \<subseteq> set (in_range start stop source)
          \<and> {e \<in> set (in_range start stop source). first \<le> fst e} \<subseteq> set hits)))"

lemma scan_good_mono: "scan_good source v offset first \<Longrightarrow> view_le v w \<Longrightarrow> scan_good source w offset first"
  unfolding scan_good_def using view_le_trans by blast

lemma read_all_map: "\<forall>i \<in> set offs. v i = Inr (f i) \<Longrightarrow> read_all v offs = Inr (map f offs)"
  by (induction offs) auto

text \<open>The offsets a scan collects from leaf \<open>i\<close> on, and what it finds there.\<close>

lemma leaf_chain_offsets:
  assumes "leaves_at v B base chunks" "kPageFileHeaderSize \<le> base" "base + length chunks * kPageSize \<le> 2 ^ 32" "i < length chunks"
  shows "leaf_chain v acc (base + i * kPageSize)
    = Some (Some (acc @ map (\<lambda>j. base + j * kPageSize) [i..<length chunks]))"
  using assms(4)
proof (induction "length chunks - i" arbitrary: i acc rule: less_induct)
  case less
  let ?nx = "if Suc i < length chunks then word_of_nat (base + Suc i * kPageSize) else 0 :: u32"
  obtain page where page: "v (base + i * kPageSize) = Inr page" "leaf_ok B ?nx (chunks ! i) page"
    using assms(1) less.prems unfolding leaves_at_def by blast
  obtain h p where f: "leaf_form (seal_header h) p (chunks ! i) page" "ph_next h = ?nx"
    using page(2) unfolding leaf_ok_def by blast
  have hdr: "ReadPageHeader v (base + i * kPageSize) = Inr (seal_header h)" "ph_type h = kPageTypeLeaf"
    using ReadPageHeader_sealed [of v "base + i * kPageSize" page h] page(1) leaf_form_page(2) [OF f(1)] f(1)
    by (simp_all add: leaf_form_def)
  note step = leaf_chain.simps [of v acc "base + i * kPageSize"]
  have upt: "[i..<length chunks] = i # [Suc i..<length chunks]" using less.prems by (rule upt_conv_Cons)
  show ?case
  proof (cases "Suc i < length chunks")
    case True
    note nx = next_leaf_offset [OF assms(2,3) True]
    show ?thesis
      using True assms(2) less.hyps [OF _ True] nx by (simp add: step hdr upt f(2) del: mult_Suc of_nat_add of_nat_mult of_nat_Suc)
  next
    case False
    then have "Suc i = length chunks" using less.prems by simp
    then show ?thesis using assms(2) f(2) by (simp add: step hdr upt)
  qed
qed

lemma ScanLeafChain_hits:
  assumes "leaves_at v B base chunks" "kPageFileHeaderSize \<le> base" "base + length chunks * kPageSize \<le> 2 ^ 32" "i < length chunks"
  shows "ScanLeafChain v plan (base + i * kPageSize)
    = Some (filter (\<lambda>e. plan_matches plan (fst e)) (concat (drop i chunks)))"
proof -
  obtain page where page: "\<forall>j < length chunks. v (base + j * kPageSize) = Inr (page j)
      \<and> (\<exists>nx. leaf_ok B nx (chunks ! j) (page j))"
    using assms(1) unfolding leaves_at_def by metis
  have "read_all v (map (\<lambda>j. base + j * kPageSize) [i..<length chunks]) = Inr (map page [i..<length chunks])"
  proof -
    have "read_all v (map (\<lambda>j. base + j * kPageSize) js) = Inr (map page js)" if "\<forall>j \<in> set js. j < length chunks" for js
      using that by (induction js) (auto simp: page)
    then show ?thesis by simp
  qed
  moreover have "leaf_hits plan (page j) = filter (\<lambda>e. plan_matches plan (fst e)) (chunks ! j)" if j: "j < length chunks" for j
  proof -
    obtain nx h p where "leaf_form (seal_header h) p (chunks ! j) (page j)"
      using page j unfolding leaf_ok_def by metis
    from leaf_form_entries [OF this] show ?thesis by (auto simp: leaf_hits_def)
  qed
  then have "map (leaf_hits plan) (map page [i..<length chunks])
      = map (filter (\<lambda>e. plan_matches plan (fst e))) (drop i chunks)"
    by (intro nth_equalityI) (auto simp: less_diff_conv add.commute)
  ultimately show ?thesis
    using leaf_chain_offsets [OF assms, of "[]"] by (simp add: ScanLeafChain_def filter_concat)
qed

lemma plan_range_simps [simp]:
  "plan_matches (range_plan start stop snap) k \<longleftrightarrow> start \<le> k \<and> k \<le> stop"
  "plan_covers (range_plan start stop snap) h \<longleftrightarrow> RangeOverlapsSummary h start stop"
  by (simp_all add: plan_matches_def plan_covers_def range_plan_def)

lemma leaf_scan_good:
  assumes "leaves_at v B base chunks" "kPageFileHeaderSize \<le> base" "base + length chunks * kPageSize \<le> 2 ^ 32" "i < length chunks"
    and "source = concat chunks" "sorted_wrt (<) (map fst source)"
    and "B = (take kPageSummaryKeyBytes (fst (hd source)), take kPageSummaryKeyBytes (fst (last source)))"
  shows "scan_good source v (base + i * kPageSize) (fst (hd (chunks ! i)))"
  unfolding scan_good_def
proof (intro allI impI conjI)
  fix w assume "view_le v w"
  then have at: "leaves_at w B base chunks" using assms(1,2) leaves_at_mono by blast
  then obtain nx page where page: "w (base + i * kPageSize) = Inr page" "leaf_ok B nx (chunks ! i) page"
    using assms(4) unfolding leaves_at_def by blast
  then obtain h p where f: "leaf_form (seal_header h) p (chunks ! i) page" "summary_bounds h = B" "chunks ! i \<noteq> []"
    unfolding leaf_ok_def by blast
  have hdr: "ReadPageHeader w (base + i * kPageSize) = Inr (seal_header h)" "ph_type h = kPageTypeLeaf"
    using ReadPageHeader_sealed [of w "base + i * kPageSize" page h] page(1) leaf_form_page(2) [OF f(1)] f(1)
    by (simp_all add: leaf_form_def)
  show "\<exists>h. ReadPageHeader w (base + i * kPageSize) = Inr h" using hdr(1) by blast
  fix start stop snap
  assume vis: "start \<le> take kPageSummaryKeyBytes (fst (last source))"
  let ?min = "take kPageSummaryKeyBytes (fst (hd source))" and ?plan = "range_plan start stop snap"
  have covers: "RangeOverlapsSummary (seal_header h) start stop \<longleftrightarrow> \<not> (?min \<noteq> [] \<and> stop < ?min)"
    using f(2) assms(7) hdr(2) vis by (auto simp: RangeOverlapsSummary_def page_types)
  let ?rest = "concat (drop i chunks)"
  have src: "source = concat (take i chunks) @ ?rest"
    using assms(5) by (metis append_take_drop_id concat_append)
  show "\<exists>hits. ScanFromDiskAt w ?plan (base + i * kPageSize) = Some (Inr hits)
      \<and> set hits \<subseteq> set (in_range start stop source)
      \<and> {e \<in> set (in_range start stop source). fst (hd (chunks ! i)) \<le> fst e} \<subseteq> set hits"
  proof (cases "RangeOverlapsSummary (seal_header h) start stop")
    case False
    then have "stop < ?min" using covers by auto
    then have "stop < fst (hd source)" using less_le_trans [OF _ take_le] by blast
    then have "in_range start stop source = []"
      using sorted_hd_le [OF assms(6)] by (force simp: in_range_def filter_empty_conv)
    moreover have "ScanFromDiskAt w ?plan (base + i * kPageSize) = Some (Inr [])"
      using False hdr by (simp add: ScanFromDiskAt.simps [of w ?plan])
    ultimately show ?thesis by simp
  next
    case True
    have "ScanFromDiskAt w ?plan (base + i * kPageSize) = Some (Inr (in_range start stop ?rest))"
      using True hdr ScanLeafChain_hits [OF at assms(2-4), of ?plan]
      by (simp add: ScanFromDiskAt.simps [of w ?plan] in_range_def)
    moreover have "e \<in> set ?rest" if "e \<in> set source" "fst (hd (chunks ! i)) \<le> fst e" for e
    proof -
      have "?rest = chunks ! i @ concat (drop (Suc i) chunks)"
        using assms(4) by (simp add: Cons_nth_drop_Suc [symmetric])
      then have "hd (chunks ! i) \<in> set ?rest" using f(3) by simp
      then have "fst x < fst (hd (chunks ! i))" if "x \<in> set (concat (take i chunks))" for x
        using assms(6) that src by (auto simp: sorted_wrt_append)
      then show ?thesis using that src by (metis Un_iff leD set_append)
    qed
    ultimately show ?thesis using src by (auto simp: in_range_def)
  qed
qed


lemma child_offsets_walk:
  assumes "page = pre @ concat (map enc_child cs) @ post" "length page = kPageSize" "\<forall>c \<in> set cs. child_ok c"
  shows "child_offsets page (length pre) (length cs) = Inr (map snd cs)"
  using assms
proof (induction cs arbitrary: pre)
  case (Cons c cs)
  obtain k o1 where c: "c = (k, o1)" by fastforce
  let ?post = "concat (map enc_child cs) @ post"
  have page: "page = pre @ put_u32 (word_of_nat o1) @ put_u16 (word_of_nat (length k)) @ k @ ?post"
    using Cons.prems(1) by (simp add: enc_child_def [of "(k, o1)"] c)
  have size: "length pre + 6 + length k \<le> kPageSize" using Cons.prems(2) unfolding page by simp
  have k: "length k < 65536" "kPageFileHeaderSize \<le> o1" "o1 < 2 ^ 32"
    using Cons.prems(3) key_fits_length by (auto simp: child_ok_def c)
  then have get: "unat (get_u32 (drop (length pre) page)) = o1" "unat (get_u16 (drop (length pre + 4) page)) = length k"
    unfolding page by (simp_all add: unat_of_nat)
  have "child_offsets page (length (pre @ enc_child c)) (length cs) = Inr (map snd cs)"
    using Cons.IH [of "pre @ enc_child c"] Cons.prems by simp
  then have "child_offsets page (length pre + 6 + length k) (length cs) = Inr (map snd cs)"
    by (simp add: enc_child_def c ac_simps)
  then show ?case using get size k(2) by (simp add: c)
qed simp

lemma scan_seq_all:
  "\<forall>c \<in> set cs. f c = Some (Inr (g c)) \<Longrightarrow> scan_seq f cs = Some (Inr (concat (map g cs)))"
  by (induction cs) auto

lemma ReadPageHeader_readable: "ReadPageHeader v off = Inr h \<Longrightarrow> \<exists>page. v off = Inr page"
  by (auto simp: ReadPageHeader_def split: sum.splits)

lemma internal_scan_good:
  assumes "cs \<noteq> []" "sorted_wrt (<) (map fst cs)" "\<forall>c \<in> set cs. child_ok c \<and> scan_good source v (snd c) (fst c)"
    and "v offset = Inr (SerializeInternalPage bt cs source)" "kPageFileHeaderSize \<le> offset"
  shows "scan_good source v offset (fst (hd cs))"
  unfolding scan_good_def
proof (intro allI impI conjI)
  fix w assume le: "view_le v w"
  have fits: "key_fits (fst (hd cs))" using assms(1,3) by (simp add: child_ok_def)
  obtain n h post where p: "0 < n" "n \<le> length cs" "length (SerializeInternalPage bt cs source) = kPageSize"
    "SerializeInternalPage bt cs source = enc_ph (seal_header h) @ concat (map enc_child (take n cs)) @ post"
    "ph_wf h" "ph_type h = kPageTypeInternal" "unat (ph_key_count h) = n"
    using SerializeInternalPage_shape [OF assms(1) fits, of bt source] by blast
  let ?page = "SerializeInternalPage bt cs source" and ?cs = "take n cs"
  have at: "w offset = Inr ?page" using le assms(4,5) by (simp add: view_le_def)
  have rd: "read_ph ?page = seal_header h" using p(4,5) by (simp add: codec_simps)
  have len: "length (enc_ph (seal_header h)) = kPageHeader" using p(5) by (simp add: length_enc_ph)
  note hdr = ReadPageHeader_sealed [of w offset ?page h, OF at rd]
  show "\<exists>h. ReadPageHeader w offset = Inr h" using hdr by blast
  have good: "child_ok c \<and> scan_good source w (snd c) (fst c)" if "c \<in> set ?cs" for c
    using assms(3) scan_good_mono [OF _ le] that set_take_subset [of n cs] by blast
  have offs: "child_offsets ?page kPageHeader (unat (ph_key_count (seal_header h))) = Inr (map snd ?cs)"
    using child_offsets_walk [OF p(4,3)] good p(2,7) len by simp
  have readable: "\<exists>hd. ReadPageHeader w (snd c) = Inr hd" if "c \<in> set ?cs" for c
    using good [OF that] view_le_refl [of w] unfolding scan_good_def by blast
  have "\<forall>off \<in> set (map snd ?cs). w off = Inr (projr (w off))"
  proof
    fix off assume "off \<in> set (map snd ?cs)"
    then obtain hd where "ReadPageHeader w off = Inr hd" using readable by (metis (no_types) image_iff list.set_map)
    from ReadPageHeader_readable [OF this] show "w off = Inr (projr (w off))" by auto
  qed
  then have pages: "read_all w (map snd ?cs) = Inr (map (\<lambda>off. projr (w off)) (map snd ?cs))" by (rule read_all_map)
  fix start stop snap
  assume vis: "start \<le> take kPageSummaryKeyBytes (fst (last source))"
  let ?plan = "range_plan start stop snap" and ?M = "in_range start stop source"
  define f where "f = (\<lambda>c. case ReadPageHeader w c of Inl e \<Rightarrow> Some (Inl e)
      | Inr child \<Rightarrow> if \<not> plan_covers ?plan child then Some (Inr []) else ScanFromDiskAt w ?plan c)"
  define k where "k off = projr (the (f off))" for off
  have f: "f (snd c) = Some (Inr (k (snd c))) \<and> set (k (snd c)) \<subseteq> set ?M \<and> {e \<in> set ?M. fst c \<le> fst e} \<subseteq> set (k (snd c))"
    if c: "c \<in> set ?cs" for c
  proof -
    obtain hits where hits: "ScanFromDiskAt w ?plan (snd c) = Some (Inr hits)" "set hits \<subseteq> set ?M"
      "{e \<in> set ?M. fst c \<le> fst e} \<subseteq> set hits"
      using good [OF c] view_le_refl [of w] vis unfolding scan_good_def by blast
    obtain hd where hd: "ReadPageHeader w (snd c) = Inr hd" using readable [OF c] by blast
    have "f (snd c) = Some (Inr hits)"
    proof (cases "plan_covers ?plan hd")
      case True
      then show ?thesis using hits(1) hd by (simp add: f_def)
    next
      case False
      then have "ScanFromDiskAt w ?plan (snd c) = Some (Inr [])" using hd by (simp add: ScanFromDiskAt.simps [of w ?plan "snd c"])
      then show ?thesis using hits(1) hd False by (simp add: f_def)
    qed
    then show ?thesis using hits(2,3) by (simp add: k_def)
  qed
  have "scan_seq f (map snd ?cs) = Some (Inr (concat (map k (map snd ?cs))))"
    by (rule scan_seq_all) (use f in auto)
  moreover have "ScanFromDiskAt w ?plan offset = scan_seq f (map snd ?cs)"
    unfolding f_def using hdr p(6)
    by (subst ScanFromDiskAt.simps) (simp add: at offs [simplified] pages [simplified] RangeOverlapsSummary_def page_types)
  ultimately have scan: "ScanFromDiskAt w ?plan offset = Some (Inr (concat (map k (map snd ?cs))))" by simp
  have "hd cs \<in> set ?cs" using p(1) assms(1) by (cases cs; cases n) auto
  then have "{e \<in> set ?M. fst (hd cs) \<le> fst e} \<subseteq> set (concat (map k (map snd ?cs)))"
    using f [of "hd cs"] by fastforce
  moreover have "set (concat (map k (map snd ?cs))) \<subseteq> set ?M" using f by fastforce
  ultimately show "\<exists>hits. ScanFromDiskAt w ?plan offset = Some (Inr hits) \<and> set hits \<subseteq> set ?M
      \<and> {e \<in> set ?M. fst (hd cs) \<le> fst e} \<subseteq> set hits"
    using scan by blast
qed

interpretation scans: tree_pages scan_good
  by unfold_locales (rule scan_good_mono leaf_scan_good internal_scan_good; assumption)+

text \<open>An ordered map is determined by its entries.\<close>

lemma set_omap_put: "set (omap_put k v m) \<subseteq> insert (k, v) (set m)"
  by (induction k v m rule: omap_put.induct) auto

lemma sorted_omap_put: "sorted_wrt (<) (map fst m) \<Longrightarrow> sorted_wrt (<) (map fst (omap_put k v m))"
proof (induction k v m rule: omap_put.induct)
  case (2 k v k1 v1 m)
  have "k1 < fst e" if "e \<in> set (omap_put k v m)" "k1 < k" for e
    using set_omap_put [of k v m] that "2.prems" by force
  then show ?case using 2 by (auto simp: less_trans)
qed simp

definition omap_of :: "entries \<Rightarrow> entries" where
  "omap_of es = foldl (\<lambda>m (k, v). omap_put k v m) [] es"

lemma omap_of_snoc: "omap_of (es @ [(k, v)]) = omap_put k v (omap_of es)"
  by (simp add: omap_of_def)

lemma omap_of_props: "sorted_wrt (<) (map fst (omap_of es)) \<and> set (omap_of es) \<subseteq> set es"
proof (induction es rule: rev_induct)
  case (snoc e es)
  then show ?case
    using set_omap_put [of "fst e" "snd e" "omap_of es"] sorted_omap_put [of "omap_of es" "fst e" "snd e"]
    by (cases e) (auto simp: omap_of_snoc)
qed (simp add: omap_of_def)

lemma map_of_omap_of: "map_of (omap_of es) = map_of (rev es)"
  by (induction es rule: rev_induct) (auto simp: omap_of_snoc map_of_omap_put omap_of_def)

lemma omap_of_sorted:
  assumes "set es = set m" "sorted_wrt (<) (map fst m)"
  shows "omap_of es = (m :: entries)"
proof -
  have "set (omap_of es) = set m"
  proof
    show "set (omap_of es) \<subseteq> set m" using omap_of_props [of es] assms(1) by simp
    show "set m \<subseteq> set (omap_of es)"
    proof
      fix e assume e: "e \<in> set m"
      then obtain v where "map_of (omap_of es) (fst e) = Some v"
        using assms(1) by (cases "map_of (rev es) (fst e)") (auto simp: map_of_omap_of map_of_eq_None_iff)
      then have "(fst e, v) \<in> set (omap_of es)" by (rule map_of_SomeD)
      then have "(fst e, v) \<in> set m" using \<open>set (omap_of es) \<subseteq> set m\<close> by blast
      moreover have "distinct (map fst m)" using assms(2) by (simp add: strict_sorted_iff)
      ultimately have "v = snd e" using e by (metis map_of_is_SomeI option.inject prod.collapse)
      then show "e \<in> set (omap_of es)" using \<open>(fst e, v) \<in> set (omap_of es)\<close> by simp
    qed
  qed
  moreover have "sorted_wrt (<) (map fst (omap_of es))" using omap_of_props by blast
  ultimately show ?thesis
    using assms(2) by (intro map_sorted_distinct_set_unique [of fst]) (auto simp: strict_sorted_iff distinct_map)
qed


lemma in_range_sorted: "sorted_wrt (<) (map fst source) \<Longrightarrow> sorted_wrt (<) (map fst (in_range start stop source))"
  by (induction source) (auto simp: in_range_def)

lemma cut_in_range:
  "takeWhile (\<lambda>e. \<not> stop < fst e) (dropWhile (\<lambda>e. fst e < start) (in_range start stop source)) = in_range start stop source"
proof -
  have "dropWhile (\<lambda>e. fst e < start) xs = xs" if "\<forall>e \<in> set xs. \<not> fst e < start" for xs :: entries
    using that by (cases xs) auto
  moreover have "takeWhile (\<lambda>e. \<not> stop < fst e) xs = xs" if "\<forall>e \<in> set xs. \<not> stop < fst e" for xs :: entries
    using that by (simp add: takeWhile_eq_all_conv)
  moreover have "\<forall>e \<in> set (in_range start stop source). \<not> fst e < start \<and> \<not> stop < fst e"
    by (auto simp: in_range_def)
  ultimately show ?thesis by metis
qed

lemma in_range_empty:
  assumes "sorted_wrt (<) (map fst source)" "fst (last source) < start \<or> stop < fst (hd source)"
  shows "in_range start stop source = []"
  using assms(2) sorted_hd_le [OF assms(1)] by (force simp: in_range_def filter_empty_conv)

text \<open>
  C27. A range scan over a map persisted on a plain page file returns exactly the entries of the range, in
  order, when the keys fit a page, the pages stay below the 32-bit limit of offsets, the summary in memory
  spans the map and is not older than the snapshot, and the range starts no higher than the first fourteen
  bytes of the largest key (a range that starts higher loses entries).
\<close>

theorem scan_after_persist:
  assumes "raw_ok pf" "source \<noteq> []" "sorted_wrt (<) (map fst source)" "\<forall>e \<in> set source. key_fits (fst e)"
    and "pf_next pf + 2 * length source * kPageSize \<le> 2 ^ 32"
    and "bs_min_key (bt_summary bt) \<le> fst (hd source)" "fst (last source) \<le> bs_max_key (bt_summary bt)"
    and "snap \<le> bs_summary_lsn (bt_summary bt)" "start \<le> take kPageSummaryKeyBytes (fst (last source))"
  shows "\<exists>pf1 bt1 root. PersistRootImpl lib [] pf bt source = Some (pf1, bt1, Inr root)
    \<and> bt_Scan (page_view lib pf1) bt1 (range_plan start stop snap)
        = Some (Inr (filter (\<lambda>e. start \<le> fst e \<and> fst e \<le> stop) source))"
proof -
  obtain pf2 root where p: "PersistRootImpl lib [] pf bt source
      = Some (pf2, bt\<lparr>bt_root := root, bt_index := [], bt_deleted := {}, bt_on_disk := True\<rparr>, Inr root)"
    and r: "disk_ok pf2" "child_ok (fst (hd source), root)"
      "scan_good source (committed_view lib pf2) root (fst (hd source))"
    using scans.persist_good [OF assms(1-5), of lib bt] by blast
  let ?bt = "bt\<lparr>bt_root := root, bt_index := [], bt_deleted := {}, bt_on_disk := True\<rparr>"
  let ?M = "in_range start stop source" and ?plan = "range_plan start stop snap"
  obtain hits where h: "ScanFromDiskAt (page_view lib pf2) ?plan root = Some (Inr hits)" "set hits \<subseteq> set ?M"
    "{e \<in> set ?M. fst (hd source) \<le> fst e} \<subseteq> set hits"
    using r(3) committed_le_page_view [OF r(1)] assms(9) unfolding scan_good_def by blast
  have "set ?M \<subseteq> {e \<in> set ?M. fst (hd source) \<le> fst e}"
    using sorted_hd_le [OF assms(3)] by (auto simp: in_range_def)
  then have "set hits = set ?M" using h(2,3) by blast
  then have "MergeDeltaIntoScan ?bt hits = ?M"
    using omap_of_sorted [OF _ in_range_sorted [OF assms(3)], of hits start stop]
    by (simp add: MergeDeltaIntoScan_def omap_of_def)
  moreover have "?M = []" if "bs_max_key (bt_summary bt) < start \<or> stop < bs_min_key (bt_summary bt)"
    using in_range_empty [OF assms(3)] that assms(6,7) by (meson le_less_trans less_le_trans)
  moreover have "\<not> bs_summary_lsn (bt_summary bt) < snap" using assms(8) by simp
  ultimately have "bt_Scan (page_view lib pf2) ?bt ?plan = Some (Inr ?M)"
    using h(1) r(2) cut_in_range [of stop start source]
    by (auto simp: bt_Scan_def range_plan_def Let_def child_ok_def)
  then show ?thesis using p unfolding in_range_def by blast
qed

theorem scan_after_persist_witness:
  "\<exists>pf1 bt1 root. PersistRootImpl no_lzma [] (PageFile_open None)
      (RebuildSummaryFromCommitted [([1], 7), ([2], 8)] PagedBTree_init) [([1], 7), ([2], 8)] = Some (pf1, bt1, Inr root)
    \<and> bt_Scan (page_view no_lzma pf1) bt1 (range_plan [1] [1] 8) = Some (Inr [([1], 7)])"
  using scan_after_persist [OF fresh_raw_ok, of "[([1], 7), ([2], 8)]"
      "RebuildSummaryFromCommitted [([1], 7), ([2], 8)] PagedBTree_init" 8 "[1]" no_lzma "[1]"]
  by (simp add: RebuildSummaryFromCommitted_def PagedBTree_init_def key_fits_def page_sizes kPageHeader_def
    kPageSummaryKeyBytes_def fresh_next)

lemma internal_header_bounds:
  assumes "cs \<noteq> []" "\<forall>c \<in> set cs. key_fits (fst c)"
  shows "snd (summary_bounds ((internal_header bt cs source)\<lparr>ph_key_count := n\<rparr>)) = take kPageSummaryKeyBytes (fst (last cs))"
proof -
  have "length (fst (last cs)) < 65536" "length (fst (hd cs)) < 65536" using assms key_fits_length by auto
  then show ?thesis
    using assms(1) key_field_prefix [of "fst (last cs)"]
    by (cases "length (fst (last cs)) \<le> 14")
      (simp_all add: summary_bounds_def HistogramStringBounds_def internal_header_def Let_def page_types unat_of_nat
        kPageSummaryKeyBytes_def)
qed

text \<open>
  Loading a root that is an internal page sets the upper bound of the summary to the first key of
  its last child, so a range scan that starts above that key returns nothing, although the last
  child holds larger keys.
\<close>

theorem loaded_root_hides_last_child:
  assumes "v root = Inr (SerializeInternalPage bt0 cs source)" "kPageFileHeaderSize \<le> root"
    and "cs \<noteq> []" "\<forall>c \<in> set cs. key_fits (fst c)" "fst (last cs) \<noteq> []" "take kPageSummaryKeyBytes (fst (last cs)) < start"
  shows "snd (LoadRoot v bt root) = Status_Ok
    \<and> bs_max_key (bt_summary (fst (LoadRoot v bt root))) = take kPageSummaryKeyBytes (fst (last cs))
    \<and> bt_Scan v (fst (LoadRoot v bt root)) (range_plan start stop 0) = Some (Inr [])"
proof -
  have fits: "key_fits (fst (hd cs))" using assms(3,4) by simp
  let ?n = "word_of_nat (snd (put_children kPageHeader cs)) :: u16"
  let ?h = "(internal_header bt0 cs source)\<lparr>ph_key_count := ?n\<rparr>"
  have "ph_wf ?h" using internal_header_wf [of bt0 cs source] by (simp add: ph_wf_def)
  then have "read_ph (SerializeInternalPage bt0 cs source) = seal_header ?h"
    by (cases "put_children kPageHeader cs") (simp add: SerializeInternalPage_def pad_page_def codec_simps Let_def)
  from ReadPageHeader_sealed [of v root "SerializeInternalPage bt0 cs source" ?h, OF assms(1) this]
  have hdr: "ReadPageHeader v root = Inr (seal_header ?h)" .
  have max: "snd (summary_bounds (seal_header ?h)) = take kPageSummaryKeyBytes (fst (last cs))"
    using internal_header_bounds [OF assms(3,4), where bt = bt0 and source = source and n = ?n] by simp
  have "take kPageSummaryKeyBytes (fst (last cs)) \<noteq> []" using assms(5) by (simp add: kPageSummaryKeyBytes_def)
  then show ?thesis
    using hdr max assms(2,6) by (simp add: LoadRoot_def bt_Scan_def range_plan_def Let_def)
qed

theorem loaded_root_hides_last_child_witness:
  "bt_Scan (\<lambda>_. Inr (SerializeInternalPage PagedBTree_init [([1], 4096), ([2], 8192)] []))
     (fst (LoadRoot (\<lambda>_. Inr (SerializeInternalPage PagedBTree_init [([1], 4096), ([2], 8192)] [])) PagedBTree_init 12288))
     (range_plan [3] [4] 0) = Some (Inr [])"
  using loaded_root_hides_last_child [where v = "\<lambda>_. Inr (SerializeInternalPage PagedBTree_init [([1], 4096), ([2], 8192)] [])"
      and ?bt0.0 = PagedBTree_init and cs = "[([1], 4096), ([2], 8192)]" and source = "[]" and root = 12288
      and start = "[3]" and stop = "[4]" and bt = PagedBTree_init]
  by (simp add: key_fits_def page_sizes kPageHeader_def kPageSummaryKeyBytes_def)

end
