(* ===== verification/FairLock.thy ===== *)
theory FairLock
  imports Prelude
begin

text \<open>
  \<^verbatim>\<open>cpp/include/ebtree/engine/snapshot_fair_rw_lock.h\<close> and \<^verbatim>\<open>cpp/src/engine/snapshot_fair_rw_lock.cc\<close>:
  the lock of a shard. Readers and appenders may hold it together; a foreground writer or a
  background writer holds it alone.

  Every member function holds the mutex \<open>gate_\<close> except while it waits on \<open>cv_\<close>, so a call is one
  step up to its first wait, and one step per wake-up. \<open>lock_system\<close> is the lock with the pin
  counter and the threads that use it; a thread that waits is asleep until a \<open>notify_all\<close> or a
  spurious wake-up. Threads release only what they hold.
\<close>

section \<open>The lock\<close>

record fair_lock =
  fl_readers :: u32
  fl_appenders :: u32
  fl_foreground :: bool
  fl_waiting :: u32
  fl_background :: bool

definition fair_lock_init :: fair_lock where
  "fair_lock_init = \<lparr>fl_readers = 0, fl_appenders = 0, fl_foreground = False, fl_waiting = 0, fl_background = False\<rparr>"

definition shared_blocked :: "fair_lock \<Rightarrow> bool" where
  "shared_blocked l \<longleftrightarrow> fl_foreground l \<or> fl_background l"

definition exclusive_blocked :: "fair_lock \<Rightarrow> bool" where
  "exclusive_blocked l \<longleftrightarrow> 0 < fl_readers l \<or> 0 < fl_appenders l \<or> fl_foreground l \<or> fl_background l"

definition enter_shared :: "fair_lock \<Rightarrow> fair_lock" where
  "enter_shared l = l\<lparr>fl_readers := fl_readers l + 1\<rparr>"

definition try_lock_shared :: "fair_lock \<Rightarrow> fair_lock \<times> bool" where
  "try_lock_shared l = (if fl_foreground l \<or> fl_background l then (l, False) else (enter_shared l, True))"

text \<open>The second component tells whether \<open>cv_.notify_all()\<close> is called.\<close>

definition unlock_shared :: "fair_lock \<Rightarrow> fair_lock \<times> bool" where
  "unlock_shared l =
    (if fl_readers l = 0 then (l, False)
     else (let l1 = l\<lparr>fl_readers := fl_readers l - 1\<rparr> in (l1, fl_readers l1 = 0)))"

definition enter_append :: "fair_lock \<Rightarrow> fair_lock" where
  "enter_append l = l\<lparr>fl_appenders := fl_appenders l + 1\<rparr>"

definition unlock_append_shared :: "fair_lock \<Rightarrow> fair_lock \<times> bool" where
  "unlock_append_shared l =
    (if fl_appenders l = 0 then (l, False) else (l\<lparr>fl_appenders := fl_appenders l - 1\<rparr>, True))"

definition announce_lock :: "fair_lock \<Rightarrow> fair_lock" where
  "announce_lock l = l\<lparr>fl_waiting := fl_waiting l + 1\<rparr>"

definition enter_lock :: "fair_lock \<Rightarrow> fair_lock" where
  "enter_lock l = l\<lparr>fl_waiting := fl_waiting l - 1, fl_foreground := True\<rparr>"

definition try_lock :: "fair_lock \<Rightarrow> fair_lock \<times> bool" where
  "try_lock l = (if exclusive_blocked l then (l, False) else (l\<lparr>fl_foreground := True\<rparr>, True))"

definition unlock_lock :: "fair_lock \<Rightarrow> fair_lock \<times> bool" where
  "unlock_lock l = (l\<lparr>fl_foreground := False\<rparr>, True)"

definition try_lock_background_exclusive :: "u32 \<Rightarrow> fair_lock \<Rightarrow> fair_lock \<times> bool" where
  "try_lock_background_exclusive pins l =
    (if 0 < pins then (l, False)
     else if exclusive_blocked l \<or> 0 < fl_waiting l then (l, False)
     else (l\<lparr>fl_background := True\<rparr>, True))"

definition unlock_background_exclusive :: "fair_lock \<Rightarrow> fair_lock \<times> bool" where
  "unlock_background_exclusive l = (l\<lparr>fl_background := False\<rparr>, True)"

section \<open>The lock and its threads\<close>

text \<open>What a thread does; the waiting ones carry whether they are awake.\<close>

datatype phase = Idle | WaitShared bool | Reading | WaitAppend bool | Appending | WaitLock bool | Writing | Background

fun wake :: "phase \<Rightarrow> phase" where
  "wake (WaitShared _) = WaitShared True"
| "wake (WaitAppend _) = WaitAppend True"
| "wake (WaitLock _) = WaitLock True"
| "wake p = p"

record lock_system =
  ls_lock :: fair_lock
  ls_pins :: u32
  ls_threads :: "phase list"

definition set_phase :: "lock_system \<Rightarrow> nat \<Rightarrow> fair_lock \<Rightarrow> bool \<Rightarrow> phase \<Rightarrow> lock_system" where
  "set_phase s i l notify p = s\<lparr>ls_lock := l,
     ls_threads := (if notify then map wake else id) ((ls_threads s)[i := p])\<rparr>"

definition system_init :: "nat \<Rightarrow> lock_system" where
  "system_init n = \<lparr>ls_lock = fair_lock_init, ls_pins = 0, ls_threads = replicate n Idle\<rparr>"

abbreviation thread_in :: "lock_system \<Rightarrow> nat \<Rightarrow> phase \<Rightarrow> bool" where
  "thread_in s i p \<equiv> i < length (ls_threads s) \<and> ls_threads s ! i = p"

inductive lock_step :: "lock_system \<Rightarrow> lock_system \<Rightarrow> bool" where
  lock_shared: "thread_in s i Idle \<or> thread_in s i (WaitShared True) \<Longrightarrow>
    lock_step s (if shared_blocked (ls_lock s) then set_phase s i (ls_lock s) False (WaitShared False)
                 else set_phase s i (enter_shared (ls_lock s)) False Reading)"
| try_shared: "thread_in s i Idle \<Longrightarrow> try_lock_shared (ls_lock s) = (l, got) \<Longrightarrow>
    lock_step s (set_phase s i l False (if got then Reading else Idle))"
| unlock_shared: "thread_in s i Reading \<Longrightarrow> unlock_shared (ls_lock s) = (l, notify) \<Longrightarrow>
    lock_step s (set_phase s i l notify Idle)"
| lock_append: "thread_in s i Idle \<or> thread_in s i (WaitAppend True) \<Longrightarrow>
    lock_step s (if shared_blocked (ls_lock s) then set_phase s i (ls_lock s) False (WaitAppend False)
                 else set_phase s i (enter_append (ls_lock s)) False Appending)"
| unlock_append: "thread_in s i Appending \<Longrightarrow> unlock_append_shared (ls_lock s) = (l, notify) \<Longrightarrow>
    lock_step s (set_phase s i l notify Idle)"
| lock_call: "thread_in s i Idle \<Longrightarrow> l = announce_lock (ls_lock s) \<Longrightarrow>
    lock_step s (if exclusive_blocked l then set_phase s i l False (WaitLock False)
                 else set_phase s i (enter_lock l) False Writing)"
| lock_again: "thread_in s i (WaitLock True) \<Longrightarrow>
    lock_step s (if exclusive_blocked (ls_lock s) then set_phase s i (ls_lock s) False (WaitLock False)
                 else set_phase s i (enter_lock (ls_lock s)) False Writing)"
| try_lock: "thread_in s i Idle \<Longrightarrow> try_lock (ls_lock s) = (l, got) \<Longrightarrow>
    lock_step s (set_phase s i l False (if got then Writing else Idle))"
| unlock_lock: "thread_in s i Writing \<Longrightarrow> unlock_lock (ls_lock s) = (l, notify) \<Longrightarrow>
    lock_step s (set_phase s i l notify Idle)"
| try_background: "thread_in s i Idle \<Longrightarrow> try_lock_background_exclusive (ls_pins s) (ls_lock s) = (l, got) \<Longrightarrow>
    lock_step s (set_phase s i l False (if got then Background else Idle))"
| unlock_background: "thread_in s i Background \<Longrightarrow> unlock_background_exclusive (ls_lock s) = (l, notify) \<Longrightarrow>
    lock_step s (set_phase s i l notify Idle)"
| spurious: "i < length (ls_threads s) \<Longrightarrow> lock_step s (set_phase s i (ls_lock s) False (wake (ls_threads s ! i)))"
| pins: "lock_step s (s\<lparr>ls_pins := n\<rparr>)"
| notify_pins_released: "lock_step s (s\<lparr>ls_threads := map wake (ls_threads s)\<rparr>)"

definition lock_reachable :: "nat \<Rightarrow> lock_system \<Rightarrow> bool" where
  "lock_reachable n s \<longleftrightarrow> lock_step\<^sup>*\<^sup>* (system_init n) s"

section \<open>The invariant\<close>

definition is_wait_lock :: "phase \<Rightarrow> bool" where
  "is_wait_lock p \<longleftrightarrow> (\<exists>awake. p = WaitLock awake)"

lemma is_wait_lock_simps [simp]:
  "is_wait_lock (WaitLock b)" "\<not> is_wait_lock Idle" "\<not> is_wait_lock (WaitShared b)" "\<not> is_wait_lock Reading"
  "\<not> is_wait_lock (WaitAppend b)" "\<not> is_wait_lock Appending" "\<not> is_wait_lock Writing" "\<not> is_wait_lock Background"
  by (simp_all add: is_wait_lock_def)

definition occ :: "(phase \<Rightarrow> bool) \<Rightarrow> phase list \<Rightarrow> nat" where
  "occ P ts = length (filter P ts)"

lemma occ_update: "i < length ts \<Longrightarrow> occ P (ts[i := p]) + (if P (ts ! i) then 1 else 0) = occ P ts + (if P p then 1 else 0)"
proof (induction ts arbitrary: i)
  case (Cons t ts)
  then show ?case by (cases i) (auto simp: occ_def)
qed simp

lemma occ_wake: "(\<And>p. P (wake p) = P p) \<Longrightarrow> occ P (map wake ts) = occ P ts"
  by (simp add: occ_def filter_map comp_def)

lemma occ_le: "occ P ts \<le> length ts"
  by (simp add: occ_def)

lemma occ_pos: "i < length ts \<Longrightarrow> P (ts ! i) \<Longrightarrow> 0 < occ P ts"
  by (auto simp: occ_def filter_empty_conv intro!: bexI [of _ "ts ! i"])

text \<open>The counters and flags count the threads in each phase.\<close>

definition lock_counts :: "fair_lock \<Rightarrow> phase list \<Rightarrow> bool" where
  "lock_counts l ts \<longleftrightarrow> unat (fl_readers l) = occ ((=) Reading) ts \<and> unat (fl_appenders l) = occ ((=) Appending) ts
     \<and> unat (fl_waiting l) = occ is_wait_lock ts
     \<and> occ ((=) Writing) ts = (if fl_foreground l then 1 else 0)
     \<and> occ ((=) Background) ts = (if fl_background l then 1 else 0)"

definition lock_exclusion :: "fair_lock \<Rightarrow> bool" where
  "lock_exclusion l \<longleftrightarrow> (fl_foreground l \<longrightarrow> fl_readers l = 0 \<and> fl_appenders l = 0 \<and> \<not> fl_background l)
     \<and> (fl_background l \<longrightarrow> fl_readers l = 0 \<and> fl_appenders l = 0)"

text \<open>A sleeping thread has a reason to sleep.\<close>

definition sleepers_blocked :: "fair_lock \<Rightarrow> phase list \<Rightarrow> bool" where
  "sleepers_blocked l ts \<longleftrightarrow>
     (WaitShared False \<in> set ts \<or> WaitAppend False \<in> set ts \<longrightarrow> shared_blocked l)
     \<and> (WaitLock False \<in> set ts \<longrightarrow> exclusive_blocked l)"

definition lock_inv :: "lock_system \<Rightarrow> bool" where
  "lock_inv s \<longleftrightarrow> length (ls_threads s) < 2 ^ 32 \<and> lock_counts (ls_lock s) (ls_threads s)
     \<and> lock_exclusion (ls_lock s) \<and> sleepers_blocked (ls_lock s) (ls_threads s)"


lemma occ_set:
  assumes "i < length ts"
  shows "occ P (ts[i := p]) = occ P ts - (if P (ts ! i) then 1 else 0) + (if P p then 1 else 0)"
  using occ_update [OF assms, of P p] occ_pos [of i ts P] assms by (auto split: if_splits)

lemma wake_simps [simp]:
  "Reading = wake p \<longleftrightarrow> Reading = p" "Appending = wake p \<longleftrightarrow> Appending = p" "Writing = wake p \<longleftrightarrow> Writing = p"
  "Background = wake p \<longleftrightarrow> Background = p" "is_wait_lock (wake p) \<longleftrightarrow> is_wait_lock p"
  "wake p \<noteq> WaitShared False" "wake p \<noteq> WaitAppend False" "wake p \<noteq> WaitLock False"
  by (cases p; auto simp: is_wait_lock_def)+

lemma lock_counts_wake [simp]: "lock_counts l (map wake ts) = lock_counts l ts"
  by (simp add: lock_counts_def occ_wake)

lemma sleepers_wake [simp]: "sleepers_blocked l (map wake ts)"
  by (auto simp: sleepers_blocked_def image_iff) (metis wake_simps(6-8))+

lemma sleepers_set:
  assumes "sleepers_blocked l ts" "shared_blocked l \<longrightarrow> shared_blocked l1" "exclusive_blocked l \<longrightarrow> exclusive_blocked l1"
    and "p = WaitShared False \<or> p = WaitAppend False \<longrightarrow> shared_blocked l1" "p = WaitLock False \<longrightarrow> exclusive_blocked l1"
  shows "sleepers_blocked l1 (ts[i := p])"
  using assms set_update_subset_insert [of ts i p] unfolding sleepers_blocked_def by (metis insertE subsetD)

text \<open>One thread changes its phase: what has to be checked.\<close>

lemma lock_inv_set_phase:
  assumes "lock_inv s" "i < length (ls_threads s)" "lock_counts l ((ls_threads s)[i := p])" "lock_exclusion l"
    and "notify \<or> sleepers_blocked l ((ls_threads s)[i := p])"
  shows "lock_inv (set_phase s i l notify p)"
  using assms by (auto simp: lock_inv_def set_phase_def)

lemma occ_lt: "i < length ts \<Longrightarrow> length ts < n \<Longrightarrow> \<not> P (ts ! i) \<Longrightarrow> Suc (occ P ts) < n"
  using length_filter_less [of "ts ! i" ts P] by (simp add: occ_def)

lemma unat_u32_Suc: "Suc (unat (x :: u32)) < 2 ^ 32 \<Longrightarrow> unat (x + 1) = Suc (unat x)"
  by (simp add: unat_word_ariths)

lemma unat_u32_pred: "0 < unat (x :: u32) \<Longrightarrow> unat (x - 1) = unat x - 1"
  by (cases "x = 0") (simp_all add: unat_minus_one)

lemma u32_pos: "0 < (x :: u32) \<longleftrightarrow> 0 < unat x" "x = 0 \<longleftrightarrow> unat x = 0"
  by (simp_all add: word_less_nat_alt unat_eq_0)

lemmas lock_inv_defs = lock_inv_def lock_counts_def lock_exclusion_def shared_blocked_def exclusive_blocked_def u32_pos
lemmas lock_op_defs = enter_shared_def enter_append_def announce_lock_def enter_lock_def unlock_shared_def
  unlock_append_shared_def try_lock_shared_def try_lock_def unlock_lock_def try_lock_background_exclusive_def
  unlock_background_exclusive_def

lemma inv_lock_shared:
  assumes "lock_inv s" "thread_in s i p" "p = Idle \<or> p = WaitShared True" "\<not> shared_blocked (ls_lock s)"
  shows "lock_inv (set_phase s i (enter_shared (ls_lock s)) False Reading)"
proof -
  have lt: "Suc (unat (fl_readers (ls_lock s))) < 2 ^ 32"
    using assms occ_lt [of i "ls_threads s" "2 ^ 32" "(=) Reading"] by (auto simp: lock_inv_defs)
  note inc = unat_u32_Suc [OF lt]
  have "sleepers_blocked (enter_shared (ls_lock s)) ((ls_threads s)[i := Reading])"
    using assms(1,4) inc
    by (intro sleepers_set [of "ls_lock s"]) (auto simp: lock_inv_def shared_blocked_def exclusive_blocked_def enter_shared_def u32_pos)
  then show ?thesis
    using assms inc by (intro lock_inv_set_phase) (auto simp: lock_inv_defs occ_set enter_shared_def)
qed

lemma inv_lock_append:
  assumes "lock_inv s" "thread_in s i p" "p = Idle \<or> p = WaitAppend True" "\<not> shared_blocked (ls_lock s)"
  shows "lock_inv (set_phase s i (enter_append (ls_lock s)) False Appending)"
proof -
  have lt: "Suc (unat (fl_appenders (ls_lock s))) < 2 ^ 32"
    using assms occ_lt [of i "ls_threads s" "2 ^ 32" "(=) Appending"] by (auto simp: lock_inv_defs)
  note inc = unat_u32_Suc [OF lt]
  have "sleepers_blocked (enter_append (ls_lock s)) ((ls_threads s)[i := Appending])"
    using assms(1,4) inc
    by (intro sleepers_set [of "ls_lock s"]) (auto simp: lock_inv_def shared_blocked_def exclusive_blocked_def enter_append_def u32_pos)
  then show ?thesis
    using assms inc by (intro lock_inv_set_phase) (auto simp: lock_inv_defs occ_set enter_append_def)
qed

lemma inv_sleep_shared:
  assumes "lock_inv s" "thread_in s i p" "p = Idle \<or> p = WaitShared True \<or> p = WaitAppend True"
    and "shared_blocked (ls_lock s)" "q = WaitShared False \<or> q = WaitAppend False"
  shows "lock_inv (set_phase s i (ls_lock s) False q)"
proof -
  have "sleepers_blocked (ls_lock s) ((ls_threads s)[i := q])"
    using assms by (intro sleepers_set [of "ls_lock s"]) (auto simp: lock_inv_def)
  then show ?thesis
    using assms by (intro lock_inv_set_phase) (auto simp: lock_inv_defs occ_set)
qed

lemma thread_occ: "thread_in s i p \<Longrightarrow> 0 < occ ((=) p) (ls_threads s)"
  using occ_pos [of i "ls_threads s" "(=) p"] by simp

lemma inv_unlock_shared:
  assumes "lock_inv s" "thread_in s i Reading" "unlock_shared (ls_lock s) = (l, notify)"
  shows "lock_inv (set_phase s i l notify Idle)"
proof -
  have pos: "0 < unat (fl_readers (ls_lock s))"
    using assms(1) thread_occ [OF assms(2)] by (simp add: lock_inv_defs)
  note dec = unat_u32_pred [OF pos]
  have l: "l = (ls_lock s)\<lparr>fl_readers := fl_readers (ls_lock s) - 1\<rparr>" "notify = (unat (fl_readers (ls_lock s)) = 1)"
    using assms(3) pos dec by (auto simp: unlock_shared_def Let_def u32_pos split: if_splits)
  have ex: "\<not> fl_foreground (ls_lock s)" "\<not> fl_background (ls_lock s)"
    using assms(1) pos by (auto simp: lock_inv_defs)
  have "notify \<or> sleepers_blocked l ((ls_threads s)[i := Idle])"
  proof (cases notify)
    case False
    then have "0 < unat (fl_readers l)" using pos l dec by auto
    then have "sleepers_blocked l ((ls_threads s)[i := Idle])"
      using assms(1) ex by (intro sleepers_set [of "ls_lock s"]) (auto simp: lock_inv_def shared_blocked_def exclusive_blocked_def u32_pos)
    then show ?thesis by simp
  qed simp
  moreover have "lock_counts l ((ls_threads s)[i := Idle])"
    using assms(1,2) dec by (auto simp: lock_inv_def lock_counts_def l occ_set)
  moreover have "lock_exclusion l" using ex by (simp add: l lock_exclusion_def)
  ultimately show ?thesis using assms(1,2) by (intro lock_inv_set_phase) auto
qed

lemma inv_unlock_append:
  assumes "lock_inv s" "thread_in s i Appending" "unlock_append_shared (ls_lock s) = (l, notify)"
  shows "lock_inv (set_phase s i l notify Idle)"
proof -
  have pos: "0 < unat (fl_appenders (ls_lock s))"
    using assms(1) thread_occ [OF assms(2)] by (simp add: lock_inv_defs)
  note dec = unat_u32_pred [OF pos]
  have l: "l = (ls_lock s)\<lparr>fl_appenders := fl_appenders (ls_lock s) - 1\<rparr>" "notify"
    using assms(3) pos by (auto simp: unlock_append_shared_def u32_pos split: if_splits)
  have ex: "\<not> fl_foreground (ls_lock s)" "\<not> fl_background (ls_lock s)"
    using assms(1) pos by (auto simp: lock_inv_defs)
  moreover have "lock_counts l ((ls_threads s)[i := Idle])"
    using assms(1,2) dec by (auto simp: lock_inv_def lock_counts_def l occ_set)
  moreover have "lock_exclusion l" using ex by (simp add: l lock_exclusion_def)
  ultimately show ?thesis using assms(1,2) l(2) by (intro lock_inv_set_phase) auto
qed

lemma inv_unlock_exclusive:
  assumes "lock_inv s"
    and "thread_in s i Writing \<and> l = (ls_lock s)\<lparr>fl_foreground := False\<rparr>
      \<or> thread_in s i Background \<and> l = (ls_lock s)\<lparr>fl_background := False\<rparr>"
  shows "lock_inv (set_phase s i l True Idle)"
proof -
  have "lock_counts l ((ls_threads s)[i := Idle])"
    using assms thread_occ [of i s Writing] thread_occ [of i s Background]
    by (auto simp: lock_inv_def lock_counts_def occ_set split: if_splits)
  moreover have "lock_exclusion l" using assms by (auto simp: lock_inv_def lock_exclusion_def)
  ultimately show ?thesis using assms by (intro lock_inv_set_phase) auto
qed

lemma inv_exclusive:
  assumes "lock_inv s" "thread_in s i Idle" "\<not> exclusive_blocked (ls_lock s)"
    and "p = Writing \<and> l = (ls_lock s)\<lparr>fl_foreground := True\<rparr> \<or> p = Background \<and> l = (ls_lock s)\<lparr>fl_background := True\<rparr>"
  shows "lock_inv (set_phase s i l False p)"
proof -
  have free: "fl_readers (ls_lock s) = 0" "fl_appenders (ls_lock s) = 0" "\<not> fl_foreground (ls_lock s)" "\<not> fl_background (ls_lock s)"
    using assms(3) by (simp_all add: exclusive_blocked_def u32_pos)
  have "lock_counts l ((ls_threads s)[i := p])"
    using assms(1,2,4) free by (auto simp: lock_inv_def lock_counts_def occ_set)
  moreover have "lock_exclusion l" using assms(4) free by (auto simp: lock_exclusion_def)
  moreover have "sleepers_blocked l ((ls_threads s)[i := p])"
    using assms by (intro sleepers_set [of "ls_lock s"]) (auto simp: lock_inv_def shared_blocked_def exclusive_blocked_def)
  ultimately show ?thesis using assms(1,2) by (intro lock_inv_set_phase) auto
qed

lemma inv_lock_call:
  assumes "lock_inv s" "thread_in s i Idle" "l = announce_lock (ls_lock s)"
  shows "lock_inv (if exclusive_blocked l then set_phase s i l False (WaitLock False)
                   else set_phase s i (enter_lock l) False Writing)"
proof (cases "exclusive_blocked l")
  case True
  have "Suc (unat (fl_waiting (ls_lock s))) < 2 ^ 32"
    using assms occ_lt [of i "ls_threads s" "2 ^ 32" is_wait_lock] by (auto simp: lock_inv_defs)
  from unat_u32_Suc [OF this] have "lock_counts l ((ls_threads s)[i := WaitLock False])"
    using assms by (auto simp: lock_inv_def lock_counts_def announce_lock_def occ_set)
  moreover have "lock_exclusion l" using assms(1,3) by (simp add: lock_inv_def lock_exclusion_def announce_lock_def)
  moreover have "sleepers_blocked l ((ls_threads s)[i := WaitLock False])"
    using assms True by (intro sleepers_set [of "ls_lock s"])
      (auto simp: lock_inv_def shared_blocked_def exclusive_blocked_def announce_lock_def)
  ultimately show ?thesis using True assms(1,2) by (auto intro!: lock_inv_set_phase)
next
  case False
  then have "\<not> exclusive_blocked (ls_lock s)" by (simp add: assms(3) exclusive_blocked_def announce_lock_def)
  moreover have "enter_lock l = (ls_lock s)\<lparr>fl_foreground := True\<rparr>"
    by (simp add: assms(3) enter_lock_def announce_lock_def)
  ultimately show ?thesis using False inv_exclusive [OF assms(1,2), where p = Writing and l = "enter_lock l"] by auto
qed

lemma inv_lock_again:
  assumes "lock_inv s" "thread_in s i (WaitLock True)"
  shows "lock_inv (if exclusive_blocked (ls_lock s) then set_phase s i (ls_lock s) False (WaitLock False)
                   else set_phase s i (enter_lock (ls_lock s)) False Writing)"
proof (cases "exclusive_blocked (ls_lock s)")
  case True
  have "sleepers_blocked (ls_lock s) ((ls_threads s)[i := WaitLock False])"
    using assms(1) True by (intro sleepers_set [of "ls_lock s"]) (auto simp: lock_inv_def)
  then have "lock_inv (set_phase s i (ls_lock s) False (WaitLock False))"
    using assms occ_pos [of i "ls_threads s" is_wait_lock]
    by (intro lock_inv_set_phase) (auto simp: lock_inv_def lock_counts_def occ_set)
  then show ?thesis using True by simp
next
  case False
  then have free: "fl_readers (ls_lock s) = 0" "fl_appenders (ls_lock s) = 0" "\<not> fl_foreground (ls_lock s)" "\<not> fl_background (ls_lock s)"
    by (simp_all add: exclusive_blocked_def u32_pos)
  have pos: "0 < unat (fl_waiting (ls_lock s))"
    using assms occ_pos [of i "ls_threads s" is_wait_lock] by (simp add: lock_inv_def lock_counts_def)
  have "lock_counts (enter_lock (ls_lock s)) ((ls_threads s)[i := Writing])"
    using assms free(3,4) unat_u32_pred [OF pos]
    by (simp add: lock_inv_def lock_counts_def enter_lock_def occ_set)
  moreover have "lock_exclusion (enter_lock (ls_lock s))" using free by (simp add: lock_exclusion_def enter_lock_def)
  moreover have "sleepers_blocked (enter_lock (ls_lock s)) ((ls_threads s)[i := Writing])"
    using assms(1) by (intro sleepers_set [of "ls_lock s"])
      (auto simp: lock_inv_def shared_blocked_def exclusive_blocked_def enter_lock_def)
  ultimately show ?thesis using False assms by (auto intro!: lock_inv_set_phase)
qed

lemma inv_same: "lock_inv s \<Longrightarrow> thread_in s i Idle \<Longrightarrow> lock_inv (set_phase s i (ls_lock s) False Idle)"
  using list_update_id [of "ls_threads s" i] by (auto simp: set_phase_def)

lemma inv_spurious:
  assumes "lock_inv s" "i < length (ls_threads s)"
  shows "lock_inv (set_phase s i (ls_lock s) False (wake (ls_threads s ! i)))"
proof -
  have "sleepers_blocked (ls_lock s) ((ls_threads s)[i := wake (ls_threads s ! i)])"
    using assms(1) by (intro sleepers_set [of "ls_lock s"]) (auto simp: lock_inv_def)
  moreover have "occ P ((ls_threads s)[i := wake (ls_threads s ! i)]) = occ P (ls_threads s)" if "\<And>p. P (wake p) = P p" for P
    using occ_update [OF assms(2), of P "wake (ls_threads s ! i)"] that by simp
  then have "lock_counts (ls_lock s) ((ls_threads s)[i := wake (ls_threads s ! i)])"
    using assms(1) by (simp add: lock_inv_def lock_counts_def)
  ultimately show ?thesis using assms by (intro lock_inv_set_phase) (auto simp: lock_inv_def)
qed

lemma lock_inv_step: "lock_step s t \<Longrightarrow> lock_inv s \<Longrightarrow> lock_inv t"
proof (induction rule: lock_step.induct)
  case (lock_shared s i)
  then show ?case
    using inv_lock_shared [of s i] inv_sleep_shared [of s i _ "WaitShared False"] by auto
next
  case (try_shared s i l got)
  then show ?case
    using inv_lock_shared [of s i Idle] inv_same [of s i]
    by (auto simp: try_lock_shared_def shared_blocked_def split: if_splits)
next
  case (lock_append s i)
  then show ?case
    using inv_lock_append [of s i] inv_sleep_shared [of s i _ "WaitAppend False"] by auto
next
  case (try_lock s i l got)
  then show ?case
    using inv_exclusive [of s i Writing] inv_same [of s i] by (auto simp: try_lock_def split: if_splits)
next
  case (try_background s i l got)
  then show ?case
    using inv_exclusive [of s i Background] inv_same [of s i]
    by (auto simp: try_lock_background_exclusive_def split: if_splits)
next
  case (lock_call s i l)
  then show ?case by (intro inv_lock_call)
next
  case (lock_again s i)
  then show ?case by (intro inv_lock_again)
next
  case (pins s n)
  then show ?case by (simp add: lock_inv_def)
next
  case (notify_pins_released s)
  then show ?case by (simp add: lock_inv_def)
qed (auto simp: unlock_lock_def unlock_background_exclusive_def intro: inv_unlock_shared inv_unlock_append
    inv_unlock_exclusive inv_spurious)

lemma lock_inv_init: "n < 2 ^ 32 \<Longrightarrow> lock_inv (system_init n)"
  by (auto simp: lock_inv_defs system_init_def fair_lock_init_def occ_def sleepers_blocked_def)

lemma lock_inv_reachable: "lock_reachable n s \<Longrightarrow> n < 2 ^ 32 \<Longrightarrow> lock_inv s"
  unfolding lock_reachable_def
  by (induction rule: rtranclp_induct) (auto intro: lock_inv_init lock_inv_step)


section \<open>What the lock guarantees\<close>

definition holds_lock :: "phase \<Rightarrow> bool" where
  "holds_lock p \<longleftrightarrow> p = Reading \<or> p = Appending \<or> p = Writing \<or> p = Background"

definition holds_exclusive :: "phase \<Rightarrow> bool" where
  "holds_exclusive p \<longleftrightarrow> p = Writing \<or> p = Background"

lemma occ_two:
  assumes "i < length ts" "j < length ts" "i \<noteq> j" "P (ts ! i)" "P (ts ! j)"
  shows "2 \<le> occ P ts"
proof -
  have "card {i, j} \<le> card {k. k < length ts \<and> P (ts ! k)}" using assms by (intro card_mono) auto
  then show ?thesis using assms(3) by (simp add: occ_def length_filter_conv_card)
qed

lemma exclusive_alone:
  assumes "lock_counts l ts" "lock_exclusion l" "holds_exclusive p" "holds_lock q"
    and "0 < occ ((=) p) ts" "0 < occ ((=) q) ts"
  shows "p = q \<and> occ ((=) p) ts = 1"
proof -
  have c: "occ ((=) Reading) ts = unat (fl_readers l)" "occ ((=) Appending) ts = unat (fl_appenders l)"
    "occ ((=) Writing) ts = (if fl_foreground l then 1 else 0)" "occ ((=) Background) ts = (if fl_background l then 1 else 0)"
    using assms(1) by (simp_all add: lock_counts_def)
  consider "p = Writing" "fl_foreground l" | "p = Background" "fl_background l"
    using assms(3,5) c by (auto simp: holds_exclusive_def split: if_splits)
  then have "p = Writing \<and> fl_foreground l \<or> p = Background \<and> fl_background l" by cases simp_all
  moreover from this have "fl_readers l = 0" "fl_appenders l = 0" "\<not> (fl_foreground l \<and> fl_background l)"
    using assms(2) by (auto simp: lock_exclusion_def)
  moreover have "q = Writing \<and> fl_foreground l \<or> q = Background \<and> fl_background l"
    using assms(4,6) c \<open>fl_readers l = 0\<close> \<open>fl_appenders l = 0\<close> by (auto simp: holds_lock_def split: if_splits)
  ultimately show ?thesis using c by auto
qed

text \<open>
  C28. Mutual exclusion: in every reachable state, a thread that holds the lock as a foreground or
  background writer is the only one that holds it, and the counters of the lock count the readers,
  the appenders and the waiting writers.
\<close>

theorem lock_excludes:
  assumes "lock_reachable n s" "n < 2 ^ 32" "thread_in s i p" "holds_exclusive p" "thread_in s j q" "holds_lock q"
  shows "i = j \<and> unat (fl_readers (ls_lock s)) = length (filter ((=) Reading) (ls_threads s))
    \<and> unat (fl_appenders (ls_lock s)) = length (filter ((=) Appending) (ls_threads s))
    \<and> unat (fl_waiting (ls_lock s)) = length (filter is_wait_lock (ls_threads s))"
proof -
  have inv: "lock_inv s" using assms(1,2) by (rule lock_inv_reachable)
  have "p = q \<and> occ ((=) p) (ls_threads s) = 1"
    using exclusive_alone [OF _ _ assms(4,6) thread_occ [OF assms(3)] thread_occ [OF assms(5)], of "ls_lock s"] inv
    by (auto simp: lock_inv_def)
  then have "i = j" using occ_two [of i "ls_threads s" j "(=) p"] assms(3,5) by fastforce
  then show ?thesis using inv by (simp add: lock_inv_def lock_counts_def occ_def)
qed

definition one_writer :: lock_system where
  "one_writer = set_phase (system_init 2) 0 (enter_lock (announce_lock fair_lock_init)) False Writing"

lemma one_writer_reachable: "lock_reachable 2 one_writer"
proof -
  have "lock_step (system_init 2) (if exclusive_blocked (announce_lock fair_lock_init)
      then set_phase (system_init 2) 0 (announce_lock fair_lock_init) False (WaitLock False) else one_writer)"
    unfolding one_writer_def by (rule lock_step.lock_call) (simp_all add: system_init_def)
  moreover have "\<not> exclusive_blocked (announce_lock fair_lock_init)"
    by (simp add: exclusive_blocked_def announce_lock_def fair_lock_init_def)
  ultimately show ?thesis by (auto simp: lock_reachable_def)
qed

theorem lock_excludes_witness: "\<not> thread_in one_writer 1 Reading"
proof -
  have "thread_in one_writer 0 Writing" by (simp add: one_writer_def set_phase_def system_init_def)
  from lock_excludes [OF one_writer_reachable _ this, of 1 Reading] show ?thesis
    by (auto simp: holds_exclusive_def holds_lock_def)
qed

text \<open>
  C29. No wake-up is lost: in every reachable state a waiting thread that sleeps is blocked by a
  holder. So when nobody holds the lock, every waiting thread is awake and can enter at once.
\<close>

theorem no_lost_wakeup:
  assumes "lock_reachable n s" "n < 2 ^ 32" "list_all (\<lambda>p. \<not> holds_lock p) (ls_threads s)"
    and "thread_in s i p" "p = WaitShared awake \<or> p = WaitAppend awake \<or> p = WaitLock awake"
  shows "awake \<and> (\<exists>t q. lock_step s t \<and> thread_in t i q \<and> holds_lock q)"
proof -
  have inv: "lock_inv s" using assms(1,2) by (rule lock_inv_reachable)
  have "occ ((=) q) (ls_threads s) = 0" if "holds_lock q" for q
    using assms(3) that by (auto simp: occ_def filter_empty_conv list_all_iff)
  then have "unat (fl_readers (ls_lock s)) = 0" "unat (fl_appenders (ls_lock s)) = 0"
    "\<not> fl_foreground (ls_lock s)" "\<not> fl_background (ls_lock s)"
    using inv by (auto simp: lock_inv_def lock_counts_def holds_lock_def split: if_splits)
  then have free: "\<not> exclusive_blocked (ls_lock s)" "\<not> shared_blocked (ls_lock s)"
    by (simp_all add: exclusive_blocked_def shared_blocked_def u32_pos)
  have "p \<in> set (ls_threads s)" using assms(4) by auto
  then have awake: "awake" using inv free assms(5) by (cases awake) (auto simp: lock_inv_def sleepers_blocked_def)
  consider "p = WaitShared True" | "p = WaitAppend True" | "p = WaitLock True" using assms(5) awake by auto
  then show ?thesis
  proof cases
    case 1
    then have "lock_step s (set_phase s i (enter_shared (ls_lock s)) False Reading)"
      using lock_step.lock_shared [of i s] assms(4) free by auto
    then show ?thesis using awake assms(4) by (force simp: set_phase_def holds_lock_def)
  next
    case 2
    then have "lock_step s (set_phase s i (enter_append (ls_lock s)) False Appending)"
      using lock_step.lock_append [of i s] assms(4) free by auto
    then show ?thesis using awake assms(4) by (force simp: set_phase_def holds_lock_def)
  next
    case 3
    then have "lock_step s (set_phase s i (enter_lock (ls_lock s)) False Writing)"
      using lock_step.lock_again [of i s] assms(4) free by auto
    then show ?thesis using awake assms(4) by (force simp: set_phase_def holds_lock_def)
  qed
qed


theorem no_lost_wakeup_witness:
  "\<exists>t q. lock_step (set_phase (system_init 2) 1 fair_lock_init False (WaitShared True)) t \<and> thread_in t 1 q \<and> holds_lock q"
proof -
  let ?writer = one_writer
  let ?asleep = "set_phase ?writer 1 (ls_lock ?writer) False (WaitShared False)"
  let ?free = "set_phase ?asleep 0 ((ls_lock ?asleep)\<lparr>fl_foreground := False\<rparr>) True Idle"
  have "shared_blocked (ls_lock ?writer)"
    by (simp add: one_writer_def set_phase_def shared_blocked_def enter_lock_def)
  then have "lock_step ?writer ?asleep"
    using lock_step.lock_shared [of 1 ?writer] by (auto simp: one_writer_def set_phase_def system_init_def)
  moreover have "lock_step ?asleep ?free"
    by (rule lock_step.unlock_lock [of 0 ?asleep]) (simp_all add: unlock_lock_def one_writer_def set_phase_def system_init_def)
  ultimately have "lock_reachable 2 ?free"
    using one_writer_reachable unfolding lock_reachable_def by (meson rtranclp.rtrancl_into_rtrancl)
  moreover have free: "?free = set_phase (system_init 2) 1 fair_lock_init False (WaitShared True)"
    by (simp add: one_writer_def set_phase_def system_init_def numeral_2_eq_2 enter_lock_def announce_lock_def fair_lock_init_def)
  moreover have "list_all (\<lambda>p. \<not> holds_lock p) (ls_threads ?free)" "thread_in ?free 1 (WaitShared True)"
    unfolding free by (simp_all add: set_phase_def system_init_def numeral_2_eq_2 holds_lock_def)
  ultimately show ?thesis
    using no_lost_wakeup [of 2 ?free 1 "WaitShared True" True] by simp
qed

inductive_cases lock_stepE: "lock_step s t"

lemma wake_Background [simp]: "wake p = Background \<longleftrightarrow> p = Background"
  by (cases p) auto

lemma length_set_phase [simp]: "length (ls_threads (set_phase s j l notify p)) = length (ls_threads s)"
  by (simp add: set_phase_def)

lemma background_set_phase:
  "i < length (ls_threads s) \<Longrightarrow> ls_threads (set_phase s j l notify p) ! i = Background
    \<longleftrightarrow> (if i = j then p = Background else ls_threads s ! i = Background)"
  by (auto simp: set_phase_def nth_list_update)

text \<open>
  A thread becomes the background writer only in a step in which no snapshot is pinned, nobody
  holds the lock and no foreground writer waits.
\<close>

theorem background_entry:
  assumes "lock_step s t" "thread_in t i Background" "\<not> thread_in s i Background"
  shows "ls_pins s = 0 \<and> \<not> exclusive_blocked (ls_lock s) \<and> fl_waiting (ls_lock s) = 0"
proof -
  have free: "ls_pins s = 0 \<and> \<not> exclusive_blocked (ls_lock s) \<and> fl_waiting (ls_lock s) = 0"
    if "try_lock_background_exclusive (ls_pins s) (ls_lock s) = (l, True)" for l
    using that by (auto simp: try_lock_background_exclusive_def u32_pos split: if_splits)
  show ?thesis
    using assms by (elim lock_stepE) (auto simp: background_set_phase dest: free split: if_splits)
qed

definition idle_pair :: lock_system where "idle_pair = system_init 2"

theorem background_entry_witness:
  "\<nexists>l. lock_step (idle_pair\<lparr>ls_pins := 1\<rparr>) (set_phase (idle_pair\<lparr>ls_pins := 1\<rparr>) 0 l False Background)"
proof
  assume "\<exists>l. lock_step (idle_pair\<lparr>ls_pins := 1\<rparr>) (set_phase (idle_pair\<lparr>ls_pins := 1\<rparr>) 0 l False Background)"
  then obtain l where "lock_step (idle_pair\<lparr>ls_pins := 1\<rparr>) (set_phase (idle_pair\<lparr>ls_pins := 1\<rparr>) 0 l False Background)" ..
  from background_entry [OF this, of 0] show False
    by (auto simp: idle_pair_def system_init_def set_phase_def)
qed

text \<open>
  The lock is not fair to writers: there is a reachable state in which a foreground writer waits
  and from which two readers, taking turns, lead back to the same state while the writer sleeps all
  the time, so this can go on forever. A new reader does not look at the waiting writers.
\<close>

definition reader_system :: "bool \<Rightarrow> bool \<Rightarrow> lock_system" where
  "reader_system a b = \<lparr>ls_lock = \<lparr>fl_readers = (if a then 1 else 0) + (if b then 1 else 0), fl_appenders = 0, fl_foreground = False,
       fl_waiting = 1, fl_background = False\<rparr>, ls_pins = 0,
     ls_threads = [if a then Reading else Idle, if b then Reading else Idle, WaitLock False]\<rparr>"

definition starved_step :: "lock_system \<Rightarrow> lock_system \<Rightarrow> bool" where
  "starved_step s t \<longleftrightarrow> lock_step s t \<and> thread_in s 2 (WaitLock False) \<and> thread_in t 2 (WaitLock False)"

lemma reader_steps:
  "starved_step (reader_system True False) (reader_system True True)"
  "starved_step (reader_system True True) (reader_system False True)"
  "starved_step (reader_system False True) (reader_system True True)"
  "starved_step (reader_system True True) (reader_system True False)"
proof -
  have 1: "lock_step (reader_system True False) (set_phase (reader_system True False) 1 (enter_shared (ls_lock (reader_system True False))) False Reading)"
    using lock_step.lock_shared [of 1 "reader_system True False"] by (simp add: reader_system_def shared_blocked_def)
  have 3: "lock_step (reader_system False True) (set_phase (reader_system False True) 0 (enter_shared (ls_lock (reader_system False True))) False Reading)"
    using lock_step.lock_shared [of 0 "reader_system False True"] by (simp add: reader_system_def shared_blocked_def)
  have u: "unlock_shared (ls_lock (reader_system True True)) = ((ls_lock (reader_system True True))\<lparr>fl_readers := 1\<rparr>, False)"
    by (simp add: unlock_shared_def reader_system_def)
  have 2: "lock_step (reader_system True True) (set_phase (reader_system True True) 0 ((ls_lock (reader_system True True))\<lparr>fl_readers := 1\<rparr>) False Idle)"
    by (rule lock_step.unlock_shared [OF _ u]) (simp add: reader_system_def)
  have 4: "lock_step (reader_system True True) (set_phase (reader_system True True) 1 ((ls_lock (reader_system True True))\<lparr>fl_readers := 1\<rparr>) False Idle)"
    by (rule lock_step.unlock_shared [OF _ u]) (simp add: reader_system_def)
  show "starved_step (reader_system True False) (reader_system True True)"
    "starved_step (reader_system True True) (reader_system False True)"
    "starved_step (reader_system False True) (reader_system True True)"
    "starved_step (reader_system True True) (reader_system True False)"
    using 1 2 3 4 by (simp_all add: starved_step_def set_phase_def reader_system_def enter_shared_def)
qed

theorem writer_starves:
  "\<exists>s. lock_reachable 3 s \<and> thread_in s 2 (WaitLock False) \<and> starved_step\<^sup>+\<^sup>+ s s"
proof (intro exI conjI)
  let ?r = "set_phase (system_init 3) 0 (enter_shared fair_lock_init) False Reading"
  have "lock_step (system_init 3) ?r"
    using lock_step.lock_shared [of 0 "system_init 3"] by (simp add: system_init_def shared_blocked_def fair_lock_init_def)
  moreover have "lock_step ?r (reader_system True False)"
  proof -
    have "lock_step ?r (if exclusive_blocked (announce_lock (ls_lock ?r)) then set_phase ?r 2 (announce_lock (ls_lock ?r)) False (WaitLock False)
        else set_phase ?r 2 (enter_lock (announce_lock (ls_lock ?r))) False Writing)"
      by (rule lock_step.lock_call) (simp_all add: set_phase_def system_init_def)
    moreover have "set_phase ?r 2 (announce_lock (ls_lock ?r)) False (WaitLock False) = reader_system True False"
      by (simp add: set_phase_def system_init_def reader_system_def announce_lock_def enter_shared_def fair_lock_init_def
        numeral_3_eq_3 numeral_2_eq_2)
    moreover have "exclusive_blocked (announce_lock (ls_lock ?r))"
      by (simp add: set_phase_def exclusive_blocked_def announce_lock_def enter_shared_def fair_lock_init_def)
    ultimately show ?thesis by simp
  qed
  ultimately show "lock_reachable 3 (reader_system True False)"
    unfolding lock_reachable_def by (meson rtranclp.rtrancl_into_rtrancl rtranclp.rtrancl_refl)
  show "2 < length (ls_threads (reader_system True False))" "ls_threads (reader_system True False) ! 2 = WaitLock False"
    by (simp_all add: reader_system_def)
  show "starved_step\<^sup>+\<^sup>+ (reader_system True False) (reader_system True False)"
    by (meson reader_steps tranclp.r_into_trancl tranclp.trancl_into_trancl)
qed

end
