(* ===== verification/WalLog.thy ===== *)
theory WalLog
  imports Crc32 "HOL-Library.AList"
begin

text \<open>
  \<^verbatim>\<open>cpp/src/concept/wal/wal.cc\<close>, \<^verbatim>\<open>wal_key_index.cc\<close> and the on-disk scanners of
  \<^verbatim>\<open>wal_segment.cc\<close>: the write-ahead log of one shard. A V2 file is an 8-byte magic followed
  by records: a 21-byte header, key, value. V1 headers lack the transaction id (17 bytes).

  \<open>wal_writer\<close> is the object together with the content of its file as the stream sees it.
  The POSIX build is modelled; \<open>write_through_\<close>, which the engine never sets, and the Windows
  handles are not. Offsets are natural numbers.
\<close>

section \<open>Record formats\<close>

definition kPut :: u8 where "kPut = 1"
definition kDelete :: u8 where "kDelete = 2"
definition kTxnBegin :: u8 where "kTxnBegin = 3"
definition kTxnCommit :: u8 where "kTxnCommit = 4"
definition kTxnAbort :: u8 where "kTxnAbort = 5"

lemmas wal_ops = kPut_def kDelete_def kTxnBegin_def kTxnCommit_def kTxnAbort_def

definition kWalMagicV2 :: u64 where "kWalMagicV2 = 0xEB57414C32303031"
definition kWalSectorSize :: nat where "kWalSectorSize = 4096"

record wal_header =
  wh_lsn :: u64
  wh_op :: u8
  wh_key_len :: u16
  wh_value_len :: u16
  wh_txn_id :: u32
  wh_record_crc :: u32

definition wal_body1 :: "wal_header \<Rightarrow> bytes" where
  "wal_body1 h = put_u64 (wh_lsn h) @ [wh_op h] @ put_u16 (wh_key_len h) @ put_u16 (wh_value_len h)"

definition wal_body2 :: "wal_header \<Rightarrow> bytes" where
  "wal_body2 h = wal_body1 h @ put_u32 (wh_txn_id h)"

definition enc_wal2 :: "wal_header \<Rightarrow> bytes" where
  "enc_wal2 h = wal_body2 h @ put_u32 (wh_record_crc h)"

definition read_wal2 :: "bytes \<Rightarrow> wal_header" where
  "read_wal2 bs = \<lparr>wh_lsn = get_u64 bs, wh_op = bs ! 8, wh_key_len = get_u16 (drop 9 bs),
     wh_value_len = get_u16 (drop 11 bs), wh_txn_id = get_u32 (drop 13 bs),
     wh_record_crc = get_u32 (drop 17 bs)\<rparr>"

definition read_wal1 :: "bytes \<Rightarrow> wal_header" where
  "read_wal1 bs = \<lparr>wh_lsn = get_u64 bs, wh_op = bs ! 8, wh_key_len = get_u16 (drop 9 bs),
     wh_value_len = get_u16 (drop 11 bs), wh_txn_id = 0, wh_record_crc = get_u32 (drop 13 bs)\<rparr>"

definition kWalHeader1 :: nat where "kWalHeader1 = 17"
definition kWalHeader2 :: nat where "kWalHeader2 = 21"

definition VerifyWalRecordV2Crc :: "wal_header \<Rightarrow> bool" where
  "VerifyWalRecordV2Crc h \<longleftrightarrow> wh_record_crc h = Crc32 (wal_body2 h)"

definition WalHeaderV2IsPadding :: "wal_header \<Rightarrow> bool" where
  "WalHeaderV2IsPadding h \<longleftrightarrow> wh_lsn h = 0 \<and> wh_op h = kPut \<and> wh_key_len h = 0 \<and> wh_value_len h = 0"

definition WalHeaderV2LooksValid :: "wal_header \<Rightarrow> bool" where
  "WalHeaderV2LooksValid h \<longleftrightarrow> wh_op h \<in> {kPut, kDelete, kTxnBegin, kTxnCommit, kTxnAbort}"

record wal_record =
  wr_hdr :: wal_header
  wr_key :: bytes
  wr_value :: bytes

definition enc_wal_record :: "wal_record \<Rightarrow> bytes" where
  "enc_wal_record r = enc_wal2 (wr_hdr r) @ wr_key r @ wr_value r"

section \<open>Scanning the file\<close>

definition AlignUpWalSector :: "nat \<Rightarrow> nat" where
  "AlignUpWalSector offset = (offset div kWalSectorSize + 1) * kWalSectorSize"

definition WalMagicAt :: "bytes \<Rightarrow> nat \<Rightarrow> bool" where
  "WalMagicAt fb offset \<longleftrightarrow> offset + 8 \<le> length fb \<and> get_u64 (drop offset fb) = kWalMagicV2"

definition DetectFormatV2OnDisk :: "bytes \<Rightarrow> bool" where
  "DetectFormatV2OnDisk fb \<longleftrightarrow> 8 \<le> length fb \<and> get_u64 fb = kWalMagicV2"

definition ReadWalRecordV2At :: "bytes \<Rightarrow> nat \<Rightarrow> bool \<Rightarrow> (wal_record \<times> nat) option" where
  "ReadWalRecordV2At fb offset verify_crc =
    (if length fb < offset + kWalHeader2 then None
     else
      (let h = read_wal2 (drop offset fb) in
       if WalHeaderV2IsPadding h \<or> \<not> WalHeaderV2LooksValid h then None
       else
        (let kl = unat (wh_key_len h); vl = unat (wh_value_len h);
             record_end = offset + kWalHeader2 + kl + vl in
         if length fb < record_end then None
         else if verify_crc \<and> \<not> VerifyWalRecordV2Crc h then None
         else Some (\<lparr>wr_hdr = h, wr_key = slice (offset + kWalHeader2) kl fb,
                     wr_value = slice (offset + kWalHeader2 + kl) vl fb\<rparr>, record_end))))"

definition HasValidWalRecordV2At :: "bytes \<Rightarrow> nat \<Rightarrow> bool" where
  "HasValidWalRecordV2At fb offset \<longleftrightarrow> ReadWalRecordV2At fb offset True \<noteq> None"

text \<open>The sector loop of \<open>WalDataOffsetOnDisk\<close>, over the sector starts inside the file.\<close>

fun first_sector :: "bytes \<Rightarrow> nat list \<Rightarrow> nat" where
  "first_sector fb [] = 8"
| "first_sector fb (s # ss) =
    (if HasValidWalRecordV2At fb s then s
     else if s + 8 < length fb \<and> HasValidWalRecordV2At fb (s + 8) then s + 8
     else first_sector fb ss)"

definition sector_starts :: "bytes \<Rightarrow> nat list" where
  "sector_starts fb = filter (\<lambda>s. s < length fb)
     (map (\<lambda>i. (i + 1) * kWalSectorSize) [0..<length fb div kWalSectorSize + 1])"

definition WalDataOffsetOnDisk :: "bytes \<Rightarrow> bool \<Rightarrow> nat" where
  "WalDataOffsetOnDisk fb format_v2 =
    (if \<not> format_v2 then 0
     else if length fb \<le> 8 then 8
     else if HasValidWalRecordV2At fb 8 then 8
     else if 16 < length fb \<and> HasValidWalRecordV2At fb 16 then 16
     else first_sector fb (sector_starts fb))"

definition DataOffsetOnDisk :: "bytes \<Rightarrow> nat" where
  "DataOffsetOnDisk fb = WalDataOffsetOnDisk fb (DetectFormatV2OnDisk fb)"

definition TryReadWalRecordV2Sparse :: "bytes \<Rightarrow> nat \<Rightarrow> (wal_record \<times> nat) option" where
  "TryReadWalRecordV2Sparse fb offset =
    (case (if 8 \<le> offset \<and> WalMagicAt fb offset then ReadWalRecordV2At fb (offset + 8) True else None) of
      Some r \<Rightarrow> Some r
    | None \<Rightarrow>
       (case ReadWalRecordV2At fb offset True of
          Some r \<Rightarrow> Some r
        | None \<Rightarrow> (if kWalSectorSize \<le> offset \<and> WalMagicAt fb offset
                   then ReadWalRecordV2At fb (offset + 8) True else None)))"

lemma ReadWalRecordV2At_next: "ReadWalRecordV2At fb offset v = Some (r, next) \<Longrightarrow> offset < next"
  by (auto simp: ReadWalRecordV2At_def kWalHeader2_def Let_def split: if_splits)

lemma TryRead_next: "TryReadWalRecordV2Sparse fb offset = Some (r, next) \<Longrightarrow> offset < next"
  using ReadWalRecordV2At_next [of fb offset True r "next"] ReadWalRecordV2At_next [of fb "offset + 8" True r "next"]
  by (auto simp: TryReadWalRecordV2Sparse_def split: option.splits if_splits)

lemma AlignUp_greater: "offset < AlignUpWalSector offset"
  using div_mult_mod_eq [of offset kWalSectorSize] mod_less_divisor [of kWalSectorSize offset]
  by (simp add: AlignUpWalSector_def kWalSectorSize_def)

text \<open>
  The loop shared by the sparse scanners: every record from \<open>offset\<close> on with its offset and
  the offset behind it; where no record can be read the scan resumes at the next sector.
\<close>

function wal_walk :: "bytes \<Rightarrow> nat \<Rightarrow> (nat \<times> wal_record \<times> nat) list" where
  "wal_walk fb offset =
    (if length fb \<le> offset then []
     else case TryReadWalRecordV2Sparse fb offset of
       None \<Rightarrow> wal_walk fb (AlignUpWalSector offset)
     | Some (r, next) \<Rightarrow> (offset, r, next) # wal_walk fb next)"
  by pat_completeness auto
termination
proof (relation "measure (\<lambda>(fb, offset). length fb - offset)")
  fix fb :: bytes and offset :: nat
  assume "\<not> length fb \<le> offset"
  then show "((fb, AlignUpWalSector offset), fb, offset) \<in> measure (\<lambda>(fb, offset). length fb - offset)"
    using AlignUp_greater [of offset] by simp
  fix a r "next"
  assume "TryReadWalRecordV2Sparse fb offset = Some a" "(r, next) = a"
  then have "offset < next" using TryRead_next [of fb offset r "next"] by simp
  with \<open>\<not> length fb \<le> offset\<close>
  show "((fb, next), fb, offset) \<in> measure (\<lambda>(fb, offset). length fb - offset)" by simp
qed simp

declare wal_walk.simps [simp del]

text \<open>The V1 loops: consecutive 17-byte headers, ended by the first short record.\<close>

function v1_walk :: "bytes \<Rightarrow> nat \<Rightarrow> (nat \<times> wal_record \<times> nat) list" where
  "v1_walk fb offset =
    (if length fb < offset + kWalHeader1 then []
     else
      (let h = read_wal1 (drop offset fb);
           kl = unat (wh_key_len h); vl = unat (wh_value_len h);
           record_end = offset + kWalHeader1 + kl + vl in
       if length fb < record_end then []
       else (offset, \<lparr>wr_hdr = h, wr_key = slice (offset + kWalHeader1) kl fb,
                      wr_value = slice (offset + kWalHeader1 + kl) vl fb\<rparr>, record_end)
            # v1_walk fb record_end))"
  by pat_completeness auto
termination
  by (relation "measure (\<lambda>(fb, offset). length fb - offset)") (auto simp: kWalHeader1_def)

declare v1_walk.simps [simp del]

definition lsn_of :: "nat \<times> wal_record \<times> nat \<Rightarrow> u64" where
  "lsn_of x = wh_lsn (wr_hdr (fst (snd x)))"

definition max_above :: "u64 \<Rightarrow> (nat \<times> wal_record \<times> nat) list \<Rightarrow> u64" where
  "max_above after_lsn xs = foldl (\<lambda>m x. if after_lsn < lsn_of x \<and> m < lsn_of x then lsn_of x else m) 0 xs"

definition ScanWalV2Sparse :: "bytes \<Rightarrow> u64 \<Rightarrow> wal_record list" where
  "ScanWalV2Sparse fb after_lsn =
     map (fst \<circ> snd) (filter (\<lambda>x. after_lsn < lsn_of x) (wal_walk fb (WalDataOffsetOnDisk fb True)))"

definition ScanMaxLsnV2Linear :: "bytes \<Rightarrow> u64 \<Rightarrow> u64" where
  "ScanMaxLsnV2Linear fb after_lsn = max_above after_lsn (wal_walk fb (WalDataOffsetOnDisk fb True))"

definition ScanMaxLsnV1AfterMagic :: "bytes \<Rightarrow> u64 \<Rightarrow> u64" where
  "ScanMaxLsnV1AfterMagic fb after_lsn = (if length fb \<le> 8 then 0 else max_above after_lsn (v1_walk fb 8))"

definition ScanMaxLsnV1 :: "bytes \<Rightarrow> u64 \<Rightarrow> u64" where
  "ScanMaxLsnV1 fb after_lsn = max_above after_lsn (v1_walk fb 0)"

definition MaxLsnOnDisk :: "bytes option \<Rightarrow> u64 \<Rightarrow> u64" where
  "MaxLsnOnDisk fo after_lsn =
    (case fo of
      None \<Rightarrow> 0
    | Some fb \<Rightarrow>
       (if DetectFormatV2OnDisk fb then
         (let m = foldl (\<lambda>m r. if m < wh_lsn (wr_hdr r) then wh_lsn (wr_hdr r) else m) 0
                    (ScanWalV2Sparse fb after_lsn) in
          if m \<le> after_lsn
          then max (max m (ScanMaxLsnV2Linear fb after_lsn)) (ScanMaxLsnV1AfterMagic fb after_lsn)
          else m)
        else ScanMaxLsnV1 fb after_lsn))"

definition HasPendingOnDisk :: "bytes option \<Rightarrow> u64 \<Rightarrow> bool" where
  "HasPendingOnDisk fo after_lsn \<longleftrightarrow> after_lsn < MaxLsnOnDisk fo after_lsn"

text \<open>The tail scans report the end of the last record, the largest LSN and the records seen.\<close>

definition tail_of :: "nat \<Rightarrow> (nat \<times> wal_record \<times> nat) list \<Rightarrow> nat \<times> u64" where
  "tail_of start xs = (if xs = [] then start else snd (snd (last xs)), max_above 0 xs)"

definition ExtendTailFromOffset ::
  "bytes option \<Rightarrow> nat \<Rightarrow> nat \<Rightarrow> u64 \<Rightarrow> (nat \<times> u64) \<times> (nat \<times> wal_record \<times> nat) list" where
  "ExtendTailFromOffset fo start_offset data_end max_lsn =
    (case fo of
      None \<Rightarrow> ((data_end, max_lsn), [])
    | Some fb \<Rightarrow>
       (let xs = (if DetectFormatV2OnDisk fb then wal_walk fb (max start_offset 8) else v1_walk fb start_offset)
        in (tail_of start_offset xs, xs)))"

definition TailExtentOnDisk :: "bytes option \<Rightarrow> nat \<times> u64" where
  "TailExtentOnDisk fo =
    (case fo of
      None \<Rightarrow> (0, 0)
    | Some fb \<Rightarrow>
       (if DetectFormatV2OnDisk fb
        then tail_of (WalDataOffsetOnDisk fb True) (wal_walk fb (WalDataOffsetOnDisk fb True))
        else tail_of 0 (v1_walk fb 0)))"


section \<open>The key index\<close>

type_synonym wal_key_index = "(bytes \<times> (nat \<times> u64)) list"

definition wki_Update :: "nat \<Rightarrow> bytes \<Rightarrow> u64 \<Rightarrow> wal_key_index \<Rightarrow> wal_key_index" where
  "wki_Update offset key lsn ix = AList.update key (offset, lsn) ix"

definition wki_Lookup :: "wal_key_index \<Rightarrow> bytes \<Rightarrow> u64 \<Rightarrow> nat option" where
  "wki_Lookup ix key after_lsn = (case map_of ix key of None \<Rightarrow> None
     | Some (offset, lsn) \<Rightarrow> if lsn \<le> after_lsn then None else Some offset)"

definition wki_LatestLsn :: "wal_key_index \<Rightarrow> bytes \<Rightarrow> u64 \<Rightarrow> u64 option" where
  "wki_LatestLsn ix key after_lsn = (case map_of ix key of None \<Rightarrow> None
     | Some (offset, lsn) \<Rightarrow> if lsn \<le> after_lsn then None else Some lsn)"

definition is_data_op :: "u8 \<Rightarrow> bool" where
  "is_data_op op \<longleftrightarrow> op = kPut \<or> op = kDelete"

section \<open>The writer\<close>

record wal_writer =
  ww_file :: bytes
  ww_max_lsn :: u64
  ww_v2 :: bool
  ww_index :: wal_key_index
  ww_pending :: "(nat \<times> bytes \<times> u64) list"
  ww_offset :: nat
  ww_tail_end :: nat

definition wal_magic_bytes :: bytes where "wal_magic_bytes = put_u64 kWalMagicV2"

definition EnsureWalMagicLocked :: "wal_writer \<Rightarrow> wal_writer" where
  "EnsureWalMagicLocked w =
    (if ww_v2 w then w
     else w\<lparr>ww_file := write_at 0 wal_magic_bytes (ww_file w), ww_v2 := True, ww_offset := 8\<rparr>)"

definition AppendRecordV2 :: "fault \<Rightarrow> wal_writer \<Rightarrow> wal_header \<Rightarrow> bytes \<Rightarrow> bytes \<Rightarrow> wal_writer \<times> status" where
  "AppendRecordV2 ft w hdr_in key val =
    (let offset = ww_offset w;
         hdr = hdr_in\<lparr>wh_record_crc := Crc32 (wal_body2 hdr_in)\<rparr>;
         rec = enc_wal2 hdr @ key @ val in
     case ft of
       Torn n \<Rightarrow> (w\<lparr>ww_file := write_at offset (take n rec) (ww_file w)\<rparr>, Status_IoError ''wal append failed'')
     | OpenFails \<Rightarrow> (w, Status_IoError ''wal append failed'')
     | NoFault \<Rightarrow>
        (let end_offset = offset + (kWalHeader2 + length key + length val) in
         (w\<lparr>ww_file := write_at offset rec (ww_file w), ww_offset := end_offset, ww_tail_end := end_offset,
            ww_pending := (if is_data_op (wh_op hdr) then ww_pending w @ [(offset, key, wh_lsn hdr)]
                           else ww_pending w)\<rparr>, Status_Ok)))"

text \<open>
  The loops of \<open>RebuildKeyIndex\<close>: the index, the largest LSN and the end of the data. A
  padding header or a bad checksum sends the V2 loop to the next sector, a record cut off by
  the end of the file ends it.
\<close>

type_synonym rebuilt = "wal_key_index \<times> u64 \<times> nat"

function rebuild_v2 :: "bytes \<Rightarrow> nat \<Rightarrow> rebuilt \<Rightarrow> rebuilt" where
  "rebuild_v2 fb offset acc =
    (if length fb < offset + kWalHeader2 then acc
     else
      (let h = read_wal2 (drop offset fb);
           kl = unat (wh_key_len h); vl = unat (wh_value_len h);
           record_end = offset + kWalHeader2 + kl + vl;
           next_sector = AlignUpWalSector offset;
           (ix, mx, data_end) = acc in
       if WalHeaderV2IsPadding h then
         (if length fb \<le> next_sector then acc else rebuild_v2 fb next_sector acc)
       else if length fb < record_end then acc
       else if \<not> VerifyWalRecordV2Crc h then
         (if length fb \<le> next_sector then acc else rebuild_v2 fb next_sector acc)
       else rebuild_v2 fb record_end
         (if is_data_op (wh_op h)
          then wki_Update offset (slice (offset + kWalHeader2) kl fb) (wh_lsn h) ix else ix,
          max mx (wh_lsn h), record_end)))"
  by pat_completeness auto
termination
proof (relation "measure (\<lambda>(fb, offset, _). length fb - offset)", goal_cases)
  case (2 fb offset acc)
  then show ?case using AlignUp_greater [of offset] by (simp add: kWalHeader2_def)
next
  case (3 fb offset acc)
  then show ?case using AlignUp_greater [of offset] by (simp add: kWalHeader2_def)
qed (auto simp: kWalHeader2_def)

declare rebuild_v2.simps [simp del]

definition rebuild_v1 :: "bytes \<Rightarrow> rebuilt \<Rightarrow> rebuilt" where
  "rebuild_v1 fb acc = foldl (\<lambda>(ix, mx, data_end) (offset, r, record_end).
     (wki_Update offset (wr_key r) (wh_lsn (wr_hdr r)) ix, max mx (wh_lsn (wr_hdr r)), record_end))
     acc (v1_walk fb 0)"

definition RebuildKeyIndex :: "wal_writer \<Rightarrow> wal_writer" where
  "RebuildKeyIndex w =
    (let fb = ww_file w;
         v2 = (8 < length fb \<and> get_u64 fb = kWalMagicV2);
         read_offset = (if v2 then DataOffsetOnDisk fb else 0);
         w0 = w\<lparr>ww_max_lsn := 0, ww_v2 := v2\<rparr> in
     if 0 < length fb then
       (let (ix, mx, data_end) = (if v2 then rebuild_v2 fb read_offset (ww_index w, 0, read_offset)
                                  else rebuild_v1 fb (ww_index w, 0, read_offset))
        in w0\<lparr>ww_index := ix, ww_max_lsn := mx,
             ww_offset := (if 0 < data_end then data_end else length fb),
             ww_tail_end := (if 0 < data_end then data_end else ww_tail_end w), ww_pending := []\<rparr>)
     else
       (EnsureWalMagicLocked (w0\<lparr>ww_offset := 0, ww_tail_end := 0, ww_index := []\<rparr>))\<lparr>ww_pending := []\<rparr>)"

definition WalWriter_open :: "bytes option \<Rightarrow> wal_writer" where
  "WalWriter_open fo = RebuildKeyIndex \<lparr>ww_file = (case fo of None \<Rightarrow> [] | Some b \<Rightarrow> b),
     ww_max_lsn = 0, ww_v2 = False, ww_index = [], ww_pending = [], ww_offset = 0, ww_tail_end = 0\<rparr>"

definition SyncExternalTailLocked :: "wal_writer \<Rightarrow> wal_writer" where
  "SyncExternalTailLocked w =
    (if length (ww_file w) \<le> ww_tail_end w then w
     else
      (let ((data_end, disk_max), xs) = ExtendTailFromOffset (Some (ww_file w)) (ww_tail_end w)
              (ww_tail_end w) (ww_max_lsn w);
           ix = foldl (\<lambda>ix (offset, r, _). if is_data_op (wh_op (wr_hdr r))
                   then wki_Update offset (wr_key r) (wh_lsn (wr_hdr r)) ix else ix) (ww_index w) xs;
           w1 = w\<lparr>ww_index := ix,
                 ww_max_lsn := (if ww_max_lsn w < disk_max then disk_max else ww_max_lsn w)\<rparr> in
       if data_end \<le> ww_tail_end w then w1
       else w1\<lparr>ww_tail_end := data_end,
              ww_offset := (if ww_offset w < data_end then data_end else ww_offset w)\<rparr>))"

definition EnsureMinLsn :: "wal_writer \<Rightarrow> u64 \<Rightarrow> wal_writer" where
  "EnsureMinLsn w min_lsn = (if ww_max_lsn w < min_lsn then w\<lparr>ww_max_lsn := min_lsn\<rparr> else w)"

text \<open>One record of \<open>Append\<close> and of \<open>AppendMany\<close>: the LSN is taken before the size check.\<close>

definition append_one ::
  "fault \<Rightarrow> wal_writer \<Rightarrow> u8 \<Rightarrow> bytes \<Rightarrow> bytes \<Rightarrow> u32 \<Rightarrow> wal_writer \<times> u64 res" where
  "append_one ft w op key val txn_id =
    (let w1 = w\<lparr>ww_max_lsn := ww_max_lsn w + 1\<rparr>;
         hdr = \<lparr>wh_lsn = ww_max_lsn w1, wh_op = op, wh_key_len = word_of_nat (length key),
                wh_value_len = word_of_nat (length val), wh_txn_id = txn_id, wh_record_crc = 0\<rparr> in
     if unat (wh_key_len hdr) \<noteq> length key \<or> unat (wh_value_len hdr) \<noteq> length val
     then (w1, Inl (Status_InvalidArgument ''wal record too large''))
     else
      (let (w2, st) = AppendRecordV2 ft w1 hdr key val
       in (w2, if status_ok st then Inr (wh_lsn hdr) else Inl st)))"

definition wal_Append ::
  "fault \<Rightarrow> wal_writer \<Rightarrow> u8 \<Rightarrow> bytes \<Rightarrow> bytes \<Rightarrow> u32 \<Rightarrow> wal_writer \<times> u64 res" where
  "wal_Append ft w op key val txn_id =
     append_one ft (SyncExternalTailLocked (EnsureWalMagicLocked w)) op key val txn_id"

definition AppendTxnControl :: "fault \<Rightarrow> wal_writer \<Rightarrow> u8 \<Rightarrow> u32 \<Rightarrow> u64 \<Rightarrow> wal_writer \<times> u64 res" where
  "AppendTxnControl ft w op txn_id meta_lsn = wal_Append ft w op [] (put_u64 meta_lsn) txn_id"

record batch_item =
  bi_op :: u8
  bi_key :: "bytes option"
  bi_value :: "bytes option"
  bi_txn_id :: u32

definition append_item :: "fault \<Rightarrow> wal_writer \<Rightarrow> batch_item \<Rightarrow> wal_writer \<times> u64 res" where
  "append_item ft w item =
    (case (bi_key item, bi_value item) of
      (Some k, Some v) \<Rightarrow> append_one ft w (bi_op item) k v (bi_txn_id item)
    | _ \<Rightarrow> (w, Inl (Status_InvalidArgument ''batch item missing key/value'')))"

fun append_items :: "wal_writer \<Rightarrow> (fault \<times> batch_item) list \<Rightarrow> wal_writer \<times> u64 res list" where
  "append_items w [] = (w, [])"
| "append_items w ((ft, x) # xs) =
    (let (w1, r) = append_item ft w x; (w2, rs) = append_items w1 xs in (w2, r # rs))"

definition AppendMany :: "wal_writer \<Rightarrow> (fault \<times> batch_item) list \<Rightarrow> wal_writer \<times> u64 res list" where
  "AppendMany w items =
    (if items = [] then (w, [])
     else append_items (SyncExternalTailLocked (EnsureWalMagicLocked w)) items)"

definition wal_Fsync :: "wal_writer \<Rightarrow> wal_writer" where
  "wal_Fsync w = w\<lparr>ww_index := foldl (\<lambda>ix (offset, key, lsn). wki_Update offset key lsn ix)
     (ww_index w) (ww_pending w), ww_pending := []\<rparr>"

definition LatestLsnForKey :: "wal_writer \<Rightarrow> bytes \<Rightarrow> u64 \<Rightarrow> u64 option" where
  "LatestLsnForKey w key after_lsn = wki_LatestLsn (ww_index w) key after_lsn"

text \<open>\<open>ReplayRecordAt\<close> reads a V1 header whatever the format; short strings are zero-padded.\<close>

definition zero_padded :: "nat \<Rightarrow> bytes \<Rightarrow> bytes" where
  "zero_padded n bs = take n bs @ replicate (n - length bs) 0"

definition ReplayRecordAt :: "bytes \<Rightarrow> nat \<Rightarrow> (u8 \<times> bytes \<times> bytes \<times> u64) res" where
  "ReplayRecordAt fb offset =
    (if length fb < offset + kWalHeader1 then Inl (Status_IoError ''wal record read failed'')
     else
      (let h = read_wal1 (drop offset fb); kl = unat (wh_key_len h); vl = unat (wh_value_len h) in
       Inr (wh_op h, zero_padded kl (drop (offset + kWalHeader1) fb),
            zero_padded vl (drop (offset + kWalHeader1 + kl) fb), wh_lsn h)))"

definition ReplayKey :: "wal_writer \<Rightarrow> u64 \<Rightarrow> bytes \<Rightarrow> u64 res" where
  "ReplayKey w after_lsn key =
    (let at = (\<lambda>offset. case ReplayRecordAt (ww_file w) offset of Inl st \<Rightarrow> Inl st | Inr (_, _, _, lsn) \<Rightarrow> Inr lsn) in
     case find (\<lambda>(_, k, lsn). k = key \<and> after_lsn < lsn) (rev (ww_pending w)) of
       Some (offset, _, _) \<Rightarrow> at offset
     | None \<Rightarrow>
        (case wki_Lookup (ww_index w) key after_lsn of
           None \<Rightarrow> Inl (Status_NotFound ''key not in wal index'')
         | Some offset \<Rightarrow> at offset))"

text \<open>
  \<open>TruncateTo\<close>: \<open>keep_from\<close> is the offset of the first record above \<open>wal_lsn\<close>, the end of the
  file when there is none; the file becomes what follows it, without a magic.
\<close>

function keep_from :: "bool \<Rightarrow> bytes \<Rightarrow> u64 \<Rightarrow> nat \<Rightarrow> nat" where
  "keep_from v2 fb wal_lsn offset =
    (let hl = (if v2 then kWalHeader2 else kWalHeader1) in
     if length fb < offset + hl then length fb
     else
      (let h = (if v2 then read_wal2 (drop offset fb) else read_wal1 (drop offset fb));
           record_end = offset + hl + unat (wh_key_len h) + unat (wh_value_len h) in
       if length fb < record_end then length fb
       else if wal_lsn < wh_lsn h then offset
       else keep_from v2 fb wal_lsn record_end))"
  by pat_completeness auto
termination
  by (relation "measure (\<lambda>(_, fb, _, offset). length fb - offset)")
     (auto simp: kWalHeader1_def kWalHeader2_def split: if_splits)

declare keep_from.simps [simp del]

definition truncate_suffix :: "wal_writer \<Rightarrow> u64 \<Rightarrow> bytes" where
  "truncate_suffix w wal_lsn =
    (let fb = ww_file w;
         read_offset = (if ww_v2 w \<and> 8 \<le> length fb \<and> get_u64 fb = kWalMagicV2 then 8 else 0);
         kf = (if 0 < length fb then keep_from (ww_v2 w) fb wal_lsn read_offset else 0) in
     if ww_v2 w \<and> kf = length fb then wal_magic_bytes
     else if kf < length fb then drop kf fb else [])"

definition TruncateTo :: "wal_writer \<Rightarrow> u64 \<Rightarrow> wal_writer" where
  "TruncateTo w wal_lsn =
    (let suffix = truncate_suffix w wal_lsn;
         w1 = RebuildKeyIndex (w\<lparr>ww_file := suffix, ww_offset := length suffix, ww_pending := []\<rparr>) in
     if ww_max_lsn w1 < wal_lsn then w1\<lparr>ww_max_lsn := wal_lsn\<rparr> else w1)"


section \<open>Records are self-delimiting\<close>

definition wal_ok :: "wal_record \<Rightarrow> bool" where
  "wal_ok r \<longleftrightarrow> unat (wh_key_len (wr_hdr r)) = length (wr_key r)
     \<and> unat (wh_value_len (wr_hdr r)) = length (wr_value r)
     \<and> WalHeaderV2LooksValid (wr_hdr r) \<and> VerifyWalRecordV2Crc (wr_hdr r)
     \<and> 0 < wh_lsn (wr_hdr r) \<and> wh_lsn (wr_hdr r) < kWalMagicV2"

lemma length_enc_wal2 [simp, layout_simps]: "length (enc_wal2 h) = 21"
  by (simp add: enc_wal2_def wal_body2_def wal_body1_def)

lemma read_enc_wal2 [codec_simps]: "read_wal2 (enc_wal2 h @ rest) = h"
  by (simp add: read_wal2_def enc_wal2_def wal_body2_def wal_body1_def nth_append)

lemma length_enc_wal_record [simp, layout_simps]:
  "length (enc_wal_record r) = 21 + length (wr_key r) + length (wr_value r)"
  by (simp add: enc_wal_record_def)

lemma wal_lsn_first: "get_u64 (enc_wal_record r @ rest) = wh_lsn (wr_hdr r)"
  by (simp add: enc_wal_record_def enc_wal2_def wal_body2_def wal_body1_def)

lemma ReadWalRecordV2At_image:
  assumes "wal_ok r"
  shows "ReadWalRecordV2At (pre @ enc_wal_record r @ post) (length pre) v
    = Some (r, length pre + length (enc_wal_record r))"
proof -
  let ?fb = "pre @ enc_wal_record r @ post"
  have h: "read_wal2 (drop (length pre) ?fb) = wr_hdr r"
    by (simp add: enc_wal_record_def read_enc_wal2)
  have "\<not> WalHeaderV2IsPadding (wr_hdr r)" using assms by (auto simp: WalHeaderV2IsPadding_def wal_ok_def)
  with assms h show ?thesis
    by (simp add: ReadWalRecordV2At_def wal_ok_def kWalHeader2_def slice_def Let_def)
       (simp add: enc_wal_record_def)
qed

lemma ReadWalRecordV2At_torn:
  assumes "wal_ok r" "n < length (enc_wal_record r)"
  shows "ReadWalRecordV2At (pre @ take n (enc_wal_record r)) (length pre) v = None"
proof (cases "n < 21")
  case True
  then show ?thesis by (simp add: ReadWalRecordV2At_def kWalHeader2_def min_less_iff_disj)
next
  case False
  then have t: "take n (enc_wal_record r) = enc_wal2 (wr_hdr r) @ take (n - 21) (wr_key r @ wr_value r)"
    by (simp add: enc_wal_record_def)
  show ?thesis
    using assms False unfolding t
    by (auto simp: ReadWalRecordV2At_def kWalHeader2_def read_enc_wal2 wal_ok_def Let_def)
qed

lemma wal_no_magic: "wal_ok r \<Longrightarrow> \<not> WalMagicAt (pre @ enc_wal_record r @ post) (length pre)"
  by (auto simp: WalMagicAt_def wal_lsn_first wal_ok_def)

lemma wal_no_magic_torn: "wal_ok r \<Longrightarrow> \<not> WalMagicAt (pre @ take n (enc_wal_record r)) (length pre)"
proof
  assume r: "wal_ok r" and m: "WalMagicAt (pre @ take n (enc_wal_record r)) (length pre)"
  then have "8 \<le> n" by (auto simp: WalMagicAt_def)
  then have "get_u64 (take n (enc_wal_record r)) = get_u64 (enc_wal_record r @ [])"
    by (simp add: get_u64_def min_def)
  then show False using m r wal_lsn_first [of r "[]"] by (auto simp: WalMagicAt_def wal_ok_def)
qed

definition dec_wal :: "bytes \<Rightarrow> (wal_record \<times> bytes) option" where
  "dec_wal bs = map_option (\<lambda>(r, n). (r, drop n bs)) (ReadWalRecordV2At bs 0 True)"

interpretation wlog: record_codec enc_wal_record dec_wal wal_ok
proof unfold_locales
  fix r rest n
  assume r: "wal_ok r"
  show "dec_wal (enc_wal_record r @ rest) = Some (r, rest)"
    using ReadWalRecordV2At_image [OF r, of "[]"] by (simp add: dec_wal_def)
  show "enc_wal_record r \<noteq> []"
    by (simp add: length_greater_0_conv [symmetric] del: length_greater_0_conv)
  show "dec_wal (take n (enc_wal_record r)) = None" if "n < length (enc_wal_record r)"
    using ReadWalRecordV2At_torn [OF r that, of "[]"] by (simp add: dec_wal_def)
qed

text \<open>The records of a well-formed log with their offsets.\<close>

fun positions :: "nat \<Rightarrow> wal_record list \<Rightarrow> (nat \<times> wal_record \<times> nat) list" where
  "positions off [] = []"
| "positions off (r # rs) = (off, r, off + length (enc_wal_record r)) # positions (off + length (enc_wal_record r)) rs"

lemma positions_records [simp]: "map (fst \<circ> snd) (positions off rs) = rs"
  by (induction rs arbitrary: off) auto

lemma positions_Nil_iff [simp]: "positions off rs = [] \<longleftrightarrow> rs = []"
  by (cases rs) auto

lemma map_lsn_positions: "map lsn_of (positions off rs) = map (wh_lsn \<circ> wr_hdr) rs"
  by (induction rs arbitrary: off) (auto simp: lsn_of_def)

lemma TryRead_image:
  assumes "wal_ok r"
  shows "TryReadWalRecordV2Sparse (pre @ enc_wal_record r @ post) (length pre)
    = Some (r, length pre + length (enc_wal_record r))"
  using wal_no_magic [OF assms] ReadWalRecordV2At_image [OF assms] by (simp add: TryReadWalRecordV2Sparse_def)

lemma TryRead_torn:
  assumes "wal_ok r" "n < length (enc_wal_record r)"
  shows "TryReadWalRecordV2Sparse (pre @ take n (enc_wal_record r)) (length pre) = None"
  using wal_no_magic_torn [OF assms(1)] ReadWalRecordV2At_torn [OF assms] by (simp add: TryReadWalRecordV2Sparse_def)

lemma wal_walk_image:
  assumes "\<forall>r \<in> set rs. wal_ok r"
  shows "wal_walk (pre @ wlog.log_image rs @ tail) (length pre)
    = positions (length pre) rs @ wal_walk (pre @ wlog.log_image rs @ tail) (length pre + length (wlog.log_image rs))"
  using assms
proof (induction rs arbitrary: pre)
  case (Cons r rs)
  have "wal_walk (pre @ wlog.log_image (r # rs) @ tail) (length pre)
      = (length pre, r, length pre + length (enc_wal_record r))
        # wal_walk (pre @ wlog.log_image (r # rs) @ tail) (length pre + length (enc_wal_record r))"
    using TryRead_image [of r pre "wlog.log_image rs @ tail"] Cons.prems
    by (subst wal_walk.simps) simp
  with Cons.IH [of "pre @ enc_wal_record r"] Cons.prems show ?case by (simp add: add.assoc)
qed simp

text \<open>A torn record that does not reach the next sector ends the walk.\<close>

lemma wal_walk_torn:
  assumes "wal_ok r" "n < length (enc_wal_record r)" "length pre + n \<le> AlignUpWalSector (length pre)"
  shows "wal_walk (pre @ take n (enc_wal_record r)) (length pre) = []"
proof (cases "n = 0")
  case True
  then show ?thesis by (subst wal_walk.simps) simp
next
  case False
  have "wal_walk (pre @ take n (enc_wal_record r)) (AlignUpWalSector (length pre)) = []"
    using assms(2,3) by (subst wal_walk.simps) simp
  with False assms(2) show ?thesis
    by (subst wal_walk.simps) (simp add: TryRead_torn [OF assms(1,2)])
qed

definition wal_file :: "wal_record list \<Rightarrow> bytes \<Rightarrow> bytes" where
  "wal_file rs tail = wal_magic_bytes @ wlog.log_image rs @ tail"

lemma length_wal_magic [simp]: "length wal_magic_bytes = 8"
  by (simp add: wal_magic_bytes_def)

lemma wal_file_magic [simp]: "get_u64 (wal_file rs tail) = kWalMagicV2"
  by (simp add: wal_file_def wal_magic_bytes_def)

lemma wal_file_v2 [simp]: "DetectFormatV2OnDisk (wal_file rs tail)"
  using wal_file_magic [of rs tail] by (simp add: DetectFormatV2OnDisk_def wal_file_def)

lemma WalDataOffset_file:
  "(\<forall>r \<in> set rs. wal_ok r) \<Longrightarrow> rs \<noteq> [] \<Longrightarrow> WalDataOffsetOnDisk (wal_file rs tail) True = 8"
  using ReadWalRecordV2At_image [of "hd rs" wal_magic_bytes "wlog.log_image (tl rs) @ tail" True]
  by (cases rs) (simp_all add: WalDataOffsetOnDisk_def wal_file_def HasValidWalRecordV2At_def)

lemma wal_walk_file:
  assumes "\<forall>r \<in> set rs. wal_ok r" "rs \<noteq> []" "wal_ok r" "n < length (enc_wal_record r)"
    and "8 + length (wlog.log_image rs) + n \<le> AlignUpWalSector (8 + length (wlog.log_image rs))"
  shows "wal_walk (wal_file rs (take n (enc_wal_record r))) (WalDataOffsetOnDisk (wal_file rs (take n (enc_wal_record r))) True)
    = positions 8 rs"
proof -
  have "wal_walk (wal_file rs (take n (enc_wal_record r))) 8 = positions 8 rs
      @ wal_walk (wal_file rs (take n (enc_wal_record r))) (8 + length (wlog.log_image rs))"
    using wal_walk_image [OF assms(1), of wal_magic_bytes "take n (enc_wal_record r)"]
    by (simp add: wal_file_def)
  moreover have "wal_walk (wal_file rs (take n (enc_wal_record r))) (8 + length (wlog.log_image rs)) = []"
    using wal_walk_torn [OF assms(3,4), of "wal_magic_bytes @ wlog.log_image rs"] assms(5)
    by (simp add: wal_file_def)
  ultimately show ?thesis using WalDataOffset_file [OF assms(1,2)] by simp
qed

text \<open>
  Crash recovery reads back the log: when the file holds complete records and then a
  record torn off by a crash within its sector, the scan returns exactly the complete records
  above the given LSN, in order, and the end and largest LSN of the tail are those of the
  complete records.
\<close>

theorem wal_scan_recovers:
  assumes "\<forall>r \<in> set rs. wal_ok r" "rs \<noteq> []" "wal_ok torn" "n < length (enc_wal_record torn)"
    and "8 + length (wlog.log_image rs) + n \<le> AlignUpWalSector (8 + length (wlog.log_image rs))"
  shows "ScanWalV2Sparse (wal_file rs (take n (enc_wal_record torn))) after_lsn
      = filter (\<lambda>r. after_lsn < wh_lsn (wr_hdr r)) rs
    \<and> TailExtentOnDisk (Some (wal_file rs (take n (enc_wal_record torn))))
      = (8 + length (wlog.log_image rs), max_above 0 (positions 8 rs))"
proof -
  have "snd (snd (last (positions off rs))) = off + length (wlog.log_image rs)" for off
    using assms(2) by (induction rs arbitrary: off rule: list_nonempty_induct) (auto simp: add.assoc)
  moreover have "map (fst \<circ> snd) (filter (\<lambda>x. after_lsn < lsn_of x) (positions off rs))
      = filter (\<lambda>r. after_lsn < wh_lsn (wr_hdr r)) rs" for off
    by (induction rs arbitrary: off) (auto simp: lsn_of_def)
  ultimately show ?thesis
    using assms(2) wal_walk_file [OF assms] by (simp add: ScanWalV2Sparse_def TailExtentOnDisk_def tail_of_def)
qed

definition mk_wal :: "u64 \<Rightarrow> u8 \<Rightarrow> bytes \<Rightarrow> bytes \<Rightarrow> u32 \<Rightarrow> wal_record" where
  "mk_wal lsn op key val txn =
    (let h = \<lparr>wh_lsn = lsn, wh_op = op, wh_key_len = word_of_nat (length key),
              wh_value_len = word_of_nat (length val), wh_txn_id = txn, wh_record_crc = 0\<rparr>
     in \<lparr>wr_hdr = h\<lparr>wh_record_crc := Crc32 (wal_body2 h)\<rparr>, wr_key = key, wr_value = val\<rparr>)"

lemma mk_wal_simps [simp]:
  "wr_key (mk_wal l oper k v t) = k" "wr_value (mk_wal l oper k v t) = v"
  "wh_lsn (wr_hdr (mk_wal l oper k v t)) = l" "wh_op (wr_hdr (mk_wal l oper k v t)) = oper"
  "wh_txn_id (wr_hdr (mk_wal l oper k v t)) = t"
  by (simp_all add: mk_wal_def Let_def)

lemma wal_body2_crc [simp]: "wal_body2 (h\<lparr>wh_record_crc := c\<rparr>) = wal_body2 h"
  by (simp add: wal_body2_def wal_body1_def)

lemma mk_wal_ok:
  assumes "length key < 65536" "length val < 65536" "op \<in> {kPut, kDelete, kTxnBegin, kTxnCommit, kTxnAbort}"
    and "0 < lsn" "lsn < kWalMagicV2"
  shows "wal_ok (mk_wal lsn op key val txn)"
  using assms by (auto simp: wal_ok_def mk_wal_def Let_def WalHeaderV2LooksValid_def VerifyWalRecordV2Crc_def
      unat_of_nat wal_body2_def wal_body1_def)

theorem wal_scan_recovers_witness:
  "ScanWalV2Sparse (wal_file [mk_wal 1 kPut [7] [8] 0, mk_wal 2 kPut [7] [9] 0]
     (take 5 (enc_wal_record (mk_wal 3 kPut [7] [1] 0)))) 1 = [mk_wal 2 kPut [7] [9] 0]"
proof -
  have ok: "wal_ok (mk_wal l kPut [7] [v] 0)" if "l \<in> {1, 2, 3}" for l v
    using that by (intro mk_wal_ok) (auto simp: kWalMagicV2_def)
  show ?thesis
    using wal_scan_recovers [of "[mk_wal 1 kPut [7] [8] 0, mk_wal 2 kPut [7] [9] 0]" "mk_wal 3 kPut [7] [1] 0" 5 1] ok
    by (simp add: AlignUpWalSector_def kWalSectorSize_def)
qed

end
