(* ===== verification/WalAppend.thy ===== *)
theory WalAppend
  imports WalLog
begin

text \<open>
  What the operations of \<open>WalWriter\<close> promise: an append adds one record and nothing else,
  reopening the file rebuilds the writer, \<open>ReplayKey\<close> finds the last write of a key, and
  what \<open>TruncateTo\<close> leaves of the log.
\<close>

section \<open>The index of a log\<close>

abbreviation rec_lsn :: "wal_record \<Rightarrow> u64" where
  "rec_lsn r \<equiv> wh_lsn (wr_hdr r)"

abbreviation rec_data :: "wal_record \<Rightarrow> bool" where
  "rec_data r \<equiv> is_data_op (wh_op (wr_hdr r))"

definition index_step :: "wal_key_index \<Rightarrow> nat \<times> wal_record \<times> nat \<Rightarrow> wal_key_index" where
  "index_step ix x = (case x of (offset, r, _) \<Rightarrow>
     if rec_data r then wki_Update offset (wr_key r) (rec_lsn r) ix else ix)"

definition pending_of :: "(nat \<times> wal_record \<times> nat) list \<Rightarrow> (nat \<times> bytes \<times> u64) list" where
  "pending_of xs = map (\<lambda>(offset, r, _). (offset, wr_key r, rec_lsn r)) (filter (\<lambda>(_, r, _). rec_data r) xs)"

definition writes_key :: "bytes \<Rightarrow> wal_record \<Rightarrow> bool" where
  "writes_key key r \<longleftrightarrow> rec_data r \<and> wr_key r = key"

text \<open>The last write of a key in a log.\<close>

definition last_write :: "bytes \<Rightarrow> wal_record list \<Rightarrow> wal_record option" where
  "last_write key rs = find (writes_key key) (rev rs)"

lemma find_append: "find P (xs @ ys) = (case find P xs of Some x \<Rightarrow> Some x | None \<Rightarrow> find P ys)"
  by (induction xs) auto

lemma find_map: "find P (map f xs) = map_option f (find (P \<circ> f) xs)"
  by (induction xs) auto

lemma last_write_append:
  "last_write key (rs @ rs') = (case last_write key rs' of Some r \<Rightarrow> Some r | None \<Rightarrow> last_write key rs)"
  unfolding last_write_def by (simp add: find_append)

lemma positions_append:
  "positions off (rs @ rs') = positions off rs @ positions (off + length (wlog.log_image rs)) rs'"
  by (induction rs arbitrary: off) (auto simp: add.assoc)

lemma map_of_index:
  "map_of (foldl index_step ix xs) key =
    (case find (\<lambda>x. writes_key key (fst (snd x))) (rev xs) of
       Some x \<Rightarrow> Some (fst x, rec_lsn (fst (snd x))) | None \<Rightarrow> map_of ix key)"
proof (induction xs rule: rev_induct)
  case (snoc x xs)
  obtain offset r e where x: "x = (offset, r, e)" by (cases x) auto
  show ?case
    using snoc unfolding x
    by (simp add: index_step_def writes_key_def wki_Update_def update_conv')
qed simp

lemma find_positions:
  "map_option (\<lambda>x. fst (snd x)) (find (\<lambda>x. writes_key key (fst (snd x))) (rev (positions off rs)))
   = last_write key rs"
proof -
  have "last_write key rs = find (writes_key key) (map (fst \<circ> snd) (rev (positions off rs)))"
    by (simp add: last_write_def rev_map [symmetric])
  then show ?thesis by (simp add: find_map comp_def)
qed

lemma positions_member:
  assumes "(offset, r, e) \<in> set (positions (length pre) rs)"
  shows "\<exists>a b. pre @ wlog.log_image rs @ post = a @ enc_wal_record r @ b \<and> length a = offset \<and> r \<in> set rs"
  using assms
proof (induction rs arbitrary: pre)
  case (Cons x rs)
  show ?case
  proof (cases "(offset, r, e) = (length pre, x, length pre + length (enc_wal_record x))")
    case True
    then show ?thesis by auto
  next
    case False
    with Cons.prems have "(offset, r, e) \<in> set (positions (length (pre @ enc_wal_record x)) rs)"
      by auto
    from Cons.IH [OF this] show ?thesis by auto
  qed
qed simp

section \<open>The invariant of the writer\<close>

definition log_ok :: "wal_writer \<Rightarrow> wal_record list \<Rightarrow> bool" where
  "log_ok w rs \<longleftrightarrow> ww_file w = wal_file rs [] \<and> ww_v2 w \<and> ww_offset w = length (ww_file w)
     \<and> (rs = [] \<or> length (ww_file w) \<le> ww_tail_end w)
     \<and> (\<forall>r \<in> set rs. wal_ok r \<and> rec_lsn r \<le> ww_max_lsn w)"

definition index_ok :: "wal_writer \<Rightarrow> wal_record list \<Rightarrow> bool" where
  "index_ok w rs \<longleftrightarrow> (\<exists>rs1 rs2. rs = rs1 @ rs2
     \<and> map_of (ww_index w) = map_of (foldl index_step [] (positions 8 rs1))
     \<and> ww_pending w = pending_of (positions (8 + length (wlog.log_image rs1)) rs2))"

definition writer_ok :: "wal_writer \<Rightarrow> wal_record list \<Rightarrow> bool" where
  "writer_ok w rs \<longleftrightarrow> log_ok w rs \<and> index_ok w rs"

lemmas writer_ok_defs = writer_ok_def log_ok_def index_ok_def

lemma length_wal_file [simp]: "length (wal_file rs tail) = 8 + length (wlog.log_image rs) + length tail"
  by (simp add: wal_file_def)

lemma wal_file_nonempty [simp]: "wal_file rs tail \<noteq> []" "wal_magic_bytes \<noteq> []"
  by (simp_all add: length_greater_0_conv [symmetric] del: length_greater_0_conv)

lemma wal_walk_end: "length fb \<le> offset \<Longrightarrow> wal_walk fb offset = []"
  by (subst wal_walk.simps) simp

lemma Sync_nothing_new:
  assumes "wal_walk (ww_file w) (max (ww_tail_end w) 8) = []" "DetectFormatV2OnDisk (ww_file w)"
  shows "SyncExternalTailLocked w = w"
  using assms by (simp add: SyncExternalTailLocked_def ExtendTailFromOffset_def tail_of_def max_above_def)

lemma Sync_inside: "length (ww_file w) \<le> ww_tail_end w \<Longrightarrow> SyncExternalTailLocked w = w"
  by (simp add: SyncExternalTailLocked_def)

lemma Sync_writer_ok:
  assumes "writer_ok w rs"
  shows "SyncExternalTailLocked (EnsureWalMagicLocked w) = w"
proof -
  have "SyncExternalTailLocked w = w"
  proof (cases "rs = []")
    case True
    with assms show ?thesis by (intro Sync_nothing_new wal_walk_end) (auto simp: writer_ok_defs)
  next
    case False
    with assms show ?thesis by (intro Sync_inside) (auto simp: writer_ok_defs)
  qed
  with assms show ?thesis by (simp add: EnsureWalMagicLocked_def writer_ok_defs)
qed

lemma mk_wal_enc:
  "enc_wal_record (mk_wal l oper key val t) =
    enc_wal2 (h\<lparr>wh_record_crc := Crc32 (wal_body2 h)\<rparr>) @ key @ val"
  if "h = \<lparr>wh_lsn = l, wh_op = oper, wh_key_len = word_of_nat (length key),
        wh_value_len = word_of_nat (length val), wh_txn_id = t, wh_record_crc = 0\<rparr>"
  by (simp add: that mk_wal_def enc_wal_record_def Let_def)

text \<open>A record written over a tail that is no longer than itself.\<close>

lemma write_at_log:
  "length tail \<le> length rec \<Longrightarrow>
   write_at (8 + length (wlog.log_image rs)) rec (wal_file rs tail) = wal_magic_bytes @ wlog.log_image rs @ rec"
  by (simp add: write_at_def wal_file_def)

definition record_fits :: "bytes \<Rightarrow> bytes \<Rightarrow> bool" where
  "record_fits key val \<longleftrightarrow> length key < 65536 \<and> length val < 65536"

lemma fits_lengths:
  "record_fits key val \<Longrightarrow> unat (word_of_nat (length key) :: u16) = length key"
  "record_fits key val \<Longrightarrow> unat (word_of_nat (length val) :: u16) = length val"
  by (simp_all add: record_fits_def unat_of_nat)

lemma append_one_log:
  assumes "ww_file w = wal_file rs tail" "ww_offset w = 8 + length (wlog.log_image rs)"
    and "record_fits key val" "length tail \<le> 21 + length key + length val"
    and r: "r = mk_wal (ww_max_lsn w + 1) op key val t"
  shows "append_one NoFault w op key val t =
    (w\<lparr>ww_max_lsn := ww_max_lsn w + 1, ww_file := wal_file (rs @ [r]) [],
       ww_offset := length (wal_file (rs @ [r]) []), ww_tail_end := length (wal_file (rs @ [r]) []),
       ww_pending := ww_pending w @ pending_of (positions (8 + length (wlog.log_image rs)) [r])\<rparr>,
     Inr (ww_max_lsn w + 1))"
proof -
  have "write_at (8 + length (wlog.log_image rs)) (enc_wal_record r) (wal_file rs tail)
      = wal_file (rs @ [r]) []"
    using write_at_log [of tail "enc_wal_record r" rs] assms(4) by (simp add: wal_file_def r)
  then show ?thesis
    using assms(1,2) fits_lengths [OF assms(3)]
    by (simp add: append_one_def AppendRecordV2_def Let_def kWalHeader2_def pending_of_def r status_defs mk_wal_enc)
qed

definition valid_op :: "u8 \<Rightarrow> bool" where
  "valid_op op \<longleftrightarrow> op \<in> {kPut, kDelete, kTxnBegin, kTxnCommit, kTxnAbort}"

lemma lsn_step: "(m :: u64) < kWalMagicV2 - 1 \<Longrightarrow> m < m + 1 \<and> 0 < m + 1 \<and> m + 1 < kWalMagicV2"
  unfolding kWalMagicV2_def by (unat_arith, auto)

lemma mk_wal_valid:
  "record_fits key val \<Longrightarrow> valid_op op \<Longrightarrow> m < kWalMagicV2 - 1 \<Longrightarrow> wal_ok (mk_wal (m + 1) op key val t)"
  using lsn_step [of m] by (intro mk_wal_ok) (auto simp: record_fits_def valid_op_def)

lemma append_one_ok:
  assumes fl: "ww_file w = wal_file rs tail" "ww_v2 w" "ww_offset w = 8 + length (wlog.log_image rs)"
    and recs: "\<forall>r \<in> set rs. wal_ok r \<and> rec_lsn r \<le> ww_max_lsn w" and index: "index_ok w rs"
    and "record_fits key val" "valid_op op" "ww_max_lsn w < kWalMagicV2 - 1"
    and tail: "length tail \<le> 21 + length key + length val"
  shows "snd (append_one NoFault w op key val t) = Inr (ww_max_lsn w + 1)
    \<and> writer_ok (fst (append_one NoFault w op key val t)) (rs @ [mk_wal (ww_max_lsn w + 1) op key val t])"
proof -
  let ?r = "mk_wal (ww_max_lsn w + 1) op key val t"
  from index obtain rs1 rs2 where ix: "rs = rs1 @ rs2"
      "map_of (ww_index w) = map_of (foldl index_step [] (positions 8 rs1))"
      "ww_pending w = pending_of (positions (8 + length (wlog.log_image rs1)) rs2)"
    unfolding index_ok_def by blast
  have "ww_pending w @ pending_of (positions (8 + length (wlog.log_image rs)) [?r])
      = pending_of (positions (8 + length (wlog.log_image rs1)) (rs2 @ [?r]))"
    using ix by (simp add: positions_append pending_of_def add.assoc del: positions.simps)
  then have "\<exists>rs1' rs2'. rs @ [?r] = rs1' @ rs2'
      \<and> map_of (ww_index w) = map_of (foldl index_step [] (positions 8 rs1'))
      \<and> ww_pending w @ pending_of (positions (8 + length (wlog.log_image rs)) [?r])
        = pending_of (positions (8 + length (wlog.log_image rs1')) rs2')"
    using ix(1,2) by (intro exI [of _ rs1] exI [of _ "rs2 @ [?r]"]) simp
  moreover have "\<forall>r \<in> set (rs @ [?r]). wal_ok r \<and> rec_lsn r \<le> ww_max_lsn w + 1"
    using recs mk_wal_valid [OF assms(6-8)] lsn_step [OF assms(8)]
    by (auto intro: order_trans less_imp_le)
  moreover have "append_one NoFault w op key val t =
    (w\<lparr>ww_max_lsn := ww_max_lsn w + 1, ww_file := wal_file (rs @ [?r]) [],
       ww_offset := length (wal_file (rs @ [?r]) []), ww_tail_end := length (wal_file (rs @ [?r]) []),
       ww_pending := ww_pending w @ pending_of (positions (8 + length (wlog.log_image rs)) [?r])\<rparr>,
     Inr (ww_max_lsn w + 1))"
    using fl assms(6) tail by (intro append_one_log) auto
  ultimately show ?thesis
    using fl(2) unfolding writer_ok_defs by (simp del: length_wal_file)
qed

lemma writer_ok_append_one:
  assumes "writer_ok w rs" "record_fits key val" "valid_op op" "ww_max_lsn w < kWalMagicV2 - 1"
  shows "snd (append_one NoFault w op key val t) = Inr (ww_max_lsn w + 1)
    \<and> writer_ok (fst (append_one NoFault w op key val t)) (rs @ [mk_wal (ww_max_lsn w + 1) op key val t])"
  using assms by (intro append_one_ok [where tail = "[]"]) (auto simp: writer_ok_def log_ok_def)

lemma append_one_too_large:
  assumes "writer_ok w rs" "\<not> record_fits key val" "ww_max_lsn w < kWalMagicV2 - 1"
  shows "append_one ft w op key val t =
      (w\<lparr>ww_max_lsn := ww_max_lsn w + 1\<rparr>, Inl (Status_InvalidArgument ''wal record too large''))"
    and "writer_ok (w\<lparr>ww_max_lsn := ww_max_lsn w + 1\<rparr>) rs"
proof -
  have "n mod 65536 \<noteq> n" if "\<not> n < 65536" for n :: nat
    using mod_less_divisor [of 65536 n] that by linarith
  then show "append_one ft w op key val t =
      (w\<lparr>ww_max_lsn := ww_max_lsn w + 1\<rparr>, Inl (Status_InvalidArgument ''wal record too large''))"
    using assms(2) by (auto simp: append_one_def record_fits_def unat_of_nat Let_def)
  show "writer_ok (w\<lparr>ww_max_lsn := ww_max_lsn w + 1\<rparr>) rs"
    using assms(1) lsn_step [OF assms(3)] unfolding writer_ok_defs by (auto intro: order_trans less_imp_le)
qed

text \<open>
  C23. \<open>Append\<close> refines adding one record to a list: on a consistent writer a record that fits
  gets the next LSN, the file becomes the image of the log with that record at its end, and the
  writer stays consistent; a key or value above 65535 bytes is refused and leaves the log as it
  is, but its LSN is used up.
\<close>

theorem wal_append_refines:
  assumes "writer_ok w rs" "valid_op op" "ww_max_lsn w < kWalMagicV2 - 1"
  shows "if record_fits key val
    then snd (wal_Append NoFault w op key val t) = Inr (ww_max_lsn w + 1)
      \<and> writer_ok (fst (wal_Append NoFault w op key val t)) (rs @ [mk_wal (ww_max_lsn w + 1) op key val t])
    else snd (wal_Append NoFault w op key val t) = Inl (Status_InvalidArgument ''wal record too large'')
      \<and> writer_ok (fst (wal_Append NoFault w op key val t)) rs
      \<and> ww_max_lsn (fst (wal_Append NoFault w op key val t)) = ww_max_lsn w + 1"
  using assms writer_ok_append_one [OF assms(1) _ assms(2,3)] append_one_too_large [OF assms(1) _ assms(3)]
  by (simp add: wal_Append_def Sync_writer_ok)

lemma writer_ok_create: "writer_ok (WalWriter_open None) []"
  by (simp add: WalWriter_open_def RebuildKeyIndex_def EnsureWalMagicLocked_def writer_ok_defs wal_file_def
      write_at_def pending_of_def Let_def)

theorem wal_append_refines_witness:
  "writer_ok (fst (wal_Append NoFault (WalWriter_open None) kPut [1] [2] 0)) [mk_wal 1 kPut [1] [2] 0]"
proof -
  have "ww_max_lsn (WalWriter_open None) = 0"
    by (simp add: WalWriter_open_def RebuildKeyIndex_def EnsureWalMagicLocked_def Let_def)
  then show ?thesis
    using wal_append_refines [OF writer_ok_create, of kPut "[1]" "[2]" 0]
    by (simp add: valid_op_def record_fits_def kWalMagicV2_def)
qed

section \<open>Reading back a record\<close>

lemma ReplayRecordAt_image:
  assumes "wal_ok r"
  shows "ReplayRecordAt (pre @ enc_wal_record r @ post) (length pre) =
    (let rest = put_u32 (wh_record_crc (wr_hdr r)) @ wr_key r @ wr_value r @ post;
         kl = length (wr_key r); vl = length (wr_value r) in
     Inr (wh_op (wr_hdr r), take kl rest, take vl (drop kl rest), rec_lsn r))"
proof -
  let ?fb = "pre @ enc_wal_record r @ post" and ?h = "wr_hdr r"
  have enc: "enc_wal_record r @ post = put_u64 (wh_lsn ?h) @ [wh_op ?h] @ put_u16 (wh_key_len ?h)
      @ put_u16 (wh_value_len ?h) @ put_u32 (wh_txn_id ?h) @ put_u32 (wh_record_crc ?h)
      @ wr_key r @ wr_value r @ post"
    by (simp add: enc_wal_record_def enc_wal2_def wal_body2_def wal_body1_def)
  have h: "read_wal1 (enc_wal_record r @ post) = ?h\<lparr>wh_txn_id := 0, wh_record_crc := wh_txn_id ?h\<rparr>"
    unfolding enc by (simp add: read_wal1_def nth_append)
  let ?rest = "put_u32 (wh_record_crc ?h) @ wr_key r @ wr_value r @ post"
  have d: "drop (length pre + 17) ?fb = ?rest" by (simp add: enc)
  have d2: "drop (length pre + 17 + k) ?fb = drop k ?rest" for k
    unfolding d [symmetric] by (simp only: drop_drop add.commute)
  have h': "read_wal1 (drop (length pre) ?fb) = ?h\<lparr>wh_txn_id := 0, wh_record_crc := wh_txn_id ?h\<rparr>"
    by (simp add: h)
  have short: "\<not> length ?fb < length pre + 17" by simp
  have "unat (wh_key_len ?h) = length (wr_key r)" "unat (wh_value_len ?h) = length (wr_value r)"
    using assms by (auto simp: wal_ok_def)
  then show ?thesis
    unfolding ReplayRecordAt_def kWalHeader1_def Let_def zero_padded_def h' d d2
    using short by simp
qed

lemma mk_wal_4: "wal_ok (mk_wal 1 kPut [1, 2, 3, 4] [] 0)"
  by (rule mk_wal_ok) (simp_all add: kWalMagicV2_def)

definition sorted_lsns :: "wal_record list \<Rightarrow> bool" where
  "sorted_lsns rs \<longleftrightarrow> sorted_wrt (\<lambda>a b. rec_lsn a < rec_lsn b) rs"

lemma last_write_Some: "last_write key rs = Some r \<Longrightarrow> r \<in> set rs \<and> writes_key key r"
  unfolding last_write_def by (auto simp: find_Some_iff) (metis length_rev nth_mem set_rev)

text \<open>The search of \<open>ReplayKey\<close> over the writes that wait for the next \<open>Fsync\<close>.\<close>

lemma find_pending:
  assumes "sorted_lsns rs"
  shows "find (\<lambda>(_, k, lsn). k = key \<and> after_lsn < lsn) (rev (pending_of (positions off rs)))
    = (case last_write key rs of
         Some r \<Rightarrow> if after_lsn < rec_lsn r
           then map_option (\<lambda>x. (fst x, key, rec_lsn (fst (snd x))))
                  (find (\<lambda>x. writes_key key (fst (snd x))) (rev (positions off rs)))
           else None
       | None \<Rightarrow> None)"
  using assms
proof (induction rs rule: rev_induct)
  case Nil
  then show ?case by (simp add: pending_of_def last_write_def)
next
  case (snoc r rs)
  have s: "sorted_lsns rs" "\<forall>x \<in> set rs. rec_lsn x < rec_lsn r"
    using snoc.prems by (auto simp: sorted_lsns_def sorted_wrt_append)
  show ?case
  proof (cases "writes_key key r")
    case True
    have "rec_lsn x \<le> after_lsn" if "last_write key rs = Some x" "\<not> after_lsn < rec_lsn r" for x
      using last_write_Some [OF that(1)] s(2) that(2) by force
    with True snoc.IH [OF s(1)] show ?thesis
      by (auto simp: positions_append pending_of_def last_write_append last_write_def [of key "[r]"]
          writes_key_def split: option.splits)
  next
    case False
    with snoc.IH [OF s(1)] show ?thesis
      by (auto simp: positions_append pending_of_def last_write_append last_write_def [of key "[r]"]
          writes_key_def split: option.splits)
  qed
qed

lemma pending_empty_index: "pending_of xs = [] \<Longrightarrow> foldl index_step ix xs = ix"
  by (induction xs) (auto simp: pending_of_def index_step_def split: if_splits)

lemma replay_at_position:
  assumes "\<forall>r \<in> set rs. wal_ok r" "(offset, r, e) \<in> set (positions 8 rs)"
  shows "(case ReplayRecordAt (wal_file rs tail) offset of Inl st \<Rightarrow> Inl st | Inr (_, _, _, lsn) \<Rightarrow> Inr lsn)
    = Inr (rec_lsn r)"
proof -
  obtain a b where "wal_magic_bytes @ wlog.log_image rs @ tail = a @ enc_wal_record r @ b"
    "length a = offset" "r \<in> set rs"
    using positions_member [of offset r e wal_magic_bytes rs tail] assms(2) by auto
  then show ?thesis
    using ReplayRecordAt_image [of r a b] assms(1) by (simp add: wal_file_def Let_def)
qed

lemma find_position_member:
  "find (\<lambda>x. writes_key key (fst (snd x))) (rev (positions off rs)) = Some x
   \<Longrightarrow> x \<in> set (positions off rs) \<and> last_write key rs = Some (fst (snd x))"
proof -
  assume f: "find (\<lambda>x. writes_key key (fst (snd x))) (rev (positions off rs)) = Some x"
  then have "x \<in> set (positions off rs)" by (auto simp: find_Some_iff) (metis length_rev nth_mem set_rev)
  then show ?thesis using f find_positions [of key off rs] by simp
qed

text \<open>
  On a consistent writer with increasing LSNs \<open>ReplayKey\<close> returns the LSN of the last put or
  delete of the key, whether or not it has been synced, when that LSN is above the given one, and
  \<open>NotFound\<close> in every other case.
\<close>

theorem replay_key_last_write:
  assumes "writer_ok w rs" "sorted_lsns rs"
  shows "ReplayKey w after_lsn key =
    (case last_write key rs of
       Some r \<Rightarrow> if after_lsn < rec_lsn r then Inr (rec_lsn r)
                 else Inl (Status_NotFound ''key not in wal index'')
     | None \<Rightarrow> Inl (Status_NotFound ''key not in wal index''))"
proof -
  from assms(1) obtain rs1 rs2 where ix: "rs = rs1 @ rs2"
      "map_of (ww_index w) = map_of (foldl index_step [] (positions 8 rs1))"
      "ww_pending w = pending_of (positions (8 + length (wlog.log_image rs1)) rs2)"
    unfolding writer_ok_defs by blast
  let ?off = "8 + length (wlog.log_image rs1)"
  let ?find = "\<lambda>off rs. find (\<lambda>x. writes_key key (fst (snd x))) (rev (positions off rs))"
  have pos: "positions 8 rs = positions 8 rs1 @ positions ?off rs2"
    by (simp add: ix(1) positions_append)
  have ok: "\<forall>r \<in> set rs. wal_ok r" and fb: "ww_file w = wal_file rs []"
    using assms(1) by (auto simp: writer_ok_defs)
  have at: "(case ReplayRecordAt (ww_file w) (fst x) of Inl st \<Rightarrow> Inl st | Inr (_, _, _, lsn) \<Rightarrow> Inr lsn)
      = Inr (rec_lsn (fst (snd x)))" if "x \<in> set (positions 8 rs)" for x
    using replay_at_position [OF ok, of "fst x" "fst (snd x)" "snd (snd x)"] that by (simp add: fb)
  have s: "sorted_lsns rs2" "\<And>a b. a \<in> set rs1 \<Longrightarrow> b \<in> set rs2 \<Longrightarrow> rec_lsn a < rec_lsn b"
    using assms(2) by (auto simp: ix(1) sorted_lsns_def sorted_wrt_append)
  have index: "(case wki_Lookup (ww_index w) key after_lsn of
        None \<Rightarrow> Inl (Status_NotFound ''key not in wal index'')
      | Some offset \<Rightarrow> case ReplayRecordAt (ww_file w) offset of Inl st \<Rightarrow> Inl st | Inr (_, _, _, lsn) \<Rightarrow> Inr lsn)
    = (case last_write key rs1 of
        Some r \<Rightarrow> if after_lsn < rec_lsn r then Inr (rec_lsn r) else Inl (Status_NotFound ''key not in wal index'')
      | None \<Rightarrow> Inl (Status_NotFound ''key not in wal index''))"
  proof (cases "?find 8 rs1")
    case None
    then show ?thesis
      using find_positions [of key 8 rs1] by (simp add: wki_Lookup_def ix(2) map_of_index)
  next
    case (Some x)
    then show ?thesis
      using find_position_member [OF Some] at [of x] pos
      by (auto simp: wki_Lookup_def ix(2) map_of_index)
  qed
  show ?thesis
  proof (cases "?find ?off rs2")
    case None
    then have "last_write key rs2 = None" using find_positions [of key ?off rs2] by simp
    then show ?thesis
      using index by (simp add: ReplayKey_def ix(3) find_pending [OF s(1)] last_write_append ix(1))
  next
    case (Some x)
    have lw: "last_write key rs2 = Some (fst (snd x))" and m: "x \<in> set (positions 8 rs)"
      using find_position_member [OF Some] pos by auto
    have "rec_lsn r \<le> after_lsn" if "last_write key rs1 = Some r" "\<not> after_lsn < rec_lsn (fst (snd x))" for r
      using s(2) [of r "fst (snd x)"] last_write_Some [OF that(1)] last_write_Some [OF lw] that(2) by force
    then show ?thesis
      using index lw Some at [OF m]
      by (auto simp: ReplayKey_def ix(3) find_pending [OF s(1)] last_write_append ix(1) leD split: option.splits)
  qed
qed

lemma wal_Fsync_index:
  "ww_index (wal_Fsync (w\<lparr>ww_pending := pending_of xs\<rparr>)) = foldl index_step (ww_index w) xs"
proof -
  have "foldl (\<lambda>ix (offset, key, lsn). wki_Update offset key lsn ix) ix (pending_of xs) = foldl index_step ix xs" for ix
    by (induction xs arbitrary: ix) (auto simp: pending_of_def index_step_def)
  then show ?thesis by (simp add: wal_Fsync_def)
qed

lemma writer_ok_Fsync:
  assumes "writer_ok w rs"
  shows "writer_ok (wal_Fsync w) rs"
proof -
  from assms obtain rs1 rs2 where ix: "rs = rs1 @ rs2"
      "map_of (ww_index w) = map_of (foldl index_step [] (positions 8 rs1))"
      "ww_pending w = pending_of (positions (8 + length (wlog.log_image rs1)) rs2)"
    unfolding writer_ok_defs by blast
  let ?xs = "positions (8 + length (wlog.log_image rs1)) rs2"
  have "ww_index (wal_Fsync w) = foldl index_step (ww_index w) ?xs"
    using wal_Fsync_index [where w = w and xs = ?xs] unfolding ix(3) [symmetric] by simp
  then have "map_of (ww_index (wal_Fsync w)) key = map_of (foldl index_step [] (positions 8 rs)) key" for key
    by (simp only: ix(1) positions_append map_of_index rev_append find_append ix(2)) (simp split: option.split)
  then have "map_of (ww_index (wal_Fsync w)) = map_of (foldl index_step [] (positions 8 rs))" by (rule ext)
  then have "\<exists>rs1 rs2. rs = rs1 @ rs2
      \<and> map_of (ww_index (wal_Fsync w)) = map_of (foldl index_step [] (positions 8 rs1))
      \<and> ww_pending (wal_Fsync w) = pending_of (positions (8 + length (wlog.log_image rs1)) rs2)"
    by (intro exI [of _ rs] exI [of _ "[]"]) (simp add: wal_Fsync_def pending_of_def)
  then have "index_ok (wal_Fsync w) rs" unfolding index_ok_def .
  moreover have "log_ok (wal_Fsync w) rs = log_ok w rs" by (simp add: log_ok_def wal_Fsync_def)
  ultimately show ?thesis using assms by (simp add: writer_ok_def)
qed

lemma writer_ok_append_first:
  "writer_ok (fst (wal_Append NoFault (WalWriter_open None) kPut [1] [2] 0)) [mk_wal 1 kPut [1] [2] 0]"
proof -
  have "ww_max_lsn (WalWriter_open None) = 0"
    by (simp add: WalWriter_open_def RebuildKeyIndex_def EnsureWalMagicLocked_def Let_def)
  then show ?thesis
    using writer_ok_append_one [OF writer_ok_create, of "[1]" "[2]" kPut 0]
    by (simp add: wal_Append_def Sync_writer_ok [OF writer_ok_create] record_fits_def valid_op_def kWalMagicV2_def)
qed

theorem replay_key_last_write_witness:
  "ReplayKey (fst (wal_Append NoFault (WalWriter_open None) kPut [1] [2] 0)) 0 [1] = Inr 1"
  using replay_key_last_write [OF writer_ok_append_first, of 0 "[1]"]
  by (simp add: sorted_lsns_def last_write_def writes_key_def is_data_op_def)

section \<open>Reopening the log\<close>

lemma rebuild_v2_image:
  assumes "\<forall>r \<in> set rs. wal_ok r" "wal_ok torn" "n < length (enc_wal_record torn)"
  shows "rebuild_v2 (pre @ wlog.log_image rs @ take n (enc_wal_record torn)) (length pre) (ix, mx, e)
    = (foldl index_step ix (positions (length pre) rs), foldl max mx (map rec_lsn rs),
       if rs = [] then e else length pre + length (wlog.log_image rs))"
  using assms
proof (induction rs arbitrary: pre ix mx e)
  case Nil
  show ?case
  proof (cases "n < 21")
    case True
    then show ?thesis by (subst rebuild_v2.simps) (simp add: kWalHeader2_def)
  next
    case False
    then have t: "take n (enc_wal_record torn) = enc_wal2 (wr_hdr torn) @ take (n - 21) (wr_key torn @ wr_value torn)"
      by (simp add: enc_wal_record_def)
    have "\<not> WalHeaderV2IsPadding (wr_hdr torn)" using assms by (auto simp: WalHeaderV2IsPadding_def wal_ok_def)
    then show ?thesis
      using assms False unfolding t
      by (subst rebuild_v2.simps) (auto simp: kWalHeader2_def read_enc_wal2 wal_ok_def Let_def)
  qed
next
  case (Cons r rs)
  let ?t = "take n (enc_wal_record torn)"
  let ?fb = "pre @ wlog.log_image (r # rs) @ ?t"
  have h: "read_wal2 (drop (length pre) ?fb) = wr_hdr r"
    by (simp add: enc_wal_record_def read_enc_wal2)
  have ok: "wal_ok r" using Cons.prems by simp
  then have p: "\<not> WalHeaderV2IsPadding (wr_hdr r)" by (auto simp: WalHeaderV2IsPadding_def wal_ok_def)
  have k: "slice (length pre + 21) (length (wr_key r)) ?fb = wr_key r"
    by (simp add: slice_def enc_wal_record_def)
  have "rebuild_v2 ?fb (length pre) (ix, mx, e) = rebuild_v2 ?fb (length pre + length (enc_wal_record r))
     (index_step ix (length pre, r, length pre + length (enc_wal_record r)), max mx (rec_lsn r),
      length pre + length (enc_wal_record r))"
    using ok p k h by (subst rebuild_v2.simps) (simp add: kWalHeader2_def wal_ok_def Let_def index_step_def add.assoc)
  also have "\<dots> = rebuild_v2 ((pre @ enc_wal_record r) @ wlog.log_image rs @ ?t) (length (pre @ enc_wal_record r))
     (index_step ix (length pre, r, length pre + length (enc_wal_record r)), max mx (rec_lsn r),
      length pre + length (enc_wal_record r))"
    by simp
  finally show ?case
    using Cons.IH [of "pre @ enc_wal_record r"] Cons.prems by (auto simp: add.assoc)
qed

lemma foldl_max_bound: "(\<forall>x \<in> set xs. x \<le> foldl max m xs) \<and> m \<le> foldl max (m :: u64) xs"
proof (induction xs arbitrary: m)
  case (Cons x xs)
  from Cons [of "max m x"] show ?case by (auto intro: order_trans)
qed simp

lemma WalWriter_open_log:
  assumes "\<forall>r \<in> set rs. wal_ok r" "rs \<noteq> []" "wal_ok torn" "n < length (enc_wal_record torn)"
  shows "WalWriter_open (Some (wal_file rs (take n (enc_wal_record torn)))) =
    \<lparr>ww_file = wal_file rs (take n (enc_wal_record torn)), ww_max_lsn = foldl max 0 (map rec_lsn rs),
     ww_v2 = True, ww_index = foldl index_step [] (positions 8 rs), ww_pending = [],
     ww_offset = 8 + length (wlog.log_image rs), ww_tail_end = 8 + length (wlog.log_image rs)\<rparr>"
proof -
  have "0 < length (wlog.log_image rs)" using assms(2) by (cases rs) auto
  moreover have "rebuild_v2 (wal_file rs (take n (enc_wal_record torn))) 8 ([], 0, 8)
    = (foldl index_step [] (positions 8 rs), foldl max 0 (map rec_lsn rs), 8 + length (wlog.log_image rs))"
    using rebuild_v2_image [OF assms(1,3,4), of wal_magic_bytes "[]" 0 8] assms(2) by (simp add: wal_file_def)
  moreover have "DataOffsetOnDisk (wal_file rs (take n (enc_wal_record torn))) = 8"
    using WalDataOffset_file [OF assms(1,2)] by (simp add: DataOffsetOnDisk_def)
  ultimately show ?thesis
    by (simp add: WalWriter_open_def RebuildKeyIndex_def Let_def)
qed

lemma index_ok_synced: "ww_index w = foldl index_step [] (positions 8 rs) \<Longrightarrow> ww_pending w = [] \<Longrightarrow> index_ok w rs"
  unfolding index_ok_def by (intro exI [of _ rs] exI [of _ "[]"]) (simp add: pending_of_def)

text \<open>
  C22. Crash recovery of the log: a writer opened on complete records followed by a record torn
  off within its sector forgets the torn record and nothing else. The next append gets the LSN
  above the largest recovered one, replaces the torn bytes (when it is at least as long), and
  leaves a consistent writer whose log is the complete records and the new one.
\<close>

theorem wal_crash_then_append:
  assumes "\<forall>r \<in> set rs. wal_ok r" "rs \<noteq> []" "wal_ok torn" "n < length (enc_wal_record torn)"
    and sector: "8 + length (wlog.log_image rs) + n \<le> AlignUpWalSector (8 + length (wlog.log_image rs))"
    and "n \<le> 21 + length key + length val" "record_fits key val" "valid_op op"
    and m: "foldl max 0 (map rec_lsn rs) < kWalMagicV2 - 1"
  defines "w \<equiv> WalWriter_open (Some (wal_file rs (take n (enc_wal_record torn))))"
  shows "snd (wal_Append NoFault w op key val t) = Inr (foldl max 0 (map rec_lsn rs) + 1)
    \<and> writer_ok (fst (wal_Append NoFault w op key val t))
        (rs @ [mk_wal (foldl max 0 (map rec_lsn rs) + 1) op key val t])"
proof -
  note w = WalWriter_open_log [OF assms(1-4)]
  have "wal_walk (wal_file rs (take n (enc_wal_record torn))) (8 + length (wlog.log_image rs)) = []"
    using wal_walk_torn [OF assms(3,4), of "wal_magic_bytes @ wlog.log_image rs"] sector
    by (simp add: wal_file_def)
  then have "SyncExternalTailLocked w = w"
    by (intro Sync_nothing_new) (simp_all add: w_def w)
  then have "wal_Append NoFault w op key val t = append_one NoFault w op key val t"
    by (simp add: wal_Append_def EnsureWalMagicLocked_def) (simp add: w_def w)
  moreover have "index_ok w rs" by (rule index_ok_synced) (simp_all add: w_def w)
  then have "snd (append_one NoFault w op key val t) = Inr (ww_max_lsn w + 1)
    \<and> writer_ok (fst (append_one NoFault w op key val t)) (rs @ [mk_wal (ww_max_lsn w + 1) op key val t])"
    using assms(1,6-9) foldl_max_bound [of "map rec_lsn rs" 0]
    by (intro append_one_ok) (auto simp: w_def w)
  ultimately show ?thesis by (simp add: w_def w)
qed

theorem wal_crash_then_append_witness:
  "snd (wal_Append NoFault (WalWriter_open (Some (wal_file [mk_wal 1 kPut [1, 2, 3, 4] [] 0]
     (take 9 (enc_wal_record (mk_wal 1 kPut [1, 2, 3, 4] [] 0)))))) kDelete [1] [] 0) = Inr 2"
  using wal_crash_then_append [of "[mk_wal 1 kPut [1, 2, 3, 4] [] 0]" "mk_wal 1 kPut [1, 2, 3, 4] [] 0" 9
      "[1]" "[]" kDelete 0] mk_wal_4
  by (simp add: AlignUpWalSector_def kWalSectorSize_def record_fits_def valid_op_def kWalMagicV2_def)

section \<open>Truncation\<close>

lemma keep_from_image:
  assumes "\<forall>r \<in> set rs1. wal_ok r \<and> rec_lsn r \<le> lsn"
    and "rs2 = [] \<or> (wal_ok (hd rs2) \<and> lsn < rec_lsn (hd rs2))"
  shows "keep_from True (pre @ wlog.log_image (rs1 @ rs2)) lsn (length pre)
    = length pre + length (wlog.log_image rs1)"
  using assms(1)
proof (induction rs1 arbitrary: pre)
  case Nil
  show ?case
  proof (cases rs2)
    case Nil
    then show ?thesis by (subst keep_from.simps) (simp add: kWalHeader2_def)
  next
    case (Cons r rs)
    with assms(2) show ?thesis
      by (subst keep_from.simps)
         (simp add: kWalHeader2_def Let_def enc_wal_record_def read_enc_wal2 wal_ok_def)
  qed
next
  case (Cons r rs1)
  let ?fb = "pre @ wlog.log_image ((r # rs1) @ rs2)"
  have h: "read_wal2 (drop (length pre) ?fb) = wr_hdr r"
    by (simp add: enc_wal_record_def read_enc_wal2)
  have "keep_from True ?fb lsn (length pre)
      = keep_from True ?fb lsn (length (pre @ enc_wal_record r))"
    using Cons.prems h by (subst keep_from.simps) (simp add: kWalHeader2_def Let_def wal_ok_def leD add.assoc)
  then show ?case using Cons.IH [of "pre @ enc_wal_record r"] Cons.prems by (simp add: add.assoc)
qed

lemma truncate_suffix_log:
  assumes "log_ok w (rs1 @ rs2)" "\<forall>r \<in> set rs1. rec_lsn r \<le> lsn" "rs2 = [] \<or> lsn < rec_lsn (hd rs2)"
  shows "truncate_suffix w lsn = (if rs2 = [] then wal_magic_bytes else wlog.log_image rs2)"
proof -
  have "keep_from True (wal_file (rs1 @ rs2) []) lsn 8 = 8 + length (wlog.log_image rs1)"
    using keep_from_image [of rs1 lsn rs2 wal_magic_bytes] assms
    by (cases rs2) (auto simp: log_ok_def wal_file_def)
  moreover have "0 < length (wlog.log_image rs2)" if "rs2 \<noteq> []" using that by (cases rs2) auto
  ultimately show ?thesis
    using assms(1) by (auto simp: truncate_suffix_def log_ok_def Let_def) (simp_all add: wal_file_def)
qed

text \<open>
  After a checkpoint at an LSN that covers the whole log, \<open>TruncateTo\<close> leaves only the magic,
  and LSNs keep increasing: the next record gets the LSN after the checkpoint's and is the only
  record of the log.
\<close>

theorem truncate_all_then_append:
  assumes "log_ok w rs" "\<forall>r \<in> set rs. rec_lsn r \<le> lsn" "record_fits key val"
  shows "ww_file (TruncateTo w lsn) = wal_file [] [] \<and> ww_max_lsn (TruncateTo w lsn) = lsn
    \<and> snd (wal_Append NoFault (TruncateTo w lsn) op key val t) = Inr (lsn + 1)
    \<and> ww_file (fst (wal_Append NoFault (TruncateTo w lsn) op key val t))
      = wal_file [mk_wal (lsn + 1) op key val t] []"
proof -
  have s: "truncate_suffix w lsn = wal_magic_bytes"
    using truncate_suffix_log [of w rs "[]" lsn] assms(1,2) by simp
  have v1: "rebuild_v1 wal_magic_bytes acc = acc" for acc
    by (simp add: rebuild_v1_def v1_walk.simps kWalHeader1_def)
  let ?t = "TruncateTo w lsn"
  have tr: "?t = w\<lparr>ww_file := wal_magic_bytes, ww_max_lsn := lsn, ww_v2 := False, ww_offset := 8, ww_pending := []\<rparr>"
    using word_gt_0 [of lsn] by (auto simp: TruncateTo_def s RebuildKeyIndex_def v1 Let_def)
  define w1 where "w1 = EnsureWalMagicLocked ?t"
  have w1: "w1 = ?t\<lparr>ww_v2 := True\<rparr>"
    by (simp add: w1_def tr EnsureWalMagicLocked_def write_at_def)
  have magic: "wal_magic_bytes = wal_file [] []" by (simp add: wal_file_def)
  have "SyncExternalTailLocked w1 = w1"
  proof (cases "8 \<le> ww_tail_end w")
    case True
    then show ?thesis by (intro Sync_inside) (simp add: w1 tr)
  next
    case False
    then show ?thesis by (intro Sync_nothing_new) (simp_all add: w1 tr wal_walk_end magic)
  qed
  then have "wal_Append NoFault ?t op key val t = append_one NoFault w1 op key val t"
    by (simp add: wal_Append_def w1_def)
  moreover have "append_one NoFault w1 op key val t =
    (w1\<lparr>ww_max_lsn := ww_max_lsn w1 + 1, ww_file := wal_file ([] @ [mk_wal (lsn + 1) op key val t]) [],
       ww_offset := length (wal_file ([] @ [mk_wal (lsn + 1) op key val t]) []),
       ww_tail_end := length (wal_file ([] @ [mk_wal (lsn + 1) op key val t]) []),
       ww_pending := ww_pending w1 @ pending_of (positions (8 + length (wlog.log_image [])) [mk_wal (lsn + 1) op key val t])\<rparr>,
     Inr (ww_max_lsn w1 + 1))"
    using assms(3) by (intro append_one_log [where tail = "[]"]) (simp_all add: w1 tr magic)
  ultimately show ?thesis by (simp add: tr magic) (simp add: w1 tr)
qed

theorem truncate_all_then_append_witness:
  "snd (wal_Append NoFault (TruncateTo (fst (wal_Append NoFault (WalWriter_open None) kPut [1] [2] 0)) 1) kPut [1] [3] 0)
    = Inr 2"
proof -
  have "log_ok (fst (wal_Append NoFault (WalWriter_open None) kPut [1] [2] 0)) [mk_wal 1 kPut [1] [2] 0]"
    using writer_ok_append_first by (simp add: writer_ok_def)
  from truncate_all_then_append [OF this, of 1 "[1]" "[3]" kPut 0] show ?thesis
    by (simp add: record_fits_def)
qed

text \<open>
  When \<open>TruncateTo\<close> keeps a record, the file it leaves starts with that record instead of the
  magic, so the log is taken for an old-format one, and the next append writes the magic over the
  LSN of the first kept record.
\<close>

theorem truncate_drops_magic:
  assumes "log_ok w (rs1 @ r # rs2)" "\<forall>r \<in> set rs1. rec_lsn r \<le> lsn" "lsn < rec_lsn r"
  shows "ww_file (TruncateTo w lsn) = wlog.log_image (r # rs2)
    \<and> \<not> DetectFormatV2OnDisk (ww_file (TruncateTo w lsn)) \<and> \<not> ww_v2 (TruncateTo w lsn)
    \<and> ww_file (EnsureWalMagicLocked (TruncateTo w lsn)) = wal_magic_bytes @ drop 8 (wlog.log_image (r # rs2))
    \<and> ww_offset (EnsureWalMagicLocked (TruncateTo w lsn)) = 8"
proof -
  let ?f = "wlog.log_image (r # rs2)"
  have s: "truncate_suffix w lsn = ?f"
    using truncate_suffix_log [of w rs1 "r # rs2" lsn] assms by simp
  have "wal_ok r" using assms(1) by (simp add: log_ok_def)
  then have m: "get_u64 ?f \<noteq> kWalMagicV2" by (auto simp: wal_lsn_first wal_ok_def)
  have len: "21 \<le> length ?f" by simp
  then have "?f \<noteq> []" by (metis list.size(3) not_numeral_le_zero)
  then have f: "ww_file (TruncateTo w lsn) = ?f" "\<not> ww_v2 (TruncateTo w lsn)"
    using m by (simp_all add: TruncateTo_def s RebuildKeyIndex_def Let_def del: wlog.image_simps split: prod.split)
  then show ?thesis
    using m len by (simp add: DetectFormatV2OnDisk_def EnsureWalMagicLocked_def write_at_def del: wlog.image_simps)
qed

theorem truncate_drops_magic_witness:
  "\<not> DetectFormatV2OnDisk (ww_file (TruncateTo (fst (wal_Append NoFault (WalWriter_open None) kPut [1] [2] 0)) 0))"
proof -
  have "log_ok (fst (wal_Append NoFault (WalWriter_open None) kPut [1] [2] 0)) ([] @ mk_wal 1 kPut [1] [2] 0 # [])"
    using writer_ok_append_first by (simp add: writer_ok_def)
  from truncate_drops_magic [OF this, of 0, THEN conjunct2, THEN conjunct1] show ?thesis
    by (simp only: list.set ball_empty mk_wal_simps) simp
qed

end
