(* ===== verification/WalReplay.thy ===== *)
theory WalReplay
  imports WalAppend Memtable
begin

text \<open>
  The replay half of \<^verbatim>\<open>cpp/src/concept/wal/wal_segment.cc\<close>, \<open>ShardEngine::RestoreKeyFromWal\<close>
  of \<^verbatim>\<open>cpp/src/engine/shard_engine.cc\<close> and the transaction sidecar
  \<^verbatim>\<open>cpp/src/concept/wal/txidx.cc\<close>: what of a log reaches the memtable after a restart, and
  the committed state of a key.

  A file that cannot be opened is \<open>None\<close>; the null-pointer checks of the entry points are
  not modelled. The sets of transaction ids are lists.
\<close>

section \<open>Committed and aborted transactions\<close>

record wal_scan =
  ws_committed :: "u32 list"
  ws_aborted :: "u32 list"
  ws_data :: "wal_record list"

definition scan_step :: "wal_scan \<Rightarrow> wal_record \<Rightarrow> wal_scan" where
  "scan_step s r =
    (let op = wh_op (wr_hdr r); t = wh_txn_id (wr_hdr r) in
     if op = kTxnCommit then s\<lparr>ws_committed := ws_committed s @ [t]\<rparr>
     else if op = kTxnAbort then s\<lparr>ws_aborted := ws_aborted s @ [t]\<rparr>
     else if op = kTxnBegin then s
     else if op \<noteq> kPut \<and> op \<noteq> kDelete then s
     else s\<lparr>ws_data := ws_data s @ [r]\<rparr>)"

definition ScanWalV2Records :: "bytes \<Rightarrow> u64 \<Rightarrow> wal_scan" where
  "ScanWalV2Records fb after_lsn =
     foldl scan_step \<lparr>ws_committed = [], ws_aborted = [], ws_data = []\<rparr> (ScanWalV2Sparse fb after_lsn)"

definition LatestCommittedLsnForKey :: "bytes option \<Rightarrow> bytes \<Rightarrow> u64 \<Rightarrow> u64" where
  "LatestCommittedLsnForKey fo key after_lsn =
    (case fo of
      None \<Rightarrow> 0
    | Some fb \<Rightarrow>
       if \<not> DetectFormatV2OnDisk fb then
         foldl (\<lambda>best (_, r, _). if rec_lsn r \<le> after_lsn then best
                  else if wr_key r \<noteq> key then best
                  else if best \<le> rec_lsn r then rec_lsn r else best) 0 (v1_walk fb 0)
       else
         (let s = ScanWalV2Records fb after_lsn in
          foldl (\<lambda>best r. if wr_key r \<noteq> key then best
                   else if wh_txn_id (wr_hdr r) \<in> set (ws_aborted s) then best
                   else if wh_txn_id (wr_hdr r) \<noteq> 0 \<and> wh_txn_id (wr_hdr r) \<notin> set (ws_committed s) then best
                   else if best \<le> rec_lsn r then rec_lsn r else best) 0 (ws_data s)))"

definition replay_v1 :: "u64 \<Rightarrow> memtable \<Rightarrow> nat \<times> wal_record \<times> nat \<Rightarrow> memtable" where
  "replay_v1 after_lsn mt x = (case x of (_, r, _) \<Rightarrow>
     if rec_lsn r \<le> after_lsn then mt
     else if wh_op (wr_hdr r) = kDelete then mem_DeleteKey (wr_key r) (rec_lsn r) 0 False mt
     else mem_Put (wr_key r) (wr_value r) (rec_lsn r) 0 False mt)"

definition replay_v2 :: "wal_scan \<Rightarrow> memtable \<Rightarrow> wal_record \<Rightarrow> memtable" where
  "replay_v2 s mt r =
    (let t = wh_txn_id (wr_hdr r);
         durable = (t = 0 \<or> t \<in> set (ws_committed s)) in
     if t \<in> set (ws_aborted s) then mt
     else if wh_op (wr_hdr r) = kDelete then mem_DeleteKey (wr_key r) (rec_lsn r) t durable mt
     else mem_Put (wr_key r) (wr_value r) (rec_lsn r) t durable mt)"

definition ReplayPending :: "bytes option \<Rightarrow> memtable \<Rightarrow> u64 \<Rightarrow> memtable" where
  "ReplayPending fo mt after_lsn =
    (case fo of
      None \<Rightarrow> mt
    | Some fb \<Rightarrow>
       if \<not> DetectFormatV2OnDisk fb then foldl (replay_v1 after_lsn) mt (v1_walk fb 0)
       else (let s = ScanWalV2Records fb after_lsn in foldl (replay_v2 s) mt (ws_data s)))"

definition HasPending :: "wal_writer \<Rightarrow> bytes option \<Rightarrow> u64 \<Rightarrow> bool" where
  "HasPending w fo after_lsn \<longleftrightarrow> after_lsn < ww_max_lsn w \<or> HasPendingOnDisk fo after_lsn"

text \<open>The state \<open>RestoreKeyFromWal\<close> reads and writes: the writer, the memtable, two counters.\<close>

record restore_state =
  rs_wal :: "wal_writer option"
  rs_memtable :: memtable
  rs_wal_corrupt :: bool
  rs_wal_lsn :: u64
  rs_lazy_page_faults :: u64
  rs_stats_page_faults :: u64

definition RestoreKeyFromWal :: "restore_state \<Rightarrow> bytes \<Rightarrow> restore_state \<times> status" where
  "RestoreKeyFromWal s key =
    (case rs_wal s of
      None \<Rightarrow> (s, Status_NotFound ''wal unavailable'')
    | Some w \<Rightarrow>
       if rs_wal_corrupt s then (s, Status_NotFound ''wal unavailable'')
       else
        (case wki_Lookup (ww_index w) key (rs_wal_lsn s) of
          None \<Rightarrow> (s, Status_NotFound ''key not in wal'')
        | Some offset \<Rightarrow>
           (case ReplayRecordAt (ww_file w) offset of
             Inl st \<Rightarrow> (s, st)
           | Inr (last_op, _, last_value, last_lsn) \<Rightarrow>
              (let s1 = s\<lparr>rs_lazy_page_faults := rs_lazy_page_faults s + 1,
                          rs_stats_page_faults := rs_stats_page_faults s + 1\<rparr> in
               (s1\<lparr>rs_memtable := (if last_op = kDelete then mem_DeleteKey key last_lsn 0 True (rs_memtable s)
                                   else mem_Put key last_value last_lsn 0 True (rs_memtable s))\<rparr>,
                Status_Ok)))))"

section \<open>The replayed table\<close>

abbreviation rec_txn :: "wal_record \<Rightarrow> u32" where
  "rec_txn r \<equiv> wh_txn_id (wr_hdr r)"

definition txn_marks :: "u8 \<Rightarrow> wal_record list \<Rightarrow> u32 set" where
  "txn_marks op rs = {rec_txn r |r. r \<in> set rs \<and> wh_op (wr_hdr r) = op}"

lemma txn_marks_code [simp]:
  "txn_marks op [] = {}"
  "txn_marks op (rs @ [r]) = (if wh_op (wr_hdr r) = op then insert (rec_txn r) (txn_marks op rs) else txn_marks op rs)"
  by (auto simp: txn_marks_def)

lemma scan_fold:
  "set (ws_committed (foldl scan_step \<lparr>ws_committed = [], ws_aborted = [], ws_data = []\<rparr> rs)) = txn_marks kTxnCommit rs
   \<and> set (ws_aborted (foldl scan_step \<lparr>ws_committed = [], ws_aborted = [], ws_data = []\<rparr> rs)) = txn_marks kTxnAbort rs
   \<and> ws_data (foldl scan_step \<lparr>ws_committed = [], ws_aborted = [], ws_data = []\<rparr> rs) = filter rec_data rs"
  by (induction rs rule: rev_induct) (auto simp: scan_step_def Let_def is_data_op_def wal_ops)

definition log_tail :: "u64 \<Rightarrow> wal_record list \<Rightarrow> wal_record list" where
  "log_tail after_lsn rs = filter (\<lambda>r. after_lsn < rec_lsn r) rs"

text \<open>A file with complete records and a record torn off within its sector.\<close>

definition crashed_log :: "wal_record list \<Rightarrow> wal_record \<Rightarrow> nat \<Rightarrow> bool" where
  "crashed_log rs torn n \<longleftrightarrow> (\<forall>r \<in> set rs. wal_ok r) \<and> rs \<noteq> [] \<and> wal_ok torn \<and> n < length (enc_wal_record torn)
     \<and> 8 + length (wlog.log_image rs) + n \<le> AlignUpWalSector (8 + length (wlog.log_image rs))"

lemma scan_crashed:
  assumes "crashed_log rs torn n"
  shows "ScanWalV2Sparse (wal_file rs (take n (enc_wal_record torn))) after_lsn = log_tail after_lsn rs"
proof -
  have "map (fst \<circ> snd) (filter (\<lambda>x. after_lsn < lsn_of x) (positions off rs)) = log_tail after_lsn rs" for off
    by (induction rs arbitrary: off) (auto simp: lsn_of_def log_tail_def)
  then show ?thesis
    using wal_walk_file [of rs torn n] assms by (simp add: ScanWalV2Sparse_def crashed_log_def)
qed

definition mem_entry_of :: "u32 set \<Rightarrow> wal_record \<Rightarrow> mem_entry" where
  "mem_entry_of committed r =
    \<lparr>me_value = (if wh_op (wr_hdr r) = kDelete then [] else wr_value r), me_lsn = rec_lsn r,
     me_deleted = (wh_op (wr_hdr r) = kDelete), me_txn_id = rec_txn r,
     me_durable = (rec_txn r = 0 \<or> rec_txn r \<in> committed)\<rparr>"

lemma fold_replay_v2:
  "mem_Get (foldl (replay_v2 s) mt (filter rec_data rs)) key =
    (case last_write key (filter (\<lambda>r. rec_txn r \<notin> set (ws_aborted s)) rs) of
       Some r \<Rightarrow> Some (mem_entry_of (set (ws_committed s)) r) | None \<Rightarrow> mem_Get mt key)"
proof (induction rs rule: rev_induct)
  case Nil
  then show ?case by (simp add: last_write_def)
next
  case (snoc r rs)
  have lw: "last_write key [x] = (if writes_key key x then Some x else None)" for x
    by (simp add: last_write_def)
  show ?case
    using snoc
    by (auto simp: last_write_def [of _ "[]"] replay_v2_def Let_def last_write_append lw writes_key_def mem_Get_def map_of_Put
        map_of_DeleteKey mem_entry_of_def)
qed

lemma crashed_table:
  assumes "crashed_log rs torn n"
  shows "mem_Get (ReplayPending (Some (wal_file rs (take n (enc_wal_record torn)))) mt after_lsn) key =
    (let recs = log_tail after_lsn rs in
     case last_write key (filter (\<lambda>r. rec_txn r \<notin> txn_marks kTxnAbort recs) recs) of
       Some r \<Rightarrow> Some (mem_entry_of (txn_marks kTxnCommit recs) r)
     | None \<Rightarrow> mem_Get mt key)"
  using scan_fold [of "log_tail after_lsn rs"]
  by (simp add: ReplayPending_def ScanWalV2Records_def scan_crashed [OF assms] fold_replay_v2 Let_def split: option.split)

text \<open>
  C24. Replay after a crash rebuilds the memtable from the log: for every key the table holds the
  last put or delete above the checkpoint LSN whose transaction is not aborted, durable exactly
  when it belongs to no transaction or to one whose commit is in the log; a key without such a
  write keeps its entry, and a torn record at the end of the log has no effect.
\<close>

theorem replay_pending_table:
  assumes "crashed_log rs torn n"
  shows "mem_Get (ReplayPending (Some (wal_file rs (take n (enc_wal_record torn)))) mt after_lsn) key =
    (let recs = log_tail after_lsn rs in
     case last_write key (filter (\<lambda>r. rec_txn r \<notin> txn_marks kTxnAbort recs) recs) of
       Some r \<Rightarrow> Some (mem_entry_of (txn_marks kTxnCommit recs) r)
     | None \<Rightarrow> mem_Get mt key)"
  by (rule crashed_table [OF assms])

lemma crashed_one: "crashed_log [mk_wal 1 kPut [1, 2, 3, 4] [] 0] (mk_wal 1 kPut [1, 2, 3, 4] [] 0) 9"
  using mk_wal_4 by (simp add: crashed_log_def AlignUpWalSector_def kWalSectorSize_def)

theorem replay_pending_table_witness:
  "mem_Get (ReplayPending (Some (wal_file [mk_wal 1 kPut [1, 2, 3, 4] [] 0]
      (take 9 (enc_wal_record (mk_wal 1 kPut [1, 2, 3, 4] [] 0))))) [] 0) [1, 2, 3, 4]
   = Some \<lparr>me_value = [], me_lsn = 1, me_deleted = False, me_txn_id = 0, me_durable = True\<rparr>"
  using replay_pending_table [OF crashed_one, of "[]" 0 "[1, 2, 3, 4]"]
  by (simp add: log_tail_def txn_marks_def last_write_def writes_key_def is_data_op_def mem_entry_of_def wal_ops
      Let_def)

text \<open>The best committed LSN, as a maximum.\<close>

definition committed_write :: "bytes \<Rightarrow> wal_record list \<Rightarrow> wal_record \<Rightarrow> bool" where
  "committed_write key recs r \<longleftrightarrow> writes_key key r \<and> rec_txn r \<notin> txn_marks kTxnAbort recs
     \<and> (rec_txn r = 0 \<or> rec_txn r \<in> txn_marks kTxnCommit recs)"

lemma foldl_best:
  "foldl (\<lambda>best r. if \<not> P r then best else if best \<le> f r then f r else best) (0 :: u64) rs
    = foldl max 0 (map f (filter P rs))"
proof -
  have "foldl (\<lambda>best r. if \<not> P r then best else if best \<le> f r then f r else best) b rs
      = foldl max b (map f (filter P rs))" for b
    by (induction rs arbitrary: b) (auto simp: max_def)
  then show ?thesis .
qed

lemma foldl_max_Max: "foldl max (0 :: u64) xs = Max (insert 0 (set xs))"
proof (induction xs rule: rev_induct)
  case (snoc x xs)
  have "insert 0 (set (xs @ [x])) = insert x (insert 0 (set xs))" by auto
  with snoc show ?case by (simp add: max.commute)
qed simp

lemma crashed_max:
  assumes "crashed_log rs torn n"
  shows "LatestCommittedLsnForKey (Some (wal_file rs (take n (enc_wal_record torn)))) key after_lsn
    = Max (insert 0 (rec_lsn ` {r \<in> set (log_tail after_lsn rs). committed_write key (log_tail after_lsn rs) r}))"
proof -
  let ?tl = "log_tail after_lsn rs"
  let ?P = "\<lambda>r. wr_key r = key \<and> rec_txn r \<notin> txn_marks kTxnAbort ?tl
     \<and> (rec_txn r = 0 \<or> rec_txn r \<in> txn_marks kTxnCommit ?tl)"
  have step: "(\<lambda>best r. if wr_key r \<noteq> key then best
        else if rec_txn r \<in> txn_marks kTxnAbort ?tl then best
        else if rec_txn r \<noteq> 0 \<and> rec_txn r \<notin> txn_marks kTxnCommit ?tl then best
        else if best \<le> rec_lsn r then rec_lsn r else best)
      = (\<lambda>best r. if \<not> ?P r then best else if best \<le> rec_lsn r then rec_lsn r else best)"
    by (intro ext) auto
  have "LatestCommittedLsnForKey (Some (wal_file rs (take n (enc_wal_record torn)))) key after_lsn
      = foldl (\<lambda>best r. if wr_key r \<noteq> key then best
        else if rec_txn r \<in> txn_marks kTxnAbort ?tl then best
        else if rec_txn r \<noteq> 0 \<and> rec_txn r \<notin> txn_marks kTxnCommit ?tl then best
        else if best \<le> rec_lsn r then rec_lsn r else best) 0 (filter rec_data ?tl)"
    using scan_fold [of ?tl]
    by (simp add: LatestCommittedLsnForKey_def ScanWalV2Records_def scan_crashed [OF assms] Let_def cong: if_cong)
  also have "\<dots> = foldl max 0 (map rec_lsn (filter ?P (filter rec_data ?tl)))"
    unfolding step by (rule foldl_best)
  also have "\<dots> = Max (insert 0 (set (map rec_lsn (filter ?P (filter rec_data ?tl)))))"
    by (rule foldl_max_Max)
  also have "set (map rec_lsn (filter ?P (filter rec_data ?tl)))
      = rec_lsn ` {r \<in> set ?tl. committed_write key ?tl r}"
    by (auto simp: committed_write_def writes_key_def)
  finally show ?thesis .
qed

text \<open>
  \<open>LatestCommittedLsnForKey\<close> returns the largest LSN of a committed write: over a crashed
  log it is the maximum of the LSNs above the checkpoint of the puts and deletes of the key whose
  transaction is zero or committed and not aborted, and 0 when there is none.
\<close>

theorem latest_committed_is_max:
  assumes "crashed_log rs torn n"
  shows "LatestCommittedLsnForKey (Some (wal_file rs (take n (enc_wal_record torn)))) key after_lsn
    = Max (insert 0 (rec_lsn ` {r \<in> set (log_tail after_lsn rs). committed_write key (log_tail after_lsn rs) r}))"
  by (rule crashed_max [OF assms])

theorem latest_committed_is_max_witness:
  "LatestCommittedLsnForKey (Some (wal_file [mk_wal 1 kPut [1, 2, 3, 4] [] 0]
      (take 9 (enc_wal_record (mk_wal 1 kPut [1, 2, 3, 4] [] 0))))) [1, 2, 3, 4] 0 = 1"
proof -
  let ?r = "mk_wal 1 kPut [1, 2, 3, 4] [] 0"
  have "{r \<in> set (log_tail 0 [?r]). committed_write [1, 2, 3, 4] (log_tail 0 [?r]) r} = {?r}"
    by (auto simp: log_tail_def committed_write_def writes_key_def txn_marks_def is_data_op_def wal_ops)
  then show ?thesis
    using latest_committed_is_max [OF crashed_one, of "[1, 2, 3, 4]" 0] by (simp add: max_def)
qed

section \<open>Behaviours worth knowing\<close>

text \<open>
  A write of a transaction that never committed hides the committed value written before it:
  after replay of such a log the memtable holds only the uncommitted entry of the key, although the
  log has a committed write of it.
\<close>

theorem uncommitted_hides_committed:
  assumes "wal_ok (mk_wal 1 kPut key v1 0)" "wal_ok (mk_wal 2 kPut key v2 t)" "t \<noteq> 0"
  defines "rs \<equiv> [mk_wal 1 kPut key v1 0, mk_wal 2 kPut key v2 t]"
  shows "LatestCommittedLsnForKey (Some (wal_file rs [])) key 0 = 1
    \<and> mem_Get (ReplayPending (Some (wal_file rs [])) [] 0) key
      = Some \<lparr>me_value = v2, me_lsn = 2, me_deleted = False, me_txn_id = t, me_durable = False\<rparr>"
proof -
  have "8 + length (wlog.log_image rs) + 0 \<le> AlignUpWalSector (8 + length (wlog.log_image rs))"
    using AlignUp_greater [of "8 + length (wlog.log_image rs)"] by simp
  then have c: "crashed_log rs (mk_wal 1 kPut key v1 0) 0"
    using assms(1,2) by (simp add: crashed_log_def rs_def)
  have tl: "log_tail 0 rs = rs" by (simp add: log_tail_def rs_def)
  have marks: "txn_marks kTxnAbort rs = {}" "txn_marks kTxnCommit rs = {}"
    by (auto simp: txn_marks_def rs_def wal_ops)
  have "{r \<in> set rs. committed_write key rs r} = {mk_wal 1 kPut key v1 0}"
  proof -
    have "set rs = {mk_wal 1 kPut key v1 0, mk_wal 2 kPut key v2 t}" by (simp add: rs_def)
    moreover have "committed_write key rs (mk_wal 1 kPut key v1 0)" "\<not> committed_write key rs (mk_wal 2 kPut key v2 t)"
      using assms(3) by (simp_all add: committed_write_def marks writes_key_def is_data_op_def)
    ultimately show ?thesis by auto
  qed
  then have best: "LatestCommittedLsnForKey (Some (wal_file rs [])) key 0 = 1"
    using crashed_max [OF c, of key 0] by (simp add: tl max_def)
  have "last_write key rs = Some (mk_wal 2 kPut key v2 t)"
    by (simp add: last_write_def rs_def writes_key_def is_data_op_def)
  then have "mem_Get (ReplayPending (Some (wal_file rs [])) [] 0) key = Some (mem_entry_of {} (mk_wal 2 kPut key v2 t))"
    using crashed_table [OF c, of "[]" 0 key] by (simp add: tl marks Let_def)
  with best assms(3) show ?thesis by (simp add: mem_entry_of_def wal_ops)
qed

theorem uncommitted_hides_committed_witness:
  "mem_Get (ReplayPending (Some (wal_file [mk_wal 1 kPut [1] [2] 0, mk_wal 2 kPut [1] [3] 7] [])) [] 0) [1]
    = Some \<lparr>me_value = [3], me_lsn = 2, me_deleted = False, me_txn_id = 7, me_durable = False\<rparr>"
proof -
  have "wal_ok (mk_wal 1 kPut [1] [2] 0)" "wal_ok (mk_wal 2 kPut [1] [3] 7)"
    by (rule mk_wal_ok; simp add: kWalMagicV2_def)+
  from uncommitted_hides_committed [OF this] show ?thesis by simp
qed

text \<open>
  \<open>RestoreKeyFromWal\<close> puts a wrong value into the memtable: on a consistent writer whose last
  write of the key is synced and above the checkpoint LSN, the restored value of a key of at least
  four bytes starts with the last four bytes of the key, and the end of the value that was written
  is cut off.
\<close>

theorem restore_key_shifts_value:
  assumes "log_ok w rs" "index_ok w rs" "ww_pending w = []"
    and "last_write key rs = Some r" "wh_op (wr_hdr r) = kPut" "4 \<le> length key"
    and "rs_wal s = Some w" "\<not> rs_wal_corrupt s" "rs_wal_lsn s < rec_lsn r"
  shows "snd (RestoreKeyFromWal s key) = Status_Ok
    \<and> mem_Get (rs_memtable (fst (RestoreKeyFromWal s key))) key =
      Some \<lparr>me_value = take (length (wr_value r)) (drop (length key - 4) key @ wr_value r), me_lsn = rec_lsn r,
        me_deleted = False, me_txn_id = 0, me_durable = True\<rparr>"
proof -
  from assms(2,3) obtain rs1 rs2 where ix: "rs = rs1 @ rs2"
      "map_of (ww_index w) = map_of (foldl index_step [] (positions 8 rs1))"
      "pending_of (positions (8 + length (wlog.log_image rs1)) rs2) = []"
    unfolding index_ok_def by metis
  have "map_of (foldl index_step [] (positions 8 rs)) = map_of (foldl index_step [] (positions 8 rs1))"
    using pending_empty_index [OF ix(3)] by (simp add: ix(1) positions_append)
  then have index: "map_of (ww_index w) = map_of (foldl index_step [] (positions 8 rs))"
    using ix(2) by simp
  obtain x where x: "find (\<lambda>x. writes_key key (fst (snd x))) (rev (positions 8 rs)) = Some x" "fst (snd x) = r"
    using find_positions [of key 8 rs] assms(4) by (auto simp: map_option_eq_Some)
  then have l: "wki_Lookup (ww_index w) key (rs_wal_lsn s) = Some (fst x)"
    using assms(9) by (simp add: wki_Lookup_def index map_of_index)
  have "x \<in> set (positions 8 rs)" using find_position_member [OF x(1)] by simp
  then obtain a b where ab: "wal_magic_bytes @ wlog.log_image rs @ [] = a @ enc_wal_record r @ b"
      "length a = fst x" "r \<in> set rs"
    using positions_member [of "fst x" r "snd (snd x)" wal_magic_bytes rs "[]"] x(2)
    by (metis length_wal_magic prod.collapse)
  have r: "wal_ok r" "wr_key r = key"
    using assms(1) ab(3) last_write_Some [OF assms(4)] by (auto simp: log_ok_def writes_key_def)
  have "ReplayRecordAt (ww_file w) (fst x) = ReplayRecordAt (a @ enc_wal_record r @ b) (length a)"
    using assms(1) ab by (simp add: log_ok_def wal_file_def)
  then show ?thesis
    using l assms(5-8) r(2) ReplayRecordAt_image [OF r(1), of a b]
    by (simp add: RestoreKeyFromWal_def Let_def mem_Get_def map_of_Put wal_ops)
qed

theorem restore_key_shifts_value_witness:
  "mem_Get (rs_memtable (fst (RestoreKeyFromWal
     \<lparr>rs_wal = Some (wal_Fsync (fst (wal_Append NoFault (WalWriter_open None) kPut [1, 2, 3, 4] [9, 8] 0))),
      rs_memtable = [], rs_wal_corrupt = False, rs_wal_lsn = 0, rs_lazy_page_faults = 0,
      rs_stats_page_faults = 0\<rparr> [1, 2, 3, 4]))) [1, 2, 3, 4]
   = Some \<lparr>me_value = [1, 2], me_lsn = 1, me_deleted = False, me_txn_id = 0, me_durable = True\<rparr>"
proof -
  let ?w = "fst (wal_Append NoFault (WalWriter_open None) kPut [1, 2, 3, 4] [9, 8] 0)"
  have m: "ww_max_lsn (WalWriter_open None) = 0"
    by (simp add: WalWriter_open_def RebuildKeyIndex_def EnsureWalMagicLocked_def Let_def)
  have "writer_ok ?w [mk_wal 1 kPut [1, 2, 3, 4] [9, 8] 0]"
    using writer_ok_append_one [OF writer_ok_create, of "[1, 2, 3, 4]" "[9, 8]" kPut 0]
    by (simp add: m wal_Append_def Sync_writer_ok [OF writer_ok_create] record_fits_def valid_op_def kWalMagicV2_def)
  then have "writer_ok (wal_Fsync ?w) [mk_wal 1 kPut [1, 2, 3, 4] [9, 8] 0]" by (rule writer_ok_Fsync)
  moreover have "ww_pending (wal_Fsync ?w) = []" by (simp add: wal_Fsync_def)
  ultimately show ?thesis
    using restore_key_shifts_value [of "wal_Fsync ?w" "[mk_wal 1 kPut [1, 2, 3, 4] [9, 8] 0]" "[1, 2, 3, 4]"
        "mk_wal 1 kPut [1, 2, 3, 4] [9, 8] 0" "\<lparr>rs_wal = Some (wal_Fsync ?w), rs_memtable = [],
          rs_wal_corrupt = False, rs_wal_lsn = 0, rs_lazy_page_faults = 0, rs_stats_page_faults = 0\<rparr>"]
    by (simp add: writer_ok_def last_write_def writes_key_def is_data_op_def)
qed

end
