(* ===== verification/TxnSidecar.thy ===== *)
theory TxnSidecar
  imports Prelude
begin

text \<open>
  \<^verbatim>\<open>cpp/include/ebtree/concept/wal/txidx.h\<close> and \<^verbatim>\<open>cpp/src/concept/wal/txidx.cc\<close>: the sidecar
  file with the open and committed transactions of a shard. The member state is \<open>sidecar\<close>; a
  file is its bytes, \<open>None\<close> when it cannot be opened.
\<close>

record txn_entry =
  te_txn_id :: u32
  te_snapshot_lsn :: u64
  te_committed :: bool
  te_commit_lsn :: u64

record sidecar =
  sc_entries :: "txn_entry list"
  sc_last_commit_lsn :: u64

definition kTxidxMagic :: u64 where "kTxidxMagic = 0xEB545844580031"

section \<open>Operations\<close>

text \<open>\<open>Find\<close> returns a pointer to the first entry of the id; \<open>update_first\<close> is a write through it.\<close>

definition sc_Find :: "sidecar \<Rightarrow> u32 \<Rightarrow> txn_entry option" where
  "sc_Find s txn_id = find (\<lambda>e. te_txn_id e = txn_id) (sc_entries s)"

fun update_first :: "u32 \<Rightarrow> (txn_entry \<Rightarrow> txn_entry) \<Rightarrow> txn_entry list \<Rightarrow> txn_entry list" where
  "update_first txn_id f [] = []"
| "update_first txn_id f (e # es) =
    (if te_txn_id e = txn_id then f e # es else e # update_first txn_id f es)"

definition SetOpenTxn :: "u32 \<Rightarrow> u64 \<Rightarrow> sidecar \<Rightarrow> sidecar" where
  "SetOpenTxn txn_id snapshot_lsn s =
    (if txn_id = 0 then s
     else if sc_Find s txn_id \<noteq> None then
       s\<lparr>sc_entries := update_first txn_id
           (\<lambda>e. e\<lparr>te_snapshot_lsn := snapshot_lsn, te_committed := False\<rparr>) (sc_entries s)\<rparr>
     else s\<lparr>sc_entries := sc_entries s @ [\<lparr>te_txn_id = txn_id, te_snapshot_lsn = snapshot_lsn,
           te_committed = False, te_commit_lsn = 0\<rparr>]\<rparr>)"

definition MarkCommitted :: "u32 \<Rightarrow> u64 \<Rightarrow> sidecar \<Rightarrow> sidecar" where
  "MarkCommitted txn_id commit_lsn s =
    (if txn_id = 0 then s
     else
      (let es = (if sc_Find s txn_id = None
             then sc_entries s @ [\<lparr>te_txn_id = txn_id, te_snapshot_lsn = 0, te_committed = True,
                                    te_commit_lsn = commit_lsn\<rparr>]
             else update_first txn_id (\<lambda>e. e\<lparr>te_committed := True, te_commit_lsn := commit_lsn\<rparr>) (sc_entries s))
       in s\<lparr>sc_entries := es, sc_last_commit_lsn := max (sc_last_commit_lsn s) commit_lsn\<rparr>))"

definition MarkAborted :: "u32 \<Rightarrow> sidecar \<Rightarrow> sidecar" where
  "MarkAborted txn_id s = s\<lparr>sc_entries := filter (\<lambda>e. te_txn_id e \<noteq> txn_id) (sc_entries s)\<rparr>"

section \<open>The file\<close>

definition enc_txn_entry :: "txn_entry \<Rightarrow> bytes" where
  "enc_txn_entry e = put_u32 (te_txn_id e) @ put_u64 (te_snapshot_lsn e)
     @ [if te_committed e then 1 else 0] @ put_u64 (te_commit_lsn e)"

definition read_txn_entry :: "bytes \<Rightarrow> txn_entry" where
  "read_txn_entry bs = \<lparr>te_txn_id = get_u32 bs, te_snapshot_lsn = get_u64 (drop 4 bs),
     te_committed = (bs ! 12 \<noteq> 0), te_commit_lsn = get_u64 (drop 13 bs)\<rparr>"

definition sc_SaveToFile :: "sidecar \<Rightarrow> bytes" where
  "sc_SaveToFile s = put_u64 kTxidxMagic @ put_u32 (word_of_nat (length (sc_entries s)))
     @ put_u64 (sc_last_commit_lsn s) @ concat (map enc_txn_entry (sc_entries s))"

text \<open>A read that runs into the end of the file overwrites only the low bytes it got.\<close>

definition overlay_u64 :: "u64 \<Rightarrow> bytes \<Rightarrow> u64" where
  "overlay_u64 old bs = word_of_nat (le_val (take 8 bs @ drop (length (take 8 bs)) (put_u64 old)))"

fun load_entries :: "nat \<Rightarrow> bytes \<Rightarrow> txn_entry list \<Rightarrow> txn_entry list \<times> status" where
  "load_entries 0 bs acc = (acc, Status_Ok)"
| "load_entries (Suc n) bs acc =
    (if length bs < 21 then (acc, Status_Corrupt ''txidx truncated'')
     else load_entries n (drop 21 bs) (acc @ [read_txn_entry bs]))"

definition sc_LoadFromFile :: "bytes option \<Rightarrow> sidecar \<Rightarrow> sidecar \<times> status" where
  "sc_LoadFromFile fo s =
    (case fo of
      None \<Rightarrow> (s, Status_NotFound ''txidx missing'')
    | Some fb \<Rightarrow>
       if length fb < 8 \<or> get_u64 fb \<noteq> kTxidxMagic then (s, Status_Corrupt ''txidx bad magic'')
       else
        (let (es, st) = load_entries (unat (get_u32 (drop 8 fb))) (drop 20 fb) [] in
         (\<lparr>sc_entries = es, sc_last_commit_lsn = overlay_u64 (sc_last_commit_lsn s) (drop 12 fb)\<rparr>, st)))"

section \<open>The sidecar as a map\<close>

definition sidecar_ok :: "sidecar \<Rightarrow> bool" where
  "sidecar_ok s \<longleftrightarrow> distinct (map te_txn_id (sc_entries s)) \<and> 0 \<notin> set (map te_txn_id (sc_entries s))
     \<and> (\<forall>e \<in> set (sc_entries s). te_committed e \<longrightarrow> te_commit_lsn e \<le> sc_last_commit_lsn s)"

lemma sc_Find_None: "sc_Find s t = None \<longleftrightarrow> t \<notin> te_txn_id ` set (sc_entries s)"
  by (auto simp: sc_Find_def find_None_iff)

lemma find_append_right: "find P (xs @ ys) = (case find P xs of Some x \<Rightarrow> Some x | None \<Rightarrow> find P ys)"
  by (induction xs) auto

lemma find_update_first:
  "(\<And>e. te_txn_id (f e) = te_txn_id e) \<Longrightarrow> find (\<lambda>e. te_txn_id e = u) (update_first t f es)
    = (if u = t then map_option f else id) (find (\<lambda>e. te_txn_id e = u) es)"
  by (induction es) auto

lemma ids_update_first [simp]:
  "(\<And>e. te_txn_id (f e) = te_txn_id e) \<Longrightarrow> map te_txn_id (update_first t f es) = map te_txn_id es"
  by (induction es) auto

lemma set_update_first: "e \<in> set (update_first t f es) \<Longrightarrow> e \<in> set es \<or> (\<exists>d \<in> set es. e = f d \<and> te_txn_id d = t)"
  by (induction es) (auto split: if_splits)

lemma find_filter_other:
  "find (\<lambda>e. te_txn_id e = u) (filter (\<lambda>e. te_txn_id e \<noteq> t) es)
    = (if u = t then None else find (\<lambda>e. te_txn_id e = u) es)"
  by (induction es) auto

lemma sidecar_ok_ops:
  assumes "sidecar_ok s"
  shows "sidecar_ok (SetOpenTxn t l s)" "sidecar_ok (MarkCommitted t l s)" "sidecar_ok (MarkAborted t s)"
proof -
  show "sidecar_ok (SetOpenTxn t l s)"
    using assms by (auto simp: sidecar_ok_def SetOpenTxn_def sc_Find_None dest!: set_update_first)
  show "sidecar_ok (MarkCommitted t l s)"
    using assms by (auto simp: sidecar_ok_def MarkCommitted_def sc_Find_None Let_def le_max_iff_disj dest!: set_update_first)
  show "sidecar_ok (MarkAborted t s)"
    using assms by (auto simp: sidecar_ok_def MarkAborted_def distinct_map_filter)
qed

text \<open>
  The sidecar is a map from transaction ids to their state: for a nonzero id, \<open>SetOpenTxn\<close> and
  \<open>MarkCommitted\<close> change the entry of that id only (and create it when it is missing),
  \<open>MarkAborted\<close> removes it and nothing else, and the largest commit LSN is kept.
\<close>

theorem sidecar_is_map:
  assumes "t \<noteq> 0"
  shows "sc_Find (SetOpenTxn t l s) u = (if u = t
        then Some (case sc_Find s t of Some e \<Rightarrow> e\<lparr>te_snapshot_lsn := l, te_committed := False\<rparr>
             | None \<Rightarrow> \<lparr>te_txn_id = t, te_snapshot_lsn = l, te_committed = False, te_commit_lsn = 0\<rparr>)
        else sc_Find s u)
    \<and> sc_Find (MarkCommitted t l s) u = (if u = t
        then Some (case sc_Find s t of Some e \<Rightarrow> e\<lparr>te_committed := True, te_commit_lsn := l\<rparr>
             | None \<Rightarrow> \<lparr>te_txn_id = t, te_snapshot_lsn = 0, te_committed = True, te_commit_lsn = l\<rparr>)
        else sc_Find s u)
    \<and> sc_Find (MarkAborted t s) u = (if u = t then None else sc_Find s u)
    \<and> sc_last_commit_lsn (MarkCommitted t l s) = max (sc_last_commit_lsn s) l"
proof (intro conjI)
  show "sc_Find (SetOpenTxn t l s) u = (if u = t
        then Some (case sc_Find s t of Some e \<Rightarrow> e\<lparr>te_snapshot_lsn := l, te_committed := False\<rparr>
             | None \<Rightarrow> \<lparr>te_txn_id = t, te_snapshot_lsn = l, te_committed = False, te_commit_lsn = 0\<rparr>)
        else sc_Find s u)"
    using assms by (auto simp: SetOpenTxn_def sc_Find_def find_update_first find_append_right split: option.split)
  show "sc_Find (MarkCommitted t l s) u = (if u = t
        then Some (case sc_Find s t of Some e \<Rightarrow> e\<lparr>te_committed := True, te_commit_lsn := l\<rparr>
             | None \<Rightarrow> \<lparr>te_txn_id = t, te_snapshot_lsn = 0, te_committed = True, te_commit_lsn = l\<rparr>)
        else sc_Find s u)"
    using assms
    by (auto simp: MarkCommitted_def sc_Find_def find_update_first find_append_right Let_def split: option.split)
qed (use assms in \<open>simp_all add: MarkAborted_def sc_Find_def find_filter_other MarkCommitted_def Let_def\<close>)

theorem sidecar_is_map_witness:
  "sc_Find (SetOpenTxn 5 9 (MarkCommitted 5 7 \<lparr>sc_entries = [], sc_last_commit_lsn = 0\<rparr>)) 5
    = Some \<lparr>te_txn_id = 5, te_snapshot_lsn = 9, te_committed = False, te_commit_lsn = 7\<rparr>"
proof -
  let ?s = "\<lparr>sc_entries = [], sc_last_commit_lsn = 0\<rparr>"
  have "sc_Find (MarkCommitted 5 7 ?s) 5
      = Some \<lparr>te_txn_id = 5, te_snapshot_lsn = 0, te_committed = True, te_commit_lsn = 7\<rparr>"
    using sidecar_is_map [of 5 7 ?s 5] by (simp add: sc_Find_def)
  then show ?thesis using sidecar_is_map [of 5 9 "MarkCommitted 5 7 ?s" 5] by simp
qed

lemma length_enc_txn_entry [simp, layout_simps]: "length (enc_txn_entry e) = 21"
  by (simp add: enc_txn_entry_def)

lemma read_enc_txn_entry [codec_simps]: "read_txn_entry (enc_txn_entry e @ rest) = e"
  by (simp add: read_txn_entry_def enc_txn_entry_def nth_append)

lemma load_entries_image:
  "load_entries (length es) (concat (map enc_txn_entry es) @ rest) acc = (acc @ es, Status_Ok)"
  by (induction es arbitrary: acc) (auto simp: read_enc_txn_entry)

lemma load_entries_short:
  "length bs < 21 * n \<Longrightarrow> snd (load_entries n bs acc) = Status_Corrupt ''txidx truncated''"
  by (induction n bs acc rule: load_entries.induct) auto

lemma length_entries_image: "length (concat (map enc_txn_entry es)) = 21 * length es"
  by (induction es) auto

lemma overlay_whole: "8 \<le> length bs \<Longrightarrow> overlay_u64 old bs = get_u64 bs"
  by (simp add: overlay_u64_def get_u64_def)

lemma save_parts:
  "get_u64 (sc_SaveToFile s) = kTxidxMagic"
  "drop 8 (sc_SaveToFile s) = put_u32 (word_of_nat (length (sc_entries s))) @ put_u64 (sc_last_commit_lsn s)
     @ concat (map enc_txn_entry (sc_entries s))"
  "drop 12 (sc_SaveToFile s) = put_u64 (sc_last_commit_lsn s) @ concat (map enc_txn_entry (sc_entries s))"
  "drop 20 (sc_SaveToFile s) = concat (map enc_txn_entry (sc_entries s))"
  "length (sc_SaveToFile s) = 20 + 21 * length (sc_entries s)"
  by (simp_all add: sc_SaveToFile_def length_entries_image)

text \<open>
  A saved sidecar loads back as it was, whatever the store held before, and a file cut off
  anywhere behind its entry count is reported as corrupt.
\<close>

theorem sidecar_save_load:
  assumes "length (sc_entries s) < 2 ^ 32"
  shows "sc_LoadFromFile (Some (sc_SaveToFile s)) s0 = (s, Status_Ok)
    \<and> (12 \<le> n \<and> n < length (sc_SaveToFile s) \<and> sc_entries s \<noteq> [] \<longrightarrow>
        snd (sc_LoadFromFile (Some (take n (sc_SaveToFile s))) s0) = Status_Corrupt ''txidx truncated'')"
proof (intro conjI impI)
  have c: "unat (word_of_nat (length (sc_entries s)) :: u32) = length (sc_entries s)"
    using assms by (simp add: unat_of_nat)
  show "sc_LoadFromFile (Some (sc_SaveToFile s)) s0 = (s, Status_Ok)"
    using load_entries_image [of "sc_entries s" "[]" "[]"]
    by (simp add: sc_LoadFromFile_def save_parts c overlay_whole Let_def)
  assume n: "12 \<le> n \<and> n < length (sc_SaveToFile s) \<and> sc_entries s \<noteq> []"
  have m: "get_u64 (take n (sc_SaveToFile s)) = kTxidxMagic"
    using n save_parts(1) [of s] by (simp add: get_u64_def min_def)
  have d: "get_u32 (drop 8 (take n (sc_SaveToFile s))) = word_of_nat (length (sc_entries s))"
  proof -
    have "4 \<le> n - 8" using n by auto
    then have "get_u32 (drop 8 (take n (sc_SaveToFile s))) = get_u32 (drop 8 (sc_SaveToFile s))"
      by (simp add: get_u32_def drop_take min_def)
    then show ?thesis by (simp add: save_parts)
  qed
  have "length (drop 20 (take n (sc_SaveToFile s))) < 21 * length (sc_entries s)"
  proof -
    have "0 < length (sc_entries s)" "n < 20 + 21 * length (sc_entries s)"
      using n save_parts(5) [of s] by auto
    then have "n - 20 < 21 * length (sc_entries s)" by linarith
    then show ?thesis using n by (simp add: min_def)
  qed
  from load_entries_short [OF this, of "[]"]
  show "snd (sc_LoadFromFile (Some (take n (sc_SaveToFile s))) s0) = Status_Corrupt ''txidx truncated''"
    using n m d c by (auto simp: sc_LoadFromFile_def Let_def split: prod.splits)
qed

theorem sidecar_save_load_witness:
  "snd (sc_LoadFromFile (Some (take 30 (sc_SaveToFile (MarkCommitted 5 7 \<lparr>sc_entries = [], sc_last_commit_lsn = 0\<rparr>))))
     \<lparr>sc_entries = [], sc_last_commit_lsn = 0\<rparr>) = Status_Corrupt ''txidx truncated''"
proof -
  have "sc_entries (MarkCommitted 5 7 \<lparr>sc_entries = [], sc_last_commit_lsn = 0\<rparr>)
      = [\<lparr>te_txn_id = 5, te_snapshot_lsn = 0, te_committed = True, te_commit_lsn = 7\<rparr>]"
    by (simp add: MarkCommitted_def sc_Find_def)
  then show ?thesis
    using sidecar_save_load [of "MarkCommitted 5 7 \<lparr>sc_entries = [], sc_last_commit_lsn = 0\<rparr>"
        "\<lparr>sc_entries = [], sc_last_commit_lsn = 0\<rparr>" 30]
    by (simp add: save_parts)
qed

end
