(* ===== verification/Flusher.thy ===== *)
theory Flusher
  imports WalReplay VersionChains DataRecords PagedBTreeScan
begin

text \<open>
  \<^verbatim>\<open>cpp/src/concept/flusher/flusher.cc\<close>: writing a frozen memtable to the data file, the committed map,
  the index and the version chains; and \<^verbatim>\<open>cpp/src/concept/group_commit/group_committer.cc\<close>.

  \<open>Snapshot\<close> lists the table in the order of its hash table, which is not specified: the theorems hold for
  any list. A lookup in the index may not return (\<open>bt_Get\<close>), so a flush may not either. The data file is
  written through a stream that reaches the file at each append; every append takes a fault.
\<close>

section \<open>The flusher\<close>

text \<open>
  \<^verbatim>\<open>WalWriter::Fsync\<close> with its last step, \<open>fdatasync\<close>, which may fail after the pending index entries
  have been taken over.
\<close>

definition wal_Fsync_at :: "bool \<Rightarrow> wal_writer \<Rightarrow> wal_writer \<times> status" where
  "wal_Fsync_at sync w = (wal_Fsync w, if sync then Status_Ok else Status_IoError ''fdatasync failed'')"

record flusher_context =
  fc_wal :: wal_writer
  fc_frozen :: memtable
  fc_datafile :: datafile
  fc_btree :: paged_btree
  fc_vcs :: "vcs option"
  fc_committed :: committed_map
  fc_stable_lsn :: u64
  fc_flush_total :: u64
  fc_generation :: u8

text \<open>The body of the loop for one entry.\<close>

definition flush_vcs :: "bytes \<Rightarrow> u64 \<Rightarrow> u64 \<Rightarrow> flusher_context \<Rightarrow> flusher_context \<times> status" where
  "flush_vcs key lsn prev_lsn c =
    (case fc_vcs c of
       None \<Rightarrow> (c, Status_Ok)
     | Some v \<Rightarrow> (let (v1, vs) = vcs_Append v key lsn prev_lsn in (c\<lparr>fc_vcs := Some v1\<rparr>, vs)))"

definition flush_entry ::
  "lzma_lib \<Rightarrow> (nat \<Rightarrow> bytes res) \<Rightarrow> fault \<Rightarrow> flusher_context \<Rightarrow> bytes \<times> mem_entry \<Rightarrow> (flusher_context \<times> status) option" where
  "flush_entry lib read ft c kv =
    (case kv of (key, e) \<Rightarrow>
     Option.bind (bt_Get read (fc_btree c) key) (\<lambda>r.
      let prev_lsn = (case r of Inr lsn \<Rightarrow> lsn | Inl _ \<Rightarrow> 0) in
      if me_deleted e then
       (let (df, ds) = df_Append ft lib (fc_datafile c) (me_lsn e) key [] True (fc_generation c);
            c1 = c\<lparr>fc_datafile := df\<rparr> in
        if \<not> status_ok ds then Some (c1, ds)
        else
         (let (c2, vs) = flush_vcs key (me_lsn e) prev_lsn
                (c1\<lparr>fc_committed := AList.delete key (fc_committed c), fc_btree := bt_DeleteKey key (me_lsn e) (fc_btree c)\<rparr>) in
          if \<not> status_ok vs then Some (c2, vs)
          else Some (c2\<lparr>fc_stable_lsn := max (fc_stable_lsn c2) (me_lsn e)\<rparr>, Status_Ok)))
      else
       (let (df, ds) = df_Append ft lib (fc_datafile c) (me_lsn e) key (me_value e) False (fc_generation c);
            c1 = c\<lparr>fc_datafile := df\<rparr> in
        if \<not> status_ok ds then Some (c1, ds)
        else
         (let (c2, vs) = flush_vcs key (me_lsn e) prev_lsn
                (c1\<lparr>fc_committed := AList.update key (me_value e, me_lsn e) (fc_committed c),
                    fc_btree := bt_Put key (me_lsn e) (fc_btree c)\<rparr>) in
          if \<not> status_ok vs then Some (c2, vs)
          else Some (c2\<lparr>fc_stable_lsn := max (fc_stable_lsn c2) (me_lsn e)\<rparr>, Status_Ok)))))"

fun flush_entries ::
  "lzma_lib \<Rightarrow> (nat \<Rightarrow> bytes res) \<Rightarrow> fault list \<Rightarrow> flusher_context \<Rightarrow> (bytes \<times> mem_entry) list
     \<Rightarrow> (flusher_context \<times> status) option" where
  "flush_entries lib read fts c [] = Some (c, Status_Ok)"
| "flush_entries lib read fts c (kv # kvs) =
    Option.bind (flush_entry lib read (fst (next_fault fts)) c kv)
      (\<lambda>(c1, st). if status_ok st then flush_entries lib read (snd (next_fault fts)) c1 kvs else Some (c1, st))"

definition Flush :: "lzma_lib \<Rightarrow> (nat \<Rightarrow> bytes res) \<Rightarrow> bool \<Rightarrow> fault list \<Rightarrow> flusher_context \<Rightarrow> (flusher_context \<times> status) option" where
  "Flush lib read sync fts c =
    (let (w, fs) = wal_Fsync_at sync (fc_wal c); c1 = c\<lparr>fc_wal := w\<rparr> in
     if \<not> status_ok fs then Some (c1, fs) else
     Option.bind (flush_entries lib read fts c1 (mem_Snapshot (fc_frozen c1)))
       (\<lambda>(c2, st). if status_ok st
          then Some (c2\<lparr>fc_frozen := mem_Clear (fc_frozen c2), fc_flush_total := fc_flush_total c2 + 1\<rparr>, Status_Ok)
          else Some (c2, st)))"

section \<open>Group commit\<close>

record group_state =
  gs_pending :: u64
  gs_puts :: u32

definition group_init :: group_state where "group_init = \<lparr>gs_pending = 0, gs_puts = 0\<rparr>"

definition RecordPut :: "u64 \<Rightarrow> group_state \<Rightarrow> group_state" where
  "RecordPut lsn g = \<lparr>gs_pending = max (gs_pending g) lsn, gs_puts = gs_puts g + 1\<rparr>"

definition ShouldAutoCommit :: "group_state \<Rightarrow> u32 \<Rightarrow> bool" where
  "ShouldAutoCommit g batch_size \<longleftrightarrow> 0 < batch_size \<and> batch_size \<le> gs_puts g"

text \<open>Writer, stable LSN and group state in, the same out. The pending LSN is never reset.\<close>

definition group_Commit ::
  "bool \<Rightarrow> wal_writer \<Rightarrow> u64 \<Rightarrow> group_state \<Rightarrow> (wal_writer \<times> u64 \<times> group_state) \<times> status" where
  "group_Commit sync w stable_lsn g =
    (if gs_pending g = 0 then ((w, stable_lsn, g), Status_Ok)
     else
      (let (w1, fs) = wal_Fsync_at sync w in
       if \<not> status_ok fs then ((w1, stable_lsn, g), fs)
       else ((w1, max stable_lsn (gs_pending g), g\<lparr>gs_puts := 0\<rparr>), Status_Ok)))"


section \<open>What a flush writes\<close>

lemma Flush_alt:
  "Flush lib read sync fts c =
    (let c1 = c\<lparr>fc_wal := wal_Fsync (fc_wal c)\<rparr> in
     if \<not> sync then Some (c1, Status_IoError ''fdatasync failed'') else
     Option.bind (flush_entries lib read fts c1 (mem_Snapshot (fc_frozen c1)))
       (\<lambda>(c2, st). if status_ok st
          then Some (c2\<lparr>fc_frozen := mem_Clear (fc_frozen c2), fc_flush_total := fc_flush_total c2 + 1\<rparr>, Status_Ok)
          else Some (c2, st)))"
  by (simp add: Flush_def wal_Fsync_at_def Let_def status_defs)


definition entry_write :: "u8 \<Rightarrow> bytes \<times> mem_entry \<Rightarrow> df_write" where
  "entry_write g kv = \<lparr>dw_lsn = me_lsn (snd kv), dw_key = fst kv,
     dw_value = (if me_deleted (snd kv) then [] else me_value (snd kv)), dw_deleted = me_deleted (snd kv), dw_gen = g\<rparr>"

declare write_effect.simps [simp del]

lemma bt_Get_Put: "bt_Get read (bt_Put k l bt) x = (if x = k then Some (Inr l) else bt_Get read bt x)"
  by (simp add: bt_Get_def map_of_omap_put cong: option.case_cong)

lemma bt_Get_DeleteKey:
  "bt_Get read (bt_DeleteKey k l bt) x =
    (if x = k then Some (Inl (Status_NotFound ''key deleted in delta'')) else bt_Get read bt x)"
  by (simp add: bt_Get_def map_of_omap_erase cong: option.case_cong)

definition prev_of :: "u64 res option \<Rightarrow> u64" where
  "prev_of r = (case r of Some (Inr lsn) \<Rightarrow> lsn | _ \<Rightarrow> 0)"

text \<open>The effect of one entry on each part, once the data file took it.\<close>

definition publish :: "bytes \<times> mem_entry \<Rightarrow> flusher_context \<Rightarrow> flusher_context" where
  "publish kv c = c\<lparr>
     fc_committed := (if me_deleted (snd kv) then AList.delete (fst kv) (fc_committed c)
                      else AList.update (fst kv) (me_value (snd kv), me_lsn (snd kv)) (fc_committed c)),
     fc_btree := (if me_deleted (snd kv) then bt_DeleteKey (fst kv) (me_lsn (snd kv)) (fc_btree c)
                  else bt_Put (fst kv) (me_lsn (snd kv)) (fc_btree c))\<rparr>"

lemma flush_entry_alt:
  "flush_entry lib read ft c kv =
    Option.bind (bt_Get read (fc_btree c) (fst kv)) (\<lambda>r.
      let w = entry_write (fc_generation c) kv;
          (df, ds) = df_Append ft lib (fc_datafile c) (dw_lsn w) (dw_key w) (dw_value w) (dw_deleted w) (dw_gen w);
          c1 = c\<lparr>fc_datafile := df\<rparr> in
      if \<not> status_ok ds then Some (c1, ds)
      else
       (let (c2, vs) = flush_vcs (fst kv) (me_lsn (snd kv)) (prev_of (Some r)) (publish kv c1) in
        if \<not> status_ok vs then Some (c2, vs)
        else Some (c2\<lparr>fc_stable_lsn := max (fc_stable_lsn c2) (me_lsn (snd kv))\<rparr>, Status_Ok)))"
  by (cases kv) (auto simp: flush_entry_def entry_write_def publish_def prev_of_def Let_def split: prod.splits intro!: Option.bind_cong)

lemma publish_simps [simp]:
  "fc_datafile (publish kv c) = fc_datafile c" "fc_vcs (publish kv c) = fc_vcs c" "fc_wal (publish kv c) = fc_wal c"
  "fc_frozen (publish kv c) = fc_frozen c" "fc_generation (publish kv c) = fc_generation c"
  "fc_stable_lsn (publish kv c) = fc_stable_lsn c" "fc_flush_total (publish kv c) = fc_flush_total c"
  by (simp_all add: publish_def)

lemma publish_committed:
  "map_of (fc_committed (publish kv c)) = write_effect (map_of (fc_committed c)) (entry_write g kv)"
  by (auto simp: publish_def entry_write_def delete_conv' update_conv' write_effect.simps)

lemma flush_vcs_simps:
  "flush_vcs key lsn prev c = (c2, vs) \<Longrightarrow> \<exists>v. c2 = c\<lparr>fc_vcs := v\<rparr>"
  by (auto simp: flush_vcs_def Let_def split: option.splits prod.splits intro: exI [of _ "fc_vcs c"])

section \<open>The data file as a log of writes\<close>

definition data_log :: "datafile \<Rightarrow> df_write list \<Rightarrow> bool" where
  "data_log df ws \<longleftrightarrow> \<not> df_compress df \<and> df_content df = dlog.log_image (map raw_of ws)
     \<and> (df_bytes df = None \<longrightarrow> ws = []) \<and> list_all small ws"

definition cut_log :: "datafile \<Rightarrow> df_write list \<Rightarrow> bool" where
  "cut_log df ws \<longleftrightarrow> (\<exists>w n. small w \<and> n < length (enc_rec (raw_of w)) \<and> list_all small ws
     \<and> df_bytes df = Some (dlog.log_image (map raw_of ws) @ take n (enc_rec (raw_of w))))"

lemma data_log_append:
  assumes "data_log df ws" "small w"
    and "df_Append ft lib df (dw_lsn w) (dw_key w) (dw_value w) (dw_deleted w) (dw_gen w) = (df1, st)"
  shows "ft = NoFault \<and> status_ok st \<and> df1 = append_write lib df w \<and> data_log df1 (ws @ [w])
    \<or> ft = OpenFails \<and> \<not> status_ok st \<and> data_log df1 ws
    \<or> \<not> status_ok st \<and> (cut_log df1 ws \<or> data_log df1 (ws @ [w]))"
proof (cases ft)
  case NoFault
  with assms show ?thesis
    using append_write_raw [of df lib w] by (auto simp: data_log_def append_write_def df_Append_def Let_def status_defs split: prod.splits)
next
  case OpenFails
  with assms show ?thesis by (auto simp: df_Append_def status_defs)
next
  case (Torn n)
  then have "\<not> status_ok st" "\<not> df_compress df1"
    "df_bytes df1 = Some (dlog.log_image (map raw_of ws) @ take n (enc_rec (raw_of w)))"
    using assms by (auto simp: data_log_def df_Append_def stored_form_def enc_rec_def raw_of_def Let_def status_defs)
  with assms(1,2) show ?thesis
    by (cases "n < length (enc_rec (raw_of w))") (auto simp: data_log_def cut_log_def df_content_def)
qed

lemma load_image:
  assumes "list_all small ws" "scan_all dec_rec fb = map raw_of ws"
  shows "\<exists>m mx. LoadRecords lib (Some fb) 0 0 0xFF True 0 [] = ((m, mx), Status_Ok)
    \<and> map_of m = foldl write_effect (\<lambda>_. None) ws"
proof -
  obtain m mx st where r: "replay lib 0 0xFF True (map raw_of ws) [] 0 = ((m, mx), st)"
    by (cases "replay lib 0 0xFF True (map raw_of ws) [] 0") auto
  have "filter (seen_write 0 0xFF) ws = ws" by (simp add: seen_write_def)
  with replay_raw [OF r] have "map_of m = foldl write_effect (\<lambda>_. None) ws" "st = Status_Ok"
    by (simp_all add: map_of.simps(1) [abs_def] fun_eq_iff)
  with r show ?thesis unfolding load_lemma assms(2) by (simp add: status_defs)
qed

lemma load_log:
  assumes "data_log df ws \<or> cut_log df ws"
  shows "\<exists>m mx. LoadAll lib df 0xFF = ((m, mx), Status_Ok) \<and> map_of m = foldl write_effect (\<lambda>_. None) ws"
  using assms
proof
  assume d: "data_log df ws"
  show ?thesis
  proof (cases "df_bytes df")
    case None
    with d show ?thesis by (auto simp: LoadAll_def LoadRecords_def data_log_def)
  next
    case (Some fb)
    with d have "fb = dlog.log_image (map raw_of ws)" "\<forall>r \<in> set (map raw_of ws). rec_valid r"
      by (auto simp: data_log_def df_content_def list_all_iff raw_of_valid)
    then have "scan_all dec_rec fb = map raw_of ws" using dlog.scan_image [of "map raw_of ws"] by simp
    with d load_image [of ws fb lib] show ?thesis by (simp add: LoadAll_def Some data_log_def)
  qed
next
  assume "cut_log df ws"
  then obtain w n where w: "small w" "n < length (enc_rec (raw_of w))" "list_all small ws"
    "df_bytes df = Some (dlog.log_image (map raw_of ws) @ take n (enc_rec (raw_of w)))" by (auto simp: cut_log_def)
  then have "scan_all dec_rec (dlog.log_image (map raw_of ws) @ take n (enc_rec (raw_of w))) = map raw_of ws"
    by (intro dlog.scan_torn) (auto simp: raw_of_valid list_all_iff)
  with load_image [OF w(3) this, of lib] show ?thesis by (simp add: LoadAll_def w(4))
qed

section \<open>A flush and a crash\<close>

lemma flush_entry_log:
  assumes "data_log (fc_datafile c) ws" "small (entry_write (fc_generation c) kv)"
    and "flush_entry lib read ft c kv = Some (c1, st)"
  shows "fc_generation c1 = fc_generation c
    \<and> (status_ok st \<and> data_log (fc_datafile c1) (ws @ [entry_write (fc_generation c) kv])
         \<and> map_of (fc_committed c1) = write_effect (map_of (fc_committed c)) (entry_write (fc_generation c) kv)
     \<or> \<not> status_ok st \<and> (\<exists>i \<le> 1. \<exists>us. us = ws @ take i [entry_write (fc_generation c) kv]
         \<and> (data_log (fc_datafile c1) us \<or> cut_log (fc_datafile c1) us)))"
proof -
  let ?w = "entry_write (fc_generation c) kv"
  obtain df ds where app: "df_Append ft lib (fc_datafile c) (dw_lsn ?w) (dw_key ?w) (dw_value ?w) (dw_deleted ?w) (dw_gen ?w) = (df, ds)"
    by fastforce
  let ?c1 = "c\<lparr>fc_datafile := df\<rparr>"
  note log = data_log_append [OF assms(1,2) app]
  obtain r where r: "bt_Get read (fc_btree c) (fst kv) = Some r"
    using assms(3) by (cases "bt_Get read (fc_btree c) (fst kv)") (simp_all add: flush_entry_alt)
  obtain c2 vs where v: "flush_vcs (fst kv) (me_lsn (snd kv)) (prev_of (Some r)) (publish kv ?c1) = (c2, vs)" by fastforce
  have c2: "fc_datafile c2 = df" "fc_generation c2 = fc_generation c"
    "map_of (fc_committed c2) = write_effect (map_of (fc_committed c)) ?w"
    using flush_vcs_simps [OF v] publish_committed [of kv ?c1 "fc_generation c"] by auto
  show ?thesis
  proof (cases "status_ok ds")
    case True
    with log have "data_log df (ws @ [?w])" by auto
    with True assms(3) c2 show ?thesis
      by (auto simp: flush_entry_alt r app v Let_def status_defs split: if_splits intro!: exI [of _ 1])
  next
    case False
    with log have "data_log df ws \<or> cut_log df ws \<or> data_log df (ws @ [?w])" by auto
    then have "\<exists>i \<le> 1. data_log df (ws @ take i [?w]) \<or> cut_log df (ws @ take i [?w])"
      by (elim disjE) (auto intro: exI [of _ 0] exI [of _ 1])
    with False assms(3) show ?thesis by (auto simp: flush_entry_alt r app Let_def)
  qed
qed

lemma flush_entries_log:
  assumes "data_log (fc_datafile c) ws" "list_all (\<lambda>kv. small (entry_write (fc_generation c) kv)) kvs"
    and "flush_entries lib read fts c kvs = Some (c1, st)"
  shows "\<exists>i \<le> length kvs. \<exists>us. us = ws @ map (entry_write (fc_generation c)) (take i kvs)
    \<and> (data_log (fc_datafile c1) us \<or> cut_log (fc_datafile c1) us)
    \<and> (status_ok st \<longrightarrow> i = length kvs \<and> data_log (fc_datafile c1) us
        \<and> map_of (fc_committed c1) = foldl write_effect (map_of (fc_committed c)) (map (entry_write (fc_generation c)) kvs))"
  using assms
proof (induction kvs arbitrary: c ws fts)
  case (Cons kv kvs)
  let ?w = "entry_write (fc_generation c) kv"
  obtain c2 st2 where e: "flush_entry lib read (fst (next_fault fts)) c kv = Some (c2, st2)"
    using Cons.prems(3) by (cases "flush_entry lib read (fst (next_fault fts)) c kv") auto
  have "small ?w" using Cons.prems(2) by simp
  note step = flush_entry_log [OF Cons.prems(1) this e]
  show ?case
  proof (cases "status_ok st2")
    case True
    with step have c2: "data_log (fc_datafile c2) (ws @ [?w])" "fc_generation c2 = fc_generation c"
      "map_of (fc_committed c2) = write_effect (map_of (fc_committed c)) ?w" by auto
    have "flush_entries lib read (snd (next_fault fts)) c2 kvs = Some (c1, st)" using Cons.prems(3) e True by simp
    from Cons.IH [OF c2(1) _ this] Cons.prems(2) obtain i where
      "i \<le> length kvs" "\<exists>us. us = (ws @ [?w]) @ map (entry_write (fc_generation c)) (take i kvs)
        \<and> (data_log (fc_datafile c1) us \<or> cut_log (fc_datafile c1) us)
        \<and> (status_ok st \<longrightarrow> i = length kvs \<and> data_log (fc_datafile c1) us
          \<and> map_of (fc_committed c1) = foldl write_effect (map_of (fc_committed c2)) (map (entry_write (fc_generation c)) kvs))"
      by (auto simp: c2(2))
    then show ?thesis by (intro exI [of _ "Suc i"]) (auto simp: c2(3))
  next
    case False
    then have "c1 = c2" "st = st2" using Cons.prems(3) e by auto
    with False step obtain i where "i \<le> 1" "data_log (fc_datafile c1) (ws @ take i [?w]) \<or> cut_log (fc_datafile c1) (ws @ take i [?w])"
      by auto
    moreover have "take i [?w] = map (entry_write (fc_generation c)) (take i (kv # kvs))" using \<open>i \<le> 1\<close> by (cases i) auto
    ultimately show ?thesis using False \<open>st = st2\<close> by (intro exI [of _ i]) auto
  qed
qed (auto simp: status_defs)


definition no_pages :: "nat \<Rightarrow> bytes res" where
  "no_pages _ = Inl (Status_NotFound ''page'')"

definition demo_entry :: mem_entry where
  "demo_entry = \<lparr>me_value = [7], me_lsn = 1, me_deleted = False, me_txn_id = 0, me_durable = True\<rparr>"

definition demo_flush :: flusher_context where
  "demo_flush = \<lparr>fc_wal = WalWriter_open None, fc_frozen = [([1], demo_entry)], fc_datafile = DataFile_init,
     fc_btree = PagedBTree_init, fc_vcs = Some empty_vcs, fc_committed = [], fc_stable_lsn = 0, fc_flush_total = 0,
     fc_generation = 0\<rparr>"

lemma demo_flush_simps [simp]:
  "fc_frozen demo_flush = [([1], demo_entry)]" "fc_datafile demo_flush = DataFile_init" "fc_btree demo_flush = PagedBTree_init"
  "fc_vcs demo_flush = Some empty_vcs" "fc_committed demo_flush = []" "fc_stable_lsn demo_flush = 0" "fc_generation demo_flush = 0"
  by (simp_all add: demo_flush_def)

lemma data_log_init: "data_log DataFile_init []"
  by (simp add: data_log_def DataFile_init_def df_content_def)

lemma bt_Get_init: "bt_Get read PagedBTree_init k = Some (Inl (Status_NotFound ''key not in btree''))"
  by (simp add: bt_Get_def PagedBTree_init_def)


section \<open>What a flush publishes\<close>

definition published :: "(bytes \<Rightarrow> 'a option) \<Rightarrow> (mem_entry \<Rightarrow> 'a) \<Rightarrow> memtable \<Rightarrow> bytes \<Rightarrow> 'a option" where
  "published m f mt k = (case mem_Get mt k of None \<Rightarrow> m k | Some e \<Rightarrow> if me_deleted e then None else Some (f e))"

definition lookup_lsn :: "(nat \<Rightarrow> bytes res) \<Rightarrow> paged_btree \<Rightarrow> bytes \<Rightarrow> u64" where
  "lookup_lsn read bt k = prev_of (bt_Get read bt k)"

definition newer_than_chain :: "vcs option \<Rightarrow> bytes \<times> mem_entry \<Rightarrow> bool" where
  "newer_than_chain vo kv \<longleftrightarrow> (case vo of None \<Rightarrow> True | Some v \<Rightarrow> fst kv \<noteq> [] \<and> vcs_Head v (fst kv) < me_lsn (snd kv))"

definition chain_of :: "vcs option \<Rightarrow> bytes \<Rightarrow> version_node list" where
  "chain_of vo k = (case vo of None \<Rightarrow> [] | Some v \<Rightarrow> MergedChain v k)"

definition vcs_opt_inv :: "vcs option \<Rightarrow> bool" where
  "vcs_opt_inv vo \<longleftrightarrow> (case vo of None \<Rightarrow> True | Some v \<Rightarrow> vcs_inv v)"

lemma flush_vcs_ok:
  assumes "vcs_opt_inv (fc_vcs c)" "newer_than_chain (fc_vcs c) (key, e)"
  shows "\<exists>vo. flush_vcs key (me_lsn e) prev c = (c\<lparr>fc_vcs := vo\<rparr>, Status_Ok) \<and> vcs_opt_inv vo
    \<and> (vo = None \<longleftrightarrow> fc_vcs c = None)
    \<and> (\<forall>k. chain_of vo k = (if k = key \<and> fc_vcs c \<noteq> None then chain_of (fc_vcs c) k @ [\<lparr>vn_lsn = me_lsn e, vn_prev = prev\<rparr>]
                             else chain_of (fc_vcs c) k))
    \<and> (\<forall>kv. fst kv \<noteq> key \<longrightarrow> newer_than_chain vo kv = newer_than_chain (fc_vcs c) kv)"
proof (cases "fc_vcs c")
  case None
  then have "flush_vcs key (me_lsn e) prev c = (c\<lparr>fc_vcs := None\<rparr>, Status_Ok)" by (cases c) (simp add: flush_vcs_def)
  with None show ?thesis by (auto simp: vcs_opt_inv_def chain_of_def)
next
  case (Some v)
  obtain v1 st where a: "vcs_Append v key (me_lsn e) prev = (v1, st)" by fastforce
  have inv: "vcs_inv v" using assms(1) Some by (simp add: vcs_opt_inv_def)
  note r = vcs_Append_cases [OF inv a]
  have ok: "status_ok st" "vcs_inv v1"
    "MergedChain v1 = (MergedChain v)(key := MergedChain v key @ [\<lparr>vn_lsn = me_lsn e, vn_prev = prev\<rparr>])"
    using r assms(2) Some by (auto simp: newer_than_chain_def split: if_splits)
  have "st = Status_Ok" using a ok(1) by (auto simp: vcs_Append_def Let_def status_defs split: if_splits)
  moreover have "vcs_Head v1 k = vcs_Head v k" if "k \<noteq> key" for k
    using vcs_Head_merged [OF ok(2), of k] vcs_Head_merged [OF inv, of k] ok(3) that by simp
  ultimately show ?thesis
    using Some a ok by (auto simp: flush_vcs_def vcs_opt_inv_def chain_of_def newer_than_chain_def intro!: exI [of _ "Some v1"])
qed

definition flush_effect ::
  "(nat \<Rightarrow> bytes res) \<Rightarrow> flusher_context \<Rightarrow> memtable \<Rightarrow> flusher_context \<Rightarrow> bool" where
  "flush_effect read c mt c1 \<longleftrightarrow>
     map_of (fc_committed c1) = published (map_of (fc_committed c)) (\<lambda>e. (me_value e, me_lsn e)) mt
     \<and> (\<forall>k. bt_Get read (fc_btree c1) k \<noteq> None)
     \<and> bt_map read (fc_btree c1) = published (bt_map read (fc_btree c)) me_lsn mt
     \<and> vcs_opt_inv (fc_vcs c1) \<and> (fc_vcs c1 = None \<longleftrightarrow> fc_vcs c = None)
     \<and> (fc_vcs c \<noteq> None \<longrightarrow> (\<forall>k. chain_of (fc_vcs c1) k = chain_of (fc_vcs c) k
          @ (case mem_Get mt k of None \<Rightarrow> [] | Some e \<Rightarrow> [\<lparr>vn_lsn = me_lsn e, vn_prev = lookup_lsn read (fc_btree c) k\<rparr>])))
     \<and> fc_stable_lsn c1 = foldl max (fc_stable_lsn c) (map (me_lsn \<circ> snd) mt)"

lemma flush_entry_ok:
  assumes "\<forall>k. bt_Get read (fc_btree c) k \<noteq> None" "vcs_opt_inv (fc_vcs c)" "newer_than_chain (fc_vcs c) kv"
    and "\<not> df_compress (fc_datafile c)"
  shows "\<exists>c1. flush_entry lib read NoFault c kv = Some (c1, Status_Ok)
    \<and> fc_datafile c1 = append_write lib (fc_datafile c) (entry_write (fc_generation c) kv)
    \<and> fc_generation c1 = fc_generation c \<and> flush_effect read c [kv] c1
    \<and> (\<forall>kv1. fst kv1 \<noteq> fst kv \<longrightarrow> newer_than_chain (fc_vcs c1) kv1 = newer_than_chain (fc_vcs c) kv1)
    \<and> (\<forall>k. k \<noteq> fst kv \<longrightarrow> bt_Get read (fc_btree c1) k = bt_Get read (fc_btree c) k)"
proof -
  obtain key e where kv: "kv = (key, e)" by fastforce
  let ?w = "entry_write (fc_generation c) kv"
  obtain r where r: "bt_Get read (fc_btree c) key = Some r" using assms(1) by blast
  have app: "df_Append NoFault lib (fc_datafile c) (dw_lsn ?w) (dw_key ?w) (dw_value ?w) (dw_deleted ?w) (dw_gen ?w)
      = (append_write lib (fc_datafile c) ?w, Status_Ok)"
    by (simp add: append_write_def df_Append_def Let_def split: prod.splits)
  let ?c1 = "publish kv (c\<lparr>fc_datafile := append_write lib (fc_datafile c) ?w\<rparr>)"
  have c1s: "fc_vcs ?c1 = fc_vcs c" by simp
  obtain vo where vo: "flush_vcs key (me_lsn e) (prev_of (Some r)) ?c1 = (?c1\<lparr>fc_vcs := vo\<rparr>, Status_Ok)" "vcs_opt_inv vo"
    "vo = None \<longleftrightarrow> fc_vcs c = None"
    "\<forall>k. chain_of vo k = (if k = key \<and> fc_vcs c \<noteq> None then chain_of (fc_vcs c) k @ [\<lparr>vn_lsn = me_lsn e, vn_prev = prev_of (Some r)\<rparr>]
                             else chain_of (fc_vcs c) k)"
    "\<forall>kv. fst kv \<noteq> key \<longrightarrow> newer_than_chain vo kv = newer_than_chain (fc_vcs c) kv"
    using flush_vcs_ok [of ?c1 key e "prev_of (Some r)", unfolded c1s, OF assms(2) assms(3) [unfolded kv]] by (elim exE conjE)
  let ?c2 = "?c1\<lparr>fc_vcs := vo, fc_stable_lsn := max (fc_stable_lsn c) (me_lsn e)\<rparr>"
  have fl: "flush_entry lib read NoFault c kv = Some (?c2, Status_Ok)"
    using r app vo(1) by (simp add: flush_entry_alt kv Let_def status_defs)
  have bt: "bt_Get read (fc_btree ?c2) k = (if k = key then Some (if me_deleted e then Inl (Status_NotFound ''key deleted in delta'') else Inr (me_lsn e))
      else bt_Get read (fc_btree c) k)" for k
    by (simp add: publish_def kv bt_Get_Put bt_Get_DeleteKey)
  have "map_of (fc_committed ?c2) = published (map_of (fc_committed c)) (\<lambda>e. (me_value e, me_lsn e)) [kv]"
    by (auto simp: published_def publish_def kv mem_Get_def delete_conv' update_conv' fun_eq_iff)
  moreover have "bt_map read (fc_btree ?c2) = published (bt_map read (fc_btree c)) me_lsn [kv]"
    using bt by (auto simp: published_def bt_map_def kv mem_Get_def fun_eq_iff)
  ultimately have "flush_effect read c [kv] ?c2"
    using assms(1) vo bt r by (auto simp: flush_effect_def kv mem_Get_def lookup_lsn_def)
  with fl vo(5) bt show ?thesis by (intro exI [of _ ?c2]) (auto simp: kv)
qed

lemma published_append:
  assumes "mem_Get mt k = None"
  shows "published (published m f [(k, e)]) f mt = published m f ((k, e) # mt)"
  using assms by (auto simp: published_def mem_Get_def fun_eq_iff split: option.split)

lemma flush_effect_trans:
  assumes "flush_effect read c [(key, e)] c1" "flush_effect read c1 mt c2" "mem_Get mt key = None"
    and "\<And>x. x \<noteq> key \<Longrightarrow> lookup_lsn read (fc_btree c1) x = lookup_lsn read (fc_btree c) x"
  shows "flush_effect read c ((key, e) # mt) c2"
proof -
  have m1: "map_of (fc_committed c1) = published (map_of (fc_committed c)) (\<lambda>e. (me_value e, me_lsn e)) [(key, e)]"
    "bt_map read (fc_btree c1) = published (bt_map read (fc_btree c)) me_lsn [(key, e)]"
    "fc_vcs c1 = None \<longleftrightarrow> fc_vcs c = None"
    "fc_stable_lsn c1 = foldl max (fc_stable_lsn c) (map (me_lsn \<circ> snd) [(key, e)])"
    "\<And>k. fc_vcs c \<noteq> None \<Longrightarrow> chain_of (fc_vcs c1) k = chain_of (fc_vcs c) k @ (case mem_Get [(key, e)] k of None \<Rightarrow> []
        | Some e \<Rightarrow> [\<lparr>vn_lsn = me_lsn e, vn_prev = lookup_lsn read (fc_btree c) k\<rparr>])"
    using assms(1) unfolding flush_effect_def by blast+
  have m2: "map_of (fc_committed c2) = published (map_of (fc_committed c1)) (\<lambda>e. (me_value e, me_lsn e)) mt"
    "bt_map read (fc_btree c2) = published (bt_map read (fc_btree c1)) me_lsn mt" "vcs_opt_inv (fc_vcs c2)"
    "fc_vcs c2 = None \<longleftrightarrow> fc_vcs c1 = None" "\<forall>k. bt_Get read (fc_btree c2) k \<noteq> None"
    "fc_stable_lsn c2 = foldl max (fc_stable_lsn c1) (map (me_lsn \<circ> snd) mt)"
    "\<And>k. fc_vcs c1 \<noteq> None \<Longrightarrow> chain_of (fc_vcs c2) k = chain_of (fc_vcs c1) k @ (case mem_Get mt k of None \<Rightarrow> []
        | Some e \<Rightarrow> [\<lparr>vn_lsn = me_lsn e, vn_prev = lookup_lsn read (fc_btree c1) k\<rparr>])"
    using assms(2) unfolding flush_effect_def by blast+
  have "map_of (fc_committed c2) = published (map_of (fc_committed c)) (\<lambda>e. (me_value e, me_lsn e)) ((key, e) # mt)"
    unfolding m2(1) m1(1) by (rule published_append [OF assms(3)])
  moreover have "bt_map read (fc_btree c2) = published (bt_map read (fc_btree c)) me_lsn ((key, e) # mt)"
    unfolding m2(2) m1(2) by (rule published_append [OF assms(3)])
  moreover have "chain_of (fc_vcs c2) k = chain_of (fc_vcs c) k
      @ (case mem_Get ((key, e) # mt) k of None \<Rightarrow> []
         | Some e \<Rightarrow> [\<lparr>vn_lsn = me_lsn e, vn_prev = lookup_lsn read (fc_btree c) k\<rparr>])" if "fc_vcs c \<noteq> None" for k
  proof (cases "k = key")
    case True
    then show ?thesis using m1(3,5) m2(7) that assms(3) by (simp add: mem_Get_def)
  next
    case False
    then show ?thesis using m1(3) m1(5) [of k] m2(7) [of k] that assms(4) [of k] by (simp add: mem_Get_def cong: option.case_cong)
  qed
  ultimately show ?thesis using m1(3,4) m2(3-6) unfolding flush_effect_def by simp
qed

lemma flush_entries_ok:
  assumes "\<forall>k. bt_Get read (fc_btree c) k \<noteq> None" "vcs_opt_inv (fc_vcs c)" "list_all (newer_than_chain (fc_vcs c)) kvs"
    and "\<not> df_compress (fc_datafile c)" "distinct (map fst kvs)"
  shows "\<exists>c1. flush_entries lib read [] c kvs = Some (c1, Status_Ok) \<and> flush_effect read c kvs c1
    \<and> fc_datafile c1 = foldl (append_write lib) (fc_datafile c) (map (entry_write (fc_generation c)) kvs)"
  using assms
proof (induction kvs arbitrary: c)
  case Nil
  then show ?case by (auto simp: flush_effect_def published_def mem_Get_def)
next
  case (Cons kv kvs)
  obtain key e where kv: "kv = (key, e)" by fastforce
  obtain c1 where c1: "flush_entry lib read NoFault c kv = Some (c1, Status_Ok)"
    "fc_datafile c1 = append_write lib (fc_datafile c) (entry_write (fc_generation c) kv)"
    "fc_generation c1 = fc_generation c" "flush_effect read c [kv] c1"
    "\<forall>kv1. fst kv1 \<noteq> fst kv \<longrightarrow> newer_than_chain (fc_vcs c1) kv1 = newer_than_chain (fc_vcs c) kv1"
    "\<forall>k. k \<noteq> fst kv \<longrightarrow> bt_Get read (fc_btree c1) k = bt_Get read (fc_btree c) k"
    using flush_entry_ok [of read c kv lib] Cons.prems by auto
  have "list_all (newer_than_chain (fc_vcs c1)) kvs"
    using Cons.prems(3,5) c1(5) by (auto simp: list_all_iff) (metis fst_conv image_eqI)
  then obtain c2 where c2: "flush_entries lib read [] c1 kvs = Some (c2, Status_Ok)" "flush_effect read c1 kvs c2"
    "fc_datafile c2 = foldl (append_write lib) (fc_datafile c1) (map (entry_write (fc_generation c)) kvs)"
    using Cons.IH [of c1] c1 Cons.prems append_write_raw(2) by (auto simp: flush_effect_def)
  have "mem_Get kvs key = None" using Cons.prems(5) kv by (simp add: mem_Get_def map_of_eq_None_iff)
  moreover have "lookup_lsn read (fc_btree c1) x = lookup_lsn read (fc_btree c) x" if "x \<noteq> key" for x
    using c1(6) that kv by (simp add: lookup_lsn_def)
  ultimately have "flush_effect read c (kv # kvs) c2"
    using flush_effect_trans [of read c key e c1 kvs c2] c1(4) c2(2) by (simp add: kv)
  with c1(1,2) c2 show ?case by (auto simp: next_fault_def status_defs)
qed

lemma flush_effect_other [simp]:
  "flush_effect read (c\<lparr>fc_wal := w\<rparr>) mt c1 = flush_effect read c mt c1"
  "flush_effect read c mt (c1\<lparr>fc_frozen := fr, fc_flush_total := n\<rparr>) = flush_effect read c mt c1"
  by (simp_all add: flush_effect_def cong: option.case_cong)

lemma flush_ok:
  assumes "\<forall>k. bt_Get read (fc_btree c) k \<noteq> None" "vcs_opt_inv (fc_vcs c)"
    and "list_all (newer_than_chain (fc_vcs c)) (fc_frozen c)" "\<not> df_compress (fc_datafile c)" "mem_inv (fc_frozen c)"
  shows "\<exists>c1. Flush lib read True [] c = Some (c1, Status_Ok) \<and> fc_frozen c1 = [] \<and> flush_effect read c (fc_frozen c) c1
    \<and> fc_datafile c1 = foldl (append_write lib) (fc_datafile c) (map (entry_write (fc_generation c)) (fc_frozen c))"
proof -
  let ?c = "c\<lparr>fc_wal := wal_Fsync (fc_wal c)\<rparr>"
  obtain c1 where c1: "flush_entries lib read [] ?c (fc_frozen c) = Some (c1, Status_Ok)" "flush_effect read c (fc_frozen c) c1"
    "fc_datafile c1 = foldl (append_write lib) (fc_datafile c) (map (entry_write (fc_generation c)) (fc_frozen c))"
    using flush_entries_ok [of read ?c "fc_frozen c" lib] assms by (auto simp: mem_inv_def)
  then show ?thesis by (auto simp: Flush_alt mem_Snapshot_def mem_Clear_def status_defs)
qed

text \<open>
  C34. What a flush publishes. On a context whose index lookups return and whose entries are newer than the
  chains of their keys, a flush without faults succeeds, empties the frozen table, and makes the committed
  map, the index and the version chains agree: for every key of the table the committed map holds the value
  and LSN of the entry, the index its LSN (neither, for a deletion), and the chain of the key grows by one
  version that names the LSN the index held before; the other keys keep theirs, and the stable LSN rises to
  the largest LSN written.
\<close>

theorem flush_publishes:
  assumes "\<forall>k. bt_Get read (fc_btree c) k \<noteq> None" "fc_vcs c = Some v" "vcs_inv v"
    and "list_all (newer_than_chain (fc_vcs c)) (fc_frozen c)" "\<not> df_compress (fc_datafile c)" "mem_inv (fc_frozen c)"
  shows "\<exists>c1 v1. Flush lib read True [] c = Some (c1, Status_Ok) \<and> fc_frozen c1 = [] \<and> fc_vcs c1 = Some v1 \<and> vcs_inv v1
    \<and> map_of (fc_committed c1) k = (case mem_Get (fc_frozen c) k of None \<Rightarrow> map_of (fc_committed c) k
         | Some e \<Rightarrow> if me_deleted e then None else Some (me_value e, me_lsn e))
    \<and> bt_map read (fc_btree c1) k = (case mem_Get (fc_frozen c) k of None \<Rightarrow> bt_map read (fc_btree c) k
         | Some e \<Rightarrow> if me_deleted e then None else Some (me_lsn e))
    \<and> MergedChain v1 k = MergedChain v k @ (case mem_Get (fc_frozen c) k of None \<Rightarrow> []
         | Some e \<Rightarrow> [\<lparr>vn_lsn = me_lsn e, vn_prev = lookup_lsn read (fc_btree c) k\<rparr>])
    \<and> fc_stable_lsn c1 = foldl max (fc_stable_lsn c) (map (me_lsn \<circ> snd) (fc_frozen c))"
proof -
  obtain c1 where f: "Flush lib read True [] c = Some (c1, Status_Ok)" "fc_frozen c1 = []" "flush_effect read c (fc_frozen c) c1"
    using flush_ok [of read c lib] assms by (auto simp: vcs_opt_inv_def)
  then obtain v1 where "fc_vcs c1 = Some v1" using assms(2) by (auto simp: flush_effect_def)
  with f assms(2) show ?thesis
    by (intro exI [of _ c1] exI [of _ v1]) (simp add: flush_effect_def published_def vcs_opt_inv_def chain_of_def)
qed

theorem flush_publishes_witness:
  "\<exists>c1 v1. Flush no_lzma no_pages True [] demo_flush = Some (c1, Status_Ok) \<and> map_of (fc_committed c1) [1] = Some ([7], 1)
    \<and> fc_vcs c1 = Some v1 \<and> MergedChain v1 [1] = [\<lparr>vn_lsn = 1, vn_prev = 0\<rparr>]"
  using flush_publishes [of no_pages demo_flush empty_vcs no_lzma "[1]"] vcs_Head_merged [OF empty_vcs_inv(1), of "[1]"]
  by (auto simp: bt_Get_init empty_vcs_inv newer_than_chain_def demo_entry_def DataFile_init_def mem_inv_def mem_Get_def
      lookup_lsn_def prev_of_def)

text \<open>
  A flush does not look at the durability flag: the write of a transaction that has not committed is
  put into the data file and the committed map like any other.
\<close>

theorem flush_commits_uncommitted:
  assumes "\<forall>k. bt_Get read (fc_btree c) k \<noteq> None" "vcs_opt_inv (fc_vcs c)"
    and "list_all (newer_than_chain (fc_vcs c)) (fc_frozen c)" "\<not> df_compress (fc_datafile c)" "mem_inv (fc_frozen c)"
    and "mem_Get (fc_frozen c) k = Some e" "\<not> me_durable e" "\<not> me_deleted e"
  shows "\<exists>c1. Flush lib read True [] c = Some (c1, Status_Ok) \<and> map_of (fc_committed c1) k = Some (me_value e, me_lsn e)"
  using flush_ok [OF assms(1-5), of lib] assms(6,8) by (auto simp: flush_effect_def published_def)

theorem flush_commits_uncommitted_witness:
  "\<exists>c1. Flush no_lzma no_pages True [] (demo_flush\<lparr>fc_frozen := mem_Put [1] [7] 1 9 False []\<rparr>) = Some (c1, Status_Ok)
    \<and> map_of (fc_committed c1) [1] = Some ([7], 1)"
  using flush_commits_uncommitted [of no_pages "demo_flush\<lparr>fc_frozen := mem_Put [1] [7] 1 9 False []\<rparr>" "[1]" _ no_lzma]
    vcs_Head_merged [OF empty_vcs_inv(1), of "[1]"]
  by (auto simp: bt_Get_init empty_vcs_inv newer_than_chain_def DataFile_init_def mem_inv_def mem_Get_def mem_Put_def vcs_opt_inv_def)

section \<open>A flush that failed\<close>

lemma flush_vcs_heads:
  assumes "fc_vcs c = Some v" "vcs_inv v" "flush_vcs key lsn prev c = (c1, st)"
  shows "\<exists>v1. c1 = c\<lparr>fc_vcs := Some v1\<rparr> \<and> vcs_inv v1 \<and> (\<forall>k. vcs_Head v k \<le> vcs_Head v1 k)
    \<and> (status_ok st \<longrightarrow> lsn \<le> vcs_Head v1 key) \<and> (status_ok st \<longleftrightarrow> key \<noteq> [] \<and> vcs_Head v key < lsn)"
proof -
  obtain v1 where a: "vcs_Append v key lsn prev = (v1, st)" "c1 = c\<lparr>fc_vcs := Some v1\<rparr>"
    using assms(1,3) by (auto simp: flush_vcs_def Let_def split: prod.splits)
  note r = vcs_Append_cases [OF assms(2) a(1)]
  have h: "vcs_Head v1 k = (if MergedChain v1 k = [] then 0 else vn_lsn (last (MergedChain v1 k)))"
    "vcs_Head v k = (if MergedChain v k = [] then 0 else vn_lsn (last (MergedChain v k)))" for k
    using vcs_Head_merged [of v1] vcs_Head_merged [OF assms(2)] r by auto
  show ?thesis
    using a(2) r by (intro exI [of _ v1]) (cases "status_ok st"; auto simp: h fun_upd_def split: if_splits)
qed

lemma flush_entry_heads:
  assumes "fc_vcs c = Some v" "vcs_inv v" "flush_entry lib read ft c kv = Some (c1, st)"
  shows "\<exists>v1. fc_vcs c1 = Some v1 \<and> vcs_inv v1 \<and> (\<forall>k. vcs_Head v k \<le> vcs_Head v1 k) \<and> fc_frozen c1 = fc_frozen c
    \<and> (status_ok st \<longrightarrow> me_lsn (snd kv) \<le> vcs_Head v1 (fst kv)) \<and> (status_ok st \<longrightarrow> vcs_Head v (fst kv) < me_lsn (snd kv))"
proof -
  let ?w = "entry_write (fc_generation c) kv"
  obtain df ds where app: "df_Append ft lib (fc_datafile c) (dw_lsn ?w) (dw_key ?w) (dw_value ?w) (dw_deleted ?w) (dw_gen ?w) = (df, ds)"
    by fastforce
  obtain r where r: "bt_Get read (fc_btree c) (fst kv) = Some r"
    using assms(3) by (cases "bt_Get read (fc_btree c) (fst kv)") (simp_all add: flush_entry_alt)
  let ?c1 = "publish kv (c\<lparr>fc_datafile := df\<rparr>)"
  obtain c2 vs where v: "flush_vcs (fst kv) (me_lsn (snd kv)) (prev_of (Some r)) ?c1 = (c2, vs)" by fastforce
  have "fc_vcs ?c1 = Some v" using assms(1) by simp
  from flush_vcs_heads [OF this assms(2) v] assms show ?thesis
    by (cases "status_ok ds") (auto simp: flush_entry_alt r app v Let_def status_defs split: if_splits)
qed

lemma flush_entries_heads:
  assumes "fc_vcs c = Some v" "vcs_inv v" "flush_entries lib read fts c kvs = Some (c1, st)"
  shows "\<exists>v1. fc_vcs c1 = Some v1 \<and> vcs_inv v1 \<and> (\<forall>k. vcs_Head v k \<le> vcs_Head v1 k) \<and> fc_frozen c1 = fc_frozen c"
  using assms
proof (induction kvs arbitrary: c v fts)
  case (Cons kv kvs)
  obtain c2 st2 where e: "flush_entry lib read (fst (next_fault fts)) c kv = Some (c2, st2)"
    using Cons.prems(3) by (cases "flush_entry lib read (fst (next_fault fts)) c kv") auto
  obtain v2 where v2: "fc_vcs c2 = Some v2" "vcs_inv v2" "\<forall>k. vcs_Head v k \<le> vcs_Head v2 k" "fc_frozen c2 = fc_frozen c"
    using flush_entry_heads [OF Cons.prems(1,2) e] by auto
  show ?case
  proof (cases "status_ok st2")
    case True
    then have "flush_entries lib read (snd (next_fault fts)) c2 kvs = Some (c1, st)" using Cons.prems(3) e by simp
    from Cons.IH [OF v2(1,2) this] v2 show ?thesis by (metis order_trans)
  next
    case False
    then show ?thesis using v2 Cons.prems(3) e by auto
  qed
qed auto

text \<open>
  A flush that fails after its first entry cannot be repeated: the version chain of that entry's key
  already holds its LSN, so every later flush of the same table is refused, whatever its appends do, and the
  table is never cleared.
\<close>

theorem failed_flush_not_repeatable:
  assumes "fc_vcs c = Some v" "vcs_inv v" "fc_frozen c = kv # kvs"
    and "flush_entry lib read ft (c\<lparr>fc_wal := wal_Fsync (fc_wal c)\<rparr>) kv = Some (c0, Status_Ok)"
    and "Flush lib read True (ft # fts) c = Some (c1, st)" "\<not> status_ok st"
    and "Flush lib read sync fts2 c1 = Some (c2, st2)"
  shows "\<not> status_ok st2 \<and> fc_frozen c2 = kv # kvs"
proof -
  have "fc_vcs (c\<lparr>fc_wal := wal_Fsync (fc_wal c)\<rparr>) = Some v" using assms(1) by simp
  from flush_entry_heads [OF this assms(2,4)] obtain v0 where v0: "fc_vcs c0 = Some v0" "vcs_inv v0"
    "me_lsn (snd kv) \<le> vcs_Head v0 (fst kv)" "fc_frozen c0 = kv # kvs" using assms(3) by (auto simp: status_defs)
  have e: "flush_entries lib read fts c0 kvs = Some (c1, st)"
    using assms(3-6) by (cases "flush_entries lib read fts c0 kvs")
      (auto simp: Flush_alt mem_Snapshot_def next_fault_def status_defs split: if_splits)
  from flush_entries_heads [OF v0(1,2) e] obtain v1 where v1: "fc_vcs c1 = Some v1" "vcs_inv v1"
    "vcs_Head v0 (fst kv) \<le> vcs_Head v1 (fst kv)" "fc_frozen c1 = kv # kvs" using v0(4) by auto
  show ?thesis
  proof (cases sync)
    case False
    then show ?thesis using assms(7) v1(4) by (auto simp: Flush_alt Let_def status_defs)
  next
    case sync: True
    let ?c1 = "c1\<lparr>fc_wal := wal_Fsync (fc_wal c1)\<rparr>"
    obtain c3 st3 where e3: "flush_entries lib read fts2 ?c1 (kv # kvs) = Some (c3, st3)"
      using assms(7) sync v1(4) by (cases "flush_entries lib read fts2 ?c1 (kv # kvs)") (auto simp: Flush_alt Let_def mem_Snapshot_def simp del: flush_entries.simps)
    obtain c4 st4 where e4: "flush_entry lib read (fst (next_fault fts2)) ?c1 kv = Some (c4, st4)"
      using e3 by (cases "flush_entry lib read (fst (next_fault fts2)) ?c1 kv") auto
    have "fc_vcs ?c1 = Some v1" using v1(1) by simp
    from flush_entry_heads [OF this v1(2) e4] v0(3) v1(3,4) have "\<not> status_ok st4" "fc_frozen c4 = kv # kvs"
      by (auto dest: order_trans simp: not_less)
    then have "c3 = c4" "st3 = st4" using e3 e4 by auto
    then show ?thesis
      using \<open>\<not> status_ok st4\<close> \<open>fc_frozen c4 = kv # kvs\<close> e3 assms(7) sync v1(4)
      by (auto simp: Flush_alt Let_def mem_Snapshot_def simp del: flush_entries.simps)
  qed
qed

text \<open>A flush returns whenever the lookups in the index return.\<close>

lemma flush_entry_returns:
  assumes "\<forall>k. bt_Get read (fc_btree c) k \<noteq> None"
  shows "\<exists>c1 st. flush_entry lib read ft c kv = Some (c1, st) \<and> (\<forall>k. bt_Get read (fc_btree c1) k \<noteq> None)"
proof -
  obtain r where r: "bt_Get read (fc_btree c) (fst kv) = Some r" using assms by blast
  let ?w = "entry_write (fc_generation c) kv"
  obtain df ds where app: "df_Append ft lib (fc_datafile c) (dw_lsn ?w) (dw_key ?w) (dw_value ?w) (dw_deleted ?w) (dw_gen ?w) = (df, ds)"
    by fastforce
  let ?c1 = "publish kv (c\<lparr>fc_datafile := df\<rparr>)"
  obtain c2 vs where v: "flush_vcs (fst kv) (me_lsn (snd kv)) (prev_of (Some r)) ?c1 = (c2, vs)" by fastforce
  have "\<forall>k. bt_Get read (fc_btree c2) k \<noteq> None"
    using flush_vcs_simps [OF v] assms by (auto simp: publish_def bt_Get_Put bt_Get_DeleteKey)
  then show ?thesis using assms by (simp add: flush_entry_alt r app v Let_def)
qed

lemma flush_entries_returns:
  "\<forall>k. bt_Get read (fc_btree c) k \<noteq> None \<Longrightarrow>
    \<exists>c1 st. flush_entries lib read fts c kvs = Some (c1, st) \<and> (\<forall>k. bt_Get read (fc_btree c1) k \<noteq> None)"
proof (induction kvs arbitrary: c fts)
  case (Cons kv kvs)
  obtain c1 st where e: "flush_entry lib read (fst (next_fault fts)) c kv = Some (c1, st)" "\<forall>k. bt_Get read (fc_btree c1) k \<noteq> None"
    using flush_entry_returns [OF Cons.prems] by blast
  with Cons.IH [OF e(2)] show ?case by (cases "status_ok st") auto
qed auto

lemma flush_returns:
  assumes "\<forall>k. bt_Get read (fc_btree c) k \<noteq> None"
  shows "\<exists>c1 st. Flush lib read sync fts c = Some (c1, st) \<and> (\<forall>k. bt_Get read (fc_btree c1) k \<noteq> None)"
proof -
  obtain c1 st where "flush_entries lib read fts (c\<lparr>fc_wal := wal_Fsync (fc_wal c)\<rparr>) (fc_frozen c) = Some (c1, st)"
    "\<forall>k. bt_Get read (fc_btree c1) k \<noteq> None"
    using flush_entries_returns [of read "c\<lparr>fc_wal := wal_Fsync (fc_wal c)\<rparr>" lib fts "fc_frozen c"] assms by auto
  with assms show ?thesis by (cases sync) (auto simp: Flush_alt Let_def mem_Snapshot_def)
qed

definition demo_two :: flusher_context where
  "demo_two = demo_flush\<lparr>fc_frozen := [([1], demo_entry), ([2], demo_entry)]\<rparr>"

theorem failed_flush_not_repeatable_witness:
  "\<exists>c1 st c2 st2. Flush no_lzma no_pages True [NoFault, Torn 5] demo_two = Some (c1, st)
    \<and> Flush no_lzma no_pages True [] c1 = Some (c2, st2) \<and> \<not> status_ok st2 \<and> fc_frozen c2 = fc_frozen demo_two"
proof -
  let ?c = "demo_two\<lparr>fc_wal := wal_Fsync (fc_wal demo_two)\<rparr>" and ?kv = "([1], demo_entry)"
  have gets: "\<forall>k. bt_Get no_pages (fc_btree ?c) k \<noteq> None" by (simp add: demo_two_def bt_Get_init)
  have "newer_than_chain (fc_vcs ?c) ?kv"
    using vcs_Head_merged [OF empty_vcs_inv(1), of "[1]"] by (simp add: demo_two_def newer_than_chain_def demo_entry_def empty_vcs_inv)
  then obtain c0 where c0: "flush_entry no_lzma no_pages NoFault ?c ?kv = Some (c0, Status_Ok)"
    "fc_datafile c0 = append_write no_lzma DataFile_init (entry_write 0 ?kv)" "\<forall>k. bt_Get no_pages (fc_btree c0) k \<noteq> None"
    using flush_entry_ok [of no_pages ?c ?kv no_lzma] gets
    by (auto simp: demo_two_def vcs_opt_inv_def empty_vcs_inv DataFile_init_def flush_effect_def)
  obtain r where r: "bt_Get no_pages (fc_btree c0) [2] = Some r" using c0(3) by blast
  have "\<exists>c1 st. flush_entry no_lzma no_pages (Torn 5) c0 ([2], demo_entry) = Some (c1, st) \<and> \<not> status_ok st"
    by (auto simp: flush_entry_alt r df_Append_def Let_def status_defs split: prod.splits)
  then obtain c1 st where "flush_entry no_lzma no_pages (Torn 5) c0 ([2], demo_entry) = Some (c1, st)" "\<not> status_ok st" by blast
  then have f1: "Flush no_lzma no_pages True [NoFault, Torn 5] demo_two = Some (c1, st)" "\<not> status_ok st"
    using c0(1) by (simp_all add: Flush_alt mem_Snapshot_def next_fault_def demo_two_def status_defs)
  have "\<forall>k. bt_Get no_pages (fc_btree c1) k \<noteq> None"
    using flush_returns [of no_pages demo_two no_lzma True "[NoFault, Torn 5]"] f1 gets by simp
  then obtain c2 st2 where f2: "Flush no_lzma no_pages True [] c1 = Some (c2, st2)" using flush_returns by blast
  have "fc_frozen demo_two = [?kv, ([2], demo_entry)]" "fc_vcs demo_two = Some empty_vcs" by (simp_all add: demo_two_def)
  from failed_flush_not_repeatable [OF this(2) empty_vcs_inv(1) this(1) c0(1) f1 f2] f1 f2 show ?thesis
    by (auto simp: demo_two_def)
qed

text \<open>
  A torn append swallows the next ones. The file is not cut back after a torn write, neither by the append nor
  when it is opened again (within the process the failed stream refuses further appends): when the header
  and part of the payload of a record reached the file, the loader takes the missing bytes from what is
  appended next. While this is shorter than what is missing, the record appended with success
  after the torn one is lost to a recovery, which loads only the records before it.
\<close>

theorem torn_append_swallows_next:
  assumes "data_log df ws" "small w" "20 \<le> n" "n + length (enc_rec (raw_of w2)) < length (enc_rec (raw_of w))"
    and "df1 = fst (df_Append (Torn n) lib df (dw_lsn w) (dw_key w) (dw_value w) (dw_deleted w) (dw_gen w))"
  shows "\<exists>m mx. df_Append NoFault lib df1 (dw_lsn w2) (dw_key w2) (dw_value w2) (dw_deleted w2) (dw_gen w2)
        = (append_write lib df1 w2, Status_Ok)
    \<and> LoadAll lib (append_write lib df1 w2) 0xFF = ((m, mx), Status_Ok) \<and> map_of m = foldl write_effect Map.empty ws"
proof -
  let ?tail = "take n (enc_rec (raw_of w)) @ enc_rec (raw_of w2)"
  have df1: "\<not> df_compress df1" "df_bytes df1 = Some (dlog.log_image (map raw_of ws) @ take n (enc_rec (raw_of w)))"
    using assms(1,5) by (auto simp: data_log_def df_Append_def stored_form_def enc_rec_def raw_of_def Let_def)
  have fb: "df_bytes (append_write lib df1 w2) = Some (dlog.log_image (map raw_of ws) @ ?tail)"
    using append_write_raw [OF df1(1), of lib w2] df1(2) by (auto simp: df_content_def split: option.splits)
  have h: "?tail = enc_hdr (rr_hdr (raw_of w)) @ take (n - 20) (dw_key w @ dw_value w) @ enc_rec (raw_of w2)"
    using assms(3) by (simp add: enc_rec_def raw_of_def)
  have l: "length (enc_rec (raw_of w)) = 20 + (length (dw_key w) + length (dw_value w))"
    by (simp add: enc_rec_def raw_of_def)
  have "dec_rec ?tail = None"
    unfolding h using assms(2-4) l
    by (simp add: dec_rec_def kHeaderSize_def read_enc_hdr Let_def raw_of_def small_def unat_word_of_nat_16)
  moreover have "\<forall>r \<in> set (map raw_of ws). rec_valid r" using assms(1) by (auto simp: data_log_def list_all_iff raw_of_valid)
  ultimately have "scan_all dec_rec (dlog.log_image (map raw_of ws) @ ?tail) = map raw_of ws" by (intro dlog.scan_image_tail)
  from load_image [OF _ this, of lib] assms(1) obtain m mx where "LoadAll lib (append_write lib df1 w2) 0xFF = ((m, mx), Status_Ok)"
    "map_of m = foldl write_effect Map.empty ws" by (auto simp: LoadAll_def fb data_log_def)
  moreover have "df_Append NoFault lib df1 (dw_lsn w2) (dw_key w2) (dw_value w2) (dw_deleted w2) (dw_gen w2)
      = (append_write lib df1 w2, Status_Ok)"
    by (simp add: append_write_def df_Append_def Let_def split: prod.splits)
  ultimately show ?thesis by blast
qed

theorem torn_append_swallows_next_witness:
  "\<exists>m mx. LoadAll no_lzma (append_write no_lzma (fst (df_Append (Torn 22) no_lzma DataFile_init 1 [1] (replicate 40 7) False 0))
      \<lparr>dw_lsn = 2, dw_key = [2], dw_value = [8], dw_deleted = False, dw_gen = 0\<rparr>) 0xFF = ((m, mx), Status_Ok) \<and> map_of m = Map.empty"
  using torn_append_swallows_next [OF data_log_init, of "\<lparr>dw_lsn = 1, dw_key = [1], dw_value = replicate 40 7, dw_deleted = False, dw_gen = 0\<rparr>" 22
      "\<lparr>dw_lsn = 2, dw_key = [2], dw_value = [8], dw_deleted = False, dw_gen = 0\<rparr>" _ no_lzma, OF _ _ _ refl]
  by (simp add: small_def enc_rec_def raw_of_def)

end
