(* ===== verification/DataIndex.thy ===== *)
theory DataIndex
  imports Flusher
begin

text \<open>
  The LSN index of the data file beside its log of writes: appends keep it pointing at every record, a flush keeps
  it so, its saved form loads back, and a read through it finds the value the log gives a key.
\<close>

section \<open>An index of a log\<close>

text \<open>Every record is found at its offset, by an LSN of its own; the offsets lie in the file.\<close>

definition indexed :: "datafile \<Rightarrow> df_write list \<Rightarrow> bool" where
  "indexed df ws \<longleftrightarrow> distinct (map dw_lsn ws) \<and> distinct (map fst (df_index df)) \<and> length (df_index df) \<le> length ws
     \<and> (\<forall>us w vs. ws = us @ w # vs \<longrightarrow> idx_Lookup (df_index df) (dw_lsn w) = Some (length (dlog.log_image (map raw_of us))))
     \<and> (\<forall>e \<in> set (df_index df). snd e \<le> df_FileSize df)"

lemma indexed_init: "indexed DataFile_init []"
  by (simp add: indexed_def DataFile_init_def)

lemma snoc_split: "ws @ [w] = us @ x # vs \<Longrightarrow> us = ws \<and> x = w \<and> vs = [] \<or> (\<exists>vs1. vs = vs1 @ [w] \<and> ws = us @ x # vs1)"
  by (cases vs rule: rev_cases) auto

lemma set_update_subset: "set (AList.update k v m) \<subseteq> insert (k, v) (set m)"
  by (induction m) auto

lemma length_update_le: "length (AList.update k v m) \<le> Suc (length m)"
  by (induction m) auto

lemma FileSize_content: "df_FileSize df = length (df_content df)"
  by (simp add: df_FileSize_def df_content_def split: option.split)

lemma indexed_append:
  assumes "data_log df ws" "indexed df ws" "dw_lsn w \<notin> dw_lsn ` set ws"
  shows "indexed (append_write lib df w) (ws @ [w])"
proof -
  let ?df = "append_write lib df w"
  have c: "\<not> df_compress df" "df_content df = dlog.log_image (map raw_of ws)" using assms(1) by (simp_all add: data_log_def)
  note a = append_write_raw [OF c(1), of lib w]
  have size: "df_FileSize df = length (dlog.log_image (map raw_of ws))" "df_FileSize df \<le> df_FileSize ?df"
    using a(1) c(2) by (simp_all add: FileSize_content)
  have ix: "df_index ?df = AList.update (dw_lsn w) (df_FileSize df) (df_index df)" using a(4) by (simp add: idx_Update_def)
  have "idx_Lookup (df_index ?df) (dw_lsn x) = Some (length (dlog.log_image (map raw_of us)))" if "ws @ [w] = us @ x # vs" for us x vs
    using snoc_split [OF that]
  proof
    assume "us = ws \<and> x = w \<and> vs = []"
    then show ?thesis by (simp add: ix idx_Lookup_def update_conv' size)
  next
    assume "\<exists>vs1. vs = vs1 @ [w] \<and> ws = us @ x # vs1"
    then obtain vs1 where ws: "ws = us @ x # vs1" by blast
    then have "dw_lsn x \<noteq> dw_lsn w" using assms(3) by auto
    moreover have "idx_Lookup (df_index df) (dw_lsn x) = Some (length (dlog.log_image (map raw_of us)))"
      using assms(2) ws unfolding indexed_def by blast
    ultimately show ?thesis by (simp add: ix idx_Lookup_def update_conv')
  qed
  moreover have "\<forall>e \<in> set (df_index ?df). snd e \<le> df_FileSize ?df"
    using set_update_subset [of "dw_lsn w" "df_FileSize df" "df_index df"] assms(2) size(2)
    unfolding ix indexed_def by force
  moreover have "length (df_index ?df) \<le> length (ws @ [w])"
    using length_update_le [of "dw_lsn w" "df_FileSize df" "df_index df"] assms(2) by (simp add: ix indexed_def)
  ultimately show ?thesis
    using assms(2,3) by (simp add: indexed_def ix distinct_update)
qed

text \<open>The write a key owes its value to.\<close>

lemma last_write:
  assumes "foldl write_effect (\<lambda>_. None) ws key = Some (value, lsn)"
  shows "\<exists>us w vs. ws = us @ w # vs \<and> dw_key w = key \<and> dw_value w = value \<and> dw_lsn w = lsn \<and> \<not> dw_deleted w"
  using assms
proof (induction ws rule: rev_induct)
  case (snoc w ws)
  show ?case
  proof (cases "dw_key w = key")
    case True
    with snoc.prems have "dw_value w = value" "dw_lsn w = lsn" "\<not> dw_deleted w"
      by (auto simp: write_effect.simps split: if_splits)
    with True show ?thesis by blast
  next
    case False
    then have "write_effect f w key = f key" for f by (simp add: write_effect.simps)
    with snoc.prems have "foldl write_effect (\<lambda>_. None) ws key = Some (value, lsn)" by simp
    from snoc.IH [OF this] show ?thesis by (metis append_Cons append_assoc)
  qed
qed simp

lemma read_indexed:
  assumes "data_log df ws" "indexed df ws" "foldl write_effect (\<lambda>_. None) ws key = Some (value, lsn)"
    and "df_bytes df1 = df_bytes df" "idx_Lookup (df_index df1) = idx_Lookup (df_index df)"
  shows "ReadByLsn lib df1 lsn 0xFF = Inr value"
proof -
  obtain us w vs where w: "ws = us @ w # vs" "dw_value w = value" "dw_lsn w = lsn" "\<not> dw_deleted w"
    using last_write [OF assms(3)] by blast
  have "idx_Lookup (df_index df1) lsn = Some (length (dlog.log_image (map raw_of us)))"
    using assms(2,5) w(1,3) by (auto simp: indexed_def)
  moreover have "df_bytes df1 = Some (dlog.log_image (map raw_of us) @ enc_rec (raw_of w) @ dlog.log_image (map raw_of vs))" "small w"
    using assms(1,4) w(1) by (auto simp: data_log_def df_content_def list_all_iff split: option.splits)
  ultimately show ?thesis
    using ReadRecordAt_raw [of df1 "dlog.log_image (map raw_of us)" w _ "0xFF" lib] w(2,4) by (simp add: ReadByLsn_def)
qed

section \<open>The saved index\<close>

lemma didx_entries_enc:
  assumes "\<forall>e \<in> set es. snd e < 2 ^ 64"
  shows "didx_entries (length es) (concat (map (\<lambda>(lsn, off). put_u64 lsn @ put_u64 (word_of_nat off)) es)) ix
    = Inr (foldl (\<lambda>ix (lsn, off). idx_Update off lsn ix) ix es)"
  using assms
proof (induction es arbitrary: ix)
  case (Cons e es)
  obtain lsn off where e: "e = (lsn, off)" by fastforce
  have "unat (word_of_nat off :: u64) = off" using Cons.prems e by (simp add: unat_of_nat)
  with Cons e show ?case by simp
qed simp

lemma foldl_update_lookup:
  "distinct (map fst es) \<Longrightarrow> map_of (foldl (\<lambda>ix (lsn, off). idx_Update off lsn ix) ix es) = map_of ix ++ map_of es"
proof (induction es arbitrary: ix)
  case (Cons e es)
  obtain lsn off where e: "e = (lsn, off)" by fastforce
  have "map_of es lsn = None" using Cons.prems e by (simp add: map_of_eq_None_iff)
  with Cons e show ?case by (auto simp: idx_Update_def update_conv' fun_eq_iff map_add_def split: option.split)
qed simp

lemma didx_reloads:
  assumes "distinct (map fst ix)" "\<forall>e \<in> set ix. snd e < 2 ^ 64" "length ix < 2 ^ 64"
  shows "\<exists>ix1. didx_LoadFromFile (Some (enc_didx ix)) = Inr ix1 \<and> idx_Lookup ix1 = idx_Lookup ix \<and> (ix \<noteq> [] \<longrightarrow> ix1 \<noteq> [])"
proof -
  let ?ix = "foldl (\<lambda>ix (lsn, off). idx_Update off lsn ix) [] ix"
  have "unat (word_of_nat (length ix) :: u64) = length ix" using assms(3) by (simp add: unat_of_nat)
  then have "didx_LoadFromFile (Some (enc_didx ix)) = Inr ?ix"
    using didx_entries_enc [OF assms(2), of "[]"] by (simp add: didx_LoadFromFile_def enc_didx_def)
  moreover have look: "idx_Lookup ?ix = idx_Lookup ix"
    using foldl_update_lookup [OF assms(1), of "[]"] by (simp add: idx_Lookup_def fun_eq_iff)
  moreover have "?ix \<noteq> []" if "ix \<noteq> []"
  proof
    assume "?ix = []"
    with look have "map_of ix = Map.empty" by (simp add: idx_Lookup_def fun_eq_iff)
    with that show False by simp
  qed
  ultimately show ?thesis by blast
qed

text \<open>A shard that opens the file with the saved index reads every key's value.\<close>

lemma rebuilt_index:
  assumes "data_log df ws" "indexed df ws" "ws \<noteq> []" "df_FileSize df < 2 ^ 64"
    and "df_bytes df1 = df_bytes df" "foldl write_effect (\<lambda>_. None) ws key = Some (value, lsn)"
  shows "ReadByLsn lib (BuildLsnIndex df1 (Some (enc_didx (df_index df)))) lsn 0xFF = Inr value"
proof -
  have ne: "df_index df \<noteq> []"
  proof -
    have "idx_Lookup (df_index df) (dw_lsn (hd ws)) \<noteq> None"
      using assms(2,3) by (cases ws) (force simp: indexed_def)+
    then show ?thesis by (auto simp: idx_Lookup_def)
  qed
  have "\<forall>r \<in> set (map raw_of ws). rec_valid r" using assms(1) by (auto simp: data_log_def list_all_iff raw_of_valid)
  from dlog.length_image_ge [OF this] have "length ws \<le> df_FileSize df"
    using assms(1) by (simp add: data_log_def FileSize_content)
  then have "length (df_index df) < 2 ^ 64" "\<forall>e \<in> set (df_index df). snd e < 2 ^ 64"
    using assms(2,4) by (auto simp: indexed_def intro: le_less_trans)
  with didx_reloads [of "df_index df"] ne assms(2) obtain ix1 where
    "didx_LoadFromFile (Some (enc_didx (df_index df))) = Inr ix1" "idx_Lookup ix1 = idx_Lookup (df_index df)" "ix1 \<noteq> []"
    by (auto simp: indexed_def)
  then have "BuildLsnIndex df1 (Some (enc_didx (df_index df))) = df1\<lparr>df_index := ix1\<rparr>"
    by (simp add: BuildLsnIndex_def)
  moreover have "ReadByLsn lib (df1\<lparr>df_index := ix1\<rparr>) lsn 0xFF = Inr value"
    using \<open>idx_Lookup ix1 = _\<close> assms(5) by (intro read_indexed [OF assms(1,2,6)]) simp_all
  ultimately show ?thesis by simp
qed


section \<open>A flush keeps the index\<close>

text \<open>The files and the committed map of a shard in step with one log of writes.\<close>

definition in_step :: "datafile \<Rightarrow> committed_map \<Rightarrow> u64 \<Rightarrow> df_write list \<Rightarrow> bool" where
  "in_step df m last_lsn ws \<longleftrightarrow> data_log df ws \<and> indexed df ws \<and> map_of m = foldl write_effect (\<lambda>_. None) ws
     \<and> distinct (map fst m) \<and> (\<forall>w \<in> set ws. dw_lsn w \<le> last_lsn)"

abbreviation flushed :: "flusher_context \<Rightarrow> df_write list \<Rightarrow> bool" where
  "flushed c ws \<equiv> in_step (fc_datafile c) (fc_committed c) (fc_stable_lsn c) ws"

lemma flush_entry_keeps:
  assumes "flushed c ws" "small (entry_write (fc_generation c) kv)" "me_lsn (snd kv) \<notin> dw_lsn ` set ws"
    and "flush_entry lib read ft c kv = Some (c1, st)" "status_ok st"
  shows "flushed c1 (ws @ [entry_write (fc_generation c) kv]) \<and> fc_generation c1 = fc_generation c"
proof -
  let ?w = "entry_write (fc_generation c) kv"
  note f = assms(1) [unfolded in_step_def]
  obtain df ds where app: "df_Append ft lib (fc_datafile c) (dw_lsn ?w) (dw_key ?w) (dw_value ?w) (dw_deleted ?w) (dw_gen ?w) = (df, ds)"
    by fastforce
  let ?c1 = "c\<lparr>fc_datafile := df\<rparr>"
  obtain r where r: "bt_Get read (fc_btree c) (fst kv) = Some r"
    using assms(4) by (cases "bt_Get read (fc_btree c) (fst kv)") (simp_all add: flush_entry_alt)
  obtain c2 vs where v: "flush_vcs (fst kv) (me_lsn (snd kv)) (prev_of (Some r)) (publish kv ?c1) = (c2, vs)" by fastforce
  from assms(4,5) have ok: "status_ok ds" "c1 = c2\<lparr>fc_stable_lsn := max (fc_stable_lsn c2) (me_lsn (snd kv))\<rparr>"
    by (auto simp: flush_entry_alt r app v Let_def split: if_splits)
  have df: "df = append_write lib (fc_datafile c) ?w" "data_log df (ws @ [?w])"
    using data_log_append [OF _ assms(2) app] f ok(1) by auto
  have "indexed df (ws @ [?w])"
    using indexed_append [of "fc_datafile c" ws ?w lib] f assms(3) unfolding df(1) by (simp add: entry_write_def)
  moreover obtain v' where c2: "c2 = (publish kv ?c1)\<lparr>fc_vcs := v'\<rparr>" using flush_vcs_simps [OF v] by blast
  moreover have "map_of (fc_committed c2) = foldl write_effect (\<lambda>_. None) (ws @ [?w])"
    using publish_committed [of kv ?c1 "fc_generation c"] f by (simp add: c2)
  moreover have "distinct (map fst (fc_committed c2))"
    using f by (simp add: c2 publish_def distinct_update distinct_delete)
  moreover have "\<forall>w \<in> set (ws @ [?w]). dw_lsn w \<le> max (fc_stable_lsn c) (me_lsn (snd kv))"
    using f by (auto simp: entry_write_def max_def)
  ultimately show ?thesis using df(2) by (simp add: in_step_def ok(2))
qed

lemma flush_entries_keep:
  assumes "flushed c ws" "list_all (\<lambda>kv. small (entry_write (fc_generation c) kv)) kvs"
    and "distinct (map dw_lsn ws @ map (\<lambda>kv. me_lsn (snd kv)) kvs)"
    and "flush_entries lib read fts c kvs = Some (c1, st)" "status_ok st"
  shows "flushed c1 (ws @ map (entry_write (fc_generation c)) kvs)"
  using assms
proof (induction kvs arbitrary: c ws fts)
  case (Cons kv kvs)
  let ?w = "entry_write (fc_generation c) kv"
  obtain c2 st2 where e: "flush_entry lib read (fst (next_fault fts)) c kv = Some (c2, st2)"
    using Cons.prems(4) by (cases "flush_entry lib read (fst (next_fault fts)) c kv") auto
  then have ok: "status_ok st2" "flush_entries lib read (snd (next_fault fts)) c2 kvs = Some (c1, st)"
    using Cons.prems(4,5) by (auto split: if_splits)
  have "small ?w" "me_lsn (snd kv) \<notin> dw_lsn ` set ws" using Cons.prems(2,3) by auto
  from flush_entry_keeps [OF Cons.prems(1) this e ok(1)] have
    c2: "flushed c2 (ws @ [?w])" "fc_generation c2 = fc_generation c" by simp_all
  have "distinct (map dw_lsn (ws @ [?w]) @ map (\<lambda>kv. me_lsn (snd kv)) kvs)"
    using Cons.prems(3) by (auto simp: entry_write_def)
  from Cons.IH [OF c2(1) _ this ok(2) Cons.prems(5)] Cons.prems(2) c2(2) show ?case by simp
qed simp

lemma Flush_keeps:
  assumes "flushed c ws" "list_all (\<lambda>kv. small (entry_write (fc_generation c) kv)) (fc_frozen c)"
    and "distinct (map dw_lsn ws @ map (\<lambda>kv. me_lsn (snd kv)) (fc_frozen c))"
    and "Flush lib read sync fts c = Some (c1, st)" "status_ok st"
  shows "flushed c1 (ws @ map (entry_write (fc_generation c)) (fc_frozen c))"
proof -
  let ?c = "c\<lparr>fc_wal := wal_Fsync (fc_wal c)\<rparr>"
  obtain c2 st2 where e: "flush_entries lib read fts ?c (fc_frozen c) = Some (c2, st2)" "status_ok st2"
    and c1: "fc_datafile c1 = fc_datafile c2" "fc_committed c1 = fc_committed c2" "fc_stable_lsn c1 = fc_stable_lsn c2"
    using assms(4,5) by (cases "flush_entries lib read fts ?c (fc_frozen c)")
      (auto simp: Flush_alt Let_def mem_Snapshot_def status_defs split: if_splits)
  show ?thesis
    using flush_entries_keep [of ?c ws "fc_frozen c" lib read fts c2 st2] assms(1-3) e by (simp add: c1)
qed

end
