(* ===== verification/WritePipeline.thy ===== *)
theory WritePipeline
  imports Flusher WalAppend
begin

text \<open>
  \<^verbatim>\<open>cpp/src/concept/wal/wal_batch_pipeline.cc\<close>, with the commit hook of the shard
  (\<open>ApplyWalBatchUnlocked\<close> of \<^verbatim>\<open>cpp/src/engine/shard_engine.cc\<close>). Producers put jobs into a queue and wait;
  \<open>DrainAndFlush\<close> takes a batch, appends it to the log, syncs the log and applies the batch to the memtable.
  The queue is guarded by a mutex and one thread drains it, so a drain is one step on the queue, the log and
  the memtable; when the worker drains is decided by \<open>pipeline_ready\<close>.

  The POSIX build stages no bytes in the log writer; the number of staged bytes is a parameter where the
  code asks for it.
\<close>

section \<open>Jobs\<close>

record wal_config =
  wc_max_batch :: u32
  wc_max_wait :: u32
  wc_batch_bytes :: u32

record job =
  jb_op :: u8
  jb_key :: bytes
  jb_value :: bytes
  jb_txn :: u32
  jb_lsn :: u64
  jb_durable :: bool
  jb_status :: status

definition new_job :: "u8 \<Rightarrow> bytes \<Rightarrow> bytes \<Rightarrow> u32 \<Rightarrow> job" where
  "new_job op key val txn_id = \<lparr>jb_op = op, jb_key = key, jb_value = val, jb_txn = txn_id, jb_lsn = 0,
     jb_durable = False, jb_status = Status_Ok\<rparr>"

record pipeline =
  pl_config :: wal_config
  pl_queue :: "job list"
  pl_stop :: bool
  pl_done :: "job list"
  pl_wal :: wal_writer
  pl_mem :: memtable
  pl_stable :: u64

definition kMinThroughputQueue :: nat where "kMinThroughputQueue = 8"

definition pipeline_config :: "wal_config \<Rightarrow> wal_config" where
  "pipeline_config c = (let c1 = (if wc_max_batch c = 0 then c\<lparr>wc_max_batch := 512\<rparr> else c)
     in if wc_batch_bytes c1 = 0 then c1\<lparr>wc_batch_bytes := 16384\<rparr> else c1)"

text \<open>\<open>ShouldFlushLocked\<close>; \<open>start\<close> is \<open>batch_start_us_\<close> and \<open>now\<close> the clock, in microseconds.\<close>

definition pipeline_ready :: "pipeline \<Rightarrow> nat \<Rightarrow> int \<Rightarrow> int \<Rightarrow> bool" where
  "pipeline_ready p staged start now \<longleftrightarrow>
    (let n = length (pl_queue p) in
     if n = 0 then False
     else if unat (wc_max_batch (pl_config p)) \<le> n then True
     else if unat (wc_batch_bytes (pl_config p)) \<le> staged then True
     else if n = 1 then True
     else if start = 0 then False
     else if \<not> start + uint (wc_max_wait (pl_config p)) \<le> now then False
     else if kMinThroughputQueue \<le> n then True
     else 1 \<le> n)"

section \<open>Draining a batch\<close>

fun take_jobs :: "nat \<Rightarrow> bool \<Rightarrow> nat \<Rightarrow> job list \<Rightarrow> job list \<times> job list" where
  "take_jobs max_batch full n [] = ([], [])"
| "take_jobs max_batch full n (j # js) =
    (if \<not> n < max_batch then ([], j # js)
     else if full \<and> kMinThroughputQueue \<le> n + 1 then ([j], js)
     else (let (a, b) = take_jobs max_batch full (n + 1) js in (j # a, b)))"

definition job_item :: "job \<Rightarrow> batch_item" where
  "job_item j = \<lparr>bi_op = jb_op j, bi_key = Some (jb_key j), bi_value = Some (jb_value j), bi_txn_id = jb_txn j\<rparr>"

definition appended_job :: "job \<Rightarrow> u64 res \<Rightarrow> job" where
  "appended_job j r = (case r of Inl e \<Rightarrow> j\<lparr>jb_status := e\<rparr> | Inr lsn \<Rightarrow> j\<lparr>jb_status := Status_Ok, jb_lsn := lsn\<rparr>)"

text \<open>\<open>ApplyWalBatchUnlocked\<close>: a job's key and value are never null, so its two internal errors do not arise.\<close>

definition apply_job :: "memtable \<Rightarrow> job \<Rightarrow> memtable" where
  "apply_job mt j =
    (if jb_op j = kDelete then mem_DeleteKey (jb_key j) (jb_lsn j) (jb_txn j) (jb_txn j = 0) mt
     else mem_Put (jb_key j) (jb_value j) (jb_lsn j) (jb_txn j) (jb_txn j = 0) mt)"

definition ApplyWalBatchUnlocked :: "job list \<Rightarrow> memtable \<Rightarrow> u64 \<Rightarrow> memtable \<times> u64" where
  "ApplyWalBatchUnlocked jobs mt stable_lsn =
     (foldl apply_job mt jobs, foldl (\<lambda>m j. if m < jb_lsn j then jb_lsn j else m) stable_lsn jobs)"

definition CompleteJobs :: "status \<Rightarrow> job list \<Rightarrow> job list" where
  "CompleteJobs st jobs = map (\<lambda>j. (if status_ok st then j else j\<lparr>jb_status := st\<rparr>)\<lparr>jb_durable := True\<rparr>) jobs"

definition DrainAndFlush :: "bool \<Rightarrow> fault list \<Rightarrow> nat \<Rightarrow> pipeline \<Rightarrow> pipeline" where
  "DrainAndFlush sync fts staged p =
    (let (jobs, rest) = take_jobs (unat (wc_max_batch (pl_config p)))
           (unat (wc_batch_bytes (pl_config p)) \<le> staged) 0 (pl_queue p);
         p1 = p\<lparr>pl_queue := rest\<rparr> in
     if jobs = [] then p1
     else
      (let (w, rs) = AppendMany (pl_wal p) (zip (fts @ replicate (length jobs) NoFault) (map job_item jobs));
           jobs1 = map2 appended_job jobs rs in
       if \<not> list_all (\<lambda>j. status_ok (jb_status j)) jobs1
       then p1\<lparr>pl_wal := w, pl_done := pl_done p @ map (\<lambda>j. j\<lparr>jb_durable := True\<rparr>) jobs1\<rparr>
       else
        (let (w1, fs) = wal_Fsync_at sync w in
         if status_ok fs then
          (let (mt, st) = ApplyWalBatchUnlocked jobs1 (pl_mem p) (pl_stable p) in
           p1\<lparr>pl_wal := w1, pl_mem := mt, pl_stable := st, pl_done := pl_done p @ CompleteJobs fs jobs1\<rparr>)
         else p1\<lparr>pl_wal := w1, pl_done := pl_done p @ CompleteJobs fs jobs1\<rparr>)))"

text \<open>\<open>Put\<close> and \<open>Delete\<close> up to the wait, and what they return once their job is done.\<close>

definition pipeline_submit :: "job \<Rightarrow> pipeline \<Rightarrow> pipeline \<times> status" where
  "pipeline_submit j p =
    (if pl_stop p then (p, Status_Internal ''wal pipeline stopped'') else (p\<lparr>pl_queue := pl_queue p @ [j]\<rparr>, Status_Ok))"

definition pipeline_result :: "job \<Rightarrow> u64 res" where
  "pipeline_result j = (if \<not> status_ok (jb_status j) then Inl (jb_status j) else Inr (jb_lsn j))"

text \<open>\<open>FlushPending\<close>: at most 4000 rounds; each takes its faults from the environment.\<close>

fun FlushPending :: "nat \<Rightarrow> (bool \<times> fault list) list \<Rightarrow> pipeline \<Rightarrow> pipeline \<times> status" where
  "FlushPending 0 env p = (p, Status_Ok)"
| "FlushPending (Suc n) env p =
    (if pl_queue p = [] then (p, Status_Ok)
     else
      (let (sync, fts) = (case env of [] \<Rightarrow> (True, []) | e # _ \<Rightarrow> e);
           p1 = DrainAndFlush sync fts 0 p in
       if pl_queue p1 = [] then (p1, Status_Ok) else FlushPending n (tl env) p1))"

section \<open>What a drain does\<close>

text \<open>The records a batch adds to the log, and the jobs as the log numbers them: a job that does not fit uses up its LSN.\<close>

abbreviation job_fits :: "job \<Rightarrow> bool" where
  "job_fits j \<equiv> record_fits (jb_key j) (jb_value j)"

fun log_jobs :: "u64 \<Rightarrow> job list \<Rightarrow> wal_record list" where
  "log_jobs m [] = []"
| "log_jobs m (j # js) =
    (if job_fits j then [mk_wal (m + 1) (jb_op j) (jb_key j) (jb_value j) (jb_txn j)] else []) @ log_jobs (m + 1) js"

fun number_jobs :: "u64 \<Rightarrow> job list \<Rightarrow> job list" where
  "number_jobs m [] = []"
| "number_jobs m (j # js) =
    (if job_fits j then j\<lparr>jb_status := Status_Ok, jb_lsn := m + 1\<rparr>
     else j\<lparr>jb_status := Status_InvalidArgument ''wal record too large''\<rparr>) # number_jobs (m + 1) js"

text \<open>The memtable entry a logged write leaves.\<close>

definition logged_entry :: "wal_record \<Rightarrow> mem_entry" where
  "logged_entry r = \<lparr>me_value = (if wh_op (wr_hdr r) = kDelete then [] else wr_value r), me_lsn = rec_lsn r,
     me_deleted = (wh_op (wr_hdr r) = kDelete), me_txn_id = wh_txn_id (wr_hdr r), me_durable = (wh_txn_id (wr_hdr r) = 0)\<rparr>"

lemma length_number_jobs [simp]: "length (number_jobs m js) = length js"
  by (induction js arbitrary: m) auto

lemma append_job:
  assumes "writer_ok w rs" "is_data_op (jb_op j)" "unat (ww_max_lsn w) + 1 < unat kWalMagicV2"
  shows "\<exists>w1 r. append_item NoFault w (job_item j) = (w1, r) \<and> writer_ok w1 (rs @ log_jobs (ww_max_lsn w) [j])
    \<and> ww_max_lsn w1 = ww_max_lsn w + 1 \<and> [appended_job j r] = number_jobs (ww_max_lsn w) [j]"
proof -
  have m: "ww_max_lsn w < kWalMagicV2 - 1" using assms(3) by (simp add: word_less_nat_alt kWalMagicV2_def)
  have op: "valid_op (jb_op j)" using assms(2) by (auto simp: is_data_op_def valid_op_def)
  obtain w1 r where a: "append_one NoFault w (jb_op j) (jb_key j) (jb_value j) (jb_txn j) = (w1, r)" by fastforce
  then have ai: "append_item NoFault w (job_item j) = (w1, r)" by (simp add: append_item_def job_item_def)
  have lsn: "ww_max_lsn w1 = ww_max_lsn w + 1"
    using a by (auto simp: append_one_def AppendRecordV2_def Let_def split: if_splits)
  show ?thesis
  proof (cases "job_fits j")
    case True
    with writer_ok_append_one [OF assms(1) True op m, of "jb_txn j"] a ai lsn show ?thesis by (auto simp: appended_job_def)
  next
    case False
    with append_one_too_large(1) [OF assms(1) False m, of NoFault "jb_op j" "jb_txn j"]
      append_one_too_large(2) [OF assms(1) False m] a ai lsn show ?thesis
      by (auto simp: appended_job_def)
  qed
qed

lemma append_jobs:
  assumes "writer_ok w rs" "list_all (\<lambda>j. is_data_op (jb_op j)) jobs" "unat (ww_max_lsn w) + length jobs < unat kWalMagicV2"
  shows "\<exists>w1 res. append_items w (zip (replicate (length jobs) NoFault) (map job_item jobs)) = (w1, res)
    \<and> writer_ok w1 (rs @ log_jobs (ww_max_lsn w) jobs) \<and> map2 appended_job jobs res = number_jobs (ww_max_lsn w) jobs"
  using assms
proof (induction jobs arbitrary: w rs)
  case (Cons j js)
  obtain w1 r where w1: "append_item NoFault w (job_item j) = (w1, r)" "writer_ok w1 (rs @ log_jobs (ww_max_lsn w) [j])"
    "ww_max_lsn w1 = ww_max_lsn w + 1" "[appended_job j r] = number_jobs (ww_max_lsn w) [j]"
    using append_job [of w rs j] Cons.prems by auto
  have "unat (ww_max_lsn w + 1) = unat (ww_max_lsn w) + 1"
    using Cons.prems(3) by (simp add: kWalMagicV2_def unat_word_ariths)
  then obtain w2 res where w2: "append_items w1 (zip (replicate (length js) NoFault) (map job_item js)) = (w2, res)"
    "writer_ok w2 ((rs @ log_jobs (ww_max_lsn w) [j]) @ log_jobs (ww_max_lsn w + 1) js)"
    "map2 appended_job js res = number_jobs (ww_max_lsn w + 1) js"
    using Cons.IH [OF w1(2)] Cons.prems(2,3) w1(3) by (auto simp del: log_jobs.simps)
  have "append_items w (zip (replicate (length (j # js)) NoFault) (map job_item (j # js))) = (w2, r # res)"
    using w1(1) w2(1) by simp
  moreover have "map2 appended_job (j # js) (r # res) = number_jobs (ww_max_lsn w) (j # js)"
    using w1(4) w2(3) by simp
  ultimately show ?case using w2(2) by simp
qed simp

lemma take_jobs_plain: "take_jobs m False n js = (take (m - n) js, drop (m - n) js)"
proof (induction js arbitrary: n)
  case (Cons j js)
  show ?case
  proof (cases "n < m")
    case True
    then have "m - n = Suc (m - Suc n)" by simp
    then show ?thesis using Cons.IH [of "n + 1"] True by (simp del: diff_Suc_Suc)
  qed simp
qed simp

lemma take_jobs_split: "take_jobs m full n js = (a, b) \<Longrightarrow> js = a @ b"
  by (induction js arbitrary: n a b) (auto split: if_splits prod.splits)

text \<open>After the log took the batch, a drain either applies all of it or none.\<close>

lemma drain_appended:
  assumes "writer_ok (pl_wal p) rs" "list_all (\<lambda>j. is_data_op (jb_op j)) (pl_queue p)"
    and "unat (ww_max_lsn (pl_wal p)) + length (pl_queue p) < unat kWalMagicV2"
    and "take_jobs (unat (wc_max_batch (pl_config p))) (unat (wc_batch_bytes (pl_config p)) \<le> staged) 0 (pl_queue p)
      = (jobs, rest)" "jobs \<noteq> []"
  shows "\<exists>w. writer_ok w (rs @ log_jobs (ww_max_lsn (pl_wal p)) jobs)
    \<and> DrainAndFlush sync [] staged p =
      (let jobs1 = number_jobs (ww_max_lsn (pl_wal p)) jobs; p1 = p\<lparr>pl_queue := rest\<rparr> in
       if \<not> list_all job_fits jobs
       then p1\<lparr>pl_wal := w, pl_done := pl_done p @ map (\<lambda>j. j\<lparr>jb_durable := True\<rparr>) jobs1\<rparr>
       else if sync
       then p1\<lparr>pl_wal := wal_Fsync w, pl_mem := foldl apply_job (pl_mem p) jobs1,
              pl_stable := snd (ApplyWalBatchUnlocked jobs1 (pl_mem p) (pl_stable p)),
              pl_done := pl_done p @ CompleteJobs Status_Ok jobs1\<rparr>
       else p1\<lparr>pl_wal := wal_Fsync w,
              pl_done := pl_done p @ CompleteJobs (Status_IoError ''fdatasync failed'') jobs1\<rparr>)"
proof -
  have q: "pl_queue p = jobs @ rest" using take_jobs_split [OF assms(4)] .
  have ops: "list_all (\<lambda>j. is_data_op (jb_op j)) jobs" using assms(2) q by simp
  have "unat (ww_max_lsn (pl_wal p)) + length jobs < unat kWalMagicV2" using assms(3) q by simp
  from append_jobs [OF assms(1) ops this] obtain w res where
    w: "append_items (pl_wal p) (zip (replicate (length jobs) NoFault) (map job_item jobs)) = (w, res)"
      "writer_ok w (rs @ log_jobs (ww_max_lsn (pl_wal p)) jobs)"
      "map2 appended_job jobs res = number_jobs (ww_max_lsn (pl_wal p)) jobs" by blast
  have many: "AppendMany (pl_wal p) (zip (replicate (length jobs) NoFault) (map job_item jobs)) = (w, res)"
    using w(1) assms(5) by (simp add: AppendMany_def Sync_writer_ok [OF assms(1)])
  have fits: "list_all (\<lambda>j. status_ok (jb_status j)) (number_jobs m jobs) = list_all job_fits jobs" for m
    by (induction jobs arbitrary: m) (auto simp: status_defs)
  show ?thesis
    using assms(4,5) w(2,3) many fits
    by (intro exI [of _ w]) (simp add: DrainAndFlush_def Let_def wal_Fsync_at_def ApplyWalBatchUnlocked_def status_defs)
qed

lemma last_write_Cons:
  "last_write key (r # rs) = (case last_write key rs of Some x \<Rightarrow> Some x | None \<Rightarrow> if writes_key key r then Some r else None)"
  by (simp add: last_write_def find_append split: option.split)

lemma apply_jobs_table:
  assumes "list_all (\<lambda>j. is_data_op (jb_op j)) jobs" "list_all job_fits jobs"
  shows "mem_Get (foldl apply_job mt (number_jobs m jobs)) key =
    (case last_write key (log_jobs m jobs) of None \<Rightarrow> mem_Get mt key | Some r \<Rightarrow> Some (logged_entry r))"
  using assms
proof (induction jobs arbitrary: mt m)
  case Nil
  then show ?case by (simp add: last_write_def)
next
  case (Cons j js)
  then show ?case
    by (auto simp: last_write_Cons writes_key_def apply_job_def logged_entry_def mem_Get_def map_of_Put map_of_DeleteKey
        is_data_op_def wal_ops split: option.splits)
qed

lemma apply_jobs_stable:
  "list_all job_fits jobs \<Longrightarrow> snd (ApplyWalBatchUnlocked (number_jobs m jobs) mt s) = foldl max s (map rec_lsn (log_jobs m jobs))"
  by (induction jobs arbitrary: m s) (auto simp: ApplyWalBatchUnlocked_def max_def intro!: arg_cong2 [where f = "\<lambda>x y. foldl _ x y"])

text \<open>
  A batch is logged, then made visible: when every job of the batch fits a record and the log is
  synced, the drain adds the records of the batch to the log in queue order, leaves no index entry pending,
  answers every job with the LSN of its record, and the memtable then holds for every key of the batch
  exactly its last record there, durable when it belongs to no transaction; the stable LSN rises to the
  largest of them.
\<close>

theorem batch_logged_and_applied:
  assumes "writer_ok (pl_wal p) rs" "list_all (\<lambda>j. is_data_op (jb_op j)) (pl_queue p)"
    and "unat (ww_max_lsn (pl_wal p)) + length (pl_queue p) < unat kWalMagicV2"
    and "take_jobs (unat (wc_max_batch (pl_config p))) (unat (wc_batch_bytes (pl_config p)) \<le> staged) 0 (pl_queue p)
      = (jobs, rest)" "jobs \<noteq> []" "list_all job_fits jobs"
  defines "logged \<equiv> log_jobs (ww_max_lsn (pl_wal p)) jobs" and "p1 \<equiv> DrainAndFlush True [] staged p"
  shows "writer_ok (pl_wal p1) (rs @ logged) \<and> ww_pending (pl_wal p1) = [] \<and> pl_queue p1 = rest
    \<and> map pipeline_result (pl_done p1) = map pipeline_result (pl_done p) @ map (Inr \<circ> rec_lsn) logged
    \<and> mem_Get (pl_mem p1) key = (case last_write key logged of None \<Rightarrow> mem_Get (pl_mem p) key | Some r \<Rightarrow> Some (logged_entry r))
    \<and> pl_stable p1 = foldl max (pl_stable p) (map rec_lsn logged)"
proof -
  obtain w where w: "writer_ok w (rs @ logged)"
    "p1 = p\<lparr>pl_queue := rest, pl_wal := wal_Fsync w,
       pl_mem := foldl apply_job (pl_mem p) (number_jobs (ww_max_lsn (pl_wal p)) jobs),
       pl_stable := snd (ApplyWalBatchUnlocked (number_jobs (ww_max_lsn (pl_wal p)) jobs) (pl_mem p) (pl_stable p)),
       pl_done := pl_done p @ CompleteJobs Status_Ok (number_jobs (ww_max_lsn (pl_wal p)) jobs)\<rparr>"
    using drain_appended [OF assms(1-5), of True] assms(6) by (auto simp: logged_def p1_def Let_def)
  have q: "list_all (\<lambda>j. is_data_op (jb_op j)) jobs" using assms(2) take_jobs_split [OF assms(4)] by simp
  have "map pipeline_result (CompleteJobs Status_Ok (number_jobs m jobs)) = map (Inr \<circ> rec_lsn) (log_jobs m jobs)" for m
    using assms(6) by (induction jobs arbitrary: m) (auto simp: CompleteJobs_def pipeline_result_def status_defs)
  then show ?thesis
    using w writer_ok_Fsync [OF w(1)] apply_jobs_table [OF q assms(6)] apply_jobs_stable [OF assms(6)]
    by (simp add: logged_def) (simp add: wal_Fsync_def)
qed

text \<open>
  One bad job undoes the others without telling them: when a job of the batch is too large for a
  record, the drain answers every other job of the batch with the LSN of its record, as if it had been
  written, but the memtable and the stable LSN stay as they were and the log is not synced: the records
  wait in the file without an index entry.
\<close>

theorem bad_job_drops_batch:
  fixes sync :: bool
  assumes "writer_ok (pl_wal p) rs" "list_all (\<lambda>j. is_data_op (jb_op j)) (pl_queue p)"
    and "unat (ww_max_lsn (pl_wal p)) + length (pl_queue p) < unat kWalMagicV2"
    and "take_jobs (unat (wc_max_batch (pl_config p))) (unat (wc_batch_bytes (pl_config p)) \<le> staged) 0 (pl_queue p)
      = (jobs, rest)" "\<not> list_all job_fits jobs"
  defines "p1 \<equiv> DrainAndFlush sync [] staged p"
  shows "map pipeline_result (pl_done p1) = map pipeline_result (pl_done p)
      @ map pipeline_result (number_jobs (ww_max_lsn (pl_wal p)) jobs)
    \<and> list_all2 (\<lambda>j r. job_fits j = (\<exists>lsn. r = Inr lsn)) jobs (map pipeline_result (number_jobs (ww_max_lsn (pl_wal p)) jobs))
    \<and> pl_mem p1 = pl_mem p \<and> pl_stable p1 = pl_stable p
    \<and> writer_ok (pl_wal p1) (rs @ log_jobs (ww_max_lsn (pl_wal p)) jobs)"
proof -
  have "jobs \<noteq> []" using assms(5) by auto
  then obtain w where w: "writer_ok w (rs @ log_jobs (ww_max_lsn (pl_wal p)) jobs)"
    "p1 = p\<lparr>pl_queue := rest, pl_wal := w,
       pl_done := pl_done p @ map (\<lambda>j. j\<lparr>jb_durable := True\<rparr>) (number_jobs (ww_max_lsn (pl_wal p)) jobs)\<rparr>"
    using drain_appended [OF assms(1-4)] assms(5) by (auto simp: p1_def Let_def)
  have "list_all2 (\<lambda>j r. job_fits j = (\<exists>lsn. r = Inr lsn)) jobs (map pipeline_result (number_jobs m jobs))" for m
    by (induction jobs arbitrary: m) (auto simp: pipeline_result_def status_defs)
  moreover have "map (pipeline_result \<circ> (\<lambda>j. j\<lparr>jb_durable := True\<rparr>)) js = map pipeline_result js" for js
    by (simp add: pipeline_result_def)
  ultimately show ?thesis using w by simp
qed

definition demo_pipeline :: "job list \<Rightarrow> pipeline" where
  "demo_pipeline js = \<lparr>pl_config = \<lparr>wc_max_batch = 512, wc_max_wait = 600, wc_batch_bytes = 16384\<rparr>, pl_queue = js,
     pl_stop = False, pl_done = [], pl_wal = WalWriter_open None, pl_mem = [], pl_stable = 0\<rparr>"

lemma demo_pipeline_simps [simp]:
  "pl_queue (demo_pipeline js) = js" "pl_done (demo_pipeline js) = []" "pl_wal (demo_pipeline js) = WalWriter_open None"
  "pl_mem (demo_pipeline js) = []" "pl_stable (demo_pipeline js) = 0"
  "pl_config (demo_pipeline js) = \<lparr>wc_max_batch = 512, wc_max_wait = 600, wc_batch_bytes = 16384\<rparr>"
  by (simp_all add: demo_pipeline_def)

lemma open_max_lsn [simp]: "ww_max_lsn (WalWriter_open None) = 0"
  by (simp add: WalWriter_open_def RebuildKeyIndex_def EnsureWalMagicLocked_def Let_def)

theorem batch_logged_and_applied_witness:
  "let p1 = DrainAndFlush True [] 0 (demo_pipeline [new_job kPut [1] [2] 0, new_job kPut [1] [3] 0]) in
   mem_Get (pl_mem p1) [1] = Some \<lparr>me_value = [3], me_lsn = 2, me_deleted = False, me_txn_id = 0, me_durable = True\<rparr>
   \<and> pl_stable p1 = 2"
  using batch_logged_and_applied [of "demo_pipeline [new_job kPut [1] [2] 0, new_job kPut [1] [3] 0]" "[]" 0
      "[new_job kPut [1] [2] 0, new_job kPut [1] [3] 0]" "[]" "[1]"] writer_ok_create
  by (simp add: take_jobs_plain new_job_def record_fits_def is_data_op_def kWalMagicV2_def logged_entry_def wal_ops
      last_write_def writes_key_def Let_def)

theorem bad_job_drops_batch_witness:
  "let p1 = DrainAndFlush True [] 0 (demo_pipeline [new_job kPut [1] [2] 0, new_job kPut [1] (replicate 70000 3) 0]) in
   hd (map pipeline_result (pl_done p1)) = Inr 1 \<and> pl_mem p1 = []"
  using bad_job_drops_batch [of "demo_pipeline [new_job kPut [1] [2] 0, new_job kPut [1] (replicate 70000 3) 0]" "[]" 0
      "[new_job kPut [1] [2] 0, new_job kPut [1] (replicate 70000 3) 0]" "[]" True] writer_ok_create
  by (simp add: take_jobs_plain new_job_def record_fits_def is_data_op_def kWalMagicV2_def Let_def pipeline_result_def status_defs)

text \<open>
  \<open>FlushPending\<close> ends with an empty queue when 4000 batches are enough, and reports success whatever its
  drains met: a failed sync is only told to the producers.
\<close>

lemma drain_rest: "pl_queue (DrainAndFlush sync fts 0 p) = drop (unat (wc_max_batch (pl_config p))) (pl_queue p)"
  if "wc_batch_bytes (pl_config p) \<noteq> 0"
  using that by (simp add: DrainAndFlush_def take_jobs_plain unat_eq_0 Let_def split: prod.splits)

lemma drain_config: "pl_config (DrainAndFlush sync fts staged p) = pl_config p"
  by (simp add: DrainAndFlush_def Let_def split: prod.splits)

theorem flush_pending_empties_queue:
  assumes "wc_batch_bytes (pl_config p) \<noteq> 0" "length (pl_queue p) \<le> n * unat (wc_max_batch (pl_config p))"
  shows "pl_queue (fst (FlushPending n env p)) = [] \<and> snd (FlushPending n env p) = Status_Ok"
  using assms
proof (induction n arbitrary: env p)
  case (Suc n)
  obtain sync fts where e: "(case env of [] \<Rightarrow> (True, []) | e # _ \<Rightarrow> e) = (sync, fts)" by fastforce
  show ?case
    using Suc.IH [of "DrainAndFlush sync fts 0 p" "tl env"] Suc.prems
    by (simp add: e Let_def drain_rest drain_config)
qed simp

theorem flush_pending_empties_queue_witness:
  "snd (FlushPending 4000 [(False, [])] (demo_pipeline [new_job kPut [1] [2] 0])) = Status_Ok"
  using flush_pending_empties_queue [of "demo_pipeline [new_job kPut [1] [2] 0]" 4000 "[(False, [])]"] by simp

end
