(* ===== verification/EngineConfig.thy ===== *)
theory EngineConfig
  imports Codecs
begin

text \<open>
  \<^verbatim>\<open>cpp/include/ebtree/common/config.h\<close> and \<^verbatim>\<open>cpp/src/common/config.cc\<close>: the options of an engine, their
  default values and the presets.
\<close>

datatype DurabilityClass = KSync | KBalancedClass | KGroup | KAsync

datatype RecoveryMode = KHot | KLazy | KFull

datatype RecoveryStrategy = KFastOpen | KFullReplay

record EngineOptions =
  eo_path :: bytes
  eo_durability :: DurabilityClass
  eo_sync_on_commit :: bool
  eo_shard_count :: u32
  eo_group_commit_batch_size :: u32
  eo_fsync_batch_size :: u32
  eo_fsync_max_wait_us :: u32
  eo_wal_durable_batch_bytes :: u32
  eo_recovery_strategy :: RecoveryStrategy
  eo_gc_reclaim_threshold_bytes :: u64
  eo_background_flush :: bool
  eo_background_summary_validate :: bool
  eo_memtable_flush_threshold_keys :: u32
  eo_page_cache_capacity :: nat
  eo_prefer_histogram_summary :: bool
  eo_lazy_committed_load :: bool
  eo_eager_shard_open :: bool
  eo_compress_values :: bool
  eo_compress_pages :: bool
  eo_compress_policy :: compress_policy
  eo_attestation_async :: bool

definition default_options :: EngineOptions where
  "default_options =
    \<lparr>eo_path = [], eo_durability = KGroup, eo_sync_on_commit = False, eo_shard_count = 1,
     eo_group_commit_batch_size = 64, eo_fsync_batch_size = 1, eo_fsync_max_wait_us = 0,
     eo_wal_durable_batch_bytes = 4096, eo_recovery_strategy = KFastOpen, eo_gc_reclaim_threshold_bytes = 0,
     eo_background_flush = False, eo_background_summary_validate = True, eo_memtable_flush_threshold_keys = 4096,
     eo_page_cache_capacity = 64, eo_prefer_histogram_summary = False, eo_lazy_committed_load = False,
     eo_eager_shard_open = False, eo_compress_values = False, eo_compress_pages = False,
     eo_compress_policy = KOff, eo_attestation_async = True\<rparr>"

definition BalancedProductOptions :: "bytes \<Rightarrow> EngineOptions" where
  "BalancedProductOptions path = default_options
    \<lparr>eo_path := path, eo_durability := KBalancedClass, eo_sync_on_commit := False,
     eo_background_flush := True, eo_page_cache_capacity := 128, eo_prefer_histogram_summary := True,
     eo_lazy_committed_load := True, eo_fsync_batch_size := 512, eo_fsync_max_wait_us := 600,
     eo_wal_durable_batch_bytes := 16384, eo_gc_reclaim_threshold_bytes := 32 * 1024 * 1024\<rparr>"

definition ProductionDefaults :: "bytes \<Rightarrow> EngineOptions" where
  "ProductionDefaults path = BalancedProductOptions path"

definition ProductionCompressDefaults :: "bytes \<Rightarrow> EngineOptions" where
  "ProductionCompressDefaults path = (ProductionDefaults path)
    \<lparr>eo_path := path, eo_compress_values := True, eo_compress_policy := KFastOnly\<rparr>"

definition StandardDefaults :: "bytes \<Rightarrow> EngineOptions" where
  "StandardDefaults path = ProductionCompressDefaults path"

definition EnterpriseDefaults :: "bytes \<Rightarrow> EngineOptions" where
  "EnterpriseDefaults path = default_options
    \<lparr>eo_path := path, eo_durability := KSync, eo_sync_on_commit := True, eo_background_flush := True,
     eo_page_cache_capacity := 128, eo_prefer_histogram_summary := True, eo_lazy_committed_load := True,
     eo_fsync_batch_size := 1, eo_fsync_max_wait_us := 0\<rparr>"

definition BenchmarkGroupDefaults :: "bytes \<Rightarrow> EngineOptions" where
  "BenchmarkGroupDefaults path = default_options
    \<lparr>eo_path := path, eo_durability := KGroup, eo_sync_on_commit := False, eo_group_commit_batch_size := 512,
     eo_page_cache_capacity := 256, eo_prefer_histogram_summary := True\<rparr>"

definition EnterpriseCompressDefaults :: "bytes \<Rightarrow> EngineOptions" where
  "EnterpriseCompressDefaults path = (EnterpriseDefaults path)
    \<lparr>eo_path := path, eo_compress_values := True, eo_compress_policy := KBalanced, eo_compress_pages := True,
     eo_gc_reclaim_threshold_bytes := 64 * 1024 * 1024\<rparr>"

definition presets :: "(bytes \<Rightarrow> EngineOptions) list" where
  "presets = [ProductionDefaults, StandardDefaults, EnterpriseDefaults, BenchmarkGroupDefaults,
     ProductionCompressDefaults, EnterpriseCompressDefaults]"

lemmas preset_defs = presets_def default_options_def BalancedProductOptions_def ProductionDefaults_def
  ProductionCompressDefaults_def StandardDefaults_def EnterpriseDefaults_def BenchmarkGroupDefaults_def
  EnterpriseCompressDefaults_def

end
