(* ===== verification/FsyncCoordinator.thy ===== *)
theory FsyncCoordinator
  imports WritePipeline EngineConfig
begin

text \<open>
  \<^verbatim>\<open>cpp/src/concept/wal/wal_fsync_coordinator.cc\<close>: writers append to the log and then wait in \<open>Await\<close>
  until a sync that began after their append has ended; one of them runs the sync for all. The presets of
  \<^verbatim>\<open>cpp/src/common/config.cc\<close> choose the batch size and the waiting time.

  The coordinator's fields are guarded by \<open>mu_\<close>, which is held except while a thread waits on \<open>cv_\<close>, spins
  in the coalescing loop, or syncs the log; so each stretch between these is one step. The clock only
  decides whether the batch deadline has passed: a step may assume either when the deadline is set. Timed
  waits that end without a change of state are no steps. LSNs are taken in the order of the appends.
\<close>

section \<open>The coordinator\<close>

record coordinator =
  co_flushed :: u64
  co_max_pending :: u64
  co_pending :: u64
  co_running :: bool
  co_deadline :: bool

definition coordinator_init :: coordinator where
  "coordinator_init = \<lparr>co_flushed = 0, co_max_pending = 0, co_pending = 0, co_running = False, co_deadline = False\<rparr>"

definition coordinator_config :: "wal_config \<Rightarrow> wal_config" where
  "coordinator_config c = (let c1 = (if wc_max_batch c = 0 then c\<lparr>wc_max_batch := 1\<rparr> else c)
     in if wc_batch_bytes c1 = 0 then c1\<lparr>wc_batch_bytes := 4096\<rparr> else c1)"

text \<open>How a shard configures its coordinator: \<^verbatim>\<open>ShardEngine::Open\<close>.\<close>

definition fsync_config :: "EngineOptions \<Rightarrow> wal_config" where
  "fsync_config opts = \<lparr>wc_max_batch = eo_fsync_batch_size opts, wc_max_wait = eo_fsync_max_wait_us opts,
     wc_batch_bytes = eo_wal_durable_batch_bytes opts\<rparr>"

definition micro_batch :: "wal_config \<Rightarrow> bool" where
  "micro_batch c \<longleftrightarrow> 1 < wc_max_batch c \<and> 0 < wc_max_wait c"

definition ShouldFlush :: "wal_config \<Rightarrow> nat \<Rightarrow> bool \<Rightarrow> coordinator \<Rightarrow> bool" where
  "ShouldFlush cfg staged late c \<longleftrightarrow>
    (if co_pending c = 0 then False
     else
      (let batch_full = ucast (wc_max_batch cfg) \<le> co_pending c; immediate = wc_max_batch cfg \<le> 1;
           timed_out = co_deadline c \<and> late;
           staging_full = 0 < wc_batch_bytes cfg \<and> unat (wc_batch_bytes cfg) \<le> staged
       in if batch_full \<or> immediate \<or> staging_full then True else timed_out))"

text \<open>\<open>Await\<close> up to its loop, for a caller whose LSN is not yet flushed; \<open>spins\<close> tells whether it coalesces first.\<close>

definition await_enter :: "u64 \<Rightarrow> coordinator \<Rightarrow> coordinator" where
  "await_enter lsn c = c\<lparr>co_max_pending := max (co_max_pending c) lsn, co_pending := co_pending c + 1\<rparr>"

definition await_spins :: "wal_config \<Rightarrow> coordinator \<Rightarrow> bool" where
  "await_spins cfg c \<longleftrightarrow> co_pending c = 1 \<and> micro_batch cfg"

definition await_arm :: "wal_config \<Rightarrow> coordinator \<Rightarrow> coordinator" where
  "await_arm cfg c = (if micro_batch cfg then c\<lparr>co_deadline := True\<rparr> else c)"

text \<open>\<open>RunFsyncLocked\<close> before it releases the mutex, and after a sync that succeeded or failed.\<close>

definition run_begin :: "coordinator \<Rightarrow> coordinator" where
  "run_begin c = c\<lparr>co_running := True, co_pending := 0, co_deadline := False\<rparr>"

definition run_done :: "u64 \<Rightarrow> coordinator \<Rightarrow> coordinator" where
  "run_done target c = c\<lparr>co_running := False, co_flushed := max (co_flushed c) target\<rparr>"

definition run_failed :: "u64 \<Rightarrow> coordinator \<Rightarrow> coordinator" where
  "run_failed waiters c = c\<lparr>co_running := False, co_pending := co_pending c + waiters\<rparr>"

section \<open>The coordinator and its threads\<close>

text \<open>Who runs a sync: a caller of \<open>Await\<close> with its LSN, the flusher thread, or a caller of \<open>FlushPending\<close>.\<close>

datatype role = Caller u64 | Worker | Drainer

datatype await_phase = Outside | Appended u64 | Coalescing u64 | Waiting role | Syncing role u64 u64
  | Synced role u64 u64 bool | Returned role status

record sync_world =
  sw_co :: coordinator
  sw_log :: u64
  sw_disk :: u64
  sw_threads :: "await_phase list"

text \<open>\<open>sw_log\<close> is the LSN of the last record appended, \<open>sw_disk\<close> of the last one a finished sync covers.\<close>

definition become :: "sync_world \<Rightarrow> nat \<Rightarrow> coordinator \<Rightarrow> await_phase \<Rightarrow> sync_world" where
  "become s i c p = s\<lparr>sw_co := c, sw_threads := (sw_threads s)[i := p]\<rparr>"

abbreviation thread_at :: "sync_world \<Rightarrow> nat \<Rightarrow> await_phase \<Rightarrow> bool" where
  "thread_at s i p \<equiv> i < length (sw_threads s) \<and> sw_threads s ! i = p"

definition wants_sync :: "wal_config \<Rightarrow> bool \<Rightarrow> coordinator \<Rightarrow> role \<Rightarrow> bool" where
  "wants_sync cfg late c r = (case r of
     Caller lsn \<Rightarrow> co_flushed c < lsn \<and> ShouldFlush cfg 0 late c
   | Worker \<Rightarrow> ShouldFlush cfg 0 late c
   | Drainer \<Rightarrow> co_pending c \<noteq> 0)"

inductive sync_step :: "wal_config \<Rightarrow> sync_world \<Rightarrow> sync_world \<Rightarrow> bool" for cfg :: wal_config where
  append: "thread_at s i Outside \<Longrightarrow> sw_log s < - 1 \<Longrightarrow>
    sync_step cfg s ((become s i (sw_co s) (Appended (sw_log s + 1)))\<lparr>sw_log := sw_log s + 1\<rparr>)"
| already: "thread_at s i (Appended lsn) \<or> thread_at s i (Coalescing lsn) \<or> thread_at s i (Waiting (Caller lsn)) \<Longrightarrow>
    lsn \<le> co_flushed (sw_co s) \<Longrightarrow> sync_step cfg s (become s i (sw_co s) (Returned (Caller lsn) Status_Ok))"
| enter: "thread_at s i (Appended lsn) \<Longrightarrow> co_flushed (sw_co s) < lsn \<Longrightarrow> c = await_enter lsn (sw_co s) \<Longrightarrow>
    sync_step cfg s (if await_spins cfg c then become s i c (Coalescing lsn)
                     else become s i (await_arm cfg c) (Waiting (Caller lsn)))"
| coalesced: "thread_at s i (Coalescing lsn) \<Longrightarrow> co_flushed (sw_co s) < lsn \<Longrightarrow>
    sync_step cfg s (become s i (await_arm cfg (sw_co s)) (Waiting (Caller lsn)))"
| run: "thread_at s i (Waiting r) \<Longrightarrow> \<not> co_running (sw_co s) \<Longrightarrow> wants_sync cfg late (sw_co s) r \<Longrightarrow>
    sync_step cfg s (become s i (run_begin (sw_co s)) (Syncing r (co_max_pending (sw_co s)) (co_pending (sw_co s))))"
| sync: "thread_at s i (Syncing r target waiters) \<Longrightarrow>
    sync_step cfg s ((become s i (sw_co s) (Synced r target waiters True))\<lparr>sw_disk := sw_log s\<rparr>)"
| sync_fails: "thread_at s i (Syncing r target waiters) \<Longrightarrow>
    sync_step cfg s (become s i (sw_co s) (Synced r target waiters False))"
| finish: "thread_at s i (Synced r target waiters True) \<Longrightarrow>
    sync_step cfg s (become s i (run_done target (sw_co s)) (Waiting r))"
| finish_failed: "thread_at s i (Synced r target waiters False) \<Longrightarrow>
    sync_step cfg s (become s i (run_failed waiters (sw_co s))
      (if r = Worker then Waiting Worker else Returned r (Status_IoError ''fdatasync failed'')))"
| drained: "thread_at s i (Waiting Drainer) \<Longrightarrow> \<not> co_running (sw_co s) \<Longrightarrow> co_pending (sw_co s) = 0 \<Longrightarrow>
    sync_step cfg s (become s i (sw_co s) (Returned Drainer Status_Ok))"
| drain: "thread_at s i Outside \<Longrightarrow> sync_step cfg s (become s i (sw_co s) (Waiting Drainer))"

definition sync_init :: "await_phase list \<Rightarrow> sync_world" where
  "sync_init ts = \<lparr>sw_co = coordinator_init, sw_log = 0, sw_disk = 0, sw_threads = ts\<rparr>"

text \<open>A start: threads outside, and the flusher thread where the configuration has one.\<close>

definition sync_reachable :: "wal_config \<Rightarrow> nat \<Rightarrow> sync_world \<Rightarrow> bool" where
  "sync_reachable cfg n s \<longleftrightarrow>
     (sync_step cfg)\<^sup>*\<^sup>* (sync_init ((if micro_batch cfg then [Waiting Worker] else []) @ replicate n Outside)) s"

section \<open>Invariants\<close>

text \<open>What a thread's phase promises about the LSNs.\<close>

definition role_ok :: "sync_world \<Rightarrow> role \<Rightarrow> bool" where
  "role_ok s r \<longleftrightarrow> (case r of Caller lsn \<Rightarrow> lsn \<le> co_max_pending (sw_co s) | _ \<Rightarrow> True)"

fun phase_ok :: "sync_world \<Rightarrow> await_phase \<Rightarrow> bool" where
  "phase_ok s Outside \<longleftrightarrow> True"
| "phase_ok s (Appended lsn) \<longleftrightarrow> lsn \<le> sw_log s"
| "phase_ok s (Coalescing lsn) \<longleftrightarrow> lsn \<le> co_max_pending (sw_co s)"
| "phase_ok s (Waiting r) \<longleftrightarrow> role_ok s r"
| "phase_ok s (Syncing r target waiters) \<longleftrightarrow> target \<le> sw_log s \<and> role_ok s r"
| "phase_ok s (Synced r target waiters ok) \<longleftrightarrow> (ok \<longrightarrow> target \<le> sw_disk s) \<and> role_ok s r"
| "phase_ok s (Returned r st) \<longleftrightarrow> (status_ok st \<longrightarrow> (case r of Caller lsn \<Rightarrow> lsn \<le> sw_disk s | _ \<Rightarrow> True))"

definition sync_inv :: "sync_world \<Rightarrow> bool" where
  "sync_inv s \<longleftrightarrow> co_flushed (sw_co s) \<le> sw_disk s \<and> sw_disk s \<le> sw_log s \<and> co_max_pending (sw_co s) \<le> sw_log s
     \<and> (\<forall>p \<in> set (sw_threads s). phase_ok s p)"

lemma phase_ok_mono:
  assumes "phase_ok s p" "sw_log s \<le> sw_log t" "sw_disk s \<le> sw_disk t" "co_max_pending (sw_co s) \<le> co_max_pending (sw_co t)"
  shows "phase_ok t p"
proof -
  have "role_ok s r \<Longrightarrow> role_ok t r" for r using assms(4) by (auto simp: role_ok_def split: role.splits)
  then show ?thesis using assms by (cases p) (auto intro: order_trans split: role.splits)
qed

lemma coordinator_ops [simp]:
  "co_max_pending (await_enter lsn c) = max (co_max_pending c) lsn" "co_flushed (await_enter lsn c) = co_flushed c"
  "co_max_pending (await_arm cfg c) = co_max_pending c" "co_flushed (await_arm cfg c) = co_flushed c"
  "co_max_pending (run_begin c) = co_max_pending c" "co_flushed (run_begin c) = co_flushed c"
  "co_max_pending (run_done target c) = co_max_pending c" "co_flushed (run_done target c) = max (co_flushed c) target"
  "co_max_pending (run_failed waiters c) = co_max_pending c" "co_flushed (run_failed waiters c) = co_flushed c"
  "co_pending (await_enter lsn c) = co_pending c + 1" "co_pending (await_arm cfg c) = co_pending c"
  "co_pending (run_begin c) = 0" "co_pending (run_done target c) = co_pending c"
  "co_pending (run_failed waiters c) = co_pending c + waiters"
  "co_running (await_enter lsn c) = co_running c" "co_running (await_arm cfg c) = co_running c"
  "co_running (run_begin c)" "\<not> co_running (run_done target c)" "\<not> co_running (run_failed waiters c)"
  by (simp_all add: await_enter_def await_arm_def run_begin_def run_done_def run_failed_def)

lemma become_simps [simp]:
  "sw_co (become s i c p) = c" "sw_log (become s i c p) = sw_log s" "sw_disk (become s i c p) = sw_disk s"
  "sw_threads (become s i c p) = (sw_threads s)[i := p]"
  by (simp_all add: become_def)

lemma sync_inv_become:
  assumes "sync_inv s" "co_flushed (sw_co t) \<le> sw_disk t" "sw_disk t \<le> sw_log t" "co_max_pending (sw_co t) \<le> sw_log t"
    and "sw_threads t = (sw_threads s)[i := p]" "phase_ok t p"
    and "sw_log s \<le> sw_log t" "sw_disk s \<le> sw_disk t" "co_max_pending (sw_co s) \<le> co_max_pending (sw_co t)"
  shows "sync_inv t"
proof -
  have "phase_ok t q" if "q \<in> set (sw_threads t)" for q
  proof -
    from that assms(5) have "q = p \<or> q \<in> set (sw_threads s)" using set_update_subset_insert by fastforce
    then show ?thesis using assms(1,6) phase_ok_mono [OF _ assms(7,8,9)] by (auto simp: sync_inv_def role_ok_def split: role.splits)
  qed
  then show ?thesis using assms(2-4) by (auto simp: sync_inv_def role_ok_def split: role.splits)
qed

lemma thread_phase: "sync_inv s \<Longrightarrow> thread_at s i p \<Longrightarrow> phase_ok s p"
  by (auto simp: sync_inv_def role_ok_def split: role.splits)

lemma u64_inc: "(x :: u64) < - 1 \<Longrightarrow> unat (x + 1) = Suc (unat x)"
  using unatSuc [of x] by (metis add.commute add.inverse_unique less_irrefl)

lemma sync_inv_step: "sync_step cfg s t \<Longrightarrow> sync_inv s \<Longrightarrow> sync_inv t"
proof (induction rule: sync_step.induct)
  case (append s i)
  have lt: "sw_log s \<le> sw_log s + 1" using u64_inc [OF append.hyps(2)] by (simp add: word_le_nat_alt)
  have b: "co_flushed (sw_co s) \<le> sw_disk s" "sw_disk s \<le> sw_log s" "co_max_pending (sw_co s) \<le> sw_log s"
    using append.prems by (auto simp: sync_inv_def role_ok_def split: role.splits)
  show ?case
    using b lt by (intro sync_inv_become [OF append.prems, where i = i and p = "Appended (sw_log s + 1)"])
      (auto intro: order_trans [OF _ lt])
next
  case (already s i lsn)
  then show ?case
    by (intro sync_inv_become [OF already.prems, where i = i and p = "Returned (Caller lsn) Status_Ok"])
      (auto simp: sync_inv_def role_ok_def intro: order_trans split: role.splits)
next
  case (enter s i lsn c)
  have l: "lsn \<le> sw_log s" using thread_phase [OF enter.prems enter.hyps(1)] by simp
  have b: "co_flushed (sw_co s) \<le> sw_disk s" "sw_disk s \<le> sw_log s" "co_max_pending (sw_co s) \<le> sw_log s"
    using enter.prems by (auto simp: sync_inv_def)
  have "sync_inv (become s i c (Coalescing lsn))"
    using b l enter.hyps(3) by (intro sync_inv_become [OF enter.prems, where i = i and p = "Coalescing lsn"]) auto
  moreover have "sync_inv (become s i (await_arm cfg c) (Waiting (Caller lsn)))"
    using b l enter.hyps(3)
    by (intro sync_inv_become [OF enter.prems, where i = i and p = "Waiting (Caller lsn)"]) (auto simp: role_ok_def)
  ultimately show ?case by simp
next
  case (coalesced s i lsn)
  have l: "lsn \<le> co_max_pending (sw_co s)" using thread_phase [OF coalesced.prems coalesced.hyps(1)] by simp
  show ?case
    using coalesced.prems l
    by (intro sync_inv_become [OF coalesced.prems, where i = i and p = "Waiting (Caller lsn)"]) (auto simp: sync_inv_def role_ok_def split: role.splits)
next
  case (run s i r late)
  have "role_ok s r" using thread_phase [OF run.prems run.hyps(1)] by simp
  then show ?case
    using run.prems
    by (intro sync_inv_become [OF run.prems, where i = i and p = "Syncing r (co_max_pending (sw_co s)) (co_pending (sw_co s))"])
      (auto simp: sync_inv_def role_ok_def split: role.splits)
next
  case (sync s i r target waiters)
  have l: "target \<le> sw_log s" "role_ok s r" using thread_phase [OF sync.prems sync.hyps] by simp_all
  show ?case
    using sync.prems l
    by (intro sync_inv_become [OF sync.prems, where i = i and p = "Synced r target waiters True"])
      (auto simp: sync_inv_def role_ok_def intro: order_trans split: role.splits)
next
  case (sync_fails s i r target waiters)
  have "role_ok s r" using thread_phase [OF sync_fails.prems sync_fails.hyps] by simp
  then show ?case
    using sync_fails.prems
    by (intro sync_inv_become [OF sync_fails.prems, where i = i and p = "Synced r target waiters False"]) (auto simp: sync_inv_def role_ok_def split: role.splits)
next
  case (finish s i r target waiters)
  have l: "target \<le> sw_disk s" "role_ok s r"
    using thread_phase [OF finish.prems finish.hyps] by simp_all
  show ?case
    using finish.prems l
    by (intro sync_inv_become [OF finish.prems, where i = i and p = "Waiting r"]) (auto simp: sync_inv_def role_ok_def split: role.splits)
next
  case (finish_failed s i r target waiters)
  show ?case
    using finish_failed.prems
    by (intro sync_inv_become [OF finish_failed.prems, where i = i
          and p = "if r = Worker then Waiting Worker else Returned r (Status_IoError ''fdatasync failed'')"])
      (cases r; auto simp: sync_inv_def role_ok_def status_defs split: role.splits)+
next
  case (drained s i)
  show ?case
    using drained.prems
    by (intro sync_inv_become [OF drained.prems, where i = i and p = "Returned Drainer Status_Ok"]) (auto simp: sync_inv_def role_ok_def split: role.splits)
next
  case (drain s i)
  show ?case
    using drain.prems
    by (intro sync_inv_become [OF drain.prems, where i = i and p = "Waiting Drainer"]) (auto simp: sync_inv_def role_ok_def split: role.splits)
qed

lemma sync_inv_init: "sync_inv (sync_init ((if micro_batch cfg then [Waiting Worker] else []) @ replicate n Outside))"
  by (simp add: sync_inv_def sync_init_def coordinator_init_def role_ok_def)

lemma sync_inv_reachable: "sync_reachable cfg n s \<Longrightarrow> sync_inv s"
  unfolding sync_reachable_def by (induction rule: rtranclp_induct) (rule sync_inv_init, blast intro: sync_inv_step)

text \<open>
  C35. Nobody is told too early: in every reachable state of the coordinator, however its threads
  interleave and whichever syncs fail, a call of \<open>Await\<close> that has returned success has its record on disk.
\<close>

theorem await_is_durable:
  assumes "sync_reachable cfg n s" "thread_at s i (Returned (Caller lsn) st)" "status_ok st"
  shows "lsn \<le> sw_disk s"
  using thread_phase [OF sync_inv_reachable [OF assms(1)] assms(2)] assms(3) by simp

section \<open>Progress\<close>

text \<open>The pending count never wraps: it counts calls, and every call has its own LSN.\<close>

fun phase_weight :: "await_phase \<Rightarrow> nat" where
  "phase_weight (Appended lsn) = 1"
| "phase_weight (Syncing r target waiters) = unat waiters"
| "phase_weight (Synced r target waiters ok) = unat waiters"
| "phase_weight _ = 0"

definition weight :: "await_phase list \<Rightarrow> nat" where
  "weight ts = sum_list (map phase_weight ts)"

lemma weight_update: "i < length ts \<Longrightarrow> weight (ts[i := p]) + phase_weight (ts ! i) = weight ts + phase_weight p"
proof (induction ts arbitrary: i)
  case (Cons t ts)
  then show ?case by (cases i) (auto simp: weight_def)
qed simp

definition count_inv :: "sync_world \<Rightarrow> bool" where
  "count_inv s \<longleftrightarrow> unat (co_pending (sw_co s)) + weight (sw_threads s) \<le> unat (sw_log s)"

lemma u64_add_no_wrap: "unat x + unat (y :: u64) \<le> unat (z :: u64) \<Longrightarrow> unat (x + y) = unat x + unat y"
proof -
  assume le: "unat x + unat y \<le> unat z"
  have "unat z < 2 ^ LENGTH(64)" by (rule unsigned_less)
  with le show ?thesis by (simp add: unat_word_ariths)
qed

lemma count_inv_step: "sync_step cfg s t \<Longrightarrow> count_inv s \<Longrightarrow> count_inv t"
proof (induction rule: sync_step.induct)
  case (append s i)
  then show ?case using weight_update [of i "sw_threads s" "Appended (sw_log s + 1)"] u64_inc [of "sw_log s"]
    by (auto simp: count_inv_def)
next
  case (already s i lsn)
  then show ?case using weight_update [of i "sw_threads s" "Returned (Caller lsn) Status_Ok"] by (auto simp: count_inv_def)
next
  case (enter s i lsn c)
  have "unat (co_pending (sw_co s) + 1) \<le> unat (co_pending (sw_co s)) + 1" by (simp add: unat_word_ariths)
  then show ?case
    using enter weight_update [of i "sw_threads s" "Coalescing lsn"] weight_update [of i "sw_threads s" "Waiting (Caller lsn)"]
    by (auto simp: count_inv_def)
next
  case (coalesced s i lsn)
  then show ?case using weight_update [of i "sw_threads s" "Waiting (Caller lsn)"] by (auto simp: count_inv_def)
next
  case (run s i r late)
  then show ?case
    using weight_update [of i "sw_threads s" "Syncing r (co_max_pending (sw_co s)) (co_pending (sw_co s))"]
    by (auto simp: count_inv_def)
next
  case (sync s i r target waiters)
  then show ?case using weight_update [of i "sw_threads s" "Synced r target waiters True"] by (auto simp: count_inv_def)
next
  case (sync_fails s i r target waiters)
  then show ?case using weight_update [of i "sw_threads s" "Synced r target waiters False"] by (auto simp: count_inv_def)
next
  case (finish s i r target waiters)
  then show ?case using weight_update [of i "sw_threads s" "Waiting r"] by (auto simp: count_inv_def)
next
  case (finish_failed s i r target waiters)
  let ?p = "if r = Worker then Waiting Worker else Returned r (Status_IoError ''fdatasync failed'')"
  have "weight ((sw_threads s)[i := ?p]) + unat waiters = weight (sw_threads s)"
    using finish_failed.hyps weight_update [of i "sw_threads s" ?p] by (auto split: if_splits)
  moreover from this finish_failed.prems have "unat (co_pending (sw_co s) + waiters) = unat (co_pending (sw_co s)) + unat waiters"
    by (intro u64_add_no_wrap [of _ _ "sw_log s"]) (simp add: count_inv_def)
  ultimately show ?case using finish_failed.prems by (simp add: count_inv_def)
next
  case (drained s i)
  then show ?case using weight_update [of i "sw_threads s" "Returned Drainer Status_Ok"] by (auto simp: count_inv_def)
next
  case (drain s i)
  then show ?case using weight_update [of i "sw_threads s" "Waiting Drainer"] by (auto simp: count_inv_def)
qed

text \<open>A waiting call is either still counted, or covered by the sync that is running.\<close>

fun covers :: "u64 \<Rightarrow> await_phase \<Rightarrow> bool" where
  "covers lsn (Syncing r target waiters) \<longleftrightarrow> lsn \<le> target \<and> waiters \<noteq> 0"
| "covers lsn (Synced r target waiters ok) \<longleftrightarrow> lsn \<le> target \<and> waiters \<noteq> 0"
| "covers lsn _ \<longleftrightarrow> False"

definition covered :: "sync_world \<Rightarrow> u64 \<Rightarrow> bool" where
  "covered s lsn \<longleftrightarrow> lsn \<le> co_flushed (sw_co s) \<or> co_pending (sw_co s) \<noteq> 0 \<or> (\<exists>p \<in> set (sw_threads s). covers lsn p)"

fun syncing :: "await_phase \<Rightarrow> bool" where
  "syncing (Syncing r target waiters) \<longleftrightarrow> True"
| "syncing (Synced r target waiters ok) \<longleftrightarrow> True"
| "syncing _ \<longleftrightarrow> False"

text \<open>One thread syncs when \<open>fsync_running_\<close> is set and none otherwise.\<close>

definition running_inv :: "sync_world \<Rightarrow> bool" where
  "running_inv s \<longleftrightarrow> length (filter syncing (sw_threads s)) = (if co_running (sw_co s) then 1 else 0)"

lemma filter_update:
  "i < length xs \<Longrightarrow> length (filter P (xs[i := x])) + (if P (xs ! i) then 1 else 0) = length (filter P xs) + (if P x then 1 else 0)"
proof (induction xs arbitrary: i)
  case (Cons y ys)
  then show ?case using Cons.IH [of "i - 1"] by (cases i) (auto split: if_splits)
qed simp

lemma running_inv_step: "sync_step cfg s t \<Longrightarrow> running_inv s \<Longrightarrow> running_inv t"
proof (induction rule: sync_step.induct)
  case (append s i)
  then show ?case using filter_update [of i "sw_threads s" syncing "Appended (sw_log s + 1)"] by (auto simp: running_inv_def)
next
  case (already s i lsn)
  then show ?case using filter_update [of i "sw_threads s" syncing "Returned (Caller lsn) Status_Ok"] by (auto simp: running_inv_def)
next
  case (enter s i lsn c)
  then show ?case
    using filter_update [of i "sw_threads s" syncing "Coalescing lsn"] filter_update [of i "sw_threads s" syncing "Waiting (Caller lsn)"]
    by (auto simp: running_inv_def)
next
  case (coalesced s i lsn)
  then show ?case using filter_update [of i "sw_threads s" syncing "Waiting (Caller lsn)"] by (auto simp: running_inv_def)
next
  case (run s i r late)
  then show ?case
    using filter_update [of i "sw_threads s" syncing "Syncing r (co_max_pending (sw_co s)) (co_pending (sw_co s))"]
    by (auto simp: running_inv_def)
next
  case (sync s i r target waiters)
  then show ?case using filter_update [of i "sw_threads s" syncing "Synced r target waiters True"] by (auto simp: running_inv_def)
next
  case (sync_fails s i r target waiters)
  then show ?case using filter_update [of i "sw_threads s" syncing "Synced r target waiters False"] by (auto simp: running_inv_def)
next
  case (finish s i r target waiters)
  then show ?case using filter_update [of i "sw_threads s" syncing "Waiting r"] by (auto simp: running_inv_def split: if_splits)
next
  case (finish_failed s i r target waiters)
  then show ?case
    using filter_update [of i "sw_threads s" syncing "if r = Worker then Waiting Worker else Returned r (Status_IoError ''fdatasync failed'')"]
    by (auto simp: running_inv_def split: if_splits)
next
  case (drained s i)
  then show ?case using filter_update [of i "sw_threads s" syncing "Returned Drainer Status_Ok"] by (auto simp: running_inv_def)
next
  case (drain s i)
  then show ?case using filter_update [of i "sw_threads s" syncing "Waiting Drainer"] by (auto simp: running_inv_def)
qed

lemma covered_update:
  assumes "covered s lsn" "i < length (sw_threads s)" "sw_threads t = (sw_threads s)[i := p]"
    and "co_flushed (sw_co s) \<le> co_flushed (sw_co t)" "co_pending (sw_co s) \<noteq> 0 \<longrightarrow> co_pending (sw_co t) \<noteq> 0"
    and "covers lsn (sw_threads s ! i) \<longrightarrow> covers lsn p"
  shows "covered t lsn"
proof -
  have "\<exists>q \<in> set (sw_threads t). covers lsn q" if "\<exists>q \<in> set (sw_threads s). covers lsn q"
  proof -
    from that obtain j where j: "j < length (sw_threads s)" "covers lsn (sw_threads s ! j)" by (auto simp: in_set_conv_nth)
    then have "covers lsn (sw_threads t ! j)" using assms(2,3,6) by (cases "j = i") auto
    moreover have "sw_threads t ! j \<in> set (sw_threads t)" using j(1) assms(3) by simp
    ultimately show ?thesis by blast
  qed
  then show ?thesis using assms(1,4,5) by (auto simp: covered_def)
qed

fun waits_for :: "await_phase \<Rightarrow> u64 \<Rightarrow> bool" where
  "waits_for (Coalescing lsn) l \<longleftrightarrow> l = lsn"
| "waits_for (Waiting r) l \<longleftrightarrow> r = Caller l"
| "waits_for (Syncing r target waiters) l \<longleftrightarrow> r = Caller l"
| "waits_for (Synced r target waiters ok) l \<longleftrightarrow> r = Caller l"
| "waits_for _ l \<longleftrightarrow> False"

definition waits_covered :: "sync_world \<Rightarrow> bool" where
  "waits_covered s \<longleftrightarrow> (\<forall>p \<in> set (sw_threads s). \<forall>lsn. waits_for p lsn \<longrightarrow> covered s lsn)"

lemma waits_covered_become:
  assumes "waits_covered s" "sw_threads t = (sw_threads s)[i := p]"
    and "\<And>q lsn. q \<in> set (sw_threads s) \<Longrightarrow> waits_for q lsn \<Longrightarrow> covered s lsn \<Longrightarrow> covered t lsn" "\<And>lsn. waits_for p lsn \<Longrightarrow> covered t lsn"
  shows "waits_covered t"
  using assms set_update_subset_insert [of "sw_threads s" i p] by (auto simp: waits_covered_def)

lemma thread_covered: "waits_covered s \<Longrightarrow> thread_at s i p \<Longrightarrow> waits_for p lsn \<Longrightarrow> covered s lsn"
  by (auto simp: waits_covered_def)

lemma waits_covered_step:
  "sync_step cfg s t \<Longrightarrow> waits_covered s \<Longrightarrow> sync_inv s \<Longrightarrow> count_inv s \<Longrightarrow> waits_covered t"
proof (induction rule: sync_step.induct)
  case (append s i)
  show ?case
    by (rule waits_covered_become [OF append.prems(1), where i = i and p = "Appended (sw_log s + 1)"],
        simp, rule covered_update [where i = i]) (use append.hyps in auto)
next
  case (already s i lsn)
  show ?case
    by (rule waits_covered_become [OF already.prems(1), where i = i and p = "Returned (Caller lsn) Status_Ok"],
        simp, rule covered_update [where i = i]) (use already.hyps in auto)
next
  case (enter s i lsn c)
  have "unat (co_pending (sw_co s)) + 1 \<le> unat (sw_log s)"
    using enter weight_update [of i "sw_threads s" "Outside"] by (auto simp: count_inv_def)
  then have c: "co_pending c \<noteq> 0" using enter.hyps(3) u64_add_no_wrap [of "co_pending (sw_co s)" 1 "sw_log s"] by auto
  show ?case
    by (rule waits_covered_become [OF enter.prems(1), where i = i and p = "if await_spins cfg c then Coalescing lsn else Waiting (Caller lsn)"])
      (use c in \<open>auto simp: covered_def\<close>)
next
  case (coalesced s i lsn)
  have "covered s lsn" using thread_covered [OF coalesced.prems(1) coalesced.hyps(1)] by simp
  then show ?case
    by (intro waits_covered_become [OF coalesced.prems(1), where i = i and p = "Waiting (Caller lsn)"])
      (use coalesced.hyps in \<open>auto intro: covered_update [where i = i]\<close>)
next
  case (run s i r late)
  let ?p = "Syncing r (co_max_pending (sw_co s)) (co_pending (sw_co s))"
  have w: "co_pending (sw_co s) \<noteq> 0" using run.hyps(3) by (auto simp: wants_sync_def ShouldFlush_def split: role.splits)
  have m: "lsn \<le> co_max_pending (sw_co s)" if "q \<in> set (sw_threads s)" "waits_for q lsn" for q lsn
    using run.prems(2) that by (cases q) (auto simp: sync_inv_def role_ok_def)
  have c: "covered (become s i (run_begin (sw_co s)) ?p) lsn" if "lsn \<le> co_max_pending (sw_co s)" for lsn
    using that w run.hyps(1) by (auto simp: covered_def intro!: bexI [OF _ set_update_memI [of i "sw_threads s" ?p]])
  have "lsn \<le> co_max_pending (sw_co s)" if "r = Caller lsn" for lsn using m [OF nth_mem [of i "sw_threads s"], of lsn] run.hyps(1) that by auto
  then show ?case
    by (intro waits_covered_become [OF run.prems(1), where i = i and p = ?p]) (use m c in auto)
next
  case (sync s i r target waiters)
  have "covered s lsn" if "r = Caller lsn" for lsn using thread_covered [OF sync.prems(1) sync.hyps] that by simp
  then show ?case
    by (intro waits_covered_become [OF sync.prems(1), where i = i and p = "Synced r target waiters True"])
      (use sync.hyps in \<open>auto intro: covered_update [where i = i and p = "Synced r target waiters True"]\<close>)
next
  case (sync_fails s i r target waiters)
  have "covered s lsn" if "r = Caller lsn" for lsn using thread_covered [OF sync_fails.prems(1) sync_fails.hyps] that by simp
  then show ?case
    by (intro waits_covered_become [OF sync_fails.prems(1), where i = i and p = "Synced r target waiters False"])
      (use sync_fails.hyps in \<open>auto intro: covered_update [where i = i and p = "Synced r target waiters False"]\<close>)
next
  case (finish s i r target waiters)
  let ?t = "become s i (run_done target (sw_co s)) (Waiting r)"
  have c: "covered ?t lsn" if "covered s lsn" for lsn
  proof (cases "lsn \<le> target")
    case True
    then show ?thesis by (auto simp: covered_def le_max_iff_disj)
  next
    case False
    then show ?thesis by (rule_tac covered_update [OF that, where i = i and p = "Waiting r"]) (use finish.hyps in auto)
  qed
  have "covered s lsn" if "r = Caller lsn" for lsn using thread_covered [OF finish.prems(1) finish.hyps] that by simp
  with c show ?case by (intro waits_covered_become [OF finish.prems(1), where i = i and p = "Waiting r"]) auto
next
  case (finish_failed s i r target waiters)
  let ?p = "if r = Worker then Waiting Worker else Returned r (Status_IoError ''fdatasync failed'')"
  let ?t = "become s i (run_failed waiters (sw_co s)) ?p"
  have "unat (co_pending (sw_co s) + waiters) = unat (co_pending (sw_co s)) + unat waiters"
    using finish_failed.hyps finish_failed.prems(3) weight_update [of i "sw_threads s" "Outside"]
    by (intro u64_add_no_wrap [of _ _ "sw_log s"]) (simp add: count_inv_def)
  then have w: "waiters \<noteq> 0 \<or> co_pending (sw_co s) \<noteq> 0 \<Longrightarrow> co_pending (sw_co s) + waiters \<noteq> 0"
    by (metis add_is_0 unat_eq_zero)
  have c: "covered ?t lsn" if "covered s lsn" for lsn
  proof (cases "waiters = 0")
    case True
    then show ?thesis by (rule_tac covered_update [OF that, where i = i and p = ?p]) (use finish_failed.hyps in auto)
  next
    case False
    then show ?thesis using w by (auto simp: covered_def)
  qed
  then show ?case by (intro waits_covered_become [OF finish_failed.prems(1), where i = i and p = ?p]) auto
next
  case (drained s i)
  show ?case
    by (rule waits_covered_become [OF drained.prems(1), where i = i and p = "Returned Drainer Status_Ok"],
        simp, rule covered_update [where i = i]) (use drained.hyps in auto)
next
  case (drain s i)
  show ?case
    by (rule waits_covered_become [OF drain.prems(1), where i = i and p = "Waiting Drainer"],
        simp, rule covered_update [where i = i]) (use drain.hyps in auto)
qed

lemma sync_reachable_covered:
  assumes "sync_reachable cfg n s"
  shows "waits_covered s" "running_inv s"
proof -
  let ?s0 = "sync_init ((if micro_batch cfg then [Waiting Worker] else []) @ replicate n Outside)"
  have init: "count_inv ?s0" "waits_covered ?s0" "running_inv ?s0"
    by (auto simp: count_inv_def weight_def sum_list_replicate waits_covered_def running_inv_def sync_init_def coordinator_init_def)
  have "(sync_step cfg)\<^sup>*\<^sup>* ?s0 s" using assms by (simp add: sync_reachable_def)
  then have "sync_inv s \<and> count_inv s \<and> waits_covered s \<and> running_inv s"
  proof (induction rule: rtranclp_induct)
    case base
    then show ?case using init sync_inv_init by blast
  next
    case (step t u)
    then show ?case by (blast intro: sync_inv_step count_inv_step waits_covered_step running_inv_step)
  qed
  then show "waits_covered s" "running_inv s" by simp_all
qed

lemma reachable_step: "sync_reachable cfg n s \<Longrightarrow> sync_step cfg s t \<Longrightarrow> sync_reachable cfg n t"
  unfolding sync_reachable_def by (rule rtranclp.rtrancl_into_rtrancl)

text \<open>A call that waits while nobody syncs runs the sync itself, and returns.\<close>

lemma run_to_return:
  assumes "sync_reachable cfg n s" "wc_max_batch cfg \<le> 1" "thread_at s i (Waiting (Caller lsn))" "\<not> co_running (sw_co s)"
  shows "\<exists>t. (sync_step cfg)\<^sup>*\<^sup>* s t \<and> thread_at t i (Returned (Caller lsn) Status_Ok)"
proof (cases "lsn \<le> co_flushed (sw_co s)")
  case True
  have "sync_step cfg s (become s i (sw_co s) (Returned (Caller lsn) Status_Ok))"
    using assms(3) True by (intro sync_step.already) auto
  then show ?thesis
    using assms(3) by (intro exI [of _ "become s i (sw_co s) (Returned (Caller lsn) Status_Ok)"]) auto
next
  case False
  let ?m = "co_max_pending (sw_co s)" and ?w = "co_pending (sw_co s)" and ?cs = "(sync_step cfg)\<^sup>*\<^sup>*"
  have "\<not> syncing p" if "p \<in> set (sw_threads s)" for p
    using sync_reachable_covered(2) [OF assms(1)] assms(4) that by (auto simp: running_inv_def filter_empty_conv)
  then have none: "\<not> covers lsn p" if "p \<in> set (sw_threads s)" for p
    using \<open>p \<in> set (sw_threads s) \<Longrightarrow> \<not> syncing p\<close> that by (cases p) auto
  have "covered s lsn" by (rule thread_covered [OF sync_reachable_covered(1) [OF assms(1)] assms(3)]) simp
  then have w: "?w \<noteq> 0" using none False by (auto simp: covered_def)
  have m: "lsn \<le> ?m" using thread_phase [OF sync_inv_reachable [OF assms(1)] assms(3)] by (simp add: role_ok_def)
  define s1 where "s1 = become s i (run_begin (sw_co s)) (Syncing (Caller lsn) ?m ?w)"
  define s2 where "s2 = (become s1 i (sw_co s1) (Synced (Caller lsn) ?m ?w True))\<lparr>sw_disk := sw_log s1\<rparr>"
  define s3 where "s3 = become s2 i (run_done ?m (sw_co s2)) (Waiting (Caller lsn))"
  define s4 where "s4 = become s3 i (sw_co s3) (Returned (Caller lsn) Status_Ok)"
  have "wants_sync cfg False (sw_co s) (Caller lsn)" using w False assms(2) by (simp add: wants_sync_def ShouldFlush_def)
  then have "sync_step cfg s s1" using assms(3,4) unfolding s1_def by (intro sync_step.run)
  moreover have "sync_step cfg s1 s2" using assms(3) unfolding s2_def by (intro sync_step.sync) (simp add: s1_def)
  moreover have "sync_step cfg s2 s3" using assms(3) unfolding s3_def by (intro sync_step.finish) (simp add: s1_def s2_def)
  moreover have "sync_step cfg s3 s4"
    using assms(3) m unfolding s4_def by (intro sync_step.already) (simp_all add: s1_def s2_def s3_def le_max_iff_disj)
  ultimately have "?cs s s4" by (meson r_into_rtranclp rtranclp_trans)
  moreover have "thread_at s4 i (Returned (Caller lsn) Status_Ok)" using assms(3) by (simp add: s1_def s2_def s3_def s4_def)
  ultimately show ?thesis by blast
qed

text \<open>A sync that is under way ends, and leaves the threads that wait as they are.\<close>

lemma sync_ends:
  assumes "running_inv s" "co_running (sw_co s)" "thread_at s i (Waiting r)"
  shows "\<exists>t. (sync_step cfg)\<^sup>*\<^sup>* s t \<and> thread_at t i (Waiting r) \<and> \<not> co_running (sw_co t)"
proof -
  have "filter syncing (sw_threads s) \<noteq> []" using assms(1,2) by (auto simp: running_inv_def)
  then obtain j where j: "j < length (sw_threads s)" "syncing (sw_threads s ! j)" by (auto simp: filter_empty_conv in_set_conv_nth)
  have ended: "\<exists>t. sync_step cfg u t \<and> thread_at t i (Waiting r) \<and> \<not> co_running (sw_co t)"
    if "thread_at u j (Synced q target waiters ok)" "thread_at u i (Waiting r)" for u q target waiters ok
  proof (cases ok)
    case True
    then show ?thesis using sync_step.finish [where s = u and i = j and r = q and target = target and waiters = waiters and cfg = cfg] that
      by (intro exI [of _ "become u j (run_done target (sw_co u)) (Waiting q)"]) (auto simp: nth_list_update)
  next
    case False
    then show ?thesis using sync_step.finish_failed [where s = u and i = j and r = q and target = target and waiters = waiters and cfg = cfg] that
      by (intro exI [of _ "become u j (run_failed waiters (sw_co u)) (if q = Worker then Waiting Worker else Returned q (Status_IoError ''fdatasync failed''))"])
        (auto simp: nth_list_update)
  qed
  show ?thesis
  proof (cases "sw_threads s ! j")
    case (Syncing q target waiters)
    let ?u = "(become s j (sw_co s) (Synced q target waiters True))\<lparr>sw_disk := sw_log s\<rparr>"
    have "sync_step cfg s ?u" using sync_step.sync [where s = s and i = j and r = q and target = target and waiters = waiters and cfg = cfg] j Syncing by simp
    moreover have "thread_at ?u i (Waiting r)" "thread_at ?u j (Synced q target waiters True)"
      using assms(3) j Syncing by (auto simp: nth_list_update)
    ultimately show ?thesis using ended [of ?u q target waiters True] by (meson r_into_rtranclp rtranclp_trans)
  next
    case (Synced q target waiters ok)
    then show ?thesis using ended [of s q target waiters ok] assms(3) j by (meson r_into_rtranclp)
  qed (use j in auto)
qed

text \<open>
  C36. Without batches nobody waits in vain: from every reachable state of the coordinator, whatever syncs have
  failed before and whatever sync is under way, a call of \<open>Await\<close> that waits can still return success.
\<close>

theorem await_progress:
  assumes "sync_reachable cfg n s" "wc_max_batch cfg \<le> 1" "thread_at s i (Waiting (Caller lsn))"
  shows "\<exists>t. (sync_step cfg)\<^sup>*\<^sup>* s t \<and> thread_at t i (Returned (Caller lsn) Status_Ok)"
proof (cases "co_running (sw_co s)")
  case True
  obtain t where t: "(sync_step cfg)\<^sup>*\<^sup>* s t" "thread_at t i (Waiting (Caller lsn))" "\<not> co_running (sw_co t)"
    using sync_ends [OF sync_reachable_covered(2) [OF assms(1)] True assms(3)] by blast
  then have "sync_reachable cfg n t" using assms(1) unfolding sync_reachable_def by simp
  from run_to_return [OF this assms(2) t(2,3)] t(1) show ?thesis by (meson rtranclp_trans)
qed (use run_to_return [OF assms(1,2)] assms(3) in blast)

section \<open>Presets and traces\<close>

text \<open>Shards of the balanced class use the batch pipeline instead; the other presets configure no batches.\<close>

lemma preset_unbatched:
  "\<forall>preset \<in> set presets. eo_durability (preset path) \<noteq> KBalancedClass \<longrightarrow> wc_max_batch (coordinator_config (fsync_config (preset path))) \<le> 1"
  by (simp add: preset_defs fsync_config_def coordinator_config_def Let_def)

lemma reachable_init: "sync_reachable cfg n (sync_init ((if micro_batch cfg then [Waiting Worker] else []) @ replicate n Outside))"
  by (simp add: sync_reachable_def)

lemma reachable_step_to: "sync_reachable cfg n s \<Longrightarrow> sync_step cfg s t' \<Longrightarrow> t = t' \<Longrightarrow> sync_reachable cfg n t"
  by (simp add: reachable_step)

lemma u64_below_max [simp]: "(0 :: u64) < - 1" "(1 :: u64) < - 1" "\<not> (512 :: u32) \<le> 1"
  by (simp_all add: word_le_nat_alt flip: word_order.not_eq_extremum)

lemmas trace_simps = become_def run_begin_def run_done_def run_failed_def await_enter_def await_arm_def
  coordinator_init_def sync_init_def

definition demo_config :: wal_config where
  "demo_config = coordinator_config (fsync_config (EnterpriseDefaults []))"

lemma demo_config_simps [simp]:
  "wc_max_batch demo_config = 1" "\<not> micro_batch demo_config"
  by (simp_all add: demo_config_def coordinator_config_def fsync_config_def preset_defs micro_batch_def)

abbreviation waiting_world :: sync_world where
  "waiting_world \<equiv> \<lparr>sw_co = \<lparr>co_flushed = 0, co_max_pending = 1, co_pending = 1, co_running = False, co_deadline = False\<rparr>,
     sw_log = 1, sw_disk = 0, sw_threads = [Waiting (Caller 1)]\<rparr>"

lemma waiting_reachable: "sync_reachable demo_config 1 waiting_world"
proof -
  have 0: "sync_reachable demo_config 1 (sync_init [Outside])" using reachable_init [of demo_config 1] by simp
  have 1: "sync_reachable demo_config 1 (\<lparr>sw_co = coordinator_init, sw_log = 1, sw_disk = 0, sw_threads = [Appended 1]\<rparr>)"
    by (rule reachable_step_to [OF 0 sync_step.append [where i = 0]]) (simp_all add: trace_simps)
  show ?thesis
    by (rule reachable_step_to [OF 1 sync_step.enter [where i = 0 and lsn = 1, OF _ _ refl]])
      (simp_all add: trace_simps await_spins_def)
qed

theorem await_progress_witness:
  "\<exists>t. (sync_step demo_config)\<^sup>*\<^sup>* waiting_world t \<and> thread_at t 0 (Returned (Caller 1) Status_Ok)"
  by (rule await_progress [OF waiting_reachable]) simp_all

abbreviation synced_world :: sync_world where
  "synced_world \<equiv> \<lparr>sw_co = \<lparr>co_flushed = 1, co_max_pending = 1, co_pending = 0, co_running = False, co_deadline = False\<rparr>,
     sw_log = 1, sw_disk = 1, sw_threads = [Returned (Caller 1) Status_Ok]\<rparr>"

lemma synced_reachable: "sync_reachable demo_config 1 synced_world"
proof -
  let ?c = "\<lparr>co_flushed = 0, co_max_pending = 1, co_pending = 0, co_running = True, co_deadline = False\<rparr>"
  let ?d = "\<lparr>co_flushed = 1, co_max_pending = 1, co_pending = 0, co_running = False, co_deadline = False\<rparr>"
  have 1: "sync_reachable demo_config 1 \<lparr>sw_co = ?c, sw_log = 1, sw_disk = 0, sw_threads = [Syncing (Caller 1) 1 1]\<rparr>"
    by (rule reachable_step_to [OF waiting_reachable sync_step.run [where i = 0 and r = "Caller 1" and late = False]])
      (simp_all add: trace_simps wants_sync_def ShouldFlush_def)
  have 2: "sync_reachable demo_config 1 \<lparr>sw_co = ?c, sw_log = 1, sw_disk = 1, sw_threads = [Synced (Caller 1) 1 1 True]\<rparr>"
    by (rule reachable_step_to [OF 1 sync_step.sync [where i = 0]]) (auto simp: trace_simps)
  have 3: "sync_reachable demo_config 1 \<lparr>sw_co = ?d, sw_log = 1, sw_disk = 1, sw_threads = [Waiting (Caller 1)]\<rparr>"
    by (rule reachable_step_to [OF 2 sync_step.finish [where i = 0]]) (auto simp: trace_simps)
  show ?thesis
    by (rule reachable_step_to [OF 3 sync_step.already [where i = 0 and lsn = 1]]) (auto simp: trace_simps)
qed

theorem await_is_durable_witness: "(1 :: u64) \<le> sw_disk synced_world"
  by (rule await_is_durable [OF synced_reachable, where i = 0 and st = Status_Ok]) (simp_all add: status_defs)

section \<open>Waiting for ever\<close>

definition batched_config :: "u32 \<Rightarrow> wal_config" where
  "batched_config wait = coordinator_config (fsync_config (default_options\<lparr>eo_durability := KSync,
     eo_fsync_batch_size := 512, eo_fsync_max_wait_us := wait\<rparr>))"

lemma batched_config_simps [simp]:
  "wc_max_batch (batched_config wait) = 512" "wc_batch_bytes (batched_config wait) = 4096"
  "micro_batch (batched_config wait) \<longleftrightarrow> 0 < wait"
  by (simp_all add: batched_config_def coordinator_config_def fsync_config_def default_options_def micro_batch_def Let_def)

lemma replicate_2: "replicate 2 x = [x, x]"
  by (simp add: numeral_2_eq_2)

text \<open>A world in which nobody is outside or syncing, no deadline is armed and less than a batch waits stays as it is.\<close>

lemma nobody_moves:
  assumes "\<forall>p \<in> set (sw_threads s). p = Waiting Worker \<or> (\<exists>lsn > co_flushed (sw_co s). p = Waiting (Caller lsn)) \<or> (\<exists>r st. p = Returned r st)"
    and "co_pending (sw_co s) < 512" "\<not> co_deadline (sw_co s)"
  shows "\<not> sync_step (batched_config wait) s t"
proof
  have w: "\<not> wants_sync (batched_config wait) late (sw_co s) Worker" "\<not> wants_sync (batched_config wait) late (sw_co s) (Caller lsn)" for late lsn
    using assms(2,3) by (auto simp: wants_sync_def ShouldFlush_def)
  have p: "i < length (sw_threads s) \<Longrightarrow> sw_threads s ! i = Waiting Worker \<or>
      (\<exists>lsn > co_flushed (sw_co s). sw_threads s ! i = Waiting (Caller lsn)) \<or> (\<exists>r st. sw_threads s ! i = Returned r st)" for i
    using assms(1) by simp
  assume "sync_step (batched_config wait) s t"
  then show False
  proof cases
    case (run i r late)
    then show False using p [of i] w by auto
  qed (use p in \<open>fastforce+\<close>)
qed

text \<open>
  A failed sync strands the other waiters: with batches and a flusher thread, two calls that are batched and whose
  sync fails end in a state where one of them has returned the error, and the other waits with no thread able to
  make a step, though its record is not on disk: the deadline of the batch was cleared and is not armed again.
\<close>

theorem failed_sync_strands_waiters:
  "\<exists>s. sync_reachable (batched_config 600) 2 s \<and> thread_at s 1 (Returned (Caller 1) (Status_IoError ''fdatasync failed''))
     \<and> thread_at s 2 (Waiting (Caller 2)) \<and> sw_disk s < 2 \<and> (\<forall>t. \<not> sync_step (batched_config 600) s t)"
proof -
  let ?c = "\<lambda>n d. \<lparr>co_flushed = 0, co_max_pending = n, co_pending = n, co_running = False, co_deadline = d\<rparr>"
  let ?r = "\<lparr>co_flushed = 0, co_max_pending = 2, co_pending = 0, co_running = True, co_deadline = False\<rparr>"
  let ?w = "\<lambda>c l ts. \<lparr>sw_co = c, sw_log = l, sw_disk = 0, sw_threads = Waiting Worker # ts\<rparr>"
  let ?R = "sync_reachable (batched_config 600) 2"
  have 0: "?R (?w (?c 0 False) 0 [Outside, Outside])"
    using reachable_init [of "batched_config 600" 2] by (simp add: sync_init_def coordinator_init_def replicate_2)
  have 1: "?R (?w (?c 0 False) 1 [Appended 1, Outside])"
    by (rule reachable_step_to [OF 0 sync_step.append [where i = 1]]) (simp_all add: trace_simps)
  have 2: "?R (?w (?c 0 False) 2 [Appended 1, Appended 2])"
    by (rule reachable_step_to [OF 1 sync_step.append [where i = 2]]) (simp_all add: trace_simps)
  have 3: "?R (?w (?c 1 False) 2 [Coalescing 1, Appended 2])"
    by (rule reachable_step_to [OF 2 sync_step.enter [where i = 1 and lsn = 1, OF _ _ refl]]) (simp_all add: trace_simps await_spins_def)
  have 4: "?R (?w (?c 2 True) 2 [Coalescing 1, Waiting (Caller 2)])"
    by (rule reachable_step_to [OF 3 sync_step.enter [where i = 2 and lsn = 2, OF _ _ refl]]) (simp_all add: trace_simps await_spins_def)
  have 5: "?R (?w (?c 2 True) 2 [Waiting (Caller 1), Waiting (Caller 2)])"
    by (rule reachable_step_to [OF 4 sync_step.coalesced [where i = 1 and lsn = 1]]) (simp_all add: trace_simps)
  have 6: "?R (?w ?r 2 [Syncing (Caller 1) 2 2, Waiting (Caller 2)])"
    by (rule reachable_step_to [OF 5 sync_step.run [where i = 1 and r = "Caller 1" and late = True]])
      (simp_all add: trace_simps wants_sync_def ShouldFlush_def)
  have 7: "?R (?w ?r 2 [Synced (Caller 1) 2 2 False, Waiting (Caller 2)])"
    by (rule reachable_step_to [OF 6 sync_step.sync_fails [where i = 1]]) (auto simp: trace_simps)
  have 8: "?R (?w (?c 2 False) 2 [Returned (Caller 1) (Status_IoError ''fdatasync failed''), Waiting (Caller 2)])"
    by (rule reachable_step_to [OF 7 sync_step.finish_failed [where i = 1]]) (auto simp: trace_simps)
  show ?thesis by (intro exI conjI allI, rule 8) (simp_all add: nobody_moves)
qed

text \<open>With batches but no waiting time there is neither a flusher thread nor a deadline, and a single call waits for ever.\<close>

lemma lone_waiter_hangs:
  "\<exists>s. sync_reachable (batched_config 0) 1 s \<and> thread_at s 0 (Waiting (Caller 1)) \<and> sw_disk s = 0 \<and> (\<forall>t. \<not> sync_step (batched_config 0) s t)"
proof -
  have 0: "sync_reachable (batched_config 0) 1 (sync_init [Outside])" using reachable_init [of "batched_config 0" 1] by simp
  have 1: "sync_reachable (batched_config 0) 1 \<lparr>sw_co = coordinator_init, sw_log = 1, sw_disk = 0, sw_threads = [Appended 1]\<rparr>"
    by (rule reachable_step_to [OF 0 sync_step.append [where i = 0]]) (simp_all add: trace_simps)
  have 2: "sync_reachable (batched_config 0) 1 waiting_world"
    by (rule reachable_step_to [OF 1 sync_step.enter [where i = 0 and lsn = 1, OF _ _ refl]]) (simp_all add: trace_simps await_spins_def)
  show ?thesis by (intro exI conjI allI, rule 2) (simp_all add: nobody_moves)
qed

end
