(* ===== verification/ShardState.thy ===== *)
theory ShardState
  imports FsyncCoordinator TxnSidecar Superblock Regions TLog
begin

text \<open>
  The state of \<^verbatim>\<open>ShardEngine\<close> (\<^verbatim>\<open>cpp/include/ebtree/engine/shard_engine.h\<close>) and its small operations:
  the recovery state, the rotation of the memtables, snapshot pins, replay of the log, repair of the
  summary, and the cache of resolved LSNs (\<^verbatim>\<open>sfs_read_cache.cc\<close>). The operations run under the shard's lock
  (see \<open>FairLock\<close>), so each is a step on the state; counters that are only reported are left out. A call
  that looks up the index may not return, as \<open>bt_Get\<close> may not: such operations are options.
\<close>

section \<open>Recovery state\<close>

text \<open>\<^verbatim>\<open>concept/recovery/recovery_state.cc\<close>.\<close>

datatype ShardRecoveryState = KWalCorrupt | KOnDiskLazy | KWalPending | KLazyKey | KCommittedCold | KCommittedHot

record RecoveryStateInput =
  ri_wal_corrupt :: bool
  ri_wal_replay_pending :: bool
  ri_lazy_committed_load :: bool
  ri_committed_empty :: bool
  ri_memtables_empty :: bool
  ri_recovery_mode :: RecoveryMode
  ri_lazy_root_corrupt :: bool
  ri_btree_on_disk :: bool

definition ComputeRecoveryState :: "RecoveryStateInput \<Rightarrow> ShardRecoveryState" where
  "ComputeRecoveryState inp =
    (if ri_wal_corrupt inp then KWalCorrupt
     else if ri_wal_replay_pending inp then KWalPending
     else if ri_recovery_mode inp = KLazy \<or> ri_lazy_root_corrupt inp then KLazyKey
     else if \<not> ri_committed_empty inp \<and> ri_memtables_empty inp then KCommittedCold
     else if ri_lazy_committed_load inp \<or> (ri_committed_empty inp \<and> ri_btree_on_disk inp) then KOnDiskLazy
     else KCommittedHot)"

section \<open>The cache of resolved LSNs\<close>

text \<open>The list is the LRU order, newest first; \<open>index_\<close> is the search by cache key.\<close>

record sfs_entry =
  se_key_hash :: u64
  se_epoch :: u64
  se_floor_lsn :: u64
  se_tombstone :: bool
  se_reclaim_generation :: u8

record sfs_cache =
  sf_capacity :: nat
  sf_lru :: "sfs_entry list"

definition SfsReadCache_init :: sfs_cache where
  "SfsReadCache_init = \<lparr>sf_capacity = 16384, sf_lru = []\<rparr>"

definition SfsEpoch :: "u64 \<Rightarrow> u64 \<Rightarrow> u64" where
  "SfsEpoch snapshot_lsn checkpoint_lsn =
    (if checkpoint_lsn = 0 then snapshot_lsn else snapshot_lsn - snapshot_lsn mod checkpoint_lsn)"

definition CacheKey :: "u64 \<Rightarrow> u64 \<Rightarrow> u64" where
  "CacheKey key_hash s_epoch = xor (push_bit 32 key_hash) s_epoch"

definition entry_key :: "sfs_entry \<Rightarrow> u64" where
  "entry_key e = CacheKey (se_key_hash e) (se_epoch e)"

definition sfs_Lookup :: "sfs_cache \<Rightarrow> u64 \<Rightarrow> u64 \<Rightarrow> u64 option" where
  "sfs_Lookup c key_hash s_epoch =
    map_option (\<lambda>e. if se_tombstone e then 0 else se_floor_lsn e)
      (List.find (\<lambda>e. entry_key e = CacheKey key_hash s_epoch) (sf_lru c))"

definition sfs_Insert :: "u64 \<Rightarrow> u64 \<Rightarrow> u64 \<Rightarrow> bool \<Rightarrow> sfs_cache \<Rightarrow> sfs_cache" where
  "sfs_Insert key_hash s_epoch floor_lsn tombstone c =
    (let e = \<lparr>se_key_hash = key_hash, se_epoch = s_epoch, se_floor_lsn = floor_lsn, se_tombstone = tombstone,
              se_reclaim_generation = 0xFF\<rparr> in
     c\<lparr>sf_lru := take (sf_capacity c) (e # filter (\<lambda>x. entry_key x \<noteq> entry_key e) (sf_lru c))\<rparr>)"

definition InvalidateGeneration :: "u8 \<Rightarrow> sfs_cache \<Rightarrow> sfs_cache" where
  "InvalidateGeneration reclaim_generation c =
     c\<lparr>sf_lru := filter (\<lambda>e. se_reclaim_generation e \<noteq> reclaim_generation) (sf_lru c)\<rparr>"

section \<open>The shard\<close>

record shard =
  sh_opts :: EngineOptions
  sh_mem :: memtable
  sh_imm :: memtable
  sh_flushing :: memtable
  sh_wal :: wal_writer
  sh_data :: datafile
  sh_super :: "bytes option"
  sh_tlog :: tlog_files
  sh_gc :: region_manager
  sh_pages :: page_file
  sh_btree :: paged_btree
  sh_committed :: committed_map
  sh_sb :: super_block
  sh_group :: group_state
  sh_co :: coordinator
  sh_mode :: RecoveryMode
  sh_state :: ShardRecoveryState
  sh_pending :: bool
  sh_root_corrupt :: bool
  sh_wal_corrupt :: bool
  sh_pins :: u32
  sh_pinned_lsn :: u64
  sh_pinned_epoch :: u64
  sh_sfs :: sfs_cache
  sh_sidecar :: sidecar
  sh_vcs :: "vcs option"
  sh_didx :: "bytes option"
  sh_txidx :: "bytes option"
  sh_page_faults :: u64
  sh_stable :: u64
  sh_flush_total :: u64
  sh_opened :: bool

text \<open>\<open>sh_super\<close>, \<open>sh_didx\<close> and \<open>sh_txidx\<close> are files: the superblock, the saved LSN index, the saved sidecar.\<close>

abbreviation wal_disk :: "shard \<Rightarrow> bytes option" where
  "wal_disk s \<equiv> Some (ww_file (sh_wal s))"

abbreviation checkpoint_lsn :: "shard \<Rightarrow> u64" where
  "checkpoint_lsn s \<equiv> sc_wal_lsn (sb_critical (sh_sb s))"

abbreviation pages_of :: "lzma_lib \<Rightarrow> shard \<Rightarrow> nat \<Rightarrow> bytes res" where
  "pages_of lib s \<equiv> page_view lib (sh_pages s)"

definition MemTablesEmpty :: "shard \<Rightarrow> bool" where
  "MemTablesEmpty s \<longleftrightarrow> mem_Empty (sh_mem s) \<and> mem_Empty (sh_imm s) \<and> mem_Empty (sh_flushing s)"

definition RefreshRecoveryState :: "shard \<Rightarrow> shard" where
  "RefreshRecoveryState s = s\<lparr>sh_state := ComputeRecoveryState
     \<lparr>ri_wal_corrupt = sh_wal_corrupt s, ri_wal_replay_pending = sh_pending s,
      ri_lazy_committed_load = eo_lazy_committed_load (sh_opts s), ri_committed_empty = (sh_committed s = []),
      ri_memtables_empty = MemTablesEmpty s, ri_recovery_mode = sh_mode s,
      ri_lazy_root_corrupt = sh_root_corrupt s, ri_btree_on_disk = bt_on_disk (sh_btree s)\<rparr>\<rparr>"

definition RotateMemTableForFlush :: "shard \<Rightarrow> shard" where
  "RotateMemTableForFlush s =
    (let (mem1, imm1) = mem_Swap (sh_mem s) (sh_imm s); (imm2, flushing1) = mem_Swap imm1 (sh_flushing s) in
     s\<lparr>sh_mem := mem1, sh_imm := imm2, sh_flushing := flushing1\<rparr>)"

definition EnsureWalReplayed :: "shard \<Rightarrow> shard \<times> status" where
  "EnsureWalReplayed s =
    (if \<not> sh_pending s \<or> sh_wal_corrupt s then (s, Status_Ok)
     else (RefreshRecoveryState (s\<lparr>sh_mem := ReplayPending (wal_disk s) (sh_mem s) (checkpoint_lsn s), sh_pending := False\<rparr>),
           Status_Ok))"

definition RecoverFull :: "shard \<Rightarrow> shard \<times> status" where
  "RecoverFull s = EnsureWalReplayed (s\<lparr>sh_pending := False\<rparr>)"

text \<open>\<open>RestoreKeyFromWal\<close> on the shard.\<close>

definition restore_view :: "shard \<Rightarrow> restore_state" where
  "restore_view s = \<lparr>rs_wal = Some (sh_wal s), rs_memtable = sh_mem s, rs_wal_corrupt = sh_wal_corrupt s,
     rs_wal_lsn = checkpoint_lsn s, rs_lazy_page_faults = sh_page_faults s, rs_stats_page_faults = sh_page_faults s\<rparr>"

definition shard_RestoreKeyFromWal :: "shard \<Rightarrow> bytes \<Rightarrow> shard \<times> status" where
  "shard_RestoreKeyFromWal s key =
    (let (r, st) = RestoreKeyFromWal (restore_view s) key in
     (s\<lparr>sh_mem := rs_memtable r, sh_page_faults := rs_lazy_page_faults r\<rparr>, st))"

definition RepairSummary :: "shard \<Rightarrow> shard \<times> status" where
  "RepairSummary s =
    (s\<lparr>sh_btree := EnsureSummaryLsnAtLeast (sh_stable s)
         (RebuildFromCommitted (map (\<lambda>(k, v, lsn). (k, v, lsn)) (sh_committed s)) (sh_btree s))\<rparr>, Status_Ok)"

text \<open>The two repairs of a drifted summary; the second gives up while snapshots are pinned or the lock is taken.\<close>

definition TryRepairSummaryIfDrifted :: "shard \<Rightarrow> shard \<times> bool" where
  "TryRepairSummaryIfDrifted s =
    (if \<not> SummaryDrifted (sh_btree s) then (s, False) else (fst (RepairSummary s), status_ok (snd (RepairSummary s))))"

definition TryRepairSummaryIfDriftedBackground :: "bool \<Rightarrow> shard \<Rightarrow> shard \<times> bool" where
  "TryRepairSummaryIfDriftedBackground locked s =
    (if 0 < sh_pins s then (s, False) else if \<not> locked then (s, False) else TryRepairSummaryIfDrifted s)"

section \<open>Snapshot pins\<close>

definition PinSnapshot :: "u64 \<Rightarrow> shard \<Rightarrow> shard" where
  "PinSnapshot lsn s =
    (let s1 = s\<lparr>sh_pins := sh_pins s + 1\<rparr>;
         s2 = (if sh_pinned_lsn s1 = 0 \<or> lsn < sh_pinned_lsn s1 then s1\<lparr>sh_pinned_lsn := lsn\<rparr> else s1) in
     if sh_pinned_epoch s2 = 0 \<or> lsn < sh_pinned_epoch s2 then s2\<lparr>sh_pinned_epoch := lsn\<rparr> else s2)"

definition ReleaseSnapshot :: "u64 \<Rightarrow> shard \<Rightarrow> shard" where
  "ReleaseSnapshot lsn s =
    (let s1 = s\<lparr>sh_pins := sh_pins s - 1\<rparr> in
     if sh_pins s = 1 then s1\<lparr>sh_pinned_lsn := 0, sh_pinned_epoch := 0\<rparr> else s1)"

end
