(* ===== verification/ShardWrites.thy ===== *)
theory ShardWrites
  imports ShardState
begin

text \<open>
  The operations of \<^verbatim>\<open>cpp/src/engine/shard_engine.cc\<close> that write: puts and deletes on their three paths,
  flushes, checkpoints and the marks of transactions, with the rules of \<^verbatim>\<open>cpp/src/sync/rules/\<close> they dispatch
  (one rule per event, so \<open>Dispatch\<close> is a call). One call runs at a time; how calls share a sync or a batch is the
  subject of \<open>FsyncCoordinator\<close> and \<open>WritePipeline\<close>. Every write to a file takes a fault and every sync may fail.
\<close>

section \<open>One call at the coordinator and at the pipeline\<close>

text \<open>
  A call of \<open>RunFsyncLocked\<close>, of \<open>Await\<close> and of \<open>FlushPending\<close> with nobody else about. \<open>Await\<close> waits for
  ever when it would have to wait for a batch and no deadline is armed.
\<close>

definition RunFsync :: "bool \<Rightarrow> wal_writer \<Rightarrow> coordinator \<Rightarrow> (wal_writer \<times> coordinator) \<times> status" where
  "RunFsync sync w c =
    (let c1 = run_begin c; (w1, st) = wal_Fsync_at sync w in
     if status_ok st then ((w1, run_done (co_max_pending c) c1), Status_Ok)
     else ((w1, run_failed (co_pending c) c1), st))"

definition Await :: "wal_config \<Rightarrow> bool \<Rightarrow> u64 \<Rightarrow> wal_writer \<Rightarrow> coordinator \<Rightarrow> ((wal_writer \<times> coordinator) \<times> status) option" where
  "Await cfg sync lsn w c =
    (if lsn \<le> co_flushed c then Some ((w, c), Status_Ok)
     else
      (let c1 = await_arm cfg (await_enter lsn c) in
       if ShouldFlush cfg 0 (co_deadline c1) c1 then Some (RunFsync sync w c1) else None))"

definition co_FlushPending :: "bool \<Rightarrow> wal_writer \<Rightarrow> coordinator \<Rightarrow> (wal_writer \<times> coordinator) \<times> status" where
  "co_FlushPending sync w c = (if co_pending c = 0 then ((w, c), Status_Ok) else RunFsync sync w c)"

definition shard_config :: "shard \<Rightarrow> wal_config" where
  "shard_config s = coordinator_config (fsync_config (sh_opts s))"

definition shard_pipeline :: "shard \<Rightarrow> pipeline" where
  "shard_pipeline s = \<lparr>pl_config = pipeline_config (fsync_config (sh_opts s)), pl_queue = [], pl_stop = False,
     pl_done = [], pl_wal = sh_wal s, pl_mem = sh_mem s, pl_stable = sh_stable s\<rparr>"

definition after_pipeline :: "pipeline \<Rightarrow> shard \<Rightarrow> shard" where
  "after_pipeline p s = s\<lparr>sh_wal := pl_wal p, sh_mem := pl_mem p, sh_stable := pl_stable p\<rparr>"

definition pipeline_write :: "bool \<Rightarrow> fault \<Rightarrow> job \<Rightarrow> shard \<Rightarrow> shard \<times> status" where
  "pipeline_write sync ft j s =
    (let p = DrainAndFlush sync [ft] 0 (fst (pipeline_submit j (shard_pipeline s))) in
     (after_pipeline p s, (case pipeline_result (last (pl_done p)) of Inl e \<Rightarrow> e | Inr _ \<Rightarrow> Status_Ok)))"

definition shard_FlushPending :: "bool \<Rightarrow> shard \<Rightarrow> shard \<times> status" where
  "shard_FlushPending sync s =
    (if eo_durability (sh_opts s) = KBalancedClass
     then (let (p, st) = FlushPending 4000 [] (shard_pipeline s) in (after_pipeline p s, st))
     else (let ((w, c), st) = co_FlushPending sync (sh_wal s) (sh_co s) in (s\<lparr>sh_wal := w, sh_co := c\<rparr>, st)))"

section \<open>Puts and deletes\<close>

definition PutSyncFastAppend :: "fault \<Rightarrow> bytes \<Rightarrow> bytes \<Rightarrow> u32 \<Rightarrow> shard \<Rightarrow> shard \<times> u64 res" where
  "PutSyncFastAppend ft key val txn_id s =
    (case wal_Append ft (sh_wal s) kPut key val txn_id of
       (w, Inl e) \<Rightarrow> (s\<lparr>sh_wal := w\<rparr>, Inl e)
     | (w, Inr lsn) \<Rightarrow> (s\<lparr>sh_wal := w, sh_mem := mem_Put key val lsn txn_id (txn_id = 0) (sh_mem s)\<rparr>, Inr lsn))"

definition DeleteSyncFastAppend :: "fault \<Rightarrow> bytes \<Rightarrow> u32 \<Rightarrow> shard \<Rightarrow> shard \<times> u64 res" where
  "DeleteSyncFastAppend ft key txn_id s =
    (case wal_Append ft (sh_wal s) kDelete key [] txn_id of
       (w, Inl e) \<Rightarrow> (s\<lparr>sh_wal := w\<rparr>, Inl e)
     | (w, Inr lsn) \<Rightarrow> (s\<lparr>sh_wal := w, sh_mem := mem_DeleteKey key lsn txn_id (txn_id = 0) (sh_mem s)\<rparr>, Inr lsn))"

definition GroupCommitRule :: "bool \<Rightarrow> shard \<Rightarrow> shard \<times> status" where
  "GroupCommitRule sync s =
    (let ((w, lsn, g), st) = group_Commit sync (sh_wal s) (sh_stable s) (sh_group s) in
     (s\<lparr>sh_wal := w, sh_stable := lsn, sh_group := g\<rparr>, st))"

record write_request =
  wq_key :: bytes
  wq_value :: bytes
  wq_delete :: bool
  wq_txn_id :: u32

text \<open>The rule for writes: the log record carries no transaction, the entry in the table does.\<close>

definition WriteRule :: "bool \<Rightarrow> fault \<Rightarrow> write_request \<Rightarrow> shard \<Rightarrow> shard \<times> status" where
  "WriteRule sync ft req s =
    (if wq_key req = [] then (s, Status_InvalidArgument ''empty write key'')
     else
      (case wal_Append ft (sh_wal s) (if wq_delete req then kDelete else kPut) (wq_key req) (wq_value req) 0 of
         (w, Inl e) \<Rightarrow> (s\<lparr>sh_wal := w\<rparr>, e)
       | (w, Inr lsn) \<Rightarrow>
          (let s1 = s\<lparr>sh_wal := w, sh_mem :=
                 (if wq_delete req then mem_DeleteKey (wq_key req) lsn (wq_txn_id req) (wq_txn_id req = 0) (sh_mem s)
                  else mem_Put (wq_key req) (wq_value req) lsn (wq_txn_id req) (wq_txn_id req = 0) (sh_mem s))\<rparr> in
           if eo_durability (sh_opts s1) = KSync \<or> eo_sync_on_commit (sh_opts s1) then
            (let (w1, fs) = wal_Fsync_at sync (sh_wal s1) in
             if \<not> status_ok fs then (s1\<lparr>sh_wal := w1\<rparr>, fs) else (s1\<lparr>sh_wal := w1, sh_stable := lsn\<rparr>, Status_Ok))
           else if eo_durability (sh_opts s1) = KGroup then
            (let s2 = s1\<lparr>sh_group := RecordPut lsn (sh_group s1)\<rparr> in
             if ShouldAutoCommit (sh_group s2) (eo_group_commit_batch_size (sh_opts s2)) then GroupCommitRule sync s2
             else (s2, Status_Ok))
           else (s1, Status_Ok))))"

definition await_write :: "bool \<Rightarrow> shard \<times> u64 res \<Rightarrow> (shard \<times> status) option" where
  "await_write sync r =
    (case r of
       (s, Inl e) \<Rightarrow> Some (s, e)
     | (s, Inr lsn) \<Rightarrow>
        Option.bind (Await (shard_config s) sync lsn (sh_wal s) (sh_co s)) (\<lambda>((w, c), fs).
          if \<not> status_ok fs then Some (s\<lparr>sh_wal := w, sh_co := c\<rparr>, fs)
          else Some (s\<lparr>sh_wal := w, sh_co := c, sh_stable := lsn\<rparr>, Status_Ok)))"

definition sync_path :: "shard \<Rightarrow> bool" where
  "sync_path s \<longleftrightarrow> eo_durability (sh_opts s) = KSync \<or> eo_sync_on_commit (sh_opts s)"

definition shard_Put :: "bool \<Rightarrow> fault \<Rightarrow> bytes \<Rightarrow> bytes \<Rightarrow> u32 \<Rightarrow> shard \<Rightarrow> (shard \<times> status) option" where
  "shard_Put sync ft key val txn_id s =
    (if \<not> sh_opened s then Some (s, Status_Internal ''engine not open'')
     else if key = [] then Some (s, Status_InvalidArgument ''InvalidPlan: empty key'')
     else
      (let (s1, replay) = EnsureWalReplayed s in
       if \<not> status_ok replay then Some (s1, replay)
       else if eo_durability (sh_opts s) = KBalancedClass then Some (pipeline_write sync ft (new_job kPut key val txn_id) s1)
       else if sync_path s1 then await_write sync (PutSyncFastAppend ft key val txn_id s1)
       else Some (WriteRule sync ft \<lparr>wq_key = key, wq_value = val, wq_delete = False, wq_txn_id = txn_id\<rparr> s1)))"

definition shard_Delete :: "bool \<Rightarrow> fault \<Rightarrow> bytes \<Rightarrow> u32 \<Rightarrow> shard \<Rightarrow> (shard \<times> status) option" where
  "shard_Delete sync ft key txn_id s =
    (if \<not> sh_opened s then Some (s, Status_Internal ''engine not open'')
     else if key = [] then Some (s, Status_InvalidArgument ''InvalidPlan: empty key'')
     else
      (let (s1, replay) = EnsureWalReplayed s in
       if \<not> status_ok replay then Some (s1, replay)
       else if eo_durability (sh_opts s) = KBalancedClass then Some (pipeline_write sync ft (new_job kDelete key [] txn_id) s1)
       else if sync_path s1 then await_write sync (DeleteSyncFastAppend ft key txn_id s1)
       else Some (WriteRule sync ft \<lparr>wq_key = key, wq_value = [], wq_delete = True, wq_txn_id = txn_id\<rparr> s1)))"

section \<open>Flushes\<close>

fun gc_defers :: "u64 \<Rightarrow> datafile \<Rightarrow> u8 \<Rightarrow> u64 list \<Rightarrow> bool" where
  "gc_defers hdr_addr df reclaim [] \<longleftrightarrow> False"
| "gc_defers hdr_addr df reclaim (lsn # lsns) \<longleftrightarrow>
    (case ReadHeaderAtLsn hdr_addr df lsn of
       Inl _ \<Rightarrow> gc_defers hdr_addr df reclaim lsns
     | Inr hdr \<Rightarrow> dh_reserved0 hdr = reclaim \<or> gc_defers hdr_addr df reclaim lsns)"

definition MaybeGcSwap :: "u64 \<Rightarrow> fault \<Rightarrow> shard \<Rightarrow> shard \<times> status" where
  "MaybeGcSwap hdr_addr ft s =
    (let threshold = eo_gc_reclaim_threshold_bytes (sh_opts s); bytes = word_of_nat (df_FileSize (sh_data s)) in
     if threshold = 0 then (s, Status_Ok)
     else if (case sh_vcs s of None \<Rightarrow> False
              | Some v \<Rightarrow> 0 < sh_pinned_lsn s
                  \<and> gc_defers hdr_addr (sh_data s) (rm_reclaim (sh_gc s)) (ReferencedLsnsAbove v (sh_pinned_lsn s)))
     then (s, Status_Ok)
     else if 0 < sh_pins s then (s, Status_Ok)
     else if bytes < threshold then (s, Status_Ok)
     else (let (rm, st) = MaybeSwap ft (sh_gc s) bytes threshold in (s\<lparr>sh_gc := rm\<rparr>, st)))"

definition flush_context :: "shard \<Rightarrow> flusher_context" where
  "flush_context s = \<lparr>fc_wal = sh_wal s, fc_frozen = sh_flushing s, fc_datafile = sh_data s, fc_btree = sh_btree s,
     fc_vcs = sh_vcs s, fc_committed = sh_committed s, fc_stable_lsn = sh_stable s, fc_flush_total = sh_flush_total s,
     fc_generation = rm_active (sh_gc s)\<rparr>"

definition after_flush :: "flusher_context \<Rightarrow> shard \<Rightarrow> shard" where
  "after_flush c s = s\<lparr>sh_wal := fc_wal c, sh_flushing := fc_frozen c, sh_data := fc_datafile c, sh_btree := fc_btree c,
     sh_vcs := fc_vcs c, sh_committed := fc_committed c, sh_stable := fc_stable_lsn c, sh_flush_total := fc_flush_total c\<rparr>"

text \<open>The outside of a flush: its sync, the data file appends, the region swap, and the address of a local variable.\<close>

record flush_env =
  fe_sync :: bool
  fe_appends :: "fault list"
  fe_gc :: fault
  fe_hdr_addr :: u64

definition FlushInternal :: "lzma_lib \<Rightarrow> flush_env \<Rightarrow> shard \<Rightarrow> (shard \<times> status) option" where
  "FlushInternal lib env s =
    (let s1 = fst (MaybeGcSwap (fe_hdr_addr env) (fe_gc env) s) in
     map_option (\<lambda>(c, st). (after_flush c s1, st))
       (Flush lib (pages_of lib s1) (fe_sync env) (fe_appends env) (flush_context s1)))"

definition shard_Flush :: "lzma_lib \<Rightarrow> bool \<Rightarrow> flush_env \<Rightarrow> shard \<Rightarrow> (shard \<times> status) option" where
  "shard_Flush lib sync env s =
    (let (s1, replay) = EnsureWalReplayed s in
     if \<not> status_ok replay then Some (s1, replay)
     else (let (s2, fp) = shard_FlushPending sync s1 in
      if \<not> status_ok fp then Some (s2, fp) else FlushInternal lib env (RotateMemTableForFlush s2)))"

definition TryFlushBackground :: "lzma_lib \<Rightarrow> bool \<Rightarrow> bool \<Rightarrow> flush_env \<Rightarrow> shard \<Rightarrow> (shard \<times> status) option" where
  "TryFlushBackground lib locked sync env s =
    (if 0 < sh_pins s then Some (s, Status_Ok) else if \<not> locked then Some (s, Status_Ok) else shard_Flush lib sync env s)"

text \<open>One round of the background flush worker; its clock is left out.\<close>

definition flush_worker_round :: "lzma_lib \<Rightarrow> bool \<Rightarrow> bool \<Rightarrow> flush_env \<Rightarrow> shard \<Rightarrow> shard option" where
  "flush_worker_round lib locked sync env s =
    (if 0 < sh_pins s then Some s
     else if length (mem_Snapshot (sh_mem s)) < unat (eo_memtable_flush_threshold_keys (sh_opts s)) then Some s
     else map_option fst (TryFlushBackground lib locked sync env s))"

section \<open>Checkpoints\<close>

text \<open>
  \<open>FoldWalToVcs\<close> reads the log record by record without a check of its own; a read that ends early leaves
  zeros, and the record is taken all the same.
\<close>

function fold_records :: "nat \<Rightarrow> (bytes \<Rightarrow> wal_header) \<Rightarrow> bytes \<Rightarrow> (wal_header \<times> bytes) list" where
  "fold_records hs parse bs =
    (if hs = 0 \<or> length bs < hs then []
     else
      (let hdr = parse bs; rest = drop hs bs; kl = unat (wh_key_len hdr); vl = unat (wh_value_len hdr) in
       (hdr, zero_padded kl rest) # (if length rest < kl + vl then [] else fold_records hs parse (drop (kl + vl) rest))))"
  by pat_completeness auto
termination by (relation "measure (\<lambda>(_, _, bs). length bs)") auto

declare fold_records.simps [simp del]

fun fold_append :: "(bytes \<times> u64) list \<Rightarrow> vcs \<Rightarrow> vcs \<times> status" where
  "fold_append [] v = (v, Status_Ok)"
| "fold_append ((key, lsn) # rs) v =
    (if ContainsLsn v key lsn then fold_append rs v
     else
      (let head = vcs_Head v key in
       if head \<noteq> 0 \<and> lsn \<le> head then fold_append rs v
       else (let (v1, st) = vcs_Append v key lsn head in if status_ok st then fold_append rs v1 else (v1, st))))"

definition fold_v2 :: "u64 \<Rightarrow> (wal_header \<times> bytes) list \<Rightarrow> (bytes \<times> u64) list" where
  "fold_v2 after recs =
    (let new = filter (\<lambda>(h, _). after < wh_lsn h) recs;
         committed = map (\<lambda>(h, _). wh_txn_id h) (filter (\<lambda>(h, _). wh_op h = kTxnCommit) new);
         data = filter (\<lambda>(h, _). wh_op h = kPut \<or> wh_op h = kDelete) new in
     map (\<lambda>(h, k). (k, wh_lsn h)) (filter (\<lambda>(h, _). wh_txn_id h = 0 \<or> wh_txn_id h \<in> set committed) data))"

definition FoldWalToVcs :: "shard \<Rightarrow> shard \<times> status" where
  "FoldWalToVcs s =
    (case sh_vcs s of
       None \<Rightarrow> (s, Status_Ok)
     | Some v \<Rightarrow>
        (let fb = ww_file (sh_wal s); after = checkpoint_lsn s in
         if ww_v2 (sh_wal s) then
          (if length fb < 8 \<or> get_u64 fb \<noteq> kWalMagicV2 then (s, Status_Corrupt ''wal v2 magic'')
           else (let (v1, st) = fold_append (fold_v2 after (fold_records kWalHeader2 read_wal2 (drop (DataOffsetOnDisk fb) fb))) v in
             (s\<lparr>sh_vcs := Some v1\<rparr>, st)))
         else
          (let recs = filter (\<lambda>(h, _). after < wh_lsn h) (fold_records kWalHeader1 read_wal1 fb);
               (v1, st) = fold_append (map (\<lambda>(h, k). (k, wh_lsn h)) recs) v in
           (s\<lparr>sh_vcs := Some v1\<rparr>, st))))"

definition AppendTLogSnapshot :: "fault \<Rightarrow> fault \<Rightarrow> tlog_clock \<Rightarrow> u32 \<Rightarrow> shard \<Rightarrow> shard \<times> status" where
  "AppendTLogSnapshot ft1 ft2 clk wall s =
    (case AppendSnapshot ft1 ft2 clk wall (sh_tlog s) (sh_stable s) (word_of_nat (df_FileSize (sh_data s))) (ww_max_lsn (sh_wal s)) of
       (tf, Inl e) \<Rightarrow> (s\<lparr>sh_tlog := tf\<rparr>, e)
     | (tf, Inr tail) \<Rightarrow> (s\<lparr>sh_tlog := tf, sh_sb := (sh_sb s)\<lparr>sb_tlog_tail := tail\<rparr>\<rparr>, Status_Ok))"

definition committed_lsns :: "committed_map \<Rightarrow> entries" where
  "committed_lsns m = omap_of (map (\<lambda>(k, v, lsn). (k, lsn)) m)"

text \<open>The superblock that replaces the loaded one, once the index is persisted at \<open>root\<close>.\<close>

definition next_block :: "shard \<Rightarrow> super_block \<Rightarrow> u64 \<Rightarrow> u64 \<Rightarrow> super_block" where
  "next_block s sb wal_lsn root = sb\<lparr>sb_critical := (sb_critical sb)\<lparr>sc_data_lsn := sh_stable s, sc_wal_lsn := wal_lsn,
     sc_active_root := root\<rparr>, sb_tlog_tail := sb_tlog_tail (sh_sb s)\<rparr>"

definition commit_block :: "fault \<Rightarrow> super_block \<Rightarrow> shard \<Rightarrow> shard \<times> status" where
  "commit_block ft sb s = (let (file, st) = Commit ft (sh_super s) sb in (s\<lparr>sh_super := file, sh_sb := sb\<rparr>, st))"

definition CommitSuperBlockInternal :: "lzma_lib \<Rightarrow> fault list \<Rightarrow> fault \<Rightarrow> shard \<Rightarrow> (shard \<times> status) option" where
  "CommitSuperBlockInternal lib fts ft s =
    (let sb = Commit_current (sh_super s) in
     if sh_root_corrupt s then Some (commit_block ft (next_block s sb (sc_wal_lsn (sb_critical sb)) 0) s)
     else
      (let btree_map = committed_lsns (sh_committed s);
           bt1 = EnsureSummaryLsnAtLeast (sh_stable s) (RebuildSummaryFromCommitted btree_map (sh_btree s)) in
       Option.bind (PersistRootFromMap lib fts (sh_pages s) bt1 btree_map) (\<lambda>r. case r of
         (pf, bt2, Inl e) \<Rightarrow> Some (s\<lparr>sh_pages := pf, sh_btree := bt2\<rparr>, e)
       | (pf, bt2, Inr root) \<Rightarrow>
          (let (bt3, lr) = LoadRoot (page_view lib pf) bt2 root in
           if \<not> status_ok lr then Some (s\<lparr>sh_pages := pf, sh_btree := bt3\<rparr>, lr)
           else Some (commit_block ft (next_block s sb (ww_max_lsn (sh_wal s)) (word_of_nat root))
                  (s\<lparr>sh_pages := pf, sh_btree := EnsureSummaryLsnAtLeast (sh_stable s) bt3\<rparr>))))))"

datatype CheckpointPhase = AfterFlush | AfterVcsFold | AfterTLog | BeforeSuperBlock | AfterSuperBlock | BeforeWalTruncate

record checkpoint_env =
  ce_pending_sync :: bool
  ce_group_sync :: bool
  ce_flush :: flush_env
  ce_tlog :: "fault \<times> fault"
  ce_clock :: tlog_clock
  ce_wall :: u32
  ce_pages :: "fault list"
  ce_super :: fault
  ce_hook :: "CheckpointPhase \<Rightarrow> bool"

definition interrupted :: "shard \<Rightarrow> (shard \<times> status) option" where
  "interrupted s = Some (s, Status_Internal ''checkpoint interrupted'')"

text \<open>What follows a superblock commit that succeeded; the saves of the sidecar files are taken to succeed.\<close>

definition checkpoint_done :: "(CheckpointPhase \<Rightarrow> bool) \<Rightarrow> shard \<Rightarrow> (shard \<times> status) option" where
  "checkpoint_done hook s =
    (let s1 = s\<lparr>sh_didx := Some (enc_didx (df_index (sh_data s))), sh_txidx := Some (sc_SaveToFile (sh_sidecar s)),
               sh_vcs := map_option (\<lambda>v. if 0 < sh_pinned_lsn s then CompactBelow v (sh_pinned_lsn s) else v) (sh_vcs s)\<rparr> in
     if hook BeforeWalTruncate then interrupted s1
     else
      (let s2 = (if 0 < checkpoint_lsn s1 then s1\<lparr>sh_wal := TruncateTo (sh_wal s1) (checkpoint_lsn s1)\<rparr> else s1);
           s3 = RefreshRecoveryState s2 in
       if hook AfterSuperBlock then interrupted s3 else Some (s3, Status_Ok)))"

definition checkpoint_commit :: "lzma_lib \<Rightarrow> checkpoint_env \<Rightarrow> shard \<Rightarrow> (shard \<times> status) option" where
  "checkpoint_commit lib env s =
    (let (s1, fold) = FoldWalToVcs s in
     if \<not> status_ok fold then Some (s1, fold)
     else if ce_hook env AfterVcsFold then interrupted s1
     else (let (s2, tl) = AppendTLogSnapshot (fst (ce_tlog env)) (snd (ce_tlog env)) (ce_clock env) (ce_wall env) s1 in
      if \<not> status_ok tl then Some (s2, tl)
      else if ce_hook env AfterTLog then interrupted s2
      else if ce_hook env BeforeSuperBlock then interrupted s2
      else Option.bind (CommitSuperBlockInternal lib (ce_pages env) (ce_super env) s2) (\<lambda>(s3, sb_st).
        if status_ok sb_st then checkpoint_done (ce_hook env) s3
        else if ce_hook env AfterSuperBlock then interrupted s3 else Some (s3, sb_st))))"

definition Checkpoint :: "lzma_lib \<Rightarrow> checkpoint_env \<Rightarrow> shard \<Rightarrow> (shard \<times> status) option" where
  "Checkpoint lib env s =
    (let (s1, replay) = EnsureWalReplayed s in
     if \<not> status_ok replay then Some (s1, replay)
     else (let (s2, fp) = shard_FlushPending (ce_pending_sync env) s1 in
      if \<not> status_ok fp then Some (s2, fp)
      else (let (s3, gc) = (if eo_durability (sh_opts s2) = KGroup then GroupCommitRule (ce_group_sync env) s2 else (s2, Status_Ok)) in
       if \<not> status_ok gc then Some (s3, gc)
       else Option.bind (FlushInternal lib (ce_flush env) (RotateMemTableForFlush s3)) (\<lambda>(s4, fl).
         if \<not> status_ok fl then Some (s4, fl)
         else if ce_hook env AfterFlush then interrupted s4
         else checkpoint_commit lib env s4))))"

section \<open>Marks of transactions\<close>

definition AppendTxnBegin :: "fault \<Rightarrow> u32 \<Rightarrow> u64 \<Rightarrow> shard \<Rightarrow> shard \<times> status" where
  "AppendTxnBegin ft txn_id snapshot_lsn s =
    (let (w, r) = AppendTxnControl ft (sh_wal s) kTxnBegin txn_id snapshot_lsn in
     (s\<lparr>sh_sidecar := SetOpenTxn txn_id snapshot_lsn (sh_sidecar s), sh_wal := w\<rparr>,
      (case r of Inl e \<Rightarrow> e | Inr _ \<Rightarrow> Status_Ok)))"

definition AppendTxnCommit :: "bool \<Rightarrow> bool \<Rightarrow> fault \<Rightarrow> u32 \<Rightarrow> shard \<Rightarrow> shard \<times> status" where
  "AppendTxnCommit sync1 sync2 ft txn_id s =
    (case AppendTxnControl ft (sh_wal s) kTxnCommit txn_id 0 of
       (w, Inl e) \<Rightarrow> (s\<lparr>sh_wal := w\<rparr>, e)
     | (w, Inr lsn) \<Rightarrow>
        (let s1 = s\<lparr>sh_wal := w, sh_sidecar := MarkCommitted txn_id lsn (sh_sidecar s)\<rparr>;
             (s2, fp) = shard_FlushPending sync1 s1 in
         if \<not> status_ok fp then (s2, fp)
         else (let (w1, fs) = wal_Fsync_at sync2 (sh_wal s2) in (s2\<lparr>sh_wal := w1\<rparr>, fs))))"

definition AppendTxnAbort :: "fault \<Rightarrow> u32 \<Rightarrow> shard \<Rightarrow> shard \<times> status" where
  "AppendTxnAbort ft txn_id s =
    (let (w, r) = AppendTxnControl ft (sh_wal s) kTxnAbort txn_id 0 in
     (s\<lparr>sh_sidecar := MarkAborted txn_id (sh_sidecar s), sh_wal := w\<rparr>, (case r of Inl e \<Rightarrow> e | Inr _ \<Rightarrow> Status_Ok)))"

end
