(* ===== verification/ShardReads.thy ===== *)
theory ShardReads
  imports ShardWrites
begin

text \<open>
  How a shard answers reads: \<^verbatim>\<open>cpp/src/engine/snapshot_resolver.cc\<close>, \<^verbatim>\<open>read_resolver.cc\<close>,
  \<^verbatim>\<open>scan_resolver.cc\<close>, \<^verbatim>\<open>shard_scan_values.cc\<close> and the reading part of \<^verbatim>\<open>shard_engine.cc\<close>. A read looks
  at the three memtables, the committed map, the index and the version chains, and, while replay is deferred,
  at the log. Pages are read through \<open>page_view\<close> (see \<open>PagedBTree\<close>); \<open>std::hash\<close> of a key is a parameter.
\<close>

section \<open>One key at a snapshot\<close>

record snapshot_context =
  cx_lsn :: u64
  cx_txn_id :: u32

definition LookupMemTable :: "memtable \<Rightarrow> memtable \<Rightarrow> memtable \<Rightarrow> bytes \<Rightarrow> mem_entry option" where
  "LookupMemTable active immutable flushing key =
    (case mem_Get active key of Some e \<Rightarrow> Some e
     | None \<Rightarrow> (case mem_Get immutable key of Some e \<Rightarrow> Some e | None \<Rightarrow> mem_Get flushing key))"

definition MemEntryVisible :: "mem_entry \<Rightarrow> snapshot_context \<Rightarrow> bool" where
  "MemEntryVisible e ctx \<longleftrightarrow>
    (if cx_txn_id ctx \<noteq> 0 \<and> me_txn_id e = cx_txn_id ctx then True
     else if me_durable e then True
     else if 0 < cx_lsn ctx \<and> cx_lsn ctx < me_lsn e then False
     else False)"

definition ReadValueByLsn :: "lzma_lib \<Rightarrow> shard \<Rightarrow> u64 \<Rightarrow> bytes res" where
  "ReadValueByLsn lib s lsn = ReadByLsn lib (sh_data s) lsn (rm_reclaim (sh_gc s))"

text \<open>The records of a log as a plain reader meets them, up to the first one that is cut off.\<close>

function plain_records :: "bytes \<Rightarrow> wal_record list" where
  "plain_records bs =
    (if length bs < kWalHeader2 then []
     else
      (let hdr = read_wal2 bs; rest = drop kWalHeader2 bs; kl = unat (wh_key_len hdr); vl = unat (wh_value_len hdr) in
       if length rest < kl + vl then []
       else \<lparr>wr_hdr = hdr, wr_key = take kl rest, wr_value = take vl (drop kl rest)\<rparr> # plain_records (drop (kl + vl) rest)))"
  by pat_completeness auto
termination by (relation "measure length") (auto simp: kWalHeader2_def)

declare plain_records.simps [simp del]

text \<open>The LSN, the value and whether it is a deletion.\<close>

definition TryWalSnapshotFloor :: "shard \<Rightarrow> bytes \<Rightarrow> u64 \<Rightarrow> (u64 \<times> bytes \<times> bool) option" where
  "TryWalSnapshotFloor s key snapshot_lsn =
    (if snapshot_lsn = 0 \<or> sh_mode s = KHot \<or> \<not> sh_pending s \<or> sh_wal_corrupt s then None
     else
      (let fb = ww_file (sh_wal s); best = LatestCommittedLsnForKey (Some fb) key (checkpoint_lsn s) in
       if best = 0 \<or> snapshot_lsn < best then None
       else
        (case List.find (\<lambda>r. wh_lsn (wr_hdr r) = best \<and> wr_key r = key) (plain_records (drop (DataOffsetOnDisk fb) fb)) of
           None \<Rightarrow> Some (best, [], False)
         | Some r \<Rightarrow> Some (best, if wh_op (wr_hdr r) = kPut then wr_value r else [], wh_op (wr_hdr r) = kDelete))))"

text \<open>A read that found the value or learned that there is none ends the search; other errors do not.\<close>

definition final_read :: "bytes res \<Rightarrow> bytes res option" where
  "final_read r = (case r of Inr v \<Rightarrow> Some (Inr v) | Inl e \<Rightarrow> if st_code e = KNotFound then Some (Inl e) else None)"

definition read_tables :: "shard \<Rightarrow> bytes \<Rightarrow> snapshot_context \<Rightarrow> bytes res option" where
  "read_tables s key ctx =
    (case LookupMemTable (sh_mem s) (sh_imm s) (sh_flushing s) key of
       None \<Rightarrow> None
     | Some e \<Rightarrow>
        if \<not> MemEntryVisible e ctx then None
        else if me_deleted e then Some (Inl (Status_NotFound ''deleted in memtable'')) else Some (Inr (me_value e)))"

definition read_committed :: "shard \<Rightarrow> bytes \<Rightarrow> snapshot_context \<Rightarrow> bytes res option" where
  "read_committed s key ctx =
    (case map_of (sh_committed s) key of
       None \<Rightarrow> None
     | Some (v, lsn) \<Rightarrow> if cx_lsn ctx = 0 \<or> lsn \<le> cx_lsn ctx then Some (Inr v) else None)"

definition orelse :: "'a option \<Rightarrow> 'a option \<Rightarrow> 'a option" where
  "orelse a b = (case a of Some x \<Rightarrow> Some x | None \<Rightarrow> b)"

lemma orelse_simps [simp]: "orelse (Some x) b = Some x" "orelse None b = b"
  by (simp_all add: orelse_def)

definition ResolveAtSnapshot :: "lzma_lib \<Rightarrow> shard \<Rightarrow> bytes \<Rightarrow> snapshot_context \<Rightarrow> bytes res option" where
  "ResolveAtSnapshot lib s key ctx =
    (case orelse (read_tables s key ctx) (read_committed s key ctx) of
       Some r \<Rightarrow> Some r
     | None \<Rightarrow>
        Option.bind (bt_Get (pages_of lib s) (sh_btree s) key) (\<lambda>b.
          let snap = cx_lsn ctx; hit = (\<not> isl b); data_lsn = (case b of Inr l \<Rightarrow> l | Inl _ \<Rightarrow> 0);
              from_index = (if hit \<and> (snap = 0 \<or> data_lsn \<le> snap) then final_read (ReadValueByLsn lib s data_lsn) else None);
              from_chain = (case sh_vcs s of None \<Rightarrow> None
                | Some v \<Rightarrow> (let fl = vcs_Floor v key snap in if 0 < fl then final_read (ReadValueByLsn lib s fl) else None));
              from_wal = (case TryWalSnapshotFloor s key snap of None \<Rightarrow> None
                | Some (fl, val, deleted) \<Rightarrow>
                   if deleted then Some (Inl (Status_NotFound ''deleted at snapshot''))
                   else if val \<noteq> [] then Some (Inr val) else final_read (ReadValueByLsn lib s fl));
              otherwise = Inl (Status_NotFound (if hit \<and> 0 < snap \<and> snap < data_lsn then ''not visible at snapshot'' else ''key not found''))
          in orelse from_index (orelse from_chain (orelse from_wal (Some otherwise)))))"

section \<open>Resolved LSNs\<close>

definition ResolveLsnAtSnapshot :: "(bytes \<Rightarrow> u64) \<Rightarrow> lzma_lib \<Rightarrow> shard \<Rightarrow> bytes \<Rightarrow> u64 \<Rightarrow> (shard \<times> u64 res) option" where
  "ResolveLsnAtSnapshot hash lib s key snapshot_lsn =
    (let s_epoch = SfsEpoch snapshot_lsn (checkpoint_lsn s);
         remember = (\<lambda>fl tomb. s\<lparr>sh_sfs := sfs_Insert (hash key) s_epoch fl tomb (sh_sfs s)\<rparr>) in
     case sfs_Lookup (sh_sfs s) (hash key) s_epoch of
       Some cached \<Rightarrow> Some (s, if cached = 0 then Inl (Status_NotFound ''no version at snapshot'') else Inr cached)
     | None \<Rightarrow>
        Option.bind (bt_Get (pages_of lib s) (sh_btree s) key) (\<lambda>b.
          let forward = (case b of Inr l \<Rightarrow> l | Inl _ \<Rightarrow> 0);
              fl = (case sh_vcs s of None \<Rightarrow> 0 | Some v \<Rightarrow> vcs_Floor v key snapshot_lsn) in
          Some
           (if \<not> isl b \<and> (snapshot_lsn = 0 \<or> forward \<le> snapshot_lsn) then (remember forward False, Inr forward)
            else if 0 < fl then (remember fl False, Inr fl)
            else (case TryWalSnapshotFloor s key snapshot_lsn of
                Some (wal_floor, _, deleted) \<Rightarrow>
                  if deleted then (remember 0 True, Inl (Status_NotFound ''deleted at snapshot''))
                  else (remember wal_floor False, Inr wal_floor)
              | None \<Rightarrow> (s, Inl (Status_NotFound ''no version at snapshot''))))))"

definition durable_lsn :: "bytes \<Rightarrow> memtable \<Rightarrow> u64 option \<Rightarrow> u64 option" where
  "durable_lsn key mt best =
    (case mem_Get mt key of None \<Rightarrow> best
     | Some e \<Rightarrow> if me_durable e \<and> (case best of None \<Rightarrow> 0 | Some b \<Rightarrow> b) \<le> me_lsn e then Some (me_lsn e) else best)"

definition lsn_or_zero :: "u64 option \<Rightarrow> u64" where
  "lsn_or_zero best = (case best of None \<Rightarrow> 0 | Some b \<Rightarrow> b)"

definition ResolveCurrentCommittedLsn :: "lzma_lib \<Rightarrow> shard \<Rightarrow> bytes \<Rightarrow> u64 res option" where
  "ResolveCurrentCommittedLsn lib s key =
    (let b1 = durable_lsn key (sh_mem s) (durable_lsn key (sh_imm s) (durable_lsn key (sh_flushing s) None));
         b2 = (case map_of (sh_committed s) key of Some (_, lsn) \<Rightarrow> if lsn_or_zero b1 \<le> lsn then Some lsn else b1 | None \<Rightarrow> b1) in
     Option.bind (bt_Get (pages_of lib s) (sh_btree s) key) (\<lambda>b.
       let b3 = (case b of Inr forward \<Rightarrow> if lsn_or_zero b2 < forward then Some forward else b2 | Inl _ \<Rightarrow> b2);
           b4 = (case sh_vcs s of Some v \<Rightarrow> (let head = vcs_Head v key in if lsn_or_zero b3 < head then Some head else b3) | None \<Rightarrow> b3) in
       Some (case b4 of None \<Rightarrow> Inl (Status_NotFound ''no committed version'') | Some lsn \<Rightarrow> Inr lsn)))"

definition RefreshExternalWalIfPending :: "shard \<Rightarrow> shard \<times> status" where
  "RefreshExternalWalIfPending s =
    (let s1 = s\<lparr>sh_wal := SyncExternalTailLocked (sh_wal s)\<rparr>; after = checkpoint_lsn s1 in
     if ww_max_lsn (sh_wal s1) \<le> after \<and> \<not> sh_pending s1 then (s1, Status_Ok)
     else EnsureWalReplayed (if after < ww_max_lsn (sh_wal s1) then s1\<lparr>sh_pending := True\<rparr> else s1))"

definition shard_ResolveCurrentCommittedLsn :: "lzma_lib \<Rightarrow> shard \<Rightarrow> bytes \<Rightarrow> (shard \<times> u64 res) option" where
  "shard_ResolveCurrentCommittedLsn lib s key =
    (let (s1, refresh) = RefreshExternalWalIfPending s in
     if \<not> status_ok refresh then Some (s1, Inl refresh)
     else
      Option.bind (ResolveCurrentCommittedLsn lib s1 key) (\<lambda>local.
        case local of
          Inl e \<Rightarrow> if st_code e \<noteq> KNotFound then Some (s1, Inl e)
            else (let wal_lsn = LatestCommittedLsnForKey (wal_disk s1) key 0 in
              Some (s1, if 0 < wal_lsn then Inr wal_lsn else Inl (Status_NotFound ''no committed version'')))
        | Inr best \<Rightarrow> Some (s1, Inr (max best (LatestCommittedLsnForKey (wal_disk s1) key 0)))))"

section \<open>Reads at a snapshot\<close>

abbreviation summary_lsn :: "shard \<Rightarrow> u64" where
  "summary_lsn s \<equiv> bs_summary_lsn (bt_summary (sh_btree s))"

definition SnapshotReadNeedsUpgrade :: "u64 \<Rightarrow> shard \<Rightarrow> bool" where
  "SnapshotReadNeedsUpgrade snapshot_lsn s \<longleftrightarrow>
    (if sh_pending s \<and> \<not> sh_wal_corrupt s \<and> sh_mode s \<noteq> KLazy then True
     else if 0 < snapshot_lsn \<and> summary_lsn s < snapshot_lsn then True else False)"

definition PrepareSnapshotReadLocked :: "u64 \<Rightarrow> shard \<Rightarrow> shard \<times> status" where
  "PrepareSnapshotReadLocked snapshot_lsn s =
    (let (s1, replay) = (if sh_pending s \<and> \<not> sh_wal_corrupt s \<and> sh_mode s \<noteq> KLazy
         then (let (s1, st) = EnsureWalReplayed s in (if status_ok st then RefreshRecoveryState s1 else s1, st))
         else (s, Status_Ok)) in
     if \<not> status_ok replay then (s1, replay)
     else if 0 < snapshot_lsn \<and> summary_lsn s1 < snapshot_lsn then RepairSummary s1 else (s1, Status_Ok))"

definition GetAtSnapshotCore :: "lzma_lib \<Rightarrow> shard \<Rightarrow> bytes \<Rightarrow> snapshot_context \<Rightarrow> bytes res option" where
  "GetAtSnapshotCore lib s key ctx =
    (case orelse (read_tables s key ctx) (read_committed s key ctx) of
       Some r \<Rightarrow> Some r
     | None \<Rightarrow>
        Option.bind (bt_Get (pages_of lib s) (sh_btree s) key) (\<lambda>b.
          let snap = cx_lsn ctx;
              disk_lsn = (case b of
                  Inr forward \<Rightarrow> if snap = 0 \<or> forward \<le> snap then forward
                    else (case sh_vcs s of None \<Rightarrow> 0 | Some v \<Rightarrow> vcs_Floor v key snap)
                | Inl _ \<Rightarrow> (case sh_vcs s of None \<Rightarrow> 0 | Some v \<Rightarrow> vcs_Floor v key snap)) in
          if disk_lsn = 0 then ResolveAtSnapshot lib s key ctx
          else (case final_read (ReadValueByLsn lib s disk_lsn) of
              Some r \<Rightarrow> Some r
            | None \<Rightarrow> ResolveAtSnapshot lib s key ctx)))"

definition GetAtSnapshot :: "lzma_lib \<Rightarrow> shard \<Rightarrow> bytes \<Rightarrow> snapshot_context \<Rightarrow> (shard \<times> bytes res) option" where
  "GetAtSnapshot lib s key ctx =
    (if key = [] then Some (s, Inl (Status_InvalidArgument ''InvalidPlan: empty key''))
     else if \<not> SnapshotReadNeedsUpgrade (cx_lsn ctx) s then map_option (Pair s) (GetAtSnapshotCore lib s key ctx)
     else
      (let (s1, prep) = PrepareSnapshotReadLocked (cx_lsn ctx) s in
       if \<not> status_ok prep then Some (s1, Inl prep) else map_option (Pair s1) (GetAtSnapshotCore lib s1 key ctx)))"

definition GetAsOfLsn :: "lzma_lib \<Rightarrow> shard \<Rightarrow> bytes \<Rightarrow> u64 \<Rightarrow> (shard \<times> bytes res) option" where
  "GetAsOfLsn lib s key lsn = GetAtSnapshot lib s key \<lparr>cx_lsn = lsn, cx_txn_id = 0\<rparr>"

section \<open>Reads of the latest state\<close>

definition Prepare :: "typed_plan \<Rightarrow> shard \<Rightarrow> status" where
  "Prepare plan s =
    (if tp_op plan = KEq \<and> tp_key plan = [] then Status_InvalidArgument ''InvalidPlan: empty key''
     else if tp_op plan = KRange \<and> tp_range_end plan < tp_key plan
     then Status_InvalidArgument ''InvalidPlan: range_end before key''
     else if tp_op plan \<noteq> KEq \<and> 0 < tp_snapshot_lsn plan \<and> summary_lsn s < tp_snapshot_lsn plan
     then Status_StaleSummary ''summary behind snapshot''
     else Status_Ok)"

abbreviation ReadVisible :: "lzma_lib \<Rightarrow> shard \<Rightarrow> bytes \<Rightarrow> u64 \<Rightarrow> bytes res option" where
  "ReadVisible lib s key snapshot_lsn \<equiv> ResolveAtSnapshot lib s key \<lparr>cx_lsn = snapshot_lsn, cx_txn_id = 0\<rparr>"

definition value_of :: "bytes res \<Rightarrow> bytes option" where
  "value_of r = (case r of Inr v \<Rightarrow> Some v | Inl _ \<Rightarrow> None)"

text \<open>Restore the key from the log, and read it if that succeeded.\<close>

definition restore_and_read :: "lzma_lib \<Rightarrow> shard \<Rightarrow> bytes \<Rightarrow> u64 \<Rightarrow> (shard \<times> bytes res option) option" where
  "restore_and_read lib s key snapshot_lsn =
    (let (s1, restore) = shard_RestoreKeyFromWal s key in
     if status_ok restore then map_option (\<lambda>r. (s1, Some r)) (ReadVisible lib s1 key snapshot_lsn) else Some (s1, None))"

definition newer_in_wal :: "shard \<Rightarrow> bytes \<Rightarrow> u64 \<Rightarrow> bool" where
  "newer_in_wal s key data_lsn \<longleftrightarrow> sh_pending s \<and> \<not> sh_wal_corrupt s
     \<and> (case wki_Lookup (ww_index (sh_wal s)) key (checkpoint_lsn s) of
          None \<Rightarrow> False
        | Some wal_off \<Rightarrow> (case ReplayRecordAt (ww_file (sh_wal s)) wal_off of
              Inl _ \<Rightarrow> False | Inr (_, _, _, wal_rec_lsn) \<Rightarrow> data_lsn < wal_rec_lsn))"

definition TryLazyWalOrDisk :: "lzma_lib \<Rightarrow> shard \<Rightarrow> bytes \<Rightarrow> u64 \<Rightarrow> (shard \<times> bytes option) option" where
  "TryLazyWalOrDisk lib s key snapshot_lsn =
    Option.bind (bt_Get (pages_of lib s) (sh_btree s) key) (\<lambda>b.
      let rest = (\<lambda>s1.
            case (case b of Inr data_lsn \<Rightarrow> if snapshot_lsn = 0 \<or> data_lsn \<le> snapshot_lsn
                    then value_of (ReadValueByLsn lib s1 data_lsn) else None | Inl _ \<Rightarrow> None) of
              Some v \<Rightarrow> Some (s1, Some v)
            | None \<Rightarrow>
                if sh_mode s1 = KLazy \<or> sh_root_corrupt s1
                then map_option (\<lambda>(s2, r). (s2, Option.bind r value_of)) (restore_and_read lib s1 key snapshot_lsn)
                else Some (s1, None)) in
      case b of
        Inl _ \<Rightarrow> rest s
      | Inr data_lsn \<Rightarrow>
          if newer_in_wal s key data_lsn
          then Option.bind (restore_and_read lib s key snapshot_lsn) (\<lambda>(s1, r).
                 case r of Some v \<Rightarrow> Some (s1, value_of v) | None \<Rightarrow> rest s1)
          else rest s)"

text \<open>\<open>Get\<close> first reads under the shared lock, and once more under the exclusive lock when it could not answer.\<close>

definition get_exclusive :: "lzma_lib \<Rightarrow> shard \<Rightarrow> bytes \<Rightarrow> (shard \<times> bytes res) option" where
  "get_exclusive lib s key =
    (let snap = sh_stable s;
         s1 = (if 0 < snap \<and> summary_lsn s < snap then fst (RepairSummary s) else s);
         (s2, replay) = (if sh_pending s1 \<and> \<not> sh_wal_corrupt s1 \<and> sh_mode s1 \<noteq> KLazy then EnsureWalReplayed s1 else (s1, Status_Ok)) in
     if \<not> status_ok replay then Some (s2, Inl replay)
     else
      Option.bind (ReadVisible lib s2 key snap) (\<lambda>rs.
        if \<not> isl rs then Some (s2, rs)
        else if eo_lazy_committed_load (sh_opts s2) \<or> bt_on_disk (sh_btree s2)
        then Option.bind (TryLazyWalOrDisk lib s2 key snap) (\<lambda>(s3, v).
               Some (s3, case v of Some x \<Rightarrow> Inr x | None \<Rightarrow> rs))
        else Some (s2, rs)))"

definition not_found :: "bytes res \<Rightarrow> bool" where
  "not_found r \<longleftrightarrow> (case r of Inl e \<Rightarrow> st_code e = KNotFound | Inr _ \<Rightarrow> False)"

definition shard_Get :: "lzma_lib \<Rightarrow> shard \<Rightarrow> bytes \<Rightarrow> (shard \<times> bytes res) option" where
  "shard_Get lib s key =
    (let snap = sh_stable s; stale = (0 < snap \<and> summary_lsn s < snap);
         pst = Prepare \<lparr>tp_op = KEq, tp_key = key, tp_range_end = [], tp_snapshot_lsn = snap\<rparr> s in
     if \<not> status_ok pst \<and> st_code pst \<noteq> KStaleSummary then Some (s, Inl pst)
     else
      Option.bind (ReadVisible lib s key snap) (\<lambda>rs.
        if \<not> isl rs \<and> \<not> stale then Some (s, rs)
        else
         Option.bind (if not_found rs \<and> (eo_lazy_committed_load (sh_opts s) \<or> bt_on_disk (sh_btree s))
                      then TryLazyWalOrDisk lib s key snap else Some (s, None)) (\<lambda>(s1, v).
           case v of
             Some x \<Rightarrow> Some (s1, Inr x)
           | None \<Rightarrow>
              Option.bind (if sh_mode s1 = KLazy \<and> not_found rs then restore_and_read lib s1 key snap else Some (s1, None))
                (\<lambda>(s2, r). case r of
                   Some x \<Rightarrow> Some (s2, x)
                 | None \<Rightarrow> if \<not> stale \<and> (\<not> sh_pending s2 \<or> sh_wal_corrupt s2) then Some (s2, rs) else get_exclusive lib s2 key))))"

section \<open>Scans\<close>

definition plan_code :: "status \<Rightarrow> bool" where
  "plan_code pst \<longleftrightarrow> status_ok pst \<or> st_code pst = KStaleSummary"

definition CanScanCommittedDirect :: "typed_plan \<Rightarrow> shard \<Rightarrow> bool" where
  "CanScanCommittedDirect plan s \<longleftrightarrow>
    (if 0 < tp_snapshot_lsn plan \<and> summary_lsn s < tp_snapshot_lsn plan then False
     else if sh_committed s = [] \<or> \<not> MemTablesEmpty s then False
     else if sh_state s = KCommittedCold then True
     else sh_state s = KCommittedHot \<and> \<not> eo_lazy_committed_load (sh_opts s))"

definition sort_rows :: "(bytes \<times> 'a) list \<Rightarrow> (bytes \<times> 'a) list" where
  "sort_rows rows = sort_key fst rows"

definition ScanCommittedDirect :: "typed_plan \<Rightarrow> u64 \<Rightarrow> shard \<Rightarrow> (bytes \<times> bytes) list" where
  "ScanCommittedDirect plan snapshot_lsn s =
    (case tp_op plan of
       KEq \<Rightarrow> (case map_of (sh_committed s) (tp_key plan) of
           Some (v, lsn) \<Rightarrow> if snapshot_lsn = 0 \<or> lsn \<le> snapshot_lsn then [(tp_key plan, v)] else []
         | None \<Rightarrow> [])
     | KRange \<Rightarrow> sort_rows (map (\<lambda>(k, v, lsn). (k, v))
         (filter (\<lambda>(k, v, lsn). tp_key plan \<le> k \<and> k \<le> tp_range_end plan \<and> \<not> (0 < snapshot_lsn \<and> snapshot_lsn < lsn)) (sh_committed s))))"

definition ApplyMemTableOverlay :: "(mem_entry \<Rightarrow> bool) \<Rightarrow> typed_plan \<Rightarrow> memtable \<Rightarrow> entries \<Rightarrow> entries" where
  "ApplyMemTableOverlay visible plan mt merged =
    foldl (\<lambda>m (k, e). if \<not> plan_matches plan k \<or> \<not> visible e then m
        else if me_deleted e then omap_erase k m else omap_put k (me_lsn e) m) merged (mem_Snapshot mt)"

definition overlay_tables :: "(mem_entry \<Rightarrow> bool) \<Rightarrow> typed_plan \<Rightarrow> shard \<Rightarrow> entries \<Rightarrow> entries" where
  "overlay_tables visible plan s hits =
    ApplyMemTableOverlay visible plan (sh_mem s) (ApplyMemTableOverlay visible plan (sh_imm s)
      (ApplyMemTableOverlay visible plan (sh_flushing s) (omap_of hits)))"

definition OverlayMemTableHits :: "typed_plan \<Rightarrow> shard \<Rightarrow> entries \<Rightarrow> entries" where
  "OverlayMemTableHits plan s hits = (if MemTablesEmpty s then hits else overlay_tables (\<lambda>_. True) plan s hits)"

definition OverlayCommittedHits :: "typed_plan \<Rightarrow> shard \<Rightarrow> entries \<Rightarrow> entries" where
  "OverlayCommittedHits plan s hits =
    foldl (\<lambda>m (k, v, lsn). if plan_matches plan k then omap_put k lsn m else m) (omap_of hits) (sh_committed s)"

definition OverlaySnapshotMemTableHits :: "typed_plan \<Rightarrow> snapshot_context \<Rightarrow> shard \<Rightarrow> entries \<Rightarrow> entries" where
  "OverlaySnapshotMemTableHits plan ctx s hits = overlay_tables (\<lambda>e. MemEntryVisible e ctx) plan s hits"

definition EffectiveHitLsn :: "shard \<Rightarrow> bytes \<Rightarrow> u64 \<Rightarrow> snapshot_context \<Rightarrow> u64" where
  "EffectiveHitLsn s key hit_lsn ctx =
    (if cx_lsn ctx = 0 \<or> hit_lsn \<le> cx_lsn ctx then hit_lsn
     else (case sh_vcs s of None \<Rightarrow> 0 | Some v \<Rightarrow> vcs_Floor v key (cx_lsn ctx)))"

text \<open>
  \<open>ReadRecordsAtOffsets\<close> for one record; a record of the reclaimed generation or a deletion leaves the value
  empty. It reads the records in the order of their offsets, through a mapped window or a block of the file where
  it can; that changes neither the values nor whether the batch fails.
\<close>

definition batch_read :: "lzma_lib \<Rightarrow> datafile \<Rightarrow> u8 \<Rightarrow> nat \<Rightarrow> bytes res" where
  "batch_read lib df reclaim_gen offset =
    (case df_bytes df of
       None \<Rightarrow> Inl (Status_IoError ''datafile read open failed'')
     | Some fb \<Rightarrow>
        if length fb < offset + kHeaderSize then Inl (Status_IoError ''datafile batch record read failed'')
        else
         (let hdr = read_hdr (drop offset fb); kl = unat (dh_key_len hdr); vl = unat (dh_value_len hdr) in
          if \<not> hdr_crc_ok hdr then Inl (Status_CorruptPage ''datafile crc mismatch'')
          else if reclaim_gen \<noteq> 0xFF \<and> RecordGeneration hdr = reclaim_gen then Inr []
          else if length fb < offset + kHeaderSize + kl + vl then Inl (Status_IoError ''datafile batch payload read failed'')
          else if dh_deleted hdr \<noteq> 0 then Inr []
          else DecodeRecordValue lib hdr (take vl (drop (offset + kHeaderSize + kl) fb))))"

text \<open>The rows whose values come from the data file: the key, the offset and the LSN. If one record cannot be read, all are read one by one.\<close>

definition fill_rows :: "lzma_lib \<Rightarrow> shard \<Rightarrow> (bytes \<times> nat \<times> u64) list \<Rightarrow> bytes list" where
  "fill_rows lib s todo =
    (let rs = map (\<lambda>(k, offset, lsn). batch_read lib (sh_data s) (rm_reclaim (sh_gc s)) offset) todo in
     if list_all (\<lambda>r. \<not> isl r) rs then map projr rs
     else map (\<lambda>(k, offset, lsn). case ReadValueByLsn lib s lsn of Inr v \<Rightarrow> v | Inl _ \<Rightarrow> []) todo)"

definition disk_row :: "shard \<Rightarrow> snapshot_context \<Rightarrow> bytes \<times> u64 \<Rightarrow> (bytes \<times> nat \<times> u64) option" where
  "disk_row s ctx hit =
    (let lsn = EffectiveHitLsn s (fst hit) (snd hit) ctx in
     if lsn = 0 then None else map_option (\<lambda>offset. (fst hit, offset, lsn)) (idx_Lookup (df_index (sh_data s)) lsn))"

definition direct_disk_rows :: "lzma_lib \<Rightarrow> shard \<Rightarrow> snapshot_context \<Rightarrow> entries \<Rightarrow> (bytes \<times> bytes) list" where
  "direct_disk_rows lib s ctx hits =
    (let todo = List.map_filter (disk_row s ctx) hits in
     filter (\<lambda>(k, v). v \<noteq> []) (zip (map fst todo) (fill_rows lib s todo)))"

definition committed_row :: "lzma_lib \<Rightarrow> shard \<Rightarrow> snapshot_context \<Rightarrow> bytes \<times> u64 \<Rightarrow> (bytes \<times> bytes) option" where
  "committed_row lib s ctx hit =
    (let key = fst hit in
     case LookupMemTable (sh_mem s) (sh_imm s) (sh_flushing s) key of
       Some e \<Rightarrow> if me_deleted e \<or> \<not> MemEntryVisible e ctx then None else Some (key, me_value e)
     | None \<Rightarrow>
        (case map_of (sh_committed s) key of
           None \<Rightarrow> None
         | Some (v, lsn) \<Rightarrow>
            if 0 < cx_lsn ctx \<and> cx_lsn ctx < lsn then
             (let fl = (case sh_vcs s of None \<Rightarrow> 0 | Some vc \<Rightarrow> vcs_Floor vc key (cx_lsn ctx)) in
              if fl = 0 then None else map_option (Pair key) (value_of (ReadValueByLsn lib s fl)))
            else Some (key, v)))"

text \<open>The general case: each hit is read as a single key, or from the data file at the LSN of the hit.\<close>

fun mixed_rows :: "lzma_lib \<Rightarrow> shard \<Rightarrow> snapshot_context \<Rightarrow> bool \<Rightarrow> entries
    \<Rightarrow> ((bytes \<times> bytes) + (bytes \<times> nat \<times> u64)) list option" where
  "mixed_rows lib s ctx disk_values [] = Some []"
| "mixed_rows lib s ctx disk_values (hit # hits) =
    Option.bind (ResolveAtSnapshot lib s (fst hit) ctx) (\<lambda>rs.
      Option.bind (mixed_rows lib s ctx disk_values hits) (\<lambda>rest. Some
        (case rs of
           Inr v \<Rightarrow> Inl (fst hit, v) # rest
         | Inl _ \<Rightarrow> if \<not> disk_values then rest
             else (case disk_row s ctx hit of None \<Rightarrow> rest | Some row \<Rightarrow> Inr row # rest))))"

definition mixed_values :: "lzma_lib \<Rightarrow> shard \<Rightarrow> ((bytes \<times> bytes) + (bytes \<times> nat \<times> u64)) list \<Rightarrow> (bytes \<times> bytes) list" where
  "mixed_values lib s partial =
    (let todo = List.map_filter (\<lambda>r. case r of Inl _ \<Rightarrow> None | Inr row \<Rightarrow> Some row) partial;
         found = zip (map (\<lambda>(k, offset, lsn). (k, lsn)) todo) (fill_rows lib s todo) in
     filter (\<lambda>(k, v). v \<noteq> [])
       (map (\<lambda>r. case r of Inl row \<Rightarrow> row
          | Inr (k, offset, lsn) \<Rightarrow> (k, case map_of found (k, lsn) of Some v \<Rightarrow> v | None \<Rightarrow> [])) partial))"

definition ResolveScanValues :: "lzma_lib \<Rightarrow> shard \<Rightarrow> entries \<Rightarrow> snapshot_context \<Rightarrow> (bytes \<times> bytes) list option" where
  "ResolveScanValues lib s hits ctx =
    (let disk_values = (eo_lazy_committed_load (sh_opts s) \<or> bt_on_disk (sh_btree s)) in
     if disk_values \<and> MemTablesEmpty s \<and> sh_committed s = [] then Some (direct_disk_rows lib s ctx hits)
     else if \<not> disk_values \<and> sh_committed s \<noteq> [] then Some (List.map_filter (committed_row lib s ctx) hits)
     else map_option (mixed_values lib s) (mixed_rows lib s ctx disk_values hits))"

definition overlays_committed :: "shard \<Rightarrow> bool" where
  "overlays_committed s \<longleftrightarrow> sh_root_corrupt s \<or> sc_active_root (sb_critical (sh_sb s)) < word_of_nat kPageFileHeaderSize
     \<or> \<not> bt_on_disk (sh_btree s)"

definition scan_hits :: "lzma_lib \<Rightarrow> shard \<Rightarrow> typed_plan \<Rightarrow> u64 \<Rightarrow> entries \<Rightarrow> (bytes \<times> bytes) list option" where
  "scan_hits lib s plan snapshot_lsn hits =
    (let hits1 = OverlayMemTableHits plan s hits;
         hits2 = (if overlays_committed s then OverlayCommittedHits plan s hits1 else hits1) in
     ResolveScanValues lib s hits2 \<lparr>cx_lsn = snapshot_lsn, cx_txn_id = 0\<rparr>)"

definition shard_Scan :: "lzma_lib \<Rightarrow> shard \<Rightarrow> typed_plan \<Rightarrow> (shard \<times> (bytes \<times> bytes) list res) option" where
  "shard_Scan lib s plan =
    (let (s1, replay) = (if sh_pending s \<and> \<not> sh_wal_corrupt s \<and> sh_mode s \<noteq> KLazy then EnsureWalReplayed s else (s, Status_Ok)) in
     if \<not> status_ok replay then Some (s1, Inl replay)
     else
      (let snap = (if 0 < tp_snapshot_lsn plan then tp_snapshot_lsn plan else sh_stable s1); pst = Prepare plan s1 in
       if \<not> plan_code pst then Some (s1, Inl pst)
       else if CanScanCommittedDirect plan s1 then Some (s1, Inr (ScanCommittedDirect plan snap s1))
       else
        Option.bind (bt_Scan (pages_of lib s1) (sh_btree s1) plan) (\<lambda>st. case st of
          Inr hits \<Rightarrow> map_option (\<lambda>rows. (s1, Inr rows)) (scan_hits lib s1 plan snap hits)
        | Inl e \<Rightarrow>
            if st_code e \<noteq> KStaleSummary then Some (s1, Inl e)
            else
             (let s2 = fst (RepairSummary s1) in
              Option.bind (bt_Scan (pages_of lib s2) (sh_btree s2) plan) (\<lambda>st2. case st2 of
                Inr hits \<Rightarrow> map_option (\<lambda>rows. (s2, Inr rows)) (scan_hits lib s2 plan snap hits)
              | Inl e2 \<Rightarrow> if st_code e2 \<noteq> KStaleSummary then Some (s2, Inl e2)
                  else map_option (\<lambda>rows. (s2, Inr rows)) (scan_hits lib s2 plan snap []))))))"

definition BTreeScanWithHeal :: "lzma_lib \<Rightarrow> shard \<Rightarrow> typed_plan \<Rightarrow> (shard \<times> entries res) option" where
  "BTreeScanWithHeal lib s plan =
    Option.bind (bt_Scan (pages_of lib s) (sh_btree s) plan) (\<lambda>st. case st of
      Inr hits \<Rightarrow> Some (s, Inr hits)
    | Inl e \<Rightarrow>
        if st_code e \<noteq> KStaleSummary then Some (s, Inl e)
        else
         (let s1 = fst (RepairSummary s) in
          map_option (\<lambda>st2. (s1, case st2 of Inr hits \<Rightarrow> Inr hits
            | Inl e2 \<Rightarrow> if st_code e2 = KStaleSummary then Inr [] else Inl e2)) (bt_Scan (pages_of lib s1) (sh_btree s1) plan)))"

definition scan_at_snapshot_core :: "lzma_lib \<Rightarrow> shard \<Rightarrow> typed_plan \<Rightarrow> snapshot_context \<Rightarrow> (shard \<times> (bytes \<times> bytes) list res) option" where
  "scan_at_snapshot_core lib s plan ctx =
    (let pst = Prepare plan s in
     if \<not> plan_code pst then Some (s, Inl pst)
     else Option.bind (BTreeScanWithHeal lib s plan) (\<lambda>(s1, bs). case bs of
       Inl e \<Rightarrow> Some (s1, Inl e)
     | Inr hits \<Rightarrow> map_option (\<lambda>rows. (s1, Inr rows))
         (ResolveScanValues lib s1 (OverlaySnapshotMemTableHits plan ctx s1 (OverlayCommittedHits plan s1 hits)) ctx)))"

definition ScanAtSnapshot :: "lzma_lib \<Rightarrow> shard \<Rightarrow> typed_plan \<Rightarrow> snapshot_context \<Rightarrow> (shard \<times> (bytes \<times> bytes) list res) option" where
  "ScanAtSnapshot lib s plan ctx =
    (let snap_plan = plan\<lparr>tp_snapshot_lsn := cx_lsn ctx\<rparr> in
     if \<not> SnapshotReadNeedsUpgrade (cx_lsn ctx) s then scan_at_snapshot_core lib s snap_plan ctx
     else
      (let (s1, prep) = PrepareSnapshotReadLocked (cx_lsn ctx) s in
       if \<not> status_ok prep then Some (s1, Inl prep) else scan_at_snapshot_core lib s1 snap_plan ctx))"

end
