(* ===== verification/ShardRecovery.thy ===== *)
theory ShardRecovery
  imports ShardReads
begin

text \<open>
  Opening a shard and recovering it (\<open>LoadDatafileMmap\<close>, \<open>LoadDatafileOnRecover\<close>, \<open>RecoverFromSuperBlock\<close>,
  \<open>OpenInternal\<close> of \<^verbatim>\<open>cpp/src/engine/shard_engine.cc\<close>, the rule of \<^verbatim>\<open>sync/rules/recovery_rules.cc\<close>), and
  reads as of a time. The data file is loaded through mapped windows of 1 MiB; the builds for systems other
  than Windows have no mapping (\<^verbatim>\<open>mmap_window.cc\<close>), so \<open>mapping\<close> says which build it is.
\<close>

section \<open>The loader over mapped windows\<close>

definition kWindowSize :: nat where "kWindowSize = 1048576"

function mmap_loop :: "lzma_lib \<Rightarrow> u64 \<Rightarrow> nat \<Rightarrow> u8 \<Rightarrow> bytes \<Rightarrow> nat \<Rightarrow> committed_map \<Rightarrow> u64 \<Rightarrow> (committed_map \<times> u64) \<times> status" where
  "mmap_loop lib lsn_cap byte_cap reclaim fb offset out mx =
    (if length fb \<le> offset then ((out, mx), Status_Ok)
     else if 0 < byte_cap \<and> byte_cap \<le> offset then ((out, mx), Status_Ok)
     else
      (let (ps, ds) = ParseRecordsIncremental lib (take kWindowSize (drop offset fb)) offset lsn_cap byte_cap reclaim True mx (Some out);
           out1 = (case ps_out ps of Some m \<Rightarrow> m | None \<Rightarrow> []);
           step = (if ps_consumed ps = 0 then min kWindowSize (length fb - offset) else ps_consumed ps) in
       if \<not> status_ok ds then ((out1, ps_max ps), ds)
       else mmap_loop lib lsn_cap byte_cap reclaim fb (offset + step) out1 (ps_max ps)))"
  by pat_completeness auto
termination
  by (relation "measure (\<lambda>(_, _, _, _, fb, offset, _, _). length fb - offset)") (auto simp: kWindowSize_def)

declare mmap_loop.simps [simp del]

definition LoadDatafileMmap ::
  "lzma_lib \<Rightarrow> bool \<Rightarrow> datafile \<Rightarrow> u64 \<Rightarrow> nat \<Rightarrow> u8 \<Rightarrow> committed_map \<Rightarrow> u64 \<Rightarrow> (committed_map \<times> u64) \<times> status" where
  "LoadDatafileMmap lib mapping df lsn_cap byte_cap reclaim out mx =
    (let fb = df_content df in
     if fb = [] then (([], 0), Status_Ok)
     else if \<not> mapping then ((out, mx), Status_IoError ''mmap not supported on this platform'')
     else mmap_loop lib lsn_cap byte_cap reclaim fb 0 out mx)"

definition LoadDatafileOnRecover :: "lzma_lib \<Rightarrow> bool \<Rightarrow> shard \<Rightarrow> super_block \<Rightarrow> (committed_map \<times> u64) \<times> status" where
  "LoadDatafileOnRecover lib mapping s sb =
    (let reclaim = rm_reclaim (sh_gc s);
         ((out, mx), ds) = LoadDatafileMmap lib mapping (sh_data s) 0 0 reclaim [] 0;
         snap = fst (LatestSnapshot (sh_tlog s)) in
     if status_ok ds then ((out, mx), ds)
     else if 0 < ts_datafile_size snap
     then LoadDatafileMmap lib mapping (sh_data s) 0 (unat (ts_datafile_size snap)) reclaim out mx
     else if 0 < sc_data_lsn (sb_critical sb)
     then LoadDatafileMmap lib mapping (sh_data s) (sc_data_lsn (sb_critical sb)) 0 reclaim out mx
     else ((out, mx), ds))"

section \<open>Recovery\<close>

definition wal_probe :: "bytes \<Rightarrow> bool" where
  "wal_probe fb \<longleftrightarrow> take 6 fb = [66, 65, 68, 87, 65, 76]"

text \<open>The load for a log that is marked corrupt: up to the newest snapshot of the time log, or the checkpoint.\<close>

definition load_without_wal :: "lzma_lib \<Rightarrow> bool \<Rightarrow> shard \<Rightarrow> super_block \<Rightarrow> (committed_map \<times> u64) \<times> status" where
  "load_without_wal lib mapping s sb =
    (let reclaim = rm_reclaim (sh_gc s); snap = fst (LatestSnapshot (sh_tlog s)) in
     if 0 < ts_datafile_size snap then LoadDatafileMmap lib mapping (sh_data s) 0 (unat (ts_datafile_size snap)) reclaim [] 0
     else if 0 < sc_data_lsn (sb_critical sb)
     then LoadDatafileMmap lib mapping (sh_data s) (sc_data_lsn (sb_critical sb)) 0 reclaim [] 0
     else LoadDatafileMmap lib mapping (sh_data s) 0 0 reclaim [] 0)"

text \<open>The index after the committed map is loaded: the persisted one where it can be read, or the map itself.\<close>

definition attach_index :: "lzma_lib \<Rightarrow> super_block \<Rightarrow> committed_map \<Rightarrow> shard \<Rightarrow> shard" where
  "attach_index lib sb data s =
    (let btree_map = committed_lsns data; root = unat (sc_active_root (sb_critical sb));
         s1 = s\<lparr>sh_committed := data, sh_stable := max (sh_stable s) (sc_data_lsn (sb_critical sb))\<rparr> in
     if kPageFileHeaderSize \<le> root then
      (let (bt, lr) = LoadRoot (pages_of lib s1) (sh_btree s1) root in
       s1\<lparr>sh_btree := (if status_ok lr then EnsureSummaryLsnAtLeast (sh_stable s1) bt else LoadFromMap btree_map bt)\<rparr>)
     else s1\<lparr>sh_btree := LoadFromMap btree_map (sh_btree s1)\<rparr>)"

definition root_missing :: "super_block \<Rightarrow> bool" where
  "root_missing sb \<longleftrightarrow> 0 < sc_epoch (sb_critical sb) \<and> sc_active_root (sb_critical sb) = 0"

definition set_mode :: "bool \<Rightarrow> shard \<Rightarrow> shard" where
  "set_mode corrupt s = s\<lparr>sh_root_corrupt := corrupt, sh_mode := (if corrupt then KLazy else KHot)\<rparr>"

text \<open>The end of a recovery whose log is usable: replay it at once, or note that it has to be replayed.\<close>

definition finish_recovery :: "super_block \<Rightarrow> shard \<Rightarrow> shard" where
  "finish_recovery sb s =
    (let after = sc_wal_lsn (sb_critical sb) in
     RefreshRecoveryState
      (if eo_recovery_strategy (sh_opts s) = KFullReplay
       then s\<lparr>sh_pending := False, sh_mem := ReplayPending (wal_disk s) (sh_mem s) after\<rparr>
       else s\<lparr>sh_pending := HasPending (sh_wal s) (wal_disk s) after\<rparr>))"

definition heal_btree :: "lzma_lib \<Rightarrow> bool \<Rightarrow> super_block \<Rightarrow> shard \<Rightarrow> shard \<times> status" where
  "heal_btree lib mapping sb s =
    (let ((data, _), ds) = LoadDatafileOnRecover lib mapping s sb in
     if \<not> status_ok ds then (s, ds)
     else (s\<lparr>sh_btree := LoadFromMap (committed_lsns data) (sh_btree s)\<rparr>, Status_Ok))"

text \<open>With \<open>lazy_committed_load\<close> the values stay in the data file: only its LSN index and the root are loaded.\<close>

definition recover_lazy :: "lzma_lib \<Rightarrow> bool \<Rightarrow> super_block \<Rightarrow> shard \<Rightarrow> shard \<times> status" where
  "recover_lazy lib mapping sb s =
    (let s1 = s\<lparr>sh_committed := [], sh_data := BuildLsnIndex (sh_data s) (sh_didx s)\<rparr>;
         root = unat (sc_active_root (sb_critical sb));
         (s2, corrupt, st) =
          (if kPageFileHeaderSize \<le> root then
            (let (bt, lr) = LoadRoot (pages_of lib s1) (sh_btree s1) root in
             if status_ok lr then (s1\<lparr>sh_btree := EnsureSummaryLsnAtLeast (sh_stable s1) bt\<rparr>, False, Status_Ok)
             else (let (s3, heal) = heal_btree lib mapping sb (s1\<lparr>sh_btree := bt\<rparr>) in (s3, True, heal)))
           else if root_missing sb then (let (s3, heal) = heal_btree lib mapping sb s1 in (s3, True, heal))
           else (s1, False, Status_Ok)) in
     if \<not> status_ok st then (s2, st) else (finish_recovery sb (set_mode corrupt s2), Status_Ok))"

definition RecoverFromSuperBlock :: "lzma_lib \<Rightarrow> bool \<Rightarrow> super_block \<Rightarrow> shard \<Rightarrow> shard \<times> status" where
  "RecoverFromSuperBlock lib mapping sb s =
    (let s1 = s\<lparr>sh_sb := sb, sh_stable := sc_data_lsn (sb_critical sb), sh_wal_corrupt := wal_probe (ww_file (sh_wal s))\<rparr> in
     if sh_wal_corrupt s1 then
      (let ((data, _), ds) = load_without_wal lib mapping s1 sb in
       if \<not> status_ok ds then (s1, ds)
       else (RefreshRecoveryState ((set_mode (root_missing sb) (attach_index lib sb data s1))\<lparr>sh_pending := False\<rparr>), Status_Ok))
     else if eo_lazy_committed_load (sh_opts s1) then recover_lazy lib mapping sb s1
     else
      (let ((data, _), ds) = LoadDatafileOnRecover lib mapping s1 sb in
       if \<not> status_ok ds then (s1, ds)
       else (finish_recovery sb (set_mode (root_missing sb) (attach_index lib sb data s1)), Status_Ok)))"

definition Recover :: "lzma_lib \<Rightarrow> bool \<Rightarrow> shard \<Rightarrow> shard \<times> status" where
  "Recover lib mapping s =
    (case Load (sh_super s) of
       Inl e \<Rightarrow> (s, if st_code e = KCorrupt then Status_Corrupt ''CorruptSuperBlock'' else e)
     | Inr sb \<Rightarrow> RecoverFromSuperBlock lib mapping sb s)"

section \<open>Opening a shard\<close>

record shard_files =
  fl_wal :: "bytes option"
  fl_data :: "bytes option"
  fl_didx :: "bytes option"
  fl_super :: "bytes option"
  fl_tlog :: tlog_files
  fl_gc :: "bytes option"
  fl_pages :: "bytes option"
  fl_txidx :: "bytes option"

definition effective_policy :: "EngineOptions \<Rightarrow> compress_policy" where
  "effective_policy opts =
    (if eo_compress_values opts \<and> eo_compress_policy opts = KOff then KBalanced else eo_compress_policy opts)"

text \<open>\<open>OpenInternal\<close> before recovery. The files of the version chains are not modelled; the chains come as an argument.\<close>

definition new_shard :: "EngineOptions \<Rightarrow> shard_files \<Rightarrow> shard" where
  "new_shard opts fl =
    \<lparr>sh_opts = opts, sh_mem = [], sh_imm = [], sh_flushing = [], sh_wal = WalWriter_open (fl_wal fl),
     sh_data = DataFile_init\<lparr>df_bytes := fl_data fl, df_compress := eo_compress_values opts, df_policy := effective_policy opts\<rparr>,
     sh_super = fl_super fl, sh_tlog = fl_tlog fl, sh_gc = fst (gc_Load (RegionManager_init (fl_gc fl))),
     sh_pages = SetCompressPages (eo_compress_pages opts) (SetCacheCapacity (eo_page_cache_capacity opts) (PageFile_open (fl_pages fl))),
     sh_btree = PagedBTree_init\<lparr>bt_histogram := eo_prefer_histogram_summary opts\<rparr>, sh_committed = [],
     sh_sb = SuperBlock_init, sh_group = group_init, sh_co = coordinator_init, sh_mode = KHot, sh_state = KCommittedHot,
     sh_pending = False, sh_root_corrupt = False, sh_wal_corrupt = False, sh_pins = 0, sh_pinned_lsn = 0,
     sh_pinned_epoch = 0, sh_sfs = SfsReadCache_init, sh_sidecar = \<lparr>sc_entries = [], sc_last_commit_lsn = 0\<rparr>,
     sh_vcs = None, sh_didx = fl_didx fl, sh_txidx = fl_txidx fl, sh_page_faults = 0, sh_stable = 0, sh_flush_total = 0,
     sh_opened = False\<rparr>"

definition shard_Open :: "lzma_lib \<Rightarrow> bool \<Rightarrow> EngineOptions \<Rightarrow> shard_files \<Rightarrow> vcs \<Rightarrow> shard res" where
  "shard_Open lib mapping opts fl v =
    (let (s, rec) = Recover lib mapping (new_shard opts fl) in
     if \<not> status_ok rec then Inl rec
     else Inr (s\<lparr>sh_wal := EnsureMinLsn (sh_wal s) (checkpoint_lsn s), sh_vcs := Some v,
                 sh_sidecar := fst (sc_LoadFromFile (sh_txidx s) (sh_sidecar s)), sh_opened := True\<rparr>))"

section \<open>Reads as of a time\<close>

definition LoadAsOfCommitted :: "lzma_lib \<Rightarrow> bool \<Rightarrow> shard \<Rightarrow> u32 \<Rightarrow> committed_map res" where
  "LoadAsOfCommitted lib mapping s timestamp_sec =
    (case FindSnapshotAt (sh_tlog s) timestamp_sec of
       Inl e \<Rightarrow> Inl e
     | Inr snap \<Rightarrow>
        (let ((out, _), st) = LoadDatafileMmap lib mapping (sh_data s) 0 (unat (ts_datafile_size snap)) 0xFF [] 0 in
         if status_ok st then Inr out else Inl st))"

definition GetAsOf :: "lzma_lib \<Rightarrow> bool \<Rightarrow> shard \<Rightarrow> bytes \<Rightarrow> u32 \<Rightarrow> bytes res" where
  "GetAsOf lib mapping s key timestamp_sec =
    (if key = [] then Inl (Status_InvalidArgument ''InvalidPlan: empty key'')
     else case LoadAsOfCommitted lib mapping s timestamp_sec of
       Inl e \<Rightarrow> Inl e
     | Inr asof \<Rightarrow> (case map_of asof key of
           None \<Rightarrow> Inl (Status_NotFound ''key not found at timestamp'') | Some (v, lsn) \<Rightarrow> Inr v))"

definition ScanAsOf :: "lzma_lib \<Rightarrow> bool \<Rightarrow> shard \<Rightarrow> typed_plan \<Rightarrow> u32 \<Rightarrow> (bytes \<times> bytes) list res" where
  "ScanAsOf lib mapping s plan timestamp_sec =
    (case LoadAsOfCommitted lib mapping s timestamp_sec of
       Inl e \<Rightarrow> Inl e
     | Inr asof \<Rightarrow> Inr (sort_rows (map (\<lambda>(k, v, lsn). (k, v)) (filter (\<lambda>(k, _). plan_matches plan k) asof))))"

section \<open>The windows make no difference\<close>

text \<open>Where a window of the file ends, the scan stops before the first record that is cut off and resumes at it.\<close>

lemma scan_None: "dec_rec bs = None \<Longrightarrow> scan_all dec_rec bs = []"
  by (subst scan_records) simp

lemma read_hdr_take: "kHeaderSize \<le> n \<Longrightarrow> read_hdr (take n bs) = read_hdr bs"
  by (simp add: read_hdr_def kHeaderSize_def get_u64_def get_u32_def get_u16_def drop_take min_def)

lemma dec_rec_take:
  assumes "rec_size r \<le> n"
  shows "dec_rec (take n bs) = Some (r, take (n - rec_size r) (drop (rec_size r) bs)) \<longleftrightarrow> dec_rec bs = Some (r, drop (rec_size r) bs)"
proof -
  have "kHeaderSize \<le> n" using assms by (simp add: rec_size_def)
  then show ?thesis using assms
    by (auto simp: dec_rec_iff read_hdr_take drop_take min_def rec_size_def split: if_splits)
qed

lemma dec_rec_None_take:
  assumes "dec_rec bs = None \<or> (\<exists>r rest. dec_rec bs = Some (r, rest) \<and> n < rec_size r)"
  shows "dec_rec (take n bs) = None"
proof (rule ccontr)
  assume "\<not> ?thesis"
  then obtain r rest where d: "dec_rec (take n bs) = Some (r, rest)" by auto
  then have "rec_size r \<le> n" "rest = take (n - rec_size r) (drop (rec_size r) bs)"
    by (auto simp: dec_rec_iff drop_take)
  with d dec_rec_take [of r n bs] assms show False by auto
qed

lemma scan_window:
  "scan_all dec_rec bs = scan_all dec_rec (take n bs)
    @ scan_all dec_rec (drop (sum_list (map rec_size (scan_all dec_rec (take n bs)))) bs)"
proof (induction "length bs" arbitrary: bs n rule: less_induct)
  case less
  show ?case
  proof (cases "dec_rec bs")
    case None
    then show ?thesis by (simp add: scan_None dec_rec_None_take)
  next
    case (Some p)
    then obtain r rest where dec: "dec_rec bs = Some (r, rest)" by (cases p) auto
    then have rest: "rest = drop (rec_size r) bs" by (simp add: dec_rec_iff)
    show ?thesis
    proof (cases "rec_size r \<le> n")
      case True
      have "scan_all dec_rec bs = r # scan_all dec_rec rest"
        "scan_all dec_rec (take n bs) = r # scan_all dec_rec (take (n - rec_size r) rest)"
        by (subst scan_records, simp add: dec dec_rec_take [THEN iffD2, OF True] rest [symmetric])+
      with less.hyps [OF dec_rec_shrinks [OF dec], of "n - rec_size r"] show ?thesis
        by (simp add: rest add.commute)
    qed (simp add: scan_None dec_rec_None_take dec)
  qed
qed

lemma replay_append:
  "replay lib lsn_cap rg validate (xs @ ys) m mx =
    (case replay lib lsn_cap rg validate xs m mx of ((m', mx'), st) \<Rightarrow>
       if status_ok st then replay lib lsn_cap rg validate ys m' mx' else ((m', mx'), st))"
proof (induction xs arbitrary: m mx)
  case Nil
  then show ?case by (simp add: status_defs)
next
  case (Cons r xs)
  then show ?case
    by (auto simp: replay_Cons dest: decode_error simp del: replay.simps(2) split: sum.splits)
qed

lemma replay_end: "replay lib lsn_cap rg validate rs m mx = ((m', mx'), st) \<Longrightarrow> status_ok st \<Longrightarrow> st = Status_Ok"
  by (induction rs arbitrary: m mx)
    (auto simp: replay_Cons dest: decode_error simp del: replay.simps(2) split: sum.splits if_splits)

lemma window_parse:
  assumes "replay lib lsn_cap rg True (scan_all dec_rec bs) m mx = ((m', mx'), st)"
  obtains c where "ParseRecordsIncremental lib bs base lsn_cap 0 rg True mx (Some m) =
      (\<lparr>ps_consumed = c, ps_max = (if status_ok st then mx' else mx), ps_out = Some m'\<rparr>, st)"
    "status_ok st \<longrightarrow> c = sum_list (map rec_size (scan_all dec_rec bs))"
proof -
  let ?ps = "\<lparr>ps_consumed = 0, ps_max = mx, ps_out = Some m\<rparr>"
  obtain ps' st' where pl: "parse_loop lib base lsn_cap 0 rg True bs 0 ?ps = (ps', st')" by fastforce
  with parse_loop_records [where ps = ?ps and m = m and lib = lib and base = base and lsn_cap = lsn_cap and rg = rg and validate = True and bs = bs and pos = 0] assms
  have "ps_out ps' = Some m'" "ps_max ps' = mx'" "st' = st"
    "status_ok st \<longrightarrow> ps_consumed ps' = sum_list (map rec_size (scan_all dec_rec bs))"
    by auto
  with pl that [of "ps_consumed ps'"] show thesis
    by (auto simp: ParseRecordsIncremental_def)
qed

lemma scan_empty_short:
  assumes "scan_all dec_rec (take kWindowSize bs) = []"
  shows "length bs \<le> kWindowSize"
proof (rule ccontr)
  assume "\<not> ?thesis"
  moreover have "131090 \<le> kWindowSize" by (simp add: kWindowSize_def)
  ultimately have l: "131090 \<le> length (take kWindowSize bs)" by simp
  let ?h = "read_hdr (take kWindowSize bs)"
  have "\<exists>r rest. dec_rec (take kWindowSize bs) = Some (r, rest)"
    using l unat_bound [of "dh_key_len ?h"] unat_bound [of "dh_value_len ?h"]
    by (auto simp: dec_rec_iff rec_size_def kHeaderSize_def)
  with assms show False by (subst (asm) scan_records) auto
qed

lemma mmap_loop_replay:
  assumes "replay lib lsn_cap rg True (scan_all dec_rec (drop offset fb)) m mx = ((m', mx'), st)"
  shows "\<exists>mx''. mmap_loop lib lsn_cap 0 rg fb offset m mx = ((m', mx''), st) \<and> (status_ok st \<longrightarrow> mx'' = mx')"
  using assms
proof (induction "length fb - offset" arbitrary: offset m mx rule: less_induct)
  case less
  let ?rest = "drop offset fb" and ?win = "take kWindowSize (drop offset fb)"
  let ?size = "sum_list (map rec_size (scan_all dec_rec ?win))"
  show ?case
  proof (cases "length fb \<le> offset")
    case True
    with less.prems show ?thesis by (simp add: mmap_loop.simps scan_all_def)
  next
    case False
    obtain w wx wst where w: "replay lib lsn_cap rg True (scan_all dec_rec ?win) m mx = ((w, wx), wst)"
      by (metis surj_pair)
    then obtain c where c: "ParseRecordsIncremental lib ?win offset lsn_cap 0 rg True mx (Some m) =
        (\<lparr>ps_consumed = c, ps_max = (if status_ok wst then wx else mx), ps_out = Some w\<rparr>, wst)"
      "status_ok wst \<longrightarrow> c = ?size" by (rule window_parse)
    have all: "replay lib lsn_cap rg True (scan_all dec_rec ?rest) m mx =
      (if status_ok wst then replay lib lsn_cap rg True (scan_all dec_rec (drop (offset + ?size) fb)) w wx else ((w, wx), wst))"
      by (subst scan_window [of _ kWindowSize]) (simp add: replay_append w add.commute)
    show ?thesis
    proof (cases "status_ok wst")
      case False
      with less.prems all c \<open>\<not> length fb \<le> offset\<close> show ?thesis by (simp add: mmap_loop.simps [of _ _ _ _ _ offset])
    next
      case ok: True
      let ?step = "if c = 0 then min kWindowSize (length fb - offset) else c"
      have step: "mmap_loop lib lsn_cap 0 rg fb offset m mx = mmap_loop lib lsn_cap 0 rg fb (offset + ?step) w wx"
        using ok c False by (simp add: mmap_loop.simps [of _ _ _ _ _ offset])
      have pos: "0 < ?step" using False by (simp add: kWindowSize_def)
      have next_scan: "scan_all dec_rec (drop (offset + ?step) fb) = scan_all dec_rec (drop (offset + ?size) fb)"
      proof (cases "c = 0")
        case True
        with ok c have "?size = 0" by simp
        then have none: "scan_all dec_rec ?win = []"
          using rec_size_bounds(1) by (cases "scan_all dec_rec ?win") (auto simp: less_not_refl2)
        then have "length ?rest \<le> kWindowSize" by (rule scan_empty_short)
        with none True show ?thesis by (simp add: scan_all_def)
      next
        case c0: False
        have "?step = ?size" using c0 ok c(2) by (simp only: if_False)
        then show ?thesis by (simp only:)
      qed
      from less.hyps [of "offset + ?step" w wx] step pos False ok less.prems all next_scan
      show ?thesis by simp
    qed
  qed
qed

lemma LoadDatafileMmap_replay:
  assumes "replay lib lsn_cap rg True (scan_all dec_rec (df_content df)) [] 0 = ((m', mx'), st)"
  shows "\<exists>mx''. LoadDatafileMmap lib True df lsn_cap 0 rg [] 0 = ((m', mx''), st) \<and> (status_ok st \<longrightarrow> mx'' = mx')"
  using assms mmap_loop_replay [where offset = 0]
  by (cases "df_content df") (auto simp: LoadDatafileMmap_def scan_all_def)

text \<open>
  C4. Loading the data file window by window is loading it whole: whatever the file holds, the loader over
  mapped windows of 1 MiB, which resumes each window at the first record the last one cut off, gives the map,
  the status and (on success) the largest LSN of the single pass over all its bytes.
\<close>

theorem mapped_load_eq_load:
  "(let ((m, mx), st) = LoadDatafileMmap lib True df lsn_cap 0 rg [] 0 in ((m, if status_ok st then mx else 0), st))
    = LoadRecords lib (Some (df_content df)) lsn_cap 0 rg True 0 []"
proof -
  obtain m' mx' st where r: "replay lib lsn_cap rg True (scan_all dec_rec (df_content df)) [] 0 = ((m', mx'), st)"
    by (metis surj_pair)
  with LoadDatafileMmap_replay [OF r] show ?thesis by (auto simp: load_lemma)
qed

end
