(* ===== verification/ShardFacts.thy ===== *)
theory ShardFacts
  imports ShardRecovery
begin

text \<open>
  What a client of one shard may rely on, and where it may not: a write that was acknowledged is read back, is in
  the log with the next LSN and survives a crash; the exceptions are theorems of their own.
\<close>

section \<open>The paths of a write\<close>

text \<open>Puts and deletes take the same three paths; \<open>shard_write\<close> is both.\<close>

definition write_job :: "u8 \<Rightarrow> bytes \<Rightarrow> bytes \<Rightarrow> u32 \<Rightarrow> u64 \<Rightarrow> job" where
  "write_job op key val t lsn = (new_job op key val t)\<lparr>jb_lsn := lsn\<rparr>"

definition fast_append :: "fault \<Rightarrow> u8 \<Rightarrow> bytes \<Rightarrow> bytes \<Rightarrow> u32 \<Rightarrow> shard \<Rightarrow> shard \<times> u64 res" where
  "fast_append ft op key val t s =
    (case wal_Append ft (sh_wal s) op key val t of
       (w, Inl e) \<Rightarrow> (s\<lparr>sh_wal := w\<rparr>, Inl e)
     | (w, Inr lsn) \<Rightarrow> (s\<lparr>sh_wal := w, sh_mem := apply_job (sh_mem s) (write_job op key val t lsn)\<rparr>, Inr lsn))"

definition shard_write :: "bool \<Rightarrow> fault \<Rightarrow> u8 \<Rightarrow> bytes \<Rightarrow> bytes \<Rightarrow> u32 \<Rightarrow> shard \<Rightarrow> (shard \<times> status) option" where
  "shard_write sync ft op key val t s =
    (if \<not> sh_opened s then Some (s, Status_Internal ''engine not open'')
     else if key = [] then Some (s, Status_InvalidArgument ''InvalidPlan: empty key'')
     else
      (let s1 = fst (EnsureWalReplayed s) in
       if eo_durability (sh_opts s) = KBalancedClass then Some (pipeline_write sync ft (new_job op key val t) s1)
       else if sync_path s1 then await_write sync (fast_append ft op key val t s1)
       else Some (WriteRule sync ft \<lparr>wq_key = key, wq_value = val, wq_delete = (op = kDelete), wq_txn_id = t\<rparr> s1)))"

lemma EnsureWalReplayed_simps [simp]:
  "snd (EnsureWalReplayed s) = Status_Ok" "sh_wal (fst (EnsureWalReplayed s)) = sh_wal s"
  "sh_opts (fst (EnsureWalReplayed s)) = sh_opts s" "sh_co (fst (EnsureWalReplayed s)) = sh_co s"
  "\<not> sh_pending (fst (EnsureWalReplayed s)) \<or> sh_wal_corrupt (fst (EnsureWalReplayed s))"
  "sync_path (fst (EnsureWalReplayed s)) = sync_path s"
  by (auto simp: EnsureWalReplayed_def RefreshRecoveryState_def sync_path_def)

lemma apply_write:
  "apply_job m (write_job op key val t lsn) = (if op = kDelete then mem_DeleteKey key lsn t (t = 0) m
    else mem_Put key val lsn t (t = 0) m)"
  by (simp add: apply_job_def write_job_def new_job_def)

lemma kPut_kDelete [simp]: "kPut \<noteq> kDelete" by (simp add: kPut_def kDelete_def)

lemma shard_write_ops:
  "shard_Put sync ft key val t s = shard_write sync ft kPut key val t s"
  "shard_Delete sync ft key t s = shard_write sync ft kDelete key [] t s"
  by (simp_all add: shard_Put_def shard_Delete_def shard_write_def PutSyncFastAppend_def DeleteSyncFastAppend_def
      fast_append_def apply_write status_defs split_beta Let_def)

lemma append_one_error: "append_one ft w op key val t = (w1, Inl e) \<Longrightarrow> \<not> status_ok e"
  by (auto simp: append_one_def Let_def status_defs split: if_splits prod.splits)

lemma wal_Append_error: "wal_Append ft w op key val t = (w1, Inl e) \<Longrightarrow> \<not> status_ok e"
  unfolding wal_Append_def by (rule append_one_error)

lemma take_one: "0 < n \<Longrightarrow> take_jobs n full 0 [j] = ([j], [])"
  by (simp add: kMinThroughputQueue_def)

lemma pipeline_batch_pos: "0 < unat (wc_max_batch (pipeline_config c))"
  by (simp add: pipeline_config_def Let_def unat_gt_0)

text \<open>A lone write is a batch of one.\<close>

lemma pipeline_write_eq:
  "pipeline_write sync ft (new_job op key val t) s = (case wal_Append ft (sh_wal s) op key val t of
     (w, Inl e) \<Rightarrow> (s\<lparr>sh_wal := w\<rparr>, e)
   | (w, Inr lsn) \<Rightarrow> if sync then (s\<lparr>sh_wal := wal_Fsync w, sh_mem := apply_job (sh_mem s) (write_job op key val t lsn),
         sh_stable := max (sh_stable s) lsn\<rparr>, Status_Ok)
       else (s\<lparr>sh_wal := wal_Fsync w\<rparr>, Status_IoError ''fdatasync failed''))"
proof -
  obtain w r where a: "wal_Append ft (sh_wal s) op key val t = (w, r)" by fastforce
  have i: "append_item ft (SyncExternalTailLocked (EnsureWalMagicLocked (sh_wal s))) (job_item (new_job op key val t)) = (w, r)"
    using a by (simp add: append_item_def job_item_def new_job_def wal_Append_def)
  note [simp] = take_one pipeline_batch_pos AppendMany_def appended_job_def pipeline_result_def CompleteJobs_def
    ApplyWalBatchUnlocked_def shard_pipeline_def pipeline_submit_def
  show ?thesis
  proof (cases r)
    case (Inl e)
    with wal_Append_error a have "\<not> status_ok e" by blast
    with a i Inl show ?thesis
      by (simp add: pipeline_write_def DrainAndFlush_def after_pipeline_def new_job_def Let_def del: take_jobs.simps)
  next
    case (Inr lsn)
    with a i show ?thesis
      by (simp add: pipeline_write_def DrainAndFlush_def after_pipeline_def new_job_def write_job_def wal_Fsync_at_def
           apply_job_def Let_def status_defs max_def not_le del: take_jobs.simps)
  qed
qed

lemma await_write_ok:
  assumes "await_write sync r = Some (s1, st)" "status_ok st" "\<And>e. snd r = Inl e \<Longrightarrow> \<not> status_ok e"
  obtains lsn where "snd r = Inr lsn" "sh_mem s1 = sh_mem (fst r)" "sh_pending s1 = sh_pending (fst r)"
    "sh_wal_corrupt s1 = sh_wal_corrupt (fst r)" "sh_wal s1 \<in> {sh_wal (fst r), wal_Fsync (sh_wal (fst r))}"
    "co_flushed (sh_co (fst r)) < lsn \<longrightarrow> sync" "sh_stable s1 = lsn"
  using assms
  by (auto simp: await_write_def Await_def RunFsync_def wal_Fsync_at_def Let_def status_defs dest: leD
      split: sum.splits if_splits prod.splits bind_splits)

text \<open>The transaction the log record names: none on the path of the write rule.\<close>

definition logged_txn :: "shard \<Rightarrow> u32 \<Rightarrow> u32" where
  "logged_txn s t = (if eo_durability (sh_opts s) = KBalancedClass \<or> sync_path s then t else 0)"

definition synced_class :: "shard \<Rightarrow> bool" where
  "synced_class s \<longleftrightarrow> eo_durability (sh_opts s) = KBalancedClass \<or> sync_path s"

lemma WriteRule_ok:
  assumes "WriteRule sync ft req s = (s1, st)" "status_ok st"
  obtains w lsn where
    "wal_Append ft (sh_wal s) (if wq_delete req then kDelete else kPut) (wq_key req) (wq_value req) 0 = (w, Inr lsn)"
    "sh_mem s1 = apply_job (sh_mem s) (write_job (if wq_delete req then kDelete else kPut) (wq_key req) (wq_value req) (wq_txn_id req) lsn)"
    "sh_pending s1 = sh_pending s" "sh_wal_corrupt s1 = sh_wal_corrupt s" "sh_wal s1 \<in> {w, wal_Fsync w}"
proof -
  obtain w r where a: "wal_Append ft (sh_wal s) (if wq_delete req then kDelete else kPut) (wq_key req) (wq_value req) 0 = (w, r)"
    by fastforce
  have k: "wq_key req \<noteq> []" using assms by (auto simp: WriteRule_def status_defs)
  obtain lsn where r: "r = Inr lsn" using a assms wal_Append_error k by (cases r) (auto simp: WriteRule_def)
  have "sh_mem s1 = apply_job (sh_mem s) (write_job (if wq_delete req then kDelete else kPut) (wq_key req) (wq_value req) (wq_txn_id req) lsn)
    \<and> sh_pending s1 = sh_pending s \<and> sh_wal_corrupt s1 = sh_wal_corrupt s \<and> sh_wal s1 \<in> {w, wal_Fsync w}"
    using assms(1) k a r
    by (auto simp: WriteRule_def Let_def wal_Fsync_at_def GroupCommitRule_def group_Commit_def apply_write split: if_splits prod.splits)
  with a r that show thesis by blast
qed

text \<open>What a write that succeeded left behind, whatever path it took.\<close>

lemma shard_write_ok:
  assumes "shard_write sync ft op key val t s = Some (s1, st)" "status_ok st" "op = kPut \<or> op = kDelete"
  obtains w lsn m where "key \<noteq> []" "wal_Append ft (sh_wal s) op key val (logged_txn s t) = (w, Inr lsn)"
    "sh_mem s1 = apply_job m (write_job op key val t lsn)" "\<not> sh_pending s1 \<or> sh_wal_corrupt s1"
    "sh_wal s1 \<in> {w, wal_Fsync w}" "synced_class s \<and> co_flushed (sh_co s) < lsn \<longrightarrow> sync"
proof -
  let ?s = "fst (EnsureWalReplayed s)"
  have k: "sh_opened s" "key \<noteq> []" using assms by (auto simp: shard_write_def status_defs split: if_splits)
  note p = EnsureWalReplayed_simps(5) [of s]
  consider (pipeline) "eo_durability (sh_opts s) = KBalancedClass" "pipeline_write sync ft (new_job op key val t) ?s = (s1, st)"
    | (await) "eo_durability (sh_opts s) \<noteq> KBalancedClass" "sync_path s" "await_write sync (fast_append ft op key val t ?s) = Some (s1, st)"
    | (rule) "eo_durability (sh_opts s) \<noteq> KBalancedClass" "\<not> sync_path s"
       "WriteRule sync ft \<lparr>wq_key = key, wq_value = val, wq_delete = (op = kDelete), wq_txn_id = t\<rparr> ?s = (s1, st)"
    using assms(1) k by (auto simp: shard_write_def Let_def split: if_splits)
  then show thesis
  proof cases
    case pipeline
    then show thesis
      using assms(2) p k that wal_Append_error [of ft "sh_wal s" op key val t]
      by (auto simp: pipeline_write_eq logged_txn_def status_defs split: prod.splits sum.splits if_splits)
  next
    case await
    obtain w r where a: "wal_Append ft (sh_wal s) op key val t = (w, r)" by fastforce
    then have "\<not> status_ok e" if "snd (fast_append ft op key val t ?s) = Inl e" for e
      using that wal_Append_error by (auto simp: fast_append_def split: sum.splits)
    from await_write_ok [OF await(3) assms(2) this] obtain lsn where
      o: "snd (fast_append ft op key val t ?s) = Inr lsn" "sh_mem s1 = sh_mem (fst (fast_append ft op key val t ?s))"
      "sh_pending s1 = sh_pending (fst (fast_append ft op key val t ?s))"
      "sh_wal_corrupt s1 = sh_wal_corrupt (fst (fast_append ft op key val t ?s))"
      "sh_wal s1 \<in> {sh_wal (fst (fast_append ft op key val t ?s)), wal_Fsync (sh_wal (fst (fast_append ft op key val t ?s)))}"
      "co_flushed (sh_co (fst (fast_append ft op key val t ?s))) < lsn \<longrightarrow> sync" by metis
    have f: "fast_append ft op key val t ?s = (?s\<lparr>sh_wal := w, sh_mem := apply_job (sh_mem ?s) (write_job op key val t lsn)\<rparr>, Inr lsn)"
      "r = Inr lsn" using o(1) a by (auto simp: fast_append_def split: sum.splits)
    from that [of w lsn "sh_mem ?s"] k(2) a f p o await(1,2) show thesis by (simp add: logged_txn_def)
  next
    case rule
    have op: "(if op = kDelete then kDelete else kPut) = op" using assms(3) by auto
    from WriteRule_ok [OF rule(3) assms(2)] op obtain w lsn where
      "wal_Append ft (sh_wal s) op key val 0 = (w, Inr lsn)"
      "sh_mem s1 = apply_job (sh_mem ?s) (write_job op key val t lsn)"
      "sh_pending s1 = sh_pending ?s" "sh_wal_corrupt s1 = sh_wal_corrupt ?s" "sh_wal s1 \<in> {w, wal_Fsync w}" by auto
    with that [of w lsn "sh_mem ?s"] k(2) p rule(1,2) show thesis by (simp add: logged_txn_def synced_class_def)
  qed
qed

section \<open>A write is read back\<close>

text \<open>The entry an acknowledged write has in the active table.\<close>

definition entry_for :: "u8 \<Rightarrow> bytes \<Rightarrow> u32 \<Rightarrow> u64 \<Rightarrow> mem_entry" where
  "entry_for op val t lsn = \<lparr>me_value = (if op = kDelete then [] else val), me_lsn = lsn, me_deleted = (op = kDelete),
     me_txn_id = t, me_durable = (t = 0)\<rparr>"

lemma mem_Get_applied [simp]: "mem_Get (apply_job m (write_job op key val t lsn)) key = Some (entry_for op val t lsn)"
  by (simp add: apply_write mem_lookup entry_for_def)

lemma read_tables_entry:
  assumes "mem_Get (sh_mem s) key = Some (entry_for op val t lsn)" "t = 0 \<or> cx_txn_id ctx = t"
  shows "read_tables s key ctx = Some (if op = kDelete then Inl (Status_NotFound ''deleted in memtable'') else Inr val)"
  using assms by (auto simp: read_tables_def LookupMemTable_def MemEntryVisible_def entry_for_def)

lemma Resolve_entry:
  assumes "mem_Get (sh_mem s) key = Some (entry_for op val t lsn)" "t = 0 \<or> cx_txn_id ctx = t"
  shows "ResolveAtSnapshot lib s key ctx = Some (if op = kDelete then Inl (Status_NotFound ''deleted in memtable'') else Inr val)"
    "GetAtSnapshotCore lib s key ctx = Some (if op = kDelete then Inl (Status_NotFound ''deleted in memtable'') else Inr val)"
  using read_tables_entry [OF assms] by (simp_all add: ResolveAtSnapshot_def GetAtSnapshotCore_def)

lemma RepairSummary_fields [simp]:
  "sh_mem (fst (RepairSummary s)) = sh_mem s" "sh_pending (fst (RepairSummary s)) = sh_pending s"
  "sh_wal_corrupt (fst (RepairSummary s)) = sh_wal_corrupt s" "snd (RepairSummary s) = Status_Ok"
  by (simp_all add: RepairSummary_def)

lemma get_of_entry:
  assumes "mem_Get (sh_mem s) key = Some (entry_for kPut val 0 lsn)" "key \<noteq> []" "\<not> sh_pending s \<or> sh_wal_corrupt s"
  shows "\<exists>s2. shard_Get lib s key = Some (s2, Inr val)"
proof -
  have "ReadVisible lib (fst (RepairSummary s)) key snap = Some (Inr val)" "ReadVisible lib s key snap = Some (Inr val)" for snap
    using Resolve_entry(1) [of _ key kPut val 0 lsn] assms(1) by simp_all
  then show ?thesis
    using assms(2,3) by (auto simp: shard_Get_def Prepare_def get_exclusive_def not_found_def Let_def status_defs)
qed

text \<open>
  C3. A put is read back: after a put outside any transaction succeeded, on any of the three paths of the durability
  classes, a get of the key returns its value (and returns at all: the index is not asked).
\<close>

theorem get_after_put:
  assumes "shard_Put sync ft key val 0 s = Some (s1, st)" "status_ok st"
  shows "\<exists>s2. shard_Get lib s1 key = Some (s2, Inr val)"
proof -
  from assms [unfolded shard_write_ops] obtain lsn where
    a: "key \<noteq> []" "mem_Get (sh_mem s1) key = Some (entry_for kPut val 0 lsn)" "\<not> sh_pending s1 \<or> sh_wal_corrupt s1"
    by (rule shard_write_ok) auto
  from get_of_entry [OF a(2,1,3)] show ?thesis .
qed

text \<open>
  C6. Snapshots are not isolated from later puts: after a put outside any transaction succeeded, a read at \<open>any\<close>
  snapshot, older than the put or not, returns the new value, because the entry is durable and \<open>MemEntryVisible\<close>
  accepts a durable entry before it compares its LSN with the snapshot.
\<close>

theorem snapshot_reads_later_put:
  assumes "shard_Put sync ft key val 0 s = Some (s1, st)" "status_ok st"
  shows "\<exists>s2. GetAtSnapshot lib s1 key \<lparr>cx_lsn = snap, cx_txn_id = t\<rparr> = Some (s2, Inr val)"
proof -
  from assms [unfolded shard_write_ops] obtain lsn where
    a: "key \<noteq> []" "mem_Get (sh_mem s1) key = Some (entry_for kPut val 0 lsn)" "\<not> sh_pending s1 \<or> sh_wal_corrupt s1"
    by (rule shard_write_ok) auto
  then have "GetAtSnapshotCore lib s1 key ctx = Some (Inr val)" "GetAtSnapshotCore lib (fst (RepairSummary s1)) key ctx = Some (Inr val)" for ctx
    using Resolve_entry(2) [of _ key kPut val 0 lsn] by simp_all
  with a(1,3) show ?thesis
    by (auto simp: GetAtSnapshot_def PrepareSnapshotReadLocked_def Let_def split_beta status_defs)
qed

text \<open>
  C5. A deleted key may still be read: after a delete succeeded, if the index still holds the key (it does until the
  next flush) and the index is on disk or the committed values are loaded lazily, a get returns the value that was deleted.
\<close>

theorem deleted_key_still_read:
  assumes "shard_Delete sync ft key 0 s = Some (s1, st)" "status_ok st"
    and "eo_lazy_committed_load (sh_opts s1) \<or> bt_on_disk (sh_btree s1)"
    and "bt_Get (pages_of lib s1) (sh_btree s1) key = Some (Inr lsn)" "lsn \<le> sh_stable s1"
    and "ReadValueByLsn lib s1 lsn = Inr old"
  shows "shard_Get lib s1 key = Some (s1, Inr old)"
proof -
  from assms(1,2) [unfolded shard_write_ops] obtain l where
    a: "key \<noteq> []" "mem_Get (sh_mem s1) key = Some (entry_for kDelete [] 0 l)" "\<not> sh_pending s1 \<or> sh_wal_corrupt s1"
    by (rule shard_write_ok) auto
  have "ReadVisible lib s1 key snap = Some (Inl (Status_NotFound ''deleted in memtable''))" for snap
    using Resolve_entry(1) [OF a(2)] by simp
  moreover have "TryLazyWalOrDisk lib s1 key (sh_stable s1) = Some (s1, Some old)"
    using a(3) assms(4-6) by (auto simp: TryLazyWalOrDisk_def newer_in_wal_def value_of_def Let_def)
  ultimately show ?thesis
    using a(1) assms(3) by (auto simp: shard_Get_def Prepare_def not_found_def Let_def status_defs)
qed

section \<open>A write survives\<close>

text \<open>The record of a write that was acknowledged.\<close>

definition write_record :: "shard \<Rightarrow> u8 \<Rightarrow> bytes \<Rightarrow> bytes \<Rightarrow> u32 \<Rightarrow> wal_record" where
  "write_record s op key val t = mk_wal (ww_max_lsn (sh_wal s) + 1) op key val (logged_txn s t)"

lemma wal_append_ok:
  assumes "writer_ok w rs" "valid_op op" "ww_max_lsn w < kWalMagicV2 - 1" "wal_Append NoFault w op key val t = (w1, Inr lsn)"
  shows "lsn = ww_max_lsn w + 1 \<and> ww_max_lsn w1 = lsn \<and> writer_ok w1 (rs @ [mk_wal lsn op key val t])"
proof -
  have a: "append_one NoFault w op key val t = (w1, Inr lsn)"
    using assms(4) by (simp add: wal_Append_def Sync_writer_ok [OF assms(1)])
  then have f: "record_fits key val" using append_one_too_large(1) [OF assms(1) _ assms(3), of key val NoFault op t] by auto
  have "ww_file w = wal_file rs []" "ww_offset w = 8 + length (wlog.log_image rs)"
    using assms(1) by (simp_all add: writer_ok_def log_ok_def)
  from append_one_log [OF this f, of "mk_wal (ww_max_lsn w + 1) op key val t" op t] a
  have "lsn = ww_max_lsn w + 1" "ww_max_lsn w1 = lsn" by (auto simp del: length_wal_file)
  with writer_ok_append_one [OF assms(1) f assms(2,3), of t] a show ?thesis by simp
qed

lemma shard_write_logged:
  assumes "writer_ok (sh_wal s) rs" "ww_max_lsn (sh_wal s) < kWalMagicV2 - 1" "op = kPut \<or> op = kDelete"
    and "shard_write sync NoFault op key val t s = Some (s1, st)" "status_ok st"
  shows "writer_ok (sh_wal s1) (rs @ [write_record s op key val t])" "ww_max_lsn (sh_wal s1) = ww_max_lsn (sh_wal s) + 1"
    "synced_class s \<and> co_flushed (sh_co s) \<le> ww_max_lsn (sh_wal s) \<longrightarrow> sync" "key \<noteq> []"
proof -
  from assms(4,5,3) obtain w lsn where
    a: "key \<noteq> []" "wal_Append NoFault (sh_wal s) op key val (logged_txn s t) = (w, Inr lsn)" "sh_wal s1 \<in> {w, wal_Fsync w}"
      "synced_class s \<and> co_flushed (sh_co s) < lsn \<longrightarrow> sync"
    by (rule shard_write_ok) blast
  have "valid_op op" using assms(3) by (auto simp: valid_op_def)
  from wal_append_ok [OF assms(1) this assms(2) a(2)]
  have l: "lsn = ww_max_lsn (sh_wal s) + 1" "writer_ok w (rs @ [write_record s op key val t])" "ww_max_lsn w = lsn"
    by (auto simp: write_record_def)
  show "writer_ok (sh_wal s1) (rs @ [write_record s op key val t])"
    using a(3) l(2) writer_ok_Fsync by auto
  show "ww_max_lsn (sh_wal s1) = ww_max_lsn (sh_wal s) + 1" using a(3) l by (auto simp: wal_Fsync_def)
  show "synced_class s \<and> co_flushed (sh_co s) \<le> ww_max_lsn (sh_wal s) \<longrightarrow> sync"
    using a(4) l(1) lsn_step [OF assms(2)] by (auto intro: le_less_trans)
  show "key \<noteq> []" by (rule a(1))
qed

text \<open>
  What a shard reads that finds a log after a crash: the last write of the key, if it carries no transaction
  and nothing aborted transaction 0. \<open>reopened\<close> says that the shard has the log and has not replayed it.
\<close>

definition reopened :: "shard \<Rightarrow> wal_record list \<Rightarrow> wal_record \<Rightarrow> nat \<Rightarrow> bool" where
  "reopened s rs torn n \<longleftrightarrow> crashed_log rs torn n \<and> ww_file (sh_wal s) = wal_file rs (take n (enc_wal_record torn))
     \<and> sh_pending s \<and> \<not> sh_wal_corrupt s \<and> 0 \<notin> txn_marks kTxnAbort rs"

lemma reopened_get:
  assumes "reopened s (rs @ r # marks) torn n" "checkpoint_lsn s < rec_lsn r"
    and "wr_key r = key" "wr_value r = val" "wh_op (wr_hdr r) = kPut" "rec_txn r = 0" "key \<noteq> []"
    and "\<forall>m \<in> set marks. \<not> is_data_op (wh_op (wr_hdr m))"
  shows "\<exists>s2. shard_Get lib (fst (EnsureWalReplayed s)) key = Some (s2, Inr val)"
proof -
  let ?tail = "log_tail (checkpoint_lsn s)"
  have "0 \<notin> txn_marks kTxnAbort (?tail (rs @ r # marks))"
    using assms(1) by (auto simp: reopened_def txn_marks_def log_tail_def)
  moreover have "last_write key (filter P (?tail marks)) = None" for P
    using assms(8) by (auto simp: last_write_def writes_key_def log_tail_def find_None_iff)
  ultimately have "mem_Get (ReplayPending (wal_disk s) (sh_mem s) (checkpoint_lsn s)) key = Some (entry_for kPut val 0 (rec_lsn r))"
    using assms crashed_table [of "rs @ r # marks" torn n "sh_mem s" "checkpoint_lsn s" key]
    by (simp add: reopened_def log_tail_def last_write_append last_write_Cons writes_key_def is_data_op_def
        mem_entry_of_def entry_for_def Let_def)
  then have "mem_Get (sh_mem (fst (EnsureWalReplayed s))) key = Some (entry_for kPut val 0 (rec_lsn r))"
    using assms(1) by (simp add: EnsureWalReplayed_def RefreshRecoveryState_def reopened_def)
  from get_of_entry [OF this assms(7) EnsureWalReplayed_simps(5)] show ?thesis .
qed

text \<open>
  C1. An acknowledged put survives a crash: when a put outside any transaction succeeded in a synced durability class,
  the sync succeeded, and a shard that finds the log of that moment, with the torn beginning of a later record at its
  end, replays it and returns the value. The log is consistent before the put (\<open>writer_ok\<close>), its coordinator has not
  synced LSNs still to come, and the checkpoint is not past the put.
\<close>

theorem acked_put_survives_crash:
  assumes "writer_ok (sh_wal s) rs" "ww_max_lsn (sh_wal s) < kWalMagicV2 - 1" "synced_class s"
    and "co_flushed (sh_co s) \<le> ww_max_lsn (sh_wal s)"
    and "shard_Put sync NoFault key val 0 s = Some (s1, st)" "status_ok st"
    and "reopened s2 (rs @ [mk_wal (ww_max_lsn (sh_wal s) + 1) kPut key val 0]) torn n" "checkpoint_lsn s2 \<le> ww_max_lsn (sh_wal s)"
  shows "sync \<and> ww_file (sh_wal s1) = wal_file (rs @ [mk_wal (ww_max_lsn (sh_wal s) + 1) kPut key val 0]) []
    \<and> (\<exists>s3. shard_Get lib (fst (EnsureWalReplayed s2)) key = Some (s3, Inr val))"
proof -
  have r: "write_record s kPut key val 0 = mk_wal (ww_max_lsn (sh_wal s) + 1) kPut key val 0"
    by (simp add: write_record_def logged_txn_def)
  note l = shard_write_logged [OF assms(1,2) disjI1 [OF refl] assms(5) [unfolded shard_write_ops] assms(6), unfolded r]
  have "checkpoint_lsn s2 < ww_max_lsn (sh_wal s) + 1" using assms(8) lsn_step [OF assms(2)] by auto
  then have "\<exists>s3. shard_Get lib (fst (EnsureWalReplayed s2)) key = Some (s3, Inr val)"
    using l(4) by (intro reopened_get [OF assms(7)]) auto
  with l assms(3,4) show ?thesis by (simp add: writer_ok_def log_ok_def)
qed

text \<open>
  C7. Outside the synced classes an aborted transaction survives a crash: the write rule logs a record without its
  transaction, so when a put of transaction \<open>t\<close> succeeded, was aborted, and the shard crashed, replay commits
  the aborted value for every reader.
\<close>

theorem aborted_put_survives_crash:
  assumes "writer_ok (sh_wal s) rs" "ww_max_lsn (sh_wal s) < kWalMagicV2 - 2" "\<not> synced_class s"
    and "shard_Put sync NoFault key val t s = Some (s1, st)" "status_ok st"
    and "AppendTxnAbort NoFault t s1 = (s2, Status_Ok)"
    and "wal_disk s3 = wal_disk s2" "sh_pending s3" "\<not> sh_wal_corrupt s3" "checkpoint_lsn s3 \<le> ww_max_lsn (sh_wal s)"
    and "0 \<notin> txn_marks kTxnAbort rs" "t \<noteq> 0"
  shows "\<exists>s4. shard_Get lib (fst (EnsureWalReplayed s3)) key = Some (s4, Inr val)"
proof -
  have m: "ww_max_lsn (sh_wal s) < kWalMagicV2 - 1" "ww_max_lsn (sh_wal s) + 1 < kWalMagicV2 - 1"
    using assms(2) by (simp_all add: kWalMagicV2_def word_less_nat_alt unat_word_ariths)
  let ?r = "mk_wal (ww_max_lsn (sh_wal s) + 1) kPut key val 0"
  have r: "write_record s kPut key val t = ?r"
    using assms(3) by (simp add: write_record_def logged_txn_def synced_class_def)
  note l = shard_write_logged [OF assms(1) m(1) disjI1 [OF refl] assms(4) [unfolded shard_write_ops] assms(5), unfolded r]
  obtain w lsn where a: "wal_Append NoFault (sh_wal s1) kTxnAbort [] (put_u64 0) t = (w, Inr lsn)" "sh_wal s2 = w"
    using assms(6) wal_Append_error [of NoFault "sh_wal s1" kTxnAbort "[]" "put_u64 0" t]
    by (auto simp: AppendTxnAbort_def AppendTxnControl_def status_defs split: prod.splits sum.splits)
  have "valid_op kTxnAbort" by (simp add: valid_op_def)
  note ab = wal_append_ok [OF l(1) this _ a(1), unfolded l(2), OF m(2)]
  have w: "writer_ok w ((rs @ [?r]) @ [mk_wal lsn kTxnAbort [] (put_u64 0) t])" using ab by blast
  then have ok: "\<forall>x \<in> set (rs @ ?r # [mk_wal lsn kTxnAbort [] (put_u64 0) t]). wal_ok x" by (auto simp: writer_ok_def log_ok_def)
  have "crashed_log (rs @ ?r # [mk_wal lsn kTxnAbort [] (put_u64 0) t]) ?r 0"
    using ok by (auto simp: crashed_log_def less_imp_le [OF AlignUp_greater] enc_wal_record_def)
  then have "reopened s3 (rs @ ?r # [mk_wal lsn kTxnAbort [] (put_u64 0) t]) ?r 0"
    using assms(7-9,11,12) w a(2)
    by (auto simp: reopened_def writer_ok_def log_ok_def txn_marks_def wal_ops)
  from reopened_get [OF this] assms(10) l(4) lsn_step [OF m(1)] show ?thesis
    by (auto simp: is_data_op_def wal_ops)
qed

section \<open>Writes that succeed\<close>

lemma EnsureWalReplayed_id: "\<not> sh_pending s \<Longrightarrow> EnsureWalReplayed s = (s, Status_Ok)"
  by (simp add: EnsureWalReplayed_def)

lemma wal_append_fits:
  assumes "writer_ok w rs" "valid_op op" "ww_max_lsn w < kWalMagicV2 - 1" "record_fits key val"
  shows "\<exists>w1. wal_Append NoFault w op key val t = (w1, Inr (ww_max_lsn w + 1)) \<and> ww_max_lsn w1 = ww_max_lsn w + 1
    \<and> writer_ok w1 (rs @ [mk_wal (ww_max_lsn w + 1) op key val t])"
proof -
  obtain w1 r where a: "wal_Append NoFault w op key val t = (w1, r)" by fastforce
  moreover have "r = Inr (ww_max_lsn w + 1)"
    using writer_ok_append_one [OF assms(1,4,2,3), of t] a by (simp add: wal_Append_def Sync_writer_ok [OF assms(1)])
  ultimately show ?thesis using wal_append_ok [OF assms(1-3), of key val t w1 "ww_max_lsn w + 1"] by auto
qed

lemma batched_write_succeeds:
  assumes "sh_opened s" "key \<noteq> []" "\<not> sh_pending s" "eo_durability (sh_opts s) = KBalancedClass"
    and "writer_ok (sh_wal s) rs" "valid_op op" "ww_max_lsn (sh_wal s) < kWalMagicV2 - 1" "record_fits key val"
  shows "\<exists>w m. shard_write True NoFault op key val t s = Some (s\<lparr>sh_wal := w, sh_mem := m,
    sh_stable := max (sh_stable s) (ww_max_lsn (sh_wal s) + 1)\<rparr>, Status_Ok)"
proof -
  obtain w1 where "wal_Append NoFault (sh_wal s) op key val t = (w1, Inr (ww_max_lsn (sh_wal s) + 1))"
    using wal_append_fits [OF assms(5-8), of t] by blast
  with assms(1-4) have "shard_write True NoFault op key val t s = Some (s\<lparr>sh_wal := wal_Fsync w1,
      sh_mem := apply_job (sh_mem s) (write_job op key val t (ww_max_lsn (sh_wal s) + 1)),
      sh_stable := max (sh_stable s) (ww_max_lsn (sh_wal s) + 1)\<rparr>, Status_Ok)"
    by (simp add: shard_write_def EnsureWalReplayed_id pipeline_write_eq)
  then show ?thesis by blast
qed

lemma unsynced_write_succeeds:
  assumes "sh_opened s" "key \<noteq> []" "\<not> sh_pending s" "eo_durability (sh_opts s) = KAsync" "\<not> eo_sync_on_commit (sh_opts s)"
    and "writer_ok (sh_wal s) rs" "ww_max_lsn (sh_wal s) < kWalMagicV2 - 1" "record_fits key val" "op = kPut \<or> op = kDelete"
  shows "\<exists>w m. shard_write sync NoFault op key val t s = Some (s\<lparr>sh_wal := w, sh_mem := m\<rparr>, Status_Ok)
    \<and> writer_ok w (rs @ [mk_wal (ww_max_lsn (sh_wal s) + 1) op key val 0]) \<and> ww_max_lsn w = ww_max_lsn (sh_wal s) + 1"
proof -
  have "valid_op op" "(if op = kDelete then kDelete else kPut) = op" using assms(9) by (auto simp: valid_op_def)
  note op = this
  obtain w1 where w1: "wal_Append NoFault (sh_wal s) op key val 0 = (w1, Inr (ww_max_lsn (sh_wal s) + 1))"
    "writer_ok w1 (rs @ [mk_wal (ww_max_lsn (sh_wal s) + 1) op key val 0])" "ww_max_lsn w1 = ww_max_lsn (sh_wal s) + 1"
    using wal_append_fits [OF assms(6) op(1) assms(7,8), of 0] by blast
  with op(2) assms(1-5) have "\<exists>m. shard_write sync NoFault op key val t s = Some (s\<lparr>sh_wal := w1, sh_mem := m\<rparr>, Status_Ok)"
    by (simp add: shard_write_def EnsureWalReplayed_id WriteRule_def sync_path_def Let_def) blast
  with w1(2,3) show ?thesis by blast
qed

definition demo_shard :: "DurabilityClass \<Rightarrow> shard" where
  "demo_shard d = (new_shard (default_options\<lparr>eo_durability := d, eo_lazy_committed_load := True\<rparr>)
     \<lparr>fl_wal = None, fl_data = None, fl_didx = None, fl_super = None, fl_tlog = \<lparr>tf_log = None, tf_idx = None\<rparr>,
      fl_gc = None, fl_pages = None, fl_txidx = None\<rparr>)\<lparr>sh_opened := True\<rparr>"

lemma demo_shard_simps [simp]:
  "sh_opened (demo_shard d)" "\<not> sh_pending (demo_shard d)" "eo_durability (sh_opts (demo_shard d)) = d"
  "\<not> eo_sync_on_commit (sh_opts (demo_shard d))" "sh_wal (demo_shard d) = WalWriter_open None"
  "eo_lazy_committed_load (sh_opts (demo_shard d))" "sh_co (demo_shard d) = coordinator_init"
  "rm_reclaim (sh_gc (demo_shard d)) = 0xFF" "checkpoint_lsn (demo_shard d) = 0" "\<not> sh_wal_corrupt (demo_shard d)"
  by (simp_all add: demo_shard_def new_shard_def default_options_def gc_Load_elect gc_reset_def RegionManager_init_def SuperBlock_init_def
      SuperBlockCritical_init_def)

definition old_write :: df_write where
  "old_write = \<lparr>dw_lsn = 1, dw_key = [1], dw_value = [7], dw_deleted = False, dw_gen = 0\<rparr>"

definition indexed_shard :: shard where
  "indexed_shard = (demo_shard KBalancedClass)\<lparr>sh_data := append_write no_lzma DataFile_init old_write,
     sh_btree := bt_Put [1] 1 PagedBTree_init, sh_stable := 1\<rparr>"

theorem get_after_put_witness:
  "\<exists>s1 s2. shard_Put True NoFault [1] [2] 0 (demo_shard KBalancedClass) = Some (s1, Status_Ok)
     \<and> shard_Get no_lzma s1 [1] = Some (s2, Inr [2])"
proof -
  obtain s1 where "shard_Put True NoFault [1] [2] 0 (demo_shard KBalancedClass) = Some (s1, Status_Ok)"
    using batched_write_succeeds [of "demo_shard KBalancedClass" "[1]" "[]" kPut "[2]" 0]
    by (auto simp: shard_write_ops writer_ok_create valid_op_def record_fits_def kWalMagicV2_def)
  with get_after_put [OF this, of no_lzma] show ?thesis by (auto simp: status_defs)
qed

theorem snapshot_reads_later_put_witness:
  "\<exists>s1 s2. shard_Put True NoFault [1] [2] 0 indexed_shard = Some (s1, Status_Ok)
     \<and> GetAtSnapshot no_lzma s1 [1] \<lparr>cx_lsn = 1, cx_txn_id = 0\<rparr> = Some (s2, Inr [2])"
proof -
  obtain s1 where "shard_Put True NoFault [1] [2] 0 indexed_shard = Some (s1, Status_Ok)"
    using batched_write_succeeds [of indexed_shard "[1]" "[]" kPut "[2]" 0]
    by (auto simp: indexed_shard_def shard_write_ops writer_ok_create valid_op_def record_fits_def kWalMagicV2_def)
  with snapshot_reads_later_put [OF this, of no_lzma 1 0] show ?thesis by (auto simp: status_defs)
qed

theorem deleted_key_still_read_witness:
  "\<exists>s1. shard_Delete True NoFault [1] 0 indexed_shard = Some (s1, Status_Ok) \<and> shard_Get no_lzma s1 [1] = Some (s1, Inr [7])"
proof -
  have simps: "sh_opened indexed_shard" "\<not> sh_pending indexed_shard" "eo_durability (sh_opts indexed_shard) = KBalancedClass"
    "sh_wal indexed_shard = WalWriter_open None" "eo_lazy_committed_load (sh_opts indexed_shard)" "sh_stable indexed_shard = 1"
    "rm_reclaim (sh_gc indexed_shard) = 0xFF" by (simp_all add: indexed_shard_def)
  obtain s1 where s1: "shard_Delete True NoFault [1] 0 indexed_shard = Some (s1, Status_Ok)"
    "eo_lazy_committed_load (sh_opts s1)" "sh_btree s1 = sh_btree indexed_shard" "sh_data s1 = sh_data indexed_shard"
    "rm_reclaim (sh_gc s1) = 0xFF" "1 \<le> sh_stable s1"
    using batched_write_succeeds [of indexed_shard "[1]" "[]" kDelete "[]" 0]
    by (auto simp: simps shard_write_ops writer_ok_create valid_op_def record_fits_def kWalMagicV2_def)
  have "ReadValueByLsn no_lzma s1 1 = Inr [7]"
    using read_by_lsn_raw [where ws = "[old_write]" and us = "[]" and vs = "[]" and rg = "0xFF" and lib = no_lzma] s1(4,5)
    by (simp add: ReadValueByLsn_def indexed_shard_def old_write_def small_def)
  with deleted_key_still_read [OF s1(1), where lsn = 1 and lib = no_lzma and old = "[7]"] s1 show ?thesis
    by (simp add: indexed_shard_def bt_Get_Put status_defs)
qed

theorem acked_put_survives_crash_witness:
  "\<exists>s1 s3. shard_Put True NoFault [1, 2, 3, 4] [] 0 (demo_shard KBalancedClass) = Some (s1, Status_Ok)
     \<and> shard_Get no_lzma (fst (EnsureWalReplayed ((demo_shard KSync)\<lparr>sh_wal := (WalWriter_open None)
          \<lparr>ww_file := wal_file [mk_wal 1 kPut [1, 2, 3, 4] [] 0] (take 9 (enc_wal_record (mk_wal 1 kPut [1, 2, 3, 4] [] 0)))\<rparr>,
          sh_pending := True\<rparr>))) [1, 2, 3, 4] = Some (s3, Inr [])"
proof -
  let ?s = "demo_shard KBalancedClass" and ?r = "mk_wal 1 kPut [1, 2, 3, 4] [] 0"
  let ?s2 = "(demo_shard KSync)\<lparr>sh_wal := (WalWriter_open None)\<lparr>ww_file := wal_file [?r] (take 9 (enc_wal_record ?r))\<rparr>,
    sh_pending := True\<rparr>"
  have r: "reopened ?s2 ([] @ [mk_wal (ww_max_lsn (sh_wal ?s) + 1) kPut [1, 2, 3, 4] [] 0]) ?r 9"
    using crashed_one by (simp add: reopened_def txn_marks_def wal_ops)
  obtain s1 where s1: "shard_Put True NoFault [1, 2, 3, 4] [] 0 ?s = Some (s1, Status_Ok)"
    using batched_write_succeeds [of ?s "[1, 2, 3, 4]" "[]" kPut "[]" 0]
    by (auto simp: shard_write_ops writer_ok_create valid_op_def record_fits_def kWalMagicV2_def)
  from acked_put_survives_crash [OF _ _ _ _ s1 _ r, of no_lzma] s1 show ?thesis
    by (auto simp: writer_ok_create kWalMagicV2_def synced_class_def coordinator_init_def status_defs)
qed

theorem aborted_put_survives_crash_witness:
  "\<exists>s1 s2 s4. shard_Put True NoFault [1] [2] 7 (demo_shard KAsync) = Some (s1, Status_Ok)
     \<and> AppendTxnAbort NoFault 7 s1 = (s2, Status_Ok)
     \<and> shard_Get no_lzma (fst (EnsureWalReplayed (s2\<lparr>sh_pending := True\<rparr>))) [1] = Some (s4, Inr [2])"
proof -
  let ?s = "demo_shard KAsync"
  obtain w m where p: "shard_Put True NoFault [1] [2] 7 ?s = Some (?s\<lparr>sh_wal := w, sh_mem := m\<rparr>, Status_Ok)"
    "writer_ok w ([] @ [mk_wal 1 kPut [1] [2] 0])" "ww_max_lsn w = 1"
    using unsynced_write_succeeds [of ?s "[1]" "[]" "[2]" kPut True 7]
    by (auto simp: shard_write_ops writer_ok_create record_fits_def kWalMagicV2_def)
  obtain w2 where w2: "wal_Append NoFault w kTxnAbort [] (put_u64 0) 7 = (w2, Inr 2)"
    using wal_append_fits [OF p(2), of kTxnAbort "[]" "put_u64 0" 7] p(3) by (auto simp: valid_op_def record_fits_def kWalMagicV2_def)
  define s2 where "s2 = ?s\<lparr>sh_wal := w2, sh_mem := m, sh_sidecar := MarkAborted 7 (sh_sidecar ?s)\<rparr>"
  have a: "AppendTxnAbort NoFault 7 (?s\<lparr>sh_wal := w, sh_mem := m\<rparr>) = (s2, Status_Ok)"
    using w2 by (simp add: AppendTxnAbort_def AppendTxnControl_def s2_def)
  from aborted_put_survives_crash [OF _ _ _ p(1) _ a, of "[]" "s2\<lparr>sh_pending := True\<rparr>" no_lzma] p(1) a show ?thesis
    by (auto simp: writer_ok_create kWalMagicV2_def synced_class_def sync_path_def status_defs s2_def txn_marks_def)
qed

end
