(* ===== verification/ShardCheckpoint.thy ===== *)
theory ShardCheckpoint
  imports ShardFacts DataIndex
begin

text \<open>
  Checkpoints and reopening: a checkpoint that succeeded leaves files from which the shard reopens lazily, with
  nothing to replay, and reads the value of every key of the committed map through the index on its pages.
\<close>

section \<open>What the steps of a checkpoint leave alone\<close>

text \<open>The part of the shard a reopening reads, apart from the log and the superblock.\<close>

definition same_data :: "shard \<Rightarrow> shard \<Rightarrow> bool" where
  "same_data s s1 \<longleftrightarrow> sh_data s1 = sh_data s \<and> sh_committed s1 = sh_committed s \<and> sh_gc s1 = sh_gc s
     \<and> sh_root_corrupt s1 = sh_root_corrupt s \<and> sh_stable s1 = sh_stable s"

lemma same_data_refl [simp]: "same_data s s"
  by (simp add: same_data_def)

lemma same_data_trans: "same_data s s1 \<Longrightarrow> same_data s1 s2 \<Longrightarrow> same_data s s2"
  by (simp add: same_data_def)

lemma FoldWalToVcs_frame:
  assumes "FoldWalToVcs s = (s1, st)"
  shows "\<exists>v. s1 = s\<lparr>sh_vcs := v\<rparr>"
proof -
  have "fst (FoldWalToVcs s) = s \<or> (\<exists>v. fst (FoldWalToVcs s) = s\<lparr>sh_vcs := Some v\<rparr>)"
    by (cases "sh_vcs s") (simp_all add: FoldWalToVcs_def Let_def split_beta, blast)
  with assms have "s1 = s\<lparr>sh_vcs := sh_vcs s\<rparr> \<or> (\<exists>v. s1 = s\<lparr>sh_vcs := Some v\<rparr>)" by simp
  then show ?thesis by blast
qed

lemma AppendTLogSnapshot_frame:
  assumes "AppendTLogSnapshot ft1 ft2 clk wall s = (s1, st)"
  shows "\<exists>t sb. s1 = s\<lparr>sh_tlog := t, sh_sb := sb\<rparr>"
proof -
  obtain t r where a: "AppendSnapshot ft1 ft2 clk wall (sh_tlog s) (sh_stable s) (word_of_nat (df_FileSize (sh_data s)))
      (ww_max_lsn (sh_wal s)) = (t, r)" by fastforce
  show ?thesis
  proof (cases r)
    case (Inl e)
    with a assms have "s1 = s\<lparr>sh_tlog := t\<rparr>" by (simp add: AppendTLogSnapshot_def)
    moreover have "s\<lparr>sh_tlog := t\<rparr> = s\<lparr>sh_tlog := t, sh_sb := sh_sb s\<rparr>" by simp
    ultimately show ?thesis by blast
  next
    case (Inr tail)
    with a assms show ?thesis by (auto simp: AppendTLogSnapshot_def)
  qed
qed

lemma FlushPending_empty: "pl_queue p = [] \<Longrightarrow> FlushPending n env p = (p, Status_Ok)"
  by (cases n) auto

lemma pending_frame:
  assumes "shard_FlushPending sync s = (s1, st)"
  shows "\<exists>w c. s1 = s\<lparr>sh_wal := w, sh_co := c\<rparr> \<and> (w = sh_wal s \<or> w = wal_Fsync (sh_wal s))"
proof (cases "eo_durability (sh_opts s) = KBalancedClass")
  case True
  have "pl_queue (shard_pipeline s) = []" "after_pipeline (shard_pipeline s) s = s"
    by (simp_all add: shard_pipeline_def after_pipeline_def)
  with True assms have "s1 = s\<lparr>sh_wal := sh_wal s, sh_co := sh_co s\<rparr>"
    by (simp add: shard_FlushPending_def FlushPending_empty)
  then show ?thesis by blast
next
  case False
  obtain w c st' where r: "co_FlushPending sync (sh_wal s) (sh_co s) = ((w, c), st')" by (metis surj_pair)
  with False assms have "s1 = s\<lparr>sh_wal := w, sh_co := c\<rparr>" by (simp add: shard_FlushPending_def)
  moreover have "w = sh_wal s \<or> w = wal_Fsync (sh_wal s)"
    using r by (auto simp: co_FlushPending_def RunFsync_def wal_Fsync_at_def Let_def split: if_splits)
  ultimately show ?thesis by blast
qed

lemma GroupCommit_frame:
  assumes "GroupCommitRule sync s = (s1, st)"
  shows "\<exists>w l g. s1 = s\<lparr>sh_wal := w, sh_stable := l, sh_group := g\<rparr> \<and> (w = sh_wal s \<or> w = wal_Fsync (sh_wal s)) \<and> sh_stable s \<le> l"
proof -
  obtain w l g st' where r: "group_Commit sync (sh_wal s) (sh_stable s) (sh_group s) = ((w, l, g), st')" by (metis surj_pair)
  with assms have "s1 = s\<lparr>sh_wal := w, sh_stable := l, sh_group := g\<rparr>" by (simp add: GroupCommitRule_def)
  moreover have "(w = sh_wal s \<or> w = wal_Fsync (sh_wal s)) \<and> sh_stable s \<le> l"
    using r by (auto simp: group_Commit_def wal_Fsync_at_def Let_def split: if_splits)
  ultimately show ?thesis by blast
qed

section \<open>The flush of a checkpoint\<close>

lemma flush_entries_wal:
  assumes "flush_entries lib read fts c kvs = Some (c1, st)"
  shows "fc_wal c1 = fc_wal c"
  using assms
proof (induction kvs arbitrary: c fts)
  case (Cons kv kvs)
  obtain c2 st2 where e: "flush_entry lib read (fst (next_fault fts)) c kv = Some (c2, st2)"
    using Cons.prems by (cases "flush_entry lib read (fst (next_fault fts)) c kv") auto
  then have "fc_wal c2 = fc_wal c"
    by (auto simp: flush_entry_alt Let_def split: bind_splits if_splits prod.splits dest!: flush_vcs_simps)
  with Cons e show ?case by (auto split: if_splits)
qed simp

lemma Flush_wal:
  assumes "Flush lib read sync fts c = Some (c1, st)" "status_ok st"
  shows "fc_wal c1 = wal_Fsync (fc_wal c)"
proof -
  let ?c = "c\<lparr>fc_wal := wal_Fsync (fc_wal c)\<rparr>"
  obtain c2 st2 where e: "flush_entries lib read fts ?c (fc_frozen c) = Some (c2, st2)" and c1: "fc_wal c1 = fc_wal c2"
    using assms by (cases "flush_entries lib read fts ?c (fc_frozen c)")
      (auto simp: Flush_alt Let_def mem_Snapshot_def status_defs split: if_splits)
  from flush_entries_wal [OF e] c1 show ?thesis by simp
qed

section \<open>The superblock of a checkpoint\<close>

lemma Commit_current_magic: "sc_magic (sb_critical (Commit_current file)) = kSuperBlockMagic"
  by (auto simp: Commit_current_def Load_def ReadSlot_def ValidateCritical_def Let_def SuperBlock_init_def
      SuperBlockCritical_init_def split: sum.splits option.splits if_splits)

lemma Commit_ok_no_fault: "Commit ft file inp = (file', st) \<Longrightarrow> status_ok st \<Longrightarrow> ft = NoFault"
  by (cases ft) (auto simp: Commit_def WriteSlot_def status_defs Let_def)

lemma commit_block_ok:
  assumes "super_inv (sh_super s)" "unat (sb_epoch (Commit_current (sh_super s))) + 1 < 2 ^ 64"
    and "commit_block ft (next_block s0 (Commit_current (sh_super s)) wal root) s = (s1, st)" "status_ok st"
  shows "\<exists>next. Load (sh_super s1) = Inr next \<and> sc_data_lsn (sb_critical next) = sh_stable s0
    \<and> sc_wal_lsn (sb_critical next) = wal \<and> same_data s s1 \<and> sh_wal s1 = sh_wal s \<and> checkpoint_lsn s1 = wal
    \<and> sc_active_root (sb_critical next) = root \<and> sh_pages s1 = sh_pages s"
proof -
  let ?sb = "next_block s0 (Commit_current (sh_super s)) wal root"
  obtain fl' st' where c: "Commit ft (sh_super s) ?sb = (fl', st')" by fastforce
  with assms(3,4) have s1: "s1 = s\<lparr>sh_super := fl', sh_sb := ?sb\<rparr>" "ft = NoFault"
    using Commit_ok_no_fault by (auto simp: commit_block_def)
  have "sc_magic (sb_critical ?sb) = kSuperBlockMagic" "sb_epoch ?sb \<le> sb_epoch (Commit_current (sh_super s))"
    by (simp_all add: next_block_def Commit_current_magic sb_epoch_def)
  from Commit_in_force [OF assms(1) this assms(2)] c s1 show ?thesis
    by (auto simp: next_block_def same_data_def)
qed

lemma append_pages_error: "append_pages lib fts pf ps = (pf1, fts1, Inl e) \<Longrightarrow> \<not> status_ok e"
  by (auto simp: append_pages_def AppendPages_def Let_def status_defs split: if_splits prod.splits)

lemma build_level_error: "build_level lib bt source fts pf cs = (pf1, fts1, Inl e) \<Longrightarrow> \<not> status_ok e"
proof (induction lib bt source fts pf cs arbitrary: pf1 fts1 rule: build_level.induct)
  case (1 lib bt source fts pf cs)
  then show ?case
    by (auto simp: build_level.simps [of _ _ _ _ _ cs] Let_def append_pages_error split: if_splits prod.splits sum.splits)
qed

lemma BuildInternalRoot_error: "BuildInternalRoot lib bt source fts pf cs = (pf1, Inl e) \<Longrightarrow> \<not> status_ok e"
proof (induction lib bt source fts pf cs arbitrary: pf1 rule: BuildInternalRoot.induct)
  case (1 lib bt source fts pf cs)
  then show ?case
    by (auto simp: BuildInternalRoot.simps [of _ _ _ _ _ cs] status_defs
        dest: append_pages_error [unfolded status_ok_def] build_level_error [unfolded status_ok_def]
        split: if_splits prod.splits sum.splits)
qed

lemma PersistRoot_error: "PersistRootFromMap lib fts pf bt source = Some (pf1, bt1, Inl e) \<Longrightarrow> \<not> status_ok e"
  by (auto simp: PersistRootFromMap_def PersistRootImpl_def append_pages_error BuildInternalRoot_error
      split: if_splits bind_splits prod.splits sum.splits)

text \<open>The pages hold the index of the committed map, and the superblock names its root.\<close>

definition rooted :: "lzma_lib \<Rightarrow> fault list \<Rightarrow> page_file \<Rightarrow> committed_map \<Rightarrow> page_file \<Rightarrow> super_block \<Rightarrow> bool" where
  "rooted lib fts pf m pf1 nx \<longleftrightarrow> (\<exists>bt bt2 root. PersistRootFromMap lib fts pf bt (committed_lsns m) = Some (pf1, bt2, Inr root)
     \<and> kPageFileHeaderSize \<le> root \<and> status_ok (snd (LoadRoot (page_view lib pf1) bt2 root))
     \<and> sc_active_root (sb_critical nx) = word_of_nat root)"

lemma CommitSuperBlock_ok:
  assumes "super_inv (sh_super s)" "unat (sb_epoch (Commit_current (sh_super s))) + 1 < 2 ^ 64" "\<not> sh_root_corrupt s"
    and "CommitSuperBlockInternal lib fts ft s = Some (s1, st)" "status_ok st"
  shows "\<exists>next. Load (sh_super s1) = Inr next \<and> sc_data_lsn (sb_critical next) = sh_stable s
    \<and> sc_wal_lsn (sb_critical next) = ww_max_lsn (sh_wal s) \<and> same_data s s1 \<and> sh_wal s1 = sh_wal s
    \<and> checkpoint_lsn s1 = ww_max_lsn (sh_wal s) \<and> rooted lib fts (sh_pages s) (sh_committed s) (sh_pages s1) next"
proof -
  let ?bt = "EnsureSummaryLsnAtLeast (sh_stable s) (RebuildSummaryFromCommitted (committed_lsns (sh_committed s)) (sh_btree s))"
  obtain pf bt2 r where p: "PersistRootFromMap lib fts (sh_pages s) ?bt (committed_lsns (sh_committed s)) = Some (pf, bt2, r)"
    using assms(3,4) by (cases "PersistRootFromMap lib fts (sh_pages s) ?bt (committed_lsns (sh_committed s))")
      (auto simp: CommitSuperBlockInternal_def Let_def)
  show ?thesis
  proof (cases r)
    case (Inl e)
    with p assms(3-5) PersistRoot_error show ?thesis by (fastforce simp: CommitSuperBlockInternal_def Let_def)
  next
    case (Inr root)
    obtain bt3 lr where l: "LoadRoot (page_view lib pf) bt2 root = (bt3, lr)" by fastforce
    show ?thesis
    proof (cases "status_ok lr")
      case False
      with p l Inr assms(3-5) show ?thesis by (simp add: CommitSuperBlockInternal_def Let_def)
    next
      case True
      let ?s = "s\<lparr>sh_pages := pf, sh_btree := EnsureSummaryLsnAtLeast (sh_stable s) bt3\<rparr>"
      have "commit_block ft (next_block s (Commit_current (sh_super ?s)) (ww_max_lsn (sh_wal s)) (word_of_nat root)) ?s = (s1, st)"
        using True p l Inr assms(3,4) by (simp add: CommitSuperBlockInternal_def Let_def)
      from commit_block_ok [OF _ _ this assms(5)] assms(1,2) obtain nx where n: "Load (sh_super s1) = Inr nx"
        "sc_data_lsn (sb_critical nx) = sh_stable s" "sc_wal_lsn (sb_critical nx) = ww_max_lsn (sh_wal s)" "same_data ?s s1"
        "sh_wal s1 = sh_wal s" "checkpoint_lsn s1 = ww_max_lsn (sh_wal s)" "sc_active_root (sb_critical nx) = word_of_nat root"
        "sh_pages s1 = pf" by auto
      have "kPageFileHeaderSize \<le> root" "status_ok (snd (LoadRoot (page_view lib pf) bt2 root))"
        using l True by (auto simp: LoadRoot_def status_defs split: if_splits)
      with p Inr n(7,8) have "rooted lib fts (sh_pages s) (sh_committed s) (sh_pages s1) nx"
        unfolding rooted_def by blast
      with n(1-6) show ?thesis by (auto simp: same_data_def)
    qed
  qed
qed

section \<open>A checkpoint that succeeds\<close>

text \<open>
  The shard keeps its files consistent: log, data file, index and committed map are in step with one log of writes
  (each write with an LSN of its own, no LSN above the stable one), nothing is compressed or waits for replay, the
  superblock is in force, and region collection is off. The table in memory holds writes that fit their records.
\<close>

definition files_ok :: "shard \<Rightarrow> wal_record list \<Rightarrow> df_write list \<Rightarrow> bool" where
  "files_ok s rs ws \<longleftrightarrow> writer_ok (sh_wal s) rs \<and> in_step (sh_data s) (sh_committed s) (sh_stable s) ws
     \<and> super_inv (sh_super s) \<and> unat (sb_epoch (Commit_current (sh_super s))) + 1 < 2 ^ 64
     \<and> \<not> sh_root_corrupt s \<and> \<not> sh_pending s \<and> raw_ok (sh_pages s)
     \<and> rm_file (sh_gc s) = None \<and> eo_gc_reclaim_threshold_bytes (sh_opts s) = 0
     \<and> list_all (\<lambda>kv. small (entry_write (rm_active (sh_gc s)) kv)) (sh_mem s)
     \<and> distinct (map dw_lsn ws @ map (\<lambda>kv. me_lsn (snd kv)) (sh_mem s))"

lemma checkpoint_done_ok:
  assumes "checkpoint_done hook s = Some (s1, st)" "status_ok st"
  shows "same_data s s1 \<and> sh_super s1 = sh_super s \<and> sh_pages s1 = sh_pages s
    \<and> sh_didx s1 = Some (enc_didx (df_index (sh_data s)))
    \<and> sh_wal s1 = (if 0 < checkpoint_lsn s then TruncateTo (sh_wal s) (checkpoint_lsn s) else sh_wal s)"
  using assms
  by (auto simp: checkpoint_done_def Let_def interrupted_def RefreshRecoveryState_def same_data_def status_defs split: if_splits)

lemma checkpoint_commit_ok:
  assumes "checkpoint_commit lib env s = Some (s1, st)" "status_ok st" "\<not> sh_root_corrupt s"
    and "super_inv (sh_super s)" "unat (sb_epoch (Commit_current (sh_super s))) + 1 < 2 ^ 64"
  shows "\<exists>next. Load (sh_super s1) = Inr next \<and> sc_data_lsn (sb_critical next) = sh_stable s
    \<and> sc_wal_lsn (sb_critical next) = ww_max_lsn (sh_wal s) \<and> same_data s s1
    \<and> sh_wal s1 = (if 0 < ww_max_lsn (sh_wal s) then TruncateTo (sh_wal s) (ww_max_lsn (sh_wal s)) else sh_wal s)
    \<and> rooted lib (ce_pages env) (sh_pages s) (sh_committed s1) (sh_pages s1) next
    \<and> sh_didx s1 = Some (enc_didx (df_index (sh_data s1)))"
proof -
  note not_ok = interrupted_def status_defs
  obtain a fold where a: "FoldWalToVcs s = (a, fold)" by fastforce
  obtain b tl where b: "AppendTLogSnapshot (fst (ce_tlog env)) (snd (ce_tlog env)) (ce_clock env) (ce_wall env) a = (b, tl)" by fastforce
  have ok: "status_ok fold" "\<not> ce_hook env AfterVcsFold" "status_ok tl" "\<not> ce_hook env AfterTLog" "\<not> ce_hook env BeforeSuperBlock"
    using assms(1,2) a b by (auto simp: checkpoint_commit_def not_ok split: if_splits)
  have eq: "same_data s b" "sh_super b = sh_super s" "sh_wal b = sh_wal s" "sh_stable b = sh_stable s" "\<not> sh_root_corrupt b"
    "sh_pages b = sh_pages s"
    using FoldWalToVcs_frame [OF a] AppendTLogSnapshot_frame [OF b] assms(3) by (auto simp: same_data_def)
  obtain c cs where c: "CommitSuperBlockInternal lib (ce_pages env) (ce_super env) b = Some (c, cs)"
    using assms(1) a b ok by (cases "CommitSuperBlockInternal lib (ce_pages env) (ce_super env) b") (auto simp: checkpoint_commit_def)
  have cs: "status_ok cs" "checkpoint_done (ce_hook env) c = Some (s1, st)"
    using assms(1,2) a b c ok by (auto simp: checkpoint_commit_def not_ok split: if_splits)
  from CommitSuperBlock_ok [OF _ _ eq(5) c cs(1)] assms(4,5) eq(1-4,6) checkpoint_done_ok [OF cs(2) assms(2)]
  show ?thesis by (auto simp: same_data_def)
qed

lemma status_ok_Ok: "status_ok Status_Ok"
  by (simp add: status_defs)

lemma checkpoint_ok:
  assumes "files_ok s rs ws" "Checkpoint lib env s = Some (s1, st)" "status_ok st"
  obtains w us nx where "in_step (sh_data s1) (sh_committed s1) (sh_stable s1) us"
    "Load (sh_super s1) = Inr nx" "sc_data_lsn (sb_critical nx) = sh_stable s1" "sc_wal_lsn (sb_critical nx) = ww_max_lsn w"
    "writer_ok w rs" "sh_wal s1 = (if 0 < ww_max_lsn w then TruncateTo w (ww_max_lsn w) else w)" "rm_file (sh_gc s1) = None"
    "rooted lib (ce_pages env) (sh_pages s) (sh_committed s1) (sh_pages s1) nx" "sh_didx s1 = Some (enc_didx (df_index (sh_data s1)))"
proof -
  note f = assms(1) [unfolded files_ok_def]
  obtain a fp where a: "shard_FlushPending (ce_pending_sync env) s = (a, fp)" by fastforce
  obtain b gc where b: "(if eo_durability (sh_opts a) = KGroup then GroupCommitRule (ce_group_sync env) a else (a, Status_Ok)) = (b, gc)"
    by fastforce
  have rep: "EnsureWalReplayed s = (s, Status_Ok)" using f by (simp add: EnsureWalReplayed_def)
  have b1: "\<exists>w l g c. b = s\<lparr>sh_wal := w, sh_co := c, sh_stable := l, sh_group := g\<rparr> \<and> writer_ok w rs \<and> sh_stable s \<le> l"
  proof -
    obtain w1 c where p: "a = s\<lparr>sh_wal := w1, sh_co := c\<rparr>" "w1 = sh_wal s \<or> w1 = wal_Fsync (sh_wal s)"
      using pending_frame [OF a] by blast
    have "\<exists>w l g. b = a\<lparr>sh_wal := w, sh_stable := l, sh_group := g\<rparr> \<and> (w = sh_wal a \<or> w = wal_Fsync (sh_wal a))
        \<and> sh_stable a \<le> l"
    proof (cases "eo_durability (sh_opts a) = KGroup")
      case True
      with b show ?thesis using GroupCommit_frame [of _ a b gc] by simp
    next
      case False
      with b have "b = a\<lparr>sh_wal := sh_wal a, sh_stable := sh_stable a, sh_group := sh_group a\<rparr>" by simp
      then show ?thesis by blast
    qed
    then obtain w l g where "b = a\<lparr>sh_wal := w, sh_stable := l, sh_group := g\<rparr>" "w = sh_wal a \<or> w = wal_Fsync (sh_wal a)"
      "sh_stable a \<le> l" by blast
    with p f writer_ok_Fsync show ?thesis by (intro exI [of _ w] exI [of _ l] exI [of _ g] exI [of _ c]) auto
  qed
  then obtain w l g c where bb: "b = s\<lparr>sh_wal := w, sh_co := c, sh_stable := l, sh_group := g\<rparr>" "writer_ok w rs" "sh_stable s \<le> l" by blast
  have gcid: "MaybeGcSwap addr ft t = (t, Status_Ok)" if "eo_gc_reclaim_threshold_bytes (sh_opts t) = 0" for addr ft t
    using that by (simp add: MaybeGcSwap_def)
  let ?r = "RotateMemTableForFlush b"
  have r: "?r = b\<lparr>sh_mem := sh_imm b, sh_imm := sh_flushing b, sh_flushing := sh_mem b\<rparr>"
    by (simp add: RotateMemTableForFlush_def mem_Swap_def)
  have ok: "status_ok fp" "status_ok gc" using assms(2,3) rep a b by (auto simp: Checkpoint_def Let_def status_ok_Ok split: if_splits)
  have "Checkpoint lib env s = Option.bind (FlushInternal lib (ce_flush env) ?r) (\<lambda>(s4, fl).
      if \<not> status_ok fl then Some (s4, fl) else if ce_hook env AfterFlush then interrupted s4 else checkpoint_commit lib env s4)"
    using rep a b ok by (simp add: Checkpoint_def status_ok_Ok)
  then have chk: "Option.bind (FlushInternal lib (ce_flush env) ?r) (\<lambda>(s4, fl).
      if \<not> status_ok fl then Some (s4, fl) else if ce_hook env AfterFlush then interrupted s4 else checkpoint_commit lib env s4)
    = Some (s1, st)" using assms(2) by simp
  have fi': "FlushInternal lib (ce_flush env) ?r = map_option (\<lambda>(c, st). (after_flush c ?r, st))
      (Flush lib (pages_of lib ?r) (fe_sync (ce_flush env)) (fe_appends (ce_flush env)) (flush_context ?r))"
    using gcid [of ?r] f bb r by (simp add: FlushInternal_def Let_def)
  obtain fc fl where fl: "Flush lib (pages_of lib ?r) (fe_sync (ce_flush env)) (fe_appends (ce_flush env)) (flush_context ?r) = Some (fc, fl)"
    using chk fi' by (cases "Flush lib (pages_of lib ?r) (fe_sync (ce_flush env)) (fe_appends (ce_flush env)) (flush_context ?r)") auto
  have "FlushInternal lib (ce_flush env) ?r = Some (after_flush fc ?r, fl)"
    unfolding fi' by (simp add: fl)
  with chk have "(if \<not> status_ok fl then Some (after_flush fc ?r, fl) else if ce_hook env AfterFlush then interrupted (after_flush fc ?r)
      else checkpoint_commit lib env (after_flush fc ?r)) = Some (s1, st)" by simp
  then have cc: "status_ok fl" "checkpoint_commit lib env (after_flush fc ?r) = Some (s1, st)"
    using assms(3) by (auto simp: interrupted_def status_defs split: if_splits)
  have fcx: "flushed (flush_context ?r) ws"
    "list_all (\<lambda>kv. small (entry_write (fc_generation (flush_context ?r)) kv)) (fc_frozen (flush_context ?r))"
    "distinct (map dw_lsn ws @ map (\<lambda>kv. me_lsn (snd kv)) (fc_frozen (flush_context ?r)))"
    using f bb(3) unfolding r by (auto simp: flush_context_def bb(1) in_step_def)
  define us where "us = ws @ map (entry_write (fc_generation (flush_context ?r))) (fc_frozen (flush_context ?r))"
  have us: "flushed fc us" "fc_wal fc = wal_Fsync (fc_wal (flush_context ?r))"
    using Flush_keeps [OF fcx fl cc(1)] Flush_wal [OF fl cc(1)] by (simp_all add: us_def)
  have "fc_wal fc = wal_Fsync w" using us(2) unfolding r by (simp add: flush_context_def bb(1))
  then have w2: "sh_wal (after_flush fc ?r) = wal_Fsync w" by (simp add: after_flush_def)
  have ar: "\<not> sh_root_corrupt (after_flush fc ?r)" "super_inv (sh_super (after_flush fc ?r))"
    "unat (sb_epoch (Commit_current (sh_super (after_flush fc ?r)))) + 1 < 2 ^ 64"
    using f unfolding r by (simp_all add: after_flush_def bb(1))
  from checkpoint_commit_ok [OF cc(2) assms(3) ar] obtain nx where n: "Load (sh_super s1) = Inr nx"
    "sc_data_lsn (sb_critical nx) = sh_stable (after_flush fc ?r)" "sc_wal_lsn (sb_critical nx) = ww_max_lsn (wal_Fsync w)"
    "same_data (after_flush fc ?r) s1"
    "sh_wal s1 = (if 0 < ww_max_lsn (wal_Fsync w) then TruncateTo (wal_Fsync w) (ww_max_lsn (wal_Fsync w)) else wal_Fsync w)"
    "rooted lib (ce_pages env) (sh_pages (after_flush fc ?r)) (sh_committed s1) (sh_pages s1) nx"
    "sh_didx s1 = Some (enc_didx (df_index (sh_data s1)))"
    unfolding w2 by blast
  have d: "sh_data s1 = fc_datafile fc" "sh_committed s1 = fc_committed fc" "sh_stable s1 = fc_stable_lsn fc"
    "sh_gc s1 = sh_gc s" "sh_pages (after_flush fc ?r) = sh_pages s"
    using n(4) unfolding r by (simp_all add: same_data_def after_flush_def bb(1))
  show thesis
    using that [of us nx "wal_Fsync w"] us(1) n(1-3,5-7) d writer_ok_Fsync [OF bb(2)] f
    by (simp add: after_flush_def)
qed

section \<open>Reopening\<close>

text \<open>The files a shard leaves behind when it closes.\<close>

definition files_of :: "shard \<Rightarrow> shard_files" where
  "files_of s = \<lparr>fl_wal = wal_disk s, fl_data = df_bytes (sh_data s), fl_didx = sh_didx s, fl_super = sh_super s,
     fl_tlog = sh_tlog s, fl_gc = rm_file (sh_gc s), fl_pages = pf_file (sh_pages s), fl_txidx = sh_txidx s\<rparr>"

lemma truncated_file:
  assumes "writer_ok w rs"
  shows "ww_file (if 0 < ww_max_lsn w then TruncateTo w (ww_max_lsn w) else w) = wal_magic_bytes"
proof (cases "0 < ww_max_lsn w")
  case True
  have l: "log_ok w (rs @ [])" "\<forall>r \<in> set rs. rec_lsn r \<le> ww_max_lsn w" using assms by (auto simp: writer_ok_def log_ok_def)
  have "truncate_suffix w (ww_max_lsn w) = wal_magic_bytes" using truncate_suffix_log [OF l] by simp
  with True show ?thesis by (simp add: TruncateTo_def RebuildKeyIndex_def Let_def split: prod.split)
next
  case False
  have "rs = []"
  proof (rule ccontr)
    assume "rs \<noteq> []"
    then have "wal_ok (hd rs)" "rec_lsn (hd rs) \<le> 0" using assms False word_gt_0 [of "ww_max_lsn w"] by (auto simp: writer_ok_def log_ok_def)
    then show False by (simp add: wal_ok_def)
  qed
  with assms False show ?thesis by (simp add: writer_ok_def log_ok_def wal_file_def)
qed

lemma empty_log:
  "\<not> wal_probe wal_magic_bytes" "ww_file (WalWriter_open (Some wal_magic_bytes)) = wal_magic_bytes"
  "ww_max_lsn (WalWriter_open (Some wal_magic_bytes)) = 0" "ReplayPending (Some wal_magic_bytes) m after = m"
  "\<not> HasPendingOnDisk (Some wal_magic_bytes) after"
proof -
  have "le_bytes 8 n = word_of_nat n # le_bytes 7 (n div 256)" for n using le_bytes.simps(2) [of 7 n] by simp
  then have "hd wal_magic_bytes = 49" by (simp add: wal_magic_bytes_def kWalMagicV2_def put_u64_def)
  moreover have "hd bs = 66" if "take 6 bs = [66, 65, 68, 87, 65, 76]" for bs :: bytes using that by (cases bs) auto
  ultimately show "\<not> wal_probe wal_magic_bytes" by (auto simp: wal_probe_def)
  show "ww_file (WalWriter_open (Some wal_magic_bytes)) = wal_magic_bytes" "ww_max_lsn (WalWriter_open (Some wal_magic_bytes)) = 0"
    by (simp_all add: WalWriter_open_def RebuildKeyIndex_def rebuild_v1_def v1_walk.simps kWalHeader1_def Let_def)
  have magic: "wal_magic_bytes = wal_file [] []" by (simp add: wal_file_def)
  have v2: "DetectFormatV2OnDisk wal_magic_bytes" unfolding magic by (simp add: DetectFormatV2OnDisk_def del: wal_file_nonempty)
  have walk: "wal_walk wal_magic_bytes (WalDataOffsetOnDisk wal_magic_bytes True) = []"
    by (rule wal_walk_end) (simp add: WalDataOffsetOnDisk_def)
  show "ReplayPending (Some wal_magic_bytes) m after = m"
    by (simp add: ReplayPending_def ScanWalV2Records_def ScanWalV2Sparse_def walk v2)
  show "\<not> HasPendingOnDisk (Some wal_magic_bytes) after"
    by (simp add: HasPendingOnDisk_def MaxLsnOnDisk_def ScanWalV2Sparse_def ScanMaxLsnV2Linear_def ScanMaxLsnV1AfterMagic_def
       walk v2 max_above_def)
qed

section \<open>What the pages hold\<close>

lemma committed_lsns_props:
  assumes "distinct (map fst m)"
  shows "sorted_wrt (<) (map fst (committed_lsns m))" "map_of (committed_lsns m) key = map_option snd (map_of m key)"
    "length (committed_lsns m) \<le> length m" "committed_lsns m = [] \<longleftrightarrow> m = []"
proof -
  let ?es = "map (\<lambda>(k, v, lsn). (k, lsn)) m"
  show "sorted_wrt (<) (map fst (committed_lsns m))" using omap_of_props by (auto simp: committed_lsns_def)
  have d: "distinct (map fst ?es)" using assms by (simp add: comp_def split_beta)
  then have "map_of (rev ?es) = map_of ?es" by (subst map_of_inject_set) (simp_all add: rev_map [symmetric])
  then have look: "map_of (committed_lsns m) = map_of ?es" by (simp add: committed_lsns_def map_of_omap_of)
  have "map_of ?es key = map_option snd (map_of m key)" by (induction m) auto
  with look show "map_of (committed_lsns m) key = map_option snd (map_of m key)" by simp
  have put: "length (omap_put k l es) \<le> Suc (length es)" for k l es by (induction k l es rule: omap_put.induct) auto
  have "length (omap_of es) \<le> length es" for es
  proof (induction es rule: rev_induct)
    case (snoc e es)
    then show ?case using put [of "fst e" "snd e" "omap_of es"] by (cases e) (simp add: omap_of_snoc)
  qed (simp add: omap_of_def)
  from this [of ?es] show "length (committed_lsns m) \<le> length m" by (simp add: committed_lsns_def)
  show "committed_lsns m = [] \<longleftrightarrow> m = []"
  proof
    assume "committed_lsns m = []"
    with look have "map_of ?es = Map.empty" by (metis map_of.simps(1))
    then show "m = []" by simp
  qed (simp add: committed_lsns_def omap_of_def)
qed

text \<open>The largest key of a committed map; the index holds only the first fourteen bytes of it.\<close>

definition last_key :: "committed_map \<Rightarrow> bytes" where
  "last_key m = fst (last (committed_lsns m))"

lemma rooted_nonempty: "rooted lib fts pf m pf1 nx \<Longrightarrow> m \<noteq> []"
  by (auto simp: rooted_def PersistRootFromMap_def PersistRootImpl_def committed_lsns_def omap_of_def kLegacyMapRoot_def page_sizes)

section \<open>Persisting in spite of faults\<close>

text \<open>Pages that were appended with success are what an append without faults writes.\<close>

lemma budget_write_done: "budget_write ft pos blk fb = (fb1, True, ft1) \<Longrightarrow> budget_write NoFault pos blk fb = (fb1, True, NoFault)"
  by (auto simp: budget_write_def split: fault.splits if_splits)

lemma WriteStoredPage_done:
  "WriteStoredPage lib ft st pos data fb = (fb1, Inr n, ft1) \<Longrightarrow> WriteStoredPage lib NoFault st pos data fb = (fb1, Inr n, NoFault)"
  using budget_write_done [of ft pos "stored_image lib (pf_wrapped st) (pf_compress st) data" fb]
  by (cases "budget_write ft pos (stored_image lib (pf_wrapped st) (pf_compress st) data) fb")
    (auto simp: WriteStoredPage_def Let_def split: if_splits)

lemma append_loop_done:
  "append_loop lib ft st fb ps = (st1, fb1, ws, ft1) \<Longrightarrow> status_ok ws \<Longrightarrow> append_loop lib NoFault st fb ps = (st1, fb1, ws, NoFault)"
proof (induction lib ft st fb ps rule: append_loop.induct)
  case (2 lib ft st fb p ps)
  obtain fb2 r ft2 where w: "WriteStoredPage lib ft st (pf_next st) p fb = (fb2, r, ft2)" by (metis prod_cases3)
  show ?case
  proof (cases r)
    case (Inl e)
    then have "\<not> status_ok e" using w by (auto simp: WriteStoredPage_def Let_def status_defs split: prod.splits if_splits)
    then show ?thesis using 2(2,3) w Inl by simp
  next
    case (Inr n)
    then show ?thesis using 2 w WriteStoredPage_done [of lib ft st "pf_next st" p fb fb2 n ft2] by simp
  qed
qed simp

lemma SaveHeader_done: "pf_SaveHeader ft st = (st1, hs) \<Longrightarrow> status_ok hs \<Longrightarrow> pf_SaveHeader NoFault st = (st1, hs)"
  using budget_write_done [of ft 0 "page_file_header (pf_next st) (pf_wrapped st)" "case pf_file st of None \<Rightarrow> [] | Some fb \<Rightarrow> fb"]
  by (cases "budget_write ft 0 (page_file_header (pf_next st) (pf_wrapped st)) (case pf_file st of None \<Rightarrow> [] | Some fb \<Rightarrow> fb)")
    (auto simp: pf_SaveHeader_def Let_def status_defs split: if_splits)

lemma AppendPages_done:
  assumes "AppendPages lib ft st ps = (st1, Inr r)"
  shows "AppendPages lib NoFault st ps = (st1, Inr r)"
proof (cases "ps = []")
  case False
  let ?st = "if pf_compress st then st\<lparr>pf_wrapped := True\<rparr> else st"
  let ?fb = "case pf_file ?st of None \<Rightarrow> page_file_header kPageFileHeaderSize False @ replicate (kPageFileHeaderSize - 24) 0 | Some fb \<Rightarrow> fb"
  have o1: "ft \<noteq> OpenFails" using assms False by (auto simp: AppendPages_def)
  obtain st2 fb2 ws ft2 where l: "append_loop lib ft ?st ?fb ps = (st2, fb2, ws, ft2)" by (metis prod_cases4)
  obtain st4 hs where h: "pf_SaveHeader ft2 (st2\<lparr>pf_file := Some fb2\<rparr>) = (st4, hs)" by fastforce
  have ok: "status_ok ws" "status_ok hs" "st1 = st4" "r = pf_next st"
    using assms False o1 l h by (simp_all add: AppendPages_def Let_def del: if_split split: if_split_asm)
  show ?thesis
    using False append_loop_done [OF l ok(1)] SaveHeader_done [OF h ok(2)] ok by (simp add: AppendPages_def Let_def del: if_split)
qed (use assms in \<open>simp add: AppendPages_def\<close>)

lemma append_pages_done: "append_pages lib fts pf ps = (pf1, fts1, Inr r) \<Longrightarrow> append_pages lib [] pf ps = (pf1, [], Inr r)"
  using AppendPages_done [of lib "fst (next_fault fts)" pf ps]
  by (auto simp: append_pages_def next_fault_def split: prod.splits)

lemma build_level_done: "build_level lib bt source fts pf cs = (pf1, fts1, Inr level) \<Longrightarrow> build_level lib bt source [] pf cs = (pf1, [], Inr level)"
proof (induction lib bt source fts pf cs arbitrary: pf1 fts1 level rule: build_level.induct)
  case (1 lib bt source fts pf cs)
  show ?case
  proof (cases "cs = []")
    case True
    then show ?thesis using "1.prems" by (simp add: build_level.simps [of _ _ _ _ _ "[]"])
  next
    case False
    let ?ps = "[SerializeInternalPage bt (take kInternalMaxEntries cs) source]"
    obtain pf2 fts2 off where a: "append_pages lib fts pf ?ps = (pf2, fts2, Inr off)"
      using "1.prems" False by (auto simp: build_level.simps [of _ _ _ _ _ cs] Let_def split: prod.splits sum.splits)
    obtain lv where b: "build_level lib bt source fts2 pf2 (drop kInternalMaxEntries cs) = (pf1, fts1, Inr lv)"
      "level = (fst (hd (take kInternalMaxEntries cs)), off) # lv"
      using "1.prems" False a by (auto simp: build_level.simps [of _ _ _ _ _ cs] Let_def split: prod.splits sum.splits)
    from "1.IH" [OF False refl a [symmetric] refl refl b(1)] append_pages_done [OF a] b(2) False show ?thesis
      by (simp add: build_level.simps [of _ _ _ _ _ cs] Let_def)
  qed
qed

lemma BuildInternalRoot_done: "BuildInternalRoot lib bt source fts pf cs = (pf1, Inr root) \<Longrightarrow> BuildInternalRoot lib bt source [] pf cs = (pf1, Inr root)"
proof (induction lib bt source fts pf cs arbitrary: pf1 root rule: BuildInternalRoot.induct)
  case (1 lib bt source fts pf cs)
  consider "length cs \<le> 1" | "1 < length cs" "length cs \<le> kInternalMaxEntries" | "1 < length cs" "kInternalMaxEntries < length cs" by linarith
  then show ?case
  proof cases
    case 2
    then show ?thesis using "1.prems" append_pages_done [of lib fts pf "[SerializeInternalPage bt cs source]"]
      by (auto simp: BuildInternalRoot.simps [of _ _ _ _ _ cs] split: prod.splits)
  next
    case 3
    then obtain pf2 fts2 level where b: "build_level lib bt source fts pf cs = (pf2, fts2, Inr level)"
      "BuildInternalRoot lib bt source fts2 pf2 level = (pf1, Inr root)"
      using "1.prems" by (auto simp: BuildInternalRoot.simps [of _ _ _ _ _ cs] split: prod.splits sum.splits)
    from 3 have n: "\<not> length cs \<le> 1" "\<not> length cs \<le> kInternalMaxEntries" by simp_all
    from "1.IH" [OF n b(1) [symmetric] refl refl b(2)] build_level_done [OF b(1)] n show ?thesis
      by (simp add: BuildInternalRoot.simps [of _ _ _ _ _ cs])
  qed (use "1.prems" in \<open>auto simp: BuildInternalRoot.simps [of _ _ _ _ _ cs]\<close>)
qed

lemma Persist_done:
  assumes "PersistRootFromMap lib fts pf bt source = Some (pf1, bt1, Inr root)"
  shows "PersistRootFromMap lib [] pf bt source = Some (pf1, bt1, Inr root)"
proof (cases "source = []")
  case False
  obtain pages where pages: "leaf_pages bt source source = Some pages"
    using assms False by (cases "leaf_pages bt source source") (simp_all add: PersistRootFromMap_def PersistRootImpl_def)
  let ?ps = "link_pages (pf_next pf) (map fst pages)"
  obtain pf2 fts2 a where a: "append_pages lib fts pf ?ps = (pf2, fts2, a)" by (metis prod_cases3)
  obtain off where off: "a = Inr off"
    using assms False pages a by (cases a) (simp_all add: PersistRootFromMap_def PersistRootImpl_def)
  obtain pf3 b where b: "(if 1 < length pages then BuildInternalRoot lib bt source fts2 pf2 (leaf_refs off (map snd pages))
      else (pf2, Inr off)) = (pf3, b)" by fastforce
  have "b = Inr root" and r: "pf1 = pf3" "bt1 = bt\<lparr>bt_root := root, bt_index := [], bt_deleted := {}, bt_on_disk := True\<rparr>"
    using assms False pages a off b by (auto simp: PersistRootFromMap_def PersistRootImpl_def split: sum.splits)
  then have "(if 1 < length pages then BuildInternalRoot lib bt source [] pf2 (leaf_refs off (map snd pages))
      else (pf2, Inr off)) = (pf3, Inr root)"
    using b BuildInternalRoot_done [of lib bt source fts2 pf2] by (auto split: if_splits)
  then show ?thesis
    using False pages append_pages_done [OF a [unfolded off]] r by (simp add: PersistRootFromMap_def PersistRootImpl_def)
qed (use assms in \<open>simp add: PersistRootFromMap_def PersistRootImpl_def\<close>)

lemma rooted_done: "rooted lib fts pf m pf1 nx \<Longrightarrow> rooted lib [] pf m pf1 nx"
  unfolding rooted_def using Persist_done by blast

lemma loaded_root:
  assumes "status_ok (snd (LoadRoot (page_view lib pf) bt root))" "disk_ok pf" "kPageFileHeaderSize \<le> root"
  shows "\<exists>hdr. ReadPageHeader (page_view lib pf) root = Inr hdr"
proof (cases "ReadPageHeader (page_view lib pf) root")
  case (Inl e)
  have "\<not> pf_wrapped pf" using assms(2) by (simp add: disk_ok_def raw_ok_def)
  then have "\<not> status_ok e"
    using Inl by (auto simp: ReadPageHeader_def page_view_def stored_page_def status_defs Let_def split: if_splits)
  then show ?thesis using Inl assms(1,3) by (simp add: LoadRoot_def)
qed blast

lemma index_on_disk:
  assumes "rooted lib [] pf m pf1 nx" "raw_ok pf" "distinct (map fst m)"
    and "pf_next pf + 2 * length m * kPageSize \<le> 2 ^ 32"
  obtains root where "disk_ok pf1" "kPageFileHeaderSize \<le> root" "unat (sc_active_root (sb_critical nx)) = root"
    "\<exists>hdr. ReadPageHeader (page_view lib pf1) root = Inr hdr"
    "\<And>key v l. map_of m key = Some (v, l) \<Longrightarrow> key \<le> take kPageSummaryKeyBytes (last_key m) \<Longrightarrow>
       GetFromDiskAt (page_view lib pf1) key root = Some (Inr l)"
proof -
  let ?src = "committed_lsns m"
  note src = committed_lsns_props [OF assms(3)]
  obtain bt bt2 root where p: "PersistRootFromMap lib [] pf bt ?src = Some (pf1, bt2, Inr root)" "kPageFileHeaderSize \<le> root"
    "status_ok (snd (LoadRoot (page_view lib pf1) bt2 root))" "sc_active_root (sb_critical nx) = word_of_nat root"
    using assms(1) unfolding rooted_def by blast
  have ne: "?src \<noteq> []" using src(4) rooted_nonempty [OF assms(1)] by simp
  have "leaf_pages bt ?src ?src \<noteq> None"
    using p(1) ne by (cases "leaf_pages bt ?src ?src") (simp_all add: PersistRootFromMap_def PersistRootImpl_def)
  then have fits: "\<forall>e \<in> set ?src. key_fits (fst e)" using leaf_pages_returns_fits by blast
  have "2 * length ?src * kPageSize \<le> 2 * length m * kPageSize" using src(3) by (intro mult_le_mono) auto
  then have room: "pf_next pf + 2 * length ?src * kPageSize \<le> 2 ^ 32" using assms(4) by linarith
  from lookups.persist_good [OF assms(2) ne src(1) fits room, of lib bt] p(1) have
    r: "disk_ok pf1" "child_ok (fst (hd ?src), root)" "node_good ?src (committed_view lib pf1) root (fst (hd ?src))"
    by (auto simp: PersistRootFromMap_def)
  have "root < 2 ^ 64" using r(2) by (simp add: child_ok_def)
  then have u: "unat (sc_active_root (sb_critical nx)) = root" using p(4) by (simp add: unat_of_nat)
  have "GetFromDiskAt (page_view lib pf1) key root = Some (Inr l)"
    if k: "map_of m key = Some (v, l)" "key \<le> take kPageSummaryKeyBytes (last_key m)" for key v l
  proof -
    obtain a where a: "GetFromDiskAt (page_view lib pf1) key root = Some a"
      "answers (if key < fst (hd ?src) then None else answer ?src key) a"
      using r(3) committed_le_page_view [OF r(1)] unfolding node_good_def by blast
    have l: "map_of ?src key = Some l" using src(2) k(1) by simp
    then have "\<not> key < fst (hd ?src)"
      using sorted_hd_le [OF src(1)] by (auto dest!: map_of_SomeD simp: not_less)
    moreover have "answer ?src key = Some l" using l k(2) by (simp add: answer_def last_key_def not_less)
    ultimately show ?thesis using a by (simp add: answers_def)
  qed
  with that [OF r(1) p(2) u loaded_root [OF p(3) r(1) p(2)]] show thesis by blast
qed

section \<open>Reopening without the values\<close>

text \<open>What a lazily reopened shard looks like, for the reads that follow.\<close>

definition reopened :: "lzma_lib \<Rightarrow> (nat \<Rightarrow> bytes res) \<Rightarrow> nat \<Rightarrow> datafile \<Rightarrow> u64 \<Rightarrow> shard \<Rightarrow> bool" where
  "reopened lib view root df last_lsn s \<longleftrightarrow> page_view lib (sh_pages s) = view \<and> bt_deleted (sh_btree s) = {}
     \<and> bt_index (sh_btree s) = [] \<and> bt_on_disk (sh_btree s) \<and> bt_root (sh_btree s) = root \<and> sh_data s = df \<and> sh_stable s = last_lsn
     \<and> last_lsn \<le> summary_lsn s \<and> MemTablesEmpty s \<and> sh_committed s = [] \<and> \<not> sh_pending s \<and> rm_reclaim (sh_gc s) = 0xFF"

lemma reopen_lazy:
  assumes "eo_lazy_committed_load opts" "\<not> eo_compress_pages opts" "fl_wal fl = Some wal_magic_bytes" "fl_gc fl = None"
    and "Load (fl_super fl) = Inr nx" "disk_ok pf" "fl_pages fl = pf_file pf" "kPageFileHeaderSize \<le> root"
    and "unat (sc_active_root (sb_critical nx)) = root" "ReadPageHeader (page_view lib pf) root = Inr hdr"
  shows "\<exists>s. shard_Open lib mapping opts fl v = Inr s \<and>
    reopened lib (page_view lib pf) root (BuildLsnIndex (sh_data (new_shard opts fl)) (fl_didx fl)) (sc_data_lsn (sb_critical nx)) s"
proof -
  define s1 where "s1 = (new_shard opts fl)\<lparr>sh_sb := nx, sh_stable := sc_data_lsn (sb_critical nx), sh_wal_corrupt := False,
    sh_committed := [], sh_data := BuildLsnIndex (sh_data (new_shard opts fl)) (fl_didx fl)\<rparr>"
  have view: "page_view lib (sh_pages s1) = page_view lib pf"
    using reopened_view [OF assms(6)] assms(2,7) by (simp add: s1_def new_shard_def)
  obtain bt where bt: "LoadRoot (pages_of lib s1) (sh_btree s1) root = (bt, Status_Ok)" "bt_deleted bt = {}" "bt_index bt = []"
    "bt_on_disk bt" "bt_root bt = root"
    using assms(8,10) by (simp add: LoadRoot_def view)
  let ?s = "finish_recovery nx (set_mode False (s1\<lparr>sh_btree := EnsureSummaryLsnAtLeast (sh_stable s1) bt\<rparr>))"
  have "Recover lib mapping (new_shard opts fl) = recover_lazy lib mapping nx
      ((new_shard opts fl)\<lparr>sh_sb := nx, sh_stable := sc_data_lsn (sb_critical nx), sh_wal_corrupt := False\<rparr>)"
    using assms(1,3,5) empty_log by (simp add: Recover_def RecoverFromSuperBlock_def new_shard_def)
  also have "\<dots> = (?s, Status_Ok)"
  proof -
    have "((new_shard opts fl)\<lparr>sh_sb := nx, sh_stable := sc_data_lsn (sb_critical nx), sh_wal_corrupt := False\<rparr>)
        \<lparr>sh_committed := [], sh_data := BuildLsnIndex (sh_data (new_shard opts fl)) (fl_didx fl)\<rparr> = s1"
      by (simp add: s1_def)
    then show ?thesis
      using bt(1) assms(8,9) by (simp add: recover_lazy_def Let_def status_ok_Ok new_shard_def)
  qed
  finally have open_: "shard_Open lib mapping opts fl v = Inr (?s\<lparr>sh_wal := EnsureMinLsn (sh_wal ?s) (checkpoint_lsn ?s), sh_vcs := Some v,
      sh_sidecar := fst (sc_LoadFromFile (sh_txidx ?s) (sh_sidecar ?s)), sh_opened := True\<rparr>)"
    by (simp add: shard_Open_def status_ok_Ok)
  have "wal_disk s1 = Some wal_magic_bytes" using assms(3) empty_log by (simp add: s1_def new_shard_def)
  then have "sh_mem ?s = [] \<and> \<not> sh_pending ?s"
    using empty_log assms(3) by (simp add: finish_recovery_def set_mode_def RefreshRecoveryState_def Let_def HasPending_def s1_def new_shard_def)
  moreover have "sh_imm ?s = []" "sh_flushing ?s = []" "sh_committed ?s = []" "sh_data ?s = sh_data s1" "sh_stable ?s = sh_stable s1"
    "sh_pages ?s = sh_pages s1" "sh_gc ?s = sh_gc s1" "sh_btree ?s = EnsureSummaryLsnAtLeast (sh_stable s1) bt"
    by (simp_all add: finish_recovery_def set_mode_def RefreshRecoveryState_def Let_def s1_def new_shard_def)
  moreover have "rm_reclaim (sh_gc s1) = 0xFF"
    by (simp add: s1_def new_shard_def gc_Load_elect gc_reset_def RegionManager_init_def assms(4))
  ultimately show ?thesis
    using bt view unfolding open_ by (auto simp: reopened_def MemTablesEmpty_def mem_Empty_def EnsureSummaryLsnAtLeast_def s1_def)
qed

lemma get_reopened:
  assumes "reopened lib view root df last_lsn s" "key \<noteq> []" "GetFromDiskAt view key root = Some (Inr lsn)" "lsn \<le> last_lsn"
    and "kPageFileHeaderSize \<le> root" "ReadByLsn lib df lsn 0xFF = Inr value"
  shows "shard_Get lib s key = Some (s, Inr value)"
proof -
  note r = assms(1) [unfolded reopened_def]
  have "bt_Get (pages_of lib s) (sh_btree s) key = Some (Inr lsn)" using r assms(3,5) by (simp add: bt_Get_def)
  moreover have "read_tables s key ctx = None" for ctx
    using r by (simp add: read_tables_def LookupMemTable_def MemTablesEmpty_def mem_Empty_def mem_Get_def)
  moreover have "read_committed s key ctx = None" for ctx using r by (simp add: read_committed_def)
  ultimately have "ReadVisible lib s key (sh_stable s) = Some (Inr value)"
    using r assms(4,6) by (simp add: ResolveAtSnapshot_def ReadValueByLsn_def final_read_def)
  then show ?thesis
    using r assms(2) by (simp add: shard_Get_def Prepare_def status_ok_Ok not_less)
qed


text \<open>
  On a system without the mapped loader (every build but the Windows one) a shard whose data file is not empty
  cannot be reopened with \<open>lazy_committed_load\<close> off: whatever the files hold, the open fails with the status of the
  mapping.
\<close>

theorem unmapped_reopen_fails:
  assumes "fl_data fl = Some fb" "fb \<noteq> []" "\<not> eo_lazy_committed_load opts" "Load (fl_super fl) = Inr sb"
  shows "shard_Open lib False opts fl v = Inl (Status_IoError ''mmap not supported on this platform'')"
proof -
  have f: "LoadDatafileMmap lib False (sh_data (new_shard opts fl)) cap byte_cap rg out mx
      = ((out, mx), Status_IoError ''mmap not supported on this platform'')" for cap byte_cap rg out mx
    using assms(1,2) by (simp add: LoadDatafileMmap_def new_shard_def df_content_def)
  have "sh_super (new_shard opts fl) = fl_super fl" "sh_opts (new_shard opts fl) = opts" by (simp_all add: new_shard_def)
  then show ?thesis
    using assms(3,4)
    by (auto simp: shard_Open_def Recover_def RecoverFromSuperBlock_def LoadDatafileOnRecover_def load_without_wal_def f
       status_defs Let_def split: prod.splits)
qed

section \<open>Checkpoints that cannot succeed\<close>

lemma commit_needs_committed:
  assumes "CommitSuperBlockInternal lib fts ft s = Some (s1, st)" "sh_committed s = []" "\<not> sh_root_corrupt s"
  shows "st = Status_InvalidArgument ''invalid root offset'' \<and> sh_super s1 = sh_super s"
  using assms
  by (auto simp: CommitSuperBlockInternal_def PersistRootFromMap_def PersistRootImpl_def committed_lsns_def omap_of_def
      LoadRoot_def kLegacyMapRoot_def page_sizes status_defs Let_def)

lemma MaybeGcSwap_frame: "\<exists>g. fst (MaybeGcSwap addr ft s) = s\<lparr>sh_gc := g\<rparr>"
proof -
  have "fst (MaybeGcSwap addr ft s) = s \<or> (\<exists>g. fst (MaybeGcSwap addr ft s) = s\<lparr>sh_gc := g\<rparr>)"
    by (auto simp: MaybeGcSwap_def Let_def split_beta)
  moreover have "s = s\<lparr>sh_gc := sh_gc s\<rparr>" by simp
  ultimately show ?thesis by metis
qed

lemma FlushInternal_empty:
  assumes "FlushInternal lib env s = Some (s1, st)" "sh_flushing s = []"
  shows "sh_super s1 = sh_super s \<and> sh_committed s1 = sh_committed s \<and> sh_root_corrupt s1 = sh_root_corrupt s"
proof -
  obtain g where g: "fst (MaybeGcSwap (fe_hdr_addr env) (fe_gc env) s) = s\<lparr>sh_gc := g\<rparr>" using MaybeGcSwap_frame by blast
  obtain c st' where c: "Flush lib (pages_of lib s) (fe_sync env) (fe_appends env) (flush_context (s\<lparr>sh_gc := g\<rparr>)) = Some (c, st')"
    "s1 = after_flush c (s\<lparr>sh_gc := g\<rparr>)" using assms(1) g by (auto simp: FlushInternal_def Let_def)
  then have "fc_committed c = sh_committed s"
    using assms(2) by (auto simp: Flush_alt Let_def flush_context_def mem_Snapshot_def split: if_splits)
  with c(2) show ?thesis by (simp add: after_flush_def)
qed

lemma commit_fails:
  assumes "checkpoint_commit lib env s = Some (s1, st)" "sh_committed s = []" "\<not> sh_root_corrupt s"
  shows "\<not> status_ok st \<and> sh_super s1 = sh_super s"
proof -
  obtain a fold where a: "FoldWalToVcs s = (a, fold)" by fastforce
  obtain b tl where b: "AppendTLogSnapshot (fst (ce_tlog env)) (snd (ce_tlog env)) (ce_clock env) (ce_wall env) a = (b, tl)" by fastforce
  have eq: "sh_super a = sh_super s" "sh_super b = sh_super s" "sh_committed b = []" "\<not> sh_root_corrupt b"
    using FoldWalToVcs_frame [OF a] AppendTLogSnapshot_frame [OF b] assms(2,3) by auto
  show ?thesis
  proof (cases "CommitSuperBlockInternal lib (ce_pages env) (ce_super env) b")
    case None
    then show ?thesis using assms(1) a b eq(1,2)
      by (auto simp: checkpoint_commit_def interrupted_def status_defs split: if_splits)
  next
    case (Some r)
    then obtain c cs where c: "CommitSuperBlockInternal lib (ce_pages env) (ce_super env) b = Some (c, cs)" by (cases r) auto
    from commit_needs_committed [OF c eq(3,4)] show ?thesis using assms(1) a b c eq(1,2)
      by (auto simp: checkpoint_commit_def interrupted_def status_defs split: if_splits)
  qed
qed

text \<open>
  A checkpoint with nothing in the committed map fails, whatever the data file holds: on a shard whose committed map and
  memtable are empty, such as one just opened lazily, or one whose keys were all deleted, no checkpoint reports success,
  and the superblock stays as it was, because \<open>PersistRootImpl\<close> answers an empty map with a root that
  \<open>LoadRoot\<close> refuses.
\<close>

theorem empty_checkpoint_fails:
  assumes "sh_committed s = []" "sh_mem s = []" "\<not> sh_pending s" "\<not> sh_root_corrupt s" "Checkpoint lib env s = Some (s1, st)"
  shows "\<not> status_ok st \<and> sh_super s1 = sh_super s"
proof -
  obtain a fp where a: "shard_FlushPending (ce_pending_sync env) s = (a, fp)" by fastforce
  obtain b gc where b: "(if eo_durability (sh_opts a) = KGroup then GroupCommitRule (ce_group_sync env) a else (a, Status_Ok)) = (b, gc)"
    by fastforce
  have rep: "EnsureWalReplayed s = (s, Status_Ok)" using assms(3) by (simp add: EnsureWalReplayed_def)
  have aa: "sh_super a = sh_super s" "sh_committed a = []" "sh_mem a = []" "\<not> sh_root_corrupt a"
    using pending_frame [OF a] assms(1,2,4) by auto
  have bb: "sh_super b = sh_super s" "sh_committed b = []" "sh_mem b = []" "\<not> sh_root_corrupt b"
    using b GroupCommit_frame [of "ce_group_sync env" a b gc] aa by (auto split: if_splits)
  let ?f = "FlushInternal lib (ce_flush env) (RotateMemTableForFlush b)"
  show ?thesis
  proof (cases "status_ok fp \<and> status_ok gc")
    case False
    then show ?thesis using assms(5) rep a b aa(1) bb(1) by (auto simp: Checkpoint_def Let_def status_ok_Ok split: if_splits)
  next
    case True
    then have "Checkpoint lib env s = Option.bind ?f (\<lambda>(s4, fl).
      if \<not> status_ok fl then Some (s4, fl) else if ce_hook env AfterFlush then interrupted s4 else checkpoint_commit lib env s4)"
      using rep a b by (simp add: Checkpoint_def status_ok_Ok)
    with assms(5) obtain s4 fl where f: "?f = Some (s4, fl)" "(if \<not> status_ok fl then Some (s4, fl)
        else if ce_hook env AfterFlush then interrupted s4 else checkpoint_commit lib env s4) = Some (s1, st)"
      by (cases ?f) auto
    have "sh_super s4 = sh_super s \<and> sh_committed s4 = [] \<and> \<not> sh_root_corrupt s4"
      using FlushInternal_empty [OF f(1)] bb by (simp add: RotateMemTableForFlush_def mem_Swap_def)
    with f(2) commit_fails [of lib env s4 s1 st] show ?thesis by (auto simp: interrupted_def status_defs split: if_splits)
  qed
qed

section \<open>A concrete checkpoint\<close>

definition full_shard :: shard where
  "full_shard = (demo_shard KBalancedClass)\<lparr>sh_data := append_write no_lzma DataFile_init old_write,
     sh_committed := [([1], [7], 1)], sh_stable := 1, sh_pages := PageFile_open None\<rparr>"

definition quiet_env :: checkpoint_env where
  "quiet_env = \<lparr>ce_pending_sync = True, ce_group_sync = True,
     ce_flush = \<lparr>fe_sync = True, fe_appends = [], fe_gc = NoFault, fe_hdr_addr = 0\<rparr>, ce_tlog = (NoFault, NoFault),
     ce_clock = \<lparr>ck_source = None, ck_active = False, ck_ts = 0\<rparr>, ce_wall = 9, ce_pages = [], ce_super = NoFault, ce_hook = (\<lambda>_. False)\<rparr>"

lemma load_root_ok:
  assumes "GetFromDiskAt read key root = Some (Inr l)" "kPageFileHeaderSize \<le> root"
  shows "\<exists>bt1. LoadRoot read bt root = (bt1, Status_Ok)"
proof -
  have "\<exists>hdr. ReadPageHeader read root = Inr hdr"
    using assms(1) by (cases "ReadPageHeader read root") (simp_all add: GetFromDiskAt.simps [of _ _ root])
  with assms(2) show ?thesis by (auto simp: LoadRoot_def)
qed

lemma persist_one:
  "\<exists>pf bt2 root bt3. PersistRootFromMap no_lzma [] (PageFile_open None) bt [([1], 1)] = Some (pf, bt2, Inr root)
    \<and> LoadRoot (page_view no_lzma pf) bt2 root = (bt3, Status_Ok)"
proof -
  have "sorted_wrt (<) (map fst [([1 :: u8], 1 :: u64)])" "\<forall>e \<in> set [([1 :: u8], 1 :: u64)]. key_fits (fst e)"
    "pf_next (PageFile_open None) + 2 * length [([1 :: u8], 1 :: u64)] * kPageSize \<le> 2 ^ 32"
    by (simp_all add: key_fits_def page_sizes kPageHeader_def fresh_next)
  from lookups.persist_good [OF fresh_raw_ok _ this, of no_lzma bt] obtain pf bt2 root where
    p: "PersistRootImpl no_lzma [] (PageFile_open None) bt [([1], 1)] = Some (pf, bt2, Inr root)" "disk_ok pf"
      "kPageFileHeaderSize \<le> root" "node_good [([1], 1)] (committed_view no_lzma pf) root [1]"
    by (auto simp: child_ok_def)
  have "answer [([1], 1)] [1] = Some 1" by (simp add: answer_def kPageSummaryKeyBytes_def)
  moreover obtain r where "GetFromDiskAt (page_view no_lzma pf) [1] root = Some r"
    "answers (if [1 :: u8] < [1] then None else answer [([1], 1)] [1]) r"
    using p(4) committed_le_page_view [OF p(2)] unfolding node_good_def by blast
  ultimately have "GetFromDiskAt (page_view no_lzma pf) [1] root = Some (Inr 1)"
    by (simp add: answers_def)
  from load_root_ok [OF this p(3), of bt2] p(1) show ?thesis by (auto simp: PersistRootFromMap_def)
qed

lemma full_shard_simps [simp]:
  "\<not> sh_pending full_shard" "eo_durability (sh_opts full_shard) = KBalancedClass" "sh_mem full_shard = []"
  "sh_vcs full_shard = None" "sh_pages full_shard = PageFile_open None" "\<not> sh_root_corrupt full_shard"
  "eo_gc_reclaim_threshold_bytes (sh_opts full_shard) = 0" "sh_super full_shard = None" "sh_wal full_shard = WalWriter_open None"
  "sh_committed full_shard = [([1], [7], 1)]" "rm_file (sh_gc full_shard) = None"
  by (simp_all add: full_shard_def demo_shard_def new_shard_def default_options_def gc_Load_elect gc_reset_def RegionManager_init_def)

lemma files_ok_full: "files_ok full_shard [] [old_write]"
proof -
  have app: "append_write no_lzma DataFile_init old_write = fst (df_Append NoFault no_lzma DataFile_init 1 [1] [7] False 0)"
    by (simp add: append_write_def old_write_def)
  have "status_ok (snd (df_Append NoFault no_lzma DataFile_init 1 [1] [7] False 0))"
    by (simp add: df_Append_def Let_def status_defs split: prod.split)
  then have log: "data_log (append_write no_lzma DataFile_init old_write) ([] @ [old_write])"
    using data_log_append [OF data_log_init, of old_write NoFault no_lzma]
    by (cases "df_Append NoFault no_lzma DataFile_init (dw_lsn old_write) (dw_key old_write) (dw_value old_write) (dw_deleted old_write) (dw_gen old_write)")
      (auto simp: append_write_def old_write_def small_def)
  have "indexed (append_write no_lzma DataFile_init old_write) ([] @ [old_write])"
    by (rule indexed_append [OF data_log_init indexed_init]) simp
  with log have "in_step (sh_data full_shard) (sh_committed full_shard) (sh_stable full_shard) [old_write]"
    by (simp add: in_step_def full_shard_def old_write_def write_effect.simps fun_eq_iff)
  then show ?thesis
    by (simp add: files_ok_def writer_ok_create fresh_raw_ok old_write_def
        Commit_current_def Load_def sb_epoch_def SuperBlock_init_def SuperBlockCritical_init_def)
qed

lemma commit_one:
  assumes "sh_pages s = PageFile_open None" "sh_committed s = [([1], v, 1)]" "sh_super s = None" "\<not> sh_root_corrupt s"
  shows "\<exists>s1. CommitSuperBlockInternal no_lzma [] NoFault s = Some (s1, Status_Ok)"
proof -
  let ?bt = "EnsureSummaryLsnAtLeast (sh_stable s) (RebuildSummaryFromCommitted [([1], 1)] (sh_btree s))"
  have m: "committed_lsns (sh_committed s) = [([1], 1)]"
    by (simp add: assms(2) committed_lsns_def omap_of_def)
  obtain pf bt2 root bt3 where p: "PersistRootFromMap no_lzma [] (PageFile_open None) ?bt [([1], 1)] = Some (pf, bt2, Inr root)"
    "LoadRoot (page_view no_lzma pf) bt2 root = (bt3, Status_Ok)" using persist_one by blast
  let ?sb = "next_block s (Commit_current None) (ww_max_lsn (sh_wal s)) (word_of_nat root)"
  have "sc_magic (sb_critical ?sb) = kSuperBlockMagic" "sb_epoch ?sb \<le> sb_epoch (Commit_current None)"
    "unat (sb_epoch (Commit_current None)) + 1 < 2 ^ 64"
    by (simp_all add: next_block_def Commit_current_magic sb_epoch_def)
      (simp add: Commit_current_def Load_def SuperBlock_init_def SuperBlockCritical_init_def)
  from Commit_in_force [OF super_inv_None this] obtain fl' where "Commit NoFault None ?sb = (fl', Status_Ok)" by blast
  with p assms m show ?thesis by (simp add: CommitSuperBlockInternal_def commit_block_def status_ok_Ok)
qed

lemma full_checkpoint: "\<exists>s1. Checkpoint no_lzma quiet_env full_shard = Some (s1, Status_Ok)
  \<and> sh_committed s1 = [([1], [7], 1)] \<and> sh_data s1 = sh_data full_shard"
proof -
  have rep: "EnsureWalReplayed full_shard = (full_shard, Status_Ok)" by (simp add: EnsureWalReplayed_def)
  have fp: "shard_FlushPending True full_shard = (full_shard, Status_Ok)"
    by (simp add: shard_FlushPending_def FlushPending_empty shard_pipeline_def after_pipeline_def)
  have rot: "RotateMemTableForFlush full_shard = full_shard"
    by (simp add: RotateMemTableForFlush_def mem_Swap_def full_shard_def demo_shard_def new_shard_def)
  have gc: "MaybeGcSwap addr ft full_shard = (full_shard, Status_Ok)" for addr ft by (simp add: MaybeGcSwap_def)
  have "fc_frozen (flush_context full_shard) = []"
    by (simp add: flush_context_def full_shard_def demo_shard_def new_shard_def)
  then have "Flush no_lzma read True [] (flush_context full_shard) = Some ((flush_context full_shard)
      \<lparr>fc_wal := wal_Fsync (fc_wal (flush_context full_shard)), fc_frozen := [], fc_flush_total := fc_flush_total (flush_context full_shard) + 1\<rparr>,
      Status_Ok)" for read
    by (simp add: Flush_alt mem_Snapshot_def mem_Clear_def status_ok_Ok Let_def)
  then obtain s4 where f: "FlushInternal no_lzma (ce_flush quiet_env) full_shard = Some (s4, Status_Ok)"
    "sh_vcs s4 = None" "sh_pages s4 = PageFile_open None" "sh_committed s4 = [([1], [7], 1)]" "sh_super s4 = None" "\<not> sh_root_corrupt s4"
    "sh_data s4 = sh_data full_shard"
    by (auto simp: FlushInternal_def gc quiet_env_def after_flush_def flush_context_def)
  have fold: "FoldWalToVcs s4 = (s4, Status_Ok)" by (simp add: FoldWalToVcs_def f(2))
  obtain s5 where t: "AppendTLogSnapshot NoFault NoFault (ce_clock quiet_env) 9 s4 = (s5, Status_Ok)"
    by (auto simp: AppendTLogSnapshot_def AppendSnapshot_def append_to_def Let_def)
  have s5: "sh_pages s5 = PageFile_open None" "sh_committed s5 = [([1], [7], 1)]" "sh_super s5 = None" "\<not> sh_root_corrupt s5"
    "sh_data s5 = sh_data full_shard"
    using AppendTLogSnapshot_frame [OF t] f by auto
  from commit_one [OF s5(1-4)] obtain s6 where c: "CommitSuperBlockInternal no_lzma [] NoFault s5 = Some (s6, Status_Ok)" by blast
  have s6: "same_data s5 s6"
    using CommitSuperBlock_ok [OF _ _ s5(4) c] files_ok_full s5(3) by (auto simp: files_ok_def status_ok_Ok)
  obtain s7 where d: "checkpoint_done (\<lambda>_. False) s6 = Some (s7, Status_Ok)"
    by (auto simp: checkpoint_done_def Let_def)
  have "same_data s6 s7" using checkpoint_done_ok [OF d status_ok_Ok] by simp
  with s6 s5(2,5) have s7: "sh_committed s7 = [([1], [7], 1)]" "sh_data s7 = sh_data full_shard" by (simp_all add: same_data_def)
  have env: "ce_tlog quiet_env = (NoFault, NoFault)" "ce_pages quiet_env = []" "ce_super quiet_env = NoFault" "ce_wall quiet_env = 9"
    "ce_hook quiet_env = (\<lambda>_. False)" "ce_pending_sync quiet_env = True" by (simp_all add: quiet_env_def)
  have "checkpoint_commit no_lzma quiet_env s4 = Some (s7, Status_Ok)"
    using fold t c d by (simp add: checkpoint_commit_def env status_ok_Ok)
  with rep fp rot f(1) s7 show ?thesis by (simp add: Checkpoint_def env status_ok_Ok)
qed


theorem unmapped_reopen_fails_witness:
  "shard_Open no_lzma False default_options (files_of full_shard) empty_vcs
     = Inl (Status_IoError ''mmap not supported on this platform'')"
proof -
  obtain fb where fb: "df_bytes (append_write no_lzma DataFile_init old_write) = Some fb" "fb \<noteq> []"
    using append_writes_content [of DataFile_init no_lzma "[old_write]"]
    by (auto simp: DataFile_init_def df_content_def enc_rec_def enc_hdr_def hdr_body_def put_u64_def)
  then have "fl_data (files_of full_shard) = Some fb" by (simp add: files_of_def full_shard_def)
  moreover have "Load (fl_super (files_of full_shard)) = Inr SuperBlock_init" by (simp add: files_of_def Load_def)
  ultimately show ?thesis using unmapped_reopen_fails [where fl = "files_of full_shard" and fb = fb and opts = default_options and sb = SuperBlock_init and lib = no_lzma and v = empty_vcs] fb(2)
    by (simp add: default_options_def)
qed

theorem empty_checkpoint_fails_witness:
  "\<nexists>s1. Checkpoint no_lzma quiet_env (demo_shard KBalancedClass) = Some (s1, Status_Ok)"
proof
  assume "\<exists>s1. Checkpoint no_lzma quiet_env (demo_shard KBalancedClass) = Some (s1, Status_Ok)"
  then obtain s1 where "Checkpoint no_lzma quiet_env (demo_shard KBalancedClass) = Some (s1, Status_Ok)" by blast
  from empty_checkpoint_fails [OF _ _ _ _ this] show False
    by (simp add: demo_shard_def new_shard_def status_ok_Ok)
qed

end
