(* ===== verification/SqlText.thy ===== *)
theory SqlText
  imports Prelude "HOL-Library.Char_ord" "HOL-Library.Sublist"
begin

text \<open>
  The text functions the SQL layer is written with.

  \<^item> A \<open>std::string\<close> of the SQL layer is a \<open>string\<close>; its \<open>operator<\<close> compares unsigned characters
    lexicographically, which is the order of \<open>Char_ord\<close> and \<open>List_Lexorder\<close>.
  \<^item> Character classes are those of \<open>std::isspace\<close>, \<open>std::isdigit\<close> and \<open>std::toupper\<close> in the C
    locale (the program never sets another one).
  \<^item> \<open>find_str\<close> is \<open>std::string::find\<close>, \<open>dec_nat\<close> and \<open>dec_int\<close> are \<open>std::to_string\<close>, \<open>stoll\<close> and
    \<open>stoul\<close> are \<open>std::stoll\<close> and \<open>std::stoul\<close> with \<open>None\<close> for the exception they throw, \<open>strtoll\<close>
    is \<open>std::strtoll\<close> in base 10 on a platform with 64-bit \<open>long\<close>.
  \<^item> \<open>Upper\<close>, \<open>Trim\<close>, \<open>UnquoteToken\<close> and the other helpers of
    \<^verbatim>\<open>sql/parse/shared/parse_shared.cc\<close>.
\<close>

section \<open>Characters\<close>

abbreviation code_of :: "char \<Rightarrow> nat" where "code_of c \<equiv> of_char c"

definition is_space :: "char \<Rightarrow> bool" where
  "is_space c \<longleftrightarrow> code_of c = 32 \<or> (9 \<le> code_of c \<and> code_of c \<le> 13)"

definition is_digit :: "char \<Rightarrow> bool" where
  "is_digit c \<longleftrightarrow> 48 \<le> code_of c \<and> code_of c \<le> 57"

definition is_alpha :: "char \<Rightarrow> bool" where
  "is_alpha c \<longleftrightarrow> (65 \<le> code_of c \<and> code_of c \<le> 90) \<or> (97 \<le> code_of c \<and> code_of c \<le> 122)"

definition to_upper :: "char \<Rightarrow> char" where
  "to_upper c = (if 97 \<le> code_of c \<and> code_of c \<le> 122 then char_of (code_of c - 32) else c)"

definition to_lower :: "char \<Rightarrow> char" where
  "to_lower c = (if 65 \<le> code_of c \<and> code_of c \<le> 90 then char_of (code_of c + 32) else c)"

definition digit_val :: "char \<Rightarrow> nat" where
  "digit_val c = code_of c - 48"

definition digit_char :: "nat \<Rightarrow> char" where
  "digit_char d = char_of (48 + d)"

lemma digit_char_code: "d < 10 \<Longrightarrow> code_of (digit_char d) = 48 + d"
  by (simp add: digit_char_def)

lemma is_digit_char [simp]: "d < 10 \<Longrightarrow> is_digit (digit_char d)"
  by (simp add: is_digit_def digit_char_code)

lemma digit_val_char [simp]: "d < 10 \<Longrightarrow> digit_val (digit_char d) = d"
  by (simp add: digit_val_def digit_char_code)

lemma digit_char_val: "is_digit c \<Longrightarrow> digit_char (digit_val c) = c"
  by (simp add: is_digit_def digit_val_def digit_char_def)

lemma digit_not_space: "is_digit c \<Longrightarrow> \<not> is_space c"
  by (simp add: is_digit_def is_space_def)

lemma digit_not_alpha: "is_digit c \<Longrightarrow> \<not> is_alpha c"
  by (auto simp: is_digit_def is_alpha_def)

lemma digit_chars [simp]:
  "\<not> is_digit CHR ''-''" "\<not> is_digit CHR ''+''" "\<not> is_digit CHR '':''" "\<not> is_digit CHR ''i''"
  "\<not> is_digit CHR ''.''" "\<not> is_digit CHR 0x27" "\<not> is_digit CHR 0x22" "\<not> is_digit CHR 0x00"
  by (simp_all add: is_digit_def)

section \<open>Searching\<close>

fun find_at :: "string \<Rightarrow> string \<Rightarrow> nat \<Rightarrow> nat option" where
  "find_at t [] j = (if t = [] then Some j else None)"
| "find_at t (c # s) j = (if prefix t (c # s) then Some j else find_at t s (Suc j))"

definition find_str :: "string \<Rightarrow> string \<Rightarrow> nat \<Rightarrow> nat option" where
  "find_str s t i = (if i \<le> length s then find_at t (drop i s) i else None)"

definition substr :: "string \<Rightarrow> nat \<Rightarrow> nat \<Rightarrow> string" where
  "substr s i n = take n (drop i s)"

definition contains_str :: "string \<Rightarrow> string \<Rightarrow> bool" where
  "contains_str s t \<longleftrightarrow> find_str s t 0 \<noteq> None"

lemma find_at_skip: "c \<notin> set p \<Longrightarrow> find_at [c] (p @ c # s) j = Some (j + length p)"
  by (induction p arbitrary: j) auto

lemma find_at_none: "c \<notin> set s \<Longrightarrow> find_at [c] s j = None"
  by (induction s arbitrary: j) auto

lemma find_at_some: "find_at [c] s j = Some k \<Longrightarrow>
    \<exists>p q. s = p @ c # q \<and> c \<notin> set p \<and> k = j + length p"
proof (induction s arbitrary: j)
  case (Cons a s)
  show ?case
  proof (cases "a = c")
    case False
    then obtain p q where "s = p @ c # q" "c \<notin> set p" "k = Suc j + length p"
      using Cons.prems Cons.IH [of "Suc j"] by auto
    with False show ?thesis by (intro exI [of _ "a # p"] exI [of _ q]) simp
  qed (use Cons.prems in \<open>auto intro!: exI [of _ "[]"]\<close>)
qed simp

lemma find_str_skip: "c \<notin> set p \<Longrightarrow> length q = i \<Longrightarrow> find_str (q @ p @ c # s) [c] i = Some (i + length p)"
  by (simp add: find_str_def find_at_skip)

lemma find_str_skip0: "c \<notin> set p \<Longrightarrow> find_str (p @ c # s) [c] 0 = Some (length p)"
  using find_str_skip [of c p "[]" 0 s] by simp

lemma find_str_none: "c \<notin> set (drop i s) \<Longrightarrow> find_str s [c] i = None"
  by (simp add: find_str_def find_at_none)

section \<open>Decimal numbers\<close>

fun dec_nat :: "nat \<Rightarrow> string" where
  "dec_nat n = (if n < 10 then [digit_char n] else dec_nat (n div 10) @ [digit_char (n mod 10)])"

declare dec_nat.simps [simp del]

definition dec_int :: "int \<Rightarrow> string" where
  "dec_int i = (if i < 0 then CHR ''-'' # dec_nat (nat (- i)) else dec_nat (nat i))"

definition digits_val :: "string \<Rightarrow> nat" where
  "digits_val ds = foldl (\<lambda>n c. n * 10 + digit_val c) 0 ds"

lemma digits_val_snoc: "digits_val (ds @ [c]) = digits_val ds * 10 + digit_val c"
  by (simp add: digits_val_def)

lemma digits_val_Nil [simp]: "digits_val [] = 0"
  by (simp add: digits_val_def)

lemma digits_dec_nat [simp]: "digits_val (dec_nat n) = n"
proof (induction n rule: dec_nat.induct)
  case (1 n)
  show ?case
  proof (cases "n < 10")
    case True
    then show ?thesis
      using digits_val_snoc [of "[]"] by (subst dec_nat.simps) simp
  next
    case False
    then show ?thesis by (subst dec_nat.simps) (simp add: 1 digits_val_snoc)
  qed
qed

lemma dec_nat_digits: "\<forall>c\<in>set (dec_nat n). is_digit c"
proof (induction n rule: dec_nat.induct)
  case (1 n)
  then show ?case by (subst dec_nat.simps) auto
qed

lemma dec_nat_ne [simp]: "dec_nat n \<noteq> []"
  by (subst dec_nat.simps) simp

lemma dec_nat_inj: "dec_nat m = dec_nat n \<longleftrightarrow> m = n"
  by (metis digits_dec_nat)

lemma dec_nat_no: "\<not> is_digit c \<Longrightarrow> c \<notin> set (dec_nat n)"
  using dec_nat_digits by auto

lemma dec_nat_hd: "is_digit (hd (dec_nat n))"
  using dec_nat_digits [of n] by (simp add: list.set_sel)

lemma dec_nat_Cons: "\<exists>c cs. dec_nat n = c # cs \<and> is_digit c \<and> (\<forall>d\<in>set cs. is_digit d)"
  using dec_nat_digits [of n] by (cases "dec_nat n") auto

fun take_sign :: "string \<Rightarrow> bool \<times> string" where
  "take_sign [] = (False, [])"
| "take_sign (c # s) =
     (if c = CHR ''-'' then (True, s) else if c = CHR ''+'' then (False, s) else (False, c # s))"

definition LLONG_MAX :: int where "LLONG_MAX = 2 ^ 63 - 1"
definition LLONG_MIN :: int where "LLONG_MIN = - (2 ^ 63)"

text \<open>The integer a text starts with: \<open>None\<close> when no digit follows the spaces and the sign.\<close>

definition scan_int :: "string \<Rightarrow> int option" where
  "scan_int s =
     (let (neg, t) = take_sign (dropWhile is_space s);
          ds = takeWhile is_digit t
      in if ds = [] then None
         else Some (if neg then - int (digits_val ds) else int (digits_val ds)))"

definition strtoll :: "string \<Rightarrow> int" where
  "strtoll s = (case scan_int s of None \<Rightarrow> 0
     | Some i \<Rightarrow> if i < LLONG_MIN then LLONG_MIN else if LLONG_MAX < i then LLONG_MAX else i)"

definition stoll :: "string \<Rightarrow> int option" where
  "stoll s = (case scan_int s of None \<Rightarrow> None
     | Some i \<Rightarrow> if i < LLONG_MIN \<or> LLONG_MAX < i then None else Some i)"

text \<open>\<open>strtoul\<close> accepts a sign and negates in the unsigned type.\<close>

definition stoul :: "string \<Rightarrow> u64 option" where
  "stoul s = (case scan_int s of None \<Rightarrow> None
     | Some i \<Rightarrow> if 2 ^ 64 \<le> \<bar>i\<bar> then None else Some (word_of_int i))"

lemma take_sign_digit: "s \<noteq> [] \<Longrightarrow> is_digit (hd s) \<Longrightarrow> take_sign s = (False, s)"
  by (cases s) auto

lemma dropWhile_space_digit: "s \<noteq> [] \<Longrightarrow> is_digit (hd s) \<Longrightarrow> dropWhile is_space s = s"
  by (cases s) (auto simp: digit_not_space)

lemma takeWhile_digits: "\<forall>c\<in>set ds. is_digit c \<Longrightarrow> (s = [] \<or> \<not> is_digit (hd s)) \<Longrightarrow>
    takeWhile is_digit (ds @ s) = ds"
  by (induction ds) (auto simp: takeWhile_eq_Nil_iff)

lemma scan_int_dec_nat:
  assumes "s = [] \<or> \<not> is_digit (hd s)"
  shows "scan_int (dec_nat n @ s) = Some (int n)"
proof -
  have ne: "dec_nat n @ s \<noteq> []" and hd: "is_digit (hd (dec_nat n @ s))"
    using dec_nat_hd [of n] by simp_all
  show ?thesis
    using takeWhile_digits [OF dec_nat_digits assms]
    by (simp add: scan_int_def dropWhile_space_digit [OF ne hd] take_sign_digit [OF ne hd])
qed

lemma scan_int_dec_int [simp]: "scan_int (dec_int i) = Some i"
proof (cases "i < 0")
  case True
  have tw: "takeWhile is_digit (dec_nat n) = dec_nat n" for n
    using takeWhile_digits [OF dec_nat_digits, of "[]" n] by (metis append_Nil2)
  show ?thesis
    using True by (simp add: scan_int_def dec_int_def is_space_def tw Let_def)
next
  case False
  then show ?thesis
    using scan_int_dec_nat [of "[]" "nat i"] by (simp add: dec_int_def)
qed

lemma stoll_dec_int: "LLONG_MIN \<le> i \<Longrightarrow> i \<le> LLONG_MAX \<Longrightarrow> stoll (dec_int i) = Some i"
  by (simp add: stoll_def)

lemma stoul_dec_nat: "n < 2 ^ 64 \<Longrightarrow> stoul (dec_nat n) = Some (word_of_nat n)"
  using scan_int_dec_nat [of "[]" n] by (simp add: stoul_def)

section \<open>Shared helpers of the parser\<close>

definition Upper :: "string \<Rightarrow> string" where
  "Upper s = map to_upper s"

definition LowerStr :: "string \<Rightarrow> string" where
  "LowerStr s = map to_lower s"

definition Trim :: "string \<Rightarrow> string" where
  "Trim s = rev (dropWhile is_space (rev (dropWhile is_space s)))"

definition StartsWithCI :: "string \<Rightarrow> string \<Rightarrow> bool" where
  "StartsWithCI s p \<longleftrightarrow> prefix (Upper p) (Upper s)"

definition IsQuotedLiteral :: "string \<Rightarrow> bool" where
  "IsQuotedLiteral tok \<longleftrightarrow> 2 \<le> length tok \<and> hd tok = CHR 0x27"

definition UnquoteToken :: "string \<Rightarrow> string" where
  "UnquoteToken tok =
     (if 2 \<le> length tok \<and> hd tok = CHR 0x27 \<and> last tok = CHR 0x27
      then butlast (tl tok) else tok)"

definition ExtractMaxPagesHint :: "string \<Rightarrow> u64 option" where
  "ExtractMaxPagesHint s = (case find_str s ''@max_pages='' 0 of
     None \<Rightarrow> None
   | Some pos \<Rightarrow> (let ds = takeWhile is_digit (drop (pos + 11) s) in
       if ds = [] then None else Some (word_of_nat (digits_val ds))))"

lemma UnquoteToken_quoted: "UnquoteToken (CHR 0x27 # s @ [CHR 0x27]) = s"
  by (simp add: UnquoteToken_def)

end
