(* ===== verification/SqlDouble.thy ===== *)
theory SqlDouble
  imports SqlText Complex_Main
begin

text \<open>
  The \<open>double\<close> of the SQL layer: IEEE binary64 with rounding to nearest, ties to even.

  \<^item> A finite value is its sign and its magnitude, a rational number; \<open>mk_double\<close> rounds a
    rational to 53 significant bits (fewer below \<open>2 ^ -1022\<close>) and overflows to an infinity.
  \<^item> \<open>strtod\<close> is \<open>std::strtod\<close> in the C locale (decimal, hexadecimal, infinity, nan), which returns
    the value and the text that follows it; \<open>fmt_g\<close> and \<open>fmt_f\<close> are the conversions \<open>%.Pg\<close>
    and \<open>%.Kf\<close> of \<open>snprintf\<close> into the program's buffers of 64 bytes.
  \<^item> Where C++ leaves the result to the implementation (the cast of an out-of-range value to
    \<open>int64_t\<close>, the sign of a NaN) the model has what an x86-64 processor does.
\<close>

datatype double = DNaN bool | DInf bool | DFin bool rat

section \<open>Rounding\<close>

fun ndigits :: "nat \<Rightarrow> nat \<Rightarrow> nat" where
  "ndigits b n = (if n = 0 \<or> b < 2 then 0 else Suc (ndigits b (n div b)))"

declare ndigits.simps [simp del]

text \<open>The largest \<open>e\<close> with \<open>b ^ e \<le> r\<close>, for a positive \<open>r\<close>.\<close>

definition ilog :: "nat \<Rightarrow> rat \<Rightarrow> int" where
  "ilog b r = (if 1 \<le> r then int (ndigits b (nat \<lfloor>r\<rfloor>)) - 1
     else - int (ndigits b (nat (\<lceil>1 / r\<rceil> - 1))))"

definition bpow :: "nat \<Rightarrow> int \<Rightarrow> rat" where
  "bpow b e = (if 0 \<le> e then of_nat b ^ nat e else 1 / of_nat b ^ nat (- e))"

definition rne :: "rat \<Rightarrow> int" where
  "rne x = (let f = \<lfloor>x\<rfloor>; d = x - of_int f in
     if d < 1 / 2 then f else if 1 / 2 < d then f + 1 else if even f then f else f + 1)"

definition round_mag :: "rat \<Rightarrow> rat" where
  "round_mag r = (if r = 0 then 0
     else let e = max (- 1074) (ilog 2 r - 52) in of_int (rne (r / bpow 2 e)) * bpow 2 e)"

definition mk_double :: "bool \<Rightarrow> rat \<Rightarrow> double" where
  "mk_double neg r = (let m = round_mag r in if 2 ^ 1024 \<le> m then DInf neg else DFin neg m)"

definition of_signed :: "bool \<Rightarrow> rat \<Rightarrow> double" where
  "of_signed zero_neg x = (if x = 0 then DFin zero_neg 0 else mk_double (x < 0) \<bar>x\<bar>)"

definition sval :: "bool \<Rightarrow> rat \<Rightarrow> rat" where
  "sval neg m = (if neg then - m else m)"

definition of_int64 :: "int \<Rightarrow> double" where
  "of_int64 i = of_signed False (of_int i)"

definition trunc :: "rat \<Rightarrow> int" where
  "trunc x = (if x < 0 then - \<lfloor>- x\<rfloor> else \<lfloor>x\<rfloor>)"

fun to_int64 :: "double \<Rightarrow> int" where
  "to_int64 (DFin neg m) = (let i = trunc (sval neg m) in
     if LLONG_MIN \<le> i \<and> i \<le> LLONG_MAX then i else LLONG_MIN)"
| "to_int64 _ = LLONG_MIN"

section \<open>Arithmetic and comparison\<close>

text \<open>The first operand that is a NaN is the result.\<close>

fun dadd :: "double \<Rightarrow> double \<Rightarrow> double" where
  "dadd (DNaN s) y = DNaN s"
| "dadd x (DNaN s) = DNaN s"
| "dadd (DInf s) (DInf t) = (if s = t then DInf s else DNaN True)"
| "dadd (DInf s) (DFin _ _) = DInf s"
| "dadd (DFin _ _) (DInf t) = DInf t"
| "dadd (DFin s m) (DFin t n) = of_signed (s \<and> t) (sval s m + sval t n)"

fun dneg :: "double \<Rightarrow> double" where
  "dneg (DNaN s) = DNaN s"
| "dneg (DInf s) = DInf (\<not> s)"
| "dneg (DFin s m) = DFin (\<not> s) m"

definition dsub :: "double \<Rightarrow> double \<Rightarrow> double" where
  "dsub x y = dadd x (dneg y)"

fun dmul :: "double \<Rightarrow> double \<Rightarrow> double" where
  "dmul (DNaN s) y = DNaN s"
| "dmul x (DNaN s) = DNaN s"
| "dmul (DInf s) (DInf t) = DInf (s \<noteq> t)"
| "dmul (DInf s) (DFin t n) = (if n = 0 then DNaN True else DInf (s \<noteq> t))"
| "dmul (DFin s m) (DInf t) = (if m = 0 then DNaN True else DInf (s \<noteq> t))"
| "dmul (DFin s m) (DFin t n) = mk_double (s \<noteq> t) (m * n)"

fun ddiv :: "double \<Rightarrow> double \<Rightarrow> double" where
  "ddiv (DNaN s) y = DNaN s"
| "ddiv x (DNaN s) = DNaN s"
| "ddiv (DInf s) (DInf t) = DNaN True"
| "ddiv (DInf s) (DFin t n) = DInf (s \<noteq> t)"
| "ddiv (DFin s m) (DInf t) = DFin (s \<noteq> t) 0"
| "ddiv (DFin s m) (DFin t n) =
     (if n = 0 then (if m = 0 then DNaN True else DInf (s \<noteq> t)) else mk_double (s \<noteq> t) (m / n))"

fun dlt :: "double \<Rightarrow> double \<Rightarrow> bool" where
  "dlt (DNaN _) _ = False"
| "dlt _ (DNaN _) = False"
| "dlt (DInf s) (DInf t) = (s \<and> \<not> t)"
| "dlt (DInf s) (DFin _ _) = s"
| "dlt (DFin _ _) (DInf t) = (\<not> t)"
| "dlt (DFin s m) (DFin t n) = (sval s m < sval t n)"

fun deq :: "double \<Rightarrow> double \<Rightarrow> bool" where
  "deq (DNaN _) _ = False"
| "deq _ (DNaN _) = False"
| "deq (DInf s) (DInf t) = (s = t)"
| "deq (DInf _) (DFin _ _) = False"
| "deq (DFin _ _) (DInf _) = False"
| "deq (DFin s m) (DFin t n) = (sval s m = sval t n)"

definition dle :: "double \<Rightarrow> double \<Rightarrow> bool" where
  "dle x y \<longleftrightarrow> dlt x y \<or> deq x y"

fun dfloor :: "double \<Rightarrow> double" where
  "dfloor (DFin s m) = of_signed s (of_int \<lfloor>sval s m\<rfloor>)"
| "dfloor d = d"

section \<open>Reading a number\<close>

definition hex_val :: "char \<Rightarrow> nat option" where
  "hex_val c = (if is_digit c then Some (digit_val c)
     else if 97 \<le> code_of (to_lower c) \<and> code_of (to_lower c) \<le> 102
     then Some (code_of (to_lower c) - 87) else None)"

definition is_hex :: "char \<Rightarrow> bool" where
  "is_hex c \<longleftrightarrow> hex_val c \<noteq> None"

text \<open>Digits, a point and digits: the digits before and after the point and the rest. The point is
  only taken when there is a digit on one of its sides.\<close>

definition scan_mantissa :: "(char \<Rightarrow> bool) \<Rightarrow> string \<Rightarrow> string \<times> string \<times> string" where
  "scan_mantissa p s =
     (let ip = takeWhile p s; t = dropWhile p s in
      case t of
        c # u \<Rightarrow> if c = CHR ''.'' \<and> (ip \<noteq> [] \<or> takeWhile p u \<noteq> [])
                 then (ip, takeWhile p u, dropWhile p u) else (ip, [], t)
      | [] \<Rightarrow> (ip, [], t))"

text \<open>An optional exponent: the marker, a sign and at least one digit.\<close>

definition scan_exponent :: "char \<Rightarrow> string \<Rightarrow> int \<times> string" where
  "scan_exponent mark s =
     (case s of
        c # t \<Rightarrow>
          if to_lower c = mark then
            (let (neg, u) = take_sign t; ds = takeWhile is_digit u in
             if ds = [] then (0, s)
             else (if neg then - int (digits_val ds) else int (digits_val ds), dropWhile is_digit u))
          else (0, s)
      | [] \<Rightarrow> (0, s))"

definition hex_digits :: "string \<Rightarrow> nat" where
  "hex_digits ds = foldl (\<lambda>n c. n * 16 + (case hex_val c of Some v \<Rightarrow> v | None \<Rightarrow> 0)) 0 ds"

definition scan_decimal :: "bool \<Rightarrow> string \<Rightarrow> (double \<times> string) option" where
  "scan_decimal neg s =
     (let (ip, fp, t) = scan_mantissa is_digit s in
      if ip = [] \<and> fp = [] then None
      else let (e, u) = scan_exponent CHR ''e'' t in
        Some (mk_double neg (of_nat (digits_val (ip @ fp)) * bpow 10 (e - int (length fp))), u))"

definition scan_hex :: "bool \<Rightarrow> string \<Rightarrow> (double \<times> string) option" where
  "scan_hex neg s =
     (let (ip, fp, t) = scan_mantissa is_hex s in
      if ip = [] \<and> fp = [] then None
      else let (e, u) = scan_exponent CHR ''p'' t in
        Some (mk_double neg (of_nat (hex_digits (ip @ fp)) * bpow 2 (e - 4 * int (length fp))), u))"

definition nan_tail :: "string \<Rightarrow> string" where
  "nan_tail s = (case s of
     c # t \<Rightarrow> if c = CHR ''('' then
         (case dropWhile (\<lambda>d. is_digit d \<or> is_alpha d \<or> d = CHR ''_'') t of
            d # u \<Rightarrow> if d = CHR '')'' then u else s
          | [] \<Rightarrow> s)
       else s
   | [] \<Rightarrow> s)"

definition strtod :: "string \<Rightarrow> (double \<times> string) option" where
  "strtod s =
     (let (neg, t) = take_sign (dropWhile is_space s); u = Upper t in
      if prefix ''INFINITY'' u then Some (DInf neg, drop 8 t)
      else if prefix ''INF'' u then Some (DInf neg, drop 3 t)
      else if prefix ''NAN'' u then Some (DNaN neg, nan_tail (drop 3 t))
      else if prefix ''0X'' u \<and> scan_hex neg (drop 2 t) \<noteq> None then scan_hex neg (drop 2 t)
      else scan_decimal neg t)"

definition strtod_val :: "string \<Rightarrow> double" where
  "strtod_val s = (case strtod s of None \<Rightarrow> DFin False 0 | Some (d, _) \<Rightarrow> d)"

text \<open>\<open>*end == 0\<close>: the number is followed by the end of the C string.\<close>

definition at_nul :: "string \<Rightarrow> bool" where
  "at_nul s \<longleftrightarrow> s = [] \<or> hd s = CHR 0x00"

section \<open>Printing a number\<close>

definition sign_str :: "bool \<Rightarrow> string" where
  "sign_str neg = (if neg then ''-'' else [])"

definition pad_left :: "nat \<Rightarrow> string \<Rightarrow> string" where
  "pad_left k s = replicate (k - length s) CHR ''0'' @ s"

definition strip_zeros :: "string \<Rightarrow> string" where
  "strip_zeros s = rev (dropWhile (\<lambda>c. c = CHR ''0'') (rev s))"

definition with_point :: "string \<Rightarrow> string \<Rightarrow> string" where
  "with_point ip fp = (if fp = [] then ip else ip @ CHR ''.'' # fp)"

text \<open>The decimal exponent and the \<open>p\<close> significant digits of a magnitude, as \<open>%e\<close> prints it.\<close>

definition sci_digits :: "nat \<Rightarrow> rat \<Rightarrow> int \<times> string" where
  "sci_digits p m =
     (if m = 0 then (0, replicate p CHR ''0'')
      else let x = ilog 10 m; n = nat (rne (m / bpow 10 (x - int p + 1))) in
        if 10 ^ p \<le> n then (x + 1, dec_nat (10 ^ (p - 1))) else (x, dec_nat n))"

fun fmt_g :: "nat \<Rightarrow> double \<Rightarrow> string" where
  "fmt_g p (DNaN neg) = sign_str neg @ ''nan''"
| "fmt_g p (DInf neg) = sign_str neg @ ''inf''"
| "fmt_g p (DFin neg m) = take 63 (sign_str neg @
     (let (x, ds) = sci_digits p m in
      if - 4 \<le> x \<and> x < int p then
        (if 0 \<le> x then with_point (take (nat x + 1) ds) (strip_zeros (drop (nat x + 1) ds))
         else with_point ''0'' (strip_zeros (replicate (nat (- x) - 1) CHR ''0'' @ ds)))
      else with_point (take 1 ds) (strip_zeros (drop 1 ds)) @ ''e'' @
        (if x < 0 then ''-'' else ''+'') @ pad_left 2 (dec_nat (nat \<bar>x\<bar>))))"

fun fmt_f :: "nat \<Rightarrow> double \<Rightarrow> string" where
  "fmt_f k (DNaN neg) = sign_str neg @ ''nan''"
| "fmt_f k (DInf neg) = sign_str neg @ ''inf''"
| "fmt_f k (DFin neg m) = take 63 (sign_str neg @
     (let n = nat (rne (m * 10 ^ k)) in
      with_point (dec_nat (n div 10 ^ k)) (pad_left k (dec_nat (n mod 10 ^ k)))))"

end
