(* ===== verification/SqlValue.thy ===== *)
theory SqlValue
  imports SqlDouble
begin

text \<open>
  The values of the SQL layer: \<^verbatim>\<open>sql/eval/sql_value.cc\<close>, \<^verbatim>\<open>sql/eval/truth_value.h\<close>,
  \<^verbatim>\<open>sql/eval/type_affinity.cc\<close> and \<^verbatim>\<open>sql/eval/like_match.cc\<close>.

  A row holds texts only; \<open>FromLegacyString\<close> decides what a text means and \<open>ToLegacyString\<close>
  writes a value back. \<open>CompareSqlValues\<close> compares two values under an affinity and gives one
  of three truth values. The matchers of \<open>LIKE\<close> and \<open>GLOB\<close> recurse on the pattern.
\<close>

section \<open>Truth values\<close>

datatype truth = TTrue | TFalse | TUnknown

definition And3 :: "truth \<Rightarrow> truth \<Rightarrow> truth" where
  "And3 a b = (if a = TFalse \<or> b = TFalse then TFalse
     else if a = TUnknown \<or> b = TUnknown then TUnknown else TTrue)"

definition Or3 :: "truth \<Rightarrow> truth \<Rightarrow> truth" where
  "Or3 a b = (if a = TTrue \<or> b = TTrue then TTrue
     else if a = TUnknown \<or> b = TUnknown then TUnknown else TFalse)"

fun Not3 :: "truth \<Rightarrow> truth" where
  "Not3 TTrue = TFalse"
| "Not3 TFalse = TTrue"
| "Not3 TUnknown = TUnknown"

definition IsSqlTrue :: "truth \<Rightarrow> bool" where
  "IsSqlTrue t \<longleftrightarrow> t = TTrue"

definition truth_of :: "bool \<Rightarrow> truth" where
  "truth_of b = (if b then TTrue else TFalse)"

text \<open>Ordered by how true they are, conjunction is the minimum and disjunction the maximum.\<close>

instantiation truth :: linorder
begin

fun rank_truth :: "truth \<Rightarrow> nat" where
  "rank_truth TFalse = 0"
| "rank_truth TUnknown = 1"
| "rank_truth TTrue = 2"

definition less_eq_truth :: "truth \<Rightarrow> truth \<Rightarrow> bool" where
  "less_eq_truth a b \<longleftrightarrow> rank_truth a \<le> rank_truth b"

definition less_truth :: "truth \<Rightarrow> truth \<Rightarrow> bool" where
  "less_truth a b \<longleftrightarrow> rank_truth a < rank_truth b"

instance
proof
  fix a b :: truth
  show "a \<le> b \<Longrightarrow> b \<le> a \<Longrightarrow> a = b"
    by (cases a; cases b) (simp_all add: less_eq_truth_def)
qed (auto simp: less_eq_truth_def less_truth_def)

end

lemma And3_min: "And3 a b = min a b"
  by (cases a; cases b) (simp_all add: And3_def min_def less_eq_truth_def)

lemma Or3_max: "Or3 a b = max a b"
  by (cases a; cases b) (simp_all add: Or3_def max_def less_eq_truth_def)

lemma Not3_Not3 [simp]: "Not3 (Not3 t) = t"
  by (cases t) simp_all

lemma Not3_And3: "Not3 (And3 a b) = Or3 (Not3 a) (Not3 b)"
  by (cases a; cases b) (simp_all add: And3_def Or3_def)

lemma Not3_Or3: "Not3 (Or3 a b) = And3 (Not3 a) (Not3 b)"
  by (cases a; cases b) (simp_all add: And3_def Or3_def)

lemma truth_of_eq [simp]:
  "truth_of b = TTrue \<longleftrightarrow> b" "truth_of b = TFalse \<longleftrightarrow> \<not> b" "truth_of b \<noteq> TUnknown"
  "IsSqlTrue (truth_of b) \<longleftrightarrow> b" "Not3 (truth_of b) = truth_of (\<not> b)"
  by (simp_all add: truth_of_def IsSqlTrue_def)

section \<open>Values\<close>

datatype value_kind = KNull | KInteger | KReal | KText | KBlob

record sql_value =
  sv_kind :: value_kind
  sv_i :: int
  sv_r :: double
  sv_text :: string

definition zero_double :: double where "zero_double = DFin False 0"

definition SqlNull :: sql_value where
  "SqlNull = \<lparr>sv_kind = KNull, sv_i = 0, sv_r = zero_double, sv_text = []\<rparr>"

definition SqlInteger :: "int \<Rightarrow> sql_value" where
  "SqlInteger v = SqlNull\<lparr>sv_kind := KInteger, sv_i := v, sv_r := of_int64 v\<rparr>"

definition SqlReal :: "double \<Rightarrow> sql_value" where
  "SqlReal v = SqlNull\<lparr>sv_kind := KReal, sv_r := v, sv_i := to_int64 v\<rparr>"

definition SqlText :: "string \<Rightarrow> sql_value" where
  "SqlText v = SqlNull\<lparr>sv_kind := KText, sv_text := v\<rparr>"

definition IsNull :: "sql_value \<Rightarrow> bool" where
  "IsNull v \<longleftrightarrow> sv_kind v = KNull"

definition IsIntegerText :: "string \<Rightarrow> bool" where
  "IsIntegerText s \<longleftrightarrow> s \<noteq> [] \<and>
     (if hd s = CHR ''-'' \<or> hd s = CHR ''+'' then length s \<noteq> 1 \<and> list_all is_digit (tl s)
      else list_all is_digit s)"

definition strtod_end :: "string \<Rightarrow> string" where
  "strtod_end s = (case strtod s of None \<Rightarrow> s | Some (_, r) \<Rightarrow> r)"

definition IsRealText :: "string \<Rightarrow> bool" where
  "IsRealText s \<longleftrightarrow> s \<noteq> [] \<and> strtod s \<noteq> None \<and> at_nul (strtod_end s)"

definition FromLegacyString :: "string \<Rightarrow> sql_value" where
  "FromLegacyString s =
     (if s = [] then SqlNull
      else if IsIntegerText s then (case stoll s of Some i \<Rightarrow> SqlInteger i | None \<Rightarrow> SqlText s)
      else if IsRealText s then SqlReal (strtod_val s)
      else SqlText s)"

definition ToLegacyString :: "sql_value \<Rightarrow> string" where
  "ToLegacyString v = (case sv_kind v of
     KNull \<Rightarrow> []
   | KInteger \<Rightarrow> dec_int (sv_i v)
   | KReal \<Rightarrow> fmt_g 6 (sv_r v)
   | KText \<Rightarrow> sv_text v
   | KBlob \<Rightarrow> sv_text v)"

definition ToDisplayString :: "sql_value \<Rightarrow> char \<Rightarrow> string" where
  "ToDisplayString v coltype =
     (if IsNull v then []
      else if coltype = CHR ''I'' then
        (case sv_kind v of
           KInteger \<Rightarrow> dec_int (sv_i v)
         | KReal \<Rightarrow> dec_int (to_int64 (sv_r v))
         | KText \<Rightarrow>
             if IsIntegerText (sv_text v) then sv_text v
             else if IsRealText (sv_text v) then dec_int (to_int64 (strtod_val (sv_text v)))
             else ''0''
         | _ \<Rightarrow> ''0'')
      else if coltype = CHR ''R'' then
        (case sv_kind v of
           KInteger \<Rightarrow> fmt_f 3 (of_int64 (sv_i v))
         | KText \<Rightarrow> if IsRealText (sv_text v) then fmt_f 3 (strtod_val (sv_text v)) else sv_text v
         | _ \<Rightarrow> fmt_f 3 (sv_r v))
      else ToLegacyString v)"

section \<open>Patterns\<close>

function LikeMatchImpl :: "char \<Rightarrow> string \<Rightarrow> string \<Rightarrow> bool" where
  "LikeMatchImpl esc [] t = (t = [])"
| "LikeMatchImpl esc (p # ps) t =
     (if p = esc \<and> ps \<noteq> [] then
        (case t of [] \<Rightarrow> False | c # u \<Rightarrow> c = hd ps \<and> LikeMatchImpl esc (tl ps) u)
      else if p = CHR ''%'' then
        ps = [] \<or> list_ex (\<lambda>k. LikeMatchImpl esc ps (drop k t)) [0..<Suc (length t)]
      else if p = CHR ''_'' then
        (case t of [] \<Rightarrow> False | c # u \<Rightarrow> LikeMatchImpl esc ps u)
      else (case t of [] \<Rightarrow> False | c # u \<Rightarrow> c = p \<and> LikeMatchImpl esc ps u))"
  by pat_completeness auto
termination by (relation "measure (\<lambda>(_, ps, _). length ps)") auto

definition SqlLikeMatch :: "string \<Rightarrow> string \<Rightarrow> char \<Rightarrow> bool" where
  "SqlLikeMatch text pat esc = LikeMatchImpl esc pat text"

text \<open>\<open>CHR 0x5B\<close> and \<open>CHR 0x5D\<close> are the square brackets.\<close>

function GlobMatchImpl :: "string \<Rightarrow> string \<Rightarrow> bool" where
  "GlobMatchImpl [] t = (t = [])"
| "GlobMatchImpl (p # ps) t =
     (if p = CHR ''*'' then
        ps = [] \<or> list_ex (\<lambda>k. GlobMatchImpl ps (drop k t)) [0..<Suc (length t)]
      else if p = CHR ''?'' then
        (case t of [] \<Rightarrow> False | c # u \<Rightarrow> GlobMatchImpl ps u)
      else if p = CHR 0x5B then
        (case find_str ps [CHR 0x5D] 0 of
           None \<Rightarrow> False
         | Some close \<Rightarrow>
             (case t of [] \<Rightarrow> False
              | c # u \<Rightarrow> c \<in> set (take close ps) \<and> GlobMatchImpl (drop (Suc close) ps) u))
      else (case t of [] \<Rightarrow> False | c # u \<Rightarrow> c = p \<and> GlobMatchImpl ps u))"
  by pat_completeness auto
termination by (relation "measure (\<lambda>(ps, _). length ps)") auto

definition SqlGlobMatch :: "string \<Rightarrow> string \<Rightarrow> bool" where
  "SqlGlobMatch text pat = GlobMatchImpl pat text"

declare LikeMatchImpl.simps(2) [simp del] GlobMatchImpl.simps(2) [simp del]

section \<open>Affinity and comparison\<close>

datatype affinity = ANull | AInteger | AReal | AText

datatype binary_op =
    OpAnd | OpOr | OpEq | OpNe | OpLt | OpLe | OpGt | OpGe | OpLike | OpGlob
  | OpAdd | OpSub | OpMul | OpDiv

definition SqlValueAsReal :: "sql_value \<Rightarrow> double" where
  "SqlValueAsReal v = (case sv_kind v of
     KInteger \<Rightarrow> of_int64 (sv_i v)
   | KReal \<Rightarrow> sv_r v
   | KText \<Rightarrow> strtod_val (sv_text v)
   | _ \<Rightarrow> zero_double)"

definition CombinedAffinity :: "affinity \<Rightarrow> affinity \<Rightarrow> affinity" where
  "CombinedAffinity a b =
     (if a = ANull then b else if b = ANull then a
      else if a = AReal \<or> b = AReal then AReal
      else if a = AInteger \<and> b = AInteger then AInteger else AText)"

definition AffinityOf :: "string \<Rightarrow> affinity" where
  "AffinityOf s = (if s = [] then ANull else if IsIntegerText s then AInteger
     else if IsRealText s then AReal else AText)"

definition AffinityOfValue :: "sql_value \<Rightarrow> affinity" where
  "AffinityOfValue v = (case sv_kind v of
     KNull \<Rightarrow> ANull | KInteger \<Rightarrow> AInteger | KReal \<Rightarrow> AReal | _ \<Rightarrow> AffinityOf (sv_text v))"

definition AffinityFromColumnType :: "string \<Rightarrow> affinity" where
  "AffinityFromColumnType t = (let u = Upper t in
     if contains_str u ''INT'' then AInteger
     else if contains_str u ''REAL'' \<or> contains_str u ''FLOA'' \<or> contains_str u ''DOUB'' then AReal
     else AText)"

fun rel_double :: "binary_op \<Rightarrow> double \<Rightarrow> double \<Rightarrow> bool" where
  "rel_double OpLt a b = dlt a b"
| "rel_double OpLe a b = dle a b"
| "rel_double OpGt a b = dlt b a"
| "rel_double OpGe a b = dle b a"
| "rel_double _ a b = False"

fun rel_string :: "binary_op \<Rightarrow> string \<Rightarrow> string \<Rightarrow> bool" where
  "rel_string OpLt a b = (a < b)"
| "rel_string OpLe a b = (a \<le> b)"
| "rel_string OpGt a b = (b < a)"
| "rel_string OpGe a b = (b \<le> a)"
| "rel_string _ a b = False"

definition eq_or_ne :: "binary_op \<Rightarrow> bool \<Rightarrow> truth" where
  "eq_or_ne op eq = truth_of (if op = OpEq then eq else \<not> eq)"

definition compare_equal :: "sql_value \<Rightarrow> sql_value \<Rightarrow> affinity \<Rightarrow> bool" where
  "compare_equal l r hint =
     (let aff = CombinedAffinity hint (CombinedAffinity (AffinityOfValue l) (AffinityOfValue r)) in
      if aff = AInteger then to_int64 (SqlValueAsReal l) = to_int64 (SqlValueAsReal r)
      else if aff = AReal then deq (SqlValueAsReal l) (SqlValueAsReal r)
      else ToLegacyString l = ToLegacyString r)"

definition numeric_affinity :: "affinity \<Rightarrow> bool" where
  "numeric_affinity a \<longleftrightarrow> a = AInteger \<or> a = AReal"

definition compare_order :: "sql_value \<Rightarrow> sql_value \<Rightarrow> binary_op \<Rightarrow> bool" where
  "compare_order l r op =
     (if numeric_affinity (AffinityOfValue l) \<and> numeric_affinity (AffinityOfValue r)
      then rel_double op (SqlValueAsReal l) (SqlValueAsReal r)
      else let a = ToLegacyString l; b = ToLegacyString r in
        if at_nul (strtod_end a) \<and> at_nul (strtod_end b)
        then rel_double op (strtod_val a) (strtod_val b)
        else rel_string op a b)"

definition CompareSqlValues :: "sql_value \<Rightarrow> sql_value \<Rightarrow> binary_op \<Rightarrow> affinity \<Rightarrow> truth" where
  "CompareSqlValues l r op hint =
     (if op \<in> {OpAnd, OpOr, OpAdd, OpSub, OpMul, OpDiv} then TFalse
      else if IsNull l \<or> IsNull r then TUnknown
      else if op = OpLike then
        truth_of (SqlLikeMatch (ToLegacyString l) (ToLegacyString r) CHR 0x00)
      else if op = OpGlob then truth_of (SqlGlobMatch (ToLegacyString l) (ToLegacyString r))
      else if op = OpEq \<or> op = OpNe then eq_or_ne op (compare_equal l r hint)
      else truth_of (compare_order l r op))"

definition CompareWithAffinity :: "string \<Rightarrow> string \<Rightarrow> binary_op \<Rightarrow> bool" where
  "CompareWithAffinity l r op =
     IsSqlTrue (CompareSqlValues (FromLegacyString l) (FromLegacyString r) op AText)"

end
