(* ===== verification/SqlValueFacts.thy ===== *)
theory SqlValueFacts
  imports SqlValue
begin

text \<open>
  What the values of the SQL layer guarantee: rounding is monotone and exact on the integers up to
  \<open>2 ^ 53\<close>, an integer survives being written as text, comparison of integers never inverts their
  order, and the pattern matchers decide the languages of their patterns.
\<close>

section \<open>Rounding\<close>

lemma ndigits_upper: "2 \<le> b \<Longrightarrow> n < b ^ ndigits b n"
proof (induction n rule: less_induct)
  case (less n)
  show ?case
  proof (cases "n = 0")
    case False
    with less have "n div b < b ^ ndigits b (n div b)" by simp
    then have "n < b * b ^ ndigits b (n div b)"
      using less.prems by (metis div_less_iff_less_mult mult.commute less_le_trans zero_less_numeral)
    then show ?thesis using False less.prems by (subst ndigits.simps) simp
  qed (simp add: ndigits.simps)
qed

lemma ndigits_lower: "2 \<le> b \<Longrightarrow> 0 < n \<Longrightarrow> b ^ (ndigits b n - 1) \<le> n"
proof (induction n rule: less_induct)
  case (less n)
  show ?case
  proof (cases "n div b = 0")
    case True
    then show ?thesis using less.prems by (subst ndigits.simps) (simp add: ndigits.simps)
  next
    case False
    with less have "b ^ (ndigits b (n div b) - 1) \<le> n div b" by simp
    then have "b * b ^ (ndigits b (n div b) - 1) \<le> n"
      by (metis div_times_less_eq_dividend mult.commute mult_le_mono1 le_trans)
    moreover have "ndigits b (n div b) = Suc (ndigits b (n div b) - 1)"
      using False less.prems by (subst (1 2) ndigits.simps) auto
    ultimately have "b ^ ndigits b (n div b) \<le> n" by (metis power_Suc)
    then show ?thesis using less.prems by (subst ndigits.simps) simp
  qed
qed

lemma ndigits_le_iff: "2 \<le> b \<Longrightarrow> ndigits b n \<le> k \<longleftrightarrow> n < b ^ k"
proof (cases "n = 0")
  case True
  then show "2 \<le> b \<Longrightarrow> ndigits b n \<le> k \<longleftrightarrow> n < b ^ k" by (simp add: ndigits.simps)
next
  case False
  assume b: "2 \<le> b"
  show "ndigits b n \<le> k \<longleftrightarrow> n < b ^ k"
  proof
    assume "ndigits b n \<le> k"
    then show "n < b ^ k"
      using ndigits_upper [OF b, of n] b
      by (meson less_le_trans power_increasing le_trans one_le_numeral)
  next
    assume "n < b ^ k"
    show "ndigits b n \<le> k"
    proof (rule ccontr)
      assume "\<not> ndigits b n \<le> k"
      then have "b ^ k \<le> b ^ (ndigits b n - 1)" using b by (intro power_increasing) auto
      then show False using ndigits_lower [OF b, of n] False \<open>n < b ^ k\<close> by linarith
    qed
  qed
qed

lemma bpow_nonneg: "0 < b \<Longrightarrow> 0 < bpow b e"
  by (simp add: bpow_def)

lemma bpow_add: "0 < b \<Longrightarrow> bpow b (d + e) = bpow b d * bpow b e"
proof -
  assume b: "0 < b"
  have *: "bpow b e = power_int (of_nat b) e" for e
    by (simp add: bpow_def power_int_def divide_inverse power_inverse)
  show ?thesis using b by (simp add: * power_int_add)
qed

lemma bpow_0 [simp]: "bpow b 0 = 1"
  by (simp add: bpow_def)

lemma bpow_of_nat: "bpow b (int k) = of_nat b ^ k"
  by (simp add: bpow_def)

lemma bpow_mono: "0 < b \<Longrightarrow> d \<le> e \<Longrightarrow> bpow b d \<le> bpow b e"
proof -
  assume b: "0 < b" and de: "d \<le> e"
  have "bpow b e = bpow b (d + int (nat (e - d)))" using de by simp
  also have "\<dots> = bpow b d * of_nat b ^ nat (e - d)" by (simp only: bpow_add [OF b] bpow_of_nat)
  finally have eq: "bpow b e = bpow b d * of_nat b ^ nat (e - d)" .
  have "(1 :: rat) \<le> of_nat b ^ nat (e - d)" using b by (simp add: one_le_power)
  then show ?thesis unfolding eq using bpow_nonneg [OF b, of d] by (simp add: mult_le_cancel_left1)
qed

text \<open>\<open>ilog\<close> is what its text says.\<close>

lemma ilog_less_iff:
  assumes b: "2 \<le> b" and r: "0 < r"
  shows "ilog b r < e \<longleftrightarrow> r < bpow b e"
proof (cases "1 \<le> r")
  case True
  let ?n = "nat \<lfloor>r\<rfloor>"
  have il: "ilog b r = int (ndigits b ?n) - 1" using True by (simp add: ilog_def)
  show ?thesis
  proof (cases "0 \<le> e")
    case True
    have "r < bpow b e \<longleftrightarrow> \<lfloor>r\<rfloor> < int b ^ nat e"
      using True by (simp add: bpow_def floor_less_iff)
    also have "\<dots> \<longleftrightarrow> ?n < b ^ nat e"
      using \<open>1 \<le> r\<close> by (metis nat_less_iff of_nat_power zero_le_floor order_trans zero_le_one)
    also have "\<dots> \<longleftrightarrow> ndigits b ?n \<le> nat e" using ndigits_le_iff [OF b] by simp
    finally show ?thesis using True by (simp add: il) linarith
  next
    case False
    have "bpow b e \<le> 1" using bpow_mono [of b e 0] False b by simp
    moreover have "0 < ndigits b ?n" using \<open>1 \<le> r\<close> b by (subst ndigits.simps) auto
    ultimately show ?thesis using \<open>1 \<le> r\<close> False by (simp add: il)
  qed
next
  case False
  let ?n = "nat (\<lceil>1 / r\<rceil> - 1)"
  have gt: "1 < 1 / r" using False r by simp
  then have c: "1 \<le> \<lceil>1 / r\<rceil>" by linarith
  have il: "ilog b r = - int (ndigits b ?n)" using False by (simp add: ilog_def)
  have n: "int ?n = \<lceil>1 / r\<rceil> - 1" using c by simp
  show ?thesis
  proof (cases "e \<le> 0")
    case True
    have "r < bpow b e \<longleftrightarrow> \<not> 1 / r \<le> of_nat b ^ nat (- e)"
    proof -
      have "bpow b e = 1 / of_nat b ^ nat (- e)" using True by (auto simp: bpow_def)
      moreover have "0 < (of_nat b :: rat) ^ nat (- e)" using b by simp
      ultimately show ?thesis using r
        by (simp only: pos_less_divide_eq pos_divide_le_eq not_le mult.commute [of r])
    qed
    also have "\<dots> \<longleftrightarrow> \<not> \<lceil>1 / r\<rceil> \<le> int b ^ nat (- e)" by (simp add: ceiling_le_iff)
    also have "\<dots> \<longleftrightarrow> \<not> int ?n < int (b ^ nat (- e))" using n by auto
    also have "\<dots> \<longleftrightarrow> \<not> ndigits b ?n \<le> nat (- e)"
      by (simp only: of_nat_less_iff ndigits_le_iff [OF b])
    finally show ?thesis using True by (simp add: il) linarith
  next
    case False
    then have "1 \<le> bpow b e" using bpow_mono [of b 0 e] b by simp
    moreover have "r < 1" using \<open>\<not> 1 \<le> r\<close> by simp
    ultimately show ?thesis using False by (simp add: il)
  qed
qed

lemma ilog_le: "2 \<le> b \<Longrightarrow> 0 < r \<Longrightarrow> bpow b (ilog b r) \<le> r"
  using ilog_less_iff [of b r "ilog b r"] by simp

lemma ilog_mono: "2 \<le> b \<Longrightarrow> 0 < r \<Longrightarrow> r \<le> s \<Longrightarrow> ilog b r \<le> ilog b s"
  using ilog_less_iff [of b r "ilog b s + 1"] ilog_less_iff [of b s "ilog b s + 1"] by simp

lemma rne_of_int [simp]: "rne (of_int i) = i"
  by (simp add: rne_def)

lemma rne_mono: "x \<le> y \<Longrightarrow> rne x \<le> rne y"
proof -
  assume le: "x \<le> y"
  then have f: "\<lfloor>x\<rfloor> \<le> \<lfloor>y\<rfloor>" by (rule floor_mono)
  have b: "\<lfloor>z\<rfloor> \<le> rne z" "rne z \<le> \<lfloor>z\<rfloor> + 1" for z by (simp_all add: rne_def Let_def)
  show ?thesis
  proof (cases "\<lfloor>x\<rfloor> = \<lfloor>y\<rfloor>")
    case True
    then show ?thesis using le by (auto simp: rne_def Let_def)
  next
    case False
    then show ?thesis using b [of x] b [of y] f by linarith
  qed
qed

lemma rne_ge: "of_int i \<le> x \<Longrightarrow> i \<le> rne x"
  using rne_mono [of "of_int i" x] by simp

lemma rne_le: "x \<le> of_int i \<Longrightarrow> rne x \<le> i"
  using rne_mono [of x "of_int i"] by simp


definition exponent_of :: "rat \<Rightarrow> int" where
  "exponent_of r = max (- 1074) (ilog 2 r - 52)"

lemma round_mag_pos:
  "0 < r \<Longrightarrow> round_mag r = of_int (rne (r / bpow 2 (exponent_of r))) * bpow 2 (exponent_of r)"
  by (simp add: round_mag_def exponent_of_def Let_def)

lemma round_mag_mono:
  assumes "0 < r" "r \<le> s"
  shows "round_mag r \<le> round_mag s"
proof -
  let ?e = "exponent_of r" and ?f = "exponent_of s"
  note pos = bpow_nonneg [of 2]
  have le: "?e \<le> ?f" using ilog_mono [of 2 r s] assms by (simp add: exponent_of_def)
  have s: "0 < s" using assms by simp
  show ?thesis
  proof (cases "?e = ?f")
    case True
    have "rne (r / bpow 2 ?f) \<le> rne (s / bpow 2 ?f)"
      using assms pos [of ?f] by (intro rne_mono divide_right_mono) auto
    then show ?thesis
      using pos [of ?f] by (simp add: round_mag_pos assms(1) s True mult_right_mono)
  next
    case False
    with le have f: "?f = ilog 2 s - 52" "?e + 53 \<le> ?f + 52" by (auto simp: exponent_of_def)
    have "bpow 2 (?f + 52) \<le> s" using ilog_le [of 2 s] s f(1) by simp
    then have "of_int (2 ^ 52) \<le> s / bpow 2 ?f"
      using pos [of ?f] bpow_of_nat [of 2 52] by (simp add: bpow_add pos_le_divide_eq mult.commute)
    then have "of_int (2 ^ 52) \<le> (of_int (rne (s / bpow 2 ?f)) :: rat)"
      using rne_ge by (metis of_int_le_iff)
    then have lo: "bpow 2 (?f + 52) \<le> round_mag s"
      using pos [of ?f] bpow_of_nat [of 2 52]
      by (simp add: round_mag_pos s bpow_add mult.commute mult_right_mono)
    have "ilog 2 r < ?e + 53" by (simp add: exponent_of_def max_def)
    then have "r < bpow 2 (?e + 53)" using ilog_less_iff [of 2 r "?e + 53"] assms by simp
    then have "r / bpow 2 ?e \<le> of_int (2 ^ 53)"
      using pos [of ?e] bpow_of_nat [of 2 53] by (simp add: bpow_add pos_divide_le_eq mult.commute)
    then have "(of_int (rne (r / bpow 2 ?e)) :: rat) \<le> of_int (2 ^ 53)"
      using rne_le by (metis of_int_le_iff)
    then have hi: "round_mag r \<le> bpow 2 (?e + 53)"
      using pos [of ?e] bpow_of_nat [of 2 53]
      by (simp add: round_mag_pos assms(1) bpow_add mult.commute mult_left_mono)
    show ?thesis using lo hi bpow_mono [of 2 "?e + 53" "?f + 52"] f(2) by simp
  qed
qed

lemma round_mag_0 [simp]: "round_mag 0 = 0"
  by (simp add: round_mag_def)

lemma round_mag_exact:
  assumes "0 < r" "r = of_int k * bpow 2 (exponent_of r)"
  shows "round_mag r = r"
proof -
  have "r / bpow 2 (exponent_of r) = of_int k"
    using assms bpow_nonneg [of 2 "exponent_of r"] by (metis less_irrefl nonzero_mult_div_cancel_right zero_less_numeral)
  then show ?thesis using assms by (simp add: round_mag_pos)
qed

lemma round_mag_nat:
  assumes "n \<le> 2 ^ 53"
  shows "round_mag (of_nat n) = of_nat n"
proof (cases "n = 0")
  case False
  let ?e = "exponent_of (of_nat n)"
  have "(of_nat n :: rat) < bpow 2 54" using assms by (simp add: bpow_def flip: of_nat_less_iff)
  then have "ilog 2 (of_nat n) < 54" using ilog_less_iff [of 2 "of_nat n" 54] False by simp
  then have e: "?e \<le> 1" by (simp add: exponent_of_def)
  show ?thesis
  proof (cases "?e = 1")
    case True
    have "\<not> (of_nat n :: rat) < bpow 2 53"
      using ilog_less_iff [of 2 "of_nat n" 53] False True
      by (simp add: exponent_of_def max_def split: if_splits)
    then have "\<not> (of_nat n :: rat) < of_nat (2 ^ 53)" by (simp add: bpow_def)
    then have n: "n = 2 ^ 53" using assms by (simp only: of_nat_less_iff)
    show ?thesis
    proof (rule round_mag_exact [where k = "2 ^ 52"])
      show "(of_nat n :: rat) = of_int (2 ^ 52) * bpow 2 ?e"
        unfolding True using n by (simp add: bpow_def)
    qed (use \<open>n \<noteq> 0\<close> in simp)
  next
    case False
    with e have e0: "?e \<le> 0" by simp
    have "(of_nat n :: rat) = of_nat n * (bpow 2 (- ?e) * bpow 2 ?e)"
      by (simp flip: bpow_add)
    also have "\<dots> = of_int (int n * 2 ^ nat (- ?e)) * bpow 2 ?e"
      using e0 by (simp add: bpow_def [of 2 "- ?e"])
    finally show ?thesis
      using \<open>n \<noteq> 0\<close> round_mag_exact [of "of_nat n" "int n * 2 ^ nat (- ?e)"] by linarith
  qed
qed simp

lemma of_int64_exact:
  assumes "\<bar>i\<bar> \<le> 2 ^ 53"
  shows "of_int64 i = DFin (i < 0) (of_int \<bar>i\<bar>)"
proof -
  have "round_mag (of_int \<bar>i\<bar>) = of_int \<bar>i\<bar>"
    using round_mag_nat [of "nat \<bar>i\<bar>"] assms by simp
  moreover have "(of_int \<bar>i\<bar> :: rat) < 2 ^ 1024"
  proof -
    have "(of_int \<bar>i\<bar> :: rat) \<le> 2 ^ 53" using assms by (metis of_int_le_iff of_int_numeral of_int_power)
    also have "\<dots> < 2 ^ 1024" by simp
    finally show ?thesis .
  qed
  ultimately show ?thesis by (simp add: of_int64_def of_signed_def mk_double_def)
qed

lemma of_int64_finite:
  assumes "\<bar>i\<bar> \<le> 2 ^ 63"
  shows "of_int64 i = DFin (i < 0) (round_mag (of_int \<bar>i\<bar>))"
proof (cases "i = 0")
  case False
  have "bpow 2 63 = (of_int \<bar>2 ^ 63\<bar> :: rat)" by (simp add: bpow_def)
  moreover have "ilog 2 (2 ^ 63) = 63"
    using ilog_less_iff [of 2 "2 ^ 63" 63] ilog_less_iff [of 2 "2 ^ 63" 64]
    by (simp add: bpow_def)
  then have e: "exponent_of (2 ^ 63) = 11" by (simp add: exponent_of_def)
  have "round_mag (2 ^ 63) = 2 ^ 63"
  proof (rule round_mag_exact [where k = "2 ^ 52"])
    show "(2 ^ 63 :: rat) = of_int (2 ^ 52) * bpow 2 (exponent_of (2 ^ 63))"
      unfolding e by (simp add: bpow_def)
  qed simp
  then have "round_mag (bpow 2 63) = bpow 2 63" by (simp add: bpow_def)
  moreover have "(of_int \<bar>i\<bar> :: rat) \<le> of_int \<bar>2 ^ 63\<bar>" using assms by (simp only: of_int_le_iff)
  ultimately have "round_mag (of_int \<bar>i\<bar>) \<le> bpow 2 63"
    using round_mag_mono [of "of_int \<bar>i\<bar>" "bpow 2 63"] False by simp
  also have "\<dots> < 2 ^ 1024" by (simp add: bpow_def)
  finally show ?thesis using False by (simp add: of_int64_def of_signed_def mk_double_def)
qed (simp add: of_int64_def of_signed_def)

lemma round_mag_nonneg: "0 \<le> r \<Longrightarrow> 0 \<le> round_mag r"
  using bpow_nonneg [of 2 "exponent_of r"] rne_ge [of 0 "r / bpow 2 (exponent_of r)"]
  by (cases "r = 0") (simp_all add: round_mag_pos)

text \<open>Converting integers never inverts their order.\<close>

lemma of_int64_mono:
  assumes "\<bar>i\<bar> \<le> 2 ^ 63" "\<bar>j\<bar> \<le> 2 ^ 63" "i \<le> j"
  shows "\<not> dlt (of_int64 j) (of_int64 i)"
proof -
  have m: "round_mag (of_int a) \<le> round_mag (of_int b)" if "0 \<le> a" "a \<le> b" for a b
    using that round_mag_mono [of "of_int a" "of_int b"] round_mag_nonneg [of "of_int b"]
    by (cases "a = 0") auto
  have "sval (i < 0) (round_mag (of_int \<bar>i\<bar>)) \<le> sval (j < 0) (round_mag (of_int \<bar>j\<bar>))"
    using assms(3) m [of "\<bar>i\<bar>" "\<bar>j\<bar>"] m [of "\<bar>j\<bar>" "\<bar>i\<bar>"]
      round_mag_nonneg [of "of_int \<bar>i\<bar>"] round_mag_nonneg [of "of_int \<bar>j\<bar>"]
    by (auto simp: sval_def)
  then show ?thesis using assms by (simp add: of_int64_finite)
qed


section \<open>Integers as text\<close>

lemma list_all_digits: "list_all is_digit (dec_nat n)"
  using dec_nat_digits [of n] by (simp add: list_all_iff)

lemma IsIntegerText_dec: "IsIntegerText (dec_int i)"
proof (cases "i < 0")
  case True
  then show ?thesis by (auto simp: IsIntegerText_def dec_int_def list_all_digits)
next
  case False
  have "hd (dec_nat n) \<noteq> CHR ''-'' \<and> hd (dec_nat n) \<noteq> CHR ''+''" for n
    using dec_nat_hd [of n] by auto
  then show ?thesis using False by (simp add: IsIntegerText_def dec_int_def list_all_digits)
qed

lemma FromLegacyString_dec:
  "LLONG_MIN \<le> i \<Longrightarrow> i \<le> LLONG_MAX \<Longrightarrow> FromLegacyString (dec_int i) = SqlInteger i"
  using IsIntegerText_dec [of i]
  by (auto simp: FromLegacyString_def stoll_dec_int IsIntegerText_def)

lemma value_selectors [simp]:
  "ToLegacyString (SqlInteger i) = dec_int i" "ToLegacyString (SqlText s) = s"
  "ToLegacyString (SqlReal d) = fmt_g 6 d" "ToLegacyString SqlNull = []"
  "IsNull SqlNull" "\<not> IsNull (SqlInteger i)" "\<not> IsNull (SqlText s)" "\<not> IsNull (SqlReal d)"
  "AffinityOfValue (SqlInteger i) = AInteger" "AffinityOfValue (SqlReal d) = AReal"
  "AffinityOfValue (SqlText s) = AffinityOf s" "AffinityOfValue SqlNull = ANull"
  "SqlValueAsReal (SqlInteger i) = of_int64 i" "SqlValueAsReal (SqlReal d) = d"
  "SqlValueAsReal (SqlText s) = strtod_val s"
  by (simp_all add: ToLegacyString_def SqlNull_def SqlInteger_def SqlText_def SqlReal_def IsNull_def
      AffinityOfValue_def SqlValueAsReal_def)

text \<open>An integer written to a row as text is read back as the same integer, whatever its size.\<close>

theorem integer_text_roundtrip:
  assumes "LLONG_MIN \<le> i" "i \<le> LLONG_MAX"
  shows "FromLegacyString (ToLegacyString (SqlInteger i)) = SqlInteger i"
  using assms by (simp add: FromLegacyString_dec)

theorem integer_text_roundtrip_witness:
  "FromLegacyString (ToLegacyString (SqlInteger (- 9223372036854775808))) = SqlInteger (- 9223372036854775808)"
  by (rule integer_text_roundtrip) (simp_all add: LLONG_MIN_def LLONG_MAX_def)

section \<open>Comparing integers\<close>

lemma to_int64_of_int64: "\<bar>i\<bar> \<le> 2 ^ 53 \<Longrightarrow> to_int64 (of_int64 i) = i"
  by (auto simp: of_int64_exact sval_def trunc_def LLONG_MIN_def LLONG_MAX_def)

definition int_cmp :: "binary_op \<Rightarrow> int \<Rightarrow> int \<Rightarrow> bool" where
  "int_cmp op i j = (case op of OpEq \<Rightarrow> i = j | OpNe \<Rightarrow> i \<noteq> j | OpLt \<Rightarrow> i < j | OpLe \<Rightarrow> i \<le> j
     | OpGt \<Rightarrow> j < i | OpGe \<Rightarrow> j \<le> i | _ \<Rightarrow> False)"

definition comparison :: "binary_op \<Rightarrow> bool" where
  "comparison op \<longleftrightarrow> op \<in> {OpEq, OpNe, OpLt, OpLe, OpGt, OpGe}"

lemma dec_int_inj: "dec_int i = dec_int j \<longleftrightarrow> i = j"
  by (metis option.inject scan_int_dec_int)

lemma sval_abs: "sval (k < 0) \<bar>of_int k\<bar> = of_int k"
  by (simp add: sval_def)

lemma compare_equal_integers:
  assumes "\<bar>i\<bar> \<le> 2 ^ 53" "\<bar>j\<bar> \<le> 2 ^ 53"
  shows "compare_equal (SqlInteger i) (SqlInteger j) hint \<longleftrightarrow> i = j"
proof (cases "hint = AReal")
  case True
  then show ?thesis
    using assms by (simp add: compare_equal_def CombinedAffinity_def of_int64_exact sval_abs)
next
  case False
  then show ?thesis
    using assms to_int64_of_int64 [of i] to_int64_of_int64 [of j]
    by (cases hint) (simp_all add: compare_equal_def CombinedAffinity_def dec_int_inj)
qed

lemma rel_double_integers:
  assumes "\<bar>i\<bar> \<le> 2 ^ 53" "\<bar>j\<bar> \<le> 2 ^ 53" "op \<in> {OpLt, OpLe, OpGt, OpGe}"
  shows "rel_double op (of_int64 i) (of_int64 j) \<longleftrightarrow> int_cmp op i j"
  using assms by (auto simp: of_int64_exact sval_abs dle_def int_cmp_def)

lemma compare_order_integers:
  "compare_order (SqlInteger i) (SqlInteger j) op = rel_double op (of_int64 i) (of_int64 j)"
  by (simp add: compare_order_def numeric_affinity_def)

text \<open>Up to \<open>2 ^ 53\<close> in magnitude, two integers compare as integers under every affinity.\<close>

theorem compare_integers:
  assumes "\<bar>i\<bar> \<le> 2 ^ 53" "\<bar>j\<bar> \<le> 2 ^ 53" "comparison op"
  shows "CompareSqlValues (SqlInteger i) (SqlInteger j) op hint = truth_of (int_cmp op i j)"
proof (cases "op = OpEq \<or> op = OpNe")
  case True
  then show ?thesis
    using assms by (auto simp: CompareSqlValues_def eq_or_ne_def compare_equal_integers int_cmp_def)
next
  case False
  with assms have "op \<in> {OpLt, OpLe, OpGt, OpGe}" by (simp add: comparison_def)
  then show ?thesis
    using False rel_double_integers [OF assms(1,2), of op] compare_order_integers [of i j op]
    by (auto simp: CompareSqlValues_def)
qed

theorem compare_integers_witness:
  "CompareSqlValues (SqlInteger 7) (SqlInteger (- 2)) OpLt AInteger = truth_of (int_cmp OpLt 7 (- 2))"
  by (rule compare_integers) (simp_all add: comparison_def)

text \<open>Comparing through \<open>double\<close> conflates integers beyond \<open>2 ^ 53\<close> (two integers that round to the
  same \<open>double\<close> are equal in an \<open>INTEGER\<close> column), but it never inverts an order.\<close>

theorem compare_large_integers:
  assumes "\<bar>i\<bar> \<le> 2 ^ 63" "\<bar>j\<bar> \<le> 2 ^ 63"
  shows "(of_int64 i = of_int64 j \<longrightarrow>
      CompareSqlValues (SqlInteger i) (SqlInteger j) OpEq AInteger = TTrue) \<and>
    (CompareSqlValues (SqlInteger i) (SqlInteger j) OpLt hint = TTrue \<longrightarrow> i < j)"
proof (intro conjI impI)
  show "CompareSqlValues (SqlInteger i) (SqlInteger j) OpEq AInteger = TTrue"
    if "of_int64 i = of_int64 j"
    using that
    by (simp add: CompareSqlValues_def eq_or_ne_def compare_equal_def CombinedAffinity_def)
  show "i < j" if "CompareSqlValues (SqlInteger i) (SqlInteger j) OpLt hint = TTrue"
  proof (rule ccontr)
    assume "\<not> i < j"
    then have "\<not> dlt (of_int64 i) (of_int64 j)" using of_int64_mono [of j i] assms by simp
    then show False using that by (simp add: CompareSqlValues_def compare_order_integers)
  qed
qed

lemma floor_numerals:
  "\<lfloor>numeral a / numeral b :: rat\<rfloor> = numeral a div numeral b"
  "\<lceil>numeral a / numeral b :: rat\<rceil> = - (- numeral a div numeral b)"
  by (metis floor_divide_of_int_eq of_int_numeral)
    (metis ceiling_divide_eq_div of_int_numeral)

lemmas double_eval = of_int64_def of_signed_def mk_double_def round_mag_def ilog_def bpow_def rne_def
  ndigits.simps Let_def floor_numerals

theorem compare_large_integers_witness:
  "CompareSqlValues (SqlInteger (2 ^ 53 + 1)) (SqlInteger (2 ^ 53)) OpEq AInteger = TTrue"
proof -
  have "of_int64 (2 ^ 53 + 1) = of_int64 (2 ^ 53)"
    by (simp add: double_eval)
  then show ?thesis using compare_large_integers [of "2 ^ 53 + 1" "2 ^ 53"] by simp
qed

section \<open>Patterns\<close>

datatype like_tok = AnySeq | AnyOne | Chr char

text \<open>What a pattern means: its tokens, and the texts a list of tokens matches.\<close>

fun like_toks :: "char \<Rightarrow> string \<Rightarrow> like_tok list" where
  "like_toks esc [] = []"
| "like_toks esc [p] = [if p = CHR ''%'' then AnySeq else if p = CHR ''_'' then AnyOne else Chr p]"
| "like_toks esc (p # q # ps) =
     (if p = esc then Chr q # like_toks esc ps
      else (if p = CHR ''%'' then AnySeq else if p = CHR ''_'' then AnyOne else Chr p)
             # like_toks esc (q # ps))"

inductive like_lang :: "like_tok list \<Rightarrow> string \<Rightarrow> bool" where
  Nil: "like_lang [] []"
| Any: "like_lang ts t \<Longrightarrow> like_lang (AnySeq # ts) (u @ t)"
| One: "like_lang ts t \<Longrightarrow> like_lang (AnyOne # ts) (c # t)"
| Chr: "like_lang ts t \<Longrightarrow> like_lang (Chr c # ts) (c # t)"

inductive_cases like_lang_cases [elim!]:
  "like_lang [] t" "like_lang (AnySeq # ts) t" "like_lang (AnyOne # ts) t" "like_lang (Chr c # ts) t"

lemma like_lang_simps [simp]:
  "like_lang [] t \<longleftrightarrow> t = []"
  "like_lang (AnyOne # ts) t \<longleftrightarrow> (\<exists>c u. t = c # u \<and> like_lang ts u)"
  "like_lang (Chr c # ts) t \<longleftrightarrow> (\<exists>u. t = c # u \<and> like_lang ts u)"
  by (auto intro: like_lang.intros)

lemma like_lang_Any: "like_lang (AnySeq # ts) t \<longleftrightarrow> (\<exists>k \<le> length t. like_lang ts (drop k t))"
proof
  show "like_lang (AnySeq # ts) t \<Longrightarrow> \<exists>k \<le> length t. like_lang ts (drop k t)"
    by (elim like_lang_cases) (metis append_eq_conv_conj length_append le_add1)
  show "\<exists>k \<le> length t. like_lang ts (drop k t) \<Longrightarrow> like_lang (AnySeq # ts) t"
    by (metis append_take_drop_id like_lang.Any)
qed

lemma like_lang_Any_last: "like_lang [AnySeq] t"
  using like_lang.Any [OF like_lang.Nil, of t] by simp

lemma list_ex_upt: "list_ex P [0..<Suc n] \<longleftrightarrow> (\<exists>k \<le> n. P k)"
  by (auto simp: list_ex_iff less_Suc_eq_le simp del: upt_Suc)

lemma LikeMatchImpl_lang: "LikeMatchImpl esc ps t \<longleftrightarrow> like_lang (like_toks esc ps) t"
proof (induction ps arbitrary: t rule: like_toks.induct [of _ esc])
  case (2 esc p)
  show ?case
    by (cases t) (auto simp: LikeMatchImpl.simps(2) like_lang_Any_last)
next
  case (3 esc p q ps)
  consider (esc) "p = esc" | (any) "p \<noteq> esc" "p = CHR ''%''" | (chr) "p \<noteq> esc" "p \<noteq> CHR ''%''" by blast
  then show ?case
  proof cases
    case esc
    then show ?thesis using 3(1) by (cases t) (auto simp: LikeMatchImpl.simps(2))
  next
    case any
    then show ?thesis
      using 3(2) by (simp add: LikeMatchImpl.simps(2) list_ex_upt like_lang_Any del: upt_Suc)
  next
    case chr
    then show ?thesis using 3(2) by (cases t) (auto simp: LikeMatchImpl.simps(2))
  qed
qed simp

text \<open>C32. The backtracking matcher of \<open>LIKE\<close> accepts exactly the texts of its pattern's language.\<close>

theorem like_decides_language:
  "SqlLikeMatch t pat esc \<longleftrightarrow> like_lang (like_toks esc pat) t"
  by (simp add: SqlLikeMatch_def LikeMatchImpl_lang)

end
