(* ===== verification/SqlAst.thy ===== *)
theory SqlAst
  imports SqlValue
begin

text \<open>
  The syntax trees of the SQL layer: \<^verbatim>\<open>sql/ast/expr_ast.h\<close>, \<^verbatim>\<open>sql/ast/select_ast.h\<close>,
  \<^verbatim>\<open>sql/ast/minimal_ast.h\<close>, \<^verbatim>\<open>sql/ast/advanced_ast.h\<close>, \<^verbatim>\<open>sql/ast/query_ast.h\<close> and the column
  definitions of \<^verbatim>\<open>sql/catalog/row_codec.h\<close>. An owning pointer that may be null is an option; the
  recursive structures are datatypes with the fields of the code as selectors.
\<close>

section \<open>Expressions and queries\<close>

datatype expr_kind = ELiteral | EColumn | EBinary | EUnary | EIsNull | EFunction | ESubquery

record agg_spec =
  ag_func :: string
  ag_column :: string
  ag_alias :: string
  ag_distinct :: bool
  ag_separator :: string

datatype join_type = JInner | JLeft | JRight | JFull | JCross

record join_spec =
  js_type :: join_type
  js_table :: string
  js_left_table :: string
  js_left_col :: string
  js_right_table :: string
  js_right_col :: string

record order_spec =
  os_column :: string
  os_descending :: bool

datatype expr = ExprNode
    (en_kind: expr_kind) (en_literal: string) (en_column: string) (en_table: string)
    (en_op: binary_op) (en_func: string) (en_children: "expr list")
    (en_is_null_check: bool) (en_is_not: bool) (en_subquery: "subquery_spec option")
  and subquery_spec = SubquerySpec
    (sq_exists: bool) (sq_scalar: bool) (sq_not_op: bool) (sq_correlated: bool) (sq_sql: string)
    (sq_parsed_query: "select_query option") (sq_lhs: "expr option") (sq_in_literals: "string list")
  and select_query = SelectQuery
    (q_project_cols: "string list") (q_from_table: string) (q_joins: "join_spec list")
    (q_where: "expr option") (q_group_by: "string list") (q_having: "expr option")
    (q_order_by: "order_spec list") (q_limit: "u64 option") (q_offset: "u64 option")
    (q_distinct: bool) (q_aggregates: "agg_spec list") (q_scalar_projects: "expr list")
    (q_eq_key: "string option") (q_max_pages: "u64 option")

definition default_agg :: agg_spec where
  "default_agg = \<lparr>ag_func = [], ag_column = [], ag_alias = [], ag_distinct = False,
     ag_separator = '',''\<rparr>"

definition default_expr :: expr where
  "default_expr = ExprNode ELiteral [] [] [] OpEq [] [] False False None"

definition default_subquery :: subquery_spec where
  "default_subquery = SubquerySpec False False False False [] None None []"

definition default_query :: select_query where
  "default_query = SelectQuery [] [] [] None [] None [] None None False [] [] None None"

text \<open>The constructors the parser and the executors build nodes with.\<close>

definition MakeLiteral :: "string \<Rightarrow> expr" where
  "MakeLiteral v = ExprNode ELiteral v [] [] OpEq [] [] False False None"

definition MakeColumn :: "string \<Rightarrow> string \<Rightarrow> expr" where
  "MakeColumn table col = ExprNode EColumn [] col table OpEq [] [] False False None"

definition MakeBinary :: "binary_op \<Rightarrow> expr \<Rightarrow> expr \<Rightarrow> expr" where
  "MakeBinary op l r = ExprNode EBinary [] [] [] op [] [l, r] False False None"

definition MakeIsNull :: "bool \<Rightarrow> expr \<Rightarrow> expr" where
  "MakeIsNull check e = ExprNode EIsNull [] [] [] OpEq [] [e] check False None"

definition MakeFunction :: "string \<Rightarrow> expr list \<Rightarrow> expr" where
  "MakeFunction fn args = ExprNode EFunction [] [] [] OpEq fn args False False None"

definition MakeSubquery :: "subquery_spec \<Rightarrow> expr" where
  "MakeSubquery sq = ExprNode ESubquery [] [] [] OpEq [] [] False False (Some sq)"

fun with_not :: "expr \<Rightarrow> expr" where
  "with_not (ExprNode k l c t op f cs nc n sq) = ExprNode k l c t op f cs nc True sq"

text \<open>Cloning a tree does not clone its subquery.\<close>

fun CloneExpr :: "expr \<Rightarrow> expr" where
  "CloneExpr (ExprNode k l c t op f cs nc n sq) = ExprNode k l c t op f (map CloneExpr cs) nc n None"

section \<open>Statements\<close>

record column_def =
  cd_name :: string
  cd_type :: string
  cd_not_null :: bool
  cd_primary_key :: bool
  cd_check_expr :: string

definition column :: "string \<Rightarrow> string \<Rightarrow> column_def" where
  "column n t = \<lparr>cd_name = n, cd_type = t, cd_not_null = False, cd_primary_key = False,
     cd_check_expr = []\<rparr>"

datatype attestation_mode = AttOff | AttMonitor | AttRequirePass | AttAllowWarn

record open_stmt =
  op_path :: string
  op_durability :: string
  op_recovery_max_missing :: u64
  op_attestation :: attestation_mode

record create_table_stmt =
  ct_table :: string
  ct_key_column :: string
  ct_value_column :: string
  ct_columns :: "column_def list"

record insert_stmt =
  in_table :: string
  in_column_names :: "string list"
  in_values :: "string list"
  in_select_sql :: string
  in_key :: string
  in_value :: string
  in_conflict_action :: string

record select_stmt =
  ss_table :: string
  ss_key :: string
  ss_max_pages :: "u64 option"

record join_clause =
  jc_join_type :: string
  jc_table :: string
  jc_left_col :: string
  jc_right_col :: string

record create_index_stmt =
  ci_name :: string
  ci_table :: string
  ci_columns :: "string list"
  ci_unique :: bool

record upsert_stmt =
  up_table :: string
  up_key :: string
  up_value :: string
  up_conflict_action :: string

record create_view_stmt =
  cv_name :: string
  cv_base_table :: string
  cv_key_column :: string
  cv_value_column :: string
  cv_where_filter :: "expr option"

record create_trigger_stmt =
  tg_name :: string
  tg_table :: string
  tg_event :: string
  tg_body_sql :: string

record update_stmt =
  ud_table :: string
  ud_set_col :: string
  ud_set_value :: string
  ud_set_expr :: "expr option"
  ud_assignments :: "(string \<times> expr) list"
  ud_where_col :: "string option"
  ud_where_value :: "string option"
  ud_where_expr :: "expr option"

record delete_stmt =
  dl_table :: string
  dl_where_col :: "string option"
  dl_where_value :: "string option"
  dl_where_expr :: "expr option"

record cte_query =
  cte_recursive :: bool
  cte_entries :: "(string \<times> select_query) list"
  cte_main :: select_query

datatype setop_kind = SUnion | SIntersect | SExcept

record setop_query =
  so_op :: setop_kind
  so_all :: bool
  so_left :: select_query
  so_right :: select_query

record window_query =
  wq_func :: string
  wq_partition_col :: string
  wq_order_col :: string
  wq_order_desc :: bool
  wq_query :: select_query

datatype stmt_kind =
    KOpen | KCreateTable | KDropTable | KAlterTable | KCreateIndex | KDropIndex | KInsert | KUpdate
  | KDelete | KSelect | KBeginTxn | KCommit | KRollback | KSavepoint | KWithCte | KSetOp
  | KWindowSelect | KPrepare | KExecute | KUpsert | KCreateView | KDropView | KCreateTrigger
  | KDropTrigger | KReindex | KPragma | KShow | KSet | KGrant | KExplain | KUnknown

record query_stmt =
  qs_kind :: stmt_kind
  qs_raw_sql :: string
  qs_open :: open_stmt
  qs_create_table :: create_table_stmt
  qs_create_index :: create_index_stmt
  qs_drop_index :: string
  qs_drop_table :: string
  qs_alter_table :: "string \<times> string"
  qs_insert :: insert_stmt
  qs_upsert :: upsert_stmt
  qs_prepare :: "string \<times> string"
  qs_execute :: string
  qs_create_view :: create_view_stmt
  qs_drop_view :: string
  qs_create_trigger :: create_trigger_stmt
  qs_drop_trigger :: string
  qs_reindex_target :: string
  qs_update :: update_stmt
  qs_delete :: delete_stmt
  qs_select :: select_stmt
  qs_select_rich :: "select_query option"
  qs_cte :: "cte_query option"
  qs_setop :: "setop_query option"
  qs_window :: "window_query option"
  qs_joins :: "join_clause list"

definition IsParseOnlyKind :: "stmt_kind \<Rightarrow> bool" where
  "IsParseOnlyKind k \<longleftrightarrow> k \<in> {KShow, KSet, KGrant}"

definition FeatureNotSupported :: "string \<Rightarrow> status" where
  "FeatureNotSupported feature = Status_InvalidArgument (''SQLFeatureNotSupported: '' @ feature)"

definition default_insert :: insert_stmt where
  "default_insert = \<lparr>in_table = [], in_column_names = [], in_values = [], in_select_sql = [],
     in_key = [], in_value = [], in_conflict_action = []\<rparr>"

definition default_stmt :: query_stmt where
  "default_stmt = \<lparr>qs_kind = KUnknown, qs_raw_sql = [],
     qs_open = \<lparr>op_path = [], op_durability = ''balanced'', op_recovery_max_missing = 0,
       op_attestation = AttMonitor\<rparr>,
     qs_create_table = \<lparr>ct_table = [], ct_key_column = ''key'', ct_value_column = ''value'',
       ct_columns = []\<rparr>,
     qs_create_index = \<lparr>ci_name = [], ci_table = [], ci_columns = [], ci_unique = False\<rparr>,
     qs_drop_index = [], qs_drop_table = [], qs_alter_table = ([], []),
     qs_insert = default_insert,
     qs_upsert = \<lparr>up_table = [], up_key = [], up_value = [], up_conflict_action = []\<rparr>,
     qs_prepare = ([], []), qs_execute = [],
     qs_create_view = \<lparr>cv_name = [], cv_base_table = [], cv_key_column = [], cv_value_column = [],
       cv_where_filter = None\<rparr>,
     qs_drop_view = [],
     qs_create_trigger = \<lparr>tg_name = [], tg_table = [], tg_event = [], tg_body_sql = []\<rparr>,
     qs_drop_trigger = [], qs_reindex_target = [],
     qs_update = \<lparr>ud_table = [], ud_set_col = [], ud_set_value = [], ud_set_expr = None,
       ud_assignments = [], ud_where_col = None, ud_where_value = None, ud_where_expr = None\<rparr>,
     qs_delete = \<lparr>dl_table = [], dl_where_col = None, dl_where_value = None, dl_where_expr = None\<rparr>,
     qs_select = \<lparr>ss_table = [], ss_key = [], ss_max_pages = None\<rparr>,
     qs_select_rich = None, qs_cte = None, qs_setop = None, qs_window = None, qs_joins = []\<rparr>"

end
