(* ===== verification/RowCodec.thy ===== *)
theory RowCodec
  imports SqlAst
begin

text \<open>
  Rows as stored texts: \<^verbatim>\<open>sql/catalog/row_codec.cc\<close>. A row is a map from column names to texts. The
  binary form has a count and length-prefixed names and values, the JSON form is written with
  escapes and read without. A decoder fills the map it is given even when it fails, and its callers
  use what it filled, so it returns its status and the map.

  The order in which an \<open>std::unordered_map\<close> is iterated is the argument \<open>iter\<close>; \<open>iter_ok\<close> says
  that it lists every key once.
\<close>

type_synonym row_map = "string \<Rightarrow> string option"

definition iter_ok :: "(row_map \<Rightarrow> string list) \<Rightarrow> bool" where
  "iter_ok iter \<longleftrightarrow> (\<forall>m. finite (dom m) \<longrightarrow> distinct (iter m) \<and> set (iter m) = dom m)"

section \<open>Texts and bytes\<close>

definition str_of_bytes :: "bytes \<Rightarrow> string" where
  "str_of_bytes bs = map (\<lambda>b. char_of (unat b)) bs"

definition bytes_of_str :: "string \<Rightarrow> bytes" where
  "bytes_of_str s = map (\<lambda>c. word_of_nat (code_of c)) s"

lemma length_str_of_bytes [simp]: "length (str_of_bytes bs) = length bs"
  by (simp add: str_of_bytes_def)

lemma length_bytes_of_str [simp]: "length (bytes_of_str s) = length s"
  by (simp add: bytes_of_str_def)

lemma bytes_of_str_of_bytes [simp]: "bytes_of_str (str_of_bytes bs) = bs"
  by (induction bs) (simp_all add: bytes_of_str_def str_of_bytes_def)

lemma str_of_bytes_of_str [simp]: "str_of_bytes (bytes_of_str s) = s"
proof -
  have "unat (word_of_nat (code_of c) :: byte) = code_of c" for c :: char
    by (simp add: unat_of_nat of_char_mod_256)
  then show ?thesis by (simp add: str_of_bytes_def bytes_of_str_def comp_def)
qed

lemma bytes_of_str_append [simp]: "bytes_of_str (s @ t) = bytes_of_str s @ bytes_of_str t"
  by (simp add: bytes_of_str_def)

section \<open>The binary form\<close>

definition kBinaryMagic :: string where
  "kBinaryMagic = ''EBR'' @ [CHR 0x03]"

definition AppendU32 :: "u32 \<Rightarrow> string" where
  "AppendU32 v = str_of_bytes (put_u32 v)"

definition ReadU32 :: "string \<Rightarrow> (u32 \<times> string) option" where
  "ReadU32 s = (if length s < 4 then None else Some (get_u32 (bytes_of_str (take 4 s)), drop 4 s))"

definition IsBinaryRow :: "string \<Rightarrow> bool" where
  "IsBinaryRow stored \<longleftrightarrow> prefix kBinaryMagic stored"

definition encode_field :: "string \<Rightarrow> string \<Rightarrow> string" where
  "encode_field name val = AppendU32 (word_of_nat (length name)) @ name
     @ AppendU32 (word_of_nat (length val)) @ val"

definition EncodeRowBinary :: "column_def list \<Rightarrow> row_map \<Rightarrow> string" where
  "EncodeRowBinary cols values = kBinaryMagic @ AppendU32 (word_of_nat (length cols))
     @ concat (map (\<lambda>c. case values (cd_name c) of None \<Rightarrow> [] | Some v \<Rightarrow> encode_field (cd_name c) v) cols)"

fun decode_fields :: "nat \<Rightarrow> string \<Rightarrow> row_map \<Rightarrow> status \<times> row_map" where
  "decode_fields 0 s m = (Status_Ok, m)"
| "decode_fields (Suc n) s m = (case ReadU32 s of
     None \<Rightarrow> (Status_CorruptPage ''binary row name'', m)
   | Some (name_len, s1) \<Rightarrow>
       if length s1 < unat name_len then (Status_CorruptPage ''binary row name trunc'', m)
       else let name = take (unat name_len) s1 in
         (case ReadU32 (drop (unat name_len) s1) of
            None \<Rightarrow> (Status_CorruptPage ''binary row val'', m)
          | Some (val_len, s2) \<Rightarrow>
              if length s2 < unat val_len then (Status_CorruptPage ''binary row val trunc'', m)
              else decode_fields n (drop (unat val_len) s2) (m(name \<mapsto> take (unat val_len) s2))))"

declare decode_fields.simps(2) [simp del]

definition DecodeRowBinary :: "string \<Rightarrow> status \<times> row_map" where
  "DecodeRowBinary stored =
     (if \<not> IsBinaryRow stored then (Status_InvalidArgument ''not binary row'', Map.empty)
      else (case ReadU32 (drop 4 stored) of
          None \<Rightarrow> (Status_CorruptPage ''binary row trunc'', Map.empty)
        | Some (count, s) \<Rightarrow> decode_fields (unat count) s Map.empty))"

section \<open>The JSON form\<close>

definition quote :: char where "quote = CHR 0x22"
definition backslash :: char where "backslash = CHR 0x5C"

definition JsonEscape :: "string \<Rightarrow> string" where
  "JsonEscape s = concat (map (\<lambda>c. if c = quote then [backslash, quote]
     else if c = backslash then [backslash, backslash] else [c]) s)"

definition json_pair :: "string \<Rightarrow> string \<Rightarrow> string" where
  "json_pair k v = quote # JsonEscape k @ [quote, CHR '':'', quote] @ JsonEscape v @ [quote]"

fun json_fields :: "column_def list \<Rightarrow> row_map \<Rightarrow> string list" where
  "json_fields [] values = []"
| "json_fields (c # cs) values = (case values (cd_name c) of
     None \<Rightarrow> json_fields cs values
   | Some v \<Rightarrow> json_pair (cd_name c) v # json_fields cs values)"

fun join_with :: "string \<Rightarrow> string list \<Rightarrow> string" where
  "join_with sep [] = []"
| "join_with sep [x] = x"
| "join_with sep (x # xs) = x @ sep @ join_with sep xs"

text \<open>The second look at the first column adds nothing: it was looked up in the loop.\<close>

definition EncodeRowJson :: "column_def list \<Rightarrow> row_map \<Rightarrow> string" where
  "EncodeRowJson cols values =
     ''{'' @ join_with '','' (json_fields cols values) @
     (if json_fields cols values = [] \<and> cols \<noteq> [] then
        (case values (cd_name (hd cols)) of None \<Rightarrow> [] | Some v \<Rightarrow> json_pair (cd_name (hd cols)) v)
      else []) @ ''}''"

definition cut :: "char \<Rightarrow> string \<Rightarrow> (string \<times> string) option" where
  "cut c s = (if c \<in> set s
     then Some (takeWhile (\<lambda>d. d \<noteq> c) s, tl (dropWhile (\<lambda>d. d \<noteq> c) s)) else None)"

lemma cut_length: "cut c s = Some (a, b) \<Longrightarrow> length b < length s"
proof -
  assume "cut c s = Some (a, b)"
  then have "c \<in> set s" "b = tl (dropWhile (\<lambda>d. d \<noteq> c) s)" by (auto simp: cut_def split: if_splits)
  then show ?thesis
    using length_dropWhile_le [of "\<lambda>d. d \<noteq> c" s]
    by (cases "dropWhile (\<lambda>d. d \<noteq> c) s") (auto simp: dropWhile_eq_Nil_conv)
qed

lemma cut_skip: "c \<notin> set p \<Longrightarrow> cut c (p @ c # s) = Some (p, s)"
  by (induction p) (auto simp: cut_def)

lemma cut_None: "c \<notin> set s \<Longrightarrow> cut c s = None"
  by (simp add: cut_def)

text \<open>One turn of the loop: the key and the value between the next quotes, and the rest.\<close>

definition json_step :: "string \<Rightarrow> (string \<times> string \<times> string) option" where
  "json_step s = (case cut quote s of None \<Rightarrow> None | Some (_, r1) \<Rightarrow>
     (case cut quote r1 of None \<Rightarrow> None | Some (key, r2) \<Rightarrow>
       (case cut CHR '':'' r2 of None \<Rightarrow> None | Some (_, r3) \<Rightarrow>
         (case cut quote r3 of None \<Rightarrow> None | Some (_, r4) \<Rightarrow>
           (case cut quote r4 of None \<Rightarrow> None | Some (val, r5) \<Rightarrow> Some (key, val, r5))))))"

lemma json_step_length: "json_step s = Some (k, v, r) \<Longrightarrow> length r < length s"
  by (auto simp: json_step_def split: option.splits dest!: cut_length)

function decode_json :: "string \<Rightarrow> row_map \<Rightarrow> row_map" where
  "decode_json s m = (case json_step s of None \<Rightarrow> m
     | Some (key, val, r) \<Rightarrow> decode_json r (m(key \<mapsto> val)))"
  by pat_completeness auto
termination by (relation "measure (length \<circ> fst)") (auto dest: json_step_length)

declare decode_json.simps [simp del]

definition DecodeRowJson :: "string \<Rightarrow> status \<times> row_map" where
  "DecodeRowJson json = (Status_Ok, decode_json json Map.empty)"

section \<open>Either form\<close>

definition DecodeRowFields :: "string \<Rightarrow> status \<times> row_map" where
  "DecodeRowFields stored = (if IsBinaryRow stored then DecodeRowBinary stored else DecodeRowJson stored)"

definition EncodeRow :: "column_def list \<Rightarrow> u32 \<Rightarrow> row_map \<Rightarrow> string" where
  "EncodeRow cols schema_version values =
     (if 3 \<le> schema_version then EncodeRowBinary cols values else EncodeRowJson cols values)"

definition UpdateRowJson :: "string \<Rightarrow> string \<Rightarrow> string \<Rightarrow> string res" where
  "UpdateRowJson json col value =
     (let (ds, fields) = DecodeRowJson json in
      if \<not> status_ok ds then Inl ds
      else Inr (EncodeRowJson [column col ''TEXT''] (fields(col \<mapsto> value))))"

definition UpdateRowFields :: "(row_map \<Rightarrow> string list) \<Rightarrow> string \<Rightarrow> string \<Rightarrow> string \<Rightarrow> string res" where
  "UpdateRowFields iter stored col value =
     (let (ds, fields0) = DecodeRowFields stored in
      if \<not> status_ok ds then Inl ds
      else let fields = fields0(col \<mapsto> value) in
        if IsBinaryRow stored
        then Inr (EncodeRowBinary (map (\<lambda>k. column k ''TEXT'') (iter fields)) fields)
        else Inr (EncodeRowJson [column col ''TEXT''] fields))"

section \<open>Properties\<close>

lemma ReadU32_Append [simp]: "ReadU32 (AppendU32 v @ s) = Some (v, s)"
  by (simp add: ReadU32_def AppendU32_def)

lemma ReadU32_short: "length s < 4 \<Longrightarrow> ReadU32 s = None"
  by (simp add: ReadU32_def)

text \<open>Texts shorter than 4 GiB keep their length in the 32-bit field.\<close>

definition short_text :: "string \<Rightarrow> bool" where
  "short_text s \<longleftrightarrow> length s < 2 ^ 32"

definition short_row :: "row_map \<Rightarrow> bool" where
  "short_row m \<longleftrightarrow> (\<forall>k v. m k = Some v \<longrightarrow> short_text k \<and> short_text v)"

lemma unat_len: "length s < 2 ^ 32 \<Longrightarrow> unat (word_of_nat (length s) :: u32) = length s"
  by (simp add: unat_of_nat)

lemma decode_field:
  assumes "short_text k" "short_text v"
  shows "decode_fields (Suc n) (encode_field k v @ s) m = decode_fields n s (m(k \<mapsto> v))"
  using assms by (simp add: encode_field_def short_text_def unat_len Let_def decode_fields.simps(2))

definition fields_of :: "column_def list \<Rightarrow> row_map \<Rightarrow> string" where
  "fields_of cols values =
     concat (map (\<lambda>c. case values (cd_name c) of None \<Rightarrow> [] | Some v \<Rightarrow> encode_field (cd_name c) v) cols)"

lemma decode_fields_of:
  assumes "short_row values" "length cols \<le> n"
  shows "decode_fields n (fields_of cols values) m =
    (if n \<le> length (filter (\<lambda>c. values (cd_name c) \<noteq> None) cols) then Status_Ok
     else Status_CorruptPage ''binary row name'', m ++ values |` (cd_name ` set cols))"
  using assms(2)
proof (induction cols arbitrary: n m)
  case Nil
  then show ?case by (cases n) (simp_all add: fields_of_def ReadU32_short decode_fields.simps(2))
next
  case (Cons c cols)
  then obtain k where n: "n = Suc k" by (cases n) auto
  show ?case
  proof (cases "values (cd_name c)")
    case None
    have "values |` insert (cd_name c) (cd_name ` set cols) = values |` (cd_name ` set cols)"
      using None by (auto simp: restrict_map_def fun_eq_iff)
    then show ?thesis using Cons.IH [of n m] Cons.prems None by (simp add: fields_of_def)
  next
    case (Some v)
    have sh: "short_text (cd_name c)" "short_text v" using assms(1) Some by (auto simp: short_row_def)
    have "m(cd_name c \<mapsto> v) ++ values |` (cd_name ` set cols) =
        m ++ values |` insert (cd_name c) (cd_name ` set cols)"
      using Some by (auto simp: map_add_def restrict_map_def fun_eq_iff split: option.split)
    moreover have "fields_of (c # cols) values = encode_field (cd_name c) v @ fields_of cols values"
      using Some by (simp add: fields_of_def)
    ultimately show ?thesis
      using Cons.IH [of k "m(cd_name c \<mapsto> v)"] Cons.prems Some decode_field [OF sh]
      by (simp add: n del: fun_upd_apply)
  qed
qed

lemma decode_encode_row:
  assumes "short_row values" "length cols < 2 ^ 32"
  shows "DecodeRowBinary (EncodeRowBinary cols values) =
    (if \<forall>c\<in>set cols. values (cd_name c) \<noteq> None then Status_Ok
     else Status_CorruptPage ''binary row name'', values |` (cd_name ` set cols))"
proof -
  let ?r = "EncodeRowBinary cols values"
  have "?r = kBinaryMagic @ AppendU32 (word_of_nat (length cols)) @ fields_of cols values"
    by (simp add: EncodeRowBinary_def fields_of_def)
  moreover have "length kBinaryMagic = 4" by (simp add: kBinaryMagic_def)
  ultimately have "IsBinaryRow ?r"
    "drop 4 ?r = AppendU32 (word_of_nat (length cols)) @ fields_of cols values"
    by (simp_all add: IsBinaryRow_def)
  moreover have "length cols \<le> length (filter P cols) \<longleftrightarrow> (\<forall>c\<in>set cols. P c)" for P :: "column_def \<Rightarrow> bool"
    using length_filter_le [of P cols] length_filter_less [of _ cols P]
    by (metis filter_True le_antisym linorder_not_le order_refl)
  ultimately show ?thesis
    using assms(2) decode_fields_of [OF assms(1), of cols "length cols" Map.empty]
    by (simp add: DecodeRowBinary_def unat_len)
qed

text \<open>C30. Decoding an encoded row gives the stored columns back, but unless every column of the table has
  a value the decoder reports corruption: the row counts the columns of the table and not the
  fields it holds.\<close>

theorem binary_row_decodes:
  assumes "short_row values" "length cols < 2 ^ 32"
  shows "DecodeRowBinary (EncodeRowBinary cols values) =
    (if \<forall>c\<in>set cols. values (cd_name c) \<noteq> None then Status_Ok
     else Status_CorruptPage ''binary row name'', values |` (cd_name ` set cols))"
  using assms by (rule decode_encode_row)

theorem binary_row_decodes_witness:
  "DecodeRowBinary (EncodeRowBinary [column ''a'' ''TEXT'', column ''b'' ''TEXT''] [''a'' \<mapsto> ''1'']) =
    (Status_CorruptPage ''binary row name'', [''a'' \<mapsto> ''1''])"
  using binary_row_decodes [of "[''a'' \<mapsto> ''1'']" "[column ''a'' ''TEXT'', column ''b'' ''TEXT'']"]
  by (auto simp: short_row_def short_text_def column_def restrict_map_def fun_eq_iff split: if_splits)

lemma json_plain: "quote \<notin> set s \<Longrightarrow> backslash \<notin> set s \<Longrightarrow> JsonEscape s = s"
  by (induction s) (auto simp: JsonEscape_def)

lemma json_step_pair:
  assumes "quote \<notin> set p" "quote \<notin> set k" "quote \<notin> set v"
  shows "json_step (p @ quote # k @ [quote, CHR '':'', quote] @ v @ quote # r) = Some (k, v, r)"
proof -
  have "cut quote (p @ quote # k @ [quote, CHR '':'', quote] @ v @ quote # r) =
      Some (p, k @ quote # CHR '':'' # quote # v @ quote # r)"
    using assms(1) cut_skip [of quote p] by simp
  moreover have "cut quote (k @ quote # CHR '':'' # quote # v @ quote # r) =
      Some (k, CHR '':'' # quote # v @ quote # r)"
    using assms(2) by (rule cut_skip)
  moreover have "cut CHR '':'' (CHR '':'' # quote # v @ quote # r) = Some ([], quote # v @ quote # r)"
    using cut_skip [of "CHR '':''" "[]"] by simp
  moreover have "cut quote (quote # v @ quote # r) = Some ([], v @ quote # r)"
    using cut_skip [of quote "[]"] by simp
  moreover have "cut quote (v @ quote # r) = Some (v, r)" using assms(3) by (rule cut_skip)
  ultimately show ?thesis by (simp add: json_step_def)
qed

lemma json_step_None: "quote \<notin> set s \<Longrightarrow> json_step s = None"
  by (simp add: json_step_def cut_None)

definition plain_text :: "string \<Rightarrow> bool" where
  "plain_text s \<longleftrightarrow> quote \<notin> set s \<and> backslash \<notin> set s"

lemma decode_json_pair:
  assumes "quote \<notin> set p" "plain_text k" "plain_text v"
  shows "decode_json (p @ json_pair k v @ r) m = decode_json r (m(k \<mapsto> v))"
proof -
  have "json_step (p @ json_pair k v @ r) = Some (k, v, r)"
    using json_step_pair [of p k v r] assms by (simp add: json_pair_def plain_text_def json_plain)
  then show ?thesis by (subst decode_json.simps) simp
qed

text \<open>Updating a column of a row in the JSON form forgets every other column of the row, whatever the
  row was.\<close>

theorem json_update_forgets:
  assumes "\<not> IsBinaryRow stored" "plain_text col" "plain_text v"
  shows "\<exists>r. UpdateRowFields iter stored col v = Inr r \<and> DecodeRowFields r = (Status_Ok, [col \<mapsto> v])"
proof -
  define r where "r = EncodeRowJson [column col ''TEXT''] ((snd (DecodeRowJson stored))(col \<mapsto> v))"
  have r: "r = ''{'' @ json_pair col v @ ''}''"
    by (simp add: r_def EncodeRowJson_def column_def)
  have nb: "\<not> IsBinaryRow r" by (simp add: r IsBinaryRow_def kBinaryMagic_def)
  have "decode_json r Map.empty = decode_json ''}'' [col \<mapsto> v]"
    using decode_json_pair [of "''{''" col v] assms by (simp add: r quote_def)
  also have "\<dots> = [col \<mapsto> v]" by (subst decode_json.simps) (simp add: json_step_None quote_def)
  finally have "DecodeRowFields r = (Status_Ok, [col \<mapsto> v])"
    using nb by (simp add: DecodeRowFields_def DecodeRowJson_def)
  moreover have "UpdateRowFields iter stored col v = Inr r"
    using assms(1) by (simp add: UpdateRowFields_def DecodeRowFields_def DecodeRowJson_def r_def
        status_ok_def Status_Ok_def)
  ultimately show ?thesis by blast
qed

theorem json_update_forgets_witness:
  "\<exists>r. UpdateRowFields (\<lambda>_. [''b'']) (EncodeRowJson [column ''a'' ''TEXT'', column ''b'' ''TEXT'']
      [''a'' \<mapsto> ''1'', ''b'' \<mapsto> ''2'']) ''b'' ''3'' = Inr r \<and> DecodeRowFields r = (Status_Ok, [''b'' \<mapsto> ''3''])"
  by (rule json_update_forgets)
    (simp_all add: EncodeRowJson_def column_def IsBinaryRow_def kBinaryMagic_def plain_text_def
      quote_def backslash_def)

text \<open>In the binary form the other columns stay.\<close>

lemma binary_update_keeps:
  assumes it: "iter_ok iter" and dec: "DecodeRowFields stored = (Status_Ok, m)" "IsBinaryRow stored"
    and sh: "short_row (m(col \<mapsto> v))" "finite (dom m)" "card (dom (m(col \<mapsto> v))) < 2 ^ 32"
  shows "\<exists>r. UpdateRowFields iter stored col v = Inr r \<and> DecodeRowFields r = (Status_Ok, m(col \<mapsto> v))"
proof -
  let ?m = "m(col \<mapsto> v)" and ?cols = "map (\<lambda>k. column k ''TEXT'') (iter (m(col \<mapsto> v)))"
  define r where "r = EncodeRowBinary ?cols ?m"
  have i: "distinct (iter ?m)" "set (iter ?m) = dom ?m"
    using it sh(2) by (simp_all add: iter_ok_def)
  have names: "cd_name ` set ?cols = dom ?m" using i(2) by (simp add: image_image column_def)
  have "length (iter ?m) = card (dom ?m)" using i by (metis distinct_card)
  then have len: "length ?cols < 2 ^ 32" using sh(3) by simp
  have all: "\<forall>c\<in>set ?cols. ?m (cd_name c) \<noteq> None" using i(2) by (auto simp: column_def)
  have "?m |` dom ?m = ?m" by (auto simp: restrict_map_def fun_eq_iff)
  moreover have "DecodeRowBinary r = (Status_Ok, ?m |` (cd_name ` set ?cols))"
    unfolding r_def decode_encode_row [OF sh(1) len] if_P [OF all] ..
  ultimately have "DecodeRowBinary r = (Status_Ok, ?m)" unfolding names by simp
  moreover have "IsBinaryRow r" by (simp add: r_def EncodeRowBinary_def IsBinaryRow_def)
  moreover have "UpdateRowFields iter stored col v = Inr r"
    using dec by (simp add: UpdateRowFields_def r_def status_ok_def Status_Ok_def Let_def)
  ultimately show ?thesis by (auto simp: DecodeRowFields_def)
qed

end
