(* ===== verification/Catalog.thy ===== *)
theory Catalog
  imports RowCodec
begin

text \<open>
  The catalog of tables, indexes, views and triggers: \<^verbatim>\<open>sql/catalog/catalog.cc\<close>. Every kind of object is
  kept twice, in a map by name and in a list in the order of creation. Rows and index entries of all
  tables share one key space of the engine; \<open>EncodeRowKey\<close> and \<open>EncodeIndexKey\<close> build the keys.
\<close>

record table_schema =
  ts_id :: u32
  ts_name :: string
  ts_key_column :: string
  ts_value_column :: string
  ts_columns :: "column_def list"
  ts_schema_version :: u32
  ts_compress_values :: bool
  ts_implicit_rowid :: bool
  ts_next_rowid :: u64

record index_def =
  ix_id :: u32
  ix_name :: string
  ix_table :: string
  ix_columns :: "string list"
  ix_unique :: bool

record view_def =
  vw_name :: string
  vw_table :: string
  vw_key_column :: string
  vw_value_column :: string
  vw_where_filter :: "expr option"

record trigger_def =
  tr_name :: string
  tr_table :: string
  tr_event :: string
  tr_body_sql :: string

record catalog =
  cat_next_id :: u32
  cat_next_index_id :: u32
  cat_tables :: "string \<Rightarrow> table_schema option"
  cat_table_list :: "table_schema list"
  cat_indexes :: "string \<Rightarrow> index_def option"
  cat_index_list :: "index_def list"
  cat_views :: "string \<Rightarrow> view_def option"
  cat_view_list :: "view_def list"
  cat_triggers :: "string \<Rightarrow> trigger_def option"
  cat_trigger_list :: "trigger_def list"

definition default_schema :: table_schema where
  "default_schema = \<lparr>ts_id = 0, ts_name = [], ts_key_column = ''key'', ts_value_column = ''value'',
     ts_columns = [], ts_schema_version = 1, ts_compress_values = True, ts_implicit_rowid = False,
     ts_next_rowid = 1\<rparr>"

definition empty_catalog :: catalog where
  "empty_catalog = \<lparr>cat_next_id = 1, cat_next_index_id = 1, cat_tables = Map.empty,
     cat_table_list = [], cat_indexes = Map.empty, cat_index_list = [], cat_views = Map.empty,
     cat_view_list = [], cat_triggers = Map.empty, cat_trigger_list = []\<rparr>"

definition cat_Clear :: "catalog \<Rightarrow> catalog" where
  "cat_Clear c = empty_catalog"

section \<open>Tables\<close>

definition FindTable :: "catalog \<Rightarrow> string \<Rightarrow> table_schema option" where
  "FindTable c name = cat_tables c name"

definition schema_of :: "u32 \<Rightarrow> string \<Rightarrow> column_def list \<Rightarrow> table_schema" where
  "schema_of tid name cols =
     (let pk = find cd_primary_key cols in
      default_schema\<lparr>ts_id := tid, ts_name := name, ts_columns := cols,
        ts_key_column := (case pk of Some c \<Rightarrow> cd_name c | None \<Rightarrow> cd_name (hd cols)),
        ts_implicit_rowid := (pk = None), ts_next_rowid := 1,
        ts_value_column := (if 1 < length cols then cd_name (cols ! 1) else cd_name (hd cols)),
        ts_schema_version := 3\<rparr>)"

definition CreateTable :: "string \<Rightarrow> column_def list \<Rightarrow> catalog \<Rightarrow> (catalog \<times> u32) res" where
  "CreateTable name cols c =
     (if name = [] then Inl (Status_InvalidArgument ''empty table name'')
      else if cat_tables c name \<noteq> None
      then Inl (Status_InvalidArgument (''table already exists: '' @ name))
      else if cols = [] then Inl (Status_InvalidArgument ''empty columns'')
      else let schema = schema_of (cat_next_id c) name cols in
        Inr (c\<lparr>cat_next_id := cat_next_id c + 1, cat_tables := (cat_tables c)(name \<mapsto> schema),
               cat_table_list := cat_table_list c @ [schema]\<rparr>, ts_id schema))"

definition CreateTableKV :: "string \<Rightarrow> string \<Rightarrow> string \<Rightarrow> catalog \<Rightarrow> (catalog \<times> u32) res" where
  "CreateTableKV name key_col value_col c =
     CreateTable name [column key_col ''TEXT'', column value_col ''TEXT''] c"

definition RestoreTableV2 :: "u32 \<Rightarrow> string \<Rightarrow> column_def list \<Rightarrow> catalog \<Rightarrow> catalog res" where
  "RestoreTableV2 tid name cols c =
     (if name = [] then Inl (Status_InvalidArgument ''empty table name'')
      else if cat_tables c name \<noteq> None
      then Inl (Status_InvalidArgument (''duplicate table in catalog sidecar: '' @ name))
      else let key = (if cols = [] then ''key'' else cd_name (hd cols));
               schema = default_schema\<lparr>ts_id := tid, ts_name := name, ts_columns := cols,
                 ts_key_column := key,
                 ts_value_column := (if 1 < length cols then cd_name (cols ! 1) else key),
                 ts_schema_version := 2\<rparr> in
        Inr (c\<lparr>cat_next_id := max (cat_next_id c) (tid + 1),
               cat_tables := (cat_tables c)(name \<mapsto> schema),
               cat_table_list := cat_table_list c @ [schema]\<rparr>))"

definition RestoreTable :: "u32 \<Rightarrow> string \<Rightarrow> string \<Rightarrow> string \<Rightarrow> catalog \<Rightarrow> catalog res" where
  "RestoreTable tid name key_col value_col c =
     RestoreTableV2 tid name [column key_col ''TEXT'', column value_col ''TEXT''] c"

text \<open>The first element that satisfies \<open>p\<close> is replaced.\<close>

fun change_first :: "('a \<Rightarrow> bool) \<Rightarrow> ('a \<Rightarrow> 'a) \<Rightarrow> 'a list \<Rightarrow> 'a list" where
  "change_first p f [] = []"
| "change_first p f (x # xs) = (if p x then f x # xs else x # change_first p f xs)"

definition AddColumn :: "string \<Rightarrow> column_def \<Rightarrow> catalog \<Rightarrow> catalog res" where
  "AddColumn table col c = (case cat_tables c table of
     None \<Rightarrow> Inl (Status_InvalidArgument ''unknown table'')
   | Some t \<Rightarrow>
       if list_ex (\<lambda>d. cd_name d = cd_name col) (ts_columns t)
       then Inl (Status_InvalidArgument ''duplicate column'')
       else let t' = t\<lparr>ts_columns := ts_columns t @ [col], ts_schema_version := 2\<rparr> in
         Inr (c\<lparr>cat_tables := (cat_tables c)(table \<mapsto> t'),
                cat_table_list := change_first (\<lambda>s. ts_id s = ts_id t') (\<lambda>_. t') (cat_table_list c)\<rparr>))"

text \<open>The list of tables keeps the old schema.\<close>

definition DropColumn :: "string \<Rightarrow> string \<Rightarrow> catalog \<Rightarrow> catalog res" where
  "DropColumn table col c = (case cat_tables c table of
     None \<Rightarrow> Inl (Status_InvalidArgument ''unknown table'')
   | Some t \<Rightarrow>
       let t' = t\<lparr>ts_columns := filter (\<lambda>d. cd_name d \<noteq> col) (ts_columns t), ts_schema_version := 2\<rparr> in
       Inr (c\<lparr>cat_tables := (cat_tables c)(table \<mapsto> t')\<rparr>))"

definition DropTable :: "string \<Rightarrow> catalog \<Rightarrow> catalog res" where
  "DropTable name c = (case cat_tables c name of
     None \<Rightarrow> Inl (Status_InvalidArgument (''unknown table: '' @ name))
   | Some t \<Rightarrow>
       Inr (c\<lparr>cat_tables := (cat_tables c)(name := None),
              cat_table_list := filter (\<lambda>s. ts_id s \<noteq> ts_id t) (cat_table_list c),
              cat_triggers := (\<lambda>k. case cat_triggers c k of None \<Rightarrow> None
                | Some tr \<Rightarrow> if tr_table tr = name then None else Some tr),
              cat_trigger_list := filter (\<lambda>tr. tr_table tr \<noteq> name) (cat_trigger_list c)\<rparr>))"

definition AllocateRowKey :: "string \<Rightarrow> catalog \<Rightarrow> (string \<times> catalog) res" where
  "AllocateRowKey name c = (case cat_tables c name of
     None \<Rightarrow> Inl (Status_InvalidArgument (''unknown table: '' @ name))
   | Some t \<Rightarrow>
       if \<not> ts_implicit_rowid t
       then Inl (Status_InvalidArgument (''table has no implicit rowid: '' @ name))
       else let t' = t\<lparr>ts_next_rowid := ts_next_rowid t + 1\<rparr> in
         Inr (dec_nat (unat (ts_next_rowid t)),
              c\<lparr>cat_tables := (cat_tables c)(name \<mapsto> t'),
                cat_table_list := change_first (\<lambda>s. ts_id s = ts_id t')
                  (\<lambda>s. s\<lparr>ts_next_rowid := ts_next_rowid t'\<rparr>) (cat_table_list c)\<rparr>))"

section \<open>Indexes, views and triggers\<close>

definition FindIndex :: "catalog \<Rightarrow> string \<Rightarrow> index_def option" where
  "FindIndex c name = cat_indexes c name"

definition IndexesForTable :: "catalog \<Rightarrow> string \<Rightarrow> index_def list" where
  "IndexesForTable c table = filter (\<lambda>i. ix_table i = table) (cat_index_list c)"

definition put_index :: "index_def \<Rightarrow> catalog \<Rightarrow> catalog" where
  "put_index i c = c\<lparr>cat_indexes := (cat_indexes c)(ix_name i \<mapsto> i),
     cat_index_list := cat_index_list c @ [i]\<rparr>"

definition RestoreIndex ::
  "u32 \<Rightarrow> string \<Rightarrow> string \<Rightarrow> string list \<Rightarrow> bool \<Rightarrow> catalog \<Rightarrow> catalog res" where
  "RestoreIndex tid name table cols unique c =
     (if name = [] \<or> table = [] \<or> cols = [] then Inl (Status_InvalidArgument ''invalid index restore'')
      else if cat_indexes c name \<noteq> None
      then Inl (Status_InvalidArgument (''duplicate index in catalog sidecar: '' @ name))
      else Inr (put_index \<lparr>ix_id = tid, ix_name = name, ix_table = table, ix_columns = cols,
          ix_unique = unique\<rparr> (c\<lparr>cat_next_index_id := max (cat_next_index_id c) (tid + 1)\<rparr>)))"

definition CreateIndex ::
  "string \<Rightarrow> string \<Rightarrow> string list \<Rightarrow> bool \<Rightarrow> catalog \<Rightarrow> (catalog \<times> u32) res" where
  "CreateIndex name table cols unique c =
     (if name = [] \<or> table = [] \<or> cols = [] then Inl (Status_InvalidArgument ''invalid index'')
      else if FindTable c table = None then Inl (Status_InvalidArgument ''unknown table'')
      else if cat_indexes c name \<noteq> None then Inl (Status_InvalidArgument ''index exists'')
      else Inr (put_index \<lparr>ix_id = cat_next_index_id c, ix_name = name, ix_table = table,
          ix_columns = cols, ix_unique = unique\<rparr> (c\<lparr>cat_next_index_id := cat_next_index_id c + 1\<rparr>),
        cat_next_index_id c))"

definition DropIndex :: "string \<Rightarrow> catalog \<Rightarrow> catalog res" where
  "DropIndex name c = (case cat_indexes c name of
     None \<Rightarrow> Inl (Status_InvalidArgument ''unknown index'')
   | Some i \<Rightarrow> Inr (c\<lparr>cat_indexes := (cat_indexes c)(name := None),
       cat_index_list := filter (\<lambda>d. ix_id d \<noteq> ix_id i) (cat_index_list c)\<rparr>))"

definition FindView :: "catalog \<Rightarrow> string \<Rightarrow> view_def option" where
  "FindView c name = cat_views c name"

definition CreateView ::
  "string \<Rightarrow> string \<Rightarrow> string \<Rightarrow> string \<Rightarrow> expr option \<Rightarrow> catalog \<Rightarrow> catalog res" where
  "CreateView name table key_col value_col filt c =
     (if cat_views c name \<noteq> None
      then Inl (Status_InvalidArgument (''view already exists: '' @ name))
      else let v = \<lparr>vw_name = name, vw_table = table, vw_key_column = key_col,
                    vw_value_column = value_col, vw_where_filter = filt\<rparr> in
        Inr (c\<lparr>cat_views := (cat_views c)(name \<mapsto> v), cat_view_list := cat_view_list c @ [v]\<rparr>))"

definition DropView :: "string \<Rightarrow> catalog \<Rightarrow> catalog res" where
  "DropView name c = (case cat_views c name of
     None \<Rightarrow> Inl (Status_InvalidArgument ''unknown view'')
   | Some v \<Rightarrow> Inr (c\<lparr>cat_views := (cat_views c)(name := None),
       cat_view_list := filter (\<lambda>v. vw_name v \<noteq> name) (cat_view_list c)\<rparr>))"

definition CreateTrigger :: "trigger_def \<Rightarrow> catalog \<Rightarrow> catalog res" where
  "CreateTrigger t c =
     (if cat_triggers c (tr_name t) \<noteq> None
      then Inl (Status_InvalidArgument (''trigger exists: '' @ tr_name t))
      else Inr (c\<lparr>cat_triggers := (cat_triggers c)(tr_name t \<mapsto> t),
                  cat_trigger_list := cat_trigger_list c @ [t]\<rparr>))"

definition DropTrigger :: "string \<Rightarrow> catalog \<Rightarrow> catalog res" where
  "DropTrigger name c = (case cat_triggers c name of
     None \<Rightarrow> Inl (Status_InvalidArgument ''unknown trigger'')
   | Some t \<Rightarrow> Inr (c\<lparr>cat_triggers := (cat_triggers c)(name := None),
       cat_trigger_list := filter (\<lambda>t. tr_name t \<noteq> name) (cat_trigger_list c)\<rparr>))"

definition TriggersForTable :: "catalog \<Rightarrow> string \<Rightarrow> string \<Rightarrow> trigger_def list" where
  "TriggersForTable c table event =
     filter (\<lambda>t. tr_table t = table \<and> tr_event t = event) (cat_trigger_list c)"

section \<open>Keys\<close>

definition colon :: char where "colon = CHR '':''"

definition EncodeRowKey :: "u32 \<Rightarrow> string \<Rightarrow> string" where
  "EncodeRowKey table_id key = dec_nat (unat table_id) @ colon # key"

text \<open>The decoders return the numbers as the texts they find; the code converts one with \<open>std::stoul\<close>
  (\<open>key_number\<close>, \<open>None\<close> when it throws) only for a caller that asks for it, and no caller does.\<close>

definition DecodeRowKey :: "string \<Rightarrow> (string \<times> string) option" where
  "DecodeRowKey encoded = (case find_str encoded [colon] 0 of
     None \<Rightarrow> None
   | Some pos \<Rightarrow>
       if pos = 0 then None
       else let p = take pos encoded in
         if 2 \<le> length p \<and> p ! 1 = CHR ''i'' then None else Some (p, drop (Suc pos) encoded))"

definition key_number :: "string \<Rightarrow> u32 option" where
  "key_number p = map_option ucast (stoul p)"

definition EncodeIndexKey :: "u32 \<Rightarrow> u32 \<Rightarrow> string \<Rightarrow> string \<Rightarrow> string" where
  "EncodeIndexKey table_id index_id col_value pk =
     dec_nat (unat table_id) @ colon # CHR ''i'' # dec_nat (unat index_id) @ colon # col_value @ colon # pk"

definition DecodeIndexKeyPrefix :: "string \<Rightarrow> (string \<times> string \<times> string \<times> string) option" where
  "DecodeIndexKeyPrefix encoded = (case find_str encoded [colon] 0 of
     None \<Rightarrow> None
   | Some c1 \<Rightarrow> (case find_str encoded [colon] (c1 + 1) of
       None \<Rightarrow> None
     | Some c2 \<Rightarrow>
         let idx_part = substr encoded (c1 + 1) (c2 - c1 - 1) in
         if idx_part = [] \<or> hd idx_part \<noteq> CHR ''i'' then None
         else (case find_str encoded [colon] (c2 + 1) of
             None \<Rightarrow> None
           | Some c3 \<Rightarrow> Some (take c1 encoded, tl idx_part,
               substr encoded (c2 + 1) (c3 - c2 - 1), drop (Suc c3) encoded))))"

definition IsIndexEncodedKey :: "string \<Rightarrow> bool" where
  "IsIndexEncodedKey encoded = (case find_str encoded [colon] 0 of
     None \<Rightarrow> False
   | Some pos \<Rightarrow>
       if length encoded \<le> pos + 2 then False
       else if encoded ! (pos + 1) \<noteq> CHR ''i'' then False
       else let t = drop (pos + 2) encoded in
         if \<not> is_digit (hd t) then False
         else (let u = dropWhile is_digit t in u \<noteq> [] \<and> hd u = colon))"

end
