(* ===== verification/CatalogStore.thy ===== *)
theory CatalogStore
  imports Catalog
begin

text \<open>
  The catalog's sidecar file: \<^verbatim>\<open>sql/catalog/catalog_store.cc\<close>. \<open>Save\<close> writes the tables and indexes as
  JSON text; \<open>Load\<close> does not parse that text but searches it for names, braces and quotes, at
  absolute positions as the code does. \<open>None\<close> is the exception of \<open>std::stoul\<close> on an identifier
  that is no number.
\<close>

section \<open>Searching\<close>

definition rfind_char :: "string \<Rightarrow> char \<Rightarrow> nat \<Rightarrow> nat option" where
  "rfind_char s c pos =
     (let p = dropWhile (\<lambda>d. d \<noteq> c) (rev (take (Suc pos) s)) in
      if p = [] then None else Some (length p - 1))"

definition quoted :: "string \<Rightarrow> string" where
  "quoted s = quote # s @ [quote]"

definition needle :: "string \<Rightarrow> string" where
  "needle key = quoted key @ [colon]"

definition between :: "string \<Rightarrow> nat \<Rightarrow> nat \<Rightarrow> string" where
  "between s a b = substr s a (b - a + 1)"

lemma find_at_bounds: "find_at t s j = Some k \<Longrightarrow> j \<le> k \<and> k \<le> j + length s"
  by (induction s arbitrary: j) (fastforce split: if_splits)+

lemma find_str_bounds: "find_str s t i = Some k \<Longrightarrow> i \<le> k \<and> k \<le> length s"
  using find_at_bounds [of t "drop i s" i k] by (auto simp: find_str_def split: if_splits)

lemma find_at_char: "find_at [c] s j = Some k \<Longrightarrow> k < j + length s"
  by (induction s arbitrary: j) (fastforce split: if_splits)+

lemma find_str_char: "find_str s [c] i = Some k \<Longrightarrow> k < length s"
  using find_at_char [of c "drop i s" i k] by (auto simp: find_str_def split: if_splits)

section \<open>Extracting\<close>

definition ExtractJsonString :: "string \<Rightarrow> string \<Rightarrow> string option" where
  "ExtractJsonString line key = (case find_str line (needle key) 0 of
     None \<Rightarrow> None
   | Some pos \<Rightarrow> (case find_str line [quote] (pos + length (needle key)) of
       None \<Rightarrow> None
     | Some q1 \<Rightarrow> (case find_str line [quote] (q1 + 1) of
         None \<Rightarrow> None
       | Some q2 \<Rightarrow> Some (substr line (q1 + 1) (q2 - q1 - 1)))))"

definition ExtractJsonUint :: "string \<Rightarrow> string \<Rightarrow> u32 option option" where
  "ExtractJsonUint line key = (case find_str line (needle key) 0 of
     None \<Rightarrow> Some None
   | Some pos \<Rightarrow> (case stoul (drop (pos + length (needle key)) line) of
       None \<Rightarrow> None
     | Some v \<Rightarrow> Some (Some (ucast v))))"

definition ExtractJsonBool :: "string \<Rightarrow> string \<Rightarrow> bool option" where
  "ExtractJsonBool line key = (case find_str line (needle key) 0 of
     None \<Rightarrow> None
   | Some pos \<Rightarrow> (let tail = drop (pos + length (needle key)) line in
       if prefix ''true'' tail then Some True
       else if prefix ''false'' tail then Some False else None))"

text \<open>The texts between the square brackets after \<open>key\<close>, when there are both.\<close>

definition array_of :: "string \<Rightarrow> string \<Rightarrow> string option" where
  "array_of obj key = (case find_str obj (quoted key) 0 of
     None \<Rightarrow> None
   | Some p \<Rightarrow> (case find_str obj [CHR 0x5B] p of
       None \<Rightarrow> None
     | Some a \<Rightarrow> (case find_str obj [CHR 0x5D] a of
         None \<Rightarrow> None
       | Some b \<Rightarrow> Some (between obj a b))))"

function string_items :: "string \<Rightarrow> nat \<Rightarrow> string list" where
  "string_items arr pos = (case find_str arr [quote] pos of
     None \<Rightarrow> []
   | Some p \<Rightarrow> (case find_str arr [quote] (p + 1) of
       None \<Rightarrow> []
     | Some q \<Rightarrow> substr arr (p + 1) (q - p - 1) # string_items arr (q + 1)))"
  by pat_completeness auto
termination
  by (relation "measure (\<lambda>(arr, pos). Suc (length arr) - pos)")
    (auto dest!: find_str_bounds)

definition ExtractJsonStringArray :: "string \<Rightarrow> string \<Rightarrow> string list" where
  "ExtractJsonStringArray obj key = (case array_of obj key of None \<Rightarrow> [] | Some arr \<Rightarrow> string_items arr 0)"

section \<open>Loading\<close>

definition column_of_json :: "string \<Rightarrow> column_def option" where
  "column_of_json obj = (case ExtractJsonString obj ''name'' of
     None \<Rightarrow> None
   | Some n \<Rightarrow>
       let ty = (case ExtractJsonString obj ''type'' of None \<Rightarrow> ''TEXT'' | Some t \<Rightarrow> t);
           nn = (case ExtractJsonBool obj ''not_null'' of None \<Rightarrow> False | Some b \<Rightarrow> b);
           ck = (case ExtractJsonString obj ''check_expr'' of None \<Rightarrow> [] | Some e \<Rightarrow> e) in
       Some (column n (if ty = [] then ''TEXT'' else ty)\<lparr>cd_not_null := nn, cd_check_expr := ck\<rparr>))"

text \<open>The object around the next name at or after \<open>pos\<close>: its text and the position after it.\<close>

definition next_object :: "string \<Rightarrow> nat \<Rightarrow> (string \<times> nat) option" where
  "next_object s pos = (case find_str s (quoted ''name'') pos of
     None \<Rightarrow> None
   | Some p \<Rightarrow> (case (rfind_char s CHR 0x7B p, find_str s [CHR 0x7D] p) of
       (Some a, Some b) \<Rightarrow> Some (between s a b, b + 1)
     | _ \<Rightarrow> None))"

lemma next_object_bounds: "next_object s pos = Some (obj, q) \<Longrightarrow> pos < q \<and> q \<le> length s"
proof -
  assume "next_object s pos = Some (obj, q)"
  then obtain p b where "find_str s (quoted ''name'') pos = Some p"
      "find_str s [CHR 0x7D] p = Some b" "q = Suc b"
    by (auto simp: next_object_def split: option.splits)
  then show ?thesis using find_str_bounds find_str_char by (metis Suc_leI le_imp_less_Suc le_trans)
qed

function load_columns :: "string \<Rightarrow> nat \<Rightarrow> column_def list" where
  "load_columns arr pos = (case next_object arr pos of
     None \<Rightarrow> []
   | Some (obj, q) \<Rightarrow> (case column_of_json obj of
       None \<Rightarrow> load_columns arr q
     | Some c \<Rightarrow> c # load_columns arr q))"
  by pat_completeness auto
termination
  by (relation "measure (\<lambda>(arr, pos). length arr - pos)") (auto dest!: next_object_bounds)

definition text_or :: "string \<Rightarrow> string option \<Rightarrow> string" where
  "text_or d x = (case x of None \<Rightarrow> d | Some s \<Rightarrow> if s = [] then d else s)"

definition table_columns :: "string \<Rightarrow> column_def list" where
  "table_columns obj =
     (let cols = (case array_of obj ''columns'' of None \<Rightarrow> [] | Some arr \<Rightarrow> load_columns arr 0) in
      if cols = [] then
        [column (text_or ''key'' (ExtractJsonString obj ''key_column'')) ''TEXT'',
         column (text_or ''value'' (ExtractJsonString obj ''value_column'')) ''TEXT'']
      else cols)"

definition index_like :: "string \<Rightarrow> bool" where
  "index_like obj \<longleftrightarrow> contains_str obj (quoted ''table'') \<and> contains_str obj (quoted ''columns'') \<and>
     \<not> contains_str obj (quoted ''key_column'')"

definition or_else :: "'a \<Rightarrow> 'a res \<Rightarrow> 'a" where
  "or_else x r = (case r of Inl _ \<Rightarrow> x | Inr y \<Rightarrow> y)"

definition load_table :: "string \<Rightarrow> catalog \<Rightarrow> catalog option" where
  "load_table obj c =
     (if index_like obj then Some c
      else (case ExtractJsonString obj ''name'' of
          None \<Rightarrow> Some c
        | Some name \<Rightarrow> (case ExtractJsonUint obj ''id'' of
            None \<Rightarrow> None
          | Some tid \<Rightarrow> Some (or_else c
              (RestoreTableV2 (case tid of None \<Rightarrow> 0 | Some v \<Rightarrow> v) name (table_columns obj) c)))))"

function LoadTablesFromJson :: "string \<Rightarrow> nat \<Rightarrow> catalog \<Rightarrow> catalog option" where
  "LoadTablesFromJson content pos c = (case next_object content pos of
     None \<Rightarrow> Some c
   | Some (obj, q) \<Rightarrow> (case load_table obj c of
       None \<Rightarrow> None
     | Some c' \<Rightarrow> LoadTablesFromJson content q c'))"
  by pat_completeness auto
termination
  by (relation "measure (\<lambda>(s, pos, c). length s - pos)") (auto dest!: next_object_bounds)

definition load_index :: "string \<Rightarrow> catalog \<Rightarrow> catalog option" where
  "load_index obj c = (case ExtractJsonString obj ''name'' of
     None \<Rightarrow> Some c
   | Some name \<Rightarrow> (case ExtractJsonUint obj ''id'' of
       None \<Rightarrow> None
     | Some iid \<Rightarrow>
         let cols = ExtractJsonStringArray obj ''columns'' in
         if cols = [] then Some c
         else Some (or_else c (RestoreIndex (case iid of None \<Rightarrow> 0 | Some v \<Rightarrow> v) name
           (case ExtractJsonString obj ''table'' of None \<Rightarrow> [] | Some t \<Rightarrow> t) cols
           (case ExtractJsonBool obj ''unique'' of None \<Rightarrow> False | Some b \<Rightarrow> b) c))))"

function load_indexes :: "string \<Rightarrow> nat \<Rightarrow> catalog \<Rightarrow> catalog option" where
  "load_indexes arr pos c = (case next_object arr pos of
     None \<Rightarrow> Some c
   | Some (obj, q) \<Rightarrow> (case load_index obj c of
       None \<Rightarrow> None
     | Some c' \<Rightarrow> load_indexes arr q c'))"
  by pat_completeness auto
termination
  by (relation "measure (\<lambda>(s, pos, c). length s - pos)") (auto dest!: next_object_bounds)

definition LoadIndexesFromJson :: "string \<Rightarrow> catalog \<Rightarrow> catalog option" where
  "LoadIndexesFromJson content c = (case array_of content ''indexes'' of
     None \<Rightarrow> Some c | Some arr \<Rightarrow> load_indexes arr 0 c)"

declare string_items.simps [simp del] load_columns.simps [simp del] LoadTablesFromJson.simps [simp del]
  load_indexes.simps [simp del]

text \<open>
  The sidecar as the loader finds it. \<open>None\<close> is the exception of a number that cannot be parsed; a
  missing sidecar leaves the catalog as it is.
\<close>

datatype sidecar_file = NoFile | Unreadable | Readable string

definition CatalogStore_Load :: "sidecar_file \<Rightarrow> string \<Rightarrow> catalog \<Rightarrow> (catalog \<times> status) option" where
  "CatalogStore_Load file path c = (case file of
     NoFile \<Rightarrow> Some (c, Status_Ok)
   | Unreadable \<Rightarrow> Some (c, Status_IoError (''cannot open catalog: '' @ path))
   | Readable content \<Rightarrow>
       Option.bind (LoadTablesFromJson content 0 (cat_Clear c)) (\<lambda>c1.
         map_option (\<lambda>c2. (c2, Status_Ok)) (LoadIndexesFromJson content c1)))"

section \<open>Saving\<close>

definition json_text :: "string \<Rightarrow> string" where
  "json_text s = quote # JsonEscape s @ [quote]"

definition json_key :: "string \<Rightarrow> string \<Rightarrow> string" where
  "json_key k v = quoted k @ colon # v"

definition json_bool :: "bool \<Rightarrow> string" where
  "json_bool b = (if b then ''true'' else ''false'')"

definition column_json :: "column_def \<Rightarrow> string" where
  "column_json c = CHR 0x7B # join_with '','' ([json_key ''name'' (json_text (cd_name c)),
       json_key ''type'' (json_text (cd_type c)), json_key ''not_null'' (json_bool (cd_not_null c))] @
     (if cd_check_expr c = [] then [] else [json_key ''check_expr'' (json_text (cd_check_expr c))]))
     @ [CHR 0x7D]"

definition table_json :: "table_schema \<Rightarrow> string" where
  "table_json t = CHR 0x7B # join_with '',''
     [json_key ''id'' (dec_nat (unat (ts_id t))), json_key ''name'' (json_text (ts_name t)),
      json_key ''key_column'' (json_text (ts_key_column t)),
      json_key ''value_column'' (json_text (ts_value_column t)),
      json_key ''schema_version'' (dec_nat (unat (ts_schema_version t))),
      json_key ''columns'' (CHR 0x5B # join_with '','' (map column_json (ts_columns t)) @ [CHR 0x5D])]
     @ [CHR 0x7D]"

definition index_json :: "index_def \<Rightarrow> string" where
  "index_json i = CHR 0x7B # join_with '',''
     [json_key ''id'' (dec_nat (unat (ix_id i))), json_key ''name'' (json_text (ix_name i)),
      json_key ''table'' (json_text (ix_table i)), json_key ''unique'' (json_bool (ix_unique i)),
      json_key ''columns'' (CHR 0x5B # join_with '','' (map json_text (ix_columns i)) @ [CHR 0x5D])]
     @ [CHR 0x7D]"

definition catalog_json :: "catalog \<Rightarrow> string" where
  "catalog_json c = CHR 0x7B # join_with '',''
     [json_key ''v'' ''3'',
      json_key ''tables'' (CHR 0x5B # join_with '','' (map table_json (cat_table_list c)) @ [CHR 0x5D]),
      json_key ''indexes'' (CHR 0x5B # join_with '','' (map index_json (cat_index_list c)) @ [CHR 0x5D])]
     @ [CHR 0x7D, CHR 0x0A]"

text \<open>The stream is not checked after it has been opened.\<close>

definition CatalogStore_Save :: "bool \<Rightarrow> string \<Rightarrow> catalog \<Rightarrow> string res" where
  "CatalogStore_Save can_open path c =
     (if can_open then Inr (catalog_json c)
      else Inl (Status_IoError (''cannot write catalog: '' @ path)))"

section \<open>Properties\<close>

definition demo_columns :: "column_def list" where
  "demo_columns = [column ''k'' ''INTEGER'', column ''a'' ''TEXT'', column ''b'' ''INTEGER'']"

definition demo_catalog :: catalog where
  "demo_catalog = or_else empty_catalog (map_sum (\<lambda>s. s) fst (CreateIndex ''i'' ''t'' [''b''] False
     (or_else empty_catalog (map_sum (\<lambda>s. s) fst (CreateTable ''t'' demo_columns empty_catalog)))))"

definition table_shape :: "table_schema \<Rightarrow> u32 \<times> string \<times> string list" where
  "table_shape t = (ts_id t, ts_name t, map cd_name (ts_columns t))"

text \<open>A saved catalog does not come back: a table of three columns is loaded with two, its other
  columns become tables of their own, and the index is gone.\<close>

theorem reload_mangles_catalog:
  "map_option (\<lambda>(c, st). (map table_shape (cat_table_list c), map ix_name (cat_index_list c), st))
     (CatalogStore_Load (Readable (catalog_json demo_catalog)) path empty_catalog) =
   Some ([(1, ''t'', [''k'', ''a'']), (0, ''a'', [''key'', ''value'']), (0, ''b'', [''key'', ''value''])], [],
     Status_Ok)"
  by code_simp

end
