(* ===== verification/SqlExpr.thy ===== *)
theory SqlExpr
  imports SqlAst Catalog
begin

text \<open>
  The evaluation of expressions over a row: \<^verbatim>\<open>sql/eval/expr_eval.cc\<close>, \<^verbatim>\<open>sql/eval/expr_eval.h\<close>,
  \<^verbatim>\<open>sql/eval/schema_context.h\<close> and the scalar functions of \<^verbatim>\<open>sql/eval/function_registry.cc\<close>. An
  evaluator is the record \<open>eval_env\<close>: the table of the schema context, when there is one, and the
  callback for subqueries, when one is set. A binary or unary node with fewer children than the code
  dereferences evaluates to null; the parser never builds one. The call \<open>llabs\<close> on the least 64-bit
  integer, undefined in C, gives that integer here, as on the machines the program is built for.
\<close>

section \<open>Looking up a column\<close>

record eval_env =
  ev_table :: "table_schema option"
  ev_subquery :: "(expr \<Rightarrow> row_map \<Rightarrow> truth) option"

definition plain_env :: eval_env where
  "plain_env = \<lparr>ev_table = None, ev_subquery = None\<rparr>"

definition ColumnAffinity :: "eval_env \<Rightarrow> string \<Rightarrow> affinity" where
  "ColumnAffinity env col = (case ev_table env of
     None \<Rightarrow> AText
   | Some t \<Rightarrow>
       (case find (\<lambda>c. cd_name c = col) (ts_columns t) of
          None \<Rightarrow> AText
        | Some c \<Rightarrow> if cd_type c = ''INTEGER'' then AInteger
            else if cd_type c = ''REAL'' \<or> cd_type c = ''FLOAT'' then AReal else AText))"

text \<open>The name after the first dot, when there is a dot.\<close>

definition after_dot :: "string \<Rightarrow> string option" where
  "after_dot col = (case find_str col ''.'' 0 of None \<Rightarrow> None | Some i \<Rightarrow> Some (drop (Suc i) col))"

definition bare_name :: "string \<Rightarrow> string" where
  "bare_name col = (case after_dot col of None \<Rightarrow> col | Some b \<Rightarrow> b)"

definition ColumnAffinityFor :: "eval_env \<Rightarrow> expr \<Rightarrow> affinity" where
  "ColumnAffinityFor env node =
     (if en_kind node = EColumn then ColumnAffinity env (bare_name (en_column node)) else AText)"

fun first_some :: "'a option \<Rightarrow> 'a option \<Rightarrow> 'a option" where
  "first_some (Some x) _ = Some x"
| "first_some None y = y"

definition LookupColumn :: "string \<Rightarrow> string \<Rightarrow> row_map \<Rightarrow> string" where
  "LookupColumn table col row =
     (let qual = (if table = [] then None else row (table @ ''.'' @ col));
          bare = (case after_dot col of None \<Rightarrow> None | Some b \<Rightarrow> row b) in
      case first_some qual (first_some (row col) bare) of Some v \<Rightarrow> v | None \<Rightarrow> [])"

section \<open>Arithmetic and lists of literals\<close>

definition arith_op :: "binary_op \<Rightarrow> bool" where
  "arith_op op \<longleftrightarrow> op \<in> {OpAdd, OpSub, OpMul, OpDiv}"

definition AsInt :: "string \<Rightarrow> int" where
  "AsInt s = (case stoll s of Some i \<Rightarrow> i | None \<Rightarrow> 0)"

definition AsDouble :: "sql_value \<Rightarrow> double" where
  "AsDouble v = (case sv_kind v of
     KInteger \<Rightarrow> of_int64 (sv_i v)
   | KReal \<Rightarrow> sv_r v
   | KText \<Rightarrow> if strtod (sv_text v) \<noteq> None \<and> at_nul (strtod_end (sv_text v))
             then strtod_val (sv_text v) else zero_double
   | _ \<Rightarrow> zero_double)"

definition EvalBinaryValue :: "binary_op \<Rightarrow> sql_value \<Rightarrow> sql_value \<Rightarrow> sql_value" where
  "EvalBinaryValue op l r =
     (if \<not> arith_op op \<or> IsNull l \<or> IsNull r then SqlNull
      else let a = AsDouble l; b = AsDouble r in
        if op = OpAdd then SqlReal (dadd a b)
        else if op = OpSub then SqlReal (dsub a b)
        else if op = OpMul then SqlReal (dmul a b)
        else if deq b zero_double then SqlNull else SqlReal (ddiv a b))"

definition in_match :: "sql_value \<Rightarrow> string \<Rightarrow> bool" where
  "in_match lhs lit \<longleftrightarrow>
     lit \<noteq> [] \<and> IsSqlTrue (CompareSqlValues lhs (FromLegacyString lit) OpEq AText)"

definition EvalInLiterals :: "sql_value \<Rightarrow> string list \<Rightarrow> bool \<Rightarrow> truth" where
  "EvalInLiterals lhs lits not_op =
     (if lits = [] then truth_of not_op
      else if IsNull lhs then TUnknown
      else if list_ex (in_match lhs) lits then truth_of (\<not> not_op)
      else if [] \<in> set lits then TUnknown
      else truth_of not_op)"

section \<open>Scalar functions\<close>

definition CastValue :: "sql_value \<Rightarrow> string \<Rightarrow> sql_value" where
  "CastValue v type_name = (let t = Upper type_name in
     if contains_str t ''INT'' then
       if IsNull v then SqlNull else SqlInteger (strtoll (ToLegacyString v))
     else if contains_str t ''REAL'' \<or> contains_str t ''FLOA'' \<or> contains_str t ''DOUB'' then
       if IsNull v then SqlNull else SqlReal (strtod_val (ToLegacyString v))
     else if contains_str t ''TEXT'' \<or> contains_str t ''CHAR'' then
       if IsNull v then SqlNull else SqlText (ToLegacyString v)
     else v)"

definition llabs :: "int \<Rightarrow> int" where
  "llabs i = (if i = LLONG_MIN then LLONG_MIN else \<bar>i\<bar>)"

definition hex_upper :: "char \<Rightarrow> string" where
  "hex_upper c = [''0123456789ABCDEF'' ! (code_of c div 16), ''0123456789ABCDEF'' ! (code_of c mod 16)]"

definition substr_value :: "string \<Rightarrow> int \<Rightarrow> int option \<Rightarrow> sql_value" where
  "substr_value s start len =
     (let pos = (if start < 1 then 0 else nat (start - 1)) in
      if length s \<le> pos then SqlNull
      else case len of
        None \<Rightarrow> SqlText (drop pos s)
      | Some n \<Rightarrow> SqlText (if n < 0 then drop pos s else take (nat n) (drop pos s)))"

definition typeof_value :: "sql_value \<Rightarrow> string" where
  "typeof_value v = (case sv_kind v of
     KNull \<Rightarrow> ''null'' | KInteger \<Rightarrow> ''integer'' | KReal \<Rightarrow> ''real'' | _ \<Rightarrow> ''text'')"

definition best_of :: "bool \<Rightarrow> sql_value \<Rightarrow> sql_value \<Rightarrow> sql_value" where
  "best_of is_min best v =
     (if IsNull v then best
      else if IsNull best then v
      else let lt = ToLegacyString best < ToLegacyString v in
        if (is_min \<and> lt) \<or> (\<not> is_min \<and> \<not> lt) then v else best)"

definition unless_null :: "sql_value \<Rightarrow> (string \<Rightarrow> sql_value) \<Rightarrow> sql_value" where
  "unless_null v f = (if IsNull v then SqlNull else f (ToLegacyString v))"

text \<open>
  The registry gets the values of the arguments, and for \<open>IIF\<close> the truth of the first one. The
  code evaluates an argument when it needs it; evaluation has no effect on the evaluator.
\<close>

definition FunctionRegistry_Eval :: "string \<Rightarrow> sql_value list \<Rightarrow> bool \<Rightarrow> sql_value" where
  "FunctionRegistry_Eval name args test =
     (let fn = Upper name; n = length args; a = args ! 0; b = args ! 1 in
      if fn = ''CAST'' \<and> 2 \<le> n then CastValue a (ToLegacyString b)
      else if fn = ''NULLIF'' \<and> 2 \<le> n then
        if IsNull a \<or> IsNull b then (if IsNull a then b else a)
        else if ToLegacyString a = ToLegacyString b then SqlNull else a
      else if fn = ''IFNULL'' \<and> 2 \<le> n then (if IsNull a then b else a)
      else if fn = ''IIF'' \<and> 3 \<le> n then (if test then b else args ! 2)
      else if fn = ''COALESCE'' then
        (case find (\<lambda>v. \<not> IsNull v) args of Some v \<Rightarrow> v | None \<Rightarrow> SqlNull)
      else if fn = ''LENGTH'' \<and> 1 \<le> n then SqlInteger (int (length (ToLegacyString a)))
      else if fn = ''SUBSTR'' \<and> 2 \<le> n then
        substr_value (ToLegacyString a) (AsInt (ToLegacyString b))
          (if 3 \<le> n then Some (AsInt (ToLegacyString (args ! 2))) else None)
      else if fn = ''TYPEOF'' \<and> 1 \<le> n then SqlText (typeof_value a)
      else if fn = ''ABS'' \<and> 1 \<le> n then unless_null a (\<lambda>s. SqlInteger (llabs (AsInt s)))
      else if fn = ''UPPER'' \<and> 1 \<le> n then unless_null a (\<lambda>s. SqlText (Upper s))
      else if fn = ''LOWER'' \<and> 1 \<le> n then unless_null a (\<lambda>s. SqlText (LowerStr s))
      else if fn = ''TRIM'' \<and> 1 \<le> n then unless_null a (\<lambda>s. SqlText (Trim s))
      else if fn = ''QUOTE'' \<and> 1 \<le> n then
        if IsNull a then SqlText ''NULL''
        else SqlText (CHR 0x27 # ToLegacyString a @ [CHR 0x27])
      else if fn = ''HEX'' \<and> 1 \<le> n then SqlText (concat (map hex_upper (ToLegacyString a)))
      else if (fn = ''MIN'' \<or> fn = ''MAX'') \<and> 2 \<le> n then
        foldl (best_of (fn = ''MIN'')) a (tl args)
      else SqlNull)"

section \<open>Evaluation\<close>

definition literal_truth :: "string \<Rightarrow> truth" where
  "literal_truth lit =
     (if lit = [] \<or> lit = ''NULL'' then TUnknown
      else truth_of (lit \<notin> {''0'', ''false'', ''FALSE''}))"

definition value_truth :: "sql_value \<Rightarrow> truth" where
  "value_truth v = (if IsNull v then TUnknown else truth_of (ToLegacyString v \<noteq> ''0''))"

definition bool_value :: "bool \<Rightarrow> sql_value" where
  "bool_value b = SqlInteger (if b then 1 else 0)"

definition compare_children :: "eval_env \<Rightarrow> binary_op \<Rightarrow> expr \<Rightarrow> expr \<Rightarrow> sql_value \<Rightarrow> sql_value \<Rightarrow> truth"
  where
  "compare_children env op a b l r =
     (let aff = ColumnAffinityFor env a in
      CompareSqlValues l r op (if aff = AText then ColumnAffinityFor env b else aff))"

definition EvalSubqueryTruth ::
  "eval_env \<Rightarrow> expr \<Rightarrow> row_map \<Rightarrow> subquery_spec option \<Rightarrow> sql_value option \<Rightarrow> truth" where
  "EvalSubqueryTruth env node row subquery lhs =
     (let ask = (case ev_subquery env of Some f \<Rightarrow> f node row | None \<Rightarrow> TFalse) in
      case subquery of
        None \<Rightarrow> TFalse
      | Some sq \<Rightarrow>
          if sq_exists sq then (if sq_not_op sq then Not3 ask else ask)
          else (case lhs of
              None \<Rightarrow> TFalse
            | Some v \<Rightarrow>
                if sq_in_literals sq \<noteq> [] then EvalInLiterals v (sq_in_literals sq) (sq_not_op sq)
                else if sq_parsed_query sq = None then truth_of (sq_not_op sq)
                else ask))"

definition subquery_lhs :: "subquery_spec option \<Rightarrow> expr option" where
  "subquery_lhs subquery = (case subquery of None \<Rightarrow> None | Some sq \<Rightarrow> sq_lhs sq)"

lemma size_subquery_lhs: "subquery_lhs sq = Some e \<Longrightarrow> size e < size_option size sq"
  by (cases sq; cases "the sq") (auto simp: subquery_lhs_def)

lemma size_child: "(e :: expr) \<in> set cs \<Longrightarrow> size e \<le> size_list size cs + n"
  by (simp add: size_list_estimation' trans_le_add1)

function EvalValue :: "eval_env \<Rightarrow> row_map \<Rightarrow> expr \<Rightarrow> sql_value"
  and EvalTruth :: "eval_env \<Rightarrow> row_map \<Rightarrow> expr \<Rightarrow> truth" where
  "EvalValue env row (ExprNode k lit col tab op fn cs isnull neg sq) =
     (let node = ExprNode k lit col tab op fn cs isnull neg sq in
      case k of
        ELiteral \<Rightarrow> FromLegacyString lit
      | EColumn \<Rightarrow> FromLegacyString (LookupColumn tab col row)
      | EFunction \<Rightarrow>
          FunctionRegistry_Eval fn (map (EvalValue env row) cs)
            (case cs of [] \<Rightarrow> False | c # _ \<Rightarrow> IsSqlTrue (EvalTruth env row c))
      | EBinary \<Rightarrow>
          if arith_op op then
            (case cs of a # b # _ \<Rightarrow> EvalBinaryValue op (EvalValue env row a) (EvalValue env row b)
             | _ \<Rightarrow> SqlNull)
          else bool_value (IsSqlTrue (EvalTruth env row node))
      | EIsNull \<Rightarrow>
          (case cs of a # _ \<Rightarrow> bool_value (IsNull (EvalValue env row a) = isnull) | [] \<Rightarrow> SqlNull)
      | ESubquery \<Rightarrow>
          bool_value (IsSqlTrue (EvalSubqueryTruth env node row sq
            (case subquery_lhs sq of None \<Rightarrow> None | Some e \<Rightarrow> Some (EvalValue env row e))))
      | EUnary \<Rightarrow> SqlNull)"
| "EvalTruth env row (ExprNode k lit col tab op fn cs isnull neg sq) =
     (let node = ExprNode k lit col tab op fn cs isnull neg sq;
          tv = (case k of
        ELiteral \<Rightarrow> literal_truth lit
      | EIsNull \<Rightarrow>
          (case cs of a # _ \<Rightarrow> truth_of (IsNull (EvalValue env row a) = isnull) | [] \<Rightarrow> TFalse)
      | EBinary \<Rightarrow>
          (case cs of
             a # b # _ \<Rightarrow>
               if op = OpAnd then And3 (EvalTruth env row a) (EvalTruth env row b)
               else if op = OpOr then Or3 (EvalTruth env row a) (EvalTruth env row b)
               else if arith_op op then
                 (let v = EvalBinaryValue op (EvalValue env row a) (EvalValue env row b) in
                  if IsNull v then TUnknown else truth_of (\<not> deq (AsDouble v) zero_double))
               else compare_children env op a b (EvalValue env row a) (EvalValue env row b)
           | _ \<Rightarrow> TFalse)
      | ESubquery \<Rightarrow>
          EvalSubqueryTruth env node row sq
            (case subquery_lhs sq of None \<Rightarrow> None | Some e \<Rightarrow> Some (EvalValue env row e))
      | _ \<Rightarrow> value_truth (EvalValue env row node))
      in if neg then Not3 tv else tv)"
  by pat_completeness auto
termination
  by (relation "measures [\<lambda>x. case x of Inl (_, _, e) \<Rightarrow> size e | Inr (_, _, e) \<Rightarrow> size e,
      \<lambda>x. case x of Inl (_, _, e) \<Rightarrow> if en_kind e = EBinary then 2 else 0 | Inr _ \<Rightarrow> 1]")
    (auto dest: size_subquery_lhs size_child simp: less_Suc_eq_le)

declare EvalValue.simps [simp del] EvalTruth.simps [simp del]

definition EvalBool :: "eval_env \<Rightarrow> row_map \<Rightarrow> expr \<Rightarrow> bool" where
  "EvalBool env row e = IsSqlTrue (EvalTruth env row e)"

definition EvalScalar :: "eval_env \<Rightarrow> row_map \<Rightarrow> expr \<Rightarrow> string" where
  "EvalScalar env row e = ToLegacyString (EvalValue env row e)"

definition PassesFilter :: "eval_env \<Rightarrow> row_map \<Rightarrow> expr option \<Rightarrow> bool" where
  "PassesFilter env row w = (case w of None \<Rightarrow> True | Some e \<Rightarrow> EvalBool env row e)"

section \<open>What the evaluator computes\<close>

lemma compare_eq_known: "\<not> IsNull l \<Longrightarrow> \<not> IsNull r \<Longrightarrow>
    CompareSqlValues l r OpEq hint = truth_of (compare_equal l r hint)"
  by (simp add: CompareSqlValues_def eq_or_ne_def)

lemma compare_eq_null: "IsNull l \<or> IsNull r \<Longrightarrow> CompareSqlValues l r OpEq hint = TUnknown"
  by (simp add: CompareSqlValues_def)

lemma FromLegacyString_null [simp]: "IsNull (FromLegacyString s) \<longleftrightarrow> s = []"
  by (auto simp: FromLegacyString_def IsNull_def SqlNull_def SqlInteger_def SqlReal_def SqlText_def
      split: option.split)

definition in_chain :: "sql_value \<Rightarrow> string list \<Rightarrow> truth" where
  "in_chain v lits = foldr (\<lambda>lit. Or3 (CompareSqlValues v (FromLegacyString lit) OpEq AText)) lits TFalse"

lemma in_chain_null: "IsNull v \<Longrightarrow> in_chain v lits = (if lits = [] then TFalse else TUnknown)"
  by (induction lits) (auto simp: in_chain_def compare_eq_null Or3_def)

lemma in_chain_known: "\<not> IsNull v \<Longrightarrow> in_chain v lits =
    (if list_ex (in_match v) lits then TTrue else if [] \<in> set lits then TUnknown else TFalse)"
proof (induction lits)
  case (Cons lit lits)
  then show ?case
    by (cases "lit = []")
      (auto simp: in_chain_def in_match_def compare_eq_null compare_eq_known Or3_def truth_of_def IsSqlTrue_def)
qed (simp add: in_chain_def)

text \<open>
  C21. A membership test against a list of literals is the disjunction of the comparisons with its
  members in the three-valued logic, and its negation is the negation of that disjunction: with no
  member equal to the value and an empty literal (the null of this program) in the list the answer
  is unknown, and the empty list has no member whatever the value is.
\<close>

theorem in_list_is_disjunction:
  "EvalInLiterals v lits False = in_chain v lits \<and> EvalInLiterals v lits True = Not3 (in_chain v lits)"
  by (cases "IsNull v") (auto simp: EvalInLiterals_def in_chain_null in_chain_known truth_of_def list_ex_iff)

lemma best_of_texts:
  assumes "\<not> IsNull best" "\<forall>v \<in> set vs. \<not> IsNull v"
  shows "\<not> IsNull (foldl (best_of m) best vs) \<and>
    ToLegacyString (foldl (best_of m) best vs) =
      (if m then Max else Min) (ToLegacyString ` insert best (set vs))"
  using assms
proof (induction vs arbitrary: best)
  case (Cons v vs)
  have one: "\<not> IsNull (best_of m best v)"
    "ToLegacyString (best_of m best v) =
      (if m then max else min) (ToLegacyString best) (ToLegacyString v)"
    using Cons.prems by (auto simp: best_of_def max_def min_def Let_def)
  show ?case
    using Cons.IH [OF one(1)] Cons.prems one(2)
    by (cases "vs = []") (auto simp: Max_insert Min_insert max.assoc min.assoc)
qed simp

text \<open>
  The scalar functions \<open>MIN\<close> and \<open>MAX\<close> of two or more values that are not null are exchanged:
  \<open>MIN\<close> returns an argument whose text is the greatest of the arguments' texts and \<open>MAX\<close> one whose
  text is the least. Texts are compared, so the order of numbers plays no part.
\<close>

theorem scalar_min_max_exchanged:
  assumes "2 \<le> length args" "\<forall>v \<in> set args. \<not> IsNull v"
  shows "ToLegacyString (FunctionRegistry_Eval ''MIN'' args t) = Max (ToLegacyString ` set args) \<and>
    ToLegacyString (FunctionRegistry_Eval ''MAX'' args t) = Min (ToLegacyString ` set args)"
proof -
  obtain a vs where [simp]: "args = a # vs" using assms(1) by (cases args) auto
  have up: "Upper ''MIN'' = ''MIN''" "Upper ''MAX'' = ''MAX''" by code_simp+
  show ?thesis
    using assms best_of_texts [of a vs True] best_of_texts [of a vs False]
    by (simp add: FunctionRegistry_Eval_def up)
qed

lemma scalar_min_max_exchanged_witness:
  "ToLegacyString (FunctionRegistry_Eval ''MIN'' [SqlInteger 1, SqlInteger 2] False) = ''2'' \<and>
   ToLegacyString (FunctionRegistry_Eval ''MAX'' [SqlInteger 1, SqlInteger 2] False) = ''1''"
proof -
  have n: "\<forall>v \<in> set [SqlInteger 1, SqlInteger 2]. \<not> IsNull v"
    by (simp add: IsNull_def SqlInteger_def)
  have t: "ToLegacyString (SqlInteger 1) = ''1''" "ToLegacyString (SqlInteger 2) = ''2''"
    by (simp_all add: ToLegacyString_def SqlInteger_def) (code_simp+)
  have "Max {''1'', ''2''} = ''2''" "Min {''1'', ''2''} = ''1''"
    by code_simp+
  then show ?thesis
    using scalar_min_max_exchanged [OF _ n] by (simp add: t)
qed

end
