(* ===== verification/EngineCore.thy ===== *)
theory EngineCore
  imports ShardFacts ShardCheckpoint
begin

text \<open>
  The engine over its shards: \<^verbatim>\<open>cpp/src/engine/engine.cc\<close>, \<^verbatim>\<open>shard_router.cc\<close>, \<^verbatim>\<open>routing_table.cc\<close>,
  \<^verbatim>\<open>engine_txn_lsv.cc\<close>, \<^verbatim>\<open>range_ticket.cc\<close> and \<^verbatim>\<open>cpp/include/ebtree/engine/snapshot.h\<close>.

  An engine is the list of its shards, where a slot that has not been opened yet is \<open>None\<close>, the files of every
  shard, the routing table and the range tickets registered for its path. A scan asks the shards from several
  threads; they share nothing, so the model asks them one after the other. What the machine decides (the result of
  a sync, a fault of an append, whether a file can be mapped) is in the record \<open>engine_io\<close>. A result is \<open>None\<close>
  when a shard does not return.
\<close>

section \<open>Routing\<close>

definition Fnv1a32 :: "bytes \<Rightarrow> u32" where
  "Fnv1a32 key = foldl (\<lambda>h c. xor h (ucast c) * 16777619) 2166136261 key"

definition RouteShard :: "bytes \<Rightarrow> u32 \<Rightarrow> u32" where
  "RouteShard key shard_count = (if shard_count \<le> 1 then 0 else Fnv1a32 key mod shard_count)"

definition ValidateShardCount :: "u32 \<Rightarrow> status" where
  "ValidateShardCount n =
    (if n = 1 \<or> n = 4 \<or> n = 16 \<or> n = 256 then Status_Ok
     else Status_InvalidArgument ''shard_count must be 1, 4, 16, or 256'')"

definition BuildRoutingTable :: "u32 \<Rightarrow> u32 list" where
  "BuildRoutingTable shard_count =
    (if shard_count = 0 then replicate 256 0
     else map (\<lambda>i. RouteShard [word_of_nat i] shard_count) [0..<256])"

section \<open>Range tickets\<close>

record range_ticket =
  rt_txn_id :: u32
  rt_snapshot_lsn :: u64
  rt_key_lo :: bytes
  rt_key_hi :: bytes

definition KeyInRange :: "bytes \<Rightarrow> bytes \<Rightarrow> bytes \<Rightarrow> bool" where
  "KeyInRange key lo hi \<longleftrightarrow> \<not> (lo \<noteq> [] \<and> key < lo) \<and> \<not> (hi \<noteq> [] \<and> hi < key)"

definition RangesOverlap :: "bytes \<Rightarrow> bytes \<Rightarrow> bytes \<Rightarrow> bytes \<Rightarrow> bool" where
  "RangesOverlap a_lo a_hi b_lo b_hi \<longleftrightarrow>
    (let a_start = (if a_lo = [] then b_lo else a_lo); b_start = (if b_lo = [] then a_lo else b_lo) in
     a_hi = [] \<or> b_hi = [] \<or> \<not> (a_hi < b_start \<or> b_hi < a_start))"

definition ValidateCommit :: "u32 \<Rightarrow> (bytes \<times> u64) list \<Rightarrow> range_ticket list \<Rightarrow> status" where
  "ValidateCommit txn_id write_set tickets =
    (if \<exists>t \<in> set tickets. rt_txn_id t \<noteq> txn_id \<and>
          (\<exists>w \<in> set write_set. KeyInRange (fst w) (rt_key_lo t) (rt_key_hi t) \<and> snd w = 0)
     then Status_Conflict ''phantom range conflict'' else Status_Ok)"

section \<open>The engine\<close>

record engine =
  en_opts :: EngineOptions
  en_shards :: "shard option list"
  en_files :: "shard_files list"
  en_routing :: "u32 list"
  en_opened :: bool
  en_tickets :: "range_ticket list"

record engine_io =
  io_lib :: lzma_lib
  io_hash :: "bytes \<Rightarrow> u64"
  io_mapping :: bool
  io_sync :: bool
  io_append :: fault
  io_vcs :: vcs
  io_guard :: status

definition shard_slot :: "engine \<Rightarrow> nat \<Rightarrow> shard option" where
  "shard_slot e i = (if i < length (en_shards e) then en_shards e ! i else None)"

definition set_shard :: "nat \<Rightarrow> shard \<Rightarrow> engine \<Rightarrow> engine" where
  "set_shard i s e = e\<lparr>en_shards := (en_shards e)[i := Some s]\<rparr>"

definition create_shard :: "engine_io \<Rightarrow> nat \<Rightarrow> engine \<Rightarrow> shard res" where
  "create_shard io i e = shard_Open (io_lib io) (io_mapping io) (en_opts e) (en_files e ! i) (io_vcs io)"

definition EnsureShard :: "engine_io \<Rightarrow> nat \<Rightarrow> engine \<Rightarrow> engine \<times> status" where
  "EnsureShard io i e =
    (if length (en_shards e) \<le> i then (e, Status_InvalidArgument ''invalid shard'')
     else if shard_slot e i \<noteq> None then (e, Status_Ok)
     else case create_shard io i e of
       Inl st \<Rightarrow> (e, st)
     | Inr s \<Rightarrow> ((set_shard i s e)\<lparr>en_opened := True\<rparr>, Status_Ok))"

definition ShardHasOnDiskState :: "shard_files \<Rightarrow> bool" where
  "ShardHasOnDiskState f \<longleftrightarrow> fl_super f \<noteq> None \<or> fl_wal f \<noteq> None \<or> fl_data f \<noteq> None"

definition EnsureShardForScan :: "engine_io \<Rightarrow> nat \<Rightarrow> engine \<Rightarrow> engine \<times> status" where
  "EnsureShardForScan io i e =
    (if length (en_shards e) \<le> i then (e, Status_InvalidArgument ''invalid shard'')
     else if shard_slot e i \<noteq> None then (e, Status_Ok)
     else if 1 < eo_shard_count (en_opts e) \<and> \<not> ShardHasOnDiskState (en_files e ! i) then (e, Status_Ok)
     else EnsureShard io i e)"

text \<open>Opening: every shard at once when the options say so, the only shard of a single-shard engine always.\<close>

fun create_all :: "engine_io \<Rightarrow> nat list \<Rightarrow> engine \<Rightarrow> engine res" where
  "create_all io [] e = Inr e"
| "create_all io (i # is) e =
    (case create_shard io i e of
       Inl st \<Rightarrow> Inl st
     | Inr s \<Rightarrow> create_all io is (set_shard i s e))"

definition new_engine :: "EngineOptions \<Rightarrow> shard_files list \<Rightarrow> range_ticket list \<Rightarrow> engine" where
  "new_engine opts files tickets =
    \<lparr>en_opts = opts, en_shards = replicate (unat (eo_shard_count opts)) None, en_files = files,
     en_routing = BuildRoutingTable (eo_shard_count opts), en_opened = True, en_tickets = tickets\<rparr>"

definition Engine_Open :: "engine_io \<Rightarrow> EngineOptions \<Rightarrow> shard_files list \<Rightarrow> range_ticket list \<Rightarrow> engine res" where
  "Engine_Open io opts files tickets =
    (let vc = ValidateShardCount (eo_shard_count opts); e = new_engine opts files tickets in
     if \<not> status_ok vc then Inl vc
     else if eo_shard_count opts = 1 then create_all io [0] e
     else if \<not> eo_eager_shard_open opts then Inr e
     else create_all io [0..<unat (eo_shard_count opts)] e)"

section \<open>Operations on one key\<close>

definition route :: "engine \<Rightarrow> bytes \<Rightarrow> u32" where
  "route e key =
    (if eo_shard_count (en_opts e) = 256 \<and> length key = 1 then en_routing e ! unat (hd key)
     else RouteShard key (eo_shard_count (en_opts e)))"

definition on_key ::
  "engine_io \<Rightarrow> bytes \<Rightarrow> (status \<Rightarrow> 'a) \<Rightarrow> (u32 \<Rightarrow> shard \<Rightarrow> (shard \<times> 'a) option) \<Rightarrow> engine \<Rightarrow> (engine \<times> 'a) option"
  where
  "on_key io key fail op e =
    (let id = route e key; (e1, st) = EnsureShard io (unat id) e;
         missing = Some (e1, fail (Status_Internal ''shard missing'')) in
     if \<not> status_ok st then missing
     else case shard_slot e1 (unat id) of
       None \<Rightarrow> missing
     | Some s \<Rightarrow> map_option (\<lambda>(s1, r). (set_shard (unat id) s1 e1, r)) (op id s))"

text \<open>\<open>io_guard\<close> is what the write guard answers, success when none is set.\<close>

definition Engine_Put :: "engine_io \<Rightarrow> bytes \<Rightarrow> bytes \<Rightarrow> u32 \<Rightarrow> engine \<Rightarrow> (engine \<times> status) option" where
  "Engine_Put io key val txn_id e =
    (if \<not> en_opened e then Some (e, Status_Internal ''engine not open'')
     else if \<not> status_ok (io_guard io) then Some (e, io_guard io)
     else on_key io key id (\<lambda>_. shard_Put (io_sync io) (io_append io) key val txn_id) e)"

definition Engine_Delete :: "engine_io \<Rightarrow> bytes \<Rightarrow> u32 \<Rightarrow> engine \<Rightarrow> (engine \<times> status) option" where
  "Engine_Delete io key txn_id e =
    (if \<not> en_opened e then Some (e, Status_Internal ''engine not open'')
     else if \<not> status_ok (io_guard io) then Some (e, io_guard io)
     else on_key io key id (\<lambda>_. shard_Delete (io_sync io) (io_append io) key txn_id) e)"

definition Engine_Get :: "engine_io \<Rightarrow> bytes \<Rightarrow> engine \<Rightarrow> (engine \<times> bytes res) option" where
  "Engine_Get io key e = on_key io key Inl (\<lambda>_ s. shard_Get (io_lib io) s key) e"

definition Engine_GetAsOf :: "engine_io \<Rightarrow> bytes \<Rightarrow> u32 \<Rightarrow> engine \<Rightarrow> (engine \<times> bytes res) option" where
  "Engine_GetAsOf io key timestamp e =
    on_key io key Inl (\<lambda>_ s. Some (s, GetAsOf (io_lib io) (io_mapping io) s key timestamp)) e"

definition Engine_GetAsOfLsn :: "engine_io \<Rightarrow> bytes \<Rightarrow> u64 \<Rightarrow> engine \<Rightarrow> (engine \<times> bytes res) option" where
  "Engine_GetAsOfLsn io key lsn e = on_key io key Inl (\<lambda>_ s. GetAsOfLsn (io_lib io) s key lsn) e"

definition ForShard :: "u64 list \<Rightarrow> u32 \<Rightarrow> u64" where
  "ForShard token i =
    (if unat i < length token then token ! unat i else if token = [] then 0 else hd token)"

definition Engine_GetAtSnapshot ::
  "engine_io \<Rightarrow> bytes \<Rightarrow> u64 list \<Rightarrow> u32 \<Rightarrow> engine \<Rightarrow> (engine \<times> bytes res) option" where
  "Engine_GetAtSnapshot io key token reader e =
    on_key io key Inl (\<lambda>i s. GetAtSnapshot (io_lib io) s key \<lparr>cx_lsn = ForShard token i, cx_txn_id = reader\<rparr>) e"

definition Engine_ResolveLsnAtSnapshot ::
  "engine_io \<Rightarrow> bytes \<Rightarrow> u64 list \<Rightarrow> engine \<Rightarrow> (engine \<times> u64 res) option" where
  "Engine_ResolveLsnAtSnapshot io key token e =
    on_key io key Inl (\<lambda>i s. ResolveLsnAtSnapshot (io_hash io) (io_lib io) s key (ForShard token i)) e"

definition Engine_ResolveCurrentCommittedLsn :: "engine_io \<Rightarrow> bytes \<Rightarrow> engine \<Rightarrow> (engine \<times> u64 res) option" where
  "Engine_ResolveCurrentCommittedLsn io key e =
    on_key io key Inl (\<lambda>_ s. shard_ResolveCurrentCommittedLsn (io_lib io) s key) e"

section \<open>Operations on every shard\<close>

text \<open>Shard after shard up to the first failure, over the shards that are open.\<close>

fun until_failure :: "(nat \<Rightarrow> shard \<Rightarrow> (shard \<times> status) option) \<Rightarrow> nat list \<Rightarrow> engine \<Rightarrow> (engine \<times> status) option"
  where
  "until_failure op [] e = Some (e, Status_Ok)"
| "until_failure op (i # is) e =
    (case shard_slot e i of
       None \<Rightarrow> until_failure op is e
     | Some s \<Rightarrow> Option.bind (op i s) (\<lambda>(s1, st).
         if status_ok st then until_failure op is (set_shard i s1 e) else Some (set_shard i s1 e, st)))"

text \<open>Every shard, reporting the last failure.\<close>

fun last_failure :: "(nat \<Rightarrow> shard \<Rightarrow> shard \<times> status) \<Rightarrow> nat list \<Rightarrow> status \<Rightarrow> engine \<Rightarrow> engine \<times> status" where
  "last_failure op [] acc e = (e, acc)"
| "last_failure op (i # is) acc e =
    (case shard_slot e i of
       None \<Rightarrow> last_failure op is acc e
     | Some s \<Rightarrow> (let (s1, st) = op i s in
         last_failure op is (if status_ok st then acc else st) (set_shard i s1 e)))"

definition all_shards :: "engine \<Rightarrow> nat list" where
  "all_shards e = [0..<length (en_shards e)]"

definition Engine_Flush :: "engine_io \<Rightarrow> flush_env \<Rightarrow> engine \<Rightarrow> (engine \<times> status) option" where
  "Engine_Flush io env e = until_failure (\<lambda>_. shard_Flush (io_lib io) (io_sync io) env) (all_shards e) e"

definition Engine_Checkpoint :: "engine_io \<Rightarrow> checkpoint_env \<Rightarrow> engine \<Rightarrow> (engine \<times> status) option" where
  "Engine_Checkpoint io env e = until_failure (\<lambda>_. Checkpoint (io_lib io) env) (all_shards e) e"

definition Engine_Recover :: "engine_io \<Rightarrow> engine \<Rightarrow> (engine \<times> status) option" where
  "Engine_Recover io e = until_failure (\<lambda>_ s. Some (Recover (io_lib io) (io_mapping io) s)) (all_shards e) e"

definition Engine_RecoverFull :: "engine \<Rightarrow> (engine \<times> status) option" where
  "Engine_RecoverFull e = until_failure (\<lambda>_ s. Some (RecoverFull s)) (all_shards e) e"

definition Engine_GroupCommit :: "engine_io \<Rightarrow> engine \<Rightarrow> (engine \<times> status) option" where
  "Engine_GroupCommit io e = until_failure (\<lambda>_ s. Some (GroupCommitRule (io_sync io) s)) (all_shards e) e"

definition RefreshExternalWalForOCC :: "engine \<Rightarrow> engine \<times> status" where
  "RefreshExternalWalForOCC e = last_failure (\<lambda>_. RefreshExternalWalIfPending) (all_shards e) Status_Ok e"

definition Engine_Prepare :: "engine_io \<Rightarrow> typed_plan \<Rightarrow> engine \<Rightarrow> engine \<times> status" where
  "Engine_Prepare io plan e =
    (if length (en_shards e) = 1 then (e, case shard_slot e 0 of Some s \<Rightarrow> Prepare plan s | None \<Rightarrow> Status_Ok)
     else if tp_op plan = KEq then
       (case on_key io (tp_key plan) id (\<lambda>_ s. Some (s, Prepare plan s)) e of
          Some r \<Rightarrow> r | None \<Rightarrow> (e, Status_Ok))
     else (e, (case find (\<lambda>st. \<not> status_ok st) (map (Prepare plan) (List.map_filter id (en_shards e))) of
          Some st \<Rightarrow> st | None \<Rightarrow> Status_Ok)))"

definition Engine_stable_lsn :: "engine \<Rightarrow> u64" where
  "Engine_stable_lsn e = foldl max 0 (map sh_stable (List.map_filter id (en_shards e)))"

definition wal_replay_pending :: "engine \<Rightarrow> bool" where
  "wal_replay_pending e \<longleftrightarrow> (\<exists>s \<in> set (List.map_filter id (en_shards e)). sh_pending s)"

definition recovery_mode :: "engine \<Rightarrow> RecoveryMode" where
  "recovery_mode e = (case shard_slot e 0 of Some s \<Rightarrow> sh_mode s | None \<Rightarrow> KHot)"

section \<open>Scans\<close>

type_synonym rows = "(bytes \<times> bytes) list"

definition MergeScanRows :: "rows list \<Rightarrow> rows" where
  "MergeScanRows shard_rows = sort_rows (concat shard_rows)"

fun scan_each :: "engine_io \<Rightarrow> (nat \<Rightarrow> shard \<Rightarrow> (shard \<times> rows res) option) \<Rightarrow> nat list \<Rightarrow> engine
    \<Rightarrow> (engine \<times> rows res list) option" where
  "scan_each io op [] e = Some (e, [])"
| "scan_each io op (i # is) e =
    (let (e1, st) = EnsureShardForScan io i e;
         rest = (\<lambda>r e2. map_option (\<lambda>(e3, rs). (e3, r # rs)) (scan_each io op is e2)) in
     if \<not> status_ok st then rest (Inl (Status_Internal ''ensure shard failed'')) e1
     else case shard_slot e1 i of
       None \<Rightarrow> rest (Inr []) e1
     | Some s \<Rightarrow> Option.bind (op i s) (\<lambda>(s1, r). rest r (set_shard i s1 e1)))"

definition merge_results :: "rows res list \<Rightarrow> rows res" where
  "merge_results rs =
    (case find isl rs of
       Some r \<Rightarrow> Inl (projl r)
     | None \<Rightarrow> Inr (MergeScanRows (map projr rs)))"

definition scan_engine :: "engine_io \<Rightarrow> (nat \<Rightarrow> shard \<Rightarrow> (shard \<times> rows res) option) \<Rightarrow>
    (nat \<Rightarrow> shard \<Rightarrow> (shard \<times> rows res) option) \<Rightarrow> engine \<Rightarrow> (engine \<times> rows res) option" where
  "scan_engine io one many e =
    (if length (en_shards e) = 1 then
       (let (e1, st) = EnsureShard io 0 e; missing = Some (e1, Inl (Status_Internal ''shard missing'')) in
        if \<not> status_ok st then missing
        else case shard_slot e1 0 of
          None \<Rightarrow> missing
        | Some s \<Rightarrow> map_option (\<lambda>(s1, r). (set_shard 0 s1 e1, r)) (one 0 s))
     else map_option (\<lambda>(e1, rs). (e1, merge_results rs)) (scan_each io many (all_shards e) e))"

definition shard_plan :: "typed_plan \<Rightarrow> shard \<Rightarrow> typed_plan" where
  "shard_plan plan s =
    (if 0 < tp_snapshot_lsn plan then plan\<lparr>tp_snapshot_lsn := min (tp_snapshot_lsn plan) (sh_stable s)\<rparr>
     else if 0 < sh_stable s then plan\<lparr>tp_snapshot_lsn := sh_stable s\<rparr> else plan)"

definition Engine_Scan :: "engine_io \<Rightarrow> typed_plan \<Rightarrow> engine \<Rightarrow> (engine \<times> rows res) option" where
  "Engine_Scan io plan e =
    scan_engine io (\<lambda>_ s. shard_Scan (io_lib io) s plan) (\<lambda>_ s. shard_Scan (io_lib io) s (shard_plan plan s)) e"

definition Engine_ScanAsOf :: "engine_io \<Rightarrow> typed_plan \<Rightarrow> u32 \<Rightarrow> engine \<Rightarrow> (engine \<times> rows res) option" where
  "Engine_ScanAsOf io plan timestamp e =
    (let f = (\<lambda>(_::nat) s. Some (s, ScanAsOf (io_lib io) (io_mapping io) s plan timestamp)) in scan_engine io f f e)"

definition Engine_ScanAtSnapshot ::
  "engine_io \<Rightarrow> typed_plan \<Rightarrow> u64 list \<Rightarrow> u32 \<Rightarrow> engine \<Rightarrow> (engine \<times> rows res) option" where
  "Engine_ScanAtSnapshot io plan token reader e =
    (let f = (\<lambda>i s. ScanAtSnapshot (io_lib io) s plan
                \<lparr>cx_lsn = ForShard token (word_of_nat i), cx_txn_id = reader\<rparr>) in scan_engine io f f e)"

section \<open>Snapshots and the marks of transactions\<close>

definition CaptureSnapshot :: "engine \<Rightarrow> u64 list" where
  "CaptureSnapshot e = map (\<lambda>s. case s of Some s \<Rightarrow> sh_stable s | None \<Rightarrow> 0) (en_shards e)"

definition map_shards :: "(nat \<Rightarrow> shard \<Rightarrow> shard) \<Rightarrow> engine \<Rightarrow> engine" where
  "map_shards f e = e\<lparr>en_shards := map (\<lambda>i. map_option (f i) (en_shards e ! i)) (all_shards e)\<rparr>"

definition Engine_PinSnapshot :: "u64 list \<Rightarrow> engine \<Rightarrow> engine" where
  "Engine_PinSnapshot token e = map_shards (\<lambda>i. PinSnapshot (ForShard token (word_of_nat i))) e"

definition Engine_ReleaseSnapshot :: "u64 list \<Rightarrow> engine \<Rightarrow> engine" where
  "Engine_ReleaseSnapshot token e = map_shards (\<lambda>i. ReleaseSnapshot (ForShard token (word_of_nat i))) e"

fun begin_each :: "engine_io \<Rightarrow> u32 \<Rightarrow> u64 list \<Rightarrow> nat list \<Rightarrow> status \<Rightarrow> engine \<Rightarrow> engine \<times> status" where
  "begin_each io txn_id token [] acc e = (e, acc)"
| "begin_each io txn_id token (i # is) acc e =
    (let (e1, es) = EnsureShard io i e in
     if \<not> status_ok es then (e1, es)
     else case shard_slot e1 i of
       None \<Rightarrow> (e1, es)
     | Some s \<Rightarrow> (let (s1, st) = AppendTxnBegin (io_append io) txn_id (ForShard token (word_of_nat i)) s in
         begin_each io txn_id token is (if status_ok st then acc else st) (set_shard i s1 e1)))"

definition Engine_AppendTxnBegin :: "engine_io \<Rightarrow> u32 \<Rightarrow> u64 list \<Rightarrow> engine \<Rightarrow> engine \<times> status" where
  "Engine_AppendTxnBegin io txn_id token e =
    (if \<not> en_opened e then (e, Status_Internal ''engine not open'')
     else begin_each io txn_id token (all_shards e) Status_Ok e)"

definition Engine_AppendTxnCommit :: "engine_io \<Rightarrow> u32 \<Rightarrow> engine \<Rightarrow> engine \<times> status" where
  "Engine_AppendTxnCommit io txn_id e =
    (if \<not> en_opened e then (e, Status_Internal ''engine not open'')
     else last_failure (\<lambda>_. AppendTxnCommit (io_sync io) (io_sync io) (io_append io) txn_id) (all_shards e) Status_Ok e)"

definition Engine_AppendTxnAbort :: "engine_io \<Rightarrow> u32 \<Rightarrow> engine \<Rightarrow> engine \<times> status" where
  "Engine_AppendTxnAbort io txn_id e =
    (if \<not> en_opened e then (e, Status_Internal ''engine not open'')
     else last_failure (\<lambda>_. AppendTxnAbort (io_append io) txn_id) (all_shards e) Status_Ok e)"

definition RegisterRangeTicket :: "u32 \<Rightarrow> u64 \<Rightarrow> bytes \<Rightarrow> bytes \<Rightarrow> engine \<Rightarrow> engine" where
  "RegisterRangeTicket txn_id snapshot_lsn lo hi e = e\<lparr>en_tickets := en_tickets e @
     [\<lparr>rt_txn_id = txn_id, rt_snapshot_lsn = snapshot_lsn, rt_key_lo = lo, rt_key_hi = hi\<rparr>]\<rparr>"

definition UnregisterRangeTickets :: "u32 \<Rightarrow> engine \<Rightarrow> engine" where
  "UnregisterRangeTickets txn_id e = e\<lparr>en_tickets := filter (\<lambda>t. rt_txn_id t \<noteq> txn_id) (en_tickets e)\<rparr>"

definition ValidateRangeTicketCommit :: "u32 \<Rightarrow> (bytes \<times> u64) list \<Rightarrow> engine \<Rightarrow> status" where
  "ValidateRangeTicketCommit txn_id write_set e = ValidateCommit txn_id write_set (en_tickets e)"

end
