(* ===== verification/Transactions.thy ===== *)
theory Transactions
  imports EngineCore Catalog "HOL-Library.AList" "HOL-Library.Monad_Syntax"
begin

text \<open>
  A transaction over the engine: \<^verbatim>\<open>sql/session/transaction_state.cc\<close>, \<^verbatim>\<open>sql/session/transaction_state.h\<close>
  and the read policy of \<^verbatim>\<open>sql/exec/txn_read_policy.h\<close>. The state holds the snapshot, the LSN each key
  was read at, the LSN each written key had, the journal of old values and the savepoints. The hash
  maps of the code are association lists in the order of insertion. The engine is always there;
  the guards of the code against a null engine have no counterpart.
\<close>

section \<open>State\<close>

record journal_entry =
  je_key :: bytes
  je_had_value :: bool
  je_old_value :: bytes

record txn_state =
  tx_active :: bool
  tx_id :: u32
  tx_snapshot :: "u64 list"
  tx_reads :: "(bytes \<times> u64) list"
  tx_writes :: "(bytes \<times> u64) list"
  tx_tickets :: "(u64 \<times> bytes \<times> bytes) list"
  tx_journal :: "journal_entry list"
  tx_savepoints :: "nat list"
  tx_savepoint_names :: "string list"

definition no_txn :: txn_state where
  "no_txn = \<lparr>tx_active = False, tx_id = 0, tx_snapshot = [], tx_reads = [], tx_writes = [],
     tx_tickets = [], tx_journal = [], tx_savepoints = [], tx_savepoint_names = []\<rparr>"

abbreviation set_read :: "bytes \<Rightarrow> u64 \<Rightarrow> txn_state \<Rightarrow> txn_state" where
  "set_read key lsn t \<equiv> t\<lparr>tx_reads := AList.update key lsn (tx_reads t)\<rparr>"

abbreviation set_write :: "bytes \<Rightarrow> u64 \<Rightarrow> txn_state \<Rightarrow> txn_state" where
  "set_write key lsn t \<equiv> t\<lparr>tx_writes := AList.update key lsn (tx_writes t)\<rparr>"

definition is_not_found :: "'a res \<Rightarrow> bool" where
  "is_not_found r \<longleftrightarrow> (case r of Inl e \<Rightarrow> st_code e = KNotFound | Inr _ \<Rightarrow> False)"

section \<open>Reads and intents\<close>

definition SampleReadVersion :: "engine_io \<Rightarrow> bytes \<Rightarrow> txn_state \<Rightarrow> engine \<Rightarrow> (engine \<times> u64 res) option" where
  "SampleReadVersion io key t e = Engine_ResolveLsnAtSnapshot io key (tx_snapshot t) e"

definition ReadKey ::
  "engine_io \<Rightarrow> bytes \<Rightarrow> txn_state \<Rightarrow> engine \<Rightarrow> ((txn_state \<times> engine) \<times> bytes res) option" where
  "ReadKey io key t e =
     (if \<not> tx_active t then map_option (\<lambda>(e1, r). ((t, e1), r)) (Engine_Get io key e)
      else do {
        (e1, sample) \<leftarrow> SampleReadVersion io key t e;
        case sample of
          Inr lsn \<Rightarrow> map_option (\<lambda>(e2, r). ((set_read key lsn t, e2), r))
            (Engine_GetAtSnapshot io key (tx_snapshot t) (tx_id t) e1)
        | Inl err \<Rightarrow>
            if st_code err \<noteq> KNotFound then Some ((t, e1), Inl err)
            else do {
              (e2, cur) \<leftarrow> Engine_ResolveCurrentCommittedLsn io key e1;
              let t1 = set_read key (case cur of Inr lsn \<Rightarrow> lsn | Inl _ \<Rightarrow> 0) t;
              map_option (\<lambda>(e3, r). ((t1, e3), r))
                (Engine_GetAtSnapshot io key (tx_snapshot t) (tx_id t) e2)
            }
      })"

definition RecordWriteIntent ::
  "engine_io \<Rightarrow> bytes \<Rightarrow> txn_state \<Rightarrow> engine \<Rightarrow> (txn_state \<times> engine) option" where
  "RecordWriteIntent io key t e =
     (if \<not> tx_active t then Some (t, e)
      else case map_of (tx_reads t) key of
        Some lsn \<Rightarrow>
          if lsn \<noteq> 0 then Some (set_write key lsn t, e)
          else do {
            (e1, cur) \<leftarrow> Engine_ResolveCurrentCommittedLsn io key e;
            Some (case cur of
                Inr committed \<Rightarrow> set_read key committed (set_write key committed t)
              | Inl _ \<Rightarrow> set_write key 0 t, e1)
          }
      | None \<Rightarrow> do {
          (e1, sample) \<leftarrow> SampleReadVersion io key t e;
          Some (case sample of
              Inr lsn \<Rightarrow> set_write key lsn (set_read key lsn t)
            | Inl err \<Rightarrow> if st_code err = KNotFound then set_write key 0 (set_read key 0 t) else t, e1)
        })"

definition RecordReadSample ::
  "engine_io \<Rightarrow> bytes \<Rightarrow> txn_state \<Rightarrow> engine \<Rightarrow> (txn_state \<times> engine) option" where
  "RecordReadSample io key t e =
     (if \<not> tx_active t \<or> IsIndexEncodedKey (str_of_bytes key) then Some (t, e)
      else do {
        (e1, sample) \<leftarrow> SampleReadVersion io key t e;
        Some (case sample of
            Inr lsn \<Rightarrow> set_read key lsn t
          | Inl err \<Rightarrow> if st_code err = KNotFound then set_read key 0 t else t, e1)
      })"

definition RegisterRangeScan :: "bytes \<Rightarrow> bytes \<Rightarrow> txn_state \<Rightarrow> engine \<Rightarrow> txn_state \<times> engine" where
  "RegisterRangeScan lo hi t e =
     (if \<not> tx_active t then (t, e)
      else let snap = ForShard (tx_snapshot t) 0 in
        (t\<lparr>tx_tickets := tx_tickets t @ [(snap, lo, hi)]\<rparr>, RegisterRangeTicket (tx_id t) snap lo hi e))"

definition RecordBeforePut ::
  "engine_io \<Rightarrow> bytes \<Rightarrow> txn_state \<Rightarrow> engine \<Rightarrow> (txn_state \<times> engine) option" where
  "RecordBeforePut io key t e =
     (if \<not> tx_active t then Some (t, e)
      else do {
        ((t1, e1), r) \<leftarrow> ReadKey io key t e;
        let entry = (case r of
            Inr v \<Rightarrow> \<lparr>je_key = key, je_had_value = True, je_old_value = v\<rparr>
          | Inl _ \<Rightarrow> \<lparr>je_key = key, je_had_value = False, je_old_value = []\<rparr>);
        Some (t1\<lparr>tx_journal := tx_journal t1 @ [entry]\<rparr>, e1)
      })"

abbreviation RecordBeforeDelete ::
  "engine_io \<Rightarrow> bytes \<Rightarrow> txn_state \<Rightarrow> engine \<Rightarrow> (txn_state \<times> engine) option" where
  "RecordBeforeDelete \<equiv> RecordBeforePut"

definition TxnGet ::
  "engine_io \<Rightarrow> bytes \<Rightarrow> txn_state \<Rightarrow> engine \<Rightarrow> ((txn_state \<times> engine) \<times> bytes res) option" where
  "TxnGet io key t e =
     (if tx_active t then ReadKey io key t e
      else map_option (\<lambda>(e1, r). ((t, e1), r)) (Engine_Get io key e))"

definition TxnScan :: "engine_io \<Rightarrow> typed_plan \<Rightarrow> txn_state \<Rightarrow> engine \<Rightarrow> (engine \<times> rows res) option" where
  "TxnScan io plan t e =
     (if tx_active t then Engine_ScanAtSnapshot io plan (tx_snapshot t) (tx_id t) e
      else Engine_Scan io plan e)"

section \<open>Begin\<close>

text \<open>The counter of transaction ids is shared by the process; it wraps.\<close>

definition txn_Begin :: "engine_io \<Rightarrow> u32 \<Rightarrow> txn_state \<Rightarrow> engine \<Rightarrow> (u32 \<times> txn_state \<times> engine) \<times> status" where
  "txn_Begin io next_id t e =
     (if tx_active t then ((next_id, t, e), Status_InvalidArgument ''transaction already active'')
      else let token = CaptureSnapshot e;
               e1 = fst (Engine_AppendTxnBegin io next_id token (Engine_PinSnapshot token e)) in
        ((next_id + 1, no_txn\<lparr>tx_active := True, tx_id := next_id, tx_snapshot := token\<rparr>, e1), Status_Ok))"

section \<open>Commit\<close>

text \<open>One pass over recorded LSNs: every key must still have the LSN it was recorded with.\<close>

fun check_lsns ::
  "engine_io \<Rightarrow> string \<Rightarrow> (bytes \<times> u64) list \<Rightarrow> engine \<Rightarrow> (engine \<times> status) option" where
  "check_lsns io msg [] e = Some (e, Status_Ok)"
| "check_lsns io msg ((key, lsn) # rest) e = do {
     (e1, cur) \<leftarrow> Engine_ResolveCurrentCommittedLsn io key e;
     case cur of
       Inl err \<Rightarrow>
         if st_code err \<noteq> KNotFound then Some (e1, err)
         else if lsn \<noteq> 0 then Some (e1, Status_Conflict msg)
         else check_lsns io msg rest e1
     | Inr current \<Rightarrow>
         if lsn \<noteq> current then Some (e1, Status_Conflict msg) else check_lsns io msg rest e1
   }"

definition read_only :: "txn_state \<Rightarrow> (bytes \<times> u64) list" where
  "read_only t = filter (\<lambda>r. map_of (tx_writes t) (fst r) = None) (tx_reads t)"

definition ValidateCommitOCC :: "engine_io \<Rightarrow> txn_state \<Rightarrow> engine \<Rightarrow> (engine \<times> status) option" where
  "ValidateCommitOCC io t e =
     (let (e0, refresh) = RefreshExternalWalForOCC e in
      if \<not> status_ok refresh then Some (e0, refresh)
      else do {
        (e1, reads) \<leftarrow> check_lsns io ''snapshot conflict on key'' (read_only t) e0;
        if \<not> status_ok reads then Some (e1, reads)
        else do {
          (e2, writes) \<leftarrow> check_lsns io ''write ticket stale'' (tx_writes t) e1;
          if \<not> status_ok writes then Some (e2, writes)
          else Some (e2, ValidateRangeTicketCommit (tx_id t) (tx_writes t) e2)
        }
      })"

text \<open>The memtables of the engine are those of its first shard.\<close>

definition on_first :: "(memtable \<Rightarrow> memtable) \<Rightarrow> engine \<Rightarrow> engine" where
  "on_first f e = (case shard_slot e 0 of
     None \<Rightarrow> e
   | Some s \<Rightarrow> set_shard 0 (s\<lparr>sh_mem := f (sh_mem s), sh_imm := f (sh_imm s),
       sh_flushing := f (sh_flushing s)\<rparr>) e)"

definition txn_Commit :: "engine_io \<Rightarrow> DurabilityClass \<Rightarrow> txn_state \<Rightarrow> engine
    \<Rightarrow> ((txn_state \<times> engine) \<times> status) option" where
  "txn_Commit io tier t e =
     (if \<not> tx_active t then Some ((t, e), Status_InvalidArgument ''no active transaction'')
      else do {
        (e1, occ) \<leftarrow> ValidateCommitOCC io t e;
        if \<not> status_ok occ then Some ((t, e1), occ)
        else let (e2, wal) = Engine_AppendTxnCommit io (tx_id t) e1 in
          if \<not> status_ok wal then Some ((t, e2), wal)
          else let e3 = on_first (mem_PromoteTxn (tx_id t)) e2;
                   e4 = Engine_ReleaseSnapshot (tx_snapshot t) (UnregisterRangeTickets (tx_id t) e3) in
            if tier = KGroup then map_option (\<lambda>(e5, st). ((no_txn, e5), st)) (Engine_GroupCommit io e4)
            else Some ((no_txn, e4), Status_Ok)
      })"

section \<open>Rollback\<close>

text \<open>Writing one journaled value back; the result is ignored. A key without an old value is deleted
  under the given transaction.\<close>

definition undo_entry :: "engine_io \<Rightarrow> u32 \<Rightarrow> journal_entry \<Rightarrow> engine \<Rightarrow> engine option" where
  "undo_entry io del_txn j e =
     map_option fst
       (if je_had_value j then Engine_Put io (je_key j) (je_old_value j) 0 e
        else Engine_Delete io (je_key j) del_txn e)"

fun undo_all :: "engine_io \<Rightarrow> u32 \<Rightarrow> journal_entry list \<Rightarrow> engine \<Rightarrow> engine option" where
  "undo_all io del_txn [] e = Some e"
| "undo_all io del_txn (j # js) e = Option.bind (undo_entry io del_txn j e) (undo_all io del_txn js)"

definition abort_marks :: "engine_io \<Rightarrow> u32 \<Rightarrow> engine \<Rightarrow> engine" where
  "abort_marks io txn_id e =
     UnregisterRangeTickets txn_id
       (on_first (mem_ClearTxn txn_id) (fst (Engine_AppendTxnAbort io txn_id e)))"

definition txn_Rollback :: "engine_io \<Rightarrow> txn_state \<Rightarrow> engine \<Rightarrow> ((txn_state \<times> engine) \<times> status) option" where
  "txn_Rollback io t e =
     (if \<not> tx_active t then Some ((t, e), Status_InvalidArgument ''no active transaction'')
      else map_option (\<lambda>e1. ((no_txn, Engine_ReleaseSnapshot (tx_snapshot t) e1), Status_Ok))
        (undo_all io 0 (rev (tx_journal t)) (abort_marks io (tx_id t) e)))"

section \<open>Savepoints\<close>

definition Savepoint :: "string \<Rightarrow> txn_state \<Rightarrow> txn_state \<times> status" where
  "Savepoint name t =
     (if \<not> tx_active t then (t, Status_InvalidArgument ''no active transaction'')
      else (t\<lparr>tx_savepoints := tx_savepoints t @ [length (tx_journal t)],
              tx_savepoint_names := tx_savepoint_names t @ [name]\<rparr>, Status_Ok))"

fun position_of :: "'a \<Rightarrow> 'a list \<Rightarrow> nat option" where
  "position_of x [] = None"
| "position_of x (y # ys) = (if y = x then Some 0 else map_option Suc (position_of x ys))"

definition erase_at :: "nat \<Rightarrow> 'a list \<Rightarrow> 'a list" where
  "erase_at i xs = take i xs @ drop (Suc i) xs"

definition ReleaseSavepoint :: "string \<Rightarrow> txn_state \<Rightarrow> txn_state \<times> status" where
  "ReleaseSavepoint name t =
     (if \<not> tx_active t then (t, Status_InvalidArgument ''no active transaction'')
      else case position_of name (tx_savepoint_names t) of
        None \<Rightarrow> (t, Status_InvalidArgument ''savepoint not found'')
      | Some i \<Rightarrow> (t\<lparr>tx_savepoint_names := erase_at i (tx_savepoint_names t),
                      tx_savepoints := erase_at i (tx_savepoints t)\<rparr>, Status_Ok))"

definition RollbackToSavepoint ::
  "engine_io \<Rightarrow> string \<Rightarrow> txn_state \<Rightarrow> engine \<Rightarrow> ((txn_state \<times> engine) \<times> status) option" where
  "RollbackToSavepoint io name t e =
     (if \<not> tx_active t then Some ((t, e), Status_InvalidArgument ''no active transaction'')
      else case position_of name (tx_savepoint_names t) of
        None \<Rightarrow> Some ((t, e), Status_InvalidArgument ''savepoint not found'')
      | Some i \<Rightarrow>
          (let keep = tx_savepoints t ! i in
           map_option (\<lambda>e1. ((t\<lparr>tx_journal := take keep (tx_journal t),
               tx_savepoint_names := take i (tx_savepoint_names t),
               tx_savepoints := take i (tx_savepoints t)\<rparr>, e1), Status_Ok))
             (undo_all io (tx_id t) (rev (drop keep (tx_journal t))) e)))"

end
