(* ===== verification/EngineFacts.thy ===== *)
theory EngineFacts
  imports Transactions
begin

text \<open>
  What the engine and its transactions guarantee, over the lemmas of the shards: a put is read back whatever
  shard it goes to and touches no other shard; and what a commit, a rollback and a lazily opened shard do.
\<close>

section \<open>Routing\<close>

definition engine_ok :: "engine \<Rightarrow> bool" where
  "engine_ok e \<longleftrightarrow> status_ok (ValidateShardCount (eo_shard_count (en_opts e)))
     \<and> length (en_shards e) = unat (eo_shard_count (en_opts e))
     \<and> en_routing e = BuildRoutingTable (eo_shard_count (en_opts e))"

lemma new_engine_ok: "status_ok (ValidateShardCount (eo_shard_count opts)) \<Longrightarrow> engine_ok (new_engine opts files tickets)"
  by (simp add: engine_ok_def new_engine_def)

lemma valid_shard_count: "status_ok (ValidateShardCount n) \<Longrightarrow> n \<noteq> 0"
  by (auto simp: ValidateShardCount_def status_defs)

text \<open>
  The table is a cache of the hash: the slot the engine takes from the routing table for a key of one byte is
  the one the hash gives, so every key has one shard, and that shard is one of the engine's.
\<close>

theorem routing_table_is_hash:
  assumes "engine_ok e"
  shows "route e key = RouteShard key (eo_shard_count (en_opts e)) \<and> unat (route e key) < length (en_shards e)"
proof -
  let ?n = "eo_shard_count (en_opts e)"
  have n: "?n \<noteq> 0" "length (en_shards e) = unat ?n" "en_routing e = BuildRoutingTable ?n"
    using assms valid_shard_count by (auto simp: engine_ok_def)
  have "BuildRoutingTable ?n ! unat c = RouteShard [c] ?n" for c
    using n(1) unat_byte_bound [of c] by (simp add: BuildRoutingTable_def)
  moreover have "key = [hd key]" if "length key = 1"
    using that by (cases key) auto
  ultimately have r: "route e key = RouteShard key ?n"
    using n(3) by (metis route_def)
  have "RouteShard key ?n < ?n"
    using n(1) by (auto simp: RouteShard_def word_mod_less_divisor word_neq_0_conv
        intro: le_neq_trans)
  with r n(2) show ?thesis by (simp add: word_less_nat_alt)
qed

section \<open>Frames\<close>

lemma set_shard_simps [simp]:
  "en_opts (set_shard i s e) = en_opts e" "en_files (set_shard i s e) = en_files e"
  "en_routing (set_shard i s e) = en_routing e" "en_opened (set_shard i s e) = en_opened e"
  "en_tickets (set_shard i s e) = en_tickets e" "length (en_shards (set_shard i s e)) = length (en_shards e)"
  "all_shards (set_shard i s e) = all_shards e"
  "shard_slot (set_shard i s e) j = (if j = i \<and> i < length (en_shards e) then Some s else shard_slot e j)"
  by (auto simp: set_shard_def shard_slot_def all_shards_def nth_list_update)

definition same_engine :: "engine \<Rightarrow> engine \<Rightarrow> bool" where
  "same_engine e e1 \<longleftrightarrow> en_opts e1 = en_opts e \<and> en_files e1 = en_files e \<and> en_routing e1 = en_routing e
     \<and> length (en_shards e1) = length (en_shards e)"

lemma same_engine_refl [simp]: "same_engine e e"
  by (simp add: same_engine_def)

lemma same_engine_trans: "same_engine a b \<Longrightarrow> same_engine b c \<Longrightarrow> same_engine a c"
  by (simp add: same_engine_def)

lemma same_engine_ops [simp]:
  "same_engine e (set_shard i s e1) \<longleftrightarrow> same_engine e e1"
  "same_engine e (e1\<lparr>en_opened := b\<rparr>) \<longleftrightarrow> same_engine e e1"
  "same_engine e (e1\<lparr>en_tickets := t\<rparr>) \<longleftrightarrow> same_engine e e1"
  by (auto simp: same_engine_def)

lemma slot_update [simp]:
  "shard_slot (e\<lparr>en_opened := b\<rparr>) j = shard_slot e j" "shard_slot (e\<lparr>en_tickets := t\<rparr>) j = shard_slot e j"
  by (simp_all add: shard_slot_def)

lemma route_same: "same_engine e e1 \<Longrightarrow> route e1 key = route e key"
  by (simp add: route_def same_engine_def)

lemma create_same: "same_engine e e1 \<Longrightarrow> create_shard io i e1 = create_shard io i e"
  by (simp add: create_shard_def same_engine_def)

lemma create_error: "create_shard io i e = Inl st \<Longrightarrow> \<not> status_ok st"
  by (auto simp: create_shard_def shard_Open_def split: prod.splits if_splits)

lemma slot_range: "shard_slot e i = Some s \<Longrightarrow> i < length (en_shards e)"
  by (auto simp: shard_slot_def split: if_splits)

lemma EnsureShard_cases:
  assumes "EnsureShard io i e = (e1, st)"
  obtains (failed) "e1 = e" "\<not> status_ok st" "shard_slot e i = None"
    | (present) s where "e1 = e" "st = Status_Ok" "shard_slot e i = Some s"
    | (opened) s where "shard_slot e i = None" "i < length (en_shards e)" "create_shard io i e = Inr s"
        "e1 = (set_shard i s e)\<lparr>en_opened := True\<rparr>" "st = Status_Ok"
proof (cases "shard_slot e i")
  case None
  show ?thesis
  proof (cases "i < length (en_shards e)")
    case False
    then show ?thesis using assms None that(1) by (auto simp: EnsureShard_def status_defs)
  next
    case True
    show ?thesis
    proof (cases "create_shard io i e")
      case (Inl err)
      then show ?thesis using assms None True create_error [OF Inl] that(1) by (simp add: EnsureShard_def)
    next
      case (Inr s)
      then show ?thesis using assms None True that(3) by (simp add: EnsureShard_def)
    qed
  qed
next
  case (Some s)
  then show ?thesis
    using assms slot_range [OF Some] that(2) by (simp add: EnsureShard_def)
qed

lemma EnsureShard_frame:
  assumes "EnsureShard io i e = (e1, st)"
  shows "same_engine e e1" "j \<noteq> i \<Longrightarrow> shard_slot e1 j = shard_slot e j" "status_ok st \<Longrightarrow> shard_slot e1 i \<noteq> None"
    "shard_slot e i = None \<Longrightarrow> shard_slot e1 i = Some s \<Longrightarrow> create_shard io i e = Inr s"
    "shard_slot e i = Some s \<Longrightarrow> shard_slot e1 i = Some s"
  using assms by (auto elim!: EnsureShard_cases)

lemma on_key_cases:
  assumes "on_key io key fail op e = Some (e1, r)"
  obtains (missing) st where "EnsureShard io (unat (route e key)) e = (e1, st)" "r = fail (Status_Internal ''shard missing'')"
      "\<not> status_ok st"
    | (ran) e0 s s1 where "EnsureShard io (unat (route e key)) e = (e0, Status_Ok)"
      "shard_slot e0 (unat (route e key)) = Some s" "op (route e key) s = Some (s1, r)"
      "e1 = set_shard (unat (route e key)) s1 e0"
proof -
  let ?i = "unat (route e key)"
  obtain e0 es where ens: "EnsureShard io ?i e = (e0, es)" by fastforce
  show ?thesis
  proof (cases "status_ok es")
    case False
    then show ?thesis using assms ens that(1) by (auto simp: on_key_def Let_def)
  next
    case True
    from EnsureShard_frame(3) [OF ens True] obtain s where s: "shard_slot e0 ?i = Some s" by blast
    have "es = Status_Ok" using ens True by (auto elim!: EnsureShard_cases)
    then show ?thesis using assms ens True s that(2) by (auto simp: on_key_def Let_def)
  qed
qed

lemma on_key_frame:
  assumes "on_key io key fail op e = Some (e1, r)"
  shows "same_engine e e1" "j \<noteq> unat (route e key) \<Longrightarrow> shard_slot e1 j = shard_slot e j"
proof -
  have "same_engine e e1 \<and> (j \<noteq> unat (route e key) \<longrightarrow> shard_slot e1 j = shard_slot e j)"
    using assms by (cases rule: on_key_cases) (auto dest: EnsureShard_frame(1,2))
  then show "same_engine e e1" "j \<noteq> unat (route e key) \<Longrightarrow> shard_slot e1 j = shard_slot e j" by blast+
qed

lemma on_key_other:
  assumes "on_key io key fail op e = Some (e1, r)" "route e key' \<noteq> route e key"
  shows "map_option snd (on_key io key' fail' op' e1) = map_option snd (on_key io key' fail' op' e)"
proof -
  let ?i = "unat (route e key')"
  note f = on_key_frame [OF assms(1)]
  have s: "shard_slot e1 ?i = shard_slot e ?i"
    using f(2) assms(2) by (simp add: word_unat_eq_iff)
  have "snd (EnsureShard io ?i e1) = snd (EnsureShard io ?i e)"
    "shard_slot (fst (EnsureShard io ?i e1)) ?i = shard_slot (fst (EnsureShard io ?i e)) ?i"
    using s f(1) create_same [OF f(1), of io ?i]
    by (auto simp: EnsureShard_def same_engine_def split: sum.split)
  then show ?thesis
    using route_same [OF f(1), of key']
    by (simp add: on_key_def Let_def split_beta option.map_comp comp_def split: option.split)
qed

text \<open>A successful operation on a key ran on the key's shard, which is in its slot afterwards.\<close>

lemma on_key_status:
  assumes "on_key io key id op e = Some (e1, st)" "status_ok st"
  obtains s s1 where "op (route e key) s = Some (s1, st)" "shard_slot e1 (unat (route e key)) = Some s1"
  using assms(1)
proof (cases rule: on_key_cases)
  case (missing es)
  then show ?thesis using assms(2) by (simp add: status_defs)
next
  case (ran e0 s s1)
  then show ?thesis
    using that [of s s1] slot_range [OF ran(2)] by simp
qed

lemma on_key_present:
  "shard_slot e (unat (route e key)) = Some s \<Longrightarrow> on_key io key fail op e =
     map_option (\<lambda>(s1, r). (set_shard (unat (route e key)) s1 e, r)) (op (route e key) s)"
  using slot_range [of e "unat (route e key)" s]
  by (auto simp: on_key_def EnsureShard_def status_defs Let_def)

lemma put_entry:
  assumes "Engine_Put io key val 0 e = Some (e1, st)" "status_ok st"
  obtains s1 lsn where "shard_slot e1 (unat (route e key)) = Some s1" "key \<noteq> []"
    "mem_Get (sh_mem s1) key = Some (entry_for kPut val 0 lsn)" "\<not> sh_pending s1 \<or> sh_wal_corrupt s1"
    "same_engine e e1"
proof -
  have k: "on_key io key id (\<lambda>_. shard_Put (io_sync io) (io_append io) key val 0) e = Some (e1, st)"
    using assms by (auto simp: Engine_Put_def status_defs split: if_splits)
  from on_key_status [OF k assms(2)] obtain s s1 where
    s: "shard_Put (io_sync io) (io_append io) key val 0 s = Some (s1, st)" "shard_slot e1 (unat (route e key)) = Some s1" .
  from s(1) [unfolded shard_write_ops] assms(2) obtain lsn where
    "key \<noteq> []" "mem_Get (sh_mem s1) key = Some (entry_for kPut val 0 lsn)" "\<not> sh_pending s1 \<or> sh_wal_corrupt s1"
    by (rule shard_write_ok) auto
  from that [OF s(2) this on_key_frame(1) [OF k]] show ?thesis .
qed

lemma get_entry:
  assumes "shard_slot e (unat (route e key)) = Some s" "key \<noteq> []"
    "mem_Get (sh_mem s) key = Some (entry_for kPut val 0 lsn)" "\<not> sh_pending s \<or> sh_wal_corrupt s"
  shows "\<exists>e1. Engine_Get io key e = Some (e1, Inr val)"
  using get_of_entry [OF assms(3,2,4), of "io_lib io"] by (auto simp: Engine_Get_def on_key_present [OF assms(1)])

text \<open>
  C11. A put to the engine is read back whatever shard its key is hashed to, and a key of any other shard reads as
  it did before the put.
\<close>

theorem engine_put_then_get:
  assumes "Engine_Put io key val 0 e = Some (e1, st)" "status_ok st"
  shows "(\<exists>e2. Engine_Get io key e1 = Some (e2, Inr val)) \<and>
    (\<forall>other. route e other \<noteq> route e key \<longrightarrow>
       map_option snd (Engine_Get io other e1) = map_option snd (Engine_Get io other e))"
proof -
  from put_entry [OF assms] obtain s1 lsn where s: "shard_slot e1 (unat (route e key)) = Some s1" "key \<noteq> []"
    "mem_Get (sh_mem s1) key = Some (entry_for kPut val 0 lsn)" "\<not> sh_pending s1 \<or> sh_wal_corrupt s1" "same_engine e e1" .
  have "on_key io key id (\<lambda>_. shard_Put (io_sync io) (io_append io) key val 0) e = Some (e1, st)"
    using assms by (auto simp: Engine_Put_def status_defs split: if_splits)
  then have "map_option snd (Engine_Get io other e1) = map_option snd (Engine_Get io other e)"
    if "route e other \<noteq> route e key" for other
    using that unfolding Engine_Get_def by (rule on_key_other)
  with get_entry [of e1 key s1, OF _ s(2-4)] s(1) route_same [OF s(5), of key] show ?thesis by simp
qed

end
