(* ===== verification/TransactionFacts.thy ===== *)
theory TransactionFacts
  imports EngineFacts
begin

text \<open>
  What a transaction over several shards does: the pins of its snapshot, the promotion of its writes
  at commit, and the values a rollback writes.
\<close>

section \<open>Pins\<close>

lemma refresh_pins [simp]: "sh_pins (RefreshRecoveryState s) = sh_pins s"
  by (simp add: RefreshRecoveryState_def)

lemma EnsureWalReplayed_pins [simp]: "sh_pins (fst (EnsureWalReplayed s)) = sh_pins s"
  by (simp add: EnsureWalReplayed_def)

lemma recovery_pins [simp]:
  "sh_pins (attach_index lib sb d s) = sh_pins s" "sh_pins (set_mode b s) = sh_pins s"
  "sh_pins (finish_recovery sb s) = sh_pins s" "sh_pins (fst (heal_btree lib m sb s)) = sh_pins s"
  by (simp_all add: attach_index_def set_mode_def finish_recovery_def heal_btree_def Let_def split_beta)

lemma recover_lazy_pins [simp]: "sh_pins (fst (recover_lazy lib m sb s)) = sh_pins s"
  by (simp add: recover_lazy_def Let_def split_beta)

lemma Recover_pins [simp]: "sh_pins (fst (Recover lib m s)) = sh_pins s"
  by (simp add: Recover_def RecoverFromSuperBlock_def Let_def split_beta split: sum.split)

lemma create_pins: "create_shard io i e = Inr s \<Longrightarrow> sh_pins s = 0"
  by (auto simp: create_shard_def shard_Open_def new_shard_def split_beta split: if_splits)

lemma last_failure_keeps:
  assumes "\<And>j s. f (fst (op j s)) = f s"
  shows "map_option f (shard_slot (fst (last_failure op is acc e)) i) = map_option f (shard_slot e i)"
proof (induction "is" arbitrary: acc e)
  case (Cons j js)
  show ?case
  proof (cases "shard_slot e j")
    case (Some s)
    then show ?thesis
      using assms [of j s] slot_range [OF Some]
      by (auto simp: split_beta Let_def Cons.IH)
  qed (simp add: Cons.IH)
qed simp

lemma slot_map_shards [simp]: "shard_slot (map_shards f e) i = map_option (f i) (shard_slot e i)"
  by (simp add: map_shards_def shard_slot_def all_shards_def)

lemma slot_on_first [simp]: "shard_slot (on_first f e) i = (if i = 0 then map_option
    (\<lambda>s. s\<lparr>sh_mem := f (sh_mem s), sh_imm := f (sh_imm s), sh_flushing := f (sh_flushing s)\<rparr>) (shard_slot e 0)
    else shard_slot e i)"
  by (auto simp: on_first_def dest: slot_range split: option.split)

lemma begin_each_pins:
  "begin_each io n token is acc e = (e1, st) \<Longrightarrow> shard_slot e1 i = Some s \<Longrightarrow>
     sh_pins s = (case shard_slot e i of Some s0 \<Rightarrow> sh_pins s0 | None \<Rightarrow> 0)"
proof (induction "is" arbitrary: acc e)
  case (Cons j js)
  obtain e0 es where ens: "EnsureShard io j e = (e0, es)" by fastforce
  have pins0: "(case shard_slot e0 i of Some s0 \<Rightarrow> sh_pins s0 | None \<Rightarrow> 0)
      = (case shard_slot e i of Some s0 \<Rightarrow> sh_pins s0 | None \<Rightarrow> 0)"
    using ens by (cases rule: EnsureShard_cases) (auto dest: create_pins)
  show ?case
  proof (cases "status_ok es")
    case False
    with Cons.prems ens have "e1 = e0" by (simp split: option.splits)
    with Cons.prems(2) pins0 show ?thesis by simp
  next
    case True
    from EnsureShard_frame(3) [OF ens True] obtain s0 where s0: "shard_slot e0 j = Some s0" by blast
    let ?r = "AppendTxnBegin (io_append io) n (ForShard token (word_of_nat j)) s0"
    have "begin_each io n token js (if status_ok (snd ?r) then acc else snd ?r) (set_shard j (fst ?r) e0) = (e1, st)"
      using Cons.prems(1) ens True s0 by (simp add: split_beta Let_def)
    moreover have "sh_pins (fst ?r) = sh_pins s0"
      by (simp add: AppendTxnBegin_def split_beta Let_def)
    ultimately show ?thesis
      using Cons.IH [OF _ Cons.prems(2)] pins0 s0 slot_range [OF s0] by (auto split: if_splits)
  qed
qed simp

abbreviation pins :: "engine \<Rightarrow> nat \<Rightarrow> u32 option" where
  "pins e i \<equiv> map_option sh_pins (shard_slot e i)"

lemma begin_each_keeps_pins:
  "begin_each io n token is acc e = (e1, st) \<Longrightarrow> pins e i = Some p \<Longrightarrow> pins e1 i = Some p"
proof (induction "is" arbitrary: acc e)
  case (Cons j js)
  obtain e0 es where ens: "EnsureShard io j e = (e0, es)" by fastforce
  have keep: "pins e0 i = Some p"
    using Cons.prems(2) EnsureShard_frame(5) [OF ens] EnsureShard_frame(2) [OF ens, of i] by (cases "i = j") auto
  show ?case
  proof (cases "status_ok es")
    case False
    with Cons.prems(1) ens keep show ?thesis by simp
  next
    case True
    from EnsureShard_frame(3) [OF ens True] obtain s0 where s0: "shard_slot e0 j = Some s0" by blast
    let ?r = "AppendTxnBegin (io_append io) n (ForShard token (word_of_nat j)) s0"
    have "begin_each io n token js (if status_ok (snd ?r) then acc else snd ?r) (set_shard j (fst ?r) e0) = (e1, st)"
      using Cons.prems(1) ens True s0 by (simp add: split_beta Let_def)
    moreover have "pins (set_shard j (fst ?r) e0) i = Some p"
      using keep s0 by (auto simp: AppendTxnBegin_def split_beta Let_def)
    ultimately show ?thesis by (rule Cons.IH)
  qed
qed simp

lemma write_rule_pins: "sh_pins (fst (WriteRule sync ft req s)) = sh_pins s"
  by (simp add: WriteRule_def GroupCommitRule_def split_beta Let_def split: prod.split sum.split)

lemma await_write_pins: "await_write sync r = Some r1 \<Longrightarrow> sh_pins (fst r1) = sh_pins (fst r)"
  unfolding await_write_def
  by (clarsimp split: prod.splits sum.splits bind_splits if_split_asm)

lemma fast_append_pins:
  "sh_pins (fst (PutSyncFastAppend ft key val n s)) = sh_pins s"
  "sh_pins (fst (DeleteSyncFastAppend ft key n s)) = sh_pins s"
  by (simp_all add: PutSyncFastAppend_def DeleteSyncFastAppend_def split: prod.split sum.split)

lemma pipeline_write_pins: "sh_pins (fst (pipeline_write sync ft j s)) = sh_pins s"
  by (simp add: pipeline_write_def after_pipeline_def Let_def)

lemma write_pins:
  "shard_Put sync ft key val n s = Some r \<Longrightarrow> sh_pins (fst r) = sh_pins s"
  "shard_Delete sync ft key n s = Some r \<Longrightarrow> sh_pins (fst r) = sh_pins s"
proof -
  obtain s0 e where e: "EnsureWalReplayed s = (s0, e)" by fastforce
  have p: "sh_pins s0 = sh_pins s" using EnsureWalReplayed_pins [of s] e by simp
  show "shard_Put sync ft key val n s = Some r \<Longrightarrow> sh_pins (fst r) = sh_pins s"
    unfolding shard_Put_def e Let_def prod.case
    by (auto simp: p write_rule_pins pipeline_write_pins fast_append_pins dest!: await_write_pins split: if_splits)
  show "shard_Delete sync ft key n s = Some r \<Longrightarrow> sh_pins (fst r) = sh_pins s"
    unfolding shard_Delete_def e Let_def prod.case
    by (auto simp: p write_rule_pins pipeline_write_pins fast_append_pins dest!: await_write_pins split: if_splits)
qed

lemma on_key_pins:
  assumes "on_key io key fail op e = Some (e1, r)" "pins e i = Some p"
    and "\<And>k s r. op k s = Some r \<Longrightarrow> sh_pins (fst r) = sh_pins s"
  shows "pins e1 i = Some p"
  using assms(1)
proof (cases rule: on_key_cases)
  case (missing st)
  then show ?thesis
    using assms(2) EnsureShard_frame(5) [OF missing(1)] EnsureShard_frame(2) [OF missing(1), of i]
    by (cases "i = unat (route e key)") auto
next
  case (ran e0 s s1)
  have "pins e0 i = Some p"
    using assms(2) EnsureShard_frame(5) [OF ran(1)] EnsureShard_frame(2) [OF ran(1), of i]
    by (cases "i = unat (route e key)") auto
  then show ?thesis using ran(2,4) assms(3) [OF ran(3)] by auto
qed

lemma undo_all_pins: "undo_all io del js e = Some e1 \<Longrightarrow> pins e i = Some p \<Longrightarrow> pins e1 i = Some p"
proof (induction js arbitrary: e)
  case (Cons j js)
  from Cons.prems(1) obtain e0 where e0: "undo_entry io del j e = Some e0" "undo_all io del js e0 = Some e1"
    by (auto simp: bind_eq_Some_conv)
  have "pins e0 i = Some p"
    if "on_key io (je_key j) id op e = Some (e0, b)" "\<And>k s r. op k s = Some r \<Longrightarrow> sh_pins (fst r) = sh_pins s" for op b
    using that(1) Cons.prems(2) that(2) by (rule on_key_pins)
  then have "pins e0 i = Some p"
    using e0(1) Cons.prems(2) write_pins
    by (simp add: undo_entry_def Engine_Put_def Engine_Delete_def split: if_splits) blast+
  with e0(2) show ?case by (rule Cons.IH)
qed simp

lemma abort_marks_pins: "pins (abort_marks io n e) i = pins e i"
proof -
  have "pins (fst (Engine_AppendTxnAbort io n e)) i = pins e i"
    by (auto simp: Engine_AppendTxnAbort_def AppendTxnAbort_def split_beta Let_def intro!: last_failure_keeps)
  then show ?thesis
    by (cases "i = 0") (simp_all add: abort_marks_def UnregisterRangeTickets_def option.map_comp comp_def)
qed

lemma pin_step [simp]:
  "sh_pins (PinSnapshot lsn s) = sh_pins s + 1" "sh_pins (ReleaseSnapshot lsn s) = sh_pins s - 1"
  by (simp_all add: PinSnapshot_def ReleaseSnapshot_def Let_def)

lemma pin_slots:
  "pins (Engine_PinSnapshot token e) i = map_option (\<lambda>p. p + 1) (pins e i)"
  "pins (Engine_ReleaseSnapshot token e) i = map_option (\<lambda>p. p - 1) (pins e i)"
  by (simp_all add: Engine_PinSnapshot_def Engine_ReleaseSnapshot_def option.map_comp comp_def)

lemma AppendTxnBegin_pins:
  "pins e i = Some p \<Longrightarrow> pins (fst (Engine_AppendTxnBegin io n token e)) i = Some p"
  using begin_each_keeps_pins [of io n token "all_shards e" Status_Ok e]
  by (cases "begin_each io n token (all_shards e) Status_Ok e") (auto simp: Engine_AppendTxnBegin_def)

lemma begin_opens_unpinned:
  assumes "\<not> tx_active t" "shard_slot e i = None" "txn_Begin io n t e = ((n1, t1, e1), st)" "shard_slot e1 i \<noteq> None"
  shows "pins e1 i = Some 0"
proof -
  let ?token = "CaptureSnapshot e" and ?e = "Engine_PinSnapshot (CaptureSnapshot e) e"
  have e1: "e1 = fst (Engine_AppendTxnBegin io n ?token ?e)"
    using assms(1,3) by (auto simp: txn_Begin_def Let_def no_txn_def)
  have none: "shard_slot ?e i = None" using assms(2) by (simp add: Engine_PinSnapshot_def)
  show ?thesis
    using e1 assms(4) none begin_each_pins [of io n ?token "all_shards ?e" Status_Ok ?e e1 _ i]
    by (cases "begin_each io n ?token (all_shards ?e) Status_Ok ?e")
      (auto simp: Engine_AppendTxnBegin_def split: if_splits)
qed

text \<open>
  C10. The pins of a shard that a transaction opens wrap around: the snapshot is pinned on the shards that are open
  when the transaction begins, the begin mark then opens the others, and the end of the transaction unpins every
  shard. After the rollback of a transaction, whatever it wrote, such a shard counts \<open>2 ^ 32 - 1\<close> pins and its
  background flush does nothing; when the next transaction begins, the count wraps back to zero, and the background
  flush runs although that transaction's snapshot is pinned. The engine at the time of the rollback is any in which
  the shard counts the pins it had when the transaction had begun.
\<close>

theorem lazy_shard_pins_underflow:
  assumes "\<not> tx_active t" "shard_slot e i = None" "txn_Begin io n t e = ((n1, t1, e1), st)" "shard_slot e1 i \<noteq> None"
    and "tx_active t'" "pins e' i = pins e1 i" "txn_Rollback io t' e' = Some ((t2, e2), st2)"
    and "txn_Begin io n2 t2 e2 = ((n3, t3, e3), st3)"
  shows "\<exists>s2 s3. shard_slot e2 i = Some s2 \<and> sh_pins s2 = 2 ^ 32 - 1 \<and>
    TryFlushBackground lib True sync env s2 = Some (s2, Status_Ok) \<and>
    shard_slot e3 i = Some s3 \<and> sh_pins s3 = 0 \<and> TryFlushBackground lib True sync env s3 = shard_Flush lib sync env s3"
proof -
  have "pins (abort_marks io (tx_id t') e') i = Some 0"
    using begin_opens_unpinned [OF assms(1-4)] assms(6) by (simp add: abort_marks_pins)
  moreover from assms(5,7) obtain eu where eu: "undo_all io 0 (rev (tx_journal t')) (abort_marks io (tx_id t') e') = Some eu"
    "e2 = Engine_ReleaseSnapshot (tx_snapshot t') eu" "t2 = no_txn"
    by (auto simp: txn_Rollback_def)
  ultimately have two: "pins e2 i = Some (- 1)"
    using undo_all_pins [OF eu(1), of i 0] by (simp add: pin_slots)
  have "e3 = fst (Engine_AppendTxnBegin io n2 (CaptureSnapshot e2) (Engine_PinSnapshot (CaptureSnapshot e2) e2))"
    using assms(8) eu(3) by (auto simp: txn_Begin_def no_txn_def Let_def)
  moreover have "pins (Engine_PinSnapshot (CaptureSnapshot e2) e2) i = Some 0"
    unfolding pin_slots two by simp
  ultimately have "pins e3 i = Some 0" by (simp add: AppendTxnBegin_pins)
  moreover have "(0 :: u32) < - 1" by (simp add: word_neq_0_conv [symmetric])
  moreover obtain s2 where "shard_slot e2 i = Some s2" "sh_pins s2 = - 1" using two by auto
  ultimately show ?thesis
    by (auto simp: TryFlushBackground_def simp: TryFlushBackground_def)
qed

section \<open>Commits\<close>

abbreviation tables :: "shard \<Rightarrow> memtable \<times> memtable \<times> memtable" where
  "tables s \<equiv> (sh_mem s, sh_imm s, sh_flushing s)"

lemma AppendTxnCommit_tables: "tables (fst (AppendTxnCommit sync1 sync2 ft n s)) = tables s"
proof -
  obtain w r where a: "AppendTxnControl ft (sh_wal s) kTxnCommit n 0 = (w, r)" by fastforce
  show ?thesis
  proof (cases r)
    case (Inr lsn)
    let ?s = "s\<lparr>sh_wal := w, sh_sidecar := MarkCommitted n lsn (sh_sidecar s)\<rparr>"
    obtain s1 fp where f: "shard_FlushPending sync1 ?s = (s1, fp)" by fastforce
    from pending_frame [OF f] have "tables s1 = tables s" by auto
    then show ?thesis by (simp add: AppendTxnCommit_def a Inr f Let_def split_beta)
  qed (simp add: AppendTxnCommit_def a)
qed

lemma Lookup_promoted: "n \<noteq> 0 \<Longrightarrow>
  LookupMemTable (mem_PromoteTxn n a) (mem_PromoteTxn n b) (mem_PromoteTxn n c) key =
    map_option (\<lambda>e. if me_txn_id e = n then e\<lparr>me_durable := True\<rparr> else e) (LookupMemTable a b c key)"
  by (simp add: LookupMemTable_def mem_Get_def map_of_PromoteTxn split: option.split)

lemma txn_commit_steps:
  assumes "txn_Commit io tier t e = Some ((t2, e2), st)" "status_ok st" "tier \<noteq> KGroup"
    and "ValidateCommitOCC io t e = Some (e1, occ)"
  shows "e2 = Engine_ReleaseSnapshot (tx_snapshot t) (UnregisterRangeTickets (tx_id t)
    (on_first (mem_PromoteTxn (tx_id t)) (fst (Engine_AppendTxnCommit io (tx_id t) e1))))"
  using assms by (auto simp: txn_Commit_def Let_def split_beta status_defs split: if_splits)

lemma release_tables [simp]:
  "sh_mem (ReleaseSnapshot lsn s) = sh_mem s" "sh_imm (ReleaseSnapshot lsn s) = sh_imm s"
  "sh_flushing (ReleaseSnapshot lsn s) = sh_flushing s"
  by (simp_all add: ReleaseSnapshot_def Let_def)

text \<open>
  C8. A commit is not atomic across shards: it makes the transaction's unpublished entries visible to other readers
  in the first shard only. An entry of any other shard stays invisible to every reader but the transaction itself,
  which has ended.
\<close>

theorem commit_publishes_first_shard_only:
  assumes "txn_Commit io tier t e = Some ((t2, e2), st)" "status_ok st" "tier \<noteq> KGroup" "tx_id t \<noteq> 0" "r \<noteq> tx_id t"
    and "ValidateCommitOCC io t e = Some (e1, occ)" "shard_slot e1 i = Some s1"
    and "LookupMemTable (sh_mem s1) (sh_imm s1) (sh_flushing s1) key = Some entry"
    and "me_txn_id entry = tx_id t" "\<not> me_durable entry" "\<not> me_deleted entry"
  shows "\<exists>s2. shard_slot e2 i = Some s2 \<and>
    read_tables s2 key \<lparr>cx_lsn = snap, cx_txn_id = r\<rparr> = (if i = 0 then Some (Inr (me_value entry)) else None)"
proof -
  define em where em: "em = fst (Engine_AppendTxnCommit io (tx_id t) e1)"
  note e2 = txn_commit_steps [OF assms(1-3,6), folded em]
  have "map_option tables (shard_slot em i) = map_option tables (shard_slot e1 i)"
    by (auto simp: em Engine_AppendTxnCommit_def intro!: last_failure_keeps [where f = tables] AppendTxnCommit_tables)
  then obtain sm where sm: "shard_slot em i = Some sm" "tables sm = tables s1"
    using assms(7) by auto
  then have lk: "LookupMemTable (sh_mem sm) (sh_imm sm) (sh_flushing sm) key = Some entry"
    using assms(8) by simp
  show ?thesis
    using sm(1) lk assms(4,5,9-11)
    by (cases "i = 0") (auto simp: e2 Engine_ReleaseSnapshot_def UnregisterRangeTickets_def
        read_tables_def Lookup_promoted MemEntryVisible_def)
qed

section \<open>Rollbacks\<close>

lemma Release_slot: "shard_slot e i = Some s \<Longrightarrow>
  \<exists>s1. shard_slot (Engine_ReleaseSnapshot token e) i = Some s1 \<and> sh_mem s1 = sh_mem s
    \<and> sh_pending s1 = sh_pending s \<and> sh_wal_corrupt s1 = sh_wal_corrupt s"
  by (simp add: Engine_ReleaseSnapshot_def ReleaseSnapshot_def Let_def)

lemma same_engine_map_shards [simp]: "same_engine e (map_shards f e1) \<longleftrightarrow> same_engine e e1"
  by (auto simp: same_engine_def map_shards_def all_shards_def)

text \<open>
  C9. A rollback does not undo, it writes: the journaled value of a key the transaction wrote is put back as a write
  of its own, outside any transaction, whatever the key holds by then. A value that another client has written and
  read back since is replaced by the older one.
\<close>

theorem rollback_overwrites_later_write:
  assumes "tx_active t" "tx_journal t = [\<lparr>je_key = key, je_had_value = True, je_old_value = old\<rparr>]"
    and "Engine_Get io key (abort_marks io (tx_id t) e) = Some (e', Inr later)"
    and "Engine_Put io key old 0 (abort_marks io (tx_id t) e) = Some (e1, put)" "status_ok put"
  shows "\<exists>e2 e3. txn_Rollback io t e = Some ((no_txn, e2), Status_Ok) \<and> Engine_Get io key e2 = Some (e3, Inr old)"
proof -
  let ?a = "abort_marks io (tx_id t) e" and ?r = "Engine_ReleaseSnapshot (tx_snapshot t)"
  have rb: "txn_Rollback io t e = Some ((no_txn, ?r e1), Status_Ok)"
    using assms(1,2,4) by (simp add: txn_Rollback_def undo_entry_def)
  from put_entry [OF assms(4,5)] obtain s1 lsn where s1: "shard_slot e1 (unat (route ?a key)) = Some s1" "key \<noteq> []"
    "mem_Get (sh_mem s1) key = Some (entry_for kPut old 0 lsn)" "\<not> sh_pending s1 \<or> sh_wal_corrupt s1" "same_engine ?a e1" .
  from Release_slot [OF s1(1), of "tx_snapshot t"] obtain s2 where
    s2: "shard_slot (?r e1) (unat (route ?a key)) = Some s2" "sh_mem s2 = sh_mem s1"
      "sh_pending s2 = sh_pending s1" "sh_wal_corrupt s2 = sh_wal_corrupt s1" by blast
  have "same_engine ?a (?r e1)" using s1(5) by (simp add: Engine_ReleaseSnapshot_def)
  then have "route (?r e1) key = route ?a key" by (rule route_same)
  then have "\<exists>e3. Engine_Get io key (?r e1) = Some (e3, Inr old)"
    using get_entry [of "?r e1" key s2 old lsn io] s1(2-4) s2 by simp
  with rb show ?thesis by blast
qed

section \<open>Concrete engines\<close>

definition no_files :: shard_files where
  "no_files = \<lparr>fl_wal = None, fl_data = None, fl_didx = None, fl_super = None, fl_tlog = \<lparr>tf_log = None, tf_idx = None\<rparr>,
     fl_gc = None, fl_pages = None, fl_txidx = None\<rparr>"

definition demo_io :: engine_io where
  "demo_io = \<lparr>io_lib = no_lzma, io_hash = (\<lambda>_. 0), io_mapping = True, io_sync = True, io_append = NoFault,
     io_vcs = empty_vcs, io_guard = Status_Ok\<rparr>"

definition demo_options :: EngineOptions where
  "demo_options = default_options\<lparr>eo_shard_count := 4, eo_lazy_committed_load := True\<rparr>"

definition demo_engine :: "shard option \<Rightarrow> engine" where
  "demo_engine s = (new_engine (demo_options) (replicate 4 no_files) [])
     \<lparr>en_shards := replicate 4 s\<rparr>"

lemma demo_engine_simps [simp]:
  "en_opts (demo_engine s) = demo_options" "length (en_shards (demo_engine s)) = 4"
  "en_opened (demo_engine s)" "en_files (demo_engine s) = replicate 4 no_files" "en_tickets (demo_engine s) = []"
  "all_shards (demo_engine s) = [0, 1, 2, 3]"
  "shard_slot (demo_engine s) i = (if i < 4 then s else None)"
  by (simp_all add: demo_engine_def new_engine_def all_shards_def shard_slot_def upt_rec)

lemma demo_options_simps [simp]: "eo_shard_count demo_options = 4" "eo_lazy_committed_load demo_options"
  by (simp_all add: demo_options_def)

lemma route_demo: "route (demo_engine s) key = Fnv1a32 key mod 4"
  by (simp add: route_def RouteShard_def word_le_nat_alt)

lemma routes: "Fnv1a32 [1] mod 4 = 0" "Fnv1a32 [2] mod 4 = 1"
  by (simp_all add: Fnv1a32_def)

lemma demo_io_simps [simp]:
  "io_lib demo_io = no_lzma" "io_sync demo_io" "io_append demo_io = NoFault" "io_guard demo_io = Status_Ok"
  "io_mapping demo_io" "io_vcs demo_io = empty_vcs"
  by (simp_all add: demo_io_def)

lemma on_key_run: "shard_slot e (unat (route e key)) = Some s \<Longrightarrow> op (route e key) s = Some (s1, r) \<Longrightarrow>
    on_key io key fail op e = Some (set_shard (unat (route e key)) s1 e, r)"
  by (simp add: on_key_present)

theorem engine_put_then_get_witness:
  "\<exists>e1 e2. Engine_Put demo_io [1] [2] 0 (demo_engine (Some (demo_shard KBalancedClass))) = Some (e1, Status_Ok)
     \<and> Engine_Get demo_io [1] e1 = Some (e2, Inr [2])
     \<and> map_option snd (Engine_Get demo_io [2] e1)
       = map_option snd (Engine_Get demo_io [2] (demo_engine (Some (demo_shard KBalancedClass))))"
proof -
  let ?e = "demo_engine (Some (demo_shard KBalancedClass))"
  obtain s1 where s1: "shard_Put True NoFault [1] [2] 0 (demo_shard KBalancedClass) = Some (s1, Status_Ok)"
    using batched_write_succeeds [of "demo_shard KBalancedClass" "[1]" "[]" kPut "[2]" 0]
    by (auto simp: shard_write_ops writer_ok_create valid_op_def record_fits_def kWalMagicV2_def)
  then obtain e1 where p: "Engine_Put demo_io [1] [2] 0 ?e = Some (e1, Status_Ok)"
    using on_key_run [of ?e "[1]" "demo_shard KBalancedClass" "\<lambda>_. shard_Put True NoFault [1] [2] 0" s1 Status_Ok demo_io id]
    by (simp add: Engine_Put_def route_demo routes status_defs)
  from engine_put_then_get [OF p] show ?thesis
    using p by (auto simp: status_defs route_demo routes)
qed

theorem routing_table_is_hash_witness:
  "route (new_engine (default_options\<lparr>eo_shard_count := 256\<rparr>) [] []) [65] = RouteShard [65] 256"
  using routing_table_is_hash [OF new_engine_ok, of "default_options\<lparr>eo_shard_count := 256\<rparr>" "[]" "[]" "[65]"]
  by (simp add: ValidateShardCount_def status_defs new_engine_def)

lemma fresh_wal_file: "ww_file (WalWriter_open None) = wal_magic_bytes"
  using writer_ok_create by (simp add: writer_ok_defs wal_file_def)

lemma create_demo: "\<exists>s. create_shard demo_io i (demo_engine t) = Inr s" if "i < 4"
proof -
  have "\<not> wal_probe wal_magic_bytes"
    by (simp add: wal_probe_def wal_magic_bytes_def kWalMagicV2_def put_u64_def le_bytes_numeral)
  then have "status_ok (snd (Recover no_lzma True (new_shard demo_options no_files)))"
    by (simp add: Recover_def new_shard_def no_files_def Load_def RecoverFromSuperBlock_def
        fresh_wal_file recover_lazy_def SuperBlock_init_def SuperBlockCritical_init_def root_missing_def
        kPageFileHeaderSize_def status_defs Let_def)
  with that show ?thesis by (simp add: create_shard_def shard_Open_def split_beta)
qed

lemma begin_each_opens:
  assumes "\<And>j. j \<in> set is \<Longrightarrow> \<exists>s. create_shard io j e = Inr s" "\<And>j. j \<in> set is \<Longrightarrow> j < length (en_shards e)"
    and "begin_each io n token is acc e = (e1, st)"
  shows "(i \<in> set is \<longrightarrow> shard_slot e1 i \<noteq> None) \<and> (shard_slot e i \<noteq> None \<longrightarrow> shard_slot e1 i \<noteq> None)"
  using assms
proof (induction "is" arbitrary: acc e)
  case (Cons j js)
  obtain e0 es where ens: "EnsureShard io j e = (e0, es)" by fastforce
  obtain sj where sj: "create_shard io j e = Inr sj" using Cons.prems(1) [of j] by auto
  have lt: "j < length (en_shards e)" using Cons.prems(2) by simp
  have ok: "es = Status_Ok"
    using ens sj lt by (auto simp: EnsureShard_def split: if_splits)
  from EnsureShard_frame(3) [OF ens] ok obtain s0 where s0: "shard_slot e0 j = Some s0"
    by (auto simp: status_defs)
  let ?r = "AppendTxnBegin (io_append io) n (ForShard token (word_of_nat j)) s0"
  let ?e = "set_shard j (fst ?r) e0"
  have same: "same_engine e ?e" using EnsureShard_frame(1) [OF ens] by simp
  have step: "begin_each io n token js (if status_ok (snd ?r) then acc else snd ?r) ?e = (e1, st)"
    using Cons.prems(3) ens ok s0 by (simp add: split_beta Let_def status_defs)
  have "\<exists>s. create_shard io k ?e = Inr s" "k < length (en_shards ?e)" if "k \<in> set js" for k
    using Cons.prems(1,2) [of k] that create_same [OF same] same by (auto simp: same_engine_def)
  from Cons.IH [OF this step] have
    "(i \<in> set js \<longrightarrow> shard_slot e1 i \<noteq> None) \<and> (shard_slot ?e i \<noteq> None \<longrightarrow> shard_slot e1 i \<noteq> None)" by blast
  moreover have "shard_slot ?e j \<noteq> None" using slot_range [OF s0] by simp
  moreover have "shard_slot ?e i \<noteq> None" if "shard_slot e i \<noteq> None"
    using that EnsureShard_frame(5) [OF ens] EnsureShard_frame(2) [OF ens, of i] slot_range [OF s0]
    by (cases "i = j") auto
  ultimately show ?case by auto
qed simp

theorem lazy_shard_pins_underflow_witness:
  "\<exists>n1 t1 e1 st t2 e2 st2 n3 t3 e3 st3 s2 s3.
     txn_Begin demo_io 1 no_txn (demo_engine None) = ((n1, t1, e1), st)
     \<and> txn_Rollback demo_io t1 e1 = Some ((t2, e2), st2) \<and> shard_slot e2 2 = Some s2 \<and> sh_pins s2 = 2 ^ 32 - 1
     \<and> txn_Begin demo_io n1 t2 e2 = ((n3, t3, e3), st3) \<and> shard_slot e3 2 = Some s3 \<and> sh_pins s3 = 0"
proof -
  let ?e = "demo_engine None"
  obtain n1 t1 e1 st where b: "txn_Begin demo_io 1 no_txn ?e = ((n1, t1, e1), st)" by (metis surj_pair)
  have pin: "Engine_PinSnapshot (CaptureSnapshot ?e) ?e = ?e"
    by (simp add: Engine_PinSnapshot_def map_shards_def) (simp add: demo_engine_def upt_rec numeral_eq_Suc)
  have "shard_slot (fst (begin_each demo_io 1 (CaptureSnapshot ?e) [0, 1, 2, 3] Status_Ok ?e)) 2 \<noteq> None"
    by (rule begin_each_opens [OF _ _ prod.collapse [symmetric], THEN conjunct1, THEN mp])
      (auto intro: create_demo)
  then have open_: "shard_slot e1 2 \<noteq> None" and t1: "tx_active t1" "tx_journal t1 = []"
    using b by (auto simp: txn_Begin_def no_txn_def Let_def pin Engine_AppendTxnBegin_def)
  then obtain t2 e2 st2 where rb: "txn_Rollback demo_io t1 e1 = Some ((t2, e2), st2)" by (simp add: txn_Rollback_def)
  obtain n3 t3 e3 st3 where b3: "txn_Begin demo_io n1 t2 e2 = ((n3, t3, e3), st3)" by (metis surj_pair)
  from lazy_shard_pins_underflow [OF _ _ b open_ t1(1) refl rb b3] b rb b3 show ?thesis
    by (force simp: no_txn_def)
qed

lemma set_shard_id: "shard_slot e i = Some s \<Longrightarrow> set_shard i s e = e"
  by (auto simp: set_shard_def shard_slot_def list_update_same_conv split: if_splits)

lemma last_failure_same:
  "(\<And>j s. shard_slot e j = Some s \<Longrightarrow> op j s = (s, Status_Ok)) \<Longrightarrow> last_failure op is acc e = (e, acc)"
  by (induction "is" arbitrary: acc) (simp_all add: set_shard_id status_defs split: option.split)

lemma last_failure_ok:
  "(\<And>j s. j \<in> set is \<Longrightarrow> shard_slot e j = Some s \<Longrightarrow> status_ok (snd (op j s))) \<Longrightarrow> distinct is \<Longrightarrow>
     snd (last_failure op is acc e) = acc"
proof (induction "is" arbitrary: acc e)
  case (Cons j js)
  show ?case
  proof (cases "shard_slot e j")
    case None
    then show ?thesis using Cons.IH [of e acc] Cons.prems by simp
  next
    case (Some s)
    have "snd (last_failure op js acc (set_shard j (fst (op j s)) e)) = acc"
      using Cons.prems by (intro Cons.IH) (auto split: if_splits)
    then show ?thesis using Some Cons.prems(1) [OF _ Some] by (simp add: split_beta Let_def)
  qed
qed simp

definition txn_entry :: mem_entry where
  "txn_entry = \<lparr>me_value = [5], me_lsn = 1, me_deleted = False, me_txn_id = 7, me_durable = False\<rparr>"

definition demo_txn :: txn_state where
  "demo_txn = no_txn\<lparr>tx_active := True, tx_id := 7\<rparr>"

definition txn_shard :: shard where
  "txn_shard = (demo_shard KBalancedClass)\<lparr>sh_mem := [([1], txn_entry)]\<rparr>"

lemma txn_shard_simps [simp]:
  "sh_mem txn_shard = [([1], txn_entry)]" "sh_wal txn_shard = WalWriter_open None" "\<not> sh_pending txn_shard"
  "checkpoint_lsn txn_shard = 0" "eo_durability (sh_opts txn_shard) = KBalancedClass"
  by (simp_all add: txn_shard_def)

lemma fresh_max_lsn: "ww_max_lsn (WalWriter_open None) = 0"
  by (simp add: WalWriter_open_def RebuildKeyIndex_def EnsureWalMagicLocked_def Let_def)

lemma demo_refresh: "RefreshExternalWalIfPending txn_shard = (txn_shard, Status_Ok)"
proof -
  have "EnsureWalMagicLocked (WalWriter_open None) = WalWriter_open None"
    using writer_ok_create by (simp add: EnsureWalMagicLocked_def writer_ok_defs)
  then have sync: "SyncExternalTailLocked (WalWriter_open None) = WalWriter_open None"
    using Sync_writer_ok [OF writer_ok_create] by simp
  have "txn_shard\<lparr>sh_wal := WalWriter_open None\<rparr> = txn_shard"
    by (simp add: txn_shard_def demo_shard_def new_shard_def)
  then show ?thesis by (simp add: RefreshExternalWalIfPending_def sync fresh_max_lsn Let_def)
qed

lemma demo_append: "status_ok (snd (AppendTxnCommit True True NoFault 7 txn_shard))"
proof -
  obtain w where "wal_Append NoFault (WalWriter_open None) kTxnCommit [] (put_u64 0) 7 = (w, Inr (0 + 1))"
    using wal_append_fits [OF writer_ok_create, of kTxnCommit "[]" "put_u64 0" 7]
    by (auto simp: valid_op_def record_fits_def fresh_max_lsn kWalMagicV2_def)
  then show ?thesis
    by (simp add: AppendTxnCommit_def AppendTxnControl_def shard_FlushPending_def FlushPending_empty shard_pipeline_def
        wal_Fsync_at_def status_defs Let_def)
qed

theorem commit_publishes_first_shard_only_witness:
  "\<exists>e2 s0 s1. txn_Commit demo_io KSync demo_txn (demo_engine (Some txn_shard)) = Some ((no_txn, e2), Status_Ok)
     \<and> shard_slot e2 0 = Some s0 \<and> read_tables s0 [1] \<lparr>cx_lsn = 0, cx_txn_id = 0\<rparr> = Some (Inr [5])
     \<and> shard_slot e2 1 = Some s1 \<and> read_tables s1 [1] \<lparr>cx_lsn = 0, cx_txn_id = 0\<rparr> = None"
proof -
  let ?e = "demo_engine (Some txn_shard)"
  have v: "ValidateCommitOCC demo_io demo_txn ?e = Some (?e, Status_Ok)"
  proof -
    have "RefreshExternalWalForOCC ?e = (?e, Status_Ok)"
      unfolding RefreshExternalWalForOCC_def
      by (rule last_failure_same) (auto simp: demo_refresh split: if_splits)
    then show ?thesis
      by (simp add: ValidateCommitOCC_def demo_txn_def no_txn_def read_only_def status_defs
          ValidateRangeTicketCommit_def ValidateCommit_def)
  qed
  have "snd (Engine_AppendTxnCommit demo_io 7 ?e) = Status_Ok"
  proof -
    have "snd (last_failure (\<lambda>_. AppendTxnCommit True True NoFault 7) (all_shards ?e) Status_Ok ?e) = Status_Ok"
      by (rule last_failure_ok) (auto simp: demo_append split: if_splits)
    then show ?thesis by (simp add: Engine_AppendTxnCommit_def del: demo_engine_simps(6) last_failure.simps)
  qed
  then obtain e2 where c: "txn_Commit demo_io KSync demo_txn ?e = Some ((no_txn, e2), Status_Ok)"
    using v by (auto simp: txn_Commit_def demo_txn_def no_txn_def split_beta Let_def status_defs)
  have l: "LookupMemTable (sh_mem txn_shard) (sh_imm txn_shard) (sh_flushing txn_shard) [1] = Some txn_entry"
    by (simp add: LookupMemTable_def mem_Get_def)
  note p = commit_publishes_first_shard_only [OF c _ _ _ _ v _ l, of 0]
  show ?thesis
    using c p [of 0 0] p [of 1 0] by (auto simp: demo_txn_def no_txn_def txn_entry_def status_defs)
qed

definition written_shard :: shard where
  "written_shard = (demo_shard KAsync)\<lparr>sh_mem := [([1], entry_for kPut [5] 0 1)]\<rparr>"

definition undo_txn :: txn_state where
  "undo_txn = demo_txn\<lparr>tx_journal := [\<lparr>je_key = [1], je_had_value = True, je_old_value = [9]\<rparr>]\<rparr>"

lemma on_first_run: "shard_slot e 0 = Some s \<Longrightarrow> on_first f e = set_shard 0
    (s\<lparr>sh_mem := f (sh_mem s), sh_imm := f (sh_imm s), sh_flushing := f (sh_flushing s)\<rparr>) e"
  by (simp add: on_first_def)

theorem rollback_overwrites_later_write_witness:
  "\<exists>e' e2 e3. Engine_Get demo_io [1] (abort_marks demo_io 7 (demo_engine (Some written_shard))) = Some (e', Inr [5])
     \<and> txn_Rollback demo_io undo_txn (demo_engine (Some written_shard)) = Some ((no_txn, e2), Status_Ok)
     \<and> Engine_Get demo_io [1] e2 = Some (e3, Inr [9])"
proof -
  let ?e = "demo_engine (Some written_shard)" and ?a = "abort_marks demo_io 7 (demo_engine (Some written_shard))"
  obtain w where w: "wal_Append NoFault (WalWriter_open None) kTxnAbort [] (put_u64 0) 7 = (w, Inr (0 + 1))"
    "ww_max_lsn w = 1" "writer_ok w [mk_wal 1 kTxnAbort [] (put_u64 0) 7]"
    using wal_append_fits [OF writer_ok_create, of kTxnAbort "[]" "put_u64 0" 7]
    by (auto simp: valid_op_def record_fits_def fresh_max_lsn kWalMagicV2_def)
  define s0 where "s0 = written_shard\<lparr>sh_sidecar := MarkAborted 7 (sh_sidecar written_shard), sh_wal := w\<rparr>"
  have s0: "fst (AppendTxnAbort NoFault 7 written_shard) = s0"
    by (simp add: AppendTxnAbort_def AppendTxnControl_def written_shard_def w(1) s0_def)
  have mem: "mem_ClearTxn 7 (sh_mem s0) = [([1], entry_for kPut [5] 0 1)]"
    by (simp add: s0_def written_shard_def mem_ClearTxn_def entry_for_def)
  have slot: "\<exists>s. shard_slot ?a 0 = Some s \<and> sh_mem s = [([1], entry_for kPut [5] 0 1)] \<and> sh_wal s = w
    \<and> sh_opened s \<and> \<not> sh_pending s \<and> sh_opts s = sh_opts (demo_shard KAsync)"
    using s0 mem
    by (simp add: abort_marks_def UnregisterRangeTickets_def Engine_AppendTxnAbort_def split_beta Let_def)
      (simp add: s0_def written_shard_def)
  then obtain s where s: "shard_slot ?a 0 = Some s" "sh_mem s = [([1], entry_for kPut [5] 0 1)]" "sh_wal s = w"
    "sh_opened s" "\<not> sh_pending s" "sh_opts s = sh_opts (demo_shard KAsync)" by blast
  have "same_engine ?e (fst (Engine_AppendTxnAbort demo_io 7 ?e))"
    by (simp add: Engine_AppendTxnAbort_def split_beta Let_def)
  then have "same_engine ?e ?a" "en_opened ?a"
    by (simp_all add: abort_marks_def UnregisterRangeTickets_def on_first_def Engine_AppendTxnAbort_def split_beta Let_def
        split: option.split)
  then have r: "unat (route ?a [1]) = 0" "en_opened ?a"
    by (simp_all add: route_same route_demo routes)
  have get: "\<exists>e'. Engine_Get demo_io [1] ?a = Some (e', Inr [5])"
    using get_entry [of ?a "[1]" s "[5]" 1] s r by (simp add: mem_Get_def)
  obtain s1 where "shard_Put True NoFault [1] [9] 0 s = Some (s1, Status_Ok)"
    using unsynced_write_succeeds [of s "[1]" "[mk_wal 1 kTxnAbort [] (put_u64 0) 7]" "[9]" kPut True] s w(2,3)
    by (auto simp: shard_write_ops record_fits_def kWalMagicV2_def)
  then have "Engine_Put demo_io [1] [9] 0 ?a = Some (set_shard 0 s1 ?a, Status_Ok)"
    using on_key_run [of ?a "[1]" s "\<lambda>_. shard_Put True NoFault [1] [9] 0" s1 Status_Ok demo_io id] s(1) r
    by (simp add: Engine_Put_def status_defs)
  with get rollback_overwrites_later_write [of undo_txn "[1]" "[9]" demo_io ?e] show ?thesis
    by (auto simp: undo_txn_def demo_txn_def no_txn_def status_defs)
qed

end
