(* ===== verification/SqlPlan.thy ===== *)
theory SqlPlan
  imports SqlAst Catalog
begin

text \<open>
  Planning: \<^verbatim>\<open>sql/plan/index_match.cc\<close> recognises the conditions an index can answer,
  \<^verbatim>\<open>sql/plan/lower.cc\<close> turns a query into the steps of \<^verbatim>\<open>sql/plan/exec_plan.h\<close>, and
  \<^verbatim>\<open>sql/exec/mic_guard.cc\<close> checks the budget of a query. The guards against a null output have no
  counterpart, and a catalog that may be null is an option.
\<close>

section \<open>Conditions an index can answer\<close>

datatype index_scan_mode = ScanNone | ScanEq | ScanRange

record index_match =
  im_mode :: index_scan_mode
  im_index_column :: string
  im_eq_value :: string
  im_range_lo :: string
  im_range_hi :: string

definition no_match :: index_match where
  "no_match = \<lparr>im_mode = ScanNone, im_index_column = [], im_eq_value = [], im_range_lo = [], im_range_hi = []\<rparr>"

definition BareColumn :: "expr \<Rightarrow> string" where
  "BareColumn node = (case find_str (en_column node) ''.'' 0 of
     None \<Rightarrow> en_column node | Some dot \<Rightarrow> drop (dot + 1) (en_column node))"

text \<open>A comparison of a column with a literal, in that order; the equality of \<open>ExtractColLitEq\<close> is the
  instance for \<open>OpEq\<close>.\<close>

definition ExtractColLitCmp :: "expr \<Rightarrow> binary_op \<Rightarrow> (string \<times> string) option" where
  "ExtractColLitCmp node op =
     (if en_kind node \<noteq> EBinary \<or> en_op node \<noteq> op then None
      else case en_children node of
        [a, b] \<Rightarrow> if en_kind a \<noteq> EColumn \<or> en_kind b \<noteq> ELiteral then None
                else Some (BareColumn a, en_literal b)
      | _ \<Rightarrow> None)"

definition ExtractColLitEq :: "expr \<Rightarrow> (string \<times> string) option" where
  "ExtractColLitEq node = ExtractColLitCmp node OpEq"

text \<open>The locals of \<open>TryRangeAnd\<close>: the columns of the two sides and the two bounds, where a bound that was
  not found is \<open>None\<close>.\<close>

record range_locals =
  rl_col_a :: string
  rl_col_b :: string
  rl_ge :: "string option"
  rl_le :: "string option"

definition left_ge :: "expr \<Rightarrow> binary_op \<Rightarrow> range_locals \<Rightarrow> range_locals" where
  "left_ge a op l = (case ExtractColLitCmp a op of None \<Rightarrow> l
     | Some (c, v) \<Rightarrow> l\<lparr>rl_col_a := c, rl_ge := Some v\<rparr>)"

definition left_le :: "expr \<Rightarrow> binary_op \<Rightarrow> range_locals \<Rightarrow> range_locals" where
  "left_le a op l = (case ExtractColLitCmp a op of None \<Rightarrow> l
     | Some (c, v) \<Rightarrow> l\<lparr>rl_col_a := c, rl_le := Some v\<rparr>)"

definition right_ge :: "expr \<Rightarrow> binary_op \<Rightarrow> range_locals \<Rightarrow> range_locals" where
  "right_ge b op l = (case ExtractColLitCmp b op of None \<Rightarrow> l
     | Some (c, v) \<Rightarrow> l\<lparr>rl_col_b := c, rl_ge := Some v\<rparr>)"

definition right_le :: "expr \<Rightarrow> binary_op \<Rightarrow> range_locals \<Rightarrow> range_locals" where
  "right_le b op l = (case ExtractColLitCmp b op of None \<Rightarrow> l
     | Some (c, v) \<Rightarrow> l\<lparr>rl_col_b := c, rl_le := Some v\<rparr>)"

definition TryRangeAnd :: "expr \<Rightarrow> (string \<times> string \<times> string) option" where
  "TryRangeAnd w =
     (if en_kind w \<noteq> EBinary \<or> en_op w \<noteq> OpAnd then None
      else case en_children w of
        [a, b] \<Rightarrow>
          (let l0 = \<lparr>rl_col_a = [], rl_col_b = [], rl_ge = None, rl_le = None\<rparr>;
               l1 = (if ExtractColLitCmp a OpGe \<noteq> None then left_ge a OpGe l0 else left_ge a OpGt l0);
               l2 = (if ExtractColLitCmp b OpLe \<noteq> None then right_le b OpLe l1 else right_le b OpLt l1);
               l3 = (if rl_ge l2 = None then left_ge a OpGe (left_le a OpLe l2) else l2);
               l4 = (if rl_le l3 = None then right_le b OpLe (right_ge b OpGe l3) else l3)
           in case (rl_ge l4, rl_le l4) of
             (Some lo, Some hi) \<Rightarrow> if rl_col_a l4 \<noteq> rl_col_b l4 then None else Some (rl_col_a l4, lo, hi)
           | _ \<Rightarrow> None)
      | _ \<Rightarrow> None)"

definition FindLeadingIndex :: "catalog \<Rightarrow> string \<Rightarrow> string \<Rightarrow> index_def option" where
  "FindLeadingIndex c table_name col =
     find (\<lambda>i. ix_columns i \<noteq> [] \<and> hd (ix_columns i) = col) (IndexesForTable c table_name)"

definition MatchIndexWhere :: "expr option \<Rightarrow> catalog option \<Rightarrow> string \<Rightarrow> index_match" where
  "MatchIndexWhere w cat table_name =
     (case (w, cat) of
        (Some node, Some c) \<Rightarrow>
          (case ExtractColLitEq node of
             Some (col, lit) \<Rightarrow>
               if FindLeadingIndex c table_name col \<noteq> None
               then no_match\<lparr>im_mode := ScanEq, im_index_column := col, im_eq_value := lit\<rparr> else no_match
           | None \<Rightarrow>
               (case TryRangeAnd node of
                  Some (col, lo, hi) \<Rightarrow>
                    if FindLeadingIndex c table_name col \<noteq> None
                    then no_match\<lparr>im_mode := ScanRange, im_index_column := col, im_range_lo := lo,
                      im_range_hi := hi\<rparr> else no_match
                | None \<Rightarrow> no_match))
      | _ \<Rightarrow> no_match)"

section \<open>The steps of a query\<close>

datatype plan_step_kind = PTableScan | PIndexScan | PFilter | PNestedLoopJoin | PHashAggregate | PSortLimit
  | PProject

record plan_step =
  ps_kind :: plan_step_kind
  ps_table :: string
  ps_index_name :: string
  ps_index_column :: string
  ps_index_value :: string
  ps_index_range_lo :: string
  ps_index_range_hi :: string
  ps_scan_mode :: index_scan_mode
  ps_join_table :: string
  ps_join_type :: join_type
  ps_join_left_col :: string
  ps_join_right_col :: string
  ps_limit :: "u64 option"

record exec_plan =
  pl_steps :: "plan_step list"
  pl_has_group_by :: bool
  pl_has_order_by :: bool
  pl_has_subquery :: bool

definition plan_step_of :: "plan_step_kind \<Rightarrow> plan_step" where
  "plan_step_of k = \<lparr>ps_kind = k, ps_table = [], ps_index_name = [], ps_index_column = [],
     ps_index_value = [], ps_index_range_lo = [], ps_index_range_hi = [], ps_scan_mode = ScanNone, ps_join_table = [],
     ps_join_type = JInner, ps_join_left_col = [], ps_join_right_col = [], ps_limit = None\<rparr>"

definition empty_plan :: exec_plan where
  "empty_plan = \<lparr>pl_steps = [], pl_has_group_by = False, pl_has_order_by = False, pl_has_subquery = False\<rparr>"

definition add_steps :: "plan_step list \<Rightarrow> exec_plan \<Rightarrow> exec_plan" where
  "add_steps ss p = p\<lparr>pl_steps := pl_steps p @ ss\<rparr>"

definition scan_steps :: "select_query option \<Rightarrow> string \<Rightarrow> catalog option \<Rightarrow> plan_step list" where
  "scan_steps select_rich table_name cat =
     (let w = Option.bind select_rich q_where;
          m = (if table_name = [] then no_match else MatchIndexWhere w cat table_name);
          step = (plan_step_of PIndexScan)\<lparr>ps_table := table_name, ps_index_column := im_index_column m\<rparr>
      in case im_mode m of
        ScanEq \<Rightarrow> [step\<lparr>ps_index_value := im_eq_value m, ps_scan_mode := ScanEq\<rparr>]
      | ScanRange \<Rightarrow> [step\<lparr>ps_index_range_lo := im_range_lo m, ps_index_range_hi := im_range_hi m,
          ps_scan_mode := ScanRange\<rparr>]
      | ScanNone \<Rightarrow> (plan_step_of PTableScan)\<lparr>ps_table := table_name\<rparr> #
          (if w = None then [] else [plan_step_of PFilter]))"

definition join_step :: "join_spec \<Rightarrow> plan_step" where
  "join_step j = (plan_step_of PNestedLoopJoin)\<lparr>ps_join_table := js_table j, ps_join_type := js_type j,
     ps_join_left_col := js_left_col j, ps_join_right_col := js_right_col j\<rparr>"

definition LowerSelectBody ::
  "select_query option \<Rightarrow> string \<Rightarrow> catalog option \<Rightarrow> exec_plan \<Rightarrow> exec_plan" where
  "LowerSelectBody select_rich legacy_table cat out =
     (let table_name = (case select_rich of Some q \<Rightarrow> q_from_table q | None \<Rightarrow> legacy_table);
          p1 = add_steps (scan_steps select_rich table_name cat) out
      in case select_rich of
        None \<Rightarrow> p1
      | Some q \<Rightarrow>
          (let p2 = add_steps (map join_step (q_joins q)) p1;
               p3 = (if q_group_by q = [] then p2
                 else add_steps [plan_step_of PHashAggregate] (p2\<lparr>pl_has_group_by := True\<rparr>))
           in if q_order_by q = [] then p3
              else add_steps [(plan_step_of PSortLimit)\<lparr>ps_limit := q_limit q\<rparr>] (p3\<lparr>pl_has_order_by := True\<rparr>)))"

definition LowerSelectQuery :: "select_query \<Rightarrow> catalog option \<Rightarrow> exec_plan" where
  "LowerSelectQuery q cat = LowerSelectBody (Some q) (q_from_table q) cat empty_plan"

definition legacy_join_step :: "join_clause \<Rightarrow> plan_step" where
  "legacy_join_step j = (plan_step_of PNestedLoopJoin)\<lparr>ps_join_table := jc_table j,
     ps_join_left_col := jc_left_col j, ps_join_right_col := jc_right_col j\<rparr>"

definition mark_subquery :: "query_stmt \<Rightarrow> exec_plan \<Rightarrow> exec_plan" where
  "mark_subquery stmt p =
     (if ud_where_expr (qs_update stmt) \<noteq> None \<or> dl_where_expr (qs_delete stmt) \<noteq> None
      then p\<lparr>pl_has_subquery := True\<rparr> else p)"

text \<open>The two entry points differ when a rich query without joins comes with legacy join clauses.\<close>

definition LowerQuery :: "query_stmt \<Rightarrow> exec_plan" where
  "LowerQuery stmt =
     (if IsParseOnlyKind (qs_kind stmt) then empty_plan
      else mark_subquery stmt
       (if qs_kind stmt \<noteq> KSelect then empty_plan
        else let p = LowerSelectBody (qs_select_rich stmt) (ss_table (qs_select stmt)) None empty_plan in
          if (case qs_select_rich stmt of Some q \<Rightarrow> q_joins q \<noteq> [] | None \<Rightarrow> False) then p
          else add_steps (map legacy_join_step (qs_joins stmt)) p))"

definition LowerQueryWithCatalog :: "query_stmt \<Rightarrow> catalog option \<Rightarrow> exec_plan" where
  "LowerQueryWithCatalog stmt cat =
     (if IsParseOnlyKind (qs_kind stmt) then empty_plan
      else mark_subquery stmt
       (if qs_kind stmt \<noteq> KSelect then empty_plan
        else let p = LowerSelectBody (qs_select_rich stmt) (ss_table (qs_select stmt)) cat empty_plan in
          if qs_select_rich stmt \<noteq> None then p
          else add_steps (map legacy_join_step (qs_joins stmt)) p))"

section \<open>Budgets\<close>

text \<open>\<open>touched\<close> is the number of pages of the tree that were read since the query began.\<close>

definition CheckMicPagesBudget :: "nat \<Rightarrow> u64 option \<Rightarrow> status" where
  "CheckMicPagesBudget touched max_pages = (case max_pages of
     None \<Rightarrow> Status_Ok
   | Some m \<Rightarrow> if unat m < touched then Status_InvalidArgument
       (''MicContractViolation: pages_touched delta '' @ dec_nat touched @ '' exceeds max_pages '' @ dec_nat (unat m))
       else Status_Ok)"

definition CheckMicRowBudget :: "nat \<Rightarrow> u64 option \<Rightarrow> status" where
  "CheckMicRowBudget row_count max_pages = (case max_pages of
     None \<Rightarrow> Status_Ok
   | Some m \<Rightarrow> if unat m < row_count then Status_InvalidArgument
       (''MicContractViolation: row count '' @ dec_nat row_count @ '' exceeds max_pages '' @ dec_nat (unat m))
       else Status_Ok)"

end
