(* ===== verification/SqlScan.thy ===== *)
theory SqlScan
  imports SqlPlan SqlExpr Transactions
begin

text \<open>
  Reading rows from the engine: \<^verbatim>\<open>sql/exec/physical_scan.cc\<close>, \<^verbatim>\<open>sql/exec/index_maintenance.h\<close> and
  \<^verbatim>\<open>sql/exec/constraint_engine.cc\<close>. Keys and values of the engine are bytes; the SQL layer sees them as
  strings. The transaction of the session is always there, active or not. A result is \<open>None\<close> when a shard does
  not return.
\<close>

section \<open>Scans\<close>

type_synonym session = "txn_state \<times> engine"

type_synonym text_rows = "(string \<times> string) list"

definition str_rows :: "rows \<Rightarrow> text_rows" where
  "str_rows rs = map (map_prod str_of_bytes str_of_bytes) rs"

definition key_range_plan :: "string \<Rightarrow> string \<Rightarrow> typed_plan" where
  "key_range_plan lo hi = \<lparr>tp_op = KRange, tp_key = bytes_of_str lo, tp_range_end = bytes_of_str hi,
     tp_snapshot_lsn = 0\<rparr>"

fun record_samples :: "engine_io \<Rightarrow> bytes list \<Rightarrow> session \<Rightarrow> session option" where
  "record_samples io [] s = Some s"
| "record_samples io (k # ks) (t, e) = Option.bind (RecordReadSample io k t e) (record_samples io ks)"

definition register_range :: "typed_plan \<Rightarrow> session \<Rightarrow> session" where
  "register_range plan s =
     (if tx_active (fst s) \<and> tp_op plan = KRange
      then RegisterRangeScan (tp_key plan) (tp_range_end plan) (fst s) (snd s) else s)"

definition EngineScan :: "engine_io \<Rightarrow> typed_plan \<Rightarrow> session \<Rightarrow> (session \<times> text_rows res) option" where
  "EngineScan io plan s = do {
     (e1, r) \<leftarrow> TxnScan io plan (fst s) (snd s);
     case r of
       Inl err \<Rightarrow> Some ((fst s, e1), Inl err)
     | Inr rs \<Rightarrow> do {
         s1 \<leftarrow> (if tx_active (fst s) then record_samples io (map fst rs) (fst s, e1) else Some (fst s, e1));
         Some (register_range plan s1, Inr (str_rows rs))
       }
   }"

definition EngineGet :: "engine_io \<Rightarrow> string \<Rightarrow> session \<Rightarrow> (session \<times> string res) option" where
  "EngineGet io key s =
     map_option (\<lambda>(s1, r). (s1, map_sum id str_of_bytes r)) (TxnGet io (bytes_of_str key) (fst s) (snd s))"

text \<open>A range is checked by the engine before it is scanned.\<close>

definition prepared_scan :: "engine_io \<Rightarrow> typed_plan \<Rightarrow> session \<Rightarrow> (session \<times> text_rows res) option" where
  "prepared_scan io plan s =
     (let (e1, ps) = Engine_Prepare io plan (snd s) in
      if \<not> status_ok ps then Some ((fst s, e1), Inl ps) else EngineScan io plan (fst s, e1))"

definition table_range :: "u32 \<Rightarrow> typed_plan" where
  "table_range tid = key_range_plan (dec_nat (unat tid) @ [colon]) (dec_nat (unat (tid + 1)) @ [colon])"

definition ScanTable :: "engine_io \<Rightarrow> table_schema \<Rightarrow> session \<Rightarrow> (session \<times> text_rows res) option" where
  "ScanTable io t s =
     map_option (\<lambda>(s1, r). (s1, map_sum id (filter (\<lambda>kv. \<not> IsIndexEncodedKey (fst kv))) r))
       (prepared_scan io (table_range (ts_id t)) s)"

section \<open>Scans of an index\<close>

definition index_pk :: "string \<times> string \<Rightarrow> string" where
  "index_pk kv = (case DecodeIndexKeyPrefix (fst kv) of Some (_, _, _, pk) \<Rightarrow> pk | None \<Rightarrow> snd kv)"

text \<open>The rows the entries point to, each once; a row that cannot be read is left out.\<close>

fun fetch_rows :: "engine_io \<Rightarrow> table_schema \<Rightarrow> string list \<Rightarrow> text_rows \<Rightarrow> session
    \<Rightarrow> (session \<times> text_rows) option" where
  "fetch_rows io t seen [] s = Some (s, [])"
| "fetch_rows io t seen (kv # kvs) s =
     (let encoded = EncodeRowKey (ts_id t) (index_pk kv) in
      if encoded \<in> set seen then fetch_rows io t seen kvs s
      else do {
        (s1, raw) \<leftarrow> EngineGet io encoded s;
        (s2, rest) \<leftarrow> fetch_rows io t (encoded # seen) kvs s1;
        Some (s2, case raw of Inl _ \<Rightarrow> rest | Inr v \<Rightarrow> (encoded, v) # rest)
      })"

definition FetchRowsFromIndexKeys ::
  "engine_io \<Rightarrow> table_schema \<Rightarrow> text_rows \<Rightarrow> session \<Rightarrow> (session \<times> text_rows) option" where
  "FetchRowsFromIndexKeys io t index_rows s = fetch_rows io t [] index_rows s"

definition index_base :: "table_schema \<Rightarrow> index_def \<Rightarrow> string" where
  "index_base t i = dec_nat (unat (ts_id t)) @ colon # CHR ''i'' # dec_nat (unat (ix_id i)) @ [colon]"

definition scan_index :: "engine_io \<Rightarrow> table_schema \<Rightarrow> typed_plan \<Rightarrow> session
    \<Rightarrow> (session \<times> text_rows res) option" where
  "scan_index io t plan s = do {
     (s1, r) \<leftarrow> prepared_scan io plan s;
     case r of
       Inl err \<Rightarrow> Some (s1, Inl err)
     | Inr entries \<Rightarrow> map_option (\<lambda>(s2, rs). (s2, Inr rs)) (FetchRowsFromIndexKeys io t entries s1)
   }"

definition ScanIndexEq :: "engine_io \<Rightarrow> table_schema \<Rightarrow> index_def \<Rightarrow> string \<Rightarrow> session
    \<Rightarrow> (session \<times> text_rows res) option" where
  "ScanIndexEq io t i col_value s =
     (let p = index_base t i @ col_value @ [colon] in scan_index io t (key_range_plan p (p @ [CHR 0xFF])) s)"

definition ScanIndexRange :: "engine_io \<Rightarrow> table_schema \<Rightarrow> index_def \<Rightarrow> string \<Rightarrow> string \<Rightarrow> session
    \<Rightarrow> (session \<times> text_rows res) option" where
  "ScanIndexRange io t i lo hi s =
     (if hi < lo then Some (s, Inr [])
      else scan_index io t
        (key_range_plan (index_base t i @ lo @ [colon]) (index_base t i @ hi @ [colon, CHR 0xFF])) s)"

section \<open>Index entries and constraints of a row\<close>

fun sync_entries :: "engine_io \<Rightarrow> table_schema \<Rightarrow> string \<Rightarrow> row_map \<Rightarrow> bool \<Rightarrow> u32 \<Rightarrow> index_def list
    \<Rightarrow> engine \<Rightarrow> (engine \<times> status) option" where
  "sync_entries io t pk fs remove txn_id [] e = Some (e, Status_Ok)"
| "sync_entries io t pk fs remove txn_id (i # is) e =
     (case Option.bind (if ix_columns i = [] then None else Some (hd (ix_columns i))) fs of
        None \<Rightarrow> sync_entries io t pk fs remove txn_id is e
      | Some v \<Rightarrow>
          (let ikey = bytes_of_str (EncodeIndexKey (ts_id t) (ix_id i) v pk) in do {
            (e1, st) \<leftarrow> (if remove then Engine_Delete io ikey txn_id e
                         else Engine_Put io ikey (bytes_of_str pk) txn_id e);
            if \<not> status_ok st \<and> \<not> (remove \<and> st_code st = KNotFound) then Some (e1, st)
            else sync_entries io t pk fs remove txn_id is e1
          }))"

definition SyncIndexEntries :: "engine_io \<Rightarrow> catalog \<Rightarrow> table_schema \<Rightarrow> string \<Rightarrow> row_map \<Rightarrow> bool \<Rightarrow> u32
    \<Rightarrow> engine \<Rightarrow> (engine \<times> status) option" where
  "SyncIndexEntries io c t pk fs remove txn_id e =
     sync_entries io t pk fs remove txn_id (IndexesForTable c (ts_name t)) e"

text \<open>\<open>parse\<close> is the parser of predicates; a check that it does not accept holds.\<close>

definition EvalCheckExpr :: "(string \<Rightarrow> expr option) \<Rightarrow> eval_env \<Rightarrow> string \<Rightarrow> row_map \<Rightarrow> status" where
  "EvalCheckExpr parse env check_sql row =
     (if check_sql = [] then Status_Ok
      else case parse check_sql of
        None \<Rightarrow> Status_Ok
      | Some e \<Rightarrow> if EvalBool env row e then Status_Ok
          else Status_InvalidArgument ''CHECK constraint failed'')"

fun check_columns :: "(string \<Rightarrow> expr option) \<Rightarrow> eval_env \<Rightarrow> row_map \<Rightarrow> column_def list \<Rightarrow> status" where
  "check_columns parse env row [] = Status_Ok"
| "check_columns parse env row (c # cs) =
     (if cd_not_null c \<and> (row (cd_name c) = None \<or> row (cd_name c) = Some [])
      then Status_InvalidArgument (''NOT NULL constraint failed: '' @ cd_name c)
      else let st = EvalCheckExpr parse env (cd_check_expr c) row in
        if \<not> status_ok st then st else check_columns parse env row cs)"

definition ValidateRowConstraintsWithEval ::
  "(string \<Rightarrow> expr option) \<Rightarrow> eval_env \<Rightarrow> table_schema \<Rightarrow> row_map \<Rightarrow> status" where
  "ValidateRowConstraintsWithEval parse env t fs = check_columns parse env fs (ts_columns t)"

definition ValidateRowConstraints :: "(string \<Rightarrow> expr option) \<Rightarrow> table_schema \<Rightarrow> row_map \<Rightarrow> status" where
  "ValidateRowConstraints parse t fs =
     ValidateRowConstraintsWithEval parse (plain_env\<lparr>ev_table := Some t\<rparr>) t fs"

end
