(* ===== verification/KeyRanges.thy ===== *)
theory KeyRanges
  imports SqlScan SqlValueFacts TransactionFacts
begin

text \<open>
  What the key space means for the scans of \<^verbatim>\<open>SqlScan\<close>: the order of numerals written in decimal, the range
  a table is scanned over, and the decoding of keys.
\<close>

section \<open>The order of texts\<close>

lemma append_less: "length xs = length ys \<Longrightarrow>
    (xs @ u < ys @ v) = (xs < ys \<or> (xs = ys \<and> u < v))" for xs ys u v :: "'a::linorder list"
  by (induction xs ys rule: list_induct2) auto

lemma append_le: "length xs = length ys \<Longrightarrow>
    (xs @ u \<le> ys @ v) = (xs < ys \<or> (xs = ys \<and> u \<le> v))" for xs ys u v :: "'a::linorder list"
  by (induction xs ys rule: list_induct2) auto

lemma char_less: "c < d \<longleftrightarrow> code_of c < code_of d" for c d :: char
  by (simp add: less_char_def)

lemma byte_less: "(word_of_nat (code_of c) :: byte) < word_of_nat (code_of d) \<longleftrightarrow> code_of c < code_of d"
  for c d :: char
  by (simp add: word_less_nat_alt unat_of_nat of_char_mod_256)

lemma bytes_less [simp]: "bytes_of_str s < bytes_of_str t \<longleftrightarrow> s < t"
proof (induction s arbitrary: t)
  case Nil
  then show ?case by (cases t) (simp_all add: bytes_of_str_def)
next
  case (Cons c s)
  show ?case
  proof (cases t)
    case (Cons d t')
    have "((word_of_nat (code_of c) :: byte) = word_of_nat (code_of d)) = (c = d)"
      using byte_less [of c d] byte_less [of d c] char_less [of c d] char_less [of d c]
      by (metis less_irrefl linorder_less_linear)
    with Cons Cons.IH [of t'] show ?thesis
      by (simp add: bytes_of_str_def byte_less char_less)
  qed (simp add: bytes_of_str_def)
qed

lemma bytes_le [simp]: "bytes_of_str s \<le> bytes_of_str t \<longleftrightarrow> s \<le> t"
  using bytes_less [of t s] by (metis leD leI)

section \<open>Numerals\<close>

abbreviation all_digits :: "string \<Rightarrow> bool" where
  "all_digits s \<equiv> \<forall>c \<in> set s. is_digit c"

lemma digit_val_less: "is_digit c \<Longrightarrow> digit_val c < 10"
  unfolding is_digit_def digit_val_def by linarith

lemma digits_val_append: "digits_val (s @ t) = digits_val s * 10 ^ length t + digits_val t"
proof (induction t rule: rev_induct)
  case (snoc c t)
  have "digits_val (s @ t @ [c]) = digits_val (s @ t) * 10 + digit_val c"
    using digits_val_snoc [of "s @ t" c] by simp
  with snoc show ?case by (simp add: digits_val_snoc algebra_simps)
qed simp

lemma digits_val_bound: "all_digits s \<Longrightarrow> digits_val s < 10 ^ length s"
proof (induction s rule: rev_induct)
  case (snoc c s)
  then have "digits_val s + 1 \<le> 10 ^ length s" "digit_val c < 10" by (auto simp: digit_val_less)
  then have "digits_val s * 10 + digit_val c < 10 * 10 ^ length s" by linarith
  then show ?case by (simp add: digits_val_snoc)
qed simp

lemma dec_nat_lower: "0 < n \<Longrightarrow> 10 ^ (length (dec_nat n) - 1) \<le> n"
proof (induction n rule: dec_nat.induct)
  case (1 n)
  show ?case
  proof (cases "n < 10")
    case False
    then have "10 ^ (length (dec_nat (n div 10)) - 1) \<le> n div 10" using 1 by simp
    moreover obtain l where l: "length (dec_nat (n div 10)) = Suc l"
      by (metis dec_nat_ne length_0_conv not0_implies_Suc)
    moreover have "length (dec_nat n) = Suc (Suc l)"
      using False l by (subst dec_nat.simps) simp
    ultimately show ?thesis by simp
  qed (use 1 in \<open>subst dec_nat.simps, simp\<close>)
qed

lemma dec_nat_upper: "n < 10 ^ length (dec_nat n)"
  using digits_val_bound [of "dec_nat n"] dec_nat_digits [of n] by simp

lemma length_dec_nat: "0 < n \<Longrightarrow> length (dec_nat n) = Suc l \<longleftrightarrow> 10 ^ l \<le> n \<and> n < 10 ^ Suc l"
proof
  assume n: "0 < n" and l: "length (dec_nat n) = Suc l"
  show "10 ^ l \<le> n \<and> n < 10 ^ Suc l"
    using dec_nat_lower [OF n] dec_nat_upper [of n] unfolding l by simp
next
  assume n: "0 < n" and b: "10 ^ l \<le> n \<and> n < 10 ^ Suc l"
  obtain k where k: "length (dec_nat n) = Suc k"
    by (metis dec_nat_ne length_0_conv not0_implies_Suc)
  have "(10::nat) ^ k \<le> n" "n < 10 ^ Suc k"
    using dec_nat_lower [OF n] dec_nat_upper [of n] unfolding k by simp_all
  with b have "(10::nat) ^ l < 10 ^ Suc k" "(10::nat) ^ k < 10 ^ Suc l" by linarith+
  then have "l < Suc k" "k < Suc l" by (simp_all del: power_Suc)
  with k show "length (dec_nat n) = Suc l" by simp
qed

lemma digits_less: "length s = length t \<Longrightarrow> all_digits s \<Longrightarrow> all_digits t \<Longrightarrow>
    (s < t) = (digits_val s < digits_val t) \<and> (s = t) = (digits_val s = digits_val t)"
proof (induction s arbitrary: t rule: rev_induct)
  case (snoc c s)
  obtain d t' where t: "t = t' @ [d]" using snoc.prems(1) by (cases t rule: rev_cases) auto
  have IH: "(s < t') = (digits_val s < digits_val t')" "(s = t') = (digits_val s = digits_val t')"
    using snoc.IH [of t'] snoc.prems t by auto
  have cd: "code_of c = 48 + digit_val c" "code_of d = 48 + digit_val d" "digit_val c < 10" "digit_val d < 10"
    using snoc.prems t by (auto simp: is_digit_def digit_val_def)
  have "(c = d) = (digit_val c = digit_val d)"
    using cd by (metis add_left_cancel of_char_eq_iff)
  with IH cd show ?case
    using snoc.prems(1) unfolding t
    by (auto simp: append_less digits_val_snoc char_less)
qed simp

lemma digits_colon: "all_digits s \<Longrightarrow> s \<noteq> [] \<Longrightarrow> s @ u < colon # v"
  by (cases s) (auto simp: colon_def char_less is_digit_def)


lemma length_dec_nat_mono: "m \<le> n \<Longrightarrow> length (dec_nat m) \<le> length (dec_nat n)"
proof (cases "m = 0")
  case True
  have "length (dec_nat 0) = 1" by (subst dec_nat.simps) simp
  then show ?thesis using True dec_nat_ne [of n] by (simp add: Suc_le_eq)
next
  case False
  assume "m \<le> n"
  obtain k l where kl: "length (dec_nat m) = Suc k" "length (dec_nat n) = Suc l"
    by (metis dec_nat_ne length_0_conv not0_implies_Suc)
  have "(10::nat) ^ k \<le> m" "n < 10 ^ Suc l"
    using False \<open>m \<le> n\<close> length_dec_nat [of m k] length_dec_nat [of n l] kl by auto
  with \<open>m \<le> n\<close> have "(10::nat) ^ k < 10 ^ Suc l" by linarith
  with kl show ?thesis by (simp del: power_Suc)
qed

lemma dec_nat_take: "i \<le> length (dec_nat n) \<Longrightarrow>
    digits_val (take i (dec_nat n)) = n div 10 ^ (length (dec_nat n) - i)"
proof -
  assume i: "i \<le> length (dec_nat n)"
  let ?s = "take i (dec_nat n)" and ?t = "drop i (dec_nat n)"
  have "n = digits_val ?s * 10 ^ length ?t + digits_val ?t"
    using digits_val_append [of ?s ?t] by simp
  moreover have "digits_val ?t < 10 ^ length ?t"
    using dec_nat_digits [of n] by (intro digits_val_bound) (auto dest: in_set_dropD)
  ultimately have "n div 10 ^ length ?t = digits_val ?s"
    by (metis add.commute div_mult_self3 div_less power_not_zero zero_neq_numeral add_0)
  with i show ?thesis by simp
qed

section \<open>The range a table is scanned over\<close>

text \<open>A key of table \<open>m\<close> between the prefix of \<open>n\<close> and a prefix \<open>n'\<close> of the same length.\<close>

abbreviation row_text :: "nat \<Rightarrow> string \<Rightarrow> string" where
  "row_text m k \<equiv> dec_nat m @ colon # k"

lemma prefix_below_row:
  assumes "0 < n" "0 < m"
  shows "row_text n [] \<le> row_text m k \<longleftrightarrow>
    (if length (dec_nat m) = length (dec_nat n) then n \<le> m
     else if length (dec_nat n) < length (dec_nat m)
     then n < m div 10 ^ (length (dec_nat m) - length (dec_nat n))
     else n div 10 ^ (length (dec_nat n) - length (dec_nat m)) \<le> m)"
    (is "_ = (if ?eq then _ else if ?lt then _ else _)")
proof -
  let ?n = "dec_nat n" and ?m = "dec_nat m"
  consider ?eq | ?lt | "length ?m < length ?n" by linarith
  then show ?thesis
  proof cases
    case 1
    then show ?thesis
      using digits_less [of ?n ?m] dec_nat_digits [of n] dec_nat_digits [of m]
      by (auto simp: append_le dec_nat_inj)
  next
    case 2
    let ?a = "take (length ?n) ?m" and ?b = "drop (length ?n) ?m"
    have b: "?b @ colon # k < colon # []"
      using 2 dec_nat_digits [of m] by (intro digits_colon) (auto dest: in_set_dropD)
    have "row_text n [] \<le> ?a @ ?b @ colon # k \<longleftrightarrow> ?n < ?a"
      using 2 b by (subst append_le) auto
    moreover have "(?n < ?a) = (n < digits_val ?a)"
      using 2 digits_less [of ?n ?a] dec_nat_digits [of n] dec_nat_digits [of m]
      by (auto dest: in_set_takeD)
    ultimately show ?thesis
      using 2 dec_nat_take [of "length ?n" m] by (simp flip: append_assoc)
  next
    case 3
    let ?a = "take (length ?m) ?n" and ?b = "drop (length ?m) ?n"
    have b: "?b @ colon # [] < colon # k"
      using 3 dec_nat_digits [of n] by (intro digits_colon) (auto dest: in_set_dropD)
    have "?a @ ?b @ colon # [] \<le> row_text m k \<longleftrightarrow> ?a < ?m \<or> ?a = ?m"
      using 3 b by (subst append_le) auto
    moreover have "(?a < ?m) = (digits_val ?a < m)" "(?a = ?m) = (digits_val ?a = m)"
      using 3 digits_less [of ?a ?m] dec_nat_digits [of n] dec_nat_digits [of m]
      by (auto dest: in_set_takeD)
    ultimately show ?thesis
      using 3 dec_nat_take [of "length ?m" n] by (auto simp flip: append_assoc)
  qed
qed

lemma row_below_prefix:
  assumes "0 < n" "0 < m"
  shows "row_text m k \<le> row_text n [] \<longleftrightarrow>
    (if length (dec_nat m) = length (dec_nat n) then m < n \<or> m = n \<and> k = []
     else if length (dec_nat n) < length (dec_nat m)
     then m div 10 ^ (length (dec_nat m) - length (dec_nat n)) \<le> n
     else m < n div 10 ^ (length (dec_nat n) - length (dec_nat m)))"
    (is "_ = (if ?eq then _ else if ?lt then _ else _)")
proof -
  let ?n = "dec_nat n" and ?m = "dec_nat m"
  consider ?eq | ?lt | "length ?m < length ?n" by linarith
  then show ?thesis
  proof cases
    case 1
    then show ?thesis
      using digits_less [of ?m ?n] dec_nat_digits [of n] dec_nat_digits [of m]
      by (auto simp: append_le dec_nat_inj)
  next
    case 2
    let ?a = "take (length ?n) ?m" and ?b = "drop (length ?n) ?m"
    have b: "?b @ colon # k < colon # []"
      using 2 dec_nat_digits [of m] by (intro digits_colon) (auto dest: in_set_dropD)
    have "?a @ ?b @ colon # k \<le> row_text n [] \<longleftrightarrow> ?a < ?n \<or> ?a = ?n"
      using 2 b by (subst append_le) auto
    moreover have "(?a < ?n) = (digits_val ?a < n)" "(?a = ?n) = (digits_val ?a = n)"
      using 2 digits_less [of ?a ?n] dec_nat_digits [of n] dec_nat_digits [of m]
      by (auto dest: in_set_takeD)
    ultimately show ?thesis
      using 2 dec_nat_take [of "length ?n" m] by (auto simp flip: append_assoc)
  next
    case 3
    let ?a = "take (length ?m) ?n" and ?b = "drop (length ?m) ?n"
    have b: "?b @ colon # [] < colon # k"
      using 3 dec_nat_digits [of n] by (intro digits_colon) (auto dest: in_set_dropD)
    have "row_text m k \<le> ?a @ ?b @ colon # [] \<longleftrightarrow> ?m < ?a"
      using 3 b by (subst append_le) auto
    moreover have "(?m < ?a) = (m < digits_val ?a)"
      using 3 digits_less [of ?m ?a] dec_nat_digits [of n] dec_nat_digits [of m]
      by (auto dest: in_set_takeD)
    ultimately show ?thesis
      using 3 dec_nat_take [of "length ?m" n] by (simp flip: append_assoc)
  qed
qed

lemma length_next:
  assumes "0 < n"
  shows "length (dec_nat n) \<noteq> length (dec_nat (Suc n)) \<longleftrightarrow> (\<exists>j. Suc n = 10 ^ j)"
proof -
  obtain l where l: "length (dec_nat n) = Suc l"
    by (metis dec_nat_ne length_0_conv not0_implies_Suc)
  then have n: "10 ^ l \<le> n" "n < 10 ^ Suc l"
    using assms length_dec_nat [of n l] by auto
  have "length (dec_nat (Suc n)) = Suc l \<longleftrightarrow> Suc n < 10 ^ Suc l"
    using length_dec_nat [of "Suc n" l] n by (auto simp del: power_Suc)
  moreover have "\<not> Suc n < 10 ^ Suc l \<longleftrightarrow> Suc n = 10 ^ Suc l" using n(2) by linarith
  moreover have "j = Suc l" if "Suc n = 10 ^ j" for j
  proof -
    have "(10::nat) ^ l < 10 ^ j" "(10::nat) ^ j \<le> 10 ^ Suc l" using that n by linarith+
    then have "l < j" "j \<le> Suc l" by (simp_all del: power_Suc)
    then show ?thesis by simp
  qed
  ultimately show ?thesis unfolding l by metis
qed

lemma length_div: "0 < m div 10 ^ j \<Longrightarrow> length (dec_nat m) = length (dec_nat (m div 10 ^ j)) + j"
proof (induction j arbitrary: m)
  case (Suc j)
  have m: "m div 10 ^ Suc j = m div 10 div 10 ^ j" by (simp add: div_mult2_eq)
  with Suc.prems have "0 < m div 10" using div_less [of "m div 10"] gr_zeroI by fastforce
  then have "\<not> m < 10" by simp
  then have "length (dec_nat m) = Suc (length (dec_nat (m div 10)))"
    by (subst dec_nat.simps) simp
  with Suc.IH [of "m div 10"] Suc.prems m show ?case by simp
qed simp

lemma length_prefix_up:
  "m div 10 ^ j = Suc n \<Longrightarrow> length (dec_nat (Suc n)) + j = length (dec_nat m)"
  using length_div [of m j] by simp

lemma length_prefix_down:
  assumes j: "Suc n = Suc m * 10 ^ j" and m: "0 < m" and no: "\<nexists>j. Suc n = 10 ^ j"
  shows "length (dec_nat m) + j = length (dec_nat (Suc n))"
proof -
  have "length (dec_nat m) = length (dec_nat (Suc m))"
  proof (rule ccontr)
    assume "length (dec_nat m) \<noteq> length (dec_nat (Suc m))"
    then obtain i where "Suc m = 10 ^ i" using m length_next by metis
    with j have "Suc n = 10 ^ (i + j)" by (simp add: power_add)
    with no show False by metis
  qed
  moreover have "Suc n div 10 ^ j = Suc m" unfolding j by simp
  ultimately show ?thesis using length_div [of "Suc n" j] by simp
qed

lemma scan_range:
  assumes n: "0 < n" and m: "0 < m" and no: "\<nexists>j. Suc n = 10 ^ j"
  shows "row_text n [] \<le> row_text m k \<and> row_text m k \<le> row_text (Suc n) [] \<longleftrightarrow>
    m = n \<or> (m = Suc n \<and> k = []) \<or> (\<exists>j>0. m div 10 ^ j = Suc n) \<or> (\<exists>j>0. Suc n = Suc m * 10 ^ j)"
    (is "?between \<longleftrightarrow> ?is")
proof -
  let ?L = "length (dec_nat n)" and ?M = "length (dec_nat m)"
  have L: "length (dec_nat (Suc n)) = ?L" using n no length_next by metis
  have up: "?L + j = ?M" if "m div 10 ^ j = Suc n" for j
    using that length_prefix_up [of m j n] L by simp
  have down: "?M + j = ?L" if "Suc n = Suc m * 10 ^ j" for j
    using that length_prefix_down [OF that m no] L by simp
  consider "?M = ?L" | "?L < ?M" | "?M < ?L" by linarith
  then show ?thesis
  proof cases
    case 1
    then have "?between \<longleftrightarrow> m = n \<or> (m = Suc n \<and> k = [])"
      using n m L by (auto simp: prefix_below_row row_below_prefix)
    with 1 show ?thesis using up down by fastforce
  next
    case 2
    then have "?between \<longleftrightarrow> m div 10 ^ (?M - ?L) = Suc n"
      using n m L by (auto simp: prefix_below_row row_below_prefix)
    moreover have "m \<noteq> n" "m \<noteq> Suc n" using 2 L by auto
    moreover have "\<not> (\<exists>j>0. Suc n = Suc m * 10 ^ j)" using 2 down by fastforce
    moreover have "(\<exists>j>0. m div 10 ^ j = Suc n) \<longleftrightarrow> m div 10 ^ (?M - ?L) = Suc n"
    proof
      assume "\<exists>j>0. m div 10 ^ j = Suc n"
      then obtain j where "m div 10 ^ j = Suc n" by blast
      moreover from this have "j = ?M - ?L" using up by fastforce
      ultimately show "m div 10 ^ (?M - ?L) = Suc n" by simp
    qed (use 2 in \<open>intro exI [of _ "?M - ?L"], simp\<close>)
    ultimately show ?thesis by metis
  next
    case 3
    let ?d = "?L - ?M"
    have "?between \<longleftrightarrow> n div 10 ^ ?d \<le> m \<and> m < Suc n div 10 ^ ?d"
      using 3 n m L by (auto simp: prefix_below_row row_below_prefix)
    also have "\<dots> \<longleftrightarrow> n < Suc m * 10 ^ ?d \<and> Suc m * 10 ^ ?d \<le> Suc n"
      using div_less_iff_less_mult [of "10 ^ ?d" n "Suc m"] less_eq_div_iff_mult_less_eq [of "10 ^ ?d" "Suc m" "Suc n"]
        less_Suc_eq_le [of "n div 10 ^ ?d" m] Suc_le_eq [of m "Suc n div 10 ^ ?d"]
      by (metis zero_less_power zero_less_numeral)
    also have "\<dots> \<longleftrightarrow> Suc n = Suc m * 10 ^ ?d" by linarith
    finally have b: "?between \<longleftrightarrow> Suc n = Suc m * 10 ^ ?d" .
    have "m \<noteq> n" "m \<noteq> Suc n" using 3 L by auto
    moreover have "\<not> (\<exists>j>0. m div 10 ^ j = Suc n)" using 3 up by fastforce
    moreover have "(\<exists>j>0. Suc n = Suc m * 10 ^ j) \<longleftrightarrow> Suc n = Suc m * 10 ^ ?d"
    proof
      assume "\<exists>j>0. Suc n = Suc m * 10 ^ j"
      then obtain j where "Suc n = Suc m * 10 ^ j" by blast
      moreover from this have "j = ?d" using down by fastforce
      ultimately show "Suc n = Suc m * 10 ^ ?d" by simp
    qed (use 3 in \<open>intro exI [of _ ?d], simp\<close>)
    ultimately show ?thesis using b by metis
  qed
qed


text \<open>
  C13. Which rows of which tables a scan of one table reads. Unless the identifier of the table is followed by a
  power of ten, every row of the table is in the range; so is every row of a table whose identifier continues
  the digits of the next identifier (a scan of table 1 reads the rows of tables 20 to 29), and of a table whose
  identifier followed by nines is the identifier (a scan of table 19 reads the rows of table 1). No check of the
  table follows.
\<close>

theorem table_scan_range:
  assumes "0 < tid" "0 < m" "unat tid + 1 < 2 ^ 32" "\<nexists>j. unat tid + 1 = 10 ^ j"
  shows "plan_matches (table_range tid) (bytes_of_str (EncodeRowKey m key)) \<longleftrightarrow>
    m = tid \<or> (m = tid + 1 \<and> key = []) \<or> (\<exists>j>0. unat m div 10 ^ j = unat tid + 1)
      \<or> (\<exists>j>0. unat tid + 1 = (unat m + 1) * 10 ^ j)"
proof -
  have nx: "unat (tid + 1) = Suc (unat tid)"
    using assms(3) by (simp add: unat_plus_simple [THEN iffD1] unat_word_ariths)
  have "m = tid \<longleftrightarrow> unat m = unat tid" "m = tid + 1 \<longleftrightarrow> unat m = Suc (unat tid)"
    using nx by (auto simp: word_unat_eq_iff)
  then show ?thesis
    using scan_range [of "unat tid" "unat m" key] assms
    by (simp add: plan_matches_def table_range_def key_range_plan_def EncodeRowKey_def nx
        unat_gt_0 word_neq_0_conv flip: bytes_of_str_append)
qed

theorem table_scan_range_witness:
  "plan_matches (table_range 1) (bytes_of_str (EncodeRowKey 20 ''k'')) \<and>
   plan_matches (table_range 19) (bytes_of_str (EncodeRowKey 1 ''k'')) \<and>
   \<not> plan_matches (table_range 2) (bytes_of_str (EncodeRowKey 1 ''k''))"
proof -
  have no: "\<nexists>j. (c::nat) = 10 ^ j" if "c = 2 \<or> c = 3 \<or> c = 20" for c
  proof
    assume "\<exists>j. c = 10 ^ j"
    then obtain j where j: "c = 10 ^ j" by blast
    with that have "(10::nat) ^ 0 < 10 ^ j" "(10::nat) ^ j < 10 ^ 2" by auto
    then have "j = 1" by (simp only: power_strict_increasing_iff)
    with j that show False by auto
  qed
  have u: "unat (1 :: u32) + 1 = 2" "unat (19 :: u32) + 1 = 20" "unat (2 :: u32) + 1 = 3" by simp_all
  have p: "plan_matches (table_range 1) (bytes_of_str (EncodeRowKey 20 ''k''))"
    using table_scan_range [of 1 20 "''k''", unfolded u, OF _ _ _ no [of 2]] by (auto intro: exI [of _ 1])
  have q: "plan_matches (table_range 19) (bytes_of_str (EncodeRowKey 1 ''k''))"
    using table_scan_range [of 19 1 "''k''", unfolded u, OF _ _ _ no [of 20]] by (auto intro: exI [of _ 1])
  have "2 * x \<noteq> (3::nat)" for x by presburger
  moreover have "(1::nat) div 10 ^ j \<noteq> 3" for j
    using div_le_dividend [of 1 "10 ^ j :: nat"] by linarith
  ultimately have "\<not> plan_matches (table_range 2) (bytes_of_str (EncodeRowKey 1 ''k''))"
    using table_scan_range [of 2 1 "''k''", unfolded u, OF _ _ _ no [of 3]] by simp
  with p q show ?thesis by blast
qed

lemma power_ten_word: "unat (tid :: u32) + 1 = 10 ^ j \<Longrightarrow> unat tid + 1 < 2 ^ 32"
proof -
  assume a: "unat tid + 1 = 10 ^ j"
  have "unat tid < 2 ^ 32" using unat_bound [of tid] by simp
  with a have "(10::nat) ^ j < 10 ^ 10" by simp
  then have "j \<le> 9" by (simp only: power_strict_increasing_iff)
  then have "(10::nat) ^ j \<le> 10 ^ 9" by (intro power_increasing) auto
  with a show ?thesis by simp
qed

lemma table_range_reversed:
  assumes "0 < tid" "unat tid + 1 = 10 ^ j"
  shows "tp_range_end (table_range tid) < tp_key (table_range tid)"
proof -
  have nx: "unat (tid + 1) = Suc (unat tid)"
    using power_ten_word [OF assms(2)] by (simp add: unat_word_ariths)
  let ?n = "unat tid"
  have n: "0 < ?n" using assms(1) by (simp add: unat_gt_0 word_neq_0_conv)
  have "length (dec_nat ?n) \<noteq> length (dec_nat (Suc ?n))"
    unfolding length_next [OF n] by (rule exI [of _ j]) (use assms(2) in simp)
  then have "length (dec_nat ?n) < length (dec_nat (Suc ?n))"
    using length_dec_nat_mono [of ?n "Suc ?n"] by simp
  moreover have "Suc ?n div 10 ^ (length (dec_nat (Suc ?n)) - length (dec_nat ?n)) \<le> ?n"
  proof -
    have "(10::nat) ^ 1 \<le> 10 ^ (length (dec_nat (Suc ?n)) - length (dec_nat ?n))"
      using calculation by (intro power_increasing) auto
    then have "Suc ?n div 10 ^ (length (dec_nat (Suc ?n)) - length (dec_nat ?n)) \<le> Suc ?n div 10"
      by (intro div_le_mono2) auto
    with n show ?thesis by linarith
  qed
  ultimately have "row_text (Suc ?n) [] \<le> row_text ?n []"
    using row_below_prefix [of ?n "Suc ?n" "[]"] n by auto
  moreover have "row_text (Suc ?n) [] \<noteq> row_text ?n []"
    using dec_nat_inj [of "Suc ?n" ?n] by simp
  ultimately have "row_text (Suc ?n) [] < row_text ?n []" by (rule le_neq_trans)
  then show ?thesis
    by (simp add: table_range_def key_range_plan_def nx flip: bytes_of_str_append)
qed

lemma prepare_reversed:
  assumes "tp_op plan = KRange" "tp_range_end plan < tp_key plan" "Some sh \<in> set (en_shards e)"
  shows "Engine_Prepare io plan e = (e, Status_InvalidArgument ''InvalidPlan: range_end before key'')"
proof -
  let ?st = "Status_InvalidArgument ''InvalidPlan: range_end before key''"
  have p: "Prepare plan s = ?st" for s using assms by (simp add: Prepare_def)
  have bad: "\<not> status_ok ?st" by (simp add: status_defs)
  show ?thesis
  proof (cases "length (en_shards e) = 1")
    case True
    then have "en_shards e = [Some sh]" using assms(3) by (cases "en_shards e") auto
    then show ?thesis by (simp add: Engine_Prepare_def shard_slot_def p)
  next
    case False
    obtain s ss where "List.map_filter id (en_shards e) = s # ss"
      using assms(3) by (cases "List.map_filter id (en_shards e)") (auto simp: List.map_filter_def filter_empty_conv)
    with False bad assms(1) show ?thesis by (simp add: Engine_Prepare_def p)
  qed
qed

text \<open>
  C14. The tables 9, 99, 999 and so on cannot be read: the text of the next identifier is less than the text of
  the identifier, so the engine rejects the range of the scan as reversed, whatever the table holds.
\<close>

theorem nine_table_rejected:
  assumes "0 < ts_id t" "unat (ts_id t) + 1 = 10 ^ j" "Some sh \<in> set (en_shards (snd s))"
  shows "ScanTable io t s = Some (s, Inl (Status_InvalidArgument ''InvalidPlan: range_end before key''))"
  using table_range_reversed [OF assms(1,2)]
    prepare_reversed [of "table_range (ts_id t)" sh "snd s" io] assms(3)
  by (simp add: ScanTable_def prepared_scan_def table_range_def key_range_plan_def status_defs)

section \<open>Decoding keys\<close>

lemma colon_not_digit: "\<not> is_digit colon"
  by (simp add: colon_def)

lemma colon_dec [simp]: "colon \<notin> set (dec_nat n)"
  using dec_nat_no colon_not_digit by blast

lemma decode_row_key: "DecodeRowKey (EncodeRowKey tid key) = Some (dec_nat (unat tid), key)"
proof -
  have "dec_nat (unat tid) ! 1 \<noteq> CHR ''i''" if "2 \<le> length (dec_nat (unat tid))"
  proof -
    have "dec_nat (unat tid) ! 1 \<in> set (dec_nat (unat tid))" using that by (intro nth_mem) simp
    then show ?thesis using dec_nat_no [of "CHR ''i''"] digit_chars(4) by metis
  qed
  then show ?thesis
    by (auto simp: DecodeRowKey_def EncodeRowKey_def find_str_skip0 Let_def)
qed

lemma decode_index_text:
  assumes "colon \<notin> set v"
  shows "DecodeIndexKeyPrefix (dec_nat m @ colon # CHR ''i'' # dec_nat n @ colon # v @ colon # pk) =
    Some (dec_nat m, dec_nat n, v, pk)"
proof -
  let ?b = "CHR ''i'' # dec_nat n" and ?l = "length (dec_nat m)"
  let ?e = "dec_nat m @ colon # ?b @ colon # v @ colon # pk"
  have "colon \<notin> set ?b" using colon_dec [of n] by (auto simp: colon_def)
  then have f2: "find_str ?e [colon] (?l + 1) = Some (?l + 1 + length ?b)"
    using find_str_skip [of colon ?b "dec_nat m @ [colon]" "?l + 1" "v @ colon # pk"] by simp
  have f3: "find_str ?e [colon] (?l + 1 + length ?b + 1) = Some (?l + 1 + length ?b + 1 + length v)"
    using assms find_str_skip [of colon v "dec_nat m @ colon # ?b @ [colon]" "?l + 1 + length ?b + 1" pk] by simp
  have f1: "find_str ?e [colon] 0 = Some ?l" by (rule find_str_skip0) simp
  have e: "dec_nat m @ colon # CHR ''i'' # dec_nat n @ colon # v @ colon # pk = ?e" by simp
  show ?thesis
    unfolding e DecodeIndexKeyPrefix_def f1 option.case f2 f3 by (simp add: substr_def numeral_eq_Suc)
qed

text \<open>
  C19. A key of a row is decoded to the table and the key it was made from. A key of an index entry is decoded
  to what it was made from when the value has no colon; of a value with a colon, the part before it is taken for
  the value and the rest is taken for the key of the row.
\<close>

theorem key_decodings:
  "DecodeRowKey (EncodeRowKey tid key) = Some (dec_nat (unat tid), key) \<and>
   (colon \<notin> set v \<longrightarrow> DecodeIndexKeyPrefix (EncodeIndexKey tid iid v pk) =
      Some (dec_nat (unat tid), dec_nat (unat iid), v, pk)) \<and>
   (colon \<notin> set v \<longrightarrow> DecodeIndexKeyPrefix (EncodeIndexKey tid iid (v @ colon # w) pk) =
      Some (dec_nat (unat tid), dec_nat (unat iid), v, w @ colon # pk))"
  using decode_row_key decode_index_text by (simp add: EncodeIndexKey_def)

text \<open>
  A row whose key begins with the letter i, digits and a colon is stored under a key that looks like an index
  entry, and exactly such rows are left out of every scan of their table.
\<close>

theorem index_like_rows_hidden:
  "(IsIndexEncodedKey (EncodeRowKey tid key) \<longleftrightarrow>
      (\<exists>ds rest. key = CHR ''i'' # ds @ colon # rest \<and> ds \<noteq> [] \<and> list_all is_digit ds)) \<and>
   map_option (map_sum id (filter (IsIndexEncodedKey \<circ> fst)) \<circ> snd) (ScanTable io t s) =
   map_option (map_sum id (\<lambda>_. []) \<circ> snd) (ScanTable io t s)"
proof
  let ?l = "length (dec_nat (unat tid))"
  have pos: "find_str (dec_nat (unat tid) @ colon # k) [colon] 0 = Some ?l" for k
    by (rule find_str_skip0) simp
  show "IsIndexEncodedKey (EncodeRowKey tid key) \<longleftrightarrow>
      (\<exists>ds rest. key = CHR ''i'' # ds @ colon # rest \<and> ds \<noteq> [] \<and> list_all is_digit ds)"
  proof (cases "\<exists>t. key = CHR ''i'' # t \<and> t \<noteq> []")
    case True
    then obtain t where t: "key = CHR ''i'' # t" "t \<noteq> []" by blast
    then have "IsIndexEncodedKey (EncodeRowKey tid key) \<longleftrightarrow>
        is_digit (hd t) \<and> dropWhile is_digit t \<noteq> [] \<and> hd (dropWhile is_digit t) = colon"
      using pos [of key] unfolding t(1) by (simp add: IsIndexEncodedKey_def EncodeRowKey_def nth_append Let_def del: dropWhile_eq_Nil_conv)
    also have "\<dots> \<longleftrightarrow> (\<exists>ds rest. t = ds @ colon # rest \<and> ds \<noteq> [] \<and> list_all is_digit ds)"
    proof
      assume "is_digit (hd t) \<and> dropWhile is_digit t \<noteq> [] \<and> hd (dropWhile is_digit t) = colon"
      moreover from this have "t = takeWhile is_digit t @ colon # tl (dropWhile is_digit t)"
        by (metis list.collapse takeWhile_dropWhile_id)
      moreover from calculation have "takeWhile is_digit t \<noteq> []"
        using t(2) by (cases t) auto
      ultimately show "\<exists>ds rest. t = ds @ colon # rest \<and> ds \<noteq> [] \<and> list_all is_digit ds"
        by (metis set_takeWhileD list_all_iff)
    next
      assume "\<exists>ds rest. t = ds @ colon # rest \<and> ds \<noteq> [] \<and> list_all is_digit ds"
      then obtain ds rest where "t = ds @ colon # rest" "ds \<noteq> []" "list_all is_digit ds" by blast
      then show "is_digit (hd t) \<and> dropWhile is_digit t \<noteq> [] \<and> hd (dropWhile is_digit t) = colon"
        using colon_not_digit by (cases ds) (simp_all add: dropWhile_append2 list_all_iff)
    qed
    finally show ?thesis using t by simp
  next
    case False
    then have "\<not> IsIndexEncodedKey (EncodeRowKey tid key)"
      using pos by (cases key) (auto simp: IsIndexEncodedKey_def EncodeRowKey_def pos nth_append)
    moreover have "\<nexists>ds rest. key = CHR ''i'' # ds @ colon # rest" using False by auto
    ultimately show ?thesis by blast
  qed
  have "map_sum id (filter (IsIndexEncodedKey \<circ> fst)) (map_sum id (filter (\<lambda>kv. \<not> IsIndexEncodedKey (fst kv))) r)
      = map_sum id (\<lambda>_. []) (map_sum id (filter (\<lambda>kv. \<not> IsIndexEncodedKey (fst kv))) r)" for r :: "text_rows res"
    by (cases r) auto
  then show "map_option (map_sum id (filter (IsIndexEncodedKey \<circ> fst)) \<circ> snd) (ScanTable io t s) =
      map_option (map_sum id (\<lambda>_. []) \<circ> snd) (ScanTable io t s)"
    by (simp add: ScanTable_def option.map_comp comp_def case_prod_beta)
qed

section \<open>Scans by an index\<close>

text \<open>
  C15. A condition on a range of numbers over an indexed column is answered from the index, which is ordered by
  text: when the text of the upper bound is less than the text of the lower bound no row is read at all, although
  rows satisfy the condition.
\<close>

abbreviation int_column :: "string \<Rightarrow> nat \<Rightarrow> binary_op \<Rightarrow> expr" where
  "int_column col n op \<equiv> MakeBinary op (MakeColumn [] col) (MakeLiteral (dec_nat n))"

theorem index_range_empty:
  assumes "FindLeadingIndex c tn col = Some i" "CHR ''.'' \<notin> set col" "tn \<noteq> []"
    "lo \<le> v" "v \<le> hi" "hi \<le> 2 ^ 53" "dec_nat hi < dec_nat lo" "row col = Some (dec_nat v)"
    "q_where q = Some w" "w = MakeBinary OpAnd (int_column col lo OpGe) (int_column col hi OpLe)"
  shows "map ps_scan_mode (scan_steps (Some q) tn (Some c)) = [ScanRange] \<and>
    map (\<lambda>p. (ps_index_column p, ps_index_range_lo p, ps_index_range_hi p)) (scan_steps (Some q) tn (Some c))
      = [(col, dec_nat lo, dec_nat hi)] \<and>
    ScanIndexRange io t i (dec_nat lo) (dec_nat hi) s = Some (s, Inr []) \<and> EvalBool env row w"
proof -
  have bare: "BareColumn (MakeColumn [] col) = col"
    using find_str_none [of "CHR ''.''" 0 col] assms(2) by (simp add: BareColumn_def MakeColumn_def)
  have ge: "ExtractColLitCmp (int_column col n op) op' = (if op' = op then Some (col, dec_nat n) else None)" for n op op'
    using bare by (simp add: ExtractColLitCmp_def MakeBinary_def MakeColumn_def MakeLiteral_def)
  have "TryRangeAnd w = Some (col, dec_nat lo, dec_nat hi)"
    using assms(10) ge [of OpGe lo] ge [of OpLe hi]
    by (simp add: TryRangeAnd_def MakeBinary_def [of OpAnd] left_ge_def right_le_def Let_def)
  moreover have "ExtractColLitEq w = None"
    using assms(10) by (simp add: ExtractColLitEq_def ExtractColLitCmp_def MakeBinary_def [of OpAnd])
  ultimately have plan: "scan_steps (Some q) tn (Some c) = [(plan_step_of PIndexScan)\<lparr>ps_table := tn,
      ps_index_column := col, ps_index_range_lo := dec_nat lo, ps_index_range_hi := dec_nat hi,
      ps_scan_mode := ScanRange\<rparr>]"
    using assms(1,3,9) by (simp add: scan_steps_def MatchIndexWhere_def no_match_def)
  have num: "FromLegacyString (dec_nat n) = SqlInteger (int n)" if "n \<le> 2 ^ 53" for n
    using that FromLegacyString_dec [of "int n"] by (simp add: dec_int_def LLONG_MIN_def LLONG_MAX_def)
  have "LookupColumn [] col row = dec_nat v"
    using assms(8) by (simp add: LookupColumn_def)
  then have cmp: "EvalTruth env row (int_column col n op) = truth_of (int_cmp op (int v) (int n))"
    if "n \<le> 2 ^ 53" "op \<in> {OpGe, OpLe}" for n op
    using that assms(5,6) num [of n] num [of v] compare_integers [of "int v" "int n" op]
    by (auto simp: MakeBinary_def MakeColumn_def MakeLiteral_def EvalTruth.simps EvalValue.simps
        compare_children_def arith_op_def comparison_def)
  have "EvalTruth env row w = TTrue"
    using cmp [of lo OpGe] cmp [of hi OpLe] assms(4-6,10)
    by (simp add: MakeBinary_def [of OpAnd] EvalTruth.simps [of _ _ _ _ _ _ OpAnd] int_cmp_def And3_def truth_of_def)
  then show ?thesis
    using plan assms(7) by (simp add: plan_step_of_def ScanIndexRange_def EvalBool_def IsSqlTrue_def)
qed

text \<open>A condition \<open>b >= 5 AND b <= 10\<close> over the column of an index.\<close>

definition demo_index :: index_def where
  "demo_index = \<lparr>ix_id = 1, ix_name = ''i'', ix_table = ''t'', ix_columns = [''b''], ix_unique = False\<rparr>"

definition demo_where :: expr where
  "demo_where = MakeBinary OpAnd (int_column ''b'' 5 OpGe) (int_column ''b'' 10 OpLe)"

definition demo_query :: select_query where
  "demo_query = SelectQuery [] ''t'' [] (Some demo_where) [] None [] None None False [] [] None None"

abbreviation demo_session :: session where
  "demo_session \<equiv> (no_txn, demo_engine (Some (demo_shard KBalancedClass)))"

theorem index_range_empty_witness:
  "ScanIndexRange demo_io default_schema demo_index ''5'' ''10'' demo_session = Some (demo_session, Inr []) \<and>
   EvalBool plain_env [''b'' \<mapsto> ''7''] demo_where"
proof -
  have d: "dec_nat 5 = ''5''" "dec_nat 7 = ''7''" "dec_nat 10 = ''10''" by code_simp+
  let ?c = "empty_catalog\<lparr>cat_index_list := [demo_index]\<rparr>"
  have i: "FindLeadingIndex ?c ''t'' ''b'' = Some demo_index"
    by (simp add: FindLeadingIndex_def IndexesForTable_def demo_index_def)
  show ?thesis
    using index_range_empty [OF i, of 5 7 10 "[''b'' \<mapsto> ''7'']" demo_query demo_where demo_io default_schema demo_session plain_env]
    by (simp add: d demo_query_def) (simp add: demo_where_def d char_less)
qed

theorem nine_table_rejected_witness:
  "ScanTable demo_io (default_schema\<lparr>ts_id := 9\<rparr>) demo_session =
     Some (demo_session, Inl (Status_InvalidArgument ''InvalidPlan: range_end before key''))"
proof (rule nine_table_rejected [where j = 1 and sh = "demo_shard KBalancedClass"])
  show "Some (demo_shard KBalancedClass) \<in> set (en_shards (snd demo_session))"
    by (simp add: demo_engine_def)
qed simp_all

theorem key_decodings_witness:
  "DecodeIndexKeyPrefix (EncodeIndexKey 1 2 ''a'' ''k'') = Some (''1'', ''2'', ''a'', ''k'') \<and>
   DecodeIndexKeyPrefix (EncodeIndexKey 1 2 ''a:b'' ''k'') = Some (''1'', ''2'', ''a'', ''b:k'')"
proof -
  have "colon \<notin> set ''a''" "''a:b'' = ''a'' @ colon # ''b''" "''b:k'' = ''b'' @ colon # ''k''"
    "dec_nat 1 = ''1''" "dec_nat 2 = ''2''" by (simp_all add: colon_def) code_simp+
  then show ?thesis
    using key_decodings [of 1 k "''a''" 2 "''k''" "''b''" for k] by simp
qed

end
