(* ===== verification/CatalogFacts.thy ===== *)
theory CatalogFacts
  imports KeyRanges
begin

text \<open>
  The invariant of the catalog: the map of tables and the list of tables name the same tables with the same
  identifiers, and no identifier is used twice; so the rows of different tables never share a key. The operations
  of statements keep it. The restoring operations of the loader take the identifiers as they come and keep it only
  when those are fresh, which nothing checks.
\<close>

section \<open>Operations\<close>

datatype cat_op =
    CreateTableOp string "column_def list"
  | AddColumnOp string column_def
  | DropColumnOp string string
  | DropTableOp string
  | AllocateOp string
  | CreateIndexOp string string "string list" bool
  | DropIndexOp string
  | CreateViewOp string string string string "expr option"
  | DropViewOp string
  | CreateTriggerOp trigger_def
  | DropTriggerOp string
  | ClearOp
  | RestoreTableV2Op u32 string "column_def list"
  | RestoreTableOp u32 string string string
  | RestoreIndexOp u32 string string "string list" bool

text \<open>A catalog is left as it was by an operation that fails.\<close>

definition kept :: "catalog \<Rightarrow> catalog res \<Rightarrow> catalog" where
  "kept c r = (case r of Inl _ \<Rightarrow> c | Inr c1 \<Rightarrow> c1)"

definition cat_step :: "cat_op \<Rightarrow> catalog \<Rightarrow> catalog" where
  "cat_step oper c = kept c (case oper of
       CreateTableOp name cols \<Rightarrow> map_sum id fst (CreateTable name cols c)
     | AddColumnOp table col \<Rightarrow> AddColumn table col c
     | DropColumnOp table col \<Rightarrow> DropColumn table col c
     | DropTableOp name \<Rightarrow> DropTable name c
     | AllocateOp name \<Rightarrow> map_sum id snd (AllocateRowKey name c)
     | CreateIndexOp name table cols unique \<Rightarrow> map_sum id fst (CreateIndex name table cols unique c)
     | DropIndexOp name \<Rightarrow> DropIndex name c
     | CreateViewOp name table k v w \<Rightarrow> CreateView name table k v w c
     | DropViewOp name \<Rightarrow> DropView name c
     | CreateTriggerOp t \<Rightarrow> CreateTrigger t c
     | DropTriggerOp name \<Rightarrow> DropTrigger name c
     | ClearOp \<Rightarrow> Inr (cat_Clear c)
     | RestoreTableV2Op i name cols \<Rightarrow> RestoreTableV2 i name cols c
     | RestoreTableOp i name key_col value_col \<Rightarrow> RestoreTable i name key_col value_col c
     | RestoreIndexOp i name table cols unique \<Rightarrow> RestoreIndex i name table cols unique c)"

text \<open>Creating a table needs an identifier that is left; restoring one needs an identifier no table has.\<close>

definition fresh_id :: "u32 \<Rightarrow> catalog \<Rightarrow> bool" where
  "fresh_id i c \<longleftrightarrow> i < i + 1 \<and> i \<notin> set (map ts_id (cat_table_list c))"

definition op_ok :: "cat_op \<Rightarrow> catalog \<Rightarrow> bool" where
  "op_ok oper c = (case oper of
       CreateTableOp _ _ \<Rightarrow> cat_next_id c < cat_next_id c + 1
     | RestoreTableV2Op i _ _ \<Rightarrow> fresh_id i c
     | RestoreTableOp i _ _ _ \<Rightarrow> fresh_id i c
     | _ \<Rightarrow> True)"

fun ops_ok :: "cat_op list \<Rightarrow> catalog \<Rightarrow> bool" where
  "ops_ok [] c = True"
| "ops_ok (oper # ops) c = (op_ok oper c \<and> ops_ok ops (cat_step oper c))"

section \<open>Invariant\<close>

abbreviation table_tag :: "table_schema \<Rightarrow> string \<times> u32" where
  "table_tag s \<equiv> (ts_name s, ts_id s)"

definition map_tags :: "(string \<Rightarrow> table_schema option) \<Rightarrow> (string \<times> u32) set" where
  "map_tags m = {(n, i). \<exists>t. m n = Some t \<and> ts_id t = i}"

definition catalog_wf :: "catalog \<Rightarrow> bool" where
  "catalog_wf c \<longleftrightarrow>
     (\<forall>n t. cat_tables c n = Some t \<longrightarrow> ts_name t = n \<and> ts_id t < cat_next_id c) \<and>
     distinct (map ts_id (cat_table_list c)) \<and>
     table_tag ` set (cat_table_list c) = map_tags (cat_tables c)"

lemma map_tags_iff: "x \<in> map_tags m \<longleftrightarrow> map_option ts_id (m (fst x)) = Some (snd x)"
  by (cases x) (auto simp: map_tags_def)

lemma wf_listed:
  "catalog_wf c \<Longrightarrow> cat_tables c n = Some t \<Longrightarrow> \<exists>x \<in> set (cat_table_list c). ts_name x = n \<and> ts_id x = ts_id t"
proof -
  assume wf: "catalog_wf c" and t: "cat_tables c n = Some t"
  have "(n, ts_id t) \<in> map_tags (cat_tables c)" using t by (simp add: map_tags_iff)
  then have "(n, ts_id t) \<in> table_tag ` set (cat_table_list c)" using wf by (simp add: catalog_wf_def)
  then show ?thesis by auto
qed

lemma catalog_wf_tables:
  assumes wf: "catalog_wf c" and t: "cat_tables c n = Some t" and u: "cat_tables c m = Some u" and i: "ts_id t = ts_id u"
  shows "n = m"
proof -
  obtain x where x: "x \<in> set (cat_table_list c)" "ts_name x = n" "ts_id x = ts_id t" using wf_listed [OF wf t] by blast
  obtain y where y: "y \<in> set (cat_table_list c)" "ts_name y = m" "ts_id y = ts_id t" using wf_listed [OF wf u] i by auto
  have "inj_on ts_id (set (cat_table_list c))" using wf by (simp add: catalog_wf_def distinct_map)
  with x y have "x = y" by (simp add: inj_on_def)
  with x y show ?thesis by simp
qed

lemma wf_mapped:
  assumes wf: "catalog_wf c" and x: "x \<in> set (cat_table_list c)"
  obtains t where "cat_tables c (ts_name x) = Some t" "ts_id t = ts_id x"
proof -
  have "table_tag x \<in> table_tag ` set (cat_table_list c)" using x by (rule imageI)
  then have "table_tag x \<in> map_tags (cat_tables c)" using wf by (simp add: catalog_wf_def)
  then show ?thesis using that by (auto simp: map_tags_iff)
qed

lemma change_first_map:
  "(\<And>x. x \<in> set xs \<Longrightarrow> p x \<Longrightarrow> f (g x) = f x) \<Longrightarrow> map f (change_first p g xs) = map f xs"
  by (induction xs) auto

lemma map_tags_update:
  "map_option ts_id (m n) = Some i \<Longrightarrow> ts_id t' = i \<Longrightarrow> map_tags (m(n \<mapsto> t')) = map_tags m"
  by (rule set_eqI) (auto simp: map_tags_iff)

text \<open>Replacing a schema by one of the same name and identifier, in the map alone or in the list as well.\<close>

lemma catalog_wf_replace:
  assumes "catalog_wf c" "cat_tables c n = Some t" "table_tag t' = table_tag t"
    "map table_tag xs = map table_tag (cat_table_list c)"
  shows "catalog_wf (c\<lparr>cat_tables := (cat_tables c)(n \<mapsto> t'), cat_table_list := xs\<rparr>)"
proof -
  have "map ts_id xs = map ts_id (cat_table_list c)" "table_tag ` set xs = table_tag ` set (cat_table_list c)"
    using arg_cong [OF assms(4), of "map snd"] arg_cong [OF assms(4), of set] by (simp_all add: comp_def)
  then show ?thesis
    using assms(1-3) map_tags_update [of "cat_tables c" n "ts_id t" t'] by (simp add: catalog_wf_def)
qed

lemma catalog_wf_cong: "catalog_wf c \<Longrightarrow> cat_tables d = cat_tables c \<Longrightarrow> cat_table_list d = cat_table_list c \<Longrightarrow>
    cat_next_id d = cat_next_id c \<Longrightarrow> catalog_wf d"
  by (simp add: catalog_wf_def)

lemma wf_new:
  assumes wf: "catalog_wf c" and new: "cat_tables c name = None" and fresh: "ts_id t \<notin> ts_id ` set (cat_table_list c)"
    and t: "ts_name t = name" "ts_id t < nx" and nx: "cat_next_id c \<le> nx"
  shows "catalog_wf (c\<lparr>cat_next_id := nx, cat_tables := (cat_tables c)(name \<mapsto> t), cat_table_list := cat_table_list c @ [t]\<rparr>)"
proof -
  have "table_tag ` set (cat_table_list c) = map_tags (cat_tables c)" using wf by (simp add: catalog_wf_def)
  moreover have "map_tags ((cat_tables c)(name \<mapsto> t)) = insert (name, ts_id t) (map_tags (cat_tables c))"
    using new by (intro set_eqI) (auto simp: map_tags_iff)
  moreover have "ts_id u < nx" if "cat_tables c m = Some u" for m u
    using that wf nx less_le_trans unfolding catalog_wf_def by blast
  ultimately show ?thesis
    using wf t fresh by (auto simp: catalog_wf_def)
qed

lemma next_fresh: "catalog_wf c \<Longrightarrow> cat_next_id c \<notin> ts_id ` set (cat_table_list c)"
proof
  assume wf: "catalog_wf c" and "cat_next_id c \<in> ts_id ` set (cat_table_list c)"
  then obtain x where x: "x \<in> set (cat_table_list c)" "ts_id x = cat_next_id c" by (metis imageE)
  obtain t where "cat_tables c (ts_name x) = Some t" "ts_id t = ts_id x" by (rule wf_mapped [OF wf x(1)])
  with x(2) have "cat_tables c (ts_name x) = Some t" "ts_id t = cat_next_id c" by simp_all
  moreover from this(1) wf have "ts_id t < cat_next_id c" unfolding catalog_wf_def by blast
  ultimately show False by simp
qed

lemma wf_create:
  assumes wf: "catalog_wf c" and r: "CreateTable name cols c = Inr (c1, i)" and n: "cat_next_id c < cat_next_id c + 1"
  shows "catalog_wf c1"
proof -
  let ?s = "schema_of (cat_next_id c) name cols"
  have new: "cat_tables c name = None"
    and c1: "c1 = c\<lparr>cat_next_id := cat_next_id c + 1, cat_tables := (cat_tables c)(name \<mapsto> ?s),
      cat_table_list := cat_table_list c @ [?s]\<rparr>"
    using r by (auto simp: CreateTable_def Let_def split: if_splits)
  have s: "ts_name ?s = name" "ts_id ?s = cat_next_id c" by (simp_all add: schema_of_def Let_def)
  show ?thesis unfolding c1 using wf_new [OF wf new] next_fresh [OF wf] s n by simp
qed

lemma wf_restore:
  assumes wf: "catalog_wf c" and r: "RestoreTableV2 i name cols c = Inr c1" and n: "fresh_id i c"
  shows "catalog_wf c1"
proof -
  obtain t where new: "cat_tables c name = None" and t: "ts_name t = name" "ts_id t = i"
    and c1: "c1 = c\<lparr>cat_next_id := max (cat_next_id c) (i + 1), cat_tables := (cat_tables c)(name \<mapsto> t),
      cat_table_list := cat_table_list c @ [t]\<rparr>"
  proof -
    define t where "t = (let key = (if cols = [] then ''key'' else cd_name (hd cols)) in
      default_schema\<lparr>ts_id := i, ts_name := name, ts_columns := cols, ts_key_column := key,
        ts_value_column := (if 1 < length cols then cd_name (cols ! 1) else key), ts_schema_version := 2\<rparr>)"
    have "ts_name t = name" "ts_id t = i" by (simp_all add: t_def Let_def)
    moreover have "cat_tables c name = None \<and> c1 = c\<lparr>cat_next_id := max (cat_next_id c) (i + 1),
        cat_tables := (cat_tables c)(name \<mapsto> t), cat_table_list := cat_table_list c @ [t]\<rparr>"
      using r unfolding RestoreTableV2_def t_def Let_def by (auto simp del: One_nat_def split: if_split_asm)
    ultimately show thesis using that by blast
  qed
  have "i < max (cat_next_id c) (i + 1)" using n by (auto simp: fresh_id_def less_max_iff_disj)
  then show ?thesis unfolding c1 using wf_new [OF wf new] t n by (simp add: fresh_id_def)
qed

lemma wf_drop:
  assumes wf: "catalog_wf c" and r: "DropTable name c = Inr c1"
  shows "catalog_wf c1"
proof -
  obtain t where t: "cat_tables c name = Some t"
    and tabs: "cat_tables c1 = (cat_tables c)(name := None)" "cat_next_id c1 = cat_next_id c"
      "cat_table_list c1 = filter (\<lambda>s. ts_id s \<noteq> ts_id t) (cat_table_list c)"
    using r by (auto simp: DropTable_def split: option.splits)
  have "map_tags ((cat_tables c)(name := None)) = {x \<in> map_tags (cat_tables c). snd x \<noteq> ts_id t}"
  proof (rule set_eqI)
    fix x :: "string \<times> u32"
    have "fst x = name" if "cat_tables c (fst x) = Some u" "ts_id u = ts_id t" for u
      using catalog_wf_tables [OF wf that(1) t that(2)] .
    with t show "x \<in> map_tags ((cat_tables c)(name := None)) \<longleftrightarrow> x \<in> {x \<in> map_tags (cat_tables c). snd x \<noteq> ts_id t}"
      by (cases "fst x = name") (auto simp: map_tags_iff)
  qed
  moreover have "table_tag ` set (filter (\<lambda>s. ts_id s \<noteq> ts_id t) (cat_table_list c)) =
      {x \<in> table_tag ` set (cat_table_list c). snd x \<noteq> ts_id t}" by auto
  ultimately show ?thesis
    using wf tabs by (auto simp: catalog_wf_def distinct_map inj_on_def)
qed

lemma same_tag:
  assumes wf: "catalog_wf c" and t: "cat_tables c n = Some t" and x: "x \<in> set (cat_table_list c)" "ts_id x = ts_id t"
  shows "ts_name x = n" "ts_name t = n"
proof -
  obtain u where u: "cat_tables c (ts_name x) = Some u" "ts_id u = ts_id x" by (rule wf_mapped [OF wf x(1)])
  have "ts_id u = ts_id t" using u(2) x(2) by simp
  from catalog_wf_tables [OF wf u(1) t this] show "ts_name x = n" .
  show "ts_name t = n" using wf t by (simp add: catalog_wf_def)
qed

lemma wf_alter:
  assumes wf: "catalog_wf c"
  shows "AddColumn n col c = Inr c1 \<Longrightarrow> catalog_wf c1" "DropColumn n cn c = Inr c1 \<Longrightarrow> catalog_wf c1"
    "AllocateRowKey n c = Inr (k, c1) \<Longrightarrow> catalog_wf c1"
proof -
  have replace: "catalog_wf (c\<lparr>cat_tables := (cat_tables c)(n \<mapsto> t'),
      cat_table_list := change_first (\<lambda>s. ts_id s = ts_id t') g (cat_table_list c)\<rparr>)"
    if "cat_tables c n = Some t" "table_tag t' = table_tag t" "\<And>s. ts_id s = ts_id t' \<Longrightarrow> ts_name s = n \<Longrightarrow> table_tag (g s) = table_tag s" for t t' g
  proof (rule catalog_wf_replace [OF wf that(1,2)])
    show "map table_tag (change_first (\<lambda>s. ts_id s = ts_id t') g (cat_table_list c)) = map table_tag (cat_table_list c)"
      using that same_tag [OF wf that(1)] by (intro change_first_map) auto
  qed
  have name: "ts_name t = n" if "cat_tables c n = Some t" for t using wf that by (simp add: catalog_wf_def)
  show "AddColumn n col c = Inr c1 \<Longrightarrow> catalog_wf c1"
    using replace name by (auto simp: AddColumn_def Let_def split: option.splits if_splits)
  show "AllocateRowKey n c = Inr (k, c1) \<Longrightarrow> catalog_wf c1"
    using replace by (auto simp: AllocateRowKey_def Let_def split: option.splits if_splits)
  show "DropColumn n cn c = Inr c1 \<Longrightarrow> catalog_wf c1"
    using catalog_wf_replace [OF wf, of n _ _ "cat_table_list c"]
    by (auto simp: DropColumn_def Let_def split: option.splits)
qed

lemma wf_others:
  assumes wf: "catalog_wf c"
  shows "CreateIndex n t cols u c = Inr (c1, i) \<Longrightarrow> catalog_wf c1"
    "DropIndex n c = Inr c1 \<Longrightarrow> catalog_wf c1"
    "CreateView n t k v w c = Inr c1 \<Longrightarrow> catalog_wf c1"
    "DropView n c = Inr c1 \<Longrightarrow> catalog_wf c1"
    "CreateTrigger tr c = Inr c1 \<Longrightarrow> catalog_wf c1"
    "DropTrigger n c = Inr c1 \<Longrightarrow> catalog_wf c1"
    "RestoreIndex j n t cols u c = Inr c1 \<Longrightarrow> catalog_wf c1"
  using catalog_wf_cong [OF wf, of c1]
  by (auto simp: CreateIndex_def DropIndex_def CreateView_def DropView_def CreateTrigger_def DropTrigger_def
      RestoreIndex_def put_index_def Let_def split: option.splits if_splits)

lemma wf_empty: "catalog_wf empty_catalog"
  by (simp add: empty_catalog_def catalog_wf_def map_tags_def)

lemma wf_kept: "catalog_wf c \<Longrightarrow> (\<And>c1. r = Inr c1 \<Longrightarrow> catalog_wf c1) \<Longrightarrow> catalog_wf (kept c r)"
  by (cases r) (simp_all add: kept_def)

lemma wf_kept_fst: "catalog_wf c \<Longrightarrow> (\<And>c1 i. r = Inr (c1, i) \<Longrightarrow> catalog_wf c1) \<Longrightarrow> catalog_wf (kept c (map_sum id fst r))"
  by (cases r) (auto simp: kept_def)

lemma wf_kept_snd: "catalog_wf c \<Longrightarrow> (\<And>c1 i. r = Inr (i, c1) \<Longrightarrow> catalog_wf c1) \<Longrightarrow> catalog_wf (kept c (map_sum id snd r))"
  by (cases r) (auto simp: kept_def)

lemma wf_step:
  assumes wf: "catalog_wf c" and good: "op_ok oper c"
  shows "catalog_wf (cat_step oper c)"
proof -
  note kept = wf_kept [OF wf] wf_kept_fst [OF wf] wf_kept_snd [OF wf]
  show ?thesis
  proof (cases oper)
    case (CreateTableOp name cols)
    with good show ?thesis using wf_create [OF wf] by (auto simp: cat_step_def op_ok_def intro!: kept(2))
  next
    case (RestoreTableV2Op i name cols)
    with good show ?thesis using wf_restore [OF wf] by (auto simp: cat_step_def op_ok_def intro!: kept(1))
  next
    case (RestoreTableOp i name key_col value_col)
    with good show ?thesis using wf_restore [OF wf] by (auto simp: cat_step_def op_ok_def RestoreTable_def intro!: kept(1))
  next
    case (AllocateOp name)
    show ?thesis unfolding AllocateOp cat_step_def cat_op.case by (rule kept(3)) (rule wf_alter(3) [OF wf])
  next
    case (CreateIndexOp name table cols unique)
    show ?thesis unfolding CreateIndexOp cat_step_def cat_op.case by (rule kept(2)) (rule wf_others(1) [OF wf])
  next
    case ClearOp
    then show ?thesis by (simp add: cat_step_def kept_def cat_Clear_def wf_empty)
  qed (simp_all add: cat_step_def, (rule kept(1), erule wf_alter [OF wf] wf_drop [OF wf] wf_others [OF wf])+)
qed

lemma ops_wf: "catalog_wf c \<Longrightarrow> ops_ok ops c \<Longrightarrow> catalog_wf (fold cat_step ops c)"
  by (induction ops arbitrary: c) (simp_all add: wf_step)

text \<open>
  C12. The catalog is consistent after any operations, on tables, columns, row identifiers, indexes, views and triggers
  as well as clearing and restoring, as long as the 32-bit identifiers do not run out and every table is restored under
  an identifier that no table has (\<open>ops_ok\<close>; the loader does not check this, and restores phantom tables under the
  identifier 0): a table found by name has that name and is listed with its identifier, and keys of rows of
  different tables, and keys of their index entries, are different.
\<close>

theorem catalog_keys_disjoint:
  assumes "ops_ok ops empty_catalog" "c = fold cat_step ops empty_catalog"
    "FindTable c n = Some t" "FindTable c m = Some u"
  shows "ts_name t = n \<and> (\<exists>s \<in> set (cat_table_list c). ts_name s = n \<and> ts_id s = ts_id t) \<and>
    (EncodeRowKey (ts_id t) k1 = EncodeRowKey (ts_id u) k2 \<longrightarrow> n = m \<and> k1 = k2) \<and>
    (EncodeIndexKey (ts_id t) i v pk = EncodeRowKey (ts_id u) k2 \<longrightarrow> n = m)"
proof -
  have wf: "catalog_wf c" using ops_wf [OF wf_empty assms(1)] assms(2) by simp
  have t: "cat_tables c n = Some t" and u: "cat_tables c m = Some u" using assms(3,4) by (simp_all add: FindTable_def)
  have inj: "n = m \<and> k = k2" if "EncodeRowKey (ts_id t) k = EncodeRowKey (ts_id u) k2" for k
  proof -
    have "dec_nat (unat (ts_id t)) = dec_nat (unat (ts_id u)) \<and> k = k2"
      using arg_cong [OF that, of DecodeRowKey] by (simp add: decode_row_key)
    then have "ts_id t = ts_id u \<and> k = k2" by (simp add: dec_nat_inj word_unat_eq_iff)
    with catalog_wf_tables [OF wf t u] show ?thesis by blast
  qed
  have "ts_name t = n" using wf t unfolding catalog_wf_def by blast
  with wf_listed [OF wf t] inj inj [of "CHR ''i'' # dec_nat (unat i) @ colon # v @ colon # pk"] show ?thesis
    by (simp add: EncodeIndexKey_def EncodeRowKey_def)
qed

definition two_tables :: "cat_op list" where
  "two_tables = [CreateTableOp ''a'' [column ''k'' ''TEXT''], RestoreTableV2Op 2 ''b'' [column ''k'' ''TEXT''], AllocateOp ''a'']"

lemma two_tables_found:
  "map_option ts_id (FindTable (fold cat_step two_tables empty_catalog) ''a'') = Some 1"
  "map_option ts_id (FindTable (fold cat_step two_tables empty_catalog) ''b'') = Some 2"
  by code_simp+

theorem catalog_keys_disjoint_witness: "EncodeRowKey 1 ''x'' \<noteq> EncodeRowKey 2 ''x''"
proof -
  let ?c = "fold cat_step two_tables empty_catalog"
  obtain t where t: "FindTable ?c ''a'' = Some t" "ts_id t = 1" using two_tables_found(1) by auto
  obtain u where u: "FindTable ?c ''b'' = Some u" "ts_id u = 2" using two_tables_found(2) by auto
  have "ops_ok two_tables empty_catalog" by code_simp
  from catalog_keys_disjoint [OF this refl t(1) u(1), of "''x''" "''x''"] t(2) u(2) show ?thesis by auto
qed

end
