(* ===== verification/SqlAgg.thy ===== *)
theory SqlAgg
  imports SqlExpr
begin

text \<open>
  Aggregates: \<^verbatim>\<open>sql/eval/agg_engine.cc\<close> and \<^verbatim>\<open>sql/eval/agg_engine.h\<close>. A bucket collects what the rows
  of a group contribute and the aggregate is read off it at the end. The set of distinct values is a
  list without duplicates; only its membership and its size are used. The fields of the bucket that no
  statement sets (the count of rows and the texts of the extreme values) are left out.
\<close>

section \<open>Buckets\<close>

record agg_bucket =
  ab_non_null_count :: int
  ab_sum :: double
  ab_avg_sum :: double
  ab_avg_count :: int
  ab_min_num :: double
  ab_max_num :: double
  ab_has_min :: bool
  ab_has_max :: bool
  ab_distinct :: "string list"
  ab_concat :: "string list"

definition new_bucket :: agg_bucket where
  "new_bucket = \<lparr>ab_non_null_count = 0, ab_sum = zero_double, ab_avg_sum = zero_double, ab_avg_count = 0,
     ab_min_num = zero_double, ab_max_num = zero_double, ab_has_min = False, ab_has_max = False,
     ab_distinct = [], ab_concat = []\<rparr>"

definition agg_FieldVal :: "row_map \<Rightarrow> string \<Rightarrow> string" where
  "agg_FieldVal r col =
     (if col = ''*'' then ''1''
      else let bare = (case after_dot col of None \<Rightarrow> None | Some b \<Rightarrow> r b);
               value = (if col = ''value'' \<or> col = [] then r ''value'' else None);
               key = (if col = ''key'' \<or> col = [] then r ''key'' else None) in
        case first_some (r col) (first_some bare (first_some value key)) of
          Some v \<Rightarrow> v | None \<Rightarrow> [])"

definition NumericOrZero :: "string \<Rightarrow> double" where
  "NumericOrZero v = (if IsRealText v then strtod_val v else zero_double)"

definition DistinctNumericKey :: "string \<Rightarrow> string" where
  "DistinctNumericKey v = fmt_g 17 (NumericOrZero v)"

definition agg_Validate :: "agg_spec \<Rightarrow> status" where
  "agg_Validate a =
     (if ag_func a = ''COUNT'' \<and> ag_distinct a \<and> ag_column a = ''*''
      then Status_InvalidArgument ''COUNT(DISTINCT *) not supported''
      else if ag_func a = ''GROUP_CONCAT'' \<and> ag_distinct a \<and> ag_separator a \<noteq> '',''
      then Status_InvalidArgument ''DISTINCT GROUP_CONCAT with separator''
      else Status_Ok)"

text \<open>Continue unless the aggregate is distinct and has seen the key.\<close>

definition if_fresh :: "bool \<Rightarrow> string \<Rightarrow> (agg_bucket \<Rightarrow> agg_bucket) \<Rightarrow> agg_bucket \<Rightarrow> agg_bucket" where
  "if_fresh d k f b =
     (if \<not> d then f b
      else if k \<in> set (ab_distinct b) then b
      else f (b\<lparr>ab_distinct := ab_distinct b @ [k]\<rparr>))"

definition Accumulate :: "agg_spec \<Rightarrow> row_map \<Rightarrow> agg_bucket \<Rightarrow> agg_bucket" where
  "Accumulate a r b =
     (let v = (if ag_column a = ''*'' then ''1'' else agg_FieldVal r (ag_column a));
          f = ag_func a; d = ag_distinct a; nv = NumericOrZero v in
      if f = ''COUNT'' then
        if ag_column a = ''*'' \<or> v = [] then b
        else if d then if_fresh True v (\<lambda>b. b) b
        else b\<lparr>ab_non_null_count := ab_non_null_count b + 1\<rparr>
      else if f = ''GROUP_CONCAT'' then
        if v = [] then b else if_fresh d v (\<lambda>b. b\<lparr>ab_concat := ab_concat b @ [v]\<rparr>) b
      else if f = ''SUM'' \<or> f = ''TOTAL'' then
        if_fresh d (DistinctNumericKey v) (\<lambda>b. b\<lparr>ab_sum := dadd (ab_sum b) nv\<rparr>) b
      else if f = ''AVG'' then
        if v = [] then b
        else if_fresh d (DistinctNumericKey v)
          (\<lambda>b. b\<lparr>ab_avg_sum := dadd (ab_avg_sum b) nv, ab_avg_count := ab_avg_count b + 1\<rparr>) b
      else if f = ''MIN'' then
        if v = [] then b
        else if_fresh d (DistinctNumericKey v)
          (\<lambda>b. if \<not> ab_has_min b \<or> dlt nv (ab_min_num b)
               then b\<lparr>ab_min_num := nv, ab_has_min := True\<rparr> else b) b
      else if f = ''MAX'' then
        if v = [] then b
        else if_fresh d (DistinctNumericKey v)
          (\<lambda>b. if \<not> ab_has_max b \<or> dlt (ab_max_num b) nv
               then b\<lparr>ab_max_num := nv, ab_has_max := True\<rparr> else b) b
      else b)"

section \<open>Results\<close>

text \<open>A number that is its own floor is written as an integer. A column type is given by its letter;
  \<open>CHR 0x00\<close> stands for none.\<close>

definition whole_or :: "double \<Rightarrow> string \<Rightarrow> string" where
  "whole_or d other = (if deq d (dfloor d) then dec_int (to_int64 d) else other)"

definition type_or :: "char \<Rightarrow> char \<Rightarrow> char" where
  "type_or coltype other = (if coltype = CHR 0x00 then other else coltype)"

fun join_sep :: "string \<Rightarrow> string list \<Rightarrow> string" where
  "join_sep sep [] = []"
| "join_sep sep [x] = x"
| "join_sep sep (x # y # ys) = x @ sep @ join_sep sep (y # ys)"

definition agg_Finalize :: "agg_spec \<Rightarrow> agg_bucket \<Rightarrow> nat \<Rightarrow> char \<Rightarrow> string" where
  "agg_Finalize a b row_count coltype =
     (let f = ag_func a; shown = (\<lambda>d. ToDisplayString (SqlReal d) (type_or coltype CHR ''R'')) in
      if f = ''COUNT'' then
        if ag_distinct a \<and> ag_column a \<noteq> ''*'' then dec_nat (length (ab_distinct b))
        else if ag_column a = ''*'' then dec_nat row_count
        else dec_int (ab_non_null_count b)
      else if f = ''SUM'' \<or> f = ''TOTAL'' then
        let real = ToDisplayString (SqlReal (ab_sum b)) CHR ''R'' in
        if type_or coltype CHR ''I'' = CHR ''R'' then real else whole_or (ab_sum b) real
      else if f = ''AVG'' then
        if ab_avg_count b = 0 then []
        else shown (ddiv (ab_avg_sum b) (of_int64 (ab_avg_count b)))
      else if f = ''MIN'' \<and> ab_has_min b then whole_or (ab_min_num b) (shown (ab_min_num b))
      else if f = ''MAX'' \<and> ab_has_max b then whole_or (ab_max_num b) (shown (ab_max_num b))
      else if f = ''GROUP_CONCAT'' then join_sep (ag_separator a) (ab_concat b)
      else [])"

section \<open>What the aggregates compute\<close>

definition agg_column_values :: "agg_spec \<Rightarrow> row_map list \<Rightarrow> string list" where
  "agg_column_values a rows = filter (\<lambda>v. v \<noteq> []) (map (\<lambda>r. agg_FieldVal r (ag_column a)) rows)"

lemma values_snoc: "agg_column_values a (rows @ [r]) =
    agg_column_values a rows @ (if agg_FieldVal r (ag_column a) = [] then [] else [agg_FieldVal r (ag_column a)])"
  by (simp add: agg_column_values_def)

abbreviation collect :: "agg_spec \<Rightarrow> row_map list \<Rightarrow> agg_bucket" where
  "collect a rows \<equiv> foldl (\<lambda>b r. Accumulate a r b) new_bucket rows"

lemma collect_count:
  "ag_func a = ''COUNT'' \<Longrightarrow> ag_column a \<noteq> ''*'' \<Longrightarrow>
     (if ag_distinct a then distinct (ab_distinct (collect a rows)) \<and>
        set (ab_distinct (collect a rows)) = set (agg_column_values a rows)
      else ab_non_null_count (collect a rows) = int (length (agg_column_values a rows)))"
proof (induction rows rule: rev_induct)
  case (snoc r rows)
  then show ?case
    by (auto simp: values_snoc Accumulate_def if_fresh_def Let_def)
qed (simp add: new_bucket_def agg_column_values_def)

lemma collect_concat:
  "ag_func a = ''GROUP_CONCAT'' \<Longrightarrow> ag_column a \<noteq> ''*'' \<Longrightarrow>
     (if ag_distinct a then ab_distinct (collect a rows) = ab_concat (collect a rows) \<and>
        ab_concat (collect a rows) = rev (remdups (rev (agg_column_values a rows)))
      else ab_concat (collect a rows) = agg_column_values a rows)"
proof (induction rows rule: rev_induct)
  case (snoc r rows)
  then show ?case
    by (auto simp: values_snoc Accumulate_def if_fresh_def Let_def)
qed (simp add: new_bucket_def agg_column_values_def)

text \<open>
  C20. Counting and concatenating over a column: \<open>COUNT\<close> of a column is the number of its values that are
  not empty (the null of this program), \<open>COUNT(DISTINCT)\<close> the number of different ones, \<open>COUNT(*)\<close> the
  number of rows, and \<open>GROUP_CONCAT\<close> joins the values in the order of the rows, each at its first
  occurrence only when it is distinct.
\<close>

theorem count_and_concat:
  assumes "ag_column a \<noteq> ''*''"
  shows "(ag_func a = ''COUNT'' \<longrightarrow> agg_Finalize a (collect a rows) n t =
      dec_nat (if ag_distinct a then card (set (agg_column_values a rows)) else length (agg_column_values a rows))) \<and>
    (ag_func a = ''GROUP_CONCAT'' \<longrightarrow> agg_Finalize a (collect a rows) n t = join_sep (ag_separator a)
      (if ag_distinct a then rev (remdups (rev (agg_column_values a rows))) else agg_column_values a rows)) \<and>
    agg_Finalize (a\<lparr>ag_func := ''COUNT'', ag_column := ''*''\<rparr>) b (length rows) t = dec_nat (length rows)"
  using assms collect_count [of a rows] collect_concat [of a rows]
  by (auto simp: agg_Finalize_def dec_int_def distinct_card [symmetric])

theorem count_and_concat_witness:
  "agg_Finalize (default_agg\<lparr>ag_func := ''COUNT'', ag_column := ''c''\<rparr>)
     (collect (default_agg\<lparr>ag_func := ''COUNT'', ag_column := ''c''\<rparr>) [[''c'' \<mapsto> ''x''], Map.empty]) 2 CHR 0x00 = ''1''"
proof -
  have "dec_nat (Suc 0) = ''1''" by code_simp
  then show ?thesis
    using count_and_concat [of "default_agg\<lparr>ag_func := ''COUNT'', ag_column := ''c''\<rparr>" "[[''c'' \<mapsto> ''x''], Map.empty]" 2 "CHR 0x00" new_bucket]
    by (simp add: default_agg_def agg_column_values_def agg_FieldVal_def after_dot_def find_str_def)
qed

end
