(* ===== verification/StmtClass.thy ===== *)
theory StmtClass
  imports SqlText
begin

text \<open>The classes of statements: \<^verbatim>\<open>sql/parse/core/stmt_classifier.cc\<close>, \<^verbatim>\<open>sql/parse/core/stmt_classifier.h\<close>.\<close>

datatype stmt_class = ClOltp | ClBeginTxn | ClCommit | ClRollback | ClSavepoint | ClWithCte | ClSetOp | ClWindow
  | ClShow | ClSet | ClGrant | ClExplain | ClPrepare | ClExecute | ClPragma | ClCreateView | ClDropView
  | ClCreateTrigger | ClDropTrigger | ClReindex | ClUnknown

definition starts_with_any :: "string \<Rightarrow> string list \<Rightarrow> bool" where
  "starts_with_any u ps = list_ex (StartsWithCI u) ps"

definition contains_any :: "string \<Rightarrow> string list \<Rightarrow> bool" where
  "contains_any u ts = list_ex (contains_str u) ts"

definition ClassifyStatement :: "string \<Rightarrow> stmt_class" where
  "ClassifyStatement sql =
     (let u = Upper (Trim sql) in
      if starts_with_any u [''BEGIN'', ''START TRANSACTION''] then ClBeginTxn
      else if starts_with_any u [''COMMIT''] then ClCommit
      else if starts_with_any u [''ROLLBACK''] then ClRollback
      else if starts_with_any u [''SAVEPOINT'', ''RELEASE SAVEPOINT''] then ClSavepoint
      else if starts_with_any u [''WITH''] then ClWithCte
      else if contains_any u ['' OVER('', '' OVER ('', ''ROW_NUMBER('', ''RANK(''] then ClWindow
      else if contains_any u ['' UNION '', '' INTERSECT '', '' EXCEPT ''] then ClSetOp
      else if starts_with_any u [''SHOW'', ''DESC'', ''DESCRIBE''] then ClShow
      else if starts_with_any u [''SET ''] then ClSet
      else if starts_with_any u [''GRANT'', ''REVOKE''] then ClGrant
      else if starts_with_any u [''EXPLAIN''] then ClExplain
      else if starts_with_any u [''PREPARE''] then ClPrepare
      else if starts_with_any u [''EXECUTE''] then ClExecute
      else if starts_with_any u [''PRAGMA''] then ClPragma
      else if starts_with_any u [''REINDEX''] then ClReindex
      else if starts_with_any u [''CREATE VIEW''] then ClCreateView
      else if starts_with_any u [''CREATE TEMP VIEW'', ''CREATE TEMPORARY VIEW''] then ClCreateView
      else if starts_with_any u [''CREATE TRIGGER''] then ClCreateTrigger
      else if starts_with_any u [''DROP TRIGGER''] then ClDropTrigger
      else if starts_with_any u [''DROP VIEW''] then ClDropView
      else if starts_with_any u [''SELECT'', ''INSERT'', ''UPDATE'', ''DELETE'', ''CREATE'', ''DROP'', ''ALTER'', ''OPEN'']
      then ClOltp
      else ClUnknown)"

definition StmtClassName :: "stmt_class \<Rightarrow> string" where
  "StmtClassName c = (case c of
       ClBeginTxn \<Rightarrow> ''BEGIN'' | ClCommit \<Rightarrow> ''COMMIT'' | ClRollback \<Rightarrow> ''ROLLBACK''
     | ClSavepoint \<Rightarrow> ''SAVEPOINT'' | ClWithCte \<Rightarrow> ''WITH'' | ClSetOp \<Rightarrow> ''SET_OP'' | ClWindow \<Rightarrow> ''WINDOW''
     | ClShow \<Rightarrow> ''SHOW'' | ClSet \<Rightarrow> ''SET'' | ClGrant \<Rightarrow> ''GRANT'' | ClExplain \<Rightarrow> ''EXPLAIN''
     | ClPrepare \<Rightarrow> ''PREPARE'' | ClExecute \<Rightarrow> ''EXECUTE'' | ClPragma \<Rightarrow> ''PRAGMA''
     | ClCreateView \<Rightarrow> ''CREATE_VIEW'' | ClDropView \<Rightarrow> ''DROP_VIEW'' | ClCreateTrigger \<Rightarrow> ''CREATE_TRIGGER''
     | ClDropTrigger \<Rightarrow> ''DROP_TRIGGER'' | ClReindex \<Rightarrow> ''REINDEX'' | ClOltp \<Rightarrow> ''OLTP'' | ClUnknown \<Rightarrow> ''UNKNOWN'')"

end
