(* ===== verification/OpLog.thy ===== *)
theory OpLog
  imports RowCodec EngineConfig Digest
begin

text \<open>
  The operation log of the SQL layer: \<^verbatim>\<open>sql/op_log/op_log_writer.cc\<close>, \<^verbatim>\<open>sql/op_log/op_log_writer.h\<close>. The log is
  a text file of one JSON object a line. What the machine decides is in the arguments: whether the stream can be
  opened, whether a write succeeds, and the time.
\<close>

record op_log =
  ol_path :: string
  ol_open :: bool
  ol_text :: string

record op_entry =
  oe_version :: u32
  oe_op :: string
  oe_key :: string
  oe_value_sha256 :: string
  oe_lsn :: u64
  oe_durable :: bool
  oe_tier :: DurabilityClass
  oe_ts_unix :: int

record log_io =
  li_open :: bool
  li_write :: bool
  li_now :: int

text \<open>The buffer of a new digest may hold anything: the digest does not depend on it.\<close>

definition Sha256HexString :: "string \<Rightarrow> string" where
  "Sha256HexString data = Sha256Hex (replicate 64 0) (bytes_of_str data)"

definition log_quoted :: "string \<Rightarrow> string" where
  "log_quoted s = quote # JsonEscape s @ [quote]"

definition name_of :: "string \<Rightarrow> string" where
  "name_of n = quote # n @ [quote, CHR '':'']"

definition tier_text :: "DurabilityClass \<Rightarrow> string" where
  "tier_text t = log_quoted (case t of KSync \<Rightarrow> ''sync'' | KGroup \<Rightarrow> ''group'' | _ \<Rightarrow> ''balanced'')"

definition newline :: char where "newline = CHR 0x0A"

definition entry_text :: "op_entry \<Rightarrow> string" where
  "entry_text e = ''{'' @ name_of ''v'' @ dec_nat (unat (oe_version e)) @ '',''
     @ name_of ''op'' @ log_quoted (oe_op e) @ '','' @ name_of ''key'' @ log_quoted (oe_key e) @ '',''
     @ name_of ''value_sha256'' @ log_quoted (oe_value_sha256 e) @ '',''
     @ name_of ''lsn'' @ dec_nat (unat (oe_lsn e)) @ '',''
     @ name_of ''durable_at_return'' @ (if oe_durable e then ''true'' else ''false'') @ '',''
     @ name_of ''tier'' @ tier_text (oe_tier e) @ '',''
     @ name_of ''ts_unix'' @ dec_int (oe_ts_unix e) @ ''}'' @ [newline]"

definition AppendEntry :: "log_io \<Rightarrow> op_entry \<Rightarrow> op_log \<Rightarrow> op_log \<times> status" where
  "AppendEntry lio e l =
     (if \<not> ol_open l \<and> \<not> li_open lio then (l, Status_IoError (''cannot open op_log: '' @ ol_path l))
      else let l1 = l\<lparr>ol_open := True\<rparr> in
        if \<not> li_write lio then (l1, Status_IoError ''op_log write failed'')
        else (l1\<lparr>ol_text := ol_text l1 @ entry_text e\<rparr>, Status_Ok))"

definition op_entry_of :: "log_io \<Rightarrow> string \<Rightarrow> string \<Rightarrow> string \<Rightarrow> u64 \<Rightarrow> bool \<Rightarrow> DurabilityClass \<Rightarrow> op_entry"
  where
  "op_entry_of lio op key sha lsn durable tier = \<lparr>oe_version = 1, oe_op = op, oe_key = key,
     oe_value_sha256 = sha, oe_lsn = lsn, oe_durable = durable, oe_tier = tier, oe_ts_unix = li_now lio\<rparr>"

definition AppendPut ::
  "log_io \<Rightarrow> string \<Rightarrow> string \<Rightarrow> u64 \<Rightarrow> bool \<Rightarrow> DurabilityClass \<Rightarrow> op_log \<Rightarrow> op_log \<times> status" where
  "AppendPut lio key sha lsn durable tier = AppendEntry lio (op_entry_of lio ''put'' key sha lsn durable tier)"

definition AppendDelete ::
  "log_io \<Rightarrow> string \<Rightarrow> u64 \<Rightarrow> bool \<Rightarrow> DurabilityClass \<Rightarrow> op_log \<Rightarrow> op_log \<times> status" where
  "AppendDelete lio key lsn durable tier = AppendEntry lio (op_entry_of lio ''delete'' key [] lsn durable tier)"

section \<open>Marking entries durable\<close>

definition not_durable :: string where
  "not_durable = name_of ''durable_at_return'' @ ''false''"

definition now_durable :: string where
  "now_durable = name_of ''durable_at_return'' @ ''true''"

text \<open>Every occurrence is replaced; the search goes on 26 characters after the start of the last one, which is
  two characters after the shorter replacement.\<close>

function mark_line :: "string \<Rightarrow> string" where
  "mark_line s = (case find_str s not_durable 0 of
     None \<Rightarrow> s
   | Some i \<Rightarrow> (let r = drop (i + 25) s in take i s @ now_durable @ take 2 r @ mark_line (drop 2 r)))"
  by pat_completeness auto
termination
proof (relation "measure length")
  fix s i x
  assume "find_str s not_durable 0 = Some i" and x: "x = drop (i + 25) s"
  then have "s \<noteq> []" by (cases s) (auto simp: find_str_def not_durable_def name_of_def)
  with x show "(drop 2 x, s) \<in> measure length" by simp
qed simp

declare mark_line.simps [simp del]

definition line_lsn :: "string \<Rightarrow> nat \<Rightarrow> u64" where
  "line_lsn line pos = (case stoul (drop (pos + 6) line) of Some n \<Rightarrow> n | None \<Rightarrow> 0)"

definition mark_entry :: "u64 \<Rightarrow> string \<Rightarrow> string" where
  "mark_entry lsn line =
     (case (find_str line (name_of ''lsn'') 0, find_str line not_durable 0) of
        (Some pos, Some _) \<Rightarrow> if line_lsn line pos \<le> lsn then mark_line line else line
      | _ \<Rightarrow> line)"

text \<open>The lines of a text that are not empty.\<close>

function text_lines :: "string \<Rightarrow> string list" where
  "text_lines s = (if s = [] then []
     else let l = takeWhile (\<lambda>c. c \<noteq> newline) s; r = text_lines (tl (dropWhile (\<lambda>c. c \<noteq> newline) s)) in
       if l = [] then r else l # r)"
  by pat_completeness auto
termination
proof (relation "measure length")
  fix s :: string
  assume s: "s \<noteq> []"
  have "length (tl (dropWhile (\<lambda>c. c \<noteq> newline) s)) \<le> length (dropWhile (\<lambda>c. c \<noteq> newline) s) - 1" by simp
  moreover have "length (dropWhile (\<lambda>c. c \<noteq> newline) s) \<le> length s" by (rule length_dropWhile_le)
  ultimately show "(tl (dropWhile (\<lambda>c. c \<noteq> newline) s), s) \<in> measure length"
    using s by (cases s) auto
qed simp

declare text_lines.simps [simp del]

text \<open>\<open>exists\<close> tells whether the file can be read; when it cannot, nothing is marked and the stream stays
  closed.\<close>

definition MarkDurableThroughLsn :: "bool \<Rightarrow> log_io \<Rightarrow> u64 \<Rightarrow> op_log \<Rightarrow> op_log \<times> status" where
  "MarkDurableThroughLsn exists lio lsn l =
     (if \<not> exists then (l\<lparr>ol_open := False\<rparr>, Status_Ok)
      else if \<not> li_write lio
      then (l\<lparr>ol_open := False\<rparr>, Status_IoError (''cannot rewrite op_log: '' @ ol_path l))
      else (l\<lparr>ol_open := li_open lio,
              ol_text := concat (map (\<lambda>t. mark_entry lsn t @ [newline]) (text_lines (ol_text l)))\<rparr>, Status_Ok))"

end
