(* ===== verification/SqlDml.thy ===== *)
theory SqlDml
  imports SqlScan OpLog CatalogStore
begin

text \<open>
  The executors of single tables: \<^verbatim>\<open>sql/exec/executor.cc\<close>, \<^verbatim>\<open>sql/exec/executor_v2.cc\<close> and
  \<^verbatim>\<open>sql/exec/dml_executor.cc\<close>. A run takes the state of a database (catalog, transaction, engine, operation log
  and the saved catalog) and returns it with an error or a result; it is \<open>None\<close> when a shard does not return. What
  an executor is given by its surroundings is in the record \<open>sql_env\<close>: the iteration order of hash maps, the
  parser of check constraints, and the answers of the subquery runner, whose last error after the \<open>i\<close>-th tested
  row is \<open>qv_sub_error i\<close>.
\<close>

section \<open>Runs\<close>

record db =
  db_cat :: catalog
  db_ses :: session
  db_log :: "op_log option"
  db_saved :: "string option"

record sql_env =
  qv_io :: engine_io
  qv_log :: log_io
  qv_tier :: DurabilityClass
  qv_store :: "(string \<times> bool) option"
  qv_iter :: "row_map \<Rightarrow> string list"
  qv_parse :: "string \<Rightarrow> expr option"
  qv_sub :: "expr \<Rightarrow> row_map \<Rightarrow> truth"
  qv_sub_error :: "nat \<Rightarrow> status"
  qv_touched :: nat

type_synonym 'a run = "db \<Rightarrow> (db \<times> 'a res) option"

type_synonym out_rows = "(string \<times> string) list"

definition ret :: "'a \<Rightarrow> 'a run" where
  "ret x d = Some (d, Inr x)"

definition fail :: "status \<Rightarrow> 'a run" where
  "fail st d = Some (d, Inl st)"

definition seq :: "'a run \<Rightarrow> ('a \<Rightarrow> 'b run) \<Rightarrow> 'b run" where
  "seq m f d = Option.bind (m d) (\<lambda>(d1, r). case r of Inl st \<Rightarrow> Some (d1, Inl st) | Inr x \<Rightarrow> f x d1)"

definition need :: "status \<Rightarrow> 'a run \<Rightarrow> 'a run" where
  "need st m d = (if status_ok st then m d else Some (d, Inl st))"

definition result :: "'a res \<Rightarrow> 'a run" where
  "result r d = Some (d, r)"

fun each :: "('a \<Rightarrow> unit run) \<Rightarrow> 'a list \<Rightarrow> unit run" where
  "each f [] = ret ()"
| "each f (x # xs) = seq (f x) (\<lambda>_. each f xs)"

definition with_catalog :: "(catalog \<Rightarrow> 'a run) \<Rightarrow> 'a run" where
  "with_catalog f d = f (db_cat d) d"

definition change_catalog :: "(catalog \<Rightarrow> catalog res) \<Rightarrow> unit run" where
  "change_catalog f d = (case f (db_cat d) of Inl st \<Rightarrow> Some (d, Inl st) | Inr c \<Rightarrow> Some (d\<lparr>db_cat := c\<rparr>, Inr ()))"

definition on_session :: "(session \<Rightarrow> (session \<times> 'a res) option) \<Rightarrow> 'a run" where
  "on_session f d = map_option (\<lambda>(s, r). (d\<lparr>db_ses := s\<rparr>, r)) (f (db_ses d))"

text \<open>Recording in the transaction, which does not fail.\<close>

definition note_txn :: "(txn_state \<Rightarrow> engine \<Rightarrow> session option) \<Rightarrow> unit run" where
  "note_txn f d = map_option (\<lambda>s. (d\<lparr>db_ses := s\<rparr>, Inr ())) (f (fst (db_ses d)) (snd (db_ses d)))"

definition on_engine :: "(engine \<Rightarrow> (engine \<times> status) option) \<Rightarrow> unit run" where
  "on_engine f d = map_option (\<lambda>(e, st). (d\<lparr>db_ses := (fst (db_ses d), e)\<rparr>,
     if status_ok st then Inr () else Inl st)) (f (snd (db_ses d)))"

definition the_txn :: "db \<Rightarrow> u32" where
  "the_txn d = (if tx_active (fst (db_ses d)) then tx_id (fst (db_ses d)) else 0)"

text \<open>A read whose failure is an answer.\<close>

definition read_key :: "sql_env \<Rightarrow> string \<Rightarrow> string res run" where
  "read_key ev key = on_session (\<lambda>s. map_option (\<lambda>(s1, r). (s1, Inr r)) (EngineGet (qv_io ev) key s))"

definition put_key :: "sql_env \<Rightarrow> string \<Rightarrow> string \<Rightarrow> unit run" where
  "put_key ev key val d =
     on_engine (Engine_Put (qv_io ev) (bytes_of_str key) (bytes_of_str val) (the_txn d)) d"

definition sync_index :: "sql_env \<Rightarrow> table_schema \<Rightarrow> string \<Rightarrow> row_map \<Rightarrow> bool \<Rightarrow> u32 \<Rightarrow> unit run" where
  "sync_index ev t pk row remove txn_id d =
     on_engine (SyncIndexEntries (qv_io ev) (db_cat d) t pk row remove txn_id) d"

definition sync_index_txn :: "sql_env \<Rightarrow> table_schema \<Rightarrow> string \<Rightarrow> row_map \<Rightarrow> unit run" where
  "sync_index_txn ev t pk row d = sync_index ev t pk row False (the_txn d) d"

definition DurableAtReturn :: "sql_env \<Rightarrow> bool" where
  "DurableAtReturn ev \<longleftrightarrow> qv_tier ev = KSync \<or> qv_tier ev = KBalancedClass"

definition on_log :: "(op_log \<Rightarrow> op_log \<times> status) \<Rightarrow> unit run" where
  "on_log f d = (case db_log d of
     None \<Rightarrow> Some (d, Inr ())
   | Some l \<Rightarrow> (let (l1, st) = f l in Some (d\<lparr>db_log := Some l1\<rparr>, if status_ok st then Inr () else Inl st)))"

definition log_put :: "sql_env \<Rightarrow> string \<Rightarrow> string \<Rightarrow> unit run" where
  "log_put ev key stored d = on_log (AppendPut (qv_log ev) key (Sha256HexString stored)
     (Engine_stable_lsn (snd (db_ses d))) (DurableAtReturn ev) (qv_tier ev)) d"

definition log_delete :: "sql_env \<Rightarrow> string \<Rightarrow> unit run" where
  "log_delete ev key d = on_log (AppendDelete (qv_log ev) key
     (Engine_stable_lsn (snd (db_ses d))) (DurableAtReturn ev) (qv_tier ev)) d"

definition SaveCatalog :: "sql_env \<Rightarrow> unit run" where
  "SaveCatalog ev d = (case qv_store ev of
     None \<Rightarrow> Some (d, Inr ())
   | Some (path, can_open) \<Rightarrow> (case CatalogStore_Save can_open path (db_cat d) of
         Inl st \<Rightarrow> Some (d, Inl st)
       | Inr text \<Rightarrow> Some (d\<lparr>db_saved := Some text\<rparr>, Inr ())))"

text \<open>An error with another message around it.\<close>

definition wrap_error :: "string \<Rightarrow> 'a run \<Rightarrow> 'a run" where
  "wrap_error msg m d = map_option (\<lambda>(d1, r). (d1, case r of
     Inl st \<Rightarrow> Inl (Status_Internal (msg @ st_message st)) | Inr x \<Rightarrow> Inr x)) (m d)"

definition unknown_table :: "string \<Rightarrow> status" where
  "unknown_table name = Status_InvalidArgument (''unknown table: '' @ name)"

definition find_table :: "string \<Rightarrow> status \<Rightarrow> (table_schema \<Rightarrow> 'a run) \<Rightarrow> 'a run" where
  "find_table name err f d = (case FindTable (db_cat d) name of None \<Rightarrow> Some (d, Inl err) | Some t \<Rightarrow> f t d)"

definition table_env :: "sql_env \<Rightarrow> table_schema \<Rightarrow> eval_env" where
  "table_env ev t = \<lparr>ev_table = Some t, ev_subquery = Some (qv_sub ev)\<rparr>"

text \<open>The key of a row as its table knows it, and a row decoded with the two columns of a plain table when it has
  no fields.\<close>

definition user_key :: "string \<Rightarrow> string" where
  "user_key encoded = (case DecodeRowKey encoded of Some (_, k) \<Rightarrow> k | None \<Rightarrow> encoded)"

definition no_fields :: "sql_env \<Rightarrow> row_map \<Rightarrow> bool" where
  "no_fields ev row \<longleftrightarrow> qv_iter ev row = []"

definition field_or :: "row_map \<Rightarrow> string \<Rightarrow> string \<Rightarrow> string" where
  "field_or row col other = (case row col of Some v \<Rightarrow> v | None \<Rightarrow> other)"

section \<open>Insertion\<close>

fun assign_all :: "string list \<Rightarrow> string list \<Rightarrow> row_map \<Rightarrow> row_map" where
  "assign_all (c # cs) (v # vs) row = assign_all cs vs (row(c \<mapsto> v))"
| "assign_all _ _ row = row"

definition BuildInsertFields :: "sql_env \<Rightarrow> table_schema \<Rightarrow> insert_stmt \<Rightarrow> (row_map \<times> string) run" where
  "BuildInsertFields ev t stmt d =
     (let names = (if in_column_names stmt = [] then map cd_name (ts_columns t) else in_column_names stmt) in
      if in_values stmt \<noteq> [] \<and> length (in_values stmt) \<noteq> length names
      then fail (Status_InvalidArgument ''INSERT value count mismatch'') d
      else let row = (if in_values stmt \<noteq> [] then assign_all names (in_values stmt) Map.empty
            else [ts_key_column t \<mapsto> in_key stmt, ts_value_column t \<mapsto> in_value stmt])
        in case find (\<lambda>c. cd_primary_key c \<and> row (cd_name c) \<noteq> None) (ts_columns t) of
          Some c \<Rightarrow> ret (row, the (row (cd_name c))) d
        | None \<Rightarrow>
            if ts_implicit_rowid t
            then (case AllocateRowKey (ts_name t) (db_cat d) of
                Inl st \<Rightarrow> fail st d
              | Inr (k, c) \<Rightarrow> Some (d\<lparr>db_cat := c\<rparr>, Inr (row, k)))
            else (case row (ts_key_column t) of
                Some k \<Rightarrow> ret (row, k) d
              | None \<Rightarrow> (case qv_iter ev row of
                    n # _ \<Rightarrow> ret (row, field_or row n []) d
                  | [] \<Rightarrow> fail (Status_InvalidArgument ''INSERT missing row key'') d)))"

definition insert_stored :: "sql_env \<Rightarrow> table_schema \<Rightarrow> insert_stmt \<Rightarrow> row_map \<Rightarrow> string res" where
  "insert_stored ev t stmt row =
     (if 2 \<le> ts_schema_version t
      then let st = ValidateRowConstraints (qv_parse ev) t row in
        if status_ok st then Inr (EncodeRow (ts_columns t) (ts_schema_version t) row) else Inl st
      else Inr (field_or row (ts_value_column t) (in_value stmt)))"

text \<open>The fields whose values go into the indexes.\<close>

definition indexed_fields :: "table_schema \<Rightarrow> string \<Rightarrow> row_map \<Rightarrow> row_map" where
  "indexed_fields t stored row = (if 2 \<le> ts_schema_version t then snd (DecodeRowFields stored) else row)"

definition store_row :: "sql_env \<Rightarrow> table_schema \<Rightarrow> string \<Rightarrow> string \<Rightarrow> string \<Rightarrow> row_map \<Rightarrow> unit run" where
  "store_row ev t encoded row_key stored row =
     seq (note_txn (RecordWriteIntent (qv_io ev) (bytes_of_str encoded))) (\<lambda>_.
     seq (note_txn (RecordBeforePut (qv_io ev) (bytes_of_str encoded))) (\<lambda>_.
     seq (wrap_error ''engine put failed: '' (put_key ev encoded stored)) (\<lambda>_.
     seq (sync_index_txn ev t row_key (indexed_fields t stored row)) (\<lambda>_.
     wrap_error ''op_log append failed: '' (log_put ev encoded stored)))))"

definition ExecInsert :: "sql_env \<Rightarrow> insert_stmt \<Rightarrow> unit run" where
  "ExecInsert ev stmt =
     with_catalog (\<lambda>c. if FindView c (in_table stmt) \<noteq> None
       then fail (Status_InvalidArgument ''cannot modify view'')
       else find_table (in_table stmt) (unknown_table (in_table stmt)) (\<lambda>t.
         seq (BuildInsertFields ev t stmt) (\<lambda>(row, row_key).
           let encoded = EncodeRowKey (ts_id t) row_key;
               store = seq (result (insert_stored ev t stmt row)) (\<lambda>stored.
                 store_row ev t encoded row_key stored row)
           in if in_conflict_action stmt = [] then store
              else seq (read_key ev encoded) (\<lambda>existing.
                if isl existing then store
                else if in_conflict_action stmt = ''IGNORE'' then ret ()
                else fail (Status_InvalidArgument (''UNIQUE constraint failed: '' @ in_table stmt))))))"

section \<open>Plain selection\<close>

definition decode_value :: "table_schema \<Rightarrow> string \<Rightarrow> string" where
  "decode_value t raw =
     (if 2 \<le> ts_schema_version t then field_or (snd (DecodeRowFields raw)) (ts_value_column t) raw else raw)"

text \<open>This executor scans without noting what it read.\<close>

definition base_EngineScan :: "engine_io \<Rightarrow> typed_plan \<Rightarrow> session \<Rightarrow> (session \<times> text_rows res) option" where
  "base_EngineScan io plan s = map_option (\<lambda>(e1, r). (case r of
       Inl err \<Rightarrow> ((fst s, e1), Inl err)
     | Inr rs \<Rightarrow> (register_range plan (fst s, e1), Inr (str_rows rs))))
     (TxnScan io plan (fst s) (snd s))"

definition prepare :: "sql_env \<Rightarrow> typed_plan \<Rightarrow> unit run" where
  "prepare ev plan = on_engine (\<lambda>e. Some (Engine_Prepare (qv_io ev) plan e))"

definition ExecSelectPlain :: "sql_env \<Rightarrow> select_stmt \<Rightarrow> out_rows run" where
  "ExecSelectPlain ev stmt =
     find_table (ss_table stmt) (unknown_table (ss_table stmt)) (\<lambda>t.
       if ss_key stmt = [] then
         seq (prepare ev (table_range (ts_id t))) (\<lambda>_.
         seq (on_session (base_EngineScan (qv_io ev) (table_range (ts_id t)))) (\<lambda>rs.
         need (CheckMicPagesBudget (qv_touched ev) (ss_max_pages stmt))
           (need (CheckMicRowBudget (length rs) (ss_max_pages stmt))
             (ret (map (\<lambda>kv. (user_key (fst kv), decode_value t (snd kv)))
               (filter (\<lambda>kv. \<not> IsIndexEncodedKey (fst kv)) rs))))))
       else
         let encoded = EncodeRowKey (ts_id t) (ss_key stmt) in
         seq (prepare ev \<lparr>tp_op = KEq, tp_key = bytes_of_str encoded, tp_range_end = [], tp_snapshot_lsn = 0\<rparr>) (\<lambda>_.
         seq (read_key ev encoded) (\<lambda>r. case r of
             Inl st \<Rightarrow> if st_code st = KNotFound then ret [] else fail st
           | Inr v \<Rightarrow> need (CheckMicPagesBudget (qv_touched ev) (ss_max_pages stmt))
               (ret [(ss_key stmt, decode_value t v)]))))"

definition ExecCreateTable :: "create_table_stmt \<Rightarrow> unit run" where
  "ExecCreateTable stmt = change_catalog (\<lambda>c. map_sum id fst
     (if ct_columns stmt \<noteq> [] then CreateTable (ct_table stmt) (ct_columns stmt) c
      else CreateTableKV (ct_table stmt) (ct_key_column stmt) (ct_value_column stmt) c))"

section \<open>Updates\<close>

definition update_assignments :: "update_stmt \<Rightarrow> (string \<times> expr) list" where
  "update_assignments u = (if ud_assignments u \<noteq> [] then ud_assignments u
     else [(ud_set_col u, case ud_set_expr u of Some e \<Rightarrow> CloneExpr e | None \<Rightarrow> MakeLiteral (ud_set_value u))])"

definition TableHasColumn :: "table_schema \<Rightarrow> string \<Rightarrow> bool" where
  "TableHasColumn t col = list_ex (\<lambda>c. cd_name c = col) (ts_columns t)"

definition ResolveSetValue :: "sql_env \<Rightarrow> expr \<Rightarrow> row_map \<Rightarrow> table_schema \<Rightarrow> string" where
  "ResolveSetValue ev e row t = EvalScalar (table_env ev t) row e"

fun assign_stored :: "sql_env \<Rightarrow> table_schema \<Rightarrow> (string \<times> expr) list \<Rightarrow> string \<Rightarrow> row_map
    \<Rightarrow> (string \<times> row_map) res" where
  "assign_stored ev t [] stored working = Inr (stored, working)"
| "assign_stored ev t ((col, e) # as) stored working =
     (let v = ResolveSetValue ev e working t in
      if 2 \<le> ts_schema_version t
      then (case UpdateRowFields (qv_iter ev) stored col v of
          Inl st \<Rightarrow> Inl st
        | Inr stored' \<Rightarrow> assign_stored ev t as stored' (working(col \<mapsto> v)))
      else assign_stored ev t as (if col = ts_value_column t then v else stored) (working(col \<mapsto> v)))"

definition scanned_fields :: "table_schema \<Rightarrow> string \<Rightarrow> string \<Rightarrow> row_map" where
  "scanned_fields t key raw =
     (let f0 = (if 2 \<le> ts_schema_version t then snd (DecodeRowFields raw) else Map.empty);
          f1 = (if f0 (ts_key_column t) = None then f0(ts_key_column t \<mapsto> key) else f0)
      in if f1 (ts_value_column t) = None then f1(ts_value_column t \<mapsto> raw) else f1)"

definition update_row :: "sql_env \<Rightarrow> table_schema \<Rightarrow> (string \<times> expr) list \<Rightarrow> expr option
    \<Rightarrow> nat \<times> string \<times> string \<Rightarrow> unit run" where
  "update_row ev t assignments w row =
     (let (i, k, raw) = row; key = user_key k; row_fields = scanned_fields t key raw in
      if (case w of Some e \<Rightarrow> \<not> EvalBool (table_env ev t) row_fields e | None \<Rightarrow> False)
      then need (qv_sub_error ev i) (ret ())
      else seq (result (assign_stored ev t assignments raw row_fields)) (\<lambda>(stored, working).
        need (ValidateRowConstraintsWithEval (qv_parse ev) (table_env ev t) t working)
       (seq (note_txn (RecordBeforePut (qv_io ev) (bytes_of_str k))) (\<lambda>_.
        seq (note_txn (RecordWriteIntent (qv_io ev) (bytes_of_str k))) (\<lambda>_.
        seq (put_key ev k stored) (\<lambda>_.
          let decoded = snd (DecodeRowFields stored);
              ix_fields = (if no_fields ev decoded then working else decoded) in
        seq (sync_index_txn ev t key ix_fields) (\<lambda>_. log_put ev k stored)))))))"

fun assign_point :: "sql_env \<Rightarrow> table_schema \<Rightarrow> string \<Rightarrow> (string \<times> expr) list \<Rightarrow> string \<Rightarrow> row_map
    \<Rightarrow> (string \<times> row_map) res" where
  "assign_point ev t key [] stored working = Inr (stored, working)"
| "assign_point ev t key ((col, e) # as) stored working =
     (let v = ResolveSetValue ev e working t in
      if 2 \<le> ts_schema_version t
      then (case (if stored = []
            then Inr (EncodeRow (ts_columns t) (ts_schema_version t) [ts_key_column t \<mapsto> key, col \<mapsto> v])
            else UpdateRowFields (qv_iter ev) stored col v) of
          Inl st \<Rightarrow> Inl st
        | Inr stored' \<Rightarrow> assign_point ev t key as stored' (working(col \<mapsto> v)))
      else if col \<noteq> ts_value_column t
      then Inl (Status_InvalidArgument ''legacy table supports value column only'')
      else assign_point ev t key as v (working(col \<mapsto> v)))"

definition update_point :: "sql_env \<Rightarrow> table_schema \<Rightarrow> (string \<times> expr) list \<Rightarrow> string \<Rightarrow> unit run" where
  "update_point ev t assignments key =
     (let encoded = EncodeRowKey (ts_id t) key in
      seq (if 2 \<le> ts_schema_version t
           then seq (read_key ev encoded) (\<lambda>r. case r of
               Inr v \<Rightarrow> ret v
             | Inl st \<Rightarrow> if st_code st = KNotFound then ret [] else fail st)
           else ret []) (\<lambda>stored0.
      seq (note_txn (RecordWriteIntent (qv_io ev) (bytes_of_str encoded))) (\<lambda>_.
      seq (result (assign_point ev t key assignments stored0 [ts_key_column t \<mapsto> key])) (\<lambda>(stored, working).
      need (ValidateRowConstraintsWithEval (qv_parse ev) (plain_env\<lparr>ev_table := Some t\<rparr>) t working)
     (seq (note_txn (RecordBeforePut (qv_io ev) (bytes_of_str encoded))) (\<lambda>_.
      seq (put_key ev encoded stored) (\<lambda>_.
      seq (sync_index_txn ev t key (indexed_fields t stored working)) (\<lambda>_.
        log_put ev encoded stored))))))))"

definition enumerate_rows :: "text_rows \<Rightarrow> (nat \<times> string \<times> string) list" where
  "enumerate_rows rs = enumerate 0 rs"

definition ExecUpdate :: "sql_env \<Rightarrow> update_stmt \<Rightarrow> unit run" where
  "ExecUpdate ev u =
     with_catalog (\<lambda>c. if FindView c (ud_table u) \<noteq> None
       then fail (Status_InvalidArgument ''cannot modify view'')
       else find_table (ud_table u) (unknown_table (ud_table u)) (\<lambda>t.
         let assignments = update_assignments u in
         case find (\<lambda>a. \<not> TableHasColumn t (fst a)) assignments of
           Some a \<Rightarrow> fail (Status_InvalidArgument (''unknown column: '' @ fst a))
         | None \<Rightarrow>
             (let point = ud_where_col u = Some (ts_key_column t) \<and> ud_where_value u \<noteq> None \<and> \<not> ts_implicit_rowid t;
                  use_scan = (\<not> point \<and> (ud_where_expr u \<noteq> None \<or> ud_where_col u = None \<or> ts_implicit_rowid t
                    \<or> ud_where_col u \<noteq> Some (ts_key_column t))) in
              if use_scan then
                seq (on_session (ScanTable (qv_io ev) t)) (\<lambda>rs.
                  each (update_row ev t assignments (ud_where_expr u)) (enumerate_rows rs))
              else case (ud_where_col u, ud_where_value u) of
                (Some _, Some key) \<Rightarrow> update_point ev t assignments key
              | _ \<Rightarrow> fail (Status_InvalidArgument (''UPDATE requires WHERE key = '' @ CHR 0x27 # ''...'' @ [CHR 0x27])))))"

end
