(* ===== verification/SqlExec.thy ===== *)
theory SqlExec
  imports SqlDml
begin

text \<open>
  Statements over one table and two: \<^verbatim>\<open>sql/exec/executor_v2.cc\<close>. Its scans for \<open>CREATE INDEX\<close>,
  \<open>DROP INDEX\<close> and \<open>INSERT SELECT\<close> read the engine outside the transaction.
\<close>

section \<open>Indexes\<close>

definition plain_scan :: "sql_env \<Rightarrow> typed_plan \<Rightarrow> text_rows run" where
  "plain_scan ev plan = seq (prepare ev plan) (\<lambda>_. on_session (\<lambda>s.
     map_option (\<lambda>(e1, r). ((fst s, e1), map_sum id str_rows r)) (Engine_Scan (qv_io ev) plan (snd s))))"

text \<open>A row without fields of its own has its key and its text.\<close>

definition fields_or_pair :: "sql_env \<Rightarrow> table_schema \<Rightarrow> string \<Rightarrow> string \<Rightarrow> row_map" where
  "fields_or_pair ev t pk raw =
     (let row = snd (DecodeRowFields raw) in
      if no_fields ev row then [ts_key_column t \<mapsto> pk, ts_value_column t \<mapsto> raw] else row)"

definition ExecCreateIndex :: "sql_env \<Rightarrow> create_index_stmt \<Rightarrow> unit run" where
  "ExecCreateIndex ev ci =
     find_table (ci_table ci) (unknown_table (ci_table ci)) (\<lambda>t.
       seq (change_catalog (\<lambda>c. map_sum id fst
         (CreateIndex (ci_name ci) (ci_table ci) (ci_columns ci) (ci_unique ci) c))) (\<lambda>_.
       seq (plain_scan ev (table_range (ts_id t))) (\<lambda>rs.
       seq (each (\<lambda>kv. case DecodeRowKey (fst kv) of
             None \<Rightarrow> ret ()
           | Some (_, pk) \<Rightarrow> sync_index ev t pk (fields_or_pair ev t pk (snd kv)) False 0) rs) (\<lambda>_.
       SaveCatalog ev))))"

definition delete_entry :: "sql_env \<Rightarrow> string \<times> string \<Rightarrow> unit run" where
  "delete_entry ev kv = on_engine (\<lambda>e. map_option (\<lambda>(e1, st).
     (e1, if st_code st = KNotFound then Status_Ok else st)) (Engine_Delete (qv_io ev) (bytes_of_str (fst kv)) 0 e))"

definition ExecDropIndex :: "sql_env \<Rightarrow> string \<Rightarrow> unit run" where
  "ExecDropIndex ev name =
     with_catalog (\<lambda>c. case FindIndex c name of
         None \<Rightarrow> fail (Status_InvalidArgument (''unknown index: '' @ name))
       | Some i \<Rightarrow>
           find_table (ix_table i) (Status_InvalidArgument ''unknown table for index'') (\<lambda>t.
             seq (plain_scan ev (key_range_plan (index_base t i) (index_base t i @ [CHR 0xFF]))) (\<lambda>rs.
             seq (each (delete_entry ev) rs) (\<lambda>_.
             seq (change_catalog (DropIndex name)) (\<lambda>_. SaveCatalog ev)))))"

section \<open>Deletion\<close>

definition ExecDelete :: "sql_env \<Rightarrow> delete_stmt \<Rightarrow> unit run" where
  "ExecDelete ev dl =
     with_catalog (\<lambda>c. if FindView c (dl_table dl) \<noteq> None
       then fail (Status_InvalidArgument ''cannot modify view'')
       else find_table (dl_table dl) (unknown_table (dl_table dl)) (\<lambda>t. case dl_where_value dl of
           None \<Rightarrow> fail (Status_InvalidArgument ''DELETE requires WHERE'')
         | Some key \<Rightarrow>
             let encoded = EncodeRowKey (ts_id t) key in
             seq (note_txn (RecordWriteIntent (qv_io ev) (bytes_of_str encoded))) (\<lambda>_.
             seq (note_txn (RecordBeforeDelete (qv_io ev) (bytes_of_str encoded))) (\<lambda>_.
             seq (read_key ev encoded) (\<lambda>r.
               let row = (case r of Inr v \<Rightarrow> snd (DecodeRowFields v) | Inl _ \<Rightarrow> Map.empty) in
             seq (\<lambda>d. on_engine (Engine_Delete (qv_io ev) (bytes_of_str encoded) (the_txn d)) d) (\<lambda>_.
             seq (if no_fields ev row then ret () else sync_index ev t key row True 0) (\<lambda>_.
             log_delete ev encoded)))))))"

section \<open>Selection by an index\<close>

definition fetch_entry :: "sql_env \<Rightarrow> table_schema \<Rightarrow> string \<times> string \<Rightarrow> out_rows run" where
  "fetch_entry ev t kv =
     (let pk = index_pk kv in
      seq (read_key ev (EncodeRowKey (ts_id t) pk)) (\<lambda>r. case r of
          Inl _ \<Rightarrow> ret []
        | Inr raw \<Rightarrow> ret [(pk, field_or (snd (DecodeRowFields raw)) (ts_value_column t) raw)]))"

fun collect_rows :: "('a \<Rightarrow> out_rows run) \<Rightarrow> 'a list \<Rightarrow> out_rows run" where
  "collect_rows f [] = ret []"
| "collect_rows f (x # xs) = seq (f x) (\<lambda>r. seq (collect_rows f xs) (\<lambda>rs. ret (r @ rs)))"

text \<open>An equality of a column with a literal, where the column is taken as it is written.\<close>

definition plain_eq :: "expr \<Rightarrow> (string \<times> string) option" where
  "plain_eq w = (if en_kind w \<noteq> EBinary \<or> en_op w \<noteq> OpEq then None
     else case en_children w of
       [a, b] \<Rightarrow> if en_kind a \<noteq> EColumn \<or> en_kind b \<noteq> ELiteral then None else Some (en_column a, en_literal b)
     | _ \<Rightarrow> None)"

text \<open>\<open>None\<close> stands for a statement that was not handled.\<close>

definition TryExecIndexScanSelect :: "sql_env \<Rightarrow> query_stmt \<Rightarrow> out_rows option run" where
  "TryExecIndexScanSelect ev stmt =
     (case Option.bind (qs_select_rich stmt) q_where of
        None \<Rightarrow> ret None
      | Some w \<Rightarrow> (case plain_eq w of
          None \<Rightarrow> ret None
        | Some (col, val) \<Rightarrow>
            find_table (q_from_table (the (qs_select_rich stmt))) (Status_InvalidArgument ''unknown table'') (\<lambda>t.
            with_catalog (\<lambda>c. case FindLeadingIndex c (ts_name t) col of
                None \<Rightarrow> ret None
              | Some i \<Rightarrow>
                  let p = index_base t i @ val @ [colon]; plan = key_range_plan p (p @ [CHR 0xFF]) in
                  seq (prepare ev plan) (\<lambda>_.
                  seq (on_session (\<lambda>s. map_option (\<lambda>(e1, r). ((fst s, e1), map_sum id str_rows r))
                    (TxnScan (qv_io ev) plan (fst s) (snd s)))) (\<lambda>entries.
                  seq (collect_rows (fetch_entry ev t) entries) (\<lambda>rs.
                  need (CheckMicPagesBudget (qv_touched ev) (q_max_pages (the (qs_select_rich stmt))))
                    (ret (Some rs)))))))))"

section \<open>Joins and insertion from a query\<close>

definition ExecSelectJoin :: "sql_env \<Rightarrow> query_stmt \<Rightarrow> out_rows run" where
  "ExecSelectJoin ev stmt =
     (case qs_joins stmt of
        [] \<Rightarrow> ExecSelectPlain ev (qs_select stmt)
      | j # _ \<Rightarrow>
          find_table (ss_table (qs_select stmt)) (unknown_table (ss_table (qs_select stmt))) (\<lambda>_.
          find_table (jc_table j) (unknown_table (jc_table j)) (\<lambda>_.
          seq (ExecSelectPlain ev ((qs_select stmt)\<lparr>ss_key := []\<rparr>)) (\<lambda>ls.
          seq (ExecSelectPlain ev \<lparr>ss_table = jc_table j, ss_key = [], ss_max_pages = None\<rparr>) (\<lambda>rs.
            ret [(lk, lv @ ''|'' @ rv). (lk, lv) \<leftarrow> ls, (rk, rv) \<leftarrow> rs, lk = rk])))))"

text \<open>The words of a text, as a stream reads them.\<close>

function stream_words :: "string \<Rightarrow> string list" where
  "stream_words s = (let t = dropWhile is_space s in
     if t = [] then []
     else takeWhile (\<lambda>c. \<not> is_space c) t # stream_words (dropWhile (\<lambda>c. \<not> is_space c) t))"
  by pat_completeness auto
termination
proof (relation "measure length")
  fix s t
  assume t: "t = dropWhile is_space s" "t \<noteq> []"
  then have "\<not> is_space (hd t)" using hd_dropWhile [of is_space s] by simp
  with t(2) have "length (dropWhile (\<lambda>c. \<not> is_space c) t) < length t"
    using length_dropWhile_le [of "\<lambda>c. \<not> is_space c" "tl t"] by (cases t) auto
  also have "\<dots> \<le> length s" using t(1) by (simp add: length_dropWhile_le)
  finally show "(dropWhile (\<lambda>c. \<not> is_space c) t, s) \<in> measure length" by simp
qed simp

declare stream_words.simps [simp del]

definition insert_copy :: "sql_env \<Rightarrow> insert_stmt \<Rightarrow> table_schema \<Rightarrow> table_schema \<Rightarrow> string \<times> string \<Rightarrow> unit run"
  where
  "insert_copy ev stmt src dest kv =
     (let row = fields_or_pair ev src (user_key (fst kv)) (snd kv);
          cols = (if in_column_names stmt \<noteq> [] then in_column_names stmt else map cd_name (ts_columns dest))
      in ExecInsert ev (default_insert\<lparr>in_table := in_table stmt, in_column_names := in_column_names stmt,
           in_values := map (\<lambda>c. field_or row c []) cols\<rparr>))"

definition ExecInsertSelect :: "sql_env \<Rightarrow> insert_stmt \<Rightarrow> unit run" where
  "ExecInsertSelect ev stmt =
     find_table (in_table stmt) (unknown_table (in_table stmt)) (\<lambda>dest.
       let sql = Trim (in_select_sql stmt);
           unsupported = fail (Status_InvalidArgument (''unsupported INSERT SELECT: '' @ sql))
       in case stream_words sql of
         sel # _ # from # src_name # _ \<Rightarrow>
           if Upper sel \<noteq> ''SELECT'' \<or> Upper from \<noteq> ''FROM'' then unsupported
           else find_table src_name (Status_InvalidArgument (''unknown source table: '' @ src_name)) (\<lambda>src.
             seq (plain_scan ev (table_range (ts_id src))) (\<lambda>rs.
             each (insert_copy ev stmt src dest) rs))
       | _ \<Rightarrow> unsupported)"

definition ExecUpsert :: "sql_env \<Rightarrow> query_stmt \<Rightarrow> unit run" where
  "ExecUpsert ev stmt =
     (let ins = qs_insert stmt; up = qs_upsert stmt;
          ins1 = (if up_table up \<noteq> [] then ins\<lparr>in_table := up_table up\<rparr> else ins);
          ins2 = (if up_key up \<noteq> [] then ins1\<lparr>in_key := up_key up, in_value := up_value up\<rparr> else ins1)
      in ExecInsert ev ins2)"

section \<open>Dispatch\<close>

definition no_rows :: "unit run \<Rightarrow> out_rows run" where
  "no_rows m = seq m (\<lambda>_. ret [])"

definition ExecDropTable :: "sql_env \<Rightarrow> string \<Rightarrow> unit run" where
  "ExecDropTable ev name = seq (change_catalog (DropTable name)) (\<lambda>_. SaveCatalog ev)"

definition ExecAlterTable :: "sql_env \<Rightarrow> query_stmt \<Rightarrow> unit run" where
  "ExecAlterTable ev stmt = find_table (fst (qs_alter_table stmt)) (unknown_table (fst (qs_alter_table stmt)))
     (\<lambda>_. SaveCatalog ev)"

definition ExecuteV2 :: "sql_env \<Rightarrow> query_stmt \<Rightarrow> out_rows run" where
  "ExecuteV2 ev stmt = (case qs_kind stmt of
       KCreateTable \<Rightarrow> no_rows (seq (ExecCreateTable (qs_create_table stmt)) (\<lambda>_. SaveCatalog ev))
     | KUpsert \<Rightarrow> no_rows (ExecUpsert ev stmt)
     | KCreateIndex \<Rightarrow> no_rows (ExecCreateIndex ev (qs_create_index stmt))
     | KDropIndex \<Rightarrow> no_rows (ExecDropIndex ev (qs_drop_index stmt))
     | KInsert \<Rightarrow> no_rows (if in_select_sql (qs_insert stmt) \<noteq> [] then ExecInsertSelect ev (qs_insert stmt)
         else ExecInsert ev (qs_insert stmt))
     | KSelect \<Rightarrow> seq (TryExecIndexScanSelect ev stmt) (\<lambda>r. case r of
           Some rs \<Rightarrow> ret rs
         | None \<Rightarrow> if qs_joins stmt \<noteq> [] then ExecSelectJoin ev stmt else ExecSelectPlain ev (qs_select stmt))
     | KDropTable \<Rightarrow> no_rows (ExecDropTable ev (qs_drop_table stmt))
     | KAlterTable \<Rightarrow> no_rows (ExecAlterTable ev stmt)
     | KUpdate \<Rightarrow> no_rows (ExecUpdate ev (qs_update stmt))
     | KDelete \<Rightarrow> no_rows (ExecDelete ev (qs_delete stmt))
     | _ \<Rightarrow> fail (Status_InvalidArgument ''unsupported executable statement''))"

end
