(* ===== verification/SqlSelect.thy ===== *)
theory SqlSelect
  imports SqlExec SqlAgg "HOL-Library.Multiset"
begin

text \<open>
  The executor of rich queries: \<^verbatim>\<open>SqlExecutorV3::ExecSelectRich\<close> and its helpers in
  \<^verbatim>\<open>sql/exec/executor_v3.cc\<close>, \<^verbatim>\<open>sql/exec/cte_context.h\<close> and \<^verbatim>\<open>SubqueryRunner::ValidateWhereDepth\<close> of
  \<^verbatim>\<open>sql/exec/subquery_runner.cc\<close>. What the code asks its surroundings for is in the record \<open>select_io\<close>: a run of
  a subquery, the sort of the standard library, and the order in which a hash map of groups lists its keys.
\<close>

record select_io =
  sl_run :: "select_query \<Rightarrow> row_map \<Rightarrow> row_map list res"
  sl_sort :: "(row_map \<Rightarrow> row_map \<Rightarrow> bool) \<Rightarrow> row_map list \<Rightarrow> row_map list"
  sl_keys :: "string list \<Rightarrow> string list"

text \<open>What \<open>std::sort\<close> promises of a strict weak order, and the iteration of a hash map.\<close>

definition strict_weak :: "('a \<Rightarrow> 'a \<Rightarrow> bool) \<Rightarrow> bool" where
  "strict_weak lt \<longleftrightarrow> (\<forall>a. \<not> lt a a) \<and> (\<forall>a b c. lt a b \<longrightarrow> lt b c \<longrightarrow> lt a c) \<and>
     (\<forall>a b c. \<not> lt a b \<longrightarrow> \<not> lt b c \<longrightarrow> \<not> lt a c)"

definition select_io_ok :: "select_io \<Rightarrow> bool" where
  "select_io_ok sl \<longleftrightarrow>
     (\<forall>lt rs. strict_weak lt \<longrightarrow>
        mset (sl_sort sl lt rs) = mset rs \<and> sorted_wrt (\<lambda>a b. \<not> lt b a) (sl_sort sl lt rs)) \<and>
     (\<forall>ks. mset (sl_keys sl ks) = mset ks)"

section \<open>Rows\<close>

definition FieldVal :: "row_map \<Rightarrow> string \<Rightarrow> string" where
  "FieldVal r col =
     (let bare = (case after_dot col of None \<Rightarrow> None | Some b \<Rightarrow> r b) in
      case first_some (r col) (first_some bare (first_some (r ''value'') (r ''key''))) of
        Some v \<Rightarrow> v | None \<Rightarrow> [])"

text \<open>Every field once more under the name of the table.\<close>

definition qualify_fields :: "string \<Rightarrow> row_map \<Rightarrow> row_map" where
  "qualify_fields table row = (\<lambda>k.
     if prefix (table @ ''.'') k \<and> row (drop (length table + 1) k) \<noteq> None
     then row (drop (length table + 1) k) else row k)"

definition PopulateRowFields :: "table_schema \<Rightarrow> string \<Rightarrow> string \<Rightarrow> bool \<Rightarrow> row_map" where
  "PopulateRowFields t key raw qualify =
     (let f0 = (if 2 \<le> ts_schema_version t then snd (DecodeRowFields raw) else Map.empty);
          f1 = (if \<not> ts_implicit_rowid t \<and> f0 (ts_key_column t) = None
                then f0(ts_key_column t \<mapsto> key) else f0);
          f2 = (if ts_schema_version t < 2 \<and> f1 (ts_value_column t) = None
                then (if ts_implicit_rowid t then Map.empty else [ts_key_column t \<mapsto> key])(ts_value_column t \<mapsto> raw)
                else f1);
          f3 = f2(''key'' \<mapsto> key)
      in if qualify then qualify_fields (ts_name t) f3 else f3)"

definition decoded_row :: "table_schema \<Rightarrow> string \<times> string \<Rightarrow> row_map" where
  "decoded_row t kv = PopulateRowFields t (user_key (fst kv)) (snd kv) True"

text \<open>The rows that pass the condition of the view and that of the query, or the error the subquery runner has
  after a row that does not.\<close>

fun passing :: "sql_env \<Rightarrow> eval_env \<Rightarrow> expr option \<Rightarrow> expr option \<Rightarrow> nat \<Rightarrow> row_map list \<Rightarrow> row_map list res" where
  "passing ev env view_where w i [] = Inr []"
| "passing ev env view_where w i (r # rs) =
     (if PassesFilter env r view_where \<and> PassesFilter env r w
      then map_sum id ((#) r) (passing ev env view_where w (Suc i) rs)
      else if \<not> status_ok (qv_sub_error ev i) then Inl (qv_sub_error ev i)
      else passing ev env view_where w (Suc i) rs)"

section \<open>Joins\<close>

definition side_value :: "string \<Rightarrow> string \<Rightarrow> row_map \<Rightarrow> string" where
  "side_value table col r = (case first_some (r col) (r (table @ ''.'' @ col)) of Some v \<Rightarrow> v | None \<Rightarrow> [])"

definition join_match :: "string \<Rightarrow> join_spec \<Rightarrow> row_map \<Rightarrow> row_map \<Rightarrow> bool" where
  "join_match left j l r =
     (let lk = side_value left (js_left_col j) l in lk \<noteq> [] \<and> lk = side_value (js_table j) (js_right_col j) r)"

definition join_rows :: "string \<Rightarrow> join_spec \<Rightarrow> row_map list \<Rightarrow> row_map list \<Rightarrow> row_map list" where
  "join_rows left j ls rs =
     (let m = join_match left j;
          of_left = (\<lambda>l. [l ++ r. r \<leftarrow> rs, m l r]); of_right = (\<lambda>r. [l ++ r. l \<leftarrow> ls, m l r]) in
      case js_type j of
        JCross \<Rightarrow> [l ++ r. l \<leftarrow> ls, r \<leftarrow> rs]
      | JInner \<Rightarrow> concat (map of_left ls)
      | JLeft \<Rightarrow> concat (map (\<lambda>l. if of_left l = [] then [l] else of_left l) ls)
      | JRight \<Rightarrow> concat (map (\<lambda>r. if of_right r = [] then [r] else of_right r) rs)
      | JFull \<Rightarrow> concat (map (\<lambda>r. if of_right r = [] then [r] else of_right r) rs) @
          filter (\<lambda>l. \<not> list_ex (m l) rs) ls)"

definition join_step_run :: "sql_env \<Rightarrow> select_query \<Rightarrow> string \<Rightarrow> join_spec \<Rightarrow> row_map list \<Rightarrow> row_map list run"
  where
  "join_step_run ev sq left j ls =
     find_table (js_table j) (Status_InvalidArgument (''unknown join table: '' @ js_table j)) (\<lambda>rt.
       seq (on_session (ScanTable (qv_io ev) rt)) (\<lambda>encoded.
         let rs = map (decoded_row rt) encoded in
         need (CheckMicPagesBudget (qv_touched ev) (q_max_pages sq))
           (need (CheckMicRowBudget (length ls + length rs) (q_max_pages sq)) (ret (join_rows left j ls rs)))))"

fun join_all :: "sql_env \<Rightarrow> select_query \<Rightarrow> string \<Rightarrow> join_spec list \<Rightarrow> row_map list \<Rightarrow> row_map list run" where
  "join_all ev sq left [] rows = ret rows"
| "join_all ev sq left (j # js) rows = seq (join_step_run ev sq left j rows) (join_all ev sq left js)"

section \<open>Distinct rows\<close>

definition named_projection :: "select_query \<Rightarrow> bool" where
  "named_projection sq \<longleftrightarrow> q_project_cols sq \<noteq> [] \<and> hd (q_project_cols sq) \<noteq> ''*''"

definition distinct_key :: "select_query \<Rightarrow> table_schema \<Rightarrow> row_map \<Rightarrow> string" where
  "distinct_key sq t r =
     (if named_projection sq then join_sep ''|'' (map (FieldVal r) (q_project_cols sq))
      else let key = FieldVal r (ts_key_column t); val = FieldVal r (ts_value_column t) in
        if val \<noteq> [] \<and> val \<noteq> key then key @ ''|'' @ val else key)"

fun first_by :: "('a \<Rightarrow> 'b) \<Rightarrow> 'b list \<Rightarrow> 'a list \<Rightarrow> 'a list" where
  "first_by f seen [] = []"
| "first_by f seen (x # xs) =
     (if f x \<in> set seen then first_by f seen xs else x # first_by f (f x # seen) xs)"

definition distinct_rows :: "select_query \<Rightarrow> table_schema \<Rightarrow> row_map list \<Rightarrow> row_map list" where
  "distinct_rows sq t rows =
     (if q_distinct sq \<and> q_group_by sq = [] \<and> q_aggregates sq = [] then first_by (distinct_key sq t) [] rows
      else rows)"

section \<open>Aggregation\<close>

definition validate_all :: "agg_spec list \<Rightarrow> status" where
  "validate_all as = (case find (\<lambda>a. \<not> status_ok (agg_Validate a)) as of None \<Rightarrow> Status_Ok | Some a \<Rightarrow> agg_Validate a)"

text \<open>Without groups there is a bucket for every alias.\<close>

definition per_alias :: "agg_spec list \<Rightarrow> row_map list \<Rightarrow> string \<Rightarrow> agg_bucket" where
  "per_alias as rows = foldl (\<lambda>b r. foldl (\<lambda>b a. b(ag_alias a := Accumulate a r (b (ag_alias a)))) b as)
     (\<lambda>_. new_bucket) rows"

definition aggregate_row :: "agg_spec list \<Rightarrow> row_map list \<Rightarrow> row_map" where
  "aggregate_row as rows = foldl (\<lambda>g a. g(ag_alias a \<mapsto>
     agg_Finalize a (per_alias as rows (ag_alias a)) (length rows) CHR 0x00)) Map.empty as"

text \<open>With groups there is one bucket for a group, which all aggregates use.\<close>

definition group_rows :: "string \<Rightarrow> row_map list \<Rightarrow> string \<Rightarrow> row_map list" where
  "group_rows col rows gk = filter (\<lambda>r. FieldVal r col = gk) rows"

definition group_bucket :: "agg_spec list \<Rightarrow> row_map list \<Rightarrow> agg_bucket" where
  "group_bucket as rows = foldl (\<lambda>b r. foldl (\<lambda>b a. Accumulate a r b) b as) new_bucket rows"

definition group_row :: "string \<Rightarrow> agg_spec list \<Rightarrow> row_map list \<Rightarrow> string \<Rightarrow> row_map" where
  "group_row col as rows gk =
     (let members = group_rows col rows gk; n = length members in
      foldl (\<lambda>g a. g(ag_alias a \<mapsto>
        (if ag_func a = ''COUNT'' \<and> \<not> ag_distinct a \<and> ag_column a = ''*'' then dec_nat n
         else agg_Finalize a (group_bucket as members) n CHR 0x00))) [col \<mapsto> gk] as)"

definition aggregate_rows :: "select_io \<Rightarrow> eval_env \<Rightarrow> select_query \<Rightarrow> row_map list \<Rightarrow> row_map list res" where
  "aggregate_rows sl env sq rows =
     (let as = q_aggregates sq; st = validate_all as in
      case q_group_by sq of
        [] \<Rightarrow>
          if as = [] then Inr rows
          else if \<not> status_ok st then Inl st
          else Inr (filter (\<lambda>g. PassesFilter env g (q_having sq)) [aggregate_row as rows])
      | col # _ \<Rightarrow>
          if \<not> status_ok st then Inl st
          else Inr (filter (\<lambda>g. PassesFilter env g (q_having sq))
            (map (group_row col as rows) (sl_keys sl (remdups (map (\<lambda>r. FieldVal r col) rows))))))"

section \<open>Order, limit and output\<close>

definition order_less :: "order_spec \<Rightarrow> row_map \<Rightarrow> row_map \<Rightarrow> bool" where
  "order_less o1 a b =
     (let av = field_or a (os_column o1) []; bv = field_or b (os_column o1) [] in
      if os_descending o1 then bv < av else av < bv)"

definition order_rows :: "select_io \<Rightarrow> select_query \<Rightarrow> row_map list \<Rightarrow> row_map list" where
  "order_rows sl sq rows = (case q_order_by sq of [] \<Rightarrow> rows | o1 # _ \<Rightarrow> sl_sort sl (order_less o1) rows)"

definition limit_rows :: "select_query \<Rightarrow> row_map list \<Rightarrow> row_map list" where
  "limit_rows sq rows = (case q_limit sq of None \<Rightarrow> rows | Some n \<Rightarrow> take (unat n) rows)"

definition plain_output :: "eval_env \<Rightarrow> select_query \<Rightarrow> table_schema \<Rightarrow> row_map \<Rightarrow> string \<times> string" where
  "plain_output env sq t r =
     (case q_aggregates sq of
        a # b # _ \<Rightarrow> (FieldVal r (ag_alias a), FieldVal r (ag_alias b))
      | [a] \<Rightarrow> (FieldVal r (ag_alias a), FieldVal r (ag_alias a))
      | [] \<Rightarrow>
          (case q_scalar_projects sq of
             p # _ \<Rightarrow> (EvalScalar env r p, EvalScalar env r p)
           | [] \<Rightarrow>
               if named_projection sq then
                 let key = FieldVal r (hd (q_project_cols sq)) in
                 (key, if 2 \<le> length (q_project_cols sq) then FieldVal r (q_project_cols sq ! 1) else key)
               else
                 let key = FieldVal r (case q_group_by sq of [] \<Rightarrow> ts_key_column t | g # _ \<Rightarrow> g) in
                 (key, field_or r (ts_value_column t) key)))"

text \<open>A subquery among the projections replaces the value when it gives a row.\<close>

definition subquery_value :: "select_io \<Rightarrow> row_map \<Rightarrow> expr \<Rightarrow> string \<Rightarrow> string" where
  "subquery_value sl r p val = (case Option.bind (en_subquery p) sq_parsed_query of
     None \<Rightarrow> val
   | Some q \<Rightarrow> (case sl_run sl q r of
       Inr (x # _) \<Rightarrow> FieldVal x (case q_project_cols q of [] \<Rightarrow> ''key'' | c # _ \<Rightarrow> c)
     | _ \<Rightarrow> val))"

definition output_row :: "select_io \<Rightarrow> eval_env \<Rightarrow> select_query \<Rightarrow> table_schema \<Rightarrow> row_map \<Rightarrow> string \<times> string" where
  "output_row sl env sq t r =
     (let (key, val) = plain_output env sq t r in
      (key, if q_aggregates sq = [] then foldl (\<lambda>v p. subquery_value sl r p v) val (q_scalar_projects sq) else val))"

text \<open>The rows after the joins, as far as the result.\<close>

definition finish_rows :: "select_io \<Rightarrow> eval_env \<Rightarrow> select_query \<Rightarrow> table_schema \<Rightarrow> row_map list \<Rightarrow> out_rows res" where
  "finish_rows sl env sq t rows =
     map_sum id (\<lambda>rs. map (output_row sl env sq t) (limit_rows sq (order_rows sl sq rs)))
       (aggregate_rows sl env sq (distinct_rows sq t rows))"

section \<open>The query\<close>

definition kMaxSubqueryDepth :: nat where "kMaxSubqueryDepth = 3"

definition depth_exceeded :: status where
  "depth_exceeded = Status_InvalidArgument ''subquery depth exceeded''"

definition inner_where :: "subquery_spec option \<Rightarrow> expr option" where
  "inner_where sq = Option.bind (Option.bind sq sq_parsed_query) q_where"

lemma size_inner_where: "inner_where sq = Some e \<Longrightarrow> size e < size_option size sq"
  by (cases sq; cases "the sq"; cases "sq_parsed_query (the sq)"; cases "the (sq_parsed_query (the sq))")
    (auto simp: inner_where_def)

function ValidateWhereDepth :: "expr \<Rightarrow> nat \<Rightarrow> bool" where
  "ValidateWhereDepth (ExprNode k lit col tab op fn cs isnull neg sq) parent \<longleftrightarrow>
     (k = ESubquery \<and> sq \<noteq> None \<longrightarrow> parent + 1 < kMaxSubqueryDepth \<and>
        (case inner_where sq of None \<Rightarrow> True | Some e \<Rightarrow> ValidateWhereDepth e (parent + 1))) \<and>
     (\<forall>c \<in> set cs. ValidateWhereDepth c parent)"
  by pat_completeness auto
termination
  by (relation "measure (size \<circ> fst)") (auto dest: size_inner_where size_child simp: less_Suc_eq_le)

declare ValidateWhereDepth.simps [simp del]

definition check_depth :: "expr option \<Rightarrow> status" where
  "check_depth w = (case w of None \<Rightarrow> Status_Ok
     | Some e \<Rightarrow> if ValidateWhereDepth e 0 then Status_Ok else depth_exceeded)"

type_synonym ctes = "string \<Rightarrow> row_map list option"

text \<open>A query without a table evaluates its projections once.\<close>

definition tableless :: "sql_env \<Rightarrow> select_query \<Rightarrow> table_schema \<Rightarrow> out_rows" where
  "tableless ev sq t =
     (let env = (if ts_name t = [] then (table_env ev t)\<lparr>ev_table := None\<rparr> else table_env ev t) in
      map (\<lambda>p. let v = EvalScalar env [''key'' \<mapsto> ''1''] p in (v, v)) (q_scalar_projects sq))"

text \<open>The plan chooses an index only when the query has no joins.\<close>

definition index_choice :: "select_query \<Rightarrow> string \<Rightarrow> catalog \<Rightarrow> (plan_step \<times> index_def) option" where
  "index_choice sq table_name c =
     (if q_joins sq \<noteq> [] then None
      else case pl_steps (LowerSelectQuery sq (Some c)) of
        step # _ \<Rightarrow>
          if ps_kind step \<noteq> PIndexScan then None
          else map_option (Pair step) (FindLeadingIndex c table_name (ps_index_column step))
      | [] \<Rightarrow> None)"

definition read_table :: "sql_env \<Rightarrow> select_query \<Rightarrow> table_schema \<Rightarrow> text_rows run" where
  "read_table ev sq t = with_catalog (\<lambda>c.
     let whole = on_session (ScanTable (qv_io ev) t) in
     case index_choice sq (ts_name t) c of
       None \<Rightarrow> whole
     | Some (step, i) \<Rightarrow> (case ps_scan_mode step of
           ScanEq \<Rightarrow> on_session (ScanIndexEq (qv_io ev) t i (ps_index_value step))
         | ScanRange \<Rightarrow> on_session (ScanIndexRange (qv_io ev) t i (ps_index_range_lo step) (ps_index_range_hi step))
         | ScanNone \<Rightarrow> whole))"

definition base_rows :: "sql_env \<Rightarrow> select_query \<Rightarrow> table_schema \<Rightarrow> ctes \<Rightarrow> row_map list run" where
  "base_rows ev sq t ctes = (case ctes (q_from_table sq) of
       Some rows \<Rightarrow> ret rows
     | None \<Rightarrow> seq (read_table ev sq t) (\<lambda>encoded.
         need (CheckMicPagesBudget (qv_touched ev) (q_max_pages sq))
           (need (CheckMicRowBudget (length encoded) (q_max_pages sq)) (ret (map (decoded_row t) encoded)))))"

definition ExecSelectRich ::
  "sql_env \<Rightarrow> select_io \<Rightarrow> select_query \<Rightarrow> table_schema \<Rightarrow> ctes \<Rightarrow> expr option \<Rightarrow> out_rows run" where
  "ExecSelectRich ev sl sq t ctes view_where =
     (if q_from_table sq = [] then ret (tableless ev sq t)
      else seq (base_rows ev sq t ctes) (\<lambda>rows.
        need (check_depth (q_where sq))
       (seq (result (passing ev (table_env ev t) view_where (q_where sq) 0 rows)) (\<lambda>rows1.
        seq (join_all ev sq (ts_name t) (q_joins sq) rows1) (\<lambda>rows2.
        seq (result (finish_rows sl (table_env ev t) sq t rows2)) (\<lambda>out.
        need (CheckMicPagesBudget (qv_touched ev) (q_max_pages sq)) (ret out)))))))"

end
