(* ===== verification/SqlQuery.thy ===== *)
theory SqlQuery
  imports SqlSelect StmtClass
begin

text \<open>
  The statements of \<^verbatim>\<open>SqlExecutorV3\<close> (\<^verbatim>\<open>sql/exec/executor_v3.cc\<close>) around a query: common table expressions,
  set operations, window functions, \<open>EXPLAIN\<close> and the dispatch, with \<^verbatim>\<open>sql/exec/pragma_exec.cc\<close> and
  \<^verbatim>\<open>sql/exec/unified_executor.cc\<close>. The parser of statements is the argument \<open>parse\<close>.
\<close>

section \<open>Queries as rows\<close>

definition VirtualTableSchema :: "string \<Rightarrow> table_schema" where
  "VirtualTableSchema name = default_schema\<lparr>ts_name := name, ts_key_column := ''key'', ts_value_column := ''value'',
     ts_schema_version := 1\<rparr>"

definition RowsFromExecuteResult :: "out_rows \<Rightarrow> row_map list" where
  "RowsFromExecuteResult rs = map (\<lambda>(k, v). [''key'' \<mapsto> k, ''value'' \<mapsto> v]) rs"

definition no_ctes :: ctes where "no_ctes = Map.empty"

definition CollectSelectRows :: "sql_env \<Rightarrow> select_io \<Rightarrow> select_query \<Rightarrow> ctes \<Rightarrow> row_map list run" where
  "CollectSelectRows ev sl sq ctes = with_catalog (\<lambda>c.
     let from_name = (case FindView c (q_from_table sq) of Some v \<Rightarrow> vw_table v | None \<Rightarrow> q_from_table sq);
         rows_of = (\<lambda>t. seq (ExecSelectRich ev sl sq t ctes None) (\<lambda>rs. ret (RowsFromExecuteResult rs)))
     in case FindTable c from_name of
       Some t \<Rightarrow> rows_of t
     | None \<Rightarrow> if ctes (q_from_table sq) \<noteq> None then rows_of (VirtualTableSchema (q_from_table sq))
         else fail (unknown_table (q_from_table sq)))"

section \<open>Common table expressions\<close>

text \<open>A recursive entry is evaluated again over its own rows, at most 32 times, as long as there are new rows; an
  error ends the loop and is dropped.\<close>

fun cte_iterate :: "nat \<Rightarrow> sql_env \<Rightarrow> select_io \<Rightarrow> string \<Rightarrow> select_query \<Rightarrow> ctes \<Rightarrow> row_map list
    \<Rightarrow> row_map list run" where
  "cte_iterate 0 ev sl name q ctes rows d = Some (d, Inr rows)"
| "cte_iterate (Suc n) ev sl name q ctes rows d =
     Option.bind (CollectSelectRows ev sl q (ctes(name \<mapsto> rows)) d) (\<lambda>(d1, r). case r of
         Inr (x # xs) \<Rightarrow> cte_iterate n ev sl name q (ctes(name \<mapsto> rows)) (rows @ x # xs) d1
       | _ \<Rightarrow> Some (d1, Inr rows))"

fun cte_entries_run :: "sql_env \<Rightarrow> select_io \<Rightarrow> bool \<Rightarrow> (string \<times> select_query) list \<Rightarrow> ctes \<Rightarrow> ctes run" where
  "cte_entries_run ev sl recursive [] ctes = ret ctes"
| "cte_entries_run ev sl recursive ((name, q) # es) ctes =
     seq (CollectSelectRows ev sl q ctes) (\<lambda>rows.
     seq (if recursive \<and> rows \<noteq> [] then cte_iterate 32 ev sl name q ctes rows else ret rows) (\<lambda>rows1.
     cte_entries_run ev sl recursive es (ctes(name \<mapsto> rows1))))"

definition ExecCte :: "sql_env \<Rightarrow> select_io \<Rightarrow> query_stmt \<Rightarrow> out_rows run" where
  "ExecCte ev sl stmt = (case qs_cte stmt of
     None \<Rightarrow> fail (Status_InvalidArgument ''invalid CTE statement'')
   | Some cte \<Rightarrow>
       seq (cte_entries_run ev sl (cte_recursive cte) (cte_entries cte) no_ctes) (\<lambda>ctes.
       with_catalog (\<lambda>c.
         let mq = cte_main cte in
         case FindTable c (q_from_table mq) of
           Some t \<Rightarrow> ExecSelectRich ev sl mq t ctes None
         | None \<Rightarrow>
             if ctes (q_from_table mq) \<noteq> None
             then ExecSelectRich ev sl mq (VirtualTableSchema (q_from_table mq)) ctes None
             else fail (unknown_table (q_from_table mq)))))"

section \<open>Set operations\<close>

definition RowSignature :: "string list \<Rightarrow> row_map \<Rightarrow> string" where
  "RowSignature cols row = concat (map (\<lambda>c. CHR ''|'' # FieldVal row c) cols)"

text \<open>The last row of every signature; the signatures come in the order of the hash map.\<close>

definition union_rows :: "select_io \<Rightarrow> (row_map \<Rightarrow> string) \<Rightarrow> row_map list \<Rightarrow> row_map list" where
  "union_rows sl sig rows =
     (let seen = foldl (\<lambda>m r. m(sig r \<mapsto> r)) Map.empty rows in
      map (\<lambda>s. the (seen s)) (sl_keys sl (remdups (map sig rows))))"

definition set_operation :: "select_io \<Rightarrow> setop_kind \<Rightarrow> bool \<Rightarrow> (row_map \<Rightarrow> string) \<Rightarrow> row_map list \<Rightarrow> row_map list
    \<Rightarrow> row_map list" where
  "set_operation sl op all sig ls rs = (case op of
       SUnion \<Rightarrow> if all then ls @ rs else union_rows sl sig (ls @ rs)
     | SIntersect \<Rightarrow> filter (\<lambda>l. sig l \<in> set (map sig rs)) ls
     | SExcept \<Rightarrow> filter (\<lambda>l. sig l \<notin> set (map sig rs)) ls)"

definition ExecSetOp :: "sql_env \<Rightarrow> select_io \<Rightarrow> query_stmt \<Rightarrow> out_rows run" where
  "ExecSetOp ev sl stmt = (case qs_setop stmt of
     None \<Rightarrow> fail (Status_InvalidArgument ''invalid set op statement'')
   | Some so \<Rightarrow>
       seq (CollectSelectRows ev sl (so_left so) no_ctes) (\<lambda>ls.
       seq (CollectSelectRows ev sl (so_right so) no_ctes) (\<lambda>rs.
         let proj = (if q_project_cols (so_left so) = [] then [''key''] else q_project_cols (so_left so));
             merged = set_operation sl (so_op so) (so_all so) (RowSignature proj) ls rs
         in ret (map (\<lambda>r. (FieldVal r (hd proj),
              if 1 < length proj then FieldVal r (proj ! 1) else FieldVal r (hd proj))) merged))))"

section \<open>Window functions\<close>

datatype window_kind = WinRowNumber | WinRank | WinDense

text \<open>The tests are made in this order; the name of \<open>DENSE_RANK\<close> contains that of \<open>RANK\<close>.\<close>

definition window_kind_of :: "string \<Rightarrow> window_kind option" where
  "window_kind_of func =
     (let u = Upper func in
      if contains_str u ''ROW_NUMBER'' then Some WinRowNumber
      else if contains_str u ''DENSE_RANK'' then Some WinDense
      else if contains_str u ''RANK'' \<and> \<not> contains_str u ''DENSE'' then Some WinRank
      else None)"

definition partition_of :: "window_query \<Rightarrow> row_map \<Rightarrow> string" where
  "partition_of wq r = (if wq_partition_col wq = [] then [] else FieldVal r (wq_partition_col wq))"

definition order_value :: "window_query \<Rightarrow> row_map \<Rightarrow> string" where
  "order_value wq r = FieldVal r (if wq_order_col wq = [] then ''key'' else wq_order_col wq)"

definition window_less :: "window_query \<Rightarrow> row_map \<Rightarrow> row_map \<Rightarrow> bool" where
  "window_less wq a b =
     (let pa = partition_of wq a; pb = partition_of wq b; av = order_value wq a; bv = order_value wq b in
      if pa \<noteq> pb then pa < pb else if wq_order_desc wq then bv < av else av < bv)"

record window_state =
  ws_partition :: string
  ws_row :: nat
  ws_dense :: nat
  ws_rank :: nat
  ws_order :: string

definition window_start :: "string \<Rightarrow> window_state" where
  "window_start p = \<lparr>ws_partition = p, ws_row = 0, ws_dense = 0, ws_rank = 0, ws_order = []\<rparr>"

definition window_step :: "window_query \<Rightarrow> row_map \<Rightarrow> window_state \<Rightarrow> window_state" where
  "window_step wq r s =
     (let pk = partition_of wq r; ov = order_value wq r;
          s0 = (if pk \<noteq> ws_partition s then window_start pk else s);
          s1 = s0\<lparr>ws_row := ws_row s0 + 1\<rparr>
      in if ov \<noteq> ws_order s1
         then s1\<lparr>ws_dense := ws_dense s1 + 1, ws_rank := ws_row s1, ws_order := ov\<rparr> else s1)"

definition window_number :: "window_kind \<Rightarrow> window_state \<Rightarrow> nat" where
  "window_number k s = (case k of WinRowNumber \<Rightarrow> ws_row s | WinDense \<Rightarrow> ws_dense s | WinRank \<Rightarrow> ws_rank s)"

fun window_rows :: "window_query \<Rightarrow> window_kind \<Rightarrow> row_map list \<Rightarrow> window_state \<Rightarrow> out_rows" where
  "window_rows wq k [] s = []"
| "window_rows wq k (r # rs) s =
     (let s1 = window_step wq r s in
      (FieldVal r ''key'', dec_nat (window_number k s1)) # window_rows wq k rs s1)"

definition ExecWindow :: "sql_env \<Rightarrow> select_io \<Rightarrow> query_stmt \<Rightarrow> out_rows run" where
  "ExecWindow ev sl stmt = (case qs_window stmt of
     None \<Rightarrow> fail (Status_InvalidArgument ''invalid window statement'')
   | Some wq \<Rightarrow> (case window_kind_of (wq_func wq) of
       None \<Rightarrow> fail (FeatureNotSupported ''WINDOW function'')
     | Some k \<Rightarrow> seq (CollectSelectRows ev sl (wq_query wq) no_ctes) (\<lambda>rows.
         ret (window_rows wq k (sl_sort sl (window_less wq) rows) (window_start [])))))"

section \<open>Selection and explanation\<close>

definition ExecSelect :: "sql_env \<Rightarrow> select_io \<Rightarrow> query_stmt \<Rightarrow> out_rows run" where
  "ExecSelect ev sl stmt = with_catalog (\<lambda>c.
     case qs_select_rich stmt of
       Some q \<Rightarrow>
         if q_from_table q = [] then ExecSelectRich ev sl q (VirtualTableSchema []) no_ctes None
         else
           let view = FindView c (q_from_table q);
               view_where = (case view of None \<Rightarrow> None | Some v \<Rightarrow> vw_where_filter v)
           in find_table (case view of None \<Rightarrow> q_from_table q | Some v \<Rightarrow> vw_table v)
               (unknown_table (q_from_table q)) (\<lambda>t.
             need (check_depth (q_where q)) (need (check_depth view_where)
               (ExecSelectRich ev sl q t no_ctes view_where)))
     | None \<Rightarrow>
         let name = ss_table (qs_select stmt); view = FindView c name;
             view_where = (case view of None \<Rightarrow> None | Some v \<Rightarrow> vw_where_filter v)
         in find_table (case view of None \<Rightarrow> name | Some v \<Rightarrow> vw_table v) (unknown_table name) (\<lambda>_.
           need (check_depth view_where)
             (fail (Status_InvalidArgument ''SELECT requires rich parse path''))))"

definition strip_blanks :: "string \<Rightarrow> string" where
  "strip_blanks s = dropWhile (\<lambda>c. c = CHR '' '') s"

definition explained_sql :: "string \<Rightarrow> string" where
  "explained_sql raw = (case find_str (Upper raw) ''EXPLAIN'' 0 of
     None \<Rightarrow> raw
   | Some pos \<Rightarrow>
       (let inner = strip_blanks (drop (pos + 7) raw) in
        if find_str (Upper inner) ''QUERY PLAN'' 0 = Some 0 then strip_blanks (drop 10 inner) else inner))"

definition step_text :: "plan_step \<Rightarrow> string" where
  "step_text p = (case ps_kind p of
       PIndexScan \<Rightarrow>
         if ps_scan_mode p = ScanRange
         then ''SEARCH TABLE '' @ ps_table p @ '' USING INDEX '' @ ps_index_column p @ '' (>= '' @
           ps_index_range_lo p @ '' AND <= '' @ ps_index_range_hi p @ '')''
         else ''SEARCH TABLE '' @ ps_table p @ '' USING INDEX '' @ ps_index_column p @ '' (= '' @
           ps_index_value p @ '')''
     | PFilter \<Rightarrow> ''FILTER''
     | PNestedLoopJoin \<Rightarrow> ''NESTED LOOP JOIN '' @ ps_join_table p
     | PHashAggregate \<Rightarrow> ''HASH AGGREGATE''
     | PSortLimit \<Rightarrow> ''SORT LIMIT''
     | _ \<Rightarrow> ''SCAN TABLE '' @ ps_table p) @ [newline]"

definition ExecExplain :: "(string \<Rightarrow> query_stmt res) \<Rightarrow> query_stmt \<Rightarrow> out_rows run" where
  "ExecExplain parse stmt =
     seq (result (parse (explained_sql (qs_raw_sql stmt)))) (\<lambda>inner. with_catalog (\<lambda>c.
       ret [(''plan'', ''QUERY PLAN'' @ newline # concat (map step_text (pl_steps (LowerQueryWithCatalog inner (Some c)))))]))"

section \<open>Pragmas\<close>

definition last_pos :: "char \<Rightarrow> string \<Rightarrow> nat option" where
  "last_pos c s = (if c \<in> set s then Some (length s - 1 - length (takeWhile (\<lambda>d. d \<noteq> c) (rev s))) else None)"

definition drop_back :: "(char \<Rightarrow> bool) \<Rightarrow> string \<Rightarrow> string" where
  "drop_back p s = rev (dropWhile p (rev s))"

definition IsRarStatusPragma :: "string \<Rightarrow> bool" where
  "IsRarStatusPragma raw \<longleftrightarrow>
     drop_back (\<lambda>c. c = CHR '';'' \<or> c = CHR '' '') (Upper (Trim raw)) = ''PRAGMA RAR_STATUS''"

definition flag :: "bool \<Rightarrow> string" where
  "flag b = (if b then ''1'' else ''0'')"

definition column_info :: "nat \<times> column_def \<Rightarrow> string \<times> string" where
  "column_info ic = (case ic of (i, c) \<Rightarrow>
     (dec_nat i, cd_name c @ ''|'' @ cd_type c @ ''|'' @ flag (cd_not_null c) @ ''||'' @ flag (cd_primary_key c)))"

text \<open>A closing parenthesis before the opening one leaves the rest of the text as the name.\<close>

definition pragma_table :: "string \<Rightarrow> nat \<Rightarrow> nat \<Rightarrow> string" where
  "pragma_table raw lp rp =
     (let t = Trim (if lp < rp then substr raw (lp + 1) (rp - lp - 1) else drop (lp + 1) raw) in
      if t \<noteq> [] \<and> hd t = CHR 0x27 then UnquoteToken t else t)"

definition ExecPragma :: "query_stmt \<Rightarrow> catalog \<Rightarrow> out_rows res" where
  "ExecPragma stmt c =
     (let raw = qs_raw_sql stmt; u = Upper (Trim raw) in
      if IsRarStatusPragma raw then Inl (Status_InvalidArgument ''PRAGMA rar_status requires Database session'')
      else if prefix ''PRAGMA TABLE_INFO('' u \<or> prefix ''PRAGMA TABLE_INFO ('' u then
        (case (find_str raw ''('' 0, last_pos CHR '')'' raw) of
           (Some lp, Some rp) \<Rightarrow>
             (let table = pragma_table raw lp rp in
              case FindTable c table of
                None \<Rightarrow> Inl (unknown_table table)
              | Some t \<Rightarrow> Inr (map column_info (enumerate 0 (ts_columns t))))
         | _ \<Rightarrow> Inl (Status_InvalidArgument ''PRAGMA table_info syntax''))
      else Inl (Status_InvalidArgument ''unsupported PRAGMA''))"

section \<open>Dispatch\<close>

definition saved :: "sql_env \<Rightarrow> (catalog \<Rightarrow> catalog res) \<Rightarrow> out_rows run" where
  "saved ev f = no_rows (seq (change_catalog f) (\<lambda>_. SaveCatalog ev))"

definition ExecAlter :: "sql_env \<Rightarrow> string \<Rightarrow> string \<Rightarrow> out_rows run" where
  "ExecAlter ev table action =
     (if contains_str action ''ADD''
      then let col = (case last_pos CHR '' '' action of None \<Rightarrow> ''c'' | Some sp \<Rightarrow> drop (sp + 1) action) in
        saved ev (AddColumn table (column col ''TEXT''))
      else no_rows (SaveCatalog ev))"

definition ExecReindex :: "string \<Rightarrow> out_rows run" where
  "ExecReindex target = with_catalog (\<lambda>c.
     if target \<noteq> [] \<and> FindIndex c target = None \<and> FindTable c target = None
     then fail (Status_InvalidArgument (''no such index: '' @ target)) else ret [])"

definition ExecCreateView :: "sql_env \<Rightarrow> create_view_stmt \<Rightarrow> out_rows run" where
  "ExecCreateView ev v = saved ev (CreateView (cv_name v) (cv_base_table v) (cv_key_column v) (cv_value_column v)
     (cv_where_filter v))"

definition ExecCreateTrigger :: "sql_env \<Rightarrow> create_trigger_stmt \<Rightarrow> out_rows run" where
  "ExecCreateTrigger ev t = saved ev (CreateTrigger \<lparr>tr_name = tg_name t, tr_table = tg_table t,
     tr_event = tg_event t, tr_body_sql = tg_body_sql t\<rparr>)"

definition ExecuteV3 :: "sql_env \<Rightarrow> select_io \<Rightarrow> (string \<Rightarrow> query_stmt res) \<Rightarrow> query_stmt \<Rightarrow> out_rows run" where
  "ExecuteV3 ev sl parse stmt = (case qs_kind stmt of
       KWithCte \<Rightarrow> ExecCte ev sl stmt
     | KSetOp \<Rightarrow> ExecSetOp ev sl stmt
     | KWindowSelect \<Rightarrow> ExecWindow ev sl stmt
     | KShow \<Rightarrow> fail (FeatureNotSupported (StmtClassName (ClassifyStatement (qs_raw_sql stmt))))
     | KSet \<Rightarrow> fail (FeatureNotSupported (StmtClassName (ClassifyStatement (qs_raw_sql stmt))))
     | KGrant \<Rightarrow> fail (FeatureNotSupported (StmtClassName (ClassifyStatement (qs_raw_sql stmt))))
     | KExplain \<Rightarrow> ExecExplain parse stmt
     | KPragma \<Rightarrow> with_catalog (\<lambda>c. result (ExecPragma stmt c))
     | KCreateView \<Rightarrow> ExecCreateView ev (qs_create_view stmt)
     | KDropView \<Rightarrow> saved ev (DropView (qs_drop_view stmt))
     | KCreateTrigger \<Rightarrow> ExecCreateTrigger ev (qs_create_trigger stmt)
     | KDropTrigger \<Rightarrow> saved ev (DropTrigger (qs_drop_trigger stmt))
     | KReindex \<Rightarrow> ExecReindex (qs_reindex_target stmt)
     | KSelect \<Rightarrow> ExecSelect ev sl stmt
     | KAlterTable \<Rightarrow> ExecAlter ev (fst (qs_alter_table stmt)) (snd (qs_alter_table stmt))
     | KUpdate \<Rightarrow> no_rows (ExecUpdate ev (qs_update stmt))
     | _ \<Rightarrow> ExecuteV2 ev stmt)"

text \<open>The unified executor sends an update to the executor of updates itself.\<close>

definition UnifiedExecute :: "sql_env \<Rightarrow> select_io \<Rightarrow> (string \<Rightarrow> query_stmt res) \<Rightarrow> query_stmt \<Rightarrow> out_rows run" where
  "UnifiedExecute ev sl parse stmt =
     (if qs_kind stmt = KUpdate then no_rows (ExecUpdate ev (qs_update stmt)) else ExecuteV3 ev sl parse stmt)"

end
