(* ===== verification/SqlSession.thy ===== *)
theory SqlSession
  imports SqlQuery
begin

text \<open>
  A session on a database: \<^verbatim>\<open>sql/session/database.cc\<close>. Statements of a session run the executor and then the
  triggers of the table; a trigger and a prepared statement run further statements, so a statement is run with
  fuel and \<open>None\<close> is the result of a run that does not return within it. The parser, the engine's surroundings
  and the audit monitor are in the record \<open>session_env\<close>. The observer of group commits is not modelled.
\<close>

record session_env =
  sn_env :: sql_env
  sn_select :: select_io
  sn_parse :: "string \<Rightarrow> query_stmt res"
  sn_monitored :: bool
  sn_allows_write :: bool
  sn_status_rows :: out_rows

record session_state =
  sn_db :: db
  sn_prepared :: "string \<Rightarrow> string option"
  sn_next_txn :: u32
  sn_last_error :: string

type_synonym session_answer = "(session_state \<times> out_rows res) option"

definition IsWriteStatement :: "stmt_kind \<Rightarrow> bool" where
  "IsWriteStatement k \<longleftrightarrow> k \<in> {KCreateTable, KDropTable, KAlterTable, KCreateIndex, KDropIndex, KInsert, KUpdate,
     KDelete, KUpsert, KCreateView, KDropView, KCreateTrigger, KDropTrigger, KReindex}"

definition SavepointNameFromSql :: "string \<Rightarrow> string" where
  "SavepointNameFromSql raw = (let ws = stream_words raw in if ws = [] then ''sp'' else last ws)"

definition SqlUpperContains :: "string \<Rightarrow> string \<Rightarrow> bool" where
  "SqlUpperContains raw part = contains_str (Upper raw) part"

definition refuse :: "status \<Rightarrow> session_state \<Rightarrow> session_answer" where
  "refuse st s = Some (s, Inl st)"

definition answer_status :: "session_state \<Rightarrow> status \<Rightarrow> session_state \<times> out_rows res" where
  "answer_status s st = (s, if status_ok st then Inr [] else Inl st)"

definition set_session :: "session \<Rightarrow> session_state \<Rightarrow> session_state" where
  "set_session x s = s\<lparr>sn_db := (sn_db s)\<lparr>db_ses := x\<rparr>\<rparr>"

section \<open>Transactions\<close>

definition session_begin :: "session_env \<Rightarrow> session_state \<Rightarrow> session_answer" where
  "session_begin env s =
     (let (t, e) = db_ses (sn_db s);
          ((next, t1, e1), st) = txn_Begin (qv_io (sn_env env)) (sn_next_txn s) t e
      in Some (answer_status ((set_session (t1, e1) s)\<lparr>sn_next_txn := next\<rparr>) st))"

definition session_commit :: "session_env \<Rightarrow> session_state \<Rightarrow> session_answer" where
  "session_commit env s =
     (let (t, e) = db_ses (sn_db s) in
      map_option (\<lambda>(x, st). answer_status (set_session x s) st)
        (txn_Commit (qv_io (sn_env env)) (qv_tier (sn_env env)) t e))"

definition session_rollback :: "session_env \<Rightarrow> query_stmt \<Rightarrow> session_state \<Rightarrow> session_answer" where
  "session_rollback env stmt s =
     (let (t, e) = db_ses (sn_db s); io = qv_io (sn_env env) in
      map_option (\<lambda>(x, st). answer_status (set_session x s) st)
        (if SqlUpperContains (qs_raw_sql stmt) ''TO SAVEPOINT''
         then RollbackToSavepoint io (SavepointNameFromSql (qs_raw_sql stmt)) t e
         else txn_Rollback io t e))"

definition session_savepoint :: "query_stmt \<Rightarrow> session_state \<Rightarrow> session_answer" where
  "session_savepoint stmt s =
     (let (t, e) = db_ses (sn_db s); name = SavepointNameFromSql (qs_raw_sql stmt);
          (t1, st) = (if SqlUpperContains (qs_raw_sql stmt) ''RELEASE'' then ReleaseSavepoint name t
            else Savepoint name t)
      in Some (answer_status (set_session (t1, e) s) st))"

section \<open>Statements\<close>

definition run_executor :: "session_env \<Rightarrow> query_stmt \<Rightarrow> session_state \<Rightarrow> session_answer" where
  "run_executor env stmt s =
     map_option (\<lambda>(d, r). (s\<lparr>sn_db := d, sn_last_error := (case r of Inl st \<Rightarrow> st_message st
         | Inr _ \<Rightarrow> sn_last_error s)\<rparr>, r))
       (UnifiedExecute (sn_env env) (sn_select env) (sn_parse env) stmt (sn_db s))"

definition trigger_of :: "query_stmt \<Rightarrow> (string \<times> string) option" where
  "trigger_of stmt =
     (let te = (case qs_kind stmt of
          KInsert \<Rightarrow> (in_table (qs_insert stmt), ''INSERT'')
        | KUpsert \<Rightarrow> (if up_table (qs_upsert stmt) = [] then in_table (qs_insert stmt) else up_table (qs_upsert stmt), ''INSERT'')
        | KUpdate \<Rightarrow> (ud_table (qs_update stmt), ''UPDATE'')
        | KDelete \<Rightarrow> (dl_table (qs_delete stmt), ''DELETE'')
        | _ \<Rightarrow> ([], []))
      in if fst te = [] then None else Some te)"

definition trigger_bodies :: "query_stmt \<Rightarrow> session_state \<Rightarrow> string list" where
  "trigger_bodies stmt s = (case trigger_of stmt of
     None \<Rightarrow> []
   | Some (table, event) \<Rightarrow> map tr_body_sql (TriggersForTable (db_cat (sn_db s)) table event))"

definition run_sql :: "(query_stmt \<Rightarrow> session_state \<Rightarrow> session_answer) \<Rightarrow> session_env \<Rightarrow> string \<Rightarrow> session_state \<Rightarrow> session_answer"
  where
  "run_sql exec env sql s = (case sn_parse env sql of
     Inl st \<Rightarrow> Some (s\<lparr>sn_last_error := st_message st\<rparr>, Inl st)
   | Inr stmt \<Rightarrow> map_option (\<lambda>(s1, r). (case r of
         Inl st \<Rightarrow> s1\<lparr>sn_last_error := st_message st\<rparr> | Inr _ \<Rightarrow> s1, r)) (exec stmt s))"

text \<open>What the bodies of the triggers answer is ignored.\<close>

fun fire :: "(string \<Rightarrow> session_state \<Rightarrow> session_answer) \<Rightarrow> string list \<Rightarrow> session_state \<Rightarrow> session_state option" where
  "fire sql [] s = Some s"
| "fire sql (b # bs) s = Option.bind (sql b s) (\<lambda>(s1, _). fire sql bs s1)"

definition run_write :: "(string \<Rightarrow> session_state \<Rightarrow> session_answer) \<Rightarrow> session_env \<Rightarrow> query_stmt \<Rightarrow> session_state \<Rightarrow> session_answer"
  where
  "run_write sql env stmt s =
     (if sn_monitored env \<and> IsWriteStatement (qs_kind stmt) \<and> \<not> sn_allows_write env
      then refuse (Status_Corrupt ''rar monitor: write circuit open'') s
      else Option.bind (run_executor env stmt s) (\<lambda>(s1, r). case r of
          Inl st \<Rightarrow> Some (s1, Inl st)
        | Inr rs \<Rightarrow> map_option (\<lambda>s2. (s2, Inr rs)) (fire sql (trigger_bodies stmt s1) s1)))"

definition is_rar_status :: "string \<Rightarrow> bool" where
  "is_rar_status raw \<longleftrightarrow> drop_back (\<lambda>c. c = CHR '';'') (Upper (Trim raw)) = ''PRAGMA RAR_STATUS''"

definition run_stmt :: "(string \<Rightarrow> session_state \<Rightarrow> session_answer) \<Rightarrow> session_env \<Rightarrow> query_stmt \<Rightarrow> session_state \<Rightarrow> session_answer"
  where
  "run_stmt sql env stmt s =
     (case qs_kind stmt of
        KOpen \<Rightarrow> refuse (Status_InvalidArgument ''OPEN must use Database::Open'') s
      | KPrepare \<Rightarrow>
          if fst (qs_prepare stmt) = [] \<or> snd (qs_prepare stmt) = []
          then refuse (Status_InvalidArgument ''invalid PREPARE'') s
          else Some (s\<lparr>sn_prepared := (sn_prepared s)(fst (qs_prepare stmt) \<mapsto> snd (qs_prepare stmt))\<rparr>, Inr [])
      | KExecute \<Rightarrow> (case sn_prepared s (qs_execute stmt) of
            None \<Rightarrow> refuse (Status_InvalidArgument ''unknown prepared statement'') s
          | Some body \<Rightarrow> sql body s)
      | KBeginTxn \<Rightarrow> session_begin env s
      | KCommit \<Rightarrow> session_commit env s
      | KRollback \<Rightarrow> session_rollback env stmt s
      | KSavepoint \<Rightarrow> session_savepoint stmt s
      | KPragma \<Rightarrow> if is_rar_status (qs_raw_sql stmt) then Some (s, Inr (sn_status_rows env))
          else run_write sql env stmt s
      | _ \<Rightarrow> run_write sql env stmt s)"

fun Execute :: "nat \<Rightarrow> session_env \<Rightarrow> query_stmt \<Rightarrow> session_state \<Rightarrow> session_answer" where
  "Execute 0 env stmt s = None"
| "Execute (Suc n) env stmt s = run_stmt (run_sql (Execute n env) env) env stmt s"

definition ExecuteSql :: "nat \<Rightarrow> session_env \<Rightarrow> string \<Rightarrow> session_state \<Rightarrow> session_answer" where
  "ExecuteSql n env sql s = run_sql (Execute n env) env sql s"

section \<open>Fuel\<close>

lemma run_sql_mono:
  assumes "\<And>stmt s r. exec stmt s = Some r \<Longrightarrow> exec' stmt s = Some r" "run_sql exec env sql s = Some r"
  shows "run_sql exec' env sql s = Some r"
proof (cases "sn_parse env sql")
  case (Inr stmt)
  then obtain x where "exec stmt s = Some x" using assms(2) by (cases "exec stmt s") (auto simp: run_sql_def)
  with assms(1) [OF this] Inr assms(2) show ?thesis by (simp add: run_sql_def)
qed (use assms(2) in \<open>simp add: run_sql_def\<close>)

lemma fire_mono:
  assumes "\<And>b s r. sql b s = Some r \<Longrightarrow> sql' b s = Some r"
  shows "fire sql bs s = Some r \<Longrightarrow> fire sql' bs s = Some r"
  by (induction bs arbitrary: s) (auto simp: bind_eq_Some_conv dest!: assms)

lemma run_write_mono:
  assumes "\<And>b s r. sql b s = Some r \<Longrightarrow> sql' b s = Some r" "run_write sql env stmt s = Some r"
  shows "run_write sql' env stmt s = Some r"
proof (cases "run_executor env stmt s")
  case (Some x)
  obtain s1 r1 where x: "x = (s1, r1)" by (cases x)
  show ?thesis
  proof (cases r1)
    case (Inr rs)
    show ?thesis
    proof (cases "fire sql (trigger_bodies stmt s1) s1")
      case (Some s2)
      from fire_mono [of sql sql', OF assms(1) Some]
      show ?thesis using assms(2) Some Inr x \<open>run_executor env stmt s = Some x\<close>
        by (auto simp: run_write_def split: if_splits)
    qed (use assms(2) Some x Inr in \<open>simp add: run_write_def split: if_splits\<close>)
  qed (use assms(2) Some x in \<open>auto simp: run_write_def split: if_splits\<close>)
qed (use assms(2) in \<open>auto simp: run_write_def split: if_splits\<close>)

lemma run_stmt_mono:
  assumes sql: "\<And>b s r. sql b s = Some r \<Longrightarrow> sql' b s = Some r" and r: "run_stmt sql env stmt s = Some r"
  shows "run_stmt sql' env stmt s = Some r"
proof -
  have w: "run_write sql env stmt s = Some r \<Longrightarrow> run_write sql' env stmt s = Some r"
    by (rule run_write_mono [OF sql])
  show ?thesis
  proof (cases "qs_kind stmt = KExecute")
    case True
    with r sql show ?thesis by (auto simp: run_stmt_def split: option.splits)
  next
    case False
    with r w show ?thesis by (cases "qs_kind stmt") (simp_all add: run_stmt_def split: if_splits)
  qed
qed

lemma Execute_mono: "Execute n env stmt s = Some r \<Longrightarrow> Execute (Suc n) env stmt s = Some r"
proof (induction n arbitrary: stmt s r)
  case (Suc n)
  have sql: "run_sql (Execute n env) env sql s = Some r \<Longrightarrow> run_sql (Execute (Suc n) env) env sql s = Some r" for sql s r
    using run_sql_mono [of "Execute n env" "Execute (Suc n) env", OF Suc.IH] by blast
  from Suc.prems have "run_stmt (run_sql (Execute n env) env) env stmt s = Some r" by simp
  from run_stmt_mono [OF sql this] show ?case by simp
qed simp

end
