(* ===== verification/SelectFacts.thy ===== *)
theory SelectFacts
  imports SqlQuery KeyRanges
begin

text \<open>
  What queries compute: aggregation with and without groups, the numbering of window functions, and recursive
  common table expressions.
\<close>

section \<open>A sort and a hash order\<close>

fun insort_by :: "('a \<Rightarrow> 'a \<Rightarrow> bool) \<Rightarrow> 'a \<Rightarrow> 'a list \<Rightarrow> 'a list" where
  "insort_by lt x [] = [x]"
| "insort_by lt x (y # ys) = (if lt y x then y # insort_by lt x ys else x # y # ys)"

definition insertion_sort :: "('a \<Rightarrow> 'a \<Rightarrow> bool) \<Rightarrow> 'a list \<Rightarrow> 'a list" where
  "insertion_sort lt xs = foldr (insort_by lt) xs []"

lemma mset_insort_by [simp]: "mset (insort_by lt x ys) = add_mset x (mset ys)"
  by (induction ys) auto

lemma set_insort_by [simp]: "set (insort_by lt x ys) = insert x (set ys)"
  using mset_insort_by [of lt x ys] by (metis set_mset_add_mset_insert set_mset_mset)

lemma sorted_insort_by:
  assumes "strict_weak lt" "sorted_wrt (\<lambda>a b. \<not> lt b a) ys"
  shows "sorted_wrt (\<lambda>a b. \<not> lt b a) (insort_by lt x ys)"
  using assms(2)
proof (induction ys)
  case (Cons y ys)
  show ?case
  proof (cases "lt y x")
    case True
    then have "\<not> lt x y" using assms(1) unfolding strict_weak_def by blast
    with Cons True show ?thesis by auto
  next
    case False
    then have "\<not> lt z x" if "z \<in> set ys" for z
      using Cons.prems that assms(1) unfolding strict_weak_def by (meson sorted_wrt.simps(2))
    with Cons False show ?thesis by auto
  qed
qed simp

lemma insertion_sort_ok:
  "mset (insertion_sort lt xs) = mset xs \<and> (strict_weak lt \<longrightarrow> sorted_wrt (\<lambda>a b. \<not> lt b a) (insertion_sort lt xs))"
  by (induction xs) (auto simp: insertion_sort_def sorted_insort_by)

definition demo_select_io :: select_io where
  "demo_select_io = \<lparr>sl_run = (\<lambda>_ _. Inr []), sl_sort = insertion_sort, sl_keys = (\<lambda>ks. ks)\<rparr>"

lemma demo_select_io_ok: "select_io_ok demo_select_io"
  by (simp add: select_io_ok_def demo_select_io_def insertion_sort_ok)

section \<open>Aggregates\<close>

lemma fold_update_lookup:
  "distinct (map f as) \<Longrightarrow> a \<in> set as \<Longrightarrow> foldl (\<lambda>g a. g(f a \<mapsto> h a)) g as (f a) = Some (h a)"
proof (induction as rule: rev_induct)
  case (snoc x as)
  then show ?case by (cases "a = x") (auto simp: image_iff)
qed simp

lemma fold_bucket_lookup:
  "distinct (map f as) \<Longrightarrow> a \<in> set as \<Longrightarrow> foldl (\<lambda>b a. b(f a := h a (b (f a)))) b as (f a) = h a (b (f a))"
proof (induction as arbitrary: b)
  case (Cons x as)
  have keep: "foldl (\<lambda>b a. b(f a := h a (b (f a)))) b as k = b k" if "k \<notin> f ` set as" for b k
    using that by (induction as arbitrary: b) auto
  show ?case
  proof (cases "a = x")
    case True
    with Cons.prems keep [of "f x" "b(f x := h x (b (f x)))"] show ?thesis
      by (simp add: image_iff fun_upd_same del: fun_upd_apply)
  next
    case False
    with Cons.prems have "f a \<noteq> f x" by (auto simp: image_iff)
    with Cons False show ?thesis by (simp add: fun_upd_other del: fun_upd_apply)
  qed
qed simp

lemma per_alias_collect:
  assumes "distinct (map ag_alias as)" "a \<in> set as"
  shows "per_alias as rows (ag_alias a) = collect a rows"
proof (induction rows rule: rev_induct)
  case (snoc r rows)
  then show ?case
    using fold_bucket_lookup [OF assms, of "\<lambda>a. Accumulate a r" "per_alias as rows"] by (simp add: per_alias_def)
qed (simp add: per_alias_def)

text \<open>
  C16. Without groups every aggregate is computed from its own column, whatever stands beside it.
  With \<open>GROUP BY\<close> all aggregates of a query share one bucket for a group: two sums over different columns
  always have the same value.
\<close>

theorem grouped_sums_equal:
  assumes "distinct (map ag_alias (q_aggregates sq))" "a \<in> set (q_aggregates sq)" "b \<in> set (q_aggregates sq)"
    "ag_func a = ''SUM''" "ag_func b = ''SUM''" "aggregate_rows sl env sq rows = Inr gs" "g \<in> set gs"
  shows "if q_group_by sq = [] then g (ag_alias a) = Some (agg_Finalize a (collect a rows) (length rows) CHR 0x00)
    else g (ag_alias a) = g (ag_alias b)"
proof (cases "q_group_by sq")
  case Nil
  with assms(2,6,7) have "g = aggregate_row (q_aggregates sq) rows"
    by (auto simp: aggregate_rows_def Let_def split: if_splits)
  have "g (ag_alias a) = Some (agg_Finalize a (per_alias (q_aggregates sq) rows (ag_alias a)) (length rows) CHR 0x00)"
    unfolding \<open>g = _\<close> aggregate_row_def by (rule fold_update_lookup [OF assms(1,2)])
  with Nil per_alias_collect [OF assms(1,2)] show ?thesis by simp
next
  case (Cons col cols)
  with assms(6,7) obtain gk where g: "g = group_row col (q_aggregates sq) rows gk"
    by (auto simp: aggregate_rows_def Let_def split: if_splits)
  have "agg_Finalize a = agg_Finalize b"
    using assms(4,5) by (intro ext) (simp add: agg_Finalize_def)
  with Cons assms(4,5) show ?thesis
    unfolding g group_row_def Let_def
    by (simp add: fold_update_lookup [OF assms(1,2)] fold_update_lookup [OF assms(1,3)])
qed

section \<open>Window functions\<close>

lemma strict_weak_window: "strict_weak (window_less wq)"
  unfolding strict_weak_def window_less_def Let_def by (auto simp: not_less split: if_splits)

lemma window_rows_states: "window_rows wq k rs s =
    map (\<lambda>i. (FieldVal (rs ! i) ''key'', dec_nat (window_number k (foldl (\<lambda>s r. window_step wq r s) s (take (Suc i) rs)))))
      [0..<length rs]"
proof (induction rs arbitrary: s)
  case (Cons r rs)
  have "[0..<length (r # rs)] = 0 # map Suc [0..<length rs]"
    by (simp add: map_Suc_upt upt_conv_Cons del: upt_Suc)
  with Cons show ?case by (simp add: Let_def comp_def)
qed simp

text \<open>The values of the order in the partition of the last row, and the ranks of that row. An empty value at the
  beginning of a partition does not count as a change.\<close>

definition order_values :: "window_query \<Rightarrow> row_map list \<Rightarrow> string list" where
  "order_values wq rs = map (order_value wq) (filter (\<lambda>r. partition_of wq r = partition_of wq (last rs)) rs)"

definition rank_of :: "string list \<Rightarrow> nat" where
  "rank_of vals = (if hd vals = [] \<and> last vals = [] then 0 else Suc (length (takeWhile (\<lambda>v. v \<noteq> last vals) vals)))"

definition dense_rank_of :: "string list \<Rightarrow> nat" where
  "dense_rank_of vals = card (set vals) - (if hd vals = [] then 1 else 0)"

lemma takeWhile_all: "x \<notin> set xs \<Longrightarrow> takeWhile (\<lambda>v. v \<noteq> x) (xs @ [x]) = xs"
  by (induction xs) auto

lemma takeWhile_found: "x \<in> set xs \<Longrightarrow> takeWhile (\<lambda>v. v \<noteq> x) (xs @ ys) = takeWhile (\<lambda>v. v \<noteq> x) xs"
  by (induction xs) auto

lemma ranks_same:
  assumes "vals \<noteq> []"
  shows "rank_of (vals @ [last vals]) = rank_of vals" "dense_rank_of (vals @ [last vals]) = dense_rank_of vals"
  using assms by (simp_all add: rank_of_def dense_rank_of_def takeWhile_found insert_absorb)

lemma ranks_new:
  assumes "vals \<noteq> []" "v \<notin> set vals"
  shows "rank_of (vals @ [v]) = Suc (length vals)" "dense_rank_of (vals @ [v]) = Suc (dense_rank_of vals)"
proof -
  have "hd vals \<noteq> v" using assms by auto
  then show "rank_of (vals @ [v]) = Suc (length vals)" using assms by (auto simp: rank_of_def takeWhile_all)
  have "0 < card (set vals)" using assms by (simp add: card_gt_0_iff)
  then show "dense_rank_of (vals @ [v]) = Suc (dense_rank_of vals)" using assms by (simp add: dense_rank_of_def)
qed

lemma ranks_single: "rank_of [v] = (if v = [] then 0 else 1)" "dense_rank_of [v] = (if v = [] then 0 else 1)"
  by (simp_all add: rank_of_def dense_rank_of_def)

abbreviation window_states :: "window_query \<Rightarrow> row_map list \<Rightarrow> window_state" where
  "window_states wq rs \<equiv> foldl (\<lambda>s r. window_step wq r s) (window_start []) rs"

definition counts_of :: "string \<Rightarrow> string list \<Rightarrow> window_state" where
  "counts_of p vals = \<lparr>ws_partition = p, ws_row = length vals, ws_dense = dense_rank_of vals, ws_rank = rank_of vals,
     ws_order = last vals\<rparr>"

lemma window_step_first: "window_step wq r (window_start (partition_of wq r)) = counts_of (partition_of wq r) [order_value wq r]"
  by (simp add: window_step_def window_start_def counts_of_def ranks_single Let_def)

lemma window_step_new:
  "partition_of wq r \<noteq> ws_partition s \<Longrightarrow> window_step wq r s = counts_of (partition_of wq r) [order_value wq r]"
  by (simp add: window_step_def window_start_def counts_of_def ranks_single Let_def)

lemma window_step_same:
  assumes "vals \<noteq> []" "order_value wq r = last vals \<or> order_value wq r \<notin> set vals"
  shows "window_step wq r (counts_of (partition_of wq r) vals) = counts_of (partition_of wq r) (vals @ [order_value wq r])"
proof (cases "order_value wq r = last vals")
  case True
  then show ?thesis using ranks_same [OF assms(1)] by (simp add: window_step_def counts_of_def Let_def)
next
  case False
  with assms have "order_value wq r \<notin> set vals" by blast
  from ranks_new [OF assms(1) this] False show ?thesis by (simp add: window_step_def counts_of_def Let_def)
qed

lemma window_le_partition: "\<not> window_less wq b a \<Longrightarrow> partition_of wq a \<le> partition_of wq b"
  by (auto simp: window_less_def Let_def split: if_splits)

text \<open>In a sorted list equal values of a partition are next to each other.\<close>

lemma window_grouped:
  assumes "\<not> window_less wq y x" "\<not> window_less wq r y" "partition_of wq x = partition_of wq r"
    "partition_of wq y = partition_of wq r" "order_value wq x = order_value wq r"
  shows "order_value wq y = order_value wq r"
  using assms by (auto simp: window_less_def Let_def split: if_splits)

lemma window_state_row:
  assumes "sorted_wrt (\<lambda>a b. \<not> window_less wq b a) rs" "rs \<noteq> []"
  shows "window_states wq rs = counts_of (partition_of wq (last rs)) (order_values wq rs)"
  using assms
proof (induction rs rule: rev_induct)
  case (snoc r rs)
  show ?case
  proof (cases "rs = []")
    case True
    then show ?thesis
      using window_step_first [of wq r] window_step_new [of wq r "window_start []"]
      by (cases "partition_of wq r = []") (auto simp: order_values_def window_start_def)
  next
    case False
    with snoc have IH: "window_states wq rs = counts_of (partition_of wq (last rs)) (order_values wq rs)"
      by (simp add: sorted_wrt_append)
    have srt: "\<not> window_less wq r x" if "x \<in> set rs" for x using snoc.prems that by (simp add: sorted_wrt_append)
    have srt_last: "\<not> window_less wq (last rs) x" if "x \<in> set rs" for x
    proof (cases "x = last rs")
      case True
      then show ?thesis using strict_weak_window [of wq] unfolding strict_weak_def by blast
    next
      case neq: False
      obtain us y where "rs = us @ [y]" using False by (cases rs rule: rev_cases) simp_all
      then show ?thesis using snoc.prems(1) that neq by (auto simp: sorted_wrt_append)
    qed
    have last: "last rs \<in> set rs" using False by simp
    show ?thesis
    proof (cases "partition_of wq r = partition_of wq (last rs)")
      case True
      have ne: "order_values wq rs \<noteq> []" and l: "last (order_values wq rs) = order_value wq (last rs)"
        using False by (cases rs rule: rev_cases; simp add: order_values_def)+
      have "order_value wq r = last (order_values wq rs)" if mem: "order_value wq r \<in> set (order_values wq rs)"
      proof -
        obtain x where "x \<in> set rs" "partition_of wq x = partition_of wq r" "order_value wq x = order_value wq r"
          using mem True by (auto simp: order_values_def)
        then show ?thesis using window_grouped [OF srt_last srt] last True l by metis
      qed
      then have "window_step wq r (counts_of (partition_of wq r) (order_values wq rs)) =
          counts_of (partition_of wq r) (order_values wq rs @ [order_value wq r])"
        using ne by (intro window_step_same) auto
      moreover have "order_values wq (rs @ [r]) = order_values wq rs @ [order_value wq r]"
        using True by (simp add: order_values_def)
      ultimately show ?thesis using IH True by simp
    next
      case diff: False
      have "partition_of wq x \<noteq> partition_of wq r" if x: "x \<in> set rs" for x
        using window_le_partition [OF srt_last [OF x]] window_le_partition [OF srt [OF last]] diff by auto
      then have "order_values wq (rs @ [r]) = [order_value wq r]" by (simp add: order_values_def filter_empty_conv)
      then show ?thesis using IH diff window_step_new [of wq r "window_states wq rs"] by (simp add: counts_of_def)
    qed
  qed
qed simp

text \<open>
  C18. The numbers of the window functions, for every row of the sorted result, in terms of the values \<open>vals\<close> of the order
  in its partition up to the row: \<open>ROW_NUMBER\<close> is their count, \<open>RANK\<close> the position of the first of them that is equal to the
  value of the row, \<open>DENSE_RANK\<close> the number of different ones; but when a partition begins with an empty value, \<open>RANK\<close> is zero
  as long as the value is empty and \<open>DENSE_RANK\<close> one less. The rows are those of the query.
\<close>

theorem row_numbers_count:
  assumes "select_io_ok sl" "rs = sl_sort sl (window_less wq) rows" "i < length rs"
    "vals = order_values wq (take (Suc i) rs)"
  shows "window_rows wq k rs (window_start []) ! i = (FieldVal (rs ! i) ''key'', dec_nat (case k of
      WinRowNumber \<Rightarrow> length vals | WinRank \<Rightarrow> rank_of vals | WinDense \<Rightarrow> dense_rank_of vals)) \<and> mset rs = mset rows"
proof
  have sorted: "sorted_wrt (\<lambda>a b. \<not> window_less wq b a) rs" and "mset rs = mset rows"
    using assms(1,2) strict_weak_window by (auto simp: select_io_ok_def)
  then show "mset rs = mset rows" by simp
  have "sorted_wrt (\<lambda>a b. \<not> window_less wq b a) (take (Suc i) rs)" using sorted by (rule sorted_wrt_take)
  moreover have "take (Suc i) rs \<noteq> []" using assms(3) by auto
  ultimately have "window_states wq (take (Suc i) rs) = counts_of (partition_of wq (last (take (Suc i) rs))) vals"
    unfolding assms(4) by (rule window_state_row)
  then show "window_rows wq k rs (window_start []) ! i = (FieldVal (rs ! i) ''key'', dec_nat (case k of
      WinRowNumber \<Rightarrow> length vals | WinRank \<Rightarrow> rank_of vals | WinDense \<Rightarrow> dense_rank_of vals))"
    using assms(3) by (simp add: window_rows_states window_number_def counts_of_def split: window_kind.split)
qed

section \<open>Recursive entries\<close>

lemma cte_iterate_same:
  assumes "\<And>rows d. I d \<Longrightarrow> \<exists>d1. I d1 \<and> CollectSelectRows ev sl q (ctes(name \<mapsto> rows)) d = Some (d1, Inr (x # xs))" "I d"
  shows "\<exists>d1. I d1 \<and> cte_iterate n ev sl name q ctes rows d = Some (d1, Inr (rows @ concat (replicate n (x # xs))))"
  using assms
proof (induction n arbitrary: ctes rows d)
  case (Suc n)
  obtain d1 where d1: "I d1" "CollectSelectRows ev sl q (ctes(name \<mapsto> rows)) d = Some (d1, Inr (x # xs))"
    using Suc.prems by blast
  have "\<exists>d1. I d1 \<and> CollectSelectRows ev sl q ((ctes(name \<mapsto> rows))(name \<mapsto> rows')) d = Some (d1, Inr (x # xs))"
    if "I d" for rows' d
    using Suc.prems(1) [OF that, of rows'] by (simp only: fun_upd_upd)
  from Suc.IH [of "ctes(name \<mapsto> rows)" d1 "rows @ x # xs", OF this d1(1)] d1 show ?case by (simp del: fun_upd_apply)
qed simp

text \<open>
  An entry of \<open>WITH RECURSIVE\<close> is evaluated again and again even when its query does not read it: as long as
  the query keeps giving the same rows, the entry ends up with 33 copies of them.
\<close>

theorem recursive_entry_copies:
  assumes "\<And>c d. c = ctes \<or> (\<exists>rows. c = ctes(name \<mapsto> rows)) \<Longrightarrow> I d \<Longrightarrow>
      \<exists>d1. I d1 \<and> CollectSelectRows ev sl q c d = Some (d1, Inr (x # xs))" "I d"
  shows "\<exists>d1. I d1 \<and> cte_entries_run ev sl True [(name, q)] ctes d =
      Some (d1, Inr (ctes(name \<mapsto> concat (replicate 33 (x # xs)))))"
proof -
  obtain d1 where d1: "I d1" "CollectSelectRows ev sl q ctes d = Some (d1, Inr (x # xs))" using assms by blast
  obtain d2 where "I d2" "cte_iterate 32 ev sl name q ctes (x # xs) d1 =
      Some (d2, Inr ((x # xs) @ concat (replicate 32 (x # xs))))"
    using cte_iterate_same [of I ev sl q ctes name x xs d1 32 "x # xs"] assms(1) d1(1) by blast
  moreover have "(x # xs) @ concat (replicate 32 (x # xs)) = concat (replicate (Suc 32) (x # xs))"
    by (simp only: replicate_Suc concat.simps)
  moreover have "Suc 32 = 33" by simp
  ultimately show ?thesis using d1 by (auto simp: seq_def ret_def)
qed

text \<open>An entry that reads another one.\<close>

definition demo_env :: sql_env where
  "demo_env = \<lparr>qv_io = demo_io, qv_log = \<lparr>li_open = True, li_write = True, li_now = 0\<rparr>, qv_tier = KSync,
     qv_store = None, qv_iter = (\<lambda>_. []), qv_parse = (\<lambda>_. None), qv_sub = (\<lambda>_ _. TFalse),
     qv_sub_error = (\<lambda>_. Status_Ok), qv_touched = 0\<rparr>"

definition demo_db :: db where
  "demo_db = \<lparr>db_cat = empty_catalog, db_ses = demo_session, db_log = None, db_saved = None\<rparr>"

definition read_rows :: "string \<Rightarrow> select_query" where
  "read_rows name = SelectQuery [''*''] name [] None [] None [] None None False [] [] None None"

theorem recursive_entry_copies_witness:
  "\<exists>d1. db_cat d1 = empty_catalog \<and>
    cte_entries_run demo_env demo_select_io True [(''b'', read_rows ''a'')]
      [''a'' \<mapsto> [[''key'' \<mapsto> ''k'', ''value'' \<mapsto> ''v'']]] demo_db =
    Some (d1, Inr [''a'' \<mapsto> [[''key'' \<mapsto> ''k'', ''value'' \<mapsto> ''v'']],
      ''b'' \<mapsto> replicate 33 [''key'' \<mapsto> ''k'', ''value'' \<mapsto> ''v'']])"
proof -
  let ?r = "[''key'' \<mapsto> ''k'', ''value'' \<mapsto> ''v''] :: row_map"
  have read: "CollectSelectRows demo_env demo_select_io (read_rows ''a'') c d = Some (d, Inr [?r])"
    if "c ''a'' = Some [?r]" "db_cat d = empty_catalog" for c d
    using that
    by (simp add: CollectSelectRows_def with_catalog_def empty_catalog_def FindView_def FindTable_def seq_def ret_def
        ExecSelectRich_def read_rows_def base_rows_def need_def check_depth_def result_def demo_env_def PassesFilter_def
        finish_rows_def aggregate_rows_def distinct_rows_def order_rows_def limit_rows_def output_row_def
        plain_output_def named_projection_def FieldVal_def after_dot_def find_str_def VirtualTableSchema_def
        default_schema_def field_or_def CheckMicPagesBudget_def RowsFromExecuteResult_def status_defs)
  have hyp: "\<exists>d1. db_cat d1 = empty_catalog \<and>
      CollectSelectRows demo_env demo_select_io (read_rows ''a'') c d = Some (d1, Inr [?r])"
    if "c = [''a'' \<mapsto> [?r]] \<or> (\<exists>rows. c = [''a'' \<mapsto> [?r], ''b'' \<mapsto> rows])" "db_cat d = empty_catalog" for c d
  proof -
    from that(1) have "c ''a'' = Some [?r]" by auto
    with read that(2) show ?thesis by blast
  qed
  have copies: "concat (replicate 33 [?r]) = replicate 33 ?r" by (simp add: numeral_eq_Suc)
  have "db_cat demo_db = empty_catalog" by (simp add: demo_db_def)
  from recursive_entry_copies [of "[''a'' \<mapsto> [?r]]" "''b''" "\<lambda>d. db_cat d = empty_catalog", OF hyp this]
  show ?thesis unfolding copies .
qed

section \<open>Concrete queries\<close>

definition sum_of :: "string \<Rightarrow> string \<Rightarrow> agg_spec" where
  "sum_of col alias = default_agg\<lparr>ag_func := ''SUM'', ag_column := col, ag_alias := alias\<rparr>"

definition two_sums :: select_query where
  "two_sums = SelectQuery [] ''t'' [] None [''g''] None [] None None False [sum_of ''a'' ''s'', sum_of ''b'' ''t''] [] None None"

definition one_group :: "row_map list" where
  "one_group = [[''g'' \<mapsto> ''x'', ''a'' \<mapsto> ''1'', ''b'' \<mapsto> ''10'']]"

theorem grouped_sums_equal_witness:
  "aggregate_rows demo_select_io plain_env two_sums one_group =
     Inr [group_row ''g'' (q_aggregates two_sums) one_group ''x''] \<and>
   group_row ''g'' (q_aggregates two_sums) one_group ''x'' ''s'' = group_row ''g'' (q_aggregates two_sums) one_group ''x'' ''t''"
proof -
  have run: "aggregate_rows demo_select_io plain_env two_sums one_group =
      Inr [group_row ''g'' (q_aggregates two_sums) one_group ''x'']"
    by (simp add: aggregate_rows_def two_sums_def one_group_def demo_select_io_def validate_all_def agg_Validate_def
        sum_of_def default_agg_def status_defs FieldVal_def PassesFilter_def)
  show ?thesis
    using grouped_sums_equal [OF _ _ _ _ _ run, of "sum_of ''a'' ''s''" "sum_of ''b'' ''t''"] run
    by (simp add: two_sums_def sum_of_def default_agg_def)
qed

definition demo_window :: window_query where
  "demo_window = \<lparr>wq_func = ''ROW_NUMBER'', wq_partition_col = ''p'', wq_order_col = [], wq_order_desc = True,
     wq_query = read_rows ''t''\<rparr>"

definition demo_row :: "string \<Rightarrow> row_map" where
  "demo_row k = [''key'' \<mapsto> k, ''p'' \<mapsto> ''x'']"

theorem row_numbers_count_witness:
  "sl_sort demo_select_io (window_less demo_window) [demo_row ''a'', demo_row ''b''] = [demo_row ''b'', demo_row ''a''] \<and>
   window_rows demo_window WinRank [demo_row ''b'', demo_row ''a''] (window_start []) ! 1 = (''a'', ''2'')"
proof -
  have sort: "sl_sort demo_select_io (window_less demo_window) [demo_row ''a'', demo_row ''b''] =
      [demo_row ''b'', demo_row ''a'']"
    by (simp add: demo_select_io_def insertion_sort_def window_less_def partition_of_def order_value_def FieldVal_def
        demo_row_def demo_window_def char_less)
  have vals: "order_values demo_window (take (Suc 1) [demo_row ''b'', demo_row ''a'']) = [''b'', ''a'']"
    by (simp add: order_values_def order_value_def partition_of_def FieldVal_def demo_row_def demo_window_def)
  have "dec_nat 2 = ''2''" by code_simp
  then show ?thesis
    using row_numbers_count [OF demo_select_io_ok sort [symmetric] _ vals [symmetric], of WinRank] sort
    by (simp add: rank_of_def FieldVal_def demo_row_def numeral_2_eq_2)
qed

end
