(* ===== verification/SessionFacts.thy ===== *)
theory SessionFacts
  imports SqlSession SelectFacts
begin

text \<open>What sessions do: triggers that fire themselves.\<close>

lemma fire_none: "sql b s = None \<Longrightarrow> fire sql (b # bs) s = None"
  by simp

lemma fire_earlier:
  assumes "\<And>b s s1 r. b \<in> set bs \<Longrightarrow> I s \<Longrightarrow> sql b s = Some (s1, r) \<Longrightarrow> I s1" "\<And>s. I s \<Longrightarrow> sql c s = None"
  shows "I s \<Longrightarrow> fire sql (bs @ c # cs) s = None"
  using assms(1)
proof (induction bs arbitrary: s)
  case Nil
  then show ?case using assms(2) by (simp add: fire_none)
next
  case (Cons b bs)
  have "I s1" if "sql b s = Some (s1, r)" for s1 r using Cons.prems(2) [OF _ Cons.prems(1) that] by simp
  moreover have "\<And>b s s1 r. b \<in> set bs \<Longrightarrow> I s \<Longrightarrow> sql b s = Some (s1, r) \<Longrightarrow> I s1"
    using Cons.prems(2) by (meson list.set_intros(2))
  ultimately show ?case using Cons.IH by (cases "sql b s") auto
qed

text \<open>
  C17. A statement that keeps firing its own text never returns. Let \<open>I\<close> be states of the session in which running the
  parsed statement, an insertion, update, deletion or upsert, succeeds, leads to such a state again, and finds among the
  triggers to fire one whose body is the text, and let the bodies of the triggers before it, where they return, keep to
  \<open>I\<close>. Then there is no fuel with which the text returns: the code has no bound on the depth of triggers, so it runs out of
  stack. An insertion that is ignored because its row exists is such a statement. One that fails when it is
  repeated is not: it ends the recursion.
\<close>

theorem self_trigger_never_returns:
  assumes "sn_parse env sql = Inr stmt" "qs_kind stmt \<in> {KInsert, KUpdate, KDelete, KUpsert}" "sn_allows_write env"
    "\<And>s. I s \<Longrightarrow> \<exists>s1 rs bs cs. run_executor env stmt s = Some (s1, Inr rs) \<and> I s1 \<and>
      trigger_bodies stmt s1 = bs @ sql # cs \<and> set bs \<subseteq> B"
    "\<And>b m s s1 r. b \<in> B \<Longrightarrow> I s \<Longrightarrow> ExecuteSql m env b s = Some (s1, r) \<Longrightarrow> I s1"
    "I s"
  shows "ExecuteSql n env sql s = None"
  using assms(6)
proof (induction n arbitrary: s)
  case 0
  then show ?case using assms(1) by (simp add: ExecuteSql_def run_sql_def)
next
  case (Suc n)
  obtain s1 rs bs cs where r: "run_executor env stmt s = Some (s1, Inr rs)" "I s1" "trigger_bodies stmt s1 = bs @ sql # cs"
    "set bs \<subseteq> B" using assms(4) [OF Suc.prems] by blast
  have "fire (ExecuteSql n env) (bs @ sql # cs) s1 = None"
    using assms(5) r(4) Suc.IH by (intro fire_earlier [where I = I] r(2)) blast+
  then have "run_write (ExecuteSql n env) env stmt s = None"
    using r(1,3) assms(3) by (simp add: run_write_def)
  then have "Execute (Suc n) env stmt s = None"
    using assms(2) by (auto simp: run_stmt_def ExecuteSql_def [abs_def])
  then show ?case using assms(1) by (simp add: ExecuteSql_def run_sql_def)
qed

section \<open>An insertion that is ignored\<close>

definition kept_shard :: shard where
  "kept_shard = (demo_shard KBalancedClass)\<lparr>sh_mem := [(bytes_of_str ''1:k'', entry_for kPut [] 0 1)]\<rparr>"

definition demo_table :: table_schema where
  "demo_table = default_schema\<lparr>ts_id := 1, ts_name := ''t''\<rparr>"

definition demo_trigger :: trigger_def where
  "demo_trigger = \<lparr>tr_name = ''g'', tr_table = ''t'', tr_event = ''INSERT'', tr_body_sql = ''again''\<rparr>"

definition kept_db :: db where
  "kept_db = \<lparr>db_cat = empty_catalog\<lparr>cat_tables := [''t'' \<mapsto> demo_table], cat_trigger_list := [demo_trigger]\<rparr>,
     db_ses = (no_txn, demo_engine (Some kept_shard)), db_log = None, db_saved = None\<rparr>"

definition ignored_insert :: query_stmt where
  "ignored_insert = default_stmt\<lparr>qs_kind := KInsert, qs_insert := default_insert\<lparr>in_table := ''t'', in_key := ''k'',
     in_value := ''v'', in_conflict_action := ''IGNORE''\<rparr>\<rparr>"

definition demo_session_env :: session_env where
  "demo_session_env = \<lparr>sn_env = demo_env, sn_select = demo_select_io, sn_parse = (\<lambda>_. Inr ignored_insert),
     sn_monitored = False, sn_allows_write = True, sn_status_rows = []\<rparr>"

definition kept_session :: session_state where
  "kept_session = \<lparr>sn_db = kept_db, sn_prepared = Map.empty, sn_next_txn = 1, sn_last_error = []\<rparr>"

lemma kept_read: "shard_Get lib kept_shard (bytes_of_str ''1:k'') = Some (kept_shard, Inr [])"
proof -
  have "mem_Get (sh_mem kept_shard) (bytes_of_str ''1:k'') = Some (entry_for kPut [] 0 1)"
    by (simp add: kept_shard_def mem_Get_def)
  then have "ReadVisible lib kept_shard (bytes_of_str ''1:k'') snap = Some (Inr [])" for snap
    using Resolve_entry(1) [of kept_shard _ kPut "[]" 0 1] by simp
  moreover have "sh_stable kept_shard = 0"
    by (simp add: kept_shard_def demo_shard_def new_shard_def)
  moreover have "bytes_of_str ''1:k'' \<noteq> []" by (simp add: bytes_of_str_def)
  ultimately show ?thesis
    by (simp add: shard_Get_def Prepare_def Let_def status_defs)
qed

lemma set_shard_same: "shard_slot e i = Some s \<Longrightarrow> set_shard i s e = e"
  by (cases "i < length (en_shards e)") (simp_all add: shard_slot_def set_shard_def list_update_same_conv)

lemma kept_get: "EngineGet demo_io ''1:k'' (no_txn, demo_engine (Some kept_shard)) =
    Some ((no_txn, demo_engine (Some kept_shard)), Inr [])"
proof -
  let ?e = "demo_engine (Some kept_shard)" and ?k = "bytes_of_str ''1:k''"
  have "unat (route ?e ?k) < 4"
    unfolding route_demo by (simp add: unat_mod)
  then have slot: "shard_slot ?e (unat (route ?e ?k)) = Some kept_shard" by simp
  have "set_shard (unat (route ?e ?k)) kept_shard ?e = ?e"
    by (rule set_shard_same [OF slot])
  then have "Engine_Get demo_io ?k ?e = Some (?e, Inr [])"
    by (simp add: Engine_Get_def on_key_present [OF slot] kept_read)
  then show ?thesis by (simp add: EngineGet_def TxnGet_def no_txn_def str_of_bytes_def)
qed

lemma ignored_insert_run: "run_executor demo_session_env ignored_insert kept_session = Some (kept_session, Inr [])"
proof -
  have key: "EncodeRowKey 1 ''k'' = ''1:k''"
    by (simp add: EncodeRowKey_def colon_def) code_simp
  have "ExecInsert demo_env (qs_insert ignored_insert) kept_db = Some (kept_db, Inr ())"
    using kept_get
    by (simp add: ExecInsert_def with_catalog_def kept_db_def FindView_def empty_catalog_def find_table_def FindTable_def
        ignored_insert_def default_stmt_def default_insert_def demo_table_def default_schema_def BuildInsertFields_def
        seq_def ret_def Let_def key read_key_def on_session_def demo_env_def)
  moreover have "qs_kind ignored_insert = KInsert" "in_select_sql (qs_insert ignored_insert) = []"
    by (simp_all add: ignored_insert_def default_insert_def)
  ultimately show ?thesis
    by (simp add: run_executor_def UnifiedExecute_def ExecuteV3_def ExecuteV2_def no_rows_def seq_def ret_def
        demo_session_env_def kept_session_def)
qed

theorem self_trigger_never_returns_witness:
  "ExecuteSql 1000 demo_session_env ''again'' kept_session = None"
proof (rule self_trigger_never_returns [where stmt = ignored_insert and I = "\<lambda>s. s = kept_session" and B = "{}"])
  fix s
  assume "s = kept_session"
  moreover have "trigger_bodies ignored_insert kept_session = [] @ ''again'' # []"
    by (simp add: trigger_bodies_def trigger_of_def ignored_insert_def default_insert_def TriggersForTable_def
        kept_session_def kept_db_def demo_trigger_def)
  ultimately show "\<exists>s1 rs bs cs. run_executor demo_session_env ignored_insert s = Some (s1, Inr rs) \<and> s1 = kept_session \<and>
      trigger_bodies ignored_insert s1 = bs @ ''again'' # cs \<and> set bs \<subseteq> {}"
    using ignored_insert_run by fastforce
qed (simp_all add: demo_session_env_def ignored_insert_def)

end
