(* ===== verification/Spec2Isabelle.thy ===== *)
theory Spec2Isabelle
  imports Prelude Crc32 Digest Sha256 DualSlot Superblock Regions TLog Memtable VersionChains Codecs DataRecords PageFile PagedBTree PagedBTreeLookup PagedBTreeScan FairLock WalLog WalAppend WalReplay TxnSidecar Flusher DataIndex WritePipeline EngineConfig FsyncCoordinator ShardState ShardWrites ShardReads ShardRecovery ShardFacts ShardCheckpoint SqlText SqlDouble SqlValue SqlValueFacts SqlAst RowCodec Catalog CatalogStore SqlExpr EngineCore Transactions EngineFacts TransactionFacts SqlPlan SqlScan KeyRanges CatalogFacts SqlAgg StmtClass OpLog SqlDml SqlExec SqlSelect SqlQuery SqlSession SelectFacts SessionFacts
begin

text \<open>
  The eB-Tree storage engine (\<^verbatim>\<open>cpp/\<close> of the repository) and the SQL layer above it (\<^verbatim>\<open>sql/\<close>).

  \<^bold>\<open>The program.\<close> A shard keeps a write-ahead log, a memtable, a data file of versioned
  records, a page file with the persisted index, a chain of versions per key, a time log of
  snapshots, a superblock naming what a checkpoint made durable, and a region file for garbage
  collection. A write goes to the log and the memtable; a checkpoint flushes the memtable to
  the data file, folds the log into the version chains, persists the index, commits the
  superblock and truncates the log. Recovery loads the superblock and the data file and replays
  the log above the superblock's LSN. The SQL layer keeps rows and index entries of all tables under
  text keys of one engine; a session parses a statement, plans and executes it in its transaction,
  and then runs the triggers of the table.

  \<^bold>\<open>Theories.\<close>
  \<^item> \<open>Prelude\<close>: \<open>common/status.h\<close>, byte images of integers, file writes with faults, and the
    contract \<open>record_codec\<close> of self-delimiting records.
  \<^item> \<open>Crc32\<close>, \<open>Digest\<close>: \<open>common/crc32.h\<close> and \<open>common/digest.cc\<close>; the checksum detects bursts up to
    32 bits. \<open>Sha256\<close>: the algorithm of the standard (FIPS 180-4), its constants as the first bits of the fractional parts
    of roots of primes, and that the digest of the code computes it.
  \<^item> \<open>DualSlot\<close>: the contract of a two-slot file (write the older slot, read the newer valid one),
    interpreted by \<open>Superblock\<close> (\<open>concept/superblock\<close>) and \<open>Regions\<close> (\<open>concept/gc\<close>).
  \<^item> \<open>TLog\<close> (\<open>concept/tlog\<close>), \<open>Memtable\<close> (\<open>concept/memtable\<close>), \<open>VersionChains\<close> (\<open>concept/vcs\<close>).
  \<^item> \<open>Codecs\<close> (\<open>concept/codec\<close>), \<open>DataRecords\<close> (\<open>concept/datafile\<close>): compression, record format,
    loaders, the LSN index.
  \<^item> \<open>PageFile\<close> (\<open>concept/page\<close>): pages, their wrapped form, the cache, the contract \<open>page_store\<close>.
  \<^item> \<open>PagedBTree\<close>, \<open>PagedBTreeLookup\<close>, \<open>PagedBTreeScan\<close> (\<open>concept/btree\<close>): persisting an index into
    pages, lookups and scans over them.
  \<^item> \<open>FairLock\<close> (\<open>engine/snapshot_fair_rw_lock\<close>): the lock of a shard as a state machine.
  \<^item> \<open>WalLog\<close>, \<open>WalAppend\<close>, \<open>WalReplay\<close> (\<open>concept/wal\<close>): the log's formats and operations, the
    writer's invariant and crash recovery, replay into the memtable; \<open>TxnSidecar\<close> (\<open>txidx.cc\<close>).

  \<^item> \<open>Flusher\<close> (\<open>concept/flusher\<close>, \<open>concept/group_commit\<close>): writing a memtable into the data file, the index and
    the chains; \<open>WritePipeline\<close> (\<open>wal_batch_pipeline.cc\<close>): batches of writes.
  \<^item> \<open>EngineConfig\<close> (\<open>common/config\<close>): options and presets; \<open>FsyncCoordinator\<close> (\<open>wal_fsync_coordinator.cc\<close>): the
    threads that share a sync, as a state machine, its safety and its progress.
  \<^item> \<open>ShardState\<close>, \<open>ShardWrites\<close>, \<open>ShardReads\<close>, \<open>ShardRecovery\<close>: a shard of the engine
    (\<open>engine/shard_engine.cc\<close>) over the components above, with the resolvers of \<open>engine/\<close> for reads, scans and snapshots,
    the rules that choose when a write is synced, and the state of a recovery.
  \<^item> \<open>ShardFacts\<close>, \<open>ShardCheckpoint\<close>: what a client of a shard sees: a write followed by a read, by a
    crash and a reopening, by a checkpoint and a reopening. The checkpointed shard is reopened lazily, as the presets
    do: the committed values are then read through the index on disk and the LSN index of the data file, for which
    \<open>DataIndex\<close> shows that it points at the record of every committed key.

  \<^item> \<open>EngineCore\<close> (\<open>engine/engine.cc\<close>, \<open>shard_router.cc\<close>, \<open>range_ticket.cc\<close>): the engine over its shards;
    \<open>Transactions\<close> (\<open>sql/session/transaction_state.cc\<close>): snapshots, validation, commit, rollback,
    savepoints; \<open>EngineFacts\<close>, \<open>TransactionFacts\<close>: what they do to the shards.
  \<^item> \<open>SqlText\<close>, \<open>SqlDouble\<close>, \<open>SqlValue\<close>, \<open>SqlValueFacts\<close> (\<open>sql/eval\<close>): texts, IEEE doubles and
    values of the SQL layer; \<open>SqlAst\<close> (\<open>sql/ast\<close>); \<open>SqlExpr\<close>: expressions over a row; \<open>RowCodec\<close>, \<open>Catalog\<close>, \<open>CatalogStore\<close>
    (\<open>sql/catalog\<close>).
  \<^item> \<open>SqlPlan\<close> (\<open>sql/plan\<close>): index conditions and plan steps; \<open>SqlScan\<close> (\<open>sql/exec/physical_scan.cc\<close>,
    \<open>constraint_engine.cc\<close>, \<open>index_maintenance.h\<close>): scans of tables and indexes; \<open>KeyRanges\<close>, \<open>CatalogFacts\<close>: which
    keys a scan takes in, what the decoders of keys return, the invariant of the catalog.
  \<^item> \<open>SqlAgg\<close> (\<open>sql/eval/agg_engine.cc\<close>), \<open>StmtClass\<close> (\<open>sql/parse/core/stmt_classifier.cc\<close>), \<open>OpLog\<close> (\<open>sql/op_log\<close>).
  \<^item> \<open>SqlDml\<close>, \<open>SqlExec\<close>, \<open>SqlSelect\<close>, \<open>SqlQuery\<close> (\<open>sql/exec\<close>): the executors of statements over the state
    \<open>db\<close> (catalog, transaction, engine, operation log, saved catalog); \<open>SqlSession\<close>
    (\<open>sql/session/database.cc\<close>): statements of a session, prepared statements and triggers.
  \<^item> \<open>SelectFacts\<close>, \<open>SessionFacts\<close>: groups, window functions, recursive entries, triggers.

  \<^bold>\<open>Conventions.\<close> A file is its bytes, \<open>None\<close> when it does not exist. A write takes a \<open>fault\<close>: it
  completes, the file cannot be opened, or only a prefix reaches the file. A failing call returns
  \<open>Inl\<close> of a status. Operations that hold a mutex throughout are single steps. Offsets into files
  are natural numbers; LSNs, lengths in headers and epochs are words of their width and wrap.
  Loops recurse on the bytes or records left, so every function is total; the only fuel is the
  file length in \<open>scan_all\<close>, enough because a record takes at least one byte, and the depth of nested
  statements in \<open>SqlSession\<close>, where no bound is enough: \<open>Execute_mono\<close> shows that more fuel keeps every
  result, and a trigger that fires itself has none. A run of the executors is \<open>None\<close> when a shard does not
  return.

  \<^bold>\<open>What the lemmas show.\<close> For every on-disk format: images have fixed layouts, decoding inverts
  encoding, a torn tail loses only the torn record. For every component: an invariant kept by all
  operations and a refinement to a map, a list or a maximum. Several theorems state how the code
  deviates from what it means to do (see the findings of the manifest): these are marked by their
  texts.

  \<^bold>\<open>Parameters.\<close> The LZMA library, which is not part of this program, is the record \<open>lzma_lib\<close>;
  \<open>lzma_sound\<close> is its documented round trip. The hash of a key is a function argument where the code calls
  \<open>std::hash\<close>, and whether a file can be mapped is the argument \<open>mapping\<close> (a POSIX build of the
  code maps nothing, a Windows build maps the data file; the log is that of a POSIX build. The theorem on reopening
  holds with either value, the one on the mapped loader is about that loader alone). The SQL executors take from the record \<open>sql_env\<close> the iteration order of hash maps, the
  parser of checks and the answers of subqueries, and from \<open>select_io\<close> the sort of the standard library
  (its contract is \<open>select_io_ok\<close>) and the order of groups; the parser of statements is an argument.

  \<^bold>\<open>Not modelled.\<close> The operating-system calls under the memory-mapped windows, the Windows
  write-through path of the log, the error state that a failed append leaves in the stream of the data file, a failing
  save of the index files beside the data file at the end of a checkpoint (it is taken to succeed), the conversion to a
  number of the text that the key decoders return, statistics counters, observers and accessors for tests, the C API, the audit
  tool and its monitor, tests and vendored libraries. Of the page file the batched \<open>ReadPages\<close>; of the version
  store its index and page files. Of the SQL layer the parser (tokens to trees), the runner of subqueries,
  whose answers depend on caches and a last error that change while a condition is evaluated, the options
  and attestation at the opening of a database, and the rows left in the output of a statement that failed.
\<close>

end
